(* ===== verification/Prelude.thy ===== *)
theory Prelude
  imports Main "HOL-Library.Word" "HOL-Library.Monad_Syntax"
begin

text \<open>
  Shared ground of the development: the machine types of the C sources, the conventions for
  faults and return codes, the world a kernel module runs in (monitor state, allocator), and the
  generic lemmas every component uses.

  Conventions.  A C function that touches memory is a HOL function into \<open>option\<close>: \<open>None\<close> means
  that the C program has no defined continuation (NULL or dangling dereference, double free, a
  failed \<open>TEST\<close>, a loop that never ends); \<open>Some\<close> carries the return value and the new state.  A
  nullable pointer is a \<open>ptr option\<close>, so that dereferencing NULL in a \<open>do\<close> block is a fault by
  construction.  The \<open>int\<close> return codes of the sources are kept as 32-bit words.
\<close>

unbundle bit_operations_syntax

type_synonym u64 = "64 word"
type_synonym u32 = "32 word"
type_synonym c_int = "32 word"
type_synonym ptr = nat

named_theorems c_defs \<open>definitions of the model that automation may unfold\<close>
named_theorems dll_simps \<open>what the list macros do to a well-formed list\<close>

abbreviation OK :: c_int where "OK \<equiv> 0"
abbreviation FAIL :: c_int where "FAIL \<equiv> - 1"

lemma FAIL_not_OK [simp]: "FAIL \<noteq> OK" "OK \<noteq> FAIL"
  by simp_all

section \<open>Faults\<close>

definition c_assert :: "bool \<Rightarrow> unit option" where
  "c_assert b = (if b then Some () else None)"

lemma c_assert_eq [simp]:
  "c_assert b = Some u \<longleftrightarrow> b" "c_assert b = None \<longleftrightarrow> \<not> b"
  by (simp_all add: c_assert_def)

lemma bind_SomeE: "Option.bind m f = Some r \<Longrightarrow> (\<And>x. m = Some x \<Longrightarrow> f x = Some r \<Longrightarrow> P) \<Longrightarrow> P"
  by (auto simp: Option.bind_eq_Some_conv)

lemma c_assert_bind [simp]:
  "Option.bind (c_assert b) f = (if b then f () else None)"
  by (simp add: c_assert_def)

lemma bind_Some_iff:
  "Option.bind m f = Some r \<longleftrightarrow> (\<exists>x. m = Some x \<and> f x = Some r)"
  by (cases m) auto

lemma bind_ignore [simp]: "Option.bind m (\<lambda>_. None) = None"
  by (cases m) auto

section \<open>The world: monitor state, allocator, uninitialised memory\<close>

text \<open>
  \<open>mon\<close> is the state of the tyche monitor, which is not part of the repository; the monitor itself
  is the parameter \<open>vmc\<close> of every definition that reaches a \<open>vmcall\<close>.  The allocators of the
  sources (\<open>kmalloc\<close>, \<open>local_domain.alloc\<close>, \<open>alloc_pages_exact\<close>) hand out the address \<open>brk\<close>, which
  no earlier call returned, or NULL; \<open>oom\<close> decides which, so that a statement about every \<open>oom\<close>
  covers every pattern of allocation failures.  \<open>junk\<close> and \<open>junkp\<close> are what uninitialised memory
  contains where the program reads it as a word or as a pointer.
\<close>

record 'm world =
  mon :: 'm
  brk :: ptr
  oom :: "ptr \<Rightarrow> bool"
  junk :: u64
  junkp :: "ptr option"

definition kmalloc :: "('m, 'z) world_scheme \<Rightarrow> ptr option \<times> ('m, 'z) world_scheme" where
  "kmalloc w = (if oom w (brk w) then None else Some (brk w), w\<lparr>brk := Suc (brk w)\<rparr>)"

definition kfree :: "ptr \<Rightarrow> (ptr \<rightharpoonup> 'a) \<Rightarrow> (ptr \<rightharpoonup> 'a) option" where
  "kfree p h = (case h p of None \<Rightarrow> None | Some _ \<Rightarrow> Some (h(p := None)))"

lemma kfree_Some [simp]: "h p = Some x \<Longrightarrow> kfree p h = Some (h(p := None))"
  by (simp add: kfree_def)

lemma kfree_twice: "kfree p h = Some h' \<Longrightarrow> kfree p h' = None"
  by (auto simp: kfree_def split: option.splits)

lemma kmalloc_cases:
  obtains "kmalloc w = (None, w\<lparr>brk := Suc (brk w)\<rparr>)"
  | "kmalloc w = (Some (brk w), w\<lparr>brk := Suc (brk w)\<rparr>)"
  by (cases "oom w (brk w)") (auto simp: kmalloc_def)

section \<open>Half-open intervals of addresses\<close>

definition ivl :: "u64 \<Rightarrow> u64 \<Rightarrow> u64 set" where
  "ivl a b = {x. a \<le> x \<and> x < b}"

lemma mem_ivl [simp]: "x \<in> ivl a b \<longleftrightarrow> a \<le> x \<and> x < b"
  by (simp add: ivl_def)

lemma ivl_empty_iff: "ivl a b = {} \<longleftrightarrow> b \<le> a"
  by (auto simp: ivl_def not_le dest: le_less_trans)

lemma ivl_split: "a \<le> m \<Longrightarrow> m \<le> b \<Longrightarrow> ivl a m \<union> ivl m b = ivl a b"
  by (auto simp: ivl_def)

lemma ivl_disjoint_split: "ivl a m \<inter> ivl m b = {}"
  by (auto simp: ivl_def)

lemma find_Some_split:
  "List.find P xs = Some x \<longleftrightarrow>
     (\<exists>ys zs. xs = ys @ x # zs \<and> P x \<and> (\<forall>y \<in> set ys. \<not> P y))"
proof (induction xs)
  case Nil
  then show ?case by simp
next
  case (Cons a xs)
  show ?case
  proof (cases "P a")
    case True
    then show ?thesis by (auto simp: Cons_eq_append_conv)
  next
    case False
    have "(\<exists>ys zs. a # xs = ys @ x # zs \<and> P x \<and> (\<forall>y \<in> set ys. \<not> P y)) \<longleftrightarrow>
          (\<exists>ys zs. xs = ys @ x # zs \<and> P x \<and> (\<forall>y \<in> set ys. \<not> P y))"
    proof
      assume "\<exists>ys zs. a # xs = ys @ x # zs \<and> P x \<and> (\<forall>y \<in> set ys. \<not> P y)"
      then show "\<exists>ys zs. xs = ys @ x # zs \<and> P x \<and> (\<forall>y \<in> set ys. \<not> P y)"
        using False by (fastforce simp: Cons_eq_append_conv)
    next
      assume "\<exists>ys zs. xs = ys @ x # zs \<and> P x \<and> (\<forall>y \<in> set ys. \<not> P y)"
      then obtain ys zs where "xs = ys @ x # zs" "P x" "\<forall>y \<in> set ys. \<not> P y" by blast
      then have "a # xs = (a # ys) @ x # zs \<and> P x \<and> (\<forall>y \<in> set (a # ys). \<not> P y)"
        using False by simp
      then show "\<exists>ys zs. a # xs = ys @ x # zs \<and> P x \<and> (\<forall>y \<in> set ys. \<not> P y)" by blast
    qed
    then show ?thesis using False Cons by simp
  qed
qed

section \<open>Word counters\<close>

lemma unat_Suc_less:
  fixes i n :: "'a :: len word"
  assumes "i < n"
  shows "unat (i + 1) = Suc (unat i)"
proof -
  have "unat i < unat n" using assms by (simp add: word_less_nat_alt)
  moreover have "unat n < 2 ^ LENGTH('a)" by (rule unsigned_less)
  ultimately have "unat i + unat (1 :: 'a word) < 2 ^ LENGTH('a)"
    unfolding unat_1 by linarith
  then show ?thesis using unat_add_lem [of i 1] by simp
qed

lemma counter_less:
  fixes i n :: "'a :: len word"
  assumes "i < n"
  shows "unat n - unat (i + 1) < unat n - unat i"
  using assms unat_Suc_less [OF assms] by (simp add: word_less_nat_alt)

lemma ucast_zero_iff_dvd:
  fixes x :: u64
  shows "(ucast x :: u32) = 0 \<longleftrightarrow> 2 ^ 32 dvd unat x"
proof -
  have "(ucast x :: u32) = 0 \<longleftrightarrow> unat (ucast x :: u32) = 0" by (simp only: unat_eq_0)
  also have "unat (ucast x :: u32) = unat x mod 2 ^ 32" by (simp add: unsigned_ucast_eq take_bit_eq_mod)
  finally show ?thesis by (simp only: dvd_eq_mod_eq_0)
qed

end
