(* ===== verification/Dll.thy ===== *)
theory Dll
  imports Prelude
begin

text \<open>
  The intrusive doubly-linked lists of \<open>programs/libs/dll/include/dll.h\<close>, at the level of pointers.
  A \<open>dll_elem(tpe, name)\<close> field of a struct is kept for all structs at once as a partial map from
  addresses to link pairs (one map per struct type and field name; an address without an entry is
  not allocated, and touching its links is a fault).  A \<open>dll_list\<close> is a head/tail pair.  The macros
  are HOL functions in the statement order of the C text.

  \<open>dll lk l xs\<close> says that the list \<open>l\<close> threads exactly the elements \<open>xs\<close>, in both directions.  The
  lemmas show what each macro does to \<open>xs\<close>; the locale \<open>seq_iface\<close> states that as a contract, which
  the macros interpret.
\<close>

section \<open>The data and the macros\<close>

record dll_elem =
  prev :: "ptr option"
  nxt :: "ptr option"

record dll_list =
  head :: "ptr option"
  tail :: "ptr option"

type_synonym links = "ptr \<rightharpoonup> dll_elem"

definition dll_init_list :: dll_list where
  "dll_init_list = \<lparr>head = None, tail = None\<rparr>"

definition dll_init_elem :: "ptr \<Rightarrow> links \<Rightarrow> links option" where
  "dll_init_elem e lk = do {
     _ \<leftarrow> lk e;
     Some (lk(e \<mapsto> \<lparr>prev = None, nxt = None\<rparr>)) }"

definition dll_is_empty :: "dll_list \<Rightarrow> bool" where
  "dll_is_empty l \<longleftrightarrow> head l = None \<and> tail l = None"

definition set_prev :: "ptr \<Rightarrow> ptr option \<Rightarrow> links \<Rightarrow> links option" where
  "set_prev e q lk = do { x \<leftarrow> lk e; Some (lk(e \<mapsto> x\<lparr>prev := q\<rparr>)) }"

definition set_nxt :: "ptr \<Rightarrow> ptr option \<Rightarrow> links \<Rightarrow> links option" where
  "set_nxt e q lk = do { x \<leftarrow> lk e; Some (lk(e \<mapsto> x\<lparr>nxt := q\<rparr>)) }"

definition dll_add :: "ptr \<Rightarrow> dll_list \<times> links \<Rightarrow> (dll_list \<times> links) option" where
  "dll_add e = (\<lambda>(l, lk).
     if head l = None then Some (l\<lparr>head := Some e, tail := Some e\<rparr>, lk)
     else do {
       t \<leftarrow> tail l;
       lk \<leftarrow> set_nxt t (Some e) lk;
       lk \<leftarrow> set_prev e (tail l) lk;
       Some (l\<lparr>tail := Some e\<rparr>, lk) })"

definition dll_add_after :: "ptr \<Rightarrow> ptr \<Rightarrow> dll_list \<times> links \<Rightarrow> (dll_list \<times> links) option" where
  "dll_add_after e previous = (\<lambda>(l, lk). do {
     p \<leftarrow> lk previous;
     lk \<leftarrow> set_nxt e (nxt p) lk;
     lk \<leftarrow> set_prev e (Some previous) lk;
     lk \<leftarrow> set_nxt previous (Some e) lk;
     x \<leftarrow> lk e;
     lk \<leftarrow> (case nxt x of None \<Rightarrow> Some lk | Some n \<Rightarrow> set_prev n (Some e) lk);
     Some (if tail l = Some previous then l\<lparr>tail := Some e\<rparr> else l, lk) })"

definition dll_add_first :: "ptr \<Rightarrow> dll_list \<times> links \<Rightarrow> (dll_list \<times> links) option" where
  "dll_add_first e = (\<lambda>(l, lk). do {
     lk \<leftarrow> set_prev e None lk;
     lk \<leftarrow> set_nxt e (head l) lk;
     lk \<leftarrow> (case head l of None \<Rightarrow> Some lk | Some h \<Rightarrow> set_prev h (Some e) lk);
     l \<leftarrow> Some (l\<lparr>head := Some e\<rparr>);
     Some (if tail l = None then l\<lparr>tail := Some e\<rparr> else l, lk) })"

definition dll_remove :: "ptr \<Rightarrow> dll_list \<times> links \<Rightarrow> (dll_list \<times> links) option" where
  "dll_remove e = (\<lambda>(l, lk). do {
     x \<leftarrow> lk e;
     lk \<leftarrow> (case prev x of None \<Rightarrow> Some lk | Some p \<Rightarrow> set_nxt p (nxt x) lk);
     x \<leftarrow> lk e;
     lk \<leftarrow> (case nxt x of None \<Rightarrow> Some lk | Some n \<Rightarrow> set_prev n (prev x) lk);
     x \<leftarrow> lk e;
     l \<leftarrow> Some (if head l = Some e then l\<lparr>head := nxt x\<rparr> else l);
     l \<leftarrow> Some (if tail l = Some e then l\<lparr>tail := prev x\<rparr> else l);
     lk \<leftarrow> set_nxt e None lk;
     lk \<leftarrow> set_prev e None lk;
     Some (l, lk) })"

text \<open>
  \<open>dll_foreach\<close> with a body that only tests the element and breaks is a search from the head; the
  loop pointer is NULL when no element satisfies the test.
\<close>

partial_function (option) dll_find ::
  "(ptr \<Rightarrow> bool option) \<Rightarrow> links \<Rightarrow> ptr option \<Rightarrow> ptr option option" where
  "dll_find P lk c = (case c of None \<Rightarrow> Some None
     | Some p \<Rightarrow> do {
         b \<leftarrow> P p;
         if b then Some (Some p)
         else do { x \<leftarrow> lk p; dll_find P lk (nxt x) } })"

partial_function (option) dll_elems :: "links \<Rightarrow> ptr option \<Rightarrow> ptr list option" where
  "dll_elems lk c = (case c of None \<Rightarrow> Some []
     | Some p \<Rightarrow> do { x \<leftarrow> lk p; ps \<leftarrow> dll_elems lk (nxt x); Some (p # ps) })"

definition dll_contains :: "u64 \<Rightarrow> u64 \<Rightarrow> u64 \<Rightarrow> bool" where
  "dll_contains start stop val \<longleftrightarrow> start \<le> val \<and> val < stop"

definition dll_overlap :: "u64 \<Rightarrow> u64 \<Rightarrow> u64 \<Rightarrow> u64 \<Rightarrow> bool" where
  "dll_overlap s1 e1 s2 e2 \<longleftrightarrow> (s1 \<le> s2 \<and> s2 < e1) \<or> (s2 \<le> s1 \<and> s1 < e2)"

section \<open>What a list threads\<close>

text \<open>
  \<open>dll_seg lk p c xs c' p'\<close>: starting at \<open>c\<close>, whose predecessor is \<open>p\<close>, the \<open>next\<close> links run through
  \<open>xs\<close> to \<open>c'\<close>, whose predecessor is \<open>p'\<close>, and the \<open>prev\<close> links run back.
\<close>

fun dll_seg :: "links \<Rightarrow> ptr option \<Rightarrow> ptr option \<Rightarrow> ptr list \<Rightarrow> ptr option \<Rightarrow> ptr option \<Rightarrow> bool" where
  "dll_seg lk p c [] c' p' \<longleftrightarrow> c = c' \<and> p = p'"
| "dll_seg lk p c (x # xs) c' p' \<longleftrightarrow>
     c = Some x \<and> (\<exists>n. lk x = Some \<lparr>prev = p, nxt = n\<rparr> \<and> dll_seg lk (Some x) n xs c' p')"

definition dll :: "links \<Rightarrow> dll_list \<Rightarrow> ptr list \<Rightarrow> bool" where
  "dll lk l xs \<longleftrightarrow> dll_seg lk None (head l) xs None (tail l) \<and> distinct xs"

lemma dll_seg_append:
  "dll_seg lk p c (xs @ ys) c' p' \<longleftrightarrow>
     (\<exists>c1 p1. dll_seg lk p c xs c1 p1 \<and> dll_seg lk p1 c1 ys c' p')"
  by (induction xs arbitrary: p c) auto

lemma dll_seg_frame:
  "(\<And>x. x \<in> set xs \<Longrightarrow> lk' x = lk x) \<Longrightarrow> dll_seg lk' p c xs c' p' = dll_seg lk p c xs c' p'"
  by (induction xs arbitrary: p c) auto

lemma dll_seg_upd [simp]:
  "y \<notin> set xs \<Longrightarrow> dll_seg (lk(y := v)) p c xs c' p' = dll_seg lk p c xs c' p'"
  by (rule dll_seg_frame) auto

lemma dll_frame:
  assumes "dll lk l xs" and "\<And>x. x \<in> set xs \<Longrightarrow> lk' x = lk x"
  shows "dll lk' l xs"
  using assms(1) dll_seg_frame [OF assms(2)] by (simp add: dll_def)

lemma dll_upd [simp]: "y \<notin> set xs \<Longrightarrow> dll (lk(y := v)) l xs = dll lk l xs"
  by (simp add: dll_def)

lemma dll_seg_dom: "dll_seg lk p c xs c' p' \<Longrightarrow> set xs \<subseteq> dom lk"
  by (induction xs arbitrary: p c) auto

lemma dll_dom: "dll lk l xs \<Longrightarrow> x \<in> set xs \<Longrightarrow> \<exists>y. lk x = Some y"
  using dll_seg_dom by (fastforce simp: dll_def)

lemma dll_seg_snoc:
  "dll_seg lk p c (xs @ [x]) c' p' \<longleftrightarrow>
     p' = Some x \<and> (\<exists>q. dll_seg lk p c xs (Some x) q \<and> lk x = Some \<lparr>prev = q, nxt = c'\<rparr>)"
  by (auto simp: dll_seg_append)

lemma dll_seg_unique:
  "dll_seg lk p c xs None q \<Longrightarrow> dll_seg lk p c ys None q' \<Longrightarrow> xs = ys"
proof (induction xs arbitrary: p c ys)
  case Nil
  then show ?case by (cases ys) auto
next
  case (Cons x xs)
  then show ?case by (cases ys) auto
qed

lemma dll_unique: "dll lk l xs \<Longrightarrow> dll lk l ys \<Longrightarrow> xs = ys"
  unfolding dll_def using dll_seg_unique by blast

lemma dll_Nil: "dll lk l [] \<longleftrightarrow> l = \<lparr>head = None, tail = None\<rparr>"
  by (cases l) (auto simp: dll_def)

lemma dll_init_list [simp, dll_simps]: "dll lk dll_init_list []"
  by (simp add: dll_Nil dll_init_list_def)

lemma dll_is_empty_iff: "dll lk l xs \<Longrightarrow> dll_is_empty l \<longleftrightarrow> xs = []"
  by (cases xs rule: rev_cases; cases xs)
     (auto simp: dll_def dll_is_empty_def dll_seg_append)

lemma dll_head: "dll lk l (x # xs) \<Longrightarrow> head l = Some x"
  by (simp add: dll_def)

lemma dll_distinct: "dll lk l xs \<Longrightarrow> distinct xs"
  by (simp add: dll_def)

lemma dll_head_None: "dll lk l xs \<Longrightarrow> head l = None \<longleftrightarrow> xs = []"
  by (cases xs) (auto simp: dll_def)

lemma dll_tail: "dll lk l xs \<Longrightarrow> tail l = (if xs = [] then None else Some (last xs))"
  by (cases xs rule: rev_cases) (auto simp: dll_def dll_seg_snoc)

text \<open>The link pair of an element, read off its neighbours.\<close>

lemma dll_seg_links:
  assumes "dll_seg lk p c (xs @ x # ys) c' p'"
  shows "lk x = Some \<lparr>prev = (if xs = [] then p else Some (last xs)),
                      nxt = (case ys of [] \<Rightarrow> c' | y # _ \<Rightarrow> Some y)\<rparr>"
  using assms
  by (cases xs rule: rev_cases; cases ys) (auto simp: dll_seg_append)

lemma dll_links:
  "dll lk l (xs @ x # ys) \<Longrightarrow>
   lk x = Some \<lparr>prev = (if xs = [] then None else Some (last xs)),
                nxt = (case ys of [] \<Rightarrow> None | y # _ \<Rightarrow> Some y)\<rparr>"
  unfolding dll_def using dll_seg_links by blast

section \<open>What each macro does\<close>

text \<open>An operation on one list touches no links but those of its elements, and allocates nothing.\<close>

definition links_frame :: "links \<Rightarrow> links \<Rightarrow> ptr set \<Rightarrow> bool" where
  "links_frame lk lk' S \<longleftrightarrow> (\<forall>y. y \<notin> S \<longrightarrow> lk' y = lk y) \<and> dom lk' = dom lk"

lemma links_frame_dll:
  "links_frame lk lk' S \<Longrightarrow> dll lk l xs \<Longrightarrow> set xs \<inter> S = {} \<Longrightarrow> dll lk' l xs"
  by (rule dll_frame [of lk l xs lk']) (auto simp: links_frame_def)

lemma links_frame_mono: "links_frame lk lk' S \<Longrightarrow> S \<subseteq> T \<Longrightarrow> links_frame lk lk' T"
  by (auto simp: links_frame_def)

lemma links_frame_dom: "links_frame lk lk' S \<Longrightarrow> dom lk' = dom lk"
  by (simp add: links_frame_def)

lemma links_frame_None: "links_frame lk lk' S \<Longrightarrow> lk' y = None \<longleftrightarrow> lk y = None"
  unfolding links_frame_def domIff [symmetric] by blast

lemma links_frame_apply: "links_frame lk lk' S \<Longrightarrow> y \<notin> S \<Longrightarrow> lk' y = lk y"
  by (simp add: links_frame_def)

lemma dll_init_elem_Some: "lk e = Some x \<Longrightarrow> dll_init_elem e lk = Some (lk(e \<mapsto> \<lparr>prev = None, nxt = None\<rparr>))"
  by (simp add: dll_init_elem_def)

lemmas dll_macro_defs = dll_add_def dll_add_after_def dll_add_first_def dll_remove_def
  set_prev_def set_nxt_def

lemma dll_addE:
  assumes "dll lk l xs" and "e \<notin> set xs" and "lk e = Some \<lparr>prev = None, nxt = None\<rparr>"
  obtains l' lk' where "dll_add e (l, lk) = Some (l', lk')" and "dll lk' l' (xs @ [e])"
    and "links_frame lk lk' (set (e # xs))"
proof (cases xs rule: rev_cases)
  case Nil
  then have "dll_add e (l, lk) = Some (l\<lparr>head := Some e, tail := Some e\<rparr>, lk)"
    and "dll lk (l\<lparr>head := Some e, tail := Some e\<rparr>) (xs @ [e])"
    using assms by (auto simp: dll_add_def dll_def)
  then show ?thesis using that by (simp add: links_frame_def)
next
  case (snoc ys t)
  let ?lk = "lk(t \<mapsto> \<lparr>prev = (if ys = [] then None else Some (last ys)), nxt = Some e\<rparr>,
                e \<mapsto> \<lparr>prev = Some t, nxt = None\<rparr>)"
  from assms snoc have t: "tail l = Some t" "head l \<noteq> None" "e \<noteq> t" "e \<notin> set ys" "t \<notin> set ys"
    using dll_tail [OF assms(1)] dll_head_None [OF assms(1)] dll_distinct [OF assms(1)] by auto
  from assms(1) snoc have lt: "lk t = Some \<lparr>prev = (if ys = [] then None else Some (last ys)), nxt = None\<rparr>"
    using dll_links [of lk l ys t "[]"] by simp
  have "dll_add e (l, lk) = Some (l\<lparr>tail := Some e\<rparr>, ?lk)"
    using t lt assms(3) by (auto simp: dll_macro_defs)
  moreover have "dll ?lk (l\<lparr>tail := Some e\<rparr>) (xs @ [e])"
    using assms(1) snoc t lt by (auto simp: dll_def dll_seg_append)
  moreover have "links_frame lk ?lk (set (e # xs))"
    using snoc lt assms(3) by (auto simp: links_frame_def)
  ultimately show ?thesis using that by blast
qed

lemma dll_add_firstE:
  assumes "dll lk l xs" and "e \<notin> set xs" and "lk e = Some x0"
  obtains l' lk' where "dll_add_first e (l, lk) = Some (l', lk')" and "dll lk' l' (e # xs)"
    and "links_frame lk lk' (set (e # xs))"
proof (cases xs)
  case Nil
  let ?lk = "lk(e \<mapsto> \<lparr>prev = None, nxt = None\<rparr>)"
  from Nil assms have "dll_add_first e (l, lk) = Some (\<lparr>head = Some e, tail = Some e\<rparr>, ?lk)"
    by (auto simp: dll_macro_defs dll_Nil)
  moreover have "dll ?lk \<lparr>head = Some e, tail = Some e\<rparr> (e # xs)"
    using Nil by (simp add: dll_def)
  moreover have "links_frame lk ?lk (set (e # xs))"
    using assms(3) by (auto simp: links_frame_def)
  ultimately show ?thesis using that by blast
next
  case (Cons h ys)
  from assms(1) Cons obtain n where h: "head l = Some h" "lk h = Some \<lparr>prev = None, nxt = n\<rparr>"
    and seg: "dll_seg lk (Some h) n ys None (tail l)" and d: "distinct xs"
    by (auto simp: dll_def)
  let ?lk = "lk(e \<mapsto> \<lparr>prev = None, nxt = Some h\<rparr>, h \<mapsto> \<lparr>prev = Some e, nxt = n\<rparr>)"
  have tl: "tail l \<noteq> None" using assms(1) Cons by (simp add: dll_tail)
  have ne: "e \<noteq> h" "e \<notin> set ys" "h \<notin> set ys" using assms(2) Cons d by auto
  have "dll_add_first e (l, lk) = Some (l\<lparr>head := Some e\<rparr>, ?lk)"
    using h tl ne assms(3) by (auto simp: dll_macro_defs)
  moreover have "dll ?lk (l\<lparr>head := Some e\<rparr>) (e # xs)"
    using Cons seg ne d by (auto simp: dll_def)
  moreover have "links_frame lk ?lk (set (e # xs))"
    using Cons h assms(3) by (auto simp: links_frame_def)
  ultimately show ?thesis using that by blast
qed

lemma dll_add_afterE:
  assumes "dll lk l (xs @ p # ys)" and "e \<notin> set (xs @ p # ys)" and "lk e = Some x0"
  obtains l' lk' where "dll_add_after e p (l, lk) = Some (l', lk')"
    and "dll lk' l' (xs @ p # e # ys)" and "links_frame lk lk' (set (e # xs @ p # ys))"
proof (cases ys)
  case Nil
  let ?q = "if xs = [] then None else Some (last xs)"
  let ?lk = "lk(e \<mapsto> \<lparr>prev = Some p, nxt = None\<rparr>, p \<mapsto> \<lparr>prev = ?q, nxt = Some e\<rparr>)"
  have lp: "lk p = Some \<lparr>prev = ?q, nxt = None\<rparr>" and tl: "tail l = Some p"
    using dll_links [OF assms(1)] dll_tail [OF assms(1)] Nil by auto
  have ne: "e \<noteq> p" "e \<notin> set xs" "p \<notin> set xs" using assms by (auto dest: dll_distinct)
  have "dll_add_after e p (l, lk) = Some (l\<lparr>tail := Some e\<rparr>, ?lk)"
    using lp tl ne assms(3) by (auto simp: dll_macro_defs fun_upd_twist)
  moreover have "dll ?lk (l\<lparr>tail := Some e\<rparr>) (xs @ p # e # ys)"
    using assms(1,2) Nil lp ne by (auto simp: dll_def dll_seg_append)
  moreover have "links_frame lk ?lk (set (e # xs @ p # ys))"
    using lp assms(3) by (auto simp: links_frame_def)
  ultimately show ?thesis using that by blast
next
  case (Cons n zs)
  let ?q = "if xs = [] then None else Some (last xs)"
  let ?r = "case zs of [] \<Rightarrow> None | z # _ \<Rightarrow> Some z"
  let ?lk = "lk(e \<mapsto> \<lparr>prev = Some p, nxt = Some n\<rparr>, p \<mapsto> \<lparr>prev = ?q, nxt = Some e\<rparr>,
                n \<mapsto> \<lparr>prev = Some e, nxt = ?r\<rparr>)"
  have lp: "lk p = Some \<lparr>prev = ?q, nxt = Some n\<rparr>"
    using dll_links [OF assms(1)] Cons by auto
  have ln: "lk n = Some \<lparr>prev = Some p, nxt = ?r\<rparr>"
    using dll_links [of lk l "xs @ [p]" n zs] assms(1) Cons by auto
  have ne: "e \<noteq> p" "e \<noteq> n" "p \<noteq> n" "e \<notin> set xs" "p \<notin> set xs" "n \<notin> set xs"
    "e \<notin> set zs" "p \<notin> set zs" "n \<notin> set zs"
    using assms Cons by (auto dest: dll_distinct)
  have tl: "tail l \<noteq> Some p" using dll_tail [OF assms(1)] Cons ne by auto
  have "dll_add_after e p (l, lk) = Some (l, ?lk)"
    using lp ln tl ne assms(3) by (auto simp: dll_macro_defs fun_upd_twist)
  moreover have "dll ?lk l (xs @ p # e # ys)"
    using assms(1,2) Cons lp ln ne by (auto simp: dll_def dll_seg_append)
  moreover have "links_frame lk ?lk (set (e # xs @ p # ys))"
    using lp ln Cons assms(3) by (auto simp: links_frame_def)
  ultimately show ?thesis using that by blast
qed

lemma dll_removeE:
  assumes "dll lk l (xs @ e # ys)"
  obtains l' lk' where "dll_remove e (l, lk) = Some (l', lk')" and "dll lk' l' (xs @ ys)"
    and "links_frame lk lk' (set (xs @ e # ys))" and "lk' e = Some \<lparr>prev = None, nxt = None\<rparr>"
proof -
  let ?p = "if xs = [] then None else Some (last xs)"
  let ?n = "case ys of [] \<Rightarrow> None | y # _ \<Rightarrow> Some y"
  have le: "lk e = Some \<lparr>prev = ?p, nxt = ?n\<rparr>" using dll_links [OF assms] .
  have d: "distinct (xs @ e # ys)" using assms by (rule dll_distinct)
  have hd: "head l = (if xs = [] then Some e else Some (hd xs))"
    using assms by (cases xs) (auto simp: dll_def)
  have tl: "tail l = (if ys = [] then Some e else Some (last ys))"
    using dll_tail [OF assms] by auto
  let ?l1 = "if head l = Some e then l\<lparr>head := ?n\<rparr> else l"
  let ?l = "if tail ?l1 = Some e then ?l1\<lparr>tail := ?p\<rparr> else ?l1"
  let ?e = "\<lparr>prev = None, nxt = None\<rparr>"
  show ?thesis
  proof (cases xs rule: rev_cases; cases ys)
    assume c: "xs = []" "ys = []"
    have "dll_remove e (l, lk) = Some (?l, lk(e \<mapsto> ?e))"
      using c le by (auto simp: dll_macro_defs)
    moreover have "dll (lk(e \<mapsto> ?e)) ?l (xs @ ys)" using c hd tl by (simp add: dll_def)
    moreover have "links_frame lk (lk(e \<mapsto> ?e)) (set (xs @ e # ys))"
      using le by (auto simp: links_frame_def)
    ultimately show ?thesis by (rule that) simp
  next
    fix y zs assume c: "xs = []" "ys = y # zs"
    let ?r = "case zs of [] \<Rightarrow> None | z # _ \<Rightarrow> Some z"
    have ly: "lk y = Some \<lparr>prev = Some e, nxt = ?r\<rparr>"
      using dll_links [of lk l "[e]" y zs] assms c by simp
    let ?lk = "lk(y \<mapsto> \<lparr>prev = None, nxt = ?r\<rparr>, e \<mapsto> ?e)"
    have "dll_remove e (l, lk) = Some (?l, ?lk)"
      using c le ly d by (auto simp: dll_macro_defs)
    moreover have "dll ?lk ?l (xs @ ys)"
      using c hd tl d ly assms by (auto simp: dll_def)
    moreover have "links_frame lk ?lk (set (xs @ e # ys))"
      using le ly c by (auto simp: links_frame_def)
    ultimately show ?thesis by (rule that) simp
  next
    fix zs p assume c: "xs = zs @ [p]" "ys = []"
    let ?r = "if zs = [] then None else Some (last zs)"
    have lp: "lk p = Some \<lparr>prev = ?r, nxt = Some e\<rparr>"
      using dll_links [of lk l zs p "[e]"] assms c by simp
    let ?lk = "lk(p \<mapsto> \<lparr>prev = ?r, nxt = None\<rparr>, e \<mapsto> ?e)"
    have he: "head l \<noteq> Some e" using hd c d by (cases zs) auto
    have "dll_remove e (l, lk) = Some (?l, ?lk)"
      using c le lp d by (auto simp: dll_macro_defs)
    moreover have "dll ?lk ?l (xs @ ys)"
      using c he tl d lp assms by (auto simp: dll_def dll_seg_append)
    moreover have "links_frame lk ?lk (set (xs @ e # ys))"
      using le lp c by (auto simp: links_frame_def)
    ultimately show ?thesis by (rule that) simp
  next
    fix zs p y ws assume c: "xs = zs @ [p]" "ys = y # ws"
    let ?r = "if zs = [] then None else Some (last zs)"
    let ?s = "case ws of [] \<Rightarrow> None | z # _ \<Rightarrow> Some z"
    have lp: "lk p = Some \<lparr>prev = ?r, nxt = Some e\<rparr>"
      using dll_links [of lk l zs p "e # ys"] assms c by simp
    have ly: "lk y = Some \<lparr>prev = Some e, nxt = ?s\<rparr>"
      using dll_links [of lk l "xs @ [e]" y ws] assms c by simp
    let ?lk = "lk(p \<mapsto> \<lparr>prev = ?r, nxt = Some y\<rparr>, y \<mapsto> \<lparr>prev = Some p, nxt = ?s\<rparr>, e \<mapsto> ?e)"
    have he: "head l \<noteq> Some e" "tail l \<noteq> Some e" using hd tl c d by (cases zs; auto)+
    have "dll_remove e (l, lk) = Some (?l, ?lk)"
      using c le lp ly d by (auto simp: dll_macro_defs)
    moreover have "dll ?lk ?l (xs @ ys)"
      using c he d lp ly assms by (auto simp: dll_def dll_seg_append)
    moreover have "links_frame lk ?lk (set (xs @ e # ys))"
      using le lp ly c by (auto simp: links_frame_def)
    ultimately show ?thesis by (rule that) simp
  qed
qed

lemma dll_find_seg:
  assumes "dll_seg lk p c xs None q" and "\<And>x. x \<in> set xs \<Longrightarrow> P x = Some (Q x)"
  shows "dll_find P lk c = Some (List.find Q xs)"
  using assms
proof (induction xs arbitrary: p c)
  case Nil
  then show ?case by (subst dll_find.simps) simp
next
  case (Cons x xs)
  then obtain n where "c = Some x" "lk x = Some \<lparr>prev = p, nxt = n\<rparr>"
    and s: "dll_seg lk (Some x) n xs None q" by auto
  then show ?case using Cons.IH [OF s] Cons.prems(2)
    by (subst dll_find.simps) simp
qed

lemma dll_find_dll:
  "dll lk l xs \<Longrightarrow> (\<And>x. x \<in> set xs \<Longrightarrow> P x = Some (Q x)) \<Longrightarrow>
   dll_find P lk (head l) = Some (List.find Q xs)"
  unfolding dll_def using dll_find_seg by blast

lemma dll_elems_seg: "dll_seg lk p c xs None q \<Longrightarrow> dll_elems lk c = Some xs"
proof (induction xs arbitrary: p c)
  case Nil
  then show ?case by (subst dll_elems.simps) simp
next
  case (Cons x xs)
  then show ?case by (subst dll_elems.simps) auto
qed

lemma dll_elems_dll: "dll lk l xs \<Longrightarrow> dll_elems lk (head l) = Some xs"
  unfolding dll_def using dll_elems_seg by blast

lemma dll_overlap_iff:
  "s1 < e1 \<Longrightarrow> s2 < e2 \<Longrightarrow> dll_overlap s1 e1 s2 e2 \<longleftrightarrow> ivl s1 e1 \<inter> ivl s2 e2 \<noteq> {}"
proof -
  assume "s1 < e1" "s2 < e2"
  then have "dll_overlap s1 e1 s2 e2 \<longleftrightarrow> max s1 s2 \<in> ivl s1 e1 \<inter> ivl s2 e2"
    by (auto simp: dll_overlap_def max_def)
  moreover have "x \<in> ivl s1 e1 \<inter> ivl s2 e2 \<Longrightarrow> max s1 s2 \<in> ivl s1 e1 \<inter> ivl s2 e2" for x
    by (auto simp: max_def)
  ultimately show ?thesis by blast
qed

section \<open>The list contract\<close>

text \<open>
  The clients of \<open>dll.h\<close> rely on the following contract: the operations are defined on a well-formed
  list, act on the sequence of elements as their names say, and leave other initialised elements
  ready for use.
\<close>

fun run_all :: "(ptr \<Rightarrow> 's \<Rightarrow> 's option) \<Rightarrow> ptr list \<Rightarrow> 's \<Rightarrow> 's option" where
  "run_all f [] s = Some s"
| "run_all f (e # es) s = Option.bind (f e s) (run_all f es)"

locale seq_iface =
  fixes view :: "'s \<Rightarrow> ptr list \<Rightarrow> bool"
    and ready :: "'s \<Rightarrow> ptr \<Rightarrow> bool"
    and add :: "ptr \<Rightarrow> 's \<Rightarrow> 's option"
    and add_first :: "ptr \<Rightarrow> 's \<Rightarrow> 's option"
    and add_after :: "ptr \<Rightarrow> ptr \<Rightarrow> 's \<Rightarrow> 's option"
    and remove :: "ptr \<Rightarrow> 's \<Rightarrow> 's option"
  assumes view_unique: "view s xs \<Longrightarrow> view s ys \<Longrightarrow> xs = ys"
    and view_distinct: "view s xs \<Longrightarrow> distinct xs"
    and add: "view s xs \<Longrightarrow> e \<notin> set xs \<Longrightarrow> ready s e \<Longrightarrow>
      \<exists>s'. add e s = Some s' \<and> view s' (xs @ [e]) \<and>
           (\<forall>y. y \<notin> set (e # xs) \<longrightarrow> ready s y \<longrightarrow> ready s' y)"
    and add_first: "view s xs \<Longrightarrow> e \<notin> set xs \<Longrightarrow> ready s e \<Longrightarrow>
      \<exists>s'. add_first e s = Some s' \<and> view s' (e # xs)"
    and add_after: "view s (xs @ p # ys) \<Longrightarrow> e \<notin> set (xs @ p # ys) \<Longrightarrow> ready s e \<Longrightarrow>
      \<exists>s'. add_after e p s = Some s' \<and> view s' (xs @ p # e # ys)"
    and remove: "view s (xs @ e # ys) \<Longrightarrow>
      \<exists>s'. remove e s = Some s' \<and> view s' (xs @ ys) \<and> ready s' e"
begin

lemma add_all:
  "view s xs \<Longrightarrow> distinct es \<Longrightarrow> set es \<inter> set xs = {} \<Longrightarrow> (\<forall>e \<in> set es. ready s e) \<Longrightarrow>
   \<exists>s'. run_all add es s = Some s' \<and> view s' (xs @ es)"
proof (induction es arbitrary: s xs)
  case Nil
  then show ?case by simp
next
  case (Cons e es)
  then obtain s1 where s1: "add e s = Some s1" "view s1 (xs @ [e])"
    and r: "\<forall>y. y \<notin> set (e # xs) \<longrightarrow> ready s y \<longrightarrow> ready s1 y"
    using add [of s xs e] by auto
  have "\<forall>y \<in> set es. ready s1 y" using Cons.prems r by auto
  with Cons.IH [OF s1(2)] Cons.prems s1(1) show ?case by auto
qed

lemma remove_all:
  "view s (xs @ es @ ys) \<Longrightarrow> \<exists>s'. run_all remove es s = Some s' \<and> view s' (xs @ ys)"
proof (induction es arbitrary: s)
  case Nil
  then show ?case by simp
next
  case (Cons e es)
  then obtain s1 where "remove e s = Some s1" "view s1 (xs @ es @ ys)"
    using remove [of s xs e "es @ ys"] by auto
  then show ?case using Cons.IH by auto
qed

lemma add_remove:
  assumes "view s xs" and "e \<notin> set xs" and "ready s e"
  shows "\<exists>s'. Option.bind (add e s) (remove e) = Some s' \<and> view s' xs \<and> ready s' e"
  using add [OF assms] remove [of _ xs e "[]"] by fastforce

lemma remove_add_first:
  assumes "view s (e # xs)"
  shows "\<exists>s'. Option.bind (remove e s) (add_first e) = Some s' \<and> view s' (e # xs)"
proof -
  obtain s1 where s1: "remove e s = Some s1" "view s1 xs" "ready s1 e"
    using remove [of s "[]" e xs] assms by auto
  moreover have "e \<notin> set xs" using view_distinct [OF assms] by simp
  ultimately show ?thesis using add_first [of s1 xs e] by simp
qed

lemma remove_add_after:
  assumes "view s (xs @ p # e # ys)"
  shows "\<exists>s'. Option.bind (remove e s) (add_after e p) = Some s' \<and> view s' (xs @ p # e # ys)"
proof -
  obtain s1 where s1: "remove e s = Some s1" "view s1 (xs @ p # ys)" "ready s1 e"
    using remove [of s "xs @ [p]" e ys] assms by auto
  moreover have "e \<notin> set (xs @ p # ys)" using view_distinct [OF assms] by auto
  ultimately show ?thesis using add_after [of s1 xs p ys e] by simp
qed

end

definition dll_view :: "dll_list \<times> links \<Rightarrow> ptr list \<Rightarrow> bool" where
  "dll_view s xs \<longleftrightarrow> dll (snd s) (fst s) xs"

definition dll_ready :: "dll_list \<times> links \<Rightarrow> ptr \<Rightarrow> bool" where
  "dll_ready s e \<longleftrightarrow> snd s e = Some \<lparr>prev = None, nxt = None\<rparr>"

lemma dll_view_add:
  assumes "dll_view s xs" and "e \<notin> set xs" and "dll_ready s e"
  shows "\<exists>s'. dll_add e s = Some s' \<and> dll_view s' (xs @ [e]) \<and>
           (\<forall>y. y \<notin> set (e # xs) \<longrightarrow> dll_ready s y \<longrightarrow> dll_ready s' y)"
proof -
  obtain l lk where s: "s = (l, lk)" by (cases s)
  from assms s obtain l' lk' where a: "dll_add e (l, lk) = Some (l', lk')" "dll lk' l' (xs @ [e])"
    and f: "links_frame lk lk' (set (e # xs))"
    using dll_addE [of lk l xs e] by (auto simp: dll_view_def dll_ready_def)
  have "\<forall>y. y \<notin> set (e # xs) \<longrightarrow> dll_ready s y \<longrightarrow> dll_ready (l', lk') y"
    using links_frame_apply [OF f] s by (simp add: dll_ready_def)
  then show ?thesis using a s by (auto simp: dll_view_def)
qed

interpretation dlls: seq_iface dll_view dll_ready dll_add dll_add_first dll_add_after dll_remove
proof unfold_locales
  fix s :: "dll_list \<times> links" and xs ys :: "ptr list" and e p :: ptr
  obtain l lk where s: "s = (l, lk)" by (cases s)
  show "dll_view s xs \<Longrightarrow> dll_view s ys \<Longrightarrow> xs = ys"
    unfolding dll_view_def by (rule dll_unique)
  show "dll_view s xs \<Longrightarrow> distinct xs"
    unfolding dll_view_def by (rule dll_distinct)
  show "dll_view s xs \<Longrightarrow> e \<notin> set xs \<Longrightarrow> dll_ready s e \<Longrightarrow>
      \<exists>s'. dll_add e s = Some s' \<and> dll_view s' (xs @ [e]) \<and>
           (\<forall>y. y \<notin> set (e # xs) \<longrightarrow> dll_ready s y \<longrightarrow> dll_ready s' y)"
    by (rule dll_view_add)
  show "dll_view s xs \<Longrightarrow> e \<notin> set xs \<Longrightarrow> dll_ready s e \<Longrightarrow>
      \<exists>s'. dll_add_first e s = Some s' \<and> dll_view s' (e # xs)"
    unfolding dll_view_def dll_ready_def s fst_conv snd_conv
    by (erule (2) dll_add_firstE) auto
  show "dll_view s (xs @ p # ys) \<Longrightarrow> e \<notin> set (xs @ p # ys) \<Longrightarrow> dll_ready s e \<Longrightarrow>
      \<exists>s'. dll_add_after e p s = Some s' \<and> dll_view s' (xs @ p # e # ys)"
    unfolding dll_view_def dll_ready_def s fst_conv snd_conv
    by (erule (2) dll_add_afterE) auto
  show "dll_view s (xs @ e # ys) \<Longrightarrow>
      \<exists>s'. dll_remove e s = Some s' \<and> dll_view s' (xs @ ys) \<and> dll_ready s' e"
    unfolding dll_view_def dll_ready_def s fst_conv snd_conv
    by (erule dll_removeE) auto
qed

end
