(* ===== verification/Dll_Theorems.thy ===== *)
theory Dll_Theorems
  imports Dll
begin

text \<open>
  The properties of the list macros, each with a small heap on which its hypotheses hold.
\<close>

definition demo_links :: links where
  "demo_links = [1 \<mapsto> \<lparr>prev = None, nxt = Some 2\<rparr>, 2 \<mapsto> \<lparr>prev = Some 1, nxt = None\<rparr>,
                 3 \<mapsto> \<lparr>prev = None, nxt = None\<rparr>, 4 \<mapsto> \<lparr>prev = None, nxt = None\<rparr>]"

definition demo_list :: dll_list where
  "demo_list = \<lparr>head = Some 1, tail = Some 2\<rparr>"

lemma demo_dll: "dll demo_links demo_list [1, 2]"
  by (simp add: dll_def demo_links_def demo_list_def)

text \<open>C6: insertion.  On a well-formed list every insertion macro is defined for an initialised element
  outside the list, and puts it where its name says: \<open>dll_add\<close> at the end, \<open>dll_add_first\<close> at the
  front, \<open>dll_add_after\<close> behind the given element; in all three cases both link directions are right
  again and no link outside the list changes.\<close>

theorem dll_insert_correct:
  assumes "dll lk l (xs @ ys)" and "e \<notin> set (xs @ ys)" and "lk e = Some \<lparr>prev = None, nxt = None\<rparr>"
    and "op = (if ys = [] \<and> at_end then dll_add e
               else if xs = [] then dll_add_first e else dll_add_after e (last xs))"
  shows "\<exists>l' lk'. op (l, lk) = Some (l', lk') \<and> dll lk' l' (xs @ e # ys) \<and>
           (\<forall>y. y \<notin> set (e # xs @ ys) \<longrightarrow> lk' y = lk y)"
proof -
  have fr: "links_frame lk lk' (set (e # xs @ ys)) \<Longrightarrow> \<forall>y. y \<notin> set (e # xs @ ys) \<longrightarrow> lk' y = lk y" for lk'
    using links_frame_apply by blast
  consider (a) "ys = []" "at_end" | (b) "xs = []" "\<not> (ys = [] \<and> at_end)"
    | (c) p xs' where "xs = xs' @ [p]" "\<not> (ys = [] \<and> at_end)"
    by (cases xs rule: rev_cases) blast+
  then show ?thesis
  proof cases
    case a
    then show ?thesis using dll_addE [of lk l xs e] assms fr by (metis append_Nil2)
  next
    case b
    then show ?thesis using dll_add_firstE [of lk l ys e] assms fr by (metis append_Nil)
  next
    case (c p xs')
    have "dll lk l (xs' @ p # ys)" "e \<notin> set (xs' @ p # ys)" using assms c(1) by auto
    from dll_add_afterE [OF this assms(3)] obtain l' lk' where
      "dll_add_after e p (l, lk) = Some (l', lk')" "dll lk' l' (xs' @ p # e # ys)"
      "links_frame lk lk' (set (e # xs' @ p # ys))" by metis
    then show ?thesis using assms(4) c fr [of lk'] by auto
  qed
qed

theorem dll_insert_correct_witness:
  "\<exists>l' lk'. dll_add_after 3 1 (demo_list, demo_links) = Some (l', lk') \<and> dll lk' l' [1, 3, 2]"
  using dll_insert_correct [of demo_links demo_list "[1]" "[2]" 3 "dll_add_after 3 1" False] demo_dll
  by (auto simp: demo_links_def)

text \<open>C7: removal.  \<open>dll_remove\<close> on an element of a well-formed list is defined, leaves the other
  elements in order, resets the links of the element so that it can be inserted again, and changes
  no link outside the list.\<close>

theorem dll_remove_correct:
  assumes "dll lk l (xs @ e # ys)"
  shows "\<exists>l' lk'. dll_remove e (l, lk) = Some (l', lk') \<and> dll lk' l' (xs @ ys) \<and>
           lk' e = Some \<lparr>prev = None, nxt = None\<rparr> \<and> (\<forall>y. y \<notin> set (xs @ e # ys) \<longrightarrow> lk' y = lk y)"
proof (rule dll_removeE [OF assms])
  fix l' lk'
  assume "dll_remove e (l, lk) = Some (l', lk')" "dll lk' l' (xs @ ys)"
    "links_frame lk lk' (set (xs @ e # ys))" "lk' e = Some \<lparr>prev = None, nxt = None\<rparr>"
  then show ?thesis using links_frame_apply by blast
qed

theorem dll_remove_correct_witness:
  "\<exists>l' lk'. dll_remove 1 (demo_list, demo_links) = Some (l', lk') \<and> dll lk' l' [2] \<and>
     lk' 1 = Some \<lparr>prev = None, nxt = None\<rparr>"
  using dll_remove_correct [of demo_links demo_list "[]" 1 "[2]"] demo_dll by auto

text \<open>queue behaviour.  Appending any number of new elements and removing the same elements again,
  in the order of their insertion, never faults and gives back the old list.\<close>

theorem dll_add_remove_all:
  assumes "dll_view s xs" and "distinct es" and "set es \<inter> set xs = {}" and "\<forall>e \<in> set es. dll_ready s e"
  shows "\<exists>s1 s2. run_all dll_add es s = Some s1 \<and> dll_view s1 (xs @ es) \<and>
           run_all dll_remove es s1 = Some s2 \<and> dll_view s2 xs"
proof -
  obtain s1 where s1: "run_all dll_add es s = Some s1" "dll_view s1 (xs @ es)"
    using dlls.add_all [OF assms(1-4)] by blast
  then show ?thesis using dlls.remove_all [of s1 xs es "[]"] by auto
qed

theorem dll_add_remove_all_witness:
  "\<exists>s1 s2. run_all dll_add [3, 4] (demo_list, demo_links) = Some s1 \<and> dll_view s1 [1, 2, 3, 4] \<and>
     run_all dll_remove [3, 4] s1 = Some s2 \<and> dll_view s2 [1, 2]"
proof -
  have "dll_view (demo_list, demo_links) [1, 2]" using demo_dll by (simp add: dll_view_def)
  from dll_add_remove_all [OF this, of "[3, 4]"] show ?thesis
    by (simp add: dll_ready_def demo_links_def)
qed

text \<open>the overlap test of \<open>dll.h\<close> decides whether two non-empty half-open regions have an address in
  common.\<close>

theorem dll_overlap_correct:
  assumes "s1 < e1" and "s2 < e2"
  shows "dll_overlap s1 e1 s2 e2 \<longleftrightarrow> (\<exists>x. dll_contains s1 e1 x \<and> dll_contains s2 e2 x)"
  using dll_overlap_iff [OF assms] by (auto simp: dll_contains_def)

theorem dll_overlap_correct_witness:
  "dll_overlap 0x1000 0x3000 0x2000 0x4000 \<longleftrightarrow>
     (\<exists>x. dll_contains 0x1000 0x3000 x \<and> dll_contains 0x2000 0x4000 x)"
  by (rule dll_overlap_correct) simp_all

end
