(* ===== verification/Tyche_Api.thy ===== *)
theory Tyche_Api
  imports Dll
begin

text \<open>
  The hypercall layer of the capability library: \<open>tyche_api.h\<close>, \<open>tyche_api.c\<close>, \<open>ecs.c\<close> and the types of
  \<open>tyche_capabilities_types.h\<close> and \<open>tyche_capabilities.h\<close> under \<open>programs/libs/capabilities\<close>.

  The monitor behind the \<open>vmcall\<close> instruction is not in the repository: it is the parameter \<open>vmc\<close>, a
  function from the argument registers and the monitor's state to the result registers and its new
  state, about which nothing is assumed.  An out-parameter \<open>T* p\<close> is a cell \<open>T option\<close>: \<open>None\<close> is a
  NULL pointer, \<open>Some v\<close> a location whose current content is \<open>v\<close>; the function returns the cell as it
  leaves it.
\<close>

section \<open>Types and constants\<close>

type_synonym paddr_t = u64
type_synonym domain_id_t = u64
type_synonym capa_index_t = u64

text \<open>\<open>capability_type_t\<close> is a C enum with overlapping constants; the code compares it with the bounds
  \<open>MinTpe\<close> and \<open>MaxTpe\<close>, so it is kept as the unsigned integer it is.\<close>

type_synonym capability_type_t = u32

abbreviation "MinTpe \<equiv> (0 :: capability_type_t)"
abbreviation "SharedRO \<equiv> (0 :: capability_type_t)"
abbreviation "SharedRW \<equiv> (1 :: capability_type_t)"
abbreviation "SharedRX \<equiv> (2 :: capability_type_t)"
abbreviation "Shared \<equiv> (3 :: capability_type_t)"
abbreviation "ConfidentialRO \<equiv> (4 :: capability_type_t)"
abbreviation "ConfidentialRW \<equiv> (5 :: capability_type_t)"
abbreviation "ConfidentialRX \<equiv> (6 :: capability_type_t)"
abbreviation "PtEntry \<equiv> (7 :: capability_type_t)"
abbreviation "Confidential \<equiv> (7 :: capability_type_t)"
abbreviation "MaxTpe \<equiv> (7 :: capability_type_t)"

definition CAPA_NONE :: u64 where "CAPA_NONE = 0"
definition CAPA_READ :: u64 where "CAPA_READ = push_bit 0 1"
definition CAPA_WRITE :: u64 where "CAPA_WRITE = push_bit 1 1"
definition CAPA_EXEC :: u64 where "CAPA_EXEC = push_bit 2 1"
definition CAPA_REVOK :: u64 where "CAPA_REVOK = push_bit 3 1"
definition TYCHE_OWNED :: u64 where "TYCHE_OWNED = 0x1"
definition TYCHE_SHARED :: u64 where "TYCHE_SHARED = 0x2"

lemmas capa_consts = CAPA_NONE_def CAPA_READ_def CAPA_WRITE_def CAPA_EXEC_def CAPA_REVOK_def
  TYCHE_OWNED_def TYCHE_SHARED_def

abbreviation "TYCHE_DOMAIN_GET_OWN_ID \<equiv> (0x100 :: u64)"
abbreviation "TYCHE_DOMAIN_CREATE \<equiv> (0x101 :: u64)"
abbreviation "TYCHE_DOMAIN_SEAL \<equiv> (0x102 :: u64)"
abbreviation "TYCHE_DOMAIN_GRANT_REGION \<equiv> (0x103 :: u64)"
abbreviation "TYCHE_DOMAIN_SHARE_REGION \<equiv> (0x104 :: u64)"
abbreviation "TYCHE_DOMAIN_REVOK_REGION \<equiv> (0x105 :: u64)"
abbreviation "TYCHE_REGION_SPLIT \<equiv> (0x200 :: u64)"
abbreviation "TYCHE_REGION_GET_INFO \<equiv> (0x201 :: u64)"
abbreviation "TYCHE_REGION_MERGE \<equiv> (0x202 :: u64)"
abbreviation "TYCHE_CONFIG_NB_REGIONS \<equiv> (0x400 :: u64)"
abbreviation "TYCHE_CONFIG_READ_REGION \<equiv> (0x401 :: u64)"

datatype capa_status_t = ActiveCapa | SharedCapa | PausedCapa

record revok_handle_t =
  rdomain :: domain_id_t
  revok_handle :: paddr_t

record capability_t =
  handle :: paddr_t
  c_start :: paddr_t
  c_end :: paddr_t
  is_owned :: u32
  is_shared :: u32
  access :: u64
  status :: capa_status_t
  revoks :: dll_list

record domain_t =
  dom_id :: domain_id_t
  alloc :: "ptr option"
  dealloc :: "ptr option"
  print :: "ptr option"
  capabilities :: dll_list

text \<open>
  The memory the library works on: the capability and revocation-handle structs that are allocated,
  their \<open>list\<close> links, and the global \<open>local_domain\<close>.
\<close>

record 'm tstate = "'m world" +
  capas :: "ptr \<rightharpoonup> capability_t"
  capa_links :: links
  revs :: "ptr \<rightharpoonup> revok_handle_t"
  rev_links :: links
  local_domain :: domain_t

record vmcall_frame_t =
  fid :: u64
  value_1 :: u64
  value_2 :: u64
  value_3 :: u64
  value_4 :: u64
  ret_1 :: u64
  ret_2 :: u64
  ret_3 :: u64
  ret_4 :: u64

record regs =
  rax :: u64
  rcx :: u64
  rdx :: u64
  rsi :: u64
  r9 :: u64

type_synonym 'm monitor = "regs \<Rightarrow> 'm \<Rightarrow> regs \<times> 'm"

section \<open>tyche_api.c\<close>

definition translate_access :: "capability_type_t \<Rightarrow> u64" where
  "translate_access tpe =
     (if tpe = Confidential \<or> tpe = Shared then CAPA_READ OR CAPA_EXEC OR CAPA_WRITE
      else if tpe = ConfidentialRO \<or> tpe = SharedRO then CAPA_READ
      else if tpe = ConfidentialRW \<or> tpe = SharedRW then CAPA_READ OR CAPA_WRITE
      else if tpe = ConfidentialRX \<or> tpe = SharedRX then CAPA_READ OR CAPA_EXEC
      else CAPA_NONE)"

text \<open>\<open>vmcall_frame_t frame;\<close> on the stack: every field is uninitialised.\<close>

definition frame0 :: "('m, 'z) world_scheme \<Rightarrow> vmcall_frame_t" where
  "frame0 w = \<lparr>fid = junk w, value_1 = junk w, value_2 = junk w, value_3 = junk w,
     value_4 = junk w, ret_1 = junk w, ret_2 = junk w, ret_3 = junk w, ret_4 = junk w\<rparr>"

definition tyche_call ::
  "'m monitor \<Rightarrow> vmcall_frame_t \<Rightarrow> ('m, 'z) world_scheme \<Rightarrow>
   c_int \<times> vmcall_frame_t \<times> ('m, 'z) world_scheme" where
  "tyche_call vmc frame w =
     (let (r, m) = vmc \<lparr>rax = fid frame, rcx = value_1 frame, rdx = value_2 frame,
                        rsi = value_3 frame, r9 = value_4 frame\<rparr> (mon w);
          result = rax r
      in (ucast result,
          frame\<lparr>ret_1 := rcx r, ret_2 := rdx r, ret_3 := rsi r, ret_4 := r9 r\<rparr>,
          w\<lparr>mon := m\<rparr>))"

definition tyche_get_domain_id ::
  "'m monitor \<Rightarrow> domain_id_t option \<Rightarrow> ('m, 'z) world_scheme \<Rightarrow>
   c_int \<times> domain_id_t option \<times> ('m, 'z) world_scheme" where
  "tyche_get_domain_id vmc domain w =
     (if domain = None then (FAIL, domain, w)
      else let frame = (frame0 w)\<lparr>fid := TYCHE_DOMAIN_GET_OWN_ID\<rparr>;
               (rc, frame, w) = tyche_call vmc frame w
           in if rc \<noteq> 0 then (FAIL, domain, w) else (OK, Some (ret_1 frame), w))"

definition tyche_create_domain ::
  "'m monitor \<Rightarrow> domain_id_t option \<Rightarrow> ('m, 'z) world_scheme \<Rightarrow>
   c_int \<times> domain_id_t option \<times> ('m, 'z) world_scheme" where
  "tyche_create_domain vmc hdl w =
     (if hdl = None then (FAIL, hdl, w)
      else let frame = (frame0 w)\<lparr>fid := TYCHE_DOMAIN_CREATE\<rparr>;
               (rc, frame, w) = tyche_call vmc frame w
           in if rc \<noteq> 0 then (FAIL, hdl, w) else (OK, Some (ret_1 frame), w))"

definition tyche_read_capa ::
  "'m monitor \<Rightarrow> ptr option \<Rightarrow> ('m, 'z) tstate_scheme \<Rightarrow> (c_int \<times> ('m, 'z) tstate_scheme) option" where
  "tyche_read_capa vmc capa s = (case capa of None \<Rightarrow> Some (FAIL, s)
     | Some p \<Rightarrow> do {
         c \<leftarrow> capas s p;
         let frame = (frame0 s)\<lparr>fid := TYCHE_REGION_GET_INFO, value_1 := handle c\<rparr>;
         let (rc, frame, s) = tyche_call vmc frame s;
         if rc \<noteq> 0 then Some (FAIL, s)
         else do {
           let c = c\<lparr>c_start := ret_1 frame, c_end := ret_2 frame,
                     is_owned := ucast (ret_3 frame AND TYCHE_OWNED),
                     is_shared := ucast (ret_3 frame AND TYCHE_SHARED),
                     access := ret_4 frame\<rparr>;
           lk \<leftarrow> dll_init_elem p (capa_links s);
           let c = c\<lparr>revoks := dll_init_list\<rparr>;
           Some (OK, s\<lparr>capas := (capas s)(p \<mapsto> c), capa_links := lk\<rparr>) } })"

definition tyche_split_capa ::
  "'m monitor \<Rightarrow> paddr_t \<Rightarrow> paddr_t \<Rightarrow> paddr_t option \<Rightarrow> ('m, 'z) world_scheme \<Rightarrow>
   c_int \<times> paddr_t option \<times> ('m, 'z) world_scheme" where
  "tyche_split_capa vmc hdl split_addr new_handle w =
     (if new_handle = None then (FAIL, new_handle, w)
      else let frame = (frame0 w)\<lparr>fid := TYCHE_REGION_SPLIT, value_1 := hdl, value_2 := split_addr\<rparr>;
               (result, frame, w) = tyche_call vmc frame w
           in if result \<noteq> 0 then (result, new_handle, w) else (OK, Some (ret_1 frame), w))"

definition tyche_grant_capa ::
  "'m monitor \<Rightarrow> domain_id_t \<Rightarrow> paddr_t \<Rightarrow> capability_type_t \<Rightarrow> paddr_t option \<Rightarrow>
   ('m, 'z) world_scheme \<Rightarrow> c_int \<times> paddr_t option \<times> ('m, 'z) world_scheme" where
  "tyche_grant_capa vmc target hdl tpe new_handle w =
     (if new_handle = None then (FAIL, new_handle, w)
      else let frame = (frame0 w)\<lparr>fid := TYCHE_DOMAIN_GRANT_REGION, value_1 := target,
                                  value_2 := hdl, value_3 := translate_access tpe\<rparr>;
               (rc, frame, w) = tyche_call vmc frame w
           in if rc \<noteq> 0 then (FAIL, new_handle, w) else (OK, Some (ret_1 frame), w))"

definition tyche_share_capa ::
  "'m monitor \<Rightarrow> domain_id_t \<Rightarrow> paddr_t \<Rightarrow> capability_type_t \<Rightarrow> paddr_t option \<Rightarrow>
   ('m, 'z) world_scheme \<Rightarrow> c_int \<times> paddr_t option \<times> ('m, 'z) world_scheme" where
  "tyche_share_capa vmc target hdl tpe new_handle w =
     (if new_handle = None then (FAIL, new_handle, w)
      else let frame = (frame0 w)\<lparr>fid := TYCHE_DOMAIN_SHARE_REGION, value_1 := target,
                                  value_2 := hdl, value_3 := translate_access tpe\<rparr>;
               (rc, frame, w) = tyche_call vmc frame w
           in if rc \<noteq> 0 then (FAIL, new_handle, w) else (OK, Some (ret_1 frame), w))"

definition tyche_merge_capa ::
  "'m monitor \<Rightarrow> paddr_t \<Rightarrow> paddr_t \<Rightarrow> ('m, 'z) world_scheme \<Rightarrow> c_int \<times> ('m, 'z) world_scheme" where
  "tyche_merge_capa vmc h1 h2 w =
     (let frame = (frame0 w)\<lparr>fid := TYCHE_REGION_MERGE, value_1 := h1, value_2 := h2,
                             value_3 := 0, value_4 := 0\<rparr>;
          (rc, frame, w) = tyche_call vmc frame w
      in if rc \<noteq> 0 then (FAIL, w) else (OK, w))"

text \<open>\<open>*invoke_capa\<close> is written without a NULL check: a NULL cell is a fault on success.\<close>

definition tyche_domain_seal ::
  "'m monitor \<Rightarrow> domain_id_t \<Rightarrow> paddr_t \<Rightarrow> paddr_t \<Rightarrow> paddr_t \<Rightarrow> capa_index_t option \<Rightarrow>
   ('m, 'z) world_scheme \<Rightarrow> (c_int \<times> capa_index_t option \<times> ('m, 'z) world_scheme) option" where
  "tyche_domain_seal vmc hdl cr3 entry stack invoke_capa w =
     (let frame = (frame0 w)\<lparr>fid := TYCHE_DOMAIN_SEAL, value_1 := hdl, value_2 := cr3,
                             value_3 := entry, value_4 := stack\<rparr>;
          (rc, frame, w) = tyche_call vmc frame w
      in if rc \<noteq> 0 then Some (FAIL, invoke_capa, w)
         else do { _ \<leftarrow> invoke_capa; Some (OK, Some (ret_1 frame), w) })"

definition tyche_domain_revoke ::
  "'m monitor \<Rightarrow> paddr_t \<Rightarrow> ('m, 'z) world_scheme \<Rightarrow> c_int \<times> ('m, 'z) world_scheme" where
  "tyche_domain_revoke vmc hdl w =
     (let frame = (frame0 w)\<lparr>fid := TYCHE_DOMAIN_REVOK_REGION, value_1 := hdl, value_2 := 0,
                             value_3 := 0, value_4 := 0\<rparr>;
          (rc, frame, w) = tyche_call vmc frame w
      in if rc \<noteq> 0 then (FAIL, w) else (OK, w))"

section \<open>ecs.c\<close>

definition ecs_read_size ::
  "'m monitor \<Rightarrow> capa_index_t option \<Rightarrow> ('m, 'z) world_scheme \<Rightarrow>
   c_int \<times> capa_index_t option \<times> ('m, 'z) world_scheme" where
  "ecs_read_size vmc size_out w =
     (if size_out = None then (FAIL, size_out, w)
      else let frame = (frame0 w)\<lparr>fid := TYCHE_CONFIG_NB_REGIONS\<rparr>;
               (rc, frame, w) = tyche_call vmc frame w
           in if rc \<noteq> 0 then (FAIL, size_out, w) else (OK, Some (ret_1 frame), w))"

definition ecs_read_entry ::
  "'m monitor \<Rightarrow> capa_index_t \<Rightarrow> paddr_t option \<Rightarrow> ('m, 'z) world_scheme \<Rightarrow>
   c_int \<times> paddr_t option \<times> ('m, 'z) world_scheme" where
  "ecs_read_entry vmc idx entry w =
     (if entry = None then (FAIL, entry, w)
      else let frame = (frame0 w)\<lparr>fid := TYCHE_CONFIG_READ_REGION, value_1 := idx, value_2 := 1\<rparr>;
               (rc, frame, w) = tyche_call vmc frame w
           in if rc \<noteq> 0 then (FAIL, entry, w) else (OK, Some (ret_1 frame), w))"

section \<open>What the hypercalls leave alone\<close>

text \<open>A hypercall wrapper changes nothing but the monitor's state and its out-parameter.\<close>

lemma tyche_callE:
  obtains rc f m where "tyche_call vmc frame w = (rc, f, w\<lparr>mon := m\<rparr>)"
  by (cases "vmc \<lparr>rax = fid frame, rcx = value_1 frame, rdx = value_2 frame,
                rsi = value_3 frame, r9 = value_4 frame\<rparr> (mon w)")
     (auto simp: tyche_call_def)

lemma tyche_create_domainE:
  obtains r h m where "tyche_create_domain vmc (Some old) w = (r, Some h, w\<lparr>mon := m\<rparr>)"
    and "r = OK \<or> r = FAIL \<and> h = old"
proof -
  obtain rc f m where "tyche_call vmc ((frame0 w)\<lparr>fid := TYCHE_DOMAIN_CREATE\<rparr>) w = (rc, f, w\<lparr>mon := m\<rparr>)"
    by (rule tyche_callE)
  then show ?thesis by (cases "rc = 0") (auto simp: tyche_create_domain_def intro: that)
qed

end
