(* ===== verification/Capabilities.thy ===== *)
theory Capabilities
  imports Tyche_Api
begin

text \<open>
  The capability library \<open>programs/libs/capabilities/src/lib.c\<close> and its kernel-module front end
  \<open>modules/libraries/tyche-capabilities/src/driver.c\<close>.  The library keeps, for the running domain, the
  list of memory capabilities the monitor gave it, splits them, transfers parts to other domains and
  revokes and merges them again.

  The functions work on the heap of \<open>tstate\<close>; each follows its C text statement by statement, a
  \<open>goto failure\<close> being the failing return.  Messages passed to \<open>local_domain.print\<close> have no effect on
  the state, but calling a NULL function pointer is a fault.
\<close>

section \<open>Helpers\<close>

definition dbg_print :: "string \<Rightarrow> ('m, 'z) tstate_scheme \<Rightarrow> unit option" where
  "dbg_print msg s = c_assert (print (local_domain s) \<noteq> None)"

text \<open>\<open>local_domain.alloc(sizeof(capability_t))\<close>: NULL, or a struct with uninitialised fields.\<close>

definition alloc_capa ::
  "('m, 'z) tstate_scheme \<Rightarrow> (ptr option \<times> ('m, 'z) tstate_scheme) option" where
  "alloc_capa s = do {
     _ \<leftarrow> c_assert (alloc (local_domain s) \<noteq> None);
     let (p, s) = kmalloc s;
     case p of None \<Rightarrow> Some (None, s)
     | Some q \<Rightarrow> Some (Some q, s\<lparr>
         capas := (capas s)(q \<mapsto> \<lparr>handle = junk s, c_start = junk s, c_end = junk s,
           is_owned = ucast (junk s), is_shared = ucast (junk s), access = junk s,
           status = ActiveCapa, revoks = \<lparr>head = junkp s, tail = junkp s\<rparr>\<rparr>),
         capa_links := (capa_links s)(q \<mapsto> \<lparr>prev = junkp s, nxt = junkp s\<rparr>)\<rparr>) }"

definition alloc_revok ::
  "('m, 'z) tstate_scheme \<Rightarrow> (ptr option \<times> ('m, 'z) tstate_scheme) option" where
  "alloc_revok s = do {
     _ \<leftarrow> c_assert (alloc (local_domain s) \<noteq> None);
     let (p, s) = kmalloc s;
     case p of None \<Rightarrow> Some (None, s)
     | Some q \<Rightarrow> Some (Some q, s\<lparr>
         revs := (revs s)(q \<mapsto> \<lparr>rdomain = junk s, revok_handle = junk s\<rparr>),
         rev_links := (rev_links s)(q \<mapsto> \<lparr>prev = junkp s, nxt = junkp s\<rparr>)\<rparr>) }"

definition dealloc_capa ::
  "ptr \<Rightarrow> ('m, 'z) tstate_scheme \<Rightarrow> ('m, 'z) tstate_scheme option" where
  "dealloc_capa p s = do {
     _ \<leftarrow> c_assert (dealloc (local_domain s) \<noteq> None);
     cs \<leftarrow> kfree p (capas s);
     lk \<leftarrow> kfree p (capa_links s);
     Some (s\<lparr>capas := cs, capa_links := lk\<rparr>) }"

definition dealloc_revok ::
  "ptr \<Rightarrow> ('m, 'z) tstate_scheme \<Rightarrow> ('m, 'z) tstate_scheme option" where
  "dealloc_revok p s = do {
     _ \<leftarrow> c_assert (dealloc (local_domain s) \<noteq> None);
     rs \<leftarrow> kfree p (revs s);
     lk \<leftarrow> kfree p (rev_links s);
     Some (s\<lparr>revs := rs, rev_links := lk\<rparr>) }"

text \<open>The list macros applied to \<open>local_domain.capabilities\<close> and to the \<open>revoks\<close> of a capability.\<close>

definition capa_list_add ::
  "ptr \<Rightarrow> ('m, 'z) tstate_scheme \<Rightarrow> ('m, 'z) tstate_scheme option" where
  "capa_list_add p s = do {
     (l, lk) \<leftarrow> dll_add p (capabilities (local_domain s), capa_links s);
     Some (s\<lparr>local_domain := (local_domain s)\<lparr>capabilities := l\<rparr>, capa_links := lk\<rparr>) }"

definition capa_list_remove ::
  "ptr \<Rightarrow> ('m, 'z) tstate_scheme \<Rightarrow> ('m, 'z) tstate_scheme option" where
  "capa_list_remove p s = do {
     (l, lk) \<leftarrow> dll_remove p (capabilities (local_domain s), capa_links s);
     Some (s\<lparr>local_domain := (local_domain s)\<lparr>capabilities := l\<rparr>, capa_links := lk\<rparr>) }"

definition revoks_add ::
  "ptr \<Rightarrow> ptr \<Rightarrow> ('m, 'z) tstate_scheme \<Rightarrow> ('m, 'z) tstate_scheme option" where
  "revoks_add p r s = do {
     c \<leftarrow> capas s p;
     (l, lk) \<leftarrow> dll_add r (revoks c, rev_links s);
     Some (s\<lparr>capas := (capas s)(p \<mapsto> c\<lparr>revoks := l\<rparr>), rev_links := lk\<rparr>) }"

definition revoks_remove ::
  "ptr \<Rightarrow> ptr \<Rightarrow> ('m, 'z) tstate_scheme \<Rightarrow> ('m, 'z) tstate_scheme option" where
  "revoks_remove p r s = do {
     c \<leftarrow> capas s p;
     (l, lk) \<leftarrow> dll_remove r (revoks c, rev_links s);
     Some (s\<lparr>capas := (capas s)(p \<mapsto> c\<lparr>revoks := l\<rparr>), rev_links := lk\<rparr>) }"

definition set_status ::
  "ptr \<Rightarrow> capa_status_t \<Rightarrow> ('m, 'z) tstate_scheme \<Rightarrow> ('m, 'z) tstate_scheme option" where
  "set_status p st s = do {
     c \<leftarrow> capas s p;
     Some (s\<lparr>capas := (capas s)(p \<mapsto> c\<lparr>status := st\<rparr>)\<rparr>) }"

definition access_is_less :: "u64 \<Rightarrow> u64 \<Rightarrow> bool" where
  "access_is_less a1 a2 =
     (if a1 AND CAPA_READ \<noteq> 0 \<and> a2 AND CAPA_READ = 0 then False
      else if a1 AND CAPA_WRITE \<noteq> 0 \<and> a2 AND CAPA_WRITE = 0 then False
      else if a1 AND CAPA_EXEC \<noteq> 0 \<and> a2 AND CAPA_EXEC = 0 then False
      else True)"

section \<open>init_domain and create_domain\<close>

text \<open>
  The enumeration loop: \<open>True\<close> when it ran to the end, \<open>False\<close> for \<open>goto failure\<close>.  A capability that
  was allocated but could not be read is not in the list yet when the loop is left.
\<close>

function init_regions ::
  "'m monitor \<Rightarrow> capa_index_t \<Rightarrow> capa_index_t \<Rightarrow> ('m, 'z) tstate_scheme \<Rightarrow>
   (bool \<times> ('m, 'z) tstate_scheme) option" where
  "init_regions vmc nb_capa i s =
     (if i < nb_capa then do {
        (capa, s) \<leftarrow> alloc_capa s;
        case capa of
          None \<Rightarrow> do { _ \<leftarrow> dbg_print ''unable to allocate capa.'' s; Some (False, s) }
        | Some p \<Rightarrow> do {
            c \<leftarrow> capas s p;
            let (rc, h, s) = ecs_read_entry vmc i (Some (handle c)) s;
            let s = s\<lparr>capas := (capas s)(p \<mapsto> c\<lparr>handle := the h\<rparr>)\<rparr>;
            if rc \<noteq> 0 then do { _ \<leftarrow> dbg_print ''unable to read ecs.'' s; Some (False, s) }
            else do {
              lk \<leftarrow> dll_init_elem p (capa_links s);
              let s = s\<lparr>capa_links := lk\<rparr>;
              (rc, s) \<leftarrow> tyche_read_capa vmc (Some p) s;
              if rc \<noteq> 0 then do { _ \<leftarrow> dbg_print ''unable to read the capa.'' s; Some (False, s) }
              else do {
                c \<leftarrow> capas s p;
                if access c AND CAPA_REVOK \<noteq> 0
                then do { _ \<leftarrow> dbg_print ''init_domain found a revocation handle.'' s; Some (False, s) }
                else do {
                  s \<leftarrow> set_status p ActiveCapa s;
                  _ \<leftarrow> (if is_shared c \<noteq> 0
                       then dbg_print ''There is a handle that is already shared?'' s else Some ());
                  s \<leftarrow> capa_list_add p s;
                  init_regions vmc nb_capa (i + 1) s } } } } }
      else Some (True, s))"
  by pat_completeness auto
termination
  by (relation "measure (\<lambda>(vmc, nb, i, s). unat nb - unat i)") (simp_all add: counter_less)

declare init_regions.simps [simp del]

text \<open>The \<open>failure:\<close> loop: empty the capability list, freeing every element.\<close>

partial_function (option) drain_capabilities ::
  "('m, 'z) tstate_scheme \<Rightarrow> ('m, 'z) tstate_scheme option" where
  "drain_capabilities s =
     (if dll_is_empty (capabilities (local_domain s)) then Some s
      else do {
        capa \<leftarrow> head (capabilities (local_domain s));
        s \<leftarrow> capa_list_remove capa s;
        s \<leftarrow> dealloc_capa capa s;
        drain_capabilities s })"

definition init_domain ::
  "'m monitor \<Rightarrow> ptr option \<Rightarrow> ptr option \<Rightarrow> ptr option \<Rightarrow> ('m, 'z) tstate_scheme \<Rightarrow>
   (c_int \<times> ('m, 'z) tstate_scheme) option" where
  "init_domain vmc allocator deallocator print_fn s =
     (if allocator = None \<or> deallocator = None \<or> print_fn = None then Some (FAIL, s)
      else do {
        let s = s\<lparr>local_domain := (local_domain s)\<lparr>alloc := allocator, dealloc := deallocator,
                    print := print_fn, capabilities := dll_init_list\<rparr>\<rparr>;
        let (rc, d, s) = tyche_get_domain_id vmc (Some (dom_id (local_domain s))) s;
        let s = s\<lparr>local_domain := (local_domain s)\<lparr>dom_id := the d\<rparr>\<rparr>;
        if rc \<noteq> 0 then do {
          _ \<leftarrow> dbg_print ''unable to get the domain id.'' s;
          _ \<leftarrow> dbg_print ''failure to init domain.'' s;
          Some (FAIL, s) }
        else do {
          let (rc, n, s) = ecs_read_size vmc (Some 0) s;
          if rc \<noteq> 0 then do { _ \<leftarrow> dbg_print ''failure to init domain.'' s; Some (FAIL, s) }
          else do {
            (ok, s) \<leftarrow> init_regions vmc (the n) 0 s;
            if ok then Some (OK, s)
            else do {
              s \<leftarrow> drain_capabilities s;
              _ \<leftarrow> dbg_print ''failure to init domain.'' s;
              Some (FAIL, s) } } } })"

definition create_domain ::
  "'m monitor \<Rightarrow> domain_id_t option \<Rightarrow> ('m, 'z) world_scheme \<Rightarrow>
   c_int \<times> domain_id_t option \<times> ('m, 'z) world_scheme" where
  "create_domain vmc hdl w =
     (if hdl = None then (FAIL, hdl, w)
      else let (rc, hdl, w) = tyche_create_domain vmc hdl w
           in if rc \<noteq> 0 then (FAIL, hdl, w) else (OK, hdl, w))"

section \<open>split_capa\<close>

definition split_capa ::
  "'m monitor \<Rightarrow> ptr option \<Rightarrow> paddr_t \<Rightarrow> ('m, 'z) tstate_scheme \<Rightarrow>
   (ptr option \<times> ('m, 'z) tstate_scheme) option" where
  "split_capa vmc capa split_addr s = (case capa of
     None \<Rightarrow> do { _ \<leftarrow> dbg_print ''capa null.'' s; Some (None, s) }
   | Some p \<Rightarrow> do {
       c \<leftarrow> capas s p;
       if access c AND CAPA_REVOK \<noteq> 0
       then do { _ \<leftarrow> dbg_print ''trying to split a revok capa.'' s; Some (None, s) }
       else if is_owned c = 0 \<or> is_shared c \<noteq> 0
       then do { _ \<leftarrow> dbg_print ''trying to split a capa that either not owned or is shared.'' s;
                 Some (None, s) }
       else if \<not> dll_contains (c_start c) (c_end c) split_addr
       then do { _ \<leftarrow> dbg_print ''wrong capability, does not contain.'' s; Some (None, s) }
       else do {
         (split, s) \<leftarrow> alloc_capa s;
         case split of
           None \<Rightarrow> do { _ \<leftarrow> dbg_print ''split alloc failed.'' s; Some (None, s) }
         | Some q \<Rightarrow> do {
             d \<leftarrow> capas s q;
             let d = d\<lparr>c_start := split_addr, c_end := c_end c, is_owned := is_owned c,
                       is_shared := is_shared c, status := status c, access := access c\<rparr>;
             lk \<leftarrow> dll_init_elem q (capa_links s);
             let d = d\<lparr>revoks := dll_init_list\<rparr>;
             let s = s\<lparr>capas := (capas s)(q \<mapsto> d), capa_links := lk\<rparr>;
             let (rc, h, s) = tyche_split_capa vmc (handle c) split_addr (Some (handle d)) s;
             let s = s\<lparr>capas := (capas s)(q \<mapsto> d\<lparr>handle := the h\<rparr>)\<rparr>;
             if rc \<noteq> 0
             then do {
               _ \<leftarrow> dbg_print ''tyche rejected the split.'' s;
               s \<leftarrow> dealloc_capa q s;
               Some (None, s) }
             else do {
               c \<leftarrow> capas s p;
               let s = s\<lparr>capas := (capas s)(p \<mapsto> c\<lparr>c_end := split_addr\<rparr>)\<rparr>;
               s \<leftarrow> capa_list_add q s;
               Some (Some q, s) } } } })"

section \<open>transfer_capa\<close>

text \<open>The test of the search loop: a perfect match, or both ends strictly inside.\<close>

definition transfer_match :: "paddr_t \<Rightarrow> paddr_t \<Rightarrow> capability_t \<Rightarrow> bool" where
  "transfer_match start stop c \<longleftrightarrow>
     (c_start c = start \<and> c_end c = stop) \<or>
     (dll_contains (c_start c) (c_end c) start \<and> dll_contains (c_start c) (c_end c) stop)"

definition transfer_grant ::
  "'m monitor \<Rightarrow> domain_id_t \<Rightarrow> capability_type_t \<Rightarrow> ptr \<Rightarrow> ('m, 'z) tstate_scheme \<Rightarrow>
   (c_int \<times> ('m, 'z) tstate_scheme) option" where
  "transfer_grant vmc did tpe split s = do {
     (revok, s) \<leftarrow> alloc_revok s;
     case revok of
       None \<Rightarrow> do { _ \<leftarrow> dbg_print ''failure in transfer.'' s; Some (FAIL, s) }
     | Some r \<Rightarrow> do {
         s \<leftarrow> set_status split PausedCapa s;
         lk \<leftarrow> dll_init_elem r (rev_links s);
         v \<leftarrow> revs s r;
         let v = v\<lparr>rdomain := did\<rparr>;
         let s = s\<lparr>rev_links := lk, revs := (revs s)(r \<mapsto> v)\<rparr>;
         c \<leftarrow> capas s split;
         let (rc, h, s) = tyche_grant_capa vmc did (handle c) tpe (Some (revok_handle v)) s;
         let s = s\<lparr>revs := (revs s)(r \<mapsto> v\<lparr>revok_handle := the h\<rparr>)\<rparr>;
         if rc \<noteq> 0
         then do {
           _ \<leftarrow> dbg_print ''Failure to grant capa.'' s;
           s \<leftarrow> set_status split ActiveCapa s;
           s \<leftarrow> dealloc_revok r s;
           _ \<leftarrow> dbg_print ''failure in transfer.'' s;
           Some (FAIL, s) }
         else do {
           s \<leftarrow> revoks_add split r s;
           Some (OK, s) } } }"

definition transfer_share ::
  "'m monitor \<Rightarrow> domain_id_t \<Rightarrow> capability_type_t \<Rightarrow> ptr \<Rightarrow> ('m, 'z) tstate_scheme \<Rightarrow>
   (c_int \<times> ('m, 'z) tstate_scheme) option" where
  "transfer_share vmc did tpe split s = do {
     c \<leftarrow> capas s split;
     let prv = status c;
     dup \<leftarrow> dll_find (\<lambda>r. map_option (\<lambda>v. rdomain v = did) (revs s r)) (rev_links s) (head (revoks c));
     if dup \<noteq> None
     then do {
       _ \<leftarrow> dbg_print ''The region is already shared with the domain.'' s;
       _ \<leftarrow> dbg_print ''failure in transfer.'' s;
       Some (FAIL, s) }
     else do {
       (revok, s) \<leftarrow> alloc_revok s;
       case revok of
         None \<Rightarrow> do { _ \<leftarrow> dbg_print ''failure in transfer.'' s; Some (FAIL, s) }
       | Some r \<Rightarrow> do {
           s \<leftarrow> set_status split SharedCapa s;
           v \<leftarrow> revs s r;
           let v = v\<lparr>rdomain := did\<rparr>;
           lk \<leftarrow> dll_init_elem r (rev_links s);
           let s = s\<lparr>rev_links := lk, revs := (revs s)(r \<mapsto> v)\<rparr>;
           c \<leftarrow> capas s split;
           let (rc, h, s) = tyche_share_capa vmc did (handle c) tpe (Some (revok_handle v)) s;
           let s = s\<lparr>revs := (revs s)(r \<mapsto> v\<lparr>revok_handle := the h\<rparr>)\<rparr>;
           if rc \<noteq> 0
           then do {
             _ \<leftarrow> dbg_print ''Failure to grant capa.'' s;
             s \<leftarrow> set_status split prv s;
             s \<leftarrow> dealloc_revok r s;
             _ \<leftarrow> dbg_print ''failure in transfer.'' s;
             Some (FAIL, s) }
           else do {
             s \<leftarrow> revoks_add split r s;
             Some (OK, s) } } } }"

text \<open>
  The carving step: \<open>Some q\<close> in the result is the capability that covers exactly what is to be
  transferred, \<open>None\<close> means \<open>goto failure\<close>.
\<close>

definition transfer_carve ::
  "'m monitor \<Rightarrow> paddr_t \<Rightarrow> paddr_t \<Rightarrow> ptr \<Rightarrow> ('m, 'z) tstate_scheme \<Rightarrow>
   (ptr option \<times> ('m, 'z) tstate_scheme) option" where
  "transfer_carve vmc start stop cur s = do {
     c \<leftarrow> capas s cur;
     if c_start c \<noteq> start \<or> c_end c \<noteq> stop
     then do {
       (split, s) \<leftarrow> split_capa vmc (Some cur) start s;
       case split of
         None \<Rightarrow> do { _ \<leftarrow> dbg_print ''split failed in transfer.'' s; Some (None, s) }
       | Some q \<Rightarrow> do {
           d \<leftarrow> capas s q;
           if c_end d > stop
           then do {
             (rest, s) \<leftarrow> split_capa vmc (Some q) stop s;
             if rest = None
             then do { _ \<leftarrow> dbg_print ''second split failed.'' s; Some (None, s) }
             else Some (Some q, s) }
           else Some (Some q, s) } }
     else Some (Some cur, s) }"

definition transfer_capa ::
  "'m monitor \<Rightarrow> domain_id_t \<Rightarrow> paddr_t \<Rightarrow> paddr_t \<Rightarrow> capability_type_t \<Rightarrow>
   ('m, 'z) tstate_scheme \<Rightarrow> (c_int \<times> ('m, 'z) tstate_scheme) option" where
  "transfer_capa vmc did start stop tpe s =
     (if start \<ge> stop \<or> tpe > MaxTpe \<or> tpe < MinTpe \<or> start mod 0x1000 \<noteq> 0 \<or> stop mod 0x1000 \<noteq> 0
      then do { _ \<leftarrow> dbg_print ''failure in transfer.'' s; Some (FAIL, s) }
      else do {
        cur \<leftarrow> dll_find (\<lambda>p. map_option (transfer_match start stop) (capas s p)) (capa_links s)
                 (head (capabilities (local_domain s)));
        case cur of
          None \<Rightarrow> do {
            _ \<leftarrow> dbg_print ''failed to find capa in transfer.'' s;
            _ \<leftarrow> dbg_print ''failure in transfer.'' s;
            Some (FAIL, s) }
        | Some p \<Rightarrow> do {
            c \<leftarrow> capas s p;
            if \<not> access_is_less (translate_access tpe) (access c)
            then do {
              _ \<leftarrow> dbg_print ''attempt to increase access rights in transfer.'' s;
              _ \<leftarrow> dbg_print ''failure in transfer.'' s;
              Some (FAIL, s) }
            else if SharedRO \<le> tpe \<and> tpe \<le> Shared \<and> status c = PausedCapa
            then do {
              _ \<leftarrow> dbg_print ''attempt to share a granted region.'' s;
              _ \<leftarrow> dbg_print ''failure in transfer.'' s;
              Some (FAIL, s) }
            else if ConfidentialRO \<le> tpe \<and> tpe \<le> Confidential \<and> status c \<noteq> ActiveCapa
            then do {
              _ \<leftarrow> dbg_print ''attempt to grant a region that is not exclusively owned.'' s;
              _ \<leftarrow> dbg_print ''failure in transfer.'' s;
              Some (FAIL, s) }
            else do {
              (split, s) \<leftarrow> transfer_carve vmc start stop p s;
              case split of
                None \<Rightarrow> do { _ \<leftarrow> dbg_print ''failure in transfer.'' s; Some (FAIL, s) }
              | Some q \<Rightarrow>
                  if ConfidentialRO \<le> tpe \<and> tpe \<le> Confidential
                  then transfer_grant vmc did tpe q s
                  else transfer_share vmc did tpe q s } } })"

definition seal_domain ::
  "'m monitor \<Rightarrow> domain_id_t \<Rightarrow> paddr_t \<Rightarrow> paddr_t \<Rightarrow> paddr_t \<Rightarrow> capa_index_t option \<Rightarrow>
   ('m, 'z) tstate_scheme \<Rightarrow> (c_int \<times> capa_index_t option \<times> ('m, 'z) tstate_scheme) option" where
  "seal_domain vmc hdl cr3 entry stack invoke_capa s = do {
     _ \<leftarrow> dbg_print ''About to seal a domain.'' s;
     tyche_domain_seal vmc hdl cr3 entry stack invoke_capa s }"

section \<open>revoke_capa\<close>

text \<open>
  The code behind the label \<open>attempt_merge\<close>.  The left merge reads its conditions from \<open>prev\<close>; the
  right merge reads \<open>next\<close>, and for the revocation list \<open>prev\<close> again, whether or not there is one.
\<close>

definition merge_left ::
  "'m monitor \<Rightarrow> ptr option \<Rightarrow> ptr \<Rightarrow> ('m, 'z) tstate_scheme \<Rightarrow>
   (ptr option \<times> ('m, 'z) tstate_scheme) option" where
  "merge_left vmc prv cur s = do {
     c \<leftarrow> capas s cur;
     case prv of
       None \<Rightarrow> Some (Some cur, s)
     | Some q \<Rightarrow> do {
         d \<leftarrow> capas s q;
         if c_end d = c_start c \<and> is_owned d \<noteq> 0 \<and> status d = ActiveCapa \<and>
            access d = access c \<and> dll_is_empty (revoks d)
         then do {
           let (rc, s) = tyche_merge_capa vmc (handle d) (handle c) s;
           if rc \<noteq> 0 then Some (None, s)
           else do {
             let s = s\<lparr>capas := (capas s)(q \<mapsto> d\<lparr>c_end := c_end c\<rparr>)\<rparr>;
             s \<leftarrow> capa_list_remove cur s;
             s \<leftarrow> dealloc_capa cur s;
             Some (Some q, s) } }
         else Some (Some cur, s) } }"

definition merge_right ::
  "'m monitor \<Rightarrow> ptr option \<Rightarrow> ptr option \<Rightarrow> ptr \<Rightarrow> ('m, 'z) tstate_scheme \<Rightarrow>
   ('m, 'z) tstate_scheme option" where
  "merge_right vmc prv nx cur s = do {
     c \<leftarrow> capas s cur;
     case nx of
       None \<Rightarrow> Some s
     | Some n \<Rightarrow> do {
         d \<leftarrow> capas s n;
         if c_end c = c_start d \<and> is_owned d \<noteq> 0 \<and> status d = ActiveCapa \<and> access d = access c
         then do {
           q \<leftarrow> prv;
           e \<leftarrow> capas s q;
           if dll_is_empty (revoks e)
           then do {
             let (rc, s) = tyche_merge_capa vmc (handle c) (handle d) s;
             if rc \<noteq> 0 then do { _ \<leftarrow> dbg_print ''merge attempt failed'' s; Some s }
             else do {
               let s = s\<lparr>capas := (capas s)(cur \<mapsto> c\<lparr>c_end := c_end d\<rparr>)\<rparr>;
               s \<leftarrow> capa_list_remove n s;
               dealloc_capa n s } }
           else Some s }
         else Some s } }"

definition attempt_merge ::
  "'m monitor \<Rightarrow> ptr \<Rightarrow> ('m, 'z) tstate_scheme \<Rightarrow> (c_int \<times> ('m, 'z) tstate_scheme) option" where
  "attempt_merge vmc cur s = do {
     c \<leftarrow> capas s cur;
     if status c \<noteq> ActiveCapa
     then do { _ \<leftarrow> dbg_print ''Attempting to merge non active capa'' s; Some (FAIL, s) }
     else do {
       x \<leftarrow> capa_links s cur;
       let prv = prev x;
       let nx = nxt x;
       (r, s) \<leftarrow> merge_left vmc prv cur s;
       case r of
         None \<Rightarrow> do { _ \<leftarrow> dbg_print ''merge attempt failed'' s; Some (OK, s) }
       | Some cur \<Rightarrow> do {
           s \<leftarrow> merge_right vmc prv nx cur s;
           Some (OK, s) } } }"

definition revoke_paused ::
  "'m monitor \<Rightarrow> domain_id_t \<Rightarrow> ptr \<Rightarrow> ('m, 'z) tstate_scheme \<Rightarrow>
   (c_int \<times> ('m, 'z) tstate_scheme) option" where
  "revoke_paused vmc did cur s = do {
     c \<leftarrow> capas s cur;
     r \<leftarrow> head (revoks c);
     x \<leftarrow> rev_links s r;
     if prev x \<noteq> None \<or> nxt x \<noteq> None
     then do { _ \<leftarrow> dbg_print ''revoke capa revok multiple revok handles.'' s; Some (FAIL, s) }
     else do {
       v \<leftarrow> revs s r;
       if rdomain v \<noteq> did
       then do { _ \<leftarrow> dbg_print ''revoke capa domain does not match.'' s; Some (FAIL, s) }
       else do {
         let (rc, s) = tyche_domain_revoke vmc (revok_handle v) s;
         if rc \<noteq> 0
         then do { _ \<leftarrow> dbg_print ''revoke capa failure to revoke.'' s; Some (FAIL, s) }
         else do {
           s \<leftarrow> revoks_remove cur r s;
           s \<leftarrow> dealloc_revok r s;
           c \<leftarrow> capas s cur;
           if \<not> dll_is_empty (revoks c)
           then do { _ \<leftarrow> dbg_print ''Multiple revok handles in confidential case'' s; Some (FAIL, s) }
           else do {
             s \<leftarrow> set_status cur ActiveCapa s;
             attempt_merge vmc cur s } } } } }"

definition revoke_shared ::
  "'m monitor \<Rightarrow> domain_id_t \<Rightarrow> ptr \<Rightarrow> ('m, 'z) tstate_scheme \<Rightarrow>
   (c_int \<times> ('m, 'z) tstate_scheme) option" where
  "revoke_shared vmc did cur s = do {
     c \<leftarrow> capas s cur;
     revok \<leftarrow> dll_find (\<lambda>r. map_option (\<lambda>v. rdomain v = did) (revs s r)) (rev_links s) (head (revoks c));
     case revok of
       None \<Rightarrow> do { _ \<leftarrow> dbg_print ''revoke capa shared capa null.'' s; Some (FAIL, s) }
     | Some r \<Rightarrow> do {
         v \<leftarrow> revs s r;
         if rdomain v \<noteq> did
         then do { _ \<leftarrow> dbg_print ''revoke capa wrong domain id.'' s; Some (FAIL, s) }
         else do {
           let (rc, s) = tyche_domain_revoke vmc (revok_handle v) s;
           if rc \<noteq> 0
           then do { _ \<leftarrow> dbg_print ''revoke capa shared capa failed.'' s; Some (FAIL, s) }
           else do {
             s \<leftarrow> revoks_remove cur r s;
             s \<leftarrow> dealloc_revok r s;
             c \<leftarrow> capas s cur;
             if dll_is_empty (revoks c) \<and> is_owned c \<noteq> 0
             then do {
               s \<leftarrow> set_status cur ActiveCapa s;
               attempt_merge vmc cur s }
             else Some (OK, s) } } } }"

definition revoke_capa ::
  "'m monitor \<Rightarrow> domain_id_t \<Rightarrow> paddr_t \<Rightarrow> paddr_t \<Rightarrow> ('m, 'z) tstate_scheme \<Rightarrow>
   (c_int \<times> ('m, 'z) tstate_scheme) option" where
  "revoke_capa vmc did start stop s =
     (if start \<ge> stop
      then do { _ \<leftarrow> dbg_print ''revoke capa start greater or equal to end'' s; Some (FAIL, s) }
      else do {
        cur \<leftarrow> dll_find (\<lambda>p. map_option (\<lambda>c. c_start c = start \<and> c_end c = stop) (capas s p))
                 (capa_links s) (head (capabilities (local_domain s)));
        case cur of
          None \<Rightarrow> do { _ \<leftarrow> dbg_print ''revoke capa unable to find capa.'' s; Some (FAIL, s) }
        | Some p \<Rightarrow> do {
            c \<leftarrow> capas s p;
            if dll_is_empty (revoks c)
            then do { _ \<leftarrow> dbg_print ''revoke capa empty revok handles.'' s; Some (FAIL, s) }
            else if status c = PausedCapa then revoke_paused vmc did p s
            else if status c = SharedCapa then revoke_shared vmc did p s
            else attempt_merge vmc p s } })"

section \<open>The kernel module around the library\<close>

text \<open>The three functions the driver passes to \<open>init_domain\<close> are never NULL; what they do is
  \<open>kmalloc\<close>, \<open>kfree\<close> and \<open>printk\<close>.\<close>

definition tyche_capabilities_init ::
  "'m monitor \<Rightarrow> ptr \<Rightarrow> ptr \<Rightarrow> ptr \<Rightarrow> ('m, 'z) tstate_scheme \<Rightarrow>
   (c_int \<times> ('m, 'z) tstate_scheme) option" where
  "tyche_capabilities_init vmc local_allocator local_free local_print s =
     init_domain vmc (Some local_allocator) (Some local_free) (Some local_print) s"

definition tc_create_domain ::
  "'m monitor \<Rightarrow> domain_id_t option \<Rightarrow> ('m, 'z) world_scheme \<Rightarrow>
   c_int \<times> domain_id_t option \<times> ('m, 'z) world_scheme" where
  "tc_create_domain vmc hdl = create_domain vmc hdl"

definition tc_transfer_capability ::
  "'m monitor \<Rightarrow> domain_id_t \<Rightarrow> paddr_t \<Rightarrow> paddr_t \<Rightarrow> capability_type_t \<Rightarrow>
   ('m, 'z) tstate_scheme \<Rightarrow> (c_int \<times> ('m, 'z) tstate_scheme) option" where
  "tc_transfer_capability vmc did start stop tpe = transfer_capa vmc did start stop tpe"

definition tc_seal_domain ::
  "'m monitor \<Rightarrow> domain_id_t \<Rightarrow> paddr_t \<Rightarrow> paddr_t \<Rightarrow> paddr_t \<Rightarrow> capa_index_t option \<Rightarrow>
   ('m, 'z) tstate_scheme \<Rightarrow> (c_int \<times> capa_index_t option \<times> ('m, 'z) tstate_scheme) option" where
  "tc_seal_domain vmc did cr3 entry stack invoke_capa = seal_domain vmc did cr3 entry stack invoke_capa"

definition tc_revoke_region ::
  "'m monitor \<Rightarrow> domain_id_t \<Rightarrow> paddr_t \<Rightarrow> paddr_t \<Rightarrow> ('m, 'z) tstate_scheme \<Rightarrow>
   (c_int \<times> ('m, 'z) tstate_scheme) option" where
  "tc_revoke_region vmc did start stop = revoke_capa vmc did start stop"

end
