(* ===== verification/Capability_Spec.thy ===== *)
theory Capability_Spec
  imports Tyche_Api
begin

text \<open>
  What the capability library promises, without its heap.  A domain is a list of capabilities, each with the list of
  its revocation handles.  The first part has the steps such a list can take and the invariants they keep.  The
  second part says what every call of the library does to the list and to its surroundings, the monitor and the
  allocator: which hypercall is made with which registers, what becomes of the list when it is accepted, and what when
  it is refused or memory is short.
\<close>

section \<open>The abstract domain\<close>

record acapa =
  a_handle :: paddr_t
  a_start :: paddr_t
  a_end :: paddr_t
  a_owned :: u32
  a_shared :: u32
  a_access :: u64
  a_status :: capa_status_t
  a_revs :: "revok_handle_t list"

abbreviation a_ivl :: "acapa \<Rightarrow> u64 set" where
  "a_ivl a \<equiv> ivl (a_start a) (a_end a)"

inductive dom_step :: "acapa list \<Rightarrow> acapa list \<Rightarrow> bool" where
  split: "a_start a \<le> x \<Longrightarrow> x < a_end a \<Longrightarrow> a_status a \<noteq> PausedCapa \<Longrightarrow>
    a_owned a \<noteq> 0 \<Longrightarrow> a_shared a = 0 \<Longrightarrow>
    dom_step (L @ a # R)
      (L @ a\<lparr>a_end := x\<rparr> # R @ [a\<lparr>a_handle := h, a_start := x, a_revs := []\<rparr>])"
| grant: "a_status a = ActiveCapa \<Longrightarrow>
    dom_step (L @ a # R) (L @ a\<lparr>a_status := PausedCapa, a_revs := a_revs a @ [v]\<rparr> # R)"
| share: "a_status a \<noteq> PausedCapa \<Longrightarrow> \<forall>w \<in> set (a_revs a). rdomain w \<noteq> rdomain v \<Longrightarrow>
    dom_step (L @ a # R) (L @ a\<lparr>a_status := SharedCapa, a_revs := a_revs a @ [v]\<rparr> # R)"
| unpause: "a_status a = PausedCapa \<Longrightarrow> a_revs a = [v] \<Longrightarrow>
    dom_step (L @ a # R) (L @ a\<lparr>a_status := ActiveCapa, a_revs := []\<rparr> # R)"
| unshare: "a_status a = SharedCapa \<Longrightarrow> a_revs a = vs @ v # ws \<Longrightarrow>
    dom_step (L @ a # R)
      (L @ a\<lparr>a_status := (if vs @ ws = [] \<and> a_owned a \<noteq> 0 then ActiveCapa else SharedCapa),
            a_revs := vs @ ws\<rparr> # R)"
| merge: "a_end a = a_start b \<Longrightarrow> a_status a = ActiveCapa \<Longrightarrow> a_status b = ActiveCapa \<Longrightarrow>
    a_access a = a_access b \<Longrightarrow>
    dom_step (L @ a # b # R) (L @ a\<lparr>a_end := a_end b\<rparr> # R)"

text \<open>
  The invariants of the abstract domain: intervals are not reversed and do not overlap; an active
  capability has no revocation handle, a paused one has exactly one, and no domain holds two handles
  of the same capability.
\<close>

definition a_cover :: "acapa list \<Rightarrow> u64 set" where
  "a_cover A = (\<Union>a \<in> set A. a_ivl a)"

fun a_disjoint :: "acapa list \<Rightarrow> bool" where
  "a_disjoint [] = True"
| "a_disjoint (a # A) = (a_ivl a \<inter> a_cover A = {} \<and> a_disjoint A)"

definition a_ordered :: "acapa list \<Rightarrow> bool" where
  "a_ordered A \<longleftrightarrow> (\<forall>a \<in> set A. a_start a \<le> a_end a)"

definition a_status_ok :: "acapa \<Rightarrow> bool" where
  "a_status_ok a \<longleftrightarrow>
     (case a_status a of
        ActiveCapa \<Rightarrow> a_revs a = []
      | PausedCapa \<Rightarrow> length (a_revs a) = 1
      | SharedCapa \<Rightarrow> distinct (map rdomain (a_revs a)))"

definition a_wf :: "acapa list \<Rightarrow> bool" where
  "a_wf A \<longleftrightarrow> a_ordered A \<and> a_disjoint A \<and> (\<forall>a \<in> set A. a_status_ok a)"

lemma a_cover_simps [simp]:
  "a_cover [] = {}" "a_cover (a # A) = a_ivl a \<union> a_cover A"
  "a_cover (A @ B) = a_cover A \<union> a_cover B"
  by (auto simp: a_cover_def)

lemma a_disjoint_append:
  "a_disjoint (A @ B) \<longleftrightarrow> a_disjoint A \<and> a_disjoint B \<and> a_cover A \<inter> a_cover B = {}"
  by (induction A) auto

lemma a_ordered_simps [simp]:
  "a_ordered []" "a_ordered (a # A) \<longleftrightarrow> a_start a \<le> a_end a \<and> a_ordered A"
  "a_ordered (A @ B) \<longleftrightarrow> a_ordered A \<and> a_ordered B"
  by (auto simp: a_ordered_def)

text \<open>No step loses, gains or duplicates an address.\<close>

lemma dom_step_cover: "dom_step A B \<Longrightarrow> a_ordered A \<Longrightarrow> a_cover B = a_cover A"
proof (induction rule: dom_step.induct)
  case (split a x L R h)
  then have "ivl (a_start a) x \<union> ivl x (a_end a) = a_ivl a" by (intro ivl_split) auto
  then show ?case by auto
next
  case (merge a b L R)
  then have "a_ivl a \<union> a_ivl b = ivl (a_start a) (a_end b)"
    using ivl_split [of "a_start a" "a_start b" "a_end b"] by auto
  then show ?case by auto
qed auto

lemma dom_step_ordered: "dom_step A B \<Longrightarrow> a_ordered A \<Longrightarrow> a_ordered B"
  by (induction rule: dom_step.induct) auto

lemma dom_step_disjoint: "dom_step A B \<Longrightarrow> a_ordered A \<Longrightarrow> a_disjoint A \<Longrightarrow> a_disjoint B"
proof (induction rule: dom_step.induct)
  case (split a x L R h)
  then have e: "a_ivl a = ivl (a_start a) x \<union> ivl x (a_end a)" by (intro ivl_split [symmetric]) auto
  have d: "ivl (a_start a) x \<inter> ivl x (a_end a) = {}" by (rule ivl_disjoint_split)
  from split.prems(2) e have "a_disjoint L" "a_disjoint R"
    "a_cover L \<inter> (ivl (a_start a) x \<union> ivl x (a_end a) \<union> a_cover R) = {}"
    "(ivl (a_start a) x \<union> ivl x (a_end a)) \<inter> a_cover R = {}"
    by (auto simp: a_disjoint_append)
  with d show ?case by (simp add: a_disjoint_append) blast
next
  case (merge a b L R)
  then have e: "a_ivl a \<union> a_ivl b = ivl (a_start a) (a_end b)"
    using ivl_split [of "a_start a" "a_start b" "a_end b"] by auto
  from merge.prems(2) have "a_disjoint L" "a_disjoint R"
    "a_cover L \<inter> ((a_ivl a \<union> a_ivl b) \<union> a_cover R) = {}" "(a_ivl a \<union> a_ivl b) \<inter> a_cover R = {}"
    by (auto simp: a_disjoint_append)
  then show ?case unfolding e by (simp add: a_disjoint_append)
qed (auto simp: a_disjoint_append)

lemma dom_step_status:
  "dom_step A B \<Longrightarrow> \<forall>a \<in> set A. a_status_ok a \<Longrightarrow> \<forall>a \<in> set B. a_status_ok a"
proof (induction rule: dom_step.induct)
  case (split a x L R h)
  then show ?case by (cases "a_status a") (auto simp: a_status_ok_def)
next
  case (share a v L R)
  then show ?case by (cases "a_status a") (auto simp: a_status_ok_def)
next
  case (unshare a vs v ws L R)
  then show ?case by (auto simp: a_status_ok_def)
qed (auto simp: a_status_ok_def)

lemma dom_step_wf: "dom_step A B \<Longrightarrow> a_wf A \<Longrightarrow> a_wf B"
  using dom_step_ordered dom_step_disjoint dom_step_status by (simp add: a_wf_def)

lemma dom_steps_wf: "dom_step\<^sup>*\<^sup>* A B \<Longrightarrow> a_wf A \<Longrightarrow> a_wf B"
  by (induction rule: rtranclp_induct) (auto intro: dom_step_wf)

lemma dom_steps_cover: "dom_step\<^sup>*\<^sup>* A B \<Longrightarrow> a_wf A \<Longrightarrow> a_cover B = a_cover A"
proof (induction rule: rtranclp_induct)
  case base
  then show ?case by simp
next
  case (step B C)
  then have "a_wf B" using dom_steps_wf by blast
  with step show ?case using dom_step_cover by (simp add: a_wf_def)
qed

section \<open>Asking the monitor\<close>

text \<open>The registers \<open>rax\<close>, \<open>rcx\<close>, \<open>rdx\<close>, \<open>rsi\<close> and \<open>r9\<close> of a hypercall; those that are not given hold what was on the
  stack.  The answer is \<open>None\<close> when the low 32 bits of \<open>rax\<close> are not zero.\<close>

definition register :: "u64 list \<Rightarrow> 'm world \<Rightarrow> nat \<Rightarrow> u64" where
  "register xs w i = (if i < length xs then xs ! i else junk w)"

definition ask :: "'m monitor \<Rightarrow> u64 list \<Rightarrow> 'm world \<Rightarrow> regs option \<times> 'm world" where
  "ask vmc xs w =
     (let (r, m) = vmc \<lparr>rax = register xs w 0, rcx = register xs w 1, rdx = register xs w 2, rsi = register xs w 3,
                       r9 = register xs w 4\<rparr> (mon w)
      in (if take_bit 32 (rax r) = 0 then Some r else None, w\<lparr>mon := m\<rparr>))"

section \<open>Cutting a capability in two\<close>

definition a_split :: "'m monitor \<Rightarrow> acapa \<Rightarrow> paddr_t \<Rightarrow> 'm world \<Rightarrow> (acapa \<times> acapa) option \<times> 'm world" where
  "a_split vmc a x w =
     (if bit (a_access a) 3 \<or> a_owned a = 0 \<or> a_shared a \<noteq> 0 \<or> \<not> (a_start a \<le> x \<and> x < a_end a) then (None, w)
      else case kmalloc w of
        (None, w) \<Rightarrow> (None, w)
      | (Some _, w) \<Rightarrow> (case ask vmc [0x200, a_handle a, x] w of
          (None, w) \<Rightarrow> (None, w)
        | (Some r, w) \<Rightarrow> (Some (a\<lparr>a_end := x\<rparr>, a\<lparr>a_handle := rcx r, a_start := x, a_revs := []\<rparr>), w)))"

section \<open>Transfer\<close>

text \<open>Read, write and execute are the bits 0, 1 and 2.  The types 0 to 3 are shared, 4 to 7 confidential: read-only,
  read-write, read-execute and all.\<close>

definition a_rights :: "capability_type_t \<Rightarrow> u64" where
  "a_rights tpe = [1, 3, 5, 7, 1, 3, 5, 7] ! unat tpe"

text \<open>Handing a capability to the domain \<open>did\<close>: granting pauses it, sharing does not, but a domain gets it only once.\<close>

definition a_hand :: "'m monitor \<Rightarrow> domain_id_t \<Rightarrow> capability_type_t \<Rightarrow> acapa \<Rightarrow> 'm world \<Rightarrow> acapa option \<times> 'm world" where
  "a_hand vmc did tpe a w =
     (if tpe < 4 \<and> did \<in> rdomain ` set (a_revs a) then (None, w)
      else case kmalloc w of
        (None, w) \<Rightarrow> (None, w)
      | (Some _, w) \<Rightarrow> (case ask vmc [if tpe < 4 then 0x104 else 0x103, did, a_handle a, a_rights tpe] w of
          (None, w) \<Rightarrow> (None, w)
        | (Some r, w) \<Rightarrow>
            (Some (a\<lparr>a_status := (if tpe < 4 then SharedCapa else PausedCapa),
                     a_revs := a_revs a @ [\<lparr>rdomain = did, revok_handle = rcx r\<rparr>]\<rparr>), w)))"

definition a_inside :: "paddr_t \<Rightarrow> paddr_t \<Rightarrow> acapa \<Rightarrow> bool" where
  "a_inside start stop a \<longleftrightarrow> a_start a = start \<and> a_end a = stop \<or>
     a_start a \<le> start \<and> start < a_end a \<and> a_start a \<le> stop \<and> stop < a_end a"

text \<open>The rights of the type are among those of the capability, and its status allows the transfer.\<close>

definition a_allows :: "capability_type_t \<Rightarrow> acapa \<Rightarrow> bool" where
  "a_allows tpe a \<longleftrightarrow> {i. i < 3 \<and> bit (a_rights tpe) i} \<subseteq> {i. i < 3 \<and> bit (a_access a) i} \<and>
     (if tpe < 4 then a_status a \<noteq> PausedCapa else a_status a = ActiveCapa)"

text \<open>Cutting out the interval: the parts are cut off at the back, and a failure does not put them together again.  The
  result is the list, split at the capability that covers exactly the interval if there is one now.\<close>

definition a_carve ::
  "'m monitor \<Rightarrow> paddr_t \<Rightarrow> paddr_t \<Rightarrow> acapa list \<Rightarrow> acapa \<Rightarrow> acapa list \<Rightarrow> 'm world \<Rightarrow>
   (acapa list + acapa list \<times> acapa \<times> acapa list) \<times> 'm world" where
  "a_carve vmc start stop L a R w =
     (if a_start a = start \<and> a_end a = stop then (Inr (L, a, R), w)
      else case a_split vmc a start w of
        (None, w) \<Rightarrow> (Inl (L @ a # R), w)
      | (Some (a, b), w) \<Rightarrow> (case a_split vmc b stop w of
          (None, w) \<Rightarrow> (Inl (L @ a # R @ [b]), w)
        | (Some (b, c), w) \<Rightarrow> (Inr (L @ a # R, b, [c]), w)))"

definition a_deliver ::
  "'m monitor \<Rightarrow> domain_id_t \<Rightarrow> capability_type_t \<Rightarrow> (acapa list + acapa list \<times> acapa \<times> acapa list) \<times> 'm world \<Rightarrow>
   bool \<times> acapa list \<times> 'm world" where
  "a_deliver vmc did tpe r = (case r of
     (Inl A, w) \<Rightarrow> (False, A, w)
   | (Inr (L, b, R), w) \<Rightarrow> (case a_hand vmc did tpe b w of
       (None, w) \<Rightarrow> (False, L @ b # R, w)
     | (Some b, w) \<Rightarrow> (True, L @ b # R, w)))"

text \<open>The whole call: whether it succeeds, the capabilities it leaves, and the surroundings.\<close>

definition a_transfer ::
  "'m monitor \<Rightarrow> domain_id_t \<Rightarrow> paddr_t \<Rightarrow> paddr_t \<Rightarrow> capability_type_t \<Rightarrow> acapa list \<Rightarrow> 'm world \<Rightarrow>
   bool \<times> acapa list \<times> 'm world" where
  "a_transfer vmc did start stop tpe A w =
     (if \<not> (start < stop \<and> tpe \<le> 7 \<and> start mod 0x1000 = 0 \<and> stop mod 0x1000 = 0) then (False, A, w)
      else case List.extract (a_inside start stop) A of
        None \<Rightarrow> (False, A, w)
      | Some (L, a, R) \<Rightarrow>
          if \<not> a_allows tpe a then (False, A, w)
          else a_deliver vmc did tpe (a_carve vmc start stop L a R w))"

section \<open>Revocation\<close>

definition unhandled :: "acapa \<Rightarrow> revok_handle_t list \<Rightarrow> acapa" where
  "unhandled a vs = a\<lparr>a_status := (if vs = [] \<and> (a_status a = PausedCapa \<or> a_owned a \<noteq> 0)
                                   then ActiveCapa else a_status a),
                      a_revs := vs\<rparr>"

definition a_mergeable :: "acapa \<Rightarrow> acapa \<Rightarrow> acapa \<Rightarrow> bool" where
  "a_mergeable a b n \<longleftrightarrow> a_end a = a_start b \<and> a_access a = a_access b \<and> a_owned n \<noteq> 0 \<and> a_status n = ActiveCapa"

text \<open>The capability \<open>a\<close> between \<open>L\<close> and \<open>R\<close> is merged into its left neighbour; then the result takes in the right
  neighbour, but only if the left one had no handle.  Without a left neighbour a candidate on the right is a fault.\<close>

definition a_merge_right ::
  "'m monitor \<Rightarrow> acapa option \<Rightarrow> acapa list \<Rightarrow> acapa \<Rightarrow> acapa list \<Rightarrow> 'm world \<Rightarrow> (acapa list \<times> 'm world) option" where
  "a_merge_right vmc left L a R w = (case R of
     n # R' \<Rightarrow>
       if a_mergeable a n n then (case left of
         None \<Rightarrow> None
       | Some p \<Rightarrow>
           if a_revs p \<noteq> [] then Some (L @ a # R, w)
           else (case ask vmc [0x202, a_handle a, a_handle n, 0, 0] w of
             (None, w) \<Rightarrow> Some (L @ a # R, w)
           | (Some _, w) \<Rightarrow> Some (L @ a\<lparr>a_end := a_end n\<rparr> # R', w)))
       else Some (L @ a # R, w)
   | [] \<Rightarrow> Some (L @ a # R, w))"

definition a_merge ::
  "'m monitor \<Rightarrow> acapa list \<Rightarrow> acapa \<Rightarrow> acapa list \<Rightarrow> 'm world \<Rightarrow> (acapa list \<times> 'm world) option" where
  "a_merge vmc L a R w =
     (let left = (if L = [] then None else Some (last L)) in
      case left of
        Some p \<Rightarrow>
          if a_mergeable p a p \<and> a_revs p = [] then
            (case ask vmc [0x202, a_handle p, a_handle a, 0, 0] w of
              (None, w) \<Rightarrow> Some (L @ a # R, w)
            | (Some _, w) \<Rightarrow> a_merge_right vmc left (butlast L) (p\<lparr>a_end := a_end a\<rparr>) R w)
          else a_merge_right vmc left L a R w
      | None \<Rightarrow> a_merge_right vmc left L a R w)"

text \<open>Taking the capability \<open>a\<close> back from the domain \<open>did\<close>.\<close>

definition a_take_back ::
  "'m monitor \<Rightarrow> domain_id_t \<Rightarrow> acapa list \<Rightarrow> acapa \<Rightarrow> acapa list \<Rightarrow> 'm world \<Rightarrow> (bool \<times> acapa list \<times> 'm world) option" where
  "a_take_back vmc did L a R w =
     (case List.extract (\<lambda>v. rdomain v = did) (a_revs a) of
        None \<Rightarrow> Some (False, L @ a # R, w)
      | Some (vs, v, ws) \<Rightarrow> (case ask vmc [0x105, revok_handle v, 0, 0, 0] w of
          (None, w) \<Rightarrow> Some (False, L @ a # R, w)
        | (Some _, w) \<Rightarrow>
            let b = unhandled a (vs @ ws) in
            if a_status b = ActiveCapa then map_option (Pair True) (a_merge vmc L b R w)
            else Some (True, L @ b # R, w)))"

text \<open>The whole call; \<open>None\<close> is the fault.\<close>

definition a_revoke ::
  "'m monitor \<Rightarrow> domain_id_t \<Rightarrow> paddr_t \<Rightarrow> paddr_t \<Rightarrow> acapa list \<Rightarrow> 'm world \<Rightarrow> (bool \<times> acapa list \<times> 'm world) option" where
  "a_revoke vmc did start stop A w =
     (if \<not> start < stop then Some (False, A, w)
      else case List.extract (\<lambda>a. a_start a = start \<and> a_end a = stop) A of
        None \<Rightarrow> Some (False, A, w)
      | Some (L, a, R) \<Rightarrow> a_take_back vmc did L a R w)"

section \<open>Start-up\<close>

text \<open>What the monitor reports under one number, and under all of them in turn.  The capability with the revocation right
  is refused.\<close>

definition a_read :: "'m monitor \<Rightarrow> capa_index_t \<Rightarrow> 'm world \<Rightarrow> acapa option \<times> 'm world" where
  "a_read vmc i w = (case kmalloc w of
     (None, w) \<Rightarrow> (None, w)
   | (Some _, w) \<Rightarrow> (case ask vmc [0x401, i, 1] w of
       (None, w) \<Rightarrow> (None, w)
     | (Some h, w) \<Rightarrow> (case ask vmc [0x201, rcx h] w of
         (None, w) \<Rightarrow> (None, w)
       | (Some r, w) \<Rightarrow>
           (if bit (r9 r) 3 then None
            else Some \<lparr>a_handle = rcx h, a_start = rcx r, a_end = rdx r, a_owned = ucast (rsi r AND 1),
                       a_shared = ucast (rsi r AND 2), a_access = r9 r, a_status = ActiveCapa, a_revs = []\<rparr>, w))))"

fun a_read_all :: "'m monitor \<Rightarrow> capa_index_t list \<Rightarrow> 'm world \<Rightarrow> acapa list option \<times> 'm world" where
  "a_read_all vmc [] w = (Some [], w)"
| "a_read_all vmc (i # is) w = (case a_read vmc i w of
     (None, w) \<Rightarrow> (None, w)
   | (Some a, w) \<Rightarrow> (case a_read_all vmc is w of (A, w) \<Rightarrow> (map_option ((#) a) A, w)))"

text \<open>The own identifier, when the monitor gives one, and the capabilities, when the call succeeds.\<close>

definition a_init :: "'m monitor \<Rightarrow> 'm world \<Rightarrow> domain_id_t option \<times> acapa list option \<times> 'm world" where
  "a_init vmc w = (case ask vmc [0x100] w of
     (None, w) \<Rightarrow> (None, None, w)
   | (Some d, w) \<Rightarrow> (Some (rcx d), case ask vmc [0x400] w of
       (None, w) \<Rightarrow> (None, w)
     | (Some n, w) \<Rightarrow> a_read_all vmc (map of_nat [0..<unat (rcx n)]) w))"

end
