(* ===== verification/Capability_Refinement.thy ===== *)
theory Capability_Refinement
  imports Capabilities Capability_Spec
begin

text \<open>
  The refinement between the heap of the capability library and its specification.  \<open>dom_rel s G\<close> relates a heap to
  the cells \<open>G\<close> it stores; the abstract state is \<open>absd G\<close>, and \<open>wld s\<close> is what surrounds the heap.  The lemmas go from
  the allocation and list primitives through \<open>split_capa\<close> and the two halves of a transfer to \<open>transfer_capa\<close>, which is
  shown to compute \<open>a_transfer\<close>.
\<close>

section \<open>The surroundings\<close>

text \<open>The part of the state that the heap operations leave alone: the monitor and the allocator.\<close>

definition wld :: "('m, 'z) world_scheme \<Rightarrow> 'm world" where
  "wld s = \<lparr>mon = mon s, brk = brk s, oom = oom s, junk = junk s, junkp = junkp s\<rparr>"

lemma wld_fields [simp]:
  "mon (wld s) = mon s" "brk (wld s) = brk s" "oom (wld s) = oom s" "junk (wld s) = junk s" "junkp (wld s) = junkp s"
  by (simp_all add: wld_def)

lemma wld_mon [simp]: "wld (s\<lparr>mon := m\<rparr>) = (wld s)\<lparr>mon := m\<rparr>" and wld_brk [simp]: "wld (s\<lparr>brk := b\<rparr>) = (wld s)\<lparr>brk := b\<rparr>"
  by (simp_all add: wld_def)

lemma wld_heap [simp]:
  "wld (capas_update f s) = wld s" "wld (capa_links_update g s) = wld s" "wld (revs_update h s) = wld s"
  "wld (rev_links_update k s) = wld s" "wld (local_domain_update d s) = wld s"
  for s :: "('m, 'z) tstate_scheme"
  by (simp_all add: wld_def)

lemma wld_kmalloc: "kmalloc s = (p, t) \<Longrightarrow> kmalloc (wld s) = (p, wld t)"
  by (auto simp: kmalloc_def)

lemma wld_lists [dest]:
  "capa_list_add q s = Some t \<Longrightarrow> wld t = wld s" "capa_list_remove q s = Some t \<Longrightarrow> wld t = wld s"
  "dealloc_capa q s = Some t \<Longrightarrow> wld t = wld s" "dealloc_revok q s = Some t \<Longrightarrow> wld t = wld s"
  "revoks_add p q s = Some t \<Longrightarrow> wld t = wld s" "revoks_remove p q s = Some t \<Longrightarrow> wld t = wld s"
  "set_status q st s = Some t \<Longrightarrow> wld t = wld s"
  for s :: "('m, 'z) tstate_scheme"
  by (auto simp: capa_list_add_def capa_list_remove_def dealloc_capa_def dealloc_revok_def revoks_add_def revoks_remove_def
      set_status_def bind_Some_iff split: if_splits)

text \<open>A hypercall wrapper asks the monitor once; it changes nothing but the monitor's state and its out-parameter.\<close>

lemma ucast_low: "(ucast x :: 32 word) = 0 \<longleftrightarrow> take_bit 32 x = 0" for x :: u64
proof -
  have "unat (ucast x :: 32 word) = unat (take_bit 32 x)" by (simp add: unsigned_ucast_eq unsigned_take_bit_eq)
  then show ?thesis by (metis unsigned_eq_0_iff)
qed

lemma tyche_call_ask:
  assumes "fid f = register ys (wld w) 0" "value_1 f = register ys (wld w) 1" "value_2 f = register ys (wld w) 2"
    "value_3 f = register ys (wld w) 3" "value_4 f = register ys (wld w) 4"
  obtains rc m x r where "tyche_call vmc f w = (rc, f\<lparr>ret_1 := rcx r, ret_2 := rdx r, ret_3 := rsi r, ret_4 := r9 r\<rparr>, w\<lparr>mon := m\<rparr>)"
    and "ask vmc ys (wld w) = (x, (wld w)\<lparr>mon := m\<rparr>)" and "x = (if rc = 0 then Some r else None)"
proof -
  obtain r m where v: "vmc \<lparr>rax = fid f, rcx = value_1 f, rdx = value_2 f, rsi = value_3 f, r9 = value_4 f\<rparr> (mon w) = (r, m)" by fastforce
  have "ask vmc ys (wld w) = (if take_bit 32 (rax r) = 0 then Some r else None, (wld w)\<lparr>mon := m\<rparr>)"
    using v unfolding ask_def wld_fields assms by simp
  then show thesis using that [of "ucast (rax r)" r m] v by (simp add: tyche_call_def ucast_low)
qed

lemma tyche_split_ask:
  obtains rc h m x where "tyche_split_capa vmc hdl a (Some old) w = (rc, Some h, w\<lparr>mon := m\<rparr>)"
    and "ask vmc [0x200, hdl, a] (wld w) = (x, (wld w)\<lparr>mon := m\<rparr>)" and "rc = 0 \<longleftrightarrow> x \<noteq> None"
    and "\<forall>r. x = Some r \<longrightarrow> h = rcx r"
proof -
  let ?f = "(frame0 w)\<lparr>fid := 0x200, value_1 := hdl, value_2 := a\<rparr>" and ?ys = "[0x200, hdl, a]"
  obtain rc m x r where "tyche_call vmc ?f w = (rc, ?f\<lparr>ret_1 := rcx r, ret_2 := rdx r, ret_3 := rsi r, ret_4 := r9 r\<rparr>, w\<lparr>mon := m\<rparr>)"
    "ask vmc ?ys (wld w) = (x, (wld w)\<lparr>mon := m\<rparr>)" "x = (if rc = 0 then Some r else None)"
    by (rule tyche_call_ask [of ?f ?ys w vmc]) (simp_all add: frame0_def register_def)
  then show thesis by (cases "rc = 0") (auto simp: tyche_split_capa_def intro!: that)
qed

lemma tyche_grant_ask:
  obtains rc h m x where "tyche_grant_capa vmc d hdl tpe (Some old) w = (rc, Some h, w\<lparr>mon := m\<rparr>)"
    and "ask vmc [0x103, d, hdl, translate_access tpe] (wld w) = (x, (wld w)\<lparr>mon := m\<rparr>)" and "rc = 0 \<longleftrightarrow> x \<noteq> None"
    and "\<forall>r. x = Some r \<longrightarrow> h = rcx r"
proof -
  let ?f = "(frame0 w)\<lparr>fid := 0x103, value_1 := d, value_2 := hdl, value_3 := translate_access tpe\<rparr>" and ?ys = "[0x103, d, hdl, translate_access tpe]"
  obtain rc m x r where "tyche_call vmc ?f w = (rc, ?f\<lparr>ret_1 := rcx r, ret_2 := rdx r, ret_3 := rsi r, ret_4 := r9 r\<rparr>, w\<lparr>mon := m\<rparr>)"
    "ask vmc ?ys (wld w) = (x, (wld w)\<lparr>mon := m\<rparr>)" "x = (if rc = 0 then Some r else None)"
    by (rule tyche_call_ask [of ?f ?ys w vmc]) (simp_all add: frame0_def register_def)
  then show thesis by (cases "rc = 0") (auto simp: tyche_grant_capa_def intro!: that)
qed

lemma tyche_share_ask:
  obtains rc h m x where "tyche_share_capa vmc d hdl tpe (Some old) w = (rc, Some h, w\<lparr>mon := m\<rparr>)"
    and "ask vmc [0x104, d, hdl, translate_access tpe] (wld w) = (x, (wld w)\<lparr>mon := m\<rparr>)" and "rc = 0 \<longleftrightarrow> x \<noteq> None"
    and "\<forall>r. x = Some r \<longrightarrow> h = rcx r"
proof -
  let ?f = "(frame0 w)\<lparr>fid := 0x104, value_1 := d, value_2 := hdl, value_3 := translate_access tpe\<rparr>" and ?ys = "[0x104, d, hdl, translate_access tpe]"
  obtain rc m x r where "tyche_call vmc ?f w = (rc, ?f\<lparr>ret_1 := rcx r, ret_2 := rdx r, ret_3 := rsi r, ret_4 := r9 r\<rparr>, w\<lparr>mon := m\<rparr>)"
    "ask vmc ?ys (wld w) = (x, (wld w)\<lparr>mon := m\<rparr>)" "x = (if rc = 0 then Some r else None)"
    by (rule tyche_call_ask [of ?f ?ys w vmc]) (simp_all add: frame0_def register_def)
  then show thesis by (cases "rc = 0") (auto simp: tyche_share_capa_def intro!: that)
qed

lemma tyche_merge_ask:
  obtains rc m x where "tyche_merge_capa vmc h1 h2 w = (rc, w\<lparr>mon := m\<rparr>)"
    and "ask vmc [0x202, h1, h2, 0, 0] (wld w) = (x, (wld w)\<lparr>mon := m\<rparr>)" and "rc = 0 \<longleftrightarrow> x \<noteq> None"
proof -
  let ?f = "(frame0 w)\<lparr>fid := 0x202, value_1 := h1, value_2 := h2, value_3 := 0, value_4 := 0\<rparr>" and ?ys = "[0x202, h1, h2, 0, 0]"
  obtain rc m x r where "tyche_call vmc ?f w = (rc, ?f\<lparr>ret_1 := rcx r, ret_2 := rdx r, ret_3 := rsi r, ret_4 := r9 r\<rparr>, w\<lparr>mon := m\<rparr>)"
    "ask vmc ?ys (wld w) = (x, (wld w)\<lparr>mon := m\<rparr>)" "x = (if rc = 0 then Some r else None)"
    by (rule tyche_call_ask [of ?f ?ys w vmc]) (simp_all add: frame0_def register_def)
  then show thesis by (cases "rc = 0") (auto simp: tyche_merge_capa_def intro!: that)
qed

lemma tyche_revoke_ask:
  obtains rc m x where "tyche_domain_revoke vmc hdl w = (rc, w\<lparr>mon := m\<rparr>)"
    and "ask vmc [0x105, hdl, 0, 0, 0] (wld w) = (x, (wld w)\<lparr>mon := m\<rparr>)" and "rc = 0 \<longleftrightarrow> x \<noteq> None"
proof -
  let ?f = "(frame0 w)\<lparr>fid := 0x105, value_1 := hdl, value_2 := 0, value_3 := 0, value_4 := 0\<rparr>" and ?ys = "[0x105, hdl, 0, 0, 0]"
  obtain rc m x r where "tyche_call vmc ?f w = (rc, ?f\<lparr>ret_1 := rcx r, ret_2 := rdx r, ret_3 := rsi r, ret_4 := r9 r\<rparr>, w\<lparr>mon := m\<rparr>)"
    "ask vmc ?ys (wld w) = (x, (wld w)\<lparr>mon := m\<rparr>)" "x = (if rc = 0 then Some r else None)"
    by (rule tyche_call_ask [of ?f ?ys w vmc]) (simp_all add: frame0_def register_def)
  then show thesis by (cases "rc = 0") (auto simp: tyche_domain_revoke_def intro!: that)
qed

section \<open>The refinement relation\<close>

record cell =
  cptr :: ptr
  ccap :: capability_t
  crevs :: "ptr list"
  cvals :: "revok_handle_t list"

definition abs_cell :: "cell \<Rightarrow> acapa" where
  "abs_cell e = \<lparr>a_handle = handle (ccap e), a_start = c_start (ccap e), a_end = c_end (ccap e),
     a_owned = is_owned (ccap e), a_shared = is_shared (ccap e), a_access = access (ccap e),
     a_status = status (ccap e), a_revs = cvals e\<rparr>"

abbreviation absd :: "cell list \<Rightarrow> acapa list" where
  "absd \<equiv> map abs_cell"

definition cell_ok :: "('m, 'z) tstate_scheme \<Rightarrow> cell \<Rightarrow> bool" where
  "cell_ok s e \<longleftrightarrow> capas s (cptr e) = Some (ccap e) \<and>
     dll (rev_links s) (revoks (ccap e)) (crevs e) \<and>
     map (revs s) (crevs e) = map Some (cvals e)"

text \<open>Live objects lie below the allocator's frontier, and an object has links while it is live.\<close>

definition heap_ok :: "('m, 'z) tstate_scheme \<Rightarrow> bool" where
  "heap_ok s \<longleftrightarrow> (\<forall>p. (capas s p \<noteq> None \<longrightarrow> p < brk s) \<and> (capa_links s p = None \<longleftrightarrow> capas s p = None) \<and>
     (revs s p \<noteq> None \<longrightarrow> p < brk s) \<and> (rev_links s p = None \<longleftrightarrow> revs s p = None))"

definition fns_ok :: "('m, 'z) tstate_scheme \<Rightarrow> bool" where
  "fns_ok s \<longleftrightarrow> alloc (local_domain s) \<noteq> None \<and> dealloc (local_domain s) \<noteq> None \<and>
     print (local_domain s) \<noteq> None"

definition dom_rel :: "('m, 'z) tstate_scheme \<Rightarrow> cell list \<Rightarrow> bool" where
  "dom_rel s G \<longleftrightarrow> heap_ok s \<and> fns_ok s \<and>
     dll (capa_links s) (capabilities (local_domain s)) (map cptr G) \<and>
     (\<forall>e \<in> set G. cell_ok s e) \<and> distinct (concat (map crevs G))"

lemma dom_relD:
  assumes "dom_rel s G"
  shows "heap_ok s" "fns_ok s" "dll (capa_links s) (capabilities (local_domain s)) (map cptr G)"
    "\<And>e. e \<in> set G \<Longrightarrow> cell_ok s e" "distinct (concat (map crevs G))"
  using assms by (auto simp: dom_rel_def)

lemma dbg_print_ok [simp]: "dom_rel s G \<Longrightarrow> dbg_print msg s = Some ()"
  by (simp add: dbg_print_def dom_rel_def fns_ok_def c_assert_def)

lemma dom_rel_mon [simp]: "dom_rel (s\<lparr>mon := m\<rparr>) G = dom_rel s G"
  by (simp add: dom_rel_def heap_ok_def fns_ok_def cell_ok_def)

lemma dom_rel_cell: "dom_rel s G \<Longrightarrow> e \<in> set G \<Longrightarrow> capas s (cptr e) = Some (ccap e)"
  by (simp add: dom_rel_def cell_ok_def)

lemma dom_rel_ptrs: "dom_rel s G \<Longrightarrow> distinct (map cptr G)"
  by (auto simp: dom_rel_def dest: dll_distinct)

lemma heap_ok_links: "heap_ok s \<Longrightarrow> capas s q = Some d \<Longrightarrow> \<exists>y. capa_links s q = Some y"
  by (metis heap_ok_def not_None_eq)

lemma heap_ok_rev_links: "heap_ok s \<Longrightarrow> revs s q = Some d \<Longrightarrow> \<exists>y. rev_links s q = Some y"
  by (metis heap_ok_def not_None_eq)

lemma dom_rel_below: "dom_rel s G \<Longrightarrow> e \<in> set G \<Longrightarrow> cptr e < brk s"
  using dom_rel_cell [of s G e] by (simp add: dom_rel_def heap_ok_def)

lemma cell_ok_vals: "cell_ok s e \<Longrightarrow> r \<in> set (crevs e) \<Longrightarrow> \<exists>v. revs s r = Some v"
proof -
  assume c: "cell_ok s e" and r: "r \<in> set (crevs e)"
  from r have "revs s r \<in> set (map (revs s) (crevs e))" by simp
  also have "map (revs s) (crevs e) = map Some (cvals e)" using c by (simp add: cell_ok_def)
  finally show ?thesis by auto
qed

lemma dom_rel_revs_below:
  assumes "dom_rel s G" and "e \<in> set G" and "r \<in> set (crevs e)"
  shows "r < brk s"
  using assms cell_ok_vals [of s e r] by (auto simp: dom_rel_def heap_ok_def)

lemma cell_ok_frame:
  assumes "cell_ok s e" and "capas s' (cptr e) = capas s (cptr e)"
    and "\<And>r. r \<in> set (crevs e) \<Longrightarrow> rev_links s' r = rev_links s r \<and> revs s' r = revs s r"
  shows "cell_ok s' e"
proof -
  have "map (revs s') (crevs e) = map (revs s) (crevs e)" using assms(3) by simp
  moreover have "dll (rev_links s') (revoks (ccap e)) (crevs e)"
    using assms(1,3) dll_frame by (fastforce simp: cell_ok_def)
  ultimately show ?thesis using assms(1,2) by (metis cell_ok_def)
qed

section \<open>What the heap primitives do to related states\<close>

text \<open>An object of the capability heap that is in no list.\<close>

definition spare :: "cell list \<Rightarrow> ptr \<Rightarrow> bool" where
  "spare G q \<longleftrightarrow> q \<notin> cptr ` set G"

lemma dom_rel_upd:
  assumes "dom_rel s G" and "spare G q"
    and "heap_ok s'" and "local_domain s' = local_domain s"
    and "\<And>p. p \<noteq> q \<Longrightarrow> capas s' p = capas s p" and "\<And>p. p \<noteq> q \<Longrightarrow> capa_links s' p = capa_links s p"
    and "revs s' = revs s" and "rev_links s' = rev_links s"
  shows "dom_rel s' G"
proof -
  have ne: "cptr e \<noteq> q" if "e \<in> set G" for e using that assms(2) by (auto simp: spare_def)
  have "cell_ok s' e" if "e \<in> set G" for e
    by (rule cell_ok_frame [OF dom_relD(4) [OF assms(1) that]])
       (simp_all add: assms(5) [OF ne [OF that]] assms(7,8))
  moreover have "dll (capa_links s') (capabilities (local_domain s')) (map cptr G)"
    unfolding assms(4)
    by (rule dll_frame [OF dom_relD(3) [OF assms(1)]]) (use assms(6) ne in force)
  ultimately show ?thesis using dom_relD(2,5) [OF assms(1)] assms(3,4)
    by (simp add: dom_rel_def fns_ok_def)
qed

lemma alloc_capaE:
  assumes "dom_rel s G"
  obtains (none) s' where "alloc_capa s = Some (None, s')" "dom_rel s' G" "capas s' = capas s"
      "kmalloc (wld s) = (None, wld s')"
  | (some) q s' d y where "alloc_capa s = Some (Some q, s')" "dom_rel s' G" "spare G q"
      "capas s q = None" "capas s' = (capas s)(q \<mapsto> d)" "capa_links s' = (capa_links s)(q \<mapsto> y)"
      "kmalloc (wld s) = (Some q, wld s')"
proof (cases rule: kmalloc_cases [of s])
  case 1
  have "cell_ok (s\<lparr>brk := Suc (brk s)\<rparr>) e = cell_ok s e" for e by (simp add: cell_ok_def)
  moreover have "heap_ok (s\<lparr>brk := Suc (brk s)\<rparr>)"
    using dom_relD(1) [OF assms] by (auto simp: heap_ok_def less_Suc_eq)
  ultimately have "dom_rel (s\<lparr>brk := Suc (brk s)\<rparr>) G"
    using assms by (simp add: dom_rel_def fns_ok_def)
  with 1 wld_kmalloc [OF 1] dom_relD(2) [OF assms] none show ?thesis by (simp add: alloc_capa_def fns_ok_def)
next
  case 2
  let ?q = "brk s"
  have sp: "spare G ?q" using dom_rel_below [OF assms] by (force simp: spare_def)
  have fq: "capas s ?q = None" using dom_relD(1) [OF assms] by (auto simp: heap_ok_def)
  obtain d y where a: "alloc_capa s = Some (Some ?q, s\<lparr>brk := Suc ?q, capas := (capas s)(?q \<mapsto> d),
      capa_links := (capa_links s)(?q \<mapsto> y)\<rparr>)"
    using 2 dom_relD(2) [OF assms] by (simp add: alloc_capa_def fns_ok_def)
  let ?s = "s\<lparr>brk := Suc ?q, capas := (capas s)(?q \<mapsto> d), capa_links := (capa_links s)(?q \<mapsto> y)\<rparr>"
  have "heap_ok ?s" using dom_relD(1) [OF assms] by (auto simp: heap_ok_def less_Suc_eq)
  then have "dom_rel ?s G" by (rule dom_rel_upd [OF assms sp]) auto
  then show ?thesis using a sp fq wld_kmalloc [OF 2] by (intro some [of ?q ?s d y]) auto
qed

lemma dom_rel_upd_spare:
  assumes "dom_rel s G" and "spare G q" and "capas s q = Some d0"
  shows "dom_rel (s\<lparr>capas := (capas s)(q \<mapsto> d), capa_links := (capa_links s)(q \<mapsto> y)\<rparr>) G"
    "dom_rel (s\<lparr>capas := (capas s)(q \<mapsto> d)\<rparr>) G"
proof -
  have "heap_ok (s\<lparr>capas := (capas s)(q \<mapsto> d), capa_links := (capa_links s)(q \<mapsto> y)\<rparr>)"
    "heap_ok (s\<lparr>capas := (capas s)(q \<mapsto> d)\<rparr>)"
    using dom_relD(1) [OF assms(1)] assms(3) by (auto simp: heap_ok_def)
  then show "dom_rel (s\<lparr>capas := (capas s)(q \<mapsto> d), capa_links := (capa_links s)(q \<mapsto> y)\<rparr>) G"
    "dom_rel (s\<lparr>capas := (capas s)(q \<mapsto> d)\<rparr>) G"
    by (auto intro: dom_rel_upd [OF assms(1,2)])
qed

lemma dealloc_capaE:
  assumes "dom_rel s G" and "spare G q" and "capas s q = Some d"
  obtains s' where "dealloc_capa q s = Some s'" "dom_rel s' G" "capas s' = (capas s)(q := None)"
proof -
  obtain y where y: "capa_links s q = Some y"
    using heap_ok_links [OF dom_relD(1) [OF assms(1)] assms(3)] by blast
  let ?s = "s\<lparr>capas := (capas s)(q := None), capa_links := (capa_links s)(q := None)\<rparr>"
  have "heap_ok ?s" using dom_relD(1) [OF assms(1)] by (auto simp: heap_ok_def)
  then have "dom_rel ?s G" by (rule dom_rel_upd [OF assms(1,2)]) auto
  moreover have "dealloc_capa q s = Some ?s"
    using dom_relD(2) [OF assms(1)] assms(3) y by (simp add: dealloc_capa_def fns_ok_def)
  ultimately show ?thesis using that by simp
qed

text \<open>Replacing one cell, everything the other cells own staying as it is.\<close>

lemma dom_rel_replace:
  assumes "dom_rel s (L @ e # R)" and "cptr e' = cptr e" and "heap_ok s'"
    and "local_domain s' = local_domain s" and "capa_links s' = capa_links s"
    and cs: "\<And>p. p \<noteq> cptr e \<Longrightarrow> capas s' p = capas s p"
    and rs: "\<And>r. r \<in> set (concat (map crevs (L @ R))) \<Longrightarrow>
               rev_links s' r = rev_links s r \<and> revs s' r = revs s r"
    and "cell_ok s' e'" and "distinct (crevs e')"
    and "set (crevs e') \<inter> set (concat (map crevs (L @ R))) = {}"
  shows "dom_rel s' (L @ e' # R)"
proof -
  have d: "distinct (map cptr (L @ e # R))" using assms(1) by (rule dom_rel_ptrs)
  have "cell_ok s' f" if f: "f \<in> set L \<union> set R" for f
  proof (rule cell_ok_frame)
    show "cell_ok s f" using f dom_relD(4) [OF assms(1)] by auto
    have "cptr f \<noteq> cptr e" using f d by (auto simp: rev_image_eqI)
    then show "capas s' (cptr f) = capas s (cptr f)" by (rule cs)
    show "rev_links s' r = rev_links s r \<and> revs s' r = revs s r" if "r \<in> set (crevs f)" for r
      by (rule rs) (use f that in auto)
  qed
  moreover have "distinct (concat (map crevs (L @ e' # R)))"
    using dom_relD(5) [OF assms(1)] assms(9,10) by auto
  moreover have "map cptr (L @ e' # R) = map cptr (L @ e # R)" using assms(2) by simp
  ultimately show ?thesis
    using dom_relD(2,3) [OF assms(1)] assms(3-5,8) by (auto simp: dom_rel_def fns_ok_def)
qed

lemma dom_rel_upd_cell:
  assumes "dom_rel s (L @ e # R)" and "revoks c = revoks (ccap e)"
  shows "dom_rel (s\<lparr>capas := (capas s)(cptr e \<mapsto> c)\<rparr>) (L @ e\<lparr>ccap := c\<rparr> # R)"
proof (rule dom_rel_replace [OF assms(1)])
  have e: "cell_ok s e" using dom_relD(4) [OF assms(1)] by simp
  then show "cell_ok (s\<lparr>capas := (capas s)(cptr e \<mapsto> c)\<rparr>) (e\<lparr>ccap := c\<rparr>)"
    using assms(2) by (simp add: cell_ok_def)
  show "heap_ok (s\<lparr>capas := (capas s)(cptr e \<mapsto> c)\<rparr>)"
    using dom_relD(1) [OF assms(1)] e by (auto simp: heap_ok_def cell_ok_def)
  show "distinct (crevs (e\<lparr>ccap := c\<rparr>))"
    "set (crevs (e\<lparr>ccap := c\<rparr>)) \<inter> set (concat (map crevs (L @ R))) = {}"
    using dom_relD(5) [OF assms(1)] by auto
qed auto

lemma capa_list_addE:
  assumes "dom_rel s G" and "spare G q" and "capas s q = Some d" and "revoks d = dll_init_list"
    and "capa_links s q = Some \<lparr>prev = None, nxt = None\<rparr>"
  obtains s' where "capa_list_add q s = Some s'"
    "dom_rel s' (G @ [\<lparr>cptr = q, ccap = d, crevs = [], cvals = []\<rparr>])" "capas s' = capas s"
proof -
  obtain l lk where a: "dll_add q (capabilities (local_domain s), capa_links s) = Some (l, lk)"
    "dll lk l (map cptr G @ [q])" and f: "links_frame (capa_links s) lk (set (q # map cptr G))"
    using dll_addE [OF dom_relD(3) [OF assms(1)] _ assms(5)] assms(2) by (auto simp: spare_def)
  let ?s = "s\<lparr>local_domain := (local_domain s)\<lparr>capabilities := l\<rparr>, capa_links := lk\<rparr>"
  have "heap_ok ?s" using dom_relD(1) [OF assms(1)] by (simp add: heap_ok_def links_frame_None [OF f])
  moreover have "cell_ok ?s e" if "e \<in> set (G @ [\<lparr>cptr = q, ccap = d, crevs = [], cvals = []\<rparr>])" for e
    using that dom_relD(4) [OF assms(1)] assms(3,4) by (auto simp: cell_ok_def)
  ultimately have "dom_rel ?s (G @ [\<lparr>cptr = q, ccap = d, crevs = [], cvals = []\<rparr>])"
    using a(2) dom_relD(2,5) [OF assms(1)] by (simp add: dom_rel_def fns_ok_def)
  then show ?thesis using a(1) that by (simp add: capa_list_add_def)
qed

lemma capa_list_removeE:
  assumes "dom_rel s (L @ e # R)"
  obtains s' where "capa_list_remove (cptr e) s = Some s'" "dom_rel s' (L @ R)" "capas s' = capas s"
    "spare (L @ R) (cptr e)"
proof -
  obtain l lk where a: "dll_remove (cptr e) (capabilities (local_domain s), capa_links s) = Some (l, lk)"
    "dll lk l (map cptr (L @ R))" and f: "links_frame (capa_links s) lk (set (map cptr (L @ e # R)))"
    using dll_removeE [of "capa_links s" "capabilities (local_domain s)" "map cptr L" "cptr e"
        "map cptr R"] dom_relD(3) [OF assms] by (metis list.simps(9) map_append)
  let ?s = "s\<lparr>local_domain := (local_domain s)\<lparr>capabilities := l\<rparr>, capa_links := lk\<rparr>"
  have "heap_ok ?s" using dom_relD(1) [OF assms] by (simp add: heap_ok_def links_frame_None [OF f])
  moreover have "cell_ok ?s f" if "f \<in> set (L @ R)" for f
    using that dom_relD(4) [OF assms] by (auto simp: cell_ok_def)
  ultimately have "dom_rel ?s (L @ R)"
    using a(2) dom_relD(2,5) [OF assms] by (auto simp: dom_rel_def fns_ok_def)
  moreover have "spare (L @ R) (cptr e)" using dom_rel_ptrs [OF assms] by (auto simp: spare_def)
  ultimately show ?thesis using a(1) that by (simp add: capa_list_remove_def)
qed

text \<open>The same for revocation handles.\<close>

definition rspare :: "cell list \<Rightarrow> ptr \<Rightarrow> bool" where
  "rspare G r \<longleftrightarrow> r \<notin> set (concat (map crevs G))"

lemma dom_rel_rupd:
  assumes "dom_rel s G" and "rspare G r"
    and "heap_ok s'" and "local_domain s' = local_domain s"
    and "capas s' = capas s" and "capa_links s' = capa_links s"
    and "\<And>p. p \<noteq> r \<Longrightarrow> revs s' p = revs s p" and "\<And>p. p \<noteq> r \<Longrightarrow> rev_links s' p = rev_links s p"
  shows "dom_rel s' G"
proof -
  have "cell_ok s' e" if "e \<in> set G" for e
  proof (rule cell_ok_frame [OF dom_relD(4) [OF assms(1) that]])
    show "rev_links s' p = rev_links s p \<and> revs s' p = revs s p" if "p \<in> set (crevs e)" for p
    proof -
      have "p \<noteq> r" using assms(2) that \<open>e \<in> set G\<close> by (auto simp: rspare_def)
      then show ?thesis using assms(7,8) by simp
    qed
  qed (simp add: assms(5))
  then show ?thesis using dom_relD(2,3,5) [OF assms(1)] assms(3,4,6)
    by (simp add: dom_rel_def fns_ok_def)
qed

lemma alloc_revokE:
  assumes "dom_rel s G"
  obtains (none) s' where "alloc_revok s = Some (None, s')" "dom_rel s' G" "capas s' = capas s"
      "kmalloc (wld s) = (None, wld s')"
  | (some) r s' v y where "alloc_revok s = Some (Some r, s')" "dom_rel s' G" "rspare G r"
      "capas s' = capas s" "revs s' r = Some v" "rev_links s' r = Some y"
      "kmalloc (wld s) = (Some r, wld s')"
proof (cases rule: kmalloc_cases [of s])
  case 1
  have "cell_ok (s\<lparr>brk := Suc (brk s)\<rparr>) e = cell_ok s e" for e by (simp add: cell_ok_def)
  moreover have "heap_ok (s\<lparr>brk := Suc (brk s)\<rparr>)"
    using dom_relD(1) [OF assms] by (auto simp: heap_ok_def less_Suc_eq)
  ultimately have "dom_rel (s\<lparr>brk := Suc (brk s)\<rparr>) G"
    using assms by (simp add: dom_rel_def fns_ok_def)
  with 1 wld_kmalloc [OF 1] dom_relD(2) [OF assms] none show ?thesis by (simp add: alloc_revok_def fns_ok_def)
next
  case 2
  let ?r = "brk s"
  have sp: "rspare G ?r" using dom_rel_revs_below [OF assms] by (force simp: rspare_def)
  obtain v y where a: "alloc_revok s = Some (Some ?r, s\<lparr>brk := Suc ?r, revs := (revs s)(?r \<mapsto> v),
      rev_links := (rev_links s)(?r \<mapsto> y)\<rparr>)"
    using 2 dom_relD(2) [OF assms] by (simp add: alloc_revok_def fns_ok_def)
  let ?s = "s\<lparr>brk := Suc ?r, revs := (revs s)(?r \<mapsto> v), rev_links := (rev_links s)(?r \<mapsto> y)\<rparr>"
  have "heap_ok ?s" using dom_relD(1) [OF assms] by (auto simp: heap_ok_def less_Suc_eq)
  then have "dom_rel ?s G" by (rule dom_rel_rupd [OF assms sp]) auto
  then show ?thesis using a sp wld_kmalloc [OF 2] by (intro some [of ?r ?s v y]) auto
qed

lemma dom_rel_rupd_spare:
  assumes "dom_rel s G" and "rspare G r" and "revs s r = Some v0"
  shows "dom_rel (s\<lparr>rev_links := (rev_links s)(r \<mapsto> y), revs := (revs s)(r \<mapsto> v)\<rparr>) G"
    "dom_rel (s\<lparr>revs := (revs s)(r \<mapsto> v)\<rparr>) G"
proof -
  have "heap_ok (s\<lparr>rev_links := (rev_links s)(r \<mapsto> y), revs := (revs s)(r \<mapsto> v)\<rparr>)"
    "heap_ok (s\<lparr>revs := (revs s)(r \<mapsto> v)\<rparr>)"
    using dom_relD(1) [OF assms(1)] assms(3) by (auto simp: heap_ok_def)
  then show "dom_rel (s\<lparr>rev_links := (rev_links s)(r \<mapsto> y), revs := (revs s)(r \<mapsto> v)\<rparr>) G"
    "dom_rel (s\<lparr>revs := (revs s)(r \<mapsto> v)\<rparr>) G"
    by (auto intro: dom_rel_rupd [OF assms(1,2)])
qed

lemma dealloc_revokE:
  assumes "dom_rel s G" and "rspare G r" and "revs s r = Some v"
  obtains s' where "dealloc_revok r s = Some s'" "dom_rel s' G" "capas s' = capas s"
    "capa_links s' = capa_links s" "local_domain s' = local_domain s"
proof -
  obtain y where y: "rev_links s r = Some y"
    using heap_ok_rev_links [OF dom_relD(1) [OF assms(1)] assms(3)] by blast
  let ?s = "s\<lparr>revs := (revs s)(r := None), rev_links := (rev_links s)(r := None)\<rparr>"
  have "heap_ok ?s" using dom_relD(1) [OF assms(1)] by (auto simp: heap_ok_def)
  then have "dom_rel ?s G" by (rule dom_rel_rupd [OF assms(1,2)]) auto
  moreover have "dealloc_revok r s = Some ?s"
    using dom_relD(2) [OF assms(1)] assms(3) y by (simp add: dealloc_revok_def fns_ok_def)
  ultimately show ?thesis using that by simp
qed

lemma revoks_addE:
  assumes "dom_rel s (L @ e # R)" and "rspare (L @ e # R) r" and "revs s r = Some v"
    and "rev_links s r = Some \<lparr>prev = None, nxt = None\<rparr>"
  obtains s' l where "revoks_add (cptr e) r s = Some s'"
    "dom_rel s' (L @ e\<lparr>ccap := (ccap e)\<lparr>revoks := l\<rparr>, crevs := crevs e @ [r],
                        cvals := cvals e @ [v]\<rparr> # R)"
proof -
  have ce: "cell_ok s e" using dom_relD(4) [OF assms(1)] by simp
  have nr: "r \<notin> set (crevs e)" "r \<notin> set (concat (map crevs (L @ R)))"
    using assms(2) by (auto simp: rspare_def)
  obtain l lk where a: "dll_add r (revoks (ccap e), rev_links s) = Some (l, lk)"
    "dll lk l (crevs e @ [r])" and f: "links_frame (rev_links s) lk (set (r # crevs e))"
    using dll_addE [of "rev_links s" "revoks (ccap e)" "crevs e" r] nr(1) assms(4) ce
    by (metis cell_ok_def)
  let ?s = "s\<lparr>capas := (capas s)(cptr e \<mapsto> (ccap e)\<lparr>revoks := l\<rparr>), rev_links := lk\<rparr>"
  let ?e = "e\<lparr>ccap := (ccap e)\<lparr>revoks := l\<rparr>, crevs := crevs e @ [r], cvals := cvals e @ [v]\<rparr>"
  have "dom_rel ?s (L @ ?e # R)"
  proof (rule dom_rel_replace [OF assms(1)])
    show "heap_ok ?s"
      using dom_relD(1) [OF assms(1)] ce by (auto simp: heap_ok_def cell_ok_def links_frame_None [OF f])
    show "rev_links ?s p = rev_links s p \<and> revs ?s p = revs s p"
      if "p \<in> set (concat (map crevs (L @ R)))" for p
    proof -
      have "p \<notin> set (r # crevs e)" using that nr(2) dom_relD(5) [OF assms(1)] by auto
      then show ?thesis using links_frame_apply [OF f] by simp
    qed
    show "cell_ok ?s ?e" using a(2) ce assms(3) by (simp add: cell_ok_def)
    show "distinct (crevs ?e)" "set (crevs ?e) \<inter> set (concat (map crevs (L @ R))) = {}"
      using dom_relD(5) [OF assms(1)] nr by auto
  qed auto
  moreover have "revoks_add (cptr e) r s = Some ?s"
    using a(1) ce by (simp add: revoks_add_def cell_ok_def)
  ultimately show ?thesis using that by blast
qed

lemma revoks_removeE:
  assumes "dom_rel s (L @ e # R)" and "crevs e = rs @ r # rs'" and "cvals e = vs @ v # vs'"
    and "length rs = length vs"
  obtains s' l where "revoks_remove (cptr e) r s = Some s'"
    "dom_rel s' (L @ e\<lparr>ccap := (ccap e)\<lparr>revoks := l\<rparr>, crevs := rs @ rs', cvals := vs @ vs'\<rparr> # R)"
    "rspare (L @ e\<lparr>ccap := (ccap e)\<lparr>revoks := l\<rparr>, crevs := rs @ rs', cvals := vs @ vs'\<rparr> # R) r"
    "revs s' = revs s"
proof -
  have ce: "cell_ok s e" using dom_relD(4) [OF assms(1)] by simp
  have dr: "distinct (concat (map crevs (L @ e # R)))" using assms(1) by (rule dom_relD)
  obtain l lk where a: "dll_remove r (revoks (ccap e), rev_links s) = Some (l, lk)"
    "dll lk l (rs @ rs')" and f: "links_frame (rev_links s) lk (set (rs @ r # rs'))"
    using dll_removeE [of "rev_links s" "revoks (ccap e)" rs r rs'] ce assms(2)
    by (metis cell_ok_def)
  let ?s = "s\<lparr>capas := (capas s)(cptr e \<mapsto> (ccap e)\<lparr>revoks := l\<rparr>), rev_links := lk\<rparr>"
  let ?e = "e\<lparr>ccap := (ccap e)\<lparr>revoks := l\<rparr>, crevs := rs @ rs', cvals := vs @ vs'\<rparr>"
  have "dom_rel ?s (L @ ?e # R)"
  proof (rule dom_rel_replace [OF assms(1)])
    show "heap_ok ?s"
      using dom_relD(1) [OF assms(1)] ce by (auto simp: heap_ok_def cell_ok_def links_frame_None [OF f])
    show "rev_links ?s p = rev_links s p \<and> revs ?s p = revs s p"
      if "p \<in> set (concat (map crevs (L @ R)))" for p
    proof -
      have "p \<notin> set (rs @ r # rs')" using that dr assms(2) by auto
      then show ?thesis using links_frame_apply [OF f] by simp
    qed
    show "cell_ok ?s ?e" using a(2) ce assms(2-4) by (simp add: cell_ok_def)
    show "distinct (crevs ?e)" "set (crevs ?e) \<inter> set (concat (map crevs (L @ R))) = {}"
      using dr assms(2) by auto
  qed auto
  moreover have "revoks_remove (cptr e) r s = Some ?s"
    using a(1) ce by (simp add: revoks_remove_def cell_ok_def)
  moreover have "rspare (L @ ?e # R) r" using dr assms(2) by (auto simp: rspare_def)
  ultimately show ?thesis using that by simp
qed

text \<open>The search loops find what the corresponding search of the cells finds.\<close>

lemma capa_find:
  assumes "dom_rel s G"
  shows "dll_find (\<lambda>p. map_option Q (capas s p)) (capa_links s) (head (capabilities (local_domain s)))
         = Some (map_option cptr (List.find (Q \<circ> ccap) G))"
proof -
  let ?Q = "\<lambda>p. Q (the (capas s p))"
  have "dll_find (\<lambda>p. map_option Q (capas s p)) (capa_links s) (head (capabilities (local_domain s)))
        = Some (List.find ?Q (map cptr G))"
    by (rule dll_find_dll [OF dom_relD(3) [OF assms]]) (use dom_rel_cell [OF assms] in force)
  also have "List.find ?Q (map cptr G) = map_option cptr (List.find (?Q \<circ> cptr) G)"
    by (induction G) auto
  also have "List.find (?Q \<circ> cptr) G = List.find (Q \<circ> ccap) G"
    by (rule find_cong) (use dom_rel_cell [OF assms] in auto)
  finally show ?thesis .
qed

lemma find_map2:
  "map f rs = map Some vs \<Longrightarrow>
   (List.find (\<lambda>r. Q (the (f r))) rs = None \<and> (\<forall>v \<in> set vs. \<not> Q v)) \<or>
   (\<exists>rs1 r rs2 vs1 v vs2. rs = rs1 @ r # rs2 \<and> vs = vs1 @ v # vs2 \<and> length rs1 = length vs1 \<and>
      f r = Some v \<and> Q v \<and> List.find (\<lambda>r. Q (the (f r))) rs = Some r)"
proof (induction rs arbitrary: vs)
  case Nil
  then show ?case by simp
next
  case (Cons r rs)
  then obtain v vs' where vs: "vs = v # vs'" "f r = Some v" "map f rs = map Some vs'"
    by (cases vs) auto
  show ?case
  proof (cases "Q v")
    case True
    then have "r # rs = [] @ r # rs \<and> vs = [] @ v # vs' \<and> f r = Some v \<and> Q v \<and>
        List.find (\<lambda>r. Q (the (f r))) (r # rs) = Some r" using vs by simp
    then show ?thesis by (metis list.size(3))
  next
    case False
    then have fe: "List.find (\<lambda>r. Q (the (f r))) (r # rs) = List.find (\<lambda>r. Q (the (f r))) rs"
      using vs by simp
    from Cons.IH [OF vs(3)] show ?thesis
    proof (elim disjE exE conjE)
      fix rs1 q rs2 vs1 w vs2
      assume "rs = rs1 @ q # rs2" "vs' = vs1 @ w # vs2" "length rs1 = length vs1" "f q = Some w" "Q w"
        "List.find (\<lambda>r. Q (the (f r))) rs = Some q"
      then have "r # rs = (r # rs1) @ q # rs2 \<and> vs = (v # vs1) @ w # vs2 \<and>
          length (r # rs1) = length (v # vs1) \<and> f q = Some w \<and> Q w \<and>
          List.find (\<lambda>r. Q (the (f r))) (r # rs) = Some q" using vs fe by simp
      then show ?thesis by blast
    qed (use vs False fe in auto)
  qed
qed

lemma revok_findE:
  assumes "cell_ok s e"
  obtains (none) "dll_find (\<lambda>r. map_option Q (revs s r)) (rev_links s) (head (revoks (ccap e))) = Some None"
      "\<forall>v \<in> set (cvals e). \<not> Q v"
  | (some) rs r rs' vs v vs'
      where "dll_find (\<lambda>r. map_option Q (revs s r)) (rev_links s) (head (revoks (ccap e))) = Some (Some r)"
      "crevs e = rs @ r # rs'" "cvals e = vs @ v # vs'" "length rs = length vs"
      "revs s r = Some v" "Q v"
proof -
  have d: "dll (rev_links s) (revoks (ccap e)) (crevs e)" and m: "map (revs s) (crevs e) = map Some (cvals e)"
    using assms by (auto simp: cell_ok_def)
  have f: "dll_find (\<lambda>r. map_option Q (revs s r)) (rev_links s) (head (revoks (ccap e)))
        = Some (List.find (\<lambda>r. Q (the (revs s r))) (crevs e))"
    by (rule dll_find_dll [OF d]) (use cell_ok_vals [OF assms] in force)
  from find_map2 [OF m, of Q] show ?thesis
    using none some f by metis
qed

section \<open>split_capa\<close>

definition split_cells :: "cell \<Rightarrow> ptr \<Rightarrow> paddr_t \<Rightarrow> paddr_t \<Rightarrow> cell \<times> cell" where
  "split_cells e q h a =
     (e\<lparr>ccap := (ccap e)\<lparr>c_end := a\<rparr>\<rparr>,
      \<lparr>cptr = q, ccap = (ccap e)\<lparr>handle := h, c_start := a, revoks := dll_init_list\<rparr>,
       crevs = [], cvals = []\<rparr>)"

lemma revok_bit: "x AND CAPA_REVOK = 0 \<longleftrightarrow> \<not> bit x 3"
  using and_exp_eq_0_iff_not_bit [of x 3] by (simp add: CAPA_REVOK_def push_bit_eq_mult)

lemma split_cells_abs:
  "abs_cell (fst (split_cells e q h a)) = (abs_cell e)\<lparr>a_end := a\<rparr>"
  "abs_cell (snd (split_cells e q h a)) = (abs_cell e)\<lparr>a_handle := h, a_start := a, a_revs := []\<rparr>"
  by (simp_all add: split_cells_def abs_cell_def)

lemma split_capaE:
  assumes rel: "dom_rel s (L @ e # R)"
  obtains (fail) s' where "split_capa vmc (Some (cptr e)) a s = Some (None, s')"
      "dom_rel s' (L @ e # R)" "a_split vmc (abs_cell e) a (wld s) = (None, wld s')"
  | (ok) q s' h where "split_capa vmc (Some (cptr e)) a s = Some (Some q, s')"
      "dll_contains (c_start (ccap e)) (c_end (ccap e)) a"
      "access (ccap e) AND CAPA_REVOK = 0" "is_owned (ccap e) \<noteq> 0" "is_shared (ccap e) = 0"
      "dom_rel s' (L @ fst (split_cells e q h a) # R @ [snd (split_cells e q h a)])"
      "a_split vmc (abs_cell e) a (wld s) =
        (Some (abs_cell (fst (split_cells e q h a)), abs_cell (snd (split_cells e q h a))), wld s')"
proof -
  let ?p = "cptr e" and ?c = "ccap e" and ?a = "abs_cell e"
  have c: "capas s ?p = Some ?c" using dom_rel_cell [OF rel] by simp
  let ?g = "access ?c AND CAPA_REVOK = 0 \<and> is_owned ?c \<noteq> 0 \<and> is_shared ?c = 0 \<and> dll_contains (c_start ?c) (c_end ?c) a"
  have g_iff: "(bit (a_access ?a) 3 \<or> a_owned ?a = 0 \<or> a_shared ?a \<noteq> 0 \<or> \<not> (a_start ?a \<le> a \<and> a < a_end ?a)) \<longleftrightarrow> \<not> ?g"
    by (auto simp: abs_cell_def dll_contains_def revok_bit)
  have ca: "a_handle ?a = handle ?c" by (simp add: abs_cell_def)
  note spec = a_split_def [of vmc ?a a, unfolded g_iff ca]
  show ?thesis
  proof (cases ?g)
    case False
    then have "split_capa vmc (Some ?p) a s = Some (None, s)"
      using c rel by (auto simp: split_capa_def)
    moreover have "a_split vmc ?a a (wld s) = (None, wld s)" using False by (auto simp: spec)
    ultimately show ?thesis using fail rel by blast
  next
    case g: True
    show ?thesis
    proof (cases rule: alloc_capaE [OF rel])
      case (1 s1)
      then have "split_capa vmc (Some ?p) a s = Some (None, s1)"
        using c g by (simp add: split_capa_def)
      moreover have "a_split vmc ?a a (wld s) = (None, wld s1)" using g 1(4) by (auto simp: spec)
      ultimately show ?thesis using fail 1 by blast
    next
      case (2 q s1 d y)
      let ?d = "d\<lparr>c_start := a, c_end := c_end ?c, is_owned := is_owned ?c,
          is_shared := is_shared ?c, status := status ?c, access := access ?c, revoks := dll_init_list\<rparr>"
      let ?s2 = "s1\<lparr>capas := (capas s1)(q \<mapsto> ?d),
          capa_links := (capa_links s1)(q \<mapsto> \<lparr>prev = None, nxt = None\<rparr>)\<rparr>"
      have q: "capas s1 q = Some d" "capa_links s1 q = Some y" "?p \<noteq> q"
        using 2 by (auto simp: spare_def)
      have r2: "dom_rel ?s2 (L @ e # R)" using dom_rel_upd_spare(1) [OF 2(2,3) q(1)] .
      obtain rc h m x where t: "tyche_split_capa vmc (handle ?c) a (Some (handle ?d)) ?s2
          = (rc, Some h, ?s2\<lparr>mon := m\<rparr>)" "ask vmc [0x200, handle ?c, a] (wld ?s2) = (x, (wld ?s2)\<lparr>mon := m\<rparr>)"
          "rc = 0 \<longleftrightarrow> x \<noteq> None" "\<forall>r. x = Some r \<longrightarrow> h = rcx r"
        by (rule tyche_split_ask [where w = ?s2 and old = "handle ?d"])
      let ?s3 = "?s2\<lparr>mon := m\<rparr>"
      let ?s4 = "?s3\<lparr>capas := (capas ?s3)(q \<mapsto> ?d\<lparr>handle := h\<rparr>)\<rparr>"
      have r4: "dom_rel ?s4 (L @ e # R)"
        using dom_rel_upd_spare(2) [of ?s3 "L @ e # R" q ?d] r2 2(3) by simp
      have body: "split_capa vmc (Some ?p) a s =
        (if rc \<noteq> 0 then do { s \<leftarrow> dealloc_capa q ?s4; Some (None, s) }
         else do { c \<leftarrow> capas ?s4 ?p;
                   s \<leftarrow> capa_list_add q (?s4\<lparr>capas := (capas ?s4)(?p \<mapsto> c\<lparr>c_end := a\<rparr>)\<rparr>);
                   Some (Some q, s) })"
        using c g 2(1) q t(1) r4 by (simp add: split_capa_def dll_init_elem_Some Let_def)
      have spl: "a_split vmc ?a a (wld s) = (case x of None \<Rightarrow> (None, (wld s1)\<lparr>mon := m\<rparr>)
          | Some r \<Rightarrow> (Some (?a\<lparr>a_end := a\<rparr>, ?a\<lparr>a_handle := rcx r, a_start := a, a_revs := []\<rparr>), (wld s1)\<lparr>mon := m\<rparr>))"
        using g 2(7) t(2) by (simp add: spec split: option.split)
      show ?thesis
      proof (cases "rc = 0")
        case False
        obtain s5 where s5: "dealloc_capa q ?s4 = Some s5" "dom_rel s5 (L @ e # R)"
          by (rule dealloc_capaE [OF r4 2(3), of "?d\<lparr>handle := h\<rparr>"]) auto
        then have "wld s5 = (wld s1)\<lparr>mon := m\<rparr>" using wld_lists(3) [OF s5(1)] by simp
        then show ?thesis using fail [OF _ s5(2)] s5(1) body False spl t(3) by simp
      next
        case True
        let ?e = "e\<lparr>ccap := ?c\<lparr>c_end := a\<rparr>\<rparr>"
        let ?s5 = "?s4\<lparr>capas := (capas ?s4)(?p \<mapsto> ?c\<lparr>c_end := a\<rparr>)\<rparr>"
        have r5: "dom_rel ?s5 (L @ ?e # R)"
          by (rule dom_rel_upd_cell [OF r4]) simp
        have sp: "spare (L @ ?e # R) q" using 2(3) by (simp add: spare_def)
        obtain s6 where s6: "capa_list_add q ?s5 = Some s6"
          "dom_rel s6 ((L @ ?e # R) @ [\<lparr>cptr = q, ccap = ?d\<lparr>handle := h\<rparr>, crevs = [], cvals = []\<rparr>])"
          by (rule capa_list_addE [OF r5 sp, of "?d\<lparr>handle := h\<rparr>"]) (use q in auto)
        have eq: "?d\<lparr>handle := h\<rparr> = ?c\<lparr>handle := h, c_start := a, revoks := dll_init_list\<rparr>"
          by simp
        have "dom_rel s6 (L @ fst (split_cells e q h a) # R @ [snd (split_cells e q h a)])"
          using s6(2) unfolding eq by (simp add: split_cells_def)
        moreover have "split_capa vmc (Some ?p) a s = Some (Some q, s6)"
          using body True c q s6(1) dom_rel_cell [OF r4, of e] by simp
        moreover have "wld s6 = (wld s1)\<lparr>mon := m\<rparr>" using wld_lists(1) [OF s6(1)] by simp
        moreover obtain r where "x = Some r" "h = rcx r" using True t(3,4) by auto
        ultimately show ?thesis using g spl by (intro ok [of q s6 h]) (simp_all add: split_cells_abs)
      qed
    qed
  qed
qed

lemma split_cells_step:
  assumes "dll_contains (c_start (ccap e)) (c_end (ccap e)) a"
    and "is_owned (ccap e) \<noteq> 0" and "is_shared (ccap e) = 0" and "status (ccap e) \<noteq> PausedCapa"
  shows "dom_step (absd (L @ e # R))
           (absd (L @ fst (split_cells e q h a) # R @ [snd (split_cells e q h a)]))"
proof -
  let ?a = "abs_cell e"
  have "abs_cell (fst (split_cells e q h a)) = ?a\<lparr>a_end := a\<rparr>"
    "abs_cell (snd (split_cells e q h a)) = ?a\<lparr>a_handle := h, a_start := a, a_revs := []\<rparr>"
    by (simp_all add: split_cells_def abs_cell_def)
  moreover have "dom_step (absd L @ ?a # absd R)
      (absd L @ ?a\<lparr>a_end := a\<rparr> # absd R @ [?a\<lparr>a_handle := h, a_start := a, a_revs := []\<rparr>])"
    by (rule dom_step.split) (use assms in \<open>auto simp: abs_cell_def dll_contains_def\<close>)
  ultimately show ?thesis by simp
qed

section \<open>transfer_capa\<close>

text \<open>
  The carving step ends with a cell that covers exactly the requested interval, keeps the status and
  the rights of the capability that was found, and has no handle unless nothing had to be split.
\<close>

lemma transfer_carveE:
  assumes rel: "dom_rel s (L @ e # R)" and m: "transfer_match start stop (ccap e)"
    and np: "status (ccap e) \<noteq> PausedCapa"
  obtains (fail) s' G' where "transfer_carve vmc start stop (cptr e) s = Some (None, s')"
      "dom_rel s' G'" "dom_step\<^sup>*\<^sup>* (absd (L @ e # R)) (absd G')"
      "a_carve vmc start stop (absd L) (abs_cell e) (absd R) (wld s) = (Inl (absd G'), wld s')"
  | (ok) q s' L' f R' where "transfer_carve vmc start stop (cptr e) s = Some (Some q, s')"
      "dom_rel s' (L' @ f # R')" "cptr f = q" "dom_step\<^sup>*\<^sup>* (absd (L @ e # R)) (absd (L' @ f # R'))"
      "c_start (ccap f) = start" "c_end (ccap f) = stop" "status (ccap f) = status (ccap e)"
      "access (ccap f) = access (ccap e)" "cvals f = cvals e \<or> cvals f = []"
      "a_carve vmc start stop (absd L) (abs_cell e) (absd R) (wld s) = (Inr (absd L', abs_cell f, absd R'), wld s')"
proof (cases "c_start (ccap e) = start \<and> c_end (ccap e) = stop")
  case True
  then have "transfer_carve vmc start stop (cptr e) s = Some (Some (cptr e), s)"
    using dom_rel_cell [OF rel, of e] by (simp add: transfer_carve_def)
  moreover have "a_carve vmc start stop (absd L) (abs_cell e) (absd R) (wld s) = (Inr (absd L, abs_cell e, absd R), wld s)"
    using True by (simp add: a_carve_def abs_cell_def)
  ultimately show ?thesis using ok [OF _ rel refl] True by blast
next
  case False
  have ce: "capas s (cptr e) = Some (ccap e)" using dom_rel_cell [OF rel] by simp
  have "\<not> (a_start (abs_cell e) = start \<and> a_end (abs_cell e) = stop)" using False by (simp add: abs_cell_def)
  note spec = a_carve_def [of vmc start stop "absd L" "abs_cell e" "absd R" "wld s", unfolded if_not_P [OF this]]
  show ?thesis
  proof (cases rule: split_capaE [OF rel, of vmc start])
    case (1 s1)
    then have "transfer_carve vmc start stop (cptr e) s = Some (None, s1)"
      using False ce by (auto simp: transfer_carve_def)
    then show ?thesis using fail [OF _ 1(2)] 1(3) by (simp add: spec)
  next
    case (2 q s1 h)
    define e1 where "e1 = fst (split_cells e q h start)"
    define f1 where "f1 = snd (split_cells e q h start)"
    have rel1: "dom_rel s1 ((L @ e1 # R) @ f1 # [])" using 2(6) by (simp add: e1_def f1_def)
    have st1: "dom_step (absd (L @ e # R)) (absd ((L @ e1 # R) @ f1 # []))"
      using split_cells_step [OF 2(2,4,5) np] by (simp add: e1_def f1_def)
    have f1: "cptr f1 = q" "ccap f1 = (ccap e)\<lparr>handle := h, c_start := start, revoks := dll_init_list\<rparr>"
      "cvals f1 = []" by (simp_all add: f1_def split_cells_def)
    have gt: "c_end (ccap f1) > stop"
      using m False f1 by (auto simp: transfer_match_def dll_contains_def)
    have cf: "capas s1 q = Some (ccap f1)" using dom_rel_cell [OF rel1, of f1] f1 by simp
    show ?thesis
    proof (cases rule: split_capaE [OF rel1, of vmc stop])
      case (1 s2)
      then have "transfer_carve vmc start stop (cptr e) s = Some (None, s2)"
        using False ce 2(1) cf gt f1(1) by (auto simp: transfer_carve_def)
      moreover have "dom_step\<^sup>*\<^sup>* (absd (L @ e # R)) (absd ((L @ e1 # R) @ f1 # []))" using st1 by (rule r_into_rtranclp)
      moreover have "a_carve vmc start stop (absd L) (abs_cell e) (absd R) (wld s) = (Inl (absd ((L @ e1 # R) @ f1 # [])), wld s2)"
        using 2(7) 1(3) by (simp add: spec e1_def f1_def)
      ultimately show ?thesis using fail 1(2) by blast
    next
      case s2: (2 q2 s2 h2)
      define f2 where "f2 = fst (split_cells f1 q2 h2 stop)"
      define g2 where "g2 = snd (split_cells f1 q2 h2 stop)"
      have rel2: "dom_rel s2 ((L @ e1 # R) @ f2 # [g2])" using s2(6) by (simp add: f2_def g2_def)
      have "dom_step (absd ((L @ e1 # R) @ f1 # [])) (absd ((L @ e1 # R) @ f2 # [g2]))"
        using split_cells_step [OF s2(2,4,5), of "L @ e1 # R" "[]"] np f1(2)
        by (simp add: f2_def g2_def)
      with st1 have st2: "dom_step\<^sup>*\<^sup>* (absd (L @ e # R)) (absd ((L @ e1 # R) @ f2 # [g2]))"
        by (metis (no_types) converse_rtranclp_into_rtranclp r_into_rtranclp)
      have "transfer_carve vmc start stop (cptr e) s = Some (Some q, s2)"
        using False ce 2(1) cf gt f1(1) s2(1) by (auto simp: transfer_carve_def)
      then show ?thesis
        by (rule ok [OF _ rel2 _ st2])
          (use 2(7) s2(7) in \<open>simp_all add: spec e1_def [symmetric] f1_def [symmetric] f2_def [symmetric] g2_def [symmetric]\<close>,
           simp_all add: f2_def split_cells_def f1)
    qed
  qed
qed

lemma a_rights_access: "tpe \<le> 7 \<Longrightarrow> a_rights tpe = translate_access tpe"
proof -
  assume "tpe \<le> 7"
  then have "unat tpe \<in> set [0..<8]" by (simp add: word_le_nat_alt)
  moreover have "list_all (\<lambda>n. a_rights (of_nat n) = translate_access (of_nat n)) [0..<8]" by code_simp
  ultimately have "a_rights (of_nat (unat tpe)) = translate_access (of_nat (unat tpe))" unfolding list_all_iff by blast
  then show ?thesis by simp
qed

lemma transfer_grantE:
  assumes rel: "dom_rel s (L @ e # R)" and act: "status (ccap e) = ActiveCapa" and tpe: "ConfidentialRO \<le> tpe" "tpe \<le> Confidential"
  obtains (fail) s' G' where "transfer_grant vmc did tpe (cptr e) s = Some (FAIL, s')"
      "dom_rel s' G'" "absd G' = absd (L @ e # R)" "a_hand vmc did tpe (abs_cell e) (wld s) = (None, wld s')"
  | (ok) s' e' v where "transfer_grant vmc did tpe (cptr e) s = Some (OK, s')"
      "dom_rel s' (L @ e' # R)" "rdomain v = did"
      "abs_cell e' = (abs_cell e)\<lparr>a_status := PausedCapa, a_revs := cvals e @ [v]\<rparr>"
      "a_hand vmc did tpe (abs_cell e) (wld s) = (Some (abs_cell e'), wld s')"
proof -
  have "\<not> tpe < 4" using tpe(1) by (simp add: not_less)
  then have n4: "\<not> (tpe < 4 \<and> did \<in> rdomain ` set (a_revs (abs_cell e)))" by simp
  have revs_e: "a_revs (abs_cell e) = cvals e" "a_handle (abs_cell e) = handle (ccap e)" by (simp_all add: abs_cell_def)
  note spec = a_hand_def [of vmc did tpe "abs_cell e" "wld s", unfolded a_rights_access [OF tpe(2)] if_not_P [OF n4] if_not_P [OF \<open>\<not> tpe < 4\<close>], unfolded revs_e]
  show ?thesis
proof (cases rule: alloc_revokE [OF rel])
  case (1 s1)
  then have "transfer_grant vmc did tpe (cptr e) s = Some (FAIL, s1)"
    by (simp add: transfer_grant_def)
  then show ?thesis using fail [OF _ 1(2) refl] 1(4) by (simp add: spec)
next
  case (2 r s1 v y)
  let ?c = "ccap e" and ?p = "cptr e"
  let ?c1 = "?c\<lparr>status := PausedCapa\<rparr>"
  let ?e1 = "e\<lparr>ccap := ?c1\<rparr>"
  have ce: "capas s1 ?p = Some ?c" using dom_rel_cell [OF 2(2)] by simp
  let ?s2 = "s1\<lparr>capas := (capas s1)(?p \<mapsto> ?c1)\<rparr>"
  have r2: "dom_rel ?s2 (L @ ?e1 # R)" by (rule dom_rel_upd_cell [OF 2(2)]) simp
  have sp: "rspare (L @ ?e1 # R) r" using 2(3) by (simp add: rspare_def)
  let ?v = "v\<lparr>rdomain := did\<rparr>"
  let ?s3 = "?s2\<lparr>rev_links := (rev_links ?s2)(r \<mapsto> \<lparr>prev = None, nxt = None\<rparr>),
                 revs := (revs ?s2)(r \<mapsto> ?v)\<rparr>"
  have r3: "dom_rel ?s3 (L @ ?e1 # R)" by (rule dom_rel_rupd_spare(1) [OF r2 sp, of v]) (simp add: 2)
  obtain rc h m x where t: "tyche_grant_capa vmc did (handle ?c) tpe (Some (revok_handle v)) ?s3
      = (rc, Some h, ?s3\<lparr>mon := m\<rparr>)"
      "ask vmc [0x103, did, handle ?c, translate_access tpe] (wld ?s3) = (x, (wld ?s3)\<lparr>mon := m\<rparr>)"
      "rc = 0 \<longleftrightarrow> x \<noteq> None" "\<forall>r. x = Some r \<longrightarrow> h = rcx r"
    by (rule tyche_grant_ask [where w = ?s3 and old = "revok_handle v"])
  let ?w = "?v\<lparr>revok_handle := h\<rparr>"
  let ?s4 = "(?s3\<lparr>mon := m\<rparr>)\<lparr>revs := (revs (?s3\<lparr>mon := m\<rparr>))(r \<mapsto> ?w)\<rparr>"
  have r4: "dom_rel ?s4 (L @ ?e1 # R)"
    by (rule dom_rel_rupd_spare(2) [of _ _ _ ?v]) (use r3 sp in auto)
  have body: "transfer_grant vmc did tpe ?p s =
      (if rc \<noteq> 0 then do { s \<leftarrow> set_status ?p ActiveCapa ?s4; s \<leftarrow> dealloc_revok r s;
                           _ \<leftarrow> dbg_print ''failure in transfer.'' s; Some (FAIL, s) }
       else do { s \<leftarrow> revoks_add ?p r ?s4; Some (OK, s) })"
    using 2(1,5,6) ce t(1) r4
    by (simp add: transfer_grant_def set_status_def dll_init_elem_Some Let_def)
  have spl: "a_hand vmc did tpe (abs_cell e) (wld s) = (case x of None \<Rightarrow> (None, (wld s1)\<lparr>mon := m\<rparr>)
      | Some r \<Rightarrow> (Some ((abs_cell e)\<lparr>a_status := PausedCapa, a_revs := cvals e @ [\<lparr>rdomain = did, revok_handle = rcx r\<rparr>]\<rparr>),
          (wld s1)\<lparr>mon := m\<rparr>))"
    using 2(7) t(2) by (simp add: spec split: option.split)
  show ?thesis
  proof (cases "rc = 0")
    case False
    let ?s5 = "?s4\<lparr>capas := (capas ?s4)(?p \<mapsto> ?c1\<lparr>status := ActiveCapa\<rparr>)\<rparr>"
    let ?e2 = "?e1\<lparr>ccap := ?c1\<lparr>status := ActiveCapa\<rparr>\<rparr>"
    have r5: "dom_rel ?s5 (L @ ?e2 # R)"
      using dom_rel_upd_cell [OF r4, of "?c1\<lparr>status := ActiveCapa\<rparr>"] by simp
    have "rspare (L @ ?e2 # R) r" using 2(3) by (simp add: rspare_def)
    then obtain s6 where s6: "dealloc_revok r ?s5 = Some s6" "dom_rel s6 (L @ ?e2 # R)"
      by (rule dealloc_revokE [OF r5, of r ?w]) auto
    have "transfer_grant vmc did tpe ?p s = Some (FAIL, s6)"
      using body False s6 by (simp add: set_status_def)
    moreover have "absd (L @ ?e2 # R) = absd (L @ e # R)" using act by (simp add: abs_cell_def)
    moreover have "wld s6 = (wld s1)\<lparr>mon := m\<rparr>" using wld_lists(4) [OF s6(1)] by simp
    then have "a_hand vmc did tpe (abs_cell e) (wld s) = (None, wld s6)" using spl t(3) False by simp
    ultimately show ?thesis using fail s6(2) by blast
  next
    case True
    obtain s5 l where s5: "revoks_add ?p r ?s4 = Some s5"
      "dom_rel s5 (L @ ?e1\<lparr>ccap := (ccap ?e1)\<lparr>revoks := l\<rparr>, crevs := crevs ?e1 @ [r],
                        cvals := cvals ?e1 @ [?w]\<rparr> # R)"
      using revoks_addE [OF r4 sp, of ?w] by auto
    have "transfer_grant vmc did tpe ?p s = Some (OK, s5)" using body True s5(1) by simp
    moreover obtain z where "x = Some z" "h = rcx z" using True t(3,4) by auto
    moreover have "wld s5 = (wld s1)\<lparr>mon := m\<rparr>" using wld_lists(5) [OF s5(1)] by simp
    moreover have "?w = \<lparr>rdomain = did, revok_handle = h\<rparr>" by simp
    ultimately show ?thesis using spl by (intro ok [OF _ s5(2), of ?w]) (simp_all add: abs_cell_def)
  qed
qed
qed

lemma transfer_shareE:
  assumes rel: "dom_rel s (L @ e # R)" and tpe: "tpe \<le> Shared"
  obtains (fail) s' G' where "transfer_share vmc did tpe (cptr e) s = Some (FAIL, s')"
      "dom_rel s' G'" "absd G' = absd (L @ e # R)" "a_hand vmc did tpe (abs_cell e) (wld s) = (None, wld s')"
  | (ok) s' e' v where "transfer_share vmc did tpe (cptr e) s = Some (OK, s')"
      "dom_rel s' (L @ e' # R)" "rdomain v = did" "\<forall>w \<in> set (cvals e). rdomain w \<noteq> did"
      "abs_cell e' = (abs_cell e)\<lparr>a_status := SharedCapa, a_revs := cvals e @ [v]\<rparr>"
      "a_hand vmc did tpe (abs_cell e) (wld s) = (Some (abs_cell e'), wld s')"
proof -
  have ok_e: "cell_ok s e" using dom_relD(4) [OF rel] by simp
  have t4: "tpe < 4" "tpe \<le> 7" using tpe by (simp_all add: word_le_nat_alt word_less_nat_alt)
  have revs_e: "a_revs (abs_cell e) = cvals e" "a_handle (abs_cell e) = handle (ccap e)" by (simp_all add: abs_cell_def)
  note spec = a_hand_def [of vmc did tpe "abs_cell e" "wld s", unfolded a_rights_access [OF t4(2)] if_P [OF t4(1)] revs_e]
  show ?thesis
  proof (cases rule: revok_findE [OF ok_e, of "\<lambda>v. rdomain v = did"])
  case (2 rs r rs' vs v vs')
  then have "transfer_share vmc did tpe (cptr e) s = Some (FAIL, s)"
    using dom_rel_cell [OF rel, of e] rel by (simp add: transfer_share_def)
  moreover have "a_hand vmc did tpe (abs_cell e) (wld s) = (None, wld s)" using 2(3,6) t4(1) by (auto simp: spec)
  ultimately show ?thesis using fail rel by blast
next
  case nodup: 1
  then have nodup': "\<not> (tpe < 4 \<and> did \<in> rdomain ` set (cvals e))" by auto
  have c0: "capas s (cptr e) = Some (ccap e)" using dom_rel_cell [OF rel] by simp
  show ?thesis
  proof (cases rule: alloc_revokE [OF rel])
    case (1 s1)
    then have "transfer_share vmc did tpe (cptr e) s = Some (FAIL, s1)"
      using c0 nodup(1) by (simp add: transfer_share_def)
    then show ?thesis using fail [OF _ 1(2) refl] 1(4) unfolding spec if_not_P [OF nodup'] by simp
  next
    case (2 r s1 v y)
    let ?c = "ccap e" and ?p = "cptr e"
    let ?c1 = "?c\<lparr>status := SharedCapa\<rparr>"
    let ?e1 = "e\<lparr>ccap := ?c1\<rparr>"
    have ce: "capas s1 ?p = Some ?c" using dom_rel_cell [OF 2(2)] by simp
    let ?s2 = "s1\<lparr>capas := (capas s1)(?p \<mapsto> ?c1)\<rparr>"
    have r2: "dom_rel ?s2 (L @ ?e1 # R)" by (rule dom_rel_upd_cell [OF 2(2)]) simp
    have sp: "rspare (L @ ?e1 # R) r" using 2(3) by (simp add: rspare_def)
    let ?v = "v\<lparr>rdomain := did\<rparr>"
    let ?s3 = "?s2\<lparr>rev_links := (rev_links ?s2)(r \<mapsto> \<lparr>prev = None, nxt = None\<rparr>),
                   revs := (revs ?s2)(r \<mapsto> ?v)\<rparr>"
    have r3: "dom_rel ?s3 (L @ ?e1 # R)"
      by (rule dom_rel_rupd_spare(1) [OF r2 sp, of v]) (simp add: 2)
    obtain rc h m x where t: "tyche_share_capa vmc did (handle ?c) tpe (Some (revok_handle v)) ?s3
        = (rc, Some h, ?s3\<lparr>mon := m\<rparr>)"
        "ask vmc [0x104, did, handle ?c, translate_access tpe] (wld ?s3) = (x, (wld ?s3)\<lparr>mon := m\<rparr>)"
        "rc = 0 \<longleftrightarrow> x \<noteq> None" "\<forall>r. x = Some r \<longrightarrow> h = rcx r"
      by (rule tyche_share_ask [where w = ?s3 and old = "revok_handle v"])
    let ?w = "?v\<lparr>revok_handle := h\<rparr>"
    let ?s4 = "(?s3\<lparr>mon := m\<rparr>)\<lparr>revs := (revs (?s3\<lparr>mon := m\<rparr>))(r \<mapsto> ?w)\<rparr>"
    have r4: "dom_rel ?s4 (L @ ?e1 # R)"
      by (rule dom_rel_rupd_spare(2) [of _ _ _ ?v]) (use r3 sp in auto)
    have body: "transfer_share vmc did tpe ?p s =
        (if rc \<noteq> 0 then do { s \<leftarrow> set_status ?p (status ?c) ?s4; s \<leftarrow> dealloc_revok r s;
                             _ \<leftarrow> dbg_print ''failure in transfer.'' s; Some (FAIL, s) }
         else do { s \<leftarrow> revoks_add ?p r ?s4; Some (OK, s) })"
      using c0 nodup(1) 2(1,5,6) ce t(1) r4
      by (simp add: transfer_share_def set_status_def dll_init_elem_Some Let_def)
    have spl: "a_hand vmc did tpe (abs_cell e) (wld s) = (case x of None \<Rightarrow> (None, (wld s1)\<lparr>mon := m\<rparr>)
        | Some r \<Rightarrow> (Some ((abs_cell e)\<lparr>a_status := SharedCapa, a_revs := cvals e @ [\<lparr>rdomain = did, revok_handle = rcx r\<rparr>]\<rparr>),
            (wld s1)\<lparr>mon := m\<rparr>))"
      using 2(7) t(2) unfolding spec if_not_P [OF nodup'] by (simp split: option.split)
    show ?thesis
    proof (cases "rc = 0")
      case False
      let ?s5 = "?s4\<lparr>capas := (capas ?s4)(?p \<mapsto> ?c1\<lparr>status := status ?c\<rparr>)\<rparr>"
      let ?e2 = "?e1\<lparr>ccap := ?c1\<lparr>status := status ?c\<rparr>\<rparr>"
      have r5: "dom_rel ?s5 (L @ ?e2 # R)"
        using dom_rel_upd_cell [OF r4, of "?c1\<lparr>status := status ?c\<rparr>"] by simp
      have "rspare (L @ ?e2 # R) r" using 2(3) by (simp add: rspare_def)
      then obtain s6 where s6: "dealloc_revok r ?s5 = Some s6" "dom_rel s6 (L @ ?e2 # R)"
        by (rule dealloc_revokE [OF r5, of r ?w]) auto
      have "transfer_share vmc did tpe ?p s = Some (FAIL, s6)"
        using body False s6 by (simp add: set_status_def)
      moreover have "absd (L @ ?e2 # R) = absd (L @ e # R)" by (simp add: abs_cell_def)
      moreover have "wld s6 = (wld s1)\<lparr>mon := m\<rparr>" using wld_lists(4) [OF s6(1)] by simp
      then have "a_hand vmc did tpe (abs_cell e) (wld s) = (None, wld s6)" using spl t(3) False by simp
      ultimately show ?thesis using fail s6(2) by blast
    next
      case True
      obtain s5 l where s5: "revoks_add ?p r ?s4 = Some s5"
        "dom_rel s5 (L @ ?e1\<lparr>ccap := (ccap ?e1)\<lparr>revoks := l\<rparr>, crevs := crevs ?e1 @ [r],
                          cvals := cvals ?e1 @ [?w]\<rparr> # R)"
        using revoks_addE [OF r4 sp, of ?w] by auto
      have "transfer_share vmc did tpe ?p s = Some (OK, s5)" using body True s5(1) by simp
      moreover obtain z where "x = Some z" "h = rcx z" using True t(3,4) by auto
      moreover have "wld s5 = (wld s1)\<lparr>mon := m\<rparr>" using wld_lists(5) [OF s5(1)] by simp
      moreover have "?w = \<lparr>rdomain = did, revok_handle = h\<rparr>" by simp
      ultimately show ?thesis using spl nodup(2) by (intro ok [OF _ s5(2), of ?w]) (simp_all add: abs_cell_def)
    qed
  qed
qed
qed

text \<open>The state of a domain that holds the abstract capabilities \<open>A\<close>.\<close>

definition domain_wf :: "('m, 'z) tstate_scheme \<Rightarrow> acapa list \<Rightarrow> bool" where
  "domain_wf s A \<longleftrightarrow> (\<exists>G. dom_rel s G \<and> A = absd G \<and> a_wf A)"

definition transferred :: "domain_id_t \<Rightarrow> paddr_t \<Rightarrow> paddr_t \<Rightarrow> capability_type_t \<Rightarrow> acapa \<Rightarrow> bool" where
  "transferred did start stop tpe a \<longleftrightarrow>
     a_start a = start \<and> a_end a = stop \<and>
     access_is_less (translate_access tpe) (a_access a) \<and>
     a_revs a \<noteq> [] \<and> rdomain (last (a_revs a)) = did \<and>
     (if ConfidentialRO \<le> tpe then a_status a = PausedCapa \<and> length (a_revs a) = 1
      else a_status a = SharedCapa)"

text \<open>A search of the cells is a search of the abstract capabilities.\<close>

lemma find_cell:
  assumes "List.find P G = Some e" and "\<And>e. Q (abs_cell e) = P e"
  obtains L R where "G = L @ e # R" and "P e" and "List.extract Q (absd G) = Some (absd L, abs_cell e, absd R)"
proof -
  obtain i where i: "i < length G" "P (G ! i)" "e = G ! i" "\<forall>j < i. \<not> P (G ! j)" using assms(1) by (auto simp: find_Some_iff)
  have G: "G = take i G @ e # drop (Suc i) G" using id_take_nth_drop [OF i(1)] i(3) by simp
  have "\<forall>f \<in> set (take i G). \<not> P f" using i(1,4) by (auto simp: in_set_conv_nth)
  then have "List.extract Q (absd G) = Some (absd (take i G), abs_cell e, absd (drop (Suc i) G))"
    using arg_cong [OF G, of absd] i(2,3) assms(2) unfolding extract_Some_iff by auto
  then show thesis using that G i(2,3) by blast
qed

lemma find_no_cell: "List.find P G = None \<Longrightarrow> (\<And>e. Q (abs_cell e) = P e) \<Longrightarrow> List.extract Q (absd G) = None"
  by (auto simp: find_None_iff extract_None_iff)

text \<open>The two ways to hand over the capability that has been cut out.\<close>

definition transfer_hand where
  "transfer_hand vmc did tpe q s =
     (if ConfidentialRO \<le> tpe \<and> tpe \<le> Confidential then transfer_grant vmc did tpe q s else transfer_share vmc did tpe q s)"

lemma transfer_handE:
  assumes rel: "dom_rel s (L @ e # R)" and tpe: "tpe \<le> Confidential"
    and st: "if ConfidentialRO \<le> tpe then status (ccap e) = ActiveCapa else status (ccap e) \<noteq> PausedCapa"
  obtains (fail) s' G' where "transfer_hand vmc did tpe (cptr e) s = Some (FAIL, s')" "dom_rel s' G'" "absd G' = absd (L @ e # R)"
      "a_hand vmc did tpe (abs_cell e) (wld s) = (None, wld s')"
  | (ok) s' e' v where "transfer_hand vmc did tpe (cptr e) s = Some (OK, s')" "dom_rel s' (L @ e' # R)" "rdomain v = did"
      "abs_cell e' = (abs_cell e)\<lparr>a_status := (if ConfidentialRO \<le> tpe then PausedCapa else SharedCapa), a_revs := cvals e @ [v]\<rparr>"
      "dom_step (absd (L @ e # R)) (absd (L @ e' # R))" "a_hand vmc did tpe (abs_cell e) (wld s) = (Some (abs_cell e'), wld s')"
proof (cases "ConfidentialRO \<le> tpe")
  case conf: True
  then have act: "status (ccap e) = ActiveCapa" using st by simp
  show ?thesis
  proof (cases rule: transfer_grantE [OF rel act conf tpe, of vmc did])
    case (1 s' G')
    then show ?thesis using fail conf tpe by (simp add: transfer_hand_def)
  next
    case (2 s' e' v)
    have "dom_step (absd (L @ e # R)) (absd (L @ e' # R))"
      using dom_step.grant [of "abs_cell e" "absd L" "absd R" v] act 2(4) by (simp add: abs_cell_def)
    then show ?thesis using ok [OF _ 2(2,3)] 2(1,4,5) conf tpe by (simp add: transfer_hand_def)
  qed
next
  case shr: False
  then have np: "status (ccap e) \<noteq> PausedCapa" using st by simp
  have "tpe \<le> Shared" using shr by (simp add: word_le_nat_alt)
  from transfer_shareE [OF rel this, of vmc did] show ?thesis
  proof cases
    case (1 s' G')
    then show ?thesis using fail shr by (simp add: transfer_hand_def)
  next
    case (2 s' e' v)
    have "dom_step (absd (L @ e # R)) (absd (L @ e' # R))"
      using dom_step.share [of "abs_cell e" v "absd L" "absd R"] np 2(3-5) by (simp add: abs_cell_def)
    then show ?thesis using ok [OF _ 2(2,3)] 2(1,5,6) shr by (simp add: transfer_hand_def)
  qed
qed

lemma access_bits: "access_is_less a1 a2 \<longleftrightarrow> {i. i < 3 \<and> bit a1 i} \<subseteq> {i. i < 3 \<and> bit a2 i}"
proof -
  have b: "a AND push_bit n 1 = 0 \<longleftrightarrow> \<not> bit a n" for a :: u64 and n
    by (simp add: push_bit_eq_mult and_exp_eq_0_iff_not_bit)
  have "access_is_less a1 a2 \<longleftrightarrow> (\<forall>i \<in> {0, 1, 2}. bit a1 i \<longrightarrow> bit a2 i)"
    unfolding access_is_less_def CAPA_READ_def CAPA_WRITE_def CAPA_EXEC_def b by auto
  also have "{0, 1, 2} = {i :: nat. i < 3}" by auto
  finally show ?thesis by auto
qed

text \<open>The call from the capability on that the search has found.\<close>

lemma transfer_found:
  assumes rel: "dom_rel s (L @ e # R)" and wf: "a_wf (absd (L @ e # R))" and m: "transfer_match start stop (ccap e)"
    and tpe: "tpe \<le> Confidential" and allow: "a_allows tpe (abs_cell e)"
  shows "\<exists>ok s' G'. do { (split, s) \<leftarrow> transfer_carve vmc start stop (cptr e) s;
        case split of None \<Rightarrow> do { _ \<leftarrow> dbg_print ''failure in transfer.'' s; Some (FAIL, s) }
        | Some q \<Rightarrow> transfer_hand vmc did tpe q s } = Some (if ok then OK else FAIL, s') \<and> dom_rel s' G' \<and>
      dom_step\<^sup>*\<^sup>* (absd (L @ e # R)) (absd G') \<and> (ok \<longrightarrow> (\<exists>a \<in> set (absd G'). transferred did start stop tpe a)) \<and>
      a_deliver vmc did tpe (a_carve vmc start stop (absd L) (abs_cell e) (absd R) (wld s)) = (ok, absd G', wld s')"
proof -
  have st: "if ConfidentialRO \<le> tpe then status (ccap e) = ActiveCapa else status (ccap e) \<noteq> PausedCapa"
    using allow by (auto simp: a_allows_def abs_cell_def not_less split: if_splits)
  then have np: "status (ccap e) \<noteq> PausedCapa" by (auto split: if_splits)
  show ?thesis
  proof (cases rule: transfer_carveE [OF rel m np, of vmc])
    case (1 s1 G1)
    then show ?thesis by (intro exI [of _ False] exI [of _ s1] exI [of _ G1]) (simp add: a_deliver_def)
  next
    case (2 q s1 L' f R')
    have st': "if ConfidentialRO \<le> tpe then status (ccap f) = ActiveCapa else status (ccap f) \<noteq> PausedCapa" using st 2(7) by simp
    show ?thesis
    proof (cases rule: transfer_handE [OF 2(2) tpe st', of vmc did])
      case f: (1 s2 G2)
      then show ?thesis using 2(1,3,4,10) by (intro exI [of _ False] exI [of _ s2] exI [of _ G2]) (simp add: a_deliver_def)
    next
      case g: (2 s2 f2 v)
      have "a_status_ok (abs_cell f)" using dom_steps_wf [OF 2(4) wf] by (simp add: a_wf_def)
      then have "ConfidentialRO \<le> tpe \<longrightarrow> cvals f = []" using st' by (auto simp: a_status_ok_def abs_cell_def)
      moreover have "access_is_less (translate_access tpe) (access (ccap f))"
        using allow a_rights_access [OF tpe] 2(8) by (simp add: access_bits a_allows_def abs_cell_def)
      ultimately have "transferred did start stop tpe (abs_cell f2)"
        using g(3,4) 2(5,6) by (simp add: transferred_def abs_cell_def)
      moreover have "dom_step\<^sup>*\<^sup>* (absd (L @ e # R)) (absd (L' @ f2 # R'))" using 2(4) g(5) by (rule rtranclp.rtrancl_into_rtrancl)
      ultimately show ?thesis using 2(1,3,10) g(1,2,6) by (intro exI [of _ True] exI [of _ s2] exI [of _ "L' @ f2 # R'"]) (simp add: a_deliver_def)
    qed
  qed
qed

lemma transfer_capa_refines:
  assumes "domain_wf s A"
  shows "\<exists>ok s' B. transfer_capa vmc did start stop tpe s = Some (if ok then OK else FAIL, s') \<and> domain_wf s' B \<and>
           a_transfer vmc did start stop tpe A (wld s) = (ok, B, wld s') \<and>
           dom_step\<^sup>*\<^sup>* A B \<and> (ok \<longrightarrow> (\<exists>a \<in> set B. transferred did start stop tpe a))"
    (is "\<exists>ok s' B. ?call = _ \<and> _")
proof -
  from assms obtain G where rel: "dom_rel s G" and A: "A = absd G" and wf: "a_wf A" by (auto simp: domain_wf_def)
  have find: "dll_find (\<lambda>p. map_option (transfer_match start stop) (capas s p)) (capa_links s)
      (head (capabilities (local_domain s))) = Some (map_option cptr (List.find (transfer_match start stop \<circ> ccap) G))"
    by (rule capa_find [OF rel])
  have inside: "a_inside start stop (abs_cell e) = (transfer_match start stop \<circ> ccap) e" for e
    by (auto simp: a_inside_def transfer_match_def dll_contains_def abs_cell_def)
  have refused: ?thesis if "?call = Some (FAIL, s)" "a_transfer vmc did start stop tpe A (wld s) = (False, A, wld s)"
    using that assms by (intro exI [of _ False] exI [of _ s] exI [of _ A]) simp
  let ?args = "start < stop \<and> tpe \<le> 7 \<and> start mod 0x1000 = 0 \<and> stop mod 0x1000 = 0"
  have guard: "(start \<ge> stop \<or> tpe > MaxTpe \<or> tpe < MinTpe \<or> start mod 0x1000 \<noteq> 0 \<or> stop mod 0x1000 \<noteq> 0) \<longleftrightarrow> \<not> ?args"
    by (simp add: not_le not_less del: mod_eq_0_iff_dvd)
  note code = transfer_capa_def [of vmc did start stop tpe s, unfolded guard]
  show ?thesis
  proof (cases "?args \<and> List.find (transfer_match start stop \<circ> ccap) G \<noteq> None")
    case False
    then have "?call = Some (FAIL, s)" using rel find by (cases ?args) (simp_all add: code)
    moreover have "a_transfer vmc did start stop tpe A (wld s) = (False, A, wld s)"
      using False find_no_cell [of "transfer_match start stop \<circ> ccap" G "a_inside start stop", OF _ inside] A by (auto simp: a_transfer_def)
    ultimately show ?thesis by (rule refused)
  next
    case True
    then obtain e where args: ?args and e: "List.find (transfer_match start stop \<circ> ccap) G = Some e" by auto
    obtain L R where G: "G = L @ e # R" and m: "(transfer_match start stop \<circ> ccap) e"
      and x: "List.extract (a_inside start stop) (absd G) = Some (absd L, abs_cell e, absd R)"
      by (rule find_cell [OF e inside])
    have ce: "capas s (cptr e) = Some (ccap e)" using dom_rel_cell [OF rel, of e] G by simp
    have tp: "tpe \<le> Confidential" and sc: "tpe \<le> Shared \<longleftrightarrow> \<not> ConfidentialRO \<le> tpe" "tpe < 4 \<longleftrightarrow> \<not> ConfidentialRO \<le> tpe"
      using args by (simp_all add: word_le_nat_alt word_less_nat_alt not_le) arith
    have allow: "a_allows tpe (abs_cell e) \<longleftrightarrow> \<not> (\<not> access_is_less (translate_access tpe) (access (ccap e)) \<or>
          (tpe \<le> Shared \<and> status (ccap e) = PausedCapa) \<or> (ConfidentialRO \<le> tpe \<and> status (ccap e) \<noteq> ActiveCapa))"
      using sc a_rights_access [OF tp] by (auto simp: a_allows_def access_bits abs_cell_def)
    have call: "?call = (if \<not> a_allows tpe (abs_cell e) then Some (FAIL, s) else do {
         (split, s) \<leftarrow> transfer_carve vmc start stop (cptr e) s;
         case split of None \<Rightarrow> do { _ \<leftarrow> dbg_print ''failure in transfer.'' s; Some (FAIL, s) }
         | Some q \<Rightarrow> transfer_hand vmc did tpe q s })"
      unfolding allow transfer_hand_def using args rel find e ce tp sc(1) by (simp add: code)
    show ?thesis
    proof (cases "a_allows tpe (abs_cell e)")
      case False
      then have "a_transfer vmc did start stop tpe A (wld s) = (False, A, wld s)" using args x by (simp add: a_transfer_def A)
      then show ?thesis using False call by (intro refused) simp_all
    next
      case True
      have spec: "a_transfer vmc did start stop tpe A (wld s) = a_deliver vmc did tpe (a_carve vmc start stop (absd L) (abs_cell e) (absd R) (wld s))"
        using True args x by (simp add: a_transfer_def A)
      have "\<not> \<not> a_allows tpe (abs_cell e)" using True by simp
      note code = call [unfolded if_not_P [OF this]]
      have m': "transfer_match start stop (ccap e)" using m by simp
      note found = transfer_found [OF rel [unfolded G] wf [unfolded A G] m' tp True, of vmc did, folded code spec, folded G, folded A]
      obtain ok s' G' where r: "?call = Some (if ok then OK else FAIL, s')" "dom_rel s' G'" "dom_step\<^sup>*\<^sup>* A (absd G')"
          "ok \<longrightarrow> (\<exists>a \<in> set (absd G'). transferred did start stop tpe a)" "a_transfer vmc did start stop tpe A (wld s) = (ok, absd G', wld s')"
        using found by (elim exE conjE) (rule that)
      moreover have "domain_wf s' (absd G')" using r(2) dom_steps_wf [OF r(3) wf] by (auto simp: domain_wf_def)
      ultimately show ?thesis by blast
    qed
  qed
qed

end
