(* ===== verification/Capability_Init.thy ===== *)
theory Capability_Init
  imports Capability_Refinement
begin

text \<open>
  Start-up: \<open>init_domain\<close> enumerates the capabilities the monitor reports and computes \<open>a_init\<close>.  Whatever the
  monitor answers and whichever allocation fails, it returns; on success the list holds exactly what the monitor
  reported, entry by entry, and on failure it has been emptied again.
\<close>

lemma tyche_get_domain_id_ask:
  obtains rc d m x where "tyche_get_domain_id vmc (Some old) w = (rc, Some d, w\<lparr>mon := m\<rparr>)"
    and "ask vmc [0x100] (wld w) = (x, (wld w)\<lparr>mon := m\<rparr>)" and "rc = 0 \<longleftrightarrow> x \<noteq> None"
    and "d = (case x of None \<Rightarrow> old | Some r \<Rightarrow> rcx r)"
proof -
  let ?f = "(frame0 w)\<lparr>fid := 0x100\<rparr>" and ?ys = "[0x100]"
  obtain rc m x r where "tyche_call vmc ?f w = (rc, ?f\<lparr>ret_1 := rcx r, ret_2 := rdx r, ret_3 := rsi r, ret_4 := r9 r\<rparr>, w\<lparr>mon := m\<rparr>)"
    "ask vmc ?ys (wld w) = (x, (wld w)\<lparr>mon := m\<rparr>)" "x = (if rc = 0 then Some r else None)"
    by (rule tyche_call_ask [of ?f ?ys w vmc]) (simp_all add: frame0_def register_def)
  then show thesis by (cases "rc = 0") (auto simp: tyche_get_domain_id_def intro!: that)
qed

lemma ecs_read_size_ask:
  obtains rc n m x where "ecs_read_size vmc (Some old) w = (rc, Some n, w\<lparr>mon := m\<rparr>)"
    and "ask vmc [0x400] (wld w) = (x, (wld w)\<lparr>mon := m\<rparr>)" and "rc = 0 \<longleftrightarrow> x \<noteq> None"
    and "\<forall>r. x = Some r \<longrightarrow> n = rcx r"
proof -
  let ?f = "(frame0 w)\<lparr>fid := 0x400\<rparr>" and ?ys = "[0x400]"
  obtain rc m x r where "tyche_call vmc ?f w = (rc, ?f\<lparr>ret_1 := rcx r, ret_2 := rdx r, ret_3 := rsi r, ret_4 := r9 r\<rparr>, w\<lparr>mon := m\<rparr>)"
    "ask vmc ?ys (wld w) = (x, (wld w)\<lparr>mon := m\<rparr>)" "x = (if rc = 0 then Some r else None)"
    by (rule tyche_call_ask [of ?f ?ys w vmc]) (simp_all add: frame0_def register_def)
  then show thesis by (cases "rc = 0") (auto simp: ecs_read_size_def intro!: that)
qed

lemma ecs_read_entry_ask:
  obtains rc h m x where "ecs_read_entry vmc i (Some old) w = (rc, Some h, w\<lparr>mon := m\<rparr>)"
    and "ask vmc [0x401, i, 1] (wld w) = (x, (wld w)\<lparr>mon := m\<rparr>)" and "rc = 0 \<longleftrightarrow> x \<noteq> None"
    and "\<forall>r. x = Some r \<longrightarrow> h = rcx r"
proof -
  let ?f = "(frame0 w)\<lparr>fid := 0x401, value_1 := i, value_2 := 1\<rparr>" and ?ys = "[0x401, i, 1]"
  obtain rc m x r where "tyche_call vmc ?f w = (rc, ?f\<lparr>ret_1 := rcx r, ret_2 := rdx r, ret_3 := rsi r, ret_4 := r9 r\<rparr>, w\<lparr>mon := m\<rparr>)"
    "ask vmc ?ys (wld w) = (x, (wld w)\<lparr>mon := m\<rparr>)" "x = (if rc = 0 then Some r else None)"
    by (rule tyche_call_ask [of ?f ?ys w vmc]) (simp_all add: frame0_def register_def)
  then show thesis by (cases "rc = 0") (auto simp: ecs_read_entry_def intro!: that)
qed

definition filled :: "regs \<Rightarrow> capability_t \<Rightarrow> capability_t" where
  "filled r c = c\<lparr>c_start := rcx r, c_end := rdx r, is_owned := ucast (rsi r AND 1), is_shared := ucast (rsi r AND 2),
     access := r9 r, revoks := dll_init_list\<rparr>"

lemma tyche_read_ask:
  assumes "capas s p = Some c" and "capa_links s p = Some y"
  obtains (fail) m where "tyche_read_capa vmc (Some p) s = Some (FAIL, s\<lparr>mon := m\<rparr>)"
      "ask vmc [0x201, handle c] (wld s) = (None, (wld s)\<lparr>mon := m\<rparr>)"
  | (ok) m r where "tyche_read_capa vmc (Some p) s = Some (OK, s\<lparr>mon := m, capas := (capas s)(p \<mapsto> filled r c),
        capa_links := (capa_links s)(p \<mapsto> \<lparr>prev = None, nxt = None\<rparr>)\<rparr>)"
      "ask vmc [0x201, handle c] (wld s) = (Some r, (wld s)\<lparr>mon := m\<rparr>)"
proof -
  let ?f = "(frame0 s)\<lparr>fid := 0x201, value_1 := handle c\<rparr>" and ?ys = "[0x201, handle c]"
  obtain rc m x r where t: "tyche_call vmc ?f s = (rc, ?f\<lparr>ret_1 := rcx r, ret_2 := rdx r, ret_3 := rsi r, ret_4 := r9 r\<rparr>, s\<lparr>mon := m\<rparr>)"
    and x: "ask vmc ?ys (wld s) = (x, (wld s)\<lparr>mon := m\<rparr>)" "x = (if rc = 0 then Some r else None)"
    by (rule tyche_call_ask [of ?f ?ys s vmc]) (simp_all add: frame0_def register_def)
  show ?thesis
  proof (cases "rc = 0")
    case False
    then show ?thesis using assms t x fail by (simp add: tyche_read_capa_def)
  next
    case True
    have "tyche_read_capa vmc (Some p) s = Some (OK, s\<lparr>mon := m, capas := (capas s)(p \<mapsto> filled r c),
        capa_links := (capa_links s)(p \<mapsto> \<lparr>prev = None, nxt = None\<rparr>)\<rparr>)"
      using assms t True by (simp add: tyche_read_capa_def dll_init_elem_def filled_def TYCHE_OWNED_def TYCHE_SHARED_def)
    then show ?thesis using x True ok by simp
  qed
qed

text \<open>The identifier of the domain is set once and then left alone.\<close>

abbreviation own_id :: "('m, 'z) tstate_scheme \<Rightarrow> domain_id_t" where
  "own_id s \<equiv> dom_id (local_domain s)"

lemma own_id_lists [dest]:
  "alloc_capa s = Some (p, t) \<Longrightarrow> own_id t = own_id s" "capa_list_add q s = Some t \<Longrightarrow> own_id t = own_id s"
  "capa_list_remove q s = Some t \<Longrightarrow> own_id t = own_id s" "dealloc_capa q s = Some t \<Longrightarrow> own_id t = own_id s"
  for s :: "('m, 'z) tstate_scheme"
  by (auto simp: alloc_capa_def kmalloc_def capa_list_add_def capa_list_remove_def dealloc_capa_def bind_Some_iff
      split: if_splits)

text \<open>One turn of the enumeration.\<close>

lemma init_region_step:
  assumes rel: "dom_rel s G" and lt: "i < nb"
  obtains (failed) s' where "init_regions vmc nb i s = Some (False, s')" "dom_rel s' G" "own_id s' = own_id s"
      "a_read vmc i (wld s) = (None, wld s')"
  | (more) s' e where "init_regions vmc nb i s = init_regions vmc nb (i + 1) s'" "dom_rel s' (G @ [e])"
      "own_id s' = own_id s" "a_read vmc i (wld s) = (Some (abs_cell e), wld s')"
proof (cases rule: alloc_capaE [OF rel])
  case (1 s1)
  then have "init_regions vmc nb i s = Some (False, s1)" using lt by (subst init_regions.simps) simp
  moreover have "a_read vmc i (wld s) = (None, wld s1)" using 1(4) by (simp add: a_read_def)
  ultimately show ?thesis using failed 1(2) own_id_lists(1) [OF 1(1)] by blast
next
  case (2 q s1 d y)
  have d: "capas s1 q = Some d" "capa_links s1 q = Some y" using 2 by simp_all
  note id1 = own_id_lists(1) [OF 2(1)]
  obtain rc h m x where t: "ecs_read_entry vmc i (Some (handle d)) s1 = (rc, Some h, s1\<lparr>mon := m\<rparr>)"
    and x: "ask vmc [0x401, i, 1] (wld s1) = (x, (wld s1)\<lparr>mon := m\<rparr>)" "rc = 0 \<longleftrightarrow> x \<noteq> None" "\<forall>r. x = Some r \<longrightarrow> h = rcx r"
    by (rule ecs_read_entry_ask)
  let ?s2 = "(s1\<lparr>mon := m\<rparr>)\<lparr>capas := (capas (s1\<lparr>mon := m\<rparr>))(q \<mapsto> d\<lparr>handle := h\<rparr>)\<rparr>"
  let ?s3 = "?s2\<lparr>capa_links := (capa_links ?s2)(q \<mapsto> \<lparr>prev = None, nxt = None\<rparr>)\<rparr>"
  have r2: "dom_rel ?s2 G" by (rule dom_rel_upd_spare(2) [of _ _ _ d]) (use 2 d in auto)
  have r3: "dom_rel ?s3 G"
    using dom_rel_upd_spare(1) [OF r2 2(3), of "d\<lparr>handle := h\<rparr>" "\<lparr>prev = None, nxt = None\<rparr>"
        "d\<lparr>handle := h\<rparr>"] by (simp del: dom_rel_mon)
  show ?thesis
  proof (cases "rc = 0")
    case False
    have "init_regions vmc nb i s = Some (False, ?s2)"
      using lt 2(1) d t False r2 by (subst init_regions.simps) (simp add: Let_def)
    moreover have "a_read vmc i (wld s) = (None, wld ?s2)" using 2(7) x False by (simp add: a_read_def)
    ultimately show ?thesis using failed r2 id1 by simp
  next
    case rc: True
    then obtain r0 where r0: "x = Some r0" "h = rcx r0" using x by auto
    have spec: "a_read vmc i (wld s) = (case ask vmc [0x201, h] (wld ?s3) of
         (None, w) \<Rightarrow> (None, w)
       | (Some r, w) \<Rightarrow>
           (if bit (r9 r) 3 then None
            else Some \<lparr>a_handle = h, a_start = rcx r, a_end = rdx r, a_owned = ucast (rsi r AND 1),
                       a_shared = ucast (rsi r AND 2), a_access = r9 r, a_status = ActiveCapa, a_revs = []\<rparr>, w))"
      using 2(7) x(1) unfolding r0 by (simp add: a_read_def)
    have c3: "capas ?s3 q = Some (d\<lparr>handle := h\<rparr>)" "capa_links ?s3 q = Some \<lparr>prev = None, nxt = None\<rparr>"
      by simp_all
    show ?thesis
    proof (cases rule: tyche_read_ask [OF c3, of vmc])
      case (1 m3)
      have r4: "dom_rel (?s3\<lparr>mon := m3\<rparr>) G" unfolding dom_rel_mon by (rule r3)
      have "init_regions vmc nb i s = Some (False, ?s3\<lparr>mon := m3\<rparr>)"
        using lt 2(1) d t rc r4 1(1)
        by (subst init_regions.simps) (simp add: Let_def dll_init_elem_def)
      moreover have "a_read vmc i (wld s) = (None, wld (?s3\<lparr>mon := m3\<rparr>))" using 1(2) unfolding spec by simp
      ultimately show ?thesis using failed r4 id1 by simp
    next
      case rd: (2 m4 r)
      let ?c = "filled r (d\<lparr>handle := h\<rparr>)"
      let ?s4 = "?s3\<lparr>mon := m4, capas := (capas ?s3)(q \<mapsto> ?c),
                     capa_links := (capa_links ?s3)(q \<mapsto> \<lparr>prev = None, nxt = None\<rparr>)\<rparr>"
      have "dom_rel (?s3\<lparr>mon := m4\<rparr>) G" unfolding dom_rel_mon by (rule r3)
      from dom_rel_upd_spare(1) [OF this 2(3), of "d\<lparr>handle := h\<rparr>" "\<lparr>prev = None, nxt = None\<rparr>" ?c]
      have r4: "dom_rel ?s4 G" by (simp del: dom_rel_mon)
      have acc: "access ?c = r9 r" by (simp add: filled_def)
      show ?thesis
      proof (cases "bit (r9 r) 3")
        case True
        then have "access ?c AND CAPA_REVOK \<noteq> 0" using revok_bit [of "r9 r"] unfolding acc by blast
        then have "init_regions vmc nb i s = Some (False, ?s4)"
          using lt 2(1) d t rc r4 rd(1)
          by (subst init_regions.simps) (simp add: Let_def dll_init_elem_def)
        moreover have "a_read vmc i (wld s) = (None, wld ?s4)" using rd(2) True unfolding spec by simp
        ultimately show ?thesis using failed r4 id1 by simp
      next
        case False
        let ?d = "?c\<lparr>status := ActiveCapa\<rparr>"
        let ?s5 = "?s4\<lparr>capas := (capas ?s4)(q \<mapsto> ?d)\<rparr>"
        let ?e = "\<lparr>cptr = q, ccap = ?d, crevs = [], cvals = []\<rparr>"
        have r5: "dom_rel ?s5 G" by (rule dom_rel_upd_spare(2) [OF r4 2(3), of ?c]) simp
        obtain s6 where s6: "capa_list_add q ?s5 = Some s6" "dom_rel s6 (G @ [?e])" "capas s6 = capas ?s5"
          by (rule capa_list_addE [OF r5 2(3), of ?d]) (auto simp: filled_def)
        have "access ?c AND CAPA_REVOK = 0" using False revok_bit [of "r9 r"] unfolding acc by blast
        then have "init_regions vmc nb i s = init_regions vmc nb (i + 1) s6"
          using lt 2(1) d t rc r5 rd(1) s6(1)
          by (subst init_regions.simps) (simp add: Let_def dll_init_elem_def set_status_def)
        moreover have "a_read vmc i (wld s) = (Some (abs_cell ?e), wld s6)"
          using rd(2) False wld_lists(1) [OF s6(1)] unfolding spec by (simp add: abs_cell_def filled_def)
        ultimately show ?thesis using more s6(2) own_id_lists(2) [OF s6(1)] id1 by simp
      qed
    qed
  qed
qed

text \<open>The whole loop.\<close>

lemma init_regions_ok:
  assumes "dom_rel s G" and "unat i \<le> unat nb" and "k = unat nb - unat i"
  shows "\<exists>ok s' G'. init_regions vmc nb i s = Some (ok, s') \<and> dom_rel s' (G @ G') \<and> own_id s' = own_id s \<and>
           a_read_all vmc (map of_nat [unat i..<unat nb]) (wld s) = (if ok then Some (absd G') else None, wld s')"
  using assms
proof (induction k arbitrary: s G i)
  case 0
  then have "\<not> i < nb" "unat nb = unat i" by (auto simp: word_less_nat_alt)
  then have "init_regions vmc nb i s = Some (True, s) \<and> dom_rel s (G @ []) \<and> own_id s = own_id s \<and>
      a_read_all vmc (map of_nat [unat i..<unat nb]) (wld s) = (if True then Some (absd []) else None, wld s)"
    using 0(1) by (subst init_regions.simps) simp
  then show ?case by blast
next
  case (Suc k)
  then have lt: "i < nb" by (simp add: word_less_nat_alt)
  have n: "unat (i + 1) = Suc (unat i)" by (rule unat_Suc_less [OF lt])
  have upt: "map of_nat [unat i..<unat nb] = i # map of_nat [unat (i + 1)..<unat nb]"
    using lt n by (simp add: word_less_nat_alt upt_conv_Cons)
  show ?case
  proof (cases rule: init_region_step [OF Suc.prems(1) lt, of vmc])
    case (1 s')
    then have "init_regions vmc nb i s = Some (False, s') \<and> dom_rel s' (G @ []) \<and> own_id s' = own_id s \<and>
        a_read_all vmc (map of_nat [unat i..<unat nb]) (wld s) = (if False then Some (absd []) else None, wld s')"
      unfolding upt by simp
    then show ?thesis by blast
  next
    case (2 s1 e)
    have "unat (i + 1) \<le> unat nb" "k = unat nb - unat (i + 1)" using n Suc.prems(2,3) lt by (auto simp: word_less_nat_alt)
    then obtain ok s' G' where ih: "init_regions vmc nb (i + 1) s1 = Some (ok, s')" "dom_rel s' ((G @ [e]) @ G')"
      "own_id s' = own_id s1"
      "a_read_all vmc (map of_nat [unat (i + 1)..<unat nb]) (wld s1) = (if ok then Some (absd G') else None, wld s')"
      using Suc.IH [OF 2(2)] by blast
    then have "init_regions vmc nb i s = Some (ok, s') \<and> dom_rel s' (G @ e # G') \<and> own_id s' = own_id s \<and>
        a_read_all vmc (map of_nat [unat i..<unat nb]) (wld s) = (if ok then Some (absd (e # G')) else None, wld s')"
      using 2 unfolding upt by simp
    then show ?thesis by blast
  qed
qed

lemma drain_ok: "dom_rel s G \<Longrightarrow> \<exists>s'. drain_capabilities s = Some s' \<and> dom_rel s' [] \<and> own_id s' = own_id s \<and> wld s' = wld s"
proof (induction G arbitrary: s)
  case Nil
  then have "dll_is_empty (capabilities (local_domain s))"
    using dom_relD(3) [OF Nil] by (simp add: dll_is_empty_iff)
  then show ?case using Nil by (subst drain_capabilities.simps) simp
next
  case (Cons e G)
  obtain s1 where s1: "capa_list_remove (cptr e) s = Some s1" "dom_rel s1 G" "capas s1 = capas s"
    "spare G (cptr e)"
    using capa_list_removeE [of s "[]" e G] Cons.prems by auto
  have "capas s1 (cptr e) = Some (ccap e)" using dom_rel_cell [OF Cons.prems, of e] s1(3) by simp
  then obtain s2 where s2: "dealloc_capa (cptr e) s1 = Some s2" "dom_rel s2 G"
    by (rule dealloc_capaE [OF s1(2,4)])
  have "\<not> dll_is_empty (capabilities (local_domain s))" "head (capabilities (local_domain s)) = Some (cptr e)"
    using dom_relD(3) [OF Cons.prems] by (auto simp: dll_is_empty_def dll_def)
  then have "drain_capabilities s = drain_capabilities s2"
    using s1(1) s2(1) by (subst drain_capabilities.simps) simp
  then show ?case
    using Cons.IH [OF s2(2)] own_id_lists(3) [OF s1(1)] own_id_lists(4) [OF s2(1)] wld_lists(2) [OF s1(1)] wld_lists(3) [OF s2(1)]
    by simp
qed

text \<open>The whole call, with all three functions given.\<close>

lemma init_domain_refines:
  assumes "heap_ok s" and nn: "a \<noteq> None" "d \<noteq> None" "p \<noteq> None" and spec: "a_init vmc (wld s) = (j, B, w)"
  shows "\<exists>s' G. init_domain vmc a d p s = Some (if B = None then FAIL else OK, s') \<and> dom_rel s' G \<and>
           absd G = (case B of None \<Rightarrow> [] | Some B \<Rightarrow> B) \<and> wld s' = w \<and>
           own_id s' = (case j of None \<Rightarrow> own_id s | Some i \<Rightarrow> i)"
proof -
  let ?ld = "(local_domain s)\<lparr>alloc := a, dealloc := d, print := p, capabilities := dll_init_list\<rparr>"
  let ?s0 = "s\<lparr>local_domain := ?ld\<rparr>"
  obtain rc i m x where t: "tyche_get_domain_id vmc (Some (dom_id ?ld)) ?s0 = (rc, Some i, ?s0\<lparr>mon := m\<rparr>)"
    and x: "ask vmc [0x100] (wld ?s0) = (x, (wld ?s0)\<lparr>mon := m\<rparr>)" "rc = 0 \<longleftrightarrow> x \<noteq> None"
      "i = (case x of None \<Rightarrow> dom_id ?ld | Some r \<Rightarrow> rcx r)"
    by (rule tyche_get_domain_id_ask)
  let ?s1 = "(?s0\<lparr>mon := m\<rparr>)\<lparr>local_domain := ?ld\<lparr>dom_id := i\<rparr>\<rparr>"
  obtain rc' n m' y where u: "ecs_read_size vmc (Some 0) ?s1 = (rc', Some n, ?s1\<lparr>mon := m'\<rparr>)"
    and y: "ask vmc [0x400] (wld ?s1) = (y, (wld ?s1)\<lparr>mon := m'\<rparr>)" "rc' = 0 \<longleftrightarrow> y \<noteq> None" "\<forall>r. y = Some r \<longrightarrow> n = rcx r"
    by (rule ecs_read_size_ask)
  let ?s2 = "?s1\<lparr>mon := m'\<rparr>"
  have r2: "dom_rel ?s2 []" and r1: "dom_rel ?s1 []"
    using assms(1) nn by (auto simp: dom_rel_def heap_ok_def fns_ok_def dll_def dll_init_list_def)
  have nn': "\<not> (a = None \<or> d = None \<or> p = None)" using nn by simp
  have body: "init_domain vmc a d p s =
     (if rc \<noteq> 0 then do { _ \<leftarrow> dbg_print ''unable to get the domain id.'' ?s1;
                          _ \<leftarrow> dbg_print ''failure to init domain.'' ?s1; Some (FAIL, ?s1) }
      else if rc' \<noteq> 0 then do { _ \<leftarrow> dbg_print ''failure to init domain.'' ?s2; Some (FAIL, ?s2) }
      else do { (ok, s) \<leftarrow> init_regions vmc n 0 ?s2;
                if ok then Some (OK, s)
                else do { s \<leftarrow> drain_capabilities s; _ \<leftarrow> dbg_print ''failure to init domain.'' s; Some (FAIL, s) } })"
    unfolding init_domain_def if_not_P [OF nn'] using t u by (simp add: Let_def)
  show ?thesis
  proof (cases x)
    case None
    then have "j = None" "B = None" "w = wld ?s1" using spec x(1) by (simp_all add: a_init_def)
    moreover have "init_domain vmc a d p s = Some (FAIL, ?s1)" using body None x(2) dbg_print_ok [OF r1] by simp
    ultimately show ?thesis using r1 x(3) None by (intro exI [of _ ?s1] exI [of _ "[]"]) simp
  next
    case (Some r0)
    have rc: "rc = 0" and i: "i = rcx r0" using Some x by simp_all
    show ?thesis
    proof (cases y)
      case None
      then have "j = Some i" "B = None" "w = wld ?s2" using spec x(1) y(1) Some i by (simp_all add: a_init_def)
      moreover have "init_domain vmc a d p s = Some (FAIL, ?s2)" using body rc None y(2) dbg_print_ok [OF r2] by simp
      ultimately show ?thesis using r2 by (intro exI [of _ ?s2] exI [of _ "[]"]) simp
    next
      case y1: (Some r1)
      have rc': "rc' = 0" and n: "n = rcx r1" using y1 y by simp_all
      obtain ok s' G' where ir: "init_regions vmc n 0 ?s2 = Some (ok, s')" "dom_rel s' ([] @ G')" "own_id s' = own_id ?s2"
        "a_read_all vmc (map of_nat [unat (0 :: u64)..<unat n]) (wld ?s2) = (if ok then Some (absd G') else None, wld s')"
        using init_regions_ok [OF r2, of 0 n "unat n - unat (0 :: u64)" vmc] by auto
      have sp: "j = Some i" "B = (if ok then Some (absd G') else None)" "w = wld s'"
        using spec x(1) y(1) Some i y1 n ir(4) by (simp_all add: a_init_def)
      show ?thesis
      proof (cases ok)
        case True
        then have "init_domain vmc a d p s = Some (OK, s')" using body rc rc' ir(1) by simp
        then show ?thesis using sp True ir(2,3) by (intro exI [of _ s'] exI [of _ G']) simp
      next
        case False
        obtain s2 where s2: "drain_capabilities s' = Some s2" "dom_rel s2 []" "own_id s2 = own_id s'" "wld s2 = wld s'"
          using drain_ok [OF ir(2)] by blast
        then have "init_domain vmc a d p s = Some (FAIL, s2)" using body rc rc' ir(1) False by simp
        then show ?thesis using sp False ir(3) s2 by (intro exI [of _ s2] exI [of _ "[]"]) simp
      qed
    qed
  qed
qed

lemma init_domain_null:
  "a = None \<or> d = None \<or> p = None \<Longrightarrow> init_domain vmc a d p s = Some (FAIL, s)"
  by (simp add: init_domain_def)

end
