(* ===== verification/Capability_Revoke.thy ===== *)
theory Capability_Revoke
  imports Capability_Refinement
begin

text \<open>
  Revocation: \<open>revoke_capa\<close> and the merge code behind its label \<open>attempt_merge\<close> compute \<open>a_revoke\<close> on a well-formed
  domain.  The one way not to return is the dereference of a NULL \<open>prev\<close> in the merge on the right; it is the
  \<open>None\<close> of the specification.
\<close>

section \<open>revoke_capa\<close>

lemma dom_rel_links:
  assumes "dom_rel s (L @ e # R)"
  shows "capa_links s (cptr e) = Some \<lparr>prev = (if L = [] then None else Some (cptr (last L))),
           nxt = (case R of [] \<Rightarrow> None | n # _ \<Rightarrow> Some (cptr n))\<rparr>"
  using dll_links [of "capa_links s" "capabilities (local_domain s)" "map cptr L" "cptr e" "map cptr R"]
    dom_relD(3) [OF assms]
  by (auto simp: last_map split: list.splits)

lemma dom_rel_revoks_empty:
  "dom_rel s G \<Longrightarrow> e \<in> set G \<Longrightarrow> dll_is_empty (revoks (ccap e)) \<longleftrightarrow> cvals e = []"
  using dom_relD(4) [of s G e]
  by (auto simp: cell_ok_def dll_is_empty_iff dest: map_eq_imp_length_eq)

text \<open>Absorbing the right one of two neighbours: extend the left one, unlink and free the right one.\<close>

lemma absorbE:
  assumes rel: "dom_rel s (L @ d # e # R)" and st: "status (ccap d) = ActiveCapa"
      "status (ccap e) = ActiveCapa" "c_end (ccap d) = c_start (ccap e)"
      "access (ccap d) = access (ccap e)"
  obtains s1 s2 where
      "capa_list_remove (cptr e) (s\<lparr>capas := (capas s)(cptr d \<mapsto> (ccap d)\<lparr>c_end := c_end (ccap e)\<rparr>)\<rparr>) = Some s1"
      "dealloc_capa (cptr e) s1 = Some s2" "wld s2 = wld s"
      "dom_rel s2 (L @ d\<lparr>ccap := (ccap d)\<lparr>c_end := c_end (ccap e)\<rparr>\<rparr> # R)"
      "dom_step (absd (L @ d # e # R)) (absd (L @ d\<lparr>ccap := (ccap d)\<lparr>c_end := c_end (ccap e)\<rparr>\<rparr> # R))"
proof -
  let ?d = "d\<lparr>ccap := (ccap d)\<lparr>c_end := c_end (ccap e)\<rparr>\<rparr>"
  let ?s = "s\<lparr>capas := (capas s)(cptr d \<mapsto> (ccap d)\<lparr>c_end := c_end (ccap e)\<rparr>)\<rparr>"
  have r1: "dom_rel ?s ((L @ [?d]) @ e # R)"
    using dom_rel_upd_cell [OF rel, of "(ccap d)\<lparr>c_end := c_end (ccap e)\<rparr>"] by simp
  obtain s1 where s1: "capa_list_remove (cptr e) ?s = Some s1" "dom_rel s1 ((L @ [?d]) @ R)"
    "capas s1 = capas ?s" "spare ((L @ [?d]) @ R) (cptr e)"
    by (rule capa_list_removeE [OF r1])
  have "capas s1 (cptr e) = Some (ccap e)" using dom_rel_cell [OF r1, of e] s1(3) by simp
  then obtain s2 where "dealloc_capa (cptr e) s1 = Some s2" "dom_rel s2 (L @ ?d # R)"
    using dealloc_capaE [OF s1(2,4)] by auto
  moreover have "dom_step (absd (L @ d # e # R)) (absd (L @ ?d # R))"
    using dom_step.merge [of "abs_cell d" "abs_cell e" "absd L" "absd R"] st
    by (simp add: abs_cell_def)
  moreover have "wld s2 = wld s" using wld_lists(2) [OF s1(1)] wld_lists(3) [OF calculation(1)] by simp
  ultimately show ?thesis using that s1(1) by blast
qed

text \<open>The capability before the place of the one at hand.\<close>

abbreviation left_of :: "cell list \<Rightarrow> acapa option" where
  "left_of L \<equiv> (if L = [] then None else Some (abs_cell (last L)))"

lemma a_merge_kept:
  "\<not> (L \<noteq> [] \<and> a_mergeable (abs_cell (last L)) (abs_cell e) (abs_cell (last L)) \<and> cvals (last L) = []) \<Longrightarrow>
     a_merge vmc (absd L) (abs_cell e) (absd R) w = a_merge_right vmc (left_of L) (absd L) (abs_cell e) (absd R) w"
  by (auto simp: a_merge_def last_map abs_cell_def)

lemma merge_leftE:
  assumes rel: "dom_rel s (L @ e # R)" and act: "status (ccap e) = ActiveCapa"
  obtains (refused) m where "merge_left vmc (prev (the (capa_links s (cptr e)))) (cptr e) s
        = Some (None, s\<lparr>mon := m\<rparr>)"
      "a_merge vmc (absd L) (abs_cell e) (absd R) (wld s) = Some (absd (L @ e # R), (wld s)\<lparr>mon := m\<rparr>)"
  | (kept) "merge_left vmc (prev (the (capa_links s (cptr e)))) (cptr e) s = Some (Some (cptr e), s)"
      "a_merge vmc (absd L) (abs_cell e) (absd R) (wld s) = a_merge_right vmc (left_of L) (absd L) (abs_cell e) (absd R) (wld s)"
  | (merged) L' d d' s' where "L = L' @ [d]"
      "merge_left vmc (prev (the (capa_links s (cptr e)))) (cptr e) s = Some (Some (cptr d), s')"
      "dom_rel s' (L' @ d' # R)" "cptr d' = cptr d" "status (ccap d') = ActiveCapa"
      "cvals d' = cvals d" "dom_step (absd (L @ e # R)) (absd (L' @ d' # R))"
      "a_merge vmc (absd L) (abs_cell e) (absd R) (wld s) = a_merge_right vmc (left_of L) (absd L') (abs_cell d') (absd R) (wld s')"
proof -
  have ce: "capas s (cptr e) = Some (ccap e)" using dom_rel_cell [OF rel] by simp
  show ?thesis
  proof (cases L rule: rev_cases)
    case Nil
    then show ?thesis using kept ce dom_rel_links [OF rel] a_merge_kept [of L e vmc R "wld s"] by (simp add: merge_left_def)
  next
    case (snoc L' d)
    have rel': "dom_rel s (L' @ d # e # R)" using rel snoc by simp
    have cd: "capas s (cptr d) = Some (ccap d)" using dom_rel_cell [OF rel'] by simp
    have pv: "prev (the (capa_links s (cptr e))) = Some (cptr d)"
      using dom_rel_links [OF rel] snoc by simp
    let ?cond = "c_end (ccap d) = c_start (ccap e) \<and> is_owned (ccap d) \<noteq> 0 \<and>
        status (ccap d) = ActiveCapa \<and> access (ccap d) = access (ccap e) \<and> dll_is_empty (revoks (ccap d))"
    have mergeable: "?cond \<longleftrightarrow> a_mergeable (abs_cell d) (abs_cell e) (abs_cell d) \<and> cvals d = []"
      using dom_rel_revoks_empty [OF rel', of d] by (auto simp: a_mergeable_def abs_cell_def)
    show ?thesis
    proof (cases ?cond)
      case False
      then have "merge_left vmc (prev (the (capa_links s (cptr e)))) (cptr e) s = Some (Some (cptr e), s)"
        using ce cd pv by (auto simp: merge_left_def)
      moreover have "a_merge vmc (absd L) (abs_cell e) (absd R) (wld s)
          = a_merge_right vmc (left_of L) (absd L) (abs_cell e) (absd R) (wld s)"
        by (rule a_merge_kept) (use False mergeable snoc in auto)
      ultimately show ?thesis by (rule kept)
    next
      case True
      obtain rc m x where t: "tyche_merge_capa vmc (handle (ccap d)) (handle (ccap e)) s = (rc, s\<lparr>mon := m\<rparr>)"
        and x: "ask vmc [0x202, handle (ccap d), handle (ccap e), 0, 0] (wld s) = (x, (wld s)\<lparr>mon := m\<rparr>)" "rc = 0 \<longleftrightarrow> x \<noteq> None"
        by (rule tyche_merge_ask)
      have "a_handle (abs_cell d) = handle (ccap d)" "a_handle (abs_cell e) = handle (ccap e)" "a_revs (abs_cell d) = cvals d"
        by (simp_all add: abs_cell_def)
      then have spec: "a_merge vmc (absd L) (abs_cell e) (absd R) (wld s) =
          (if rc \<noteq> 0 then Some (absd (L @ e # R), (wld s)\<lparr>mon := m\<rparr>)
           else a_merge_right vmc (left_of L) (absd L') ((abs_cell d)\<lparr>a_end := a_end (abs_cell e)\<rparr>) (absd R) ((wld s)\<lparr>mon := m\<rparr>))"
        using True mergeable snoc x by (auto simp: a_merge_def split: option.split)
      let ?s = "(s\<lparr>mon := m\<rparr>)\<lparr>capas := (capas (s\<lparr>mon := m\<rparr>))(cptr d \<mapsto> (ccap d)\<lparr>c_end := c_end (ccap e)\<rparr>)\<rparr>"
      have body: "merge_left vmc (prev (the (capa_links s (cptr e)))) (cptr e) s =
          (if rc \<noteq> 0 then Some (None, s\<lparr>mon := m\<rparr>)
           else do { s \<leftarrow> capa_list_remove (cptr e) ?s; s \<leftarrow> dealloc_capa (cptr e) s; Some (Some (cptr d), s) })"
        using ce cd pv True t by (simp add: merge_left_def)
      show ?thesis
      proof (cases "rc = 0")
        case False
        then show ?thesis using body spec refused by simp
      next
        case True
        have "dom_rel (s\<lparr>mon := m\<rparr>) (L' @ d # e # R)" using rel' by simp
        then obtain s1 s2 where s12: "capa_list_remove (cptr e) ?s = Some s1" "dealloc_capa (cptr e) s1 = Some s2"
          "wld s2 = wld (s\<lparr>mon := m\<rparr>)" "dom_rel s2 (L' @ d\<lparr>ccap := (ccap d)\<lparr>c_end := c_end (ccap e)\<rparr>\<rparr> # R)"
          "dom_step (absd (L' @ d # e # R)) (absd (L' @ d\<lparr>ccap := (ccap d)\<lparr>c_end := c_end (ccap e)\<rparr>\<rparr> # R))"
          by (rule absorbE) (use \<open>?cond\<close> act in auto)
        show ?thesis
          by (rule merged [OF snoc _ s12(4)])
             (use body True s12 snoc \<open>?cond\<close> spec in \<open>auto simp: abs_cell_def\<close>)
      qed
    qed
  qed
qed

text \<open>The merge on the right finds a candidate.\<close>

definition right_candidate :: "cell \<Rightarrow> cell list \<Rightarrow> bool" where
  "right_candidate f R \<longleftrightarrow> (case R of [] \<Rightarrow> False
     | n # _ \<Rightarrow> c_end (ccap f) = c_start (ccap n) \<and> is_owned (ccap n) \<noteq> 0 \<and>
               status (ccap n) = ActiveCapa \<and> access (ccap n) = access (ccap f))"

text \<open>Without a left neighbour, a candidate on the right is a NULL dereference.\<close>

lemma merge_right_null:
  assumes "dom_rel s (f # R)" and "right_candidate f R"
  shows "merge_right vmc None (nxt (the (capa_links s (cptr f)))) (cptr f) s = None"
proof -
  obtain n R' where R: "R = n # R'" using assms(2) by (cases R) (auto simp: right_candidate_def)
  have "capas s (cptr f) = Some (ccap f)" "capas s (cptr n) = Some (ccap n)"
    using dom_rel_cell [OF assms(1)] R by auto
  then show ?thesis using assms(2) R dom_rel_links [of s "[]" f R] assms(1)
    by (simp add: merge_right_def right_candidate_def)
qed

lemma right_candidate_merge:
  "right_candidate f R \<longleftrightarrow> R \<noteq> [] \<and> a_mergeable (abs_cell f) (abs_cell (hd R)) (abs_cell (hd R))"
  by (auto simp: right_candidate_def a_mergeable_def abs_cell_def split: list.split)

text \<open>The capability whose handles are looked at is the \<open>prev\<close> of the code.\<close>

definition prev_is :: "ptr option \<Rightarrow> acapa option \<Rightarrow> cell list \<Rightarrow> bool" where
  "prev_is prv left G \<longleftrightarrow> (case prv of None \<Rightarrow> left = None
     | Some q \<Rightarrow> \<exists>g \<in> set G. \<exists>a. q = cptr g \<and> left = Some a \<and> a_revs a = cvals g)"

lemma merge_rightE:
  assumes rel: "dom_rel s (L @ f # R)" and act: "status (ccap f) = ActiveCapa"
    and p: "prv = None \<Longrightarrow> \<not> right_candidate f R" and q: "prev_is prv left (L @ f # R)"
    and nx: "nx = (case R of [] \<Rightarrow> None | n # _ \<Rightarrow> Some (cptr n))"
  obtains s' G' where "merge_right vmc prv nx (cptr f) s = Some s'" "dom_rel s' G'"
    "dom_step\<^sup>*\<^sup>* (absd (L @ f # R)) (absd G')"
    "a_merge_right vmc left (absd L) (abs_cell f) (absd R) (wld s) = Some (absd G', wld s')"
proof (cases "right_candidate f R")
  have cf: "capas s (cptr f) = Some (ccap f)" using dom_rel_cell [OF rel] by simp
  case False
  have "merge_right vmc prv nx (cptr f) s = Some s"
  proof (cases R)
    case (Cons n R')
    then have "capas s (cptr n) = Some (ccap n)" using dom_rel_cell [OF rel] by simp
    then show ?thesis using False Cons cf nx by (auto simp: merge_right_def right_candidate_def)
  qed (simp add: merge_right_def cf nx)
  moreover have "a_merge_right vmc left (absd L) (abs_cell f) (absd R) (wld s) = Some (absd (L @ f # R), wld s)"
    using False by (cases R) (auto simp: a_merge_right_def right_candidate_merge)
  ultimately show ?thesis using that rel by blast
next
  have cf: "capas s (cptr f) = Some (ccap f)" using dom_rel_cell [OF rel] by simp
  case cand: True
  then obtain n R' where R: "R = n # R'" by (cases R) (auto simp: right_candidate_def)
  from cand p q obtain g a where g: "g \<in> set (L @ f # R)" "prv = Some (cptr g)" "left = Some a" "a_revs a = cvals g"
    by (cases prv) (auto simp: prev_is_def)
  have cg: "capas s (cptr g) = Some (ccap g)" and cn: "capas s (cptr n) = Some (ccap n)"
    using dom_rel_cell [OF rel] g(1) R by auto
  have ge: "dll_is_empty (revoks (ccap g)) \<longleftrightarrow> cvals g = []" by (rule dom_rel_revoks_empty [OF rel g(1)])
  obtain rc m x where t: "tyche_merge_capa vmc (handle (ccap f)) (handle (ccap n)) s = (rc, s\<lparr>mon := m\<rparr>)"
    and x: "ask vmc [0x202, handle (ccap f), handle (ccap n), 0, 0] (wld s) = (x, (wld s)\<lparr>mon := m\<rparr>)" "rc = 0 \<longleftrightarrow> x \<noteq> None"
    by (rule tyche_merge_ask)
  let ?s = "(s\<lparr>mon := m\<rparr>)\<lparr>capas := (capas (s\<lparr>mon := m\<rparr>))(cptr f \<mapsto> (ccap f)\<lparr>c_end := c_end (ccap n)\<rparr>)\<rparr>"
  have body: "merge_right vmc prv nx (cptr f) s =
      (if cvals g = [] then
         if rc \<noteq> 0 then Some (s\<lparr>mon := m\<rparr>)
         else do { s \<leftarrow> capa_list_remove (cptr n) ?s; dealloc_capa (cptr n) s }
       else Some s)"
    using cand R cf cg cn g(2) t nx rel ge by (simp add: merge_right_def right_candidate_def)
  have "a_handle (abs_cell f) = handle (ccap f)" "a_handle (abs_cell n) = handle (ccap n)" by (simp_all add: abs_cell_def)
  then have spec: "a_merge_right vmc left (absd L) (abs_cell f) (absd R) (wld s) =
      (if cvals g = [] then
         if rc \<noteq> 0 then Some (absd (L @ f # R), (wld s)\<lparr>mon := m\<rparr>)
         else Some (absd L @ (abs_cell f)\<lparr>a_end := a_end (abs_cell n)\<rparr> # absd R', (wld s)\<lparr>mon := m\<rparr>)
       else Some (absd (L @ f # R), wld s))"
    using cand R g(3,4) x by (auto simp: a_merge_right_def right_candidate_merge split: option.split)
  have "dom_rel (s\<lparr>mon := m\<rparr>) (L @ f # n # R')" using rel R by simp
  then obtain s1 s2 where s12: "capa_list_remove (cptr n) ?s = Some s1" "dealloc_capa (cptr n) s1 = Some s2"
    "wld s2 = wld (s\<lparr>mon := m\<rparr>)"
    "dom_rel s2 (L @ f\<lparr>ccap := (ccap f)\<lparr>c_end := c_end (ccap n)\<rparr>\<rparr> # R')"
    "dom_step (absd (L @ f # n # R')) (absd (L @ f\<lparr>ccap := (ccap f)\<lparr>c_end := c_end (ccap n)\<rparr>\<rparr> # R'))"
    by (rule absorbE) (use cand R act in \<open>auto simp: right_candidate_def\<close>)
  consider (a) "cvals g \<noteq> []" | (b) "cvals g = []" "rc \<noteq> 0" | (c) "cvals g = []" "rc = 0" by blast
  then show ?thesis
  proof cases
    case a
    then show ?thesis using body spec that [of s "L @ f # R"] rel by simp
  next
    case b
    then show ?thesis using body spec that [of "s\<lparr>mon := m\<rparr>" "L @ f # R"] rel by simp
  next
    case c
    have "absd (L @ f\<lparr>ccap := (ccap f)\<lparr>c_end := c_end (ccap n)\<rparr>\<rparr> # R') =
        absd L @ (abs_cell f)\<lparr>a_end := a_end (abs_cell n)\<rparr> # absd R'" by (simp add: abs_cell_def)
    then show ?thesis using c body spec that [OF _ s12(4)] s12 R by (simp add: r_into_rtranclp)
  qed
qed

lemma attempt_mergeE:
  assumes rel: "dom_rel s (L @ e # R)" and act: "status (ccap e) = ActiveCapa"
  obtains (null) "L = []" "right_candidate e R" "attempt_merge vmc (cptr e) s = None"
      "a_merge vmc (absd L) (abs_cell e) (absd R) (wld s) = None"
  | (merged) s' G' where "attempt_merge vmc (cptr e) s = Some (OK, s')" "dom_rel s' G'"
      "dom_step\<^sup>*\<^sup>* (absd (L @ e # R)) (absd G')" "L \<noteq> [] \<or> \<not> right_candidate e R"
      "a_merge vmc (absd L) (abs_cell e) (absd R) (wld s) = Some (absd G', wld s')"
proof -
  have ce: "capas s (cptr e) = Some (ccap e)" using dom_rel_cell [OF rel] by simp
  define pv where "pv = (if L = [] then None else Some (cptr (last L)))"
  define nx where "nx = (case R of [] \<Rightarrow> None | n # _ \<Rightarrow> Some (cptr n))"
  have lk: "capa_links s (cptr e) = Some \<lparr>prev = pv, nxt = nx\<rparr>"
    unfolding pv_def nx_def by (rule dom_rel_links [OF rel])
  have body: "attempt_merge vmc (cptr e) s = do {
      (r, s) \<leftarrow> merge_left vmc pv (cptr e) s;
      case r of None \<Rightarrow> do { _ \<leftarrow> dbg_print ''merge attempt failed'' s; Some (OK, s) }
      | Some cur \<Rightarrow> do { s \<leftarrow> merge_right vmc pv nx cur s; Some (OK, s) } }"
    using ce act lk by (simp add: attempt_merge_def cong: option.case_cong)
  show ?thesis
  proof (cases "L = [] \<and> right_candidate e R")
    case True
    then have "merge_left vmc pv (cptr e) s = Some (Some (cptr e), s)"
      using ce by (simp add: pv_def merge_left_def)
    moreover have "merge_right vmc pv nx (cptr e) s = None"
      using merge_right_null [of s e R vmc] rel True lk by (simp add: pv_def)
    moreover have "a_merge vmc (absd L) (abs_cell e) (absd R) (wld s) = None"
      using True by (cases R) (simp_all add: a_merge_def a_merge_right_def right_candidate_merge)
    ultimately show ?thesis using null True body by simp
  next
    case ok: False
    then have ok': "L \<noteq> [] \<or> \<not> right_candidate e R" by blast
    have pv': "prev (the (capa_links s (cptr e))) = pv" using lk by simp
    show ?thesis
    proof (cases rule: merge_leftE [OF rel act, of vmc, unfolded pv'])
      case (1 m)
      have "dom_rel (s\<lparr>mon := m\<rparr>) (L @ e # R)" using rel by simp
      then show ?thesis using body 1 merged [of "s\<lparr>mon := m\<rparr>" "L @ e # R"] ok' by simp
    next
      case 2
      obtain s' G' where mr: "merge_right vmc pv nx (cptr e) s = Some s'" "dom_rel s' G'"
        "dom_step\<^sup>*\<^sup>* (absd (L @ e # R)) (absd G')"
        "a_merge_right vmc (left_of L) (absd L) (abs_cell e) (absd R) (wld s) = Some (absd G', wld s')"
        by (rule merge_rightE [OF rel act, of pv "left_of L" nx vmc])
           (use ok in \<open>auto simp: pv_def nx_def prev_is_def abs_cell_def split: if_splits\<close>)
      then show ?thesis using body 2 merged [OF _ mr(2,3) ok'] by simp
    next
      case (3 L' d d' s1)
      obtain s' G' where mr: "merge_right vmc pv nx (cptr d') s1 = Some s'" "dom_rel s' G'"
        "dom_step\<^sup>*\<^sup>* (absd (L' @ d' # R)) (absd G')"
        "a_merge_right vmc (left_of L) (absd L') (abs_cell d') (absd R) (wld s1) = Some (absd G', wld s')"
        by (rule merge_rightE [OF 3(3,5), of pv "left_of L" nx vmc])
           (use 3(1,4,6) in \<open>auto simp: pv_def nx_def prev_is_def abs_cell_def split: if_splits\<close>)
      have "dom_step\<^sup>*\<^sup>* (absd (L @ e # R)) (absd G')"
        using 3(7) mr(3) by (rule converse_rtranclp_into_rtranclp)
      then show ?thesis using body 3(2,4,8) mr(1,4) merged [OF _ mr(2) _ ok'] by simp
    qed
  qed
qed

text \<open>The first capability covers the region, and the second one could be merged into it.\<close>

definition head_merge :: "paddr_t \<Rightarrow> paddr_t \<Rightarrow> acapa list \<Rightarrow> bool" where
  "head_merge start stop A \<longleftrightarrow> (case A of
     a # n # _ \<Rightarrow> a_start a = start \<and> a_end a = stop \<and> a_end a = a_start n \<and> a_owned n \<noteq> 0 \<and>
                  a_status n = ActiveCapa \<and> a_access n = a_access a
   | _ \<Rightarrow> False)"

lemma right_candidate_abs:
  "right_candidate e R \<Longrightarrow> head_merge (c_start (ccap e)) (c_end (ccap e)) (absd (e # R))"
  by (auto simp: right_candidate_def head_merge_def abs_cell_def split: list.splits)

text \<open>The tail both branches share: one handle is out, the capability becomes active, and merges.\<close>

lemma unlink_handleE:
  assumes rel: "dom_rel s (L @ e # R)" and e: "crevs e = rs @ r # rs'" "cvals e = vs @ v # ws"
    "length rs = length vs"
  obtains s1 s2 l where "revoks_remove (cptr e) r s = Some s1" "dealloc_revok r s1 = Some s2"
    "dom_rel s2 (L @ e\<lparr>ccap := (ccap e)\<lparr>revoks := l\<rparr>, crevs := rs @ rs', cvals := vs @ ws\<rparr> # R)"
    "capas s2 (cptr e) = Some ((ccap e)\<lparr>revoks := l\<rparr>)"
    "dll_is_empty l \<longleftrightarrow> vs @ ws = []"
proof -
  obtain s1 l where s1: "revoks_remove (cptr e) r s = Some s1"
    "dom_rel s1 (L @ e\<lparr>ccap := (ccap e)\<lparr>revoks := l\<rparr>, crevs := rs @ rs', cvals := vs @ ws\<rparr> # R)"
    "rspare (L @ e\<lparr>ccap := (ccap e)\<lparr>revoks := l\<rparr>, crevs := rs @ rs', cvals := vs @ ws\<rparr> # R) r"
    "revs s1 = revs s"
    by (rule revoks_removeE [OF rel e])
  let ?e = "e\<lparr>ccap := (ccap e)\<lparr>revoks := l\<rparr>, crevs := rs @ rs', cvals := vs @ ws\<rparr>"
  have "cell_ok s e" using dom_relD(4) [OF rel] by simp
  then obtain w where w: "revs s r = Some w" using cell_ok_vals [of s e r] e(1) by auto
  obtain s2 where s2: "dealloc_revok r s1 = Some s2" "dom_rel s2 (L @ ?e # R)"
    using dealloc_revokE [OF s1(2,3), of w] w s1(4) by auto
  show ?thesis
    using that [OF s1(1) s2] dom_rel_cell [OF s2(2), of ?e] dom_rel_revoks_empty [OF s2(2), of ?e]
    by simp
qed

lemma activate_mergeE:
  assumes rel: "dom_rel s (L @ e # R)"
  obtains (null) "L = []" "head_merge (c_start (ccap e)) (c_end (ccap e)) (absd (L @ e # R))"
      "do { s \<leftarrow> set_status (cptr e) ActiveCapa s; attempt_merge vmc (cptr e) s } = None"
      "a_merge vmc (absd L) ((abs_cell e)\<lparr>a_status := ActiveCapa\<rparr>) (absd R) (wld s) = None"
  | (merged) s' G' where "do { s \<leftarrow> set_status (cptr e) ActiveCapa s; attempt_merge vmc (cptr e) s } = Some (OK, s')"
      "dom_rel s' G'"
      "dom_step\<^sup>*\<^sup>* (absd (L @ e\<lparr>ccap := (ccap e)\<lparr>status := ActiveCapa\<rparr>\<rparr> # R)) (absd G')"
      "a_merge vmc (absd L) ((abs_cell e)\<lparr>a_status := ActiveCapa\<rparr>) (absd R) (wld s) = Some (absd G', wld s')"
proof -
  let ?e = "e\<lparr>ccap := (ccap e)\<lparr>status := ActiveCapa\<rparr>\<rparr>"
  let ?s = "s\<lparr>capas := (capas s)(cptr e \<mapsto> (ccap e)\<lparr>status := ActiveCapa\<rparr>)\<rparr>"
  have r: "dom_rel ?s (L @ ?e # R)" by (rule dom_rel_upd_cell [OF rel]) simp
  have st: "set_status (cptr e) ActiveCapa s = Some ?s"
    using dom_rel_cell [OF rel, of e] by (simp add: set_status_def)
  have act: "status (ccap ?e) = ActiveCapa" and abs: "abs_cell ?e = (abs_cell e)\<lparr>a_status := ActiveCapa\<rparr>"
    by (simp_all add: abs_cell_def)
  show ?thesis
  proof (cases rule: attempt_mergeE [OF r act, of vmc])
    case 1
    have "head_merge (c_start (ccap e)) (c_end (ccap e)) (absd (L @ e # R))"
      using right_candidate_abs [OF 1(2)] 1(1)
      by (auto simp: head_merge_def abs_cell_def split: list.splits)
    then show ?thesis using null 1 st unfolding abs by simp
  next
    case (2 s' G')
    then show ?thesis using merged st unfolding abs by simp
  qed
qed

text \<open>The specification of the same, once the handle is known.\<close>

lemma take_back_ask:
  assumes "cvals e = vs @ v # ws" and "rdomain v = did" and "\<forall>w \<in> set vs. rdomain w \<noteq> did"
    and "ask vmc [0x105, revok_handle v, 0, 0, 0] w = (x, w1)" and "b = unhandled (abs_cell e) (vs @ ws)"
  shows "a_take_back vmc did (absd L) (abs_cell e) (absd R) w =
    (if x = None then Some (False, absd (L @ e # R), w1)
     else if a_status b = ActiveCapa then map_option (Pair True) (a_merge vmc (absd L) b (absd R) w1)
     else Some (True, absd L @ b # absd R, w1))"
proof -
  have "a_revs (abs_cell e) = cvals e" by (simp add: abs_cell_def)
  then have "List.extract (\<lambda>v. rdomain v = did) (a_revs (abs_cell e)) = Some (vs, v, ws)"
    using assms(1-3) by (auto simp: extract_Some_iff)
  then show ?thesis using assms(4,5) by (simp add: a_take_back_def Let_def split: option.split)
qed

lemma take_back_none:
  "\<forall>v \<in> set (cvals e). rdomain v \<noteq> did \<Longrightarrow>
     a_take_back vmc did (absd L) (abs_cell e) (absd R) w = Some (False, absd (L @ e # R), w)"
proof -
  assume "\<forall>v \<in> set (cvals e). rdomain v \<noteq> did"
  then have "List.extract (\<lambda>v. rdomain v = did) (a_revs (abs_cell e)) = None"
    by (simp add: extract_None_iff abs_cell_def)
  then show ?thesis by (simp add: a_take_back_def)
qed

lemma revoke_pausedE:
  assumes rel: "dom_rel s (L @ e # R)" and paused: "status (ccap e) = PausedCapa" "length (cvals e) = 1"
  obtains (fail) m where "revoke_paused vmc did (cptr e) s = Some (FAIL, s\<lparr>mon := m\<rparr>)"
      "a_take_back vmc did (absd L) (abs_cell e) (absd R) (wld s) = Some (False, absd (L @ e # R), wld (s\<lparr>mon := m\<rparr>))"
  | (null) "L = []" "head_merge (c_start (ccap e)) (c_end (ccap e)) (absd (L @ e # R))"
      "revoke_paused vmc did (cptr e) s = None"
      "a_take_back vmc did (absd L) (abs_cell e) (absd R) (wld s) = None"
  | (ok) s' G' where "revoke_paused vmc did (cptr e) s = Some (OK, s')" "dom_rel s' G'"
      "dom_step\<^sup>*\<^sup>* (absd (L @ e # R)) (absd G')"
      "a_take_back vmc did (absd L) (abs_cell e) (absd R) (wld s) = Some (True, absd G', wld s')"
proof -
  have ce: "capas s (cptr e) = Some (ccap e)" using dom_rel_cell [OF rel] by simp
  have ok_e: "cell_ok s e" using dom_relD(4) [OF rel] by simp
  obtain v where v: "cvals e = [v]" using paused(2) by (auto simp: length_Suc_conv)
  then obtain r where r: "crevs e = [r]" and rv: "revs s r = Some v"
    using ok_e by (auto simp: cell_ok_def map_eq_Cons_conv)
  have d: "dll (rev_links s) (revoks (ccap e)) [r]" using ok_e r by (simp add: cell_ok_def)
  have lk: "rev_links s r = Some \<lparr>prev = None, nxt = None\<rparr>" "head (revoks (ccap e)) = Some r"
    using dll_links [of "rev_links s" "revoks (ccap e)" "[]" r "[]"] d by (simp_all add: dll_def)
  obtain rc m x where t: "tyche_domain_revoke vmc (revok_handle v) s = (rc, s\<lparr>mon := m\<rparr>)"
    and x: "ask vmc [0x105, revok_handle v, 0, 0, 0] (wld s) = (x, (wld s)\<lparr>mon := m\<rparr>)" "rc = 0 \<longleftrightarrow> x \<noteq> None"
    by (rule tyche_revoke_ask)
  have spec: "a_take_back vmc did (absd L) (abs_cell e) (absd R) (wld s) =
      (if rc \<noteq> 0 then Some (False, absd (L @ e # R), (wld s)\<lparr>mon := m\<rparr>)
       else map_option (Pair True) (a_merge vmc (absd L) (unhandled (abs_cell e) []) (absd R) ((wld s)\<lparr>mon := m\<rparr>)))"
    if did: "rdomain v = did"
  proof -
    have "a_status (unhandled (abs_cell e) []) = ActiveCapa" using paused by (simp add: unhandled_def abs_cell_def)
    moreover have "cvals e = [] @ v # []" "\<forall>w \<in> set []. rdomain w \<noteq> did" using v by simp_all
    note take_back_ask [of e "[]" v "[]" did vmc "wld s" x _ _ L R, OF this(1) did this(2) x(1) refl]
    ultimately show ?thesis using x(2) by simp
  qed
  show ?thesis
  proof (cases "rdomain v = did \<and> rc = 0")
    case False
    show ?thesis
    proof (cases "rdomain v = did")
      case True
      then show ?thesis using False ce lk rv t rel spec fail [of m] by (simp add: revoke_paused_def)
    next
      case other: False
      then show ?thesis using ce lk rv rel v take_back_none [of e did vmc L R "wld s"] fail [of "mon s"]
        by (simp add: revoke_paused_def)
    qed
  next
    case True
    have rel': "dom_rel (s\<lparr>mon := m\<rparr>) (L @ e # R)" using rel by simp
    obtain s1 s2 l where u: "revoks_remove (cptr e) r (s\<lparr>mon := m\<rparr>) = Some s1" "dealloc_revok r s1 = Some s2"
      "dom_rel s2 (L @ e\<lparr>ccap := (ccap e)\<lparr>revoks := l\<rparr>, crevs := [], cvals := []\<rparr> # R)"
      "capas s2 (cptr e) = Some ((ccap e)\<lparr>revoks := l\<rparr>)" "dll_is_empty l"
      by (rule unlink_handleE [OF rel', of "[]" r "[]" "[]" v "[]"]) (use r v in auto)
    have w: "wld s2 = (wld s)\<lparr>mon := m\<rparr>" using wld_lists(6) [OF u(1)] wld_lists(4) [OF u(2)] by simp
    let ?e = "e\<lparr>ccap := (ccap e)\<lparr>revoks := l\<rparr>, crevs := [], cvals := []\<rparr>"
    let ?f = "?e\<lparr>ccap := (ccap ?e)\<lparr>status := ActiveCapa\<rparr>\<rparr>"
    have body: "revoke_paused vmc did (cptr e) s =
        do { s \<leftarrow> set_status (cptr ?e) ActiveCapa s2; attempt_merge vmc (cptr ?e) s }"
      using ce lk rv t True u by (simp add: revoke_paused_def)
    have f: "unhandled (abs_cell e) [] = (abs_cell ?e)\<lparr>a_status := ActiveCapa\<rparr>"
      using paused by (simp add: abs_cell_def unhandled_def)
    have st: "dom_step (absd (L @ e # R)) (absd (L @ ?f # R))"
      using dom_step.unpause [of "abs_cell e" v "absd L" "absd R"] paused v
      by (simp add: abs_cell_def)
    have spec': "a_take_back vmc did (absd L) (abs_cell e) (absd R) (wld s) =
        map_option (Pair True) (a_merge vmc (absd L) ((abs_cell ?e)\<lparr>a_status := ActiveCapa\<rparr>) (absd R) (wld s2))"
      using spec True unfolding w f by simp
    show ?thesis
    proof (cases rule: activate_mergeE [OF u(3), of vmc])
      case 1
      then have "head_merge (c_start (ccap e)) (c_end (ccap e)) (absd (L @ e # R))"
        by (auto simp: head_merge_def abs_cell_def split: list.splits)
      then show ?thesis using null 1 unfolding body spec' by simp
    next
      case (2 s' G')
      have "dom_step\<^sup>*\<^sup>* (absd (L @ e # R)) (absd G')" using st 2(3) by (rule converse_rtranclp_into_rtranclp)
      then show ?thesis using ok 2 unfolding body spec' by simp
    qed
  qed
qed

lemma revoke_sharedE:
  assumes rel: "dom_rel s (L @ e # R)" and shr: "status (ccap e) = SharedCapa" and dis: "distinct (map rdomain (cvals e))"
  obtains (fail) m where "revoke_shared vmc did (cptr e) s = Some (FAIL, s\<lparr>mon := m\<rparr>)"
      "a_take_back vmc did (absd L) (abs_cell e) (absd R) (wld s) = Some (False, absd (L @ e # R), wld (s\<lparr>mon := m\<rparr>))"
  | (null) "L = []" "head_merge (c_start (ccap e)) (c_end (ccap e)) (absd (L @ e # R))"
      "revoke_shared vmc did (cptr e) s = None"
      "a_take_back vmc did (absd L) (abs_cell e) (absd R) (wld s) = None"
  | (ok) s' G' where "revoke_shared vmc did (cptr e) s = Some (OK, s')" "dom_rel s' G'"
      "dom_step\<^sup>*\<^sup>* (absd (L @ e # R)) (absd G')"
      "a_take_back vmc did (absd L) (abs_cell e) (absd R) (wld s) = Some (True, absd G', wld s')"
proof -
  have ce: "capas s (cptr e) = Some (ccap e)" using dom_rel_cell [OF rel] by simp
  have ok_e: "cell_ok s e" using dom_relD(4) [OF rel] by simp
  show ?thesis
  proof (cases rule: revok_findE [OF ok_e, of "\<lambda>v. rdomain v = did"])
    case 1
    then have "revoke_shared vmc did (cptr e) s = Some (FAIL, s)"
      using ce rel by (simp add: revoke_shared_def)
    then show ?thesis using fail [of "mon s"] take_back_none [OF 1(2), of vmc L R "wld s"] by simp
  next
    case (2 rs r rs' vs v ws)
    obtain rc m x where t: "tyche_domain_revoke vmc (revok_handle v) s = (rc, s\<lparr>mon := m\<rparr>)"
      and x: "ask vmc [0x105, revok_handle v, 0, 0, 0] (wld s) = (x, (wld s)\<lparr>mon := m\<rparr>)" "rc = 0 \<longleftrightarrow> x \<noteq> None"
      by (rule tyche_revoke_ask)
    have rel': "dom_rel (s\<lparr>mon := m\<rparr>) (L @ e # R)" using rel by simp
    have "did \<notin> rdomain ` set vs" using dis unfolding 2(3) 2(6) [symmetric] by simp
    then have "\<forall>w \<in> set vs. rdomain w \<noteq> did" by blast
    note spec = take_back_ask [of e vs v ws did vmc "wld s" x _ _ L R, OF 2(3,6) this x(1) refl]
    show ?thesis
    proof (cases "rc = 0")
      case False
      then show ?thesis using ce 2 t rel' fail [of m] x(2) spec by (simp add: revoke_shared_def)
    next
      case True
      obtain s1 s2 l where u: "revoks_remove (cptr e) r (s\<lparr>mon := m\<rparr>) = Some s1" "dealloc_revok r s1 = Some s2"
        "dom_rel s2 (L @ e\<lparr>ccap := (ccap e)\<lparr>revoks := l\<rparr>, crevs := rs @ rs', cvals := vs @ ws\<rparr> # R)"
        "capas s2 (cptr e) = Some ((ccap e)\<lparr>revoks := l\<rparr>)" "dll_is_empty l \<longleftrightarrow> vs @ ws = []"
        by (rule unlink_handleE [OF rel' 2(2-4)])
      have w: "wld s2 = (wld s)\<lparr>mon := m\<rparr>" using wld_lists(6) [OF u(1)] wld_lists(4) [OF u(2)] by simp
      let ?e = "e\<lparr>ccap := (ccap e)\<lparr>revoks := l\<rparr>, crevs := rs @ rs', cvals := vs @ ws\<rparr>"
      let ?f = "?e\<lparr>ccap := (ccap ?e)\<lparr>status := ActiveCapa\<rparr>\<rparr>"
      let ?last = "vs @ ws = [] \<and> is_owned (ccap e) \<noteq> 0"
      have body: "revoke_shared vmc did (cptr e) s =
          (if ?last then do { s \<leftarrow> set_status (cptr ?e) ActiveCapa s2; attempt_merge vmc (cptr ?e) s }
           else Some (OK, s2))"
        using ce 2 t True u by (simp add: revoke_shared_def)
      have f: "unhandled (abs_cell e) (vs @ ws) = abs_cell (if ?last then ?f else ?e)"
        using shr by (simp add: abs_cell_def unhandled_def)
      have st: "dom_step (absd (L @ e # R)) (absd (L @ (if ?last then ?f else ?e) # R))"
        using dom_step.unshare [of "abs_cell e" vs v ws "absd L" "absd R"] shr 2(3)
        by (cases ?last) (auto simp: abs_cell_def)
      have fs: "a_status (abs_cell (if ?last then ?f else ?e)) = ActiveCapa \<longleftrightarrow> ?last"
        using shr by (simp add: abs_cell_def)
      have xn: "x \<noteq> None" using True x(2) by simp
      have spec': "a_take_back vmc did (absd L) (abs_cell e) (absd R) (wld s) =
          (if ?last then map_option (Pair True) (a_merge vmc (absd L) (abs_cell ?f) (absd R) (wld s2))
           else Some (True, absd (L @ ?e # R), wld s2))"
      proof (cases ?last)
        case True
        show ?thesis using spec unfolding f w if_not_P [OF xn] unfolding fs unfolding if_P [OF True] .
      next
        case False
        show ?thesis using spec unfolding f w if_not_P [OF xn] unfolding fs unfolding if_not_P [OF False] by simp
      qed
      show ?thesis
      proof (cases ?last)
        case False
        show ?thesis
          by (rule ok [OF _ u(3)])
             (use body spec' st in \<open>simp_all only: if_not_P [OF False] r_into_rtranclp\<close>)
      next
        case last: True
        have ff: "abs_cell ?f = (abs_cell ?e)\<lparr>a_status := ActiveCapa\<rparr>" by (simp add: abs_cell_def)
        show ?thesis
        proof (cases rule: activate_mergeE [OF u(3), of vmc])
          case 1
          then have "head_merge (c_start (ccap e)) (c_end (ccap e)) (absd (L @ e # R))"
            by (auto simp: head_merge_def abs_cell_def split: list.splits)
          then show ?thesis using null 1 last unfolding body spec' ff by simp
        next
          case (2 s' G')
          have "dom_step\<^sup>*\<^sup>* (absd (L @ e # R)) (absd G')"
            using st 2(3) last by (simp add: converse_rtranclp_into_rtranclp)
          then show ?thesis using ok [OF _ 2(2)] 2 last unfolding body spec' ff by simp
        qed
      qed
    qed
  qed
qed

text \<open>
  The whole call.  When it does not return, the region is the head of the capability list and its
  right neighbour could be merged: the dereferenced \<open>prev\<close> is NULL.
\<close>

lemma revoke_capa_cases:
  assumes "domain_wf s A"
  obtains (fail) s' where "revoke_capa vmc did start stop s = Some (FAIL, s')" "domain_wf s' A"
      "a_revoke vmc did start stop A (wld s) = Some (False, A, wld s')"
  | (null) "revoke_capa vmc did start stop s = None" "head_merge start stop A"
      "a_revoke vmc did start stop A (wld s) = None"
  | (ok) s' B where "revoke_capa vmc did start stop s = Some (OK, s')" "domain_wf s' B" "dom_step\<^sup>*\<^sup>* A B"
      "a_revoke vmc did start stop A (wld s) = Some (True, B, wld s')"
proof -
  from assms obtain G where rel: "dom_rel s G" and A: "A = absd G" and wf: "a_wf A"
    by (auto simp: domain_wf_def)
  have wfA: "domain_wf (s\<lparr>mon := m\<rparr>) A" for m using assms by (simp add: domain_wf_def)
  let ?Q = "\<lambda>c. c_start c = start \<and> c_end c = stop"
  let ?P = "\<lambda>a. a_start a = start \<and> a_end a = stop"
  have PQ: "?P (abs_cell e) = (?Q \<circ> ccap) e" for e by (simp add: abs_cell_def)
  have find: "dll_find (\<lambda>p. map_option ?Q (capas s p)) (capa_links s) (head (capabilities (local_domain s)))
      = Some (map_option cptr (List.find (?Q \<circ> ccap) G))"
    by (rule capa_find [OF rel])
  have refused: thesis if "revoke_capa vmc did start stop s = Some (FAIL, s)"
      "a_revoke vmc did start stop A (wld s) = Some (False, A, wld s)"
    using fail [OF that(1) assms] that(2) by simp
  show ?thesis
  proof (cases "start < stop \<and> List.find (?Q \<circ> ccap) G \<noteq> None")
    case False
    then have "revoke_capa vmc did start stop s = Some (FAIL, s)"
      using find rel by (auto simp: revoke_capa_def not_less)
    moreover have "a_revoke vmc did start stop A (wld s) = Some (False, A, wld s)"
      using False find_no_cell [of "?Q \<circ> ccap" G ?P, OF _ PQ] A by (auto simp: a_revoke_def)
    ultimately show ?thesis by (rule refused)
  next
    case True
    then obtain e where lt: "start < stop" and e: "List.find (?Q \<circ> ccap) G = Some e" by auto
    obtain L R where G: "G = L @ e # R" and Q: "(?Q \<circ> ccap) e"
      and x: "List.extract ?P (absd G) = Some (absd L, abs_cell e, absd R)"
      by (rule find_cell [OF e PQ])
    have spec: "a_revoke vmc did start stop A (wld s) = a_take_back vmc did (absd L) (abs_cell e) (absd R) (wld s)"
      using lt x A by (simp add: a_revoke_def)
    have ce: "capas s (cptr e) = Some (ccap e)" "dll_is_empty (revoks (ccap e)) \<longleftrightarrow> cvals e = []"
      using dom_rel_cell [OF rel, of e] dom_rel_revoks_empty [OF rel, of e] G by simp_all
    have so: "a_status_ok (abs_cell e)" using wf A G by (simp add: a_wf_def)
    have good: thesis if "revoke_capa vmc did start stop s = Some (OK, s')" "dom_rel s' G'" "dom_step\<^sup>*\<^sup>* A (absd G')"
      "a_take_back vmc did (absd L) (abs_cell e) (absd R) (wld s) = Some (True, absd G', wld s')" for s' G'
    proof -
      have "a_wf (absd G')" using that(3) wf by (rule dom_steps_wf)
      then have "domain_wf s' (absd G')" using that(2) by (auto simp: domain_wf_def)
      from ok [OF that(1) this that(3)] show thesis using that(4) spec by simp
    qed
    have call: "revoke_capa vmc did start stop s = (if cvals e = [] then Some (FAIL, s)
        else if status (ccap e) = PausedCapa then revoke_paused vmc did (cptr e) s
        else if status (ccap e) = SharedCapa then revoke_shared vmc did (cptr e) s
        else attempt_merge vmc (cptr e) s)"
      using find lt e ce rel by (simp add: revoke_capa_def not_le [symmetric])
    have fail': thesis if "revoke_capa vmc did start stop s = Some (FAIL, s\<lparr>mon := m\<rparr>)"
      "a_take_back vmc did (absd L) (abs_cell e) (absd R) (wld s) = Some (False, absd (L @ e # R), wld (s\<lparr>mon := m\<rparr>))" for m
    proof -
      have "a_revoke vmc did start stop A (wld s) = Some (False, A, wld (s\<lparr>mon := m\<rparr>))"
        unfolding spec unfolding A G by (rule that(2))
      then show thesis by (rule fail [OF that(1) wfA])
    qed
    have null': thesis if "revoke_capa vmc did start stop s = None" "head_merge start stop (absd (L @ e # R))"
      "a_take_back vmc did (absd L) (abs_cell e) (absd R) (wld s) = None"
      by (rule null) (use that A G spec in simp_all)
    have good': thesis if "revoke_capa vmc did start stop s = Some (OK, s')" "dom_rel s' G'"
      "dom_step\<^sup>*\<^sup>* (absd (L @ e # R)) (absd G')"
      "a_take_back vmc did (absd L) (abs_cell e) (absd R) (wld s) = Some (True, absd G', wld s')" for s' G'
      using good [OF that(1,2) _ that(4)] that(3) A G by simp
    have Q': "c_start (ccap e) = start" "c_end (ccap e) = stop" using Q by simp_all
    show ?thesis
    proof (cases "cvals e = []")
      case True
      then have "a_revoke vmc did start stop A (wld s) = Some (False, A, wld s)"
        unfolding spec using take_back_none [of e did vmc L R "wld s"] by (simp add: A G)
      then show ?thesis using call True refused by simp
    next
      case ne: False
      show ?thesis
      proof (cases "status (ccap e)")
        case ActiveCapa
        then show ?thesis using so ne by (simp add: a_status_ok_def abs_cell_def)
      next
        case SharedCapa
        then have d: "distinct (map rdomain (cvals e))" using so by (simp add: a_status_ok_def abs_cell_def)
        show ?thesis
          by (cases rule: revoke_sharedE [OF rel [unfolded G] SharedCapa d, of vmc did, unfolded Q'])
             (use SharedCapa call ne fail' null' good' in simp_all)
      next
        case PausedCapa
        then have "length (cvals e) = 1" using so by (simp add: a_status_ok_def abs_cell_def)
        from revoke_pausedE [OF rel [unfolded G] PausedCapa this, of vmc did, unfolded Q'] show ?thesis
          by cases (use PausedCapa call ne fail' null' good' in simp_all)
      qed
    qed
  qed
qed

text \<open>The fault happens whenever its conditions hold and the monitor accepts the revocation.\<close>

lemma revoke_head_fault:
  assumes rel: "dom_rel s (e # R)" and paused: "status (ccap e) = PausedCapa" and v: "cvals e = [v]"
    and lt: "c_start (ccap e) < c_end (ccap e)"
    and hm: "head_merge (c_start (ccap e)) (c_end (ccap e)) (absd (e # R))"
    and acc: "fst (tyche_domain_revoke vmc (revok_handle v) s) = OK"
  shows "revoke_capa vmc (rdomain v) (c_start (ccap e)) (c_end (ccap e)) s = None"
proof -
  have ce: "capas s (cptr e) = Some (ccap e)" using dom_rel_cell [OF rel] by simp
  have ok_e: "cell_ok s e" using dom_relD(4) [OF rel] by simp
  obtain r where r: "crevs e = [r]" and rv: "revs s r = Some v"
    using ok_e v by (auto simp: cell_ok_def map_eq_Cons_conv)
  have d: "dll (rev_links s) (revoks (ccap e)) [r]" using ok_e r by (simp add: cell_ok_def)
  have lk: "rev_links s r = Some \<lparr>prev = None, nxt = None\<rparr>" "head (revoks (ccap e)) = Some r"
    using dll_links [of "rev_links s" "revoks (ccap e)" "[]" r "[]"] d by (simp_all add: dll_def)
  have ne: "\<not> dll_is_empty (revoks (ccap e))" using dom_rel_revoks_empty [OF rel, of e] v by simp
  obtain rc m x where t0: "tyche_domain_revoke vmc (revok_handle v) s = (rc, s\<lparr>mon := m\<rparr>)"
    by (rule tyche_revoke_ask)
  then have t: "tyche_domain_revoke vmc (revok_handle v) s = (OK, s\<lparr>mon := m\<rparr>)" using acc by simp
  have rel': "dom_rel (s\<lparr>mon := m\<rparr>) ([] @ e # R)" using rel by simp
  obtain s1 s2 l where u: "revoks_remove (cptr e) r (s\<lparr>mon := m\<rparr>) = Some s1" "dealloc_revok r s1 = Some s2"
    "dom_rel s2 ([] @ e\<lparr>ccap := (ccap e)\<lparr>revoks := l\<rparr>, crevs := [], cvals := []\<rparr> # R)"
    "capas s2 (cptr e) = Some ((ccap e)\<lparr>revoks := l\<rparr>)" "dll_is_empty l"
    by (rule unlink_handleE [OF rel', of "[]" r "[]" "[]" v "[]"]) (use r v in auto)
  let ?e = "e\<lparr>ccap := (ccap e)\<lparr>revoks := l\<rparr>, crevs := [], cvals := []\<rparr>"
  let ?f = "?e\<lparr>ccap := (ccap e)\<lparr>revoks := l, status := ActiveCapa\<rparr>\<rparr>"
  have "dom_rel (s2\<lparr>capas := (capas s2)(cptr e \<mapsto> (ccap e)\<lparr>revoks := l, status := ActiveCapa\<rparr>)\<rparr>) ([] @ ?f # R)"
    (is "dom_rel ?s3 _")
    using dom_rel_upd_cell [OF u(3), of "(ccap e)\<lparr>revoks := l, status := ActiveCapa\<rparr>"] by simp
  moreover have "right_candidate ?f R"
    using hm by (auto simp: right_candidate_def head_merge_def abs_cell_def split: list.splits)
  ultimately have "attempt_merge vmc (cptr ?f) ?s3 = None"
    using attempt_mergeE [of ?s3 "[]" ?f R vmc] by auto
  then have "revoke_paused vmc (rdomain v) (cptr e) s = None"
    using ce lk rv t u by (simp add: revoke_paused_def set_status_def)
  moreover have "dll_find (\<lambda>p. map_option (\<lambda>c. c_start c = c_start (ccap e) \<and> c_end c = c_end (ccap e)) (capas s p))
      (capa_links s) (head (capabilities (local_domain s))) = Some (Some (cptr e))"
    using capa_find [OF rel, of "\<lambda>c. c_start c = c_start (ccap e) \<and> c_end c = c_end (ccap e)"] by simp
  ultimately show ?thesis using lt ce ne paused by (simp add: revoke_capa_def)
qed

end
