(* ===== verification/Capability_Theorems.thy ===== *)
theory Capability_Theorems
  imports Capability_Init Capability_Revoke
begin

text \<open>
  The properties of the capability library, over the definitions of \<open>Capabilities\<close>, \<open>Tyche_Api\<close> and
  \<open>Dll\<close>, each with a concrete domain on which its hypotheses hold.
\<close>

section \<open>Concrete domains\<close>

text \<open>A monitor that accepts every call and answers with fixed registers.\<close>

definition demo_mon :: "unit monitor" where
  "demo_mon r m = (\<lparr>rax = 0, rcx = 77, rdx = 0, rsi = 1, r9 = 7\<rparr>, m)"

definition demo_capa :: "u64 \<Rightarrow> u64 \<Rightarrow> u64 \<Rightarrow> capa_status_t \<Rightarrow> dll_list \<Rightarrow> capability_t" where
  "demo_capa h a b st l = \<lparr>handle = h, c_start = a, c_end = b, is_owned = 1, is_shared = 0,
     access = 7, status = st, revoks = l\<rparr>"

definition demo_ld :: "dll_list \<Rightarrow> domain_t" where
  "demo_ld l = \<lparr>dom_id = 1, alloc = Some 1, dealloc = Some 2, print = Some 3, capabilities = l\<rparr>"

definition demo_revs :: "ptr \<rightharpoonup> revok_handle_t" where
  "demo_revs = [20 \<mapsto> \<lparr>rdomain = 9, revok_handle = 55\<rparr>]"

text \<open>A free capability, then one granted to domain 9.\<close>

definition demo_domain :: "unit tstate" where
  "demo_domain = \<lparr>mon = (), brk = 100, oom = (\<lambda>_. False), junk = 0, junkp = None,
     capas = [10 \<mapsto> demo_capa 5 0x1000 0x4000 ActiveCapa dll_init_list,
              11 \<mapsto> demo_capa 6 0x4000 0x6000 PausedCapa \<lparr>head = Some 20, tail = Some 20\<rparr>],
     capa_links = [10 \<mapsto> \<lparr>prev = None, nxt = Some 11\<rparr>, 11 \<mapsto> \<lparr>prev = Some 10, nxt = None\<rparr>],
     revs = demo_revs, rev_links = [20 \<mapsto> \<lparr>prev = None, nxt = None\<rparr>],
     local_domain = demo_ld \<lparr>head = Some 10, tail = Some 11\<rparr>\<rparr>"

definition demo_cells :: "cell list" where
  "demo_cells =
     [\<lparr>cptr = 10, ccap = demo_capa 5 0x1000 0x4000 ActiveCapa dll_init_list, crevs = [], cvals = []\<rparr>,
      \<lparr>cptr = 11, ccap = demo_capa 6 0x4000 0x6000 PausedCapa \<lparr>head = Some 20, tail = Some 20\<rparr>,
       crevs = [20], cvals = [\<lparr>rdomain = 9, revok_handle = 55\<rparr>]\<rparr>]"

text \<open>The same two capabilities the other way round: the granted one has no left neighbour.\<close>

definition demo_domain2 :: "unit tstate" where
  "demo_domain2 = demo_domain\<lparr>
     capas := [11 \<mapsto> demo_capa 6 0x4000 0x6000 PausedCapa \<lparr>head = Some 20, tail = Some 20\<rparr>,
               12 \<mapsto> demo_capa 8 0x6000 0x8000 ActiveCapa dll_init_list],
     capa_links := [11 \<mapsto> \<lparr>prev = None, nxt = Some 12\<rparr>, 12 \<mapsto> \<lparr>prev = Some 11, nxt = None\<rparr>],
     local_domain := demo_ld \<lparr>head = Some 11, tail = Some 12\<rparr>\<rparr>"

definition demo_cells2 :: "cell list" where
  "demo_cells2 =
     [\<lparr>cptr = 11, ccap = demo_capa 6 0x4000 0x6000 PausedCapa \<lparr>head = Some 20, tail = Some 20\<rparr>,
       crevs = [20], cvals = [\<lparr>rdomain = 9, revok_handle = 55\<rparr>]\<rparr>,
      \<lparr>cptr = 12, ccap = demo_capa 8 0x6000 0x8000 ActiveCapa dll_init_list, crevs = [], cvals = []\<rparr>]"

lemmas demo_defs = demo_domain_def demo_domain2_def demo_cells_def demo_cells2_def demo_capa_def
  demo_ld_def demo_revs_def

lemma ivl_disjoint: "b \<le> c \<Longrightarrow> ivl a b \<inter> ivl c d = {}"
  by (auto simp: ivl_def dest: order.strict_trans2)

lemma demo_rel: "dom_rel demo_domain demo_cells"
  by (simp add: dom_rel_def heap_ok_def fns_ok_def cell_ok_def dll_def demo_defs dll_init_list_def)

lemma demo_rel2: "dom_rel demo_domain2 demo_cells2"
  by (simp add: dom_rel_def heap_ok_def fns_ok_def cell_ok_def dll_def demo_defs dll_init_list_def)

lemma demo_wf: "domain_wf demo_domain (absd demo_cells)"
proof -
  have "a_wf (absd demo_cells)"
    by (simp add: a_wf_def demo_defs abs_cell_def a_status_ok_def ivl_disjoint)
  then show ?thesis using demo_rel by (auto simp: domain_wf_def)
qed

lemma demo_wf2: "domain_wf demo_domain2 (absd demo_cells2)"
proof -
  have "a_wf (absd demo_cells2)"
    by (simp add: a_wf_def demo_defs abs_cell_def a_status_ok_def ivl_disjoint)
  then show ?thesis using demo_rel2 by (auto simp: domain_wf_def)
qed

text \<open>A monitor that names domain 4 and two capabilities, with the handles 5 and 6, of one page each.\<close>

definition demo_boot :: "unit monitor" where
  "demo_boot r m =
     (\<lparr>rax = 0, rcx = (if rax r = 0x100 then 4 else if rax r = 0x400 then 2 else if rax r = 0x401 then rcx r + 5
                     else rcx r * 0x1000),
       rdx = rcx r * 0x1000 + 0x1000, rsi = 1, r9 = 7\<rparr>, m)"

section \<open>Transfer and revocation\<close>

text \<open>C1: transferring a region.  From every well-formed domain, for every monitor, every pattern of
  allocation failures and all arguments, \<open>transfer_capa\<close> returns and does what \<open>a_transfer\<close> says: the return code,
  the new list of capabilities with their bounds, rights, status and handles, and the hypercalls with their registers
  (through the state of the monitor) are those of the specification, and the new domain is well-formed.  When it
  reports success, a capability that covers exactly the region carries a handle of the target domain, was not given
  more rights than the domain has, and is paused (with that one handle) or shared according to the requested type.\<close>

theorem transfer_capa_correct:
  assumes "domain_wf s A"
  shows "case a_transfer vmc did start stop tpe A (wld s) of (ok, B, w) \<Rightarrow>
    \<exists>s'. transfer_capa vmc did start stop tpe s = Some (if ok then OK else FAIL, s') \<and> domain_wf s' B \<and> wld s' = w \<and>
         (ok \<longrightarrow> (\<exists>a \<in> set B. transferred did start stop tpe a))"
  using transfer_capa_refines [OF assms, of vmc did start stop tpe] by auto

theorem transfer_capa_correct_witness:
  "\<exists>s'. transfer_capa demo_mon 3 0x2000 0x3000 ConfidentialRW demo_domain = Some (OK, s') \<and>
     domain_wf s'
       [\<lparr>a_handle = 5, a_start = 0x1000, a_end = 0x2000, a_owned = 1, a_shared = 0, a_access = 7, a_status = ActiveCapa,
         a_revs = []\<rparr>,
        \<lparr>a_handle = 6, a_start = 0x4000, a_end = 0x6000, a_owned = 1, a_shared = 0, a_access = 7, a_status = PausedCapa,
         a_revs = [\<lparr>rdomain = 9, revok_handle = 55\<rparr>]\<rparr>,
        \<lparr>a_handle = 77, a_start = 0x2000, a_end = 0x3000, a_owned = 1, a_shared = 0, a_access = 7, a_status = PausedCapa,
         a_revs = [\<lparr>rdomain = 3, revok_handle = 77\<rparr>]\<rparr>,
        \<lparr>a_handle = 77, a_start = 0x3000, a_end = 0x4000, a_owned = 1, a_shared = 0, a_access = 7, a_status = ActiveCapa,
         a_revs = []\<rparr>]"
    (is "\<exists>s'. _ \<and> domain_wf s' ?B")
proof -
  have bits: "{i :: nat. i < 3 \<and> bit (3 :: u64) i} \<subseteq> {i. i < 3 \<and> bit (7 :: u64) i}"
    by (auto simp: bit_iff_odd less_Suc_eq numeral_3_eq_3)
  have "\<exists>w. a_transfer demo_mon 3 0x2000 0x3000 ConfidentialRW (absd demo_cells) (wld demo_domain) = (True, ?B, w)"
    using bits
    by (simp add: a_transfer_def demo_defs abs_cell_def extract_Cons_code a_inside_def a_allows_def a_rights_def
        a_deliver_def a_carve_def a_split_def a_hand_def kmalloc_def ask_def demo_mon_def)
  then show ?thesis using transfer_capa_correct [OF demo_wf, of demo_mon 3 "0x2000" "0x3000" ConfidentialRW] by auto
qed

text \<open>C2: revoking a region.  From every well-formed domain, for every monitor and all arguments, \<open>revoke_capa\<close> does
  what \<open>a_revoke\<close> says.  On failure the domain is what it was; on success the one handle of the given domain is out
  of the capability that covers exactly the region, which is active again when no handle is left, and of the other
  capabilities only the neighbours it is merged with change; the hypercalls are those of the specification.  It fails
  to return exactly when the specification has no result: the fault of the merge on the right.\<close>

theorem revoke_capa_correct:
  assumes "domain_wf s A"
  shows "case a_revoke vmc did start stop A (wld s) of
      None \<Rightarrow> revoke_capa vmc did start stop s = None
    | Some (ok, B, w) \<Rightarrow>
        \<exists>s'. revoke_capa vmc did start stop s = Some (if ok then OK else FAIL, s') \<and> domain_wf s' B \<and> wld s' = w"
  by (cases rule: revoke_capa_cases [OF assms, of vmc did start stop]) auto

theorem revoke_capa_correct_witness:
  "\<exists>s'. revoke_capa demo_mon 9 0x4000 0x6000 demo_domain = Some (OK, s') \<and>
     domain_wf s' [\<lparr>a_handle = 5, a_start = 0x1000, a_end = 0x6000, a_owned = 1, a_shared = 0, a_access = 7,
                    a_status = ActiveCapa, a_revs = []\<rparr>]"
proof -
  have "\<exists>w. a_revoke demo_mon 9 0x4000 0x6000 (absd demo_cells) (wld demo_domain) = Some (True,
      [\<lparr>a_handle = 5, a_start = 0x1000, a_end = 0x6000, a_owned = 1, a_shared = 0, a_access = 7,
        a_status = ActiveCapa, a_revs = []\<rparr>], w)"
    by (simp add: a_revoke_def a_take_back_def demo_defs abs_cell_def extract_Cons_code unhandled_def a_merge_def
        a_mergeable_def a_merge_right_def ask_def demo_mon_def)
  then show ?thesis using revoke_capa_correct [OF demo_wf, of demo_mon 9 "0x4000" "0x6000"] by auto
qed

text \<open>C4: the one fault of the library.  When the granted region is the first capability of the list
  and its right neighbour is active, owned, contiguous and has the same rights, a revocation that the
  monitor accepts ends in a fault: the right merge asks for \<open>prev->revoks\<close> although there is no
  \<open>prev\<close> (the test means \<open>next->revoks\<close>).\<close>

theorem revoke_capa_null_deref:
  assumes "domain_wf s (a # n # R)" and "a_status a = PausedCapa" and "a_revs a = [v]"
    and "a_start a < a_end a" and "head_merge (a_start a) (a_end a) (a # n # R)"
    and "fst (tyche_domain_revoke vmc (revok_handle v) s) = OK"
  shows "revoke_capa vmc (rdomain v) (a_start a) (a_end a) s = None"
proof -
  from assms(1) obtain e f G where rel: "dom_rel s (e # f # G)"
    and abs: "a = abs_cell e" "n = abs_cell f" "R = absd G" and wf: "a_wf (a # n # R)"
    by (auto simp: domain_wf_def map_eq_Cons_conv Cons_eq_map_conv)
  have "revoke_capa vmc (rdomain v) (c_start (ccap e)) (c_end (ccap e)) s = None"
    by (rule revoke_head_fault [OF rel]) (use assms(2-6) abs in \<open>simp_all add: abs_cell_def\<close>)
  then show ?thesis using abs(1) by (simp add: abs_cell_def)
qed

theorem revoke_capa_null_deref_witness:
  "revoke_capa demo_mon 9 0x4000 0x6000 demo_domain2 = None"
proof -
  let ?v = "\<lparr>rdomain = 9, revok_handle = 55\<rparr>"
  have "fst (tyche_domain_revoke demo_mon (revok_handle ?v) demo_domain2) = OK"
    by (simp add: tyche_domain_revoke_def tyche_call_def demo_mon_def)
  then show ?thesis
    using revoke_capa_null_deref [of demo_domain2 "hd (absd demo_cells2)" "absd demo_cells2 ! 1" "[]" ?v demo_mon]
      demo_wf2 by (simp add: demo_cells2_def abs_cell_def demo_capa_def head_merge_def)
qed

section \<open>Sequences of calls\<close>

text \<open>What a client of the driver can ask for, in any order; return codes are ignored.\<close>

datatype lib_call =
    Transfer domain_id_t paddr_t paddr_t capability_type_t
  | Revoke domain_id_t paddr_t paddr_t

fun lib_step :: "'m monitor \<Rightarrow> lib_call \<Rightarrow> ('m, 'z) tstate_scheme \<Rightarrow> ('m, 'z) tstate_scheme option" where
  "lib_step vmc (Transfer did start stop tpe) s =
     map_option snd (tc_transfer_capability vmc did start stop tpe s)"
| "lib_step vmc (Revoke did start stop) s = map_option snd (tc_revoke_region vmc did start stop s)"

fun lib_run :: "'m monitor \<Rightarrow> lib_call list \<Rightarrow> ('m, 'z) tstate_scheme \<Rightarrow> ('m, 'z) tstate_scheme option" where
  "lib_run vmc [] s = Some s"
| "lib_run vmc (c # cs) s = Option.bind (lib_step vmc c s) (lib_run vmc cs)"

lemma lib_run_append:
  "lib_run vmc (cs @ ds) s = Option.bind (lib_run vmc cs s) (lib_run vmc ds)"
  by (induction cs arbitrary: s) (auto split: Option.bind_splits)

lemma lib_step_cases:
  assumes "domain_wf s A"
  obtains (next_state) s' B where "lib_step vmc c s = Some s'" "domain_wf s' B" "a_cover B = a_cover A"
  | (fault) did start stop where "c = Revoke did start stop" "head_merge start stop A" "lib_step vmc c s = None"
proof (cases c)
  case (Transfer did start stop tpe)
  obtain ok s' B where t: "transfer_capa vmc did start stop tpe s = Some (if ok then OK else FAIL, s')" "domain_wf s' B"
    "dom_step\<^sup>*\<^sup>* A B" using transfer_capa_refines [OF assms, of vmc did start stop tpe] by blast
  moreover have "a_cover B = a_cover A"
    using dom_steps_cover [OF t(3)] assms by (auto simp: domain_wf_def)
  ultimately show ?thesis using next_state Transfer by (simp add: tc_transfer_capability_def)
next
  case (Revoke did start stop)
  have wf: "a_wf A" using assms by (auto simp: domain_wf_def)
  have step: "lib_step vmc c s = map_option snd (revoke_capa vmc did start stop s)"
    by (simp add: Revoke tc_revoke_region_def)
  show ?thesis
  proof (cases rule: revoke_capa_cases [OF assms, of vmc did start stop])
    case (1 s')
    then show ?thesis using next_state [OF _ 1(2)] step by simp
  next
    case 2
    then show ?thesis using fault [OF Revoke 2(2)] step by simp
  next
    case (3 s' B)
    then show ?thesis using next_state [OF _ 3(2) dom_steps_cover [OF 3(3) wf]] step by simp
  qed
qed

text \<open>C3: no sequence of transfers and revocations loses, gains or duplicates an address.  Starting
  from a well-formed domain, however the monitor and the allocator behave, every reached domain is
  well-formed (intervals not reversed and pairwise disjoint, handles consistent with the status) and
  covers the same addresses; the only way for a sequence to stop is a revocation of the first
  capability in front of a mergeable neighbour.\<close>

theorem library_preserves_memory:
  assumes "domain_wf s A"
  shows "case lib_run vmc cs s of
      Some s' \<Rightarrow> \<exists>B. domain_wf s' B \<and> a_cover B = a_cover A
    | None \<Rightarrow> \<exists>ds did start stop es s1 B. cs = ds @ Revoke did start stop # es \<and>
        lib_run vmc ds s = Some s1 \<and> domain_wf s1 B \<and> head_merge start stop B"
  using assms
proof (induction cs arbitrary: s A)
  case Nil
  then show ?case by auto
next
  case (Cons c cs)
  show ?case
  proof (cases rule: lib_step_cases [OF Cons.prems, of vmc c])
    case (1 s1 B)
    show ?thesis
    proof (cases "lib_run vmc cs s1")
      case None
      then obtain ds did start stop es s2 C where "cs = ds @ Revoke did start stop # es"
        "lib_run vmc ds s1 = Some s2" "domain_wf s2 C" "head_merge start stop C"
        using Cons.IH [OF 1(2)] by auto
      then have "c # cs = (c # ds) @ Revoke did start stop # es \<and>
        lib_run vmc (c # ds) s = Some s2 \<and> domain_wf s2 C \<and> head_merge start stop C"
        using 1(1) by simp
      moreover have "lib_run vmc (c # cs) s = None" using 1(1) None by simp
      ultimately show ?thesis unfolding option.case_eq_if by metis
    next
      case (Some s2)
      then show ?thesis using Cons.IH [OF 1(2)] 1 by auto
    qed
  next
    case (2 did start stop)
    have "c # cs = [] @ Revoke did start stop # cs \<and> lib_run vmc [] s = Some s \<and> domain_wf s A \<and>
        head_merge start stop A" using 2 Cons.prems by simp
    moreover have "lib_run vmc (c # cs) s = None" using 2 by simp
    ultimately show ?thesis unfolding option.case_eq_if by metis
  qed
qed

theorem library_preserves_memory_witness:
  "case lib_run demo_mon [Transfer 3 0x2000 0x3000 ConfidentialRW, Revoke 9 0x4000 0x6000] demo_domain of
      Some s' \<Rightarrow> \<exists>B. domain_wf s' B \<and> a_cover B = a_cover (absd demo_cells)
    | None \<Rightarrow> \<exists>ds did start stop es s1 B.
        [Transfer 3 0x2000 0x3000 ConfidentialRW, Revoke 9 0x4000 0x6000] = ds @ Revoke did start stop # es \<and>
        lib_run demo_mon ds demo_domain = Some s1 \<and> domain_wf s1 B \<and> head_merge start stop B"
  by (rule library_preserves_memory [OF demo_wf])

section \<open>Start-up\<close>

text \<open>C5: start-up.  On any consistent heap, for every monitor and every pattern of allocation failures, \<open>init_domain\<close>
  returns.  Without all three functions it changes nothing.  With them it does what \<open>a_init\<close> says: on success the list
  holds one active capability without handles for every number below the announced count, in order, with the handle,
  the bounds, the flags and the rights the monitor reports under that number, none with the revocation right; on
  failure the list is empty.  The identifier of the domain is the one the monitor gives, and the hypercalls and the
  allocations are those of the specification.\<close>

theorem init_domain_correct:
  assumes "heap_ok s"
  shows "if a = None \<or> d = None \<or> p = None then init_domain vmc a d p s = Some (FAIL, s)
    else case a_init vmc (wld s) of (j, B, w) \<Rightarrow>
      \<exists>s' G. init_domain vmc a d p s = Some (if B = None then FAIL else OK, s') \<and> dom_rel s' G \<and>
        absd G = (case B of None \<Rightarrow> [] | Some A \<Rightarrow> A) \<and> wld s' = w \<and>
        dom_id (local_domain s') = (case j of None \<Rightarrow> dom_id (local_domain s) | Some i \<Rightarrow> i)"
proof (cases "a = None \<or> d = None \<or> p = None")
  case True
  then show ?thesis using init_domain_null [OF True] by simp
next
  case False
  obtain j B w where i: "a_init vmc (wld s) = (j, B, w)" by (cases "a_init vmc (wld s)")
  have nn: "a \<noteq> None" "d \<noteq> None" "p \<noteq> None" using False by simp_all
  show ?thesis unfolding if_not_P [OF False] i prod.case by (rule init_domain_refines [OF assms nn i])
qed

theorem init_domain_correct_witness:
  "\<exists>s' G. tyche_capabilities_init demo_boot 1 2 3 demo_domain = Some (OK, s') \<and> dom_rel s' G \<and>
     absd G = [\<lparr>a_handle = 5, a_start = 0x5000, a_end = 0x6000, a_owned = 1, a_shared = 0, a_access = 7,
                a_status = ActiveCapa, a_revs = []\<rparr>,
               \<lparr>a_handle = 6, a_start = 0x6000, a_end = 0x7000, a_owned = 1, a_shared = 0, a_access = 7,
                a_status = ActiveCapa, a_revs = []\<rparr>] \<and> dom_id (local_domain s') = 4"
    (is "\<exists>s' G. _ \<and> _ \<and> absd G = ?A \<and> _")
proof -
  have "map of_nat [0..<2] = [0, 1 :: u64]" by (simp add: numeral_2_eq_2)
  moreover have "\<not> bit (7 :: u64) 3" by (simp add: bit_iff_odd)
  ultimately have "\<exists>w. a_init demo_boot (wld demo_domain) = (Some 4, Some ?A, w)"
    by (simp add: a_init_def ask_def register_def demo_boot_def a_read_def kmalloc_def demo_domain_def)
  then obtain w where w: "a_init demo_boot (wld demo_domain) = (Some 4, Some ?A, w)" by blast
  have nn: "\<not> (Some 1 = (None :: ptr option) \<or> Some 2 = (None :: ptr option) \<or> Some 3 = (None :: ptr option))" by simp
  have "\<exists>s' G. init_domain demo_boot (Some 1) (Some 2) (Some 3) demo_domain = Some (if Some ?A = None then FAIL else OK, s') \<and>
      dom_rel s' G \<and> absd G = ?A \<and> wld s' = w \<and> dom_id (local_domain s') = 4"
    using init_domain_correct [OF dom_relD(1) [OF demo_rel], of "Some 1" "Some 2" "Some 3" demo_boot]
    unfolding if_not_P [OF nn] w prod.case option.case .
  then show ?thesis unfolding tyche_capabilities_init_def if_not_P [OF option.distinct(2)]
    by (elim exE conjE) (intro exI conjI)
qed

section \<open>Splitting\<close>

text \<open>splitting.  \<open>split_capa\<close> on a capability of the list returns; either it returns NULL and the
  capabilities are what they were, or the capability was a plain owned unshared one that contains the
  address, its end has moved to the address, and a new capability for the rest, with the same rights
  and status but no handles, is at the end of the list.\<close>

theorem split_capa_correct:
  assumes "dom_rel s (L @ e # R)"
  shows "\<exists>r s' G. split_capa vmc (Some (cptr e)) x s = Some (r, s') \<and> dom_rel s' G \<and>
    (case r of
       None \<Rightarrow> absd G = absd (L @ e # R)
     | Some q \<Rightarrow> c_start (ccap e) \<le> x \<and> x < c_end (ccap e) \<and> access (ccap e) AND CAPA_REVOK = 0 \<and>
         is_owned (ccap e) \<noteq> 0 \<and> is_shared (ccap e) = 0 \<and> cptr (last G) = q \<and>
         (\<exists>h. absd G = absd L @ (abs_cell e)\<lparr>a_end := x\<rparr> # absd R @
                [(abs_cell e)\<lparr>a_handle := h, a_start := x, a_revs := []\<rparr>]))"
proof (cases rule: split_capaE [OF assms, of vmc x])
  case (1 s')
  then show ?thesis by auto
next
  case (2 q s' h)
  let ?G = "L @ fst (split_cells e q h x) # R @ [snd (split_cells e q h x)]"
  have "absd ?G = absd L @ (abs_cell e)\<lparr>a_end := x\<rparr> # absd R @
                [(abs_cell e)\<lparr>a_handle := h, a_start := x, a_revs := []\<rparr>]"
    "cptr (last ?G) = q" by (simp_all add: split_cells_def abs_cell_def)
  then have "split_capa vmc (Some (cptr e)) x s = Some (Some q, s') \<and> dom_rel s' ?G \<and>
      c_start (ccap e) \<le> x \<and> x < c_end (ccap e) \<and> access (ccap e) AND CAPA_REVOK = 0 \<and>
      is_owned (ccap e) \<noteq> 0 \<and> is_shared (ccap e) = 0 \<and> cptr (last ?G) = q \<and>
      (\<exists>h. absd ?G = absd L @ (abs_cell e)\<lparr>a_end := x\<rparr> # absd R @
                [(abs_cell e)\<lparr>a_handle := h, a_start := x, a_revs := []\<rparr>])"
    using 2 by (simp only: dll_contains_def) blast
  then show ?thesis unfolding option.case_eq_if by (metis option.sel option.distinct(1))
qed

theorem split_capa_correct_witness:
  "\<exists>r s' G. split_capa demo_mon (Some 10) 0x2000 demo_domain = Some (r, s') \<and> dom_rel s' G"
  using split_capa_correct [of demo_domain "[]" "hd demo_cells" "tl demo_cells" demo_mon "0x2000"] demo_rel
  by (auto simp: demo_cells_def)

section \<open>Limits of the search in transfer_capa\<close>

lemma a_disjoint_mem:
  "a_disjoint A \<Longrightarrow> a \<in> set A \<Longrightarrow> b \<in> set A \<Longrightarrow> x \<in> a_ivl a \<Longrightarrow> x \<in> a_ivl b \<Longrightarrow> a = b"
proof (induction A)
  case (Cons c A)
  have "x \<in> a_cover A" if "d \<in> set A" "x \<in> a_ivl d" for d using that unfolding a_cover_def by blast
  moreover have "a_ivl c \<inter> a_cover A = {}" "a_disjoint A" using Cons.prems(1) by simp_all
  ultimately show ?case using Cons by (metis IntI empty_iff set_ConsD)
qed simp

text \<open>C8: the tail of a capability cannot be transferred.  The search uses the half-open test
  \<open>dll_contains\<close> for the end address as well, so a region that ends where its capability ends, but
  starts later, is not found and the call fails without any effect, although the code behind the
  search handles that case.\<close>

theorem transfer_tail_not_found:
  assumes "domain_wf s A" and "a \<in> set A" and "a_start a < start" and "a_end a = stop"
  shows "transfer_capa vmc did start stop tpe s = Some (FAIL, s)"
proof (cases "start < stop")
  case False
  then show ?thesis using assms(1) by (auto simp: transfer_capa_def domain_wf_def not_less)
next
  case lt: True
  from assms(1) obtain G where rel: "dom_rel s G" and A: "A = absd G" and wf: "a_wf A" by (auto simp: domain_wf_def)
  have "\<not> transfer_match start stop (ccap e)" if "e \<in> set G" for e
  proof
    assume m: "transfer_match start stop (ccap e)"
    then have "start \<in> a_ivl (abs_cell e)"
      using lt by (auto simp: transfer_match_def dll_contains_def abs_cell_def ivl_def)
    moreover have "start \<in> a_ivl a" using assms(3,4) lt by (simp add: ivl_def)
    ultimately have "abs_cell e = a"
      using a_disjoint_mem [of A] wf that assms(2) by (simp add: a_wf_def A)
    then show False using m assms(3,4) by (auto simp: transfer_match_def dll_contains_def abs_cell_def)
  qed
  then have "List.find (transfer_match start stop \<circ> ccap) G = None" by (simp add: find_None_iff)
  then show ?thesis using capa_find [OF rel, of "transfer_match start stop"] rel
    by (simp add: transfer_capa_def)
qed

theorem transfer_tail_not_found_witness:
  "transfer_capa demo_mon 3 0x5000 0x6000 ConfidentialRW demo_domain2 = Some (FAIL, demo_domain2)"
  by (rule transfer_tail_not_found [OF demo_wf2, of "hd (absd demo_cells2)"]) (simp_all add: demo_defs abs_cell_def)

end
