(* ===== verification/Merge_List.thy ===== *)
theory Merge_List
  imports Dll
begin

text \<open>
  Ordered insertion with merging.  The enclave driver keeps two kinds of sorted lists of address
  intervals, the virtual regions of an enclave and its physical pages, with the same loop
  (\<open>add_region\<close> and \<open>add_merge_global\<close> in \<open>enclave.c\<close>): walk to the place of the new interval, refuse it
  when it overlaps, let a right neighbour absorb it, or let it absorb a left neighbour and start
  again one element earlier.

  \<open>ins ops L e R\<close> is that loop on sequences: \<open>e\<close> is the new element, \<open>L\<close> (reversed) what has been
  passed, \<open>R\<close> what is still ahead; the result says whether the element went in, and the sequence left.  The locale \<open>merge_laws\<close> says what the loop needs to know about the
  elements, and what it then guarantees.
\<close>

record 'r merge_ops =
  lo :: "'r \<Rightarrow> u64"
  hi :: "'r \<Rightarrow> u64"
  same :: "'r \<Rightarrow> 'r \<Rightarrow> bool"
  contig :: "'r \<Rightarrow> 'r \<Rightarrow> bool"
  join_l :: "'r \<Rightarrow> 'r \<Rightarrow> 'r"
  join_r :: "'r \<Rightarrow> 'r \<Rightarrow> 'r"

abbreviation (input) r_ivl :: "'r merge_ops \<Rightarrow> 'r \<Rightarrow> u64 set" where
  "r_ivl m x \<equiv> ivl (lo m x) (hi m x)"

function ins :: "'r merge_ops \<Rightarrow> 'r list \<Rightarrow> 'r \<Rightarrow> 'r list \<Rightarrow> bool \<times> 'r list" where
  "ins m L e [] = (True, rev L @ [e])"
| "ins m L e (x # R) =
     (if dll_overlap (lo m x) (hi m x) (lo m e) (hi m e) then (False, rev L @ x # R)
      else if lo m x > hi m e \<or> (lo m x = hi m e \<and> \<not> same m x e) then (True, rev L @ e # x # R)
      else if lo m x = hi m e \<and> contig m e x \<and> same m x e then (True, rev L @ join_l m x e # R)
      else if hi m x < lo m e \<or> (hi m x = lo m e \<and> \<not> same m x e) then ins m (x # L) e R
      else if hi m x = lo m e \<and> contig m x e \<and> same m x e then
        (if (case R of [] \<Rightarrow> False | y # _ \<Rightarrow> dll_overlap (lo m x) (hi m e) (lo m y) (hi m y)) then (False, rev L @ x # R)
         else (case L of [] \<Rightarrow> ins m [] (join_r m e x) R
               | p # L' \<Rightarrow> ins m L' (join_r m e x) (p # R)))
      else ins m (x # L) e R)"
  by pat_completeness auto
termination
  by (relation "measures [\<lambda>(m, L, e, R). length L + length R, \<lambda>(m, L, e, R). length R]")
     (auto split: list.splits)

text \<open>What \<open>e\<close> can become by absorbing elements of \<open>X\<close> on its left.\<close>

inductive stretch :: "'r merge_ops \<Rightarrow> 'r set \<Rightarrow> 'r \<Rightarrow> 'r \<Rightarrow> bool" for m X where
  refl: "stretch m X e e"
| step: "w \<in> X \<Longrightarrow> hi m w = lo m e \<Longrightarrow> same m w e \<Longrightarrow> contig m w e \<Longrightarrow>
    stretch m X (join_r m e w) z \<Longrightarrow> stretch m X e z"

lemma stretch_mono: "stretch m X e z \<Longrightarrow> X \<subseteq> Y \<Longrightarrow> stretch m Y e z"
  by (induction rule: stretch.induct) (auto intro: stretch.intros)

text \<open>Every element that begins where \<open>e\<close> ends, with the same attributes, can absorb it.\<close>

definition absorbable :: "'r merge_ops \<Rightarrow> 'r \<Rightarrow> 'r set \<Rightarrow> bool" where
  "absorbable m e X \<longleftrightarrow> (\<forall>z x. stretch m X e z \<longrightarrow> x \<in> X \<longrightarrow> lo m x = hi m e \<longrightarrow> same m x e \<longrightarrow> contig m z x)"

definition sorted_ivls :: "'r merge_ops \<Rightarrow> 'r list \<Rightarrow> bool" where
  "sorted_ivls m xs \<longleftrightarrow> sorted_wrt (\<lambda>a b. hi m a \<le> lo m b) xs \<and> (\<forall>x \<in> set xs. lo m x < hi m x)"

text \<open>The addresses covered by the elements with the attributes of \<open>k\<close>.\<close>

definition covered :: "'r merge_ops \<Rightarrow> 'r \<Rightarrow> 'r list \<Rightarrow> u64 set" where
  "covered m k xs = (\<Union>x \<in> {x \<in> set xs. same m x k}. ivl (lo m x) (hi m x))"

lemma covered_simps [simp]:
  "covered m k [] = {}"
  "covered m k (x # xs) = (if same m x k then ivl (lo m x) (hi m x) else {}) \<union> covered m k xs"
  "covered m k (xs @ ys) = covered m k xs \<union> covered m k ys"
  "covered m k (rev xs) = covered m k xs"
  by (auto simp: covered_def)

text \<open>
  The functional statement about the whole loop: it refuses the element only when an address would be
  covered twice, and then leaves the sequence as it is; otherwise the result is a sorted sequence that
  covers, for every kind of attributes, the old addresses and those of the new element.
\<close>

definition ins_post :: "'r merge_ops \<Rightarrow> 'r list \<Rightarrow> 'r \<Rightarrow> bool \<times> 'r list \<Rightarrow> bool" where
  "ins_post m xs e r \<longleftrightarrow>
     (if fst r then sorted_ivls m (snd r) \<and>
        (\<forall>x \<in> set xs. ivl (lo m x) (hi m x) \<inter> ivl (lo m e) (hi m e) = {}) \<and>
        (\<forall>k. covered m k (snd r) = covered m k xs \<union> (if same m e k then ivl (lo m e) (hi m e) else {}))
      else snd r = xs \<and> (\<exists>x \<in> set xs. ivl (lo m x) (hi m x) \<inter> ivl (lo m e) (hi m e) \<noteq> {}))"

lemma ivl_apart: "b \<le> c \<Longrightarrow> ivl a b \<inter> ivl c d = {}" "b \<le> c \<Longrightarrow> ivl c d \<inter> ivl a b = {}"
  by (auto simp: ivl_def dest: order.strict_trans2)

lemma ivl_meet: "c < b \<Longrightarrow> a \<le> c \<Longrightarrow> c < d \<Longrightarrow> ivl a b \<inter> ivl c d \<noteq> {}"
  by (auto simp: ivl_def intro: exI [of _ c])

lemma ivl_apart_iff: "a < b \<Longrightarrow> c < d \<Longrightarrow> ivl a b \<inter> ivl c d = {} \<longleftrightarrow> b \<le> c \<or> d \<le> a"
  using ivl_apart ivl_meet [of c b a d] ivl_meet [of a d c b] by (metis Int_commute linear not_le)

lemma sorted_split:
  "sorted_ivls m (A @ x # B) \<longleftrightarrow> sorted_ivls m (A @ B) \<and> lo m x < hi m x \<and>
     (\<forall>a \<in> set A. hi m a \<le> lo m x) \<and> (\<forall>b \<in> set B. hi m x \<le> lo m b)"
  by (auto simp: sorted_ivls_def sorted_wrt_append)

lemma sorted_valid: "sorted_ivls m xs \<Longrightarrow> x \<in> set xs \<Longrightarrow> lo m x < hi m x"
  by (simp add: sorted_ivls_def)

lemma sorted_apart:
  assumes "sorted_ivls m (A @ x # B)" and "y \<in> set (A @ B)"
  shows "ivl (lo m y) (hi m y) \<inter> ivl (lo m x) (hi m x) = {}"
proof -
  have "lo m y < hi m y" using assms sorted_valid by fastforce
  then show ?thesis using assms by (auto simp: sorted_split ivl_apart_iff simp del: mem_ivl)
qed

locale merge_laws =
  fixes m :: "'r merge_ops"
  assumes same_sym: "same m a b \<Longrightarrow> same m b a"
    and same_trans: "same m a b \<Longrightarrow> same m b c \<Longrightarrow> same m a c"
    and same_refl: "same m a a"
    and join_l: "lo m (join_l m x e) = lo m e" "hi m (join_l m x e) = hi m x" "same m (join_l m x e) x"
    and join_r: "lo m (join_r m e x) = lo m x" "hi m (join_r m e x) = hi m e" "same m (join_r m e x) e"
begin

lemma same_join: "same m (join_l m x e) k \<longleftrightarrow> same m x k" "same m (join_r m e x) k \<longleftrightarrow> same m e k"
  "same m k (join_r m e x) \<longleftrightarrow> same m k e"
  using join_l(3) join_r(3) same_trans same_sym by blast+

lemma absorbable_join:
  assumes "absorbable m e X" and "w \<in> X" and "hi m w = lo m e" and "same m w e" and "contig m w e"
    and "Y \<subseteq> X"
  shows "absorbable m (join_r m e w) Y"
  unfolding absorbable_def
proof (intro allI impI)
  fix z x
  assume "stretch m Y (join_r m e w) z" "x \<in> Y" "lo m x = hi m (join_r m e w)" "same m x (join_r m e w)"
  moreover from this have "stretch m X e z"
    using stretch.step [OF assms(2-5)] stretch_mono assms(6) by metis
  ultimately show "contig m z x"
    using assms(1,6) join_r(2) same_join(3) unfolding absorbable_def by (metis subset_iff)
qed

lemma no_overlap:
  "lo m x < hi m x \<Longrightarrow> lo m e < hi m e \<Longrightarrow>
   \<not> dll_overlap (lo m x) (hi m x) (lo m e) (hi m e) \<longleftrightarrow> hi m e \<le> lo m x \<or> hi m x \<le> lo m e"
  by (auto simp: dll_overlap_def)

lemma join_cover:
  assumes "hi m w = lo m e" and "lo m w < hi m w" and "lo m e < hi m e"
  shows "ivl (lo m w) (hi m w) \<union> ivl (lo m e) (hi m e) = ivl (lo m w) (hi m e)"
  using ivl_split [of "lo m w" "hi m w" "hi m e"] assms by simp

text \<open>Putting the element between \<open>L\<close> and \<open>R\<close>.\<close>

lemma ins_place:
  assumes "sorted_ivls m (rev L @ R)" and "lo m e < hi m e" and "\<forall>p \<in> set L. hi m p \<le> lo m e"
    and "\<forall>x \<in> set R. hi m e \<le> lo m x"
  shows "ins_post m (rev L @ R) e (True, rev L @ e # R)"
proof -
  have "ivl (lo m y) (hi m y) \<inter> ivl (lo m e) (hi m e) = {}" if "y \<in> set (rev L @ R)" for y
  proof -
    have "lo m y < hi m y" using sorted_valid [OF assms(1) that] .
    then show ?thesis using that assms(2-4) by (auto simp: ivl_apart_iff simp del: mem_ivl)
  qed
  then show ?thesis using assms by (auto simp: ins_post_def sorted_split)
qed

text \<open>Absorption by the right neighbour.\<close>

lemma ins_absorbed:
  assumes "sorted_ivls m (rev L @ x # R)" and "lo m e < hi m e" and "\<forall>p \<in> set L. hi m p \<le> lo m e"
    and "lo m x = hi m e" and "same m x e"
  shows "ins_post m (rev L @ x # R) e (True, rev L @ join_l m x e # R)"
proof -
  have lt: "lo m x < hi m x" and R: "\<forall>b \<in> set R. hi m x \<le> lo m b" and srt: "sorted_ivls m (rev L @ R)"
    using assms(1) by (auto simp: sorted_split)
  have "lo m e < hi m x" using assms(2,4) lt by simp
  then have "sorted_ivls m (rev L @ join_l m x e # R)"
    using srt R assms(3) by (simp add: sorted_split join_l)
  moreover have "\<forall>y \<in> set (rev L @ x # R). ivl (lo m y) (hi m y) \<inter> ivl (lo m e) (hi m e) = {}"
  proof
    fix y assume "y \<in> set (rev L @ x # R)"
    then consider "hi m y \<le> lo m e" | "hi m e \<le> lo m y" using assms(3,4) R lt by fastforce
    then show "ivl (lo m y) (hi m y) \<inter> ivl (lo m e) (hi m e) = {}" using ivl_apart by cases auto
  qed
  moreover have "ivl (lo m e) (hi m e) \<union> ivl (lo m x) (hi m x) = ivl (lo m e) (hi m x)"
    using ivl_split [of "lo m e" "hi m e" "hi m x"] assms(2,4) lt by simp
  moreover have "same m x k \<longleftrightarrow> same m e k" for k using assms(5) same_sym same_trans by blast
  ultimately show ?thesis by (auto simp: ins_post_def join_l same_join)
qed

text \<open>Absorbing the left neighbour \<open>x\<close>: what holds for the longer element holds for \<open>e\<close>.\<close>

lemma ins_post_join:
  assumes "ins_post m (A @ B) (join_r m e x) r" and srt: "sorted_ivls m (A @ x # B)" and "lo m e < hi m e"
    and "hi m x = lo m e" and "same m x e"
    and free: "\<forall>y \<in> set (A @ B). ivl (lo m y) (hi m y) \<inter> ivl (lo m x) (hi m e) = {}"
  shows "ins_post m (A @ x # B) e r"
proof -
  have lt: "lo m x < hi m x" using srt by (simp add: sorted_split)
  have u: "ivl (lo m x) (hi m e) = ivl (lo m x) (hi m x) \<union> ivl (lo m e) (hi m e)"
    using join_cover [OF assms(4) lt assms(3)] by simp
  have xe: "ivl (lo m x) (hi m x) \<inter> ivl (lo m e) (hi m e) = {}" using ivl_apart assms(4) by simp
  have k: "same m x k \<longleftrightarrow> same m e k" for k using assms(5) same_sym same_trans by blast
  have p: "fst r" "sorted_ivls m (snd r)"
    "\<And>k. covered m k (snd r) = covered m k (A @ B) \<union> (if same m e k then ivl (lo m x) (hi m e) else {})"
    using assms(1) free by (auto simp: ins_post_def join_r same_join split: if_splits simp del: mem_ivl)
  have "covered m k (snd r) = covered m k (A @ x # B) \<union> (if same m e k then ivl (lo m e) (hi m e) else {})" for k
    unfolding p(3) using k u by auto
  moreover have "\<forall>y \<in> set (A @ x # B). ivl (lo m y) (hi m y) \<inter> ivl (lo m e) (hi m e) = {}"
    using free u xe by auto
  ultimately show ?thesis using p by (simp add: ins_post_def)
qed

lemma ins_correct_aux:
  "sorted_ivls m (rev L @ R) \<Longrightarrow> lo m e < hi m e \<Longrightarrow> \<forall>p \<in> set L. hi m p \<le> lo m e \<Longrightarrow>
   absorbable m e (set L \<union> set R) \<Longrightarrow> ins_post m (rev L @ R) e (ins m L e R)"
proof (induction "length L + 2 * length R" arbitrary: L e R rule: less_induct)
  case less
  note e = less.prems(2)
  show ?case
  proof (cases R)
    case Nil
    then show ?thesis using ins_place [of L "[]" e] less.prems by simp
  next
    case R: (Cons x R')
    have srt: "sorted_ivls m (rev L @ x # R')" using less.prems(1) R by simp
    have x: "lo m x < hi m x" "\<forall>a \<in> set L. hi m a \<le> lo m x" "\<forall>b \<in> set R'. hi m x \<le> lo m b"
      using srt by (auto simp: sorted_split)
    have pass: "ins_post m (rev L @ R) e (ins m (x # L) e R')" if "hi m x \<le> lo m e"
      using less.hyps [of "x # L" R' e] less.prems R that by (simp add: insert_commute)
    show ?thesis
    proof (cases "dll_overlap (lo m x) (hi m x) (lo m e) (hi m e)")
      case True
      then have "ivl (lo m x) (hi m x) \<inter> ivl (lo m e) (hi m e) \<noteq> {}" using dll_overlap_iff x(1) e by blast
      then show ?thesis using True R by (auto simp: ins_post_def)
    next
      case nov: False
      then consider (left) "hi m e \<le> lo m x" | (right) "hi m x \<le> lo m e" using no_overlap x(1) e by blast
      then show ?thesis
      proof cases
        case left
        have R': "\<forall>b \<in> set (x # R'). hi m e \<le> lo m b" using left x(1,3) by fastforce
        show ?thesis
        proof (cases "lo m x = hi m e \<and> same m x e")
          case True
          have "contig m e x" using less.prems(4) True R stretch.refl by (fastforce simp: absorbable_def)
          then show ?thesis using ins_absorbed [OF srt e less.prems(3)] True nov R by simp
        next
          case False
          then have "hi m e < lo m x \<or> lo m x = hi m e \<and> \<not> same m x e" using left by auto
          then show ?thesis using ins_place [OF srt e less.prems(3) R'] nov R by simp
        qed
      next
        case right
        have nle: "\<not> hi m e < lo m x" "lo m x \<noteq> hi m e"
          using right x(1) e by (auto dest: order.strict_trans)
        show ?thesis
        proof (cases "hi m x = lo m e \<and> contig m x e \<and> same m x e")
          case False
          then have "ins m L e R = ins m (x # L) e R'" using R nov nle right by auto
          then show ?thesis using pass right by simp
        next
          case merge: True
          define bad where "bad = (case R' of [] \<Rightarrow> False | y # _ \<Rightarrow> dll_overlap (lo m x) (hi m e) (lo m y) (hi m y))"
          have eq: "ins m L e R = (if bad then (False, rev L @ R) else case L of [] \<Rightarrow> ins m [] (join_r m e x) R'
                                   | p # L' \<Rightarrow> ins m L' (join_r m e x) (p # R'))"
            using R nov nle merge by (simp add: bad_def)
          show ?thesis
          proof (cases bad)
            case True
            then obtain y R'' where y: "R' = y # R''" "dll_overlap (lo m x) (hi m e) (lo m y) (hi m y)"
              by (auto simp: bad_def split: list.splits)
            have ly: "lo m y < hi m y" using sorted_valid [OF srt] y(1) by simp
            have "hi m x \<le> lo m y" using x(3) y(1) by simp
            then have "lo m e \<le> lo m y" "\<not> hi m y \<le> lo m x" using merge ly x(1) by auto
            moreover have "lo m x < hi m e" using x(1) e merge by auto
            ultimately have "dll_overlap (lo m e) (hi m e) (lo m y) (hi m y)"
              using y(2) ly by (auto simp: dll_overlap_def)
            then have "ivl (lo m y) (hi m y) \<inter> ivl (lo m e) (hi m e) \<noteq> {}"
              using dll_overlap_iff [OF e ly] by blast
            then show ?thesis using eq True R y(1) by (auto simp: ins_post_def)
          next
            case nb: False
            have ab: "absorbable m (join_r m e x) (set L \<union> set R')"
              using absorbable_join [of e "set L \<union> set R" x "set L \<union> set R'"] less.prems(4) merge R by auto
            have lt: "lo m (join_r m e x) < hi m (join_r m e x)"
              using x(1) e merge by (auto simp: join_r dest: order.strict_trans)
            have so: "sorted_ivls m (rev L @ R')" using srt by (simp add: sorted_split)
            have "ins_post m (rev L @ R') (join_r m e x) (ins m L e R)"
            proof (cases L)
              case Nil
              then show ?thesis using less.hyps [of "[]" R' "join_r m e x"] so lt ab eq nb R by simp
            next
              case (Cons p L')
              then show ?thesis
                using less.hyps [of L' "p # R'" "join_r m e x"] so lt ab eq nb R x(2)
                by (simp add: join_r insert_commute)
            qed
            moreover have "\<forall>y \<in> set (rev L @ R'). ivl (lo m y) (hi m y) \<inter> ivl (lo m x) (hi m e) = {}"
            proof
              fix y assume y: "y \<in> set (rev L @ R')"
              have "lo m x < hi m e" using x(1) e merge by auto
              moreover have "lo m y < hi m y" using sorted_valid [OF so y] .
              moreover have "hi m e \<le> lo m b" if b: "b \<in> set R'" for b
              proof -
                obtain c R'' where c: "R' = c # R''" using b by (cases R') auto
                have "lo m c < hi m c" "hi m x \<le> lo m c" using sorted_valid [OF so] x(3) c by auto
                then have "hi m e \<le> lo m c"
                  using nb c x(1) by (auto simp: bad_def dll_overlap_def)
                moreover have "c = b \<or> hi m c \<le> lo m b" using so b c by (auto simp: sorted_split)
                ultimately show ?thesis using \<open>lo m c < hi m c\<close> by auto
              qed
              ultimately show "ivl (lo m y) (hi m y) \<inter> ivl (lo m x) (hi m e) = {}"
                using y x(2) by (auto simp: ivl_apart_iff simp del: mem_ivl)
            qed
            ultimately show ?thesis using ins_post_join [OF _ srt e] merge R by simp
          qed
        qed
      qed
    qed
  qed
qed

lemma ins_correct:
  "sorted_ivls m R \<Longrightarrow> lo m e < hi m e \<Longrightarrow> absorbable m e (set R) \<Longrightarrow> ins_post m R e (ins m [] e R)"
  using ins_correct_aux [of "[]" R e] by simp

end

end
