(* ===== verification/Enclave_State.thy ===== *)
theory Enclave_State
  imports Capabilities
begin

text \<open>
  The data of the enclave driver: \<open>modules/libraries/enclave/include/tyche_enclave.h\<close> (the messages of
  its ioctl interface) and \<open>modules/libraries/enclave/src/internal/enclave.h\<close> (its own structs), and
  the heap they live in.  A struct type has one map from addresses to structs; every \<open>dll_elem\<close> field
  has its own map of links, with the same addresses.  Freeing a struct removes it from the struct map
  and from the maps of all its link fields.
\<close>

section \<open>Messages\<close>

type_synonym tyche_encl_handle_t = domain_id_t
type_synonym tyche_encl_mapping_t = capability_type_t

definition TE_READ :: u64 where "TE_READ = CAPA_READ"
definition TE_WRITE :: u64 where "TE_WRITE = CAPA_WRITE"
definition TE_EXEC :: u64 where "TE_EXEC = CAPA_EXEC"
definition TE_USER :: u64 where "TE_USER = push_bit 1 CAPA_REVOK"
definition TE_DEFAULT :: u64 where "TE_DEFAULT = TE_READ OR TE_WRITE OR TE_EXEC"

lemmas te_consts = TE_READ_def TE_WRITE_def TE_EXEC_def TE_USER_def TE_DEFAULT_def

record tyche_encl_add_region_t =
  m_handle :: tyche_encl_handle_t
  m_start :: u64
  m_end :: u64
  m_src :: u64
  m_flags :: u64
  m_tpe :: tyche_encl_mapping_t

record tyche_encl_commit_t =
  cm_handle :: tyche_encl_handle_t
  cm_domain_handle :: domain_id_t
  cm_stack :: u64
  cm_entry :: u64

record tyche_encl_transition_t =
  t_handle :: tyche_encl_handle_t
  t_args :: u64

section \<open>Structs of the driver\<close>

record region_t =
  r_start :: u64
  r_end :: u64
  r_src :: u64
  r_flags :: u64
  r_tpe :: tyche_encl_mapping_t
  pas :: dll_list

record pa_region_t =
  p_start :: u64
  p_end :: u64
  p_tpe :: tyche_encl_mapping_t

record enclave_t =
  pid :: u32
  e_handle :: tyche_encl_handle_t
  tyche_handle :: domain_id_t
  invoke :: capa_index_t
  cr3 :: u64
  e_entry :: u64
  stack :: u64
  pts :: dll_list
  regions :: dll_list
  all_pages :: dll_list

text \<open>
  The heap of the driver extends the one of the capability library, which it calls.  \<open>pt_mem\<close> holds
  the page-table pages, entry by entry, by virtual address; \<open>page_pool\<close> is what the successive calls
  of \<open>alloc_pages_exact\<close> return; \<open>current_pid\<close> is \<open>current->pid\<close>.
\<close>

record 'm estate = "'m tstate" +
  encls :: "ptr \<rightharpoonup> enclave_t"
  encl_links :: links
  regs :: "ptr \<rightharpoonup> region_t"
  reg_links :: links
  pars :: "ptr \<rightharpoonup> pa_region_t"
  pa_links :: links
  glob_links :: links
  enclaves :: dll_list
  current_pid :: u32
  tyche_ids :: u64
  pt_mem :: "u64 \<rightharpoonup> u64"
  page_pool :: "nat \<Rightarrow> u64 option"
  page_next :: nat
  other_cr3 :: u64

section \<open>Allocation\<close>

definition alloc_region ::
  "('m, 'z) estate_scheme \<Rightarrow> ptr option \<times> ('m, 'z) estate_scheme" where
  "alloc_region s = (let (p, s) = kmalloc s in
     case p of None \<Rightarrow> (None, s)
     | Some q \<Rightarrow> (Some q, s\<lparr>
         regs := (regs s)(q \<mapsto> \<lparr>r_start = junk s, r_end = junk s, r_src = junk s, r_flags = junk s,
                                r_tpe = ucast (junk s), pas = \<lparr>head = junkp s, tail = junkp s\<rparr>\<rparr>),
         reg_links := (reg_links s)(q \<mapsto> \<lparr>prev = junkp s, nxt = junkp s\<rparr>)\<rparr>))"

definition alloc_pa ::
  "('m, 'z) estate_scheme \<Rightarrow> ptr option \<times> ('m, 'z) estate_scheme" where
  "alloc_pa s = (let (p, s) = kmalloc s in
     case p of None \<Rightarrow> (None, s)
     | Some q \<Rightarrow> (Some q, s\<lparr>
         pars := (pars s)(q \<mapsto> \<lparr>p_start = junk s, p_end = junk s, p_tpe = ucast (junk s)\<rparr>),
         pa_links := (pa_links s)(q \<mapsto> \<lparr>prev = junkp s, nxt = junkp s\<rparr>),
         glob_links := (glob_links s)(q \<mapsto> \<lparr>prev = junkp s, nxt = junkp s\<rparr>)\<rparr>))"

definition alloc_enclave ::
  "('m, 'z) estate_scheme \<Rightarrow> ptr option \<times> ('m, 'z) estate_scheme" where
  "alloc_enclave s = (let (p, s) = kmalloc s; jl = \<lparr>head = junkp s, tail = junkp s\<rparr> in
     case p of None \<Rightarrow> (None, s)
     | Some q \<Rightarrow> (Some q, s\<lparr>
         encls := (encls s)(q \<mapsto> \<lparr>pid = ucast (junk s), e_handle = junk s, tyche_handle = junk s,
           invoke = junk s, cr3 = junk s, e_entry = junk s, stack = junk s, pts = jl, regions = jl,
           all_pages = jl\<rparr>),
         encl_links := (encl_links s)(q \<mapsto> \<lparr>prev = junkp s, nxt = junkp s\<rparr>)\<rparr>))"

definition free_region ::
  "ptr \<Rightarrow> ('m, 'z) estate_scheme \<Rightarrow> ('m, 'z) estate_scheme option" where
  "free_region p s = do {
     h \<leftarrow> kfree p (regs s);
     lk \<leftarrow> kfree p (reg_links s);
     Some (s\<lparr>regs := h, reg_links := lk\<rparr>) }"

definition free_pa ::
  "ptr \<Rightarrow> ('m, 'z) estate_scheme \<Rightarrow> ('m, 'z) estate_scheme option" where
  "free_pa p s = do {
     h \<leftarrow> kfree p (pars s);
     lk \<leftarrow> kfree p (pa_links s);
     gl \<leftarrow> kfree p (glob_links s);
     Some (s\<lparr>pars := h, pa_links := lk, glob_links := gl\<rparr>) }"

definition free_enclave ::
  "ptr \<Rightarrow> ('m, 'z) estate_scheme \<Rightarrow> ('m, 'z) estate_scheme option" where
  "free_enclave p s = do {
     h \<leftarrow> kfree p (encls s);
     lk \<leftarrow> kfree p (encl_links s);
     Some (s\<lparr>encls := h, encl_links := lk\<rparr>) }"

section \<open>The lists of the driver\<close>

definition regions_remove ::
  "ptr \<Rightarrow> ptr \<Rightarrow> ('m, 'z) estate_scheme \<Rightarrow> ('m, 'z) estate_scheme option" where
  "regions_remove e r s = do {
     c \<leftarrow> encls s e;
     (l, lk) \<leftarrow> dll_remove r (regions c, reg_links s);
     Some (s\<lparr>encls := (encls s)(e \<mapsto> c\<lparr>regions := l\<rparr>), reg_links := lk\<rparr>) }"

definition regions_add_after ::
  "ptr \<Rightarrow> ptr \<Rightarrow> ptr \<Rightarrow> ('m, 'z) estate_scheme \<Rightarrow> ('m, 'z) estate_scheme option" where
  "regions_add_after e r p s = do {
     c \<leftarrow> encls s e;
     (l, lk) \<leftarrow> dll_add_after r p (regions c, reg_links s);
     Some (s\<lparr>encls := (encls s)(e \<mapsto> c\<lparr>regions := l\<rparr>), reg_links := lk\<rparr>) }"

definition regions_add_first ::
  "ptr \<Rightarrow> ptr \<Rightarrow> ('m, 'z) estate_scheme \<Rightarrow> ('m, 'z) estate_scheme option" where
  "regions_add_first e r s = do {
     c \<leftarrow> encls s e;
     (l, lk) \<leftarrow> dll_add_first r (regions c, reg_links s);
     Some (s\<lparr>encls := (encls s)(e \<mapsto> c\<lparr>regions := l\<rparr>), reg_links := lk\<rparr>) }"

definition globals_remove ::
  "ptr \<Rightarrow> ptr \<Rightarrow> ('m, 'z) estate_scheme \<Rightarrow> ('m, 'z) estate_scheme option" where
  "globals_remove e r s = do {
     c \<leftarrow> encls s e;
     (l, lk) \<leftarrow> dll_remove r (all_pages c, glob_links s);
     Some (s\<lparr>encls := (encls s)(e \<mapsto> c\<lparr>all_pages := l\<rparr>), glob_links := lk\<rparr>) }"

definition globals_add_after ::
  "ptr \<Rightarrow> ptr \<Rightarrow> ptr \<Rightarrow> ('m, 'z) estate_scheme \<Rightarrow> ('m, 'z) estate_scheme option" where
  "globals_add_after e r p s = do {
     c \<leftarrow> encls s e;
     (l, lk) \<leftarrow> dll_add_after r p (all_pages c, glob_links s);
     Some (s\<lparr>encls := (encls s)(e \<mapsto> c\<lparr>all_pages := l\<rparr>), glob_links := lk\<rparr>) }"

definition globals_add_first ::
  "ptr \<Rightarrow> ptr \<Rightarrow> ('m, 'z) estate_scheme \<Rightarrow> ('m, 'z) estate_scheme option" where
  "globals_add_first e r s = do {
     c \<leftarrow> encls s e;
     (l, lk) \<leftarrow> dll_add_first r (all_pages c, glob_links s);
     Some (s\<lparr>encls := (encls s)(e \<mapsto> c\<lparr>all_pages := l\<rparr>), glob_links := lk\<rparr>) }"

definition pas_add ::
  "ptr \<Rightarrow> ptr \<Rightarrow> ('m, 'z) estate_scheme \<Rightarrow> ('m, 'z) estate_scheme option" where
  "pas_add r p s = do {
     c \<leftarrow> regs s r;
     (l, lk) \<leftarrow> dll_add p (pas c, pa_links s);
     Some (s\<lparr>regs := (regs s)(r \<mapsto> c\<lparr>pas := l\<rparr>), pa_links := lk\<rparr>) }"

definition pas_remove ::
  "ptr \<Rightarrow> ptr \<Rightarrow> ('m, 'z) estate_scheme \<Rightarrow> ('m, 'z) estate_scheme option" where
  "pas_remove r p s = do {
     c \<leftarrow> regs s r;
     (l, lk) \<leftarrow> dll_remove p (pas c, pa_links s);
     Some (s\<lparr>regs := (regs s)(r \<mapsto> c\<lparr>pas := l\<rparr>), pa_links := lk\<rparr>) }"

definition pts_add ::
  "ptr \<Rightarrow> ptr \<Rightarrow> ('m, 'z) estate_scheme \<Rightarrow> ('m, 'z) estate_scheme option" where
  "pts_add e p s = do {
     c \<leftarrow> encls s e;
     (l, lk) \<leftarrow> dll_add p (pts c, pa_links s);
     Some (s\<lparr>encls := (encls s)(e \<mapsto> c\<lparr>pts := l\<rparr>), pa_links := lk\<rparr>) }"

definition pts_remove ::
  "ptr \<Rightarrow> ptr \<Rightarrow> ('m, 'z) estate_scheme \<Rightarrow> ('m, 'z) estate_scheme option" where
  "pts_remove e p s = do {
     c \<leftarrow> encls s e;
     (l, lk) \<leftarrow> dll_remove p (pts c, pa_links s);
     Some (s\<lparr>encls := (encls s)(e \<mapsto> c\<lparr>pts := l\<rparr>), pa_links := lk\<rparr>) }"

definition enclaves_add ::
  "ptr \<Rightarrow> ('m, 'z) estate_scheme \<Rightarrow> ('m, 'z) estate_scheme option" where
  "enclaves_add e s = do {
     (l, lk) \<leftarrow> dll_add e (enclaves s, encl_links s);
     Some (s\<lparr>enclaves := l, encl_links := lk\<rparr>) }"

definition enclaves_remove ::
  "ptr \<Rightarrow> ('m, 'z) estate_scheme \<Rightarrow> ('m, 'z) estate_scheme option" where
  "enclaves_remove e s = do {
     (l, lk) \<leftarrow> dll_remove e (enclaves s, encl_links s);
     Some (s\<lparr>enclaves := l, encl_links := lk\<rparr>) }"

end
