(* ===== verification/Enclave.thy ===== *)
theory Enclave
  imports Enclave_State
begin

text \<open>
  The region and enclave bookkeeping of \<open>modules/libraries/enclave/src/internal/enclave.c\<close>, with the
  hypercall forwarders of \<open>tyche_vmcall.c\<close>.  The messages printed with \<open>pr_err\<close> and \<open>printk\<close> have no
  effect on the state.  The two insertion loops (\<open>add_region\<close>, \<open>add_merge_global\<close>) are functions into
  \<open>option\<close> of their own; their result says how the loop was left.
\<close>

section \<open>tyche_vmcall.c\<close>

definition tyche_domain_create ::
  "'m monitor \<Rightarrow> ptr option \<Rightarrow> ('m, 'z) estate_scheme \<Rightarrow> (c_int \<times> ('m, 'z) estate_scheme) option" where
  "tyche_domain_create vmc encl s = (case encl of None \<Rightarrow> Some (FAIL, s)
     | Some p \<Rightarrow> do {
         c \<leftarrow> encls s p;
         let (rc, h, s) = tc_create_domain vmc (Some (tyche_handle c)) s;
         Some (rc, s\<lparr>encls := (encls s)(p \<mapsto> c\<lparr>tyche_handle := the h\<rparr>)\<rparr>) })"

definition tyche_split_grant ::
  "'m monitor \<Rightarrow> ptr option \<Rightarrow> ptr option \<Rightarrow> ('m, 'z) estate_scheme \<Rightarrow>
   (c_int \<times> ('m, 'z) estate_scheme) option" where
  "tyche_split_grant vmc enclave region s = (case (enclave, region) of
     (Some e, Some r) \<Rightarrow> do {
       c \<leftarrow> encls s e;
       x \<leftarrow> pars s r;
       tc_transfer_capability vmc (tyche_handle c) (p_start x) (p_end x) (p_tpe x) s }
   | _ \<Rightarrow> Some (FAIL, s))"

definition tyche_seal_enclave ::
  "'m monitor \<Rightarrow> ptr option \<Rightarrow> ('m, 'z) estate_scheme \<Rightarrow> (c_int \<times> ('m, 'z) estate_scheme) option" where
  "tyche_seal_enclave vmc enclave s = (case enclave of None \<Rightarrow> Some (FAIL, s)
     | Some e \<Rightarrow> do {
         c \<leftarrow> encls s e;
         (rc, i, s) \<leftarrow> tc_seal_domain vmc (tyche_handle c) (cr3 c) (e_entry c) (stack c) (Some (invoke c)) s;
         Some (rc, s\<lparr>encls := (encls s)(e \<mapsto> c\<lparr>invoke := the i\<rparr>)\<rparr>) })"

definition tyche_revoke_region ::
  "'m monitor \<Rightarrow> domain_id_t \<Rightarrow> paddr_t \<Rightarrow> paddr_t \<Rightarrow> ('m, 'z) estate_scheme \<Rightarrow>
   (c_int \<times> ('m, 'z) estate_scheme) option" where
  "tyche_revoke_region vmc did start stop s = tc_revoke_region vmc did start stop s"

section \<open>Checks\<close>

definition compare_encl :: "tyche_encl_handle_t \<Rightarrow> tyche_encl_handle_t \<Rightarrow> bool" where
  "compare_encl first second \<longleftrightarrow> first = second"

definition overlap :: "u64 \<Rightarrow> u64 \<Rightarrow> u64 \<Rightarrow> u64 \<Rightarrow> bool" where
  "overlap s1 e1 s2 e2 =
     (if s1 \<le> s2 \<and> s2 < e1 then True else if s2 \<le> s1 \<and> s1 < e2 then True else False)"

definition region_check :: "tyche_encl_add_region_t option \<Rightarrow> bool" where
  "region_check region = (case region of None \<Rightarrow> False
     | Some r \<Rightarrow>
         if m_start r mod 0x1000 \<noteq> 0 \<or> m_end r mod 0x1000 \<noteq> 0 \<or> m_src r mod 0x1000 \<noteq> 0 then False
         else if \<not> (m_start r < m_end r) then False
         else if m_flags r = 0 then False
         else if m_flags r AND TE_EXEC \<noteq> 0 \<and> m_flags r AND TE_WRITE \<noteq> 0 then False
         else if m_tpe r > MaxTpe \<or> m_tpe r < MinTpe then False
         else True)"

definition find_enclave ::
  "tyche_encl_handle_t \<Rightarrow> ('m, 'z) estate_scheme \<Rightarrow> ptr option option" where
  "find_enclave hdl s = do {
     encl \<leftarrow> dll_find (\<lambda>p. map_option (\<lambda>c. e_handle c = hdl) (encls s p)) (encl_links s) (head (enclaves s));
     case encl of None \<Rightarrow> Some None
     | Some p \<Rightarrow> do {
         c \<leftarrow> encls s p;
         if pid c \<noteq> current_pid s then Some None else Some (Some p) } }"

definition enclave_init :: "('m, 'z) estate_scheme \<Rightarrow> ('m, 'z) estate_scheme" where
  "enclave_init s = s\<lparr>enclaves := dll_init_list\<rparr>"

definition add_enclave ::
  "'m monitor \<Rightarrow> tyche_encl_handle_t \<Rightarrow> ('m, 'z) estate_scheme \<Rightarrow>
   (c_int \<times> ('m, 'z) estate_scheme) option" where
  "add_enclave vmc hdl s = do {
     dup \<leftarrow> dll_find (\<lambda>p. map_option (\<lambda>c. compare_encl (e_handle c) hdl) (encls s p))
             (encl_links s) (head (enclaves s));
     if dup \<noteq> None then Some (FAIL, s)
     else case alloc_enclave s of
       (None, s) \<Rightarrow> Some (FAIL, s)
     | (Some p, s) \<Rightarrow> do {
         c \<leftarrow> encls s p;
         let c = c\<lparr>pid := current_pid s, e_handle := hdl, regions := dll_init_list, pts := dll_init_list,
                   all_pages := dll_init_list\<rparr>;
         lk \<leftarrow> dll_init_elem p (encl_links s);
         s \<leftarrow> enclaves_add p (s\<lparr>encls := (encls s)(p \<mapsto> c), encl_links := lk\<rparr>);
         (rc, s) \<leftarrow> tyche_domain_create vmc (Some p) s;
         if rc \<noteq> 0 then do { s \<leftarrow> enclaves_remove p s; Some (FAIL, s) }
         else Some (OK, s) } }"

text \<open>\<open>delete_region_pas\<close> frees the elements but leaves the list head of the region as it is.\<close>

partial_function (option) free_pas ::
  "ptr option \<Rightarrow> ('m, 'z) estate_scheme \<Rightarrow> ('m, 'z) estate_scheme option" where
  "free_pas cur s = (case cur of None \<Rightarrow> Some s
     | Some p \<Rightarrow> do {
         x \<leftarrow> pa_links s p;
         s \<leftarrow> free_pa p s;
         free_pas (nxt x) s })"

definition delete_region_pas ::
  "ptr \<Rightarrow> ('m, 'z) estate_scheme \<Rightarrow> ('m, 'z) estate_scheme option" where
  "delete_region_pas region s = do {
     r \<leftarrow> regs s region;
     free_pas (head (pas r)) s }"

section \<open>add_region\<close>

text \<open>How an insertion loop is left: the element overlaps, it was merged into its right neighbour (and
  freed), or it has to be linked in behind \<open>prev\<close>.\<close>

datatype scan = Overlaps | Merged | Place "ptr option"

partial_function (option) add_region_loop ::
  "ptr \<Rightarrow> ptr \<Rightarrow> ptr option \<Rightarrow> ptr option \<Rightarrow> ('m, 'z) estate_scheme \<Rightarrow>
   (scan \<times> ('m, 'z) estate_scheme) option" where
  "add_region_loop encl e_reg reg_iter prv s = (case reg_iter of None \<Rightarrow> Some (Place prv, s)
     | Some i \<Rightarrow> do {
         x \<leftarrow> regs s i;
         e \<leftarrow> regs s e_reg;
         if overlap (r_start x) (r_end x) (r_start e) (r_end e) then Some (Overlaps, s)
         else if r_start x > r_end e \<or>
                 (r_start x = r_end e \<and> (r_tpe x \<noteq> r_tpe e \<or> r_flags x \<noteq> r_flags e))
         then Some (Place prv, s)
         else if r_start x = r_end e \<and> r_src x = r_src e + (r_end e - r_start e) \<and>
                 r_tpe x = r_tpe e \<and> r_flags x = r_flags e
         then do {
           let s = s\<lparr>regs := (regs s)(i \<mapsto> x\<lparr>r_start := r_start e, r_src := r_src e\<rparr>)\<rparr>;
           s \<leftarrow> free_region e_reg s;
           Some (Merged, s) }
         else if r_end x < r_start e \<or>
                 (r_end x = r_start e \<and> (r_tpe x \<noteq> r_tpe e \<or> r_flags x \<noteq> r_flags e))
         then do { y \<leftarrow> reg_links s i; add_region_loop encl e_reg (nxt y) (Some i) s }
         else if r_end x = r_start e \<and> r_src e = r_src x + (r_end x - r_start x) \<and>
                 r_tpe x = r_tpe e \<and> r_flags x = r_flags e
         then do {
           y \<leftarrow> reg_links s i;
           bad \<leftarrow> (case nxt y of None \<Rightarrow> Some False
                  | Some n \<Rightarrow> do { z \<leftarrow> regs s n; Some (overlap (r_start x) (r_end e) (r_start z) (r_end z)) });
           if bad then Some (Overlaps, s)
           else do {
             let s = s\<lparr>regs := (regs s)(e_reg \<mapsto> e\<lparr>r_start := r_start x\<rparr>)\<rparr>;
             s \<leftarrow> regions_remove encl i s;
             s \<leftarrow> free_region i s;
             case prv of
               Some p \<Rightarrow> do { y \<leftarrow> reg_links s p; add_region_loop encl e_reg (Some p) (prev y) s }
             | None \<Rightarrow> do { c \<leftarrow> encls s encl; add_region_loop encl e_reg (head (regions c)) None s } } }
         else do { y \<leftarrow> reg_links s i; add_region_loop encl e_reg (nxt y) (Some i) s } })"

definition add_region ::
  "tyche_encl_add_region_t \<Rightarrow> ('m, 'z) estate_scheme \<Rightarrow> (c_int \<times> ('m, 'z) estate_scheme) option" where
  "add_region region s = do {
     found \<leftarrow> find_enclave (m_handle region) s;
     case found of None \<Rightarrow> Some (FAIL, s)
     | Some encl \<Rightarrow>
         if \<not> region_check (Some region) then Some (FAIL, s)
         else case alloc_region s of
           (None, s) \<Rightarrow> Some (FAIL, s)
         | (Some e_reg, s) \<Rightarrow> do {
             let s = s\<lparr>regs := (regs s)(e_reg \<mapsto>
                       \<lparr>r_start = m_start region, r_end = m_end region, r_src = m_src region,
                        r_flags = m_flags region, r_tpe = m_tpe region, pas = dll_init_list\<rparr>)\<rparr>;
             lk \<leftarrow> dll_init_elem e_reg (reg_links s);
             let s = s\<lparr>reg_links := lk\<rparr>;
             c \<leftarrow> encls s encl;
             (how, s) \<leftarrow> add_region_loop encl e_reg (head (regions c)) None s;
             case how of
               Overlaps \<Rightarrow> do { s \<leftarrow> free_region e_reg s; Some (FAIL, s) }
             | Merged \<Rightarrow> Some (OK, s)
             | Place (Some p) \<Rightarrow> do { s \<leftarrow> regions_add_after encl e_reg p s; Some (OK, s) }
             | Place None \<Rightarrow> do { s \<leftarrow> regions_add_first encl e_reg s; Some (OK, s) } } }"

definition add_stack_region ::
  "tyche_encl_add_region_t \<Rightarrow> ('m, 'z) estate_scheme \<Rightarrow> (c_int \<times> ('m, 'z) estate_scheme) option" where
  "add_stack_region region s = do {
     (rc, s) \<leftarrow> add_region region s;
     if rc \<noteq> 0 then Some (FAIL, s)
     else do {
       found \<leftarrow> find_enclave (m_handle region) s;
       case found of None \<Rightarrow> Some (FAIL, s)
       | Some encl \<Rightarrow> do {
           c \<leftarrow> encls s encl;
           Some (OK, s\<lparr>encls := (encls s)(encl \<mapsto> c\<lparr>stack := m_end region\<rparr>)\<rparr>) } } }"

section \<open>Physical pages\<close>

text \<open>The search for an overlap in \<open>add_pa_to_region\<close> is a \<open>dll_foreach\<close> that returns at the first hit.\<close>

definition add_pa_to_region ::
  "ptr \<Rightarrow> ptr \<Rightarrow> ('m, 'z) estate_scheme \<Rightarrow> (c_int \<times> ('m, 'z) estate_scheme) option" where
  "add_pa_to_region region pa_region s = do {
     lk \<leftarrow> dll_init_elem pa_region (pa_links s);
     let s = s\<lparr>pa_links := lk\<rparr>;
     r \<leftarrow> regs s region;
     if dll_is_empty (pas r) then do { s \<leftarrow> pas_add region pa_region s; Some (OK, s) }
     else do {
       x \<leftarrow> pars s pa_region;
       hit \<leftarrow> dll_find (\<lambda>p. map_option (\<lambda>y. overlap (p_start y) (p_end y) (p_start x) (p_end x)) (pars s p))
               (pa_links s) (head (pas r));
       if hit \<noteq> None then Some (FAIL, s)
       else do { s \<leftarrow> pas_add region pa_region s; Some (OK, s) } } }"

partial_function (option) add_merge_loop ::
  "ptr \<Rightarrow> ptr \<Rightarrow> ptr option \<Rightarrow> ptr option \<Rightarrow> ('m, 'z) estate_scheme \<Rightarrow>
   (scan \<times> ('m, 'z) estate_scheme) option" where
  "add_merge_loop enclave region iter prv s = (case iter of None \<Rightarrow> Some (Place prv, s)
     | Some i \<Rightarrow> do {
         x \<leftarrow> pars s i;
         e \<leftarrow> pars s region;
         if overlap (p_start x) (p_end x) (p_start e) (p_end e) then Some (Overlaps, s)
         else if p_start x > p_end e \<or> (p_start x = p_end e \<and> p_tpe x \<noteq> p_tpe e)
         then Some (Place prv, s)
         else if p_start x = p_end e \<and> p_tpe x = p_tpe e
         then do {
           let s = s\<lparr>pars := (pars s)(i \<mapsto> x\<lparr>p_start := p_start e\<rparr>)\<rparr>;
           s \<leftarrow> free_pa region s;
           Some (Merged, s) }
         else if p_end x < p_start e \<or> (p_end x = p_start e \<and> p_tpe x \<noteq> p_tpe e)
         then do { y \<leftarrow> glob_links s i; add_merge_loop enclave region (nxt y) (Some i) s }
         else if p_end x = p_start e \<and> p_tpe x = p_tpe e
         then do {
           y \<leftarrow> glob_links s i;
           bad \<leftarrow> (case nxt y of None \<Rightarrow> Some False
                  | Some n \<Rightarrow> do { z \<leftarrow> pars s n; Some (overlap (p_start x) (p_end e) (p_start z) (p_end z)) });
           if bad then Some (Overlaps, s)
           else do {
             let s = s\<lparr>pars := (pars s)(region \<mapsto> e\<lparr>p_start := p_start x\<rparr>)\<rparr>;
             s \<leftarrow> globals_remove enclave i s;
             s \<leftarrow> free_pa i s;
             case prv of
               Some p \<Rightarrow> do { y \<leftarrow> glob_links s p; add_merge_loop enclave region (Some p) (prev y) s }
             | None \<Rightarrow> do { c \<leftarrow> encls s enclave; add_merge_loop enclave region (head (all_pages c)) None s } } }
         else do { y \<leftarrow> glob_links s i; add_merge_loop enclave region (nxt y) (Some i) s } })"

definition add_merge_global ::
  "ptr option \<Rightarrow> ptr option \<Rightarrow> ('m, 'z) estate_scheme \<Rightarrow> (c_int \<times> ('m, 'z) estate_scheme) option" where
  "add_merge_global enclave region s = (case (enclave, region) of
     (Some encl, Some r) \<Rightarrow> do {
       c \<leftarrow> encls s encl;
       (how, s) \<leftarrow> add_merge_loop encl r (head (all_pages c)) None s;
       case how of
         Overlaps \<Rightarrow> Some (FAIL, s)
       | Merged \<Rightarrow> Some (OK, s)
       | Place (Some p) \<Rightarrow> do { s \<leftarrow> globals_add_after encl r p s; Some (OK, s) }
       | Place None \<Rightarrow> do { s \<leftarrow> globals_add_first encl r s; Some (OK, s) } }
   | _ \<Rightarrow> Some (FAIL, s))"

end
