(* ===== verification/Merge_Heap.thy ===== *)
theory Merge_Heap
  imports Merge_List Enclave
begin

text \<open>
  The insertion loops of \<open>enclave.c\<close> as implementations of \<open>Merge_List.ins\<close>.  The locale \<open>ins_heap\<close> says
  how one round of a loop on the heap acts on the sequence that the list threads; its lemma turns the
  rounds into the statement about the whole loop, including that it ends.
\<close>

definition fstp :: "(ptr \<times> 'r) list \<Rightarrow> ptr option" where
  "fstp xs = (case xs of [] \<Rightarrow> None | x # _ \<Rightarrow> Some (fst x))"

lemma fstp_simps [simp]: "fstp [] = None" "fstp (x # xs) = Some (fst x)"
  by (simp_all add: fstp_def)

lemma fstp_rev: "fstp (rev (xs @ [x])) = Some (fst x)"
  by simp

text \<open>
  \<open>view s xs n\<close>: the list threads the elements \<open>xs\<close> (address and content) and \<open>n\<close> is the new element,
  not linked in (\<open>None\<close> once it has been freed).
\<close>

locale ins_heap =
  fixes m :: "'r merge_ops"
    and view :: "'s \<Rightarrow> (ptr \<times> 'r) list \<Rightarrow> (ptr \<times> 'r) option \<Rightarrow> bool"
    and loop :: "ptr \<Rightarrow> ptr option \<Rightarrow> ptr option \<Rightarrow> 's \<Rightarrow> (scan \<times> 's) option"
  assumes at_end: "loop q None prv s = Some (Place prv, s)"
    and overlapping: "view s (L @ (i, x) # R) (Some (q, e)) \<Longrightarrow>
      dll_overlap (lo m x) (hi m x) (lo m e) (hi m e) \<Longrightarrow> loop q (Some i) prv s = Some (Overlaps, s)"
    and place: "view s (L @ (i, x) # R) (Some (q, e)) \<Longrightarrow>
      \<not> dll_overlap (lo m x) (hi m x) (lo m e) (hi m e) \<Longrightarrow>
      lo m x > hi m e \<or> (lo m x = hi m e \<and> \<not> same m x e) \<Longrightarrow>
      loop q (Some i) prv s = Some (Place prv, s)"
    and absorbed: "view s (L @ (i, x) # R) (Some (q, e)) \<Longrightarrow>
      \<not> dll_overlap (lo m x) (hi m x) (lo m e) (hi m e) \<Longrightarrow>
      lo m x = hi m e \<Longrightarrow> contig m e x \<Longrightarrow> same m x e \<Longrightarrow>
      \<exists>s'. loop q (Some i) prv s = Some (Merged, s') \<and> view s' (L @ (i, join_l m x e) # R) None"
    and pass: "view s (L @ (i, x) # R) (Some (q, e)) \<Longrightarrow>
      \<not> dll_overlap (lo m x) (hi m x) (lo m e) (hi m e) \<Longrightarrow>
      \<not> (lo m x > hi m e \<or> (lo m x = hi m e \<and> \<not> same m x e)) \<Longrightarrow>
      \<not> (lo m x = hi m e \<and> contig m e x \<and> same m x e) \<Longrightarrow>
      \<not> (hi m x = lo m e \<and> contig m x e \<and> same m x e) \<Longrightarrow>
      loop q (Some i) prv s = loop q (fstp R) (Some i) s"
    and bad_join: "view s (L @ (i, x) # (j, y) # R) (Some (q, e)) \<Longrightarrow>
      \<not> dll_overlap (lo m x) (hi m x) (lo m e) (hi m e) \<Longrightarrow>
      \<not> (lo m x > hi m e \<or> (lo m x = hi m e \<and> \<not> same m x e)) \<Longrightarrow>
      \<not> (lo m x = hi m e \<and> contig m e x \<and> same m x e) \<Longrightarrow>
      hi m x = lo m e \<Longrightarrow> contig m x e \<Longrightarrow> same m x e \<Longrightarrow>
      dll_overlap (lo m x) (hi m e) (lo m y) (hi m y) \<Longrightarrow>
      loop q (Some i) prv s = Some (Overlaps, s)"
    and join: "view s (rev L @ (i, x) # R) (Some (q, e)) \<Longrightarrow>
      \<not> dll_overlap (lo m x) (hi m x) (lo m e) (hi m e) \<Longrightarrow>
      \<not> (lo m x > hi m e \<or> (lo m x = hi m e \<and> \<not> same m x e)) \<Longrightarrow>
      \<not> (lo m x = hi m e \<and> contig m e x \<and> same m x e) \<Longrightarrow>
      hi m x = lo m e \<Longrightarrow> contig m x e \<Longrightarrow> same m x e \<Longrightarrow>
      (case R of [] \<Rightarrow> False | y # _ \<Rightarrow> dll_overlap (lo m x) (hi m e) (lo m (snd y)) (hi m (snd y))) = False \<Longrightarrow>
      \<exists>s'. view s' (rev L @ R) (Some (q, join_r m e x)) \<and>
           loop q (Some i) (fstp L) s =
             (case L of [] \<Rightarrow> loop q (fstp R) None s' | p # L' \<Rightarrow> loop q (Some (fst p)) (fstp L') s')"
begin

definition outcome :: "ptr \<Rightarrow> scan \<Rightarrow> 's \<Rightarrow> bool \<times> 'r list \<Rightarrow> bool" where
  "outcome q how s' r \<longleftrightarrow> (case how of
     Overlaps \<Rightarrow> \<not> fst r \<and> (\<exists>xs e. view s' xs (Some (q, e)) \<and> snd r = map snd xs)
   | Merged \<Rightarrow> fst r \<and> (\<exists>xs. view s' xs None \<and> snd r = map snd xs)
   | Place p \<Rightarrow> fst r \<and> (\<exists>A B e. view s' (rev A @ B) (Some (q, e)) \<and> p = fstp A \<and>
        snd r = map snd (rev A) @ e # map snd B))"

lemma outcome_Place:
  "view s (rev A @ B) (Some (q, e)) \<Longrightarrow> r = (True, map snd (rev A) @ e # map snd B) \<Longrightarrow>
   outcome q (Place (fstp A)) s r"
  unfolding outcome_def by auto

lemma loop_ins:
  "view s (rev L @ R) (Some (q, e)) \<Longrightarrow>
   \<exists>how s'. loop q (fstp R) (fstp L) s = Some (how, s') \<and>
     outcome q how s' (ins m (map snd L) e (map snd R))"
proof (induction "length L + 2 * length R" arbitrary: L e R s rule: less_induct)
  case less
  note v = less.prems
  show ?case
  proof (cases R)
    case Nil
    have "outcome q (Place (fstp L)) s (ins m (map snd L) e (map snd R))"
      by (rule outcome_Place [OF v]) (use Nil in \<open>simp add: rev_map\<close>)
    then show ?thesis using Nil at_end by simp
  next
    case (Cons a R')
    obtain i x where a: "a = (i, x)" by (cases a)
    have R: "R = (i, x) # R'" using Cons a by simp
    have v': "view s (rev L @ (i, x) # R') (Some (q, e))" using v R by simp
    let ?ov = "dll_overlap (lo m x) (hi m x) (lo m e) (hi m e)"
    let ?pl = "lo m x > hi m e \<or> (lo m x = hi m e \<and> \<not> same m x e)"
    let ?ab = "lo m x = hi m e \<and> contig m e x \<and> same m x e"
    let ?jn = "hi m x = lo m e \<and> contig m x e \<and> same m x e"
    consider (ov) "?ov" | (pl) "\<not> ?ov" "?pl" | (ab) "\<not> ?ov" "\<not> ?pl" "?ab"
      | (jn) "\<not> ?ov" "\<not> ?pl" "\<not> ?ab" "?jn" | (ps) "\<not> ?ov" "\<not> ?pl" "\<not> ?ab" "\<not> ?jn" by blast
    then show ?thesis
    proof cases
      case ov
      have "outcome q Overlaps s (ins m (map snd L) e (map snd R))"
        unfolding outcome_def using v R ov by (auto simp: rev_map intro!: exI [of _ "rev L @ R"])
      then show ?thesis using overlapping [OF v' ov] R by auto
    next
      case pl
      have "outcome q (Place (fstp L)) s (ins m (map snd L) e (map snd R))"
        by (rule outcome_Place [OF v]) (use R pl in \<open>auto simp: rev_map\<close>)
      then show ?thesis using place [OF v' pl] R by auto
    next
      case ab
      then obtain s' where s': "loop q (Some i) (fstp L) s = Some (Merged, s')"
        "view s' (rev L @ (i, join_l m x e) # R') None" using absorbed [OF v'] by blast
      have "outcome q Merged s' (ins m (map snd L) e (map snd R))"
        unfolding outcome_def using s'(2) R ab
        by (auto simp: rev_map intro!: exI [of _ "rev L @ (i, join_l m x e) # R'"])
      then show ?thesis using s'(1) R by auto
    next
      case ps
      have "ins m (map snd L) e (map snd R) = ins m (map snd ((i, x) # L)) e (map snd R')"
        using R ps by (simp del: not_less not_le) auto
      moreover have "loop q (fstp R) (fstp L) s = loop q (fstp R') (fstp ((i, x) # L)) s"
        using pass [OF v' ps] R by simp
      moreover have "view s (rev ((i, x) # L) @ R') (Some (q, e))" using v' by simp
      ultimately show ?thesis using less.hyps [of "(i, x) # L" R' s e] R by simp
    next
      case jn
      define bad where "bad = (case R' of [] \<Rightarrow> False | y # _ \<Rightarrow> dll_overlap (lo m x) (hi m e) (lo m (snd y)) (hi m (snd y)))"
      have n4: "\<not> (hi m x < lo m e \<or> (hi m x = lo m e \<and> \<not> same m x e))" using jn(4) by auto
      note step = ins.simps(2) [of m "map snd L" e x "map snd R'", unfolded if_not_P [OF jn(1)]
        if_not_P [OF jn(2)] if_not_P [OF jn(3)] if_not_P [OF n4] if_P [OF jn(4)]]
      have eq: "ins m (map snd L) e (map snd R) =
          (if bad then (False, map snd (rev L @ R))
           else case L of [] \<Rightarrow> ins m [] (join_r m e x) (map snd R')
                | p # L' \<Rightarrow> ins m (map snd L') (join_r m e x) (map snd (p # R')))"
        using step R by (cases L; cases R') (simp_all add: rev_map bad_def del: ins.simps)
      show ?thesis
      proof (cases bad)
        case True
        then obtain j y R'' where y: "R' = (j, y) # R''" "dll_overlap (lo m x) (hi m e) (lo m y) (hi m y)"
          by (auto simp: bad_def split: list.splits)
        have "outcome q Overlaps s (ins m (map snd L) e (map snd R))"
          unfolding outcome_def eq using v True by (auto intro!: exI [of _ "rev L @ R"])
        moreover have "loop q (Some i) (fstp L) s = Some (Overlaps, s)"
          by (rule bad_join [OF v' [unfolded y(1)]]) (use jn y in auto)
        ultimately show ?thesis using R by auto
      next
        case nb: False
        then have nb': "(case R' of [] \<Rightarrow> False | y # _ \<Rightarrow> dll_overlap (lo m x) (hi m e) (lo m (snd y)) (hi m (snd y))) = False"
          by (simp add: bad_def)
        from jn(4) have jn4: "hi m x = lo m e" "contig m x e" "same m x e" by auto
        obtain s' where s': "view s' (rev L @ R') (Some (q, join_r m e x))"
          "loop q (Some i) (fstp L) s =
             (case L of [] \<Rightarrow> loop q (fstp R') None s' | p # L' \<Rightarrow> loop q (Some (fst p)) (fstp L') s')"
          using join [OF v' jn(1-3) jn4 nb'] by blast
        show ?thesis
        proof (cases L)
          case Nil
          then show ?thesis using less.hyps [of "[]" R' s' "join_r m e x"] s' eq nb R by simp
        next
          case (Cons p L')
          then show ?thesis using less.hyps [of L' "p # R'" s' "join_r m e x"] s' eq nb R
            by (simp del: ins.simps)
        qed
      qed
    qed
  qed
qed

end

end
