(* ===== verification/Enclave_Lists.thy ===== *)
theory Enclave_Lists
  imports Merge_Heap
begin

text \<open>
  The two insertion loops of the driver as instances of \<open>ins_heap\<close>: the region list of an enclave,
  where neighbours merge only when their sources are contiguous too, and the list of all its physical
  pages.
\<close>

lemma overlap_eq: "overlap s1 e1 s2 e2 = dll_overlap s1 e1 s2 e2"
  by (simp add: overlap_def dll_overlap_def)

definition region_ops :: "region_t merge_ops" where
  "region_ops = \<lparr>lo = r_start, hi = r_end,
     same = (\<lambda>a b. r_tpe a = r_tpe b \<and> r_flags a = r_flags b),
     contig = (\<lambda>a b. r_src b = r_src a + (r_end a - r_start a)),
     join_l = (\<lambda>x e. x\<lparr>r_start := r_start e, r_src := r_src e\<rparr>),
     join_r = (\<lambda>e x. e\<lparr>r_start := r_start x\<rparr>)\<rparr>"

definition pa_ops :: "pa_region_t merge_ops" where
  "pa_ops = \<lparr>lo = p_start, hi = p_end, same = (\<lambda>a b. p_tpe a = p_tpe b), contig = (\<lambda>_ _. True),
     join_l = (\<lambda>x e. x\<lparr>p_start := p_start e\<rparr>), join_r = (\<lambda>e x. e\<lparr>p_start := p_start x\<rparr>)\<rparr>"

lemma region_ops_simps [simp]:
  "lo region_ops = r_start" "hi region_ops = r_end"
  "same region_ops a b \<longleftrightarrow> r_tpe a = r_tpe b \<and> r_flags a = r_flags b"
  "contig region_ops a b \<longleftrightarrow> r_src b = r_src a + (r_end a - r_start a)"
  "join_l region_ops a b = a\<lparr>r_start := r_start b, r_src := r_src b\<rparr>"
  "join_r region_ops a b = a\<lparr>r_start := r_start b\<rparr>"
  by (simp_all add: region_ops_def)

lemma pa_ops_simps [simp]:
  "lo pa_ops = p_start" "hi pa_ops = p_end" "same pa_ops c d \<longleftrightarrow> p_tpe c = p_tpe d" "contig pa_ops c d"
  "join_l pa_ops c d = c\<lparr>p_start := p_start d\<rparr>" "join_r pa_ops c d = c\<lparr>p_start := p_start d\<rparr>"
  by (simp_all add: pa_ops_def)

interpretation region_laws: merge_laws region_ops
  by unfold_locales auto

interpretation pa_laws: merge_laws pa_ops
  by unfold_locales auto

section \<open>A list of structs on the heap\<close>

text \<open>
  \<open>lview h0 k0 Q h k l xs n\<close>: the structs are in \<open>h\<close>, their links in \<open>k\<close>, and the list \<open>l\<close> threads the
  addresses and contents \<open>xs\<close>; \<open>n\<close> is one more struct, not linked in.  Outside the addresses \<open>Q\<close>
  nothing differs from \<open>h0\<close> and \<open>k0\<close>.
\<close>

definition live :: "(ptr \<rightharpoonup> 'r) \<Rightarrow> links \<Rightarrow> bool" where
  "live h k \<longleftrightarrow> (\<forall>p. h p = None \<longleftrightarrow> k p = None)"

definition agree :: "ptr set \<Rightarrow> (ptr \<Rightarrow> 'a) \<Rightarrow> (ptr \<Rightarrow> 'a) \<Rightarrow> bool" where
  "agree Q f g \<longleftrightarrow> (\<forall>p. p \<notin> Q \<longrightarrow> f p = g p)"

definition lview :: "(ptr \<rightharpoonup> 'r) \<Rightarrow> links \<Rightarrow> ptr set \<Rightarrow> (ptr \<rightharpoonup> 'r) \<Rightarrow> links \<Rightarrow> dll_list \<Rightarrow>
    (ptr \<times> 'r) list \<Rightarrow> (ptr \<times> 'r) option \<Rightarrow> bool" where
  "lview h0 k0 Q h k l xs n \<longleftrightarrow> dll k l (map fst xs) \<and>
     (\<forall>(p, x) \<in> set xs. h p = Some x \<and> p \<in> Q) \<and>
     (case n of None \<Rightarrow> True | Some (q, e) \<Rightarrow> h q = Some e \<and> q \<notin> set (map fst xs) \<and> q \<in> Q) \<and>
     live h k \<and> agree Q h h0 \<and> agree Q k k0"

lemma live_Some: "live h k \<Longrightarrow> h p = Some x \<Longrightarrow> \<exists>y. k p = Some y"
proof -
  assume l: "live h k" and h: "h p = Some x"
  from l have "(h p = None) = (k p = None)" by (simp add: live_def)
  then show ?thesis using h by auto
qed

lemma live_upd: "live h k \<Longrightarrow> h p = Some x \<Longrightarrow> live (h(p \<mapsto> x')) k"
  using live_Some [of h k p x] by (simp add: live_def)

lemma live_free: "live h k \<Longrightarrow> live (h(p := None)) (k(p := None))"
  by (simp add: live_def)

lemma live_links: "live h k \<Longrightarrow> links_frame k k' S \<Longrightarrow> live h k'"
  by (simp add: live_def links_frame_None)

lemma agree_upd: "agree Q f g \<Longrightarrow> p \<in> Q \<Longrightarrow> agree Q (f(p := x)) g"
  by (auto simp: agree_def)

lemma agree_links: "agree Q k g \<Longrightarrow> links_frame k k' S \<Longrightarrow> S \<subseteq> Q \<Longrightarrow> agree Q k' g"
  by (auto simp: agree_def links_frame_def)

lemma agree_refl [simp]: "agree Q f f"
  by (simp add: agree_def)

lemmas lview_rules = live_upd live_free live_links agree_upd agree_links

lemma lviewD:
  assumes "lview h0 k0 Q h k l (L @ (i, x) # R) (Some (q, e))"
  shows "h i = Some x" "h q = Some e" "i \<noteq> q" "\<exists>y. k q = Some y"
    "k i = Some \<lparr>prev = fstp (rev L), nxt = fstp R\<rparr>" "i \<in> Q" "q \<in> Q"
proof -
  have d: "dll k l (map fst L @ i # map fst R)" using assms by (simp add: lview_def)
  have "(if map fst L = [] then None else Some (last (map fst L))) = fstp (rev L)"
    by (cases L rule: rev_cases) auto
  moreover have "(case map fst R of [] \<Rightarrow> None | y # _ \<Rightarrow> Some y) = fstp R" by (cases R) auto
  ultimately show "k i = Some \<lparr>prev = fstp (rev L), nxt = fstp R\<rparr>" using dll_links [OF d] by simp
  show "h i = Some x" "h q = Some e" "i \<noteq> q" "i \<in> Q" "q \<in> Q" using assms by (auto simp: lview_def)
  then show "\<exists>y. k q = Some y" using live_Some assms unfolding lview_def by metis
qed

lemma lview_new:
  assumes "lview h0 k0 Q h k l xs (Some (q, e))"
  shows "h q = Some e" "q \<notin> set (map fst xs)" "q \<in> Q" "\<exists>y. k q = Some y"
  using assms live_Some unfolding lview_def by fastforce+

lemma lview_sub: "lview h0 k0 Q h k l xs n \<Longrightarrow> set (map fst xs) \<subseteq> Q"
  by (auto simp: lview_def)

lemma lview_nth: "lview h0 k0 Q h k l (L @ (i, x) # (j, y) # R) n \<Longrightarrow> h j = Some y"
  by (simp add: lview_def)

lemma lview_head: "lview h0 k0 Q h k l xs n \<Longrightarrow> head l = fstp xs"
  by (cases xs) (auto simp: lview_def dll_def)

lemma lview_distinct: "lview h0 k0 Q h k l xs n \<Longrightarrow> distinct (map fst xs)"
  by (auto simp: lview_def dest: dll_distinct)

lemma lview_free:
  assumes "lview h0 k0 Q h k l xs (Some (q, e))"
  shows "lview h0 k0 Q (h(q := None)) (k(q := None)) l xs None"
proof -
  note n = lview_new [OF assms]
  have d: "dll (k(q := None)) l (map fst xs)"
    by (rule dll_frame [of k]) (use assms n(2) in \<open>auto simp: lview_def\<close>)
  have m: "\<forall>(p, x) \<in> set xs. (h(q := None)) p = Some x \<and> p \<in> Q"
    using assms n(2) by (force simp: lview_def)
  show ?thesis using assms d m n(3) unfolding lview_def by (auto intro: lview_rules)
qed

lemma lview_upd:
  assumes "lview h0 k0 Q h k l (L @ (i, x) # R) n"
  shows "lview h0 k0 Q (h(i \<mapsto> x')) k l (L @ (i, x') # R) n"
proof -
  have i: "i \<notin> set (map fst (L @ R))" using lview_distinct [OF assms] by auto
  have "h i = Some x" "i \<in> Q" using assms by (auto simp: lview_def)
  moreover have "\<forall>(p, z) \<in> set (L @ (i, x') # R). (h(i \<mapsto> x')) p = Some z \<and> p \<in> Q"
    using assms i by (force simp: lview_def)
  moreover have "case n of None \<Rightarrow> True
      | Some (q, e) \<Rightarrow> (h(i \<mapsto> x')) q = Some e \<and> q \<notin> set (map fst (L @ (i, x') # R)) \<and> q \<in> Q"
    using assms by (auto simp: lview_def split: option.splits)
  moreover have "dll k l (map fst (L @ (i, x') # R))" "live h k" "agree Q h h0" "agree Q k k0"
    using assms by (auto simp: lview_def)
  ultimately show ?thesis unfolding lview_def by (auto intro: lview_rules)
qed

lemma lview_upd_new:
  assumes "lview h0 k0 Q h k l xs (Some (q, e))"
  shows "lview h0 k0 Q (h(q \<mapsto> e')) k l xs (Some (q, e'))"
proof -
  note n = lview_new [OF assms]
  have "\<forall>(p, z) \<in> set xs. (h(q \<mapsto> e')) p = Some z \<and> p \<in> Q" using assms n(2) by (force simp: lview_def)
  then show ?thesis using assms n unfolding lview_def by (auto intro: lview_rules)
qed

lemma lview_remove:
  assumes "lview h0 k0 Q h k l (L @ (i, x) # R) (Some (q, e))"
  obtains l' k' y where "dll_remove i (l, k) = Some (l', k')" "k' i = Some y"
    "lview h0 k0 Q (h(i := None)) (k'(i := None)) l' (L @ R) (Some (q, e))"
proof -
  have d: "dll k l (map fst L @ i # map fst R)" using assms by (simp add: lview_def)
  obtain l' k' where r: "dll_remove i (l, k) = Some (l', k')" "dll k' l' (map fst L @ map fst R)"
    "links_frame k k' (set (map fst L @ i # map fst R))" "k' i = Some \<lparr>prev = None, nxt = None\<rparr>"
    by (rule dll_removeE [OF d])
  note v = lviewD [OF assms]
  have i: "i \<notin> set (map fst (L @ R))" using lview_distinct [OF assms] by auto
  have d': "dll (k'(i := None)) l' (map fst (L @ R))"
    by (rule dll_frame [of k']) (use r(2) i in auto)
  have sub: "set (map fst L @ i # map fst R) \<subseteq> Q" using lview_sub [OF assms] by simp
  have lv: "live h k" "agree Q h h0" "agree Q k k0" using assms by (auto simp: lview_def)
  have m: "(h(i := None)) p = Some z \<and> p \<in> Q" if pz: "(p, z) \<in> set (L @ R)" for p z
  proof -
    have "p \<in> set (map fst (L @ R))" using pz by force
    then have "p \<noteq> i" using i by blast
    moreover have "(p, z) \<in> set (L @ (i, x) # R)" using pz by auto
    ultimately show ?thesis using assms unfolding lview_def by auto
  qed
  have "q \<notin> set (map fst (L @ R))" using lview_new(2) [OF assms] by auto
  moreover have "live (h(i := None)) (k'(i := None))" using live_free [OF live_links [OF lv(1) r(3)]] .
  moreover have "agree Q (k'(i := None)) k0" using agree_upd [OF agree_links [OF lv(3) r(3) sub] v(6)] .
  moreover have "agree Q (h(i := None)) h0" using agree_upd [OF lv(2) v(6)] .
  ultimately have "lview h0 k0 Q (h(i := None)) (k'(i := None)) l' (L @ R) (Some (q, e))"
    using d' m v unfolding lview_def by auto
  then show ?thesis using that r by blast
qed

lemma lview_add_first:
  assumes "lview h0 k0 Q h k l xs (Some (q, e))"
  obtains l' k' where "dll_add_first q (l, k) = Some (l', k')" "lview h0 k0 Q h k' l' ((q, e) # xs) None"
proof -
  note n = lview_new [OF assms]
  obtain y where y: "k q = Some y" using n(4) by blast
  have d: "dll k l (map fst xs)" using assms by (auto simp: lview_def)
  obtain l' k' where r: "dll_add_first q (l, k) = Some (l', k')" "dll k' l' (q # map fst xs)"
    "links_frame k k' (set (q # map fst xs))"
    by (rule dll_add_firstE [OF d n(2) y])
  have sub: "set (q # map fst xs) \<subseteq> Q" using lview_sub [OF assms] n(3) by simp
  have lv: "live h k" "agree Q h h0" "agree Q k k0" using assms by (auto simp: lview_def)
  have "lview h0 k0 Q h k' l' ((q, e) # xs) None"
    using live_links [OF lv(1) r(3)] agree_links [OF lv(3) r(3) sub] lv(2) assms r(2) n
    unfolding lview_def by auto
  then show ?thesis using that r by blast
qed

lemma lview_add_after:
  assumes "lview h0 k0 Q h k l (A @ (p, x) # B) (Some (q, e))"
  obtains l' k' where "dll_add_after q p (l, k) = Some (l', k')"
    "lview h0 k0 Q h k' l' (A @ (p, x) # (q, e) # B) None"
proof -
  note n = lview_new [OF assms]
  obtain y where y: "k q = Some y" using n(4) by blast
  have d: "dll k l (map fst A @ p # map fst B)" "q \<notin> set (map fst A @ p # map fst B)"
    using assms n(2) by (auto simp: lview_def)
  obtain l' k' where r: "dll_add_after q p (l, k) = Some (l', k')" "dll k' l' (map fst A @ p # q # map fst B)"
    "links_frame k k' (set (q # map fst A @ p # map fst B))"
    by (rule dll_add_afterE [OF d y])
  have sub: "set (q # map fst A @ p # map fst B) \<subseteq> Q" using lview_sub [OF assms] n(3) by simp
  have lv: "live h k" "agree Q h h0" "agree Q k k0" using assms by (auto simp: lview_def)
  have "lview h0 k0 Q h k' l' (A @ (p, x) # (q, e) # B) None"
    using live_links [OF lv(1) r(3)] agree_links [OF lv(3) r(3) sub] lv(2) assms r(2) n
    unfolding lview_def by auto
  then show ?thesis using that r by blast
qed

section \<open>The region list\<close>

text \<open>
  \<open>region_view s0 en Q s xs n\<close>: the region list of the enclave \<open>en\<close> threads \<open>xs\<close> in \<open>s\<close>; compared
  with \<open>s0\<close> nothing has changed but that list and the region structs at the addresses \<open>Q\<close>.
\<close>

definition region_view :: "('m, 'z) estate_scheme \<Rightarrow> ptr \<Rightarrow> ptr set \<Rightarrow> ('m, 'z) estate_scheme \<Rightarrow>
    (ptr \<times> region_t) list \<Rightarrow> (ptr \<times> region_t) option \<Rightarrow> bool" where
  "region_view s0 en Q s xs n \<longleftrightarrow>
     (\<exists>c l h k. encls s0 en = Some c \<and>
        s = s0\<lparr>encls := (encls s0)(en \<mapsto> c\<lparr>regions := l\<rparr>), regs := h, reg_links := k\<rparr> \<and>
        lview (regs s0) (reg_links s0) Q h k l xs n)"

lemma region_viewE:
  assumes "region_view s0 en Q s xs n"
  obtains d where "encls s en = Some d"
    "lview (regs s0) (reg_links s0) Q (regs s) (reg_links s) (regions d) xs n"
proof -
  obtain c l h k where "s = s0\<lparr>encls := (encls s0)(en \<mapsto> c\<lparr>regions := l\<rparr>), regs := h, reg_links := k\<rparr>"
    "lview (regs s0) (reg_links s0) Q h k l xs n"
    using assms unfolding region_view_def by blast
  then show ?thesis using that [of "c\<lparr>regions := l\<rparr>"] by simp
qed

lemma region_view_step:
  assumes "region_view s0 en Q s xs n" and "encls s en = Some d"
    and "lview (regs s0) (reg_links s0) Q h k l ys n'"
  shows "region_view s0 en Q (s\<lparr>encls := (encls s)(en \<mapsto> d\<lparr>regions := l\<rparr>), regs := h, reg_links := k\<rparr>) ys n'"
proof -
  obtain c l0 h0 k0 where c: "encls s0 en = Some c"
    and s: "s = s0\<lparr>encls := (encls s0)(en \<mapsto> c\<lparr>regions := l0\<rparr>), regs := h0, reg_links := k0\<rparr>"
    using assms(1) unfolding region_view_def by blast
  then have "d = c\<lparr>regions := l0\<rparr>" using assms(2) by simp
  then show ?thesis using c s assms(3) unfolding region_view_def by fastforce
qed

lemma region_view_step0:
  assumes "region_view s0 en Q s xs n" and "encls s en = Some d"
    and "lview (regs s0) (reg_links s0) Q h k (regions d) ys n'"
  shows "region_view s0 en Q (s\<lparr>regs := h, reg_links := k\<rparr>) ys n'"
proof -
  have "(encls s)(en \<mapsto> d\<lparr>regions := regions d\<rparr>) = encls s" using assms(2) by auto
  then show ?thesis using region_view_step [OF assms] by simp
qed

interpretation region_heap: ins_heap region_ops "region_view s0 en Q" "add_region_loop en"
proof (unfold_locales, goal_cases)
  case (1 q prv s)
  show ?case by (subst add_region_loop.simps) simp
next
  case (2 s L i x R q e prv)
  from 2(1) obtain d where "encls s en = Some d" and v: "lview (regs s0) (reg_links s0) Q (regs s) (reg_links s) (regions d) (L @ (i, x) # R) (Some (q, e))"
    by (rule region_viewE)
  show ?case using lviewD [OF v] 2(2) by (subst add_region_loop.simps) (simp add: overlap_eq)
next
  case (3 s L i x R q e prv)
  from 3(1) obtain d where "encls s en = Some d" and v: "lview (regs s0) (reg_links s0) Q (regs s) (reg_links s) (regions d) (L @ (i, x) # R) (Some (q, e))"
    by (rule region_viewE)
  show ?case using lviewD [OF v] 3(2,3) by (subst add_region_loop.simps) (simp add: overlap_eq)
next
  case (4 s L i x R q e prv)
  from 4(1) obtain c where c: "encls s en = Some c"
    and v: "lview (regs s0) (reg_links s0) Q (regs s) (reg_links s) (regions c) (L @ (i, x) # R) (Some (q, e))"
    by (rule region_viewE)
  note d = lviewD [OF v]
  obtain y where y: "reg_links s q = Some y" using d(4) by blast
  let ?x = "x\<lparr>r_start := r_start e, r_src := r_src e\<rparr>"
  let ?s = "s\<lparr>regs := (regs s)(i \<mapsto> ?x, q := None), reg_links := (reg_links s)(q := None)\<rparr>"
  have "add_region_loop en q (Some i) prv s = Some (Merged, ?s)"
    using 4(2-5) d(1-3) y by (subst add_region_loop.simps) (simp add: overlap_eq free_region_def Let_def)
  moreover have "region_view s0 en Q ?s (L @ (i, ?x) # R) None"
    by (rule region_view_step0 [OF 4(1) c], rule lview_free, rule lview_upd, rule v)
  ultimately show ?case by auto
next
  case (5 s L i x R q e prv)
  from 5(1) obtain d where "encls s en = Some d" and v: "lview (regs s0) (reg_links s0) Q (regs s) (reg_links s) (regions d) (L @ (i, x) # R) (Some (q, e))"
    by (rule region_viewE)
  note d = lviewD [OF v]
  have n: "\<not> overlap (r_start x) (r_end x) (r_start e) (r_end e)"
    "\<not> (r_start x > r_end e \<or> (r_start x = r_end e \<and> (r_tpe x \<noteq> r_tpe e \<or> r_flags x \<noteq> r_flags e)))"
    "\<not> (r_start x = r_end e \<and> r_src x = r_src e + (r_end e - r_start e) \<and> r_tpe x = r_tpe e \<and> r_flags x = r_flags e)"
    "\<not> (r_end x = r_start e \<and> r_src e = r_src x + (r_end x - r_start x) \<and> r_tpe x = r_tpe e \<and> r_flags x = r_flags e)"
    using 5(2-5) unfolding overlap_eq region_ops_simps by blast+
  show ?case
    by (subst add_region_loop.simps)
       (simp only: d(1,2,5) option.case Option.bind.simps if_not_P [OF n(1)] if_not_P [OF n(2)]
         if_not_P [OF n(3)] if_not_P [OF n(4)] dll_elem.select_convs if_cancel)
next
  case (6 s L i x j y R q e prv)
  from 6(1) obtain d where "encls s en = Some d" and v: "lview (regs s0) (reg_links s0) Q (regs s) (reg_links s) (regions d) (L @ (i, x) # (j, y) # R) (Some (q, e))"
    by (rule region_viewE)
  note d = lviewD [OF v]
  have n: "\<not> overlap (r_start x) (r_end x) (r_start e) (r_end e)"
    "\<not> (r_start x > r_end e \<or> (r_start x = r_end e \<and> (r_tpe x \<noteq> r_tpe e \<or> r_flags x \<noteq> r_flags e)))"
    "\<not> (r_start x = r_end e \<and> r_src x = r_src e + (r_end e - r_start e) \<and> r_tpe x = r_tpe e \<and> r_flags x = r_flags e)"
    "\<not> (r_end x < r_start e \<or> (r_end x = r_start e \<and> (r_tpe x \<noteq> r_tpe e \<or> r_flags x \<noteq> r_flags e)))"
    "r_end x = r_start e \<and> r_src e = r_src x + (r_end x - r_start x) \<and> r_tpe x = r_tpe e \<and> r_flags x = r_flags e"
    "overlap (r_start x) (r_end e) (r_start y) (r_end y)"
    using 6(2-8) unfolding overlap_eq region_ops_simps by (blast, blast, blast, auto)
  show ?case
    by (subst add_region_loop.simps)
       (simp only: d(1,2,5) option.case Option.bind.simps if_not_P [OF n(1)] if_not_P [OF n(2)] fstp_simps fst_conv
         if_not_P [OF n(3)] if_not_P [OF n(4)] if_P [OF n(5)] dll_elem.select_convs lview_nth [OF v] if_P [OF n(6)])
next
  case (7 s L i x R q e)
  let ?L = "rev L"
  from 7(1) obtain c where c: "encls s en = Some c"
    and v: "lview (regs s0) (reg_links s0) Q (regs s) (reg_links s) (regions c) (?L @ (i, x) # R) (Some (q, e))"
    by (rule region_viewE)
  note d = lviewD [OF v]
  let ?e = "e\<lparr>r_start := r_start x\<rparr>"
  let ?h = "(regs s)(q \<mapsto> ?e)"
  have v1: "lview (regs s0) (reg_links s0) Q ?h (reg_links s) (regions c) (?L @ (i, x) # R) (Some (q, ?e))"
    by (rule lview_upd_new [OF v])
  obtain l' k' y where r: "dll_remove i (regions c, reg_links s) = Some (l', k')" "k' i = Some y"
    "lview (regs s0) (reg_links s0) Q (?h(i := None)) (k'(i := None)) l' (?L @ R) (Some (q, ?e))"
    by (rule lview_remove [OF v1])
  let ?s = "s\<lparr>encls := (encls s)(en \<mapsto> c\<lparr>regions := l'\<rparr>), regs := ?h(i := None), reg_links := k'(i := None)\<rparr>"
  have view: "region_view s0 en Q ?s (?L @ R) (Some (q, ?e))" by (rule region_view_step [OF 7(1) c r(3)])
  have bad: "(case fstp R of None \<Rightarrow> Some False
              | Some n \<Rightarrow> do { z \<leftarrow> regs s n; Some (overlap (r_start x) (r_end e) (r_start z) (r_end z)) }) = Some False"
  proof (cases R)
    case (Cons a R')
    then have "regs s (fst a) = Some (snd a)" using lview_nth [of _ _ _ "regs s" _ _ ?L i x "fst a" "snd a" R'] v by simp
    then show ?thesis using 7(8) Cons by (simp add: overlap_eq)
  qed simp
  have n: "\<not> overlap (r_start x) (r_end x) (r_start e) (r_end e)"
    "\<not> (r_start x > r_end e \<or> (r_start x = r_end e \<and> (r_tpe x \<noteq> r_tpe e \<or> r_flags x \<noteq> r_flags e)))"
    "\<not> (r_start x = r_end e \<and> r_src x = r_src e + (r_end e - r_start e) \<and> r_tpe x = r_tpe e \<and> r_flags x = r_flags e)"
    "\<not> (r_end x < r_start e \<or> (r_end x = r_start e \<and> (r_tpe x \<noteq> r_tpe e \<or> r_flags x \<noteq> r_flags e)))"
    "r_end x = r_start e \<and> r_src e = r_src x + (r_end x - r_start x) \<and> r_tpe x = r_tpe e \<and> r_flags x = r_flags e"
    using 7(2-7) unfolding overlap_eq region_ops_simps by (blast, blast, blast, auto)
  have rem: "regions_remove en i (s\<lparr>regs := ?h\<rparr>) = Some (s\<lparr>encls := (encls s)(en \<mapsto> c\<lparr>regions := l'\<rparr>), regs := ?h, reg_links := k'\<rparr>)"
    using c r(1) by (simp add: regions_remove_def)
  have fr: "free_region i (s\<lparr>encls := (encls s)(en \<mapsto> c\<lparr>regions := l'\<rparr>), regs := ?h, reg_links := k'\<rparr>) = Some ?s"
    using d(1,3) r(2) by (simp add: free_region_def)
  have body: "add_region_loop en q (Some i) (fstp L) s =
      (case fstp L of Some p \<Rightarrow> do { y \<leftarrow> reg_links ?s p; add_region_loop en q (Some p) (prev y) ?s }
       | None \<Rightarrow> do { c \<leftarrow> encls ?s en; add_region_loop en q (head (regions c)) None ?s })"
    by (subst add_region_loop.simps)
       (simp only: d(1,2,5) option.case Option.bind.simps if_not_P [OF n(1)] if_not_P [OF n(2)]
         if_not_P [OF n(3)] if_not_P [OF n(4)] if_P [OF n(5)] dll_elem.select_convs bad if_False Let_def rem fr)
  have "add_region_loop en q (Some i) (fstp L) s = (case L of [] \<Rightarrow> add_region_loop en q (fstp R) None ?s
      | p # L' \<Rightarrow> add_region_loop en q (Some (fst p)) (fstp L') ?s)"
  proof (cases L)
    case Nil
    then show ?thesis using body lview_head [OF r(3)] by simp
  next
    case (Cons p L')
    have "reg_links ?s (fst p) = Some \<lparr>prev = fstp L', nxt = fstp R\<rparr>"
      using lviewD(5) [of _ _ _ _ "k'(i := None)" l' "rev L'" "fst p" "snd p" R q ?e] r(3) Cons by simp
    then show ?thesis using body Cons by simp
  qed
  then show ?case using view by auto
qed

section \<open>The list of all physical pages\<close>

text \<open>Freeing a page struct also removes its other links.\<close>

definition gate :: "(ptr \<rightharpoonup> 'r) \<Rightarrow> links \<Rightarrow> links" where
  "gate h a = (\<lambda>p. if h p = None then None else a p)"

lemma gate_free: "gate (h(q := None)) a = (gate h a)(q := None)"
  by (auto simp: gate_def)

lemma gate_upd: "h i = Some x \<Longrightarrow> gate (h(i \<mapsto> x')) a = gate h a"
  by (rule ext) (auto simp: gate_def)

definition pa_view :: "('m, 'z) estate_scheme \<Rightarrow> ptr \<Rightarrow> ptr set \<Rightarrow> ('m, 'z) estate_scheme \<Rightarrow>
    (ptr \<times> pa_region_t) list \<Rightarrow> (ptr \<times> pa_region_t) option \<Rightarrow> bool" where
  "pa_view s0 en Q s xs n \<longleftrightarrow> live (pars s0) (pa_links s0) \<and>
     (\<exists>c l h k. encls s0 en = Some c \<and>
        s = s0\<lparr>encls := (encls s0)(en \<mapsto> c\<lparr>all_pages := l\<rparr>), pars := h, pa_links := gate h (pa_links s0), glob_links := k\<rparr> \<and>
        (\<forall>p. pars s0 p = None \<longrightarrow> h p = None) \<and>
        lview (pars s0) (glob_links s0) Q h k l xs n)"

lemma pa_viewE:
  assumes "pa_view s0 en Q s xs n"
  obtains d where "encls s en = Some d"
    "lview (pars s0) (glob_links s0) Q (pars s) (glob_links s) (all_pages d) xs n"
proof -
  obtain c l h k where "s = s0\<lparr>encls := (encls s0)(en \<mapsto> c\<lparr>all_pages := l\<rparr>), pars := h,
      pa_links := gate h (pa_links s0), glob_links := k\<rparr>"
    "lview (pars s0) (glob_links s0) Q h k l xs n"
    using assms unfolding pa_view_def by blast
  then show ?thesis using that [of "c\<lparr>all_pages := l\<rparr>"] by simp
qed

lemma pa_view_links:
  assumes "pa_view s0 en Q s xs n"
  shows "pa_links s = gate (pars s) (pa_links s0)" "live (pars s) (pa_links s)"
proof -
  obtain c l h k where s: "s = s0\<lparr>encls := (encls s0)(en \<mapsto> c\<lparr>all_pages := l\<rparr>), pars := h,
      pa_links := gate h (pa_links s0), glob_links := k\<rparr>"
    and h: "\<forall>p. pars s0 p = None \<longrightarrow> h p = None" and l: "live (pars s0) (pa_links s0)"
    using assms unfolding pa_view_def by blast
  show "pa_links s = gate (pars s) (pa_links s0)" using s by simp
  have "h p = None \<longleftrightarrow> gate h (pa_links s0) p = None" for p
  proof -
    have "pars s0 p = None \<longleftrightarrow> pa_links s0 p = None" using l by (simp add: live_def)
    then show ?thesis using h by (auto simp: gate_def)
  qed
  then show "live (pars s) (pa_links s)" using s by (simp add: live_def)
qed

lemma pa_view_step:
  assumes "pa_view s0 en Q s xs n" and "encls s en = Some d"
    and "lview (pars s0) (glob_links s0) Q h k l ys n'" and "\<And>p. pars s p = None \<Longrightarrow> h p = None"
    and "a = gate h (pa_links s0)"
  shows "pa_view s0 en Q (s\<lparr>encls := (encls s)(en \<mapsto> d\<lparr>all_pages := l\<rparr>), pars := h, pa_links := a, glob_links := k\<rparr>) ys n'"
proof -
  obtain c l0 h0 k0 where c: "encls s0 en = Some c"
    and s: "s = s0\<lparr>encls := (encls s0)(en \<mapsto> c\<lparr>all_pages := l0\<rparr>), pars := h0,
      pa_links := gate h0 (pa_links s0), glob_links := k0\<rparr>"
    and h: "\<forall>p. pars s0 p = None \<longrightarrow> h0 p = None" and lv: "live (pars s0) (pa_links s0)"
    using assms(1) unfolding pa_view_def by blast
  then have "d = c\<lparr>all_pages := l0\<rparr>" using assms(2) by simp
  moreover have "\<forall>p. pars s0 p = None \<longrightarrow> h p = None" using assms(4) h s by simp
  ultimately show ?thesis using c s assms(3,5) lv unfolding pa_view_def by fastforce
qed

lemma pa_view_step0:
  assumes "pa_view s0 en Q s xs n" and "encls s en = Some d"
    and "lview (pars s0) (glob_links s0) Q h k (all_pages d) ys n'" and "\<And>p. pars s p = None \<Longrightarrow> h p = None"
    and "a = gate h (pa_links s0)"
  shows "pa_view s0 en Q (s\<lparr>pars := h, pa_links := a, glob_links := k\<rparr>) ys n'"
proof -
  have "(encls s)(en \<mapsto> d\<lparr>all_pages := all_pages d\<rparr>) = encls s" using assms(2) by auto
  then show ?thesis using pa_view_step [OF assms] by simp
qed

interpretation pa_heap: ins_heap pa_ops "pa_view s0 en Q" "add_merge_loop en"
proof (unfold_locales, goal_cases)
  case (1 q prv s)
  show ?case by (subst add_merge_loop.simps) simp
next
  case (2 s L i x R q e prv)
  from 2(1) obtain d where "encls s en = Some d" and v: "lview (pars s0) (glob_links s0) Q (pars s) (glob_links s) (all_pages d) (L @ (i, x) # R) (Some (q, e))"
    by (rule pa_viewE)
  show ?case using lviewD [OF v] 2(2) by (subst add_merge_loop.simps) (simp add: overlap_eq)
next
  case (3 s L i x R q e prv)
  from 3(1) obtain d where "encls s en = Some d" and v: "lview (pars s0) (glob_links s0) Q (pars s) (glob_links s) (all_pages d) (L @ (i, x) # R) (Some (q, e))"
    by (rule pa_viewE)
  show ?case using lviewD [OF v] 3(2,3) by (subst add_merge_loop.simps) (simp add: overlap_eq)
next
  case (4 s L i x R q e prv)
  from 4(1) obtain c where c: "encls s en = Some c"
    and v: "lview (pars s0) (glob_links s0) Q (pars s) (glob_links s) (all_pages c) (L @ (i, x) # R) (Some (q, e))"
    by (rule pa_viewE)
  note d = lviewD [OF v]
  obtain y where y: "glob_links s q = Some y" using d(4) by blast
  note g = pa_view_links [OF 4(1)]
  obtain z where z: "pa_links s q = Some z" using live_Some [OF g(2) d(2)] by blast
  let ?x = "x\<lparr>p_start := p_start e\<rparr>"
  let ?s = "s\<lparr>pars := (pars s)(i \<mapsto> ?x, q := None), pa_links := (pa_links s)(q := None), glob_links := (glob_links s)(q := None)\<rparr>"
  have "add_merge_loop en q (Some i) prv s = Some (Merged, ?s)"
    using 4(2-5) d(1-3) y z by (subst add_merge_loop.simps) (simp add: overlap_eq free_pa_def Let_def)
  moreover have "pa_view s0 en Q ?s (L @ (i, ?x) # R) None"
  proof (rule pa_view_step0 [OF 4(1) c])
    show "lview (pars s0) (glob_links s0) Q ((pars s)(i \<mapsto> ?x, q := None)) ((glob_links s)(q := None)) (all_pages c)
        (L @ (i, ?x) # R) None" by (rule lview_free, rule lview_upd, rule v)
    show "(pa_links s)(q := None) = gate ((pars s)(i \<mapsto> ?x, q := None)) (pa_links s0)"
      by (simp only: gate_free gate_upd [of "pars s" i x, OF d(1)] g(1))
  qed (use d(1,2) in auto)
  ultimately show ?case by auto
next
  case (5 s L i x R q e prv)
  from 5(1) obtain d where "encls s en = Some d" and v: "lview (pars s0) (glob_links s0) Q (pars s) (glob_links s) (all_pages d) (L @ (i, x) # R) (Some (q, e))"
    by (rule pa_viewE)
  note d = lviewD [OF v]
  have n: "\<not> overlap (p_start x) (p_end x) (p_start e) (p_end e)"
    "\<not> (p_start x > p_end e \<or> (p_start x = p_end e \<and> p_tpe x \<noteq> p_tpe e))"
    "\<not> (p_start x = p_end e \<and> p_tpe x = p_tpe e)"
    "\<not> (p_end x = p_start e \<and> p_tpe x = p_tpe e)"
    using 5(2-5) by (auto simp: overlap_eq)
  show ?case
    by (subst add_merge_loop.simps)
       (simp only: d(1,2,5) option.case Option.bind.simps if_not_P [OF n(1)] if_not_P [OF n(2)]
         if_not_P [OF n(3)] if_not_P [OF n(4)] dll_elem.select_convs if_cancel)
next
  case (6 s L i x j y R q e prv)
  from 6(1) obtain d where "encls s en = Some d" and v: "lview (pars s0) (glob_links s0) Q (pars s) (glob_links s) (all_pages d) (L @ (i, x) # (j, y) # R) (Some (q, e))"
    by (rule pa_viewE)
  note d = lviewD [OF v]
  have n: "\<not> overlap (p_start x) (p_end x) (p_start e) (p_end e)"
    "\<not> (p_start x > p_end e \<or> (p_start x = p_end e \<and> p_tpe x \<noteq> p_tpe e))"
    "\<not> (p_start x = p_end e \<and> p_tpe x = p_tpe e)"
    "\<not> (p_end x < p_start e \<or> (p_end x = p_start e \<and> p_tpe x \<noteq> p_tpe e))"
    "p_end x = p_start e \<and> p_tpe x = p_tpe e"
    "overlap (p_start x) (p_end e) (p_start y) (p_end y)"
    using 6(2-8) by (auto simp: overlap_eq)
  show ?case
    by (subst add_merge_loop.simps)
       (simp only: d(1,2,5) option.case Option.bind.simps if_not_P [OF n(1)] if_not_P [OF n(2)] fstp_simps fst_conv
         if_not_P [OF n(3)] if_not_P [OF n(4)] if_P [OF n(5)] dll_elem.select_convs lview_nth [OF v] if_P [OF n(6)])
next
  case (7 s L i x R q e)
  let ?L = "rev L"
  from 7(1) obtain c where c: "encls s en = Some c"
    and v: "lview (pars s0) (glob_links s0) Q (pars s) (glob_links s) (all_pages c) (?L @ (i, x) # R) (Some (q, e))"
    by (rule pa_viewE)
  note d = lviewD [OF v]
  let ?e = "e\<lparr>p_start := p_start x\<rparr>"
  let ?h = "(pars s)(q \<mapsto> ?e)"
  have v1: "lview (pars s0) (glob_links s0) Q ?h (glob_links s) (all_pages c) (?L @ (i, x) # R) (Some (q, ?e))"
    by (rule lview_upd_new [OF v])
  obtain l' k' y where r: "dll_remove i (all_pages c, glob_links s) = Some (l', k')" "k' i = Some y"
    "lview (pars s0) (glob_links s0) Q (?h(i := None)) (k'(i := None)) l' (?L @ R) (Some (q, ?e))"
    by (rule lview_remove [OF v1])
  let ?s = "s\<lparr>encls := (encls s)(en \<mapsto> c\<lparr>all_pages := l'\<rparr>), pars := ?h(i := None),
      pa_links := (pa_links s)(i := None), glob_links := k'(i := None)\<rparr>"
  note g = pa_view_links [OF 7(1)]
  obtain z where z: "pa_links s i = Some z" using live_Some [OF g(2) d(1)] by blast
  have view: "pa_view s0 en Q ?s (?L @ R) (Some (q, ?e))"
  proof (rule pa_view_step [OF 7(1) c r(3)])
    show "(pa_links s)(i := None) = gate (?h(i := None)) (pa_links s0)"
      by (simp only: gate_free gate_upd [of "pars s" q e, OF d(2)] g(1))
  qed (use d(1,2) in auto)
  have bad: "(case fstp R of None \<Rightarrow> Some False
              | Some n \<Rightarrow> do { z \<leftarrow> pars s n; Some (overlap (p_start x) (p_end e) (p_start z) (p_end z)) }) = Some False"
  proof (cases R)
    case (Cons a R')
    then have "pars s (fst a) = Some (snd a)" using lview_nth [of _ _ _ "pars s" _ _ ?L i x "fst a" "snd a" R'] v by simp
    then show ?thesis using 7(8) Cons by (simp add: overlap_eq)
  qed simp
  have n: "\<not> overlap (p_start x) (p_end x) (p_start e) (p_end e)"
    "\<not> (p_start x > p_end e \<or> (p_start x = p_end e \<and> p_tpe x \<noteq> p_tpe e))"
    "\<not> (p_start x = p_end e \<and> p_tpe x = p_tpe e)"
    "\<not> (p_end x < p_start e \<or> (p_end x = p_start e \<and> p_tpe x \<noteq> p_tpe e))"
    "p_end x = p_start e \<and> p_tpe x = p_tpe e"
    using 7(2-7) by (auto simp: overlap_eq)
  have rem: "globals_remove en i (s\<lparr>pars := ?h\<rparr>) = Some (s\<lparr>encls := (encls s)(en \<mapsto> c\<lparr>all_pages := l'\<rparr>), pars := ?h, glob_links := k'\<rparr>)"
    using c r(1) by (simp add: globals_remove_def)
  have fr: "free_pa i (s\<lparr>encls := (encls s)(en \<mapsto> c\<lparr>all_pages := l'\<rparr>), pars := ?h, glob_links := k'\<rparr>) = Some ?s"
    using d(1,3) r(2) z by (simp add: free_pa_def)
  have body: "add_merge_loop en q (Some i) (fstp L) s =
      (case fstp L of Some p \<Rightarrow> do { y \<leftarrow> glob_links ?s p; add_merge_loop en q (Some p) (prev y) ?s }
       | None \<Rightarrow> do { c \<leftarrow> encls ?s en; add_merge_loop en q (head (all_pages c)) None ?s })"
    by (subst add_merge_loop.simps)
       (simp only: d(1,2,5) option.case Option.bind.simps if_not_P [OF n(1)] if_not_P [OF n(2)]
         if_not_P [OF n(3)] if_not_P [OF n(4)] if_P [OF n(5)] dll_elem.select_convs bad if_False Let_def rem fr)
  have "add_merge_loop en q (Some i) (fstp L) s = (case L of [] \<Rightarrow> add_merge_loop en q (fstp R) None ?s
      | p # L' \<Rightarrow> add_merge_loop en q (Some (fst p)) (fstp L') ?s)"
  proof (cases L)
    case Nil
    then show ?thesis using body lview_head [OF r(3)] by simp
  next
    case (Cons p L')
    have "glob_links ?s (fst p) = Some \<lparr>prev = fstp L', nxt = fstp R\<rparr>"
      using lviewD(5) [of _ _ _ _ "k'(i := None)" l' "rev L'" "fst p" "snd p" R q ?e] r(3) Cons by simp
    then show ?thesis using body Cons by simp
  qed
  then show ?case using view by auto
qed

end
