(* ===== verification/Enclave_Insert.thy ===== *)
theory Enclave_Insert
  imports Enclave_Lists
begin

text \<open>
  What \<open>add_merge_global\<close> and \<open>add_region\<close> do to the lists of an enclave, from the loop lemmas of
  \<open>Enclave_Lists\<close>: totality, the resulting sequence, and the conditions under which it stays sorted.
\<close>

section \<open>Physical pages\<close>

text \<open>The list of all physical pages of the enclave \<open>en\<close>, as addresses and contents.\<close>

definition page_list :: "('m, 'z) estate_scheme \<Rightarrow> ptr \<Rightarrow> (ptr \<times> pa_region_t) list \<Rightarrow> bool" where
  "page_list s en xs \<longleftrightarrow> (\<exists>c. encls s en = Some c \<and> dll (glob_links s) (all_pages c) (map fst xs)) \<and>
     (\<forall>(p, x) \<in> set xs. pars s p = Some x) \<and> live (pars s) (glob_links s) \<and> live (pars s) (pa_links s)"

lemma page_list_view:
  assumes "page_list s en xs" and "pars s r = Some e" and "r \<notin> set (map fst xs)"
  shows "pa_view s en (insert r (set (map fst xs))) s xs (Some (r, e))"
proof -
  obtain c where c: "encls s en = Some c" "dll (glob_links s) (all_pages c) (map fst xs)"
    and l: "live (pars s) (glob_links s)" "live (pars s) (pa_links s)"
    and m: "\<forall>(p, x) \<in> set xs. pars s p = Some x"
    using assms(1) by (auto simp: page_list_def)
  have lv: "lview (pars s) (glob_links s) (insert r (set (map fst xs))) (pars s) (glob_links s) (all_pages c) xs (Some (r, e))"
    using c(2) l(1) m assms(2,3) by (force simp: lview_def)
  have "gate (pars s) (pa_links s) = pa_links s"
    using l(2) by (intro ext) (simp add: gate_def live_def)
  then have "s = s\<lparr>encls := (encls s)(en \<mapsto> c\<lparr>all_pages := all_pages c\<rparr>), pars := pars s,
      pa_links := gate (pars s) (pa_links s), glob_links := glob_links s\<rparr>"
    using c(1) by (simp add: fun_upd_idem)
  then show ?thesis using lv c(1) l(2) unfolding pa_view_def by blast
qed

lemma pa_view_list: "pa_view s0 en Q s xs n \<Longrightarrow> page_list s en xs"
proof -
  assume v: "pa_view s0 en Q s xs n"
  obtain d where d: "encls s en = Some d"
    "lview (pars s0) (glob_links s0) Q (pars s) (glob_links s) (all_pages d) xs n"
    by (rule pa_viewE [OF v])
  then show "page_list s en xs" using pa_view_links(2) [OF v] by (auto simp: page_list_def lview_def)
qed

lemma fstp_nth: "fstp A = Some p \<Longrightarrow> \<exists>x A'. A = (p, x) # A'"
  by (cases A) auto

lemma add_merge_global_view:
  assumes "page_list s en xs" and "pars s r = Some e" and "r \<notin> set (map fst xs)"
  shows "\<exists>ok s' ys n. pa_view s en (insert r (set (map fst xs))) s' ys n \<and>
           ins pa_ops [] e (map snd xs) = (ok, map snd ys) \<and>
           add_merge_global (Some en) (Some r) s = Some (if ok then OK else FAIL, s')"
proof -
  let ?Q = "insert r (set (map fst xs))"
  have v: "pa_view s en ?Q s (rev [] @ xs) (Some (r, e))" using page_list_view [OF assms] by simp
  obtain c where c: "encls s en = Some c" "dll (glob_links s) (all_pages c) (map fst xs)"
    using assms(1) by (auto simp: page_list_def)
  have hd: "head (all_pages c) = fstp xs" using c(2) by (cases xs) (auto simp: dll_def)
  obtain how s' where h: "add_merge_loop en r (fstp xs) None s = Some (how, s')"
    and o: "pa_heap.outcome s en ?Q r how s' (ins pa_ops [] e (map snd xs))"
    using pa_heap.loop_ins [OF v] by auto
  have body: "add_merge_global (Some en) (Some r) s =
      (case how of Overlaps \<Rightarrow> Some (FAIL, s') | Merged \<Rightarrow> Some (OK, s')
       | Place (Some p) \<Rightarrow> do { s \<leftarrow> globals_add_after en r p s'; Some (OK, s) }
       | Place None \<Rightarrow> do { s \<leftarrow> globals_add_first en r s'; Some (OK, s) })"
    using c(1) h hd by (simp add: add_merge_global_def)
  have step: "\<exists>s1 n. pa_view s en ?Q s1 ys n \<and> s1 = s'\<lparr>encls := (encls s')(en \<mapsto> d\<lparr>all_pages := l'\<rparr>), glob_links := k'\<rparr>"
    if "pa_view s en ?Q s' zs m" "encls s' en = Some d" "lview (pars s) (glob_links s) ?Q (pars s') k' l' ys n"
    for zs m d k' l' ys n
  proof -
    have "pa_links s' = gate (pars s') (pa_links s)" by (rule pa_view_links [OF that(1)])
    then have "s'\<lparr>encls := (encls s')(en \<mapsto> d\<lparr>all_pages := l'\<rparr>), glob_links := k'\<rparr> =
        s'\<lparr>encls := (encls s')(en \<mapsto> d\<lparr>all_pages := l'\<rparr>), pars := pars s', pa_links := gate (pars s') (pa_links s),
           glob_links := k'\<rparr>" by simp
    then show ?thesis using pa_view_step [OF that(1-3)] by metis
  qed
  show ?thesis
  proof (cases how)
    case Overlaps
    then obtain ys e' where w: "pa_view s en ?Q s' ys (Some (r, e'))" "ins pa_ops [] e (map snd xs) = (False, map snd ys)"
      using o by (auto simp: pa_heap.outcome_def prod_eq_iff)
    have "add_merge_global (Some en) (Some r) s = Some (if False then OK else FAIL, s')"
      using body Overlaps by simp
    then show ?thesis using w by blast
  next
    case Merged
    then obtain ys where w: "pa_view s en ?Q s' ys None" "ins pa_ops [] e (map snd xs) = (True, map snd ys)"
      using o by (auto simp: pa_heap.outcome_def prod_eq_iff)
    have "add_merge_global (Some en) (Some r) s = Some (if True then OK else FAIL, s')"
      using body Merged by simp
    then show ?thesis using w by blast
  next
    case (Place p)
    then obtain A B e' where w: "pa_view s en ?Q s' (rev A @ B) (Some (r, e'))" "p = fstp A"
      and i: "ins pa_ops [] e (map snd xs) = (True, map snd (rev A @ (r, e') # B))"
      using o by (auto simp: pa_heap.outcome_def prod_eq_iff)
    obtain d where d: "encls s' en = Some d"
      "lview (pars s) (glob_links s) ?Q (pars s') (glob_links s') (all_pages d) (rev A @ B) (Some (r, e'))"
      by (rule pa_viewE [OF w(1)])
    have "\<exists>l' k'. lview (pars s) (glob_links s) ?Q (pars s') k' l' (rev A @ (r, e') # B) None \<and>
        add_merge_global (Some en) (Some r) s =
          Some (OK, s'\<lparr>encls := (encls s')(en \<mapsto> d\<lparr>all_pages := l'\<rparr>), glob_links := k'\<rparr>)"
    proof (cases A)
      case Nil
      then have d': "lview (pars s) (glob_links s) ?Q (pars s') (glob_links s') (all_pages d) B (Some (r, e'))"
        using d(2) by simp
      show ?thesis
        by (rule lview_add_first [OF d']) (use body Place w(2) Nil d(1) in \<open>auto simp: globals_add_first_def\<close>)
    next
      case (Cons a A')
      then have d': "lview (pars s) (glob_links s) ?Q (pars s') (glob_links s') (all_pages d)
          (rev A' @ (fst a, snd a) # B) (Some (r, e'))"
        using d(2) by simp
      show ?thesis
        by (rule lview_add_after [OF d']) (use body Place w(2) Cons d(1) in \<open>auto simp: globals_add_after_def\<close>)
    qed
    then obtain l' k' where r: "lview (pars s) (glob_links s) ?Q (pars s') k' l' (rev A @ (r, e') # B) None"
      "add_merge_global (Some en) (Some r) s =
        Some (if True then OK else FAIL, s'\<lparr>encls := (encls s')(en \<mapsto> d\<lparr>all_pages := l'\<rparr>), glob_links := k'\<rparr>)"
      by auto
    obtain s1 n where "pa_view s en ?Q s1 (rev A @ (r, e') # B) n"
      "s1 = s'\<lparr>encls := (encls s')(en \<mapsto> d\<lparr>all_pages := l'\<rparr>), glob_links := k'\<rparr>"
      using step [OF w(1) d(1) r(1)] by blast
    then have "pa_view s en ?Q s1 (rev A @ (r, e') # B) n \<and>
        ins pa_ops [] e (map snd xs) = (True, map snd (rev A @ (r, e') # B)) \<and>
        add_merge_global (Some en) (Some r) s = Some (if True then OK else FAIL, s1)"
      using i r(2) by simp
    then show ?thesis by blast
  qed
qed

lemma add_merge_global_list:
  assumes "page_list s en xs" and "pars s r = Some e" and "r \<notin> set (map fst xs)"
  shows "\<exists>ok s' ys. page_list s' en ys \<and> ins pa_ops [] e (map snd xs) = (ok, map snd ys) \<and>
           add_merge_global (Some en) (Some r) s = Some (if ok then OK else FAIL, s')"
  using add_merge_global_view [OF assms] pa_view_list by blast

section \<open>Regions\<close>

definition region_list :: "('m, 'z) estate_scheme \<Rightarrow> ptr \<Rightarrow> (ptr \<times> region_t) list \<Rightarrow> bool" where
  "region_list s en xs \<longleftrightarrow> (\<exists>c. encls s en = Some c \<and> dll (reg_links s) (regions c) (map fst xs)) \<and>
     (\<forall>(p, x) \<in> set xs. regs s p = Some x) \<and> live (regs s) (reg_links s)"

text \<open>The struct that \<open>add_region\<close> builds from a message.\<close>

definition region_of :: "tyche_encl_add_region_t \<Rightarrow> region_t" where
  "region_of m = \<lparr>r_start = m_start m, r_end = m_end m, r_src = m_src m, r_flags = m_flags m,
     r_tpe = m_tpe m, pas = dll_init_list\<rparr>"

lemma region_list_view:
  assumes "region_list s en xs" and "regs s r = Some e" and "r \<notin> set (map fst xs)"
  shows "region_view s en (insert r (set (map fst xs))) s xs (Some (r, e))"
proof -
  obtain c where c: "encls s en = Some c" "dll (reg_links s) (regions c) (map fst xs)"
    and l: "live (regs s) (reg_links s)" and m: "\<forall>(p, x) \<in> set xs. regs s p = Some x"
    using assms(1) by (auto simp: region_list_def)
  have lv: "lview (regs s) (reg_links s) (insert r (set (map fst xs))) (regs s) (reg_links s) (regions c) xs (Some (r, e))"
    using c(2) l m assms(2,3) by (force simp: lview_def)
  have "s = s\<lparr>encls := (encls s)(en \<mapsto> c\<lparr>regions := regions c\<rparr>), regs := regs s, reg_links := reg_links s\<rparr>"
    using c(1) by (simp add: fun_upd_idem)
  then show ?thesis using lv c(1) unfolding region_view_def by blast
qed

lemma region_view_list: "region_view s0 en Q s xs n \<Longrightarrow> region_list s en xs"
  by (erule region_viewE) (auto simp: region_list_def lview_def)

text \<open>The end of \<open>add_region\<close>, after the loop.\<close>

definition link_region :: "ptr \<Rightarrow> ptr \<Rightarrow> scan \<Rightarrow> ('m, 'z) estate_scheme \<Rightarrow> (c_int \<times> ('m, 'z) estate_scheme) option" where
  "link_region encl e_reg how s = (case how of
     Overlaps \<Rightarrow> do { s \<leftarrow> free_region e_reg s; Some (FAIL, s) }
   | Merged \<Rightarrow> Some (OK, s)
   | Place (Some p) \<Rightarrow> do { s \<leftarrow> regions_add_after encl e_reg p s; Some (OK, s) }
   | Place None \<Rightarrow> do { s \<leftarrow> regions_add_first encl e_reg s; Some (OK, s) })"

lemma link_region_list:
  assumes "region_heap.outcome s0 en Q r how s res"
  shows "\<exists>ok s' ys. region_list s' en ys \<and> res = (ok, map snd ys) \<and>
           link_region en r how s = Some (if ok then OK else FAIL, s')"
proof (cases how)
  case Overlaps
  then obtain ys e where w: "region_view s0 en Q s ys (Some (r, e))" and res: "res = (False, map snd ys)"
    using assms by (auto simp: region_heap.outcome_def prod_eq_iff)
  obtain d where d: "encls s en = Some d" "lview (regs s0) (reg_links s0) Q (regs s) (reg_links s) (regions d) ys (Some (r, e))"
    by (rule region_viewE [OF w])
  obtain y where y: "reg_links s r = Some y" using lview_new(4) [OF d(2)] by blast
  let ?s = "s\<lparr>regs := (regs s)(r := None), reg_links := (reg_links s)(r := None)\<rparr>"
  have "link_region en r how s = Some (FAIL, ?s)"
    using Overlaps lview_new(1) [OF d(2)] y by (simp add: link_region_def free_region_def)
  moreover have "region_list ?s en ys"
    using lview_free [OF d(2)] d(1) by (auto simp: region_list_def lview_def)
  ultimately have "region_list ?s en ys \<and> res = (False, map snd ys) \<and>
      link_region en r how s = Some (if False then OK else FAIL, ?s)" using res by simp
  then show ?thesis by blast
next
  case Merged
  then obtain ys where w: "region_view s0 en Q s ys None" "res = (True, map snd ys)"
    using assms by (auto simp: region_heap.outcome_def prod_eq_iff)
  then have "region_list s en ys \<and> res = (True, map snd ys) \<and>
      link_region en r how s = Some (if True then OK else FAIL, s)"
    using region_view_list Merged by (simp add: link_region_def)
  then show ?thesis by blast
next
  case (Place p)
  then obtain A B e where w: "region_view s0 en Q s (rev A @ B) (Some (r, e))" "p = fstp A"
    and i: "res = (True, map snd (rev A @ (r, e) # B))"
    using assms by (auto simp: region_heap.outcome_def prod_eq_iff)
  obtain d where d: "encls s en = Some d"
    "lview (regs s0) (reg_links s0) Q (regs s) (reg_links s) (regions d) (rev A @ B) (Some (r, e))"
    by (rule region_viewE [OF w(1)])
  show ?thesis
  proof (cases A)
    case Nil
    have d': "lview (regs s0) (reg_links s0) Q (regs s) (reg_links s) (regions d) B (Some (r, e))"
      using d(2) Nil by simp
    obtain l' k' where a: "dll_add_first r (regions d, reg_links s) = Some (l', k')"
      "lview (regs s0) (reg_links s0) Q (regs s) k' l' ((r, e) # B) None"
      by (rule lview_add_first [OF d'])
    let ?s = "s\<lparr>encls := (encls s)(en \<mapsto> d\<lparr>regions := l'\<rparr>), reg_links := k'\<rparr>"
    have "link_region en r how s = Some (OK, ?s)"
      using Place w(2) Nil d(1) a(1) by (simp add: link_region_def regions_add_first_def)
    moreover have "region_list ?s en ((r, e) # B)" using a(2) by (auto simp: region_list_def lview_def)
    ultimately have "region_list ?s en ((r, e) # B) \<and> res = (True, map snd ((r, e) # B)) \<and>
        link_region en r how s = Some (if True then OK else FAIL, ?s)" using i Nil by simp
    then show ?thesis by blast
  next
    case (Cons a A')
    obtain j y where a: "a = (j, y)" by (cases a)
    have d': "lview (regs s0) (reg_links s0) Q (regs s) (reg_links s) (regions d) (rev A' @ (j, y) # B) (Some (r, e))"
      using d(2) Cons a by simp
    obtain l' k' where b: "dll_add_after r j (regions d, reg_links s) = Some (l', k')"
      "lview (regs s0) (reg_links s0) Q (regs s) k' l' (rev A' @ (j, y) # (r, e) # B) None"
      by (rule lview_add_after [OF d'])
    let ?s = "s\<lparr>encls := (encls s)(en \<mapsto> d\<lparr>regions := l'\<rparr>), reg_links := k'\<rparr>"
    have "link_region en r how s = Some (OK, ?s)"
      using Place w(2) Cons a d(1) b(1) by (simp add: link_region_def regions_add_after_def)
    moreover have "region_list ?s en (rev A' @ (j, y) # (r, e) # B)" using b(2) by (auto simp: region_list_def lview_def)
    ultimately have "region_list ?s en (rev A' @ (j, y) # (r, e) # B) \<and>
        res = (True, map snd (rev A' @ (j, y) # (r, e) # B)) \<and>
        link_region en r how s = Some (if True then OK else FAIL, ?s)" using i Cons a by simp
    then show ?thesis by blast
  qed
qed

text \<open>The whole of \<open>add_region\<close>, for the enclave it finds.\<close>

definition heap_fresh :: "('m, 'z) estate_scheme \<Rightarrow> bool" where
  "heap_fresh s \<longleftrightarrow> (\<forall>p. (regs s p \<noteq> None \<longrightarrow> p < brk s) \<and> (pars s p \<noteq> None \<longrightarrow> p < brk s) \<and>
     (encls s p \<noteq> None \<longrightarrow> p < brk s))"

lemma add_region_list:
  assumes "region_list s en xs" and "heap_fresh s" and "find_enclave (m_handle m) s = Some (Some en)"
    and chk: "region_check (Some m)" and mem: "\<not> oom s (brk s)"
  shows "\<exists>ok s' ys. region_list s' en ys \<and> ins region_ops [] (region_of m) (map snd xs) = (ok, map snd ys) \<and>
           add_region m s = Some (if ok then OK else FAIL, s')"
proof -
  let ?q = "brk s" and ?e = "region_of m"
  obtain c where c: "encls s en = Some c" "dll (reg_links s) (regions c) (map fst xs)"
    and l: "live (regs s) (reg_links s)" and mm: "\<forall>(p, x) \<in> set xs. regs s p = Some x"
    using assms(1) by (auto simp: region_list_def)
  have q: "regs s ?q = None" using assms(2) by (auto simp: heap_fresh_def)
  have nq: "?q \<notin> set (map fst xs)" using mm q by force
  let ?s = "s\<lparr>brk := Suc ?q, regs := (regs s)(?q \<mapsto> ?e),
              reg_links := (reg_links s)(?q \<mapsto> \<lparr>prev = None, nxt = None\<rparr>)\<rparr>"
  have "dll ((reg_links s)(?q \<mapsto> \<lparr>prev = None, nxt = None\<rparr>)) (regions c) (map fst xs)"
    by (rule dll_frame [OF c(2)]) (metis nq fun_upd_other)
  moreover have "live ((regs s)(?q \<mapsto> ?e)) ((reg_links s)(?q \<mapsto> \<lparr>prev = None, nxt = None\<rparr>))"
    using l by (simp add: live_def)
  moreover have "((regs s)(?q \<mapsto> ?e)) p = Some x" if "(p, x) \<in> set xs" for p x
    using that mm q by (cases "p = ?q") auto
  ultimately have rl: "region_list ?s en xs" using c(1) by (auto simp: region_list_def)
  have hd: "head (regions c) = fstp xs" using c(2) by (cases xs) (auto simp: dll_def)
  have v: "region_view ?s en (insert ?q (set (map fst xs))) ?s (rev [] @ xs) (Some (?q, ?e))"
    using region_list_view [OF rl, of ?q ?e] nq by simp
  obtain how s' where h: "add_region_loop en ?q (fstp xs) None ?s = Some (how, s')"
    and o: "region_heap.outcome ?s en (insert ?q (set (map fst xs))) ?q how s' (ins region_ops [] ?e (map snd xs))"
    using region_heap.loop_ins [OF v] by auto
  have "add_region m s = link_region en ?q how s'"
    using assms(3) chk mem c(1) h hd
    by (simp add: add_region_def alloc_region_def kmalloc_def Let_def dll_init_elem_def region_of_def link_region_def)
  then show ?thesis using link_region_list [OF o] by auto
qed

lemma add_region_refused:
  assumes "find_enclave (m_handle m) s = Some (Some en)" and "region_list s en xs" and "heap_fresh s"
    and "\<not> region_check (Some m) \<or> oom s (brk s)"
  shows "\<exists>s'. add_region m s = Some (FAIL, s') \<and> region_list s' en xs"
proof (cases "region_check (Some m)")
  case False
  then show ?thesis using assms by (simp add: add_region_def)
next
  case True
  then have "add_region m s = Some (FAIL, s\<lparr>brk := Suc (brk s)\<rparr>)"
    using assms by (simp add: add_region_def alloc_region_def kmalloc_def)
  moreover have "region_list (s\<lparr>brk := Suc (brk s)\<rparr>) en xs" using assms(2) by (simp add: region_list_def)
  ultimately show ?thesis by blast
qed

end
