(* ===== verification/Enclave_Theorems.thy ===== *)
theory Enclave_Theorems
  imports Enclave_Insert
begin

text \<open>
  The properties of the region and page lists of an enclave and of the list of enclaves, with a small
  driver state on which their hypotheses hold.
\<close>

section \<open>A concrete driver state\<close>

definition demo_region :: "u64 \<Rightarrow> u64 \<Rightarrow> u64 \<Rightarrow> region_t" where
  "demo_region a b src = \<lparr>r_start = a, r_end = b, r_src = src, r_flags = 3, r_tpe = 5, pas = dll_init_list\<rparr>"

definition demo_page :: "u64 \<Rightarrow> u64 \<Rightarrow> pa_region_t" where
  "demo_page a b = \<lparr>p_start = a, p_end = b, p_tpe = 5\<rparr>"

definition demo_msg :: "u64 \<Rightarrow> u64 \<Rightarrow> u64 \<Rightarrow> tyche_encl_add_region_t" where
  "demo_msg a b src = \<lparr>m_handle = 0, m_start = a, m_end = b, m_src = src, m_flags = 3, m_tpe = 5\<rparr>"

text \<open>One enclave with the region \<open>[0x4000, 0x6000)\<close> from source \<open>0x10000\<close>, and the physical pages
  \<open>[0x100000, 0x101000)\<close> and \<open>[0x200000, 0x201000)\<close>; a page struct at address 24 is not linked in.\<close>

definition demo_driver :: "unit estate" where
  "demo_driver = \<lparr>mon = (), brk = 100, oom = (\<lambda>_. False), junk = 0, junkp = None,
     capas = Map.empty, capa_links = Map.empty, revs = Map.empty, rev_links = Map.empty,
     local_domain = \<lparr>dom_id = 1, alloc = Some 1, dealloc = Some 2, print = Some 3, capabilities = dll_init_list\<rparr>,
     encls = [5 \<mapsto> \<lparr>pid = 42, e_handle = 0, tyche_handle = 7, invoke = 0, cr3 = 0, e_entry = 0, stack = 0,
                pts = dll_init_list, regions = \<lparr>head = Some 10, tail = Some 10\<rparr>,
                all_pages = \<lparr>head = Some 20, tail = Some 21\<rparr>\<rparr>],
     encl_links = [5 \<mapsto> \<lparr>prev = None, nxt = None\<rparr>],
     regs = [10 \<mapsto> demo_region 0x4000 0x6000 0x10000],
     reg_links = [10 \<mapsto> \<lparr>prev = None, nxt = None\<rparr>],
     pars = [20 \<mapsto> demo_page 0x100000 0x101000, 21 \<mapsto> demo_page 0x200000 0x201000,
             24 \<mapsto> demo_page 0x101000 0x102000],
     pa_links = [20 \<mapsto> \<lparr>prev = None, nxt = None\<rparr>, 21 \<mapsto> \<lparr>prev = None, nxt = None\<rparr>,
                 24 \<mapsto> \<lparr>prev = None, nxt = None\<rparr>],
     glob_links = [20 \<mapsto> \<lparr>prev = None, nxt = Some 21\<rparr>, 21 \<mapsto> \<lparr>prev = Some 20, nxt = None\<rparr>,
                   24 \<mapsto> \<lparr>prev = None, nxt = None\<rparr>],
     enclaves = \<lparr>head = Some 5, tail = Some 5\<rparr>, current_pid = 42, tyche_ids = 1,
     pt_mem = Map.empty, page_pool = (\<lambda>_. None), page_next = 0, other_cr3 = 0\<rparr>"

abbreviation "demo_pages \<equiv> [(20 :: ptr, demo_page 0x100000 0x101000), (21, demo_page 0x200000 0x201000)]"
abbreviation "demo_regions \<equiv> [(10 :: ptr, demo_region 0x4000 0x6000 0x10000)]"

lemma demo_page_list: "page_list demo_driver 5 demo_pages"
  by (simp add: page_list_def demo_driver_def dll_def live_def)

lemma demo_region_list: "region_list demo_driver 5 demo_regions"
  by (simp add: region_list_def demo_driver_def dll_def live_def)

lemma demo_fresh: "heap_fresh demo_driver"
  by (simp add: heap_fresh_def demo_driver_def)

lemma demo_find: "find_enclave 0 demo_driver = Some (Some 5)"
  unfolding find_enclave_def by (subst dll_find.simps) (simp add: demo_driver_def)

lemma demo_check: "m_tpe m = 5 \<Longrightarrow> m_flags m = 3 \<Longrightarrow> m_start m mod 0x1000 = 0 \<Longrightarrow> m_end m mod 0x1000 = 0 \<Longrightarrow>
    m_src m mod 0x1000 = 0 \<Longrightarrow> m_start m < m_end m \<Longrightarrow> region_check (Some m)"
  by (simp add: region_check_def te_consts capa_consts)

section \<open>The physical pages of an enclave\<close>

text \<open>C15: collecting physical pages.  On a sorted list of pages without overlaps, \<open>add_merge_global\<close>
  refuses a range exactly when one of its addresses is already in the list, and then leaves the list as
  it is; otherwise the list stays sorted and free of overlaps and covers, for every type of mapping,
  exactly the old addresses and those of the new range, however many neighbours were merged.\<close>

theorem add_merge_global_correct:
  assumes "page_list s en xs" and "sorted_ivls pa_ops (map snd xs)"
    and "pars s r = Some e" and "r \<notin> set (map fst xs)" and "p_start e < p_end e"
  shows "\<exists>rc s' ys. add_merge_global (Some en) (Some r) s = Some (rc, s') \<and> page_list s' en ys \<and>
     sorted_ivls pa_ops (map snd ys) \<and>
     (if \<exists>x \<in> set (map snd xs). ivl (p_start x) (p_end x) \<inter> ivl (p_start e) (p_end e) \<noteq> {}
      then rc = FAIL \<and> map snd ys = map snd xs
      else rc = OK \<and> (\<forall>k. covered pa_ops k (map snd ys) =
             covered pa_ops k (map snd xs) \<union> (if p_tpe e = p_tpe k then ivl (p_start e) (p_end e) else {})))"
proof -
  obtain ok s' ys where r: "page_list s' en ys" "ins pa_ops [] e (map snd xs) = (ok, map snd ys)"
    "add_merge_global (Some en) (Some r) s = Some (if ok then OK else FAIL, s')"
    using add_merge_global_list [OF assms(1,3,4)] by blast
  have "ins_post pa_ops (map snd xs) e (ok, map snd ys)"
    using pa_laws.ins_correct [OF assms(2), of e] assms(5) r(2) by (simp add: absorbable_def)
  then show ?thesis using r(1,3) assms(2) unfolding ins_post_def
    by (intro exI [of _ "if ok then OK else FAIL"] exI [of _ s'] exI [of _ ys]) (auto split: if_splits simp del: mem_ivl)
qed

theorem add_merge_global_correct_witness:
  "\<exists>rc s' ys. add_merge_global (Some 5) (Some 24) demo_driver = Some (rc, s') \<and> page_list s' 5 ys \<and>
     sorted_ivls pa_ops (map snd ys)"
proof -
  have "sorted_ivls pa_ops (map snd demo_pages)" by (simp add: sorted_ivls_def demo_page_def)
  moreover have "pars demo_driver 24 = Some (demo_page 0x101000 0x102000)" by (simp add: demo_driver_def)
  ultimately show ?thesis
    using add_merge_global_correct [OF demo_page_list, of 24 "demo_page 0x101000 0x102000"]
    by (auto simp: demo_page_def)
qed

section \<open>The regions of an enclave\<close>




text \<open>C17: the list does not stay sorted.  When the only region of the enclave begins where the new one
  ends, with the same type and rights but from another source, \<open>add_region\<close> reports success and links
  the new region in behind it, although its addresses come first.\<close>

theorem add_region_unsorted:
  assumes "region_list s en [(i, x)]" and "heap_fresh s" and "find_enclave (m_handle m) s = Some (Some en)"
    and "region_check (Some m)" and "\<not> oom s (brk s)"
    and "r_start x < r_end x" and "r_start x = m_end m" and "r_tpe x = m_tpe m" and "r_flags x = m_flags m"
    and "r_src x \<noteq> m_src m + (m_end m - m_start m)"
  shows "\<exists>s' ys. add_region m s = Some (OK, s') \<and> region_list s' en ys \<and> map snd ys = [x, region_of m] \<and>
           \<not> sorted_ivls region_ops (map snd ys)"
proof -
  have lt: "m_start m < m_end m" using assms(4) by (auto simp: region_check_def split: if_splits)
  have "ins region_ops [] (region_of m) [x] = (True, [x, region_of m])"
    using assms(6-10) lt by (auto simp: region_of_def dll_overlap_def)
  moreover obtain ok s' ys where "region_list s' en ys" "ins region_ops [] (region_of m) [x] = (ok, map snd ys)"
    "add_region m s = Some (if ok then OK else FAIL, s')"
    using add_region_list [OF assms(1-5)] by auto
  moreover have "\<not> sorted_ivls region_ops [x, region_of m]"
    using assms(6,7) lt by (auto simp: sorted_ivls_def region_of_def)
  ultimately show ?thesis by auto
qed

theorem add_region_unsorted_witness:
  "\<exists>s' ys. add_region (demo_msg 0x3000 0x4000 0x30000) demo_driver = Some (OK, s') \<and> region_list s' 5 ys \<and>
     map snd ys = [demo_region 0x4000 0x6000 0x10000, region_of (demo_msg 0x3000 0x4000 0x30000)] \<and>
     \<not> sorted_ivls region_ops (map snd ys)"
proof (rule add_region_unsorted [OF demo_region_list demo_fresh])
  show "find_enclave (m_handle (demo_msg 0x3000 0x4000 0x30000)) demo_driver = Some (Some 5)"
    using demo_find by (simp add: demo_msg_def)
  show "region_check (Some (demo_msg 0x3000 0x4000 0x30000))" by (rule demo_check) (simp_all add: demo_msg_def)
qed (simp_all add: demo_msg_def demo_region_def demo_driver_def)

text \<open>C18: merging to the right forgets the source.  When the new region continues the only region of the
  enclave, with a contiguous source and the same type and rights, the merged region starts where the
  old one started but keeps the source address of the new one: the first page of the enclave will be
  taken from the source of the second region.\<close>

theorem add_region_loses_source:
  assumes "region_list s en [(i, x)]" and "heap_fresh s" and "find_enclave (m_handle m) s = Some (Some en)"
    and "region_check (Some m)" and "\<not> oom s (brk s)"
    and "r_start x < r_end x" and "r_end x = m_start m" and "r_tpe x = m_tpe m" and "r_flags x = m_flags m"
    and "m_src m = r_src x + (r_end x - r_start x)"
  shows "\<exists>s' ys. add_region m s = Some (OK, s') \<and> region_list s' en ys \<and>
           map snd ys = [(region_of m)\<lparr>r_start := r_start x\<rparr>] \<and>
           r_src ((region_of m)\<lparr>r_start := r_start x\<rparr>) \<noteq> r_src x"
proof -
  have lt: "m_start m < m_end m" using assms(4) by (auto simp: region_check_def split: if_splits)
  let ?e = "region_of m"
  have e: "r_start ?e = m_start m" "r_end ?e = m_end m" "r_src ?e = m_src m" "r_tpe ?e = m_tpe m" "r_flags ?e = m_flags m"
    by (simp_all add: region_of_def)
  have lt2: "r_start x < m_end m" using assms(6,7) lt by (metis order.strict_trans)
  note s = region_ops_simps e assms(10) dll_overlap_def and c = assms(6-9) lt lt2
  have n1: "\<not> dll_overlap (lo region_ops x) (hi region_ops x) (lo region_ops ?e) (hi region_ops ?e)"
    unfolding s using c by auto
  have n2: "\<not> (lo region_ops x > hi region_ops ?e \<or> (lo region_ops x = hi region_ops ?e \<and> \<not> same region_ops x ?e))"
    unfolding s using c by auto
  have n3: "\<not> (lo region_ops x = hi region_ops ?e \<and> contig region_ops ?e x \<and> same region_ops x ?e)"
    unfolding s using less_imp_neq [OF lt2] by blast
  have n4: "\<not> (hi region_ops x < lo region_ops ?e \<or> (hi region_ops x = lo region_ops ?e \<and> \<not> same region_ops x ?e))"
    unfolding s using c by auto
  have n5: "hi region_ops x = lo region_ops ?e \<and> contig region_ops x ?e \<and> same region_ops x ?e"
    unfolding s using c by blast
  note step = ins.simps(2) [of region_ops "[]" ?e x "[]", unfolded if_not_P [OF n1] if_not_P [OF n2]
    if_not_P [OF n3] if_not_P [OF n4] if_P [OF n5] list.case if_False]
  have "ins region_ops [] ?e [x] = (True, [?e\<lparr>r_start := r_start x\<rparr>])" unfolding step by simp
  moreover obtain ok s' ys where "region_list s' en ys" "ins region_ops [] (region_of m) [x] = (ok, map snd ys)"
    "add_region m s = Some (if ok then OK else FAIL, s')"
    using add_region_list [OF assms(1-5)] by auto
  moreover have "r_src (?e\<lparr>r_start := r_start x\<rparr>) \<noteq> r_src x"
  proof -
    have "r_end x - r_start x \<noteq> 0" using assms(6) by auto
    then show ?thesis using assms(10) by (simp add: region_of_def)
  qed
  ultimately show ?thesis by auto
qed

theorem add_region_loses_source_witness:
  "\<exists>s' ys. add_region (demo_msg 0x6000 0x8000 0x12000) demo_driver = Some (OK, s') \<and> region_list s' 5 ys \<and>
     map snd ys = [(region_of (demo_msg 0x6000 0x8000 0x12000))\<lparr>r_start := 0x4000\<rparr>]"
proof -
  have "\<exists>s' ys. add_region (demo_msg 0x6000 0x8000 0x12000) demo_driver = Some (OK, s') \<and> region_list s' 5 ys \<and>
     map snd ys = [(region_of (demo_msg 0x6000 0x8000 0x12000))\<lparr>r_start := r_start (demo_region 0x4000 0x6000 0x10000)\<rparr>] \<and>
     r_src ((region_of (demo_msg 0x6000 0x8000 0x12000))\<lparr>r_start := r_start (demo_region 0x4000 0x6000 0x10000)\<rparr>)
       \<noteq> r_src (demo_region 0x4000 0x6000 0x10000)"
  proof (rule add_region_loses_source [OF demo_region_list demo_fresh])
    show "find_enclave (m_handle (demo_msg 0x6000 0x8000 0x12000)) demo_driver = Some (Some 5)"
      using demo_find by (simp add: demo_msg_def)
    show "region_check (Some (demo_msg 0x6000 0x8000 0x12000))" by (rule demo_check) (simp_all add: demo_msg_def)
  qed (simp_all add: demo_msg_def demo_region_def demo_driver_def)
  moreover have "r_start (demo_region 0x4000 0x6000 0x10000) = 0x4000" by (simp add: demo_region_def)
  ultimately show ?thesis by metis
qed

section \<open>The list of enclaves\<close>

text \<open>The enclaves of the driver, as addresses and contents.\<close>

definition enclave_list :: "('m, 'z) estate_scheme \<Rightarrow> (ptr \<times> enclave_t) list \<Rightarrow> bool" where
  "enclave_list s xs \<longleftrightarrow> dll (encl_links s) (enclaves s) (map fst xs) \<and>
     (\<forall>(p, c) \<in> set xs. encls s p = Some c) \<and> live (encls s) (encl_links s)"

lemma enclave_search:
  assumes "enclave_list s xs"
  shows "dll_find (\<lambda>p. map_option Q (encls s p)) (encl_links s) (head (enclaves s))
         = Some (map_option fst (List.find (Q \<circ> snd) xs))"
proof -
  have d: "dll (encl_links s) (enclaves s) (map fst xs)" and m: "\<forall>(p, c) \<in> set xs. encls s p = Some c"
    using assms by (auto simp: enclave_list_def)
  have "dll_find (\<lambda>p. map_option Q (encls s p)) (encl_links s) (head (enclaves s))
        = Some (List.find (\<lambda>p. Q (the (encls s p))) (map fst xs))"
    by (rule dll_find_dll [OF d]) (use m in force)
  also have "List.find (\<lambda>p. Q (the (encls s p))) (map fst xs) = map_option fst (List.find (Q \<circ> snd) xs)"
    using m by (induction xs) auto
  finally show ?thesis .
qed

text \<open>finding an enclave.  \<open>find_enclave\<close> returns the first enclave with the handle if the calling
  task created it, and NULL otherwise: another task never gets hold of an enclave.\<close>

theorem find_enclave_correct:
  assumes "enclave_list s xs"
  shows "find_enclave hdl s = Some (case List.find (\<lambda>(p, c). e_handle c = hdl) xs of
           None \<Rightarrow> None | Some (p, c) \<Rightarrow> if pid c = current_pid s then Some p else None)"
proof -
  have eq: "(\<lambda>c. e_handle c = hdl) \<circ> snd = (\<lambda>(p, c). e_handle c = hdl)" by auto
  note es = enclave_search [OF assms, of "\<lambda>c. e_handle c = hdl", unfolded eq]
  have m: "\<forall>(p, c) \<in> set xs. encls s p = Some c" using assms by (auto simp: enclave_list_def)
  show ?thesis
  proof (cases "List.find (\<lambda>(p, c). e_handle c = hdl) xs")
    case None
    then show ?thesis using es by (simp add: find_enclave_def)
  next
    case (Some a)
    obtain p c where a: "a = (p, c)" by (cases a)
    then have "encls s p = Some c" using Some m by (auto simp: find_Some_split)
    then show ?thesis using es Some a by (simp add: find_enclave_def)
  qed
qed

abbreviation "demo_enclaves \<equiv> [(5 :: ptr, \<lparr>pid = 42, e_handle = 0, tyche_handle = 7, invoke = 0, cr3 = 0,
  e_entry = 0, stack = 0, pts = dll_init_list, regions = \<lparr>head = Some 10, tail = Some 10\<rparr>,
  all_pages = \<lparr>head = Some 20, tail = Some 21\<rparr>\<rparr>)]"

lemma demo_enclave_list: "enclave_list demo_driver demo_enclaves"
  by (simp add: enclave_list_def demo_driver_def dll_def live_def)

theorem find_enclave_correct_witness:
  "find_enclave 0 (demo_driver\<lparr>current_pid := 43\<rparr>) = Some None"
proof -
  have "enclave_list (demo_driver\<lparr>current_pid := 43\<rparr>) demo_enclaves"
    using demo_enclave_list by (simp add: enclave_list_def)
  from find_enclave_correct [OF this, of 0] show ?thesis by simp
qed

lemma enclaves_addE:
  assumes "enclave_list s xs" and "encls s q = Some c" and "q \<notin> set (map fst xs)"
    and "encl_links s q = Some \<lparr>prev = None, nxt = None\<rparr>"
  obtains s' where "enclaves_add q s = Some s'" "enclave_list s' (xs @ [(q, c)])"
    "encls s' = encls s" "mon s' = mon s"
proof -
  have d: "dll (encl_links s) (enclaves s) (map fst xs)" using assms(1) by (simp add: enclave_list_def)
  obtain l lk where a: "dll_add q (enclaves s, encl_links s) = Some (l, lk)" "dll lk l (map fst xs @ [q])"
    "links_frame (encl_links s) lk (set (q # map fst xs))"
    by (rule dll_addE [OF d assms(3,4)])
  have "live (encls s) (encl_links s)" using assms(1) by (simp add: enclave_list_def)
  from live_links [OF this a(3)] have "live (encls s) lk" .
  then show ?thesis
    using that [of "s\<lparr>enclaves := l, encl_links := lk\<rparr>"] a assms(1,2)
    by (auto simp: enclaves_add_def enclave_list_def)
qed

lemma enclaves_removeE:
  assumes "enclave_list s (xs @ [(q, c)])"
  obtains s' where "enclaves_remove q s = Some s'" "enclave_list s' xs"
proof -
  have d: "dll (encl_links s) (enclaves s) (map fst xs @ q # [])" using assms by (simp add: enclave_list_def)
  obtain l lk where a: "dll_remove q (enclaves s, encl_links s) = Some (l, lk)" "dll lk l (map fst xs @ [])"
    "links_frame (encl_links s) lk (set (map fst xs @ q # []))"
    by (rule dll_removeE [OF d])
  have "live (encls s) (encl_links s)" using assms by (simp add: enclave_list_def)
  from live_links [OF this a(3)] have "live (encls s) lk" .
  then show ?thesis
    using that [of "s\<lparr>enclaves := l, encl_links := lk\<rparr>"] a assms
    by (auto simp: enclaves_remove_def enclave_list_def)
qed

lemma tc_create_domainE:
  obtains r h m where "tc_create_domain vmc (Some old) w = (r, Some h, w\<lparr>mon := m\<rparr>)"
    and "r = OK \<or> r = FAIL"
proof -
  obtain r h m where "tyche_create_domain vmc (Some old) w = (r, Some h, w\<lparr>mon := m\<rparr>)" "r = OK \<or> r = FAIL \<and> h = old"
    by (rule tyche_create_domainE)
  then show ?thesis using that [of "if r = 0 then OK else FAIL" h m]
    by (cases "r = 0") (auto simp: tc_create_domain_def create_domain_def)
qed

text \<open>The three ways \<open>add_enclave\<close> can go.\<close>

lemma heap_fresh_encl: "heap_fresh s \<Longrightarrow> encls s (brk s) = None"
  by (auto simp: heap_fresh_def)

lemma add_enclave_cases:
  assumes xs: "enclave_list s xs" and q: "encls s (brk s) = None"
  obtains (refused) s' where "add_enclave vmc hdl s = Some (FAIL, s')" "enclave_list s' xs"
      "hdl \<in> (e_handle \<circ> snd) ` set xs \<or> oom s (brk s)"
  | (rejected) s' where "add_enclave vmc hdl s = Some (FAIL, s')" "enclave_list s' xs"
      "hdl \<notin> (e_handle \<circ> snd) ` set xs" "encls s' (brk s) \<noteq> None" "brk s \<notin> fst ` set xs"
  | (created) s' c where "add_enclave vmc hdl s = Some (OK, s')" "enclave_list s' (xs @ [(brk s, c)])"
      "hdl \<notin> (e_handle \<circ> snd) ` set xs" "e_handle c = hdl" "pid c = current_pid s"
      "dll_is_empty (regions c)" "dll_is_empty (pts c)" "dll_is_empty (all_pages c)"
proof -
  let ?q = "brk s"
  have mm: "\<forall>(p, c) \<in> set xs. encls s p = Some c" using xs by (simp add: enclave_list_def)
  have nq: "?q \<notin> set (map fst xs)" using mm q by force
  have es: "dll_find (\<lambda>p. map_option (\<lambda>c. compare_encl (e_handle c) hdl) (encls s p)) (encl_links s) (head (enclaves s))
      = Some (map_option fst (List.find ((\<lambda>c. compare_encl (e_handle c) hdl) \<circ> snd) xs))"
    by (rule enclave_search [OF xs])
  show ?thesis
  proof (cases "List.find ((\<lambda>c. compare_encl (e_handle c) hdl) \<circ> snd) xs")
    case (Some a)
    then have "hdl \<in> (e_handle \<circ> snd) ` set xs" by (auto simp: find_Some_split compare_encl_def)
    moreover have "add_enclave vmc hdl s = Some (FAIL, s)" using es Some by (simp add: add_enclave_def)
    ultimately show ?thesis using refused xs by blast
  next
    case None
    then have nh: "hdl \<notin> (e_handle \<circ> snd) ` set xs" by (force simp: find_None_iff compare_encl_def)
    show ?thesis
    proof (cases "oom s ?q")
      case True
      then have "add_enclave vmc hdl s = Some (FAIL, s\<lparr>brk := Suc ?q\<rparr>)"
        using es None by (simp add: add_enclave_def alloc_enclave_def kmalloc_def)
      moreover have "enclave_list (s\<lparr>brk := Suc ?q\<rparr>) xs" using xs by (simp add: enclave_list_def)
      ultimately show ?thesis using refused True by blast
    next
      case False
      define jl where "jl = \<lparr>head = junkp s, tail = junkp s\<rparr>"
      define c where "c = \<lparr>pid = current_pid s, e_handle = hdl, tyche_handle = junk s, invoke = junk s, cr3 = junk s,
          e_entry = junk s, stack = junk s, pts = dll_init_list, regions = dll_init_list, all_pages = dll_init_list\<rparr>"
      let ?s1 = "s\<lparr>brk := Suc ?q, encls := (encls s)(?q \<mapsto> c), encl_links := (encl_links s)(?q \<mapsto> \<lparr>prev = None, nxt = None\<rparr>)\<rparr>"
      have l1: "enclave_list ?s1 xs"
      proof -
        have "dll ((encl_links s)(?q \<mapsto> \<lparr>prev = None, nxt = None\<rparr>)) (enclaves s) (map fst xs)"
        proof (rule dll_frame [of "encl_links s"])
          show "dll (encl_links s) (enclaves s) (map fst xs)" using xs by (simp add: enclave_list_def)
        qed (metis nq fun_upd_other)
        moreover have "((encls s)(?q \<mapsto> c)) p = Some d" if "(p, d) \<in> set xs" for p d
          using that mm q by (cases "p = ?q") auto
        moreover have "live ((encls s)(?q \<mapsto> c)) ((encl_links s)(?q \<mapsto> \<lparr>prev = None, nxt = None\<rparr>))"
          using xs by (simp add: enclave_list_def live_def)
        ultimately show ?thesis by (auto simp: enclave_list_def)
      qed
      obtain s2 where s2: "enclaves_add ?q ?s1 = Some s2" "enclave_list s2 (xs @ [(?q, c)])"
        "encls s2 = encls ?s1" "mon s2 = mon ?s1"
        by (rule enclaves_addE [OF l1, of ?q c]) (use nq in auto)
      obtain r h m where t: "tc_create_domain vmc (Some (tyche_handle c)) s2 = (r, Some h, s2\<lparr>mon := m\<rparr>)"
        "r = OK \<or> r = FAIL" by (rule tc_create_domainE)
      let ?d = "c\<lparr>tyche_handle := h\<rparr>"
      let ?s3 = "s2\<lparr>mon := m, encls := (encls s2)(?q \<mapsto> ?d)\<rparr>"
      have l3: "enclave_list ?s3 (xs @ [(?q, ?d)])"
      proof -
        have "((encls s2)(?q \<mapsto> ?d)) p = Some e" if "(p, e) \<in> set xs" for p e
        proof -
          have "p \<noteq> ?q" using that nq by force
          then show ?thesis using that s2(2) by (auto simp: enclave_list_def)
        qed
        moreover have "live ((encls s2)(?q \<mapsto> ?d)) (encl_links s2)"
          by (rule live_upd [of _ _ _ c]) (use s2(2,3) in \<open>auto simp: enclave_list_def\<close>)
        ultimately show ?thesis using s2(2) by (auto simp: enclave_list_def)
      qed
      have body: "add_enclave vmc hdl s =
          (if r \<noteq> 0 then do { s \<leftarrow> enclaves_remove ?q ?s3; Some (FAIL, s) } else Some (OK, ?s3))"
        using es None False s2(1,3) t(1)
        by (simp add: add_enclave_def alloc_enclave_def kmalloc_def Let_def dll_init_elem_def tyche_domain_create_def
            c_def split: prod.splits)
      show ?thesis
      proof (cases "r = 0")
        case True
        then show ?thesis using created [of ?s3 ?d] body l3 nh by (simp add: c_def dll_is_empty_def dll_init_list_def)
      next
        case rej: False
        obtain s4 where s4: "enclaves_remove ?q ?s3 = Some s4" "enclave_list s4 xs"
          by (rule enclaves_removeE [OF l3])
        have "encls s4 = encls ?s3" using s4(1) by (auto simp: enclaves_remove_def bind_Some_iff)
        then have "encls s4 ?q \<noteq> None" by simp
        then show ?thesis using rejected [of s4] body rej s4 nh nq by simp
      qed
    qed
  qed
qed

text \<open>creating an enclave.  \<open>add_enclave\<close> always returns; it never lets two enclaves have the same
  handle; success appends one enclave that belongs to the calling task, has the handle, and owns no
  region and no page; failure leaves the list of enclaves as it is.\<close>

theorem add_enclave_correct:
  assumes "enclave_list s xs" and "heap_fresh s" and "distinct (map (e_handle \<circ> snd) xs)"
  shows "\<exists>rc s' ys. add_enclave vmc hdl s = Some (rc, s') \<and> enclave_list s' ys \<and>
    distinct (map (e_handle \<circ> snd) ys) \<and>
    (rc = FAIL \<and> ys = xs \<or>
     rc = OK \<and> hdl \<notin> (e_handle \<circ> snd) ` set xs \<and>
     (\<exists>q c. ys = xs @ [(q, c)] \<and> e_handle c = hdl \<and> pid c = current_pid s \<and>
        dll_is_empty (regions c) \<and> dll_is_empty (pts c) \<and> dll_is_empty (all_pages c)))"
proof (cases rule: add_enclave_cases [OF assms(1) heap_fresh_encl [OF assms(2)], of vmc hdl])
  case (3 s' c)
  then show ?thesis using assms(3) by (intro exI [of _ OK] exI [of _ s'] exI [of _ "xs @ [(brk s, c)]"]) auto
qed (use assms(3) in auto)

theorem add_enclave_correct_witness:
  "\<exists>rc s' ys. add_enclave (\<lambda>r m. (r\<lparr>rax := 0\<rparr>, m)) 1 demo_driver = Some (rc, s') \<and> enclave_list s' ys \<and>
    distinct (map (e_handle \<circ> snd) ys)"
  using add_enclave_correct [OF demo_enclave_list demo_fresh, of "\<lambda>r m. (r\<lparr>rax := 0\<rparr>, m)" 1] by auto

text \<open>a rejected enclave is leaked.  When the monitor refuses to create the domain, \<open>add_enclave\<close>
  unlinks the new struct but does not free it: it stays allocated and is in no list.\<close>

theorem add_enclave_leaks:
  assumes "enclave_list s xs" and "heap_fresh s" and "hdl \<notin> (e_handle \<circ> snd) ` set xs"
    and "\<not> oom s (brk s)" and "fst (the (add_enclave vmc hdl s)) = FAIL"
  shows "\<exists>s'. add_enclave vmc hdl s = Some (FAIL, s') \<and> enclave_list s' xs \<and>
           encls s' (brk s) \<noteq> None \<and> brk s \<notin> fst ` set xs"
  by (cases rule: add_enclave_cases [OF assms(1) heap_fresh_encl [OF assms(2)], of vmc hdl]) (use assms in auto)

theorem add_enclave_leaks_witness:
  "\<exists>s'. add_enclave (\<lambda>r m. (r\<lparr>rax := 1\<rparr>, m)) 1 demo_driver = Some (FAIL, s') \<and>
     enclave_list s' demo_enclaves \<and> encls s' 100 \<noteq> None"
proof -
  have "fst (the (add_enclave (\<lambda>r m. (r\<lparr>rax := 1\<rparr>, m)) 1 demo_driver)) = FAIL"
    unfolding add_enclave_def
    by (subst dll_find.simps, subst dll_find.simps)
       (simp add: demo_driver_def alloc_enclave_def kmalloc_def Let_def dll_init_elem_def enclaves_add_def dll_macro_defs
          tyche_domain_create_def tc_create_domain_def create_domain_def tyche_create_domain_def tyche_call_def
          frame0_def compare_encl_def enclaves_remove_def)
  then show ?thesis
    using add_enclave_leaks [OF demo_enclave_list demo_fresh, of 1 "\<lambda>r m. (r\<lparr>rax := 1\<rparr>, m)"]
    by (auto simp: demo_driver_def)
qed

end
