(* ===== verification/Page_Tables.thy ===== *)
theory Page_Tables
  imports Prelude
begin

text \<open>
  The page-table library: \<open>programs/libs/pts/include/pts_api.h\<close>, \<open>src/lib.c\<close>, \<open>include/x86_64_pt.h\<close> and
  \<open>src/x86_64_pt.c\<close>.  The walker is one function on (level, index), as in the source a loop over the
  entries of a table that calls the walker on the next level.

  The callbacks of a profile get the address of an entry and a level and run on the state of the
  caller, of any type; a callback that faults is \<open>None\<close>.  The profile itself is not passed to them:
  its fields are constant during a walk except \<open>curr_va\<close>, which belongs to the state.  What the library
  itself does with the state, reading an entry and storing \<open>curr_va\<close>, goes through the record
  \<open>pt_memory\<close>.  A failed \<open>TEST\<close>, which stores through NULL or calls \<open>abort\<close>, is \<open>None\<close>.
\<close>

section \<open>pts_api.h\<close>

type_synonym addr_t = u64
type_synonym level_t = "8 word"
type_synonym index_t = u32
type_synonym entry_t = addr_t

datatype callback_action_t = WALK | VISIT | MAP | SKIP | ERROR

type_synonym 's callback_t = "addr_t \<Rightarrow> level_t \<Rightarrow> 's \<Rightarrow> (callback_action_t \<times> 's) option"

record 's pt_profile_t =
  nb_levels :: level_t
  nb_entries :: index_t
  visitors :: "'s callback_t option list"
  mappers :: "'s callback_t option list"
  masks :: "addr_t list"
  shifts :: "addr_t list"
  how :: "'s callback_t option"
  next_level :: "(entry_t \<Rightarrow> level_t \<Rightarrow> entry_t) option"
  allocate_fn :: "('s \<Rightarrow> (entry_t \<times> 's) option) option"
  pa_to_va_fn :: "(addr_t \<Rightarrow> addr_t) option"
  va_to_pa_fn :: "(addr_t \<Rightarrow> addr_t) option"

record 's pt_memory =
  load :: "addr_t \<Rightarrow> 's \<Rightarrow> entry_t option"
  set_curr_va :: "addr_t \<Rightarrow> 's \<Rightarrow> 's"

definition MAX_LEVEL :: nat where "MAX_LEVEL = 5"

text \<open>Reading \<open>profile->field[level]\<close>; outside of the array there is no value.\<close>

definition at_level :: "'a list \<Rightarrow> level_t \<Rightarrow> 'a option" where
  "at_level xs l = (if unat l < length xs then Some (xs ! unat l) else None)"

section \<open>lib.c\<close>

text \<open>A shf by the width of the type or more is undefined.\<close>

definition get_index :: "addr_t \<Rightarrow> level_t \<Rightarrow> 's pt_profile_t \<Rightarrow> index_t option" where
  "get_index addr level profile = do {
     msk \<leftarrow> at_level (masks profile) level;
     shf \<leftarrow> at_level (shifts profile) level;
     c_assert (shf < 64);
     Some (ucast (drop_bit (unat shf) (addr AND msk))) }"

text \<open>The labels of the loop body: \<open>visit\<close>, \<open>map\<close> and the switch on \<open>how\<close>.  The result is what happens to
  the entry: \<open>WALK\<close> (go on at label \<open>walk\<close>), \<open>SKIP\<close> (next entry) or \<open>ERROR\<close>.\<close>

definition do_visit :: "'s pt_profile_t \<Rightarrow> 's callback_t" where
  "do_visit profile entry level st = do {
     visitor \<leftarrow> at_level (visitors profile) level;
     case visitor of None \<Rightarrow> Some (WALK, st)
     | Some f \<Rightarrow> do {
         (a, st) \<leftarrow> f entry level st;
         case a of WALK \<Rightarrow> Some (WALK, st)
         | SKIP \<Rightarrow> Some (SKIP, st)
         | ERROR \<Rightarrow> Some (ERROR, st)
         | _ \<Rightarrow> None } }"

definition do_map :: "'s pt_profile_t \<Rightarrow> 's callback_t" where
  "do_map profile entry level st = do {
     mapper \<leftarrow> at_level (mappers profile) level;
     case mapper of None \<Rightarrow> do_visit profile entry level st
     | Some f \<Rightarrow> do {
         (a, st) \<leftarrow> f entry level st;
         case a of WALK \<Rightarrow> Some (WALK, st)
         | VISIT \<Rightarrow> do_visit profile entry level st
         | SKIP \<Rightarrow> Some (SKIP, st)
         | ERROR \<Rightarrow> Some (ERROR, st)
         | MAP \<Rightarrow> None } }"

definition entry_action :: "'s pt_profile_t \<Rightarrow> 's callback_t" where
  "entry_action profile entry level st = do {
     f \<leftarrow> how profile;
     (a, st) \<leftarrow> f entry level st;
     case a of SKIP \<Rightarrow> Some (SKIP, st)
     | VISIT \<Rightarrow> do_visit profile entry level st
     | MAP \<Rightarrow> do_map profile entry level st
     | WALK \<Rightarrow> Some (WALK, st)
     | ERROR \<Rightarrow> Some (ERROR, st) }"

definition current_va :: "addr_t \<Rightarrow> nat \<Rightarrow> addr_t \<Rightarrow> index_t \<Rightarrow> index_t \<Rightarrow> addr_t" where
  "current_va msk shf start s i =
     (let va = (start AND NOT msk) OR push_bit shf (ucast i)
      in if i \<noteq> s then push_bit shf (drop_bit shf va) else va)"

lemma index_Suc:
  fixes i n :: index_t
  assumes "i < n"
  shows "unat (i + 1) = Suc (unat i)"
proof -
  have "unat i < unat n" "unat n < 2 ^ 32" using assms unsigned_less [of n] by (simp_all add: word_less_nat_alt)
  then show ?thesis by (simp add: unat_word_ariths)
qed

lemma index_step:
  fixes i n :: index_t
  assumes "i < n"
  shows "unat (n - (i + 1)) < unat (n - i)"
proof -
  have lt: "unat i < unat n" using assms by (simp add: word_less_nat_alt)
  then have "i + 1 \<le> n" "i \<le> n" by (simp_all add: word_le_nat_alt index_Suc [OF assms])
  then show ?thesis using lt by (simp add: unat_sub index_Suc [OF assms])
qed

lemma level_step: "level \<noteq> 0 \<Longrightarrow> unat (level - 1) < unat level" for level :: level_t
  by (metis measure_unat)

function
  pt_walk_page_range :: "'s pt_profile_t \<Rightarrow> 's pt_memory \<Rightarrow> entry_t \<Rightarrow> level_t \<Rightarrow> addr_t \<Rightarrow> addr_t \<Rightarrow> 's \<Rightarrow>
    (c_int \<times> 's) option" and
  pt_walk_entries :: "'s pt_profile_t \<Rightarrow> 's pt_memory \<Rightarrow> addr_t \<Rightarrow> level_t \<Rightarrow> addr_t \<Rightarrow> addr_t \<Rightarrow> addr_t \<Rightarrow> nat \<Rightarrow>
    index_t \<Rightarrow> index_t \<Rightarrow> 's \<Rightarrow> (c_int \<times> 's) option"
where
  "pt_walk_page_range profile mem root level start stop st =
     (if \<not> start < stop then None
      else if \<not> level < nb_levels profile then None
      else if how profile = None then None
      else case pa_to_va_fn profile of None \<Rightarrow> None
      | Some pa_to_va \<Rightarrow>
          (case (get_index start level profile, at_level (masks profile) level, at_level (shifts profile) level) of
             (Some s, Some msk, Some shf) \<Rightarrow>
               pt_walk_entries profile mem (pa_to_va root) level start stop msk (unat shf) s s st
           | _ \<Rightarrow> None))" |
  "pt_walk_entries profile mem va_root level start stop msk shf s i st =
     (if \<not> i < nb_entries profile then Some (OK, set_curr_va mem 0 st)
      else let va = current_va msk shf start s i; entry = va_root + 8 * ucast i in
        if stop \<le> va then Some (OK, set_curr_va mem 0 st)
        else case entry_action profile entry level (set_curr_va mem va st) of
          None \<Rightarrow> None
        | Some (a, st) \<Rightarrow>
            if a = ERROR then Some (FAIL, st)
            else if a = SKIP then
              pt_walk_entries profile mem va_root level start stop msk shf s (i + 1) st
            else if level = 0 then
              pt_walk_entries profile mem va_root level start stop msk shf s (i + 1) st
            else case (load mem entry st, next_level profile) of
              (Some e, Some nx) \<Rightarrow>
                (case pt_walk_page_range profile mem (nx e level) (level - 1) va stop st of
                   None \<Rightarrow> None
                 | Some (rc, st) \<Rightarrow>
                     if rc = FAIL then None
                     else pt_walk_entries profile mem va_root level start stop msk shf s (i + 1) st)
            | _ \<Rightarrow> None)"
  by pat_completeness auto

termination
  by (relation "inv_image (less_than <*lex*> less_than <*lex*> less_than)
     (case_sum (\<lambda>(p, m, r, l, a, b, st). (unat l, Suc 0, 0))
        (\<lambda>(p, m, r, l, a, b, k, sh, s, i, st). (unat l, 0, unat (nb_entries p - i))))")
    (auto simp: index_step level_step)

declare pt_walk_page_range.simps [simp del] pt_walk_entries.simps [simp del]

section \<open>x86_64_pt.h\<close>

definition x86_64_LEVELS :: level_t where "x86_64_LEVELS = 4"
definition PT_VIRT_WIDTH :: nat where "PT_VIRT_WIDTH = 48"
definition PT_PHYS_WIDTH :: nat where "PT_PHYS_WIDTH = 52"
definition PT_VIRT_MASK :: u64 where "PT_VIRT_MASK = push_bit PT_VIRT_WIDTH 1 - 1"
definition PT_PHYS_MASK :: u64 where "PT_PHYS_MASK = push_bit PT_PHYS_WIDTH 1 - 1"
definition PT_PAGE_WIDTH :: nat where "PT_PAGE_WIDTH = 12"
definition PT_PAGE_SIZE :: u64 where "PT_PAGE_SIZE = push_bit PT_PAGE_WIDTH 1"
definition PT_PAGE_ALIGN :: u64 where "PT_PAGE_ALIGN = PT_PAGE_SIZE - 1"
definition PT_PML4 :: level_t where "PT_PML4 = 3"
definition PT_PGD :: level_t where "PT_PGD = 2"
definition PT_PMD :: level_t where "PT_PMD = 1"
definition PT_PTE :: level_t where "PT_PTE = 0"
definition PT_NB_ENTRIES :: index_t where "PT_NB_ENTRIES = 512"
definition PT_ENTRY_MASK :: u64 where "PT_ENTRY_MASK = 511"
definition PT_ENTRY_BIT_SIZE :: u64 where "PT_ENTRY_BIT_SIZE = 9"
definition PT_PTE_SHIFT :: u64 where "PT_PTE_SHIFT = 12"
definition PT_PMD_SHIFT :: u64 where "PT_PMD_SHIFT = PT_PTE_SHIFT + PT_ENTRY_BIT_SIZE"
definition PT_PGD_SHIFT :: u64 where "PT_PGD_SHIFT = PT_PMD_SHIFT + PT_ENTRY_BIT_SIZE"
definition PT_PML4_SHIFT :: u64 where "PT_PML4_SHIFT = PT_PGD_SHIFT + PT_ENTRY_BIT_SIZE"
definition PT_PTE_PAGE_MASK :: u64 where "PT_PTE_PAGE_MASK = push_bit (unat PT_PTE_SHIFT) PT_ENTRY_MASK"
definition PT_PMD_PAGE_MASK :: u64 where "PT_PMD_PAGE_MASK = push_bit (unat PT_PMD_SHIFT) PT_ENTRY_MASK"
definition PT_PGD_PAGE_MASK :: u64 where "PT_PGD_PAGE_MASK = push_bit (unat PT_PGD_SHIFT) PT_ENTRY_MASK"
definition PT_PML4_PAGE_MASK :: u64 where "PT_PML4_PAGE_MASK = push_bit (unat PT_PML4_SHIFT) PT_ENTRY_MASK"
definition PT_PMD_PAGE_SIZE :: u64 where "PT_PMD_PAGE_SIZE = push_bit (unat PT_PMD_SHIFT) 1"
definition PT_PGD_PAGE_SIZE :: u64 where "PT_PGD_PAGE_SIZE = push_bit (unat PT_PGD_SHIFT) 1"
definition PT_VIRT_PAGE_MASK :: u64 where "PT_VIRT_PAGE_MASK = PT_VIRT_MASK - PT_PAGE_ALIGN"
definition PT_PHYS_PAGE_MASK :: u64 where "PT_PHYS_PAGE_MASK = PT_PHYS_MASK - PT_PAGE_ALIGN"

definition PT_PAGE_BIT_PRESENT :: nat where "PT_PAGE_BIT_PRESENT = 0"
definition PT_PAGE_BIT_RW :: nat where "PT_PAGE_BIT_RW = 1"
definition PT_PAGE_BIT_USER :: nat where "PT_PAGE_BIT_USER = 2"
definition PT_PAGE_BIT_ACCESSED :: nat where "PT_PAGE_BIT_ACCESSED = 5"
definition PT_PAGE_BIT_DIRTY :: nat where "PT_PAGE_BIT_DIRTY = 6"
definition PT_PAGE_BIT_PSE :: nat where "PT_PAGE_BIT_PSE = 7"
definition PT_PAGE_BIT_NX :: nat where "PT_PAGE_BIT_NX = 63"

definition PT_PAGE_PRESENT :: entry_t where "PT_PAGE_PRESENT = push_bit PT_PAGE_BIT_PRESENT 1"
definition PT_PAGE_RW :: entry_t where "PT_PAGE_RW = push_bit PT_PAGE_BIT_RW 1"
definition PT_PAGE_USER :: entry_t where "PT_PAGE_USER = push_bit PT_PAGE_BIT_USER 1"
definition PT_PAGE_ACCESSED :: entry_t where "PT_PAGE_ACCESSED = push_bit PT_PAGE_BIT_ACCESSED 1"
definition PT_PAGE_DIRTY :: entry_t where "PT_PAGE_DIRTY = push_bit PT_PAGE_BIT_DIRTY 1"
definition PT_PAGE_PSE :: entry_t where "PT_PAGE_PSE = push_bit PT_PAGE_BIT_PSE 1"
definition PT_PAGE_NX :: entry_t where "PT_PAGE_NX = push_bit PT_PAGE_BIT_NX 1"

lemmas pt_flag_defs = PT_PAGE_PRESENT_def PT_PAGE_RW_def PT_PAGE_USER_def PT_PAGE_ACCESSED_def
  PT_PAGE_DIRTY_def PT_PAGE_PSE_def PT_PAGE_NX_def PT_PAGE_BIT_PRESENT_def PT_PAGE_BIT_RW_def PT_PAGE_BIT_USER_def
  PT_PAGE_BIT_ACCESSED_def PT_PAGE_BIT_DIRTY_def PT_PAGE_BIT_PSE_def PT_PAGE_BIT_NX_def

lemmas pt_level_defs = PT_PML4_def PT_PGD_def PT_PMD_def PT_PTE_def x86_64_LEVELS_def PT_NB_ENTRIES_def

lemmas pt_size_defs = PT_PAGE_WIDTH_def PT_PAGE_SIZE_def PT_PAGE_ALIGN_def PT_ENTRY_MASK_def
  PT_ENTRY_BIT_SIZE_def PT_PTE_SHIFT_def PT_PMD_SHIFT_def PT_PGD_SHIFT_def PT_PML4_SHIFT_def
  PT_PTE_PAGE_MASK_def PT_PMD_PAGE_MASK_def PT_PGD_PAGE_MASK_def PT_PML4_PAGE_MASK_def
  PT_PMD_PAGE_SIZE_def PT_PGD_PAGE_SIZE_def

lemmas pt_mask_defs = PT_VIRT_WIDTH_def PT_PHYS_WIDTH_def PT_VIRT_MASK_def PT_PHYS_MASK_def
  PT_VIRT_PAGE_MASK_def PT_PHYS_PAGE_MASK_def

section \<open>x86_64_pt.c\<close>

definition x86_64_how_visit_leaves :: "'s pt_memory \<Rightarrow> 's callback_t" where
  "x86_64_how_visit_leaves mem entry level st = do {
     e \<leftarrow> load mem entry st;
     if e AND PT_PAGE_PRESENT \<noteq> PT_PAGE_PRESENT then Some (SKIP, st)
     else if level = PT_PTE \<or> (level = PT_PGD \<or> level = PT_PMD) \<and> e AND PT_PAGE_PSE = PT_PAGE_PSE
     then Some (VISIT, st)
     else Some (WALK, st) }"

definition x86_64_how_map :: "'s pt_memory \<Rightarrow> 's callback_t" where
  "x86_64_how_map mem entry level st = do {
     e \<leftarrow> load mem entry st;
     if e AND PT_PAGE_PRESENT \<noteq> PT_PAGE_PRESENT then Some (MAP, st) else Some (WALK, st) }"

definition x86_64_get_index :: "addr_t \<Rightarrow> level_t \<Rightarrow> 's pt_profile_t \<Rightarrow> index_t option" where
  "x86_64_get_index addr level profile = do {
     let addr = addr AND PT_VIRT_PAGE_MASK;
     c_assert (level \<le> x86_64_LEVELS);
     get_index addr level profile }"

definition x86_64_next :: "entry_t \<Rightarrow> level_t \<Rightarrow> entry_t" where
  "x86_64_next entry curr_level = entry AND PT_PHYS_PAGE_MASK"

text \<open>The constant profile: the fields that its initialiser leaves out are zero.\<close>

definition x86_64_profile :: "'s pt_memory \<Rightarrow> 's pt_profile_t" where
  "x86_64_profile mem = \<lparr>nb_levels = x86_64_LEVELS, nb_entries = PT_NB_ENTRIES,
     visitors = replicate MAX_LEVEL None, mappers = replicate MAX_LEVEL None,
     masks = [PT_PTE_PAGE_MASK, PT_PMD_PAGE_MASK, PT_PGD_PAGE_MASK, PT_PML4_PAGE_MASK, 0],
     shifts = [PT_PTE_SHIFT, PT_PMD_SHIFT, PT_PGD_SHIFT, PT_PML4_SHIFT, 0],
     how = Some (x86_64_how_visit_leaves mem), next_level = Some x86_64_next,
     allocate_fn = None, pa_to_va_fn = None, va_to_pa_fn = None\<rparr>"

end
