(* ===== verification/Page_Walk.thy ===== *)
theory Page_Walk
  imports Page_Tables
begin

text \<open>
  What the page-table walker does.  The first section is the arithmetic of indices and addresses on the
  x86-64 geometry.  The locale \<open>pt_client\<close> states what a client of the walker provides: a predicate \<open>T\<close>
  for the tables of every level, an invariant \<open>I\<close> that says how far the range has been processed, and
  callbacks that keep them; its theorem is that the walker then processes the whole range.
\<close>

section \<open>Indices and addresses\<close>

lemma unat_u64: "unat x < 2 ^ 64" for x :: u64
  using unsigned_less [of x] by simp

lemma bit_511 [simp]:
  "bit (511 :: nat) n \<longleftrightarrow> n < 9" "bit (511 :: int) n \<longleftrightarrow> n < 9" "bit (511 :: u64) n \<longleftrightarrow> n < 9"
proof -
  have n: "(511 :: nat) = mask 9" and i: "(511 :: int) = mask 9" and w: "(511 :: u64) = mask 9" by (simp_all add: mask_eq_exp_minus_1)
  show "bit (511 :: nat) n \<longleftrightarrow> n < 9" unfolding n by (simp only: bit_mask_iff) auto
  show "bit (511 :: int) n \<longleftrightarrow> n < 9" unfolding i by (simp only: bit_mask_iff) auto
  show "bit (511 :: u64) n \<longleftrightarrow> n < 9" unfolding w by (simp only: bit_mask_iff) auto
qed

lemma unat_push_drop:
  fixes x :: u64
  shows "unat (push_bit n (drop_bit n x)) = unat x div 2 ^ n * 2 ^ n"
proof -
  have "unat x div 2 ^ n * 2 ^ n \<le> unat x" by (rule div_times_less_eq_dividend)
  also have u: "unat x < 2 ^ 64" by (rule unat_u64)
  finally have "unat x div 2 ^ n * 2 ^ n < 2 ^ 64" .
  moreover have "unat (push_bit n (drop_bit n x)) = take_bit 64 (push_bit n (drop_bit n (unat x)))"
    by (simp only: unsigned_push_bit_eq unsigned_drop_bit_eq) (use u in \<open>simp add: take_bit_nat_eq_self\<close>)
  ultimately show ?thesis by (simp add: drop_bit_eq_div take_bit_eq_mod push_bit_eq_mult)
qed

lemma index_value:
  fixes a :: u64
  assumes "sh + 9 \<le> 64"
  shows "unat (ucast (drop_bit sh (a AND push_bit sh 511)) :: index_t) = unat a div 2 ^ sh mod 512"
proof -
  have u: "unat a mod 18446744073709551616 = unat a" using unat_u64 [of a] by simp
  have "drop_bit sh (a AND push_bit sh 511) = take_bit 9 (drop_bit sh a)"
    by (rule bit_word_eqI) (use assms in \<open>auto simp: bit_simps\<close>)
  moreover have "unat (take_bit 9 (drop_bit sh a)) = unat a div 2 ^ sh mod 512"
    by (simp only: unsigned_take_bit_eq unsigned_drop_bit_eq) (simp add: drop_bit_eq_div take_bit_eq_mod u)
  moreover have "unat a div 2 ^ sh mod 512 mod 2 ^ 32 = unat a div 2 ^ sh mod 512" by (rule mod_less) simp
  ultimately show ?thesis by (simp only: unsigned_ucast_eq take_bit_eq_mod) simp
qed

lemma current_va_first:
  assumes "sh + 9 \<le> 64" and "s = ucast (drop_bit sh (a AND push_bit sh 511))"
  shows "current_va (push_bit sh 511) sh a s s = a"
  unfolding current_va_def assms(2)
  by (rule bit_word_eqI) (use assms in \<open>auto simp: bit_simps\<close>)

lemma current_va_later:
  assumes "sh + 9 \<le> 64" and "i < 512" and "i \<noteq> s"
  shows "unat (current_va (push_bit sh 511) sh a s i) =
    unat a div 2 ^ (sh + 9) * 2 ^ (sh + 9) + unat i * 2 ^ sh"
proof -
  have i: "unat i < 512" using assms(2) by (simp add: word_less_nat_alt)
  have ib: "bit i n \<Longrightarrow> n < 9" for n
  proof -
    have "unat (take_bit 9 i) = unat i"
      unfolding unsigned_take_bit_eq using i by (simp add: take_bit_nat_eq_self)
    then have "take_bit 9 i = i" by (rule unsigned_word_eqI)
    then show "bit i n \<Longrightarrow> n < 9" by (metis bit_take_bit_iff)
  qed
  have "current_va (push_bit sh 511) sh a s i =
      push_bit (sh + 9) (drop_bit (sh + 9) a) OR push_bit sh (ucast i)"
    unfolding current_va_def using assms(3)
    by (simp, intro bit_word_eqI) (use assms(1) in \<open>auto simp: bit_simps dest: ib\<close>)
  also have "\<dots> = push_bit (sh + 9) (drop_bit (sh + 9) a) + push_bit sh (ucast i)"
    by (rule disjunctive_add [symmetric]) (auto simp: bit_simps dest: ib)
  finally have c: "current_va (push_bit sh 511) sh a s i = \<dots>" .
  have u: "unat (push_bit sh (ucast i :: u64)) = unat i * 2 ^ sh"
  proof -
    have "unat i * 2 ^ sh < 2 ^ 9 * 2 ^ sh" using i by simp
    also have "\<dots> = 2 ^ (9 + sh)" by (simp add: power_add)
    also have "\<dots> \<le> 2 ^ 64" using assms(1) by (intro power_increasing) simp_all
    finally have lt: "unat i * 2 ^ sh < 2 ^ 64" .
    have "unat i mod 2 ^ 64 = unat i" using i by simp
    then have "unat (push_bit sh (ucast i :: u64)) = take_bit 64 (push_bit sh (unat i))"
      by (simp only: unsigned_push_bit_eq unsigned_ucast_eq take_bit_eq_mod) simp
    then show ?thesis using lt by (simp add: take_bit_eq_mod push_bit_eq_mult)
  qed
  have "unat a div 2 ^ (sh + 9) * 2 ^ (sh + 9) + unat i * 2 ^ sh < 2 ^ 64"
  proof -
    let ?S = "2 ^ (sh + 9) :: nat"
    have S: "2 ^ 64 div ?S * ?S = 2 ^ 64" using assms(1) by (intro dvd_div_mult_self le_imp_power_dvd)
    have "unat a div ?S < 2 ^ 64 div ?S"
      by (rule less_mult_imp_div_less) (use unat_u64 [of a] S in simp)
    then have "(unat a div ?S + 1) * ?S \<le> 2 ^ 64 div ?S * ?S" by (intro mult_le_mono1) simp
    also note S
    finally have "unat a div ?S * ?S + ?S \<le> 2 ^ 64" by simp
    moreover have "unat i * 2 ^ sh < ?S" using i by (simp add: power_add)
    ultimately show ?thesis by linarith
  qed
  then show ?thesis unfolding c by (simp add: unat_word_ariths unat_push_drop u)
qed

definition pt_shift :: "level_t \<Rightarrow> nat" where
  "pt_shift l = 12 + 9 * unat l"

definition x86_geometry :: "'s pt_profile_t \<Rightarrow> bool" where
  "x86_geometry prof \<longleftrightarrow> nb_levels prof = 4 \<and> nb_entries prof = 512 \<and>
     (\<forall>l < 4. at_level (masks prof) l = Some (push_bit (pt_shift l) 511) \<and>
             at_level (shifts prof) l = Some (of_nat (pt_shift l)))"

lemma level_cases:
  fixes l :: level_t
  assumes "l < 4"
  obtains "l = 0" | "l = 1" | "l = 2" | "l = 3"
proof -
  have "unat l < 4" using assms by (simp add: word_less_nat_alt)
  then consider "unat l = 0" | "unat l = 1" | "unat l = 2" | "unat l = 3" by linarith
  moreover have "l = of_nat (unat l)" by simp
  ultimately show thesis using that by cases auto
qed

lemma profile_geometry: "x86_geometry (x86_64_profile mem)"
  unfolding x86_geometry_def
proof (intro conjI allI impI)
  fix l :: level_t
  assume "l < 4"
  then show "at_level (masks (x86_64_profile mem)) l = Some (push_bit (pt_shift l) 511)"
    "at_level (shifts (x86_64_profile mem)) l = Some (of_nat (pt_shift l))"
    by (cases rule: level_cases; simp add: x86_64_profile_def at_level_def pt_shift_def pt_size_defs)+
qed (simp_all add: x86_64_profile_def pt_level_defs)

text \<open>The address of the entry for \<open>va\<close> in the table of level \<open>l\<close> at \<open>base\<close>.\<close>

definition pt_index :: "level_t \<Rightarrow> addr_t \<Rightarrow> nat" where
  "pt_index l va = unat va div 2 ^ pt_shift l mod 512"

definition pt_slot :: "addr_t \<Rightarrow> nat \<Rightarrow> addr_t" where
  "pt_slot base i = base + 8 * of_nat i"

lemma level_depth:
  fixes l :: level_t
  assumes "l \<noteq> 0" and "l < 4"
  shows "3 - unat (l - 1) = Suc (3 - unat l)" and "3 - unat l < 3"
proof -
  have "unat (l - 1) = unat l - 1" "unat l \<noteq> 0" "unat l < 4"
    using assms by (simp_all add: unat_minus_one unat_eq_0 word_less_nat_alt)
  then show "3 - unat (l - 1) = Suc (3 - unat l)" "3 - unat l < 3" by linarith+
qed

lemma block_split:
  assumes "unat va div 2 ^ (pt_shift l + 9) = p"
  shows "unat va div 2 ^ pt_shift l = p * 512 + pt_index l va"
proof -
  have "unat va div 2 ^ pt_shift l div 512 = p" using assms by (simp add: power_add div_mult2_eq)
  then show ?thesis unfolding pt_index_def by (metis div_mult_mod_eq)
qed

text \<open>Where the loop of the walker stands before index \<open>i\<close>.\<close>

definition pt_pos :: "level_t \<Rightarrow> addr_t \<Rightarrow> nat \<Rightarrow> nat" where
  "pt_pos l start i = (if i = pt_index l start then unat start
     else unat start div 2 ^ (pt_shift l + 9) * 2 ^ (pt_shift l + 9) + i * 2 ^ pt_shift l)"

lemma pt_shift_bounds: "l < 4 \<Longrightarrow> pt_shift l + 9 \<le> 64" "l < 4 \<Longrightarrow> pt_shift l \<le> 39"
  by (simp_all add: pt_shift_def word_less_nat_alt)

lemma pt_shift_pred: "l \<noteq> 0 \<Longrightarrow> pt_shift (l - 1) + 9 = pt_shift l"
proof -
  assume "l \<noteq> 0"
  then have "unat (l - 1) = unat l - 1" "unat l \<noteq> 0" by (simp_all add: unat_minus_one unat_eq_0)
  then show ?thesis unfolding pt_shift_def by linarith
qed

lemma pt_pos_first: "pt_pos l start (pt_index l start) = unat start"
  by (simp add: pt_pos_def)

lemma pt_pos_end:
  "pt_pos l start 512 = (unat start div 2 ^ (pt_shift l + 9) + 1) * 2 ^ (pt_shift l + 9)"
proof -
  have "pt_index l start \<noteq> 512" by (simp add: pt_index_def mod_less_divisor less_imp_neq)
  then show ?thesis by (simp add: pt_pos_def power_add)
qed

text \<open>An address behind index \<open>i\<close> lies in block \<open>i\<close> of its table, and the block ends where the next begins.\<close>

lemma pt_pos_div:
  assumes "i < 512" and "pt_index l start \<le> i"
  shows "pt_pos l start i div 2 ^ pt_shift l = unat start div 2 ^ (pt_shift l + 9) * 512 + i"
proof (cases "i = pt_index l start")
  case True
  have "unat start div 2 ^ pt_shift l = unat start div 2 ^ pt_shift l div 512 * 512 + unat start div 2 ^ pt_shift l mod 512"
    by simp
  then show ?thesis using True by (simp add: pt_pos_def pt_index_def power_add div_mult2_eq)
next
  case False
  then show ?thesis by (simp add: pt_pos_def power_add algebra_simps flip: mult.assoc)
qed

lemma pt_pos_next:
  assumes "i < 512" and "pt_index l start \<le> i"
  shows "pt_pos l start (Suc i) = (pt_pos l start i div 2 ^ pt_shift l + 1) * 2 ^ pt_shift l"
proof -
  have "Suc i \<noteq> pt_index l start" using assms by simp
  then show ?thesis unfolding pt_pos_div [OF assms] by (simp add: pt_pos_def power_add algebra_simps)
qed

lemma geometry_index:
  assumes "x86_geometry prof" and "l < 4"
  obtains s where "get_index start l prof = Some s" and "unat s = pt_index l start"
    and "s = ucast (drop_bit (pt_shift l) (start AND push_bit (pt_shift l) 511))"
proof -
  have n: "pt_shift l + 9 \<le> 64" "pt_shift l < 64" using pt_shift_bounds [OF assms(2)] by auto
  have u: "unat (of_nat (pt_shift l) :: u64) = pt_shift l" using n by (simp add: unsigned_of_nat take_bit_nat_eq_self)
  then have "(of_nat (pt_shift l) :: u64) < 64" using n by (simp add: word_less_nat_alt)
  then show thesis using assms that u index_value [OF n(1), of start]
    by (simp add: x86_geometry_def get_index_def pt_index_def)
qed

lemma current_va_pos:
  assumes "l < 4" and "i < 512" and "s = ucast (drop_bit (pt_shift l) (start AND push_bit (pt_shift l) 511))"
    and "unat s = pt_index l start"
  shows "unat (current_va (push_bit (pt_shift l) 511) (pt_shift l) start s i) = pt_pos l start (unat i)"
proof (cases "i = s")
  case True
  then show ?thesis using current_va_first [OF pt_shift_bounds(1) [OF assms(1)] assms(3)] assms(4)
    by (simp add: pt_pos_def)
next
  case False
  then have "unat i \<noteq> pt_index l start" using assms(4) by (metis unsigned_word_eqI)
  then show ?thesis using current_va_later [OF pt_shift_bounds(1) [OF assms(1)] assms(2) False]
    by (simp add: pt_pos_def)
qed

lemma pt_pos_mono:
  assumes "i < 512" and "pt_index l start \<le> i"
  shows "pt_pos l start i \<le> pt_pos l start 512"
proof -
  let ?B = "2 ^ pt_shift l :: nat"
  let ?h = "unat start div 2 ^ (pt_shift l + 9) * 512"
  have "pt_pos l start i = pt_pos l start i div ?B * ?B + pt_pos l start i mod ?B"
    by (rule div_mult_mod_eq [symmetric])
  also have "\<dots> \<le> (?h + i) * ?B + ?B" unfolding pt_pos_div [OF assms] by (simp add: less_imp_le)
  also have "\<dots> = (?h + i + 1) * ?B" by (simp add: algebra_simps)
  also have "\<dots> \<le> (?h + 512) * ?B" using assms(1) by (intro mult_le_mono1) simp
  finally show ?thesis by (simp add: pt_pos_end power_add algebra_simps)
qed

lemma pt_pos_aligned:
  assumes "4096 dvd unat start"
  shows "4096 dvd pt_pos l start i"
proof -
  have d: "(4096 :: nat) dvd 2 ^ pt_shift l"
    using le_imp_power_dvd [of 12 "pt_shift l" "2 :: nat"] by (simp add: pt_shift_def)
  then show ?thesis using assms by (auto simp: pt_pos_def power_add intro!: dvd_add dvd_mult dvd_mult2)
qed

section \<open>Clients of the walker\<close>

locale pt_client =
  fixes prof :: "'s pt_profile_t" and mem :: "'s pt_memory"
    and pv :: "addr_t \<Rightarrow> addr_t" and nx :: "entry_t \<Rightarrow> level_t \<Rightarrow> entry_t"
    and stop :: addr_t
    and T :: "level_t \<Rightarrow> nat \<Rightarrow> entry_t \<Rightarrow> 's \<Rightarrow> bool"
    and I :: "nat \<Rightarrow> 's \<Rightarrow> bool"
    and ext :: "'s \<Rightarrow> 's \<Rightarrow> bool"
  assumes geometry: "x86_geometry prof"
    and hooks: "how prof \<noteq> None" "pa_to_va_fn prof = Some pv" "next_level prof = Some nx"
    and stop_aligned: "I v s \<Longrightarrow> 4096 dvd unat stop"
    and ext_refl: "ext s s"
    and ext_trans: "ext s t \<Longrightarrow> ext t u \<Longrightarrow> ext s u"
    and T_ext: "T l p r s \<Longrightarrow> ext s t \<Longrightarrow> T l p r t"
    and reset: "I v s \<Longrightarrow> I v (set_curr_va mem a s)" "ext s (set_curr_va mem a s)"
    and leaf: "T 0 p r s \<Longrightarrow> I (unat va) s \<Longrightarrow> va < stop \<Longrightarrow> 4096 dvd unat va \<Longrightarrow> unat va div 2 ^ 21 = p \<Longrightarrow>
      \<exists>a t. entry_action prof (pt_slot (pv r) (pt_index 0 va)) 0 (set_curr_va mem va s) = Some (a, t) \<and>
        a \<noteq> ERROR \<and> I (unat va + 4096) t \<and> ext s t"
    and node: "l \<noteq> 0 \<Longrightarrow> l < 4 \<Longrightarrow> T l p r s \<Longrightarrow> I (unat va) s \<Longrightarrow> va < stop \<Longrightarrow> 4096 dvd unat va \<Longrightarrow>
      unat va div 2 ^ (pt_shift l + 9) = p \<Longrightarrow>
      \<exists>a t. entry_action prof (pt_slot (pv r) (pt_index l va)) l (set_curr_va mem va s) = Some (a, t) \<and> ext s t \<and>
        (a = SKIP \<and> I (min (unat stop) ((unat va div 2 ^ pt_shift l + 1) * 2 ^ pt_shift l)) t \<or>
         a \<notin> {SKIP, ERROR} \<and> I (unat va) t \<and>
         (\<exists>e. load mem (pt_slot (pv r) (pt_index l va)) t = Some e \<and>
              T (l - 1) (unat va div 2 ^ pt_shift l) (nx e l) t))"
begin

lemma aligned_next:
  assumes "I (unat va) s" and "va < stop" and "4096 dvd unat va"
  shows "unat va + 4096 \<le> unat stop" and "(unat va div 4096 + 1) * 4096 = unat va + 4096"
proof -
  obtain a b where "unat va = 4096 * a" "unat stop = 4096 * b"
    using assms(3) stop_aligned [OF assms(1)] by (auto elim!: dvdE)
  then show "unat va + 4096 \<le> unat stop" "(unat va div 4096 + 1) * 4096 = unat va + 4096"
    using assms(2) by (simp_all add: word_less_nat_alt)
qed

text \<open>One entry: the callbacks either deal with its block or hand the walker a table of the next level.\<close>

lemma entry_step:
  assumes "l < 4" and "T l p r s" and "I (unat va) s" and "va < stop" and "4096 dvd unat va"
    and "unat va div 2 ^ (pt_shift l + 9) = p"
  shows "\<exists>a t. entry_action prof (pt_slot (pv r) (pt_index l va)) l (set_curr_va mem va s) = Some (a, t) \<and>
     ext s t \<and> a \<noteq> ERROR \<and>
     (if a = SKIP \<or> l = 0 then I (min (unat stop) ((unat va div 2 ^ pt_shift l + 1) * 2 ^ pt_shift l)) t
      else I (unat va) t \<and> (\<exists>e. load mem (pt_slot (pv r) (pt_index l va)) t = Some e \<and>
             T (l - 1) (unat va div 2 ^ pt_shift l) (nx e l) t))"
proof (cases "l = 0")
  case True
  have n: "min (unat stop) ((unat va div 2 ^ pt_shift l + 1) * 2 ^ pt_shift l) = unat va + 4096"
    using aligned_next [OF assms(3-5)] True by (simp add: pt_shift_def)
  from True assms leaf [of p r s va] show ?thesis unfolding n by (auto simp: pt_shift_def)
next
  case False
  from node [OF False assms] show ?thesis using False by auto
qed

text \<open>The entries of one table from index \<open>i\<close> on, given that the walker is right on the next level.\<close>

lemma entries:
  assumes below: "\<And>p r va s. l \<noteq> 0 \<Longrightarrow> T (l - 1) p r s \<Longrightarrow> I (unat va) s \<Longrightarrow> va < stop \<Longrightarrow> 4096 dvd unat va \<Longrightarrow>
      unat va div 2 ^ pt_shift l = p \<Longrightarrow>
      \<exists>t. pt_walk_page_range prof mem r (l - 1) va stop s = Some (OK, t) \<and>
          I (min (unat stop) ((p + 1) * 2 ^ pt_shift l)) t \<and> ext s t"
    and l: "l < 4"
    and s: "s = ucast (drop_bit (pt_shift l) (start AND push_bit (pt_shift l) 511))" "unat s = pt_index l start"
    and start: "4096 dvd unat start"
  shows "T l (unat start div 2 ^ (pt_shift l + 9)) r st \<Longrightarrow> unat s \<le> unat i \<Longrightarrow> unat i \<le> 512 \<Longrightarrow>
    I (min (unat stop) (pt_pos l start (unat i))) st \<Longrightarrow>
    \<exists>t. pt_walk_entries prof mem (pv r) l start stop (push_bit (pt_shift l) 511) (pt_shift l) s i st = Some (OK, t) \<and>
      I (min (unat stop) (pt_pos l start 512)) t \<and> ext st t"
proof (induction "512 - unat i" arbitrary: i st rule: less_induct)
  case less
  let ?va = "current_va (push_bit (pt_shift l) 511) (pt_shift l) start s i"
  let ?pos = "pt_pos l start"
  have nb: "nb_entries prof = 512" using geometry by (simp add: x86_geometry_def)
  show ?case
  proof (cases "i < 512")
    case False
    then have "unat i = 512" using less.prems(3) by (simp add: word_less_nat_alt)
    then show ?thesis using False less.prems(4) reset nb
      by (subst pt_walk_entries.simps) auto
  next
    case True
    then have i: "unat i < 512" "pt_index l start \<le> unat i" using less.prems(2) s(2) by (simp_all add: word_less_nat_alt)
    have va: "unat ?va = ?pos (unat i)" by (rule current_va_pos [OF l True s])
    have step: "unat (i + 1) = Suc (unat i)" by (rule index_Suc [OF True])
    show ?thesis
    proof (cases "stop \<le> ?va")
      case stop: True
      have "?pos (unat i) \<le> ?pos 512" using pt_pos_mono [OF i] .
      then have "min (unat stop) (?pos 512) = min (unat stop) (?pos (unat i))"
        using stop va by (simp add: word_le_nat_alt)
      then show ?thesis using stop True less.prems(4) reset nb by (subst pt_walk_entries.simps) auto
    next
      case False
      then have lt: "?va < stop" by simp
      then have Iva: "I (unat ?va) st" using less.prems(4) va by (simp add: word_less_nat_alt min_def)
      have al: "4096 dvd unat ?va" unfolding va using pt_pos_aligned [OF start] .
      have blk: "unat ?va div 2 ^ pt_shift l = unat start div 2 ^ (pt_shift l + 9) * 512 + unat i"
        unfolding va by (rule pt_pos_div [OF i])
      then have up: "unat ?va div 2 ^ (pt_shift l + 9) = unat start div 2 ^ (pt_shift l + 9)"
        using i by (simp add: power_add div_mult2_eq)
      have slot: "pv r + 8 * ucast i = pt_slot (pv r) (pt_index l ?va)"
        using i by (simp add: pt_slot_def pt_index_def blk)
      have nxt: "?pos (unat (i + 1)) = (unat ?va div 2 ^ pt_shift l + 1) * 2 ^ pt_shift l"
        unfolding step va by (rule pt_pos_next [OF i])
      obtain a t where t: "entry_action prof (pv r + 8 * ucast i) l (set_curr_va mem ?va st) = Some (a, t)"
          "ext st t" "a \<noteq> ERROR"
        and or: "if a = SKIP \<or> l = 0 then I (min (unat stop) (?pos (unat (i + 1)))) t
          else I (unat ?va) t \<and> (\<exists>e. load mem (pv r + 8 * ucast i) t = Some e \<and>
             T (l - 1) (unat ?va div 2 ^ pt_shift l) (nx e l) t)"
        using entry_step [OF l less.prems(1) Iva lt al up] unfolding slot nxt by blast
      have rest: "\<exists>u. pt_walk_entries prof mem (pv r) l start stop (push_bit (pt_shift l) 511) (pt_shift l) s (i + 1) t' = Some (OK, u) \<and>
          I (min (unat stop) (?pos 512)) u \<and> ext st u"
        if "I (min (unat stop) (?pos (unat (i + 1)))) t'" "ext st t'" for t'
      proof -
        have "512 - unat (i + 1) < 512 - unat i" "unat s \<le> unat (i + 1)" "unat (i + 1) \<le> 512"
          using i less.prems(2) by (simp_all add: step)
        from less.hyps [OF this(1) T_ext [OF less.prems(1) that(2)] this(2,3) that(1)]
        show ?thesis using ext_trans [OF that(2)] by blast
      qed
      show ?thesis
      proof (cases "a = SKIP \<or> l = 0")
        case here: True
        from rest [of t] or t here show ?thesis
          by (subst pt_walk_entries.simps) (use True False nb in \<open>auto simp: Let_def\<close>)
      next
        case down: False
        then obtain e where e: "load mem (pv r + 8 * ucast i) t = Some e"
            "T (l - 1) (unat ?va div 2 ^ pt_shift l) (nx e l) t" "I (unat ?va) t" using or by auto
        then obtain u where u: "pt_walk_page_range prof mem (nx e l) (l - 1) ?va stop t = Some (OK, u)"
            "I (min (unat stop) (?pos (unat (i + 1)))) u" "ext t u"
          using below [OF _ e(2,3) lt al refl] down unfolding nxt by blast
        from rest [OF u(2) ext_trans [OF t(2) u(3)]] show ?thesis
          by (subst pt_walk_entries.simps) (use True False nb t e u(1) down hooks in \<open>auto simp: Let_def\<close>)
      qed
    qed
  qed
qed

text \<open>The whole walk: the range is processed up to \<open>stop\<close> or the end of what the table maps.\<close>

lemma walk:
  "l < 4 \<Longrightarrow> T l p r s \<Longrightarrow> I (unat start) s \<Longrightarrow> start < stop \<Longrightarrow> 4096 dvd unat start \<Longrightarrow>
   unat start div 2 ^ (pt_shift l + 9) = p \<Longrightarrow>
   \<exists>t. pt_walk_page_range prof mem r l start stop s = Some (OK, t) \<and>
     I (min (unat stop) ((p + 1) * 2 ^ (pt_shift l + 9))) t \<and> ext s t"
proof (induction "unat l" arbitrary: l p r s start rule: less_induct)
  case less
  obtain i where i: "get_index start l prof = Some i" "unat i = pt_index l start"
      "i = ucast (drop_bit (pt_shift l) (start AND push_bit (pt_shift l) 511))"
    using geometry_index [OF geometry less.prems(1)] by blast
  have lvl: "l < nb_levels prof" "at_level (masks prof) l = Some (push_bit (pt_shift l) 511)"
    "at_level (shifts prof) l = Some (of_nat (pt_shift l))" "unat (of_nat (pt_shift l) :: u64) = pt_shift l"
    using geometry less.prems(1) pt_shift_bounds [OF less.prems(1)]
    by (simp_all add: x86_geometry_def unsigned_of_nat take_bit_nat_eq_self)
  have below: "\<exists>t. pt_walk_page_range prof mem r (l - 1) va stop s = Some (OK, t) \<and>
      I (min (unat stop) ((p + 1) * 2 ^ pt_shift l)) t \<and> ext s t"
    if "l \<noteq> 0" "T (l - 1) p r s" "I (unat va) s" "va < stop" "4096 dvd unat va"
      "unat va div 2 ^ pt_shift l = p" for p r va s
  proof -
    have "l - 1 < 4" using level_step [OF that(1)] less.prems(1) by (simp add: word_less_nat_alt)
    from less.hyps [OF level_step [OF that(1)] this that(2-5)] that(6) show ?thesis
      unfolding pt_shift_pred [OF that(1)] by blast
  qed
  have "unat i < 512" unfolding i(2) by (simp add: pt_index_def)
  moreover have "I (min (unat stop) (pt_pos l start (unat i))) s"
    using less.prems(3,4) by (simp add: i(2) pt_pos_first word_less_nat_alt min_def)
  moreover have "T l (unat start div 2 ^ (pt_shift l + 9)) r s" unfolding less.prems(6) by (rule less.prems(2))
  ultimately have "\<exists>t. pt_walk_entries prof mem (pv r) l start stop (push_bit (pt_shift l) 511) (pt_shift l) i i s = Some (OK, t) \<and>
      I (min (unat stop) (pt_pos l start 512)) t \<and> ext s t"
    by (intro entries [OF _ less.prems(1) i(3,2) less.prems(5) _ order_refl])
       (blast intro: below, blast, simp, blast)
  then show ?case unfolding pt_pos_end less.prems(6)
    by (subst pt_walk_page_range.simps) (use less.prems(4) lvl i(1) hooks in auto)
qed

lemma walk_all:
  assumes "T 3 p r s" and "I (unat start) s" and "start < stop" and "4096 dvd unat start"
    and "unat start div 2 ^ 48 = p" and "unat stop \<le> (p + 1) * 2 ^ 48"
  shows "\<exists>t. pt_walk_page_range prof mem r PT_PML4 start stop s = Some (OK, t) \<and> I (unat stop) t \<and> ext s t"
  using walk [of 3 p r s start] assms by (simp add: pt_shift_def PT_PML4_def min_def split: if_splits)

end

section \<open>Errors\<close>

text \<open>What the walker returns is \<open>0\<close> or \<open>-1\<close>, and \<open>-1\<close> only when a callback of its own level reported an
  error: an error of a deeper level is a failed \<open>TEST\<close>.\<close>

lemma pt_walk_entries_result:
  "pt_walk_entries prof mem base l start stop m sh s i st = Some (rc, t) \<Longrightarrow>
   rc = OK \<or> rc = FAIL \<and> (\<exists>j u. entry_action prof (base + 8 * ucast (j :: index_t)) l u = Some (ERROR, t))"
proof (induction "unat (nb_entries prof - i)" arbitrary: i st rule: less_induct)
  case less
  let ?va = "current_va m sh start s i"
  note rec = less.hyps [of "i + 1"]
  show ?case
  proof (cases "i < nb_entries prof \<and> \<not> stop \<le> ?va")
    case False
    then show ?thesis using less.prems by (subst (asm) pt_walk_entries.simps) (auto split: if_splits)
  next
    case True
    then have lt: "unat (nb_entries prof - (i + 1)) < unat (nb_entries prof - i)" by (simp add: index_step)
    from True less.prems
    have "(\<exists>u. entry_action prof (base + 8 * ucast i) l u = Some (ERROR, t)) \<and> rc = FAIL \<or>
        (\<exists>u. pt_walk_entries prof mem base l start stop m sh s (i + 1) u = Some (rc, t))"
      by (subst (asm) pt_walk_entries.simps) (auto simp: Let_def split: option.splits if_splits prod.splits)
    then show ?thesis using rec [OF lt] by blast
  qed
qed

end
