(* ===== verification/Page_Tree.thy ===== *)
theory Page_Tree
  imports Page_Walk
begin

text \<open>
  What a four-level page table means, independently of who builds it.  \<open>rd r i\<close> is the entry of index
  \<open>i\<close> in the table at the physical address \<open>r\<close>.  \<open>table\<close> follows the present entries from the root, as
  the hardware does, to the table for a prefix of the page number, and \<open>pte\<close> is the leaf entry of a page.
  \<open>tree\<close> says that no two table positions share a page; under it the two kinds of updates that a mapper
  makes, linking a new table and writing a leaf, act on exactly one position.
\<close>

type_synonym reader = "entry_t \<Rightarrow> nat \<Rightarrow> entry_t option"

abbreviation present :: "entry_t \<Rightarrow> bool" where
  "present e \<equiv> e AND PT_PAGE_PRESENT = PT_PAGE_PRESENT"

fun table :: "reader \<Rightarrow> entry_t \<Rightarrow> nat \<Rightarrow> nat \<Rightarrow> entry_t option" where
  "table rd root 0 p = (if p = 0 then Some root else None)" |
  "table rd root (Suc d) p = do {
     r \<leftarrow> table rd root d (p div 512);
     e \<leftarrow> rd r (p mod 512);
     if present e then Some (x86_64_next e 0) else None }"

definition pte :: "reader \<Rightarrow> entry_t \<Rightarrow> nat \<Rightarrow> entry_t option" where
  "pte rd root v = do {
     r \<leftarrow> table rd root 3 (v div 512);
     e \<leftarrow> rd r (v mod 512);
     if present e then Some e else None }"

definition tree :: "reader \<Rightarrow> entry_t \<Rightarrow> bool" where
  "tree rd root \<longleftrightarrow>
     (\<forall>d p r. d \<le> 3 \<longrightarrow> table rd root d p = Some r \<longrightarrow> r AND PT_PHYS_PAGE_MASK = r \<and> (\<forall>i < 512. rd r i \<noteq> None)) \<and>
     (\<forall>d p d' p' r. d \<le> 3 \<longrightarrow> d' \<le> 3 \<longrightarrow> table rd root d p = Some r \<longrightarrow> table rd root d' p' = Some r \<longrightarrow>
        d = d' \<and> p = p')"

lemma treeD:
  assumes "tree rd root" and "d \<le> 3" and "table rd root d p = Some r"
  shows "r AND PT_PHYS_PAGE_MASK = r" and "i < 512 \<Longrightarrow> \<exists>e. rd r i = Some e"
    and "d' \<le> 3 \<Longrightarrow> table rd root d' p' = Some r \<Longrightarrow> d = d' \<and> p = p'"
  using assms unfolding tree_def by blast+

lemma table_split:
  assumes "i < 512"
  shows "table rd root (Suc d) (p * 512 + i) = do {
     r \<leftarrow> table rd root d p;
     e \<leftarrow> rd r i;
     if present e then Some (x86_64_next e 0) else None }"
  using assms by simp

lemma pte_split:
  assumes "i < 512"
  shows "pte rd root (p * 512 + i) = do {
     r \<leftarrow> table rd root 3 p;
     e \<leftarrow> rd r i;
     if present e then Some e else None }"
  using assms by (simp add: pte_def)

declare table.simps(2) [simp del]

text \<open>Writing a leaf changes no table and one page.\<close>

lemma table_cong:
  "(\<And>d' p r i. d' < d \<Longrightarrow> table rd root d' p = Some r \<Longrightarrow> i < 512 \<Longrightarrow> rd' r i = rd r i) \<Longrightarrow>
   table rd' root d p = table rd root d p"
proof (induction d arbitrary: p)
  case (Suc d)
  have "table rd' root d (p div 512) = table rd root d (p div 512)"
    by (rule Suc.IH) (rule Suc.prems, simp_all)
  then show ?case using Suc.prems [of d "p div 512" _ "p mod 512"]
    by (cases "table rd root d (p div 512)") (auto simp: table.simps(2))
qed simp

lemma write_leaf:
  assumes t: "tree rd root" and r: "table rd root 3 p = Some r" and i: "i < 512"
    and rd': "\<And>x j. j < 512 \<Longrightarrow> (x, j) \<noteq> (r, i) \<Longrightarrow> x AND PT_PHYS_PAGE_MASK = x \<Longrightarrow> rd' x j = rd x j" "rd' r i = Some e"
  shows "d \<le> 3 \<Longrightarrow> table rd' root d q = table rd root d q" and "tree rd' root"
    and "pte rd' root v = (if v = p * 512 + i then if present e then Some e else None else pte rd root v)"
proof -
  have tab: "table rd' root d q = table rd root d q" if "d \<le> 3" for d q
  proof (rule table_cong)
    fix d' p' r' and j :: nat
    assume a: "d' < d" "table rd root d' p' = Some r'" "j < 512"
    have "r' \<noteq> r" using treeD(3) [OF t _ a(2), of 3 p] r a(1) that by auto
    then show "rd' r' j = rd r' j" using rd'(1) a(3) treeD(1) [OF t _ a(2)] a(1) that by auto
  qed
  show "d \<le> 3 \<Longrightarrow> table rd' root d q = table rd root d q" by (rule tab)
  show "tree rd' root" unfolding tree_def
  proof (intro conjI allI impI)
    fix d q s j
    assume a: "d \<le> 3" "table rd' root d q = Some s"
    then have s: "table rd root d q = Some s" using tab by simp
    show "s AND PT_PHYS_PAGE_MASK = s" using treeD(1) [OF t a(1) s] .
    show "rd' s j \<noteq> None" if "j < 512" for j
      using treeD(1,2) [OF t a(1) s] rd' that by (cases "(s, j) = (r, i)") auto
  next
    fix d p d' p' s
    assume "d \<le> 3" "d' \<le> 3" "table rd' root d p = Some s" "table rd' root d' p' = Some s"
    then show "d = d'" "p = p'" using tab treeD(3) [OF t, of d p s d' p'] by simp_all
  qed
  have r': "table rd' root 3 p = Some r" using tab r by simp
  show "pte rd' root v = (if v = p * 512 + i then if present e then Some e else None else pte rd root v)"
  proof (cases "v = p * 512 + i")
    case True
    then show ?thesis using r' rd'(2) i by (simp add: pte_split)
  next
    case False
    have "rd' s (v mod 512) = rd s (v mod 512)" if s: "table rd root 3 (v div 512) = Some s" for s
    proof -
      have "(s, v mod 512) \<noteq> (r, i)"
      proof
        assume "(s, v mod 512) = (r, i)"
        then have "v div 512 = p" "v mod 512 = i" using treeD(3) [OF t _ s, of 3 p] r by auto
        then show False using False by (metis div_mult_mod_eq)
      qed
      then show ?thesis using rd'(1) treeD(1) [OF t _ s] by simp
    qed
    then show ?thesis using False tab [of 3 "v div 512"]
      by (cases "table rd root 3 (v div 512)") (simp_all add: pte_def)
  qed
qed

text \<open>Linking a new, empty table behind an absent entry adds one table and changes no page.\<close>

lemma link_table:
  assumes t: "tree rd root" and r: "table rd root d p = Some r" and d: "d < 3" and i: "i < 512"
    and old: "rd r i = Some e0" "\<not> present e0"
    and e: "present e" "x86_64_next e 0 = n" "n AND PT_PHYS_PAGE_MASK = n"
    and fresh: "\<And>d' q. d' \<le> 3 \<Longrightarrow> table rd root d' q \<noteq> Some n"
    and rd': "\<And>x j. j < 512 \<Longrightarrow> (x, j) \<noteq> (r, i) \<Longrightarrow> x \<noteq> n \<Longrightarrow> x AND PT_PHYS_PAGE_MASK = x \<Longrightarrow> rd' x j = rd x j"
      "rd' r i = Some e" "\<And>j. j < 512 \<Longrightarrow> rd' n j = Some 0"
  shows "d' \<le> 3 \<Longrightarrow> table rd' root d' q = (if d' = Suc d \<and> q = p * 512 + i then Some n else table rd root d' q)"
    and "tree rd' root" and "pte rd' root v = pte rd root v"
proof -
  have absent: "table rd root (Suc d) (p * 512 + i) = None"
    using r old i by (simp add: table_split)
  have below: "table rd root (Suc (Suc d)) q = None" if "q div 512 = p * 512 + i" for q
    using absent that by (simp add: table.simps(2))
  have same: "rd' s j = rd s j" if "table rd root d' q = Some s" "d' \<le> 3" "j < 512" "(d', q, j) \<noteq> (d, p, i)" for s d' q j
  proof -
    have "(s, j) \<noteq> (r, i)" using treeD(3) [OF t that(2,1), of d p] r d that(4) by auto
    moreover have "s \<noteq> n" using fresh that(1,2) by auto
    ultimately show ?thesis using rd'(1) treeD(1) [OF t that(2,1)] that(3) by simp
  qed
  have tab: "table rd' root d' q = (if d' = Suc d \<and> q = p * 512 + i then Some n else table rd root d' q)"
    if "d' \<le> 3" for d' q using that
  proof (induction d' arbitrary: q)
    case (Suc d')
    have IH: "table rd' root d' (q div 512) =
        (if d' = Suc d \<and> q div 512 = p * 512 + i then Some n else table rd root d' (q div 512))"
      using Suc by simp
    consider (new) "d' = Suc d" "q div 512 = p * 512 + i" | (here) "d' = d" "q = p * 512 + i"
      | (other) "\<not> (d' = Suc d \<and> q div 512 = p * 512 + i)" "\<not> (d' = d \<and> q = p * 512 + i)" by blast
    then show ?case
    proof cases
      case new
      then show ?thesis using IH rd'(3) [of "q mod 512"] below [of q]
        by (simp add: table.simps(2) [of rd'] pt_flag_defs)
    next
      case here
      then have q: "q div 512 = p" "q mod 512 = i" using i by auto
      have "table rd' root d' (q div 512) = Some r" using IH here q r by simp
      then show ?thesis using here q e rd'(2) by (simp add: table.simps(2) [of rd'])
    next
      case other
      then have eq: "table rd' root d' (q div 512) = table rd root d' (q div 512)" using IH by auto
      show ?thesis
      proof (cases "table rd root d' (q div 512)")
        case None
        then show ?thesis using eq other by (simp add: table.simps(2))
      next
        case (Some s)
        have "(d', q div 512, q mod 512) \<noteq> (d, p, i)"
          using other(2) by (metis div_mult_mod_eq prod.inject)
        then have "rd' s (q mod 512) = rd s (q mod 512)" using same [OF Some] Suc.prems by simp
        moreover have "\<not> (Suc d' = Suc d \<and> q = p * 512 + i)" using other(2) by simp
        ultimately show ?thesis unfolding table.simps(2) eq Some by (simp only: Option.bind.simps if_False)
      qed
    qed
  qed simp
  show "d' \<le> 3 \<Longrightarrow> table rd' root d' q = (if d' = Suc d \<and> q = p * 512 + i then Some n else table rd root d' q)"
    by (rule tab)
  show "tree rd' root" unfolding tree_def
  proof (intro conjI allI impI)
    fix d' q s
    assume a: "d' \<le> 3" "table rd' root d' q = Some s"
    show "s AND PT_PHYS_PAGE_MASK = s"
      using a tab e(3) treeD(1) [OF t a(1)] by (auto split: if_splits)
    show "rd' s j \<noteq> None" if "j < 512" for j
    proof (cases "s = n \<or> (s, j) = (r, i)")
      case True
      then show ?thesis using rd'(2,3) that by auto
    next
      case False
      then have s: "table rd root d' q = Some s" using a tab by (auto split: if_splits)
      show ?thesis using rd'(1) [OF that] False treeD(1,2) [OF t a(1) s] that by auto
    qed
  next
    fix d1 q1 d2 q2 s
    assume a: "d1 \<le> 3" "d2 \<le> 3" "table rd' root d1 q1 = Some s" "table rd' root d2 q2 = Some s"
    then show "d1 = d2" "q1 = q2"
      using tab fresh treeD(3) [OF t a(1), of q1 s d2 q2] by (auto split: if_splits)
  qed
  show "pte rd' root v = pte rd root v"
  proof (cases "Suc d = 3 \<and> v div 512 = p * 512 + i")
    case True
    then have "table rd' root 3 (v div 512) = Some n" "table rd root 3 (v div 512) = None"
      using tab [of 3] absent by auto
    then show ?thesis using rd'(3) [of "v mod 512"] by (simp add: pte_def pt_flag_defs)
  next
    case False
    then have eq: "table rd' root 3 (v div 512) = table rd root 3 (v div 512)" using tab [of 3] by auto
    show ?thesis
    proof (cases "table rd root 3 (v div 512)")
      case (Some s)
      then have "rd' s (v mod 512) = rd s (v mod 512)" using same [OF Some] d by simp
      then show ?thesis using eq Some by (simp add: pte_def)
    qed (simp add: eq pte_def)
  qed
qed

end
