(* ===== verification/Pts_Test.thy ===== *)
theory Pts_Test
  imports Page_Tables
begin

text \<open>
  The simulation of \<open>programs/libs/pts/tests/test.c\<close>: a bump allocator over an anonymous mapping, a mapper
  and a visitor that count the pages they meet, and the three tests.  What \<open>mmap\<close> returns is an argument.
  \<open>ram\<close> is the mapping, entry by entry; the global \<open>allocator\<close> and the local \<open>extra\<close> of \<open>main\<close>, which the
  callbacks reach through \<open>profile->extras\<close>, are fields of the state.  \<open>PT_PP\<close> is \<open>PT_PAGE_PRESENT\<close>.
\<close>

record pte_allocator_t =
  al_start :: u64
  next_free :: u64
  al_end :: u64

record extras_t =
  x_root :: entry_t
  x_flags :: entry_t
  invoc_count :: u64

record virt_addr_t =
  pml4_idx :: u64
  pgd_idx :: u64
  pmd_idx :: u64
  pte_idx :: u64

record sim =
  ram :: "u64 \<rightharpoonup> u64"
  allocator :: pte_allocator_t
  extras :: extras_t
  sim_va :: addr_t

definition sim_memory :: "sim pt_memory" where
  "sim_memory = \<lparr>load = (\<lambda>a s. ram s a), set_curr_va = (\<lambda>a s. s\<lparr>sim_va := a\<rparr>)\<rparr>"

definition ALLOC_NB_ENTRIES :: u64 where "ALLOC_NB_ENTRIES = 2000"
definition ALLOC_RAW_SIZE :: u64 where "ALLOC_RAW_SIZE = ALLOC_NB_ENTRIES * PT_PAGE_SIZE"
definition MAP_FAILED :: u64 where "MAP_FAILED = - 1"

definition sim_pa_to_va :: "pte_allocator_t \<Rightarrow> addr_t \<Rightarrow> addr_t" where
  "sim_pa_to_va a addr = al_start a + addr"

definition sim_va_to_pa :: "pte_allocator_t \<Rightarrow> addr_t \<Rightarrow> addr_t option" where
  "sim_va_to_pa a addr = do { c_assert (al_start a \<le> addr); Some (addr - al_start a) }"

definition sim_alloc :: "sim \<Rightarrow> (entry_t \<times> sim) option" where
  "sim_alloc s = do {
     let a = allocator s;
     c_assert (next_free a < al_end a);
     let allocation = next_free a;
     let a = a\<lparr>next_free := next_free a + PT_PAGE_SIZE\<rparr>;
     pa \<leftarrow> sim_va_to_pa a allocation;
     Some (pa, s\<lparr>allocator := a\<rparr>) }"

definition create_virt_addr :: "virt_addr_t \<Rightarrow> addr_t" where
  "create_virt_addr virt =
     push_bit (unat PT_PML4_SHIFT) (pml4_idx virt) OR push_bit (unat PT_PGD_SHIFT) (pgd_idx virt) OR
     push_bit (unat PT_PMD_SHIFT) (pmd_idx virt) OR push_bit (unat PT_PTE_SHIFT) (pte_idx virt)"

text \<open>An anonymous mapping is filled with zeroes.\<close>

definition init_allocator :: "u64 \<Rightarrow> sim \<Rightarrow> sim option" where
  "init_allocator mmap s = do {
     c_assert (mmap \<noteq> MAP_FAILED);
     Some (s\<lparr>ram := (\<lambda>a. if a - mmap < ALLOC_RAW_SIZE then Some 0 else ram s a),
            allocator := \<lparr>al_start = mmap, next_free = mmap, al_end = mmap + ALLOC_RAW_SIZE\<rparr>\<rparr>) }"

definition pte_page_mapper :: "sim callback_t" where
  "pte_page_mapper entry level s = do {
     c_assert (entry \<noteq> 0);
     e \<leftarrow> ram s entry;
     c_assert (e AND PT_PAGE_PRESENT = 0);
     (new_page, s) \<leftarrow> sim_alloc s;
     c_assert (new_page mod PT_PAGE_SIZE = 0);
     let s = s\<lparr>ram := (ram s)(entry \<mapsto> (new_page AND PT_PHYS_PAGE_MASK) OR x_flags (extras s))\<rparr>;
     let s = (if level = PT_PTE then s\<lparr>extras := (extras s)\<lparr>invoc_count := invoc_count (extras s) + 1\<rparr>\<rparr> else s);
     Some (WALK, s) }"

definition pte_page_visit :: "sim callback_t" where
  "pte_page_visit entry level s = do {
     c_assert (entry \<noteq> 0);
     e \<leftarrow> ram s entry;
     c_assert (e AND PT_PAGE_PRESENT = 1);
     let s = (if level = PT_PTE then s\<lparr>extras := (extras s)\<lparr>invoc_count := invoc_count (extras s) + 1\<rparr>\<rparr> else s);
     Some (WALK, s) }"

section \<open>The tests\<close>

definition va_index :: "u64 \<Rightarrow> u64 \<Rightarrow> u64 \<Rightarrow> u64 \<Rightarrow> addr_t" where
  "va_index a b c d = create_virt_addr \<lparr>pml4_idx = a, pgd_idx = b, pmd_idx = c, pte_idx = d\<rparr>"

definition test_simple_map :: "sim pt_profile_t \<Rightarrow> sim \<Rightarrow> (sim pt_profile_t \<times> sim) option" where
  "test_simple_map profile s = do {
     let profile = profile\<lparr>how := Some (x86_64_how_map sim_memory),
       mappers := (mappers profile)[unat PT_PTE := Some pte_page_mapper, unat PT_PMD := Some pte_page_mapper,
         unat PT_PGD := Some pte_page_mapper, unat PT_PML4 := Some pte_page_mapper],
       allocate_fn := Some sim_alloc, pa_to_va_fn := Some (sim_pa_to_va (allocator s)),
       va_to_pa_fn := Some (\<lambda>a. a - al_start (allocator s))\<rparr>;
     let st = va_index 0 0 0 0;
     let e = va_index 0 0 0 3;
     (root, s) \<leftarrow> sim_alloc s;
     let s = s\<lparr>extras := (extras s)\<lparr>x_root := root\<rparr>\<rparr>;
     (rc, s) \<leftarrow> pt_walk_page_range profile sim_memory root PT_PML4 st e s;
     c_assert (rc = 0);
     c_assert (invoc_count (extras s) = 3);
     let s = s\<lparr>extras := (extras s)\<lparr>invoc_count := 0\<rparr>\<rparr>;
     let profile = profile\<lparr>how := Some (x86_64_how_visit_leaves sim_memory),
       visitors := (visitors profile)[unat PT_PTE := Some pte_page_visit]\<rparr>;
     (rc, s) \<leftarrow> pt_walk_page_range profile sim_memory root PT_PML4 st e s;
     c_assert (rc = 0);
     c_assert (invoc_count (extras s) = 3);
     Some (profile, s) }"

definition test_boundary_map :: "sim pt_profile_t \<Rightarrow> sim \<Rightarrow> (sim pt_profile_t \<times> sim) option" where
  "test_boundary_map profile s = do {
     let s = s\<lparr>extras := (extras s)\<lparr>invoc_count := 0\<rparr>\<rparr>;
     let profile = profile\<lparr>how := Some (x86_64_how_map sim_memory)\<rparr>;
     let st = va_index 1 0 0 510;
     let e = va_index 1 0 1 2;
     c_assert (get_index st PT_PML4 profile = Some 1);
     c_assert (get_index st PT_PGD profile = Some 0);
     c_assert (get_index st PT_PMD profile = Some 0);
     c_assert (get_index st PT_PTE profile = Some 510);
     (rc, s) \<leftarrow> pt_walk_page_range profile sim_memory (x_root (extras s)) PT_PML4 st e s;
     c_assert (rc = 0);
     c_assert (invoc_count (extras s) = 4);
     let s = s\<lparr>extras := (extras s)\<lparr>invoc_count := 0\<rparr>\<rparr>;
     let profile = profile\<lparr>how := Some (x86_64_how_visit_leaves sim_memory)\<rparr>;
     (rc, s) \<leftarrow> pt_walk_page_range profile sim_memory (x_root (extras s)) PT_PML4 st e s;
     c_assert (rc = 0);
     c_assert (invoc_count (extras s) = 4);
     Some (profile, s) }"

definition test_constants :: "sim pt_profile_t \<Rightarrow> unit option" where
  "test_constants profile = do {
     c_assert (at_level (shifts profile) 0 = Some 12);
     c_assert (at_level (shifts profile) 1 = Some (12 + 9));
     c_assert (at_level (shifts profile) 2 = Some (12 + 9 + 9));
     c_assert (at_level (shifts profile) 3 = Some (12 + 9 + 9 + 9));
     c_assert (at_level (masks profile) 0 = Some (push_bit 12 511));
     c_assert (at_level (masks profile) 1 = Some (push_bit (12 + 9) 511));
     c_assert (at_level (masks profile) 2 = Some (push_bit (12 + 9 + 9) 511));
     c_assert (at_level (masks profile) 3 = Some (push_bit (12 + 9 + 9 + 9) 511));
     c_assert (PT_PAGE_PRESENT = 1);
     c_assert (PT_PAGE_RW = 2);
     c_assert (PT_PAGE_USER = 4);
     c_assert (PT_PAGE_NX = push_bit 63 1) }"

definition test_main :: "u64 \<Rightarrow> c_int option" where
  "test_main mmap = do {
     let s = \<lparr>ram = Map.empty, allocator = \<lparr>al_start = 0, next_free = 0, al_end = 0\<rparr>,
       extras = \<lparr>x_root = 0, x_flags = PT_PAGE_PRESENT OR PT_PAGE_USER OR PT_PAGE_RW OR PT_PAGE_NX, invoc_count = 0\<rparr>,
       sim_va = 0\<rparr>;
     s \<leftarrow> init_allocator mmap s;
     let my_profile = x86_64_profile sim_memory;
     test_constants my_profile;
     (my_profile, s) \<leftarrow> test_simple_map my_profile s;
     (my_profile, s) \<leftarrow> test_boundary_map my_profile s;
     Some 0 }"

end
