(* ===== verification/Walk_Theorems.thy ===== *)
theory Walk_Theorems
  imports Page_Tree Pts_Test
begin

text \<open>
  The properties of the walker itself: it ends, what it returns, and that a walk over the leaves visits
  every mapped page of the range once.
\<close>

section \<open>The result of a walk\<close>

text \<open>Reading a memory that is filled with zeroes.\<close>

definition zero_memory :: "unit pt_memory" where
  "zero_memory = \<lparr>load = (\<lambda>a s. Some 0), set_curr_va = (\<lambda>a s. s)\<rparr>"

text \<open>how an error ends a walk.  What a walk returns is 0 or -1, and -1 only because a callback at the
  level where the walk was started reported an error, in the state that is returned; an error that a
  callback reports at a lower level never comes back as a result, the test that follows the inner call aborts.\<close>

theorem pt_walk_error:
  assumes "pt_walk_page_range prof mem root level start stop st = Some (rc, t)"
  shows "rc = OK \<or> rc = FAIL \<and> (\<exists>entry u. entry_action prof entry level u = Some (ERROR, t))"
  using assms pt_walk_entries_result
  by (subst (asm) pt_walk_page_range.simps) (force split: if_splits option.splits)

theorem pt_walk_error_witness:
  "\<exists>t. pt_walk_page_range (x86_64_profile zero_memory\<lparr>pa_to_va_fn := Some id, how := Some (\<lambda>_ _ s. Some (ERROR, s))\<rparr>)
     zero_memory 0 PT_PML4 0 0x7000 () = Some (FAIL, t) \<and> FAIL \<noteq> OK"
proof -
  let ?p = "x86_64_profile zero_memory\<lparr>pa_to_va_fn := Some id, how := Some (\<lambda>_ _ s. Some (ERROR, s))\<rparr>"
  have "pt_walk_page_range ?p zero_memory 0 PT_PML4 0 0x7000 () = Some (FAIL, ())"
    by (subst pt_walk_page_range.simps, subst pt_walk_entries.simps)
      (simp add: entry_action_def x86_64_profile_def pt_level_defs get_index_def at_level_def Let_def current_va_def
        pt_size_defs)
  with pt_walk_error [OF this] show ?thesis by simp
qed

section \<open>Visiting the leaves\<close>

text \<open>The tables of the simulation: none of them is unreadable, none is at address 0, and no entry of a
  middle level is a huge page.\<close>

definition sim_entries :: "sim \<Rightarrow> reader" where
  "sim_entries s = (\<lambda>r i. ram s (pt_slot (sim_pa_to_va (allocator s) r) i))"

definition sim_tables :: "sim \<Rightarrow> entry_t \<Rightarrow> bool" where
  "sim_tables s root \<longleftrightarrow> (\<forall>d p r i. d \<le> 3 \<longrightarrow> table (sim_entries s) root d p = Some r \<longrightarrow> i < 512 \<longrightarrow>
     pt_slot (sim_pa_to_va (allocator s) r) i \<noteq> 0 \<and>
     (\<exists>e. sim_entries s r i = Some e \<and> (d \<in> {1, 2} \<longrightarrow> e AND PT_PAGE_PSE \<noteq> PT_PAGE_PSE)))"

definition mapped_pages :: "sim \<Rightarrow> entry_t \<Rightarrow> nat \<Rightarrow> nat \<Rightarrow> nat set" where
  "mapped_pages s root a b = {u. a div 4096 \<le> u \<and> u < b div 4096 \<and> pte (sim_entries s) root u \<noteq> None}"

text \<open>The state after the pages below \<open>v\<close>.\<close>

definition visited :: "sim \<Rightarrow> entry_t \<Rightarrow> addr_t \<Rightarrow> addr_t \<Rightarrow> nat \<Rightarrow> sim \<Rightarrow> bool" where
  "visited s0 root start stop v s \<longleftrightarrow> sim_tables s0 root \<and> 4096 dvd unat stop \<and> unat start \<le> v \<and> 4096 dvd v \<and>
     ram s = ram s0 \<and> allocator s = allocator s0 \<and>
     extras s = (extras s0)\<lparr>invoc_count := invoc_count (extras s0) + of_nat (card (mapped_pages s0 root (unat start) v))\<rparr>"

definition visit_profile :: "sim pt_profile_t \<Rightarrow> pte_allocator_t \<Rightarrow> bool" where
  "visit_profile prof a \<longleftrightarrow> x86_geometry prof \<and> how prof = Some (x86_64_how_visit_leaves sim_memory) \<and>
     at_level (visitors prof) PT_PTE = Some (Some pte_page_visit) \<and>
     pa_to_va_fn prof = Some (sim_pa_to_va a) \<and> next_level prof = Some x86_64_next"

lemma table_below:
  "table rd root d (p div 512 ^ n) = None \<Longrightarrow> table rd root (d + n) p = None"
proof (induction n arbitrary: p)
  case (Suc n)
  have "table rd root (d + n) (p div 512) = None"
    by (rule Suc.IH) (use Suc.prems in \<open>simp add: div_mult2_eq [symmetric] mult.commute\<close>)
  then show ?case by (simp add: table.simps(2))
qed simp

lemma mapped_pages_extend:
  assumes "a \<le> v" and "v \<le> w"
  shows "mapped_pages s root a w = mapped_pages s root a v \<union> mapped_pages s root v w"
    and "card (mapped_pages s root a w) = card (mapped_pages s root a v) + card (mapped_pages s root v w)"
proof -
  have d: "a div 4096 \<le> v div 4096" "v div 4096 \<le> w div 4096" using assms by (simp_all add: div_le_mono)
  show u: "mapped_pages s root a w = mapped_pages s root a v \<union> mapped_pages s root v w"
    using d by (auto simp: mapped_pages_def)
  have "finite (mapped_pages s root x y)" for x y
    by (rule finite_subset [of _ "{..< y div 4096}"]) (auto simp: mapped_pages_def)
  moreover have "mapped_pages s root a v \<inter> mapped_pages s root v w = {}" by (auto simp: mapped_pages_def)
  ultimately show "card (mapped_pages s root a w) = card (mapped_pages s root a v) + card (mapped_pages s root v w)"
    unfolding u by (intro card_Un_disjoint)
qed

text \<open>An absent entry of a table of level \<open>l\<close> leaves the rest of its block unmapped.\<close>

lemma unmapped_block:
  fixes va :: addr_t
  assumes l: "l \<noteq> 0" "l < 4" and none: "table (sim_entries s) root (3 - unat (l - 1)) (unat va div 2 ^ pt_shift l) = None"
  shows "mapped_pages s root (unat va) (min w ((unat va div 2 ^ pt_shift l + 1) * 2 ^ pt_shift l)) = {}"
proof -
  obtain n where n: "unat l = Suc n" "unat (l - 1) = n" "n < 3"
    using l by (cases "unat l") (simp_all add: unat_minus_one unat_eq_0 word_less_nat_alt)
  define K :: nat where "K = 512 ^ Suc n"
  have b: "(2 :: nat) ^ pt_shift l = 4096 * K" by (simp add: K_def pt_shift_def n(1) power_add power_mult)
  let ?q = "unat va div 2 ^ pt_shift l"
  have q: "?q = unat va div 4096 div K" unfolding b by (rule div_mult2_eq)
  have e: "(?q + 1) * 2 ^ pt_shift l div 4096 = (?q + 1) * K"
    unfolding b by (metis mult.left_commute nonzero_mult_div_cancel_left zero_neq_numeral)
  have "pte (sim_entries s) root u = None"
    if u: "unat va div 4096 \<le> u" "u < (?q + 1) * 2 ^ pt_shift l div 4096" for u
  proof -
    have "K * ?q \<le> unat va div 4096" unfolding q by (rule times_div_less_eq_dividend)
    then have "u div K = ?q" using u unfolding e by (intro div_nat_eqI) (simp_all add: mult.commute)
    then have "u div 512 div 512 ^ n = ?q" unfolding K_def power_Suc div_mult2_eq .
    then have "table (sim_entries s) root (3 - n + n) (u div 512) = None"
      using table_below none n(2) by metis
    then show ?thesis using n(3) by (simp add: pte_def)
  qed
  moreover have "min w x div 4096 \<le> x div 4096" for x :: nat by (simp add: div_le_mono)
  ultimately show ?thesis unfolding mapped_pages_def
    using order_less_le_trans by (auto simp del: div_mult_self1)
qed

lemma sim_load: "load sim_memory a s = ram s a" "set_curr_va sim_memory a s = s\<lparr>sim_va := a\<rparr>"
  by (simp_all add: sim_memory_def)

lemma visit_action:
  assumes "visit_profile prof al" and "ram s a = Some e"
  shows "\<not> present e \<Longrightarrow> entry_action prof a l s = Some (SKIP, s)"
    and "present e \<Longrightarrow> l \<noteq> 0 \<Longrightarrow> l < 4 \<Longrightarrow> l \<in> {1, 2} \<longrightarrow> e AND PT_PAGE_PSE \<noteq> PT_PAGE_PSE \<Longrightarrow>
      entry_action prof a l s = Some (WALK, s)"
    and "present e \<Longrightarrow> a \<noteq> 0 \<Longrightarrow> entry_action prof a 0 s =
      Some (WALK, s\<lparr>extras := (extras s)\<lparr>invoc_count := invoc_count (extras s) + 1\<rparr>\<rparr>)"
  using assms by (auto simp: visit_profile_def entry_action_def x86_64_how_visit_leaves_def sim_load pt_level_defs
      do_visit_def pte_page_visit_def PT_PAGE_PRESENT_def PT_PAGE_BIT_PRESENT_def)

definition sim_table_at :: "sim \<Rightarrow> entry_t \<Rightarrow> level_t \<Rightarrow> nat \<Rightarrow> entry_t \<Rightarrow> sim \<Rightarrow> bool" where
  "sim_table_at s0 root l p r s \<longleftrightarrow> table (sim_entries s0) root (3 - unat l) p = Some r"

definition visiting :: "sim pt_profile_t \<Rightarrow> sim \<Rightarrow> entry_t \<Rightarrow> addr_t \<Rightarrow> addr_t \<Rightarrow> nat \<Rightarrow> sim \<Rightarrow> bool" where
  "visiting prof s0 root start stop v s \<longleftrightarrow> visit_profile prof (allocator s0) \<and> visited s0 root start stop v s"

lemma visited_frame:
  assumes "visited s0 root start stop v s"
  shows "sim_entries s = sim_entries s0" and "sim_tables s0 root"
  using assms by (simp_all add: visited_def sim_entries_def)

lemma visited_on:
  assumes v: "visited s0 root start stop v s" and "v \<le> w" and "4096 dvd w"
    and t: "ram t = ram s" "allocator t = allocator s"
      "extras t = (extras s)\<lparr>invoc_count := invoc_count (extras s) + of_nat (card (mapped_pages s0 root v w))\<rparr>"
  shows "visited s0 root start stop w t"
proof -
  have "unat start \<le> v" using v by (simp add: visited_def)
  from mapped_pages_extend(2) [OF this assms(2), of s0 root] show ?thesis
    using v assms(2-6) by (simp add: visited_def)
qed

lemma visit_leaf:
  assumes T: "sim_table_at s0 root 0 p r s" and I: "visiting prof s0 root start stop (unat va) s"
    and va: "4096 dvd unat va" "unat va div 2 ^ 21 = p"
  shows "\<exists>a t. entry_action prof (pt_slot (sim_pa_to_va (allocator s0) r) (pt_index 0 va)) 0 (s\<lparr>sim_va := va\<rparr>) = Some (a, t) \<and>
     a \<noteq> ERROR \<and> visiting prof s0 root start stop (unat va + 4096) t"
proof -
  let ?i = "pt_index 0 va" and ?s = "s\<lparr>sim_va := va\<rparr>"
  let ?a = "pt_slot (sim_pa_to_va (allocator s0) r) ?i"
  have prof: "visit_profile prof (allocator s0)" and v: "visited s0 root start stop (unat va) s"
    using I by (simp_all add: visiting_def)
  have tr: "table (sim_entries s0) root 3 p = Some r" using T by (simp add: sim_table_at_def)
  have i: "?i < 512" by (simp add: pt_index_def)
  obtain e where e: "sim_entries s0 r ?i = Some e" and nz: "?a \<noteq> 0"
    using visited_frame(2) [OF v] tr i unfolding sim_tables_def by blast
  have me: "ram ?s ?a = Some e" using e v by (simp add: sim_entries_def visited_def)
  have u: "unat va div 4096 = p * 512 + ?i"
    using block_split [of va 0 p] va(2) by (simp add: pt_shift_def)
  have pt: "pte (sim_entries s0) root (unat va div 4096) = (if present e then Some e else None)"
    unfolding u using tr e by (simp add: pte_split [OF i])
  have one: "unat va div 4096 \<le> u \<and> u < (unat va + 4096) div 4096 \<longleftrightarrow> u = unat va div 4096" for u by auto
  have pg: "mapped_pages s0 root (unat va) (unat va + 4096) = (if present e then {unat va div 4096} else {})"
    unfolding mapped_pages_def conj_assoc [symmetric] one using pt by auto
  have al: "4096 dvd unat va + 4096" "unat va \<le> unat va + 4096" using va(1) by simp_all
  note on = visited_on [OF v al(2,1)]
  show ?thesis
  proof (cases "present e")
    case True
    let ?t = "?s\<lparr>extras := (extras s)\<lparr>invoc_count := invoc_count (extras s) + 1\<rparr>\<rparr>"
    have "visited s0 root start stop (unat va + 4096) ?t" by (rule on) (use True pg in simp_all)
    then show ?thesis using visit_action(3) [OF prof me True nz] prof by (simp add: visiting_def)
  next
    case False
    have "visited s0 root start stop (unat va + 4096) ?s" by (rule on) (use False pg in simp_all)
    then show ?thesis using visit_action(1) [OF prof me False] prof by (simp add: visiting_def)
  qed
qed

lemma visit_node:
  assumes l: "l \<noteq> 0" "l < 4" and T: "sim_table_at s0 root l p r s" and I: "visiting prof s0 root start stop (unat va) s"
    and va: "va < stop" "4096 dvd unat va" "unat va div 2 ^ (pt_shift l + 9) = p"
  shows "\<exists>a t. entry_action prof (pt_slot (sim_pa_to_va (allocator s0) r) (pt_index l va)) l (s\<lparr>sim_va := va\<rparr>) = Some (a, t) \<and>
     (a = SKIP \<and> visiting prof s0 root start stop (min (unat stop) ((unat va div 2 ^ pt_shift l + 1) * 2 ^ pt_shift l)) t \<or>
      a \<notin> {SKIP, ERROR} \<and> visiting prof s0 root start stop (unat va) t \<and>
      (\<exists>e. ram t (pt_slot (sim_pa_to_va (allocator s0) r) (pt_index l va)) = Some e \<and>
           sim_table_at s0 root (l - 1) (unat va div 2 ^ pt_shift l) (x86_64_next e l) t))"
proof -
  let ?i = "pt_index l va" and ?s = "s\<lparr>sim_va := va\<rparr>" and ?w = "min (unat stop) ((unat va div 2 ^ pt_shift l + 1) * 2 ^ pt_shift l)"
  let ?a = "pt_slot (sim_pa_to_va (allocator s0) r) ?i"
  have prof: "visit_profile prof (allocator s0)" and v: "visited s0 root start stop (unat va) s"
    using I by (simp_all add: visiting_def)
  have v': "visited s0 root start stop (unat va) ?s" using v by (simp add: visited_def)
  have tr: "table (sim_entries s0) root (3 - unat l) p = Some r" using T by (simp add: sim_table_at_def)
  have i: "?i < 512" by (simp add: pt_index_def)
  have d: "3 - unat l \<le> 3" by simp
  obtain e where e: "sim_entries s0 r ?i = Some e" and pse: "3 - unat l \<in> {1, 2} \<longrightarrow> e AND PT_PAGE_PSE \<noteq> PT_PAGE_PSE"
    using visited_frame(2) [OF v] tr i d unfolding sim_tables_def by blast
  have me: "ram ?s ?a = Some e" using e v by (simp add: sim_entries_def visited_def)
  have dep: "3 - unat (l - 1) = Suc (3 - unat l)" and blk: "unat va div 2 ^ pt_shift l = p * 512 + ?i"
    by (rule level_depth(1) [OF l], rule block_split [OF va(3)])
  have child: "table (sim_entries s0) root (3 - unat (l - 1)) (unat va div 2 ^ pt_shift l) =
      (if present e then Some (x86_64_next e l) else None)"
    unfolding dep blk using tr e by (simp add: table_split [OF i] x86_64_next_def)
  show ?thesis
  proof (cases "present e")
    case True
    have "l \<in> {1, 2} \<longrightarrow> e AND PT_PAGE_PSE \<noteq> PT_PAGE_PSE" using pse by auto
    then show ?thesis using visit_action(2) [OF prof me True l] prof v' me child True
      by (simp add: visiting_def sim_table_at_def)
  next
    case False
    have none: "table (sim_entries s0) root (3 - unat (l - 1)) (unat va div 2 ^ pt_shift l) = None"
      using child False by simp
    have "unat va < (unat va div 2 ^ pt_shift l + 1) * 2 ^ pt_shift l"
      by (metis add.commute dividend_less_times_div mult.commute mult_Suc_right plus_1_eq_Suc zero_less_numeral zero_less_power)
    then have le: "unat va \<le> ?w" using va(1) by (simp add: word_less_nat_alt)
    have "4096 dvd (2 :: nat) ^ pt_shift l" by (simp add: pt_shift_def power_add)
    moreover have "4096 dvd unat stop" using v by (simp add: visited_def)
    ultimately have al: "4096 dvd ?w" by (simp add: min_def dvd_mult)
    have "visited s0 root start stop ?w ?s"
      by (rule visited_on [OF v le al]) (use unmapped_block [OF l none] in simp_all)
    then show ?thesis using visit_action(1) [OF prof me False] prof by (simp add: visiting_def)
  qed
qed

text \<open>The profile of the simulation that visits: what the tests set for mapping may still be there.\<close>

definition leaf_profile :: "sim pt_profile_t \<Rightarrow> pte_allocator_t \<Rightarrow> sim pt_profile_t" where
  "leaf_profile p a = (x86_64_profile sim_memory)\<lparr>visitors := (replicate MAX_LEVEL None)[unat PT_PTE := Some pte_page_visit],
     mappers := mappers p, allocate_fn := allocate_fn p, pa_to_va_fn := Some (sim_pa_to_va a), va_to_pa_fn := va_to_pa_fn p\<rparr>"

lemma leaf_profile_visits: "visit_profile (leaf_profile p a) a"
  using profile_geometry [of sim_memory]
  by (simp add: visit_profile_def leaf_profile_def x86_geometry_def)
     (simp add: x86_64_profile_def at_level_def MAX_LEVEL_def pt_level_defs)

section \<open>Every walk ends\<close>

text \<open>A property \<open>T\<close> of the tables of every level, in the state, that is closed under walking: on every entry of such a
  table the callbacks return without an error, they and the walker keep the property of all tables, and where the
  walker goes on to the next level the entry can be read and leads to such a table again.\<close>

definition walkable :: "'s pt_profile_t \<Rightarrow> 's pt_memory \<Rightarrow> (addr_t \<Rightarrow> addr_t) \<Rightarrow> (entry_t \<Rightarrow> level_t \<Rightarrow> entry_t) \<Rightarrow>
    (level_t \<Rightarrow> entry_t \<Rightarrow> 's \<Rightarrow> bool) \<Rightarrow> bool" where
  "walkable prof mem pv nx T \<longleftrightarrow>
     (\<forall>l r s va. T l r s \<longrightarrow> T l r (set_curr_va mem va s)) \<and>
     (\<forall>l r s (i :: index_t). l < 4 \<longrightarrow> i < 512 \<longrightarrow> T l r s \<longrightarrow>
        (\<exists>a t. entry_action prof (pv r + 8 * ucast i) l s = Some (a, t) \<and> a \<noteq> ERROR \<and> (\<forall>k q. T k q s \<longrightarrow> T k q t) \<and>
           (a \<noteq> SKIP \<and> l \<noteq> 0 \<longrightarrow> (\<exists>e. load mem (pv r + 8 * ucast i) t = Some e \<and> T (l - 1) (nx e l) t))))"

lemma walkableD:
  assumes "walkable prof mem pv nx T"
  shows "T l r s \<Longrightarrow> T l r (set_curr_va mem va s)"
    and "l < 4 \<Longrightarrow> i < 512 \<Longrightarrow> T l r s \<Longrightarrow>
      \<exists>a t. entry_action prof (pv r + 8 * ucast (i :: index_t)) l s = Some (a, t) \<and> a \<noteq> ERROR \<and> (\<forall>k q. T k q s \<longrightarrow> T k q t) \<and>
        (a \<noteq> SKIP \<and> l \<noteq> 0 \<longrightarrow> (\<exists>e. load mem (pv r + 8 * ucast i) t = Some e \<and> T (l - 1) (nx e l) t))"
  using assms unfolding walkable_def by blast+

lemma entries_total:
  assumes w: "walkable prof mem pv nx T" and h: "next_level prof = Some nx" "nb_entries prof = 512" and l: "l < 4"
    and below: "\<And>r a s. l \<noteq> 0 \<Longrightarrow> T (l - 1) r s \<Longrightarrow> a < stop \<Longrightarrow>
      \<exists>t. pt_walk_page_range prof mem r (l - 1) a stop s = Some (OK, t) \<and> (\<forall>k q. T k q s \<longrightarrow> T k q t)"
    and T: "T l r st"
  shows "\<exists>t. pt_walk_entries prof mem (pv r) l start stop msk sh i0 i st = Some (OK, t) \<and> (\<forall>k q. T k q st \<longrightarrow> T k q t)"
  using T
proof (induction "unat (nb_entries prof - i)" arbitrary: i st rule: less_induct)
  case less
  let ?va = "current_va msk sh start i0 i" and ?a = "pv r + 8 * ucast i"
  show ?case
  proof (cases "i < nb_entries prof \<and> \<not> stop \<le> ?va")
    case False
    then show ?thesis using walkableD(1) [OF w] by (subst pt_walk_entries.simps) auto
  next
    case True
    have rec: "\<exists>t. pt_walk_entries prof mem (pv r) l start stop msk sh i0 (i + 1) u = Some (OK, t) \<and> (\<forall>k q. T k q u \<longrightarrow> T k q t)"
      if "T l r u" for u
      using less.hyps [of "i + 1" u] index_step [of i "nb_entries prof"] True that by blast
    let ?s = "set_curr_va mem ?va st"
    have s: "T k q st \<longrightarrow> T k q ?s" for k q using walkableD(1) [OF w] by blast
    obtain act u where u: "entry_action prof ?a l ?s = Some (act, u)" "act \<noteq> ERROR" "\<forall>k q. T k q ?s \<longrightarrow> T k q u"
      "act \<noteq> SKIP \<and> l \<noteq> 0 \<longrightarrow> (\<exists>e. load mem ?a u = Some e \<and> T (l - 1) (nx e l) u)"
      using walkableD(2) [OF w l, of i r ?s] True h(2) s less.prems by auto
    have Tu: "T l r u" using s u(3) less.prems by blast
    show ?thesis
    proof (cases "act = SKIP \<or> l = 0")
      case skip: True
      obtain t where t: "pt_walk_entries prof mem (pv r) l start stop msk sh i0 (i + 1) u = Some (OK, t)"
        "\<forall>k q. T k q u \<longrightarrow> T k q t" using rec [OF Tu] by blast
      have "pt_walk_entries prof mem (pv r) l start stop msk sh i0 i st = Some (OK, t)"
        using True skip u(1,2) t(1) by (subst pt_walk_entries.simps) (auto simp: Let_def)
      then show ?thesis using s u(3) t(2) by blast
    next
      case False
      then obtain e where e: "load mem ?a u = Some e" "T (l - 1) (nx e l) u" using u(4) by blast
      obtain w where w: "pt_walk_page_range prof mem (nx e l) (l - 1) ?va stop u = Some (OK, w)" "\<forall>k q. T k q u \<longrightarrow> T k q w"
        using below [OF _ e(2), of ?va] False True by (auto simp: not_le)
      obtain t where t: "pt_walk_entries prof mem (pv r) l start stop msk sh i0 (i + 1) w = Some (OK, t)"
        "\<forall>k q. T k q w \<longrightarrow> T k q t" using rec Tu w(2) by blast
      have "pt_walk_entries prof mem (pv r) l start stop msk sh i0 i st = Some (OK, t)"
        using True False u(1,2) e(1) w(1) t(1) h(1) by (subst pt_walk_entries.simps) (auto simp: Let_def)
      then show ?thesis using s u(3) w(2) t(2) by blast
    qed
  qed
qed

text \<open>C20: a walk ends.  On the geometry of x86-64 a walk that starts at a table of a walkable property returns 0,
  from every level, however large the range is and whatever its alignment, and it keeps the property.  Nothing
  is assumed of tables that are not reached, and the tables may be shared or lead back to themselves.\<close>

theorem pt_walk_total:
  assumes g: "x86_geometry prof"
    and h: "how prof \<noteq> None" "pa_to_va_fn prof = Some pv" "next_level prof = Some nx"
    and w: "walkable prof mem pv nx T" and T: "T level root st"
    and l: "level < 4" and range: "start < stop"
  shows "\<exists>t. pt_walk_page_range prof mem root level start stop st = Some (OK, t) \<and> (\<forall>k q. T k q st \<longrightarrow> T k q t)"
  using l range T
proof (induction "unat level" arbitrary: level start root st rule: less_induct)
  case less
  obtain i where i: "get_index start level prof = Some i" using geometry_index [OF g less.prems(1)] by blast
  have lv: "level < nb_levels prof" "at_level (masks prof) level \<noteq> None" "at_level (shifts prof) level \<noteq> None"
    and n: "nb_entries prof = 512" using g less.prems(1) by (simp_all add: x86_geometry_def)
  have below: "\<exists>t. pt_walk_page_range prof mem r (level - 1) a stop s = Some (OK, t) \<and> (\<forall>k q. T k q s \<longrightarrow> T k q t)"
    if "level \<noteq> 0" "T (level - 1) r s" "a < stop" for r a s
  proof -
    have "level - 1 < 4" using level_step [OF that(1)] less.prems(1) by (simp add: word_less_nat_alt)
    from less.hyps [OF level_step [OF that(1)] this that(3,2)] show ?thesis .
  qed
  show ?case using lv i h less.prems(2) entries_total [OF w h(3) n less.prems(1) below less.prems(3)]
    by (subst pt_walk_page_range.simps) auto
qed

lemma unat_of_nat_small: "n < 2 ^ 64 \<Longrightarrow> unat (of_nat n :: u64) = n"
  by (simp add: unsigned_of_nat take_bit_nat_eq_self)

text \<open>One table, every entry of which is present and leads back to it, walked by the repository's callbacks.\<close>

definition demo_loop :: sim where
  "demo_loop = \<lparr>ram = (\<lambda>a. Some 1), allocator = \<lparr>al_start = 0x10000, next_free = 0x15000, al_end = 0x20000\<rparr>,
     extras = \<lparr>x_root = 0, x_flags = 1, invoc_count = 0\<rparr>, sim_va = 0\<rparr>"

lemma demo_loop_walkable:
  "walkable (leaf_profile p (allocator demo_loop)) sim_memory (sim_pa_to_va (allocator demo_loop)) x86_64_next
     (\<lambda>l r s. r = 0 \<and> ram s = ram demo_loop)" (is "walkable ?p _ ?pv _ _")
  unfolding walkable_def
proof (intro conjI allI impI)
  fix l :: level_t and r :: entry_t and i :: index_t and s :: sim
  assume l: "l < 4" "i < 512" and T: "r = 0 \<and> ram s = ram demo_loop"
  let ?a = "?pv r + 8 * ucast i"
  have e: "ram s ?a = Some 1" and nx: "x86_64_next 1 l = 0"
    using T by (simp_all add: demo_loop_def x86_64_next_def pt_mask_defs pt_size_defs)
  have "?a = of_nat (0x10000 + 8 * unat i)" using T by (simp add: sim_pa_to_va_def demo_loop_def)
  moreover have "unat (of_nat (0x10000 + 8 * unat i) :: u64) = 0x10000 + 8 * unat i"
    by (rule unat_of_nat_small) (use l(2) in \<open>simp add: word_less_nat_alt\<close>)
  ultimately have nz: "?a \<noteq> 0" by (metis add_is_0 unsigned_0 zero_neq_numeral)
  have pr: "present 1" and pse: "l \<in> {1, 2} \<longrightarrow> 1 AND PT_PAGE_PSE \<noteq> PT_PAGE_PSE" by (simp_all add: pt_flag_defs)
  note act = visit_action [OF leaf_profile_visits [of p "allocator demo_loop"] e]
  show "\<exists>a t. entry_action ?p ?a l s = Some (a, t) \<and> a \<noteq> ERROR \<and>
      (\<forall>k q. q = 0 \<and> ram s = ram demo_loop \<longrightarrow> q = 0 \<and> ram t = ram demo_loop) \<and>
      (a \<noteq> SKIP \<and> l \<noteq> 0 \<longrightarrow> (\<exists>e. load sim_memory ?a t = Some e \<and> x86_64_next e l = 0 \<and> ram t = ram demo_loop))"
  proof (cases "l = 0")
    case True
    then show ?thesis using act(3) [OF pr nz] by auto
  next
    case False
    then show ?thesis using act(2) [OF pr False l(1) pse] e nx T by (auto simp: sim_load)
  qed
qed (simp_all add: sim_load)

theorem pt_walk_total_witness:
  "\<exists>t. pt_walk_page_range (leaf_profile (x86_64_profile sim_memory) (allocator demo_loop)) sim_memory 0 PT_PML4
     0x1234 0xFFFFFFFFFFFF demo_loop = Some (OK, t) \<and> ram t = ram demo_loop"
proof -
  let ?p = "leaf_profile (x86_64_profile sim_memory) (allocator demo_loop)"
  have "visit_profile ?p (allocator demo_loop)" by (rule leaf_profile_visits)
  then show ?thesis
    using pt_walk_total [OF _ _ _ _ demo_loop_walkable, of "x86_64_profile sim_memory" 0 demo_loop PT_PML4 "0x1234" "0xFFFFFFFFFFFF"]
    by (auto simp: visit_profile_def PT_PML4_def)
qed

section \<open>What a walk over the leaves counts\<close>

interpretation visit: pt_client "leaf_profile p (allocator s0)" sim_memory "sim_pa_to_va (allocator s0)" x86_64_next stop
  "sim_table_at s0 root" "visiting (leaf_profile p (allocator s0)) s0 root start stop" "\<lambda>_ _. True"
proof (unfold_locales, goal_cases)
  case 1
  then show ?case using leaf_profile_visits by (simp add: visit_profile_def)
next
  case (9 v s a)
  then show ?case by (simp add: sim_load visiting_def visited_def)
next
  case (11 q r s va)
  from visit_leaf [OF this(1,2,4,5)] show ?case unfolding sim_load by auto
next
  case (12 l q r s va)
  from visit_node [OF this] show ?case unfolding sim_load by auto
qed (auto simp: leaf_profile_def x86_64_profile_def sim_table_at_def visiting_def visited_def)

text \<open>C21: a walk over the leaves visits every mapped page once.  The profile that visits the leaves of the
  simulation, started at the root on a page-aligned range of the 48-bit address space whose tables hold no
  huge page, returns 0, changes no entry of a table and raises the counter of the visitor by the number of
  pages of the range that are mapped.\<close>

theorem leaf_walk_correct:
  assumes "sim_tables s root" and "a < b" and "4096 dvd unat a" and "4096 dvd unat b" and "unat b \<le> 2 ^ 48"
  shows "\<exists>t. pt_walk_page_range (leaf_profile p (allocator s)) sim_memory root PT_PML4 a b s = Some (OK, t) \<and>
     ram t = ram s \<and> allocator t = allocator s \<and>
     extras t = (extras s)\<lparr>invoc_count := invoc_count (extras s) + of_nat (card (mapped_pages s root (unat a) (unat b)))\<rparr>"
proof -
  have "mapped_pages s root (unat a) (unat a) = {}" by (simp add: mapped_pages_def)
  then have i: "visiting (leaf_profile p (allocator s)) s root a b (unat a) s"
    using assms leaf_profile_visits by (simp add: visiting_def visited_def)
  have t: "sim_table_at s root 3 0 root s" by (simp add: sim_table_at_def)
  have d: "unat a div 2 ^ 48 = 0" using assms(2,5) by (simp add: word_less_nat_alt)
  from visit.walk_all [OF t i assms(2,3) d] assms(5) show ?thesis
    by (auto simp: visiting_def visited_def)
qed

text \<open>Four tables and one mapped page, at \<open>0x5000\<close>; the next page is not mapped.\<close>

definition demo_sim :: sim where
  "demo_sim = \<lparr>ram = (\<lambda>a. if a = 0x10000 then Some 0x1001 else if a = 0x11000 then Some 0x2001
       else if a = 0x12000 then Some 0x3001 else if a = 0x13028 then Some 0x4001 else Some 0),
     allocator = \<lparr>al_start = 0x10000, next_free = 0x15000, al_end = 0x20000\<rparr>,
     extras = \<lparr>x_root = 0, x_flags = 1, invoc_count = 0\<rparr>, sim_va = 0\<rparr>"

lemma demo_sim_entries: "sim_entries demo_sim r i = Some (let a = 0x10000 + r + 8 * of_nat i in
    if a = 0x10000 then 0x1001 else if a = 0x11000 then 0x2001 else if a = 0x12000 then 0x3001
    else if a = 0x13028 then 0x4001 else 0)"
  by (simp add: sim_entries_def demo_sim_def sim_pa_to_va_def pt_slot_def Let_def)

lemma demo_entry:
  assumes "i < 512" and "d \<le> 3"
  shows "sim_entries demo_sim (of_nat (4096 * d)) i =
    Some (if i = (if d = 3 then 5 else 0) then of_nat (4096 * d + 0x1001) else 0)"
proof -
  have a: "(0x10000 + of_nat (4096 * d) + 8 * of_nat i = (w :: u64)) \<longleftrightarrow> 0x10000 + 4096 * d + 8 * i = unat w" for w
  proof -
    have "(0x10000 + of_nat (4096 * d) + 8 * of_nat i :: u64) = of_nat (0x10000 + 4096 * d + 8 * i)" by simp
    moreover have "unat (of_nat (0x10000 + 4096 * d + 8 * i) :: u64) = 0x10000 + 4096 * d + 8 * i"
      by (rule unat_of_nat_small) (use assms in simp)
    ultimately show ?thesis by (metis unsigned_word_eqI)
  qed
  have "d = 0 \<or> d = 1 \<or> d = 2 \<or> d = 3" using assms(2) by auto
  then show ?thesis unfolding demo_sim_entries Let_def a using assms(1) by auto
qed

lemma demo_tables:
  "d \<le> 3 \<Longrightarrow> table (sim_entries demo_sim) 0 d p = Some r \<Longrightarrow> p = 0 \<and> r = of_nat (4096 * d)"
proof (induction d arbitrary: p r)
  case (Suc d)
  obtain r0 e where r0: "table (sim_entries demo_sim) 0 d (p div 512) = Some r0"
    "sim_entries demo_sim r0 (p mod 512) = Some e" "present e" "r = x86_64_next e 0"
    using Suc.prems(2) by (auto simp: table.simps(2) bind_eq_Some_conv split: if_splits)
  have z: "p div 512 = 0" "r0 = of_nat (4096 * d)" using Suc.IH [OF _ r0(1)] Suc.prems(1) by simp_all
  have m: "p mod 512 < 512" "d \<le> 3" "d \<noteq> 3" using Suc.prems(1) by simp_all
  have e: "p mod 512 = 0" "e = of_nat (4096 * d + 0x1001)"
    using r0(2,3) demo_entry [OF m(1,2)] m(3) unfolding z(2) by (auto simp: pt_flag_defs split: if_splits)
  have "d = 0 \<or> d = 1 \<or> d = 2" using m by auto
  then have "x86_64_next (of_nat (4096 * d + 0x1001)) 0 = of_nat (4096 * Suc d)"
    by (auto simp: x86_64_next_def pt_mask_defs pt_size_defs)
  then show ?case using z(1) e r0(4) by (metis add_0 div_mult_mod_eq mult_0)
qed (auto split: if_splits)

lemma demo_sim_tables: "sim_tables demo_sim 0"
  unfolding sim_tables_def
proof (intro allI impI)
  fix d p r and i :: nat
  assume d: "d \<le> 3" and r: "table (sim_entries demo_sim) 0 d p = Some r" and i: "i < 512"
  have "r = of_nat (4096 * d)" using demo_tables [OF d r] by simp
  moreover have "pt_slot (sim_pa_to_va (allocator demo_sim) (of_nat (4096 * d))) i \<noteq> 0"
  proof -
    have "unat (of_nat (0x10000 + 4096 * d + 8 * i) :: u64) = 0x10000 + 4096 * d + 8 * i"
      by (rule unat_of_nat_small) (use d i in simp)
    moreover have "pt_slot (sim_pa_to_va (allocator demo_sim) (of_nat (4096 * d))) i = of_nat (0x10000 + 4096 * d + 8 * i)"
      by (simp add: pt_slot_def sim_pa_to_va_def demo_sim_def)
    ultimately show ?thesis by (metis add_is_0 unsigned_0 zero_neq_numeral)
  qed
  ultimately show "pt_slot (sim_pa_to_va (allocator demo_sim) r) i \<noteq> 0 \<and>
     (\<exists>e. sim_entries demo_sim r i = Some e \<and> (d \<in> {1, 2} \<longrightarrow> e AND PT_PAGE_PSE \<noteq> PT_PAGE_PSE))"
    using demo_entry [OF i d] by (auto simp: pt_flag_defs)
qed

lemma demo_mapped: "mapped_pages demo_sim 0 0x5000 0x7000 = {5}"
proof -
  have t: "table (sim_entries demo_sim) 0 d 0 = Some (of_nat (4096 * d))" if "d \<le> 3" for d using that
  proof (induction d)
    case (Suc d)
    then have "d = 0 \<or> d = 1 \<or> d = 2" by auto
    then show ?case using Suc demo_entry [of 0 d]
      by (auto simp: table.simps(2) pt_flag_defs x86_64_next_def pt_mask_defs pt_size_defs)
  qed simp
  have "pte (sim_entries demo_sim) 0 u = (if u = 5 then Some 0x4001 else None)" if "u < 512" for u
    using that t [of 3] demo_entry [of u 3] by (auto simp: pte_def pt_flag_defs)
  then show ?thesis by (auto simp: mapped_pages_def split: if_splits)
qed

theorem leaf_walk_correct_witness:
  "\<exists>t. pt_walk_page_range (leaf_profile (x86_64_profile sim_memory) (allocator demo_sim)) sim_memory 0 PT_PML4 0x5000 0x7000 demo_sim = Some (OK, t) \<and>
     invoc_count (extras t) = 1"
proof -
  have z: "invoc_count (extras demo_sim) = 0" by (simp add: demo_sim_def)
  obtain t where "pt_walk_page_range (leaf_profile (x86_64_profile sim_memory) (allocator demo_sim)) sim_memory 0 PT_PML4
      0x5000 0x7000 demo_sim = Some (OK, t)" "invoc_count (extras t) = 1"
    using leaf_walk_correct [OF demo_sim_tables, of "0x5000" "0x7000" "x86_64_profile sim_memory"] z
    by (auto simp: demo_mapped)
  then show ?thesis by blast
qed

section \<open>Indices and addresses\<close>

lemma push_small_bit:
  fixes x :: u64
  assumes "x < 512" and "n + 9 \<le> 64"
  shows "bit (push_bit n x) m \<longleftrightarrow> n \<le> m \<and> m < n + 9 \<and> bit x (m - n)"
proof -
  have "unat x < 2 ^ 9" using assms(1) by (simp add: word_less_nat_alt)
  then have "take_bit 9 (unat x) = unat x" by (rule take_bit_nat_eq_self)
  then have "take_bit 9 x = x" by (metis unsigned_take_bit_eq unsigned_word_eqI)
  then have "bit x j \<Longrightarrow> j < 9" for j by (metis bit_take_bit_iff)
  from this [of "m - n"] show ?thesis using assms(2) by (auto simp: bit_push_bit_iff)
qed

lemma virt_addr_bit:
  assumes "pml4_idx v < 512" and "pgd_idx v < 512" and "pmd_idx v < 512" and "pte_idx v < 512"
  shows "bit (create_virt_addr v) m \<longleftrightarrow>
     39 \<le> m \<and> m < 48 \<and> bit (pml4_idx v) (m - 39) \<or> 30 \<le> m \<and> m < 39 \<and> bit (pgd_idx v) (m - 30) \<or>
     21 \<le> m \<and> m < 30 \<and> bit (pmd_idx v) (m - 21) \<or> 12 \<le> m \<and> m < 21 \<and> bit (pte_idx v) (m - 12)"
proof -
  have s: "unat PT_PML4_SHIFT = 39" "unat PT_PGD_SHIFT = 30" "unat PT_PMD_SHIFT = 21" "unat PT_PTE_SHIFT = 12"
    by (simp_all add: pt_size_defs)
  note p = push_small_bit [OF assms(1), of 39 m] push_small_bit [OF assms(2), of 30 m]
    push_small_bit [OF assms(3), of 21 m] push_small_bit [OF assms(4), of 12 m]
  show ?thesis unfolding create_virt_addr_def s bit_or_iff using p by (simp add: disj_assoc)
qed

lemma small_index_bit: "x < 512 \<Longrightarrow> bit x m \<Longrightarrow> m < 9" for x :: u64
  using push_small_bit [of x 0 m] by simp

text \<open>an address and its four indices.  For indices below 512 the address that \<open>create_virt_addr\<close>
  builds is page-aligned and within 48 bits, and \<open>get_index\<close> reads every index back from it; so different
  indices give different addresses.\<close>

theorem get_index_create_virt_addr:
  assumes v: "pml4_idx v < 512" "pgd_idx v < 512" "pmd_idx v < 512" "pte_idx v < 512"
  shows "get_index (create_virt_addr v) PT_PML4 (x86_64_profile mem) = Some (ucast (pml4_idx v)) \<and>
     get_index (create_virt_addr v) PT_PGD (x86_64_profile mem) = Some (ucast (pgd_idx v)) \<and>
     get_index (create_virt_addr v) PT_PMD (x86_64_profile mem) = Some (ucast (pmd_idx v)) \<and>
     get_index (create_virt_addr v) PT_PTE (x86_64_profile mem) = Some (ucast (pte_idx v)) \<and>
     4096 dvd unat (create_virt_addr v) \<and> unat (create_virt_addr v) < 2 ^ 48"
proof -
  let ?a = "create_virt_addr v"
  note b = virt_addr_bit [OF v]
  have idx: "get_index ?a l (x86_64_profile mem) = Some (ucast x)"
    if l: "l < 4" and x: "x < 512" "\<And>i. i < 9 \<Longrightarrow> bit ?a (pt_shift l + i) = bit x i" for l and x :: u64
  proof -
    obtain s where s: "get_index ?a l (x86_64_profile mem) = Some s"
      "s = ucast (drop_bit (pt_shift l) (?a AND push_bit (pt_shift l) 511))"
      using geometry_index [OF profile_geometry l, of ?a mem] by blast
    have "drop_bit (pt_shift l) (?a AND push_bit (pt_shift l) 511) = x"
    proof (rule bit_eqI)
      fix n
      have "n < 9 \<Longrightarrow> pt_shift l + n < 64" using pt_shift_bounds(1) [OF l] by simp
      then show "bit (drop_bit (pt_shift l) (?a AND push_bit (pt_shift l) 511)) n = bit x n"
        using x(2) [of n] small_index_bit [OF x(1), of n]
        by (auto simp: bit_drop_bit_eq bit_and_iff bit_push_bit_iff)
    qed
    then show ?thesis using s by simp
  qed
  have "get_index ?a PT_PML4 (x86_64_profile mem) = Some (ucast (pml4_idx v))"
    "get_index ?a PT_PGD (x86_64_profile mem) = Some (ucast (pgd_idx v))"
    "get_index ?a PT_PMD (x86_64_profile mem) = Some (ucast (pmd_idx v))"
    "get_index ?a PT_PTE (x86_64_profile mem) = Some (ucast (pte_idx v))"
    by (rule idx, simp add: pt_level_defs, rule v, simp add: pt_level_defs pt_shift_def b)+
  moreover have lim: "12 \<le> n \<and> n < 48" if "bit ?a n" for n
    using that unfolding b by (elim disjE conjE) simp_all
  have "push_bit 12 (drop_bit 12 ?a) = ?a"
    by (rule bit_word_eqI) (use lim in \<open>fastforce simp: bit_push_bit_iff bit_drop_bit_eq\<close>)
  with unat_push_drop [of 12 ?a] have "unat ?a = unat ?a div 2 ^ 12 * 2 ^ 12" by (simp only:)
  then have "2 ^ 12 dvd unat ?a" by (rule dvdI [OF trans [OF _ mult.commute]])
  then have "4096 dvd unat ?a" by simp
  moreover have "take_bit 48 ?a = ?a"
    by (rule bit_word_eqI) (auto simp: bit_take_bit_iff dest: lim)
  then have "unat ?a < 2 ^ 48" by (metis take_bit_nat_less_exp unsigned_take_bit_eq)
  ultimately show ?thesis by simp
qed

theorem get_index_create_virt_addr_witness:
  "get_index (va_index 1 0 0 510) PT_PTE (x86_64_profile sim_memory) = Some 510 \<and>
   get_index (va_index 1 0 0 510) PT_PML4 (x86_64_profile sim_memory) = Some 1"
  using get_index_create_virt_addr [of "\<lparr>pml4_idx = 1, pgd_idx = 0, pmd_idx = 0, pte_idx = 510\<rparr>" sim_memory]
  by (simp add: va_index_def)

end
