(* ===== verification/Mapper.thy ===== *)
theory Mapper
  imports Enclave Page_Tables
begin

text \<open>
  \<open>modules/libraries/enclave/src/internal/mapper.c\<close>: the page tables of an enclave.  \<open>virt_to_phys\<close> and
  \<open>phys_to_virt\<close> are parameters (record \<open>kernel_map\<close>).  The state of a walk is the heap of the driver with
  the two locals of \<open>build_enclave_cr3\<close> that the callbacks reach through \<open>profile\<close>: the \<open>map_info_t\<close> and
  the field \<open>curr_va\<close>.  The addresses of these locals are never NULL, so that the tests of \<open>info\<close>,
  \<open>profile\<close> and \<open>extras\<close> against NULL have no counterpart; those of \<open>enclave\<close>, \<open>entry\<close> and
  \<open>pa_region\<close> have.
\<close>

record kernel_map =
  virt_to_phys :: "u64 \<Rightarrow> u64"
  phys_to_virt :: "u64 \<Rightarrow> u64"

record map_info_t =
  intermed_flags :: entry_t
  mi_region :: "ptr option"
  mi_pa_region :: "ptr option"
  mi_enclave :: "ptr option"

record 'm mstate = "'m estate" +
  minfo :: map_info_t
  profile_va :: addr_t

definition mapper_memory :: "'m mstate pt_memory" where
  "mapper_memory = \<lparr>load = (\<lambda>a s. pt_mem s a), set_curr_va = (\<lambda>a s. s\<lparr>profile_va := a\<rparr>)\<rparr>"

definition va_to_pa :: "kernel_map \<Rightarrow> addr_t \<Rightarrow> addr_t" where
  "va_to_pa k addr = virt_to_phys k addr"

definition pa_to_va :: "kernel_map \<Rightarrow> addr_t \<Rightarrow> addr_t" where
  "pa_to_va k addr = phys_to_virt k addr"

section \<open>Pages\<close>

text \<open>The content of the 512 entries of a page: one value, or nothing once the page is freed.\<close>

definition fill_page :: "u64 \<Rightarrow> u64 option \<Rightarrow> (u64 \<rightharpoonup> u64) \<Rightarrow> (u64 \<rightharpoonup> u64)" where
  "fill_page page v m = (\<lambda>a. if a - page < PT_PAGE_SIZE then v else m a)"

definition alloc_pages_exact :: "('m, 'z) estate_scheme \<Rightarrow> u64 option \<times> ('m, 'z) estate_scheme" where
  "alloc_pages_exact s = (page_pool s (page_next s), (case page_pool s (page_next s) of
     None \<Rightarrow> s\<lparr>page_next := Suc (page_next s)\<rparr>
   | Some page \<Rightarrow> s\<lparr>page_next := Suc (page_next s), pt_mem := fill_page page (Some (junk s)) (pt_mem s)\<rparr>))"

definition free_pages_exact :: "u64 \<Rightarrow> ('m, 'z) estate_scheme \<Rightarrow> ('m, 'z) estate_scheme option" where
  "free_pages_exact page s = do {
     _ \<leftarrow> pt_mem s page;
     Some (s\<lparr>pt_mem := fill_page page None (pt_mem s)\<rparr>) }"

text \<open>A new \<open>pa_region_t\<close> with the given content and both link fields reset.\<close>

definition init_pa :: "ptr \<Rightarrow> u64 \<Rightarrow> u64 \<Rightarrow> tyche_encl_mapping_t \<Rightarrow> ('m, 'z) estate_scheme \<Rightarrow>
    ('m, 'z) estate_scheme option" where
  "init_pa p start stop tpe s = do {
     let s = s\<lparr>pars := (pars s)(p \<mapsto> \<lparr>p_start = start, p_end = stop, p_tpe = tpe\<rparr>)\<rparr>;
     lk \<leftarrow> dll_init_elem p (pa_links s);
     gl \<leftarrow> dll_init_elem p (glob_links s);
     Some (s\<lparr>pa_links := lk, glob_links := gl\<rparr>) }"

text \<open>\<open>0\<close> is the NULL that \<open>allocate\<close> returns on failure.  The labels \<open>failure_remove\<close> and
  \<open>failure_unmap\<close> free the page but none of the two structs.\<close>

definition allocate :: "kernel_map \<Rightarrow> 'm mstate \<Rightarrow> (entry_t \<times> 'm mstate) option" where
  "allocate k s = (case mi_enclave (minfo s) of None \<Rightarrow> Some (0, s)
     | Some en \<Rightarrow> (case alloc_pages_exact s of
         (None, s) \<Rightarrow> Some (0, s)
       | (Some allocation, s) \<Rightarrow>
           if allocation mod PT_PAGE_SIZE \<noteq> 0 then Some (0, s)
           else let s = s\<lparr>pt_mem := fill_page allocation (Some 0) (pt_mem s)\<rparr>;
                    page = virt_to_phys k allocation
             in (case alloc_pa s of
                  (None, s) \<Rightarrow> do { s \<leftarrow> free_pages_exact allocation s; Some (0, s) }
                | (Some region, s) \<Rightarrow> do {
                    s \<leftarrow> init_pa region page (page + PT_PAGE_SIZE) PtEntry s;
                    s \<leftarrow> pts_add en region s;
                    (case alloc_pa s of
                       (None, s) \<Rightarrow> do {
                         s \<leftarrow> pts_remove en region s;
                         s \<leftarrow> free_pages_exact allocation s;
                         Some (0, s) }
                     | (Some in_all_pages, s) \<Rightarrow> do {
                         x \<leftarrow> pars s region;
                         s \<leftarrow> init_pa in_all_pages (p_start x) (p_end x) (p_tpe x) s;
                         (rc, s) \<leftarrow> add_merge_global (Some en) (Some in_all_pages) s;
                         if rc \<noteq> 0 then do {
                           s \<leftarrow> pts_remove en region s;
                           s \<leftarrow> free_pages_exact allocation s;
                           Some (0, s) }
                         else Some (page, s) }) })))"

section \<open>Mapping\<close>

definition translate_flags :: "u64 \<Rightarrow> entry_t" where
  "translate_flags flags =
     (let t = 0;
          t = (if flags \<noteq> 0 then t OR PT_PAGE_PRESENT else t);
          t = (if flags AND TE_EXEC = 0 then t OR PT_PAGE_NX else t);
          t = (if flags AND TE_WRITE = TE_WRITE then t OR PT_PAGE_RW else t);
          t = (if flags AND TE_USER = TE_USER then t OR PT_PAGE_USER else t)
      in t)"

text \<open>Storing through an \<open>entry_t*\<close>.\<close>

definition store_entry :: "addr_t \<Rightarrow> entry_t \<Rightarrow> ('m, 'z) estate_scheme \<Rightarrow> ('m, 'z) estate_scheme option" where
  "store_entry a e s = do { _ \<leftarrow> pt_mem s a; Some (s\<lparr>pt_mem := (pt_mem s)(a \<mapsto> e)\<rparr>) }"

text \<open>The labels \<open>entry_page\<close> and \<open>normal_page\<close>.\<close>

definition entry_page :: "bool \<Rightarrow> 'm mstate callback_t" where
  "entry_page is_huge entry lvl s = do {
     p \<leftarrow> mi_pa_region (minfo s);
     x \<leftarrow> pars s p;
     rg \<leftarrow> mi_region (minfo s);
     r \<leftarrow> regs s rg;
     let e = (p_start x AND PT_PHYS_PAGE_MASK) OR translate_flags (r_flags r) OR 0x60;
     s \<leftarrow> store_entry entry (if is_huge then e OR PT_PAGE_PSE else e) s;
     y \<leftarrow> pa_links s p;
     Some (WALK, s\<lparr>minfo := (minfo s)\<lparr>mi_pa_region := nxt y\<rparr>\<rparr>) }"

definition normal_page :: "kernel_map \<Rightarrow> 'm mstate callback_t" where
  "normal_page k entry lvl s = do {
     (new_page, s) \<leftarrow> allocate k s;
     s \<leftarrow> store_entry entry (new_page OR intermed_flags (minfo s)) s;
     Some (WALK, s) }"

definition default_mapper :: "kernel_map \<Rightarrow> 'm mstate callback_t" where
  "default_mapper k entry lvl s =
     (if entry = 0 then Some (ERROR, s)
      else case mi_pa_region (minfo s) of None \<Rightarrow> Some (ERROR, s)
      | Some p \<Rightarrow> do {
          x \<leftarrow> pars s p;
          let size = p_end x - p_start x;
          if lvl = PT_PGD then
            (if size = PT_PGD_PAGE_SIZE then entry_page True entry lvl s else normal_page k entry lvl s)
          else if lvl = PT_PMD then
            (if size = PT_PMD_PAGE_SIZE then entry_page True entry lvl s else normal_page k entry lvl s)
          else if lvl = PT_PML4 then normal_page k entry lvl s
          else if lvl = PT_PTE then
            (if size \<noteq> PT_PAGE_SIZE then Some (ERROR, s) else entry_page False entry lvl s)
          else entry_page False entry lvl s })"

definition mapper_profile :: "kernel_map \<Rightarrow> 'm mstate pt_profile_t" where
  "mapper_profile k = (x86_64_profile mapper_memory)\<lparr>
     allocate_fn := Some (allocate k), pa_to_va_fn := Some (pa_to_va k), va_to_pa_fn := Some (va_to_pa k),
     how := Some (x86_64_how_map mapper_memory),
     mappers := (replicate MAX_LEVEL None)[unat PT_PTE := Some (default_mapper k),
       unat PT_PMD := Some (default_mapper k), unat PT_PGD := Some (default_mapper k),
       unat PT_PML4 := Some (default_mapper k)]\<rparr>"

definition map_region :: "kernel_map \<Rightarrow> ptr option \<Rightarrow> 'm mstate \<Rightarrow> (c_int \<times> 'm mstate) option" where
  "map_region k region s = (case region of None \<Rightarrow> Some (FAIL, s)
     | Some rg \<Rightarrow> do {
         r \<leftarrow> regs s rg;
         let s = s\<lparr>minfo := (minfo s)\<lparr>mi_region := Some rg, mi_pa_region := head (pas r),
           intermed_flags := PT_PAGE_PRESENT OR PT_PAGE_RW OR PT_PAGE_ACCESSED OR PT_PAGE_USER OR PT_PAGE_DIRTY\<rparr>\<rparr>;
         en \<leftarrow> mi_enclave (minfo s);
         c \<leftarrow> encls s en;
         pt_walk_page_range (mapper_profile k) mapper_memory (cr3 c) PT_PML4 (r_start r) (r_end r) s })"

text \<open>The two loops of \<open>build_enclave_cr3\<close>: over the physical pages of a region, and over the regions.\<close>

partial_function (option) merge_pas ::
  "ptr \<Rightarrow> ptr option \<Rightarrow> 'm mstate \<Rightarrow> (c_int \<times> 'm mstate) option" where
  "merge_pas encl cur s = (case cur of None \<Rightarrow> Some (OK, s)
     | Some p \<Rightarrow> (case alloc_pa s of
         (None, s) \<Rightarrow> Some (FAIL, s)
       | (Some copy, s) \<Rightarrow> do {
           x \<leftarrow> pars s p;
           s \<leftarrow> init_pa copy (p_start x) (p_end x) (p_tpe x) s;
           (rc, s) \<leftarrow> add_merge_global (Some encl) (Some copy) s;
           if rc \<noteq> 0 then Some (FAIL, s)
           else do { y \<leftarrow> pa_links s p; merge_pas encl (nxt y) s } }))"

partial_function (option) map_regions ::
  "kernel_map \<Rightarrow> ptr \<Rightarrow> ptr option \<Rightarrow> 'm mstate \<Rightarrow> (c_int \<times> 'm mstate) option" where
  "map_regions k encl cur s = (case cur of None \<Rightarrow> Some (OK, s)
     | Some rg \<Rightarrow> do {
         (rc, s) \<leftarrow> map_region k (Some rg) s;
         if rc \<noteq> 0 then Some (FAIL, s)
         else do {
           r \<leftarrow> regs s rg;
           (rc, s) \<leftarrow> merge_pas encl (head (pas r)) s;
           if rc \<noteq> 0 then Some (FAIL, s)
           else do { y \<leftarrow> reg_links s rg; map_regions k encl (nxt y) s } } })"

definition build_enclave_cr3 :: "kernel_map \<Rightarrow> ptr \<Rightarrow> 'm estate \<Rightarrow> (c_int \<times> 'm estate) option" where
  "build_enclave_cr3 k encl s = do {
     let m = estate.extend s \<lparr>minfo = \<lparr>intermed_flags = 0, mi_region = None, mi_pa_region = None, mi_enclave = Some encl\<rparr>,
                              profile_va = 0\<rparr>;
     (root, m) \<leftarrow> allocate k m;
     c \<leftarrow> encls m encl;
     let m = m\<lparr>encls := (encls m)(encl \<mapsto> c\<lparr>cr3 := root\<rparr>)\<rparr>;
     (rc, m) \<leftarrow> map_regions k encl (head (regions c)) m;
     Some (if rc \<noteq> 0 then FAIL else OK, estate.truncate m) }"

end
