(* ===== verification/Mapper_Alloc.thy ===== *)
theory Mapper_Alloc
  imports Mapper Enclave_Insert Page_Tree
begin

text \<open>
  What \<open>allocate\<close> of \<open>mapper.c\<close> does when the kernel has memory: it takes the next page, clears it, records
  it twice for the enclave (in \<open>pts\<close> and, merged, in \<open>all_pages\<close>), and touches no other struct.
\<close>

section \<open>The memory of the kernel\<close>

text \<open>\<open>virt_to_phys\<close> and \<open>phys_to_virt\<close> are the two directions of the kernel's direct map of physical
  memory, a fixed page-aligned offset.\<close>

definition direct_map :: "kernel_map \<Rightarrow> bool" where
  "direct_map k \<longleftrightarrow> (\<exists>off. 4096 dvd unat off \<and> (\<forall>p. phys_to_virt k p = p + off) \<and>
     (\<forall>v. virt_to_phys k v = v - off))"

text \<open>The pages that \<open>alloc_pages_exact\<close> will return, up to call number \<open>N\<close>: aligned, pairwise distinct, with
  physical addresses that fit into a page-table entry.\<close>

definition pool_ok :: "kernel_map \<Rightarrow> nat \<Rightarrow> ('m, 'z) estate_scheme \<Rightarrow> bool" where
  "pool_ok k N s \<longleftrightarrow>
     (\<forall>n \<ge> page_next s. n < N \<longrightarrow> (\<exists>v. page_pool s n = Some v \<and> v \<noteq> 0 \<and> v mod PT_PAGE_SIZE = 0 \<and>
        virt_to_phys k v AND PT_PHYS_PAGE_MASK = virt_to_phys k v)) \<and>
     (\<forall>n \<ge> N. page_pool s n = None) \<and>
     (\<forall>n \<ge> page_next s. \<forall>m \<ge> page_next s. \<forall>v w. page_pool s n = Some v \<longrightarrow> page_pool s m = Some w \<longrightarrow>
        virt_to_phys k v = virt_to_phys k w \<longrightarrow> n = m)"

text \<open>The structs of the enclave \<open>en\<close> that \<open>allocate\<close> works on; \<open>R\<close> are addresses of other \<open>pa_region_t\<close>
  structs, which it leaves alone, and \<open>U\<close> are addresses that are neither recorded yet nor in the pool.\<close>

definition alloc_inv :: "kernel_map \<Rightarrow> ptr \<Rightarrow> ptr set \<Rightarrow> u64 set \<Rightarrow> nat \<Rightarrow> ('m, 'z) estate_scheme \<Rightarrow> bool" where
  "alloc_inv k en R U N s \<longleftrightarrow> (\<exists>c xs ts. encls s en = Some c \<and> page_list s en xs \<and> sorted_ivls pa_ops (map snd xs) \<and>
     dll (pa_links s) (pts c) ts \<and> set ts \<subseteq> dom (pars s) \<and> set ts \<inter> set (map fst xs) = {} \<and>
     R \<inter> (set ts \<union> set (map fst xs)) = {} \<and> R \<subseteq> dom (pars s) \<and>
     heap_fresh s \<and> (\<forall>p. \<not> oom s p) \<and> pool_ok k N s \<and>
     (\<forall>n \<ge> page_next s. \<forall>v. page_pool s n = Some v \<longrightarrow> (\<forall>x \<in> set (map snd xs).
        ivl (p_start x) (p_end x) \<inter> ivl (virt_to_phys k v) (virt_to_phys k v + PT_PAGE_SIZE) = {})) \<and>
     (\<forall>x \<in> set (map snd xs). ivl (p_start x) (p_end x) \<inter> U = {}) \<and>
     (\<forall>n \<ge> page_next s. \<forall>v. page_pool s n = Some v \<longrightarrow>
        ivl (virt_to_phys k v) (virt_to_phys k v + PT_PAGE_SIZE) \<inter> U = {}))"

section \<open>Numbers of pages\<close>

lemma PT_PAGE_SIZE_value: "PT_PAGE_SIZE = 4096"
  by (simp add: pt_size_defs)

lemma PT_PHYS_PAGE_MASK_bits: "PT_PHYS_PAGE_MASK = push_bit 12 (mask 40)"
  by (simp add: pt_mask_defs pt_size_defs mask_eq_exp_minus_1)

lemma phys_page:
  assumes "r AND PT_PHYS_PAGE_MASK = r"
  shows "4096 dvd unat r" and "unat r + 4096 \<le> 2 ^ 52"
proof -
  let ?w = "take_bit 40 (drop_bit 12 r)"
  have w: "unat ?w < 2 ^ 40" unfolding unsigned_take_bit_eq by (rule take_bit_nat_less_exp)
  have "r AND push_bit 12 (mask 40) = push_bit 12 ?w" by (rule bit_word_eqI) (auto simp: bit_simps)
  then have r: "r = push_bit 12 ?w" using assms unfolding PT_PHYS_PAGE_MASK_bits by simp
  have "unat (push_bit 12 ?w) = take_bit 64 (push_bit 12 (unat ?w))"
    by (simp only: unsigned_push_bit_eq) simp
  also have "\<dots> = unat ?w * 4096" using w by (simp add: take_bit_eq_mod push_bit_eq_mult)
  finally have u: "unat r = unat ?w * 4096" using r by simp
  show "4096 dvd unat r" unfolding u by simp
  show "unat r + 4096 \<le> 2 ^ 52" unfolding u using w by simp
qed

text \<open>Two different pages share no address.\<close>

lemma phys_page_end:
  "r AND PT_PHYS_PAGE_MASK = r \<Longrightarrow> unat (r + PT_PAGE_SIZE) = unat r + 4096"
  using phys_page(2) [of r] by (simp add: PT_PAGE_SIZE_value unat_word_ariths)

lemma phys_pages_disjoint:
  assumes "r AND PT_PHYS_PAGE_MASK = r" and "q AND PT_PHYS_PAGE_MASK = q" and "r \<noteq> q"
  shows "ivl r (r + PT_PAGE_SIZE) \<inter> ivl q (q + PT_PAGE_SIZE) = {}"
proof -
  obtain a b where u: "unat r = 4096 * a" "unat q = 4096 * b"
    using phys_page(1) assms(1,2) by (meson dvdE)
  then have "a \<noteq> b" using assms(3) by (metis unsigned_word_eqI)
  then have "\<not> (4096 * a \<le> n \<and> n < 4096 * a + 4096 \<and> 4096 * b \<le> n \<and> n < 4096 * b + 4096)" for n :: nat
    by linarith
  then show ?thesis
    using phys_page_end [OF assms(1)] phys_page_end [OF assms(2)] u
    by (auto simp: word_le_nat_alt word_less_nat_alt)
qed

section \<open>allocate\<close>

lemma fill_page_twice: "fill_page p v (fill_page p w m) = fill_page p v m"
  by (auto simp: fill_page_def)

text \<open>A new struct, allocated and initialised.\<close>

lemma alloc_init_pa:
  assumes "\<not> oom s (brk s)"
  shows "alloc_pa s = (Some (brk s), snd (alloc_pa s))"
    and "p \<noteq> brk s \<Longrightarrow> pars (snd (alloc_pa s)) p = pars s p"
    and "init_pa (brk s) a b t (snd (alloc_pa s)) = Some (s\<lparr>brk := Suc (brk s),
       pars := (pars s)(brk s \<mapsto> \<lparr>p_start = a, p_end = b, p_tpe = t\<rparr>),
       pa_links := (pa_links s)(brk s \<mapsto> \<lparr>prev = None, nxt = None\<rparr>),
       glob_links := (glob_links s)(brk s \<mapsto> \<lparr>prev = None, nxt = None\<rparr>)\<rparr>)"
  using assms by (simp_all add: alloc_pa_def kmalloc_def Let_def init_pa_def dll_init_elem_def)

lemma live_new: "live h k \<Longrightarrow> live (h(p \<mapsto> x)) (k(p \<mapsto> y))"
  by (simp add: live_def)

text \<open>Writing a new struct next to the list of all pages.\<close>

lemma page_list_fresh:
  assumes "page_list s en xs" and "heap_fresh s"
  shows "page_list (s\<lparr>brk := n, pars := (pars s)(brk s \<mapsto> x), pa_links := (pa_links s)(brk s \<mapsto> y),
     glob_links := (glob_links s)(brk s \<mapsto> z)\<rparr>) en xs" and "brk s \<notin> set (map fst xs)"
proof -
  have "pars s (brk s) = None" using assms(2) by (auto simp: heap_fresh_def)
  then show n: "brk s \<notin> set (map fst xs)" using assms(1) by (force simp: page_list_def)
  have "dll ((glob_links s)(brk s \<mapsto> z)) l (map fst xs) = dll (glob_links s) l (map fst xs)" for l
    using n by (rule dll_upd)
  moreover have "\<forall>(p, v) \<in> set xs. ((pars s)(brk s \<mapsto> x)) p = Some v"
    using assms(1) n by (force simp: page_list_def)
  ultimately show "page_list (s\<lparr>brk := n, pars := (pars s)(brk s \<mapsto> x), pa_links := (pa_links s)(brk s \<mapsto> y),
     glob_links := (glob_links s)(brk s \<mapsto> z)\<rparr>) en xs"
    using assms(1) by (simp add: page_list_def live_new)
qed

text \<open>Recording a page in the list of all pages when none of its addresses is there.\<close>

lemma add_merge_global_new:
  assumes "page_list s en xs" and "sorted_ivls pa_ops (map snd xs)" and "pars s r = Some e"
    and "r \<notin> set (map fst xs)" and "p_start e < p_end e"
    and "\<forall>x \<in> set (map snd xs). ivl (p_start x) (p_end x) \<inter> ivl (p_start e) (p_end e) = {}"
  obtains s' ys n where "add_merge_global (Some en) (Some r) s = Some (OK, s')"
    and "pa_view s en (insert r (set (map fst xs))) s' ys n" and "sorted_ivls pa_ops (map snd ys)"
    and "\<And>k. covered pa_ops k (map snd ys) =
       covered pa_ops k (map snd xs) \<union> (if p_tpe e = p_tpe k then ivl (p_start e) (p_end e) else {})"
proof -
  obtain ok s' ys n where r: "pa_view s en (insert r (set (map fst xs))) s' ys n"
    "ins pa_ops [] e (map snd xs) = (ok, map snd ys)"
    "add_merge_global (Some en) (Some r) s = Some (if ok then OK else FAIL, s')"
    using add_merge_global_view [OF assms(1,3,4)] by blast
  have "ins_post pa_ops (map snd xs) e (ok, map snd ys)"
    using pa_laws.ins_correct [OF assms(2), of e] assms(5) r(2) by (simp add: absorbable_def)
  then show thesis using that [of s' ys n] r assms(6) by (auto simp: ins_post_def simp del: mem_ivl split: if_splits)
qed

text \<open>The frame of \<open>pa_view\<close>.\<close>

lemma pa_view_frame:
  assumes "pa_view s0 en Q s ys n"
  obtains c l where "encls s0 en = Some c" and "encls s = (encls s0)(en \<mapsto> c\<lparr>all_pages := l\<rparr>)"
    and "s = s0\<lparr>encls := encls s, pars := pars s, pa_links := pa_links s, glob_links := glob_links s\<rparr>"
    and "\<And>p. p \<notin> Q \<Longrightarrow> pars s p = pars s0 p" and "\<And>p. p \<notin> Q \<Longrightarrow> pa_links s p = pa_links s0 p"
    and "\<And>p. pars s0 p = None \<Longrightarrow> pars s p = None" and "set (map fst ys) \<subseteq> Q"
proof -
  obtain c l h k where c: "encls s0 en = Some c" and h: "\<forall>p. pars s0 p = None \<longrightarrow> h p = None"
    and s: "s = s0\<lparr>encls := (encls s0)(en \<mapsto> c\<lparr>all_pages := l\<rparr>), pars := h, pa_links := gate h (pa_links s0), glob_links := k\<rparr>"
    and v: "lview (pars s0) (glob_links s0) Q h k l ys n" and l: "live (pars s0) (pa_links s0)"
    using assms unfolding pa_view_def by blast
  have ag: "h p = pars s0 p" if "p \<notin> Q" for p using v that by (simp add: lview_def agree_def)
  have "gate h (pa_links s0) p = pa_links s0 p" if "p \<notin> Q" for p
  proof -
    have "pars s0 p = None \<longleftrightarrow> pa_links s0 p = None" using l by (simp add: live_def)
    then show ?thesis using ag [OF that] by (simp add: gate_def)
  qed
  then show thesis using that [OF c] s ag h lview_sub [OF v] by simp
qed

text \<open>What \<open>allocate\<close> and the other bookkeeping of pages leave alone: everything but the structs and lists
  that record the pages.\<close>

definition kept :: "ptr \<Rightarrow> ptr set \<Rightarrow> 'm mstate \<Rightarrow> 'm mstate \<Rightarrow> bool" where
  "kept en R s s' \<longleftrightarrow> page_pool s' = page_pool s \<and> minfo s' = minfo s \<and> profile_va s' = profile_va s \<and>
     regs s' = regs s \<and> reg_links s' = reg_links s \<and> (\<forall>p \<in> R. pars s' p = pars s p \<and> pa_links s' p = pa_links s p) \<and>
     (\<forall>p. p \<noteq> en \<longrightarrow> encls s' p = encls s p) \<and>
     (\<forall>c. encls s en = Some c \<longrightarrow> (\<exists>l m. encls s' en = Some (c\<lparr>pts := l, all_pages := m\<rparr>)))"

lemma same_lists:
  "\<exists>l m. c = c\<lparr>pts := l, all_pages := m\<rparr>" "\<exists>l' m. c\<lparr>pts := l\<rparr> = c\<lparr>pts := l', all_pages := m\<rparr>"
  "\<exists>l m'. c\<lparr>all_pages := m\<rparr> = c\<lparr>pts := l, all_pages := m'\<rparr>"
  by (rule exI [of _ "pts c"], rule exI [of _ "all_pages c"], simp)
     (rule exI [of _ l], rule exI [of _ "all_pages c"], simp,
      rule exI [of _ "pts c"], rule exI [of _ m], simp)

lemma kept_trans: "kept en R s t \<Longrightarrow> kept en R t u \<Longrightarrow> kept en R s u"
  unfolding kept_def by (intro conjI allI ballI impI; (elim conjE)?) (simp_all, fastforce)

lemma pts_addE:
  assumes "encls s en = Some c" and "dll (pa_links s) (pts c) ts" and "q \<notin> set ts"
    and "pa_links s q = Some \<lparr>prev = None, nxt = None\<rparr>"
  obtains l a where "pts_add en q s = Some (s\<lparr>encls := (encls s)(en \<mapsto> c\<lparr>pts := l\<rparr>), pa_links := a\<rparr>)"
    and "dll a l (ts @ [q])" and "links_frame (pa_links s) a (set (q # ts))"
  using assms(1) by (auto simp: pts_add_def intro: dll_addE [OF assms(2-4)] that)

lemma pool_okD:
  assumes "pool_ok k N s" and "page_next s \<le> n" and "n < N"
  obtains v where "page_pool s n = Some v" and "v mod PT_PAGE_SIZE = 0"
    and "virt_to_phys k v AND PT_PHYS_PAGE_MASK = virt_to_phys k v" and "v \<noteq> 0"
    and "\<And>m w. page_next s \<le> m \<Longrightarrow> page_pool s m = Some w \<Longrightarrow> virt_to_phys k v = virt_to_phys k w \<Longrightarrow> n = m"
proof -
  have 1: "\<forall>n \<ge> page_next s. n < N \<longrightarrow> (\<exists>v. page_pool s n = Some v \<and> v \<noteq> 0 \<and> v mod PT_PAGE_SIZE = 0 \<and>
      virt_to_phys k v AND PT_PHYS_PAGE_MASK = virt_to_phys k v)"
    using assms(1) unfolding pool_ok_def by (elim conjE)
  have 2: "\<forall>n \<ge> page_next s. \<forall>m \<ge> page_next s. \<forall>v w. page_pool s n = Some v \<longrightarrow> page_pool s m = Some w \<longrightarrow>
      virt_to_phys k v = virt_to_phys k w \<longrightarrow> n = m"
    using assms(1) unfolding pool_ok_def by (elim conjE)
  from 1 [rule_format, OF assms(2,3)] obtain v where v: "page_pool s n = Some v" "v mod PT_PAGE_SIZE = 0"
    "virt_to_phys k v AND PT_PHYS_PAGE_MASK = virt_to_phys k v" "v \<noteq> 0" by (elim exE conjE)
  show thesis using that [OF v] 2 [rule_format, OF assms(2) _ v(1)] by metis
qed

lemma pool_ok_limit: "pool_ok k N s \<Longrightarrow> page_pool s n = Some v \<Longrightarrow> n < N"
proof (rule ccontr)
  assume p: "pool_ok k N s" "page_pool s n = Some v" and n: "\<not> n < N"
  have "\<forall>n \<ge> N. page_pool s n = None" using p(1) unfolding pool_ok_def by (elim conjE)
  then show False using n p(2) by simp
qed

text \<open>The parts of the invariant.\<close>

lemma alloc_invE:
  assumes "alloc_inv k en R U N s"
  obtains c xs ts where "encls s en = Some c" and "page_list s en xs" and "sorted_ivls pa_ops (map snd xs)"
    and "dll (pa_links s) (pts c) ts" and "set ts \<subseteq> dom (pars s)" and "set ts \<inter> set (map fst xs) = {}"
    and "R \<inter> (set ts \<union> set (map fst xs)) = {}" and "R \<subseteq> dom (pars s)"
    and "heap_fresh s" and "\<forall>p. \<not> oom s p" and "pool_ok k N s"
    and "\<forall>n \<ge> page_next s. \<forall>v. page_pool s n = Some v \<longrightarrow> (\<forall>x \<in> set (map snd xs).
        ivl (p_start x) (p_end x) \<inter> ivl (virt_to_phys k v) (virt_to_phys k v + PT_PAGE_SIZE) = {})"
    and "\<forall>x \<in> set (map snd xs). ivl (p_start x) (p_end x) \<inter> U = {}"
    and "\<forall>n \<ge> page_next s. \<forall>v. page_pool s n = Some v \<longrightarrow>
        ivl (virt_to_phys k v) (virt_to_phys k v + PT_PAGE_SIZE) \<inter> U = {}"
  using assms unfolding alloc_inv_def by (elim exE conjE) (rule that; assumption)

text \<open>Taking the next page from the pool: its addresses are to be recorded.\<close>

lemma alloc_inv_take:
  assumes inv: "alloc_inv k en R U N s" and lim: "page_next s < N"
  obtains v where "page_pool s (page_next s) = Some v" and "v mod PT_PAGE_SIZE = 0"
    and "virt_to_phys k v AND PT_PHYS_PAGE_MASK = virt_to_phys k v"
    and "alloc_inv k en R (U \<union> ivl (virt_to_phys k v) (virt_to_phys k v + PT_PAGE_SIZE)) N
          (s\<lparr>page_next := Suc (page_next s), pt_mem := m\<rparr>)"
proof -
  let ?iv = "\<lambda>v. ivl (virt_to_phys k v) (virt_to_phys k v + PT_PAGE_SIZE)"
  let ?s = "s\<lparr>page_next := Suc (page_next s), pt_mem := m\<rparr>"
  obtain c xs ts where c: "encls s en = Some c" "page_list s en xs" "sorted_ivls pa_ops (map snd xs)"
      "dll (pa_links s) (pts c) ts" "set ts \<subseteq> dom (pars s)" "set ts \<inter> set (map fst xs) = {}"
      "R \<inter> (set ts \<union> set (map fst xs)) = {}" "R \<subseteq> dom (pars s)" "heap_fresh s" "\<forall>p. \<not> oom s p"
    and pool: "pool_ok k N s"
    and sep: "\<forall>n \<ge> page_next s. \<forall>v. page_pool s n = Some v \<longrightarrow> (\<forall>x \<in> set (map snd xs). ivl (p_start x) (p_end x) \<inter> ?iv v = {})"
    and xU: "\<forall>x \<in> set (map snd xs). ivl (p_start x) (p_end x) \<inter> U = {}"
    and vU: "\<forall>n \<ge> page_next s. \<forall>v. page_pool s n = Some v \<longrightarrow> ?iv v \<inter> U = {}"
    by (rule alloc_invE [OF inv])
  obtain v where v: "page_pool s (page_next s) = Some v" "v mod PT_PAGE_SIZE = 0"
    and ph: "virt_to_phys k v AND PT_PHYS_PAGE_MASK = virt_to_phys k v" and "v \<noteq> 0"
    and pm: "\<And>m w. page_next s \<le> m \<Longrightarrow> page_pool s m = Some w \<Longrightarrow> virt_to_phys k v = virt_to_phys k w \<Longrightarrow> page_next s = m"
    by (rule pool_okD [OF pool order_refl lim], rule that)
  have apart: "?iv u \<inter> (U \<union> ?iv v) = {}" if n: "page_next ?s \<le> n" "page_pool ?s n = Some u" for n u
  proof -
    have n': "page_next s \<le> n" "page_next s \<noteq> n" "page_pool s n = Some u" using n by auto
    obtain u' where "page_pool s n = Some u'" "virt_to_phys k u' AND PT_PHYS_PAGE_MASK = virt_to_phys k u'"
      by (rule pool_okD [OF pool n'(1) pool_ok_limit [OF pool n'(3)]])
    then have "virt_to_phys k u AND PT_PHYS_PAGE_MASK = virt_to_phys k u" using n'(3) by simp
    moreover have "virt_to_phys k v \<noteq> virt_to_phys k u" using pm [OF n'(1,3)] n'(2) by blast
    ultimately have "?iv v \<inter> ?iv u = {}" using phys_pages_disjoint [OF ph] by blast
    then show ?thesis using vU [rule_format, OF n'(1,3)] by blast
  qed
  have "alloc_inv k en R (U \<union> ?iv v) N ?s" unfolding alloc_inv_def
  proof (intro exI conjI)
    show "page_list ?s en xs" using c(2) by (simp add: page_list_def)
    show "pool_ok k N ?s" using pool by (simp add: pool_ok_def)
    show "heap_fresh ?s" using c(9) by (simp add: heap_fresh_def)
    show "\<forall>n \<ge> page_next ?s. \<forall>v. page_pool ?s n = Some v \<longrightarrow> (\<forall>x \<in> set (map snd xs). ivl (p_start x) (p_end x) \<inter> ?iv v = {})"
    proof (intro allI impI)
      fix n u assume "page_next ?s \<le> n" "page_pool ?s n = Some u"
      then have "page_next s \<le> n" "page_pool s n = Some u" by auto
      from sep [rule_format, OF this] show "\<forall>x \<in> set (map snd xs). ivl (p_start x) (p_end x) \<inter> ?iv u = {}" by blast
    qed
    show "\<forall>x \<in> set (map snd xs). ivl (p_start x) (p_end x) \<inter> (U \<union> ?iv v) = {}"
      using xU sep [rule_format, OF order_refl v(1)] by blast
    show "\<forall>n \<ge> page_next ?s. \<forall>u. page_pool ?s n = Some u \<longrightarrow> ?iv u \<inter> (U \<union> ?iv v) = {}"
      using apart by blast
  qed (use c in simp_all)
  then show thesis by (rule that [OF v ph])
qed

text \<open>A new struct at the end of \<open>pts\<close>.\<close>

lemma alloc_inv_pts:
  assumes inv: "alloc_inv k en R U N s"
  obtains sA s1 s2 where "alloc_pa s = (Some (brk s), sA)" and "init_pa (brk s) a b t sA = Some s1"
    and "pts_add en (brk s) s1 = Some s2" and "pars s2 (brk s) = Some \<lparr>p_start = a, p_end = b, p_tpe = t\<rparr>"
    and "brk s2 = Suc (brk s)"
    and "alloc_inv k en R U N s2" and "kept en R s s2" and "pt_mem s2 = pt_mem s" and "page_next s2 = page_next s"
proof -
  let ?q = "brk s" and ?x = "\<lparr>p_start = a, p_end = b, p_tpe = t\<rparr>" and ?nl = "\<lparr>prev = None, nxt = None\<rparr>"
  obtain c xs ts where c: "encls s en = Some c" and pl: "page_list s en xs" and srt: "sorted_ivls pa_ops (map snd xs)"
    and ts: "dll (pa_links s) (pts c) ts" "set ts \<subseteq> dom (pars s)" "set ts \<inter> set (map fst xs) = {}"
    and R: "R \<inter> (set ts \<union> set (map fst xs)) = {}" "R \<subseteq> dom (pars s)"
    and fr: "heap_fresh s" and mem: "\<forall>p. \<not> oom s p" and pool: "pool_ok k N s"
    and sep: "\<forall>n \<ge> page_next s. \<forall>v. page_pool s n = Some v \<longrightarrow> (\<forall>x \<in> set (map snd xs).
        ivl (p_start x) (p_end x) \<inter> ivl (virt_to_phys k v) (virt_to_phys k v + PT_PAGE_SIZE) = {})"
    and xU: "\<forall>x \<in> set (map snd xs). ivl (p_start x) (p_end x) \<inter> U = {}"
    and vU: "\<forall>n \<ge> page_next s. \<forall>v. page_pool s n = Some v \<longrightarrow>
        ivl (virt_to_phys k v) (virt_to_phys k v + PT_PAGE_SIZE) \<inter> U = {}"
    by (rule alloc_invE [OF inv])
  have q: "pars s ?q = None" using fr by (auto simp: heap_fresh_def)
  have nt: "?q \<notin> set ts" "?q \<notin> R" using q ts(2) R(2) by auto
  define s1 where "s1 = s\<lparr>brk := Suc ?q, pars := (pars s)(?q \<mapsto> ?x), pa_links := (pa_links s)(?q \<mapsto> ?nl),
                 glob_links := (glob_links s)(?q \<mapsto> ?nl)\<rparr>"
  obtain sA where sA: "alloc_pa s = (Some ?q, sA)" "init_pa ?q a b t sA = Some s1"
    using alloc_init_pa(1,3) [of s] mem by (simp add: s1_def)
  have h: "encls s1 en = Some c" "dll (pa_links s1) (pts c) ts" "pa_links s1 ?q = Some ?nl"
    using c ts(1) nt(1) by (simp_all add: s1_def)
  obtain l d where l: "pts_add en ?q s1 = Some (s1\<lparr>encls := (encls s1)(en \<mapsto> c\<lparr>pts := l\<rparr>), pa_links := d\<rparr>)"
    "dll d l (ts @ [?q])" "links_frame (pa_links s1) d (set (?q # ts))"
    by (rule pts_addE [OF h(1,2) nt(1) h(3)])
  define s2 where "s2 = s1\<lparr>encls := (encls s1)(en \<mapsto> c\<lparr>pts := l\<rparr>), pa_links := d\<rparr>"
  have pl1: "page_list s1 en xs" and nq: "?q \<notin> set (map fst xs)"
    using page_list_fresh(1) [OF pl fr, where n = "Suc ?q" and x = ?x and y = ?nl and z = ?nl]
      page_list_fresh(2) [OF pl fr] by (simp_all add: s1_def)
  have fld: "page_next s2 = page_next s" "page_pool s2 = page_pool s" "pars s2 = (pars s)(?q \<mapsto> ?x)" "oom s2 = oom s"
    "brk s2 = Suc ?q" "pt_mem s2 = pt_mem s"
    by (simp_all add: s2_def s1_def)
  have Rp: "pars s2 p = pars s p \<and> pa_links s2 p = pa_links s p" if p: "p \<in> R" for p
  proof -
    have n: "p \<noteq> ?q" "p \<notin> set (?q # ts)" using p R(1) nt by auto
    then show ?thesis using links_frame_apply [OF l(3) n(2)] by (simp add: s2_def s1_def)
  qed
  have "alloc_inv k en R U N s2" unfolding alloc_inv_def
  proof (intro exI conjI)
    show "encls s2 en = Some (c\<lparr>pts := l\<rparr>)" by (simp add: s2_def)
    show "page_list s2 en xs"
      using pl1 c live_links [OF _ l(3), of "pars s1"] by (simp add: page_list_def s2_def s1_def)
    show "dll (pa_links s2) (pts (c\<lparr>pts := l\<rparr>)) (ts @ [?q])" using l(2) by (simp add: s2_def)
    show "set (ts @ [?q]) \<subseteq> dom (pars s2)" using ts(2) by (auto simp: fld)
    show "set (ts @ [?q]) \<inter> set (map fst xs) = {}" using ts(3) nq by simp
    show "R \<inter> (set (ts @ [?q]) \<union> set (map fst xs)) = {}" using R(1) nt(2) by auto
    show "R \<subseteq> dom (pars s2)" using R(2) by (auto simp: fld)
    show "heap_fresh s2" using fr c by (simp add: heap_fresh_def s2_def s1_def) (metis less_Suc_eq)
    show "pool_ok k N s2" using pool by (simp add: pool_ok_def fld)
  qed (use srt mem sep xU vU in \<open>simp_all add: fld\<close>)
  moreover have "kept en R s s2"
    using Rp c unfolding kept_def by (auto simp: s2_def s1_def same_lists)
  ultimately show thesis using that [OF sA l(1) [folded s2_def]] by (simp add: fld)
qed

text \<open>A new struct recorded in \<open>all_pages\<close>, for addresses that are still to be recorded.\<close>

lemma alloc_inv_record:
  assumes inv: "alloc_inv k en R U N s" and ab: "a < b" "ivl a b \<subseteq> U"
  obtains sA s1 s2 where "alloc_pa s = (Some (brk s), sA)" and "\<And>p. p \<noteq> brk s \<Longrightarrow> pars sA p = pars s p"
    and "init_pa (brk s) a b t sA = Some s1" and "add_merge_global (Some en) (Some (brk s)) s1 = Some (OK, s2)"
    and "alloc_inv k en R (U - ivl a b) N s2" and "kept en R s s2" and "pt_mem s2 = pt_mem s" and "page_next s2 = page_next s"
proof -
  let ?q = "brk s" and ?x = "\<lparr>p_start = a, p_end = b, p_tpe = t\<rparr>" and ?nl = "\<lparr>prev = None, nxt = None\<rparr>"
  obtain c xs ts where c: "encls s en = Some c" and pl: "page_list s en xs" and srt: "sorted_ivls pa_ops (map snd xs)"
    and ts: "dll (pa_links s) (pts c) ts" "set ts \<subseteq> dom (pars s)" "set ts \<inter> set (map fst xs) = {}"
    and R: "R \<inter> (set ts \<union> set (map fst xs)) = {}" "R \<subseteq> dom (pars s)"
    and fr: "heap_fresh s" and mem: "\<forall>p. \<not> oom s p" and pool: "pool_ok k N s"
    and sep: "\<forall>n \<ge> page_next s. \<forall>v. page_pool s n = Some v \<longrightarrow> (\<forall>x \<in> set (map snd xs).
        ivl (p_start x) (p_end x) \<inter> ivl (virt_to_phys k v) (virt_to_phys k v + PT_PAGE_SIZE) = {})"
    and xU: "\<forall>x \<in> set (map snd xs). ivl (p_start x) (p_end x) \<inter> U = {}"
    and vU: "\<forall>n \<ge> page_next s. \<forall>v. page_pool s n = Some v \<longrightarrow>
        ivl (virt_to_phys k v) (virt_to_phys k v + PT_PAGE_SIZE) \<inter> U = {}"
    by (rule alloc_invE [OF inv])
  have q: "pars s ?q = None" using fr by (auto simp: heap_fresh_def)
  have nt: "?q \<notin> set ts" "?q \<notin> R" using q ts(2) R(2) by auto
  define s1 where "s1 = s\<lparr>brk := Suc ?q, pars := (pars s)(?q \<mapsto> ?x), pa_links := (pa_links s)(?q \<mapsto> ?nl),
                 glob_links := (glob_links s)(?q \<mapsto> ?nl)\<rparr>"
  obtain sA where sA: "alloc_pa s = (Some ?q, sA)" "\<And>p. p \<noteq> ?q \<Longrightarrow> pars sA p = pars s p" "init_pa ?q a b t sA = Some s1"
    using alloc_init_pa [of s] mem by (simp add: s1_def)
  have pl1: "page_list s1 en xs" and nq: "?q \<notin> set (map fst xs)"
    using page_list_fresh(1) [OF pl fr, where n = "Suc ?q" and x = ?x and y = ?nl and z = ?nl]
      page_list_fresh(2) [OF pl fr] by (simp_all add: s1_def)
  have h: "pars s1 ?q = Some ?x" "p_start ?x < p_end ?x"
    "\<forall>x \<in> set (map snd xs). ivl (p_start x) (p_end x) \<inter> ivl (p_start ?x) (p_end ?x) = {}"
    using ab xU by (simp_all add: s1_def del: mem_ivl) blast
  obtain s4 ys n where s4: "add_merge_global (Some en) (Some ?q) s1 = Some (OK, s4)"
    and w: "pa_view s1 en (insert ?q (set (map fst xs))) s4 ys n" and srt4: "sorted_ivls pa_ops (map snd ys)"
    and cov: "\<And>j. covered pa_ops j (map snd ys) =
      covered pa_ops j (map snd xs) \<union> (if p_tpe ?x = p_tpe j then ivl (p_start ?x) (p_end ?x) else {})"
    by (rule add_merge_global_new [OF pl1 srt h(1) nq h(2,3)], rule that)
  obtain c3 m where c3: "encls s1 en = Some c3" and e4: "encls s4 = (encls s1)(en \<mapsto> c3\<lparr>all_pages := m\<rparr>)"
    and s4eq: "s4 = s1\<lparr>encls := encls s4, pars := pars s4, pa_links := pa_links s4, glob_links := glob_links s4\<rparr>"
    and pa: "\<And>p. p \<notin> insert ?q (set (map fst xs)) \<Longrightarrow> pars s4 p = pars s1 p"
      "\<And>p. p \<notin> insert ?q (set (map fst xs)) \<Longrightarrow> pa_links s4 p = pa_links s1 p"
      "\<And>p. pars s1 p = None \<Longrightarrow> pars s4 p = None"
    and ys: "set (map fst ys) \<subseteq> insert ?q (set (map fst xs))"
    by (rule pa_view_frame [OF w], rule that)
  have e4': "encls s4 = (encls s)(en \<mapsto> c\<lparr>all_pages := m\<rparr>)" using e4 c3 c by (simp add: s1_def)
  have fld: "pt_mem s4 = pt_mem s" "page_next s4 = page_next s" "page_pool s4 = page_pool s"
    "minfo s4 = minfo s" "profile_va s4 = profile_va s" "regs s4 = regs s" "reg_links s4 = reg_links s"
    "oom s4 = oom s" "brk s4 = Suc ?q"
    by (subst s4eq, simp add: s1_def)+
  have other: "pars s4 p = pars s p \<and> pa_links s4 p = pa_links s p"
    if p: "p \<notin> set (map fst xs)" "p \<noteq> ?q" for p
  proof -
    have n: "p \<notin> insert ?q (set (map fst xs))" using p by simp
    show ?thesis using pa(1,2) [OF n] p(2) by (simp add: s1_def)
  qed
  have inside: "ivl (p_start x) (p_end x) \<subseteq> (\<Union>z \<in> set (map snd xs). ivl (p_start z) (p_end z)) \<union> ivl a b"
    if x: "x \<in> set (map snd ys)" for x
  proof -
    have "ivl (p_start x) (p_end x) \<subseteq> covered pa_ops x (map snd ys)"
      using x by (auto simp: covered_def simp del: mem_ivl)
    also have "\<dots> \<subseteq> (\<Union>z \<in> set (map snd xs). ivl (p_start z) (p_end z)) \<union> ivl a b"
      unfolding cov by (auto simp: covered_def simp del: mem_ivl)
    finally show ?thesis .
  qed
  have "alloc_inv k en R (U - ivl a b) N s4" unfolding alloc_inv_def
  proof (intro exI conjI)
    show "encls s4 en = Some (c\<lparr>all_pages := m\<rparr>)" using e4' by simp
    show "page_list s4 en ys" by (rule pa_view_list [OF w])
    show "dll (pa_links s4) (pts (c\<lparr>all_pages := m\<rparr>)) ts"
    proof -
      have "dll (pa_links s4) (pts c) ts"
        by (rule dll_frame [OF ts(1)]) (use other ts(3) nt(1) in blast)
      then show ?thesis by simp
    qed
    show "set ts \<subseteq> dom (pars s4)"
    proof
      fix p assume p: "p \<in> set ts"
      then have "pars s4 p = pars s p" using other ts(3) nt(1) by blast
      then show "p \<in> dom (pars s4)" using p ts(2) by (auto simp: dom_def)
    qed
    show "set ts \<inter> set (map fst ys) = {}" using ys ts(3) nt(1) by blast
    show "R \<inter> (set ts \<union> set (map fst ys)) = {}" using ys R(1) nt(2) by blast
    show "R \<subseteq> dom (pars s4)"
    proof
      fix p assume p: "p \<in> R"
      then have "pars s4 p = pars s p" using other R(1) nt(2) by blast
      then show "p \<in> dom (pars s4)" using p R(2) by (auto simp: dom_def)
    qed
    show "heap_fresh s4"
    proof -
      have "pars s4 p \<noteq> None \<Longrightarrow> p < brk s4" for p
        using pa(3) [of p] fr fld(9) by (fastforce simp: heap_fresh_def s1_def split: if_splits)
      then show ?thesis using fr fld(6,9) e4' c unfolding heap_fresh_def by (fastforce split: if_splits)
    qed
    show "pool_ok k N s4" using pool by (simp add: pool_ok_def fld)
    show "\<forall>n \<ge> page_next s4. \<forall>v. page_pool s4 n = Some v \<longrightarrow> (\<forall>x \<in> set (map snd ys).
        ivl (p_start x) (p_end x) \<inter> ivl (virt_to_phys k v) (virt_to_phys k v + PT_PAGE_SIZE) = {})"
    proof (intro allI impI ballI)
      fix n v x assume n: "page_next s4 \<le> n" "page_pool s4 n = Some v" and x: "x \<in> set (map snd ys)"
      then have n': "page_next s \<le> n" "page_pool s n = Some v" by (simp_all add: fld)
      show "ivl (p_start x) (p_end x) \<inter> ivl (virt_to_phys k v) (virt_to_phys k v + PT_PAGE_SIZE) = {}"
        using inside [OF x] sep [rule_format, OF n'] vU [rule_format, OF n'] ab(2) by blast
    qed
    show "\<forall>x \<in> set (map snd ys). ivl (p_start x) (p_end x) \<inter> (U - ivl a b) = {}"
    proof
      fix x assume x: "x \<in> set (map snd ys)"
      show "ivl (p_start x) (p_end x) \<inter> (U - ivl a b) = {}" using inside [OF x] xU by blast
    qed
    show "\<forall>n \<ge> page_next s4. \<forall>v. page_pool s4 n = Some v \<longrightarrow>
        ivl (virt_to_phys k v) (virt_to_phys k v + PT_PAGE_SIZE) \<inter> (U - ivl a b) = {}"
      unfolding fld(2,3) using vU by blast
  qed (use srt4 mem in \<open>simp_all add: fld\<close>)
  moreover have "kept en R s s4"
  proof -
    have "\<forall>p \<in> R. pars s4 p = pars s p \<and> pa_links s4 p = pa_links s p" using other R(1) nt(2) by blast
    then show ?thesis using fld e4' c unfolding kept_def by (auto simp: same_lists)
  qed
  ultimately show thesis using that [OF sA s4] fld(1,2) by blast
qed

text \<open>\<open>allocate\<close>: the frame of a call that got the page \<open>v\<close>, and the call itself.\<close>

definition alloc_frame :: "ptr \<Rightarrow> ptr set \<Rightarrow> u64 \<Rightarrow> 'm mstate \<Rightarrow> 'm mstate \<Rightarrow> bool" where
  "alloc_frame en R v s s' \<longleftrightarrow> kept en R s s' \<and> pt_mem s' = fill_page v (Some 0) (pt_mem s) \<and>
     page_next s' = Suc (page_next s)"

lemma alloc_inv_less: "alloc_inv k en R U N s \<Longrightarrow> V \<subseteq> U \<Longrightarrow> alloc_inv k en R V N s"
proof -
  assume inv: "alloc_inv k en R U N s" and V: "V \<subseteq> U"
  show "alloc_inv k en R V N s"
    by (rule alloc_invE [OF inv], unfold alloc_inv_def, intro exI conjI, assumption+) (use V in blast)+
qed

lemma allocate_ok:
  assumes inv: "alloc_inv k en R U N s" and lim: "page_next s < N" and en: "mi_enclave (minfo s) = Some en"
  obtains v s' where "page_pool s (page_next s) = Some v" and "allocate k s = Some (virt_to_phys k v, s')"
    and "alloc_inv k en R U N s'" and "alloc_frame en R v s s'"
proof -
  obtain v where v: "page_pool s (page_next s) = Some v" "v mod PT_PAGE_SIZE = 0"
    and ph: "virt_to_phys k v AND PT_PHYS_PAGE_MASK = virt_to_phys k v" by (rule alloc_inv_take [OF inv lim])
  let ?pg = "virt_to_phys k v" and ?q = "brk s"
  let ?s = "s\<lparr>page_next := Suc (page_next s), pt_mem := fill_page v (Some 0) (pt_mem s)\<rparr>"
  let ?V = "U \<union> ivl ?pg (?pg + PT_PAGE_SIZE)"
  obtain v' where "page_pool s (page_next s) = Some v'"
    and "alloc_inv k en R (U \<union> ivl (virt_to_phys k v') (virt_to_phys k v' + PT_PAGE_SIZE)) N ?s"
    by (rule alloc_inv_take [OF inv lim, where m = "fill_page v (Some 0) (pt_mem s)"])
  then have i0: "alloc_inv k en R ?V N ?s" using v(1) by simp
  have al: "alloc_pages_exact s = (Some v, s\<lparr>page_next := Suc (page_next s), pt_mem := fill_page v (Some (junk s)) (pt_mem s)\<rparr>)"
    using v(1) by (simp add: alloc_pages_exact_def)
  obtain sA s1 s2 where s2: "alloc_pa ?s = (Some (brk ?s), sA)" "init_pa (brk ?s) ?pg (?pg + PT_PAGE_SIZE) PtEntry sA = Some s1"
    "pts_add en (brk ?s) s1 = Some s2" "pars s2 (brk ?s) = Some \<lparr>p_start = ?pg, p_end = ?pg + PT_PAGE_SIZE, p_tpe = PtEntry\<rparr>"
    "brk s2 = Suc (brk ?s)"
    and i2: "alloc_inv k en R ?V N s2" and k2: "kept en R ?s s2" "pt_mem s2 = pt_mem ?s" "page_next s2 = page_next ?s"
    by (rule alloc_inv_pts [OF i0, where a = ?pg and b = "?pg + PT_PAGE_SIZE" and t = PtEntry], rule that)
  have lt: "?pg < ?pg + PT_PAGE_SIZE" using phys_page_end [OF ph] by (simp add: word_less_nat_alt)
  obtain sB s3 s4 where s4: "alloc_pa s2 = (Some (brk s2), sB)" "\<And>p. p \<noteq> brk s2 \<Longrightarrow> pars sB p = pars s2 p"
    "init_pa (brk s2) ?pg (?pg + PT_PAGE_SIZE) PtEntry sB = Some s3"
    "add_merge_global (Some en) (Some (brk s2)) s3 = Some (OK, s4)"
    and i4: "alloc_inv k en R (?V - ivl ?pg (?pg + PT_PAGE_SIZE)) N s4" and k4: "kept en R s2 s4" "pt_mem s4 = pt_mem s2"
      "page_next s4 = page_next s2"
    by (rule alloc_inv_record [OF i2 lt Un_upper2, where t = PtEntry], rule that)
  have "allocate k s = Some (?pg, s4)"
    using v(2) s2 s4 en al by (simp add: allocate_def Let_def fill_page_twice)
  moreover have "alloc_inv k en R U N s4"
  proof -
    have "U \<inter> ivl ?pg (?pg + PT_PAGE_SIZE) = {}"
      using inv v(1) by (rule_tac alloc_invE [OF inv]) (use v(1) in blast)
    then have "U \<subseteq> ?V - ivl ?pg (?pg + PT_PAGE_SIZE)" by blast
    then show ?thesis by (rule alloc_inv_less [OF i4])
  qed
  moreover have "alloc_frame en R v s s4"
  proof -
    have "kept en R s ?s" by (auto simp: kept_def same_lists)
    then show ?thesis using kept_trans [OF _ kept_trans [OF k2(1) k4(1)]] k2(2,3) k4(2,3) by (simp add: alloc_frame_def)
  qed
  ultimately show thesis by (rule that [OF v(1)])
qed

end
