(* ===== verification/Mapper_Map.thy ===== *)
theory Mapper_Map
  imports Mapper_Alloc
begin

text \<open>
  The mapper as a client of the page-table walker: \<open>map_region\<close> writes one leaf per page of the region,
  in the order of the region's physical pages, allocates the tables it needs, and changes no other
  translation.
\<close>

section \<open>Reading tables through the direct map\<close>

definition entries :: "kernel_map \<Rightarrow> (u64 \<rightharpoonup> u64) \<Rightarrow> reader" where
  "entries k m = (\<lambda>r i. m (pt_slot (phys_to_virt k r) i))"

abbreviation canonical :: "entry_t \<Rightarrow> bool" where
  "canonical r \<equiv> r AND PT_PHYS_PAGE_MASK = r"

lemma slot_offset:
  assumes "canonical r" and "i < 512"
  shows "unat (r + 8 * of_nat i) = unat r + 8 * i"
proof -
  have "unat r + 8 * i < 2 ^ 64" using phys_page(2) [OF assms(1)] assms(2) by simp
  moreover have "unat (8 * of_nat i :: u64) = 8 * i"
    using assms(2) by (simp add: unat_word_ariths unsigned_of_nat take_bit_eq_mod)
  ultimately show ?thesis by (simp add: unat_word_ariths)
qed

lemma slot_inj:
  assumes "direct_map k" and r: "canonical r" "canonical q" and i: "i < 512" "j < 512"
    and eq: "pt_slot (phys_to_virt k r) i = pt_slot (phys_to_virt k q) j"
  shows "r = q \<and> i = j"
proof -
  have "r + 8 * of_nat i = q + 8 * of_nat j"
    using assms(1) eq by (auto simp: direct_map_def pt_slot_def algebra_simps)
  then have u: "unat r + 8 * i = unat q + 8 * j" using slot_offset [OF r(1) i(1)] slot_offset [OF r(2) i(2)] by metis
  obtain a b where ab: "unat r = 4096 * a" "unat q = 4096 * b" using phys_page(1) r by (meson dvdE)
  have "a = b" using u i unfolding ab by linarith
  moreover have "i = j" using u ab \<open>a = b\<close> by simp
  ultimately show ?thesis using ab by (metis unsigned_word_eqI)
qed

lemma slot_in_page:
  assumes "direct_map k" and r: "canonical r" "canonical (virt_to_phys k v)" and i: "i < 512"
  shows "pt_slot (phys_to_virt k r) i - v < PT_PAGE_SIZE \<longleftrightarrow> r = virt_to_phys k v"
proof -
  let ?n = "virt_to_phys k v"
  have d: "pt_slot (phys_to_virt k r) i - v = r + 8 * of_nat i - ?n"
    using assms(1) by (auto simp: direct_map_def pt_slot_def algebra_simps)
  have u: "unat (r + 8 * of_nat i) = unat r + 8 * i" by (rule slot_offset [OF r(1) i])
  obtain a b where ab: "unat r = 4096 * a" "unat ?n = 4096 * b" using phys_page(1) r by (meson dvdE)
  have big: "unat r + 4096 \<le> 2 ^ 52" "unat ?n + 4096 \<le> 2 ^ 52" using phys_page(2) r by auto
  show ?thesis
  proof (cases "?n \<le> r + 8 * of_nat i")
    case True
    then have "unat (r + 8 * of_nat i - ?n) = unat r + 8 * i - unat ?n" using u by (simp add: unat_sub)
    moreover have "unat ?n \<le> unat r + 8 * i" using True u by (simp add: word_le_nat_alt)
    ultimately have "pt_slot (phys_to_virt k r) i - v < PT_PAGE_SIZE \<longleftrightarrow> 4096 * a + 8 * i - 4096 * b < 4096"
        "4096 * b \<le> 4096 * a + 8 * i"
      unfolding d using ab by (simp_all add: word_less_nat_alt PT_PAGE_SIZE_value)
    moreover have "4096 * b \<le> 4096 * a + 8 * i \<Longrightarrow> 4096 * a + 8 * i - 4096 * b < 4096 \<longleftrightarrow> a = b"
      using i by linarith
    moreover have "a = b \<longleftrightarrow> r = ?n" using ab by (metis mult_cancel1 unsigned_word_eqI zero_neq_numeral)
    ultimately show ?thesis by blast
  next
    case False
    then have lt: "unat r + 8 * i < unat ?n" using u by (simp add: word_le_nat_alt)
    have "unat (r + 8 * of_nat i - ?n) = 2 ^ 64 + (unat r + 8 * i) - unat ?n"
      using lt u by (simp add: unat_sub_if')
    then have "\<not> r + 8 * of_nat i - ?n < PT_PAGE_SIZE"
      using big lt by (simp add: word_less_nat_alt PT_PAGE_SIZE_value)
    moreover have "r \<noteq> ?n" using lt by auto
    ultimately show ?thesis unfolding d by simp
  qed
qed

lemma entries_fill:
  assumes "direct_map k" and "canonical (virt_to_phys k v)" and "canonical x" and "j < 512"
  shows "entries k (fill_page v (Some 0) m) x j = (if x = virt_to_phys k v then Some 0 else entries k m x j)"
  using slot_in_page [OF assms(1,3,2,4)] by (simp add: entries_def fill_page_def)

lemma entries_store:
  assumes "direct_map k" and "canonical r" and "i < 512" and "canonical x" and "j < 512"
  shows "entries k (m(pt_slot (phys_to_virt k r) i \<mapsto> e)) x j =
    (if (x, j) = (r, i) then Some e else entries k m x j)"
  using slot_inj [OF assms(1,4,2,5,3)] by (auto simp: entries_def)

section \<open>The callbacks\<close>

lemma mapper_geometry: "x86_geometry (mapper_profile k)"
  using profile_geometry [of mapper_memory] by (simp add: x86_geometry_def mapper_profile_def)

lemma mapper_lists:
  assumes "l < 4"
  shows "at_level (mappers (mapper_profile k)) l = Some (Some (default_mapper k))"
    and "at_level (visitors (mapper_profile k)) l = Some None"
proof -
  have "unat PT_PTE = 0" "unat PT_PMD = 1" "unat PT_PGD = 2" "unat PT_PML4 = 3" by (simp_all add: pt_level_defs)
  then have m: "mappers (mapper_profile k) = [Some (default_mapper k), Some (default_mapper k), Some (default_mapper k),
      Some (default_mapper k), None]"
    unfolding mapper_profile_def by (simp add: MAX_LEVEL_def eval_nat_numeral)
  have v: "visitors (mapper_profile k) = [None, None, None, None, None]"
    by (simp add: mapper_profile_def x86_64_profile_def MAX_LEVEL_def eval_nat_numeral)
  show "at_level (mappers (mapper_profile k)) l = Some (Some (default_mapper k))"
    by (rule level_cases [OF assms]) (simp_all add: at_level_def m)
  show "at_level (visitors (mapper_profile k)) l = Some None"
    by (rule level_cases [OF assms]) (simp_all add: at_level_def v)
qed

lemma mapper_hooks:
  "how (mapper_profile k) = Some (x86_64_how_map mapper_memory)" "pa_to_va_fn (mapper_profile k) = Some (pa_to_va k)"
  "next_level (mapper_profile k) = Some x86_64_next"
  by (simp_all add: mapper_profile_def x86_64_profile_def)

lemma mapper_memory_simps [simp]:
  "load mapper_memory a s = pt_mem s a" "set_curr_va mapper_memory a s = s\<lparr>profile_va := a\<rparr>"
  by (simp_all add: mapper_memory_def)

text \<open>What the walker does with one entry under this profile.\<close>

lemma mapper_action:
  assumes "l < 4" and "pt_mem s a = Some e"
  shows "entry_action (mapper_profile k) a l s = (if present e then Some (WALK, s)
    else do { (x, s) \<leftarrow> default_mapper k a l s; case x of WALK \<Rightarrow> Some (WALK, s)
         | VISIT \<Rightarrow> Some (WALK, s) | SKIP \<Rightarrow> Some (SKIP, s) | ERROR \<Rightarrow> Some (ERROR, s) | MAP \<Rightarrow> None })"
  using assms(2)
  by (auto simp: mapper_lists [OF assms(1)] entry_action_def mapper_hooks x86_64_how_map_def do_map_def do_visit_def
      cong: option.case_cong callback_action_t.case_cong)

section \<open>The invariant of the mapper\<close>

text \<open>The tables that are still missing for the page numbers \<open>P\<close>: their positions are the prefixes of \<open>P\<close>.\<close>

definition missing :: "reader \<Rightarrow> entry_t \<Rightarrow> nat set \<Rightarrow> (nat \<times> nat) set" where
  "missing rd root P = {(d, q). d \<in> {1, 2, 3} \<and> q \<in> (\<lambda>u. u div 512 ^ (4 - d)) ` P \<and> table rd root d q = None}"

lemma missing_finite: "finite P \<Longrightarrow> finite (missing rd root P)"
  by (rule finite_subset [of _ "(\<Union>d \<in> {1, 2, 3}. {d} \<times> (\<lambda>u. u div 512 ^ (4 - d)) ` P)"]) (auto simp: missing_def)

lemma missing_cong:
  "(\<And>d q. d \<le> 3 \<Longrightarrow> table rd' root d q = table rd root d q) \<Longrightarrow> missing rd' root P = missing rd root P"
  by (auto simp: missing_def)

text \<open>The page tables of the enclave are a tree rooted at its \<open>cr3\<close>, none of whose pages is still in the
  pool, \<open>allocate\<close> can run, and the pool has a page for every table that is missing for \<open>P\<close>.\<close>

definition mapper_inv :: "kernel_map \<Rightarrow> ptr \<Rightarrow> entry_t \<Rightarrow> ptr set \<Rightarrow> u64 set \<Rightarrow> nat set \<Rightarrow> nat \<Rightarrow> 'm mstate \<Rightarrow> bool" where
  "mapper_inv k en root R U P N s \<longleftrightarrow> direct_map k \<and> alloc_inv k en R U N s \<and> mi_enclave (minfo s) = Some en \<and>
     (\<exists>c. encls s en = Some c \<and> cr3 c = root) \<and> tree (entries k (pt_mem s)) root \<and>
     (\<forall>d p r. d \<le> 3 \<longrightarrow> table (entries k (pt_mem s)) root d p = Some r \<longrightarrow> phys_to_virt k r \<noteq> 0 \<and>
        (\<forall>n \<ge> page_next s. \<forall>v. page_pool s n = Some v \<longrightarrow> r \<noteq> virt_to_phys k v)) \<and>
     finite P \<and> page_next s + card (missing (entries k (pt_mem s)) root P) \<le> N"

lemma mapper_invD:
  assumes "mapper_inv k en root R U P N s"
  shows "direct_map k" "alloc_inv k en R U N s" "mi_enclave (minfo s) = Some en" "tree (entries k (pt_mem s)) root"
    and "\<exists>c. encls s en = Some c \<and> cr3 c = root"
    and "d \<le> 3 \<Longrightarrow> table (entries k (pt_mem s)) root d p = Some r \<Longrightarrow> phys_to_virt k r \<noteq> 0"
    and "d \<le> 3 \<Longrightarrow> table (entries k (pt_mem s)) root d p = Some r \<Longrightarrow> page_next s \<le> n \<Longrightarrow> page_pool s n = Some v \<Longrightarrow>
      r \<noteq> virt_to_phys k v"
    and "finite P" "page_next s + card (missing (entries k (pt_mem s)) root P) \<le> N"
  using assms by (auto simp: mapper_inv_def)

lemma alloc_inv_mem [simp]:
  "alloc_inv k en R U N (s\<lparr>pt_mem := m\<rparr>) = alloc_inv k en R U N s"
  by (simp add: alloc_inv_def page_list_def heap_fresh_def pool_ok_def)

lemma alloc_inv_local [simp]:
  "alloc_inv k en R U N (s\<lparr>minfo := i\<rparr>) = alloc_inv k en R U N s" "alloc_inv k en R U N (s\<lparr>profile_va := a\<rparr>) = alloc_inv k en R U N s"
  by (simp_all add: alloc_inv_def page_list_def heap_fresh_def pool_ok_def)

lemma mapper_inv_va [simp]: "mapper_inv k en root R U P N (s\<lparr>profile_va := a\<rparr>) = mapper_inv k en root R U P N s"
  by (simp add: mapper_inv_def)

lemma mapper_inv_info: "mi_enclave i = mi_enclave (minfo s) \<Longrightarrow> mapper_inv k en root R U P N (s\<lparr>minfo := i\<rparr>) = mapper_inv k en root R U P N s"
  by (simp add: mapper_inv_def)

text \<open>What the mapper leaves alone.\<close>

definition map_frame :: "ptr set \<Rightarrow> 'm mstate \<Rightarrow> 'm mstate \<Rightarrow> bool" where
  "map_frame R s s' \<longleftrightarrow> regs s' = regs s \<and> reg_links s' = reg_links s \<and>
     (\<forall>p \<in> R. pars s' p = pars s p \<and> pa_links s' p = pa_links s p)"

lemma map_frame_refl [simp]: "map_frame R s s"
  by (simp add: map_frame_def)

lemma map_frame_trans: "map_frame R s t \<Longrightarrow> map_frame R t u \<Longrightarrow> map_frame R s u"
  by (simp add: map_frame_def)

lemma slot_nonzero:
  assumes "direct_map k" and "canonical r" and "i < 512" and "phys_to_virt k r \<noteq> 0"
  shows "pt_slot (phys_to_virt k r) i \<noteq> 0"
proof
  assume z: "pt_slot (phys_to_virt k r) i = 0"
  obtain off where off: "4096 dvd unat off" "\<And>p. phys_to_virt k p = p + off"
    using assms(1) by (auto simp: direct_map_def)
  have "4096 dvd unat (phys_to_virt k r)"
  proof -
    have "unat (phys_to_virt k r) = (unat r + unat off) mod 2 ^ 64" by (simp add: off(2) unat_word_ariths)
    moreover have "(4096 :: nat) dvd 2 ^ 64" by simp
    moreover have "4096 dvd unat r + unat off" using phys_page(1) [OF assms(2)] off(1) by simp
    ultimately show ?thesis by (metis dvd_mod)
  qed
  then obtain a where a: "unat (phys_to_virt k r) = 4096 * a" by (rule dvdE)
  have "a < 2 ^ 52" using unat_u64 [of "phys_to_virt k r"] a by simp
  then have "unat (phys_to_virt k r) + 8 * i < 2 ^ 64" using a assms(3) by simp
  moreover have "unat (8 * of_nat i :: u64) = 8 * i"
    using assms(3) by (simp add: unat_word_ariths unsigned_of_nat take_bit_eq_mod)
  ultimately have "unat (pt_slot (phys_to_virt k r) i) = unat (phys_to_virt k r) + 8 * i"
    by (simp add: pt_slot_def unat_word_ariths)
  then have "unat (phys_to_virt k r) = 0" using z by simp
  then show False using assms(4) by (simp add: unat_eq_0)
qed

definition table_flags :: entry_t where
  "table_flags = PT_PAGE_PRESENT OR PT_PAGE_RW OR PT_PAGE_ACCESSED OR PT_PAGE_USER OR PT_PAGE_DIRTY"

lemma table_entry:
  assumes "canonical n"
  shows "present (n OR table_flags)" and "x86_64_next (n OR table_flags) l = n"
proof -
  have f: "table_flags = 0x67" by (simp add: table_flags_def pt_flag_defs)
  have "(n OR table_flags) AND PT_PAGE_PRESENT = (n AND PT_PAGE_PRESENT) OR (table_flags AND PT_PAGE_PRESENT)"
    by (rule bit_word_eqI) (auto simp: bit_simps)
  also have "table_flags AND PT_PAGE_PRESENT = PT_PAGE_PRESENT" by (simp add: f pt_flag_defs)
  also have "(n AND PT_PAGE_PRESENT) OR PT_PAGE_PRESENT = PT_PAGE_PRESENT"
    by (rule bit_word_eqI) (auto simp: bit_simps)
  finally show "present (n OR table_flags)" .
  have "(n OR table_flags) AND PT_PHYS_PAGE_MASK = (n AND PT_PHYS_PAGE_MASK) OR (table_flags AND PT_PHYS_PAGE_MASK)"
    by (rule bit_word_eqI) (auto simp: bit_simps)
  moreover
  have "table_flags AND PT_PHYS_PAGE_MASK = 0" by (simp add: f PT_PHYS_PAGE_MASK_bits mask_eq_exp_minus_1)
  ultimately show "x86_64_next (n OR table_flags) l = n" using assms by (simp add: x86_64_next_def)
qed

text \<open>Label \<open>normal_page\<close>: a new table behind an absent entry.\<close>

lemma normal_page_ok:
  assumes inv: "mapper_inv k en root R U P N s" and fl: "intermed_flags (minfo s) = table_flags"
    and r: "table (entries k (pt_mem s)) root d p = Some r" and d: "d < 3" and i: "i < 512"
    and e0: "entries k (pt_mem s) r i = Some e0" "\<not> present e0" and u: "u \<in> P" "p * 512 + i = u div 512 ^ (3 - d)"
  obtains n s' where "normal_page k (pt_slot (phys_to_virt k r) i) lvl s = Some (WALK, s')"
    and "mapper_inv k en root R U P N s'" and "map_frame R s s'" and "minfo s' = minfo s"
    and "\<And>d' q. d' \<le> 3 \<Longrightarrow> table (entries k (pt_mem s')) root d' q =
        (if d' = Suc d \<and> q = p * 512 + i then Some n else table (entries k (pt_mem s)) root d' q)"
    and "pte (entries k (pt_mem s')) root = pte (entries k (pt_mem s)) root"
    and "entries k (pt_mem s') r i = Some (n OR table_flags)" and "canonical n"
proof -
  note I = mapper_invD [OF inv]
  let ?rd = "entries k (pt_mem s)" and ?new = "(Suc d, p * 512 + i)"
  have "table ?rd root (Suc d) (p * 512 + i) = None" using r e0 by (simp add: table_split [OF i])
  moreover have "Suc d \<in> {1, 2, 3}" "4 - Suc d = 3 - d" using d by auto
  ultimately have absent: "?new \<in> missing ?rd root P" using u by (auto simp: missing_def)
  then have "card (missing ?rd root P) \<noteq> 0" using missing_finite [OF I(8)] by auto
  then have lim: "page_next s < N" using I(9) by linarith
  obtain v s1 where v: "page_pool s (page_next s) = Some v" "allocate k s = Some (virt_to_phys k v, s1)"
    and a1: "alloc_inv k en R U N s1" and f1: "alloc_frame en R v s s1"
    by (rule allocate_ok [OF I(2) lim I(3)])
  have po: "pool_ok k N s" using I(2) unfolding alloc_inv_def by (elim exE conjE)
  have vv: "v \<noteq> 0 \<and> canonical (virt_to_phys k v) \<and>
      (\<forall>m w. page_next s \<le> m \<longrightarrow> page_pool s m = Some w \<longrightarrow> virt_to_phys k v = virt_to_phys k w \<longrightarrow> page_next s = m)"
    by (rule pool_okD [OF po order_refl lim]) (use v(1) in auto)
  from vv have v0: "v \<noteq> 0" and n: "canonical (virt_to_phys k v)"
    and uniq: "page_next s \<le> m \<Longrightarrow> page_pool s m = Some w \<Longrightarrow> virt_to_phys k v = virt_to_phys k w \<Longrightarrow> page_next s = m" for m w
    by blast+
  let ?n = "virt_to_phys k v"
  have rc: "canonical r" using treeD(1) [OF I(4) _ r] d by simp
  have fresh: "table ?rd root d' q \<noteq> Some ?n" if "d' \<le> 3" for d' q
    using I(7) [OF that _ order_refl v(1)] by blast
  have rn: "r \<noteq> ?n" using fresh [of d p] r d by auto
  have m1: "pt_mem s1 = fill_page v (Some 0) (pt_mem s)" using f1 by (simp add: alloc_frame_def kept_def)
  let ?a = "pt_slot (phys_to_virt k r) i" and ?e = "?n OR table_flags"
  have "entries k (pt_mem s1) r i = Some e0" unfolding m1 using entries_fill [OF I(1) n rc i] rn e0(1) by simp
  then have st: "pt_mem s1 ?a = Some e0" by (simp add: entries_def)
  define s2 where "s2 = s1\<lparr>pt_mem := (pt_mem s1)(?a \<mapsto> ?e)\<rparr>"
  have call: "normal_page k ?a lvl s = Some (WALK, s2)"
    using v(2) st fl f1 by (simp add: normal_page_def store_entry_def s2_def alloc_frame_def kept_def)
  have pm2: "pt_mem s2 = (fill_page v (Some 0) (pt_mem s))(?a \<mapsto> ?e)" by (simp add: s2_def m1)
  have rd: "entries k (pt_mem s2) x j = (if (x, j) = (r, i) then Some ?e else if x = ?n then Some 0 else ?rd x j)"
    if "canonical x" "j < 512" for x and j :: nat
    unfolding pm2 entries_store [OF I(1) rc i that] entries_fill [OF I(1) n that] ..
  note lt = link_table [OF I(4) r d i e0 table_entry(1) [OF n] table_entry(2) [OF n] n fresh, of "entries k (pt_mem s2)"]
  have rds: "\<And>x j. j < 512 \<Longrightarrow> (x, j) \<noteq> (r, i) \<Longrightarrow> x \<noteq> ?n \<Longrightarrow> canonical x \<Longrightarrow> entries k (pt_mem s2) x j = ?rd x j"
    "entries k (pt_mem s2) r i = Some ?e" "\<And>j. j < 512 \<Longrightarrow> entries k (pt_mem s2) ?n j = Some 0"
    using rd rc i n rn by auto
  have tab: "table (entries k (pt_mem s2)) root d' q =
      (if d' = Suc d \<and> q = p * 512 + i then Some ?n else table ?rd root d' q)" if "d' \<le> 3" for d' q
    by (rule lt(1) [OF _ rds that]) assumption+
  have tree2: "tree (entries k (pt_mem s2)) root" by (rule lt(2) [OF _ rds]) assumption+
  have pte2: "pte (entries k (pt_mem s2)) root u = pte ?rd root u" for u by (rule lt(3) [OF _ rds]) assumption+
  have pv: "phys_to_virt k ?n = v" using I(1) by (auto simp: direct_map_def)
  have "mapper_inv k en root R U P N s2" unfolding mapper_inv_def
  proof (intro conjI allI impI)
    show "alloc_inv k en R U N s2" using a1 by (simp add: s2_def)
    show "mi_enclave (minfo s2) = Some en" using I(3) f1 by (simp add: s2_def alloc_frame_def kept_def)
    show "\<exists>c. encls s2 en = Some c \<and> cr3 c = root" using I(5) f1 by (fastforce simp: s2_def alloc_frame_def kept_def)
    show "finite P" by (rule I(8))
    have "missing (entries k (pt_mem s2)) root P = missing ?rd root P - {?new}"
      by (auto simp: missing_def tab split: if_splits)
    moreover have "card (missing ?rd root P) = Suc (card (missing ?rd root P - {?new}))"
      using card.remove [OF missing_finite [OF I(8)] absent] by simp
    moreover have "page_next s2 = Suc (page_next s)" using f1 by (simp add: s2_def alloc_frame_def)
    ultimately show "page_next s2 + card (missing (entries k (pt_mem s2)) root P) \<le> N" using I(9) by simp
    fix d' q x assume x: "d' \<le> 3" "table (entries k (pt_mem s2)) root d' q = Some x"
    then show "phys_to_virt k x \<noteq> 0" using tab I(6) pv v0 by (auto split: if_splits)
    fix m w assume m: "page_next s2 \<le> m" "page_pool s2 m = Some w"
    then have m': "page_next s \<le> m" "page_next s \<noteq> m" "page_pool s m = Some w"
      using f1 by (auto simp: s2_def alloc_frame_def kept_def)
    show "x \<noteq> virt_to_phys k w"
    proof
      assume eq: "x = virt_to_phys k w"
      then have "x \<noteq> ?n" using uniq [OF m'(1,3)] m'(2) by auto
      then have "table ?rd root d' q = Some x" using x tab by (simp split: if_splits)
      then show False using I(7) [OF x(1) _ m'(1,3)] eq by blast
    qed
  qed (use I(1) tree2 in simp_all)
  moreover have "map_frame R s s2" "minfo s2 = minfo s" using f1 by (simp_all add: map_frame_def alloc_frame_def kept_def s2_def)
  ultimately show thesis using that [OF call _ _ _ tab _ rds(2) n] pte2 by blast
qed

text \<open>Label \<open>entry_page\<close>: the leaf for one physical page.\<close>

definition leaf_entry :: "region_t \<Rightarrow> pa_region_t \<Rightarrow> entry_t" where
  "leaf_entry r x = (p_start x AND PT_PHYS_PAGE_MASK) OR translate_flags (r_flags r) OR 0x60"

lemma leaf_present: "r_flags r \<noteq> 0 \<Longrightarrow> present (leaf_entry r x)"
proof -
  assume "r_flags r \<noteq> 0"
  then have "translate_flags (r_flags r) AND PT_PAGE_PRESENT = PT_PAGE_PRESENT"
    by (simp add: translate_flags_def Let_def) (simp add: pt_flag_defs bit.conj_disj_distrib2)
  moreover have "leaf_entry r x AND PT_PAGE_PRESENT =
      (((p_start x AND PT_PHYS_PAGE_MASK) OR 0x60) AND PT_PAGE_PRESENT) OR (translate_flags (r_flags r) AND PT_PAGE_PRESENT)"
    unfolding leaf_entry_def by (rule bit_word_eqI) (auto simp: bit_simps)
  moreover have "(a AND PT_PAGE_PRESENT) OR PT_PAGE_PRESENT = PT_PAGE_PRESENT" for a
    by (rule bit_word_eqI) (auto simp: bit_simps)
  ultimately show ?thesis by simp
qed

lemma entry_page_ok:
  assumes inv: "mapper_inv k en root R U P N s" and r: "table (entries k (pt_mem s)) root 3 p = Some t" and i: "i < 512"
    and info: "mi_pa_region (minfo s) = Some q" "mi_region (minfo s) = Some rg"
    and heap: "pars s q = Some x" "regs s rg = Some reg" "pa_links s q = Some y" "r_flags reg \<noteq> 0"
  obtains s' where "entry_page False (pt_slot (phys_to_virt k t) i) lvl s = Some (WALK, s')"
    and "mapper_inv k en root R U P N s'" and "map_frame R s s'"
    and "minfo s' = (minfo s)\<lparr>mi_pa_region := nxt y\<rparr>"
    and "\<And>d q. d \<le> 3 \<Longrightarrow> table (entries k (pt_mem s')) root d q = table (entries k (pt_mem s)) root d q"
    and "\<And>v. pte (entries k (pt_mem s')) root v =
      (if v = p * 512 + i then Some (leaf_entry reg x) else pte (entries k (pt_mem s)) root v)"
proof -
  note I = mapper_invD [OF inv]
  let ?rd = "entries k (pt_mem s)" and ?a = "pt_slot (phys_to_virt k t) i" and ?e = "leaf_entry reg x"
  have c: "canonical t" using treeD(1) [OF I(4) _ r] by simp
  obtain e0 where e0: "?rd t i = Some e0" using treeD(2) [OF I(4) _ r i] by auto
  define s' where "s' = s\<lparr>pt_mem := (pt_mem s)(?a \<mapsto> ?e), minfo := (minfo s)\<lparr>mi_pa_region := nxt y\<rparr>\<rparr>"
  have call: "entry_page False ?a lvl s = Some (WALK, s')"
    using e0 info heap by (simp add: entry_page_def store_entry_def entries_def s'_def leaf_entry_def)
  have m: "pt_mem s' = (pt_mem s)(?a \<mapsto> ?e)" by (simp add: s'_def)
  have rd: "entries k (pt_mem s') z j = (if (z, j) = (t, i) then Some ?e else ?rd z j)"
    if "canonical z" "j < 512" for z and j :: nat
    unfolding m entries_store [OF I(1) c i that] ..
  have rds: "\<And>z j. j < 512 \<Longrightarrow> (z, j) \<noteq> (t, i) \<Longrightarrow> canonical z \<Longrightarrow> entries k (pt_mem s') z j = ?rd z j"
    "entries k (pt_mem s') t i = Some ?e" using rd c i by auto
  have tab: "table (entries k (pt_mem s')) root d q = table ?rd root d q" if "d \<le> 3" for d q
    by (rule write_leaf(1) [OF I(4) r i rds that]) assumption+
  have tree: "tree (entries k (pt_mem s')) root" by (rule write_leaf(2) [OF I(4) r i rds]) assumption+
  have pt: "pte (entries k (pt_mem s')) root v = (if v = p * 512 + i then Some ?e else pte ?rd root v)" for v
  proof -
    have "pte (entries k (pt_mem s')) root v =
        (if v = p * 512 + i then if present ?e then Some ?e else None else pte ?rd root v)"
      by (rule write_leaf(3) [OF I(4) r i rds]) assumption+
    then show ?thesis unfolding if_P [OF leaf_present [OF heap(4)]] .
  qed
  have "mapper_inv k en root R U P N s'" unfolding mapper_inv_def
  proof (intro conjI allI impI)
    show "alloc_inv k en R U N s'" using I(2) by (simp add: s'_def)
    show "mi_enclave (minfo s') = Some en" using I(3) by (simp add: s'_def)
    show "\<exists>c. encls s' en = Some c \<and> cr3 c = root" using I(5) by (simp add: s'_def)
    show "finite P" by (rule I(8))
    have "missing (entries k (pt_mem s')) root P = missing ?rd root P" by (rule missing_cong [OF tab])
    then show "page_next s' + card (missing (entries k (pt_mem s')) root P) \<le> N" using I(9) by (simp add: s'_def)
    fix d q z assume z: "d \<le> 3" "table (entries k (pt_mem s')) root d q = Some z"
    then have z': "table ?rd root d q = Some z" using tab by simp
    show "phys_to_virt k z \<noteq> 0" by (rule I(6) [OF z(1) z'])
    fix n w assume "page_next s' \<le> n" "page_pool s' n = Some w"
    then show "z \<noteq> virt_to_phys k w" using I(7) [OF z(1) z', of n w] by (simp add: s'_def)
  qed (use I(1) tree in simp_all)
  moreover have "map_frame R s s'" "minfo s' = (minfo s)\<lparr>mi_pa_region := nxt y\<rparr>"
    by (simp_all add: map_frame_def s'_def)
  ultimately show thesis using that [OF call _ _ _ tab pt] by blast
qed

section \<open>Mapping a region\<close>

text \<open>A region whose physical pages have been collected: one of 4096 bytes for each page of the region, in
  \<open>ys\<close>, and none of the region's pages is mapped yet.\<close>

definition mappable :: "kernel_map \<Rightarrow> entry_t \<Rightarrow> ptr set \<Rightarrow> ptr \<Rightarrow> region_t \<Rightarrow> (ptr \<times> pa_region_t) list \<Rightarrow> 'm mstate \<Rightarrow> bool" where
  "mappable k root R rg r ys s \<longleftrightarrow> regs s rg = Some r \<and> r_flags r \<noteq> 0 \<and>
     4096 dvd unat (r_start r) \<and> unat (r_start r) + 4096 * length ys = unat (r_end r) \<and> unat (r_end r) \<le> 2 ^ 48 \<and>
     dll (pa_links s) (pas r) (map fst ys) \<and>
     (\<forall>(p, x) \<in> set ys. p \<in> R \<and> pars s p = Some x \<and> p_end x - p_start x = PT_PAGE_SIZE) \<and>
     (\<forall>u. unat (r_start r) div 4096 \<le> u \<longrightarrow> u < unat (r_end r) div 4096 \<longrightarrow> pte (entries k (pt_mem s)) root u = None)"

text \<open>The state of the walk after \<open>j\<close> pages.\<close>

definition mapped :: "kernel_map \<Rightarrow> ptr \<Rightarrow> entry_t \<Rightarrow> ptr set \<Rightarrow> u64 set \<Rightarrow> nat set \<Rightarrow> nat \<Rightarrow> ptr \<Rightarrow> region_t \<Rightarrow> (ptr \<times> pa_region_t) list \<Rightarrow>
    'm mstate \<Rightarrow> nat \<Rightarrow> 'm mstate \<Rightarrow> bool" where
  "mapped k en root R U P N rg r ys s0 j s \<longleftrightarrow> j \<le> length ys \<and> mappable k root R rg r ys s0 \<and>
     {unat (r_start r) div 4096 ..< unat (r_end r) div 4096} \<subseteq> P \<and> mapper_inv k en root R U P N s \<and>
     map_frame R s0 s \<and>
     minfo s = \<lparr>intermed_flags = table_flags, mi_region = Some rg, mi_pa_region = fstp (drop j ys), mi_enclave = Some en\<rparr> \<and>
     (\<forall>u. pte (entries k (pt_mem s)) root u =
        (if unat (r_start r) div 4096 \<le> u \<and> u < unat (r_start r) div 4096 + j
         then Some (leaf_entry r (snd (ys ! (u - unat (r_start r) div 4096))))
         else pte (entries k (pt_mem s0)) root u))"

definition walk_at :: "kernel_map \<Rightarrow> ptr \<Rightarrow> entry_t \<Rightarrow> ptr set \<Rightarrow> u64 set \<Rightarrow> nat set \<Rightarrow> nat \<Rightarrow> ptr \<Rightarrow> region_t \<Rightarrow> (ptr \<times> pa_region_t) list \<Rightarrow>
    'm mstate \<Rightarrow> nat \<Rightarrow> 'm mstate \<Rightarrow> bool" where
  "walk_at k en root R U P N rg r ys s0 v s \<longleftrightarrow> (\<exists>j. v = unat (r_start r) + 4096 * j \<and> mapped k en root R U P N rg r ys s0 j s)"

definition table_at :: "kernel_map \<Rightarrow> entry_t \<Rightarrow> level_t \<Rightarrow> nat \<Rightarrow> entry_t \<Rightarrow> 'm mstate \<Rightarrow> bool" where
  "table_at k root l p x s \<longleftrightarrow> table (entries k (pt_mem s)) root (3 - unat l) p = Some x"

definition tables_kept :: "kernel_map \<Rightarrow> entry_t \<Rightarrow> 'm mstate \<Rightarrow> 'm mstate \<Rightarrow> bool" where
  "tables_kept k root s t \<longleftrightarrow> (\<forall>d p x. d \<le> 3 \<longrightarrow> table (entries k (pt_mem s)) root d p = Some x \<longrightarrow>
     table (entries k (pt_mem t)) root d p = Some x)"

lemma walk_atE:
  assumes "walk_at k en root R U P N rg r ys s0 (unat va) s" and "va < r_end r"
  obtains j q x where "unat va = unat (r_start r) + 4096 * j" and "j < length ys" and "ys ! j = (q, x)"
    and "mapped k en root R U P N rg r ys s0 j s" and "mappable k root R rg r ys s0"
    and "mapper_inv k en root R U P N s" and "map_frame R s0 s"
    and "unat va div 4096 \<in> P"
    and "minfo s = \<lparr>intermed_flags = table_flags, mi_region = Some rg, mi_pa_region = Some q, mi_enclave = Some en\<rparr>"
    and "pars s q = Some x" and "p_end x - p_start x = PT_PAGE_SIZE"
    and "regs s rg = Some r" and "pa_links s q = Some \<lparr>prev = fstp (rev (take j ys)), nxt = fstp (drop (Suc j) ys)\<rparr>"
proof -
  obtain j where j: "unat va = unat (r_start r) + 4096 * j" and m: "mapped k en root R U P N rg r ys s0 j s"
    using assms(1) by (auto simp: walk_at_def)
  have map: "mappable k root R rg r ys s0" "mapper_inv k en root R U P N s" "map_frame R s0 s"
    and info: "minfo s = \<lparr>intermed_flags = table_flags, mi_region = Some rg, mi_pa_region = fstp (drop j ys), mi_enclave = Some en\<rparr>"
    using m by (simp_all add: mapped_def)
  have len: "unat (r_start r) + 4096 * length ys = unat (r_end r)" using map(1) by (simp add: mappable_def)
  have lt: "j < length ys" using assms(2) j len by (simp add: word_less_nat_alt)
  have "{unat (r_start r) div 4096 ..< unat (r_end r) div 4096} \<subseteq> P" using m by (simp add: mapped_def)
  moreover have "4096 dvd unat (r_start r)" using map(1) by (simp add: mappable_def)
  ultimately have inP: "unat va div 4096 \<in> P" using j lt len by (auto elim!: dvdE)
  obtain q x where q: "ys ! j = (q, x)" by (cases "ys ! j")
  have ys: "ys = take j ys @ (q, x) # drop (Suc j) ys" using lt q by (metis id_take_nth_drop)
  have "(q, x) \<in> set ys" using lt q by (metis nth_mem)
  then have x: "q \<in> R" "pars s0 q = Some x" "p_end x - p_start x = PT_PAGE_SIZE"
    using map(1) unfolding mappable_def by auto
  have fr: "pars s q = pars s0 q" "pa_links s q = pa_links s0 q" "regs s rg = regs s0 rg"
    using map(3) x(1) by (simp_all add: map_frame_def)
  have "dll (pa_links s0) (pas r) (map fst (take j ys) @ q # map fst (drop (Suc j) ys))"
  proof -
    have "map fst ys = map fst (take j ys) @ q # map fst (drop (Suc j) ys)"
      using arg_cong [OF ys, of "map fst"] by (simp only: map_append list.map fst_conv)
    moreover have "dll (pa_links s0) (pas r) (map fst ys)" using map(1) by (simp add: mappable_def)
    ultimately show ?thesis by (simp only:)
  qed
  from dll_links [OF this] have "pa_links s0 q = Some \<lparr>prev = fstp (rev (take j ys)), nxt = fstp (drop (Suc j) ys)\<rparr>"
    by (cases "take j ys" rule: rev_cases; cases "drop (Suc j) ys") auto
  moreover have "regs s0 rg = Some r" using map(1) by (simp add: mappable_def)
  moreover have "fstp (drop j ys) = Some q" using lt q by (simp add: Cons_nth_drop_Suc [symmetric])
  ultimately show thesis using that [OF j lt q m map inP _ _ x(3)] fr x(2) info by simp
qed

text \<open>The slot of an address in the table that holds it.\<close>

lemma block_prefix: "unat va div 2 ^ pt_shift l = unat va div 4096 div 512 ^ unat l"
proof -
  have "(2 :: nat) ^ pt_shift l = 4096 * 512 ^ unat l"
    by (simp add: pt_shift_def power_add power_mult)
  then show ?thesis by (simp add: div_mult2_eq)
qed

lemma next_any_level: "x86_64_next e l = x86_64_next e 0"
  by (simp add: x86_64_next_def)

lemma mapper_node:
  assumes l: "l \<noteq> 0" "l < 4" and T: "table_at k root l p x s"
    and I: "walk_at k en root R U P N rg r ys s0 (unat va) s" and va: "va < r_end r"
    and p: "unat va div 2 ^ (pt_shift l + 9) = p"
  shows "\<exists>t e. entry_action (mapper_profile k) (pt_slot (pa_to_va k x) (pt_index l va)) l (s\<lparr>profile_va := va\<rparr>) = Some (WALK, t) \<and>
     tables_kept k root s t \<and> walk_at k en root R U P N rg r ys s0 (unat va) t \<and>
     pt_mem t (pt_slot (pa_to_va k x) (pt_index l va)) = Some e \<and>
     table_at k root (l - 1) (unat va div 2 ^ pt_shift l) (x86_64_next e l) t"
proof -
  let ?i = "pt_index l va" and ?s = "s\<lparr>profile_va := va\<rparr>" and ?d = "3 - unat l"
  let ?a = "pt_slot (phys_to_virt k x) ?i"
  obtain j q y where j: "unat va = unat (r_start r) + 4096 * j" and m: "mapped k en root R U P N rg r ys s0 j s"
    and inv: "mapper_inv k en root R U P N s" and inP: "unat va div 4096 \<in> P"
    and info: "minfo s = \<lparr>intermed_flags = table_flags, mi_region = Some rg, mi_pa_region = Some q, mi_enclave = Some en\<rparr>"
    and q: "pars s q = Some y" "p_end y - p_start y = PT_PAGE_SIZE"
    by (rule walk_atE [OF I va])
  note D = mapper_invD [OF inv] and blk = block_split [OF p] and dep = level_depth [OF l]
  have i: "?i < 512" by (simp add: pt_index_def)
  have tx: "table (entries k (pt_mem s)) root ?d p = Some x" using T by (simp add: table_at_def)
  have c: "canonical x" using treeD(1) [OF D(4) _ tx] by simp
  obtain e0 where e0: "entries k (pt_mem s) x ?i = Some e0" using treeD(2) [OF D(4) _ tx i] by auto
  have ma: "pt_mem ?s ?a = Some e0" using e0 by (simp add: entries_def)
  note act = mapper_action [OF l(2) ma]
  have m': "mapped k en root R U P N rg r ys s0 j ?s" using m by (simp add: mapped_def map_frame_def)
  show ?thesis
  proof (cases "present e0")
    case True
    have "table_at k root (l - 1) (unat va div 2 ^ pt_shift l) (x86_64_next e0 l) ?s"
      using True tx e0 by (simp add: table_at_def dep blk table_split [OF i] next_any_level [of _ l])
    moreover have "walk_at k en root R U P N rg r ys s0 (unat va) ?s" using m' j unfolding walk_at_def by blast
    moreover have "tables_kept k root s ?s" by (simp add: tables_kept_def)
    ultimately show ?thesis using act True ma unfolding pa_to_va_def by auto
  next
    case False
    have inv': "mapper_inv k en root R U P N ?s" using inv by simp
    have h: "intermed_flags (minfo ?s) = table_flags" "table (entries k (pt_mem ?s)) root ?d p = Some x"
      "entries k (pt_mem ?s) x ?i = Some e0" using info tx e0 by simp_all
    have "3 - ?d = unat l" using l(2) by (simp add: word_less_nat_alt)
    then have pos: "p * 512 + ?i = unat va div 4096 div 512 ^ (3 - ?d)"
      unfolding blk [symmetric] block_prefix by simp
    obtain n t where t: "normal_page k ?a l ?s = Some (WALK, t)" "mapper_inv k en root R U P N t" "map_frame R ?s t" "minfo t = minfo ?s"
      and tab: "\<And>d' q. d' \<le> 3 \<Longrightarrow> table (entries k (pt_mem t)) root d' q =
        (if d' = Suc ?d \<and> q = p * 512 + ?i then Some n else table (entries k (pt_mem ?s)) root d' q)"
      and pt: "pte (entries k (pt_mem t)) root = pte (entries k (pt_mem ?s)) root"
      and e: "entries k (pt_mem t) x ?i = Some (n OR table_flags)" and n: "canonical n"
      by (rule normal_page_ok [OF inv' h(1,2) dep(2) i h(3) False inP pos, where lvl = l], rule that)
    have nz: "?a \<noteq> 0" using slot_nonzero [OF D(1) c i] D(6) [OF _ tx] by simp
    have sz: "PT_PAGE_SIZE \<noteq> PT_PGD_PAGE_SIZE" "PT_PAGE_SIZE \<noteq> PT_PMD_PAGE_SIZE" by (simp_all add: pt_size_defs)
    have "default_mapper k ?a l ?s = normal_page k ?a l ?s"
      using nz info q sz l by (cases rule: level_cases [OF l(2)]) (simp_all add: default_mapper_def pt_level_defs)
    then have "entry_action (mapper_profile k) ?a l ?s = Some (WALK, t)" using act False t(1) by simp
    moreover have "tables_kept k root s t"
    proof -
      have "table (entries k (pt_mem s)) root (Suc ?d) (p * 512 + ?i) = None"
        using tx e0 False by (simp add: table_split [OF i])
      then show ?thesis by (auto simp: tables_kept_def tab)
    qed
    moreover have "walk_at k en root R U P N rg r ys s0 (unat va) t"
    proof -
      have "mapped k en root R U P N rg r ys s0 j t"
        using m t(2-4) pt by (auto simp: mapped_def map_frame_def)
      then show ?thesis using j unfolding walk_at_def by blast
    qed
    moreover have "table_at k root (l - 1) (unat va div 2 ^ pt_shift l) (x86_64_next (n OR table_flags) l) t"
      unfolding table_at_def dep(1) blk table_entry(2) [OF n] using tab [of "Suc ?d"] dep(2) by simp
    moreover have "pt_mem t ?a = Some (n OR table_flags)" using e by (simp add: entries_def)
    ultimately show ?thesis unfolding pa_to_va_def by blast
  qed
qed

lemma mapper_leaf:
  assumes T: "table_at k root 0 p x s" and I: "walk_at k en root R U P N rg r ys s0 (unat va) s" and va: "va < r_end r"
    and p: "unat va div 2 ^ 21 = p"
  shows "\<exists>t. entry_action (mapper_profile k) (pt_slot (pa_to_va k x) (pt_index 0 va)) 0 (s\<lparr>profile_va := va\<rparr>) = Some (WALK, t) \<and>
     walk_at k en root R U P N rg r ys s0 (unat va + 4096) t \<and> tables_kept k root s t"
proof -
  let ?i = "pt_index 0 va" and ?s = "s\<lparr>profile_va := va\<rparr>" and ?v0 = "unat (r_start r) div 4096"
  let ?a = "pt_slot (phys_to_virt k x) ?i"
  obtain j q y where j: "unat va = unat (r_start r) + 4096 * j" "j < length ys" and y: "ys ! j = (q, y)"
    and m: "mapped k en root R U P N rg r ys s0 j s" and mp: "mappable k root R rg r ys s0"
    and inv: "mapper_inv k en root R U P N s"
    and info: "minfo s = \<lparr>intermed_flags = table_flags, mi_region = Some rg, mi_pa_region = Some q, mi_enclave = Some en\<rparr>"
    and q: "pars s q = Some y" "p_end y - p_start y = PT_PAGE_SIZE" "regs s rg = Some r"
      "pa_links s q = Some \<lparr>prev = fstp (rev (take j ys)), nxt = fstp (drop (Suc j) ys)\<rparr>"
    by (rule walk_atE [OF I va])
  note D = mapper_invD [OF inv]
  have al: "4096 dvd unat (r_start r)" and fl: "r_flags r \<noteq> 0"
    and len: "unat (r_start r) + 4096 * length ys = unat (r_end r)"
    and free: "\<forall>u. ?v0 \<le> u \<longrightarrow> u < unat (r_end r) div 4096 \<longrightarrow> pte (entries k (pt_mem s0)) root u = None"
    using mp by (simp_all add: mappable_def)
  obtain b where b: "unat (r_start r) = 4096 * b" using al by (rule dvdE)
  have blk: "?v0 + j = p * 512 + ?i" "?v0 + j < unat (r_end r) div 4096"
    using block_split [of va 0 p] p j len b unfolding pt_shift_def by simp_all
  have i: "?i < 512" by (simp add: pt_index_def)
  have tx: "table (entries k (pt_mem s)) root 3 p = Some x" using T by (simp add: table_at_def)
  have c: "canonical x" using treeD(1) [OF D(4) _ tx] by simp
  obtain e0 where e0: "entries k (pt_mem s) x ?i = Some e0" using treeD(2) [OF D(4) _ tx i] by auto
  have pte_s: "pte (entries k (pt_mem s)) root u = (if ?v0 \<le> u \<and> u < ?v0 + j
      then Some (leaf_entry r (snd (ys ! (u - ?v0)))) else pte (entries k (pt_mem s0)) root u)" for u
    using m unfolding mapped_def by blast
  have "pte (entries k (pt_mem s0)) root (?v0 + j) = None" using free blk(2) by simp
  then have "pte (entries k (pt_mem s)) root (p * 512 + ?i) = None"
    unfolding blk(1) [symmetric] pte_s by simp
  then have ab: "\<not> present e0" using tx e0 by (auto simp: pte_split [OF i] split: if_splits)
  have h: "mapper_inv k en root R U P N ?s" "table (entries k (pt_mem ?s)) root 3 p = Some x"
    "mi_pa_region (minfo ?s) = Some q" "mi_region (minfo ?s) = Some rg" "pars ?s q = Some y" "regs ?s rg = Some r"
    "pa_links ?s q = Some \<lparr>prev = fstp (rev (take j ys)), nxt = fstp (drop (Suc j) ys)\<rparr>"
    using inv tx info q by simp_all
  obtain t where t: "entry_page False ?a 0 ?s = Some (WALK, t)" "mapper_inv k en root R U P N t" "map_frame R ?s t"
    and mi: "minfo t = (minfo ?s)\<lparr>mi_pa_region := nxt \<lparr>prev = fstp (rev (take j ys)), nxt = fstp (drop (Suc j) ys)\<rparr>\<rparr>"
    and tab: "\<And>d q. d \<le> 3 \<Longrightarrow> table (entries k (pt_mem t)) root d q = table (entries k (pt_mem ?s)) root d q"
    and pt: "\<And>v. pte (entries k (pt_mem t)) root v =
      (if v = p * 512 + ?i then Some (leaf_entry r y) else pte (entries k (pt_mem ?s)) root v)"
    by (rule entry_page_ok [OF h(1,2) i h(3-7) fl, where lvl = 0], rule that)
  have nz: "?a \<noteq> 0" using slot_nonzero [OF D(1) c i] D(6) [OF _ tx] by simp
  have "default_mapper k ?a 0 ?s = entry_page False ?a 0 ?s"
    using nz info q by (simp add: default_mapper_def pt_level_defs)
  moreover have "pt_mem ?s ?a = Some e0" using e0 by (simp add: entries_def)
  ultimately have act: "entry_action (mapper_profile k) ?a 0 ?s = Some (WALK, t)"
    using mapper_action [of 0 ?s ?a e0 k] ab t(1) by simp
  have "mapped k en root R U P N rg r ys s0 (Suc j) t" unfolding mapped_def
  proof (intro conjI allI)
    show "{unat (r_start r) div 4096 ..< unat (r_end r) div 4096} \<subseteq> P" using m by (simp add: mapped_def)
    show "map_frame R s0 t" using m t(3) by (auto simp: mapped_def map_frame_def)
    show "minfo t = \<lparr>intermed_flags = table_flags, mi_region = Some rg, mi_pa_region = fstp (drop (Suc j) ys), mi_enclave = Some en\<rparr>"
      using mi info by simp
    fix u
    show "pte (entries k (pt_mem t)) root u = (if ?v0 \<le> u \<and> u < ?v0 + Suc j
        then Some (leaf_entry r (snd (ys ! (u - ?v0)))) else pte (entries k (pt_mem s0)) root u)"
    proof (cases "u = ?v0 + j")
      case True
      then show ?thesis using pt [of u] y unfolding blk(1) [symmetric] by simp
    next
      case False
      then have "pte (entries k (pt_mem t)) root u = pte (entries k (pt_mem s)) root u"
        using pt [of u] unfolding blk(1) [symmetric] by simp
      moreover have "u < ?v0 + Suc j \<longleftrightarrow> u < ?v0 + j" using False by linarith
      ultimately show ?thesis using pte_s [of u] by simp
    qed
  qed (use j(2) mp t(2) in simp_all)
  moreover have "unat va + 4096 = unat (r_start r) + 4096 * Suc j" using j by simp
  ultimately have "walk_at k en root R U P N rg r ys s0 (unat va + 4096) t" unfolding walk_at_def by blast
  moreover have "tables_kept k root s t" by (simp add: tables_kept_def tab)
  ultimately show ?thesis using act unfolding pa_to_va_def by blast
qed

interpretation mapper: pt_client "mapper_profile k" mapper_memory "pa_to_va k" x86_64_next "r_end r"
  "table_at k root" "walk_at k en root R U P N rg r ys s0" "tables_kept k root"
proof (unfold_locales, goal_cases)
  case (5 v s)
  then have "mappable k root R rg r ys s0" by (auto simp: walk_at_def mapped_def)
  then have "4096 dvd unat (r_start r)" "unat (r_start r) + 4096 * length ys = unat (r_end r)"
    by (simp_all add: mappable_def)
  then show ?case by (metis dvd_add dvd_triv_left)
next
  case (9 v s a)
  then show ?case by (auto simp: walk_at_def mapped_def map_frame_def)
next
  case (11 p x s va)
  from mapper_leaf [OF this(1,2,3,5)] show ?case by auto
next
  case (12 l p x s va)
  from mapper_node [OF this(1-5,7)] show ?case by auto
qed (auto simp: mapper_geometry mapper_hooks tables_kept_def table_at_def)

section \<open>map_region\<close>

lemma mapper_inv_kept:
  assumes inv: "mapper_inv k en root R U P N s" and k: "kept en R s s'" "pt_mem s' = pt_mem s" "page_next s' = page_next s"
    and al: "alloc_inv k en R V N s'"
  shows "mapper_inv k en root R V P N s'" and "map_frame R s s'"
proof -
  note I = mapper_invD [OF inv]
  have "\<exists>c. encls s' en = Some c \<and> cr3 c = root" using I(5) k(1) by (fastforce simp: kept_def)
  moreover have "page_pool s' = page_pool s" "minfo s' = minfo s" using k(1) by (simp_all add: kept_def)
  ultimately show "mapper_inv k en root R V P N s'" using inv al k(2,3) by (simp add: mapper_inv_def)
  show "map_frame R s s'" using k(1) by (simp add: kept_def map_frame_def)
qed

text \<open>One region, on top of whatever is mapped already.\<close>

lemma map_region_ok:
  assumes inv: "mapper_inv k en root R U P N s" and m: "mappable k root R rg r ys s" and ne: "ys \<noteq> []"
    and sub: "{unat (r_start r) div 4096 ..< unat (r_end r) div 4096} \<subseteq> P"
  obtains s' where "map_region k (Some rg) s = Some (OK, s')" and "mapper_inv k en root R U P N s'" and "map_frame R s s'"
    and "\<And>u. pte (entries k (pt_mem s')) root u =
      (if unat (r_start r) div 4096 \<le> u \<and> u < unat (r_end r) div 4096
       then Some (leaf_entry r (snd (ys ! (u - unat (r_start r) div 4096)))) else pte (entries k (pt_mem s)) root u)"
proof -
  note I = mapper_invD [OF inv]
  let ?s = "s\<lparr>minfo := \<lparr>intermed_flags = table_flags, mi_region = Some rg, mi_pa_region = fstp ys, mi_enclave = Some en\<rparr>\<rparr>"
  have rg: "regs s rg = Some r" and al: "4096 dvd unat (r_start r)" and lim: "unat (r_end r) \<le> 2 ^ 48"
    and len: "unat (r_start r) + 4096 * length ys = unat (r_end r)"
    and d: "dll (pa_links s) (pas r) (map fst ys)"
    using m by (simp_all add: mappable_def)
  have hd: "head (pas r) = fstp ys" using d by (cases ys) (auto simp: dll_def)
  obtain c where c: "encls s en = Some c" "cr3 c = root" using I(5) by blast
  have ms: "mappable k root R rg r ys ?s" using m by (simp add: mappable_def)
  have inv0: "mapper_inv k en root R U P N ?s" using inv by (subst mapper_inv_info) (simp_all add: I(3))
  have w0: "walk_at k en root R U P N rg r ys ?s (unat (r_start r)) ?s"
    unfolding walk_at_def mapped_def using ms inv0 sub by (intro exI [of _ 0]) (simp, linarith)
  have t0: "table_at k root 3 0 root ?s" by (simp add: table_at_def)
  have lt: "unat (r_start r) < unat (r_end r)" using len ne by (cases ys) simp_all
  have bl: "unat (r_start r) div 2 ^ 48 = 0" using lt lim by simp
  obtain t where t: "pt_walk_page_range (mapper_profile k) mapper_memory root PT_PML4 (r_start r) (r_end r) ?s = Some (OK, t)"
    and w: "walk_at k en root R U P N rg r ys ?s (unat (r_end r)) t"
    using mapper.walk_all [OF t0 w0 _ al bl] lt lim by (auto simp: word_less_nat_alt)
  obtain j where j: "unat (r_end r) = unat (r_start r) + 4096 * j" and mj: "mapped k en root R U P N rg r ys ?s j t"
    using w by (auto simp: walk_at_def)
  obtain b where b: "unat (r_start r) = 4096 * b" using al by (rule dvdE)
  have e: "unat (r_end r) div 4096 = unat (r_start r) div 4096 + j" using j b by simp
  have info: "(minfo s)\<lparr>mi_region := Some rg, mi_pa_region := fstp ys, intermed_flags := table_flags\<rparr> =
      \<lparr>intermed_flags = table_flags, mi_region = Some rg, mi_pa_region = fstp ys, mi_enclave = Some en\<rparr>"
    using I(3) by (cases "minfo s") simp
  have "map_region k (Some rg) s = Some (OK, t)"
    using rg c I(3) t hd by (simp add: map_region_def Let_def flip: table_flags_def) (simp only: info)
  moreover have "mapper_inv k en root R U P N t" "map_frame R s t" using mj by (simp_all add: mapped_def map_frame_def)
  moreover have "pte (entries k (pt_mem t)) root u =
      (if unat (r_start r) div 4096 \<le> u \<and> u < unat (r_end r) div 4096
       then Some (leaf_entry r (snd (ys ! (u - unat (r_start r) div 4096)))) else pte (entries k (pt_mem s)) root u)" for u
    using mj unfolding mapped_def e by simp
  ultimately show thesis by (rule that)
qed

end
