(* ===== verification/Mapper_Build.thy ===== *)
theory Mapper_Build
  imports Mapper_Map
begin

text \<open>
  \<open>build_enclave_cr3\<close> as a whole: it allocates the root, maps every region of the enclave and records all
  physical pages.  The regions are given as \<open>rs\<close>: address and content of each, with the physical pages
  that were collected for it.
\<close>

type_synonym collected = "(ptr \<times> region_t \<times> (ptr \<times> pa_region_t) list) list"

section \<open>Recording the pages of a region\<close>

definition frames_of :: "(ptr \<times> pa_region_t) list \<Rightarrow> u64 set" where
  "frames_of ys = (\<Union>x \<in> set (map snd ys). ivl (p_start x) (p_end x))"

fun frames_apart :: "(ptr \<times> pa_region_t) list \<Rightarrow> bool" where
  "frames_apart [] = True" |
  "frames_apart (y # ys) \<longleftrightarrow> ivl (p_start (snd y)) (p_end (snd y)) \<inter> frames_of ys = {} \<and> frames_apart ys"

lemma frames_of_simps [simp]:
  "frames_of [] = {}" "frames_of (y # ys) = ivl (p_start (snd y)) (p_end (snd y)) \<union> frames_of ys"
  "frames_of (xs @ ys) = frames_of xs \<union> frames_of ys"
  by (auto simp: frames_of_def simp del: mem_ivl)

lemma frames_apart_append:
  "frames_apart (xs @ ys) \<longleftrightarrow> frames_apart xs \<and> frames_apart ys \<and> frames_of xs \<inter> frames_of ys = {}"
  by (induction xs) (auto simp del: mem_ivl)

lemma merge_pas_ok:
  "mapper_inv k en root R U P N s \<Longrightarrow> dll (pa_links s) l (map fst (ds @ zs)) \<Longrightarrow>
   \<forall>(p, x) \<in> set zs. p \<in> R \<and> pars s p = Some x \<and> p_start x < p_end x \<Longrightarrow> set (map fst ds) \<subseteq> R \<Longrightarrow>
   frames_of zs \<subseteq> U \<Longrightarrow> frames_apart zs \<Longrightarrow>
   \<exists>s'. merge_pas en (fstp zs) s = Some (OK, s') \<and> mapper_inv k en root R (U - frames_of zs) P N s' \<and>
     map_frame R s s' \<and> pt_mem s' = pt_mem s"
proof (induction zs arbitrary: ds U s)
  case Nil
  then show ?case by (subst merge_pas.simps) simp
next
  case (Cons z zs)
  obtain p x where z: "z = (p, x)" by (cases z)
  have p: "p \<in> R" "pars s p = Some x" "p_start x < p_end x" and pU: "ivl (p_start x) (p_end x) \<subseteq> U"
    using Cons.prems(3,5) z by simp_all
  note I = mapper_invD [OF Cons.prems(1)]
  obtain sA s1 s2 where r: "alloc_pa s = (Some (brk s), sA)" "\<And>q. q \<noteq> brk s \<Longrightarrow> pars sA q = pars s q"
    "init_pa (brk s) (p_start x) (p_end x) (p_tpe x) sA = Some s1"
    "add_merge_global (Some en) (Some (brk s)) s1 = Some (OK, s2)"
    and a2: "alloc_inv k en R (U - ivl (p_start x) (p_end x)) N s2"
    and k2: "kept en R s s2" "pt_mem s2 = pt_mem s" "page_next s2 = page_next s"
    by (rule alloc_inv_record [OF I(2) p(3) pU, where t = "p_tpe x"], rule that)
  have i2: "mapper_inv k en root R (U - ivl (p_start x) (p_end x)) P N s2" and f2: "map_frame R s s2"
    using mapper_inv_kept [OF Cons.prems(1) k2 a2] by simp_all
  have "heap_fresh s" by (rule alloc_invE [OF I(2)])
  then have nq: "p \<noteq> brk s" using p(2) by (auto simp: heap_fresh_def)
  have d: "dll (pa_links s) l (map fst ds @ p # map fst zs)" using Cons.prems(2) z by simp
  have sub: "set (map fst ds @ p # map fst zs) \<subseteq> R" using Cons.prems(3,4) z by auto
  have d2: "dll (pa_links s2) l (map fst ds @ p # map fst zs)"
    by (rule dll_frame [OF d]) (use f2 sub in \<open>auto simp: map_frame_def\<close>)
  have nx: "nxt y = fstp zs" if "pa_links s2 p = Some y" for y
    using dll_links [OF d2] that by (cases zs) auto
  obtain y where y: "pa_links s2 p = Some y" using dll_dom [OF d2, of p] by auto
  have step: "merge_pas en (Some p) s = merge_pas en (fstp zs) s2"
    using r p(2) nq nx [OF y] y by (subst merge_pas.simps) simp
  have h: "dll (pa_links s2) l (map fst ((ds @ [z]) @ zs))" "set (map fst (ds @ [z])) \<subseteq> R"
    using d2 z sub by simp_all
  have h3: "\<forall>(p, x) \<in> set zs. p \<in> R \<and> pars s2 p = Some x \<and> p_start x < p_end x"
    using Cons.prems(3) f2 by (fastforce simp: map_frame_def)
  have h4: "frames_of zs \<subseteq> U - ivl (p_start x) (p_end x)" "frames_apart zs"
    using Cons.prems(5,6) z by (auto simp del: mem_ivl)
  obtain s' where s': "merge_pas en (fstp zs) s2 = Some (OK, s')"
    "mapper_inv k en root R (U - ivl (p_start x) (p_end x) - frames_of zs) P N s'" "map_frame R s2 s'" "pt_mem s' = pt_mem s2"
    using Cons.IH [OF i2 h(1) h3 h(2) h4] by blast
  have "U - ivl (p_start x) (p_end x) - frames_of zs = U - frames_of (z # zs)" using z by auto
  then show ?case using s' step z map_frame_trans [OF f2 s'(3)] k2(2) by (intro exI [of _ s']) simp
qed

section \<open>All regions\<close>

abbreviation region_pages :: "region_t \<Rightarrow> nat set" where
  "region_pages r \<equiv> {unat (r_start r) div 4096 ..< unat (r_end r) div 4096}"

definition all_frames :: "collected \<Rightarrow> (ptr \<times> pa_region_t) list" where
  "all_frames rs = concat (map (\<lambda>(rg, r, ys). ys) rs)"

fun regions_apart :: "collected \<Rightarrow> bool" where
  "regions_apart [] = True" |
  "regions_apart ((rg, r, ys) # rs) \<longleftrightarrow> (\<forall>(_, q, _) \<in> set rs. region_pages r \<inter> region_pages q = {}) \<and> regions_apart rs"

text \<open>The translation that the regions ask for.\<close>

definition maps_regions :: "collected \<Rightarrow> (nat \<Rightarrow> entry_t option) \<Rightarrow> (nat \<Rightarrow> entry_t option) \<Rightarrow> bool" where
  "maps_regions rs before after \<longleftrightarrow>
     (\<forall>(rg, r, ys) \<in> set rs. \<forall>u \<in> region_pages r. after u = Some (leaf_entry r (snd (ys ! (u - unat (r_start r) div 4096))))) \<and>
     (\<forall>u. (\<forall>(rg, r, ys) \<in> set rs. u \<notin> region_pages r) \<longrightarrow> after u = before u)"

lemma maps_regions_Cons:
  assumes z: "z = (rg, r, ys)" and m: "maps_regions rs mid after" and ap: "regions_apart (z # rs)"
    and mid: "\<And>u. mid u = (if unat (r_start r) div 4096 \<le> u \<and> u < unat (r_end r) div 4096
       then Some (leaf_entry r (snd (ys ! (u - unat (r_start r) div 4096)))) else before u)"
  shows "maps_regions (z # rs) before after"
proof -
  have rest: "\<forall>(rg, r, ys) \<in> set rs. \<forall>u \<in> region_pages r. after u = Some (leaf_entry r (snd (ys ! (u - unat (r_start r) div 4096))))"
    and out: "\<And>u. \<forall>(rg, r, ys) \<in> set rs. u \<notin> region_pages r \<Longrightarrow> after u = mid u"
    using m unfolding maps_regions_def by blast+
  have "after u = Some (leaf_entry r (snd (ys ! (u - unat (r_start r) div 4096))))" if u: "u \<in> region_pages r" for u
  proof -
    have "\<forall>(rg, q, ys) \<in> set rs. u \<notin> region_pages q" using ap u z by fastforce
    from out [OF this] show ?thesis using mid u by simp
  qed
  moreover have "after u = before u" if "\<forall>(rg, r, ys) \<in> set (z # rs). u \<notin> region_pages r" for u
    using out [of u] mid [of u] that z by auto
  ultimately show ?thesis using rest z unfolding maps_regions_def by auto
qed

lemma mappable_frame:
  assumes m: "mappable k root R rg r ys s" and f: "map_frame R s s'"
    and p: "\<forall>u \<in> region_pages r. pte (entries k (pt_mem s')) root u = pte (entries k (pt_mem s)) root u"
  shows "mappable k root R rg r ys s'"
proof -
  have ys: "\<forall>(p, x) \<in> set ys. p \<in> R \<and> pars s p = Some x \<and> p_end x - p_start x = PT_PAGE_SIZE"
    and d: "dll (pa_links s) (pas r) (map fst ys)" and old: "regs s rg = Some r"
    and pn: "\<forall>u. unat (r_start r) div 4096 \<le> u \<longrightarrow> u < unat (r_end r) div 4096 \<longrightarrow> pte (entries k (pt_mem s)) root u = None"
    using m unfolding mappable_def by blast+
  have "dll (pa_links s') (pas r) (map fst ys)"
    by (rule dll_frame [OF d]) (use ys f in \<open>force simp: map_frame_def\<close>)
  moreover have "\<forall>(p, x) \<in> set ys. p \<in> R \<and> pars s' p = Some x \<and> p_end x - p_start x = PT_PAGE_SIZE"
    using ys f by (fastforce simp: map_frame_def)
  moreover have "regs s' rg = Some r" using old f by (simp add: map_frame_def)
  moreover have "\<forall>u. unat (r_start r) div 4096 \<le> u \<longrightarrow> u < unat (r_end r) div 4096 \<longrightarrow> pte (entries k (pt_mem s')) root u = None"
    using pn p by simp
  ultimately show ?thesis using m unfolding mappable_def by blast
qed

lemma map_regions_ok:
  "mapper_inv k en root R U P N s \<Longrightarrow> dll (reg_links s) l (map fst (ds @ rs)) \<Longrightarrow>
   \<forall>(rg, r, ys) \<in> set rs. mappable k root R rg r ys s \<and> ys \<noteq> [] \<and> region_pages r \<subseteq> P \<and> (\<forall>(p, x) \<in> set ys. p_start x < p_end x) \<Longrightarrow>
   regions_apart rs \<Longrightarrow> frames_of (all_frames rs) \<subseteq> U \<Longrightarrow> frames_apart (all_frames rs) \<Longrightarrow>
   \<exists>s'. map_regions k en (map_option fst (case rs of [] \<Rightarrow> None | x # _ \<Rightarrow> Some x)) s = Some (OK, s') \<and>
     mapper_inv k en root R (U - frames_of (all_frames rs)) P N s' \<and> map_frame R s s' \<and>
     maps_regions rs (pte (entries k (pt_mem s)) root) (pte (entries k (pt_mem s')) root)"
proof (induction rs arbitrary: ds U s)
  case Nil
  then show ?case by (subst map_regions.simps) (simp add: maps_regions_def all_frames_def)
next
  case (Cons z rs)
  obtain rg r ys where z: "z = (rg, r, ys)" by (cases z)
  let ?hd = "\<lambda>rs :: collected. map_option fst (case rs of [] \<Rightarrow> None | x # _ \<Rightarrow> Some x)"
  have m: "mappable k root R rg r ys s" "ys \<noteq> []" "region_pages r \<subseteq> P" "\<forall>(p, x) \<in> set ys. p_start x < p_end x"
    using Cons.prems(3) z by auto
  obtain s1 where s1: "map_region k (Some rg) s = Some (OK, s1)" "mapper_inv k en root R U P N s1" "map_frame R s s1"
    and pt1: "\<And>u. pte (entries k (pt_mem s1)) root u =
      (if unat (r_start r) div 4096 \<le> u \<and> u < unat (r_end r) div 4096
       then Some (leaf_entry r (snd (ys ! (u - unat (r_start r) div 4096)))) else pte (entries k (pt_mem s)) root u)"
    by (rule map_region_ok [OF Cons.prems(1) m(1,2,3)], rule that)
  have rg: "regs s1 rg = Some r" using m(1) s1(3) by (simp add: mappable_def map_frame_def)
  have ysR: "\<forall>(p, x) \<in> set ys. p \<in> R \<and> pars s p = Some x" and dp: "dll (pa_links s) (pas r) (map fst ys)"
    using m(1) by (auto simp: mappable_def)
  have dp1: "dll (pa_links s1) (pas r) (map fst ([] @ ys))"
    using dll_frame [OF dp, of "pa_links s1"] ysR s1(3) by (force simp: map_frame_def)
  have ys1: "\<forall>(p, x) \<in> set ys. p \<in> R \<and> pars s1 p = Some x \<and> p_start x < p_end x"
    using ysR m(4) s1(3) by (fastforce simp: map_frame_def)
  have fr: "frames_of ys \<subseteq> U" "frames_apart ys" "frames_of (all_frames rs) \<subseteq> U - frames_of ys" "frames_apart (all_frames rs)"
    using Cons.prems(5,6) z frames_apart_append [of ys "all_frames rs"] by (auto simp: all_frames_def)
  obtain s2 where s2: "merge_pas en (fstp ys) s1 = Some (OK, s2)" "mapper_inv k en root R (U - frames_of ys) P N s2"
    "map_frame R s1 s2" "pt_mem s2 = pt_mem s1"
    using merge_pas_ok [OF s1(2) dp1 ys1 _ fr(1,2)] by auto
  have f2: "map_frame R s s2" using map_frame_trans s1(3) s2(3) by blast
  have hp: "head (pas r) = fstp ys" using dp by (cases ys) (auto simp: dll_def)
  have d: "dll (reg_links s2) l (map fst ds @ rg # map fst rs)"
    using Cons.prems(2) f2 z by (simp add: map_frame_def)
  obtain y where y: "reg_links s2 rg = Some y" "nxt y = ?hd rs"
    using dll_links [OF d] by (cases rs) auto
  have step: "map_regions k en (?hd (z # rs)) s = map_regions k en (?hd rs) s2"
    using s1(1) s2(1) rg hp y z by (subst map_regions.simps) simp
  have m2: "\<forall>(rg, r, ys) \<in> set rs. mappable k root R rg r ys s2 \<and> ys \<noteq> [] \<and> region_pages r \<subseteq> P \<and> (\<forall>(p, x) \<in> set ys. p_start x < p_end x)"
  proof (clarify, intro conjI)
    fix rg' r' ys' assume i: "(rg', r', ys') \<in> set rs"
    then have old: "mappable k root R rg' r' ys' s" "ys' \<noteq> []" "region_pages r' \<subseteq> P" "\<forall>(p, x) \<in> set ys'. p_start x < p_end x"
      using Cons.prems(3) by auto
    have ap: "region_pages r \<inter> region_pages r' = {}" using Cons.prems(4) z i by auto
    show "mappable k root R rg' r' ys' s2" by (rule mappable_frame [OF old(1) f2]) (use ap s2(4) pt1 in auto)
    show "ys' \<noteq> []" "region_pages r' \<subseteq> P" "\<forall>(p, x) \<in> set ys'. p_start x < p_end x" by (rule old)+
  qed
  obtain s' where s': "map_regions k en (?hd rs) s2 = Some (OK, s')"
    "mapper_inv k en root R (U - frames_of ys - frames_of (all_frames rs)) P N s'" "map_frame R s2 s'"
    "maps_regions rs (pte (entries k (pt_mem s2)) root) (pte (entries k (pt_mem s')) root)"
    using Cons.IH [OF s2(2) _ m2 _ fr(3,4), of "ds @ [z]"] d Cons.prems(4) z by auto
  have "U - frames_of ys - frames_of (all_frames rs) = U - frames_of (all_frames (z # rs))"
    using z by (auto simp: all_frames_def simp del: mem_ivl)
  moreover have "maps_regions (z # rs) (pte (entries k (pt_mem s)) root) (pte (entries k (pt_mem s')) root)"
    by (rule maps_regions_Cons [OF z s'(4) Cons.prems(4)]) (simp add: s2(4) pt1)
  ultimately show ?case using s' step map_frame_trans [OF f2 s'(3)] by (intro exI [of _ s']) simp
qed

section \<open>The root\<close>

lemma empty_root:
  assumes "canonical root" and "\<forall>j < 512. rd root j = Some 0"
  shows "table rd root d p = Some r \<Longrightarrow> d = 0 \<and> p = 0 \<and> r = root" and "tree rd root" and "pte rd root u = None"
proof -
  have z: "\<not> present 0" by (simp add: pt_flag_defs)
  have t1: "table rd root (Suc d) p = None" for d p
  proof (induction d arbitrary: p)
    case 0
    have "rd root (p mod 512) = Some 0" using assms(2) by simp
    then show ?case using z by (auto simp: table.simps(2) simp del: mod_less div_eq_0_iff)
  next
    case (Suc d)
    then show ?case by (simp add: table.simps(2) [of _ _ "Suc d"])
  qed
  then show t: "table rd root d p = Some r \<Longrightarrow> d = 0 \<and> p = 0 \<and> r = root" for d p r
    by (cases d) (auto split: if_splits)
  show "tree rd root" using assms t unfolding tree_def by (metis option.distinct(1))
  show "pte rd root u = None" using t1 [of 2] by (simp add: pte_def numeral_3_eq_3 numeral_2_eq_2)
qed

lemma alloc_inv_cr3:
  assumes "alloc_inv k en R U N s" and "encls s en = Some c"
  shows "alloc_inv k en R U N (s\<lparr>encls := (encls s)(en \<mapsto> c\<lparr>cr3 := x\<rparr>)\<rparr>)"
proof -
  let ?s = "s\<lparr>encls := (encls s)(en \<mapsto> c\<lparr>cr3 := x\<rparr>)\<rparr>"
  have "page_list s en xs \<Longrightarrow> page_list ?s en xs" for xs using assms(2) by (simp add: page_list_def)
  moreover have "heap_fresh s \<Longrightarrow> heap_fresh ?s" using assms(2) by (auto simp: heap_fresh_def)
  moreover have "pool_ok k N ?s = pool_ok k N s" by (simp add: pool_ok_def)
  moreover note assms(2)
  ultimately show ?thesis
    by (rule_tac alloc_invE [OF assms(1)], unfold alloc_inv_def, rule_tac exI [of _ "c\<lparr>cr3 := x\<rparr>"], intro exI conjI)
       simp_all
qed

lemma alloc_inv_extend: "alloc_inv k en R U N (estate.extend s x) = alloc_inv k en R U N s"
  by (simp add: alloc_inv_def page_list_def heap_fresh_def pool_ok_def estate.defs)

section \<open>build_enclave_cr3\<close>

lemma missing_card: "finite P \<Longrightarrow> card (missing rd root P) \<le> 3 * card P"
proof -
  assume f: "finite P"
  have "card (missing rd root P) \<le> card (\<Union>d \<in> {1, 2, 3}. {d} \<times> (\<lambda>u. u div 512 ^ (4 - d)) ` P)"
    by (rule card_mono) (use f in \<open>auto simp: missing_def\<close>)
  also have "\<dots> \<le> (\<Sum>d \<in> {1, 2, 3}. card ({d} \<times> (\<lambda>u. u div 512 ^ (4 - d)) ` P))"
    by (rule card_UN_le) simp
  also have "\<dots> \<le> (\<Sum>d :: nat \<in> {1, 2, 3}. card P)"
    by (rule sum_mono) (simp add: card_cartesian_product card_image_le f)
  finally show ?thesis by simp
qed

lemma pages_card:
  "\<forall>(rg, r, ys) \<in> set rs. unat (r_start r) + 4096 * length ys = unat (r_end r) \<Longrightarrow>
   card (\<Union>(rg, r, ys) \<in> set rs. region_pages r) \<le> length (all_frames rs)"
proof (induction rs)
  case (Cons z rs)
  obtain rg r ys where z: "z = (rg, r, ys)" by (cases z)
  have "unat (r_end r) = unat (r_start r) + length ys * 4096" using Cons.prems z by simp
  then have "unat (r_end r) div 4096 = unat (r_start r) div 4096 + length ys" by simp
  then have "card (region_pages r) = length ys" by simp
  moreover have "card (\<Union>(rg, r, ys) \<in> set (z # rs). region_pages r) \<le>
      card (region_pages r) + card (\<Union>(rg, r, ys) \<in> set rs. region_pages r)"
    using card_Un_le [of "region_pages r"] z by simp
  ultimately show ?case using Cons z by (simp add: all_frames_def)
qed simp

text \<open>An enclave that can be built: its regions are mappable and apart, their physical pages are distinct,
  not recorded yet (they are among \<open>U\<close>), and the kernel has memory: one page for the root and at most three
  tables for each page of the enclave.\<close>

definition buildable :: "kernel_map \<Rightarrow> ptr \<Rightarrow> ptr set \<Rightarrow> u64 set \<Rightarrow> nat \<Rightarrow> collected \<Rightarrow> 'm estate \<Rightarrow> bool" where
  "buildable k en R U N rs s \<longleftrightarrow> direct_map k \<and> Suc (page_next s) + 3 * length (all_frames rs) \<le> N \<and> alloc_inv k en R U N s \<and>
     region_list s en (map (\<lambda>(rg, r, ys). (rg, r)) rs) \<and> regions_apart rs \<and>
     frames_apart (all_frames rs) \<and> frames_of (all_frames rs) \<subseteq> U \<and>
     (\<forall>(rg, r, ys) \<in> set rs. ys \<noteq> [] \<and> r_flags r \<noteq> 0 \<and> 4096 dvd unat (r_start r) \<and>
        unat (r_start r) + 4096 * length ys = unat (r_end r) \<and> unat (r_end r) \<le> 2 ^ 48 \<and>
        dll (pa_links s) (pas r) (map fst ys) \<and>
        (\<forall>(p, x) \<in> set ys. p \<in> R \<and> pars s p = Some x \<and> p_start x < p_end x \<and> p_end x - p_start x = PT_PAGE_SIZE))"

lemma build_enclave_cr3_ok:
  assumes b: "buildable k en R U N rs s"
  obtains m c P where "build_enclave_cr3 k en s = Some (OK, estate.truncate m)" and "encls m en = Some c"
    and "mapper_inv k en (cr3 c) R (U - frames_of (all_frames rs)) P N m"
    and "maps_regions rs (\<lambda>u. None) (pte (entries k (pt_mem m)) (cr3 c))"
proof -
  let ?i = "\<lparr>intermed_flags = 0, mi_region = None, mi_pa_region = None, mi_enclave = Some en\<rparr>"
  let ?m = "estate.extend s \<lparr>minfo = ?i, profile_va = 0\<rparr>"
  let ?P = "\<Union>(rg, r, ys) \<in> set rs. region_pages r"
  have dm: "direct_map k" and lim: "Suc (page_next s) + 3 * length (all_frames rs) \<le> N" and al: "alloc_inv k en R U N ?m"
    and rl: "region_list s en (map (\<lambda>(rg, r, ys). (rg, r)) rs)" and ap: "regions_apart rs"
    and fr: "frames_apart (all_frames rs)" "frames_of (all_frames rs) \<subseteq> U"
    and each: "\<forall>(rg, r, ys) \<in> set rs. ys \<noteq> [] \<and> r_flags r \<noteq> 0 \<and> 4096 dvd unat (r_start r) \<and>
        unat (r_start r) + 4096 * length ys = unat (r_end r) \<and> unat (r_end r) \<le> 2 ^ 48 \<and>
        dll (pa_links s) (pas r) (map fst ys) \<and>
        (\<forall>(p, x) \<in> set ys. p \<in> R \<and> pars s p = Some x \<and> p_start x < p_end x \<and> p_end x - p_start x = PT_PAGE_SIZE)"
    using b unfolding buildable_def alloc_inv_extend by blast+
  have fld: "encls ?m = encls s" "regs ?m = regs s" "reg_links ?m = reg_links s" "pars ?m = pars s" "pa_links ?m = pa_links s"
    by (simp_all add: estate.defs)
  obtain v m1 where v: "page_pool ?m (page_next ?m) = Some v" and a1: "allocate k ?m = Some (virt_to_phys k v, m1)"
    and i1: "alloc_inv k en R U N m1" and f1: "alloc_frame en R v ?m m1"
    by (rule allocate_ok [OF al]) (use lim in \<open>simp_all add: estate.defs\<close>)
  let ?root = "virt_to_phys k v"
  have f: "pt_mem m1 = fill_page v (Some 0) (pt_mem ?m)" "page_next m1 = Suc (page_next ?m)" "page_pool m1 = page_pool ?m"
    "minfo m1 = ?i" "regs m1 = regs s" "reg_links m1 = reg_links s"
    "\<forall>p \<in> R. pars m1 p = pars s p \<and> pa_links m1 p = pa_links s p"
    using f1 fld by (simp_all add: alloc_frame_def kept_def estate.defs)
  obtain c0 where c0: "encls s en = Some c0" "dll (reg_links s) (regions c0) (map fst (map (\<lambda>(rg, r, ys). (rg, r)) rs))"
    and rgs: "\<forall>(p, x) \<in> set (map (\<lambda>(rg, r, ys). (rg, r)) rs). regs s p = Some x"
    using rl by (auto simp: region_list_def)
  obtain l q where c1: "encls m1 en = Some (c0\<lparr>pts := l, all_pages := q\<rparr>)"
    using f1 c0(1) fld(1) by (auto simp: alloc_frame_def kept_def)
  define c where "c = c0\<lparr>pts := l, all_pages := q, cr3 := ?root\<rparr>"
  define m2 where "m2 = m1\<lparr>encls := (encls m1)(en \<mapsto> c)\<rparr>"
  have i2: "alloc_inv k en R U N m2" using alloc_inv_cr3 [OF i1 c1, of ?root] by (simp add: m2_def c_def)
  have "pool_ok k N ?m" by (rule alloc_invE [OF al])
  then have "v \<noteq> 0 \<and> canonical ?root \<and>
      (\<forall>j w. page_next ?m \<le> j \<longrightarrow> page_pool ?m j = Some w \<longrightarrow> ?root = virt_to_phys k w \<longrightarrow> page_next ?m = j)"
    by (rule pool_okD [OF _ order_refl]) (use v lim in \<open>auto simp: estate.defs\<close>)
  then have v0: "v \<noteq> 0" and cn: "canonical ?root"
    and uniq: "\<And>j w. page_next ?m \<le> j \<Longrightarrow> page_pool ?m j = Some w \<Longrightarrow> ?root = virt_to_phys k w \<Longrightarrow> page_next ?m = j"
    by blast+
  have zero: "\<forall>j < 512. entries k (pt_mem m2) ?root j = Some 0"
    using entries_fill [OF dm cn cn] by (simp add: m2_def f(1))
  note root = empty_root [of ?root "entries k (pt_mem m2)", OF cn zero]
  have pv: "phys_to_virt k ?root = v" using dm by (auto simp: direct_map_def)
  have inv2: "mapper_inv k en ?root R U ?P N m2" unfolding mapper_inv_def
  proof (intro conjI allI impI)
    show "tree (entries k (pt_mem m2)) ?root" by (rule root(2))
    show "\<exists>c. encls m2 en = Some c \<and> cr3 c = ?root" by (simp add: m2_def c_def)
    show "mi_enclave (minfo m2) = Some en" by (simp add: m2_def f(4))
    show "finite ?P" by auto
    have "card (missing (entries k (pt_mem m2)) ?root ?P) \<le> 3 * card ?P" by (rule missing_card) auto
    also have "card ?P \<le> length (all_frames rs)" by (rule pages_card) (use each in fast)
    finally show "page_next m2 + card (missing (entries k (pt_mem m2)) ?root ?P) \<le> N"
      using lim f(2) by (simp add: m2_def estate.defs)
    fix d p r assume r: "d \<le> 3" "table (entries k (pt_mem m2)) ?root d p = Some r"
    have r': "r = ?root" using root(1) [OF r(2)] by (elim conjE)
    show "phys_to_virt k r \<noteq> 0" using r' pv v0 by simp
    fix j w assume "page_next m2 \<le> j" "page_pool m2 j = Some w"
    then have "page_next ?m \<le> j" "page_next ?m \<noteq> j" "page_pool ?m j = Some w" using f(2,3) by (auto simp: m2_def)
    then show "r \<noteq> virt_to_phys k w" unfolding r' using uniq [of j w] by (intro notI) simp
  qed (use dm i2 in simp_all)
  have m: "mappable k ?root R rg r ys m2 \<and> ys \<noteq> [] \<and> region_pages r \<subseteq> ?P \<and> (\<forall>(p, x) \<in> set ys. p_start x < p_end x)"
    if x: "(rg, r, ys) \<in> set rs" for rg r ys
  proof -
    have e: "ys \<noteq> []" "r_flags r \<noteq> 0" "4096 dvd unat (r_start r)"
        "unat (r_start r) + 4096 * length ys = unat (r_end r)" "unat (r_end r) \<le> 2 ^ 48"
      and d: "dll (pa_links s) (pas r) (map fst ys)"
      and y: "\<forall>(p, x) \<in> set ys. p \<in> R \<and> pars s p = Some x \<and> p_start x < p_end x \<and> p_end x - p_start x = PT_PAGE_SIZE"
      using each x by auto
    have "dll (pa_links m1) (pas r) (map fst ys)" by (rule dll_frame [OF d]) (use y f(7) in auto)
    moreover have "\<forall>(p, x) \<in> set ys. p \<in> R \<and> pars m1 p = Some x \<and> p_end x - p_start x = PT_PAGE_SIZE"
      using y f(7) by fastforce
    moreover have "regs s rg = Some r" using rgs x by force
    ultimately have "mappable k ?root R rg r ys m2"
      unfolding mappable_def using e f(5) root(3) by (simp add: m2_def)
    moreover have "region_pages r \<subseteq> ?P" using x by blast
    ultimately show ?thesis using e(1) y by auto
  qed
  have d0: "dll (reg_links m2) (regions c) (map fst ([] @ rs))"
    using c0(2) f(6) by (simp add: m2_def c_def comp_def split_def)
  have each2: "\<forall>(rg, r, ys) \<in> set rs. mappable k ?root R rg r ys m2 \<and> ys \<noteq> [] \<and> region_pages r \<subseteq> ?P \<and> (\<forall>(p, x) \<in> set ys. p_start x < p_end x)"
    using m by blast
  obtain m3 where m3: "map_regions k en (map_option fst (case rs of [] \<Rightarrow> None | x # _ \<Rightarrow> Some x)) m2 = Some (OK, m3)"
    "mapper_inv k en ?root R (U - frames_of (all_frames rs)) ?P N m3"
    "maps_regions rs (pte (entries k (pt_mem m2)) ?root) (pte (entries k (pt_mem m3)) ?root)"
    using map_regions_ok [OF inv2 d0 each2 ap fr(2,1)] by blast
  obtain c3 where c3: "encls m3 en = Some c3" "cr3 c3 = ?root" using mapper_invD(5) [OF m3(2)] by blast
  have hd: "head (regions c) = map_option fst (case rs of [] \<Rightarrow> None | x # _ \<Rightarrow> Some x)"
    using d0 by (cases rs) (auto simp: dll_def)
  have "build_enclave_cr3 k en s = Some (OK, estate.truncate m3)"
    using a1 c1 m3(1) hd by (simp add: build_enclave_cr3_def Let_def m2_def c_def)
  moreover have "maps_regions rs (\<lambda>u. None) (pte (entries k (pt_mem m3)) (cr3 c3))"
    using m3(3) root(3) by (simp add: maps_regions_def c3(2))
  ultimately show thesis using that [OF _ c3(1)] m3(2) c3(2) by simp
qed

end
