(* ===== verification/Mapper_Theorems.thy ===== *)
theory Mapper_Theorems
  imports Mapper_Build Enclave_Theorems
begin

text \<open>
  The properties of the page-table walker and of the mapper of the enclave driver.
\<close>

section \<open>The page tables of an enclave\<close>

text \<open>What an entry of the lowest level says: the physical page and the rights.\<close>

lemma flag_set: "x AND push_bit n 1 = push_bit n 1 \<longleftrightarrow> bit x n" if "n < 64" for x :: u64
proof
  assume "x AND push_bit n 1 = push_bit n 1"
  then have "bit (x AND push_bit n 1) n" using that by (simp add: bit_push_bit_iff bit_exp_iff)
  then show "bit x n" by (simp add: bit_and_iff)
next
  assume b: "bit x n"
  show "x AND push_bit n 1 = push_bit n 1"
    by (rule bit_word_eqI) (use b in \<open>auto simp: bit_and_iff bit_push_bit_iff bit_1_iff bit_exp_iff\<close>)
qed

lemma flag_clear: "x AND push_bit n 1 = 0 \<longleftrightarrow> \<not> bit x n" for x :: u64
  by (simp add: push_bit_eq_mult and_exp_eq_0_iff_not_bit)

lemma translate_flags_bits:
  "bit (translate_flags f) n \<longleftrightarrow> n = 0 \<and> f \<noteq> 0 \<or> n = 1 \<and> bit f 1 \<or> n = 2 \<and> bit f 4 \<or> n = 63 \<and> \<not> bit f 2"
proof -
  have te: "f AND TE_WRITE = TE_WRITE \<longleftrightarrow> bit f 1" "f AND TE_USER = TE_USER \<longleftrightarrow> bit f 4" "f AND TE_EXEC = 0 \<longleftrightarrow> \<not> bit f 2"
    using flag_set [of 1 f] flag_set [of 4 f] flag_clear [of f 2] by (simp_all add: te_consts capa_consts)
  have p: "bit (push_bit m 1 :: u64) n \<longleftrightarrow> n = m" if "m < 64" for m
    using that by (auto simp: bit_push_bit_iff bit_1_iff bit_exp_iff)
  show ?thesis unfolding translate_flags_def te Let_def pt_flag_defs
    using p [of 0] p [of 1] p [of 2] p [of 63] by (auto simp: bit_or_iff)
qed

lemma leaf_entry_bits:
  "leaf_entry r x AND PT_PHYS_PAGE_MASK = p_start x AND PT_PHYS_PAGE_MASK"
  "bit (leaf_entry r x) 1 \<longleftrightarrow> bit (r_flags r) 1" "bit (leaf_entry r x) 2 \<longleftrightarrow> bit (r_flags r) 4"
  "bit (leaf_entry r x) 63 \<longleftrightarrow> \<not> bit (r_flags r) 2"
proof -
  have c: "(0x60 :: u64) = push_bit 5 (mask 2)" by (simp add: mask_eq_exp_minus_1)
  have b: "bit (leaf_entry r x) n \<longleftrightarrow> 12 \<le> n \<and> n < 52 \<and> bit (p_start x) n \<or> bit (translate_flags (r_flags r)) n \<or> n \<in> {5, 6}"
    if "n < 64" for n
    using that unfolding leaf_entry_def c PT_PHYS_PAGE_MASK_bits
    by (auto simp: bit_or_iff bit_and_iff bit_push_bit_iff bit_mask_iff)
  show "leaf_entry r x AND PT_PHYS_PAGE_MASK = p_start x AND PT_PHYS_PAGE_MASK"
    by (rule bit_word_eqI)
      (auto simp: bit_and_iff b PT_PHYS_PAGE_MASK_bits bit_push_bit_iff bit_mask_iff translate_flags_bits)
  show "bit (leaf_entry r x) 1 \<longleftrightarrow> bit (r_flags r) 1" "bit (leaf_entry r x) 2 \<longleftrightarrow> bit (r_flags r) 4"
    "bit (leaf_entry r x) 63 \<longleftrightarrow> \<not> bit (r_flags r) 2"
    by (simp_all add: b translate_flags_bits)
qed

text \<open>C19: an enclave sees exactly its own pages.  For an enclave whose regions are page-aligned, non-empty
  and disjoint, with one collected physical page for each of their pages, and a kernel with enough free
  pages, \<open>build_enclave_cr3\<close> returns 0; afterwards every page of every region translates to its own
  physical page, writable, reachable from user mode and executable exactly as the flags of the region
  say, and no other virtual page translates at all.\<close>

theorem build_enclave_cr3_correct:
  fixes s :: "'m estate"
  assumes "buildable k en R U N rs s"
  shows "\<exists>s' c. build_enclave_cr3 k en s = Some (OK, s') \<and> encls s' en = Some c \<and>
    (\<forall>(rg, r, ys) \<in> set rs. \<forall>i < length ys. \<exists>e.
       pte (entries k (pt_mem s')) (cr3 c) (unat (r_start r) div 4096 + i) = Some e \<and>
       e AND PT_PHYS_PAGE_MASK = p_start (snd (ys ! i)) AND PT_PHYS_PAGE_MASK \<and>
       (bit e 1 \<longleftrightarrow> bit (r_flags r) 1) \<and> (bit e 2 \<longleftrightarrow> bit (r_flags r) 4) \<and> (bit e 63 \<longleftrightarrow> \<not> bit (r_flags r) 2)) \<and>
    (\<forall>u. (\<forall>(rg, r, ys) \<in> set rs. u < unat (r_start r) div 4096 \<or> unat (r_end r) div 4096 \<le> u) \<longrightarrow>
       pte (entries k (pt_mem s')) (cr3 c) u = None)"
proof -
  obtain m :: "'m mstate" and c P where m: "build_enclave_cr3 k en s = Some (OK, estate.truncate m)" "encls m en = Some c"
    "maps_regions rs (\<lambda>u. None) (pte (entries k (pt_mem m)) (cr3 c))"
    by (rule build_enclave_cr3_ok [OF assms]) (rule that; assumption)
  have e: "encls (estate.truncate m) = encls m" "pt_mem (estate.truncate m) = pt_mem m" by (simp_all add: estate.defs)
  let ?pte = "pte (entries k (pt_mem m)) (cr3 c)"
  have page: "?pte (unat (r_start r) div 4096 + i) = Some (leaf_entry r (snd (ys ! i)))"
    if x: "(rg, r, ys) \<in> set rs" "i < length ys" for rg r ys i
  proof -
    have "unat (r_start r) + 4096 * length ys = unat (r_end r)" "4096 dvd unat (r_start r)"
      using assms x(1) unfolding buildable_def by auto
    then have "unat (r_start r) div 4096 + i \<in> region_pages r" using x(2) by (auto elim!: dvdE)
    then have "?pte (unat (r_start r) div 4096 + i) =
        Some (leaf_entry r (snd (ys ! (unat (r_start r) div 4096 + i - unat (r_start r) div 4096))))"
      using m(3) x(1) unfolding maps_regions_def by blast
    then show ?thesis by simp
  qed
  have none: "?pte u = None" if "\<forall>(rg, r, ys) \<in> set rs. u < unat (r_start r) div 4096 \<or> unat (r_end r) div 4096 \<le> u" for u
  proof -
    have "\<forall>(rg, r, ys) \<in> set rs. u \<notin> region_pages r" using that by fastforce
    then show ?thesis using m(3) unfolding maps_regions_def by blast
  qed
  show ?thesis
  proof (intro exI conjI)
    show "build_enclave_cr3 k en s = Some (OK, estate.truncate m)" by (rule m(1))
    show "encls (estate.truncate m) en = Some c" unfolding e by (rule m(2))
  qed (unfold e, use page none leaf_entry_bits in auto)
qed

text \<open>One page at \<open>0x4000\<close> with the physical page \<open>0x100000\<close>; the kernel has four free pages.\<close>

definition demo_map :: kernel_map where
  "demo_map = \<lparr>virt_to_phys = (\<lambda>v. v - 0xffff888000000000), phys_to_virt = (\<lambda>p. p + 0xffff888000000000)\<rparr>"

definition demo_build :: "unit estate" where
  "demo_build = demo_driver\<lparr>
     encls := [5 \<mapsto> \<lparr>pid = 42, e_handle = 0, tyche_handle = 7, invoke = 0, cr3 = 0, e_entry = 0, stack = 0,
        pts = dll_init_list, regions = \<lparr>head = Some 10, tail = Some 10\<rparr>, all_pages = dll_init_list\<rparr>],
     regs := [10 \<mapsto> (demo_region 0x4000 0x5000 0x10000)\<lparr>pas := \<lparr>head = Some 20, tail = Some 20\<rparr>\<rparr>],
     pars := [20 \<mapsto> demo_page 0x100000 0x101000], pa_links := [20 \<mapsto> \<lparr>prev = None, nxt = None\<rparr>],
     glob_links := [20 \<mapsto> \<lparr>prev = None, nxt = None\<rparr>],
     page_pool := (\<lambda>n. if n < 4 then Some (0xffff888000300000 + 4096 * of_nat n) else None)\<rparr>"

abbreviation "demo_built \<equiv> [(10 :: ptr, (demo_region 0x4000 0x5000 0x10000)\<lparr>pas := \<lparr>head = Some 20, tail = Some 20\<rparr>\<rparr>,
  [(20 :: ptr, demo_page 0x100000 0x101000)])]"

lemma less_4_cases: "n < 4 \<longleftrightarrow> n = 0 \<or> n = 1 \<or> n = 2 \<or> n = 3" for n :: nat
  by auto

lemma demo_buildable: "buildable demo_map 5 {20} (ivl 0x100000 0x101000) 4 demo_built demo_build"
proof -
  let ?s = demo_build
  have pool: "pool_ok demo_map 4 ?s"
    unfolding pool_ok_def demo_build_def demo_map_def
    by (auto simp: less_4_cases demo_driver_def pt_size_defs pt_mask_defs split: if_splits)
  have dm: "direct_map demo_map" unfolding direct_map_def demo_map_def
    by (intro exI [of _ "0xffff888000000000"]) simp
  have apart: "ivl (virt_to_phys demo_map v) (virt_to_phys demo_map v + PT_PAGE_SIZE) \<inter> ivl 0x100000 0x101000 = {}"
    if "page_pool ?s n = Some v" for n v
    using that order_le_less_trans [of _ _ "0x101000 :: u64"]
    by (fastforce simp: demo_build_def demo_map_def less_4_cases pt_size_defs split: if_splits)
  have al: "alloc_inv demo_map 5 {20} (ivl 0x100000 0x101000) 4 ?s" unfolding alloc_inv_def
    by (rule exI, rule exI [of _ "[]"], rule exI [of _ "[]"], intro conjI, simp add: demo_build_def)
       (use pool apart in \<open>auto simp: page_list_def demo_build_def demo_driver_def dll_def live_def heap_fresh_def sorted_ivls_def dll_init_list_def simp del: mem_ivl\<close>)
  show ?thesis unfolding buildable_def
    using dm al by (auto simp: all_frames_def demo_build_def demo_driver_def region_list_def dll_def live_def
        demo_region_def demo_page_def pt_size_defs simp del: mem_ivl)
qed

theorem build_enclave_cr3_correct_witness:
  "\<exists>s' c e. build_enclave_cr3 demo_map 5 demo_build = Some (OK, s') \<and> encls s' 5 = Some c \<and>
     pte (entries demo_map (pt_mem s')) (cr3 c) 4 = Some e \<and> e AND PT_PHYS_PAGE_MASK = 0x100000"
proof -
  have "0x100000 AND PT_PHYS_PAGE_MASK = 0x100000" by (simp add: pt_mask_defs pt_size_defs)
  then show ?thesis using build_enclave_cr3_correct [OF demo_buildable]
    by (fastforce simp: demo_region_def demo_page_def)
qed

text \<open>C22: a failed allocation is not noticed.  When the kernel has no page for a table, the mapper links
  physical page 0 as the table, marked present and writable from user mode, and tells the walker to go
  on with it.\<close>

theorem default_mapper_ignores_failure:
  assumes "entry \<noteq> 0" and "mi_pa_region (minfo s) = Some p" and "pars s p = Some x" and "mi_enclave (minfo s) = Some en"
    and "intermed_flags (minfo s) = table_flags" and "page_pool s (page_next s) = None" and "pt_mem s entry = Some e"
  shows "\<exists>s'. default_mapper k entry PT_PML4 s = Some (WALK, s') \<and> pt_mem s' = (pt_mem s)(entry \<mapsto> table_flags) \<and>
     present table_flags \<and> bit table_flags 1 \<and> bit table_flags 2 \<and> x86_64_next table_flags PT_PML4 = 0"
proof -
  have f: "present table_flags" "bit table_flags 1" "bit table_flags 2" "x86_64_next table_flags PT_PML4 = 0"
    by (simp_all add: table_flags_def pt_flag_defs x86_64_next_def pt_mask_defs pt_size_defs)
  have "default_mapper k entry PT_PML4 s = normal_page k entry PT_PML4 s"
    using assms(1-3) by (simp add: default_mapper_def pt_level_defs)
  moreover have "allocate k s = Some (0, s\<lparr>page_next := Suc (page_next s)\<rparr>)"
    using assms(4,6) by (simp add: allocate_def alloc_pages_exact_def)
  ultimately show ?thesis using assms(5,7) f
    by (simp add: normal_page_def store_entry_def)
qed

definition demo_walk :: "unit mstate" where
  "demo_walk = estate.extend (demo_build\<lparr>page_pool := (\<lambda>_. None), pt_mem := [0x1000 \<mapsto> 0]\<rparr>)
     \<lparr>minfo = \<lparr>intermed_flags = table_flags, mi_region = Some 10, mi_pa_region = Some 20, mi_enclave = Some 5\<rparr>, profile_va = 0\<rparr>"

theorem default_mapper_ignores_failure_witness:
  "\<exists>s'. default_mapper demo_map 0x1000 PT_PML4 demo_walk = Some (WALK, s') \<and> pt_mem s' 0x1000 = Some table_flags"
  using default_mapper_ignores_failure [of "0x1000" demo_walk 20 "demo_page 0x100000 0x101000" 5 0 demo_map]
  by (auto simp: demo_walk_def demo_build_def estate.defs)

end
