(* ===== verification/Process.thy ===== *)
theory Process
  imports Mapper
begin

text \<open>
  \<open>modules/libraries/enclave/src/internal/process.c\<close>: collecting the physical pages behind a region of the
  parent process.  The kernel's \<open>walk_page_range\<close>, which the module finds through \<open>kallsyms\<close>, is a
  parameter, a function on the callbacks and the state; \<open>None\<close> is the NULL pointer it is before
  \<open>init_page_walker\<close>.  \<open>PTE_PFN_MASK\<close> depends on the configuration of the kernel and is a parameter too.
  The \<open>walker_info_t\<close> of \<open>walk_and_collect_region\<close>, which the callbacks reach through \<open>walk->private\<close> and
  whose address is never NULL, is part of the state of a walk.
\<close>

record walker_info_t =
  w_region :: "ptr option"
  success :: c_int

record 'm wstate = "'m estate" +
  winfo :: walker_info_t

text \<open>The three callbacks of \<open>struct mm_walk_ops\<close> that the module sets, with the arguments that it reads.\<close>

record 's mm_walk_ops =
  on_pte :: "u64 \<Rightarrow> u64 \<Rightarrow> 's \<Rightarrow> (c_int \<times> 's) option"
  on_hugetlb :: "u64 \<Rightarrow> u64 \<Rightarrow> 's \<Rightarrow> (c_int \<times> 's) option"
  on_hole :: "u64 \<Rightarrow> 's \<Rightarrow> (c_int \<times> 's) option"

record 'm kernel_mm =
  walk_page_range_prox :: "(u64 \<Rightarrow> u64 \<Rightarrow> 'm wstate mm_walk_ops \<Rightarrow> 'm wstate \<Rightarrow> (c_int \<times> 'm wstate) option) option"
  PTE_PFN_MASK :: u64

text \<open>\<open>_PAGE_PRESENT | _PAGE_USER\<close> of the x86 page tables.\<close>

definition PAGE_VALID :: u64 where "PAGE_VALID = PT_PAGE_PRESENT OR PT_PAGE_USER"

definition failure_with_info :: "'m wstate \<Rightarrow> (c_int \<times> 'm wstate) option" where
  "failure_with_info s = Some (FAIL, s\<lparr>winfo := (winfo s)\<lparr>success := 0\<rparr>\<rparr>)"

definition pte_entry :: "u64 \<Rightarrow> u64 \<Rightarrow> u64 \<Rightarrow> 'm wstate \<Rightarrow> (c_int \<times> 'm wstate) option" where
  "pte_entry pfn_mask pte addr s = (case w_region (winfo s) of None \<Rightarrow> Some (FAIL, s)
     | Some rg \<Rightarrow> do {
         r \<leftarrow> regs s rg;
         if r_src r > addr \<or> r_src r + (r_end r - r_start r) < addr then failure_with_info s
         else if pte AND PAGE_VALID \<noteq> PAGE_VALID then failure_with_info s
         else let phys_addr = pte AND pfn_mask in
           (case alloc_pa s of
              (None, s) \<Rightarrow> failure_with_info s
            | (Some pa_region, s) \<Rightarrow> do {
                s \<leftarrow> init_pa pa_region phys_addr (phys_addr + PT_PAGE_SIZE) (r_tpe r) s;
                (rc, s) \<leftarrow> add_pa_to_region rg pa_region s;
                if rc \<noteq> 0 then do { s \<leftarrow> free_pa pa_region s; failure_with_info s }
                else Some (OK, s) }) })"

definition hugetlb_entry :: "u64 \<Rightarrow> u64 \<Rightarrow> 'm wstate \<Rightarrow> (c_int \<times> 'm wstate) option" where
  "hugetlb_entry pte addr s = Some (OK, s)"

definition pte_hole :: "u64 \<Rightarrow> 'm wstate \<Rightarrow> (c_int \<times> 'm wstate) option" where
  "pte_hole addr s = Some (FAIL, s\<lparr>winfo := (winfo s)\<lparr>success := 0\<rparr>\<rparr>)"

text \<open>\<open>register_kprobe\<close> answers with a return code and the address of the probed symbol.\<close>

definition lookup_kallsyms_lookup_name :: "(string \<Rightarrow> c_int \<times> u64) \<Rightarrow> u64" where
  "lookup_kallsyms_lookup_name register_kprobe =
     (let (rc, addr) = register_kprobe ''kallsyms_lookup_name'' in if rc <s 0 then 0 else addr)"

definition init_page_walker :: "(string \<Rightarrow> c_int \<times> u64) \<Rightarrow> (u64 \<Rightarrow> string \<Rightarrow> 'f option) \<Rightarrow> c_int \<times> 'f option" where
  "init_page_walker register_kprobe call =
     (let kallsyms_lookup_name_prox = lookup_kallsyms_lookup_name register_kprobe in
      if kallsyms_lookup_name_prox = 0 then (FAIL, None)
      else let walk_page_range_prox = call kallsyms_lookup_name_prox ''walk_page_range'' in
        if walk_page_range_prox = None then (FAIL, None) else (OK, walk_page_range_prox))"

text \<open>The result is \<open>!(info.success)\<close>; what \<open>walk_page_range\<close> itself returns is dropped.\<close>

definition walk_and_collect_region :: "'m kernel_mm \<Rightarrow> ptr \<Rightarrow> 'm estate \<Rightarrow> (c_int \<times> 'm estate) option" where
  "walk_and_collect_region mm region s = do {
     let ops = \<lparr>on_pte = pte_entry (PTE_PFN_MASK mm), on_hugetlb = hugetlb_entry, on_hole = pte_hole\<rparr>;
     r \<leftarrow> regs s region;
     let stop = r_src r + (r_end r - r_start r);
     walk \<leftarrow> walk_page_range_prox mm;
     (_, w) \<leftarrow> walk (r_src r) stop ops (estate.extend s \<lparr>winfo = \<lparr>w_region = Some region, success = 1\<rparr>\<rparr>);
     Some (if success (winfo w) = 0 then 1 else 0, estate.truncate w) }"

end
