(* ===== verification/Enclave_Driver.thy ===== *)
theory Enclave_Driver
  imports Process
begin

text \<open>
  The operations of \<open>modules/libraries/enclave/src/internal/enclave.c\<close> on whole enclaves: \<open>commit_enclave\<close>,
  \<open>delete_enclave\<close> and \<open>enclave_transition\<close>, with \<open>dbg/dbg.c\<close>.  The loops are functions of their own; \<open>True\<close>
  is that a loop ran to its end, \<open>False\<close> that it was left by \<open>goto failure\<close> or \<open>return -1\<close>.
\<close>

section \<open>dbg.c\<close>

definition register_cr3 :: "u64 \<Rightarrow> ('m, 'z) estate_scheme \<Rightarrow> ('m, 'z) estate_scheme" where
  "register_cr3 x s = s\<lparr>other_cr3 := x\<rparr>"

text \<open>The assembly leaves the registers that it does not load to the compiler; they are \<open>junk\<close>.\<close>

definition debugging_transition :: "'m monitor \<Rightarrow> domain_id_t \<Rightarrow> ('m, 'z) world_scheme \<Rightarrow> ('m, 'z) world_scheme" where
  "debugging_transition vmc hdl w =
     (let (_, m) = vmc \<lparr>rax = 0x999, rcx = hdl, rdx = junk w, rsi = junk w, r9 = junk w\<rparr> (mon w) in w\<lparr>mon := m\<rparr>)"

text \<open>\<open>debugging_cr3\<close> reads the 512 entries of the registered root (and prints those that are not 0), then
  makes two hypercalls.\<close>

definition debugging_cr3 :: "'m monitor \<Rightarrow> kernel_map \<Rightarrow> ('m, 'z) estate_scheme \<Rightarrow> (u64 \<times> ('m, 'z) estate_scheme) option" where
  "debugging_cr3 vmc k s = do {
     let root = phys_to_virt k (other_cr3 s);
     c_assert (list_all (\<lambda>i. pt_mem s (root + 8 * of_nat i) \<noteq> None) [0..<512]);
     let (r, m) = vmc \<lparr>rax = 0xdeadbeef, rcx = other_cr3 s, rdx = junk s, rsi = junk s, r9 = junk s\<rparr> (mon s);
     let (_, m) = vmc (r\<lparr>rax := 0x500, rcx := 0xbadbeef\<rparr>) m;
     Some (other_cr3 s, s\<lparr>mon := m\<rparr>) }"

section \<open>commit_enclave\<close>

text \<open>The message and \<open>current\<close> are never NULL: the only caller passes the address of a local.\<close>

partial_function (option) collect_regions ::
  "'m kernel_mm \<Rightarrow> ptr option \<Rightarrow> 'm estate \<Rightarrow> (bool \<times> 'm estate) option" where
  "collect_regions mm cur s = (case cur of None \<Rightarrow> Some (True, s)
     | Some region \<Rightarrow> do {
         (rc, s) \<leftarrow> walk_and_collect_region mm region s;
         if rc \<noteq> 0 then Some (False, s)
         else do { y \<leftarrow> reg_links s region; collect_regions mm (nxt y) s } })"

partial_function (option) grant_pages ::
  "'m monitor \<Rightarrow> ptr \<Rightarrow> ptr option \<Rightarrow> ('m, 'z) estate_scheme \<Rightarrow> (bool \<times> ('m, 'z) estate_scheme) option" where
  "grant_pages vmc encl cur s = (case cur of None \<Rightarrow> Some (True, s)
     | Some pa_region \<Rightarrow> do {
         (rc, s) \<leftarrow> tyche_split_grant vmc (Some encl) (Some pa_region) s;
         if rc \<noteq> 0 then Some (False, s)
         else do { y \<leftarrow> glob_links s pa_region; grant_pages vmc encl (nxt y) s } })"

partial_function (option) delete_all_pas ::
  "ptr option \<Rightarrow> ('m, 'z) estate_scheme \<Rightarrow> ('m, 'z) estate_scheme option" where
  "delete_all_pas cur s = (case cur of None \<Rightarrow> Some s
     | Some region \<Rightarrow> do {
         s \<leftarrow> delete_region_pas region s;
         y \<leftarrow> reg_links s region;
         delete_all_pas (nxt y) s })"

partial_function (option) free_tables ::
  "kernel_map \<Rightarrow> ptr \<Rightarrow> ptr option \<Rightarrow> ('m, 'z) estate_scheme \<Rightarrow> ('m, 'z) estate_scheme option" where
  "free_tables k encl cur s = (case cur of None \<Rightarrow> Some s
     | Some tmp \<Rightarrow> do {
         y \<leftarrow> pa_links s tmp;
         s \<leftarrow> pts_remove encl tmp s;
         x \<leftarrow> pars s tmp;
         s \<leftarrow> free_pages_exact (phys_to_virt k (p_start x)) s;
         s \<leftarrow> free_pa tmp s;
         free_tables k encl (nxt y) s })"

text \<open>The label \<open>failure\<close>.\<close>

definition commit_failure ::
  "kernel_map \<Rightarrow> ptr \<Rightarrow> ('m, 'z) estate_scheme \<Rightarrow> (c_int \<times> ('m, 'z) estate_scheme) option" where
  "commit_failure k encl s = do {
     c \<leftarrow> encls s encl;
     s \<leftarrow> delete_all_pas (head (regions c)) s;
     c \<leftarrow> encls s encl;
     s \<leftarrow> free_tables k encl (head (pts c)) s;
     c \<leftarrow> encls s encl;
     Some (FAIL, s\<lparr>encls := (encls s)(encl \<mapsto> c\<lparr>cr3 := 0\<rparr>)\<rparr>) }"

definition commit_enclave ::
  "'m monitor \<Rightarrow> kernel_map \<Rightarrow> 'm kernel_mm \<Rightarrow> tyche_encl_commit_t \<Rightarrow> 'm estate \<Rightarrow>
   (c_int \<times> tyche_encl_commit_t \<times> 'm estate) option" where
  "commit_enclave vmc k mm commit s = do {
     found \<leftarrow> find_enclave (cm_handle commit) s;
     case found of None \<Rightarrow> Some (FAIL, commit, s)
     | Some encl \<Rightarrow> do {
         c \<leftarrow> encls s encl;
         if pid c \<noteq> current_pid s then Some (FAIL, commit, s)
         else do {
           (ok, s) \<leftarrow> collect_regions mm (head (regions c)) s;
           if \<not> ok then do { (rc, s) \<leftarrow> commit_failure k encl s; Some (rc, commit, s) }
           else do {
             (rc, s) \<leftarrow> build_enclave_cr3 k encl s;
             if rc \<noteq> 0 then do { (rc, s) \<leftarrow> commit_failure k encl s; Some (rc, commit, s) }
             else do {
               c \<leftarrow> encls s encl;
               (ok, s) \<leftarrow> grant_pages vmc encl (head (all_pages c)) s;
               if \<not> ok then do { (rc, s) \<leftarrow> commit_failure k encl s; Some (rc, commit, s) }
               else do {
                 c \<leftarrow> encls s encl;
                 let s = s\<lparr>encls := (encls s)(encl \<mapsto> c\<lparr>stack := cm_stack commit, e_entry := cm_entry commit\<rparr>)\<rparr>;
                 (rc, s) \<leftarrow> tyche_seal_enclave vmc (Some encl) s;
                 if rc \<noteq> 0 then do { (rc, s) \<leftarrow> commit_failure k encl s; Some (rc, commit, s) }
                 else do {
                   c \<leftarrow> encls s encl;
                   Some (OK, commit\<lparr>cm_domain_handle := tyche_handle c\<rparr>, register_cr3 (cr3 c) s) } } } } } } }"

section \<open>delete_enclave\<close>

partial_function (option) revoke_pages ::
  "'m monitor \<Rightarrow> ptr \<Rightarrow> ptr option \<Rightarrow> ('m, 'z) estate_scheme \<Rightarrow> (bool \<times> ('m, 'z) estate_scheme) option" where
  "revoke_pages vmc encl cur s = (case cur of None \<Rightarrow> Some (True, s)
     | Some pa_reg \<Rightarrow> do {
         c \<leftarrow> encls s encl;
         x \<leftarrow> pars s pa_reg;
         (rc, s) \<leftarrow> tyche_revoke_region vmc (tyche_handle c) (p_start x) (p_end x) s;
         if rc \<noteq> 0 then Some (False, s)
         else do { y \<leftarrow> glob_links s pa_reg; revoke_pages vmc encl (nxt y) s } })"

partial_function (option) free_all_pages ::
  "ptr \<Rightarrow> ('m, 'z) estate_scheme \<Rightarrow> ('m, 'z) estate_scheme option" where
  "free_all_pages encl s = do {
     c \<leftarrow> encls s encl;
     if dll_is_empty (all_pages c) then Some s
     else do {
       h \<leftarrow> head (all_pages c);
       s \<leftarrow> globals_remove encl h s;
       s \<leftarrow> free_pa h s;
       free_all_pages encl s } }"

partial_function (option) free_region_pas ::
  "ptr \<Rightarrow> ('m, 'z) estate_scheme \<Rightarrow> ('m, 'z) estate_scheme option" where
  "free_region_pas reg s = do {
     r \<leftarrow> regs s reg;
     if dll_is_empty (pas r) then Some s
     else do {
       h \<leftarrow> head (pas r);
       s \<leftarrow> pas_remove reg h s;
       s \<leftarrow> free_pa h s;
       free_region_pas reg s } }"

partial_function (option) free_pas_of_regions ::
  "ptr option \<Rightarrow> ('m, 'z) estate_scheme \<Rightarrow> ('m, 'z) estate_scheme option" where
  "free_pas_of_regions cur s = (case cur of None \<Rightarrow> Some s
     | Some reg \<Rightarrow> do {
         s \<leftarrow> free_region_pas reg s;
         y \<leftarrow> reg_links s reg;
         free_pas_of_regions (nxt y) s })"

partial_function (option) free_regions ::
  "ptr \<Rightarrow> ('m, 'z) estate_scheme \<Rightarrow> ('m, 'z) estate_scheme option" where
  "free_regions encl s = do {
     c \<leftarrow> encls s encl;
     if dll_is_empty (regions c) then Some s
     else do {
       h \<leftarrow> head (regions c);
       s \<leftarrow> regions_remove encl h s;
       s \<leftarrow> free_region h s;
       free_regions encl s } }"

definition delete_enclave ::
  "'m monitor \<Rightarrow> tyche_encl_handle_t \<Rightarrow> ('m, 'z) estate_scheme \<Rightarrow> (c_int \<times> ('m, 'z) estate_scheme) option" where
  "delete_enclave vmc hdl s = do {
     found \<leftarrow> find_enclave hdl s;
     case found of None \<Rightarrow> Some (FAIL, s)
     | Some encl \<Rightarrow> do {
         c \<leftarrow> encls s encl;
         (ok, s) \<leftarrow> revoke_pages vmc encl (head (all_pages c)) s;
         if \<not> ok then Some (FAIL, s)
         else do {
           s \<leftarrow> free_all_pages encl s;
           c \<leftarrow> encls s encl;
           s \<leftarrow> free_pas_of_regions (head (regions c)) s;
           s \<leftarrow> free_regions encl s;
           s \<leftarrow> enclaves_remove encl s;
           s \<leftarrow> free_enclave encl s;
           Some (OK, s) } } }"

section \<open>enclave_transition\<close>

text \<open>The argument of the transition goes to a register of its own, \<open>r10\<close>, which the frames of the capability
  library do not have: the monitor of this hypercall takes it as an extra argument.  The 64-bit result
  is returned as an \<open>int\<close>.\<close>

definition enclave_transition ::
  "(u64 \<Rightarrow> 'm monitor) \<Rightarrow> tyche_encl_transition_t \<Rightarrow> ('m, 'z) estate_scheme \<Rightarrow> (c_int \<times> ('m, 'z) estate_scheme) option" where
  "enclave_transition vmc10 transition s = do {
     found \<leftarrow> find_enclave (t_handle transition) s;
     case found of None \<Rightarrow> Some (FAIL, s)
     | Some encl \<Rightarrow> do {
         c \<leftarrow> encls s encl;
         let (r, m) = vmc10 (t_args transition) \<lparr>rax = 0x999, rcx = invoke c, rdx = junk s, rsi = junk s, r9 = junk s\<rparr> (mon s);
         Some (ucast (rax r), s\<lparr>mon := m, encls := (encls s)(encl \<mapsto> c\<lparr>invoke := rcx r\<rparr>)\<rparr>) } }"

end
