(* ===== verification/Driver_Module.thy ===== *)
theory Driver_Module
  imports Enclave_Driver
begin

text \<open>
  The kernel module itself: \<open>modules/libraries/enclave/src/ioctl.c\<close> and \<open>driver.c\<close>.  The memory of the
  calling process is seen through \<open>copy_from_user\<close> and \<open>copy_to_user\<close>: a record says which messages can
  be read at which address and which addresses can be written.  The results 0 and -1 of the \<open>long\<close> and
  \<open>int\<close> functions are 32-bit words.
\<close>

section \<open>Commands\<close>

text \<open>The encoding of \<open>linux/ioctl.h\<close>: direction, size, type and number.  The size is that of a pointer, or of
  the 64-bit handle.\<close>

definition IOC :: "u32 \<Rightarrow> u32 \<Rightarrow> u32 \<Rightarrow> u32" where
  "IOC dir nr sz = push_bit 30 dir OR push_bit 16 sz OR push_bit 8 0x61 OR nr"

definition TYCHE_ENCLAVE_DBG :: u32 where "TYCHE_ENCLAVE_DBG = IOC 2 0x61 8"
definition TYCHE_ENCLAVE_CREATE :: u32 where "TYCHE_ENCLAVE_CREATE = IOC 2 0x62 8"
definition TYCHE_ENCLAVE_ADD_REGION :: u32 where "TYCHE_ENCLAVE_ADD_REGION = IOC 1 0x63 8"
definition TYCHE_ENCLAVE_COMMIT :: u32 where "TYCHE_ENCLAVE_COMMIT = IOC 3 0x64 8"
definition TYCHE_ENCLAVE_ADD_STACK :: u32 where "TYCHE_ENCLAVE_ADD_STACK = IOC 1 0x65 8"
definition TYCHE_TRANSITION :: u32 where "TYCHE_TRANSITION = IOC 2 0x66 8"
definition TYCHE_ENCLAVE_DELETE :: u32 where "TYCHE_ENCLAVE_DELETE = IOC 2 0x67 8"

lemmas ioctl_defs = IOC_def TYCHE_ENCLAVE_DBG_def TYCHE_ENCLAVE_CREATE_def TYCHE_ENCLAVE_ADD_REGION_def
  TYCHE_ENCLAVE_COMMIT_def TYCHE_ENCLAVE_ADD_STACK_def TYCHE_TRANSITION_def TYCHE_ENCLAVE_DELETE_def

section \<open>ioctl\<close>

text \<open>\<open>u_partial\<close> is what the local \<open>commit\<close> of the handler contains after a failed copy.\<close>

record user_space =
  u_create :: "u64 \<rightharpoonup> tyche_encl_handle_t"
  u_region :: "u64 \<rightharpoonup> tyche_encl_add_region_t"
  u_commit :: "u64 \<rightharpoonup> tyche_encl_commit_t"
  u_transition :: "u64 \<rightharpoonup> tyche_encl_transition_t"
  u_partial :: "u64 \<Rightarrow> tyche_encl_commit_t"
  writable :: "u64 \<Rightarrow> bool"

definition tyche_enclave_ioctl ::
  "'m monitor \<Rightarrow> (u64 \<Rightarrow> 'm monitor) \<Rightarrow> kernel_map \<Rightarrow> 'm kernel_mm \<Rightarrow> u32 \<Rightarrow> u64 \<Rightarrow> user_space \<Rightarrow> 'm estate \<Rightarrow>
   (c_int \<times> user_space \<times> 'm estate) option" where
  "tyche_enclave_ioctl vmc vmc10 k mm cmd arg u s =
     (if cmd = TYCHE_ENCLAVE_DBG then Some (OK, u, debugging_transition vmc arg s)
      else if cmd = TYCHE_TRANSITION then
        (case u_transition u arg of None \<Rightarrow> Some (FAIL, u, s)
         | Some transition \<Rightarrow> do {
             (rc, s) \<leftarrow> enclave_transition vmc10 transition s;
             Some (if rc \<noteq> 0 then FAIL else OK, u, s) })
      else if cmd = TYCHE_ENCLAVE_DELETE then do {
        (rc, s) \<leftarrow> delete_enclave vmc arg s;
        Some (if rc \<noteq> 0 then FAIL else OK, u, s) }
      else if cmd = TYCHE_ENCLAVE_CREATE then do {
        let hdl = tyche_ids s;
        let s = s\<lparr>tyche_ids := tyche_ids s + 1\<rparr>;
        (rc, s) \<leftarrow> add_enclave vmc hdl s;
        if rc \<noteq> 0 then Some (FAIL, u, s)
        else if \<not> writable u arg then Some (FAIL, u, s)
        else Some (OK, u\<lparr>u_create := (u_create u)(arg \<mapsto> hdl)\<rparr>, s) }
      else if cmd = TYCHE_ENCLAVE_ADD_REGION then
        (case u_region u arg of None \<Rightarrow> Some (FAIL, u, s)
         | Some region \<Rightarrow> do {
             (rc, s) \<leftarrow> add_region region s;
             Some (if rc = FAIL then FAIL else OK, u, s) })
      else if cmd = TYCHE_ENCLAVE_COMMIT then do {
        let commit = (case u_commit u arg of None \<Rightarrow> u_partial u arg | Some c \<Rightarrow> c);
        (rc, commit, s) \<leftarrow> commit_enclave vmc k mm commit s;
        if rc = FAIL then Some (FAIL, u, s)
        else if \<not> writable u arg then Some (FAIL, u, s)
        else Some (OK, u\<lparr>u_commit := (u_commit u)(arg \<mapsto> commit)\<rparr>, s) }
      else if cmd = TYCHE_ENCLAVE_ADD_STACK then
        (case u_region u arg of None \<Rightarrow> Some (FAIL, u, s)
         | Some region \<Rightarrow> do {
             (rc, s) \<leftarrow> add_stack_region region s;
             Some (if rc = FAIL then FAIL else OK, u, s) })
      else Some (FAIL, u, s))"

definition tyche_enclave_open :: "'s \<Rightarrow> c_int \<times> 's" where
  "tyche_enclave_open s = (OK, s)"

section \<open>Loading and unloading\<close>

text \<open>What the kernel holds for the module, and what the calls of the kernel return.\<close>

record kernel_objects =
  chrdev :: bool
  cdev :: bool
  dclass :: bool
  device :: bool

record kernel_results =
  alloc_rc :: c_int
  cdev_rc :: c_int
  class_ok :: bool
  device_ok :: bool

definition r_class :: "kernel_objects \<Rightarrow> kernel_objects" where
  "r_class d = d\<lparr>chrdev := False\<rparr>"

definition r_device :: "kernel_objects \<Rightarrow> kernel_objects" where
  "r_device d = r_class (d\<lparr>dclass := False\<rparr>)"

definition tyche_enclave_register ::
  "kernel_results \<Rightarrow> (string \<Rightarrow> c_int \<times> u64) \<Rightarrow> (u64 \<Rightarrow> string \<Rightarrow> 'f option) \<Rightarrow> kernel_objects \<Rightarrow> ('m, 'z) estate_scheme \<Rightarrow>
   c_int \<times> 'f option \<times> kernel_objects \<times> ('m, 'z) estate_scheme" where
  "tyche_enclave_register res register_kprobe call d s =
     (if alloc_rc res <s 0 then (FAIL, None, d, s)
      else let d = d\<lparr>chrdev := True\<rparr> in
        if cdev_rc res <s 0 then (FAIL, None, r_class d, s)
        else let d = d\<lparr>cdev := True\<rparr> in
          if \<not> class_ok res then (FAIL, None, r_class d, s)
          else let d = d\<lparr>dclass := True\<rparr> in
            if \<not> device_ok res then (FAIL, None, r_device d, s)
            else let d = d\<lparr>device := True\<rparr>; s = enclave_init s; (rc, walk) = init_page_walker register_kprobe call in
              if rc \<noteq> 0 then (FAIL, walk, r_device d, s) else (OK, walk, d, s))"

definition tyche_enclave_unregister :: "kernel_objects \<Rightarrow> kernel_objects" where
  "tyche_enclave_unregister d = d\<lparr>device := False, dclass := False, cdev := False, chrdev := False\<rparr>"

definition tyche_enclave_init ::
  "kernel_results \<Rightarrow> (string \<Rightarrow> c_int \<times> u64) \<Rightarrow> (u64 \<Rightarrow> string \<Rightarrow> 'f option) \<Rightarrow> kernel_objects \<Rightarrow> ('m, 'z) estate_scheme \<Rightarrow>
   c_int \<times> 'f option \<times> kernel_objects \<times> ('m, 'z) estate_scheme" where
  "tyche_enclave_init res register_kprobe call d s = tyche_enclave_register res register_kprobe call d s"

definition tyche_enclave_exit :: "kernel_objects \<Rightarrow> kernel_objects" where
  "tyche_enclave_exit d = tyche_enclave_unregister d"

end
