(* ===== verification/Driver_Frame.thy ===== *)
theory Driver_Frame
  imports Driver_Module
begin

text \<open>
  What the operations of the driver leave alone.  The capability library changes no field of the driver; and
  no operation but \<open>add_enclave\<close> and \<open>delete_enclave\<close> changes the list of enclaves, or a handle or an owner in it.
\<close>

section \<open>The capability library\<close>

text \<open>The fields behind those of the library.\<close>

abbreviation ours :: "('m, 'z) tstate_scheme \<Rightarrow> ('m, 'z) tstate_scheme \<Rightarrow> bool" where
  "ours s s' \<equiv> tstate.more s' = tstate.more s \<and> brk s \<le> brk s'"

lemma tyche_call_ours:
  "tstate.more (snd (snd (tyche_call vmc f s))) = tstate.more s" "brk (snd (snd (tyche_call vmc f s))) = brk s"
  by (simp_all add: tyche_call_def split_def Let_def)

lemma api_ours:
  "tstate.more (snd (snd (tyche_split_capa vmc h a o1 s))) = tstate.more s" "brk (snd (snd (tyche_split_capa vmc h a o1 s))) = brk s"
  "tstate.more (snd (snd (tyche_grant_capa vmc d h t o1 s))) = tstate.more s" "brk (snd (snd (tyche_grant_capa vmc d h t o1 s))) = brk s"
  "tstate.more (snd (snd (tyche_share_capa vmc d h t o1 s))) = tstate.more s" "brk (snd (snd (tyche_share_capa vmc d h t o1 s))) = brk s"
  "tstate.more (snd (tyche_merge_capa vmc h h2 s)) = tstate.more s" "brk (snd (tyche_merge_capa vmc h h2 s)) = brk s"
  "tstate.more (snd (tyche_domain_revoke vmc h s)) = tstate.more s" "brk (snd (tyche_domain_revoke vmc h s)) = brk s"
  "tyche_domain_seal vmc h c e k i s = Some x \<Longrightarrow> ours s (snd (snd x))"
  by (auto simp: tyche_split_capa_def tyche_grant_capa_def tyche_share_capa_def tyche_merge_capa_def
      tyche_domain_revoke_def tyche_domain_seal_def split_def Let_def bind_Some_iff tyche_call_ours split: if_splits)

lemma lib_primitives:
  "alloc_capa s = Some x \<Longrightarrow> ours s (snd x)" "alloc_revok s = Some x \<Longrightarrow> ours s (snd x)"
  "dealloc_capa q s = Some s' \<Longrightarrow> ours s s'" "dealloc_revok q s = Some s' \<Longrightarrow> ours s s'"
  "capa_list_add q s = Some s' \<Longrightarrow> ours s s'" "capa_list_remove q s = Some s' \<Longrightarrow> ours s s'"
  "revoks_add q r s = Some s' \<Longrightarrow> ours s s'" "revoks_remove q r s = Some s' \<Longrightarrow> ours s s'"
  "set_status q st s = Some s' \<Longrightarrow> ours s s'"
  by (auto simp: alloc_capa_def alloc_revok_def dealloc_capa_def dealloc_revok_def capa_list_add_def capa_list_remove_def
      revoks_add_def revoks_remove_def set_status_def kmalloc_def Let_def bind_Some_iff split: prod.splits if_splits)

lemmas lib_unfold = bind_Some_iff Let_def split_def

lemma split_capa_ours: "split_capa vmc c a s = Some x \<Longrightarrow> ours s (snd x)"
  by (auto simp: split_capa_def lib_unfold api_ours split: option.splits if_splits dest!: lib_primitives)

lemma transfer_carve_ours: "transfer_carve vmc a b p s = Some x \<Longrightarrow> ours s (snd x)"
  unfolding transfer_carve_def
  by (erule bind_SomeE | drule split_capa_ours | clarsimp split: option.split_asm if_split_asm)+

lemma transfer_grant_ours: "transfer_grant vmc d t q s = Some y \<Longrightarrow> ours s (snd y)"
  by (auto simp: transfer_grant_def lib_unfold api_ours split: option.split_asm if_split_asm dest!: lib_primitives)

lemma transfer_share_ours: "transfer_share vmc d t q s = Some y \<Longrightarrow> ours s (snd y)"
  by (auto simp: transfer_share_def lib_unfold api_ours split: option.split_asm if_split_asm dest!: lib_primitives)

lemmas transfer_ours = transfer_carve_ours transfer_grant_ours transfer_share_ours

lemma transfer_capa_ours: "transfer_capa vmc d a b t s = Some x \<Longrightarrow> ours s (snd x)"
  unfolding transfer_capa_def
  by (erule bind_SomeE | drule transfer_ours | clarsimp split: option.split_asm if_split_asm)+

lemma merge_ours:
  "merge_left vmc pv p s = Some x \<Longrightarrow> ours s (snd x)" "merge_right vmc pv nx p s = Some s' \<Longrightarrow> ours s s'"
  by (auto simp: merge_left_def merge_right_def lib_unfold api_ours split: option.splits if_splits dest!: lib_primitives)

lemma attempt_merge_ours: "attempt_merge vmc p s = Some x \<Longrightarrow> ours s (snd x)"
  by (auto simp: attempt_merge_def lib_unfold split: option.splits if_splits dest!: merge_ours)

lemma revoke_ours:
  "revoke_paused vmc d p s = Some x \<Longrightarrow> ours s (snd x)" "revoke_shared vmc d p s = Some x \<Longrightarrow> ours s (snd x)"
  by (auto simp: revoke_paused_def revoke_shared_def lib_unfold api_ours split: option.splits if_splits
      dest!: lib_primitives attempt_merge_ours)

lemma revoke_capa_ours: "revoke_capa vmc d a b s = Some x \<Longrightarrow> ours s (snd x)"
  by (auto simp: revoke_capa_def lib_unfold split: option.splits if_splits dest!: revoke_ours attempt_merge_ours)

lemma estate_more:
  fixes s s' :: "('m, 'z) estate_scheme"
  assumes "tstate.more s' = tstate.more s"
  shows "encls s' = encls s" and "encl_links s' = encl_links s" and "regs s' = regs s" and "reg_links s' = reg_links s"
    and "pars s' = pars s" and "pa_links s' = pa_links s" and "glob_links s' = glob_links s" and "enclaves s' = enclaves s"
    and "current_pid s' = current_pid s" and "tyche_ids s' = tyche_ids s"
  using assms by (cases s, cases s', simp)+

section \<open>The list of enclaves\<close>

text \<open>What identifies an enclave: its handle and its owner.\<close>

definition ident :: "enclave_t \<Rightarrow> tyche_encl_handle_t \<times> u32" where
  "ident c = (e_handle c, pid c)"

definition keeps :: "('m, 'z) estate_scheme \<Rightarrow> ('m, 'z) estate_scheme \<Rightarrow> bool" where
  "keeps s s' \<longleftrightarrow> enclaves s' = enclaves s \<and> encl_links s' = encl_links s \<and> current_pid s' = current_pid s \<and>
     tyche_ids s' = tyche_ids s \<and> brk s \<le> brk s' \<and>
     (\<forall>p. map_option ident (encls s' p) = map_option ident (encls s p))"

lemma keeps_refl [simp]: "keeps s s"
  by (simp add: keeps_def)

lemma keeps_trans: "keeps s t \<Longrightarrow> keeps t u \<Longrightarrow> keeps s u"
  by (simp add: keeps_def)

lemma keeps_ours: "ours s s' \<Longrightarrow> keeps s s'"
  using estate_more [of s' s] by (simp add: keeps_def)

text \<open>Updates of other fields, on either side.\<close>

lemma keeps_upd [simp]:
  "keeps s (t\<lparr>regs := a\<rparr>) = keeps s t" "keeps s (t\<lparr>reg_links := b\<rparr>) = keeps s t" "keeps s (t\<lparr>pars := c\<rparr>) = keeps s t"
  "keeps s (t\<lparr>pa_links := b\<rparr>) = keeps s t" "keeps s (t\<lparr>glob_links := b\<rparr>) = keeps s t" "keeps s (t\<lparr>pt_mem := d\<rparr>) = keeps s t"
  "keeps s (t\<lparr>page_next := e\<rparr>) = keeps s t" "keeps s (t\<lparr>other_cr3 := g\<rparr>) = keeps s t" "keeps s (t\<lparr>mon := h\<rparr>) = keeps s t"
  "keeps (s\<lparr>regs := a\<rparr>) t = keeps s t" "keeps (s\<lparr>reg_links := b\<rparr>) t = keeps s t" "keeps (s\<lparr>pars := c\<rparr>) t = keeps s t"
  "keeps (s\<lparr>pa_links := b\<rparr>) t = keeps s t" "keeps (s\<lparr>glob_links := b\<rparr>) t = keeps s t" "keeps (s\<lparr>pt_mem := d\<rparr>) t = keeps s t"
  "keeps (s\<lparr>page_next := e\<rparr>) t = keeps s t" "keeps (s\<lparr>other_cr3 := g\<rparr>) t = keeps s t" "keeps (s\<lparr>mon := h\<rparr>) t = keeps s t"
  by (simp_all add: keeps_def)

lemma keeps_set:
  assumes "encls t p = Some c" and "e_handle c' = e_handle c" and "pid c' = pid c"
  shows "keeps s (t\<lparr>encls := (encls t)(p \<mapsto> c')\<rparr>) = keeps s t"
proof -
  have "map_option ident (((encls t)(p \<mapsto> c')) q) = map_option ident (encls t q)" for q
    using assms by (simp add: ident_def)
  then show ?thesis by (simp add: keeps_def del: fun_upd_apply)
qed

lemma keeps_new:
  "alloc_pa s = (p, s') \<Longrightarrow> keeps s s'" "alloc_region s = (p, s') \<Longrightarrow> keeps s s'"
  by (auto simp: alloc_pa_def alloc_region_def kmalloc_def Let_def keeps_def split: if_splits)

lemma keeps_primitives:
  "regions_remove e r s = Some s' \<Longrightarrow> keeps s s'" "regions_add_after e r q s = Some s' \<Longrightarrow> keeps s s'"
  "regions_add_first e r s = Some s' \<Longrightarrow> keeps s s'" "globals_remove e r s = Some s' \<Longrightarrow> keeps s s'"
  "globals_add_after e r q s = Some s' \<Longrightarrow> keeps s s'" "globals_add_first e r s = Some s' \<Longrightarrow> keeps s s'"
  "pas_add r p s = Some s' \<Longrightarrow> keeps s s'" "pas_remove r p s = Some s' \<Longrightarrow> keeps s s'"
  "pts_add e p s = Some s' \<Longrightarrow> keeps s s'" "pts_remove e p s = Some s' \<Longrightarrow> keeps s s'"
  "free_region r s = Some s' \<Longrightarrow> keeps s s'" "free_pa p s = Some s' \<Longrightarrow> keeps s s'"
  "init_pa p a b ty s = Some s' \<Longrightarrow> keeps s s'" "free_pages_exact v s = Some s' \<Longrightarrow> keeps s s'"
  "store_entry a e' s = Some s' \<Longrightarrow> keeps s s'"
  by (auto simp: regions_remove_def regions_add_after_def regions_add_first_def globals_remove_def globals_add_after_def
      globals_add_first_def pas_add_def pas_remove_def pts_add_def pts_remove_def free_region_def free_pa_def init_pa_def
      free_pages_exact_def store_entry_def bind_Some_iff Let_def keeps_set split: prod.splits)

lemmas keeps_steps = keeps_primitives keeps_new

text \<open>The loops, by induction over the iterations.\<close>

lemma add_region_loop_keeps:
  assumes "add_region_loop en r i pv s = Some y"
  shows "keeps s (snd y)"
  using assms
proof (rule add_region_loop.raw_induct [where P = "\<lambda>en r i pv s y. keeps s (snd y)", rotated], goal_cases)
  case (1 loop en r i pv s y)
  show ?case using 1(2)
    by (auto simp: lib_unfold split: option.split_asm if_split_asm dest!: keeps_steps 1(1) intro: keeps_trans) (blast intro: keeps_trans)+
qed

lemma add_merge_loop_keeps:
  assumes "add_merge_loop en r i pv s = Some y"
  shows "keeps s (snd y)"
  using assms
proof (rule add_merge_loop.raw_induct [where P = "\<lambda>en r i pv s y. keeps s (snd y)", rotated], goal_cases)
  case (1 loop en r i pv s y)
  show ?case using 1(2)
    by (auto simp: lib_unfold split: option.split_asm if_split_asm dest!: keeps_steps 1(1) intro: keeps_trans) (blast intro: keeps_trans)+
qed

lemma add_merge_global_keeps: "add_merge_global en r s = Some y \<Longrightarrow> keeps s (snd y)"
  unfolding add_merge_global_def
  by (erule bind_SomeE | drule keeps_steps add_merge_loop_keeps | drule (1) keeps_trans |
      clarsimp split: option.split_asm scan.split_asm)+

lemma add_pa_to_region_keeps: "add_pa_to_region r p s = Some y \<Longrightarrow> keeps s (snd y)"
  by (auto simp: add_pa_to_region_def lib_unfold split: option.split_asm if_split_asm dest!: keeps_steps)

lemma add_region_keeps: "add_region m s = Some y \<Longrightarrow> keeps s (snd y)"
  unfolding add_region_def
  by (erule bind_SomeE | drule keeps_steps add_region_loop_keeps | drule (1) keeps_trans |
      clarsimp split: option.split_asm if_split_asm scan.split_asm prod.split_asm)+

lemma add_stack_region_keeps: "add_stack_region m s = Some y \<Longrightarrow> keeps s (snd y)"
  by (auto simp: add_stack_region_def lib_unfold split: option.split_asm if_split_asm dest!: add_region_keeps
      simp: keeps_set)

text \<open>The mapper.\<close>

lemma alloc_pages_exact_keeps: "alloc_pages_exact s = (v, s') \<Longrightarrow> keeps s s'"
  by (auto simp: alloc_pages_exact_def split: option.split_asm)

lemma allocate_keeps: "allocate k s = Some y \<Longrightarrow> keeps s (snd y)"
  unfolding allocate_def Let_def
  by (erule bind_SomeE | drule keeps_steps add_merge_global_keeps alloc_pages_exact_keeps | drule (1) keeps_trans |
      clarsimp split: option.split_asm if_split_asm prod.split_asm)+

lemma keeps_minfo [simp]: "keeps s (t\<lparr>minfo := i\<rparr>) = keeps s t" "keeps (s\<lparr>minfo := i\<rparr>) t = keeps s t"
  "keeps s (t\<lparr>profile_va := v\<rparr>) = keeps s t" "keeps (s\<lparr>profile_va := v\<rparr>) t = keeps s t"
  by (simp_all add: keeps_def)

lemma mapper_keeps:
  "entry_page h a l s = Some y \<Longrightarrow> keeps s (snd y)" "normal_page k a l s = Some z \<Longrightarrow> keeps s (snd z)"
  by (auto simp: entry_page_def normal_page_def lib_unfold dest!: keeps_steps allocate_keeps intro: keeps_trans)

lemma default_mapper_keeps: "default_mapper k a l s = Some y \<Longrightarrow> keeps s (snd y)"
  by (auto simp: default_mapper_def lib_unfold split: option.split_asm if_split_asm dest!: mapper_keeps)

text \<open>A walk keeps what its callbacks keep.\<close>

lemma entries_keep:
  assumes r: "\<And>s. R s s" "\<And>s t u. R s t \<Longrightarrow> R t u \<Longrightarrow> R s u" and v: "\<And>a s. R s (set_curr_va mem a s)"
    and c: "\<And>a s act t. entry_action prof a l s = Some (act, t) \<Longrightarrow> R s t"
    and below: "\<And>x a s rc t. l \<noteq> 0 \<Longrightarrow> pt_walk_page_range prof mem x (l - 1) a stop s = Some (rc, t) \<Longrightarrow> R s t"
  shows "pt_walk_entries prof mem va l start stop msk sh i0 i st = Some (rc, t) \<Longrightarrow> R st t"
proof (induction "unat (nb_entries prof - i)" arbitrary: i st rule: less_induct)
  case less
  let ?va = "current_va msk sh start i0 i" and ?a = "va + 8 * ucast i"
  show ?case
  proof (cases "i < nb_entries prof \<and> \<not> stop \<le> ?va")
    case False
    then show ?thesis using less.prems v by (subst (asm) pt_walk_entries.simps) (auto split: if_splits)
  next
    case True
    then have lt: "unat (nb_entries prof - (i + 1)) < unat (nb_entries prof - i)" by (simp add: index_step)
    obtain act u where u: "entry_action prof ?a l (set_curr_va mem ?va st) = Some (act, u)"
      using True less.prems by (subst (asm) pt_walk_entries.simps) (auto simp: Let_def split: option.split_asm)
    have ru: "R st u" using r(2) [OF v c [OF u]] .
    consider "t = u" | "pt_walk_entries prof mem va l start stop msk sh i0 (i + 1) u = Some (rc, t)"
      | x w rc' where "l \<noteq> 0" "pt_walk_page_range prof mem x (l - 1) ?va stop u = Some (rc', w)"
        "pt_walk_entries prof mem va l start stop msk sh i0 (i + 1) w = Some (rc, t)"
      using True less.prems u
      by (subst (asm) pt_walk_entries.simps) (auto simp: Let_def split: option.split_asm if_split_asm prod.split_asm)
    then show ?thesis
    proof cases
      case 3
      then show ?thesis using ru r(2) below less.hyps [OF lt 3(3)] by blast
    qed (use ru r(2) less.hyps [OF lt] in blast)+
  qed
qed

lemma walk_keeps:
  assumes r: "\<And>s. R s s" "\<And>s t u. R s t \<Longrightarrow> R t u \<Longrightarrow> R s u" and v: "\<And>a s. R s (set_curr_va mem a s)"
    and c: "\<And>a l s act t. entry_action prof a l s = Some (act, t) \<Longrightarrow> R s t"
  shows "pt_walk_page_range prof mem root level start stop st = Some (rc, t) \<Longrightarrow> R st t"
proof (induction "unat level" arbitrary: level start root st rc t rule: less_induct)
  case less
  obtain va msk sh s where w: "pt_walk_entries prof mem va level start stop msk sh s s st = Some (rc, t)"
    using less.prems by (subst (asm) pt_walk_page_range.simps) (auto split: if_splits option.split_asm)
  show ?case
  proof (rule entries_keep [where R = R, OF _ _ _ _ _ w])
    show "R s t" if "level \<noteq> 0" "pt_walk_page_range prof mem x (level - 1) a stop s = Some (rc, t)" for x a s rc t
      by (rule less.hyps [OF level_step [OF that(1)] that(2)])
  qed (rule r v c; assumption)+
qed

text \<open>The operations of the mapper and the collection of pages, on states without their locals.\<close>

lemma mapper_action_keeps: "entry_action (mapper_profile k) a l s = Some (act, t) \<Longrightarrow> keeps s t"
proof -
  have h: "how (mapper_profile k) = Some (x86_64_how_map mapper_memory)"
    and v: "at_level (visitors (mapper_profile k)) l = Some (Some f) \<Longrightarrow> False" for f :: "'m mstate callback_t"
    by (auto simp: mapper_profile_def x86_64_profile_def at_level_def MAX_LEVEL_def split: if_splits)
  have m: "at_level (mappers (mapper_profile k)) l = Some (Some f) \<Longrightarrow> f = default_mapper k" for f
    by (auto simp: mapper_profile_def at_level_def MAX_LEVEL_def pt_level_defs nth_list_update split: if_splits)
  have visit: "do_visit (mapper_profile k) a l u = Some (act, t) \<Longrightarrow> t = u" for u act
    using v by (auto simp: do_visit_def bind_Some_iff split: option.split_asm)
  have map: "do_map (mapper_profile k) a l u = Some (act, t) \<Longrightarrow> keeps u t" for u act
    unfolding do_map_def
    by (erule bind_SomeE | drule default_mapper_keeps visit |
        clarsimp dest!: m split: option.split_asm callback_action_t.split_asm)+
  assume "entry_action (mapper_profile k) a l s = Some (act, t)"
  then show ?thesis unfolding entry_action_def h x86_64_how_map_def
    by (auto simp: bind_Some_iff split: if_split_asm dest!: map visit)
qed

lemma map_region_keeps: "map_region k rg s = Some y \<Longrightarrow> keeps s (snd y)"
proof -
  have w: "pt_walk_page_range (mapper_profile k) mapper_memory x l a b u = Some (rc, t) \<Longrightarrow> keeps u t" for x l a b u rc t
    by (rule walk_keeps [where R = keeps]) (auto simp: mapper_memory_def intro: keeps_trans mapper_action_keeps)
  assume "map_region k rg s = Some y"
  then show ?thesis unfolding map_region_def
    by (cases y) (auto simp: lib_unfold split: option.split_asm dest!: w)
qed

lemma merge_pas_keeps:
  assumes "merge_pas en c s = Some y"
  shows "keeps s (snd y)"
  using assms
proof (rule merge_pas.raw_induct [where P = "\<lambda>en c s y. keeps s (snd y)", rotated], goal_cases)
  case (1 loop en c s y)
  have "keeps s (snd (alloc_pa s))" by (rule keeps_new(1) [OF surjective_pairing])
  then show ?case using 1(2)
    by (auto simp: lib_unfold split: option.split_asm if_split_asm
        dest!: keeps_steps add_merge_global_keeps 1(1) intro: keeps_trans) (blast intro: keeps_trans)+
qed

lemma map_regions_keeps:
  assumes "map_regions k en c s = Some y"
  shows "keeps s (snd y)"
  using assms
proof (rule map_regions.raw_induct [where P = "\<lambda>k en c s y. keeps s (snd y)", rotated], goal_cases)
  case (1 loop k en c s y)
  show ?case using 1(2)
    by (auto simp: lib_unfold split: option.split_asm if_split_asm
        dest!: map_region_keeps merge_pas_keeps 1(1) intro: keeps_trans) (blast intro: keeps_trans)+
qed

text \<open>The local state of a walk comes and goes.\<close>

lemma keeps_local:
  "keeps (estate.extend s x) t \<Longrightarrow> keeps s (estate.truncate t)"
  by (simp add: keeps_def estate.defs)

lemma keeps_local':
  "keeps u t \<Longrightarrow> keeps (estate.extend s x) u \<Longrightarrow> keeps s (estate.truncate t)"
  by (rule keeps_local) (rule keeps_trans)

lemma build_enclave_cr3_keeps: "build_enclave_cr3 k en s = Some y \<Longrightarrow> keeps s (snd y)"
proof -
  assume "build_enclave_cr3 k en s = Some y"
  then obtain i v m root c rc n where
      m: "allocate k (estate.extend s \<lparr>minfo = i, profile_va = v\<rparr>) = Some (root, m)" and c: "encls m en = Some c"
    and n: "map_regions k en (head (regions c)) (m\<lparr>encls := (encls m)(en \<mapsto> c\<lparr>cr3 := root\<rparr>)\<rparr>) = Some (rc, n)"
    and y: "snd y = estate.truncate n"
    unfolding build_enclave_cr3_def by (auto simp: lib_unfold)
  have "keeps m (m\<lparr>encls := (encls m)(en \<mapsto> c\<lparr>cr3 := root\<rparr>)\<rparr>)" by (simp add: keeps_set c)
  then have "keeps m n" using map_regions_keeps [OF n] by (auto intro: keeps_trans)
  then show ?thesis using allocate_keeps [OF m] y by (simp add: keeps_local')
qed

section \<open>The kernel's page walk\<close>

text \<open>What the kernel documents of \<open>walk_page_range\<close>: it goes through the pages of the range in order, hands each
  one to the callback for its kind, stops at the first callback that does not return 0 and returns its
  result.  \<open>pages a b\<close> are the pages between \<open>a\<close> and \<open>b\<close>.\<close>

datatype page = Pte u64 u64 | Hugepage u64 u64 | Hole u64

fun run_walk :: "'s mm_walk_ops \<Rightarrow> page list \<Rightarrow> 's \<Rightarrow> (c_int \<times> 's) option" where
  "run_walk ops [] s = Some (OK, s)" |
  "run_walk ops (p # ps) s = do {
     (rc, s) \<leftarrow> (case p of Pte pte addr \<Rightarrow> on_pte ops pte addr s
       | Hugepage pte addr \<Rightarrow> on_hugetlb ops pte addr s | Hole addr \<Rightarrow> on_hole ops addr s);
     if rc \<noteq> 0 then Some (rc, s) else run_walk ops ps s }"

definition page_walk :: "'m kernel_mm \<Rightarrow> (u64 \<Rightarrow> u64 \<Rightarrow> page list) \<Rightarrow> bool" where
  "page_walk mm pages \<longleftrightarrow>
     (\<exists>walk. walk_page_range_prox mm = Some walk \<and> (\<forall>a b ops s. walk a b ops s = run_walk ops (pages a b) s))"

lemma keeps_winfo [simp]: "keeps s (t\<lparr>winfo := i\<rparr>) = keeps s t" "keeps (s\<lparr>winfo := i\<rparr>) t = keeps s t"
  by (simp_all add: keeps_def)

lemma pte_entry_keeps: "pte_entry msk pte addr s = Some y \<Longrightarrow> keeps s (snd y)"
  unfolding pte_entry_def failure_with_info_def Let_def
  by (erule bind_SomeE | drule keeps_steps add_pa_to_region_keeps | drule (1) keeps_trans |
      clarsimp split: option.split_asm if_split_asm prod.split_asm)+

lemma run_walk_keeps:
  assumes "\<And>pte a s y. on_pte ops pte a s = Some y \<Longrightarrow> keeps s (snd y)"
    and "\<And>pte a s y. on_hugetlb ops pte a s = Some y \<Longrightarrow> keeps s (snd y)"
    and "\<And>a s y. on_hole ops a s = Some y \<Longrightarrow> keeps s (snd y)"
  shows "run_walk ops ps s = Some y \<Longrightarrow> keeps s (snd y)"
proof (induction ps arbitrary: s)
  case (Cons p ps)
  then show ?case using assms
    by (cases p) (fastforce simp: bind_Some_iff split: if_splits dest: keeps_trans)+
qed auto

lemma walk_and_collect_keeps:
  assumes "page_walk mm pages" and "walk_and_collect_region mm rg s = Some y"
  shows "keeps s (snd y)"
proof -
  let ?ops = "\<lparr>on_pte = pte_entry (PTE_PFN_MASK mm), on_hugetlb = hugetlb_entry, on_hole = pte_hole\<rparr>"
  let ?w = "estate.extend s \<lparr>winfo = \<lparr>w_region = Some rg, success = 1\<rparr>\<rparr>"
  have "run_walk ?ops ps u = Some x \<Longrightarrow> keeps u (snd x)" for ps u x
    by (rule run_walk_keeps) (auto simp: hugetlb_entry_def pte_hole_def dest: pte_entry_keeps)
  moreover obtain ps x where "run_walk ?ops ps ?w = Some x" "snd y = estate.truncate (snd x)"
    using assms unfolding walk_and_collect_region_def page_walk_def by (auto simp: lib_unfold)
  ultimately show ?thesis using keeps_local by metis
qed

section \<open>Committing and deleting\<close>

lemma collect_regions_keeps:
  assumes "page_walk mm pages" and "collect_regions mm cur s = Some y"
  shows "keeps s (snd y)"
  using assms(2)
proof (rule collect_regions.raw_induct [where P = "\<lambda>m cur s y. m = mm \<longrightarrow> keeps s (snd y)", rotated, THEN mp], goal_cases)
  case (1 loop m cur s y)
  show ?case using 1(2)
    by (auto simp: lib_unfold split: option.split_asm if_split_asm dest!: walk_and_collect_keeps [OF assms(1)] 1(1)
        intro: keeps_trans)
qed simp

lemma forward_ours:
  "tyche_split_grant vmc e r s = Some x \<Longrightarrow> ours s (snd x)"
  "tyche_revoke_region vmc did a b s = Some x \<Longrightarrow> ours s (snd x)"
  "tc_seal_domain vmc did a b c i s = Some z \<Longrightarrow> ours s (snd (snd z))"
  by (auto simp: tyche_split_grant_def tyche_revoke_region_def tc_transfer_capability_def tc_revoke_region_def
      tc_seal_domain_def seal_domain_def lib_unfold split: option.split_asm
      dest: transfer_capa_ours revoke_capa_ours api_ours(11))

lemma grant_pages_ours:
  assumes "grant_pages vmc en cur s = Some y"
  shows "ours s (snd y)"
  using assms
proof (rule grant_pages.raw_induct [where P = "\<lambda>vmc en cur s y. ours s (snd y)", rotated], goal_cases)
  case (1 loop vmc en cur s y)
  show ?case using 1(2)
    by (auto simp: lib_unfold split: option.split_asm if_split_asm dest!: forward_ours 1(1))
qed

lemma revoke_pages_ours:
  assumes "revoke_pages vmc en cur s = Some y"
  shows "ours s (snd y)"
  using assms
proof (rule revoke_pages.raw_induct [where P = "\<lambda>vmc en cur s y. ours s (snd y)", rotated], goal_cases)
  case (1 loop vmc en cur s y)
  show ?case using 1(2)
    by (auto simp: lib_unfold split: option.split_asm if_split_asm dest!: forward_ours 1(1))
qed

lemma free_pas_keeps:
  assumes "free_pas cur s = Some s'"
  shows "keeps s s'"
  using assms
proof (rule free_pas.raw_induct [where P = "\<lambda>cur s s'. keeps s s'", rotated], goal_cases)
  case (1 loop cur s s')
  show ?case using 1(2)
    by (auto simp: lib_unfold split: option.split_asm dest!: keeps_steps 1(1) intro: keeps_trans)
qed

lemma delete_all_pas_keeps:
  assumes "delete_all_pas cur s = Some s'"
  shows "keeps s s'"
  using assms
proof (rule delete_all_pas.raw_induct [where P = "\<lambda>cur s s'. keeps s s'", rotated], goal_cases)
  case (1 loop cur s s')
  show ?case using 1(2)
    by (auto simp: lib_unfold delete_region_pas_def split: option.split_asm dest!: free_pas_keeps 1(1) intro: keeps_trans)
qed

lemma free_tables_keeps:
  assumes "free_tables k en cur s = Some s'"
  shows "keeps s s'"
  using assms
proof (rule free_tables.raw_induct [where P = "\<lambda>k en cur s s'. keeps s s'", rotated], goal_cases)
  case (1 loop k en cur s s')
  show ?case using 1(2)
    by (auto simp: lib_unfold split: option.split_asm dest!: keeps_steps 1(1)) (blast intro: keeps_trans)
qed

lemma commit_failure_keeps: "commit_failure k en s = Some y \<Longrightarrow> keeps s (snd y)"
  by (auto simp: commit_failure_def lib_unfold keeps_set dest!: delete_all_pas_keeps free_tables_keeps intro: keeps_trans)

lemma seal_keeps: "tyche_seal_enclave vmc e s = Some y \<Longrightarrow> keeps s (snd y)"
proof -
  assume "tyche_seal_enclave vmc e s = Some y"
  then consider "snd y = s" | p c z t where "encls s p = Some c"
      "tc_seal_domain vmc (tyche_handle c) (cr3 c) (e_entry c) (stack c) (Some (invoke c)) s = Some z"
      "t = snd (snd z)" "snd y = t\<lparr>encls := (encls t)(p \<mapsto> c\<lparr>invoke := the (fst (snd z))\<rparr>)\<rparr>"
    by (auto simp: tyche_seal_enclave_def lib_unfold split: option.split_asm)
  then show ?thesis
  proof cases
    case (2 p c z t)
    have o: "ours s t" using forward_ours(3) [OF 2(2)] 2(3) by simp
    then have "encls t p = Some c" using 2(1) estate_more(1) by metis
    then have "keeps s (t\<lparr>encls := (encls t)(p \<mapsto> c\<lparr>invoke := the (fst (snd z))\<rparr>)\<rparr>) = keeps s t"
      by (simp add: keeps_set)
    then show ?thesis using 2(4) keeps_ours [OF o] by simp
  qed simp
qed

lemma register_cr3_keeps [simp]: "keeps s (register_cr3 x t) = keeps s t"
  by (simp add: register_cr3_def)

lemma commit_enclave_keeps:
  assumes "page_walk mm pages" and "commit_enclave vmc k mm cm s = Some y"
  shows "keeps s (snd (snd y))"
proof -
  have grant: "grant_pages vmc e cur u = Some x \<Longrightarrow> keeps u (snd x)" for e cur u x
    by (rule keeps_ours [OF grant_pages_ours])
  have seal: "keeps u (snd x)" if "encls u e = Some c"
    "tyche_seal_enclave vmc f (u\<lparr>encls := (encls u)(e \<mapsto> c\<lparr>stack := a, e_entry := b\<rparr>)\<rparr>) = Some x" for u e c a b f x
    using seal_keeps [OF that(2)] keeps_trans [of u "u\<lparr>encls := (encls u)(e \<mapsto> c\<lparr>stack := a, e_entry := b\<rparr>)\<rparr>"] that(1)
    by (simp add: keeps_set)
  show ?thesis using assms(2) unfolding commit_enclave_def Let_def
    by - (erule bind_SomeE | drule collect_regions_keeps [OF assms(1)] commit_failure_keeps build_enclave_cr3_keeps grant |
        drule (1) seal | drule (1) keeps_trans | clarsimp split: option.split_asm if_split_asm prod.split_asm)+
qed

lemma transition_keeps: "enclave_transition vmc10 tr s = Some y \<Longrightarrow> keeps s (snd y)"
  using keeps_set [of "s\<lparr>mon := m\<rparr>" for m, where s = s]
  by (auto simp: enclave_transition_def lib_unfold split: option.split_asm)

lemma debugging_keeps [simp]: "keeps s (debugging_transition vmc h t) = keeps s t"
  by (simp add: debugging_transition_def split: prod.split)

lemma free_all_pages_keeps:
  assumes "free_all_pages en s = Some s'"
  shows "keeps s s'"
  using assms
proof (rule free_all_pages.raw_induct [where P = "\<lambda>en s s'. keeps s s'", rotated], goal_cases)
  case (1 loop en s s')
  show ?case using 1(2)
    by (auto simp: lib_unfold split: if_split_asm dest!: keeps_steps 1(1)) (blast intro: keeps_trans)
qed

lemma free_region_pas_keeps:
  assumes "free_region_pas r s = Some s'"
  shows "keeps s s'"
  using assms
proof (rule free_region_pas.raw_induct [where P = "\<lambda>r s s'. keeps s s'", rotated], goal_cases)
  case (1 loop r s s')
  show ?case using 1(2)
    by (auto simp: lib_unfold split: if_split_asm dest!: keeps_steps 1(1)) (blast intro: keeps_trans)
qed

lemma free_pas_of_regions_keeps:
  assumes "free_pas_of_regions cur s = Some s'"
  shows "keeps s s'"
  using assms
proof (rule free_pas_of_regions.raw_induct [where P = "\<lambda>cur s s'. keeps s s'", rotated], goal_cases)
  case (1 loop cur s s')
  show ?case using 1(2)
    by (auto simp: lib_unfold split: option.split_asm dest!: free_region_pas_keeps 1(1) intro: keeps_trans)
qed

lemma free_regions_keeps:
  assumes "free_regions en s = Some s'"
  shows "keeps s s'"
  using assms
proof (rule free_regions.raw_induct [where P = "\<lambda>en s s'. keeps s s'", rotated], goal_cases)
  case (1 loop en s s')
  show ?case using 1(2)
    by (auto simp: lib_unfold split: if_split_asm dest!: keeps_steps 1(1)) (blast intro: keeps_trans)
qed

text \<open>A deletion is a failure that keeps the enclaves, or removes one and keeps the others.\<close>

lemma delete_enclave_cases:
  assumes "delete_enclave vmc h s = Some y"
  obtains (failed) "fst y = FAIL" "keeps s (snd y)"
  | (deleted) p t u where "fst y = OK" "find_enclave h s = Some (Some p)" "keeps s t" "enclaves_remove p t = Some u"
      "free_enclave p u = Some (snd y)"
proof -
  have revoke: "revoke_pages vmc e cur u = Some x \<Longrightarrow> keeps u (snd x)" for e cur u x
    by (rule keeps_ours [OF revoke_pages_ours])
  consider "fst y = FAIL" "keeps s (snd y)" | p t u where "fst y = OK" "find_enclave h s = Some (Some p)" "keeps s t"
      "enclaves_remove p t = Some u" "free_enclave p u = Some (snd y)"
    using assms unfolding delete_enclave_def
    by (auto simp: lib_unfold split: option.split_asm if_split_asm dest!: revoke free_all_pages_keeps
        free_pas_of_regions_keeps free_regions_keeps) (blast intro: keeps_trans)
  then show ?thesis using that by cases blast+
qed

end
