(* ===== verification/Collect.thy ===== *)
theory Collect
  imports Driver_Frame Enclave_Lists Enclave_Insert
begin

text \<open>
  The collection of the physical pages of a region as a function on lists: what the pages of the parent
  process make of the pages that the region already has.
\<close>

section \<open>On lists\<close>

definition page_of :: "u64 \<Rightarrow> tyche_encl_mapping_t \<Rightarrow> u64 \<Rightarrow> pa_region_t" where
  "page_of pfn_mask ty pte =
     \<lparr>p_start = pte AND pfn_mask, p_end = (pte AND pfn_mask) + PT_PAGE_SIZE, p_tpe = ty\<rparr>"

definition clash :: "pa_region_t \<Rightarrow> pa_region_t list \<Rightarrow> bool" where
  "clash x xs \<longleftrightarrow> list_ex (\<lambda>y. overlap (p_start y) (p_end y) (p_start x) (p_end x)) xs"

text \<open>The range that the callback accepts includes the end of the region.\<close>

definition in_range :: "region_t \<Rightarrow> u64 \<Rightarrow> bool" where
  "in_range r addr \<longleftrightarrow> r_src r \<le> addr \<and> addr \<le> r_src r + (r_end r - r_start r)"

fun gather :: "u64 \<Rightarrow> region_t \<Rightarrow> page list \<Rightarrow> pa_region_t list \<Rightarrow> bool \<times> pa_region_t list" where
  "gather m r [] xs = (True, xs)" |
  "gather m r (Hole a # ps) xs = (False, xs)" |
  "gather m r (Hugepage pte a # ps) xs = gather m r ps xs" |
  "gather m r (Pte pte a # ps) xs =
     (if in_range r a \<and> pte AND PAGE_VALID = PAGE_VALID \<and> \<not> clash (page_of m (r_tpe r) pte) xs
      then gather m r ps (xs @ [page_of m (r_tpe r) pte]) else (False, xs))"

section \<open>The pages of a region on the heap\<close>

definition pas_view :: "('m, 'z) estate_scheme \<Rightarrow> ptr \<Rightarrow> region_t \<Rightarrow> (ptr \<times> pa_region_t) list \<Rightarrow> bool" where
  "pas_view s rg r xs \<longleftrightarrow> (\<exists>l. regs s rg = Some (r\<lparr>pas := l\<rparr>) \<and> dll (pa_links s) l (map fst xs)) \<and>
     (\<forall>(p, x) \<in> set xs. pars s p = Some x) \<and> (\<forall>p. pars s p \<noteq> None \<longrightarrow> p < brk s) \<and> (\<forall>p. \<not> oom s p)"

lemma pas_view_new:
  fixes s :: "('m, 'z) estate_scheme"
  assumes "pas_view s rg r xs"
  obtains q s1 s2 where "alloc_pa s = (Some q, s1)" "init_pa q a b ty s1 = Some s2" "pas_view s2 rg r xs"
    "pars s2 q = Some \<lparr>p_start = a, p_end = b, p_tpe = ty\<rparr>" "pa_links s2 q = Some \<lparr>prev = None, nxt = None\<rparr>"
    "glob_links s2 q \<noteq> None" "q \<notin> set (map fst xs)" "regs s2 = regs s"
    "estate.more s2 = estate.more s"
proof -
  let ?q = "brk s"
  have m: "\<forall>(p, x) \<in> set xs. pars s p = Some x" and f: "\<forall>p. pars s p \<noteq> None \<longrightarrow> p < brk s" and o: "\<forall>p. \<not> oom s p"
    using assms by (auto simp: pas_view_def)
  have fresh: "pars s ?q = None" using f by auto
  have nq: "?q \<notin> set (map fst xs)" using m fresh by force
  have a: "alloc_pa s = (Some ?q, s\<lparr>brk := Suc ?q,
      pars := (pars s)(?q \<mapsto> \<lparr>p_start = junk s, p_end = junk s, p_tpe = ucast (junk s)\<rparr>),
      pa_links := (pa_links s)(?q \<mapsto> \<lparr>prev = junkp s, nxt = junkp s\<rparr>),
      glob_links := (glob_links s)(?q \<mapsto> \<lparr>prev = junkp s, nxt = junkp s\<rparr>)\<rparr>)" (is "_ = (_, ?s1)")
    using o by (simp add: alloc_pa_def kmalloc_def)
  let ?s2 = "?s1\<lparr>pars := (pars s)(?q \<mapsto> \<lparr>p_start = a, p_end = b, p_tpe = ty\<rparr>),
      pa_links := (pa_links s)(?q \<mapsto> \<lparr>prev = None, nxt = None\<rparr>),
      glob_links := (glob_links s)(?q \<mapsto> \<lparr>prev = None, nxt = None\<rparr>)\<rparr>"
  have i: "init_pa ?q a b ty ?s1 = Some ?s2" by (simp add: init_pa_def dll_init_elem_def)
  have "(p, x) \<in> set xs \<Longrightarrow> p \<noteq> ?q \<and> pars s p = Some x" for p x using m nq by force
  then have "\<forall>(p, x) \<in> set xs. pars ?s2 p = Some x" by auto
  moreover have "\<forall>p. pars ?s2 p \<noteq> None \<longrightarrow> p < brk ?s2" using f by (auto simp: less_Suc_eq)
  ultimately have "pas_view ?s2 rg r xs" using assms nq by (auto simp: pas_view_def)
  then show thesis using that [OF a i] nq by simp
qed

lemma add_pa_view:
  fixes s :: "('m, 'z) estate_scheme"
  assumes v: "pas_view s rg r xs" and q: "pars s q = Some x" "pa_links s q \<noteq> None" "q \<notin> set (map fst xs)"
  obtains s' where "add_pa_to_region rg q s = Some (if clash x (map snd xs) then FAIL else OK, s')"
    "pas_view s' rg r (if clash x (map snd xs) then xs else xs @ [(q, x)])"
    "pars s' = pars s" "glob_links s' = glob_links s" "pa_links s' q \<noteq> None" "estate.more s' = estate.more s"
proof -
  obtain l where l: "regs s rg = Some (r\<lparr>pas := l\<rparr>)" "dll (pa_links s) l (map fst xs)"
    using v by (auto simp: pas_view_def)
  have m: "\<forall>(p, y) \<in> set xs. pars s p = Some y" using v by (simp add: pas_view_def)
  let ?lk = "(pa_links s)(q \<mapsto> \<lparr>prev = None, nxt = None\<rparr>)"
  let ?u = "s\<lparr>pa_links := ?lk\<rparr>"
  have i: "dll_init_elem q (pa_links s) = Some ?lk" using q(2) by (auto simp: dll_init_elem_def split: option.split)
  have d: "dll ?lk l (map fst xs)" using l(2) q(3) by simp
  obtain l' lk' where a: "dll_add q (l, ?lk) = Some (l', lk')" "dll lk' l' (map fst xs @ [q])"
    by (rule dll_addE [OF d q(3)]) simp
  let ?t = "s\<lparr>pa_links := lk', regs := (regs s)(rg \<mapsto> r\<lparr>pas := l'\<rparr>)\<rparr>"
  have add: "pas_add rg q ?u = Some ?t" using l(1) a(1) by (simp add: pas_add_def)
  have vt: "pas_view ?t rg r (xs @ [(q, x)])" using v a(2) q(1) by (auto simp: pas_view_def)
  have vu: "pas_view ?u rg r xs" using v d l(1) by (auto simp: pas_view_def)
  have lq: "lk' q \<noteq> None" using dll_dom [OF a(2), of q] by auto
  define F where "F = List.find (\<lambda>p. overlap (p_start (the (pars s p))) (p_end (the (pars s p))) (p_start x) (p_end x)) (map fst xs)"
  have f: "dll_find (\<lambda>p. map_option (\<lambda>y. overlap (p_start y) (p_end y) (p_start x) (p_end x)) (pars s p)) ?lk (head l) = Some F"
    unfolding F_def by (rule dll_find_dll [OF d]) (use m in force)
  have c: "F = None \<longleftrightarrow> \<not> clash x (map snd xs)"
    unfolding F_def using m by (induction xs) (auto simp: clash_def)
  have e: "dll_is_empty l \<Longrightarrow> \<not> clash x (map snd xs)" using dll_is_empty_iff [OF l(2)] by (auto simp: clash_def)
  have e': "add_pa_to_region rg q s = (if clash x (map snd xs) then Some (FAIL, ?u) else Some (OK, ?t))"
  proof (cases "dll_is_empty l")
    case True
    then show ?thesis using i l(1) add e by (simp add: add_pa_to_region_def)
  next
    case False
    then show ?thesis using i l(1) q(1) add f c by (cases F) (simp_all add: add_pa_to_region_def Let_def)
  qed
  show thesis
  proof (cases "clash x (map snd xs)")
    case True
    show thesis by (rule that [of ?u]) (use True vu e' in simp_all)
  next
    case False
    show thesis by (rule that [of ?t]) (use False vt lq e' in simp_all)
  qed
qed

section \<open>The walk\<close>

lemma winfo_more: "estate.more s' = estate.more s \<Longrightarrow> winfo s' = winfo s" for s s' :: "'m wstate"
  by (cases s, cases s') simp

lemma pas_view_winfo [simp]: "pas_view (w\<lparr>winfo := i\<rparr>) rg r xs = pas_view w rg r xs"
  by (simp add: pas_view_def)

lemma pas_view_regs: "pas_view s rg r xs \<Longrightarrow> \<exists>l. regs s rg = Some (r\<lparr>pas := l\<rparr>)"
  by (auto simp: pas_view_def)

lemma free_pa_view:
  fixes s :: "('m, 'z) estate_scheme"
  assumes "pas_view s rg r xs" and "pars s q \<noteq> None" "pa_links s q \<noteq> None" "glob_links s q \<noteq> None" "q \<notin> set (map fst xs)"
  obtains s' where "free_pa q s = Some s'" "pas_view s' rg r xs" "estate.more s' = estate.more s"
proof -
  let ?t = "s\<lparr>pars := (pars s)(q := None), pa_links := (pa_links s)(q := None), glob_links := (glob_links s)(q := None)\<rparr>"
  have "free_pa q s = Some ?t" using assms(2-4) by (auto simp: free_pa_def)
  moreover have "p \<noteq> q" if "(p, x) \<in> set xs" for p x using that assms(5) by force
  then have "pas_view ?t rg r xs" using assms(1,5) by (auto simp: pas_view_def)
  ultimately show thesis using that by simp
qed

lemma pte_entry_view:
  fixes w :: "'m wstate"
  assumes v: "pas_view w rg r xs" and g: "w_region (winfo w) = Some rg"
  shows "\<exists>ok w' ys. pte_entry m pte addr w = Some (if ok then OK else FAIL, w') \<and> pas_view w' rg r ys \<and>
    gather m r [Pte pte addr] (map snd xs) = (ok, map snd ys) \<and> w_region (winfo w') = Some rg \<and>
    success (winfo w') = (if ok then success (winfo w) else 0)"
proof -
  obtain l where l: "regs w rg = Some (r\<lparr>pas := l\<rparr>)" using pas_view_regs [OF v] by blast
  let ?p = "pte AND m"
  show ?thesis
  proof (cases "in_range r addr \<and> pte AND PAGE_VALID = PAGE_VALID")
    case False
    then have "pte_entry m pte addr w = failure_with_info w" using l g by (auto simp: pte_entry_def in_range_def not_le)
    then show ?thesis using v g False
      by (intro exI [of _ False] exI [of _ "w\<lparr>winfo := (winfo w)\<lparr>success := 0\<rparr>\<rparr>"] exI [of _ xs])
        (auto simp: failure_with_info_def)
  next
    case True
    obtain q w1 w2 where n: "alloc_pa w = (Some q, w1)" "init_pa q ?p (?p + PT_PAGE_SIZE) (r_tpe r) w1 = Some w2"
      "pas_view w2 rg r xs" "pars w2 q = Some (page_of m (r_tpe r) pte)" "pa_links w2 q = Some \<lparr>prev = None, nxt = None\<rparr>"
      "glob_links w2 q \<noteq> None" "q \<notin> set (map fst xs)" "regs w2 = regs w" "estate.more w2 = estate.more w"
      unfolding page_of_def by (rule pas_view_new [OF v])
    let ?bad = "clash (page_of m (r_tpe r) pte) (map snd xs)"
    obtain w3 where a: "add_pa_to_region rg q w2 = Some (if ?bad then FAIL else OK, w3)"
      "pas_view w3 rg r (if ?bad then xs else xs @ [(q, page_of m (r_tpe r) pte)])" "pars w3 = pars w2"
      "glob_links w3 = glob_links w2" "pa_links w3 q \<noteq> None" "estate.more w3 = estate.more w2"
      by (rule add_pa_view [OF n(3,4) _ n(7)]) (use n(5) in simp)
    have w3: "winfo w3 = winfo w" using winfo_more n(9) a(6) by metis
    have e: "pte_entry m pte addr w = (if ?bad then do { s \<leftarrow> free_pa q w3; failure_with_info s } else Some (OK, w3))"
      using True l g n(1,2) a(1) by (auto simp: pte_entry_def in_range_def Let_def not_less)
    show ?thesis
    proof (cases ?bad)
      case bad: True
      obtain w4 where f: "free_pa q w3 = Some w4" "pas_view w4 rg r xs" "estate.more w4 = estate.more w3"
        by (rule free_pa_view [of w3 rg r xs q]) (use a n(4,6,7) bad in auto)
      have "winfo w4 = winfo w" using winfo_more f(3) w3 by metis
      then show ?thesis using f(1,2) e bad g True
        by (intro exI [of _ False] exI [of _ "w4\<lparr>winfo := (winfo w4)\<lparr>success := 0\<rparr>\<rparr>"] exI [of _ xs])
          (auto simp: failure_with_info_def)
    next
      case False
      then show ?thesis using a(2) e g True w3
        by (intro exI [of _ True] exI [of _ w3] exI [of _ "xs @ [(q, page_of m (r_tpe r) pte)]"]) auto
    qed
  qed
qed

lemma gather_Pte:
  "gather m r (Pte pte a # ps) xs =
     (let (ok, ys) = gather m r [Pte pte a] xs in if ok then gather m r ps ys else (False, ys))"
  by simp

abbreviation collect_ops :: "u64 \<Rightarrow> 'm wstate mm_walk_ops" where
  "collect_ops m \<equiv> \<lparr>on_pte = pte_entry m, on_hugetlb = hugetlb_entry, on_hole = pte_hole\<rparr>"

lemma run_walk_gather:
  fixes w :: "'m wstate"
  assumes "pas_view w rg r xs" and "w_region (winfo w) = Some rg"
  shows "\<exists>ok rc w' ys. run_walk (collect_ops m) ps w = Some (rc, w') \<and> pas_view w' rg r ys \<and>
    gather m r ps (map snd xs) = (ok, map snd ys) \<and> success (winfo w') = (if ok then success (winfo w) else 0)"
  using assms
proof (induction ps arbitrary: w xs)
  case (Cons p ps)
  show ?case
  proof (cases p)
    case (Pte pte a)
    obtain ok w' ys where e: "pte_entry m pte a w = Some (if ok then OK else FAIL, w')" "pas_view w' rg r ys"
      "gather m r [Pte pte a] (map snd xs) = (ok, map snd ys)" "w_region (winfo w') = Some rg"
      "success (winfo w') = (if ok then success (winfo w) else 0)"
      using pte_entry_view [OF Cons.prems] by blast
    show ?thesis
    proof (cases ok)
      case True
      then have r: "run_walk (collect_ops m) (p # ps) w = run_walk (collect_ops m) ps w'"
        using e(1) Pte by simp
      have g: "gather m r (p # ps) (map snd xs) = gather m r ps (map snd ys)"
        unfolding Pte gather_Pte [of m r pte a ps] e(3) using True by simp
      have "success (winfo w') = success (winfo w)" using e(5) True by simp
      then show ?thesis unfolding r g using Cons.IH [OF e(2,4)] by (simp only:)
    next
      case False
      then have "run_walk (collect_ops m) (p # ps) w = Some (FAIL, w')" using e(1) Pte by simp
      moreover have "gather m r (p # ps) (map snd xs) = (False, map snd ys)"
        unfolding Pte gather_Pte [of m r pte a ps] e(3) using False by simp
      ultimately show ?thesis using e(2,5) False by auto
    qed
  next
    case (Hugepage pte a)
    then show ?thesis using Cons by (simp add: hugetlb_entry_def)
  next
    case (Hole a)
    then show ?thesis using Cons.prems
      by (intro exI [of _ False] exI [of _ FAIL] exI [of _ "w\<lparr>winfo := (winfo w)\<lparr>success := 0\<rparr>\<rparr>"] exI [of _ xs])
        (simp add: pte_hole_def)
  qed
qed auto

lemma pas_view_local:
  "pas_view (estate.extend s x) rg r xs = pas_view s rg r xs" "pas_view (estate.truncate t) rg r xs = pas_view t rg r xs"
  by (simp_all add: pas_view_def estate.defs)

end
