(* ===== verification/Driver_Delete.thy ===== *)
theory Driver_Delete
  imports Driver_Frame Enclave_Theorems
begin

text \<open>
  The loops of \<open>delete_enclave\<close>: what each of them frees, and that it changes nothing else.
\<close>

definition without :: "('a \<rightharpoonup> 'b) \<Rightarrow> 'a set \<Rightarrow> ('a \<rightharpoonup> 'b)" where
  "without m A = (\<lambda>x. if x \<in> A then None else m x)"

lemma without_simps [simp]:
  "without (m(p := None)) A = without m (insert p A)" "without (without m A) B = without m (A \<union> B)" "without m {} = m"
  "(without m A)(x := None) = without m (insert x A)"
  by (auto simp: without_def)

lemma without_apply [simp]: "without m A x = (if x \<in> A then None else m x)"
  by (simp add: without_def)

lemma live_without: "live h k \<Longrightarrow> live (without h A) (without k A)"
  by (auto simp: live_def)

lemma live_delete: "live h k \<Longrightarrow> live (h(p := None)) (k(p := None))"
  by (simp add: live_def)

lemma live_not_None: "live h k \<Longrightarrow> h p \<noteq> None \<Longrightarrow> k p \<noteq> None"
  unfolding live_def by metis

lemma dll_empty_eq: "dll lk l [] \<Longrightarrow> l = dll_init_list"
  by (simp add: dll_Nil dll_init_list_def)

text \<open>Removing the first element.\<close>

lemma dll_remove_headE:
  assumes "dll lk l (p # xs)"
  obtains l' lk' where "dll_remove p (l, lk) = Some (l', lk')" "dll lk' l' xs" "lk' p \<noteq> None"
    "links_frame lk lk' (set (p # xs))"
  by (rule dll_removeE [of lk l "[]" p xs]) (use assms in \<open>auto intro: that\<close>)

lemma free_all_pages_eq:
  fixes s :: "('m, 'z) estate_scheme"
  assumes "page_list s en ps" and "encls s en = Some c"
  shows "\<exists>gl. free_all_pages en s = Some (s\<lparr>encls := (encls s)(en \<mapsto> c\<lparr>all_pages := dll_init_list\<rparr>),
      pars := (without (pars s) (set (map fst ps))), pa_links := (without (pa_links s) (set (map fst ps))), glob_links := gl\<rparr>) \<and>
    live ((without (pars s) (set (map fst ps)))) gl"
  using assms
proof (induction ps arbitrary: s c)
  case Nil
  then have e: "all_pages c = dll_init_list" and l: "live (pars s) (glob_links s)"
    by (auto simp: page_list_def intro: dll_empty_eq)
  have "c\<lparr>all_pages := dll_init_list\<rparr> = c" using e by (cases c) simp
  then have "(encls s)(en \<mapsto> c\<lparr>all_pages := dll_init_list\<rparr>) = encls s" using Nil.prems(2) by (simp add: fun_upd_idem)
  moreover have "free_all_pages en s = Some s"
    using Nil.prems(2) e by (subst free_all_pages.simps) (simp add: dll_is_empty_def dll_init_list_def)
  ultimately show ?case using l by (intro exI [of _ "glob_links s"]) simp
next
  case (Cons z ps)
  obtain p x where z: "z = (p, x)" by (cases z)
  have d: "dll (glob_links s) (all_pages c) (p # map fst ps)" and m: "pars s p = Some x" "\<forall>(q, y) \<in> set ps. pars s q = Some y"
    and l: "live (pars s) (glob_links s)" "live (pars s) (pa_links s)"
    using Cons.prems z by (auto simp: page_list_def)
  obtain l' gl where r: "dll_remove p (all_pages c, glob_links s) = Some (l', gl)" "dll gl l' (map fst ps)" "gl p \<noteq> None"
    "links_frame (glob_links s) gl (set (p # map fst ps))" by (rule dll_remove_headE [OF d])
  let ?s1 = "s\<lparr>encls := (encls s)(en \<mapsto> c\<lparr>all_pages := l'\<rparr>), glob_links := gl\<rparr>"
  let ?s2 = "?s1\<lparr>pars := (pars s)(p := None), pa_links := (pa_links s)(p := None), glob_links := gl(p := None)\<rparr>"
  have np: "p \<notin> set (map fst ps)" using dll_distinct [OF d] by simp
  have "pa_links s p \<noteq> None" using live_not_None [OF l(2)] m(1) by simp
  then have f: "free_pa p ?s1 = Some ?s2" using m(1) r(3) by (auto simp: free_pa_def)
  have g: "globals_remove en p s = Some ?s1" using Cons.prems(2) r(1) by (simp add: globals_remove_def)
  have ne: "q \<noteq> p" if "(q, y) \<in> set ps" for q y using np that by force
  have lg: "live ((pars s)(p := None)) (gl(p := None))" by (rule live_delete [OF live_links [OF l(1) r(4)]])
  have v: "page_list ?s2 en ps"
    using r(2) np m(2) ne lg live_delete [OF l(2), of p] by (auto simp: page_list_def)
  have "free_all_pages en s = free_all_pages en ?s2"
    using Cons.prems(2) dll_is_empty_iff [OF d] dll_head [OF d] g f by (subst free_all_pages.simps) simp
  moreover have "encls ?s2 en = Some (c\<lparr>all_pages := l'\<rparr>)" by simp
  note Cons.IH [OF v this]
  ultimately show ?case using z by (simp del: fun_upd_apply without_apply)
qed

lemma free_region_pas_eq:
  fixes s :: "('m, 'z) estate_scheme"
  assumes "regs s rg = Some r" and "dll (pa_links s) (pas r) qs" and "\<forall>q \<in> set qs. pars s q \<noteq> None"
    and "live (pars s) (pa_links s)" and "live (pars s) (glob_links s)"
  shows "\<exists>pl. free_region_pas rg s = Some (s\<lparr>regs := (regs s)(rg \<mapsto> r\<lparr>pas := dll_init_list\<rparr>),
      pars := (without (pars s) (set qs)), pa_links := pl, glob_links := (without (glob_links s) (set qs))\<rparr>) \<and>
    live ((without (pars s) (set qs))) pl \<and> (\<forall>q. q \<notin> set qs \<longrightarrow> pl q = pa_links s q)"
  using assms
proof (induction qs arbitrary: s r)
  case Nil
  then have e: "pas r = dll_init_list" by (auto intro: dll_empty_eq)
  then have "r\<lparr>pas := dll_init_list\<rparr> = r" by (cases r) simp
  then have "(regs s)(rg \<mapsto> r\<lparr>pas := dll_init_list\<rparr>) = regs s" using Nil.prems(1) by (simp add: fun_upd_idem)
  moreover have "free_region_pas rg s = Some s"
    using Nil.prems(1) e by (subst free_region_pas.simps) (simp add: dll_is_empty_def dll_init_list_def)
  ultimately show ?case using Nil.prems(4) by (intro exI [of _ "pa_links s"]) simp
next
  case (Cons p qs)
  note d = Cons.prems(2)
  obtain l' pl where r: "dll_remove p (pas r, pa_links s) = Some (l', pl)" "dll pl l' qs" "pl p \<noteq> None"
    "links_frame (pa_links s) pl (set (p # qs))" by (rule dll_remove_headE [OF d])
  let ?s1 = "s\<lparr>regs := (regs s)(rg \<mapsto> r\<lparr>pas := l'\<rparr>), pa_links := pl\<rparr>"
  let ?s2 = "?s1\<lparr>pars := (pars s)(p := None), pa_links := pl(p := None), glob_links := (glob_links s)(p := None)\<rparr>"
  have np: "p \<notin> set qs" using dll_distinct [OF d] by simp
  have "glob_links s p \<noteq> None" "pars s p \<noteq> None" using Cons.prems(3) live_not_None [OF Cons.prems(5)] by simp_all
  then have f: "free_pa p ?s1 = Some ?s2" using r(3) by (auto simp: free_pa_def)
  have g: "pas_remove rg p s = Some ?s1" using Cons.prems(1) r(1) by (simp add: pas_remove_def)
  have l: "live ((pars s)(p := None)) (pl(p := None))" by (rule live_delete [OF live_links [OF Cons.prems(4) r(4)]])
  have e: "free_region_pas rg s = free_region_pas rg ?s2"
    using Cons.prems(1) dll_is_empty_iff [OF d] dll_head [OF d] g f by (subst free_region_pas.simps) simp
  have h: "regs ?s2 rg = Some (r\<lparr>pas := l'\<rparr>)" "dll (pa_links ?s2) (pas (r\<lparr>pas := l'\<rparr>)) qs" "\<forall>q \<in> set qs. pars ?s2 q \<noteq> None"
    using r(2) np Cons.prems(3) by auto
  have h': "live (pars ?s2) (pa_links ?s2)" "live (pars ?s2) (glob_links ?s2)"
    using l live_delete [OF Cons.prems(5)] by (simp_all del: fun_upd_apply without_apply)
  obtain pl' where i: "free_region_pas rg ?s2 = Some (?s2\<lparr>regs := (regs ?s2)(rg \<mapsto> r\<lparr>pas := l', pas := dll_init_list\<rparr>),
      pars := (without (pars ?s2) (set qs)), pa_links := pl', glob_links := (without (glob_links ?s2) (set qs))\<rparr>)"
    "live ((without (pars ?s2) (set qs))) pl'" "\<forall>q. q \<notin> set qs \<longrightarrow> pl' q = pa_links ?s2 q"
    using Cons.IH [OF h h'] by blast
  have "pl' q = pa_links s q" if "q \<notin> set (p # qs)" for q
    using links_frame_apply [OF r(4) that] i(3) that by simp
  then show ?case using e i(1,2) by (intro exI [of _ pl']) (simp del: fun_upd_apply without_apply)
qed

text \<open>Each region with the page structs in its own list.\<close>

type_synonym page_lists = "(ptr \<times> region_t \<times> ptr list) list"

definition struct_pages :: "page_lists \<Rightarrow> ptr list" where
  "struct_pages rs = concat (map (\<lambda>(rg, r, qs). qs) rs)"

lemma struct_pages_simps [simp]: "struct_pages [] = []" "struct_pages ((rg, r, qs) # rs) = qs @ struct_pages rs"
  by (simp_all add: struct_pages_def)

lemma free_pas_of_regions_eq:
  fixes s :: "('m, 'z) estate_scheme"
  assumes "dll_seg (reg_links s) pv cur (map fst rs) None tn" and "distinct (map fst rs)" and "distinct (struct_pages rs)"
    and "\<forall>(rg, r, qs) \<in> set rs. regs s rg = Some r \<and> dll (pa_links s) (pas r) qs \<and> (\<forall>q \<in> set qs. pars s q \<noteq> None)"
    and "live (pars s) (pa_links s)" and "live (pars s) (glob_links s)"
  shows "\<exists>rm pl. free_pas_of_regions cur s = Some (s\<lparr>regs := rm, pars := (without (pars s) (set (struct_pages rs))),
      pa_links := pl, glob_links := (without (glob_links s) (set (struct_pages rs)))\<rparr>) \<and>
    live ((without (pars s) (set (struct_pages rs)))) pl \<and> dom rm = dom (regs s) \<and> (\<forall>p. p \<notin> set (map fst rs) \<longrightarrow> rm p = regs s p)"
  using assms
proof (induction rs arbitrary: s pv cur)
  case Nil
  then show ?case
    by (intro exI [of _ "regs s"] exI [of _ "pa_links s"]) (simp add: free_pas_of_regions.simps)
next
  case (Cons z rs)
  obtain rg r qs where z: "z = (rg, r, qs)" by (cases z)
  have r: "regs s rg = Some r" "dll (pa_links s) (pas r) qs" "\<forall>q \<in> set qs. pars s q \<noteq> None" using Cons.prems(4) z by auto
  have seg: "cur = Some rg" "\<exists>y. reg_links s rg = Some y \<and> dll_seg (reg_links s) (Some rg) (nxt y) (map fst rs) None tn"
    using Cons.prems(1) z by auto
  then obtain y where y: "reg_links s rg = Some y" "dll_seg (reg_links s) (Some rg) (nxt y) (map fst rs) None tn" by blast
  obtain pl where f: "free_region_pas rg s = Some (s\<lparr>regs := (regs s)(rg \<mapsto> r\<lparr>pas := dll_init_list\<rparr>),
      pars := (without (pars s) (set qs)), pa_links := pl, glob_links := (without (glob_links s) (set qs))\<rparr>)" (is "_ = Some ?t")
    "live ((without (pars s) (set qs))) pl" "\<forall>q. q \<notin> set qs \<longrightarrow> pl q = pa_links s q"
    using free_region_pas_eq [OF r Cons.prems(5,6)] by blast
  have nr: "rg \<notin> set (map fst rs)" and ap: "set qs \<inter> set (struct_pages rs) = {}" using Cons.prems(2,3) z by auto
  have each: "regs ?t g = Some a \<and> dll (pa_links ?t) (pas a) ps \<and> (\<forall>q \<in> set ps. pars ?t q \<noteq> None)"
    if "(g, a, ps) \<in> set rs" for g a ps
  proof -
    have i: "set ps \<inter> set qs = {}" using ap that by (fastforce simp: struct_pages_def)
    have h: "regs s g = Some a" "dll (pa_links s) (pas a) ps" "\<forall>q \<in> set ps. pars s q \<noteq> None"
      using Cons.prems(4) that by auto
    have "dll pl (pas a) ps" by (rule dll_frame [OF h(2)]) (use i f(3) in blast)
    moreover have "g \<noteq> rg" using nr that by force
    moreover have "((without (pars s) (set qs))) q = pars s q" if "q \<in> set ps" for q using i that by auto
    ultimately show ?thesis using h by simp
  qed
  have h: "dll_seg (reg_links ?t) (Some rg) (nxt y) (map fst rs) None tn" "distinct (map fst rs)" "distinct (struct_pages rs)"
    "\<forall>(g, a, ps) \<in> set rs. regs ?t g = Some a \<and> dll (pa_links ?t) (pas a) ps \<and> (\<forall>q \<in> set ps. pars ?t q \<noteq> None)"
    "live (pars ?t) (pa_links ?t)" "live (pars ?t) (glob_links ?t)"
    using y(2) Cons.prems(2,3) z f(2) live_without [OF Cons.prems(6)] by (simp_all del: fun_upd_apply without_apply) (use each in \<open>auto simp del: fun_upd_apply without_apply\<close>)
  obtain rm pl' where i: "free_pas_of_regions (nxt y) ?t = Some (?t\<lparr>regs := rm, pars := (without (pars ?t) (set (struct_pages rs))),
      pa_links := pl', glob_links := (without (glob_links ?t) (set (struct_pages rs)))\<rparr>)"
    "live ((without (pars ?t) (set (struct_pages rs)))) pl'" "dom rm = dom (regs ?t)"
    "\<forall>p. p \<notin> set (map fst rs) \<longrightarrow> rm p = regs ?t p"
    using Cons.IH [OF h] by blast
  have "free_pas_of_regions cur s = free_pas_of_regions (nxt y) ?t"
    unfolding seg(1) using f(1) y(1) by (subst free_pas_of_regions.simps) (simp del: fun_upd_apply without_apply)
  moreover have "set qs \<union> set (struct_pages rs) = set (struct_pages (z # rs))" using z by auto
  moreover have "dom rm = dom (regs s)" using i(3) r(1) by auto
  moreover have "\<forall>p. p \<notin> set (map fst (z # rs)) \<longrightarrow> rm p = regs s p" using i(4) z by simp
  ultimately show ?case using i(1,2) by (intro exI [of _ rm] exI [of _ pl']) (simp del: fun_upd_apply without_apply)
qed

lemma free_regions_eq:
  fixes s :: "('m, 'z) estate_scheme"
  assumes "encls s en = Some c" and "dll (reg_links s) (regions c) xs" and "\<forall>x \<in> set xs. regs s x \<noteq> None"
    and "live (regs s) (reg_links s)"
  shows "\<exists>rl. free_regions en s = Some (s\<lparr>encls := (encls s)(en \<mapsto> c\<lparr>regions := dll_init_list\<rparr>),
      regs := (without (regs s) (set xs)), reg_links := rl\<rparr>) \<and> live ((without (regs s) (set xs))) rl"
  using assms
proof (induction xs arbitrary: s c)
  case Nil
  then have e: "regions c = dll_init_list" by (auto intro: dll_empty_eq)
  then have "c\<lparr>regions := dll_init_list\<rparr> = c" by (cases c) simp
  then have "(encls s)(en \<mapsto> c\<lparr>regions := dll_init_list\<rparr>) = encls s" using Nil.prems(1) by (simp add: fun_upd_idem)
  moreover have "free_regions en s = Some s"
    using Nil.prems(1) e by (subst free_regions.simps) (simp add: dll_is_empty_def dll_init_list_def)
  ultimately show ?case using Nil.prems(4) by (intro exI [of _ "reg_links s"]) simp
next
  case (Cons p xs)
  note d = Cons.prems(2)
  obtain l' rl where r: "dll_remove p (regions c, reg_links s) = Some (l', rl)" "dll rl l' xs" "rl p \<noteq> None"
    "links_frame (reg_links s) rl (set (p # xs))" by (rule dll_remove_headE [OF d])
  let ?s1 = "s\<lparr>encls := (encls s)(en \<mapsto> c\<lparr>regions := l'\<rparr>), reg_links := rl\<rparr>"
  let ?s2 = "?s1\<lparr>regs := (regs s)(p := None), reg_links := rl(p := None)\<rparr>"
  have np: "p \<notin> set xs" using dll_distinct [OF d] by simp
  have f: "free_region p ?s1 = Some ?s2" using Cons.prems(3) r(3) by (auto simp: free_region_def)
  have g: "regions_remove en p s = Some ?s1" using Cons.prems(1) r(1) by (simp add: regions_remove_def)
  have l: "live ((regs s)(p := None)) (rl(p := None))" by (rule live_delete [OF live_links [OF Cons.prems(4) r(4)]])
  have "free_regions en s = free_regions en ?s2"
    using Cons.prems(1) dll_is_empty_iff [OF d] dll_head [OF d] g f by (subst free_regions.simps) simp
  moreover have h: "encls ?s2 en = Some (c\<lparr>regions := l'\<rparr>)" "dll (reg_links ?s2) (regions (c\<lparr>regions := l'\<rparr>)) xs"
    "\<forall>x \<in> set xs. regs ?s2 x \<noteq> None" using r(2) np Cons.prems(3) by auto
  have "live (regs ?s2) (reg_links ?s2)" using l by (simp del: fun_upd_apply without_apply)
  note Cons.IH [OF h this]
  ultimately show ?case by (simp del: fun_upd_apply without_apply)
qed

section \<open>delete_enclave\<close>

text \<open>What an enclave owns: the pages \<open>ps\<close> in its global list and, in the regions \<open>rs\<close>, further page structs.\<close>

definition owned :: "('m, 'z) estate_scheme \<Rightarrow> ptr \<Rightarrow> (ptr \<times> pa_region_t) list \<Rightarrow> page_lists \<Rightarrow> bool" where
  "owned s en ps rs \<longleftrightarrow> page_list s en ps \<and> region_list s en (map (\<lambda>(rg, r, qs). (rg, r)) rs) \<and>
     (\<forall>(rg, r, qs) \<in> set rs. dll (pa_links s) (pas r) qs \<and> (\<forall>q \<in> set qs. pars s q \<noteq> None)) \<and>
     distinct (map fst ps @ struct_pages rs)"

lemma owned_ours:
  fixes s t :: "('m, 'z) estate_scheme"
  assumes "ours s t"
  shows "owned t en ps rs = owned s en ps rs" and "enclave_list t xs = enclave_list s xs"
  using assms estate_more [of t s] by (simp_all add: owned_def page_list_def region_list_def enclave_list_def)

lemma delete_body:
  fixes s :: "('m, 'z) estate_scheme"
  assumes o: "owned s en ps rs"
  obtains t c u rl pl gl rm c' where "free_all_pages en s = Some t" "encls t en = Some c" "free_pas_of_regions (head (regions c)) t = Some u"
    "free_regions en u = Some (s\<lparr>encls := (encls s)(en \<mapsto> c'), regs := without rm (set (map fst rs)), reg_links := rl,
        pars := without (pars s) (set (map fst ps) \<union> set (struct_pages rs)), pa_links := pl, glob_links := gl\<rparr>)"
    "without rm (set (map fst rs)) = without (regs s) (set (map fst rs))"
proof -
  obtain c where c: "encls s en = Some c" and rl: "dll (reg_links s) (regions c) (map fst rs)"
    using o by (auto simp: owned_def page_list_def region_list_def comp_def split_def)
  have pl: "page_list s en ps" and lr: "live (regs s) (reg_links s)" and lp: "live (pars s) (pa_links s)"
    and each: "\<And>g a qs. (g, a, qs) \<in> set rs \<Longrightarrow> regs s g = Some a \<and> dll (pa_links s) (pas a) qs \<and> (\<forall>q \<in> set qs. pars s q \<noteq> None)"
    and ds: "distinct (struct_pages rs)" "set (map fst ps) \<inter> set (struct_pages rs) = {}"
    using o by (auto simp: owned_def page_list_def region_list_def)
  let ?P = "set (map fst ps)" and ?Q = "set (struct_pages rs)"
  obtain gl where f1: "free_all_pages en s = Some (s\<lparr>encls := (encls s)(en \<mapsto> c\<lparr>all_pages := dll_init_list\<rparr>),
      pars := without (pars s) ?P, pa_links := without (pa_links s) ?P, glob_links := gl\<rparr>)" (is "_ = Some ?t")
    "live (without (pars s) ?P) gl" using free_all_pages_eq [OF pl c] by blast
  have seg: "dll_seg (reg_links ?t) None (head (regions c)) (map fst rs) None (tail (regions c))" "distinct (map fst rs)"
    using rl by (simp_all add: dll_def)
  have each': "\<forall>(g, a, qs) \<in> set rs. regs ?t g = Some a \<and> dll (pa_links ?t) (pas a) qs \<and> (\<forall>q \<in> set qs. pars ?t q \<noteq> None)"
  proof clarify
    fix g a qs assume m: "(g, a, qs) \<in> set rs"
    have i: "q \<notin> ?P" if "q \<in> set qs" for q using m that ds(2) by (fastforce simp: struct_pages_def)
    have "dll (without (pa_links s) ?P) (pas a) qs" by (rule dll_frame [of "pa_links s"]) (use each [OF m] i in auto)
    then show "regs ?t g = Some a \<and> dll (pa_links ?t) (pas a) qs \<and> (\<forall>q \<in> set qs. pars ?t q \<noteq> None)"
      using each [OF m] i by simp
  qed
  have l: "live (pars ?t) (pa_links ?t)" "live (pars ?t) (glob_links ?t)"
    using live_without [OF lp, of ?P] f1(2) by (simp_all del: without_apply)
  obtain rm pl where f2: "free_pas_of_regions (head (regions c)) ?t = Some (?t\<lparr>regs := rm, pars := without (pars ?t) ?Q,
      pa_links := pl, glob_links := without (glob_links ?t) ?Q\<rparr>)" (is "_ = Some ?u")
    "dom rm = dom (regs ?t)" "\<forall>p. p \<notin> set (map fst rs) \<longrightarrow> rm p = regs ?t p"
    using free_pas_of_regions_eq [OF seg ds(1) each' l] by blast
  have rm: "rm p = None \<longleftrightarrow> regs s p = None" for p
  proof -
    have "dom rm = dom (regs s)" using f2(2) by simp
    then show ?thesis by (metis domIff)
  qed
  have "live rm (reg_links s)" using lr rm by (simp add: live_def)
  moreover have "\<forall>x \<in> set (map fst rs). rm x \<noteq> None" using each rm by (auto simp: rm simp del: not_None_eq)
  ultimately obtain rl' where f3: "free_regions en ?u = Some (?u\<lparr>encls := (encls ?u)(en \<mapsto> c\<lparr>all_pages := dll_init_list, regions := dll_init_list\<rparr>),
      regs := without (regs ?u) (set (map fst rs)), reg_links := rl'\<rparr>)"
    using free_regions_eq [of ?u en "c\<lparr>all_pages := dll_init_list\<rparr>" "map fst rs"] rl by auto
  have w: "without rm (set (map fst rs)) = without (regs s) (set (map fst rs))"
    using f2(3) by (auto simp: without_def)
  show thesis
    by (rule that [OF f1(1) _ _ _ w, of "c\<lparr>all_pages := dll_init_list\<rparr>" ?u "without gl ?Q" pl rl'
          "c\<lparr>all_pages := dll_init_list, regions := dll_init_list\<rparr>"]) (use f2(1) f3 in \<open>simp_all del: without_apply\<close>)
qed

end
