(* ===== verification/Driver_Theorems.thy ===== *)
theory Driver_Theorems
  imports Collect Driver_Delete Mapper_Theorems
begin

text \<open>
  The driver as its users see it: the states that sequences of ioctls can reach, and what an ioctl of one
  task can do to the enclaves of the others.
\<close>

section \<open>The list of enclaves under the operations\<close>

definition idents :: "(ptr \<times> enclave_t) list \<Rightarrow> (ptr \<times> tyche_encl_handle_t \<times> u32) list" where
  "idents xs = map (\<lambda>(p, c). (p, ident c)) xs"

lemma idents_simps [simp]:
  "idents [] = []" "idents ((p, c) # xs) = (p, ident c) # idents xs" "idents (xs @ ys) = idents xs @ idents ys"
  by (simp_all add: idents_def)

lemma idents_handles: "map (e_handle \<circ> snd) xs = map (\<lambda>(p, h, o'). h) (idents xs)"
  by (simp add: idents_def ident_def split_def)

lemma idents_fst: "map fst xs = map fst (idents xs)"
  by (simp add: idents_def split_def)

definition encls_below :: "('m, 'z) estate_scheme \<Rightarrow> bool" where
  "encls_below s \<longleftrightarrow> (\<forall>p. encls s p \<noteq> None \<longrightarrow> p < brk s)"

lemma keeps_None: "keeps s s' \<Longrightarrow> encls s' p = None \<longleftrightarrow> encls s p = None"
  unfolding keeps_def by (metis option.map_disc_iff)

lemma keeps_below:
  assumes "keeps s s'" and "encls_below s"
  shows "encls_below s'"
proof -
  have "brk s \<le> brk s'" using assms(1) by (simp add: keeps_def)
  then show ?thesis using assms(2) keeps_None [OF assms(1)] unfolding encls_below_def by (metis less_le_trans)
qed

lemma keeps_enclave_list:
  assumes "keeps s s'" and "enclave_list s xs"
  obtains ys where "enclave_list s' ys" "idents ys = idents xs"
proof
  let ?ys = "map (\<lambda>(p, c). (p, the (encls s' p))) xs"
  have i: "map_option ident (encls s' p) = map_option ident (encls s p)" for p
    using assms(1) by (simp add: keeps_def)
  have e: "encl_links s' = encl_links s" "enclaves s' = enclaves s" using assms(1) by (auto simp: keeps_def)
  have m: "encls s p = Some c" if "(p, c) \<in> set xs" for p c using assms(2) that by (auto simp: enclave_list_def)
  have n: "encls s' p = Some (the (encls s' p)) \<and> ident (the (encls s' p)) = ident c" if "(p, c) \<in> set xs" for p c
    using i [of p] m [OF that] by auto
  then show "idents ?ys = idents xs" by (auto simp: idents_def)
  have "map fst ?ys = map fst xs" by auto
  then have "dll (encl_links s') (enclaves s') (map fst ?ys)" using assms(2) e by (simp only: enclave_list_def)
  then show "enclave_list s' ?ys"
    using assms(2) e n keeps_None [OF assms(1)] by (auto simp: enclave_list_def live_def)
qed

lemma enclaves_freeE:
  assumes "enclave_list s (xs @ (q, c) # ys)" and "enclaves_remove q s = Some u" and "free_enclave q u = Some t"
  shows "enclave_list t (xs @ ys)" and "brk t = brk s" and "encls t = (encls s)(q := None)"
proof -
  have d: "dll (encl_links s) (enclaves s) (map fst xs @ q # map fst ys)" using assms(1) by (simp add: enclave_list_def)
  obtain l lk where a: "dll_remove q (enclaves s, encl_links s) = Some (l, lk)" "dll lk l (map fst xs @ map fst ys)"
    "links_frame (encl_links s) lk (set (map fst xs @ q # map fst ys))"
    by (rule dll_removeE [OF d])
  have "live (encls s) (encl_links s)" using assms(1) by (simp add: enclave_list_def)
  from live_links [OF this a(3)] have l: "live (encls s) lk" .
  have q: "q \<notin> set (map fst xs @ map fst ys)" using dll_distinct [OF d] by simp
  have t: "t = s\<lparr>enclaves := l, encl_links := lk(q := None), encls := (encls s)(q := None)\<rparr>"
    using assms(2,3) a(1) by (auto simp: enclaves_remove_def free_enclave_def bind_Some_iff kfree_def split: option.split_asm)
  have "(p, e) \<in> set (xs @ ys) \<Longrightarrow> p \<noteq> q" for p e using q by force
  moreover have "live ((encls s)(q := None)) (lk(q := None))" using l by (simp add: live_def)
  ultimately show "enclave_list t (xs @ ys)" using assms(1) a(2) q t by (fastforce simp: enclave_list_def)
qed (use assms in \<open>auto simp: enclaves_remove_def free_enclave_def bind_Some_iff kfree_def split: option.split_asm\<close>)

lemma domain_create_encls:
  assumes "tyche_domain_create vmc (Some q) s = Some y"
  shows "encls (snd y) p = None \<longleftrightarrow> encls s p = None" and "brk (snd y) = brk s"
    and "enclaves (snd y) = enclaves s" and "encl_links (snd y) = encl_links s"
proof -
  obtain c where c: "encls s q = Some c" using assms by (auto simp: tyche_domain_create_def bind_Some_iff)
  obtain r h m where "tc_create_domain vmc (Some (tyche_handle c)) s = (r, Some h, s\<lparr>mon := m\<rparr>)"
    by (rule tc_create_domainE)
  then have "y = (r, s\<lparr>mon := m, encls := (encls s)(q \<mapsto> c\<lparr>tyche_handle := h\<rparr>)\<rparr>)"
    using assms c by (simp add: tyche_domain_create_def)
  then show "encls (snd y) p = None \<longleftrightarrow> encls s p = None" "brk (snd y) = brk s"
    "enclaves (snd y) = enclaves s" "encl_links (snd y) = encl_links s" using c by auto
qed

lemma enclaves_free_ok:
  assumes "enclave_list s (xs @ (q, c) # ys)"
  obtains l lk where "enclaves_remove q s = Some (s\<lparr>enclaves := l, encl_links := lk\<rparr>)"
    "free_enclave q (s\<lparr>enclaves := l, encl_links := lk\<rparr>) =
       Some (s\<lparr>enclaves := l, encl_links := lk(q := None), encls := (encls s)(q := None)\<rparr>)"
proof -
  have d: "dll (encl_links s) (enclaves s) (map fst xs @ q # map fst ys)" and q: "encls s q = Some c"
    using assms by (simp_all add: enclave_list_def)
  obtain l lk where a: "dll_remove q (enclaves s, encl_links s) = Some (l, lk)" "lk q = Some \<lparr>prev = None, nxt = None\<rparr>"
    by (rule dll_removeE [OF d])
  show thesis by (rule that [of lk l]) (use a q in \<open>simp_all add: enclaves_remove_def free_enclave_def\<close>)
qed

lemma add_enclave_below:
  assumes "add_enclave vmc hdl s = Some y" and "encls_below s"
  shows "encls_below (snd y)"
proof -
  have one: "encls_below (s\<lparr>brk := Suc (brk s)\<rparr>)" using assms(2) by (auto simp: encls_below_def less_Suc_eq)
  have two: "encls_below (s\<lparr>brk := Suc (brk s), encls := (encls s)(brk s \<mapsto> c), encl_links := lk\<rparr>)" for c lk
    using one by (auto simp: encls_below_def)
  have add: "encls_below u" if "encls_below t" "enclaves_add q t = Some u" for t u :: "('a, 'b) estate_scheme" and q
    using that by (auto simp: enclaves_add_def encls_below_def bind_Some_iff)
  have create: "encls_below u" if "encls_below t" "tyche_domain_create vmc (Some q) t = Some (rc, u)"
    for t u :: "('a, 'b) estate_scheme" and rc q
    using that domain_create_encls [OF that(2)] by (simp add: encls_below_def)
  have remove: "encls_below u" if "encls_below t" "enclaves_remove q t = Some u" for t u :: "('a, 'b) estate_scheme" and q
    using that by (auto simp: enclaves_remove_def encls_below_def bind_Some_iff)
  show ?thesis
    using assms(1) unfolding add_enclave_def alloc_enclave_def kmalloc_def Let_def
    by (auto simp: bind_Some_iff split_def one split: option.split_asm if_split_asm intro: assms(2)
        dest!: add [OF two] dest: create) (blast intro: create remove)
qed

section \<open>Sequences of ioctls\<close>

definition driver_ok :: "('m, 'z) estate_scheme \<Rightarrow> (ptr \<times> enclave_t) list \<Rightarrow> bool" where
  "driver_ok s xs \<longleftrightarrow> enclave_list s xs \<and> distinct (map (e_handle \<circ> snd) xs) \<and> encls_below s"

definition of_others :: "u32 \<Rightarrow> (ptr \<times> enclave_t) list \<Rightarrow> (ptr \<times> tyche_encl_handle_t \<times> u32) list" where
  "of_others task xs = filter (\<lambda>(p, h, owner). owner \<noteq> task) (idents xs)"

lemma driver_okI: "enclave_list s xs \<Longrightarrow> distinct (map (e_handle \<circ> snd) xs) \<Longrightarrow> encls_below s \<Longrightarrow> driver_ok s xs"
  by (simp add: driver_ok_def)

lemma driver_ok_keeps:
  assumes "driver_ok s xs" and "keeps s s'"
  shows "\<exists>ys. driver_ok s' ys \<and> of_others task ys = of_others task xs"
proof -
  obtain ys where ys: "enclave_list s' ys" "idents ys = idents xs"
    using assms by (auto simp: driver_ok_def elim: keeps_enclave_list)
  then have "driver_ok s' ys" using assms keeps_below by (auto simp: driver_ok_def idents_handles)
  then show ?thesis using ys(2) by (auto simp: of_others_def)
qed

lemma driver_ok_add:
  assumes "driver_ok s xs" and "add_enclave vmc hdl s = Some y"
  shows "\<exists>ys. driver_ok (snd y) ys \<and> of_others (current_pid s) ys = of_others (current_pid s) xs"
proof -
  have l: "enclave_list s xs" and d: "distinct (map (e_handle \<circ> snd) xs)" and b: "encls_below s"
    using assms(1) by (auto simp: driver_ok_def)
  have q: "encls s (brk s) = None" using b by (auto simp: encls_below_def)
  have b': "encls_below (snd y)" by (rule add_enclave_below [OF assms(2) b])
  show ?thesis
  proof (cases rule: add_enclave_cases [OF l q, of vmc hdl])
    case (3 s' c)
    then have "driver_ok s' (xs @ [(brk s, c)])" using d b' assms(2) by (auto intro!: driver_okI)
    moreover have "of_others (current_pid s) (xs @ [(brk s, c)]) = of_others (current_pid s) xs"
      using 3 by (simp add: of_others_def ident_def)
    ultimately show ?thesis using 3 assms(2) by auto
  qed (use assms(2) d b' in \<open>auto intro!: exI [of _ xs] driver_okI\<close>)
qed

lemma find_enclave_split:
  assumes "enclave_list s xs" and "find_enclave h s = Some (Some q)"
  obtains as c bs where "xs = as @ (q, c) # bs" "e_handle c = h" "pid c = current_pid s" "encls s q = Some c"
proof -
  have eq: "(\<lambda>c. e_handle c = h) \<circ> snd = (\<lambda>(p, c). e_handle c = h)" by auto
  obtain p c where f: "List.find (\<lambda>(p, c). e_handle c = h) xs = Some (p, c)" "q = p"
    using assms(2) enclave_search [OF assms(1), of "\<lambda>c. e_handle c = h", unfolded eq]
    by (auto simp: find_enclave_def bind_Some_iff split: option.split_asm if_split_asm)
  then obtain as bs where x: "xs = as @ (q, c) # bs" "e_handle c = h" by (auto simp: find_Some_split)
  then have "encls s q = Some c" using assms(1) by (auto simp: enclave_list_def)
  moreover from this have "pid c = current_pid s"
    using assms(2) by (auto simp: find_enclave_def bind_Some_iff split: option.split_asm if_split_asm)
  ultimately show thesis using that x by blast
qed

lemma driver_ok_delete:
  assumes "driver_ok s xs" and "delete_enclave vmc h s = Some y"
  shows "\<exists>ys. driver_ok (snd y) ys \<and> of_others (current_pid s) ys = of_others (current_pid s) xs"
  using assms(2)
proof (cases rule: delete_enclave_cases)
  case failed
  then show ?thesis using driver_ok_keeps [OF assms(1)] by blast
next
  case (deleted q t u)
  have l: "enclave_list s xs" and d: "distinct (map (e_handle \<circ> snd) xs)" and b: "encls_below s"
    using assms(1) by (auto simp: driver_ok_def)
  obtain as c bs where x: "xs = as @ (q, c) # bs" "pid c = current_pid s"
    using find_enclave_split [OF l deleted(2)] by metis
  obtain ts where ts: "enclave_list t ts" "idents ts = idents xs" by (rule keeps_enclave_list [OF deleted(3) l])
  obtain as' c' bs' where t: "ts = as' @ (q, c') # bs'" "idents as' = idents as" "idents bs' = idents bs"
    using ts(2) x(1) by (auto simp: idents_def map_eq_append_conv map_eq_Cons_conv)
  note free = enclaves_freeE [OF ts(1) [unfolded t(1)] deleted(4,5)]
  have "encls_below (snd y)" using keeps_below [OF deleted(3) b] free(2,3) by (auto simp: encls_below_def)
  moreover have "distinct (map (e_handle \<circ> snd) (as' @ bs'))"
    using d t(2,3) unfolding x idents_handles by simp
  ultimately have "driver_ok (snd y) (as' @ bs')" using free(1) by (simp add: driver_okI)
  moreover have "of_others (current_pid s) (as' @ bs') = of_others (current_pid s) xs"
    using t(2,3) x by (simp add: of_others_def ident_def)
  ultimately show ?thesis by blast
qed

lemma ioctl_cases:
  assumes "page_walk mm pages" and "tyche_enclave_ioctl vmc vmc10 k mm cmd arg u s = Some (rc, u', s')"
  obtains (quiet) "keeps s s'"
  | (create) rc where "add_enclave vmc (tyche_ids s) (s\<lparr>tyche_ids := tyche_ids s + 1\<rparr>) = Some (rc, s')"
  | (delete) rc where "delete_enclave vmc arg s = Some (rc, s')"
proof -
  have "keeps s s' \<or> (\<exists>rc. add_enclave vmc (tyche_ids s) (s\<lparr>tyche_ids := tyche_ids s + 1\<rparr>) = Some (rc, s')) \<or>
      (\<exists>rc. delete_enclave vmc arg s = Some (rc, s'))"
    using assms(2) unfolding tyche_enclave_ioctl_def Let_def
    by (auto simp: bind_Some_iff split: if_split_asm option.split_asm dest!: transition_keeps add_region_keeps
        add_stack_region_keeps commit_enclave_keeps [OF assms(1)])
  then show thesis using that by blast
qed

lemma ioctl_ok:
  assumes "driver_ok s xs" and "page_walk mm pages" and "tyche_enclave_ioctl vmc vmc10 k mm cmd arg u s = Some (rc, u', s')"
  shows "\<exists>ys. driver_ok s' ys \<and> of_others (current_pid s) ys = of_others (current_pid s) xs"
proof (cases rule: ioctl_cases [OF assms(2,3)])
  case 1
  then show ?thesis by (rule driver_ok_keeps [OF assms(1)])
next
  case (2 rc)
  have "driver_ok (s\<lparr>tyche_ids := tyche_ids s + 1\<rparr>) xs"
    using assms(1) by (auto simp: driver_ok_def enclave_list_def encls_below_def)
  from driver_ok_add [OF this 2] show ?thesis by simp
next
  case (3 rc)
  from driver_ok_delete [OF assms(1) this] show ?thesis by simp
qed

text \<open>The driver is loaded, and then tasks send ioctls to it, one after the other.\<close>

inductive driver_state for vmc vmc10 k mm where
  loaded: "driver_state vmc vmc10 k mm s'"
    if "tyche_enclave_register res register_kprobe call d s = (OK, walk_page_range_prox mm, d', s')"
      and "encls s = Map.empty" and "encl_links s = Map.empty"
| ioctl: "driver_state vmc vmc10 k mm s'"
    if "driver_state vmc vmc10 k mm s"
      and "tyche_enclave_ioctl vmc vmc10 k mm cmd arg u (s\<lparr>current_pid := task\<rparr>) = Some (rc, u', s')"

lemma driver_ok_task: "driver_ok s xs \<Longrightarrow> driver_ok (s\<lparr>current_pid := task\<rparr>) xs"
  by (simp add: driver_ok_def enclave_list_def encls_below_def)

lemma driver_state_ok:
  assumes "driver_state vmc vmc10 k mm s" and "page_walk mm pages"
  shows "\<exists>xs. driver_ok s xs"
  using assms(1)
proof induction
  case (loaded res register_kprobe call d s d' s')
  then have "s' = enclave_init s"
    by (auto simp: tyche_enclave_register_def Let_def split: if_split_asm prod.split_asm)
  then have "driver_ok s' []"
    using loaded by (simp add: driver_ok_def enclave_init_def enclave_list_def encls_below_def live_def)
  then show ?case ..
next
  case (ioctl s cmd arg u task rc u' s')
  then show ?case using ioctl_ok [OF driver_ok_task assms(2)] by blast
qed

section \<open>A loaded driver\<close>

text \<open>A kernel in which every address is mapped to the frame \<open>0x100000\<close>, present and for the user.\<close>

definition demo_mm :: "unit kernel_mm" where
  "demo_mm = \<lparr>walk_page_range_prox = Some (\<lambda>a b ops s. run_walk ops [Pte 0x100067 a] s), PTE_PFN_MASK = 0x000FFFFFFFFFF000\<rparr>"

lemma demo_page_walk: "page_walk demo_mm (\<lambda>a b. [Pte 0x100067 a])"
  by (simp add: page_walk_def demo_mm_def)

definition demo_loaded :: "unit estate" where
  "demo_loaded = enclave_init (demo_driver\<lparr>encls := Map.empty, encl_links := Map.empty, tyche_ids := 0\<rparr>)"

abbreviation "demo_vmc \<equiv> \<lambda>r (m :: unit). (r\<lparr>rax := 0\<rparr>, m)"
abbreviation "demo_user \<equiv> \<lparr>u_create = Map.empty, u_region = Map.empty, u_commit = Map.empty, u_transition = Map.empty,
  u_partial = (\<lambda>_. \<lparr>cm_handle = 0, cm_domain_handle = 0, cm_stack = 0, cm_entry = 0\<rparr>), writable = (\<lambda>_. True)\<rparr>"

lemma demo_state: "driver_state demo_vmc (\<lambda>_. demo_vmc) demo_map demo_mm demo_loaded"
proof (rule driver_state.loaded)
  show "tyche_enclave_register \<lparr>alloc_rc = 0, cdev_rc = 0, class_ok = True, device_ok = True\<rparr> (\<lambda>_. (0, 0x1000))
      (\<lambda>_ _. walk_page_range_prox demo_mm) \<lparr>chrdev = False, cdev = False, dclass = False, device = False\<rparr>
      (demo_driver\<lparr>encls := Map.empty, encl_links := Map.empty, tyche_ids := 0\<rparr>)
    = (OK, walk_page_range_prox demo_mm, \<lparr>chrdev = True, cdev = True, dclass = True, device = True\<rparr>, demo_loaded)"
    by (simp add: tyche_enclave_register_def init_page_walker_def lookup_kallsyms_lookup_name_def demo_mm_def demo_loaded_def)
qed simp_all

lemma demo_created:
  obtains s' q c where "tyche_enclave_ioctl demo_vmc (\<lambda>_. demo_vmc) demo_map demo_mm TYCHE_ENCLAVE_CREATE 0x7000 demo_user
      (demo_loaded\<lparr>current_pid := 7\<rparr>) = Some (OK, demo_user\<lparr>u_create := [0x7000 \<mapsto> 0]\<rparr>, s')"
    "enclave_list s' [(q, c)]" "ident c = (0, 7)"
proof -
  let ?s = "demo_loaded\<lparr>current_pid := 7, tyche_ids := 1\<rparr>"
  have l: "enclave_list ?s []" by (simp add: enclave_list_def demo_loaded_def enclave_init_def live_def)
  have q: "encls ?s (brk ?s) = None" by (simp add: demo_loaded_def enclave_init_def)
  have n: "fst (the (add_enclave demo_vmc 0 ?s)) = OK"
    by (simp add: add_enclave_def demo_loaded_def enclave_init_def demo_driver_def dll_find.simps dll_init_list_def
        alloc_enclave_def kmalloc_def dll_init_elem_def enclaves_add_def dll_macro_defs tyche_domain_create_def
        tc_create_domain_def create_domain_def tyche_create_domain_def tyche_call_def frame0_def Let_def)
  show thesis
  proof (cases rule: add_enclave_cases [OF l q, of demo_vmc 0])
    case (3 s' c)
    then show thesis
      using that [of s' "brk ?s" c]
      by (simp add: tyche_enclave_ioctl_def ioctl_defs demo_loaded_def enclave_init_def ident_def)
  qed (use n in simp_all)
qed

section \<open>Enclaves and tasks\<close>

text \<open>C23: handles.  However the tasks of the system interleave their ioctls, from the moment the module is
  loaded, the list of enclaves is well formed and no two enclaves have the same handle, even when the
  64-bit counter that the handles are taken from wraps around.\<close>

theorem driver_handles_unique:
  assumes "driver_state vmc vmc10 k mm s" and "page_walk mm pages"
  shows "\<exists>xs. enclave_list s xs \<and> distinct (map (e_handle \<circ> snd) xs)"
  using driver_state_ok [OF assms] by (auto simp: driver_ok_def)

theorem driver_handles_unique_witness:
  "\<exists>s q c. driver_state demo_vmc (\<lambda>_. demo_vmc) demo_map demo_mm s \<and> enclave_list s [(q, c)] \<and> ident c = (0, 7) \<and>
    (\<exists>xs. enclave_list s xs \<and> distinct (map (e_handle \<circ> snd) xs))"
proof -
  obtain s' q c where c: "tyche_enclave_ioctl demo_vmc (\<lambda>_. demo_vmc) demo_map demo_mm TYCHE_ENCLAVE_CREATE 0x7000 demo_user
      (demo_loaded\<lparr>current_pid := 7\<rparr>) = Some (OK, demo_user\<lparr>u_create := [0x7000 \<mapsto> 0]\<rparr>, s')"
    "enclave_list s' [(q, c)]" "ident c = (0, 7)" by (rule demo_created)
  have "driver_state demo_vmc (\<lambda>_. demo_vmc) demo_map demo_mm s'" by (rule driver_state.ioctl [OF demo_state c(1)])
  from driver_handles_unique [OF this demo_page_walk] this c(2,3) show ?thesis by blast
qed

text \<open>C24: isolation.  Whatever ioctl a task sends, successful or not, the enclaves of the other tasks stay in
  the list, in the same order, with their handles and owners, and no enclave of another task appears.\<close>

theorem ioctl_isolation:
  assumes "driver_state vmc vmc10 k mm s" and "page_walk mm pages"
    and "tyche_enclave_ioctl vmc vmc10 k mm cmd arg u (s\<lparr>current_pid := task\<rparr>) = Some (rc, u', s')"
  shows "\<exists>xs ys. enclave_list s xs \<and> enclave_list s' ys \<and> of_others task ys = of_others task xs"
proof -
  obtain xs where x: "driver_ok s xs" using driver_state_ok [OF assms(1,2)] by blast
  then show ?thesis using ioctl_ok [OF driver_ok_task assms(2,3), of xs] by (auto simp: driver_ok_def)
qed

theorem ioctl_isolation_witness:
  "\<exists>(s' :: unit estate) q c. enclave_list s' [(q, c)] \<and> ident c = (0, 7) \<and>
    (\<exists>xs ys. enclave_list demo_loaded xs \<and> enclave_list s' ys \<and> of_others 7 ys = of_others 7 xs)"
proof -
  obtain s' q c where c: "tyche_enclave_ioctl demo_vmc (\<lambda>_. demo_vmc) demo_map demo_mm TYCHE_ENCLAVE_CREATE 0x7000 demo_user
      (demo_loaded\<lparr>current_pid := 7\<rparr>) = Some (OK, demo_user\<lparr>u_create := [0x7000 \<mapsto> 0]\<rparr>, s')"
    "enclave_list s' [(q, c)]" "ident c = (0, 7)" by (rule demo_created)
  from ioctl_isolation [OF demo_state demo_page_walk c(1)] c(2,3) show ?thesis
    by (intro exI [of _ s'] exI [of _ q] exI [of _ c] conjI)
qed

section \<open>Collecting pages\<close>

lemma free_pas_frame:
  assumes "free_pas cur s = Some t"
  shows "pars s p = None \<longrightarrow> pars t p = None" and "regs t = regs s" and "brk t = brk s" and "oom t = oom s"
proof -
  have "(pars s p = None \<longrightarrow> pars t p = None) \<and> regs t = regs s \<and> brk t = brk s \<and> oom t = oom s"
    using assms
  proof (rule free_pas.raw_induct [where P = "\<lambda>cur s t. (pars s p = None \<longrightarrow> pars t p = None) \<and> regs t = regs s \<and>
      brk t = brk s \<and> oom t = oom s", rotated], goal_cases)
    case (1 loop cur s t)
    show ?case using 1(2)
      by (auto simp: bind_Some_iff free_pa_def kfree_def split: option.split_asm if_split_asm dest!: 1(1))
  qed
  then show "pars s p = None \<longrightarrow> pars t p = None" "regs t = regs s" "brk t = brk s" "oom t = oom s" by simp_all
qed



text \<open>C27: a failed commit cannot be repeated.  On failure \<open>commit_enclave\<close> frees the page structs of every
  region, but the list head of the region keeps pointing at the first of them.  Collecting the pages of the
  region again, as the next commit does, then reads freed memory at its first mapped page.\<close>

theorem recommit_use_after_free:
  assumes "page_walk mm pages" and "regs s rg = Some r" and "head (pas r) = Some q" and "free_pas (Some q) s = Some t"
    and "q < brk s" and "\<not> oom s (brk s)"
    and "pages (r_src r) (r_src r + (r_end r - r_start r)) = Pte e a # es"
    and "in_range r a" and "e AND PAGE_VALID = PAGE_VALID"
  shows "delete_region_pas rg s = Some t \<and> walk_and_collect_region mm rg t = None"
proof
  show "delete_region_pas rg s = Some t" using assms(2-4) by (simp add: delete_region_pas_def)
  obtain u and z :: dll_elem where u: "free_pa q s = Some u" "free_pas (nxt z) u = Some t"
  proof -
    have "do { x \<leftarrow> pa_links s q; s \<leftarrow> free_pa q s; free_pas (nxt x) s } = Some t"
      using assms(4) by (subst (asm) free_pas.simps) simp
    then show thesis by (elim bind_SomeE) (rule that; assumption)
  qed
  have "pars u q = None" using u(1) by (auto simp: free_pa_def bind_Some_iff kfree_def split: option.split_asm)
  then have q: "pars t q = None" using free_pas_frame(1) [OF u(2)] by blast
  have t: "regs t rg = Some r" "brk t = brk s" "oom t = oom s" using free_pas_frame(2-4) [OF assms(4)] assms(2) by simp_all
  let ?w = "estate.extend t \<lparr>winfo = \<lparr>w_region = Some rg, success = 1\<rparr>\<rparr>"
  obtain walk where w: "walk_page_range_prox mm = Some walk" "\<And>a b ops s. walk a b ops s = run_walk ops (pages a b) s"
    using assms(1) by (auto simp: page_walk_def)
  have "pte_entry (PTE_PFN_MASK mm) e a ?w = None"
    using assms(3,5,6,8,9) q t
    by (auto simp: pte_entry_def in_range_def alloc_pa_def kmalloc_def init_pa_def dll_init_elem_def estate.defs not_less
        add_pa_to_region_def dll_is_empty_def dll_find.simps Let_def)
  then show "walk_and_collect_region mm rg t = None"
    using w t(1) assms(7) by (simp add: walk_and_collect_region_def)
qed

definition demo_collected :: "unit estate" where
  "demo_collected = demo_driver\<lparr>
     encls := [5 \<mapsto> \<lparr>pid = 42, e_handle = 0, tyche_handle = 7, invoke = 0, cr3 = 0, e_entry = 0, stack = 0,
        pts = \<lparr>head = Some 21, tail = Some 21\<rparr>, regions = \<lparr>head = Some 10, tail = Some 10\<rparr>, all_pages = dll_init_list\<rparr>],
     regs := [10 \<mapsto> (demo_region 0x4000 0x5000 0x10000)\<lparr>pas := \<lparr>head = Some 20, tail = Some 20\<rparr>\<rparr>],
     pars := [20 \<mapsto> demo_page 0x100000 0x101000, 21 \<mapsto> demo_page 0x300000 0x301000],
     pa_links := [20 \<mapsto> \<lparr>prev = None, nxt = None\<rparr>, 21 \<mapsto> \<lparr>prev = None, nxt = None\<rparr>],
     glob_links := [20 \<mapsto> \<lparr>prev = None, nxt = None\<rparr>, 21 \<mapsto> \<lparr>prev = None, nxt = None\<rparr>]\<rparr>"

theorem recommit_use_after_free_witness:
  "\<exists>t. delete_region_pas 10 demo_collected = Some t \<and> walk_and_collect_region demo_mm 10 t = None"
proof -
  let ?r = "(demo_region 0x4000 0x5000 0x10000)\<lparr>pas := \<lparr>head = Some 20, tail = Some 20\<rparr>\<rparr>"
  obtain t where "free_pas (Some 20) demo_collected = Some t"
    by (simp add: free_pas.simps free_pa_def demo_collected_def demo_driver_def)
  moreover have "0x100067 AND PAGE_VALID = PAGE_VALID" by (simp add: PAGE_VALID_def PT_PAGE_PRESENT_def PT_PAGE_USER_def PT_PAGE_BIT_PRESENT_def PT_PAGE_BIT_USER_def)
  ultimately show ?thesis
    using recommit_use_after_free [OF demo_page_walk, of demo_collected 10 ?r 20 t "0x100067" "0x10000" "[]"]
    by (auto simp: demo_collected_def demo_driver_def demo_region_def in_range_def)
qed

section \<open>Deleting an enclave\<close>

text \<open>C26: deleting an enclave.  When the monitor has taken back the pages of the enclave, \<open>delete_enclave\<close>
  succeeds; it takes the enclave and nothing else off the list, and frees its struct, the structs of its
  regions and every page struct in its lists.  It frees nothing else: the page-table pages of the enclave
  and the structs that record them stay allocated, with no pointer left to them.\<close>

theorem delete_enclave_correct:
  assumes "enclave_list s (as @ (en, c) # bs)" and "find_enclave h s = Some (Some en)" and "owned s en ps rs"
    and "revoke_pages vmc en (head (all_pages c)) s = Some (True, r)"
  shows "\<exists>s'. delete_enclave vmc h s = Some (OK, s') \<and> enclave_list s' (as @ bs) \<and> encls s' = (encls s)(en := None) \<and>
    regs s' = without (regs s) (set (map fst rs)) \<and>
    pars s' = without (pars s) (set (map fst ps) \<union> set (struct_pages rs)) \<and>
    pt_mem s' = pt_mem s \<and> page_next s' = page_next s"
proof -
  have o: "ours s r" using revoke_pages_ours [OF assms(4)] by simp
  note eq = estate_more [of r s, OF conjunct1 [OF o]]
  have el: "enclave_list r (as @ (en, c) # bs)" and ow: "owned r en ps rs" using assms(1,3) owned_ours [OF o] by simp_all
  have c: "encls s en = Some c" using assms(1) by (auto simp: enclave_list_def)
  obtain t c1 u rl pl gl rm c2 where d0: "free_all_pages en r = Some t" "encls t en = Some c1"
      "free_pas_of_regions (head (regions c1)) t = Some u"
    and d: "free_regions en u = Some (r\<lparr>encls := (encls r)(en \<mapsto> c2), regs := without rm (set (map fst rs)), reg_links := rl,
        pars := without (pars r) (set (map fst ps) \<union> set (struct_pages rs)), pa_links := pl, glob_links := gl\<rparr>)" (is "_ = Some ?v")
      "without rm (set (map fst rs)) = without (regs r) (set (map fst rs))"
    by (rule delete_body [OF ow])
  have nd: "en \<notin> set (map fst (as @ bs))"
  proof -
    have "dll (encl_links r) (enclaves r) (map fst (as @ (en, c) # bs))" using el by (simp only: enclave_list_def)
    from dll_distinct [OF this] show ?thesis by simp
  qed
  have "enclave_list ?v (as @ (en, c2) # bs)"
  proof -
    have "live ((encls r)(en \<mapsto> c2)) (encl_links r)" by (rule live_upd [of _ _ _ c]) (use el in \<open>auto simp: enclave_list_def\<close>)
    moreover have m: "p \<noteq> en" "encls r p = Some a" if "(p, a) \<in> set (as @ bs)" for p a
      using nd that el by (force simp: enclave_list_def)+
    have "((encls r)(en \<mapsto> c2)) p = Some a" if "(p, a) \<in> set (as @ (en, c2) # bs)" for p a
      using m [of p a] that by (cases "(p, a) \<in> set (as @ bs)") auto
    then have "\<forall>(p, a) \<in> set (as @ (en, c2) # bs). ((encls r)(en \<mapsto> c2)) p = Some a" by blast
    ultimately show ?thesis using el by (simp add: enclave_list_def)
  qed
  note v = this
  obtain l lk where f: "enclaves_remove en ?v = Some (?v\<lparr>enclaves := l, encl_links := lk\<rparr>)"
    "free_enclave en (?v\<lparr>enclaves := l, encl_links := lk\<rparr>) =
       Some (?v\<lparr>enclaves := l, encl_links := lk(en := None), encls := (encls ?v)(en := None)\<rparr>)" (is "_ = Some ?w")
    by (rule enclaves_free_ok [OF v])
  have "delete_enclave vmc h s = Some (OK, ?w)"
    using assms(2,4) c d0 d(1) f by (simp add: delete_enclave_def del: without_apply fun_upd_apply)
  moreover have "pt_mem r = pt_mem s" "page_next r = page_next s" using o by (cases r, cases s, simp)+
  ultimately show ?thesis using enclaves_freeE [OF v f] eq d(2)
    by (intro exI [of _ ?w]) (simp del: without_apply fun_upd_apply)
qed


theorem delete_enclave_correct_witness:
  "\<exists>s'. delete_enclave demo_vmc 0 demo_collected = Some (OK, s') \<and> enclave_list s' [] \<and> regs s' = Map.empty \<and>
     pars s' = [21 \<mapsto> demo_page 0x300000 0x301000]"
proof -
  let ?r = "(demo_region 0x4000 0x5000 0x10000)\<lparr>pas := \<lparr>head = Some 20, tail = Some 20\<rparr>\<rparr>"
  let ?c = "the (encls demo_collected 5)"
  have f: "find_enclave 0 demo_collected = Some (Some 5)"
    unfolding find_enclave_def by (subst dll_find.simps) (simp add: demo_collected_def demo_driver_def)
  have l: "enclave_list demo_collected ([] @ (5, ?c) # [])"
    by (simp add: enclave_list_def demo_collected_def demo_driver_def dll_def live_def)
  have o: "owned demo_collected 5 [] [(10, ?r, [20])]"
    by (simp add: owned_def page_list_def region_list_def demo_collected_def demo_driver_def dll_def live_def dll_init_list_def)
  have "revoke_pages demo_vmc 5 (head (all_pages ?c)) demo_collected = Some (True, demo_collected)"
    by (simp add: revoke_pages.simps demo_collected_def dll_init_list_def)
  from delete_enclave_correct [OF l f o this]
  show ?thesis by (auto simp: demo_collected_def demo_driver_def without_def fun_eq_iff)
qed

end
