(* ===== verification/User_Process.thy ===== *)
theory User_Process
  imports Prelude
begin

text \<open>
  What the user programs use of the C library and the kernel: files that are read through descriptors, the
  heap, and the mappings of the address space.  Access rights of mappings are not modelled.
\<close>

type_synonym u8 = "8 word"
type_synonym u16 = "16 word"
type_synonym bytes = "u8 list"

text \<open>An open regular file has its contents and its offset.\<close>

datatype open_file = Regular bytes nat | Device

text \<open>\<open>blocks\<close> are the live blocks of the heap, numbered in the order of their allocation; \<open>no_mem\<close> says which
  allocations fail.  \<open>mem\<close> is the part of the address space that \<open>mmap\<close> made, byte by byte, and
  \<open>map_pool\<close> what its successive calls return (\<open>None\<close> is \<open>MAP_FAILED\<close>).  \<open>munmap_ok\<close> and \<open>close_ok\<close> say at which
  addresses an unmapping and for which descriptors a close reports success.  \<open>dev\<close> is the state of the
  driver behind the device file, and \<open>dev_ok\<close> whether that file can be opened.\<close>

record 'd proc =
  filesys :: "string \<rightharpoonup> bytes"
  fds :: "int \<rightharpoonup> open_file"
  fstat_ok :: bool
  blocks :: "nat set"
  next_block :: nat
  no_mem :: "nat \<Rightarrow> bool"
  mem :: "u64 \<rightharpoonup> u8"
  map_pool :: "nat \<Rightarrow> u64 option"
  next_map :: nat
  munmap_ok :: "u64 \<Rightarrow> bool"
  close_ok :: "int \<Rightarrow> bool"
  dev_ok :: bool
  dev :: 'd

abbreviation MAP_FAILED :: u64 where "MAP_FAILED \<equiv> - 1"

section \<open>Heap\<close>

text \<open>An array on the heap: its block and its elements.  Access checks both.\<close>

record 'a buf =
  block :: nat
  cells :: "'a list"

definition malloc :: "('d, 'z) proc_scheme \<Rightarrow> nat option \<times> ('d, 'z) proc_scheme" where
  "malloc s = (let b = next_block s; s = s\<lparr>next_block := Suc b\<rparr> in
     if no_mem s b then (None, s) else (Some b, s\<lparr>blocks := insert b (blocks s)\<rparr>))"

definition free_block :: "nat option \<Rightarrow> ('d, 'z) proc_scheme \<Rightarrow> ('d, 'z) proc_scheme option" where
  "free_block p s = (case p of None \<Rightarrow> Some s
     | Some b \<Rightarrow> if b \<in> blocks s then Some (s\<lparr>blocks := blocks s - {b}\<rparr>) else None)"

definition free_buf :: "('a, 'y) buf_scheme option \<Rightarrow> ('d, 'z) proc_scheme \<Rightarrow> ('d, 'z) proc_scheme option" where
  "free_buf p s = free_block (map_option block p) s"

definition at :: "('a, 'y) buf_scheme option \<Rightarrow> nat \<Rightarrow> ('d, 'z) proc_scheme \<Rightarrow> 'a option" where
  "at p i s = do {
     b \<leftarrow> p;
     c_assert (block b \<in> blocks s \<and> i < length (cells b));
     Some (cells b ! i) }"

section \<open>Files\<close>

definition sys_open :: "string \<Rightarrow> ('d, 'z) proc_scheme \<Rightarrow> int \<times> ('d, 'z) proc_scheme" where
  "sys_open path s =
     (case (List.find (\<lambda>i. fds s (int i) = None) [0..<1024], filesys s path) of
        (Some i, Some bs) \<Rightarrow> (int i, s\<lparr>fds := (fds s)(int i \<mapsto> Regular bs 0)\<rparr>)
      | _ \<Rightarrow> (- 1, s))"

definition sys_open_device :: "('d, 'z) proc_scheme \<Rightarrow> int \<times> ('d, 'z) proc_scheme" where
  "sys_open_device s =
     (case List.find (\<lambda>i. fds s (int i) = None) [0..<1024] of
        Some i \<Rightarrow> if dev_ok s then (int i, s\<lparr>fds := (fds s)(int i \<mapsto> Device)\<rparr>) else (- 1, s)
      | None \<Rightarrow> (- 1, s))"

text \<open>A \<open>close\<close> that reports an error has released the descriptor all the same.\<close>

definition sys_close :: "int \<Rightarrow> ('d, 'z) proc_scheme \<Rightarrow> c_int \<times> ('d, 'z) proc_scheme" where
  "sys_close fd s = (if fds s fd = None then (FAIL, s)
     else (if close_ok s fd then OK else FAIL, s\<lparr>fds := (fds s)(fd := None)\<rparr>))"

text \<open>\<open>lseek\<close> with \<open>SEEK_SET\<close>: the offset is signed.\<close>

definition sys_lseek :: "int \<Rightarrow> u64 \<Rightarrow> ('d, 'z) proc_scheme \<Rightarrow> u64 \<times> ('d, 'z) proc_scheme" where
  "sys_lseek fd off s = (case fds s fd of
     Some (Regular bs _) \<Rightarrow>
       if off <s 0 then (- 1, s) else (off, s\<lparr>fds := (fds s)(fd \<mapsto> Regular bs (unat off))\<rparr>)
   | _ \<Rightarrow> (- 1, s))"

text \<open>A \<open>read\<close> transfers at most \<open>0x7ffff000\<close> bytes; \<open>None\<close> is the error -1.\<close>

definition sys_read :: "int \<Rightarrow> nat \<Rightarrow> ('d, 'z) proc_scheme \<Rightarrow> bytes option \<times> ('d, 'z) proc_scheme" where
  "sys_read fd n s = (case fds s fd of
     Some (Regular bs off) \<Rightarrow>
       let r = take (min n 0x7ffff000) (drop off bs) in
       (Some r, s\<lparr>fds := (fds s)(fd \<mapsto> Regular bs (off + length r))\<rparr>)
   | _ \<Rightarrow> (None, s))"

section \<open>Mappings\<close>

definition page_up :: "nat \<Rightarrow> nat" where
  "page_up n = (n + 4095) div 4096 * 4096"

definition in_map :: "u64 \<Rightarrow> nat \<Rightarrow> u64 \<Rightarrow> bool" where
  "in_map a n x \<longleftrightarrow> unat (x - a) < page_up n"

text \<open>\<open>mmap(NULL, n, ...)\<close>: the new pages hold the bytes \<open>init\<close> and are 0 behind them.\<close>

definition sys_mmap :: "nat \<Rightarrow> bytes \<Rightarrow> ('d, 'z) proc_scheme \<Rightarrow> u64 \<times> ('d, 'z) proc_scheme" where
  "sys_mmap n init s = (if n = 0 then (MAP_FAILED, s)
     else let r = map_pool s (next_map s); s = s\<lparr>next_map := Suc (next_map s)\<rparr> in
       case r of None \<Rightarrow> (MAP_FAILED, s)
       | Some a \<Rightarrow> (a, s\<lparr>mem := (\<lambda>x. if in_map a n x
            then Some (if unat (x - a) < length init then init ! unat (x - a) else 0) else mem s x)\<rparr>))"

definition sys_munmap :: "u64 \<Rightarrow> nat \<Rightarrow> ('d, 'z) proc_scheme \<Rightarrow> c_int \<times> ('d, 'z) proc_scheme" where
  "sys_munmap a n s = (if n = 0 \<or> a mod 0x1000 \<noteq> 0 \<or> \<not> munmap_ok s a then (FAIL, s)
     else (OK, s\<lparr>mem := (\<lambda>x. if in_map a n x then None else mem s x)\<rparr>))"

definition load_bytes :: "u64 \<Rightarrow> nat \<Rightarrow> ('d, 'z) proc_scheme \<Rightarrow> bytes option" where
  "load_bytes a n s = those (map (\<lambda>i. mem s (a + of_nat i)) [0..<n])"

definition store_bytes :: "u64 \<Rightarrow> bytes \<Rightarrow> ('d, 'z) proc_scheme \<Rightarrow> ('d, 'z) proc_scheme option" where
  "store_bytes a bs s = do {
     c_assert (list_all (\<lambda>i. mem s (a + of_nat i) \<noteq> None) [0..<length bs]);
     Some (s\<lparr>mem := fold (\<lambda>i m. m(a + of_nat i \<mapsto> bs ! i)) [0..<length bs] (mem s)\<rparr>) }"

section \<open>Bytes and strings\<close>

text \<open>Little-endian integers in a byte list.\<close>

definition le :: "nat \<Rightarrow> nat \<Rightarrow> bytes \<Rightarrow> 'a::len word" where
  "le off n bs = foldr (\<lambda>b w. push_bit 8 w OR ucast b) (take n (drop off bs)) 0"

definition put_le :: "nat \<Rightarrow> 'a::len word \<Rightarrow> bytes" where
  "put_le n w = map (\<lambda>i. ucast (drop_bit (8 * i) w)) [0..<n]"

lemma length_put_le [simp]: "length (put_le n w) = n"
  by (simp add: put_le_def)

lemma put_le_from:
  fixes w :: "'a::len word"
  assumes "LENGTH('a) = 8 * n" and "k \<le> n"
  shows "foldr (\<lambda>b w. push_bit 8 w OR ucast b) (map (\<lambda>i. ucast (drop_bit (8 * i) w) :: u8) [k..<n]) 0 = drop_bit (8 * k) w"
  using assms(2)
proof (induction "n - k" arbitrary: k)
  case 0
  then have "drop_bit (8 * k) w = 0" using assms(1) by (intro bit_word_eqI) (auto simp: bit_simps dest: bit_imp_le_length)
  then show ?case using 0 by simp
next
  case (Suc d)
  then have k: "k < n" and ih: "foldr (\<lambda>b w. push_bit 8 w OR ucast b) (map (\<lambda>i. ucast (drop_bit (8 * i) w) :: u8) [Suc k..<n]) 0
      = drop_bit (8 * Suc k) w" by auto
  have "push_bit 8 (drop_bit (8 * Suc k) w) OR ucast (ucast (drop_bit (8 * k) w) :: u8) = drop_bit (8 * k) w"
  proof (rule bit_word_eqI)
    fix i assume "i < LENGTH('a)"
    have "bit w (8 * Suc k + (i - 8)) = bit w (8 * k + i)" if "8 \<le> i" using that by (simp add: algebra_simps)
    then show "bit (push_bit 8 (drop_bit (8 * Suc k) w) OR ucast (ucast (drop_bit (8 * k) w) :: u8)) i = bit (drop_bit (8 * k) w) i"
      using \<open>i < LENGTH('a)\<close> by (cases "8 \<le> i") (auto simp: bit_or_iff bit_push_bit_iff bit_drop_bit_eq bit_ucast_iff)
  qed
  then show ?case using k ih by (simp add: upt_conv_Cons)
qed

lemma le_put:
  fixes w :: "'a::len word"
  assumes "LENGTH('a) = 8 * n" and "length pre = off"
  shows "le off n (pre @ put_le n w @ post) = w"
  using put_le_from [OF assms(1), of 0] assms(2) by (simp add: le_def put_le_def)

lemma le_skip: "length a \<le> off \<Longrightarrow> le off n (a @ b) = le (off - length a) n b"
  by (simp add: le_def)

lemma le_here:
  fixes w :: "'a::len word"
  assumes "LENGTH('a) = 8 * n"
  shows "le 0 n (put_le n w @ post) = w" and "le 0 n (put_le n w) = w"
  using le_put [OF assms, of "[]" 0 w] by (simp, metis append.right_neutral append_Nil list.size(3))

lemma le_bound: "bit (foldr (\<lambda>b w. push_bit 8 w OR ucast b) (bs :: bytes) (0 :: 'a::len word)) i \<Longrightarrow> i < 8 * length bs"
proof (induction bs arbitrary: i)
  case Nil
  then show ?case by simp
next
  case (Cons b bs)
  from Cons.prems show ?case by (auto simp: bit_simps dest: bit_imp_le_length dest!: Cons.IH)
qed

lemma put_le_le_from:
  fixes bs :: bytes
  assumes "8 * length bs \<le> LENGTH('a::len)"
  shows "put_le (length bs) (foldr (\<lambda>b w. push_bit 8 w OR ucast b) bs (0 :: 'a word)) = bs"
  using assms
proof (induction bs)
  case Nil
  then show ?case by (simp add: put_le_def)
next
  case (Cons b bs)
  let ?w = "foldr (\<lambda>b w. push_bit 8 w OR ucast b) bs (0 :: 'a word)"
  have "drop_bit 8 (push_bit 8 ?w OR ucast b) = ?w"
  proof (rule bit_word_eqI)
    fix i assume i: "i < LENGTH('a)"
    show "bit (drop_bit 8 (push_bit 8 ?w OR ucast b)) i = bit ?w i"
      using le_bound [where 'a = 'a, of bs i] Cons.prems by (auto simp: bit_simps dest: bit_imp_le_length)
  qed
  moreover have "ucast (push_bit 8 ?w OR ucast b :: 'a word) = b"
    using Cons.prems by (intro bit_word_eqI) (auto simp: bit_simps)
  moreover have "put_le (Suc (length bs)) v = ucast v # put_le (length bs) (drop_bit 8 v)" for v :: "'a word"
    by (simp add: put_le_def map_upt_Suc add.commute del: upt_Suc)
  ultimately show ?case using Cons by simp
qed

lemma put_le_le: "length bs = n \<Longrightarrow> 8 * n \<le> LENGTH('a::len) \<Longrightarrow> put_le n (le 0 n bs :: 'a word) = bs"
  using put_le_le_from [of bs, where 'a = 'a] by (auto simp: le_def)

text \<open>\<open>strcmp(s, p) == 0\<close> for a string \<open>s\<close> without its final NUL and the bytes from \<open>p\<close> to the end of its block:
  the comparison must not run past the end.\<close>

fun str_eq :: "bytes \<Rightarrow> bytes \<Rightarrow> bool option" where
  "str_eq s [] = None" |
  "str_eq [] (b # bs) = Some (b = 0)" |
  "str_eq (c # cs) (b # bs) = (if c = b then str_eq cs bs else Some False)"

text \<open>Printing with \<open>%s\<close>: the bytes up to the NUL.\<close>

definition c_string :: "bytes \<Rightarrow> bytes option" where
  "c_string bs = (if 0 \<in> set bs then Some (takeWhile (\<lambda>b. b \<noteq> 0) bs) else None)"

definition ascii :: "string \<Rightarrow> bytes" where
  "ascii s = map (\<lambda>c. of_nat (of_char c)) s"

end
