(* ===== verification/Elf64.thy ===== *)
theory Elf64
  imports User_Process
begin

text \<open>
  \<open>programs/libs/elf64/src/lib.c\<close>: reading the header, the tables and the symbols of a 64-bit ELF file.  The
  structs are those of \<open>elf.h\<close>, in the little-endian layout of x86-64.  A failed \<open>TEST\<close> aborts the process:
  \<open>None\<close>.  Pointers to locals of the callers are never NULL.
\<close>

section \<open>elf.h\<close>

record Elf64_Ehdr =
  e_ident :: bytes
  e_type :: u16
  e_machine :: u16
  e_version :: u32
  e_entry64 :: u64
  e_phoff :: u64
  e_shoff :: u64
  e_flags :: u32
  e_ehsize :: u16
  e_phentsize :: u16
  e_phnum :: u16
  e_shentsize :: u16
  e_shnum :: u16
  e_shstrndx :: u16

record Elf64_Phdr =
  p_type :: u32
  p_flags :: u32
  p_offset :: u64
  p_vaddr :: u64
  p_paddr :: u64
  p_filesz :: u64
  p_memsz :: u64
  p_align :: u64

record Elf64_Shdr =
  sh_name :: u32
  sh_type :: u32
  sh_flags :: u64
  sh_addr :: u64
  sh_offset :: u64
  sh_size :: u64
  sh_link :: u32
  sh_info :: u32
  sh_addralign :: u64
  sh_entsize :: u64

record Elf64_Sym =
  st_name :: u32
  st_info :: u8
  st_other :: u8
  st_shndx :: u16
  st_value :: u64
  st_size :: u64

abbreviation "sizeof_Ehdr \<equiv> 64 :: nat"
abbreviation "sizeof_Phdr \<equiv> 56 :: nat"
abbreviation "sizeof_Shdr \<equiv> 64 :: nat"
abbreviation "sizeof_Sym \<equiv> 24 :: nat"

abbreviation "SHT_SYMTAB \<equiv> 2 :: u32"
abbreviation "SHT_DYNSYM \<equiv> 11 :: u32"

definition ELFMAG :: bytes where "ELFMAG = [0x7F, 0x45, 0x4C, 0x46]"

definition as_Ehdr :: "bytes \<Rightarrow> Elf64_Ehdr" where
  "as_Ehdr b = \<lparr>e_ident = take 16 b, e_type = le 16 2 b, e_machine = le 18 2 b, e_version = le 20 4 b,
     e_entry64 = le 24 8 b, e_phoff = le 32 8 b, e_shoff = le 40 8 b, e_flags = le 48 4 b, e_ehsize = le 52 2 b,
     e_phentsize = le 54 2 b, e_phnum = le 56 2 b, e_shentsize = le 58 2 b, e_shnum = le 60 2 b, e_shstrndx = le 62 2 b\<rparr>"

definition as_Phdr :: "bytes \<Rightarrow> Elf64_Phdr" where
  "as_Phdr b = \<lparr>p_type = le 0 4 b, p_flags = le 4 4 b, p_offset = le 8 8 b, p_vaddr = le 16 8 b, p_paddr = le 24 8 b,
     p_filesz = le 32 8 b, p_memsz = le 40 8 b, p_align = le 48 8 b\<rparr>"

definition as_Shdr :: "bytes \<Rightarrow> Elf64_Shdr" where
  "as_Shdr b = \<lparr>sh_name = le 0 4 b, sh_type = le 4 4 b, sh_flags = le 8 8 b, sh_addr = le 16 8 b, sh_offset = le 24 8 b,
     sh_size = le 32 8 b, sh_link = le 40 4 b, sh_info = le 44 4 b, sh_addralign = le 48 8 b, sh_entsize = le 56 8 b\<rparr>"

definition as_Sym :: "bytes \<Rightarrow> Elf64_Sym" where
  "as_Sym b = \<lparr>st_name = le 0 4 b, st_info = le 4 1 b, st_other = le 5 1 b, st_shndx = le 6 2 b, st_value = le 8 8 b,
     st_size = le 16 8 b\<rparr>"

section \<open>lib.c\<close>

text \<open>\<open>TEST(lseek(fd, off, SEEK_SET) == off)\<close> and \<open>TEST(read(fd, p, n) == n)\<close>.\<close>

definition seek_to :: "int \<Rightarrow> u64 \<Rightarrow> ('d, 'z) proc_scheme \<Rightarrow> ('d, 'z) proc_scheme option" where
  "seek_to fd off s = (let (r, s) = sys_lseek fd off s in if r = off then Some s else None)"

definition read_all :: "int \<Rightarrow> nat \<Rightarrow> ('d, 'z) proc_scheme \<Rightarrow> (bytes \<times> ('d, 'z) proc_scheme) option" where
  "read_all fd n s = (case sys_read fd n s of
     (Some b, s) \<Rightarrow> if length b = n then Some (b, s) else None | (None, s) \<Rightarrow> None)"

definition read_elf64_header :: "int \<Rightarrow> ('d, 'z) proc_scheme \<Rightarrow> (Elf64_Ehdr \<times> ('d, 'z) proc_scheme) option" where
  "read_elf64_header fd s = do {
     s \<leftarrow> seek_to fd 0 s;
     (b, s) \<leftarrow> read_all fd sizeof_Ehdr s;
     let eh = as_Ehdr b;
     c_assert (take 4 (e_ident eh) = ELFMAG);
     Some (eh, s) }"

fun read_table :: "(bytes \<Rightarrow> 'a) \<Rightarrow> nat \<Rightarrow> int \<Rightarrow> nat \<Rightarrow> ('d, 'z) proc_scheme \<Rightarrow> ('a list \<times> ('d, 'z) proc_scheme) option" where
  "read_table as sz fd 0 s = Some ([], s)" |
  "read_table as sz fd (Suc n) s = do {
     (b, s) \<leftarrow> read_all fd sz s;
     (xs, s) \<leftarrow> read_table as sz fd n s;
     Some (as b # xs, s) }"

definition read_elf64_sections ::
  "int \<Rightarrow> Elf64_Ehdr \<Rightarrow> ('d, 'z) proc_scheme \<Rightarrow> (u64 \<times> Elf64_Shdr buf option \<times> ('d, 'z) proc_scheme) option" where
  "read_elf64_sections fd eh s = do {
     c_assert (e_shnum eh > 0);
     let (p, s) = malloc s;
     b \<leftarrow> p;
     s \<leftarrow> seek_to fd (e_shoff eh) s;
     (xs, s) \<leftarrow> read_table as_Shdr sizeof_Shdr fd (unat (e_shnum eh)) s;
     Some (ucast (e_shnum eh), Some \<lparr>block = b, cells = xs\<rparr>, s) }"

definition read_elf64_segments ::
  "int \<Rightarrow> Elf64_Ehdr \<Rightarrow> ('d, 'z) proc_scheme \<Rightarrow> (u64 \<times> Elf64_Phdr buf option \<times> ('d, 'z) proc_scheme) option" where
  "read_elf64_segments fd eh s = do {
     c_assert (e_phnum eh > 0);
     let (p, s) = malloc s;
     b \<leftarrow> p;
     s \<leftarrow> seek_to fd (e_phoff eh) s;
     c_assert (unat (e_phentsize eh) = sizeof_Phdr);
     (xs, s) \<leftarrow> read_table as_Phdr sizeof_Phdr fd (unat (e_phnum eh)) s;
     Some (ucast (e_phnum eh), Some \<lparr>block = b, cells = xs\<rparr>, s) }"

definition read_section64 ::
  "int \<Rightarrow> Elf64_Shdr \<Rightarrow> ('d, 'z) proc_scheme \<Rightarrow> (u8 buf option \<times> ('d, 'z) proc_scheme) option" where
  "read_section64 fd sh s = do {
     let (p, s) = malloc s;
     b \<leftarrow> p;
     s \<leftarrow> seek_to fd (sh_offset sh) s;
     (r, s) \<leftarrow> read_all fd (unat (sh_size sh)) s;
     Some (Some \<lparr>block = b, cells = r\<rparr>, s) }"

text \<open>A row of the printed table: index, offset, address, size, alignment, flags, type and name.\<close>

type_synonym row = "nat \<times> u64 \<times> u64 \<times> u64 \<times> u64 \<times> u64 \<times> u32 \<times> bytes"

definition print_elf64_section ::
  "int \<Rightarrow> Elf64_Ehdr \<Rightarrow> Elf64_Shdr buf option \<Rightarrow> nat \<Rightarrow> ('d, 'z) proc_scheme \<Rightarrow> (row \<times> ('d, 'z) proc_scheme) option" where
  "print_elf64_section fd eh sh_table i s = do {
     h \<leftarrow> at sh_table (unat (e_shstrndx eh)) s;
     (sh_str, s) \<leftarrow> read_section64 fd h s;
     x \<leftarrow> at sh_table i s;
     b \<leftarrow> sh_str;
     name \<leftarrow> c_string (drop (unat (sh_name x)) (cells b));
     s \<leftarrow> free_buf sh_str s;
     Some ((i, sh_offset x, sh_addr x, sh_size x, sh_addralign x, sh_flags x, sh_type x, name), s) }"

fun print_rows ::
  "int \<Rightarrow> Elf64_Ehdr \<Rightarrow> Elf64_Shdr buf option \<Rightarrow> nat list \<Rightarrow> ('d, 'z) proc_scheme \<Rightarrow> (row list \<times> ('d, 'z) proc_scheme) option" where
  "print_rows fd eh sh_table [] s = Some ([], s)" |
  "print_rows fd eh sh_table (i # is) s = do {
     (r, s) \<leftarrow> print_elf64_section fd eh sh_table i s;
     (rs, s) \<leftarrow> print_rows fd eh sh_table is s;
     Some (r # rs, s) }"

definition print_elf64_sheaders ::
  "int \<Rightarrow> Elf64_Ehdr \<Rightarrow> Elf64_Shdr buf option \<Rightarrow> ('d, 'z) proc_scheme \<Rightarrow> (row list \<times> ('d, 'z) proc_scheme) option" where
  "print_elf64_sheaders fd eh sh_table s = print_rows fd eh sh_table [0..<unat (e_shnum eh)] s"

text \<open>The loop over the symbol table, on its contents and those of the string table.\<close>

fun symbol_loop :: "bytes \<Rightarrow> bytes \<Rightarrow> Elf64_Sym list \<Rightarrow> Elf64_Sym option option" where
  "symbol_loop symbol str_tbl [] = Some None" |
  "symbol_loop symbol str_tbl (x # xs) = do {
     eq \<leftarrow> str_eq symbol (drop (unat (st_name x)) str_tbl);
     if eq then Some (Some x) else symbol_loop symbol str_tbl xs }"

fun chunks :: "nat \<Rightarrow> nat \<Rightarrow> bytes \<Rightarrow> bytes list" where
  "chunks sz 0 bs = []" |
  "chunks sz (Suc n) bs = take sz bs # chunks sz n (drop sz bs)"

definition find_symbol_in_section ::
  "int \<Rightarrow> bytes \<Rightarrow> Elf64_Ehdr \<Rightarrow> Elf64_Shdr buf option \<Rightarrow> nat \<Rightarrow> ('d, 'z) proc_scheme \<Rightarrow>
   (Elf64_Sym buf option \<times> ('d, 'z) proc_scheme) option" where
  "find_symbol_in_section fd symbol eh sections idx s = do {
     sh \<leftarrow> at sections idx s;
     (sym_tbl, s) \<leftarrow> read_section64 fd sh s;
     syms \<leftarrow> sym_tbl;
     let str_tbl_ndx = sh_link sh;
     c_assert (str_tbl_ndx < ucast (e_shnum eh));
     st \<leftarrow> at sections (unat str_tbl_ndx) s;
     (str_tbl, s) \<leftarrow> read_section64 fd st s;
     strs \<leftarrow> str_tbl;
     s \<leftarrow> (if unat (sh_size sh) mod sizeof_Sym \<noteq> 0
          then map_option snd (print_elf64_section fd eh sections idx s) else Some s);
     c_assert (unat (sh_size sh) mod sizeof_Sym = 0);
     let symbol_count = unat (sh_size sh) div sizeof_Sym;
     found \<leftarrow> symbol_loop symbol (cells strs) (map as_Sym (chunks sizeof_Sym symbol_count (cells syms)));
     (result, s) \<leftarrow> (case found of None \<Rightarrow> Some (None, s)
        | Some x \<Rightarrow> do {
            let (p, s) = malloc s;
            b \<leftarrow> p;
            Some (Some \<lparr>block = b, cells = [x]\<rparr>, s) });
     s \<leftarrow> free_buf sym_tbl s;
     s \<leftarrow> free_buf str_tbl s;
     Some (result, s) }"

text \<open>The loop over the sections; behind it, \<open>TEST(result = NULL)\<close> assigns and always aborts.\<close>

fun find_symbol_from ::
  "int \<Rightarrow> bytes \<Rightarrow> Elf64_Ehdr \<Rightarrow> Elf64_Shdr buf option \<Rightarrow> nat list \<Rightarrow> ('d, 'z) proc_scheme \<Rightarrow>
   (Elf64_Sym buf option \<times> ('d, 'z) proc_scheme) option" where
  "find_symbol_from fd symbol eh sections [] s = None" |
  "find_symbol_from fd symbol eh sections (i # is) s = do {
     sh \<leftarrow> at sections i s;
     if sh_type sh = SHT_DYNSYM \<or> sh_type sh = SHT_SYMTAB
     then do {
       (result, s) \<leftarrow> find_symbol_in_section fd symbol eh sections i s;
       if result \<noteq> None then Some (result, s) else find_symbol_from fd symbol eh sections is s }
     else find_symbol_from fd symbol eh sections is s }"

definition find_symbol ::
  "int \<Rightarrow> bytes \<Rightarrow> Elf64_Ehdr \<Rightarrow> Elf64_Shdr buf option \<Rightarrow> ('d, 'z) proc_scheme \<Rightarrow>
   (Elf64_Sym buf option \<times> ('d, 'z) proc_scheme) option" where
  "find_symbol fd symbol eh sections s = find_symbol_from fd symbol eh sections [0..<unat (e_shnum eh)] s"

end
