(* ===== verification/Loader.thy ===== *)
theory Loader
  imports Elf64 Enclave_State
begin

text \<open>
  \<open>programs/libs/enclave/loader/lib.c\<close>: the library that a program uses to load an enclave from an ELF file.
  The driver is a parameter: a function from a request and the state behind the device file to the reply.
  The log messages have no effect on the state.
\<close>

section \<open>The device\<close>

datatype request = Create | Add_region tyche_encl_add_region_t | Commit tyche_encl_commit_t
  | Transition tyche_encl_transition_t | Delete tyche_encl_handle_t

text \<open>The return code and the message that the driver writes back for \<open>Create\<close> and \<open>Commit\<close>.\<close>

record reply =
  code :: c_int
  new_handle :: tyche_encl_handle_t
  committed :: tyche_encl_commit_t

type_synonym 'd driver = "request \<Rightarrow> 'd \<Rightarrow> reply \<times> 'd"

definition no_commit :: tyche_encl_commit_t where
  "no_commit = \<lparr>cm_handle = 0, cm_domain_handle = 0, cm_stack = 0, cm_entry = 0\<rparr>"

definition sys_ioctl :: "'d driver \<Rightarrow> int \<Rightarrow> request \<Rightarrow> ('d, 'z) proc_scheme \<Rightarrow> reply \<times> ('d, 'z) proc_scheme" where
  "sys_ioctl drv fd req s = (case fds s fd of
     Some Device \<Rightarrow> let (r, d) = drv req (dev s) in (r, s\<lparr>dev := d\<rparr>)
   | _ \<Rightarrow> (\<lparr>code = FAIL, new_handle = 0, committed = no_commit\<rparr>, s))"

section \<open>encl_loader.h\<close>

record lib_encl_t =
  plugin :: u64
  plugin_size :: u64
  vmcall_gate :: u64

text \<open>NULL pointers to mappings are 0; \<open>stack_section\<close> is an index into \<open>sections\<close>.\<close>

record load_encl_t =
  driver_fd :: int
  elf_fd :: int
  elf_content :: u64
  elf_size :: u64
  header :: Elf64_Ehdr
  sections :: "Elf64_Shdr buf option"
  segments :: "Elf64_Phdr buf option"
  stack_section :: "nat option"
  entry_point :: "Elf64_Sym buf option"
  l_handle :: tyche_encl_handle_t
  l_domain :: domain_id_t
  mappings :: "u64 buf option"
  sizes :: "u64 buf option"

record 'd lproc = "'d proc" +
  library_plugin :: "lib_encl_t buf option"

definition VMCALL_GATE_NAME :: bytes where "VMCALL_GATE_NAME = ascii ''domain_gate_vmcall''"

section \<open>lib.c\<close>

definition STACK_SECTION_NAME :: bytes where "STACK_SECTION_NAME = ascii ''.encl_stack''"
definition ENCLAVE_START :: bytes where "ENCLAVE_START = ascii ''encl_start''"
definition stack_headroom :: u64 where "stack_headroom = 4"

definition set_at :: "'a buf option \<Rightarrow> nat \<Rightarrow> 'a \<Rightarrow> ('d, 'z) proc_scheme \<Rightarrow> 'a buf option option" where
  "set_at p i v s = do {
     b \<leftarrow> p;
     c_assert (block b \<in> blocks s \<and> i < length (cells b));
     Some (Some (b\<lparr>cells := (cells b)[i := v]\<rparr>)) }"

text \<open>The result, the descriptor and the size; the latter is written on success only.\<close>

definition mmap_file :: "string \<Rightarrow> u64 \<Rightarrow> ('d, 'z) proc_scheme \<Rightarrow> u64 \<times> int \<times> u64 \<times> ('d, 'z) proc_scheme" where
  "mmap_file file sz s =
     (let (fd, s) = sys_open file s in
      if fd < 0 then (0, fd, sz, s)
      else case fds s fd of
        Some (Regular bs off) \<Rightarrow>
          if \<not> fstat_ok s then (let (_, s) = sys_close fd s in (0, fd, sz, s))
          else let (p, s) = sys_mmap (length bs) bs s in
            if p = MAP_FAILED then (let (_, s) = sys_close fd s in (0, fd, sz, s))
            else (p, fd, of_nat (length bs), s)
      | _ \<Rightarrow> (0, fd, sz, s))"

text \<open>The first section of a given name.\<close>

fun find_section :: "bytes \<Rightarrow> u8 buf option \<Rightarrow> Elf64_Shdr buf option \<Rightarrow> nat list \<Rightarrow> ('d, 'z) proc_scheme \<Rightarrow> nat option option" where
  "find_section name sh_names sec [] s = Some None" |
  "find_section name sh_names sec (i # is) s = do {
     x \<leftarrow> at sec i s;
     b \<leftarrow> sh_names;
     eq \<leftarrow> str_eq name (drop (unat (sh_name x)) (cells b));
     if eq then Some (Some i) else find_section name sh_names sec is s }"

definition parse_enclave :: "load_encl_t option \<Rightarrow> ('d, 'z) proc_scheme \<Rightarrow> (c_int \<times> load_encl_t option \<times> ('d, 'z) proc_scheme) option" where
  "parse_enclave enclave s = (case enclave of None \<Rightarrow> Some (FAIL, None, s)
     | Some encl \<Rightarrow>
         if elf_fd encl < 0 then Some (FAIL, Some encl, s)
         else do {
           (eh, s) \<leftarrow> read_elf64_header (elf_fd encl) s;
           (_, segs, s) \<leftarrow> read_elf64_segments (elf_fd encl) eh s;
           (_, secs, s) \<leftarrow> read_elf64_sections (elf_fd encl) eh s;
           let encl = encl\<lparr>header := eh, segments := segs, sections := secs\<rparr>;
           x \<leftarrow> at secs (unat (e_shstrndx eh)) s;
           (sh_names, s) \<leftarrow> read_section64 (elf_fd encl) x s;
           found \<leftarrow> find_section STACK_SECTION_NAME sh_names secs [0..<unat (e_shnum eh)] s;
           let encl = (case found of None \<Rightarrow> encl | Some i \<Rightarrow> encl\<lparr>stack_section := Some i\<rparr>);
           s \<leftarrow> free_buf sh_names s;
           if stack_section encl = None then do {
             s \<leftarrow> free_buf (sections encl) s;
             s \<leftarrow> free_buf (segments encl) s;
             Some (FAIL, Some encl, s) }
           else do {
             (entry, s) \<leftarrow> find_symbol (elf_fd encl) ENCLAVE_START eh (sections encl) s;
             Some (OK, Some (encl\<lparr>entry_point := entry\<rparr>), s) } })"

definition translate_elf_flags :: "u32 \<Rightarrow> u64" where
  "translate_elf_flags flags =
     (let result = 0;
          result = (if flags AND 1 \<noteq> 0 then result OR TE_EXEC else result);
          result = (if flags AND 2 \<noteq> 0 then result OR TE_WRITE else result)
      in if flags AND 4 \<noteq> 0 then result OR TE_READ else result)"

abbreviation "PT_LOAD \<equiv> 1 :: u32"

definition align_size :: "u64 \<Rightarrow> u64 \<Rightarrow> u64 option" where
  "align_size memsz align = (if align = 0 then None
     else let modulo = memsz mod align in Some (memsz + (if modulo \<noteq> 0 then align - modulo else 0)))"

fun map_segments :: "nat list \<Rightarrow> load_encl_t \<Rightarrow> ('d, 'z) proc_scheme \<Rightarrow> (bool \<times> load_encl_t \<times> ('d, 'z) proc_scheme) option" where
  "map_segments [] encl s = Some (True, encl, s)" |
  "map_segments (i # is) encl s = do {
     segment \<leftarrow> at (segments encl) i s;
     if p_type segment \<noteq> PT_LOAD then map_segments is encl s
     else do {
       sz \<leftarrow> align_size (p_memsz segment) (p_align segment);
       szs \<leftarrow> set_at (sizes encl) i sz s;
       let (a, s) = sys_mmap (unat sz) [] s;
       maps \<leftarrow> set_at (mappings encl) i a s;
       let encl = encl\<lparr>sizes := szs, mappings := maps\<rparr>;
       if a = MAP_FAILED then Some (False, encl, s)
       else do {
         bs \<leftarrow> load_bytes (elf_content encl + p_offset segment) (unat (p_filesz segment)) s;
         s \<leftarrow> store_bytes a bs s;
         map_segments is encl s } } }"

fun unmap_segments :: "nat list \<Rightarrow> load_encl_t \<Rightarrow> ('d, 'z) proc_scheme \<Rightarrow> ('d, 'z) proc_scheme option" where
  "unmap_segments [] encl s = Some s" |
  "unmap_segments (i # is) encl s = do {
     a \<leftarrow> at (mappings encl) i s;
     if a = 0 \<or> a = MAP_FAILED then unmap_segments is encl s
     else do {
       n \<leftarrow> at (sizes encl) i s;
       let (_, s) = sys_munmap a (unat n) s;
       unmap_segments is encl s } }"

definition map_enclave :: "load_encl_t option \<Rightarrow> ('d, 'z) proc_scheme \<Rightarrow> (c_int \<times> load_encl_t option \<times> ('d, 'z) proc_scheme) option" where
  "map_enclave enclave s = (case enclave of None \<Rightarrow> Some (FAIL, None, s)
     | Some encl \<Rightarrow>
         let n = unat (e_phnum (header encl)); (p, s) = malloc s in
         case p of None \<Rightarrow> Some (FAIL, Some (encl\<lparr>mappings := None\<rparr>), s)
         | Some b \<Rightarrow>
             let encl = encl\<lparr>mappings := Some \<lparr>block = b, cells = replicate n 0\<rparr>\<rparr>; (q, s) = malloc s in
             case q of None \<Rightarrow> do {
               let encl = encl\<lparr>sizes := None\<rparr>;
               s \<leftarrow> free_buf (mappings encl) s;
               Some (FAIL, Some encl, s) }
             | Some c \<Rightarrow> do {
                 let encl = encl\<lparr>sizes := Some \<lparr>block = c, cells = replicate n 0\<rparr>\<rparr>;
                 (ok, encl, s) \<leftarrow> map_segments [0..<n] encl s;
                 if ok then Some (OK, Some encl, s)
                 else do {
                   s \<leftarrow> unmap_segments [0..<n] encl s;
                   s \<leftarrow> free_buf (sizes encl) s;
                   s \<leftarrow> free_buf (mappings encl) s;
                   Some (FAIL, Some encl, s) } })"

text \<open>The regions of the segments; \<open>False\<close> when the driver refuses one.\<close>

fun add_segments :: "'d driver \<Rightarrow> nat list \<Rightarrow> load_encl_t \<Rightarrow> ('d, 'z) proc_scheme \<Rightarrow> (bool \<times> ('d, 'z) proc_scheme) option" where
  "add_segments drv [] encl s = Some (True, s)" |
  "add_segments drv (i # is) encl s = do {
     segment \<leftarrow> at (segments encl) i s;
     if p_type segment \<noteq> PT_LOAD then add_segments drv is encl s
     else do {
       n \<leftarrow> at (sizes encl) i s;
       a \<leftarrow> at (mappings encl) i s;
       let region = \<lparr>m_handle = l_handle encl, m_start = p_vaddr segment, m_end = p_vaddr segment + n, m_src = a,
                     m_flags = translate_elf_flags (p_flags segment), m_tpe = Confidential\<rparr>;
       let (r, s) = sys_ioctl drv (driver_fd encl) (Add_region region) s;
       if code r \<noteq> 0 then Some (False, s) else add_segments drv is encl s } }"

text \<open>The extra regions of the caller, in the order of their list; their handles are set as they are sent.\<close>

fun add_extras :: "'d driver \<Rightarrow> load_encl_t \<Rightarrow> tyche_encl_add_region_t list \<Rightarrow> ('d, 'z) proc_scheme \<Rightarrow>
    bool \<times> tyche_encl_add_region_t list \<times> ('d, 'z) proc_scheme" where
  "add_extras drv encl [] s = (True, [], s)" |
  "add_extras drv encl (x # xs) s =
     (let x = x\<lparr>m_handle := l_handle encl\<rparr>; (r, s) = sys_ioctl drv (driver_fd encl) (Add_region x) s in
      if code r \<noteq> 0 then (False, x # xs, s)
      else let (ok, ys, s) = add_extras drv encl xs s in (ok, x # ys, s))"

text \<open>The labels \<open>fail_close\<close>, \<open>fail_free\<close> and \<open>fail_unmap\<close> of \<open>create_enclave\<close>.\<close>

definition create_fail_close :: "load_encl_t \<Rightarrow> ('d, 'z) proc_scheme \<Rightarrow> (c_int \<times> load_encl_t \<times> ('d, 'z) proc_scheme) option" where
  "create_fail_close encl s = (let (_, s) = sys_close (driver_fd encl) s in Some (FAIL, encl, s))"

definition create_fail_free :: "load_encl_t \<Rightarrow> ('d, 'z) proc_scheme \<Rightarrow> (c_int \<times> load_encl_t \<times> ('d, 'z) proc_scheme) option" where
  "create_fail_free encl s = do { s \<leftarrow> free_buf (mappings encl) s; create_fail_close encl s }"

definition create_fail_unmap :: "load_encl_t \<Rightarrow> ('d, 'z) proc_scheme \<Rightarrow> (c_int \<times> load_encl_t \<times> ('d, 'z) proc_scheme) option" where
  "create_fail_unmap encl s = do {
     s \<leftarrow> unmap_segments [0..<unat (e_phnum (header encl))] encl s;
     s \<leftarrow> free_buf (sizes encl) s;
     create_fail_free encl s }"

text \<open>The region of \<open>encl.so\<close>, the same addresses in the process and in the enclave.\<close>

definition plugin_region :: "load_encl_t \<Rightarrow> lib_encl_t \<Rightarrow> tyche_encl_add_region_t" where
  "plugin_region encl lib = \<lparr>m_handle = l_handle encl, m_start = plugin lib, m_end = plugin lib + plugin_size lib,
     m_src = plugin lib, m_flags = TE_READ OR TE_EXEC OR TE_USER, m_tpe = Shared\<rparr>"

definition commit_message :: "load_encl_t \<Rightarrow> ('d, 'z) proc_scheme \<Rightarrow> tyche_encl_commit_t option" where
  "commit_message encl s = do {
     stk \<leftarrow> (case stack_section encl of None \<Rightarrow> Some 0
            | Some i \<Rightarrow> do { x \<leftarrow> at (sections encl) i s; Some (sh_addr x + sh_size x - stack_headroom) });
     ent \<leftarrow> (case entry_point encl of None \<Rightarrow> Some 0
            | Some b \<Rightarrow> do { x \<leftarrow> at (Some b) 0 s; Some (st_value x) });
     Some \<lparr>cm_handle = l_handle encl, cm_domain_handle = 0, cm_stack = stk, cm_entry = ent\<rparr> }"

definition create_enclave ::
  "'d driver \<Rightarrow> load_encl_t \<Rightarrow> tyche_encl_add_region_t list \<Rightarrow> 'd lproc \<Rightarrow> (c_int \<times> load_encl_t \<times> 'd lproc) option" where
  "create_enclave drv encl extras s =
     (let (fd, s) = sys_open_device s; encl = encl\<lparr>driver_fd := fd\<rparr> in
      if fd < 0 then Some (FAIL, encl, s)
      else let (r, s) = sys_ioctl drv fd Create s in
        if code r = FAIL then create_fail_close encl s
        else let encl = encl\<lparr>l_handle := new_handle r\<rparr> in
          if mappings encl = None \<or> sizes encl = None then create_fail_close encl s
          else do {
            lib \<leftarrow> at (library_plugin s) 0 s;
            let (r, s) = sys_ioctl drv fd (Add_region (plugin_region encl lib)) s;
            if code r \<noteq> 0 then create_fail_free encl s
            else let (ok, _, s) = add_extras drv encl extras s in
              if \<not> ok then create_fail_free encl s
              else do {
                (ok, s) \<leftarrow> add_segments drv [0..<unat (e_phnum (header encl))] encl s;
                if \<not> ok then create_fail_unmap encl s
                else do {
                  commit \<leftarrow> commit_message encl s;
                  let (r, s) = sys_ioctl drv fd (Commit commit) s;
                  if code r \<noteq> 0 then create_fail_unmap encl s
                  else if cm_handle (committed r) \<noteq> l_handle encl then create_fail_unmap encl s
                  else Some (OK, encl\<lparr>l_domain := cm_domain_handle (committed r)\<rparr>, s) } } })"

section \<open>The plugin library\<close>

fun find_segment :: "Elf64_Shdr \<Rightarrow> Elf64_Phdr buf option \<Rightarrow> nat list \<Rightarrow> ('d, 'z) proc_scheme \<Rightarrow> nat option option" where
  "find_segment txt segs [] s = Some None" |
  "find_segment txt segs (i # is) s = do {
     p \<leftarrow> at segs i s;
     if p_offset p \<le> sh_offset txt \<and> p_offset p + p_filesz p \<ge> sh_offset txt + sh_size txt then Some (Some i)
     else find_segment txt segs is s }"

text \<open>\<open>read\<close> into memory; it fails when the memory is not mapped.\<close>

definition read_into :: "int \<Rightarrow> u64 \<Rightarrow> nat \<Rightarrow> ('d, 'z) proc_scheme \<Rightarrow> nat option \<times> ('d, 'z) proc_scheme" where
  "read_into fd a n s = (case sys_read fd n s of
     (None, s) \<Rightarrow> (None, s)
   | (Some bs, s') \<Rightarrow> (case store_bytes a bs s' of None \<Rightarrow> (None, s) | Some s' \<Rightarrow> (Some (length bs), s')))"

text \<open>The labels of \<open>init_enclave_loader\<close>; the local arrays are freed on no path.\<close>

definition init_fail_close :: "int \<Rightarrow> 'd lproc \<Rightarrow> (lib_encl_t buf option \<times> 'd lproc) option" where
  "init_fail_close fd s = (let (_, s) = sys_close fd s in Some (None, s))"

definition init_fail_free :: "int \<Rightarrow> 'd lproc \<Rightarrow> (lib_encl_t buf option \<times> 'd lproc) option" where
  "init_fail_free fd s = do {
     s \<leftarrow> free_buf (library_plugin s) s;
     init_fail_close fd (s\<lparr>library_plugin := None\<rparr>) }"

definition init_fail_unmap :: "int \<Rightarrow> 'd lproc \<Rightarrow> (lib_encl_t buf option \<times> 'd lproc) option" where
  "init_fail_unmap fd s = do {
     lib \<leftarrow> at (library_plugin s) 0 s;
     let (_, s) = sys_munmap (plugin lib) (unat (plugin_size lib)) s;
     init_fail_free fd s }"

definition init_enclave_loader :: "string \<Rightarrow> 'd lproc \<Rightarrow> (lib_encl_t buf option \<times> 'd lproc) option" where
  "init_enclave_loader libencl s =
     (if library_plugin s \<noteq> None then Some (library_plugin s, s)
      else let (fd, s) = sys_open libencl s in
        if fd < 0 then Some (None, s)
        else do {
          (eh, s) \<leftarrow> read_elf64_header fd s;
          (_, segs, s) \<leftarrow> read_elf64_segments fd eh s;
          (_, secs, s) \<leftarrow> read_elf64_sections fd eh s;
          x \<leftarrow> at secs (unat (e_shstrndx eh)) s;
          (sh_names, s) \<leftarrow> read_section64 fd x s;
          found \<leftarrow> find_section (ascii ''.text'') sh_names secs [0..<unat (e_shnum eh)] s;
          s \<leftarrow> free_buf sh_names s;
          case found of None \<Rightarrow> init_fail_close fd s
          | Some i \<Rightarrow> do {
              txt \<leftarrow> at secs i s;
              seg \<leftarrow> find_segment txt segs [0..<unat (e_phnum eh)] s;
              case seg of None \<Rightarrow> init_fail_close fd s
              | Some j \<Rightarrow> do {
                  g \<leftarrow> at segs j s;
                  let (p, s) = malloc s;
                  case p of None \<Rightarrow> init_fail_close fd s
                  | Some b \<Rightarrow> do {
                      sz \<leftarrow> align_size (p_memsz g) (p_align g);
                      let (a, s) = sys_mmap (unat sz) [] s;
                      let lib = \<lparr>plugin = a, plugin_size = sz, vmcall_gate = 0\<rparr>;
                      let s = s\<lparr>library_plugin := Some \<lparr>block = b, cells = [lib]\<rparr>\<rparr>;
                      if a = MAP_FAILED then init_fail_free fd s
                      else let (r, s) = sys_lseek fd (p_offset g) s in
                        if r \<noteq> p_offset g then init_fail_unmap fd s
                        else let (n, s) = read_into fd a (unat (p_filesz g)) s in
                          if n \<noteq> Some (unat (p_filesz g)) then init_fail_unmap fd s
                          else do {
                            (gate, s) \<leftarrow> find_symbol fd VMCALL_GATE_NAME eh secs s;
                            if gate = None then init_fail_unmap fd s
                            else do {
                              y \<leftarrow> at gate 0 s;
                              let lib = lib\<lparr>vmcall_gate := st_value y - p_vaddr g + a\<rparr>;
                              let s = s\<lparr>library_plugin := Some \<lparr>block = b, cells = [lib]\<rparr>\<rparr>;
                              s \<leftarrow> free_buf gate s;
                              let (_, s) = sys_close fd s;
                              Some (library_plugin s, s) } } } } } })"

section \<open>Public API\<close>

definition zero_header :: Elf64_Ehdr where
  "zero_header = \<lparr>e_ident = replicate 16 0, e_type = 0, e_machine = 0, e_version = 0, e_entry64 = 0, e_phoff = 0, e_shoff = 0,
     e_flags = 0, e_ehsize = 0, e_phentsize = 0, e_phnum = 0, e_shentsize = 0, e_shnum = 0, e_shstrndx = 0\<rparr>"

text \<open>The struct after \<open>memset\<close>.\<close>

definition zero_encl :: load_encl_t where
  "zero_encl = \<lparr>driver_fd = 0, elf_fd = 0, elf_content = 0, elf_size = 0, header = zero_header, sections = None, segments = None,
     stack_section = None, entry_point = None, l_handle = 0, l_domain = 0, mappings = None, sizes = None\<rparr>"

definition load_fail_close :: "load_encl_t \<Rightarrow> 'd lproc \<Rightarrow> (c_int \<times> load_encl_t option \<times> 'd lproc) option" where
  "load_fail_close encl s = (let (_, s) = sys_close (elf_fd encl) s in Some (FAIL, Some encl, s))"

definition load_fail_free :: "load_encl_t \<Rightarrow> 'd lproc \<Rightarrow> (c_int \<times> load_encl_t option \<times> 'd lproc) option" where
  "load_fail_free encl s = do {
     s \<leftarrow> free_buf (sections encl) s;
     s \<leftarrow> free_buf (segments encl) s;
     load_fail_close encl s }"

definition load_enclave ::
  "'d driver \<Rightarrow> string \<Rightarrow> load_encl_t option \<Rightarrow> tyche_encl_add_region_t list \<Rightarrow> 'd lproc \<Rightarrow>
   (c_int \<times> load_encl_t option \<times> 'd lproc) option" where
  "load_enclave drv file enclave extras s =
     (if library_plugin s = None then Some (FAIL, enclave, s)
      else case enclave of None \<Rightarrow> Some (FAIL, None, s)
      | Some _ \<Rightarrow>
          let (p, fd, sz, s) = mmap_file file 0 s;
              encl = zero_encl\<lparr>elf_content := p, elf_fd := fd, elf_size := sz\<rparr> in
          if p = 0 \<or> fd = - 1 then Some (FAIL, Some encl, s)
          else do {
            (rc, e, s) \<leftarrow> parse_enclave (Some encl) s;
            encl \<leftarrow> e;
            if rc \<noteq> 0 then load_fail_close encl s
            else do {
              (rc, e, s) \<leftarrow> map_enclave (Some encl) s;
              encl \<leftarrow> e;
              if rc \<noteq> 0 then load_fail_free encl s
              else do {
                (rc, encl, s) \<leftarrow> create_enclave drv encl extras s;
                if rc \<noteq> 0 then load_fail_free encl s
                else let (rc, s) = sys_munmap (elf_content encl) (unat (elf_size encl)) s in
                  if rc \<noteq> 0 then load_fail_free encl s
                  else let (rc, s) = sys_close (elf_fd encl) s in
                    if rc \<noteq> 0 then load_fail_free encl s
                    else Some (OK, Some (encl\<lparr>elf_content := 0, elf_size := 0\<rparr>), s) } } })"

fun unmap_all :: "nat list \<Rightarrow> load_encl_t \<Rightarrow> ('d, 'z) proc_scheme \<Rightarrow> ('d, 'z) proc_scheme option" where
  "unmap_all [] encl s = Some s" |
  "unmap_all (i # is) encl s = do {
     a \<leftarrow> at (mappings encl) i s;
     n \<leftarrow> at (sizes encl) i s;
     let (_, s) = sys_munmap a (unat n) s;
     unmap_all is encl s }"

definition loader_delete_enclave ::
  "'d driver \<Rightarrow> load_encl_t option \<Rightarrow> ('d, 'z) proc_scheme \<Rightarrow> (c_int \<times> load_encl_t option \<times> ('d, 'z) proc_scheme) option" where
  "loader_delete_enclave drv enclave s = (case enclave of None \<Rightarrow> Some (FAIL, None, s)
     | Some encl \<Rightarrow>
         let (r, s) = sys_ioctl drv (driver_fd encl) (Delete (l_handle encl)) s in
         if code r \<noteq> 0 then Some (FAIL, Some encl, s)
         else do {
           s \<leftarrow> free_buf (sections encl) s;
           s \<leftarrow> free_buf (segments encl) s;
           let encl = encl\<lparr>stack_section := None\<rparr>;
           s \<leftarrow> free_buf (entry_point encl) s;
           s \<leftarrow> unmap_all [0..<unat (e_phnum (header encl))] encl s;
           s \<leftarrow> free_buf (mappings encl) s;
           s \<leftarrow> free_buf (sizes encl) s;
           Some (OK, Some (encl\<lparr>mappings := None, sizes := None\<rparr>), s) })"

definition enclave_driver_transition ::
  "'d driver \<Rightarrow> tyche_encl_handle_t \<Rightarrow> u64 \<Rightarrow> ('d, 'z) proc_scheme \<Rightarrow> c_int \<times> ('d, 'z) proc_scheme" where
  "enclave_driver_transition drv hdl args s =
     (let (fd, s) = sys_open_device s in
      if fd < 0 then (FAIL, s)
      else let (r, s) = sys_ioctl drv fd (Transition \<lparr>t_handle = hdl, t_args = args\<rparr>) s in
        if code r \<noteq> 0 then (FAIL, s) else let (_, s) = sys_close fd s in (OK, s))"

end
