(* ===== verification/Elf64_Theorems.thy ===== *)
theory Elf64_Theorems
  imports Elf64
begin

text \<open>
  The properties of the ELF reader: the tables it reads are those that a writer of the format put into the
  file, and a symbol is found by its name.
\<close>

section \<open>The format\<close>

text \<open>Fields are read where they were put: the bytes before a field are counted by the simplifier.\<close>

definition of_Ehdr :: "Elf64_Ehdr \<Rightarrow> bytes" where
  "of_Ehdr h = e_ident h @ put_le 2 (e_type h) @ put_le 2 (e_machine h) @ put_le 4 (e_version h) @ put_le 8 (e_entry64 h) @
     put_le 8 (e_phoff h) @ put_le 8 (e_shoff h) @ put_le 4 (e_flags h) @ put_le 2 (e_ehsize h) @ put_le 2 (e_phentsize h) @
     put_le 2 (e_phnum h) @ put_le 2 (e_shentsize h) @ put_le 2 (e_shnum h) @ put_le 2 (e_shstrndx h)"

definition of_Phdr :: "Elf64_Phdr \<Rightarrow> bytes" where
  "of_Phdr p = put_le 4 (p_type p) @ put_le 4 (p_flags p) @ put_le 8 (p_offset p) @ put_le 8 (p_vaddr p) @ put_le 8 (p_paddr p) @
     put_le 8 (p_filesz p) @ put_le 8 (p_memsz p) @ put_le 8 (p_align p)"

definition of_Shdr :: "Elf64_Shdr \<Rightarrow> bytes" where
  "of_Shdr h = put_le 4 (sh_name h) @ put_le 4 (sh_type h) @ put_le 8 (sh_flags h) @ put_le 8 (sh_addr h) @ put_le 8 (sh_offset h) @
     put_le 8 (sh_size h) @ put_le 4 (sh_link h) @ put_le 4 (sh_info h) @ put_le 8 (sh_addralign h) @ put_le 8 (sh_entsize h)"

lemma as_of_Ehdr: "length (e_ident h) = 16 \<Longrightarrow> as_Ehdr (of_Ehdr h) = h" and length_of_Ehdr: "length (e_ident h) = 16 \<Longrightarrow> length (of_Ehdr h) = 64"
  by (simp_all add: as_Ehdr_def of_Ehdr_def le_skip le_here)

lemma as_of_Phdr [simp]: "as_Phdr (of_Phdr p) = p" and length_of_Phdr [simp]: "length (of_Phdr p) = 56"
  by (simp_all add: as_Phdr_def of_Phdr_def le_skip le_here)

lemma as_of_Shdr [simp]: "as_Shdr (of_Shdr h) = h" and length_of_Shdr [simp]: "length (of_Shdr h) = 64"
  by (simp_all add: as_Shdr_def of_Shdr_def le_skip le_here)

section \<open>Reading\<close>

lemma seek_to_ok:
  assumes "fds s fd = Some (Regular bs o')" and "\<not> off <s 0"
  shows "seek_to fd off s = Some (s\<lparr>fds := (fds s)(fd \<mapsto> Regular bs (unat off))\<rparr>)"
  using assms by (simp add: seek_to_def sys_lseek_def)

lemma read_all_ok:
  assumes "fds s fd = Some (Regular bs off)" and "off + n \<le> length bs" and "n \<le> 0x7ffff000"
  shows "read_all fd n s = Some (take n (drop off bs), s\<lparr>fds := (fds s)(fd \<mapsto> Regular bs (off + n))\<rparr>)"
proof -
  have "length (take n (drop off bs)) = n" using assms(2) by simp
  then show ?thesis using assms(1,3) by (simp add: read_all_def sys_read_def min_absorb1 Let_def)
qed

lemma read_table_ok:
  assumes "fds s fd = Some (Regular bs off)" and "take (sz * length xs) (drop off bs) = concat (map f xs)"
    and "\<And>x. as (f x) = x" and "\<And>x. length (f x) = sz" and "sz \<le> 0x7ffff000" and "0 < sz"
  shows "read_table as sz fd (length xs) s = Some (xs, s\<lparr>fds := (fds s)(fd \<mapsto> Regular bs (off + sz * length xs))\<rparr>)"
  using assms(1,2)
proof (induction xs arbitrary: s off)
  case Nil
  then show ?case by (simp add: fun_upd_idem)
next
  case (Cons x xs)
  have l: "length (concat (map f (x # xs))) = sz * length (x # xs)"
    by (simp add: length_concat assms(4) sum_list_triv comp_def)
  then have b: "sz * length (x # xs) \<le> length (drop off bs)" using Cons.prems(2) by (metis length_take min.cobounded1)
  have "take sz (take (sz * length (x # xs)) (drop off bs)) = f x" unfolding Cons.prems(2) by (simp add: assms(4))
  then have h: "take sz (drop off bs) = f x" by (simp add: min_def)
  have t: "take (sz * length xs) (drop (off + sz) bs) = concat (map f xs)"
  proof -
    have "drop sz (take (sz * length (x # xs)) (drop off bs)) = concat (map f xs)" unfolding Cons.prems(2) by (simp add: assms(4))
    then show ?thesis by (simp add: drop_take add.commute)
  qed
  have r: "read_all fd sz s = Some (f x, s\<lparr>fds := (fds s)(fd \<mapsto> Regular bs (off + sz))\<rparr>)"
    using read_all_ok [OF Cons.prems(1) _ assms(5)] b h assms(6) by simp
  show ?case using r Cons.IH [of "s\<lparr>fds := (fds s)(fd \<mapsto> Regular bs (off + sz))\<rparr>" "off + sz"] t
    by (simp add: assms(3) add.assoc fun_upd_same del: fun_upd_apply)
qed

section \<open>The tables\<close>

text \<open>A file with the header \<open>h\<close>, the segments \<open>ps\<close> and the sections \<open>shs\<close>.\<close>

definition elf_file :: "bytes \<Rightarrow> Elf64_Ehdr \<Rightarrow> Elf64_Phdr list \<Rightarrow> Elf64_Shdr list \<Rightarrow> bool" where
  "elf_file bs h ps shs \<longleftrightarrow> length (e_ident h) = 16 \<and> take 4 (e_ident h) = ELFMAG \<and> take 64 bs = of_Ehdr h \<and>
     ps \<noteq> [] \<and> unat (e_phnum h) = length ps \<and> unat (e_phentsize h) = 56 \<and> \<not> e_phoff h <s 0 \<and>
     take (56 * length ps) (drop (unat (e_phoff h)) bs) = concat (map of_Phdr ps) \<and>
     shs \<noteq> [] \<and> unat (e_shnum h) = length shs \<and> \<not> e_shoff h <s 0 \<and>
     take (64 * length shs) (drop (unat (e_shoff h)) bs) = concat (map of_Shdr shs)"

definition opened :: "('d, 'z) proc_scheme \<Rightarrow> int \<Rightarrow> bytes \<Rightarrow> bool" where
  "opened s fd bs \<longleftrightarrow> (\<exists>off. fds s fd = Some (Regular bs off))"

lemma seek_opened:
  assumes "opened s fd bs" and "\<not> off <s 0"
  obtains t where "seek_to fd off s = Some t" "fds t fd = Some (Regular bs (unat off))" "t = s\<lparr>fds := fds t\<rparr>"
    "\<forall>f. f \<noteq> fd \<longrightarrow> fds t f = fds s f"
  using assms seek_to_ok [of s fd bs _ off] by (fastforce simp: opened_def)

lemma read_header_ok:
  assumes "opened s fd bs" and "elf_file bs h ps shs"
  shows "\<exists>o'. read_elf64_header fd s = Some (h, s\<lparr>fds := (fds s)(fd \<mapsto> Regular bs o')\<rparr>)"
proof -
  obtain off where o: "fds s fd = Some (Regular bs off)" using assms(1) by (auto simp: opened_def)
  have e: "length (e_ident h) = 16" "take 4 (e_ident h) = ELFMAG" "take 64 bs = of_Ehdr h" using assms(2) by (auto simp: elf_file_def)
  have "64 \<le> length bs" using length_of_Ehdr [OF e(1)] e(3) by (metis length_take min.cobounded1)
  then have "read_all fd 64 (s\<lparr>fds := (fds s)(fd \<mapsto> Regular bs 0)\<rparr>) = Some (of_Ehdr h, s\<lparr>fds := (fds s)(fd \<mapsto> Regular bs 64)\<rparr>)"
    using read_all_ok [of "s\<lparr>fds := (fds s)(fd \<mapsto> Regular bs 0)\<rparr>" fd bs 0 64] e(3) by simp
  then show ?thesis using seek_to_ok [OF o, of 0] as_of_Ehdr [OF e(1)] e(2) by (auto simp: read_elf64_header_def)
qed

text \<open>What the two table readers share: a block, the offset, the table.\<close>

lemma allocate_and_read:
  assumes "opened s fd bs" and "\<not> no_mem s (next_block s)" and "\<not> off <s 0" and "xs \<noteq> []" and "unat n = length xs"
    and "take (sz * length xs) (drop (unat off) bs) = concat (map f xs)"
    and "\<And>x. as (f x) = x" and "\<And>x. length (f x) = sz" and "sz \<le> 0x7ffff000" and "0 < sz"
  obtains t u o' where "malloc s = (Some (next_block s), t)" "seek_to fd off t = Some u"
    "read_table as sz fd (unat n) u = Some (xs,
       s\<lparr>fds := (fds s)(fd \<mapsto> Regular bs o'), next_block := Suc (next_block s), blocks := insert (next_block s) (blocks s)\<rparr>)"
    "0 < n" "ucast n = (of_nat (length xs) :: u64)"
proof -
  obtain o1 where o: "fds s fd = Some (Regular bs o1)" using assms(1) by (auto simp: opened_def)
  let ?t = "s\<lparr>next_block := Suc (next_block s), blocks := insert (next_block s) (blocks s)\<rparr>"
  have m: "malloc s = (Some (next_block s), ?t)" using assms(2) by (simp add: malloc_def Let_def)
  have k: "seek_to fd off ?t = Some (?t\<lparr>fds := (fds s)(fd \<mapsto> Regular bs (unat off))\<rparr>)" (is "_ = Some ?u")
    using seek_to_ok [of ?t fd bs o1] o assms(3) by simp
  have "read_table as sz fd (length xs) ?u = Some (xs, ?u\<lparr>fds := (fds ?u)(fd \<mapsto> Regular bs (unat off + sz * length xs))\<rparr>)"
    by (rule read_table_ok [OF _ assms(6-10)]) simp
  moreover have "0 < n" using assms(4,5) by (metis length_greater_0_conv unat_gt_0 word_neq_0_conv)
  moreover have "ucast n = (of_nat (length xs) :: u64)" using assms(5) by (metis of_nat_unat)
  ultimately show thesis using that [OF m k, of "unat off + sz * length xs"] assms(5) by (simp del: fun_upd_apply)
qed

lemma read_sections_ok:
  assumes "opened s fd bs" and "elf_file bs h ps shs" and "\<not> no_mem s (next_block s)"
  shows "\<exists>o'. read_elf64_sections fd h s = Some (of_nat (length shs), Some \<lparr>block = next_block s, cells = shs\<rparr>,
    s\<lparr>fds := (fds s)(fd \<mapsto> Regular bs o'), next_block := Suc (next_block s), blocks := insert (next_block s) (blocks s)\<rparr>)"
proof -
  have e: "shs \<noteq> []" "unat (e_shnum h) = length shs" "\<not> e_shoff h <s 0"
    "take (64 * length shs) (drop (unat (e_shoff h)) bs) = concat (map of_Shdr shs)" using assms(2) by (auto simp: elf_file_def)
  show ?thesis
    by (rule allocate_and_read [OF assms(1,3) e(3,1,2,4), of as_Shdr])
      (auto simp: read_elf64_sections_def simp del: fun_upd_apply)
qed

lemma read_segments_ok:
  assumes "opened s fd bs" and "elf_file bs h ps shs" and "\<not> no_mem s (next_block s)"
  shows "\<exists>o'. read_elf64_segments fd h s = Some (of_nat (length ps), Some \<lparr>block = next_block s, cells = ps\<rparr>,
    s\<lparr>fds := (fds s)(fd \<mapsto> Regular bs o'), next_block := Suc (next_block s), blocks := insert (next_block s) (blocks s)\<rparr>)"
proof -
  have e: "ps \<noteq> []" "unat (e_phnum h) = length ps" "\<not> e_phoff h <s 0" "unat (e_phentsize h) = 56"
    "take (56 * length ps) (drop (unat (e_phoff h)) bs) = concat (map of_Phdr ps)" using assms(2) by (auto simp: elf_file_def)
  show ?thesis
    by (rule allocate_and_read [OF assms(1,3) e(3,1,2,5), of as_Phdr])
      (use e(4) in \<open>auto simp: read_elf64_segments_def simp del: fun_upd_apply\<close>)
qed

text \<open>C31: the tables round-trip.  A file that was written with a header, program headers and section headers
  in the layout of \<open>elf.h\<close> is read back by \<open>read_elf64_header\<close>, \<open>read_elf64_segments\<close> and
  \<open>read_elf64_sections\<close>, one after the other, as the same header and the same two tables, in two new blocks
  of the heap.\<close>

theorem elf_tables_roundtrip:
  assumes "opened s fd bs" and "elf_file bs h ps shs" and "\<forall>b. \<not> no_mem s b"
  shows "\<exists>t f. do {
      (eh, s) \<leftarrow> read_elf64_header fd s;
      (n, segments, s) \<leftarrow> read_elf64_segments fd eh s;
      (m, sections, s) \<leftarrow> read_elf64_sections fd eh s;
      Some (eh, segments, sections, s) }
    = Some (h, Some \<lparr>block = next_block s, cells = ps\<rparr>, Some \<lparr>block = Suc (next_block s), cells = shs\<rparr>, t) \<and>
    t = s\<lparr>fds := f, next_block := Suc (Suc (next_block s)),
          blocks := insert (Suc (next_block s)) (insert (next_block s) (blocks s))\<rparr> \<and> opened t fd bs"
proof -
  obtain o1 where 1: "read_elf64_header fd s = Some (h, s\<lparr>fds := (fds s)(fd \<mapsto> Regular bs o1)\<rparr>)" (is "_ = Some (_, ?a)")
    using read_header_ok [OF assms(1,2)] by blast
  have a: "opened ?a fd bs" "\<not> no_mem ?a (next_block ?a)" using assms(3) by (simp_all add: opened_def)
  obtain o2 where 2: "read_elf64_segments fd h ?a = Some (of_nat (length ps), Some \<lparr>block = next_block ?a, cells = ps\<rparr>,
      ?a\<lparr>fds := (fds ?a)(fd \<mapsto> Regular bs o2), next_block := Suc (next_block ?a), blocks := insert (next_block ?a) (blocks ?a)\<rparr>)"
    (is "_ = Some (_, _, ?b)")
    using read_segments_ok [OF a(1) assms(2) a(2)] by blast
  have b: "opened ?b fd bs" "\<not> no_mem ?b (next_block ?b)" using assms(3) by (simp_all add: opened_def)
  obtain o3 where 3: "read_elf64_sections fd h ?b = Some (of_nat (length shs), Some \<lparr>block = next_block ?b, cells = shs\<rparr>,
      ?b\<lparr>fds := (fds ?b)(fd \<mapsto> Regular bs o3), next_block := Suc (next_block ?b), blocks := insert (next_block ?b) (blocks ?b)\<rparr>)"
    (is "_ = Some (_, _, ?c)")
    using read_sections_ok [OF b(1) assms(2) b(2)] by blast
  show ?thesis
    by (rule exI [of _ ?c], rule exI [of _ "fds ?c"]) (use 1 2 3 in \<open>simp add: opened_def del: fun_upd_apply, simp\<close>)
qed

definition demo_header :: Elf64_Ehdr where
  "demo_header = \<lparr>e_ident = ELFMAG @ [2, 1, 1, 0, 0, 0, 0, 0, 0, 0, 0, 0], e_type = 2, e_machine = 62, e_version = 1,
     e_entry64 = 0x401000, e_phoff = 64, e_shoff = 120, e_flags = 0, e_ehsize = 64, e_phentsize = 56, e_phnum = 1,
     e_shentsize = 64, e_shnum = 1, e_shstrndx = 0\<rparr>"

lemma demo_header_fields:
  "length (e_ident demo_header) = 16" "take 4 (e_ident demo_header) = ELFMAG" "e_phoff demo_header = 64"
  "e_shoff demo_header = 120" "e_phentsize demo_header = 56" "e_phnum demo_header = 1" "e_shnum demo_header = 1"
  by (simp_all add: demo_header_def ELFMAG_def)

definition demo_segment :: Elf64_Phdr where
  "demo_segment = \<lparr>p_type = 1, p_flags = 5, p_offset = 0, p_vaddr = 0x401000, p_paddr = 0, p_filesz = 16, p_memsz = 20, p_align = 0x1000\<rparr>"

definition demo_section :: "u32 \<Rightarrow> u64 \<Rightarrow> u64 \<Rightarrow> u32 \<Rightarrow> Elf64_Shdr" where
  "demo_section ty off n ln = \<lparr>sh_name = 0, sh_type = ty, sh_flags = 0, sh_addr = 0, sh_offset = off, sh_size = n, sh_link = ln,
     sh_info = 0, sh_addralign = 1, sh_entsize = 0\<rparr>"

definition demo_proc :: "bytes \<Rightarrow> unit proc" where
  "demo_proc bs = \<lparr>filesys = [''demo'' \<mapsto> bs], fds = [3 \<mapsto> Regular bs 0], fstat_ok = True, blocks = {0}, next_block = 1,
     no_mem = (\<lambda>_. False), mem = Map.empty, map_pool = (\<lambda>_. None), next_map = 0, munmap_ok = \<lambda>_. True, close_ok = \<lambda>_. True, dev_ok = True, dev = ()\<rparr>"

theorem elf_tables_roundtrip_witness:
  "\<exists>bs (t :: unit proc). do {
      (eh, s) \<leftarrow> read_elf64_header 3 (demo_proc bs);
      (n, segments, s) \<leftarrow> read_elf64_segments 3 eh s;
      (m, sections, s) \<leftarrow> read_elf64_sections 3 eh s;
      Some (eh, segments, sections, s) }
    = Some (demo_header, Some \<lparr>block = 1, cells = [demo_segment]\<rparr>, Some \<lparr>block = 2, cells = [demo_section 3 0 64 0]\<rparr>, t)"
proof -
  let ?bs = "of_Ehdr demo_header @ of_Phdr demo_segment @ of_Shdr (demo_section 3 0 64 0)"
  have l: "length (of_Ehdr demo_header) = 64" by (rule length_of_Ehdr) (simp add: demo_header_def ELFMAG_def)
  have "elf_file ?bs demo_header [demo_segment] [demo_section 3 0 64 0]"
    unfolding elf_file_def by (simp add: l demo_header_fields word_sless_alt)
  moreover have "opened (demo_proc ?bs) 3 ?bs" by (simp add: opened_def demo_proc_def)
  ultimately show ?thesis
    using elf_tables_roundtrip [of "demo_proc ?bs" 3 ?bs demo_header "[demo_segment]" "[demo_section 3 0 64 0]"]
    by (intro exI [of _ ?bs]) (auto simp: demo_proc_def)
qed

section \<open>Symbols\<close>

definition sec_data :: "bytes \<Rightarrow> Elf64_Shdr \<Rightarrow> bytes" where
  "sec_data bs sh = take (unat (sh_size sh)) (drop (unat (sh_offset sh)) bs)"

definition in_file :: "bytes \<Rightarrow> Elf64_Shdr \<Rightarrow> bool" where
  "in_file bs sh \<longleftrightarrow> \<not> sh_offset sh <s 0 \<and> unat (sh_offset sh) + unat (sh_size sh) \<le> length bs \<and> unat (sh_size sh) \<le> 0x7ffff000"

definition symbols_of :: "bytes \<Rightarrow> Elf64_Shdr \<Rightarrow> Elf64_Sym list" where
  "symbols_of bs sh = map as_Sym (chunks 24 (unat (sh_size sh) div 24) (sec_data bs sh))"

definition name_of :: "bytes \<Rightarrow> Elf64_Sym \<Rightarrow> bytes" where
  "name_of strs x = takeWhile (\<lambda>b. b \<noteq> 0) (drop (unat (st_name x)) strs)"

text \<open>A symbol table: whole entries, a string table that ends with a NUL, and names inside of it.\<close>

definition symtab :: "bytes \<Rightarrow> Elf64_Shdr list \<Rightarrow> Elf64_Shdr \<Rightarrow> bool" where
  "symtab bs shs sh \<longleftrightarrow> in_file bs sh \<and> unat (sh_size sh) mod 24 = 0 \<and> unat (sh_link sh) < length shs \<and>
     (let str = shs ! unat (sh_link sh); strs = sec_data bs str in
      in_file bs str \<and> strs \<noteq> [] \<and> last strs = 0 \<and> (\<forall>x \<in> set (symbols_of bs sh). unat (st_name x) < length strs))"

definition is_symtab :: "Elf64_Shdr \<Rightarrow> bool" where
  "is_symtab sh \<longleftrightarrow> sh_type sh = SHT_DYNSYM \<or> sh_type sh = SHT_SYMTAB"

definition lookup_in :: "bytes \<Rightarrow> Elf64_Shdr list \<Rightarrow> bytes \<Rightarrow> Elf64_Shdr \<Rightarrow> Elf64_Sym option" where
  "lookup_in bs shs symbol sh =
     List.find (\<lambda>x. name_of (sec_data bs (shs ! unat (sh_link sh))) x = symbol) (symbols_of bs sh)"

text \<open>The first symbol of that name, in the order of the sections.\<close>

fun lookup :: "bytes \<Rightarrow> Elf64_Shdr list \<Rightarrow> bytes \<Rightarrow> Elf64_Shdr list \<Rightarrow> Elf64_Sym option" where
  "lookup bs shs symbol [] = None" |
  "lookup bs shs symbol (sh # rest) =
     (case (if is_symtab sh then lookup_in bs shs symbol sh else None) of
        Some x \<Rightarrow> Some x | None \<Rightarrow> lookup bs shs symbol rest)"

lemma unat_up: "LENGTH('a) \<le> LENGTH('b) \<Longrightarrow> unat (ucast (x :: 'a::len word) :: 'b::len word) = unat x"
proof -
  assume "LENGTH('a) \<le> LENGTH('b)"
  then have "(2 :: nat) ^ LENGTH('a) \<le> 2 ^ LENGTH('b)" by simp
  then have "unat x < 2 ^ LENGTH('b)" by (rule less_le_trans [OF unsigned_less])
  then show ?thesis by (simp add: unsigned_ucast_eq take_bit_nat_eq_self_iff)
qed

lemma str_eq_name:
  assumes "0 \<in> set bs" and "0 \<notin> set sy"
  shows "str_eq sy bs = Some (takeWhile (\<lambda>b. b \<noteq> 0) bs = sy)"
  using assms
proof (induction sy bs rule: str_eq.induct)
  case (3 c cs b bs)
  then show ?case by (cases "c = b") auto
qed auto

lemma symbol_loop_find:
  assumes "strs \<noteq> []" and "last strs = 0" and "0 \<notin> set sy" and "\<forall>x \<in> set xs. unat (st_name x) < length strs"
  shows "symbol_loop sy strs xs = Some (List.find (\<lambda>x. name_of strs x = sy) xs)"
  using assms(4)
proof (induction xs)
  case (Cons x xs)
  have "drop (unat (st_name x)) strs \<noteq> []" and "last (drop (unat (st_name x)) strs) = 0"
    using Cons.prems assms(2) by simp_all
  then have "0 \<in> set (drop (unat (st_name x)) strs)" by (metis last_in_set)
  then show ?case using Cons str_eq_name [OF _ assms(3)] by (simp add: name_of_def)
qed simp

lemma read_section_ok:
  assumes "opened s fd bs" and "in_file bs sh" and "\<not> no_mem s (next_block s)"
  obtains f where "read_section64 fd sh s = Some (Some \<lparr>block = next_block s, cells = sec_data bs sh\<rparr>,
      s\<lparr>fds := f, next_block := Suc (next_block s), blocks := insert (next_block s) (blocks s)\<rparr>)"
    "opened (s\<lparr>fds := f\<rparr>) fd bs"
proof -
  obtain o1 where o: "fds s fd = Some (Regular bs o1)" using assms(1) by (auto simp: opened_def)
  let ?t = "s\<lparr>next_block := Suc (next_block s), blocks := insert (next_block s) (blocks s)\<rparr>"
  let ?f = "(fds s)(fd \<mapsto> Regular bs (unat (sh_offset sh)))"
  have m: "malloc s = (Some (next_block s), ?t)" using assms(3) by (simp add: malloc_def Let_def)
  have k: "seek_to fd (sh_offset sh) ?t = Some (?t\<lparr>fds := ?f\<rparr>)"
    using seek_to_ok [of ?t fd bs o1] o assms(2) by (simp add: in_file_def)
  have r: "read_all fd (unat (sh_size sh)) (?t\<lparr>fds := ?f\<rparr>) = Some (sec_data bs sh,
      ?t\<lparr>fds := ?f(fd \<mapsto> Regular bs (unat (sh_offset sh) + unat (sh_size sh)))\<rparr>)"
    using read_all_ok [of "?t\<lparr>fds := ?f\<rparr>" fd bs "unat (sh_offset sh)" "unat (sh_size sh)"] assms(2)
    by (simp add: in_file_def sec_data_def del: fun_upd_upd)
  show thesis
    by (rule that [of "?f(fd \<mapsto> Regular bs (unat (sh_offset sh) + unat (sh_size sh)))"])
      (use m k r in \<open>simp_all add: read_section64_def opened_def fun_upd_same del: fun_upd_apply fun_upd_upd\<close>)
qed

text \<open>A process that has the file open and its section table on the heap.\<close>

definition searching :: "('d, 'z) proc_scheme \<Rightarrow> int \<Rightarrow> bytes \<Rightarrow> Elf64_Ehdr \<Rightarrow> Elf64_Shdr buf option \<Rightarrow> Elf64_Shdr list \<Rightarrow> bool" where
  "searching s fd bs h sections shs \<longleftrightarrow> opened s fd bs \<and> unat (e_shnum h) = length shs \<and> (\<forall>b. \<not> no_mem s b) \<and>
     (\<forall>b \<in> blocks s. b < next_block s) \<and> (\<exists>b. sections = Some \<lparr>block = b, cells = shs\<rparr> \<and> b \<in> blocks s)"

definition with_result :: "('a, 'y) buf_scheme option \<Rightarrow> nat set \<Rightarrow> nat set" where
  "with_result r A = (case r of None \<Rightarrow> A | Some b \<Rightarrow> insert (block b) A)"

lemma find_in_section_ok:
  fixes s :: "('d, 'z) proc_scheme"
  assumes s: "searching s fd bs h sections shs" and i: "i < length shs" and y: "symtab bs shs (shs ! i)" and "0 \<notin> set symbol"
  obtains r f n where "find_symbol_in_section fd symbol h sections i s =
      Some (r, s\<lparr>fds := f, next_block := n, blocks := with_result r (blocks s)\<rparr>)"
    "map_option cells r = map_option (\<lambda>x. [x]) (lookup_in bs shs symbol (shs ! i))"
    "searching (s\<lparr>fds := f, next_block := n, blocks := with_result r (blocks s)\<rparr>) fd bs h sections shs"
proof -
  let ?sh = "shs ! i" and ?n = "next_block s"
  let ?str = "shs ! unat (sh_link ?sh)"
  obtain b where b: "sections = Some \<lparr>block = b, cells = shs\<rparr>" "b \<in> blocks s" and op: "opened s fd bs"
    and num: "unat (e_shnum h) = length shs" and mem: "\<forall>b. \<not> no_mem s b" and fr: "\<forall>b \<in> blocks s. b < ?n"
    using s by (auto simp: searching_def)
  have st: "in_file bs ?sh" "unat (sh_size ?sh) mod 24 = 0" "unat (sh_link ?sh) < length shs" "in_file bs ?str"
    "sec_data bs ?str \<noteq> []" "last (sec_data bs ?str) = 0"
    "\<forall>x \<in> set (symbols_of bs ?sh). unat (st_name x) < length (sec_data bs ?str)"
    using y by (auto simp: symtab_def Let_def)
  obtain f1 where f1: "read_section64 fd ?sh s = Some (Some \<lparr>block = ?n, cells = sec_data bs ?sh\<rparr>,
      s\<lparr>fds := f1, next_block := Suc ?n, blocks := insert ?n (blocks s)\<rparr>)" (is "_ = Some (_, ?s1)")
    "opened (s\<lparr>fds := f1\<rparr>) fd bs"
    by (rule read_section_ok [OF op st(1)]) (use mem in blast)+
  have op1: "opened ?s1 fd bs" and mem1: "\<not> no_mem ?s1 (next_block ?s1)" using f1(2) mem by (simp_all add: opened_def)
  obtain f2 where f2: "read_section64 fd ?str ?s1 = Some (Some \<lparr>block = next_block ?s1, cells = sec_data bs ?str\<rparr>,
      ?s1\<lparr>fds := f2, next_block := Suc (next_block ?s1), blocks := insert (next_block ?s1) (blocks ?s1)\<rparr>)" (is "_ = Some (_, ?s2)")
    "opened (?s1\<lparr>fds := f2\<rparr>) fd bs"
    by (rule read_section_ok [OF op1 st(4) mem1])
  have n: "?n \<notin> blocks s" "Suc ?n \<notin> blocks s" "Suc (Suc ?n) \<notin> blocks s" using fr by (meson Suc_lessD less_irrefl)+
  have loop: "symbol_loop symbol (sec_data bs ?str) (map as_Sym (chunks 24 (unat (sh_size ?sh) div 24) (sec_data bs ?sh)))
      = Some (lookup_in bs shs symbol ?sh)"
    unfolding lookup_in_def symbols_of_def [symmetric] by (rule symbol_loop_find [OF st(5,6) assms(4) st(7)])
  have lt: "sh_link ?sh < ucast (e_shnum h)"
    using st(3) num by (simp add: word_less_nat_alt unat_up)
  let ?r = "map_option (\<lambda>x. \<lparr>block = Suc (Suc ?n), cells = [x]\<rparr>) (lookup_in bs shs symbol ?sh)"
  let ?m = "case lookup_in bs shs symbol ?sh of None \<Rightarrow> Suc (Suc ?n) | Some _ \<Rightarrow> Suc (Suc (Suc ?n))"
  have "find_symbol_in_section fd symbol h sections i s = Some (?r, s\<lparr>fds := f2, next_block := ?m, blocks := with_result ?r (blocks s)\<rparr>)"
    using f1(1) f2(1) b i st(2,3) lt loop n mem
    by (auto simp: find_symbol_in_section_def at_def malloc_def free_buf_def free_block_def with_result_def Let_def
        insert_Diff_if split: option.split)
  moreover have "searching (s\<lparr>fds := f2, next_block := ?m, blocks := with_result ?r (blocks s)\<rparr>) fd bs h sections shs"
    using f2(2) num mem fr b by (auto simp: searching_def opened_def with_result_def less_Suc_eq split: option.split)
  ultimately show thesis using that [of ?r ?m f2] by (simp add: option.map_comp comp_def)
qed

lemma find_symbol_from_ok:
  fixes s :: "('d, 'z) proc_scheme"
  assumes "searching s fd bs h sections shs" and "\<forall>i \<in> set is. i < length shs \<and> (is_symtab (shs ! i) \<longrightarrow> symtab bs shs (shs ! i))"
    and "0 \<notin> set symbol"
  shows "case lookup bs shs symbol (map ((!) shs) is) of
      None \<Rightarrow> find_symbol_from fd symbol h sections is s = None
    | Some x \<Rightarrow> \<exists>b f n. find_symbol_from fd symbol h sections is s =
        Some (Some \<lparr>block = b, cells = [x]\<rparr>, s\<lparr>fds := f, next_block := n, blocks := insert b (blocks s)\<rparr>)"
  using assms(1,2)
proof (induction "is" arbitrary: s)
  case (Cons i "is")
  have i: "i < length shs" and y: "is_symtab (shs ! i) \<Longrightarrow> symtab bs shs (shs ! i)" using Cons.prems(2) by auto
  have at: "at sections i s = Some (shs ! i)" using Cons.prems(1) i by (auto simp: searching_def at_def)
  show ?case
  proof (cases "is_symtab (shs ! i)")
    case False
    then have e: "find_symbol_from fd symbol h sections (i # is) s = find_symbol_from fd symbol h sections is s"
      using at by (simp add: is_symtab_def)
    show ?thesis unfolding e using Cons.IH [OF Cons.prems(1)] Cons.prems(2) False by simp
  next
    case True
    obtain r f n where r: "find_symbol_in_section fd symbol h sections i s =
        Some (r, s\<lparr>fds := f, next_block := n, blocks := with_result r (blocks s)\<rparr>)"
      "map_option cells r = map_option (\<lambda>x. [x]) (lookup_in bs shs symbol (shs ! i))"
      "searching (s\<lparr>fds := f, next_block := n, blocks := with_result r (blocks s)\<rparr>) fd bs h sections shs"
      by (rule find_in_section_ok [OF Cons.prems(1) i y [OF True] assms(3)])
    show ?thesis
    proof (cases "lookup_in bs shs symbol (shs ! i)")
      case None
      then have none: "r = None" using r(2) by simp
      then have e: "find_symbol_from fd symbol h sections (i # is) s = find_symbol_from fd symbol h sections is
          (s\<lparr>fds := f, next_block := n, blocks := with_result r (blocks s)\<rparr>)"
        using at r(1) True by (simp add: is_symtab_def)
      show ?thesis unfolding e using Cons.IH [OF r(3)] Cons.prems(2) True None none
        by (auto simp: with_result_def split: option.splits)
    next
      case (Some x)
      then obtain b where "r = Some \<lparr>block = b, cells = [x]\<rparr>" using r(2) by (cases r) (auto, metis buf.surjective old.unit.exhaust)
      then show ?thesis using at r(1) True Some by (auto simp: is_symtab_def with_result_def)
    qed
  qed
qed simp

text \<open>C32: finding a symbol.  On a well-formed file \<open>find_symbol\<close> returns a copy, in a block of its own, of the
  first symbol of that name in the order of the symbol tables, and leaves no other block behind.  When no
  table has the symbol the process aborts: it never returns the NULL that its header promises.\<close>

theorem find_symbol_correct:
  assumes "searching s fd bs h sections shs" and "\<forall>sh \<in> set shs. is_symtab sh \<longrightarrow> symtab bs shs sh" and "0 \<notin> set symbol"
  shows "case lookup bs shs symbol shs of
      None \<Rightarrow> find_symbol fd symbol h sections s = None
    | Some x \<Rightarrow> \<exists>b f n. find_symbol fd symbol h sections s =
        Some (Some \<lparr>block = b, cells = [x]\<rparr>, s\<lparr>fds := f, next_block := n, blocks := insert b (blocks s)\<rparr>)"
proof -
  have n: "unat (e_shnum h) = length shs" using assms(1) by (simp add: searching_def)
  show ?thesis
    unfolding find_symbol_def n using find_symbol_from_ok [OF assms(1), of "[0..<length shs]" symbol] assms(2,3)
    by (simp add: map_nth)
qed

definition demo_symbols :: bytes where
  "demo_symbols = [1, 0, 0, 0, 18, 0, 1, 0, 0, 0x10, 0x40, 0, 0, 0, 0, 0, 8, 0, 0, 0, 0, 0, 0, 0, 0, 0x66, 0]"

abbreviation "demo_sections \<equiv> [demo_section 2 0 24 1, demo_section 3 24 3 0]"

theorem find_symbol_correct_witness:
  "\<exists>b f n. find_symbol 3 [0x66] (demo_header\<lparr>e_shnum := 2\<rparr>) (Some \<lparr>block = 0, cells = demo_sections\<rparr>) (demo_proc demo_symbols) =
     Some (Some \<lparr>block = b, cells = [\<lparr>st_name = 1, st_info = 18, st_other = 0, st_shndx = 1, st_value = 0x401000, st_size = 8\<rparr>]\<rparr>,
       (demo_proc demo_symbols)\<lparr>fds := f, next_block := n, blocks := {b, 0}\<rparr>)"
proof -
  let ?x = "\<lparr>st_name = 1, st_info = 18, st_other = 0, st_shndx = 1, st_value = 0x401000, st_size = 8\<rparr> :: Elf64_Sym"
  have y: "symbols_of demo_symbols (demo_section 2 0 24 1) = [?x]"
    by (simp add: symbols_of_def sec_data_def demo_section_def demo_symbols_def as_Sym_def le_def)
  have d: "sec_data demo_symbols (demo_section 3 24 3 0) = [0, 0x66, 0]"
    by (simp add: sec_data_def demo_section_def demo_symbols_def)
  have s: "searching (demo_proc demo_symbols) 3 demo_symbols (demo_header\<lparr>e_shnum := 2\<rparr>) (Some \<lparr>block = 0, cells = demo_sections\<rparr>) demo_sections"
    by (simp add: searching_def opened_def demo_proc_def)
  have t: "\<forall>sh \<in> set demo_sections. is_symtab sh \<longrightarrow> symtab demo_symbols demo_sections sh"
    using y d by (simp add: is_symtab_def symtab_def in_file_def demo_section_def demo_symbols_def word_sless_alt)
  have "lookup demo_symbols demo_sections [0x66] demo_sections = Some ?x"
    using y d by (simp add: lookup_in_def is_symtab_def name_of_def demo_section_def)
  then show ?thesis
    using find_symbol_correct [OF s t, of "[0x66]"] by (simp add: demo_proc_def insert_commute)
qed

end
