(* ===== verification/Loader_Theorems.thy ===== *)
theory Loader_Theorems
  imports Loader Elf64_Theorems
begin

text \<open>
  The properties of the enclave loader: what it maps, what it tells the driver, and what it leaves behind.
\<close>

section \<open>The conversation with the driver\<close>

text \<open>Requests are sent in order until the driver refuses one.\<close>

fun exchange :: "'d driver \<Rightarrow> request list \<Rightarrow> 'd \<Rightarrow> bool \<times> 'd" where
  "exchange drv [] d = (True, d)" |
  "exchange drv (q # qs) d = (let (r, d) = drv q d in if code r \<noteq> 0 then (False, d) else exchange drv qs d)"

lemma exchange_append:
  "exchange drv (qs @ qs') d = (let (ok, d) = exchange drv qs d in if ok then exchange drv qs' d else (False, d))"
  by (induction qs arbitrary: d) (auto split: prod.split)

text \<open>A whole session: create, regions, commit.  The result is the handle and the domain, if the driver accepts everything.\<close>

definition session ::
  "'d driver \<Rightarrow> (tyche_encl_handle_t \<Rightarrow> request list) \<Rightarrow> (tyche_encl_handle_t \<Rightarrow> tyche_encl_commit_t) \<Rightarrow> 'd \<Rightarrow> (tyche_encl_handle_t \<times> domain_id_t) option \<times> 'd" where
  "session drv reqs cm d =
     (let (r, d) = drv Create d in
      if code r = FAIL then (None, d)
      else let h = new_handle r; (ok, d) = exchange drv (reqs h) d in
        if \<not> ok then (None, d)
        else let (r, d) = drv (Commit (cm h)) d in
          if code r \<noteq> 0 \<or> cm_handle (committed r) \<noteq> h then (None, d)
          else (Some (h, cm_domain_handle (committed r)), d))"

definition segment_region :: "tyche_encl_handle_t \<Rightarrow> Elf64_Phdr \<times> u64 \<times> u64 \<Rightarrow> tyche_encl_add_region_t" where
  "segment_region h = (\<lambda>(p, n, a). \<lparr>m_handle = h, m_start = p_vaddr p, m_end = p_vaddr p + n, m_src = a,
     m_flags = translate_elf_flags (p_flags p), m_tpe = Confidential\<rparr>)"

definition segment_requests :: "tyche_encl_handle_t \<Rightarrow> (Elf64_Phdr \<times> u64 \<times> u64) list \<Rightarrow> request list" where
  "segment_requests h zs = map (Add_region \<circ> segment_region h) (filter (\<lambda>(p, n, a). p_type p = PT_LOAD) zs)"

text \<open>A parsed and mapped enclave: the arrays on the heap, with one entry for each program header.\<close>

definition mapped ::
  "('d, 'z) proc_scheme \<Rightarrow> load_encl_t \<Rightarrow> (Elf64_Phdr \<times> u64 \<times> u64) list \<Rightarrow> bool" where
  "mapped s encl zs \<longleftrightarrow> unat (e_phnum (header encl)) = length zs \<and>
     (\<exists>b1 b2 b3. segments encl = Some \<lparr>block = b1, cells = map fst zs\<rparr> \<and> sizes encl = Some \<lparr>block = b2, cells = map (fst \<circ> snd) zs\<rparr> \<and>
        mappings encl = Some \<lparr>block = b3, cells = map (snd \<circ> snd) zs\<rparr> \<and> {b1, b2, b3} \<subseteq> blocks s \<and> b2 \<noteq> b3)"

lemma mapped_at:
  assumes "mapped s encl zs" and "i < length zs" and "zs ! i = (p, n, a)"
  shows "at (segments encl) i s = Some p" and "at (sizes encl) i s = Some n" and "at (mappings encl) i s = Some a"
  using assms by (auto simp: mapped_def at_def)

lemma mapped_dev: "mapped (s\<lparr>dev := d\<rparr>) encl zs = mapped s encl zs"
  "mapped s (encl\<lparr>driver_fd := fd\<rparr>) zs = mapped s encl zs" "mapped s (encl\<lparr>l_handle := h\<rparr>) zs = mapped s encl zs"
  "mapped (s\<lparr>fds := f\<rparr>) encl zs = mapped s encl zs"
  by (simp_all add: mapped_def)

lemma sys_ioctl_dev:
  assumes "fds s fd = Some Device"
  shows "sys_ioctl drv fd q s = (fst (drv q (dev s)), s\<lparr>dev := snd (drv q (dev s))\<rparr>)"
  using assms by (simp add: sys_ioctl_def split_def Let_def)

lemma add_extras_exchange:
  assumes "fds s (driver_fd encl) = Some Device"
  shows "\<exists>ys. add_extras drv encl xs s =
    (let (ok, d) = exchange drv (map (\<lambda>x. Add_region (x\<lparr>m_handle := l_handle encl\<rparr>)) xs) (dev s) in (ok, ys, s\<lparr>dev := d\<rparr>))"
  using assms
proof (induction xs arbitrary: s)
  case (Cons x xs)
  let ?r = "drv (Add_region (x\<lparr>m_handle := l_handle encl\<rparr>)) (dev s)"
  obtain ys where "add_extras drv encl xs (s\<lparr>dev := snd ?r\<rparr>) =
      (let (ok, d) = exchange drv (map (\<lambda>x. Add_region (x\<lparr>m_handle := l_handle encl\<rparr>)) xs) (snd ?r) in (ok, ys, s\<lparr>dev := d\<rparr>))"
    using Cons.IH [of "s\<lparr>dev := snd ?r\<rparr>"] Cons.prems by auto
  then show ?case using Cons.prems by (auto simp: sys_ioctl_dev Let_def split_def)
qed simp

lemma add_segments_exchange:
  assumes "fds s (driver_fd encl) = Some Device" and "mapped s encl zs" and "k \<le> length zs"
  shows "add_segments drv [k..<length zs] encl s =
    (let (ok, d) = exchange drv (segment_requests (l_handle encl) (drop k zs)) (dev s) in Some (ok, s\<lparr>dev := d\<rparr>))"
  using assms
proof (induction "length zs - k" arbitrary: k s)
  case 0
  then show ?case by (simp add: segment_requests_def)
next
  case (Suc m)
  then have k: "k < length zs" by simp
  obtain p n a where z: "zs ! k = (p, n, a)" by (cases "zs ! k")
  note at = mapped_at [OF Suc.prems(2) k z]
  have u: "[k..<length zs] = k # [Suc k..<length zs]" and d: "drop k zs = (p, n, a) # drop (Suc k) zs"
    using k z by (simp_all add: upt_conv_Cons Cons_nth_drop_Suc [symmetric])
  have m: "m = length zs - Suc k" using Suc.hyps(2) by simp
  show ?case
  proof (cases "p_type p = PT_LOAD")
    case False
    then show ?thesis using Suc.hyps(1) [OF m Suc.prems(1,2)] k at(1) by (simp add: u d segment_requests_def)
  next
    case True
    let ?r = "drv (Add_region (segment_region (l_handle encl) (p, n, a))) (dev s)"
    have "add_segments drv [Suc k..<length zs] encl (s\<lparr>dev := snd ?r\<rparr>) =
        (let (ok, d) = exchange drv (segment_requests (l_handle encl) (drop (Suc k) zs)) (snd ?r) in Some (ok, s\<lparr>dev := d\<rparr>))"
      using Suc.hyps(1) [OF m, of "s\<lparr>dev := snd ?r\<rparr>"] Suc.prems k by (simp add: mapped_dev)
    then show ?thesis using at True Suc.prems(1)
      by (simp add: u d segment_requests_def sys_ioctl_dev segment_region_def Let_def split_def)
  qed
qed

lemma unmap_segments_ok:
  assumes "mapped s encl zs" and "k \<le> length zs"
  shows "\<exists>m. unmap_segments [k..<length zs] encl s = Some (s\<lparr>mem := m\<rparr>)"
  using assms
proof (induction "length zs - k" arbitrary: k s)
  case 0
  then show ?case by (auto intro: exI [of _ "mem s"])
next
  case (Suc d)
  then have k: "k < length zs" and d: "d = length zs - Suc k" by simp_all
  obtain p n a where z: "zs ! k = (p, n, a)" by (cases "zs ! k")
  note at = mapped_at [OF Suc.prems(1) k z]
  obtain m where m: "snd (sys_munmap a (unat n) s) = s\<lparr>mem := m\<rparr>"
    by (rule that [of "if unat n = 0 \<or> a mod 0x1000 \<noteq> 0 \<or> \<not> munmap_ok s a then mem s else (\<lambda>x. if in_map a (unat n) x then None else mem s x)"])
      (auto simp: sys_munmap_def)
  have "mapped (s\<lparr>mem := m\<rparr>) encl zs" for m using Suc.prems(1) by (simp add: mapped_def)
  then obtain m' where "unmap_segments [Suc k..<length zs] encl (s\<lparr>mem := m\<rparr>) = Some (s\<lparr>mem := m'\<rparr>)"
    using Suc.hyps(1) [OF d, of "s\<lparr>mem := m\<rparr>"] k by auto
  moreover obtain m'' where "unmap_segments [Suc k..<length zs] encl s = Some (s\<lparr>mem := m''\<rparr>)"
    using Suc.hyps(1) [OF d Suc.prems(1)] k by auto
  ultimately show ?case using k at m by (auto simp: upt_conv_Cons split_def)
qed

text \<open>Whatever the label, the device is closed and nothing more is said to the driver.\<close>

definition closes :: "load_encl_t \<Rightarrow> ('d, 'z) proc_scheme \<Rightarrow> (c_int \<times> load_encl_t \<times> ('d, 'z) proc_scheme) option \<Rightarrow> bool" where
  "closes encl t r \<longleftrightarrow> (\<exists>s'. r = Some (FAIL, encl, s') \<and> dev s' = dev t \<and> fds s' = (fds t)(driver_fd encl := None))"

lemma create_fail_closes:
  assumes "mapped t encl zs" and "fds t (driver_fd encl) = Some Device"
  shows "closes encl t (create_fail_close encl t)" and "closes encl t (create_fail_free encl t)" and "closes encl t (create_fail_unmap encl t)"
proof -
  have close: "closes encl t (create_fail_close encl u)" if "dev u = dev t" "fds u = fds t" for u
    using that assms(2) by (simp add: closes_def create_fail_close_def sys_close_def)
  then show "closes encl t (create_fail_close encl t)" by simp
  obtain b1 b2 b3 where b: "sizes encl = Some \<lparr>block = b2, cells = map (fst \<circ> snd) zs\<rparr>"
    "mappings encl = Some \<lparr>block = b3, cells = map (snd \<circ> snd) zs\<rparr>" "{b1, b2, b3} \<subseteq> blocks t" "b2 \<noteq> b3"
    and n: "unat (e_phnum (header encl)) = length zs"
    using assms(1) by (auto simp: mapped_def)
  have free: "closes encl t (create_fail_free encl u)" if "dev u = dev t" "fds u = fds t" "b3 \<in> blocks u" for u
    using that b(2) close [of "u\<lparr>blocks := blocks u - {b3}\<rparr>"]
    by (simp add: create_fail_free_def free_buf_def free_block_def)
  then show "closes encl t (create_fail_free encl t)" using b(3) by simp
  obtain m where m: "unmap_segments [0..<length zs] encl t = Some (t\<lparr>mem := m\<rparr>)"
    using unmap_segments_ok [OF assms(1), of 0] by auto
  have "create_fail_unmap encl t = create_fail_free encl (t\<lparr>mem := m, blocks := blocks t - {b2}\<rparr>)"
    using m n b by (simp add: create_fail_unmap_def free_buf_def free_block_def)
  then show "closes encl t (create_fail_unmap encl t)" using free b(3,4) by simp
qed

definition create_requests ::
  "load_encl_t \<Rightarrow> lib_encl_t \<Rightarrow> tyche_encl_add_region_t list \<Rightarrow> (Elf64_Phdr \<times> u64 \<times> u64) list \<Rightarrow> tyche_encl_handle_t \<Rightarrow> request list" where
  "create_requests encl lib extras zs h =
     Add_region (plugin_region (encl\<lparr>l_handle := h\<rparr>) lib) #
     map (\<lambda>x. Add_region (x\<lparr>m_handle := h\<rparr>)) extras @ segment_requests h zs"

lemma commit_message_dev:
  assumes "commit_message encl s = Some cm" and "blocks t = blocks s"
  shows "commit_message (encl\<lparr>driver_fd := fd, l_handle := h\<rparr>) t = Some (cm\<lparr>cm_handle := h\<rparr>)"
proof -
  have "at p j t = at p j s" for p :: "Elf64_Shdr buf option" and j using assms(2) by (simp add: at_def)
  moreover have "at p j t = at p j s" for p :: "Elf64_Sym buf option" and j using assms(2) by (simp add: at_def)
  ultimately show ?thesis using assms(1) by (auto simp: commit_message_def Option.bind_eq_Some_conv split: option.splits)
qed

text \<open>The process while the device is open at the descriptor \<open>i\<close> and the driver is in the state \<open>d\<close>.\<close>

abbreviation at_device :: "nat \<Rightarrow> 'd lproc \<Rightarrow> 'd \<Rightarrow> 'd lproc" where
  "at_device i s d \<equiv> s\<lparr>fds := (fds s)(int i \<mapsto> Device), dev := d\<rparr>"

lemma ioctl_at_device:
  fixes drv :: "'d driver" and s :: "'d lproc" and d :: 'd
  shows "sys_ioctl drv (int i) q (at_device i s d) = (fst (drv q d), at_device i s (snd (drv q d)))"
  using sys_ioctl_dev [of "at_device i s d" "int i" drv q] by simp

lemma ioctl_opened:
  fixes drv :: "'d driver" and s :: "'d lproc"
  shows "sys_ioctl drv (int i) q (s\<lparr>fds := (fds s)(int i \<mapsto> Device)\<rparr>) = (fst (drv q (dev s)), at_device i s (snd (drv q (dev s))))"
  using ioctl_at_device [where drv = drv and i = i and q = q and s = s and d = "dev s"] by simp

definition fails_at :: "'d lproc \<Rightarrow> 'd \<Rightarrow> (c_int \<times> load_encl_t \<times> 'd lproc) option \<Rightarrow> bool" where
  "fails_at s d r \<longleftrightarrow> (\<exists>encl' s'. r = Some (FAIL, encl', s') \<and> dev s' = d \<and> fds s' = fds s)"

lemma create_fails_at:
  assumes "mapped s encl zs" and "fds s (int i) = None"
  shows "fails_at s d (create_fail_close (encl\<lparr>driver_fd := int i\<rparr>) (at_device i s d))"
    "fails_at s d (create_fail_free (encl\<lparr>driver_fd := int i, l_handle := h\<rparr>) (at_device i s d))"
    "fails_at s d (create_fail_unmap (encl\<lparr>driver_fd := int i, l_handle := h\<rparr>) (at_device i s d))"
proof -
  have m: "mapped (at_device i s d) (encl\<lparr>driver_fd := int i, l_handle := h\<rparr>) zs" "mapped (at_device i s d) (encl\<lparr>driver_fd := int i\<rparr>) zs"
    using assms(1) by (simp_all add: mapped_def)
  have cl: "fails_at s d r" if "closes e (at_device i s d) r" "driver_fd e = int i" for e r
    using that assms(2) by (auto simp: fails_at_def closes_def fun_upd_idem_iff)
  show "fails_at s d (create_fail_close (encl\<lparr>driver_fd := int i\<rparr>) (at_device i s d))"
    by (rule cl [OF create_fail_closes(1) [OF m(2)]]) simp_all
  show "fails_at s d (create_fail_free (encl\<lparr>driver_fd := int i, l_handle := h\<rparr>) (at_device i s d))"
    "fails_at s d (create_fail_unmap (encl\<lparr>driver_fd := int i, l_handle := h\<rparr>) (at_device i s d))"
    by (rule cl [OF create_fail_closes(2) [OF m(1)]] cl [OF create_fail_closes(3) [OF m(1)]], simp_all)+
qed

text \<open>C28: the protocol of \<open>create_enclave\<close>.  For a parsed and mapped enclave it says to the driver, in this order,
  Create, one Add_region for the plugin, one for each extra region, one for each loadable segment, and Commit,
  all with the handle of the reply to Create; it stops at the first refusal.  It succeeds exactly if the driver
  accepts everything and returns the handle at the end; on a failure the device is closed again.\<close>

theorem create_enclave_protocol:
  fixes s :: "'d lproc"
  assumes "mapped s encl zs" and "library_plugin s = Some \<lparr>block = b, cells = [lib]\<rparr>" and "b \<in> blocks s"
    and "commit_message encl s = Some cm" and "List.find (\<lambda>i. fds s (int i) = None) [0..<1024] = Some i" and "dev_ok s"
  shows "case session drv (create_requests encl lib extras zs) (\<lambda>h. cm\<lparr>cm_handle := h\<rparr>) (dev s) of
      (Some (h, d), drv') \<Rightarrow> create_enclave drv encl extras s =
        Some (OK, encl\<lparr>driver_fd := int i, l_handle := h, l_domain := d\<rparr>, s\<lparr>fds := (fds s)(int i \<mapsto> Device), dev := drv'\<rparr>)
    | (None, drv') \<Rightarrow> \<exists>encl' s'. create_enclave drv encl extras s = Some (FAIL, encl', s') \<and> dev s' = drv' \<and> fds s' = fds s"
proof -
  let ?e = "\<lambda>h. encl\<lparr>driver_fd := int i, l_handle := h\<rparr>" and ?r0 = "drv Create (dev s)"
  let ?h = "new_handle (fst ?r0)" and ?d0 = "snd ?r0"
  have i: "fds s (int i) = None" using assms(5) by (auto simp: find_Some_iff)
  have n: "unat (e_phnum (header encl)) = length zs" and maps: "\<exists>ms. mappings encl = Some ms" "\<exists>szs. sizes encl = Some szs" using assms(1) by (auto simp: mapped_def)
  note fails = create_fails_at [OF assms(1) i, unfolded fails_at_def]
  have open_ok: "sys_open_device s = (int i, s\<lparr>fds := (fds s)(int i \<mapsto> Device)\<rparr>)" using assms(5,6) by (simp add: sys_open_device_def)
  have pr: "plugin_region (?e ?h) lib = plugin_region (encl\<lparr>l_handle := ?h\<rparr>) lib" by (simp add: plugin_region_def)
  have lib: "at (library_plugin s) 0 (at_device i s d) = Some lib" for d using assms(2,3) by (simp add: at_def)
  note run = create_enclave_def open_ok ioctl_opened ioctl_at_device lib pr create_requests_def exchange_append session_def split_def Let_def n
  show ?thesis
  proof (cases "code (fst ?r0) = FAIL")
    case True
    then show ?thesis using fails(1) by (simp add: run)
  next
    case ok0: False
    let ?r1 = "drv (Add_region (plugin_region (encl\<lparr>l_handle := ?h\<rparr>) lib)) ?d0"
    obtain okx d1 where x: "exchange drv (map (\<lambda>x. Add_region (x\<lparr>m_handle := ?h\<rparr>)) extras) (snd ?r1) = (okx, d1)" by fastforce
    obtain ys where ys: "add_extras drv (?e ?h) extras (at_device i s (snd ?r1)) = (okx, ys, at_device i s d1)"
      using add_extras_exchange [of "at_device i s (snd ?r1)" "?e ?h" drv extras] x by auto
    obtain oks d2 where y: "exchange drv (segment_requests ?h zs) d1 = (oks, d2)" by fastforce
    have "mapped (at_device i s d1) (?e ?h) zs" using assms(1) by (simp add: mapped_def)
    then have seg: "add_segments drv [0..<length zs] (?e ?h) (at_device i s d1) = Some (oks, at_device i s d2)"
      using add_segments_exchange [of "at_device i s d1" "?e ?h" zs 0 drv] y by simp
    have cmh: "commit_message (?e ?h) (at_device i s d2) = Some (cm\<lparr>cm_handle := ?h\<rparr>)"
      by (rule commit_message_dev [OF assms(4)]) simp
    consider "code (fst ?r1) \<noteq> 0" | "code (fst ?r1) = 0" "\<not> okx" | "code (fst ?r1) = 0" "okx" by blast
    then show ?thesis
    proof cases
      case 1
      then show ?thesis using ok0 maps fails(2) by (auto simp: run)
    next
      case 2
      then show ?thesis using ok0 maps x ys fails(2) by (auto simp: run)
    next
      case 3
      then show ?thesis using ok0 maps x ys y seg cmh fails(3) by (auto simp: run)
    qed
  qed
qed

text \<open>A driver that accepts everything and writes down what it is told.\<close>

definition demo_driver :: "request list driver" where
  "demo_driver q d = (\<lparr>code = OK, new_handle = 7, committed = \<lparr>cm_handle = 7, cm_domain_handle = 3, cm_stack = 0, cm_entry = 0\<rparr>\<rparr>, d @ [q])"

definition demo_encl :: load_encl_t where
  "demo_encl = zero_encl\<lparr>header := zero_header\<lparr>e_phnum := 1\<rparr>,
     segments := Some \<lparr>block = 0, cells = [\<lparr>p_type = 1, p_flags = 5, p_offset = 0, p_vaddr = 0x400000, p_paddr = 0, p_filesz = 3, p_memsz = 5, p_align = 0x1000\<rparr>]\<rparr>,
     sizes := Some \<lparr>block = 1, cells = [0x1000]\<rparr>, mappings := Some \<lparr>block = 2, cells = [0x70000000]\<rparr>\<rparr>"

definition demo_lproc :: "request list lproc" where
  "demo_lproc = \<lparr>filesys = Map.empty, fds = Map.empty, fstat_ok = True, blocks = {0, 1, 2, 3}, next_block = 4, no_mem = \<lambda>_. False,
     mem = Map.empty, map_pool = \<lambda>_. None, next_map = 0, munmap_ok = \<lambda>_. True, close_ok = \<lambda>_. True, dev_ok = True, dev = [],
     library_plugin = Some \<lparr>block = 3, cells = [\<lparr>plugin = 0x60000000, plugin_size = 0x2000, vmcall_gate = 0x60000100\<rparr>]\<rparr>\<rparr>"

theorem create_enclave_protocol_witness:
  "\<exists>encl s. create_enclave demo_driver demo_encl [] demo_lproc = Some (OK, encl, s) \<and> l_domain encl = 3 \<and> fds s 0 = Some Device \<and>
     dev s = [Create,
       Add_region \<lparr>m_handle = 7, m_start = 0x60000000, m_end = 0x60002000, m_src = 0x60000000, m_flags = TE_READ OR TE_EXEC OR TE_USER, m_tpe = Shared\<rparr>,
       Add_region \<lparr>m_handle = 7, m_start = 0x400000, m_end = 0x401000, m_src = 0x70000000, m_flags = TE_EXEC OR TE_READ, m_tpe = Confidential\<rparr>,
       Commit \<lparr>cm_handle = 7, cm_domain_handle = 0, cm_stack = 0, cm_entry = 0\<rparr>]"
proof -
  let ?z = "(\<lparr>p_type = 1, p_flags = 5, p_offset = 0, p_vaddr = 0x400000, p_paddr = 0, p_filesz = 3, p_memsz = 5, p_align = 0x1000\<rparr>,
    0x1000, 0x70000000) :: Elf64_Phdr \<times> u64 \<times> u64"
  have m: "mapped demo_lproc demo_encl [?z]" by (simp add: mapped_def demo_encl_def demo_lproc_def)
  have l: "library_plugin demo_lproc = Some \<lparr>block = 3, cells = [\<lparr>plugin = 0x60000000, plugin_size = 0x2000, vmcall_gate = 0x60000100\<rparr>]\<rparr>"
    "(3 :: nat) \<in> blocks demo_lproc" "dev_ok demo_lproc" by (simp_all add: demo_lproc_def)
  have c: "commit_message demo_encl demo_lproc = Some no_commit"
    by (simp add: commit_message_def demo_encl_def zero_encl_def no_commit_def)
  have f: "List.find (\<lambda>i. fds demo_lproc (int i) = None) [0..<1024] = Some 0"
    by (subst upt_conv_Cons) (simp_all add: demo_lproc_def)
  have "session demo_driver (create_requests demo_encl \<lparr>plugin = 0x60000000, plugin_size = 0x2000, vmcall_gate = 0x60000100\<rparr> [] [?z])
      (\<lambda>h. no_commit\<lparr>cm_handle := h\<rparr>) (dev demo_lproc) = (Some (7, 3), [Create,
       Add_region \<lparr>m_handle = 7, m_start = 0x60000000, m_end = 0x60002000, m_src = 0x60000000, m_flags = TE_READ OR TE_EXEC OR TE_USER, m_tpe = Shared\<rparr>,
       Add_region \<lparr>m_handle = 7, m_start = 0x400000, m_end = 0x401000, m_src = 0x70000000, m_flags = TE_EXEC OR TE_READ, m_tpe = Confidential\<rparr>,
       Commit \<lparr>cm_handle = 7, cm_domain_handle = 0, cm_stack = 0, cm_entry = 0\<rparr>])"
    by (simp add: session_def demo_driver_def demo_lproc_def create_requests_def plugin_region_def segment_requests_def segment_region_def
        translate_elf_flags_def no_commit_def)
  then show ?thesis
    using create_enclave_protocol [OF m l(1,2) c f l(3), of demo_driver "[]"] by simp
qed

section \<open>Transitions\<close>

text \<open>\<open>enclave_driver_transition\<close> passes the transition to the driver and reports its answer.  When the
  driver accepts, the device is closed again; when it refuses, the descriptor stays open.\<close>

theorem transition_leaks_descriptor:
  assumes "List.find (\<lambda>i. fds s (int i) = None) [0..<1024] = Some i" and "dev_ok s"
  shows "let (r, d) = drv (Transition \<lparr>t_handle = hdl, t_args = args\<rparr>) (dev s) in enclave_driver_transition drv hdl args s =
    (if code r = 0 then (OK, s\<lparr>dev := d\<rparr>) else (FAIL, s\<lparr>fds := (fds s)(int i \<mapsto> Device), dev := d\<rparr>))"
proof -
  have "fds s (int i) = None" using assms(1) by (auto simp: find_Some_iff)
  then have "(fds s)(int i := None) = fds s" by (simp add: fun_upd_idem)
  then have "s\<lparr>dev := d, fds := (fds s)(int i := None)\<rparr> = s\<lparr>dev := d\<rparr>" for d by simp
  then show ?thesis using assms
    by (simp add: enclave_driver_transition_def sys_open_device_def sys_ioctl_def sys_close_def split_def Let_def del: fun_upd_apply add: fun_upd_same)
qed

theorem transition_leaks_descriptor_witness:
  "enclave_driver_transition (\<lambda>q d. (\<lparr>code = FAIL, new_handle = 0, committed = no_commit\<rparr>, d)) 7 0 demo_lproc =
     (FAIL, demo_lproc\<lparr>fds := [0 \<mapsto> Device]\<rparr>)"
proof -
  have f: "List.find (\<lambda>i. fds demo_lproc (int i) = None) [0..<1024] = Some 0"
    by (subst upt_conv_Cons) (simp_all add: demo_lproc_def)
  show ?thesis
    using transition_leaks_descriptor [OF f, of "\<lambda>q d. (\<lparr>code = FAIL, new_handle = 0, committed = no_commit\<rparr>, d)" 7 0]
    by (simp add: demo_lproc_def)
qed

section \<open>Descriptors\<close>

text \<open>What the kernel will answer does not change.\<close>

definition kernel :: "('d, 'z) proc_scheme \<Rightarrow> (nat \<Rightarrow> u64 option) \<times> (u64 \<Rightarrow> bool) \<times> (int \<Rightarrow> bool)" where
  "kernel s = (map_pool s, munmap_ok s, close_ok s)"

lemma kernel_update [simp]:
  "kernel (fds_update f1 s) = kernel s" "kernel (blocks_update f2 s) = kernel s" "kernel (next_block_update f3 s) = kernel s"
  "kernel (mem_update f4 s) = kernel s" "kernel (next_map_update f5 s) = kernel s" "kernel (dev_update f6 s) = kernel s"
  by (simp_all add: kernel_def)

text \<open>What the functions that read through \<open>fd\<close> leave alone: the other descriptors, the driver and the plan of the
  mappings.\<close>

definition framed :: "int \<Rightarrow> ('d, 'z) proc_scheme \<Rightarrow> ('d, 'z) proc_scheme \<Rightarrow> bool" where
  "framed fd s t \<longleftrightarrow> (\<forall>i. i \<noteq> fd \<longrightarrow> fds t i = fds s i) \<and> (fds t fd = None \<longleftrightarrow> fds s fd = None) \<and> kernel t = kernel s"

lemma framed_refl [simp]: "framed fd s s"
  by (simp add: framed_def)

lemma framed_trans: "framed fd s t \<Longrightarrow> framed fd t u \<Longrightarrow> framed fd s u"
  by (simp add: framed_def)

lemma framed_same: "fds t = fds s \<Longrightarrow> kernel t = kernel s \<Longrightarrow> framed fd s t"
  by (simp add: framed_def)

lemma framed_malloc: "malloc s = (p, t) \<Longrightarrow> framed fd s t"
  by (auto simp: malloc_def framed_def Let_def split: if_splits)

lemma framed_free: "free_buf p s = Some t \<Longrightarrow> framed fd s t"
  by (auto simp: free_buf_def free_block_def framed_def split: option.splits if_splits)

lemma framed_seek: "seek_to fd off s = Some t \<Longrightarrow> framed fd s t"
  by (auto simp: seek_to_def sys_lseek_def framed_def split: option.splits open_file.splits if_splits)

lemma framed_read: "read_all fd n s = Some (b, t) \<Longrightarrow> framed fd s t"
  by (auto simp: read_all_def sys_read_def framed_def Let_def split: option.splits open_file.splits if_splits prod.splits)

lemma framed_mmap: "sys_mmap n bs s = (a, t) \<Longrightarrow> framed fd s t"
  by (auto simp: sys_mmap_def framed_def Let_def split: option.splits if_splits)

lemma framed_munmap: "sys_munmap a n s = (r, t) \<Longrightarrow> framed fd s t"
  by (auto simp: sys_munmap_def framed_def split: if_splits)

lemma framed_ioctl: "sys_ioctl drv d q s = (r, t) \<Longrightarrow> framed fd s t"
  by (auto simp: sys_ioctl_def framed_def Let_def split: option.splits open_file.splits prod.splits)

lemma framed_store: "store_bytes a bs s = Some t \<Longrightarrow> framed fd s t"
  by (auto simp: store_bytes_def framed_def split: if_splits)

lemmas framed_basic = framed_malloc framed_free framed_seek framed_read framed_mmap framed_munmap framed_ioctl framed_store

lemma framed_table: "read_table f sz fd n s = Some (xs, t) \<Longrightarrow> framed fd s t"
  by (induction n arbitrary: s xs t) (auto simp: Option.bind_eq_Some_conv dest!: framed_read intro: framed_trans)

lemma framed_section: "read_section64 fd sh s = Some (b, t) \<Longrightarrow> framed fd s t"
  unfolding read_section64_def
  by (auto simp: Option.bind_eq_Some_conv Let_def split: prod.splits dest!: framed_malloc [of _ _ _ fd] framed_seek framed_read intro: framed_trans)

lemma framed_header: "read_elf64_header fd s = Some (eh, t) \<Longrightarrow> framed fd s t"
  unfolding read_elf64_header_def
  by (auto simp: Option.bind_eq_Some_conv Let_def split: prod.splits if_splits dest!: framed_seek framed_read intro: framed_trans)

lemma framed_sections: "read_elf64_sections fd eh s = Some (n, b, t) \<Longrightarrow> framed fd s t"
  unfolding read_elf64_sections_def
  by (auto simp: Option.bind_eq_Some_conv Let_def split: prod.splits if_splits dest!: framed_malloc [of _ _ _ fd] framed_seek framed_table intro: framed_trans)

lemma framed_segments: "read_elf64_segments fd eh s = Some (n, b, t) \<Longrightarrow> framed fd s t"
  unfolding read_elf64_segments_def
  by (auto simp: Option.bind_eq_Some_conv Let_def split: prod.splits if_splits dest!: framed_malloc [of _ _ _ fd] framed_seek framed_table intro: framed_trans)

lemma framed_calls [simp]:
  "fds (snd (sys_mmap n bs s)) = fds s" "kernel (snd (sys_mmap n bs s)) = kernel s"
  "fds (snd (sys_munmap a n s)) = fds s" "kernel (snd (sys_munmap a n s)) = kernel s"
  "fds (snd (malloc s)) = fds s" "kernel (snd (malloc s)) = kernel s"
  "fds (snd (sys_ioctl drv fd q s)) = fds s" "kernel (snd (sys_ioctl drv fd q s)) = kernel s"
  by (simp_all add: sys_mmap_def sys_munmap_def malloc_def sys_ioctl_def Let_def split_def split: option.split open_file.split)

lemma framed_symbol_in:
  assumes "find_symbol_in_section fd symbol eh secs idx s = Some (r, t)"
  shows "framed fd s t"
  using assms unfolding find_symbol_in_section_def
  by - (erule bind_SomeE | drule framed_section | drule framed_free [of _ _ _ fd] |
      clarsimp simp: Let_def split_def split: if_splits option.splits | (simp add: framed_def; fail))+

lemma framed_symbol_from: "find_symbol_from fd symbol eh secs is s = Some (r, t) \<Longrightarrow> framed fd s t"
proof (induction "is" arbitrary: s)
  case (Cons i "is")
  then show ?case
    by (auto simp: Option.bind_eq_Some_conv split: if_splits prod.splits dest!: framed_symbol_in intro: framed_trans)
qed simp

lemma framed_symbol: "find_symbol fd symbol eh secs s = Some (r, t) \<Longrightarrow> framed fd s t"
  unfolding find_symbol_def by (rule framed_symbol_from)

definition same_file :: "load_encl_t \<Rightarrow> load_encl_t \<Rightarrow> bool" where
  "same_file e e' \<longleftrightarrow> elf_fd e' = elf_fd e \<and> elf_content e' = elf_content e \<and> elf_size e' = elf_size e"

lemma framed_parse:
  assumes "parse_enclave (Some encl) s = Some (rc, e, t)"
  shows "framed (elf_fd encl) s t \<and> (\<exists>encl'. e = Some encl' \<and> same_file encl encl')"
  using assms unfolding parse_enclave_def same_file_def
  by (auto simp: Option.bind_eq_Some_conv Let_def split: if_splits prod.splits option.splits
      dest!: framed_header framed_segments framed_sections framed_section framed_symbol framed_free [of _ _ _ "elf_fd encl"])
    (simp_all add: framed_def)

lemma framed_map_segments: "map_segments is encl s = Some (ok, encl', t) \<Longrightarrow> framed fd s t \<and> same_file encl encl'"
proof (induction "is" arbitrary: encl s)
  case Nil
  then show ?case by (simp add: same_file_def)
next
  case (Cons i "is")
  then show ?case
    by simp (erule bind_SomeE | drule framed_store [of _ _ _ _ fd] | drule Cons.IH |
        clarsimp simp: Let_def split_def split: if_splits | (simp add: framed_def same_file_def; fail))+
qed

lemma framed_unmap_segments: "unmap_segments is encl s = Some t \<Longrightarrow> framed fd s t"
proof (induction "is" arbitrary: s)
  case (Cons i "is")
  then show ?case
    by (fastforce simp: Option.bind_eq_Some_conv split_def Let_def framed_def split: if_splits)
qed simp

lemma framed_map:
  assumes "map_enclave (Some encl) s = Some (rc, e, t)"
  shows "framed fd s t \<and> (\<exists>encl'. e = Some encl' \<and> same_file encl encl')"
  using assms unfolding map_enclave_def
  by (auto simp: Option.bind_eq_Some_conv Let_def same_file_def split: if_splits prod.splits option.splits
      dest!: framed_malloc [of _ _ _ fd] framed_map_segments [of _ _ _ _ _ _ fd] framed_free [of _ _ _ fd]
        framed_unmap_segments [of _ _ _ _ fd]) (simp_all add: framed_def)

lemma add_extras_fds [simp]: "fds (snd (snd (add_extras drv encl xs s))) = fds s \<and> kernel (snd (snd (add_extras drv encl xs s))) = kernel s"
  by (induction xs arbitrary: s) (simp_all add: Let_def split_def)

lemma add_segments_fds: "add_segments drv is encl s = Some (ok, t) \<Longrightarrow> fds t = fds s \<and> kernel t = kernel s"
proof (induction "is" arbitrary: s)
  case (Cons i "is")
  show ?case using Cons.prems
    by simp (erule bind_SomeE | drule Cons.IH | clarsimp simp: Let_def split_def split: if_splits)+
qed simp

text \<open>A call either fails with the descriptors as they were or succeeds with one more, for the device.\<close>

definition opens_device :: "('d, 'z) proc_scheme \<Rightarrow> load_encl_t \<Rightarrow> (c_int \<times> load_encl_t \<times> ('d, 'z) proc_scheme) option \<Rightarrow> bool" where
  "opens_device s encl r \<longleftrightarrow> (\<forall>rc e t. r = Some (rc, e, t) \<longrightarrow> same_file encl e \<and> kernel t = kernel s \<and>
     (rc = OK \<and> fds s (driver_fd e) = None \<and> fds t = (fds s)(driver_fd e \<mapsto> Device) \<or> rc = FAIL \<and> fds t = fds s))"

lemma opens_device_bind: "(\<And>x. m = Some x \<Longrightarrow> opens_device s encl (f x)) \<Longrightarrow> opens_device s encl (Option.bind m f)"
  by (cases m) (simp_all add: opens_device_def)

text \<open>The states behind the opening of the device.\<close>

definition with_device :: "('d, 'z) proc_scheme \<Rightarrow> load_encl_t \<Rightarrow> ('d, 'z) proc_scheme \<Rightarrow> bool" where
  "with_device s e u \<longleftrightarrow> fds s (driver_fd e) = None \<and> fds u = (fds s)(driver_fd e \<mapsto> Device) \<and> kernel u = kernel s"

lemma with_device_step: "with_device s e u \<Longrightarrow> fds v = fds u \<Longrightarrow> kernel v = kernel u \<Longrightarrow> with_device s e v"
  by (simp add: with_device_def)

lemma free_buf_fds: "free_buf p u = Some v \<Longrightarrow> fds v = fds u \<and> kernel v = kernel u"
  by (auto simp: free_buf_def free_block_def split: option.splits if_splits)

lemma unmap_segments_fds: "unmap_segments is encl u = Some v \<Longrightarrow> fds v = fds u \<and> kernel v = kernel u"
  using framed_unmap_segments [of "is" encl u v 0] framed_unmap_segments [of "is" encl u v 1] by (auto simp: framed_def fun_eq_iff) (metis zero_neq_one)

lemma create_fail_fds:
  assumes "with_device s e u" and "same_file encl e"
  shows "opens_device s encl (create_fail_close e u)" and "opens_device s encl (create_fail_free e u)" and "opens_device s encl (create_fail_unmap e u)"
proof -
  have close: "opens_device s encl (create_fail_close e v)" if "with_device s e v" for v
    using that assms(2) by (auto simp: opens_device_def with_device_def create_fail_close_def sys_close_def)
  then show "opens_device s encl (create_fail_close e u)" using assms(1) by simp
  have free: "opens_device s encl (create_fail_free e v)" if "with_device s e v" for v
    unfolding create_fail_free_def
    by (rule opens_device_bind, rule close) (use free_buf_fds that with_device_step in blast)
  then show "opens_device s encl (create_fail_free e u)" using assms(1) by simp
  show "opens_device s encl (create_fail_unmap e u)"
    unfolding create_fail_unmap_def
    by (rule opens_device_bind, rule opens_device_bind, rule free)
      (use unmap_segments_fds free_buf_fds assms(1) with_device_step in metis)
qed

lemma create_enclave_fds: "opens_device s encl (create_enclave drv encl extras s)"
proof -
  obtain fd s1 where o: "sys_open_device s = (fd, s1)" by fastforce
  show ?thesis
  proof (cases "fd < 0")
    case True
    then have "fds s1 = fds s" "kernel s1 = kernel s"
      using o by (auto simp: sys_open_device_def split: option.splits if_splits)
    then show ?thesis using True o by (simp add: create_enclave_def opens_device_def same_file_def)
  next
    case False
    then have w: "with_device s e v" if "driver_fd e = fd" "fds v = fds s1" "kernel v = kernel s1" for e v
      using o that by (auto simp: with_device_def sys_open_device_def find_Some_iff split: option.splits if_splits)
    have same: "same_file encl (encl\<lparr>driver_fd := fd\<rparr>)" "same_file encl (encl\<lparr>driver_fd := fd, l_handle := h\<rparr>)" for h
      by (simp_all add: same_file_def)
    note fail = create_fail_fds [OF w same(1)] create_fail_fds [OF w same(2)]
    have good: "opens_device s encl (Some (OK, encl\<lparr>driver_fd := fd, l_handle := h, l_domain := d\<rparr>, v))"
      if "fds v = fds s1" "kernel v = kernel s1" for h d v
      using w [of "encl\<lparr>driver_fd := fd\<rparr>" v] that by (simp add: opens_device_def with_device_def same_file_def)
    have seg: "fds (snd x) = fds v \<and> kernel (snd x) = kernel v" if "add_segments drv is e v = Some x" for "is" e v x
      using that add_segments_fds [of drv "is" e v "fst x" "snd x"] by simp
    show ?thesis using False fail good
      by (simp add: create_enclave_def o Let_def)
        (intro impI conjI opens_device_bind | simp add: seg split_def Let_def)+
  qed
qed

text \<open>What \<open>mmap\<close> promises: page-aligned addresses other than NULL.\<close>

definition maps_pages :: "(nat \<Rightarrow> u64 option) \<Rightarrow> bool" where
  "maps_pages pool \<longleftrightarrow> (\<forall>k a. pool k = Some a \<longrightarrow> a \<noteq> 0 \<and> a mod 0x1000 = 0)"

lemma mmap_file_cases:
  fixes s :: "('d, 'z) proc_scheme"
  assumes "mmap_file file sz s = (p, fd, n, t)" and "maps_pages (map_pool s)"
  obtains (fails) "p = 0 \<or> fd = - 1" and "fds t = fds s"
  | (works) bs where "filesys s file = Some bs" and "bs \<noteq> []" and "n = of_nat (length bs)" and "p \<noteq> 0" and "p mod 0x1000 = 0" and "fd \<noteq> - 1"
    and "fds s fd = None" and "fds t = (fds s)(fd \<mapsto> Regular bs 0)" and "kernel t = kernel s"
proof -
  obtain g s1 where o: "sys_open file s = (g, s1)" by fastforce
  show thesis
  proof (cases "g < 0")
    case True
    then have "fds s1 = fds s" "g = - 1" using o by (auto simp: sys_open_def split: option.splits)
    then show thesis using True o assms(1) by (intro fails) (auto simp: mmap_file_def)
  next
    case False
    then obtain bs where g: "filesys s file = Some bs" "fds s g = None" "s1 = s\<lparr>fds := (fds s)(g \<mapsto> Regular bs 0)\<rparr>"
      using o by (auto simp: sys_open_def find_Some_iff split: option.splits)
    have closed: "fds (snd (sys_close g u)) = fds s" if "fds u = fds s1" for u
      using that g(2,3) by (simp add: sys_close_def fun_upd_idem)
    show thesis
    proof (cases "fstat_ok s \<and> fst (sys_mmap (length bs) bs s1) \<noteq> MAP_FAILED")
      case False
      then have "p = 0" "\<exists>u. fds u = fds s1 \<and> t = snd (sys_close g u)"
        using assms(1) o g \<open>\<not> g < 0\<close> by (auto simp: mmap_file_def Let_def split_def intro: exI [of _ s1] exI [of _ "snd (sys_mmap (length bs) bs s1)"] split: if_splits)
      then show thesis using closed by (intro fails) auto
    next
      case True
      let ?m = "sys_mmap (length bs) bs s1"
      have "p = fst ?m" "fd = g" "n = of_nat (length bs)" "t = snd ?m"
        using True assms(1) o g \<open>\<not> g < 0\<close> by (auto simp: mmap_file_def Let_def split_def)
      moreover have "bs \<noteq> []" "fst ?m \<noteq> 0 \<and> fst ?m mod 0x1000 = 0"
        using True assms(2) g(3) by (auto simp: sys_mmap_def maps_pages_def Let_def split: if_splits option.splits)
      ultimately show thesis using \<open>\<not> g < 0\<close> g by (intro works [of bs]) simp_all
    qed
  qed
qed

text \<open>While \<open>load_enclave\<close> works the file is open and the other descriptors are those of the call; at its end they are as
  the property says.\<close>

definition loading :: "'d lproc \<Rightarrow> load_encl_t \<Rightarrow> 'd lproc \<Rightarrow> bool" where
  "loading s e u \<longleftrightarrow> fds s (elf_fd e) = None \<and> fds u (elf_fd e) \<noteq> None \<and> (\<forall>i. i \<noteq> elf_fd e \<longrightarrow> fds u i = fds s i) \<and>
     elf_content e mod 0x1000 = 0 \<and> unat (elf_size e) \<noteq> 0 \<and> kernel u = kernel s"

definition device_added :: "'d lproc \<Rightarrow> load_encl_t \<Rightarrow> 'd lproc \<Rightarrow> bool" where
  "device_added s encl t \<longleftrightarrow> fds s (driver_fd encl) = None \<and> fds t = (fds s)(driver_fd encl \<mapsto> Device)"

definition loaded :: "'d lproc \<Rightarrow> c_int \<times> load_encl_t option \<times> 'd lproc \<Rightarrow> bool" where
  "loaded s = (\<lambda>(rc, r, t). rc = OK \<and> (\<exists>encl. r = Some encl \<and> device_added s encl t) \<or> rc = FAIL \<and> fds t = fds s \<or>
     rc = FAIL \<and> (\<exists>encl. r = Some encl \<and> device_added s encl t \<and>
       (\<not> munmap_ok s (elf_content encl) \<or> \<not> close_ok s (elf_fd encl))))"

lemma loading_step: "loading s e u \<Longrightarrow> framed (elf_fd e) u v \<Longrightarrow> same_file e e' \<Longrightarrow> loading s e' v"
  by (simp add: loading_def framed_def same_file_def)

lemma loading_fails:
  assumes "loading s e u"
  shows "load_fail_close e u = Some y \<Longrightarrow> loaded s y" and "load_fail_free e u = Some y \<Longrightarrow> loaded s y"
proof -
  have close: "loaded s y" if "load_fail_close e v = Some y" "fds v = fds u" for v
    using that assms by (auto simp: load_fail_close_def sys_close_def fun_eq_iff loading_def loaded_def split: if_splits)
  then show "load_fail_close e u = Some y \<Longrightarrow> loaded s y" by simp
  show "load_fail_free e u = Some y \<Longrightarrow> loaded s y"
    unfolding load_fail_free_def by (erule bind_SomeE)+ (use free_buf_fds close in metis)
qed

text \<open>The ends of \<open>load_enclave\<close>: from the call of \<open>create_enclave\<close> on, and from that of \<open>map_enclave\<close> on.\<close>

definition load_created :: "load_encl_t \<Rightarrow> 'd lproc \<Rightarrow> (c_int \<times> load_encl_t option \<times> 'd lproc) option" where
  "load_created encl s =
     (let (rc, s) = sys_munmap (elf_content encl) (unat (elf_size encl)) s in
      if rc \<noteq> 0 then load_fail_free encl s
      else let (rc, s) = sys_close (elf_fd encl) s in
        if rc \<noteq> 0 then load_fail_free encl s
        else Some (OK, Some (encl\<lparr>elf_content := 0, elf_size := 0\<rparr>), s))"

definition load_mapped where
  "load_mapped drv extras encl s = do {
     (rc, encl, s) \<leftarrow> create_enclave drv encl extras s;
     if rc \<noteq> 0 then load_fail_free encl s else load_created encl s }"

definition load_parsed where
  "load_parsed drv extras encl s = do {
     (rc, e, s) \<leftarrow> map_enclave (Some encl) s;
     encl \<leftarrow> e;
     if rc \<noteq> 0 then load_fail_free encl s else load_mapped drv extras encl s }"

lemma load_fail_free_ends:
  "load_fail_free e u = Some y \<Longrightarrow> \<exists>t. y = (FAIL, Some e, t) \<and> fds t = (fds u)(elf_fd e := None)"
  unfolding load_fail_free_def load_fail_close_def
  by (erule bind_SomeE)+ (auto dest!: free_buf_fds simp: sys_close_def fun_eq_iff split: if_splits)

lemma load_created_ends:
  assumes "elf_content e mod 0x1000 = 0" and "unat (elf_size e) \<noteq> 0" and "fds u (elf_fd e) \<noteq> None" and y: "load_created e u = Some y"
  shows "\<exists>t. fds t = (fds u)(elf_fd e := None) \<and> (y = (OK, Some (e\<lparr>elf_content := 0, elf_size := 0\<rparr>), t) \<or>
    y = (FAIL, Some e, t) \<and> (\<not> munmap_ok u (elf_content e) \<or> \<not> close_ok u (elf_fd e)))"
proof (cases "munmap_ok u (elf_content e)")
  case False
  then have "load_fail_free e u = Some y" using y by (simp add: load_created_def sys_munmap_def)
  then show ?thesis using False load_fail_free_ends by blast
next
  case True
  let ?v = "u\<lparr>mem := (\<lambda>x. if in_map (elf_content e) (unat (elf_size e)) x then None else mem u x), fds := (fds u)(elf_fd e := None)\<rparr>"
  have c: "load_created e u = (if close_ok u (elf_fd e) then Some (OK, Some (e\<lparr>elf_content := 0, elf_size := 0\<rparr>), ?v) else load_fail_free e ?v)"
    unfolding load_created_def using True assms(1-3) by (auto simp: sys_munmap_def sys_close_def Let_def)
  show ?thesis
  proof (cases "close_ok u (elf_fd e)")
    case False
    then have "load_fail_free e ?v = Some y" using y c by simp
    from load_fail_free_ends [OF this] show ?thesis using False by (auto simp: fun_eq_iff)
  next
    case True
    then have "y = (OK, Some (e\<lparr>elf_content := 0, elf_size := 0\<rparr>), ?v)" using y c by simp
    then show ?thesis by (intro exI [of _ ?v]) simp
  qed
qed

lemma load_mapped_fds:
  assumes "loading s e u" and "load_mapped drv extras e u = Some y"
  shows "loaded s y"
proof -
  obtain rc f v where c: "create_enclave drv e extras u = Some (rc, f, v)"
    using assms(2) by (cases "create_enclave drv e extras u") (auto simp: load_mapped_def)
  have o: "same_file e f" "kernel v = kernel u"
      "rc = OK \<and> fds u (driver_fd f) = None \<and> fds v = (fds u)(driver_fd f \<mapsto> Device) \<or> rc = FAIL \<and> fds v = fds u"
    using create_enclave_fds [of u e drv extras] c by (auto simp: opens_device_def)
  show ?thesis
  proof (cases "rc = 0")
    case False
    then have "framed (elf_fd e) u v" using o by (auto simp: framed_def)
    from loading_step [OF assms(1) this o(1)] show ?thesis using loading_fails(2) [of s f v y] assms(2) c False by (simp add: load_mapped_def)
  next
    case True
    then have d: "fds u (driver_fd f) = None" "fds v = (fds u)(driver_fd f \<mapsto> Device)" using o(3) by auto
    have f: "elf_fd f = elf_fd e" "elf_content f mod 0x1000 = 0" "unat (elf_size f) \<noteq> 0" "fds v (elf_fd f) \<noteq> None" "driver_fd f \<noteq> elf_fd e"
      "kernel v = kernel s"
      using assms(1) o(1,2) d by (auto simp: loading_def same_file_def)
    have "load_created f v = Some y" using assms(2) c True by (simp add: load_mapped_def)
    then obtain t where t: "fds t = (fds v)(elf_fd f := None)" "y = (OK, Some (f\<lparr>elf_content := 0, elf_size := 0\<rparr>), t) \<or>
        y = (FAIL, Some f, t) \<and> (\<not> munmap_ok v (elf_content f) \<or> \<not> close_ok v (elf_fd f))"
      using load_created_ends [OF f(2-4)] by blast
    have "fds s (driver_fd f) = None" "fds t = (fds s)(driver_fd f \<mapsto> Device)"
      using assms(1) d f(1,5) t(1) by (auto simp: loading_def fun_eq_iff)
    then have "device_added s f t" "device_added s (f\<lparr>elf_content := 0, elf_size := 0\<rparr>) t" by (simp_all add: device_added_def)
    then show ?thesis using t(2) f(6) by (auto simp: loaded_def kernel_def)
  qed
qed

lemma load_parsed_fds:
  assumes "loading s e u" and "load_parsed drv extras e u = Some y"
  shows "loaded s y"
proof -
  obtain rc x v where m: "map_enclave (Some e) u = Some (rc, x, v)"
    using assms(2) by (cases "map_enclave (Some e) u") (auto simp: load_parsed_def)
  obtain f where f: "x = Some f" "loading s f v" using framed_map [OF m, of "elf_fd e"] loading_step [OF assms(1)] by blast
  show ?thesis
  proof (cases "rc = 0")
    case True
    then show ?thesis using load_mapped_fds [OF f(2)] assms(2) m f(1) by (simp add: load_parsed_def)
  next
    case False
    then show ?thesis using loading_fails(2) [OF f(2)] assms(2) m f(1) by (simp add: load_parsed_def)
  qed
qed

text \<open>C30: descriptors.  When \<open>load_enclave\<close> succeeds the process has exactly one more descriptor, that of the device.
  When it fails (the file, its parsing, the mappings, the driver), the descriptors are as before the call, with one
  exception: the enclave has been created, and then the file cannot be unmapped or its descriptor reports an error when
  it is closed.  Then the call fails and the device stays open.\<close>

theorem load_enclave_descriptors:
  assumes "load_enclave drv file (Some e) extras s = Some (rc, r, t)" and "maps_pages (map_pool s)"
    and "\<forall>bs. filesys s file = Some bs \<longrightarrow> length bs < 2 ^ 64"
  shows "rc = OK \<and> (\<exists>encl. r = Some encl \<and> fds s (driver_fd encl) = None \<and> fds t = (fds s)(driver_fd encl \<mapsto> Device)) \<or>
    rc = FAIL \<and> fds t = fds s \<or>
    rc = FAIL \<and> (\<exists>encl. r = Some encl \<and> fds s (driver_fd encl) = None \<and> fds t = (fds s)(driver_fd encl \<mapsto> Device) \<and>
      (\<not> munmap_ok s (elf_content encl) \<or> \<not> close_ok s (elf_fd encl)))"
proof -
  obtain p fd n s1 where f: "mmap_file file 0 s = (p, fd, n, s1)" by (cases "mmap_file file 0 s")
  let ?e = "zero_encl\<lparr>elf_content := p, elf_fd := fd, elf_size := n\<rparr>"
  have "loaded s (rc, r, t)"
  proof (cases "library_plugin s = None")
    case True
    then show ?thesis using assms(1) by (simp add: load_enclave_def loaded_def)
  next
    case lib: False
    show ?thesis
    proof (cases rule: mmap_file_cases [OF f assms(2)])
      case 1
      then show ?thesis using assms(1) lib f by (auto simp: load_enclave_def loaded_def)
    next
      case (2 bs)
      obtain rc1 e1 s2 where parse: "parse_enclave (Some ?e) s1 = Some (rc1, Some e1, s2)" "framed fd s1 s2" "same_file ?e e1"
        using assms(1) lib f 2 framed_parse [of ?e s1] by (auto simp: load_enclave_def Option.bind_eq_Some_conv split: prod.splits)
      have "unat n \<noteq> 0" using 2 assms(3) by (simp add: unat_of_nat)
      then have "loading s ?e s1" using 2 by (simp add: loading_def)
      then have l: "loading s e1 s2" by (rule loading_step) (use parse(2,3) in simp_all)
      have "(if rc1 \<noteq> 0 then load_fail_close e1 s2 else load_parsed drv extras e1 s2) = Some (rc, r, t)"
        unfolding load_parsed_def load_mapped_def load_created_def using assms(1) lib f 2 parse(1) by (simp add: load_enclave_def)
      then show ?thesis using loading_fails(1) [OF l] load_parsed_fds [OF l] by (simp split: if_splits)
    qed
  qed
  then show ?thesis by (simp add: loaded_def device_added_def)
qed

theorem load_enclave_descriptors_witness:
  "\<exists>r t. load_enclave demo_driver ''e'' (Some zero_encl) [] (demo_lproc\<lparr>filesys := [''e'' \<mapsto> [1, 2, 3]]\<rparr>) = Some (FAIL, r, t) \<and> fds t = fds demo_lproc"
proof -
  let ?s = "demo_lproc\<lparr>filesys := [''e'' \<mapsto> [1, 2, 3]]\<rparr>"
  have f: "List.find (\<lambda>i. fds ?s (int i) = None) [0..<1024] = Some 0"
    by (subst upt_conv_Cons) (simp_all add: demo_lproc_def)
  then obtain r t where l: "load_enclave demo_driver ''e'' (Some zero_encl) [] ?s = Some (FAIL, r, t)"
    by (simp add: load_enclave_def mmap_file_def sys_open_def sys_mmap_def sys_close_def demo_lproc_def)
  show ?thesis
    using load_enclave_descriptors [OF l] l by (auto simp: maps_pages_def demo_lproc_def)
qed

end
