(* ===== verification/Loader_Mapping.thy ===== *)
theory Loader_Mapping
  imports Loader_Theorems
begin

text \<open>
  What \<open>map_enclave\<close> puts into memory: every loadable segment in fresh pages, with its bytes of the file followed
  by zeros.
\<close>

section \<open>Memory\<close>

lemma those_Some_iff: "those xs = Some ys \<longleftrightarrow> length ys = length xs \<and> (\<forall>i < length xs. xs ! i = Some (ys ! i))"
proof (induction xs arbitrary: ys)
  case (Cons x xs)
  show ?case
    by (cases x; cases ys) (auto simp: Cons.IH nth_Cons less_Suc_eq_0_disj split: nat.splits)
qed auto

lemma load_bytes_iff: "load_bytes a n s = Some bs \<longleftrightarrow> length bs = n \<and> (\<forall>i < n. mem s (a + of_nat i) = Some (bs ! i))"
  by (auto simp: load_bytes_def those_Some_iff)

lemma offset_eq:
  fixes x a :: u64
  assumes "k < 2 ^ 64"
  shows "x = a + of_nat k \<longleftrightarrow> unat (x - a) = k"
proof
  show "unat (x - a) = k" if "x = a + of_nat k" using that assms by (simp add: unat_of_nat)
  show "x = a + of_nat k" if "unat (x - a) = k"
  proof -
    have "of_nat k = x - a" using that by (auto simp: of_nat_unat)
    then show ?thesis by simp
  qed
qed

lemma store_fold:
  fixes a :: u64
  assumes "k \<le> 2 ^ 64"
  shows "fold (\<lambda>i m. m(a + of_nat i \<mapsto> bs ! i)) [0..<k] m = (\<lambda>x. if unat (x - a) < k then Some (bs ! unat (x - a)) else m x)"
  using assms
proof (induction k)
  case (Suc k)
  then show ?case using offset_eq [of k _ a] by (auto simp: fun_eq_iff less_Suc_eq)
qed simp

lemma store_bytes_ok:
  assumes "length bs \<le> 2 ^ 64" and "\<forall>i < length bs. mem s (a + of_nat i) \<noteq> None"
  shows "store_bytes a bs s = Some (s\<lparr>mem := \<lambda>x. if unat (x - a) < length bs then Some (bs ! unat (x - a)) else mem s x\<rparr>)"
  using assms by (simp add: store_bytes_def store_fold list_all_iff)

lemma page_up_ge: "n \<le> page_up n"
  unfolding page_up_def using div_mult_mod_eq [of "n + 4095" 4096] mod_less_divisor [of 4096 "n + 4095"] by linarith

section \<open>The plan of the mappings\<close>

definition seg_bytes :: "bytes \<Rightarrow> Elf64_Phdr \<Rightarrow> bytes" where
  "seg_bytes img p = take (unat (p_filesz p)) (drop (unat (p_offset p)) img)"

definition loadable :: "bytes \<Rightarrow> Elf64_Phdr \<Rightarrow> u64 \<Rightarrow> bool" where
  "loadable img p n \<longleftrightarrow> align_size (p_memsz p) (p_align p) = Some n \<and> n \<noteq> 0 \<and> p_filesz p \<le> n \<and>
     unat (p_offset p) + unat (p_filesz p) \<le> length img"

text \<open>The kernel answers the requests, from the one of number \<open>k\<close> on, with pages outside of \<open>used\<close>.\<close>

fun fresh_maps :: "bytes \<Rightarrow> (nat \<Rightarrow> u64 option) \<Rightarrow> nat \<Rightarrow> u64 set \<Rightarrow> (Elf64_Phdr \<times> u64 \<times> u64) list \<Rightarrow> bool" where
  "fresh_maps img pool k used [] \<longleftrightarrow> True" |
  "fresh_maps img pool k used ((p, n, a) # zs) \<longleftrightarrow>
     (if p_type p \<noteq> PT_LOAD then n = 0 \<and> a = 0 \<and> fresh_maps img pool k used zs
      else loadable img p n \<and> pool k = Some a \<and> a \<noteq> MAP_FAILED \<and> (\<forall>x \<in> used. \<not> in_map a (unat n) x) \<and>
        fresh_maps img pool (Suc k) (used \<union> {x. in_map a (unat n) x}) zs)"

definition seg_byte :: "bytes \<Rightarrow> Elf64_Phdr \<Rightarrow> nat \<Rightarrow> u8" where
  "seg_byte img p i = (if i < unat (p_filesz p) then seg_bytes img p ! i else 0)"

lemma map_segment_step:
  assumes "loadable img p n" and "map_pool s (next_map s) = Some a" and "load_bytes c (length img) s = Some img"
    and "\<forall>x. mem s x \<noteq> None \<longrightarrow> \<not> in_map a (unat n) x"
  shows "\<exists>s1. sys_mmap (unat n) [] s = (a, s1) \<and> blocks s1 = blocks s \<and>
    (\<exists>bs. load_bytes (c + p_offset p) (unat (p_filesz p)) s1 = Some bs \<and>
      store_bytes a bs s1 = Some (s\<lparr>next_map := Suc (next_map s),
        mem := \<lambda>x. if in_map a (unat n) x then Some (seg_byte img p (unat (x - a))) else mem s x\<rparr>))"
proof -
  let ?s1 = "s\<lparr>next_map := Suc (next_map s), mem := \<lambda>x. if in_map a (unat n) x then Some 0 else mem s x\<rparr>"
  let ?bs = "seg_bytes img p"
  have n: "n \<noteq> 0" "unat (p_filesz p) \<le> unat n" and len: "length ?bs = unat (p_filesz p)"
    and off: "unat (p_offset p) + unat (p_filesz p) \<le> length img"
    using assms(1) by (auto simp: loadable_def seg_bytes_def word_le_nat_alt)
  have m: "sys_mmap (unat n) [] s = (a, ?s1)" using n(1) assms(2) by (simp add: sys_mmap_def unat_eq_0 Let_def cong: if_cong)
  have "mem ?s1 (c + p_offset p + of_nat i) = Some (?bs ! i)" if "i < unat (p_filesz p)" for i
  proof -
    have "mem s (c + of_nat (unat (p_offset p) + i)) = Some (img ! (unat (p_offset p) + i))"
      using assms(3) that off by (simp add: load_bytes_iff del: of_nat_add)
    then have "mem s (c + p_offset p + of_nat i) = Some (?bs ! i)"
      using that off by (simp add: seg_bytes_def ac_simps)
    then show ?thesis using assms(4) by auto
  qed
  then have l: "load_bytes (c + p_offset p) (unat (p_filesz p)) ?s1 = Some ?bs" using len by (simp only: load_bytes_iff) simp
  have b: "unat (p_filesz p) < 2 ^ 64" using unsigned_less [of "p_filesz p"] by simp
  have inside: "in_map a (unat n) x" if "unat (x - a) < unat (p_filesz p)" for x
    using that n(2) page_up_ge [of "unat n"] by (simp add: in_map_def)
  have "mem ?s1 (a + of_nat i) \<noteq> None" if "i < length ?bs" for i
    using that len b inside [of "a + of_nat i"] by (simp add: unat_of_nat)
  then have "store_bytes a ?bs ?s1 = Some (?s1\<lparr>mem := \<lambda>x. if unat (x - a) < length ?bs then Some (?bs ! unat (x - a)) else mem ?s1 x\<rparr>)"
    using len b by (intro store_bytes_ok) simp_all
  moreover have "(\<lambda>x. if unat (x - a) < length ?bs then Some (?bs ! unat (x - a)) else mem ?s1 x) =
      (\<lambda>x. if in_map a (unat n) x then Some (seg_byte img p (unat (x - a))) else mem s x)"
    using inside len by (auto simp: fun_eq_iff seg_byte_def)
  ultimately show ?thesis using m l by (intro exI [of _ ?s1]) simp
qed

section \<open>All segments\<close>

definition filled :: "bytes \<Rightarrow> (u64 \<rightharpoonup> u8) \<Rightarrow> Elf64_Phdr \<times> u64 \<times> u64 \<Rightarrow> bool" where
  "filled img m = (\<lambda>(p, n, a). p_type p = PT_LOAD \<longrightarrow>
     (\<forall>x. in_map a (unat n) x \<longrightarrow> m x = Some (seg_byte img p (unat (x - a)))))"

lemma upd_sizes:
  assumes "zs ! k = (p, n, a)" and "k < length zs"
  shows "(map (fst \<circ> snd) (take k zs) @ replicate (length zs - k) 0)[k := n] = map (fst \<circ> snd) (take (Suc k) zs) @ replicate (length zs - Suc k) 0"
    and "(map (snd \<circ> snd) (take k zs) @ replicate (length zs - k) 0)[k := a] = map (snd \<circ> snd) (take (Suc k) zs) @ replicate (length zs - Suc k) 0"
  using assms by (simp_all add: list_update_append take_Suc_conv_app_nth Suc_diff_Suc [symmetric])

lemma map_segments_ok:
  assumes "segments encl = Some \<lparr>block = b1, cells = map fst zs\<rparr>"
    and "sizes encl = Some \<lparr>block = b2, cells = map (fst \<circ> snd) (take k zs) @ replicate (length zs - k) 0\<rparr>"
    and "mappings encl = Some \<lparr>block = b3, cells = map (snd \<circ> snd) (take k zs) @ replicate (length zs - k) 0\<rparr>"
    and "{b1, b2, b3} \<subseteq> blocks s" and "load_bytes (elf_content encl) (length img) s = Some img" and "k \<le> length zs"
    and "fresh_maps img (map_pool s) (next_map s) used (drop k zs)" and "\<forall>x. mem s x \<noteq> None \<longrightarrow> x \<in> used"
  shows "\<exists>m j. map_segments [k..<length zs] encl s = Some (True,
      encl\<lparr>sizes := Some \<lparr>block = b2, cells = map (fst \<circ> snd) zs\<rparr>, mappings := Some \<lparr>block = b3, cells = map (snd \<circ> snd) zs\<rparr>\<rparr>,
      s\<lparr>mem := m, next_map := j\<rparr>) \<and> (\<forall>x \<in> used. m x = mem s x) \<and> (\<forall>z \<in> set (drop k zs). filled img m z)"
  using assms
proof (induction "length zs - k" arbitrary: k encl s used)
  case 0
  then have "k = length zs" by simp
  then have "encl\<lparr>sizes := Some \<lparr>block = b2, cells = map (fst \<circ> snd) zs\<rparr>, mappings := Some \<lparr>block = b3, cells = map (snd \<circ> snd) zs\<rparr>\<rparr> = encl"
    using "0.prems"(2,3) by simp
  then show ?case using \<open>k = length zs\<close> by (intro exI [of _ "mem s"] exI [of _ "next_map s"]) (simp add: comp_def)
next
  case (Suc d)
  then have k: "k < length zs" and d: "d = length zs - Suc k" by simp_all
  obtain p n a where z: "zs ! k = (p, n, a)" by (cases "zs ! k")
  have u: "[k..<length zs] = k # [Suc k..<length zs]" and dr: "drop k zs = (p, n, a) # drop (Suc k) zs"
    using k z by (simp_all add: upt_conv_Cons Cons_nth_drop_Suc [symmetric])
  have at: "at (segments encl) k s = Some p" using Suc.prems(1,4) k z by (simp add: at_def)
  show ?case
  proof (cases "p_type p = PT_LOAD")
    case False
    then have na: "n = 0" "a = 0" and fr: "fresh_maps img (map_pool s) (next_map s) used (drop (Suc k) zs)"
      using Suc.prems(7) by (simp_all add: dr)
    have "map (fst \<circ> snd) (take k zs) @ replicate (length zs - k) 0 = map (fst \<circ> snd) (take (Suc k) zs) @ replicate (length zs - Suc k) 0"
      "map (snd \<circ> snd) (take k zs) @ replicate (length zs - k) 0 = map (snd \<circ> snd) (take (Suc k) zs) @ replicate (length zs - Suc k) 0"
      using na z k by (simp_all add: take_Suc_conv_app_nth Suc_diff_Suc [symmetric])
    then obtain m j where m: "map_segments [Suc k..<length zs] encl s = Some (True,
        encl\<lparr>sizes := Some \<lparr>block = b2, cells = map (fst \<circ> snd) zs\<rparr>, mappings := Some \<lparr>block = b3, cells = map (snd \<circ> snd) zs\<rparr>\<rparr>,
        s\<lparr>mem := m, next_map := j\<rparr>)" "\<forall>x \<in> used. m x = mem s x" "\<forall>z \<in> set (drop (Suc k) zs). filled img m z"
      using Suc.hyps(1) [OF d Suc.prems(1) _ _ Suc.prems(4,5) _ fr Suc.prems(8)] Suc.prems(2,3) k by auto
    then show ?thesis using at False by (auto simp: u dr filled_def)
  next
    case True
    have l: "loadable img p n" "map_pool s (next_map s) = Some a" "a \<noteq> MAP_FAILED"
      and fr: "fresh_maps img (map_pool s) (Suc (next_map s)) (used \<union> {x. in_map a (unat n) x}) (drop (Suc k) zs)"
      and out: "\<forall>x. mem s x \<noteq> None \<longrightarrow> \<not> in_map a (unat n) x"
      using Suc.prems(7,8) True by (auto simp: dr)
    let ?m1 = "\<lambda>x. if in_map a (unat n) x then Some (seg_byte img p (unat (x - a))) else mem s x"
    let ?s2 = "s\<lparr>next_map := Suc (next_map s), mem := ?m1\<rparr>"
    let ?e2 = "encl\<lparr>sizes := Some \<lparr>block = b2, cells = map (fst \<circ> snd) (take (Suc k) zs) @ replicate (length zs - Suc k) 0\<rparr>,
      mappings := Some \<lparr>block = b3, cells = map (snd \<circ> snd) (take (Suc k) zs) @ replicate (length zs - Suc k) 0\<rparr>\<rparr>"
    obtain s1 bs where s1: "sys_mmap (unat n) [] s = (a, s1)" "blocks s1 = blocks s"
      "load_bytes (elf_content encl + p_offset p) (unat (p_filesz p)) s1 = Some bs" "store_bytes a bs s1 = Some ?s2"
      using map_segment_step [OF l(1,2) Suc.prems(5) out] by auto
    have set: "set_at (sizes encl) k n s = Some (Some \<lparr>block = b2, cells = map (fst \<circ> snd) (take (Suc k) zs) @ replicate (length zs - Suc k) 0\<rparr>)"
      "set_at (mappings encl) k a s1 = Some (Some \<lparr>block = b3, cells = map (snd \<circ> snd) (take (Suc k) zs) @ replicate (length zs - Suc k) 0\<rparr>)"
      using Suc.prems(2,3,4) s1(2) k upd_sizes [OF z k] by (simp_all add: set_at_def)
    have step: "map_segments [k..<length zs] encl s = map_segments [Suc k..<length zs] ?e2 ?s2"
      using at True l(1,3) s1 set by (simp add: u loadable_def)
    have img: "load_bytes (elf_content ?e2) (length img) ?s2 = Some img"
      using Suc.prems(5) out by (auto simp: load_bytes_iff)
    have known: "\<forall>x. mem ?s2 x \<noteq> None \<longrightarrow> x \<in> used \<union> {x. in_map a (unat n) x}" using Suc.prems(8) by simp
    obtain m j where m: "map_segments [Suc k..<length zs] ?e2 ?s2 = Some (True,
        ?e2\<lparr>sizes := Some \<lparr>block = b2, cells = map (fst \<circ> snd) zs\<rparr>, mappings := Some \<lparr>block = b3, cells = map (snd \<circ> snd) zs\<rparr>\<rparr>,
        ?s2\<lparr>mem := m, next_map := j\<rparr>)" "\<forall>x \<in> used \<union> {x. in_map a (unat n) x}. m x = mem ?s2 x" "\<forall>z \<in> set (drop (Suc k) zs). filled img m z"
      using Suc.hyps(1) [OF d, of ?e2 ?s2 "used \<union> {x. in_map a (unat n) x}"] Suc.prems(1,4) img known fr k by auto
    have "\<forall>x \<in> used. m x = mem s x" using m(2) Suc.prems(7) True by (auto simp: dr)
    moreover have "filled img m (p, n, a)" using m(2) by (simp add: filled_def)
    ultimately show ?thesis using m(1,3) unfolding step dr by auto
  qed
qed

lemma fresh_maps_loadable:
  assumes "fresh_maps img pool k used zs" and "(p, n, a) \<in> set zs" and "p_type p = PT_LOAD"
  shows "loadable img p n"
  using assms by (induction img pool k used zs rule: fresh_maps.induct) (auto split: if_splits)

text \<open>C29: what \<open>map_enclave\<close> maps.  If the file is in memory and the kernel answers each request with pages that
  are not in use, the call succeeds, the arrays of the enclave are those that \<open>create_enclave\<close> needs, everything
  that was in memory is as before, and every loadable segment is at its address: the bytes of the file,
  then zeros up to the aligned size.\<close>

theorem map_enclave_correct:
  assumes "segments encl = Some \<lparr>block = b, cells = map fst zs\<rparr>" and "b \<in> blocks s" and "unat (e_phnum (header encl)) = length zs"
    and "\<not> no_mem s (next_block s)" and "\<not> no_mem s (Suc (next_block s))"
    and "load_bytes (elf_content encl) (length img) s = Some img"
    and "fresh_maps img (map_pool s) (next_map s) {x. mem s x \<noteq> None} zs"
  shows "\<exists>encl' s'. map_enclave (Some encl) s = Some (OK, Some encl', s') \<and> mapped s' encl' zs \<and>
    (\<forall>x. mem s x \<noteq> None \<longrightarrow> mem s' x = mem s x) \<and>
    (\<forall>(p, n, a) \<in> set zs. p_type p = PT_LOAD \<longrightarrow>
      load_bytes a (unat n) s' = Some (seg_bytes img p @ replicate (unat n - unat (p_filesz p)) 0))"
proof -
  let ?n = "next_block s"
  let ?s = "s\<lparr>next_block := Suc (Suc ?n), blocks := insert (Suc ?n) (insert ?n (blocks s))\<rparr>"
  let ?e = "encl\<lparr>mappings := Some \<lparr>block = ?n, cells = replicate (length zs) 0\<rparr>, sizes := Some \<lparr>block = Suc ?n, cells = replicate (length zs) 0\<rparr>\<rparr>"
  obtain m j where m: "map_segments [0..<length zs] ?e ?s = Some (True,
      ?e\<lparr>sizes := Some \<lparr>block = Suc ?n, cells = map (fst \<circ> snd) zs\<rparr>, mappings := Some \<lparr>block = ?n, cells = map (snd \<circ> snd) zs\<rparr>\<rparr>,
      ?s\<lparr>mem := m, next_map := j\<rparr>)" "\<forall>x \<in> {x. mem s x \<noteq> None}. m x = mem s x" "\<forall>z \<in> set zs. filled img m z"
    using map_segments_ok [of ?e b zs "Suc ?n" 0 ?n ?s img "{x. mem s x \<noteq> None}"] assms by (auto simp: load_bytes_iff)
  let ?e' = "?e\<lparr>sizes := Some \<lparr>block = Suc ?n, cells = map (fst \<circ> snd) zs\<rparr>, mappings := Some \<lparr>block = ?n, cells = map (snd \<circ> snd) zs\<rparr>\<rparr>"
  let ?s' = "?s\<lparr>mem := m, next_map := j\<rparr>"
  have "map_enclave (Some encl) s = Some (OK, Some ?e', ?s')"
    using assms(3,4,5) m(1) by (simp add: map_enclave_def malloc_def Let_def)
  moreover have "mapped ?s' ?e' zs" using assms(1,2,3) by (simp add: mapped_def)
  moreover have "load_bytes a (unat n) ?s' = Some (seg_bytes img p @ replicate (unat n - unat (p_filesz p)) 0)"
    if z: "(p, n, a) \<in> set zs" and "p_type p = PT_LOAD" for p n a
  proof -
    have "loadable img p n" using fresh_maps_loadable [OF assms(7) that] .
    then have len: "length (seg_bytes img p) = unat (p_filesz p)" "unat (p_filesz p) \<le> unat n"
      by (auto simp: loadable_def seg_bytes_def word_le_nat_alt)
    have "m (a + of_nat i) = Some (seg_byte img p i)" if "i < unat n" for i
    proof -
      have "unat n < 2 ^ LENGTH(64)" by (rule unsigned_less)
      then have "i < 2 ^ 64" using that by simp
      then have "unat (a + of_nat i - a) = i" by (simp add: unat_of_nat)
      then show ?thesis using m(3) z \<open>p_type p = PT_LOAD\<close> that page_up_ge [of "unat n"]
        by (force simp: filled_def in_map_def dest: spec [of _ "a + of_nat i"])
    qed
    then show ?thesis using len by (simp add: load_bytes_iff seg_byte_def nth_append)
  qed
  ultimately show ?thesis using m(2)
    by (intro exI [of _ ?e'] exI [of _ ?s']) auto
qed

definition demo_load :: Elf64_Phdr where
  "demo_load = \<lparr>p_type = 1, p_flags = 5, p_offset = 1, p_vaddr = 0x400000, p_paddr = 0, p_filesz = 2, p_memsz = 5, p_align = 0x1000\<rparr>"

definition demo_mapping :: "unit proc" where
  "demo_mapping = \<lparr>filesys = Map.empty, fds = Map.empty, fstat_ok = True, blocks = {0}, next_block = 1, no_mem = \<lambda>_. False,
     mem = [0x10000 \<mapsto> 1, 0x10001 \<mapsto> 2, 0x10002 \<mapsto> 3], map_pool = \<lambda>_. Some 0x70000000, next_map = 0, munmap_ok = \<lambda>_. True, close_ok = \<lambda>_. True, dev_ok = True, dev = ()\<rparr>"

theorem map_enclave_correct_witness:
  "\<exists>encl s. map_enclave (Some (zero_encl\<lparr>header := zero_header\<lparr>e_phnum := 1\<rparr>, elf_content := 0x10000,
       segments := Some \<lparr>block = 0, cells = [demo_load]\<rparr>\<rparr>)) demo_mapping = Some (OK, Some encl, s) \<and>
     load_bytes 0x70000000 0x1000 s = Some ([2, 3] @ replicate 0xffe 0)"
proof -
  let ?e = "zero_encl\<lparr>header := zero_header\<lparr>e_phnum := 1\<rparr>, elf_content := 0x10000, segments := Some \<lparr>block = 0, cells = [demo_load]\<rparr>\<rparr>"
  let ?zs = "[(demo_load, 0x1000, 0x70000000)]"
  have "segments ?e = Some \<lparr>block = 0, cells = map fst ?zs\<rparr>" "unat (e_phnum (header ?e)) = length ?zs" by simp_all
  moreover have "0 \<in> blocks demo_mapping" "\<not> no_mem demo_mapping (next_block demo_mapping)"
    "\<not> no_mem demo_mapping (Suc (next_block demo_mapping))" by (simp_all add: demo_mapping_def)
  moreover have "load_bytes (elf_content ?e) (length [1, 2, 3]) demo_mapping = Some [1, 2, 3]"
    by (simp add: load_bytes_def demo_mapping_def upt_rec)
  moreover have "fresh_maps [1, 2, 3] (map_pool demo_mapping) (next_map demo_mapping) {x. mem demo_mapping x \<noteq> None} ?zs"
    by (simp add: demo_mapping_def demo_load_def loadable_def align_size_def in_map_def page_up_def word_le_nat_alt)
  ultimately show ?thesis
    using map_enclave_correct [of ?e 0 ?zs demo_mapping "[1, 2, 3]"] by (auto simp: demo_load_def seg_bytes_def)
qed

text \<open>The size of a mapping is the least multiple of the alignment that holds the segment, when it does not
  overflow.\<close>

theorem align_size_least:
  assumes "align_size memsz al = Some n" and "unat memsz + unat al \<le> 2 ^ 64"
  shows "unat al dvd unat n \<and> unat memsz \<le> unat n \<and> unat n < unat memsz + unat al"
proof -
  have al: "al \<noteq> 0" and n: "n = memsz + (if memsz mod al \<noteq> 0 then al - memsz mod al else 0)"
    using assms(1) by (auto simp: align_size_def Let_def split: if_splits)
  have pos: "0 < unat al" using al by (simp add: unat_gt_0)
  let ?r = "unat memsz mod unat al"
  have r: "unat (memsz mod al) = ?r" by (simp add: unat_mod)
  show ?thesis
  proof (cases "?r = 0")
    case True
    then have "memsz mod al = 0" using r by (simp add: unat_eq_0)
    then show ?thesis using n True pos by (simp add: dvd_eq_mod_eq_0)
  next
    case False
    then have z: "memsz mod al \<noteq> 0" using r by (metis unat_0)
    have lt: "?r < unat al" using pos by simp
    have d: "unat (al - memsz mod al) = unat al - ?r" using lt r by (simp add: unat_sub word_le_nat_alt)
    have sum: "unat memsz + (unat al - ?r) < 2 ^ 64" using assms(2) lt False by linarith
    have "unat n = unat memsz + (unat al - ?r)" using n z d sum by (simp add: unat_word_ariths)
    moreover have "unat memsz + (unat al - ?r) = (unat memsz div unat al + 1) * unat al"
    proof -
      have "unat memsz + (unat al - ?r) = (unat memsz - ?r) + unat al" using lt by simp
      also have "unat memsz - ?r = unat memsz div unat al * unat al" by (metis add_diff_cancel_right' div_mult_mod_eq)
      finally show ?thesis by simp
    qed
    ultimately show ?thesis using lt False by auto
  qed
qed

theorem align_size_least_witness: "align_size 0x2345 0x1000 = Some 0x3000 \<and> unat (0x3000 :: u64) < unat (0x2345 :: u64) + unat (0x1000 :: u64)"
proof -
  have a: "align_size 0x2345 0x1000 = Some 0x3000" by (simp add: align_size_def)
  show ?thesis using align_size_least [OF a] a by simp
qed

end
