(* ===== verification/Shell_Math.thy ===== *)
theory Shell_Math
  imports Prelude "HOL-Library.Signed_Division"
begin

text \<open>
  The arithmetic of the shell in the image, BusyBox \<open>shell/math.c\<close> as it is configured (\<open>FEATURE_SH_MATH_64\<close> and
  \<open>FEATURE_SH_MATH_BASE\<close>).  A C string is the list of its characters before the NUL.  \<open>None\<close> is behaviour that C does
  not define: a write behind the end of one of the two stacks, or a shift by a count outside of 0..63.
  Signed arithmetic wraps, as it does in the code for x86-64.
\<close>

type_synonym arith_t = "64 word"

section \<open>Characters (libbb.h, skip\_whitespace.c, endofname.c)\<close>

definition code :: "char \<Rightarrow> 8 word" where
  "code c = of_char c"

definition is_digit :: "char \<Rightarrow> bool" where
  "is_digit c \<longleftrightarrow> code c - 48 \<le> 9"

definition is_alpha :: "char \<Rightarrow> bool" where
  "is_alpha c \<longleftrightarrow> (code c OR 0x20) - 97 \<le> 25"

definition is_name :: "char \<Rightarrow> bool" where
  "is_name c \<longleftrightarrow> code c = 95 \<or> is_alpha c"

definition is_in_name :: "char \<Rightarrow> bool" where
  "is_in_name c \<longleftrightarrow> code c = 95 \<or> is_alpha c \<or> is_digit c"

definition is_white :: "char \<Rightarrow> bool" where
  "is_white c \<longleftrightarrow> code c = 32 \<or> code c - 9 \<le> 4"

definition skip_whitespace :: "string \<Rightarrow> string" where
  "skip_whitespace s = dropWhile is_white s"

text \<open>The name at the front of a string and the rest behind it.\<close>

definition endofname :: "string \<Rightarrow> string \<times> string" where
  "endofname s = (case s of [] \<Rightarrow> ([], [])
     | c # cs \<Rightarrow> if is_name c then (c # takeWhile is_in_name cs, dropWhile is_in_name cs) else ([], s))"

section \<open>Tokens\<close>

type_synonym operator = "8 word"

definition tok_decl :: "8 word \<Rightarrow> 8 word \<Rightarrow> operator" where
  "tok_decl prec i = push_bit 5 i OR prec"

definition PREC :: "operator \<Rightarrow> 8 word" where
  "PREC oper = oper AND 0x1F"

definition TOK_LPAREN :: operator where "TOK_LPAREN = tok_decl 0 0"
definition TOK_COMMA :: operator where "TOK_COMMA = tok_decl 1 0"
definition TOK_ASSIGN :: operator where "TOK_ASSIGN = tok_decl 2 0"
definition TOK_AND_ASSIGN :: operator where "TOK_AND_ASSIGN = tok_decl 2 1"
definition TOK_OR_ASSIGN :: operator where "TOK_OR_ASSIGN = tok_decl 2 2"
definition TOK_XOR_ASSIGN :: operator where "TOK_XOR_ASSIGN = tok_decl 2 3"
definition TOK_PLUS_ASSIGN :: operator where "TOK_PLUS_ASSIGN = tok_decl 2 4"
definition TOK_MINUS_ASSIGN :: operator where "TOK_MINUS_ASSIGN = tok_decl 2 5"
definition TOK_LSHIFT_ASSIGN :: operator where "TOK_LSHIFT_ASSIGN = tok_decl 2 6"
definition TOK_RSHIFT_ASSIGN :: operator where "TOK_RSHIFT_ASSIGN = tok_decl 2 7"
definition TOK_MUL_ASSIGN :: operator where "TOK_MUL_ASSIGN = tok_decl 3 0"
definition TOK_DIV_ASSIGN :: operator where "TOK_DIV_ASSIGN = tok_decl 3 1"
definition TOK_REM_ASSIGN :: operator where "TOK_REM_ASSIGN = tok_decl 3 2"
definition TOK_CONDITIONAL :: operator where "TOK_CONDITIONAL = tok_decl 4 0"
definition TOK_CONDITIONAL_SEP :: operator where "TOK_CONDITIONAL_SEP = tok_decl 4 1"
definition TOK_OR :: operator where "TOK_OR = tok_decl 5 0"
definition TOK_AND :: operator where "TOK_AND = tok_decl 6 0"
definition TOK_BOR :: operator where "TOK_BOR = tok_decl 7 0"
definition TOK_BXOR :: operator where "TOK_BXOR = tok_decl 8 0"
definition TOK_BAND :: operator where "TOK_BAND = tok_decl 9 0"
definition TOK_EQ :: operator where "TOK_EQ = tok_decl 10 0"
definition TOK_NE :: operator where "TOK_NE = tok_decl 10 1"
definition TOK_LT :: operator where "TOK_LT = tok_decl 11 0"
definition TOK_GT :: operator where "TOK_GT = tok_decl 11 1"
definition TOK_GE :: operator where "TOK_GE = tok_decl 11 2"
definition TOK_LE :: operator where "TOK_LE = tok_decl 11 3"
definition TOK_LSHIFT :: operator where "TOK_LSHIFT = tok_decl 12 0"
definition TOK_RSHIFT :: operator where "TOK_RSHIFT = tok_decl 12 1"
definition TOK_ADD :: operator where "TOK_ADD = tok_decl 13 0"
definition TOK_SUB :: operator where "TOK_SUB = tok_decl 13 1"
definition TOK_MUL :: operator where "TOK_MUL = tok_decl 14 0"
definition TOK_DIV :: operator where "TOK_DIV = tok_decl 14 1"
definition TOK_REM :: operator where "TOK_REM = tok_decl 14 2"
definition TOK_EXPONENT :: operator where "TOK_EXPONENT = tok_decl 15 1"
definition UNARYPREC :: "8 word" where "UNARYPREC = 16"
definition TOK_BNOT :: operator where "TOK_BNOT = tok_decl UNARYPREC 0"
definition TOK_NOT :: operator where "TOK_NOT = tok_decl UNARYPREC 1"
definition TOK_UMINUS :: operator where "TOK_UMINUS = tok_decl (UNARYPREC + 1) 0"
definition TOK_UPLUS :: operator where "TOK_UPLUS = tok_decl (UNARYPREC + 1) 1"
definition PREC_PRE :: "8 word" where "PREC_PRE = UNARYPREC + 2"
definition TOK_PRE_INC :: operator where "TOK_PRE_INC = tok_decl PREC_PRE 0"
definition TOK_PRE_DEC :: operator where "TOK_PRE_DEC = tok_decl PREC_PRE 1"
definition PREC_POST :: "8 word" where "PREC_POST = UNARYPREC + 3"
definition TOK_POST_INC :: operator where "TOK_POST_INC = tok_decl PREC_POST 0"
definition TOK_POST_DEC :: operator where "TOK_POST_DEC = tok_decl PREC_POST 1"
definition SPEC_PREC :: "8 word" where "SPEC_PREC = UNARYPREC + 4"
definition TOK_NUM :: operator where "TOK_NUM = tok_decl SPEC_PREC 0"
definition TOK_RPAREN :: operator where "TOK_RPAREN = tok_decl SPEC_PREC 1"

lemmas tok_defs = tok_decl_def TOK_LPAREN_def TOK_COMMA_def TOK_ASSIGN_def TOK_AND_ASSIGN_def TOK_OR_ASSIGN_def TOK_XOR_ASSIGN_def
  TOK_PLUS_ASSIGN_def TOK_MINUS_ASSIGN_def TOK_LSHIFT_ASSIGN_def TOK_RSHIFT_ASSIGN_def TOK_MUL_ASSIGN_def TOK_DIV_ASSIGN_def
  TOK_REM_ASSIGN_def TOK_CONDITIONAL_def TOK_CONDITIONAL_SEP_def TOK_OR_def TOK_AND_def TOK_BOR_def TOK_BXOR_def TOK_BAND_def
  TOK_EQ_def TOK_NE_def TOK_LT_def TOK_GT_def TOK_GE_def TOK_LE_def TOK_LSHIFT_def TOK_RSHIFT_def TOK_ADD_def TOK_SUB_def
  TOK_MUL_def TOK_DIV_def TOK_REM_def TOK_EXPONENT_def UNARYPREC_def TOK_BNOT_def TOK_NOT_def TOK_UMINUS_def TOK_UPLUS_def
  PREC_PRE_def TOK_PRE_INC_def TOK_PRE_DEC_def PREC_POST_def TOK_POST_INC_def TOK_POST_DEC_def SPEC_PREC_def TOK_NUM_def TOK_RPAREN_def

definition fix_assignment_prec :: "8 word \<Rightarrow> 8 word" where
  "fix_assignment_prec prec = (if prec = 3 then 2 else prec)"

definition is_assign_op :: "operator \<Rightarrow> bool" where
  "is_assign_op oper = (let prec = fix_assignment_prec (PREC oper) in
     prec = PREC TOK_ASSIGN \<or> prec = PREC_PRE \<or> prec = PREC_POST)"

definition is_right_associative :: "8 word \<Rightarrow> bool" where
  "is_right_associative prec \<longleftrightarrow> prec = PREC TOK_ASSIGN \<or> prec = PREC TOK_EXPONENT \<or> prec = PREC TOK_CONDITIONAL"

section \<open>State\<close>

text \<open>The messages; \<open>Stack_exhausted\<close> stands for the end of the C stack in a nested evaluation.\<close>

datatype math_error = Recursion_loop | Malformed_conditional | Negative_exponent | Divide_by_zero | Syntax_error | Stack_exhausted

text \<open>A stack entry; the field that the push of a name leaves uninitialised is 0.\<close>

record var_or_num_t =
  val :: arith_t
  second_val :: arith_t
  second_val_present :: bool
  var :: "string option"

text \<open>The shell keeps the variables: \<open>lookupvar\<close> and \<open>setvar\<close> read and write its state.\<close>

record 's arith_state_t =
  errmsg :: "math_error option"
  lookupvar :: "string \<Rightarrow> 's \<Rightarrow> string option"
  setvar :: "string \<Rightarrow> string \<Rightarrow> 's \<Rightarrow> 's"
  list_of_recursed_names :: "string list"
  shell :: 's

type_synonym 's evaluator = "string \<Rightarrow> 's arith_state_t \<Rightarrow> (arith_t \<times> 's arith_state_t) option"

section \<open>Values\<close>

text \<open>The name is resolved by the evaluation \<open>ev\<close> of its value.\<close>

definition arith_lookup_val ::
  "'s evaluator \<Rightarrow> var_or_num_t \<Rightarrow> 's arith_state_t \<Rightarrow> (math_error option \<times> var_or_num_t \<times> 's arith_state_t) option" where
  "arith_lookup_val ev t m = (case var t of None \<Rightarrow> Some (None, t, m)
     | Some x \<Rightarrow> (case lookupvar m x (shell m) of
         None \<Rightarrow> Some (None, t\<lparr>val := 0\<rparr>, m)
       | Some p \<Rightarrow>
           if x \<in> set (list_of_recursed_names m) then Some (Some Recursion_loop, t, m)
           else do {
             (v, m') \<leftarrow> ev p (m\<lparr>list_of_recursed_names := x # list_of_recursed_names m\<rparr>);
             Some (errmsg m', t\<lparr>val := v\<rparr>, m'\<lparr>list_of_recursed_names := list_of_recursed_names m\<rparr>) }))"

definition unary_value :: "operator \<Rightarrow> arith_t \<Rightarrow> arith_t option" where
  "unary_value oper rez =
     (if oper = TOK_UMINUS then Some (- rez)
      else if oper = TOK_NOT then Some (of_bool (rez = 0))
      else if oper = TOK_BNOT then Some (NOT rez)
      else if oper = TOK_POST_INC \<or> oper = TOK_PRE_INC then Some (rez + 1)
      else if oper = TOK_POST_DEC \<or> oper = TOK_PRE_DEC then Some (rez - 1)
      else if oper = TOK_UPLUS then Some rez else None)"

definition shift_by :: "(nat \<Rightarrow> arith_t \<Rightarrow> arith_t) \<Rightarrow> arith_t \<Rightarrow> arith_t \<Rightarrow> (math_error + arith_t) option" where
  "shift_by f rez n = (if 0 \<le> sint n \<and> sint n < 64 then Some (Inr (f (unat n) rez)) else None)"

text \<open>\<open>while (--right_side_val >= 0) c *= rez\<close>\<close>

fun power_loop :: "nat \<Rightarrow> arith_t \<Rightarrow> arith_t \<Rightarrow> arith_t" where
  "power_loop 0 rez c = c" |
  "power_loop (Suc n) rez c = power_loop n rez (c * rez)"

definition binary_value :: "operator \<Rightarrow> arith_t \<Rightarrow> arith_t \<Rightarrow> (math_error + arith_t) option" where
  "binary_value oper rez right_side_val =
     (if oper = TOK_BOR \<or> oper = TOK_OR_ASSIGN then Some (Inr (rez OR right_side_val))
      else if oper = TOK_OR then Some (Inr (of_bool (right_side_val \<noteq> 0 \<or> rez \<noteq> 0)))
      else if oper = TOK_BAND \<or> oper = TOK_AND_ASSIGN then Some (Inr (rez AND right_side_val))
      else if oper = TOK_BXOR \<or> oper = TOK_XOR_ASSIGN then Some (Inr (rez XOR right_side_val))
      else if oper = TOK_AND then Some (Inr (of_bool (rez \<noteq> 0 \<and> right_side_val \<noteq> 0)))
      else if oper = TOK_EQ then Some (Inr (of_bool (rez = right_side_val)))
      else if oper = TOK_NE then Some (Inr (of_bool (rez \<noteq> right_side_val)))
      else if oper = TOK_GE then Some (Inr (of_bool (right_side_val \<le>s rez)))
      else if oper = TOK_RSHIFT \<or> oper = TOK_RSHIFT_ASSIGN then shift_by signed_drop_bit rez right_side_val
      else if oper = TOK_LSHIFT \<or> oper = TOK_LSHIFT_ASSIGN then shift_by push_bit rez right_side_val
      else if oper = TOK_GT then Some (Inr (of_bool (right_side_val <s rez)))
      else if oper = TOK_LT then Some (Inr (of_bool (rez <s right_side_val)))
      else if oper = TOK_LE then Some (Inr (of_bool (rez \<le>s right_side_val)))
      else if oper = TOK_MUL \<or> oper = TOK_MUL_ASSIGN then Some (Inr (rez * right_side_val))
      else if oper = TOK_ADD \<or> oper = TOK_PLUS_ASSIGN then Some (Inr (rez + right_side_val))
      else if oper = TOK_SUB \<or> oper = TOK_MINUS_ASSIGN then Some (Inr (rez - right_side_val))
      else if oper = TOK_ASSIGN \<or> oper = TOK_COMMA then Some (Inr right_side_val)
      else if oper = TOK_EXPONENT then
        (if right_side_val <s 0 then Some (Inl Negative_exponent) else Some (Inr (power_loop (unat right_side_val) rez 1)))
      else if right_side_val = 0 then Some (Inl Divide_by_zero)
      else if oper = TOK_DIV \<or> oper = TOK_DIV_ASSIGN \<or> oper = TOK_REM \<or> oper = TOK_REM_ASSIGN then
        (let d = (if right_side_val = - 1 \<and> push_bit 1 rez = 0 then 1 else right_side_val) in
         if oper = TOK_DIV \<or> oper = TOK_DIV_ASSIGN then Some (Inr (word_of_int (sint rez sdiv sint d)))
         else Some (Inr (word_of_int (sint rez smod sint d))))
      else Some (Inr rez))"

text \<open>\<open>sprintf(buf, "%lld", rez)\<close>\<close>

fun decimal :: "nat \<Rightarrow> string" where
  "decimal n = (if n < 10 then [char_of (48 + n)] else decimal (n div 10) @ [char_of (48 + n mod 10)])"

definition print_lld :: "arith_t \<Rightarrow> string" where
  "print_lld w = (if sint w < 0 then CHR ''-'' # decimal (nat (- sint w)) else decimal (nat (sint w)))"

text \<open>The end of \<open>arith_apply\<close>: the assignment and the result on the stack.\<close>

definition arith_store ::
  "operator \<Rightarrow> arith_t \<Rightarrow> var_or_num_t \<Rightarrow> var_or_num_t list \<Rightarrow> 's arith_state_t \<Rightarrow> math_error option \<times> var_or_num_t list \<times> 's arith_state_t" where
  "arith_store oper rez t nums m =
     (if is_assign_op oper then
        (case var t of None \<Rightarrow> (Some Syntax_error, t # nums, m)
         | Some x \<Rightarrow>
             let m = m\<lparr>shell := setvar m x (print_lld rez) (shell m)\<rparr>;
                 rez = (if oper = TOK_POST_INC then rez - 1 else rez);
                 rez = (if oper = TOK_POST_DEC then rez + 1 else rez)
             in (None, t\<lparr>val := rez, var := None\<rparr> # nums, m))
      else (None, t\<lparr>val := rez, var := None\<rparr> # nums, m))"

text \<open>The binary operators: \<open>t\<close> is the right operand, already resolved, and \<open>below\<close> the stack under it.\<close>

definition arith_apply_binary ::
  "'s evaluator \<Rightarrow> operator \<Rightarrow> var_or_num_t \<Rightarrow> var_or_num_t list \<Rightarrow> 's arith_state_t \<Rightarrow>
   (math_error option \<times> var_or_num_t list \<times> 's arith_state_t) option" where
  "arith_apply_binary ev oper t below m = (case below of [] \<Rightarrow> Some (Some Syntax_error, t # below, m)
     | l # below' \<Rightarrow>
         let bad_second_val = second_val_present t;
             bad_second_val = (if oper = TOK_CONDITIONAL then \<not> bad_second_val else bad_second_val) in
         if bad_second_val then Some (Some Malformed_conditional, below, m)
         else do {
           (err, l, m) \<leftarrow> (if oper \<noteq> TOK_ASSIGN then arith_lookup_val ev l m else Some (None, l, m));
           if err \<noteq> None then Some (err, l # below', m)
           else if oper = TOK_CONDITIONAL then
             Some (arith_store oper (if val l \<noteq> 0 then val t else second_val t) l below' m)
           else if oper = TOK_CONDITIONAL_SEP then
             (if below' = [] then Some (Some Malformed_conditional, l # below', m)
              else Some (arith_store oper (val l) (l\<lparr>second_val_present := True, second_val := val t\<rparr>) below' m))
           else do {
             rez \<leftarrow> binary_value oper (val l) (val t);
             case rez of Inl e \<Rightarrow> Some (Some e, l # below', m)
             | Inr v \<Rightarrow> Some (arith_store oper v l below' m) } })"

text \<open>The stack of numbers has its top in front.\<close>

definition arith_apply ::
  "'s evaluator \<Rightarrow> operator \<Rightarrow> var_or_num_t list \<Rightarrow> 's arith_state_t \<Rightarrow>
   (math_error option \<times> var_or_num_t list \<times> 's arith_state_t) option" where
  "arith_apply ev oper nums m = (case nums of [] \<Rightarrow> Some (Some Syntax_error, nums, m)
     | t # below \<Rightarrow> do {
         (err, t, m) \<leftarrow> arith_lookup_val ev t m;
         if err \<noteq> None then Some (err, t # below, m)
         else case unary_value oper (val t) of Some rez \<Rightarrow> Some (arith_store oper rez t below m)
         | None \<Rightarrow> arith_apply_binary ev oper t below m })"

section \<open>The scanner\<close>

definition op_tokens :: "(string \<times> operator) list" where
  "op_tokens = [
     (''<<='', TOK_LSHIFT_ASSIGN), (''>>='', TOK_RSHIFT_ASSIGN), (''<<'', TOK_LSHIFT), (''>>'', TOK_RSHIFT), (''||'', TOK_OR),
     (''&&'', TOK_AND), (''!='', TOK_NE), (''<='', TOK_LE), (''>='', TOK_GE), (''=='', TOK_EQ), (''|='', TOK_OR_ASSIGN),
     (''&='', TOK_AND_ASSIGN), (''*='', TOK_MUL_ASSIGN), (''/='', TOK_DIV_ASSIGN), (''%='', TOK_REM_ASSIGN),
     (''+='', TOK_PLUS_ASSIGN), (''-='', TOK_MINUS_ASSIGN), (''--'', TOK_POST_DEC), (''^='', TOK_XOR_ASSIGN),
     (''++'', TOK_POST_INC), (''**'', TOK_EXPONENT), (''!'', TOK_NOT), (''<'', TOK_LT), (''>'', TOK_GT), (''='', TOK_ASSIGN),
     (''|'', TOK_BOR), (''&'', TOK_BAND), (''*'', TOK_MUL), (''/'', TOK_DIV), (''%'', TOK_REM), (''+'', TOK_ADD), (''-'', TOK_SUB),
     (''^'', TOK_BXOR), (''~'', TOK_BNOT), ('','', TOK_COMMA), (''?'', TOK_CONDITIONAL), ('':'', TOK_CONDITIONAL_SEP),
     ('')'', TOK_RPAREN), (''('', TOK_LPAREN)]"

text \<open>The rest of \<open>e\<close> behind the text \<open>p\<close> of a token.\<close>

fun strip_token :: "string \<Rightarrow> string \<Rightarrow> string option" where
  "strip_token [] e = Some e" |
  "strip_token (p # ps) [] = None" |
  "strip_token (p # ps) (e # es) = (if p = e then strip_token ps es else None)"

fun find_token :: "(string \<times> operator) list \<Rightarrow> string \<Rightarrow> (operator \<times> string) option" where
  "find_token [] e = None" |
  "find_token ((p, oper) # ts) e = (case strip_token p e of Some e' \<Rightarrow> Some (oper, e') | None \<Rightarrow> find_token ts e)"

text \<open>\<open>strtoull\<close> with base 0 on a string that starts with a digit: the value, the rest, and whether it overflows.\<close>

fun digits_value :: "nat \<Rightarrow> (char \<Rightarrow> nat) \<Rightarrow> string \<Rightarrow> nat \<Rightarrow> nat" where
  "digits_value b f [] n = n" |
  "digits_value b f (c # cs) n = digits_value b f cs (n * b + f c)"

definition hex_digit :: "char \<Rightarrow> bool" where
  "hex_digit c \<longleftrightarrow> is_digit c \<or> (code c OR 0x20) - 97 \<le> 5"

definition hex_value :: "char \<Rightarrow> nat" where
  "hex_value c = (if is_digit c then unat (code c - 48) else unat ((code c OR 0x20) - 97) + 10)"

definition octal_digit :: "char \<Rightarrow> bool" where
  "octal_digit c \<longleftrightarrow> code c - 48 \<le> 7"

definition strtoull :: "string \<Rightarrow> arith_t \<times> string \<times> bool" where
  "strtoull s =
     (let hex = (case s of a # b # c # _ \<Rightarrow> a = CHR ''0'' \<and> (b = CHR ''x'' \<or> b = CHR ''X'') \<and> hex_digit c | _ \<Rightarrow> False);
          (n, r) = (if hex then (digits_value 16 hex_value (takeWhile hex_digit (drop 2 s)) 0, dropWhile hex_digit (drop 2 s))
                    else if take 1 s = ''0'' then (digits_value 8 hex_value (takeWhile octal_digit s) 0, dropWhile octal_digit s)
                    else (digits_value 10 hex_value (takeWhile is_digit s) 0, dropWhile is_digit s))
      in if n < 2 ^ 64 then (of_nat n, r, False) else (- 1, r, True))"

text \<open>The value of a digit in a base of 2..64, if it is one.\<close>

definition base_digit :: "32 word \<Rightarrow> char \<Rightarrow> 32 word option" where
  "base_digit base c =
     (let x = scast (code c) :: 32 word; digit = x - 48 in
      do {
        digit \<leftarrow> (if 10 \<le> digit \<and> digit \<le> 74
           then let digit = (x OR 0x20) - 87 in
             if 36 < base \<and> x \<le>s 95 then
               (if x = 95 then Some 63 else if x = 64 then Some 62 else if digit < 36 then Some (digit + 26) else None)
             else Some digit
           else Some digit);
        if base \<le> digit then None else Some digit })"

fun base_loop :: "32 word \<Rightarrow> string \<Rightarrow> arith_t \<Rightarrow> arith_t \<times> string" where
  "base_loop base [] n = (n, [])" |
  "base_loop base (c # cs) n = (case base_digit base c of None \<Rightarrow> (n, c # cs)
     | Some d \<Rightarrow> base_loop base cs (n * ucast base + ucast d))"

definition strto_arith_t :: "string \<Rightarrow> arith_t \<times> string \<times> bool" where
  "strto_arith_t nptr =
     (let (n, endptr, err) = strtoull nptr in
      if take 1 endptr \<noteq> ''#'' \<or> nptr = [] \<or> \<not> (49 \<le> code (hd nptr) \<and> code (hd nptr) \<le> 57) \<or> n <s 2 \<or> 64 <s n
      then (n, endptr, err)
      else let (n, endptr) = base_loop (ucast n) (tl endptr) 0 in (n, endptr, err))"

section \<open>The loop of \<open>evaluate_string\<close>\<close>

text \<open>The remaining text, whether the closing parenthesis has been appended, the two stacks and the last token.\<close>

record scan =
  expr :: string
  closed :: bool
  nums :: "var_or_num_t list"
  opers :: "operator list"
  lasttok :: operator

datatype 's step = Continue scan "'s arith_state_t" | Return "math_error option" arith_t "'s arith_state_t"

text \<open>\<open>num:\<close> with the capacity of \<open>numstack\<close>.\<close>

definition push_num :: "nat \<Rightarrow> var_or_num_t \<Rightarrow> scan \<Rightarrow> scan option" where
  "push_num expr_len t sc = do {
     c_assert (length (nums sc) < expr_len div 2);
     Some (sc\<lparr>nums := t # nums sc, lasttok := TOK_NUM\<rparr>) }"

definition push_oper :: "nat \<Rightarrow> operator \<Rightarrow> scan \<Rightarrow> scan option" where
  "push_oper expr_len oper sc = do {
     c_assert (length (opers sc) < expr_len);
     Some (sc\<lparr>opers := oper # opers sc, lasttok := oper\<rparr>) }"

text \<open>The operator at the front of the text.\<close>

definition next_operator :: "string \<Rightarrow> var_or_num_t list \<Rightarrow> (operator \<times> string) option" where
  "next_operator e ns =
     (let next_char = skip_whitespace (drop 2 e) in
      if (take 2 e = ''++'' \<or> take 2 e = ''--'') \<and> (case ns of [] \<Rightarrow> True | n # _ \<Rightarrow> var n = None) \<and>
         (case next_char of [] \<Rightarrow> True | c # _ \<Rightarrow> \<not> (is_alpha c \<or> code c = 95))
      then Some (if take 1 e = ''+'' then TOK_ADD else TOK_SUB, tl e)
      else find_token op_tokens e)"

text \<open>Plus, minus and the increments are unary unless they follow a number.\<close>

definition as_unary :: "operator \<Rightarrow> operator" where
  "as_unary oper = (if oper = TOK_ADD then TOK_UPLUS else if oper = TOK_SUB then TOK_UMINUS
     else if oper = TOK_POST_INC then TOK_PRE_INC else if oper = TOK_POST_DEC then TOK_PRE_DEC else oper)"

datatype 's popped = Push "operator list" "var_or_num_t list" "'s arith_state_t"
  | Closed "operator list" "var_or_num_t list" "'s arith_state_t" | Fail math_error "'s arith_state_t"

text \<open>Apply the operators on the stack, down to a parenthesis or to one that binds less.\<close>

fun pop_opers ::
  "'s evaluator \<Rightarrow> operator \<Rightarrow> operator list \<Rightarrow> var_or_num_t list \<Rightarrow> 's arith_state_t \<Rightarrow> 's popped option" where
  "pop_opers ev oper [] ns m = Some (if oper = TOK_RPAREN then Fail Syntax_error m else Push [] ns m)" |
  "pop_opers ev oper (prev_op # stack) ns m =
     (let prec = fix_assignment_prec (PREC oper); prev_prec = fix_assignment_prec (PREC prev_op) in
      if oper = TOK_RPAREN \<and> prev_op = TOK_LPAREN then
        (case ns of [] \<Rightarrow> None
         | t # below \<Rightarrow> if var t = None then Some (Closed stack ns m)
             else do {
               (err, t, m) \<leftarrow> arith_lookup_val ev t m;
               case err of Some e \<Rightarrow> Some (Fail e m) | None \<Rightarrow> Some (Closed stack (t\<lparr>var := None\<rparr> # below) m) })
      else if oper \<noteq> TOK_RPAREN \<and> (prev_prec < prec \<or> prev_prec = prec \<and> is_right_associative prec)
      then Some (Push (prev_op # stack) ns m)
      else do {
        (err, ns, m) \<leftarrow> arith_apply ev prev_op ns m;
        case err of Some e \<Rightarrow> Some (Fail e m) | None \<Rightarrow> pop_opers ev oper stack ns m })"

definition operator_step :: "'s evaluator \<Rightarrow> nat \<Rightarrow> operator \<Rightarrow> scan \<Rightarrow> 's arith_state_t \<Rightarrow> 's step option" where
  "operator_step ev expr_len oper sc m =
     (let last = (if lasttok sc = TOK_POST_INC \<or> lasttok sc = TOK_POST_DEC then TOK_NUM else lasttok sc);
          oper = (if last \<noteq> TOK_NUM then as_unary oper else oper);
          prec = PREC oper in
      if 0 < prec \<and> prec < UNARYPREC \<or> prec = SPEC_PREC then
        (if last \<noteq> TOK_NUM then Some (Return (Some Syntax_error) (- 1) m)
         else do {
           r \<leftarrow> pop_opers ev oper (opers sc) (nums sc) m;
           case r of Fail e m \<Rightarrow> Some (Return (Some e) (- 1) m)
           | Closed stack ns m \<Rightarrow> Some (Continue (sc\<lparr>opers := stack, nums := ns, lasttok := TOK_NUM\<rparr>) m)
           | Push stack ns m \<Rightarrow> do {
               sc \<leftarrow> push_oper expr_len oper (sc\<lparr>opers := stack, nums := ns\<rparr>);
               Some (Continue sc m) } })
      else do { sc \<leftarrow> push_oper expr_len oper sc; Some (Continue sc m) })"

text \<open>One round of the loop; \<open>null\<close> says that there was no text at all.\<close>

definition scan_step :: "'s evaluator \<Rightarrow> nat \<Rightarrow> bool \<Rightarrow> scan \<Rightarrow> 's arith_state_t \<Rightarrow> 's step option" where
  "scan_step ev expr_len null sc m =
     (let e = skip_whitespace (expr sc) in
      case e of
        [] \<Rightarrow>
          if null then Some (Return None 0 m)
          else if \<not> closed sc then Some (Continue (sc\<lparr>expr := '')'', closed := True\<rparr>) m)
          else (case nums sc of [t] \<Rightarrow> Some (Return None (val t) m) | _ \<Rightarrow> Some (Return (Some Syntax_error) (- 1) m))
      | c # _ \<Rightarrow>
          if is_name c then
            (let (x, r) = endofname e; t = \<lparr>val = 0, second_val = 0, second_val_present = False, var = Some x\<rparr> in
             do { sc \<leftarrow> push_num expr_len t (sc\<lparr>expr := r\<rparr>); Some (Continue sc m) })
          else if is_digit c then
            (let (n, r, err) = strto_arith_t e;
                 t = \<lparr>val = if err then 0 else n, second_val = 0, second_val_present = False, var = None\<rparr> in
             do { sc \<leftarrow> push_num expr_len t (sc\<lparr>expr := r\<rparr>); Some (Continue sc m) })
          else (case next_operator e (nums sc) of
              None \<Rightarrow> Some (Return (Some Syntax_error) (- 1) m)
            | Some (oper, r) \<Rightarrow> operator_step ev expr_len oper (sc\<lparr>expr := r\<rparr>) m))"

definition to_do :: "scan \<Rightarrow> nat" where
  "to_do sc = length (expr sc) + (if closed sc then 0 else 2)"

lemma skip_whitespace_length: "length (skip_whitespace s) \<le> length s"
  by (simp add: skip_whitespace_def length_dropWhile_le)

lemma strip_token_length: "strip_token p e = Some r \<Longrightarrow> length e = length p + length r"
  by (induction p e rule: strip_token.induct) (auto split: if_splits)

lemma find_token_length:
  assumes "find_token ts e = Some (oper, r)" and "\<forall>x \<in> set ts. fst x \<noteq> []"
  shows "length r < length e"
  using assms by (induction ts e rule: find_token.induct) (auto split: option.splits dest: strip_token_length)

lemma next_operator_length: "e \<noteq> [] \<Longrightarrow> next_operator e ns = Some (oper, r) \<Longrightarrow> length r < length e"
  by (auto simp: next_operator_def Let_def split: if_splits elim!: find_token_length) (auto simp: op_tokens_def)

lemma base_loop_length: "base_loop b s n = (v, r) \<Longrightarrow> length r \<le> length s"
  by (induction b s n rule: base_loop.induct) (auto split: option.splits)

lemma hex_octal_digits: "octal_digit c \<Longrightarrow> is_digit c"
  by (simp add: octal_digit_def is_digit_def word_le_nat_alt)

lemma strtoull_length:
  assumes "strtoull (c # s) = (n, r, err)" and "is_digit c"
  shows "length r \<le> length s"
proof -
  have "octal_digit CHR ''0''" by (simp add: octal_digit_def code_def)
  then show ?thesis using assms length_dropWhile_le
    by (auto simp: strtoull_def Let_def le_Suc_eq split: if_splits list.splits) 
qed

lemma strto_arith_t_length:
  assumes "strto_arith_t (c # s) = (n, r, err)" and "is_digit c"
  shows "length r \<le> length s"
proof -
  obtain n' r' e' where s: "strtoull (c # s) = (n', r', e')" by (cases "strtoull (c # s)")
  show ?thesis using assms(1) s strtoull_length [OF s assms(2)]
    by (auto simp: strto_arith_t_def Let_def split: if_splits prod.splits dest!: base_loop_length)
qed

lemma operator_step_expr:
  assumes "operator_step ev n oper sc m = Some (Continue sc' m')"
  shows "expr sc' = expr sc \<and> closed sc' = closed sc"
  using assms unfolding operator_step_def Let_def
  by (auto simp: push_oper_def Option.bind_eq_Some_conv split: if_splits popped.splits)

lemma scan_step_decreases:
  assumes "scan_step ev n null sc m = Some (Continue sc' m')"
  shows "to_do sc' < to_do sc"
proof (cases "skip_whitespace (expr sc)")
  case Nil
  then show ?thesis using assms by (auto simp: scan_step_def to_do_def split: if_splits list.splits)
next
  case (Cons c s)
  have len: "Suc (length s) \<le> length (expr sc)" using skip_whitespace_length [of "expr sc"] Cons by simp
  have name: "length (snd (endofname (c # s))) \<le> length s" if "is_name c"
    using that by (simp add: endofname_def length_dropWhile_le)
  have num: "length (fst (snd (strto_arith_t (c # s)))) \<le> length s" if "is_digit c"
    using strto_arith_t_length [of c s] that by (cases "strto_arith_t (c # s)") auto
  consider "is_name c" | "\<not> is_name c" "is_digit c" | "\<not> is_name c" "\<not> is_digit c" by blast
  then show ?thesis
  proof cases
    case 1
    then have "expr sc' = snd (endofname (c # s))" "closed sc' = closed sc"
      using assms Cons by (auto simp: scan_step_def push_num_def split_def Let_def split: if_splits)
    then show ?thesis using name [OF 1] len by (simp add: to_do_def)
  next
    case 2
    then have "expr sc' = fst (snd (strto_arith_t (c # s)))" "closed sc' = closed sc"
      using assms Cons by (auto simp: scan_step_def push_num_def split_def Let_def split: if_splits)
    then show ?thesis using num [OF 2(2)] len by (simp add: to_do_def)
  next
    case 3
    then obtain oper r where n: "next_operator (c # s) (nums sc) = Some (oper, r)"
      and o: "operator_step ev n oper (sc\<lparr>expr := r\<rparr>) m = Some (Continue sc' m')"
      using assms Cons by (auto simp: scan_step_def split: option.splits)
    show ?thesis using operator_step_expr [OF o] next_operator_length [OF _ n] len by (simp add: to_do_def)
  qed
qed

function scan_loop :: "'s evaluator \<Rightarrow> nat \<Rightarrow> bool \<Rightarrow> scan \<Rightarrow> 's arith_state_t \<Rightarrow> (arith_t \<times> 's arith_state_t) option" where
  "scan_loop ev expr_len null sc m = (case scan_step ev expr_len null sc m of
     None \<Rightarrow> None
   | Some (Return err v m) \<Rightarrow> Some (v, m\<lparr>errmsg := err\<rparr>)
   | Some (Continue sc m) \<Rightarrow> scan_loop ev expr_len null sc m)"
  by pat_completeness auto
termination by (relation "measure (\<lambda>(ev, n, null, sc, m). to_do sc)") (auto dest: scan_step_decreases)

declare scan_loop.simps [simp del]

text \<open>The first argument bounds the depth of nested evaluations.\<close>

fun evaluate_string :: "nat \<Rightarrow> 's evaluator" where
  "evaluate_string 0 e m = Some (- 1, m\<lparr>errmsg := Some Stack_exhausted\<rparr>)" |
  "evaluate_string (Suc depth) e m =
     (let start_expr = skip_whitespace e; expr_len = length start_expr + 2 in
      scan_loop (evaluate_string depth) expr_len (start_expr = [])
        \<lparr>expr = start_expr, closed = False, nums = [], opers = [TOK_LPAREN], lasttok = TOK_LPAREN\<rparr> m)"

definition arith :: "nat \<Rightarrow> string \<Rightarrow> 's arith_state_t \<Rightarrow> (arith_t \<times> 's arith_state_t) option" where
  "arith depth e m = evaluate_string depth e (m\<lparr>errmsg := None, list_of_recursed_names := []\<rparr>)"

end
