(* ===== verification/Math_Expressions.thy ===== *)
theory Math_Expressions
  imports Shell_Math
begin

text \<open>
  The grammar that \<open>evaluate_string\<close> implements: expression trees, their text with the fewest parentheses, and their
  values.  The scanner finds the value of the tree from its text.
\<close>

section \<open>Precedences\<close>

text \<open>The tokens as numbers.\<close>

lemmas tok_vals = tok_defs (2-) [simplified tok_decl_def UNARYPREC_def PREC_PRE_def PREC_POST_def SPEC_PREC_def, simplified]

definition prec_of :: "operator \<Rightarrow> nat" where
  "prec_of oper = unat (fix_assignment_prec (PREC oper))"

definition right_assoc :: "nat \<Rightarrow> bool" where
  "right_assoc n \<longleftrightarrow> n = 2 \<or> n = 4 \<or> n = 15"

definition binary_opers :: "operator list" where
  "binary_opers = [TOK_COMMA, TOK_OR, TOK_AND, TOK_BOR, TOK_BXOR, TOK_BAND, TOK_EQ, TOK_NE, TOK_LT, TOK_GT, TOK_GE, TOK_LE,
     TOK_LSHIFT, TOK_RSHIFT, TOK_ADD, TOK_SUB, TOK_MUL, TOK_DIV, TOK_REM, TOK_EXPONENT]"

definition unary_opers :: "operator list" where
  "unary_opers = [TOK_UMINUS, TOK_UPLUS, TOK_NOT, TOK_BNOT]"

text \<open>The text of a token.\<close>

definition text_of :: "operator \<Rightarrow> string" where
  "text_of oper = (if oper = TOK_UMINUS then ''-'' else if oper = TOK_UPLUS then ''+''
     else case List.find (\<lambda>(s, t). t = oper) op_tokens of Some (s, _) \<Rightarrow> s | None \<Rightarrow> [])"

lemma right_assoc_word: "is_right_associative w \<longleftrightarrow> right_assoc (unat w)"
proof -
  have "w = n \<longleftrightarrow> unat w = unat n" for n :: "8 word" by (simp add: word_unat_eq_iff)
  then show ?thesis by (auto simp: is_right_associative_def right_assoc_def tok_vals PREC_def)
qed

lemma pop_cond:
  "fix_assignment_prec (PREC prev) < fix_assignment_prec (PREC oper) \<or> fix_assignment_prec (PREC prev) = fix_assignment_prec (PREC oper) \<and>
     is_right_associative (fix_assignment_prec (PREC oper)) \<longleftrightarrow>
   prec_of prev < prec_of oper \<or> prec_of prev = prec_of oper \<and> right_assoc (prec_of oper)"
  by (auto simp: prec_of_def right_assoc_word word_less_nat_alt word_unat_eq_iff)

lemma prec_vals: "UNARYPREC = 16" "PREC_PRE = 18" "PREC_POST = 19" "SPEC_PREC = 20"
  by (simp_all add: UNARYPREC_def PREC_PRE_def PREC_POST_def SPEC_PREC_def)

lemma binary_opers_prec: "list_all (\<lambda>oper. 0 < prec_of oper \<and> prec_of oper < 16 \<and> 0 < PREC oper \<and> PREC oper < UNARYPREC) binary_opers"
  by (simp add: binary_opers_def prec_of_def fix_assignment_prec_def PREC_def tok_vals prec_vals)

lemma binary_opers_other:
  "list_all (\<lambda>oper. \<not> is_assign_op oper \<and> unary_value oper v = None \<and>
     oper \<notin> {TOK_RPAREN, TOK_LPAREN, TOK_CONDITIONAL, TOK_CONDITIONAL_SEP, TOK_ASSIGN}) binary_opers"
  by (simp add: binary_opers_def is_assign_op_def fix_assignment_prec_def PREC_def unary_value_def tok_vals prec_vals)

lemma unary_opers_prec: "list_all (\<lambda>oper. 15 < prec_of oper \<and> \<not> PREC oper < UNARYPREC \<and> PREC oper \<noteq> SPEC_PREC) unary_opers"
  by (simp add: unary_opers_def prec_of_def fix_assignment_prec_def PREC_def tok_vals prec_vals)

lemma unary_opers_other:
  "list_all (\<lambda>oper. \<not> is_assign_op oper \<and> unary_value oper v \<noteq> None \<and>
     oper \<notin> {TOK_RPAREN, TOK_LPAREN, TOK_NUM, TOK_POST_INC, TOK_POST_DEC}) unary_opers"
  by (simp add: unary_opers_def is_assign_op_def fix_assignment_prec_def PREC_def unary_value_def tok_vals prec_vals)

section \<open>Scanning tokens\<close>

definition delimited :: "string \<Rightarrow> bool" where
  "delimited r \<longleftrightarrow> r = [] \<or> (\<exists>s. r = CHR '' '' # s)"

lemma text_vals:
  "map text_of (binary_opers @ unary_opers @ [TOK_CONDITIONAL, TOK_CONDITIONAL_SEP, TOK_LPAREN, TOK_RPAREN]) =
    ['','', ''||'', ''&&'', ''|'', ''^'', ''&'', ''=='', ''!='', ''<'', ''>'', ''>='', ''<='', ''<<'', ''>>'', ''+'', ''-'', ''*'', ''/'', ''%'', ''**'',
     ''-'', ''+'', ''!'', ''~'', ''?'', '':'', ''('', '')'']"
  by (simp add: binary_opers_def unary_opers_def text_of_def op_tokens_def tok_vals)

lemmas text_simps = text_vals [simplified binary_opers_def unary_opers_def, simplified]

lemma find_text:
  assumes "delimited r"
  shows "list_all (\<lambda>oper. find_token op_tokens (text_of oper @ r) = Some (oper, r))
    (binary_opers @ [TOK_NOT, TOK_BNOT, TOK_CONDITIONAL, TOK_CONDITIONAL_SEP, TOK_LPAREN, TOK_RPAREN])"
    and "find_token op_tokens (text_of TOK_UMINUS @ r) = Some (TOK_SUB, r)" and "find_token op_tokens (text_of TOK_UPLUS @ r) = Some (TOK_ADD, r)"
proof -
  consider "r = []" | s where "r = CHR '' '' # s" using assms by (auto simp: delimited_def)
  then have "list_all (\<lambda>oper. find_token op_tokens (text_of oper @ r) = Some (oper, r))
      (binary_opers @ [TOK_NOT, TOK_BNOT, TOK_CONDITIONAL, TOK_CONDITIONAL_SEP, TOK_LPAREN, TOK_RPAREN]) \<and>
    find_token op_tokens (text_of TOK_UMINUS @ r) = Some (TOK_SUB, r) \<and> find_token op_tokens (text_of TOK_UPLUS @ r) = Some (TOK_ADD, r)"
    by cases (simp_all add: binary_opers_def text_simps op_tokens_def)
  then show "list_all (\<lambda>oper. find_token op_tokens (text_of oper @ r) = Some (oper, r))
      (binary_opers @ [TOK_NOT, TOK_BNOT, TOK_CONDITIONAL, TOK_CONDITIONAL_SEP, TOK_LPAREN, TOK_RPAREN])"
    and "find_token op_tokens (text_of TOK_UMINUS @ r) = Some (TOK_SUB, r)" and "find_token op_tokens (text_of TOK_UPLUS @ r) = Some (TOK_ADD, r)"
    by blast+
qed

text \<open>Every token starts with a character of its own, and none reads as an increment.\<close>

lemma text_start:
  assumes "delimited r"
  shows "list_all (\<lambda>oper. text_of oper \<noteq> [] \<and> (let c = hd (text_of oper) in \<not> is_white c \<and> \<not> is_name c \<and> \<not> is_digit c) \<and>
      take 2 (text_of oper @ r) \<noteq> ''++'' \<and> take 2 (text_of oper @ r) \<noteq> ''--'')
    (binary_opers @ unary_opers @ [TOK_CONDITIONAL, TOK_CONDITIONAL_SEP, TOK_LPAREN, TOK_RPAREN])"
proof -
  consider "r = []" | s where "r = CHR '' '' # s" using assms by (auto simp: delimited_def)
  moreover have "\<not> (- 1 :: 8 word) \<le> 9" by (subst word_order.extremum_unique) simp
  ultimately show ?thesis
    by cases (simp_all add: binary_opers_def unary_opers_def text_simps is_white_def is_name_def is_digit_def is_alpha_def code_def)
qed

definition infix_opers :: "operator list" where
  "infix_opers = binary_opers @ [TOK_CONDITIONAL, TOK_CONDITIONAL_SEP, TOK_RPAREN]"

definition prefix_opers :: "operator list" where
  "prefix_opers = unary_opers @ [TOK_LPAREN]"

lemma next_infix:
  assumes "delimited r" and "oper \<in> set infix_opers"
  shows "next_operator (text_of oper @ r) ns = Some (oper, r)"
  using find_text(1) [OF assms(1)] text_start [OF assms(1)] assms(2)
  by (auto simp: next_operator_def infix_opers_def list_all_iff)

lemma next_prefix:
  assumes "delimited r" and "oper \<in> set prefix_opers"
  shows "\<exists>oper'. next_operator (text_of oper @ r) ns = Some (oper', r) \<and> as_unary oper' = oper"
proof -
  have u: "as_unary TOK_SUB = TOK_UMINUS" "as_unary TOK_ADD = TOK_UPLUS" "as_unary TOK_NOT = TOK_NOT" "as_unary TOK_BNOT = TOK_BNOT"
    "as_unary TOK_LPAREN = TOK_LPAREN"
    by (simp_all add: as_unary_def tok_vals)
  have "oper = TOK_UMINUS \<or> oper = TOK_UPLUS \<or> oper = TOK_NOT \<or> oper = TOK_BNOT \<or> oper = TOK_LPAREN"
    using assms(2) by (auto simp: prefix_opers_def unary_opers_def)
  then show ?thesis using find_text [OF assms(1)] text_start [OF assms(1)] u
    by (elim disjE) (simp_all add: next_operator_def unary_opers_def)
qed

lemma scan_step_skip:
  assumes "skip_whitespace e = skip_whitespace e'"
  shows "scan_step ev n null (sc\<lparr>expr := e\<rparr>) m = scan_step ev n null (sc\<lparr>expr := e'\<rparr>) m"
  by (cases "skip_whitespace e'") (simp_all add: scan_step_def assms split_def Let_def cong: if_cong option.case_cong)

lemma scan_operator:
  assumes "oper \<in> set (infix_opers @ prefix_opers)" and "delimited r"
  shows "scan_step ev n null (sc\<lparr>expr := '' '' @ text_of oper @ r\<rparr>) m =
    (case next_operator (text_of oper @ r) (nums sc) of None \<Rightarrow> Some (Return (Some Syntax_error) (- 1) m)
     | Some (oper', r') \<Rightarrow> operator_step ev n oper' (sc\<lparr>expr := r'\<rparr>) m)"
proof -
  have "oper \<in> set (binary_opers @ unary_opers @ [TOK_CONDITIONAL, TOK_CONDITIONAL_SEP, TOK_LPAREN, TOK_RPAREN])"
    using assms(1) by (auto simp: infix_opers_def prefix_opers_def)
  then have "text_of oper \<noteq> [] \<and> (let c = hd (text_of oper) in \<not> is_white c \<and> \<not> is_name c \<and> \<not> is_digit c)"
    using text_start [OF assms(2)] unfolding list_all_iff by blast
  then obtain c s where "text_of oper = c # s" "\<not> is_white c" "\<not> is_name c" "\<not> is_digit c"
    by (cases "text_of oper") (simp_all add: Let_def)
  moreover have "is_white CHR '' ''" by (simp add: is_white_def code_def)
  ultimately show ?thesis by (simp add: scan_step_def skip_whitespace_def split_def Let_def cong: option.case_cong)
qed

section \<open>Scanning numbers and names\<close>

lemma digit_char:
  fixes d :: nat
  assumes "d < 10"
  shows "is_digit (char_of (48 + d))" and "\<not> is_name (char_of (48 + d))" and "\<not> is_white (char_of (48 + d))"
    and "hex_value (char_of (48 + d)) = d" and "char_of (48 + d) = CHR ''0'' \<longleftrightarrow> d = 0" and "char_of (48 + d) \<notin> {CHR ''x'', CHR ''X''}"
proof -
  have "d = 0 \<or> d = 1 \<or> d = 2 \<or> d = 3 \<or> d = 4 \<or> d = 5 \<or> d = 6 \<or> d = 7 \<or> d = 8 \<or> d = 9" using assms by arith
  then have "is_digit (char_of (48 + d)) \<and> \<not> is_name (char_of (48 + d)) \<and> \<not> is_white (char_of (48 + d)) \<and>
    hex_value (char_of (48 + d)) = d \<and> (char_of (48 + d) = CHR ''0'' \<longleftrightarrow> d = 0) \<and> char_of (48 + d) \<notin> {CHR ''x'', CHR ''X''}"
    by (elim disjE) (simp_all add: char_of_def bit_Suc_0_iff is_digit_def is_name_def is_alpha_def is_white_def hex_value_def code_def)
  then show "is_digit (char_of (48 + d))" and "\<not> is_name (char_of (48 + d))" and "\<not> is_white (char_of (48 + d))"
    and "hex_value (char_of (48 + d)) = d" and "char_of (48 + d) = CHR ''0'' \<longleftrightarrow> d = 0" and "char_of (48 + d) \<notin> {CHR ''x'', CHR ''X''}"
    by blast+
qed

declare decimal.simps [simp del]

lemma decimal_digits: "\<forall>c \<in> set (decimal n). \<exists>d < 10 :: nat. c = char_of (48 + d)"
proof (induction n rule: decimal.induct)
  case (1 n)
  show ?case
  proof (cases "n < 10")
    case True
    then show ?thesis by (subst decimal.simps) auto
  next
    case False
    have "\<exists>d < 10 :: nat. char_of (48 + n mod 10) = (char_of (48 + d) :: char)" by (rule exI [of _ "n mod 10"]) simp
    then show ?thesis using 1 [OF False] False by (subst decimal.simps) auto
  qed
qed

lemma decimal_all_digits: "c \<in> set (decimal n) \<Longrightarrow> is_digit c \<and> \<not> is_name c \<and> \<not> is_white c \<and> c \<noteq> CHR ''x'' \<and> c \<noteq> CHR ''X''"
proof -
  assume "c \<in> set (decimal n)"
  then obtain d :: nat where "d < 10" "c = char_of (48 + d)" using decimal_digits [of n] by blast
  then show ?thesis using digit_char [of d] by simp
qed

lemma digits_value_append: "digits_value b f (xs @ ys) n = digits_value b f ys (digits_value b f xs n)"
  by (induction b f xs n rule: digits_value.induct) simp_all

lemma decimal_value: "digits_value 10 hex_value (decimal n) 0 = n"
proof (induction n rule: decimal.induct)
  case (1 n)
  show ?case
  proof (cases "n < 10")
    case True
    then show ?thesis using digit_char(4) [of n] by (subst decimal.simps) simp
  next
    case False
    have "digits_value 10 hex_value (decimal (n div 10)) 0 = n div 10" using 1 [OF False] .
    then show ?thesis using False digit_char(4) [of "n mod 10"] by (subst decimal.simps) (simp add: digits_value_append)
  qed
qed

lemma decimal_start: "\<exists>c s. decimal n = c # s \<and> (n = 0 \<longrightarrow> s = []) \<and> (c = CHR ''0'' \<longleftrightarrow> n = 0)"
proof (induction n rule: decimal.induct)
  case (1 n)
  show ?case
  proof (cases "n < 10")
    case True
    then show ?thesis using digit_char(5) [of n] by (subst decimal.simps) simp
  next
    case False
    then show ?thesis using 1 [OF False] by (subst decimal.simps) auto
  qed
qed

lemma strtoull_decimal:
  assumes "n < 2 ^ 64" and "delimited r \<or> (\<exists>s. r = CHR '')'' # s)"
  shows "strtoull (decimal n @ r) = (of_nat n, r, False)"
proof -
  obtain c s where d: "decimal n = c # s" "n = 0 \<longrightarrow> s = []" "c = CHR ''0'' \<longleftrightarrow> n = 0" using decimal_start by blast
  have r: "takeWhile P r = []" "dropWhile P r = r" if "\<not> P CHR '' ''" "\<not> P CHR '')''" for P
    using assms(2) that by (auto simp: delimited_def)
  have nd: "\<not> is_digit CHR '' ''" "\<not> is_digit CHR '')''" "\<not> octal_digit CHR '' ''" "\<not> octal_digit CHR '')''"
    by (simp_all add: is_digit_def octal_digit_def code_def)
  have digs: "takeWhile is_digit (decimal n @ r) = decimal n" "dropWhile is_digit (decimal n @ r) = r"
    using decimal_all_digits r [of is_digit] nd by (simp_all add: takeWhile_append dropWhile_append)
  have hex: "\<not> (case decimal n @ r of a # b # c # _ \<Rightarrow> a = CHR ''0'' \<and> (b = CHR ''x'' \<or> b = CHR ''X'') \<and> hex_digit c | _ \<Rightarrow> False)"
    using d assms(2) by (auto simp: delimited_def split: list.split)
  show ?thesis
  proof (cases "n = 0")
    case True
    then have "decimal n = ''0''" using d by simp
    moreover have "octal_digit CHR ''0''" "hex_value CHR ''0'' = 0" by (simp_all add: octal_digit_def hex_value_def is_digit_def code_def)
    ultimately show ?thesis using True hex r [of octal_digit] nd by (simp add: strtoull_def Let_def)
  next
    case False
    then have "take 1 (decimal n @ r) \<noteq> ''0''" using d by simp
    then show ?thesis using hex digs assms(1) decimal_value [of n] by (simp add: strtoull_def Let_def)
  qed
qed

lemma strto_decimal:
  assumes "n < 2 ^ 64" and "delimited r \<or> (\<exists>s. r = CHR '')'' # s)"
  shows "strto_arith_t (decimal n @ r) = (of_nat n, r, False)"
  using strtoull_decimal [OF assms] assms(2) by (auto simp: strto_arith_t_def delimited_def)

definition name :: "string \<Rightarrow> bool" where
  "name x \<longleftrightarrow> (\<exists>c s. x = c # s \<and> is_name c \<and> (\<forall>b \<in> set s. is_in_name b))"

lemma endofname_name:
  assumes "name x" and "delimited r"
  shows "endofname (x @ r) = (x, r)"
proof -
  obtain c s where x: "x = c # s" "is_name c" "\<forall>b \<in> set s. is_in_name b" using assms(1) by (auto simp: name_def)
  have "\<not> is_in_name CHR '' ''" by (simp add: is_in_name_def is_alpha_def is_digit_def code_def)
  then have "takeWhile is_in_name r = []" "dropWhile is_in_name r = r" using assms(2) by (auto simp: delimited_def)
  then show ?thesis using x by (simp add: endofname_def takeWhile_append dropWhile_append)
qed

lemma name_start: "is_name c \<Longrightarrow> \<not> is_white c"
proof -
  assume "is_name c"
  have "code c \<noteq> 32" using \<open>is_name c\<close> by (auto simp: is_name_def is_alpha_def)
  moreover have "\<not> code c - 9 \<le> 4"
  proof
    assume "code c - 9 \<le> 4"
    then have "unat (code c - 9) \<in> {0, 1, 2, 3, 4}" by (auto simp: word_le_nat_alt)
    then have "code c - 9 \<in> {0, 1, 2, 3, 4}" by (auto simp: word_unat_eq_iff)
    then have "code c \<in> {9, 10, 11, 12, 13}" by (auto simp: diff_eq_eq)
    then show False using \<open>is_name c\<close> by (auto simp: is_name_def is_alpha_def)
  qed
  ultimately show ?thesis by (simp add: is_white_def)
qed

section \<open>Expressions\<close>

datatype aexp = Const nat | Name string | Unary operator aexp | Binary operator aexp aexp | Conditional aexp aexp aexp

fun wf_aexp :: "aexp \<Rightarrow> bool" where
  "wf_aexp (Const n) \<longleftrightarrow> n < 2 ^ 64" |
  "wf_aexp (Name x) \<longleftrightarrow> name x" |
  "wf_aexp (Unary oper e) \<longleftrightarrow> oper \<in> set unary_opers \<and> wf_aexp e" |
  "wf_aexp (Binary oper l r) \<longleftrightarrow> oper \<in> set binary_opers \<and> wf_aexp l \<and> wf_aexp r" |
  "wf_aexp (Conditional c a b) \<longleftrightarrow> wf_aexp c \<and> wf_aexp a \<and> wf_aexp b"

text \<open>The text of an expression in a context that binds with precedence \<open>p\<close>: parentheses only where they are needed.\<close>

definition paren :: "bool \<Rightarrow> string \<Rightarrow> string" where
  "paren b s = (if b then '' ('' @ s @ '' )'' else s)"

fun text_aexp :: "nat \<Rightarrow> aexp \<Rightarrow> string" where
  "text_aexp p (Const n) = '' '' @ decimal n" |
  "text_aexp p (Name x) = '' '' @ x" |
  "text_aexp p (Unary oper e) = '' '' @ text_of oper @ text_aexp 16 e" |
  "text_aexp p (Binary oper l r) = (let q = prec_of oper in paren (q < p)
     (text_aexp (if right_assoc q then Suc q else q) l @ '' '' @ text_of oper @ text_aexp (if right_assoc q then q else Suc q) r))" |
  "text_aexp p (Conditional c a b) = paren (4 < p) (text_aexp 5 c @ '' ?'' @ text_aexp 5 a @ '' :'' @ text_aexp 4 b)"

text \<open>The value: the operands from left to right, then the operator.  Both branches of a conditional are evaluated.\<close>

definition seq :: "(math_error + 'a) option \<Rightarrow> ('a \<Rightarrow> (math_error + 'b) option) \<Rightarrow> (math_error + 'b) option" where
  "seq r f = (case r of None \<Rightarrow> None | Some (Inl e) \<Rightarrow> Some (Inl e) | Some (Inr v) \<Rightarrow> f v)"

fun aval :: "(string \<Rightarrow> arith_t) \<Rightarrow> aexp \<Rightarrow> (math_error + arith_t) option" where
  "aval env (Const n) = Some (Inr (of_nat n))" |
  "aval env (Name x) = Some (Inr (env x))" |
  "aval env (Unary oper e) = seq (aval env e) (\<lambda>v. map_option Inr (unary_value oper v))" |
  "aval env (Binary oper l r) = seq (aval env l) (\<lambda>a. seq (aval env r) (\<lambda>b. binary_value oper a b))" |
  "aval env (Conditional c a b) = seq (aval env c) (\<lambda>x. seq (aval env a) (\<lambda>y. seq (aval env b) (\<lambda>z. Some (Inr (if x \<noteq> 0 then y else z)))))"

fun names_of :: "aexp \<Rightarrow> string set" where
  "names_of (Const n) = {}" |
  "names_of (Name x) = {x}" |
  "names_of (Unary oper e) = names_of e" |
  "names_of (Binary oper l r) = names_of l \<union> names_of r" |
  "names_of (Conditional c a b) = names_of c \<union> names_of a \<union> names_of b"

text \<open>How many numbers and operators the text has at most.\<close>

fun leaves :: "aexp \<Rightarrow> nat" where
  "leaves (Const n) = 1" |
  "leaves (Name x) = 1" |
  "leaves (Unary oper e) = leaves e" |
  "leaves (Binary oper l r) = leaves l + leaves r" |
  "leaves (Conditional c a b) = leaves c + leaves a + leaves b"

fun opers_of :: "aexp \<Rightarrow> nat" where
  "opers_of (Const n) = 0" |
  "opers_of (Name x) = 0" |
  "opers_of (Unary oper e) = Suc (opers_of e)" |
  "opers_of (Binary oper l r) = 2 + opers_of l + opers_of r" |
  "opers_of (Conditional c a b) = 3 + opers_of c + opers_of a + opers_of b"

lemma text_of_nonempty: "oper \<in> set (binary_opers @ unary_opers) \<Longrightarrow> 0 < length (text_of oper)"
  using text_start [of "[]"] by (auto simp: list_all_iff delimited_def)

lemma text_aexp_size:
  assumes "wf_aexp e"
  shows "2 * leaves e \<le> length (text_aexp p e) \<and> opers_of e \<le> length (text_aexp p e)"
  using assms
proof (induction e arbitrary: p)
  case (Const n)
  then show ?case using decimal_start [of n] by auto
next
  case (Name x)
  then show ?case by (auto simp: name_def)
next
  case (Unary oper e)
  then have "2 * leaves e \<le> length (text_aexp 16 e) \<and> opers_of e \<le> length (text_aexp 16 e)" by simp
  then show ?case by simp
next
  case (Binary oper l r)
  let ?q = "prec_of oper"
  let ?l = "text_aexp (if right_assoc ?q then Suc ?q else ?q) l" and ?r = "text_aexp (if right_assoc ?q then ?q else Suc ?q) r"
  have "2 * leaves l \<le> length ?l \<and> opers_of l \<le> length ?l" "2 * leaves r \<le> length ?r \<and> opers_of r \<le> length ?r"
    using Binary by (meson wf_aexp.simps)+
  moreover obtain k where "length (text_of oper) = Suc k" using Binary.prems text_of_nonempty [of oper] by (cases "length (text_of oper)") auto
  ultimately show ?case by (cases "right_assoc ?q") (simp_all add: Let_def paren_def)
next
  case (Conditional c a b)
  have "2 * leaves c \<le> length (text_aexp 5 c) \<and> opers_of c \<le> length (text_aexp 5 c)" "2 * leaves a \<le> length (text_aexp 5 a) \<and> opers_of a \<le> length (text_aexp 5 a)"
    "2 * leaves b \<le> length (text_aexp 4 b) \<and> opers_of b \<le> length (text_aexp 4 b)"
    using Conditional by (meson wf_aexp.simps)+
  then show ?case by (simp add: paren_def)
qed

lemma text_aexp_delimited: "delimited (text_aexp p e @ r)"
proof (induction e arbitrary: p r)
  case (Binary oper l r')
  then show ?case by (simp add: Let_def paren_def) (simp add: delimited_def)
next
  case (Conditional c a b)
  then show ?case by (simp add: paren_def) (simp add: delimited_def)
qed (simp_all add: delimited_def)

section \<open>Pending operators\<close>

definition closes :: "operator \<Rightarrow> nat \<Rightarrow> bool" where
  "closes oper p \<longleftrightarrow> oper = TOK_RPAREN \<or> prec_of oper < p \<or> prec_of oper = p \<and> \<not> right_assoc p"

definition below :: "operator list \<Rightarrow> nat \<Rightarrow> bool" where
  "below os p \<longleftrightarrow> (\<exists>prev stack. os = prev # stack \<and> (prec_of prev < p \<or> prec_of prev = p \<and> right_assoc p))"

lemma closes_mono: "closes oper p \<Longrightarrow> p \<le> p' \<Longrightarrow> closes oper p'"
  by (auto simp: closes_def)

lemma below_mono: "below os p \<Longrightarrow> p \<le> p' \<Longrightarrow> below os p'"
  by (auto simp: below_def)

lemma pop_opers_stop:
  assumes "below os p" and "p \<le> prec_of oper" and "oper \<noteq> TOK_RPAREN"
  shows "pop_opers ev oper os ns m = Some (Push os ns m)"
proof -
  obtain prev stack where os: "os = prev # stack" "prec_of prev < p \<or> prec_of prev = p \<and> right_assoc p"
    using assms(1) by (auto simp: below_def)
  then have "prec_of prev < prec_of oper \<or> prec_of prev = prec_of oper \<and> right_assoc (prec_of oper)"
    using assms(2) by auto
  then show ?thesis using assms(3) os(1) pop_cond [of prev oper] by (simp add: Let_def)
qed

lemma pop_opers_apply:
  assumes "closes oper p" and "p \<le> prec_of prev" and "prev \<noteq> TOK_LPAREN"
  shows "pop_opers ev oper (prev # os) ns m = do {
     (err, ns, m) \<leftarrow> arith_apply ev prev ns m;
     case err of Some e \<Rightarrow> Some (Fail e m) | None \<Rightarrow> pop_opers ev oper os ns m }"
proof -
  have "\<not> (oper \<noteq> TOK_RPAREN \<and> (prec_of prev < prec_of oper \<or> prec_of prev = prec_of oper \<and> right_assoc (prec_of oper)))"
    using assms(1,2) by (auto simp: closes_def)
  then show ?thesis using assms(3) unfolding pop_opers.simps Let_def pop_cond by (cases "oper = TOK_RPAREN") auto
qed

declare pop_opers.simps(2) [simp del]

section \<open>Entries of the stack\<close>

text \<open>An entry stands for a value; a name in it is resolved when it is used.\<close>

definition stands_for :: "(string \<Rightarrow> arith_t) \<Rightarrow> string set \<Rightarrow> var_or_num_t \<Rightarrow> arith_t \<Rightarrow> bool" where
  "stands_for env X t v \<longleftrightarrow> \<not> second_val_present t \<and> (case var t of None \<Rightarrow> val t = v | Some x \<Rightarrow> x \<in> X \<and> env x = v)"

definition resolves :: "'s evaluator \<Rightarrow> 's arith_state_t \<Rightarrow> (string \<Rightarrow> arith_t) \<Rightarrow> string set \<Rightarrow> bool" where
  "resolves ev m env X \<longleftrightarrow> (\<forall>t x. x \<in> X \<longrightarrow> var t = Some x \<longrightarrow> arith_lookup_val ev t m = Some (None, t\<lparr>val := env x\<rparr>, m))"

lemma lookup_stands:
  assumes "resolves ev m env X" and "stands_for env X t v"
  shows "arith_lookup_val ev t m = Some (None, t\<lparr>val := v\<rparr>, m)"
proof (cases "var t")
  case None
  then have "t\<lparr>val := v\<rparr> = t" using assms(2) by (auto simp: stands_for_def)
  then show ?thesis using None by (simp add: arith_lookup_val_def)
next
  case (Some x)
  then have "x \<in> X" "env x = v" using assms(2) by (simp_all add: stands_for_def)
  then show ?thesis using assms(1) Some by (auto simp: resolves_def)
qed

definition number :: "arith_t \<Rightarrow> var_or_num_t \<Rightarrow> var_or_num_t" where
  "number v t = t\<lparr>val := v, var := None\<rparr>"

lemma stands_number: "stands_for env X t u \<Longrightarrow> stands_for env X (number v t) v"
  by (simp add: stands_for_def number_def)

lemma apply_unary:
  assumes "resolves ev m env X" and "stands_for env X t v" and "oper \<in> set unary_opers" and "unary_value oper v = Some w"
  shows "arith_apply ev oper (t # ns) m = Some (None, number w t # ns, m)"
  using lookup_stands [OF assms(1,2)] assms(3,4) unary_opers_other
  by (auto simp: arith_apply_def arith_store_def number_def list_all_iff)

lemma apply_binary:
  assumes "resolves ev m env X" and "stands_for env X t b" and "stands_for env X l a" and "oper \<in> set binary_opers"
  shows "arith_apply ev oper (t # l # ns) m = (case binary_value oper a b of None \<Rightarrow> None
    | Some (Inl e) \<Rightarrow> Some (Some e, l\<lparr>val := a\<rparr> # ns, m) | Some (Inr v) \<Rightarrow> Some (None, number v l # ns, m))"
proof -
  have o: "\<not> is_assign_op oper" "unary_value oper b = None" "oper \<notin> {TOK_CONDITIONAL, TOK_CONDITIONAL_SEP, TOK_ASSIGN}"
    using binary_opers_other [of b] assms(4) by (auto simp: list_all_iff)
  have t: "\<not> second_val_present t" using assms(2) by (simp add: stands_for_def)
  show ?thesis using lookup_stands [OF assms(1,2)] lookup_stands [OF assms(1,3)] o t
    by (simp add: arith_apply_def arith_apply_binary_def arith_store_def number_def split: option.split sum.split)
qed

text \<open>The two halves of a conditional.\<close>

definition pair_entry :: "arith_t \<Rightarrow> arith_t \<Rightarrow> var_or_num_t \<Rightarrow> var_or_num_t" where
  "pair_entry y z t = t\<lparr>val := y, second_val_present := True, second_val := z, var := None\<rparr>"

lemma cond_not_assign: "\<not> is_assign_op TOK_CONDITIONAL" "\<not> is_assign_op TOK_CONDITIONAL_SEP" "unary_value TOK_CONDITIONAL v = None"
  "unary_value TOK_CONDITIONAL_SEP v = None" "TOK_CONDITIONAL \<noteq> TOK_CONDITIONAL_SEP" "TOK_CONDITIONAL \<noteq> TOK_ASSIGN" "TOK_CONDITIONAL_SEP \<noteq> TOK_ASSIGN"
  by (simp_all add: is_assign_op_def fix_assignment_prec_def PREC_def unary_value_def tok_vals prec_vals)

lemma apply_separator:
  assumes "resolves ev m env X" and "stands_for env X t z" and "stands_for env X l y" and "ns \<noteq> []"
  shows "arith_apply ev TOK_CONDITIONAL_SEP (t # l # ns) m = Some (None, pair_entry y z l # ns, m)"
  using lookup_stands [OF assms(1,2)] lookup_stands [OF assms(1,3)] assms(2,4) cond_not_assign
  by (simp add: arith_apply_def arith_apply_binary_def arith_store_def pair_entry_def stands_for_def)

lemma apply_conditional:
  assumes "resolves ev m env X" and "stands_for env X l x"
  shows "arith_apply ev TOK_CONDITIONAL (pair_entry y z t # l # ns) m = Some (None, number (if x \<noteq> 0 then y else z) l # ns, m)"
  using lookup_stands [OF assms] cond_not_assign
  by (simp add: arith_apply_def arith_apply_binary_def arith_store_def pair_entry_def number_def arith_lookup_val_def)

section \<open>Scanning an expression\<close>

abbreviation at_text :: "string \<Rightarrow> bool \<Rightarrow> var_or_num_t list \<Rightarrow> operator list \<Rightarrow> operator \<Rightarrow> scan" where
  "at_text e c ns os lt \<equiv> \<lparr>expr = e, closed = c, nums = ns, opers = os, lasttok = lt\<rparr>"

definition failed :: "'s arith_state_t \<Rightarrow> (math_error + arith_t) option \<Rightarrow> (arith_t \<times> 's arith_state_t) option" where
  "failed m r = (case r of Some (Inl e) \<Rightarrow> Some (- 1, m\<lparr>errmsg := Some e\<rparr>) | _ \<Rightarrow> None)"

text \<open>Behind the text, applying the pending operators leaves an entry for the value, or fails as the value does.\<close>

definition delivers ::
  "'s evaluator \<Rightarrow> 's arith_state_t \<Rightarrow> (string \<Rightarrow> arith_t) \<Rightarrow> string set \<Rightarrow> nat \<Rightarrow> operator list \<Rightarrow> var_or_num_t list \<Rightarrow>
   operator list \<Rightarrow> var_or_num_t list \<Rightarrow> (math_error + arith_t) option \<Rightarrow> bool" where
  "delivers ev m env X p os ns os' ns' r \<longleftrightarrow> (case r of
       None \<Rightarrow> \<forall>oper. closes oper p \<longrightarrow> pop_opers ev oper os' ns' m = None
     | Some (Inl e) \<Rightarrow> \<forall>oper. closes oper p \<longrightarrow> pop_opers ev oper os' ns' m = Some (Fail e m)
     | Some (Inr v) \<Rightarrow> \<exists>t. stands_for env X t v \<and> (\<forall>oper. closes oper p \<longrightarrow> pop_opers ev oper os' ns' m = pop_opers ev oper os (t # ns) m))"

lemma delivers_mono: "delivers ev m env X p' os ns os' ns' r \<Longrightarrow> p \<le> p' \<Longrightarrow> delivers ev m env X p os ns os' ns' r"
  by (auto simp: delivers_def dest: closes_mono split: option.splits sum.splits)

text \<open>The scan of a text either gets behind it or has already failed as the value does.\<close>

definition scans ::
  "'s evaluator \<Rightarrow> nat \<Rightarrow> 's arith_state_t \<Rightarrow> (string \<Rightarrow> arith_t) \<Rightarrow> string set \<Rightarrow> nat \<Rightarrow> scan \<Rightarrow> string \<Rightarrow>
   operator list \<Rightarrow> var_or_num_t list \<Rightarrow> (math_error + arith_t) option \<Rightarrow> bool" where
  "scans ev n m env X p sc r os ns res \<longleftrightarrow>
     (\<exists>os' ns'. scan_loop ev n False sc m = scan_loop ev n False (at_text r (closed sc) ns' os' TOK_NUM) m \<and> delivers ev m env X p os ns os' ns' res) \<or>
     scan_loop ev n False sc m = failed m res \<and> (\<forall>v. res \<noteq> Some (Inr v))"

lemma loop_continue: "scan_step ev n null sc m = Some (Continue sc' m') \<Longrightarrow> scan_loop ev n null sc m = scan_loop ev n null sc' m'"
  and loop_return: "scan_step ev n null sc m = Some (Return err v m') \<Longrightarrow> scan_loop ev n null sc m = Some (v, m'\<lparr>errmsg := err\<rparr>)"
  and loop_none: "scan_step ev n null sc m = None \<Longrightarrow> scan_loop ev n null sc m = None"
  by (subst scan_loop.simps, simp)+

lemma infix_prec:
  assumes "oper \<in> set binary_opers \<union> {TOK_CONDITIONAL, TOK_CONDITIONAL_SEP}"
  shows "0 < PREC oper" and "PREC oper < UNARYPREC" and "oper \<notin> {TOK_RPAREN, TOK_LPAREN, TOK_NUM, TOK_POST_INC, TOK_POST_DEC}"
    and "0 < prec_of oper" and "prec_of oper < 16" and "oper \<in> set infix_opers"
proof -
  have "list_all (\<lambda>oper. 0 < PREC oper \<and> PREC oper < UNARYPREC \<and> oper \<notin> {TOK_RPAREN, TOK_LPAREN, TOK_NUM, TOK_POST_INC, TOK_POST_DEC} \<and>
      0 < prec_of oper \<and> prec_of oper < 16 \<and> oper \<in> set infix_opers) (binary_opers @ [TOK_CONDITIONAL, TOK_CONDITIONAL_SEP])"
    by (simp add: binary_opers_def infix_opers_def prec_of_def fix_assignment_prec_def PREC_def tok_vals prec_vals)
  then show "0 < PREC oper" and "PREC oper < UNARYPREC" and "oper \<notin> {TOK_RPAREN, TOK_LPAREN, TOK_NUM, TOK_POST_INC, TOK_POST_DEC}"
    and "0 < prec_of oper" and "prec_of oper < 16" and "oper \<in> set infix_opers"
    using assms by (auto simp: list_all_iff)
qed

lemma num_not_post: "TOK_NUM \<noteq> TOK_POST_INC" "TOK_NUM \<noteq> TOK_POST_DEC" "TOK_LPAREN \<noteq> TOK_RPAREN" "TOK_LPAREN \<noteq> TOK_NUM"
  "PREC TOK_LPAREN = 0" "PREC TOK_RPAREN = SPEC_PREC" "prec_of TOK_LPAREN = 0"
  by (simp_all add: tok_vals prec_vals PREC_def prec_of_def fix_assignment_prec_def)

text \<open>An infix operator ends the expression in front of it.\<close>

lemma scan_infix:
  assumes "oper \<in> set binary_opers \<union> {TOK_CONDITIONAL, TOK_CONDITIONAL_SEP}" and "delimited r" and "closes oper p"
    and "delivers ev m env X p os ns os' ns' res" and "below os q" and "q \<le> prec_of oper" and "length os < n"
  shows "case res of Some (Inr v) \<Rightarrow> \<exists>t. stands_for env X t v \<and>
      scan_loop ev n False (at_text ('' '' @ text_of oper @ r) c ns' os' TOK_NUM) m = scan_loop ev n False (at_text r c (t # ns) (oper # os) oper) m
    | _ \<Rightarrow> scan_loop ev n False (at_text ('' '' @ text_of oper @ r) c ns' os' TOK_NUM) m = failed m res"
proof -
  let ?sc = "at_text ('' '' @ text_of oper @ r) c ns' os' TOK_NUM"
  note o = infix_prec [OF assms(1)]
  have step: "scan_step ev n False ?sc m = operator_step ev n oper (at_text r c ns' os' TOK_NUM) m"
    using scan_operator [of oper r ev n False ?sc m] next_infix [OF assms(2) o(6)] o(6) assms(2) by simp
  have oper_step: "operator_step ev n oper (at_text r c ns' os' TOK_NUM) m = do {
           r' \<leftarrow> pop_opers ev oper os' ns' m;
           case r' of Fail e m \<Rightarrow> Some (Return (Some e) (- 1) m)
           | Closed stack ns m \<Rightarrow> Some (Continue (at_text r c ns stack TOK_NUM) m)
           | Push stack ns m \<Rightarrow> do {
               sc \<leftarrow> push_oper n oper (at_text r c ns stack TOK_NUM);
               Some (Continue sc m) } }"
    using o(1,2) num_not_post by (simp add: operator_step_def Let_def)
  show ?thesis
  proof (cases res)
    case None
    then have "pop_opers ev oper os' ns' m = None" using assms(3,4) by (simp add: delivers_def)
    then show ?thesis using None step oper_step by (simp add: loop_none failed_def)
  next
    case (Some x)
    show ?thesis
    proof (cases x)
      case (Inl e)
      then have "pop_opers ev oper os' ns' m = Some (Fail e m)" using Some assms(3,4) by (simp add: delivers_def)
      then show ?thesis using Some Inl step oper_step by (simp add: loop_return failed_def)
    next
      case (Inr v)
      then obtain t where t: "stands_for env X t v" "pop_opers ev oper os' ns' m = pop_opers ev oper os (t # ns) m"
        using Some assms(3,4) by (auto simp: delivers_def)
      have "pop_opers ev oper os (t # ns) m = Some (Push os (t # ns) m)" by (rule pop_opers_stop [OF assms(5,6)]) (use o(3) in simp)
      then have "scan_step ev n False ?sc m = Some (Continue (at_text r c (t # ns) (oper # os) oper) m)"
        using step oper_step t(2) assms(7) by (simp add: push_oper_def)
      then show ?thesis using Some Inr t(1) by (auto dest!: loop_continue)
    qed
  qed
qed

lemma prefix_prec:
  assumes "oper \<in> set prefix_opers"
  shows "\<not> (0 < PREC oper \<and> PREC oper < UNARYPREC \<or> PREC oper = SPEC_PREC)" and "oper \<notin> {TOK_NUM, TOK_POST_INC, TOK_POST_DEC}"
proof -
  have "list_all (\<lambda>oper. \<not> (0 < PREC oper \<and> PREC oper < UNARYPREC \<or> PREC oper = SPEC_PREC) \<and>
      oper \<notin> {TOK_NUM, TOK_POST_INC, TOK_POST_DEC}) prefix_opers"
    by (simp add: prefix_opers_def unary_opers_def PREC_def tok_vals prec_vals)
  then show "\<not> (0 < PREC oper \<and> PREC oper < UNARYPREC \<or> PREC oper = SPEC_PREC)" and "oper \<notin> {TOK_NUM, TOK_POST_INC, TOK_POST_DEC}"
    using assms by (auto simp: list_all_iff)
qed

lemma scan_prefix:
  assumes "oper \<in> set prefix_opers" and "delimited r" and "lt \<notin> {TOK_NUM, TOK_POST_INC, TOK_POST_DEC}" and "length os < n"
  shows "scan_loop ev n False (at_text ('' '' @ text_of oper @ r) c ns os lt) m = scan_loop ev n False (at_text r c ns (oper # os) oper) m"
proof -
  obtain oper' where o: "next_operator (text_of oper @ r) ns = Some (oper', r)" "as_unary oper' = oper"
    using next_prefix [OF assms(2,1)] by blast
  have "scan_step ev n False (at_text ('' '' @ text_of oper @ r) c ns os lt) m = operator_step ev n oper' (at_text r c ns os lt) m"
    using scan_operator [of oper r ev n False "at_text ('' '' @ text_of oper @ r) c ns os lt" m] o(1) assms(1,2) by simp
  also have "\<dots> = Some (Continue (at_text r c ns (oper # os) oper) m)"
    using assms(3,4) o(2) prefix_prec [OF assms(1)] by (auto simp: operator_step_def push_oper_def Let_def)
  finally show ?thesis by (rule loop_continue)
qed

text \<open>A closing parenthesis resolves a name.\<close>

lemma scan_rparen:
  assumes "delimited r" and "closes TOK_RPAREN p" and "delivers ev m env X p (TOK_LPAREN # os) ns os' ns' res" and "resolves ev m env X"
  shows "case res of Some (Inr v) \<Rightarrow> \<exists>t. stands_for env X t v \<and> var t = None \<and>
      scan_loop ev n False (at_text ('' )'' @ r) c ns' os' TOK_NUM) m = scan_loop ev n False (at_text r c (t # ns) os TOK_NUM) m
    | _ \<Rightarrow> scan_loop ev n False (at_text ('' )'' @ r) c ns' os' TOK_NUM) m = failed m res"
proof -
  let ?sc = "at_text ('' )'' @ r) c ns' os' TOK_NUM"
  have i: "TOK_RPAREN \<in> set infix_opers" and tx: "text_of TOK_RPAREN = '')''" by (simp_all add: infix_opers_def text_simps)
  have step: "scan_step ev n False ?sc m = operator_step ev n TOK_RPAREN (at_text r c ns' os' TOK_NUM) m"
    using scan_operator [of TOK_RPAREN r ev n False ?sc m] next_infix [OF assms(1) i] i assms(1) by (simp add: tx)
  have oper_step: "operator_step ev n TOK_RPAREN (at_text r c ns' os' TOK_NUM) m = do {
           r' \<leftarrow> pop_opers ev TOK_RPAREN os' ns' m;
           case r' of Fail e m \<Rightarrow> Some (Return (Some e) (- 1) m)
           | Closed stack ns m \<Rightarrow> Some (Continue (at_text r c ns stack TOK_NUM) m)
           | Push stack ns m \<Rightarrow> do {
               sc \<leftarrow> push_oper n TOK_RPAREN (at_text r c ns stack TOK_NUM);
               Some (Continue sc m) } }"
    using num_not_post by (simp add: operator_step_def Let_def)
  show ?thesis
  proof (cases res)
    case None
    then have "pop_opers ev TOK_RPAREN os' ns' m = None" using assms(2,3) by (simp add: delivers_def)
    then show ?thesis using None step oper_step by (simp add: loop_none failed_def)
  next
    case (Some x)
    show ?thesis
    proof (cases x)
      case (Inl e)
      then have "pop_opers ev TOK_RPAREN os' ns' m = Some (Fail e m)" using Some assms(2,3) by (simp add: delivers_def)
      then show ?thesis using Some Inl step oper_step by (simp add: loop_return failed_def)
    next
      case (Inr v)
      then obtain t where t: "stands_for env X t v" "pop_opers ev TOK_RPAREN os' ns' m = pop_opers ev TOK_RPAREN (TOK_LPAREN # os) (t # ns) m"
        using Some assms(2,3) by (auto simp: delivers_def)
      have "\<exists>t'. stands_for env X t' v \<and> var t' = None \<and> pop_opers ev TOK_RPAREN (TOK_LPAREN # os) (t # ns) m = Some (Closed os (t' # ns) m)"
      proof (cases "var t")
        case None
        then show ?thesis using t(1) by (simp add: pop_opers.simps(2) Let_def)
      next
        case (Some x)
        then show ?thesis using lookup_stands [OF assms(4) t(1)] stands_number [OF t(1), of v]
          by (auto simp: pop_opers.simps(2) Let_def number_def)
      qed
      then obtain t' where t': "stands_for env X t' v" "var t' = None" "scan_step ev n False ?sc m = Some (Continue (at_text r c (t' # ns) os TOK_NUM) m)"
        using step oper_step t(2) by auto
      then show ?thesis using Some Inr by (auto dest!: loop_continue)
    qed
  qed
qed

text \<open>A text of \<open>k\<close> numbers and \<open>j\<close> operators is scanned with the value \<open>v\<close> wherever an operand may stand.\<close>

definition scannable ::
  "'s evaluator \<Rightarrow> nat \<Rightarrow> 's arith_state_t \<Rightarrow> (string \<Rightarrow> arith_t) \<Rightarrow> string set \<Rightarrow> nat \<Rightarrow> string \<Rightarrow> nat \<Rightarrow> nat \<Rightarrow> (math_error + arith_t) option \<Rightarrow> bool" where
  "scannable ev n m env X p s k j v \<longleftrightarrow> (\<forall>c os ns lt r. (p \<le> 15 \<longrightarrow> below os p) \<longrightarrow> lt \<notin> {TOK_NUM, TOK_POST_INC, TOK_POST_DEC} \<longrightarrow>
     delimited r \<longrightarrow> length ns + k \<le> n div 2 \<longrightarrow> length os + j \<le> n \<longrightarrow> scans ev n m env X p (at_text (s @ r) c ns os lt) r os ns v)"

lemma scannable_more: "scannable ev n m env X p s k j v \<Longrightarrow> j \<le> j' \<Longrightarrow> scannable ev n m env X p s k j' v"
  by (simp add: scannable_def)

lemma scans_via:
  assumes "scan_loop ev n False sc m = scan_loop ev n False sc' m" and "closed sc' = closed sc" and "scans ev n m env X p' sc' r os1 ns1 v"
    and "\<And>os' ns'. delivers ev m env X p' os1 ns1 os' ns' v \<Longrightarrow> delivers ev m env X p os ns os' ns' v'"
    and "(\<forall>a. v \<noteq> Some (Inr a)) \<Longrightarrow> v' = v"
  shows "scans ev n m env X p sc r os ns v'"
proof (cases "\<exists>os' ns'. scan_loop ev n False sc' m = scan_loop ev n False (at_text r (closed sc') ns' os' TOK_NUM) m \<and> delivers ev m env X p' os1 ns1 os' ns' v")
  case True
  then show ?thesis using assms(1,2,4) unfolding scans_def by metis
next
  case False
  then have "scan_loop ev n False sc' m = failed m v" "\<forall>a. v \<noteq> Some (Inr a)" using assms(3) unfolding scans_def by blast+
  then show ?thesis using assms(1,5) by (simp add: scans_def)
qed

lemma scans_entry:
  assumes "scan_step ev n False sc m = Some (Continue (at_text r (closed sc) (t # ns) os TOK_NUM) m)" and "stands_for env X t v"
  shows "scans ev n m env X p sc r os ns (Some (Inr v))"
  using loop_continue [OF assms(1)] assms(2) by (auto simp: scans_def delivers_def)

lemma scannable_const:
  assumes "a < 2 ^ 64"
  shows "scannable ev n m env X p ('' '' @ decimal a) 1 0 (Some (Inr (of_nat a)))"
  unfolding scannable_def
proof (intro allI impI)
  fix c os ns lt r
  assume r: "delimited r" and len: "length (ns :: var_or_num_t list) + 1 \<le> n div 2"
  obtain b s where d: "decimal a = b # s" using decimal_start by blast
  then have b: "is_digit b" "\<not> is_name b" "\<not> is_white b" using decimal_all_digits [of b a] by simp_all
  have w: "is_white CHR '' ''" by (simp add: is_white_def code_def)
  let ?t = "\<lparr>val = of_nat a, second_val = 0, second_val_present = False, var = None\<rparr>"
  have st: "strto_arith_t (decimal a @ r) = (of_nat a, r, False)" using strto_decimal [OF assms] r by blast
  have "scan_step ev n False (at_text (('' '' @ decimal a) @ r) c ns os lt) m = Some (Continue (at_text r c (?t # ns) os TOK_NUM) m)"
    using st b w len by (simp add: scan_step_def skip_whitespace_def d push_num_def Let_def)
  then show "scans ev n m env X p (at_text (('' '' @ decimal a) @ r) c ns os lt) r os ns (Some (Inr (of_nat a)))"
    by (intro scans_entry [where t = ?t]) (simp_all add: stands_for_def)
qed

lemma scannable_name:
  assumes "name x" and "x \<in> X"
  shows "scannable ev n m env X p ('' '' @ x) 1 0 (Some (Inr (env x)))"
  unfolding scannable_def
proof (intro allI impI)
  fix c os ns lt r
  assume r: "delimited r" and len: "length (ns :: var_or_num_t list) + 1 \<le> n div 2"
  obtain b s where d: "x = b # s" "is_name b" using assms(1) by (auto simp: name_def)
  have w: "is_white CHR '' ''" "\<not> is_white b" using name_start [OF d(2)] by (simp_all add: is_white_def code_def)
  let ?t = "\<lparr>val = 0, second_val = 0, second_val_present = False, var = Some x\<rparr>"
  have "scan_step ev n False (at_text (('' '' @ x) @ r) c ns os lt) m = Some (Continue (at_text r c (?t # ns) os TOK_NUM) m)"
    using endofname_name [OF assms(1) r] w d len by (simp add: scan_step_def skip_whitespace_def push_num_def Let_def)
  then show "scans ev n m env X p (at_text (('' '' @ x) @ r) c ns os lt) r os ns (Some (Inr (env x)))"
    by (intro scans_entry [where t = ?t]) (simp_all add: stands_for_def assms(2))
qed

lemma scannable_unary:
  assumes "scannable ev n m env X 16 s k j v" and "oper \<in> set unary_opers" and "resolves ev m env X" and "\<And>r. delimited (s @ r)" and "p \<le> 16"
  shows "scannable ev n m env X p ('' '' @ text_of oper @ s) k (Suc j) (seq v (\<lambda>a. map_option Inr (unary_value oper a)))" (is "scannable _ _ _ _ _ _ _ _ _ ?v")
  unfolding scannable_def
proof (intro allI impI)
  fix c os ns lt r
  assume lt: "lt \<notin> {TOK_NUM, TOK_POST_INC, TOK_POST_DEC}" and r: "delimited r" and len: "length (ns :: var_or_num_t list) + k \<le> n div 2" "length (os :: operator list) + Suc j \<le> n"
  let ?sc = "at_text (('' '' @ text_of oper @ s) @ r) c ns os lt"
  have pre: "oper \<in> set prefix_opers" using assms(2) by (simp add: prefix_opers_def)
  have o: "15 < prec_of oper" "oper \<noteq> TOK_LPAREN" and nz: "unary_value oper a \<noteq> None" for a
    using unary_opers_prec unary_opers_other [of a] assms(2) by (auto simp: list_all_iff)
  have go: "scan_loop ev n False ?sc m = scan_loop ev n False (at_text (s @ r) c ns (oper # os) oper) m"
    using scan_prefix [where r = "s @ r" and os = os and n = n, OF pre assms(4) lt] len(2) by simp
  have sc: "scans ev n m env X 16 (at_text (s @ r) c ns (oper # os) oper) r (oper # os) ns v"
    using assms(1) r len prefix_prec(2) [OF pre] by (auto simp: scannable_def)
  have del: "delivers ev m env X p os ns os' ns' ?v" if d: "delivers ev m env X 16 (oper # os) ns os' ns' v" for os' ns'
  proof -
    have cl: "closes oper' 16" if "closes oper' p" for oper' using closes_mono [OF that assms(5)] .
    have "pop_opers ev oper' (oper # os) (t # ns) m = pop_opers ev oper' os (number w t # ns) m"
      if "closes oper' p" "stands_for env X t a" "unary_value oper a = Some w" for oper' t a w
      using pop_opers_apply [OF that(1), of oper ev os "t # ns" m] apply_unary [OF assms(3) that(2) assms(2) that(3)] o assms(5) by simp
    then show ?thesis using d cl nz
      by (fastforce simp: delivers_def seq_def intro: stands_number split: option.splits sum.splits)
  qed
  show "scans ev n m env X p ?sc r os ns ?v"
    by (rule scans_via [OF go _ sc del]) (auto simp: seq_def split: option.splits sum.splits)
qed

lemma seq_error: "(\<forall>a. v \<noteq> Some (Inr a)) \<Longrightarrow> seq v f = (case v of Some (Inl e) \<Rightarrow> Some (Inl e) | _ \<Rightarrow> None)"
  by (auto simp: seq_def split: option.splits sum.splits)

lemma scans_failed: "scan_loop ev n False sc m = failed m v \<Longrightarrow> \<forall>a. v \<noteq> Some (Inr a) \<Longrightarrow> scans ev n m env X p sc r os ns (seq v f)"
  by (auto simp: scans_def seq_def failed_def split: option.splits sum.splits)

text \<open>An operand and the infix operator behind it.\<close>

lemma scans_then:
  assumes "scans ev n m env X p' sc ('' '' @ text_of oper @ s @ r) os ns v" and "oper \<in> set binary_opers \<union> {TOK_CONDITIONAL, TOK_CONDITIONAL_SEP}"
    and "delimited (s @ r)" and "closes oper p'" and "below os q" and "q \<le> prec_of oper" and "length os < n"
    and "\<And>a t. v = Some (Inr a) \<Longrightarrow> stands_for env X t a \<Longrightarrow>
      scans ev n m env X p (at_text (s @ r) (closed sc) (t # ns) (oper # os) oper) r os0 ns0 (f a)"
  shows "scans ev n m env X p sc r os0 ns0 (seq v f)"
proof -
  consider (got) os' ns' where "scan_loop ev n False sc m = scan_loop ev n False (at_text ('' '' @ text_of oper @ s @ r) (closed sc) ns' os' TOK_NUM) m"
      "delivers ev m env X p' os ns os' ns' v"
    | (bad) "scan_loop ev n False sc m = failed m v" "\<forall>a. v \<noteq> Some (Inr a)"
    using assms(1) by (auto simp: scans_def)
  then show ?thesis
  proof cases
    case bad
    then show ?thesis by (rule scans_failed)
  next
    case got
    note i = scan_infix [OF assms(2,3,4) got(2) assms(5,6,7), of "closed sc"]
    show ?thesis
    proof (cases "\<exists>a. v = Some (Inr a)")
      case True
      then obtain a t where a: "v = Some (Inr a)" "stands_for env X t a"
        "scan_loop ev n False sc m = scan_loop ev n False (at_text (s @ r) (closed sc) (t # ns) (oper # os) oper) m"
        using i got(1) by auto
      have "seq v f = f a" using a(1) by (simp add: seq_def)
      then show ?thesis using scans_via [OF a(3) _ assms(8) [OF a(1,2)]] by simp
    next
      case False
      then have "scan_loop ev n False sc m = failed m v" using i got(1) by (auto split: option.splits sum.splits)
      then show ?thesis using False by (intro scans_failed) auto
    qed
  qed
qed

lemma scannable_binary:
  assumes "scannable ev n m env X (if right_assoc q then Suc q else q) s1 k1 j1 v1" and "scannable ev n m env X (if right_assoc q then q else Suc q) s2 k2 j2 v2"
    and "oper \<in> set binary_opers" and "q = prec_of oper" and "resolves ev m env X" and "\<And>r. delimited (s2 @ r)" and "p \<le> q" and "0 < k1"
  shows "scannable ev n m env X p (s1 @ '' '' @ text_of oper @ s2) (k1 + k2) (Suc (j1 + j2)) (seq v1 (\<lambda>a. seq v2 (\<lambda>b. binary_value oper a b)))"
  unfolding scannable_def
proof (intro allI impI)
  fix c os ns lt r
  assume be: "p \<le> 15 \<longrightarrow> below os p" and lt: "lt \<notin> {TOK_NUM, TOK_POST_INC, TOK_POST_DEC}" and r: "delimited r"
    and len: "length (ns :: var_or_num_t list) + (k1 + k2) \<le> n div 2" "length (os :: operator list) + Suc (j1 + j2) \<le> n"
  let ?p1 = "if right_assoc q then Suc q else q" and ?p2 = "if right_assoc q then q else Suc q"
  let ?sc = "at_text ((s1 @ '' '' @ text_of oper @ s2) @ r) c ns os lt"
  note o = infix_prec [of oper]
  have q: "q < 16" "oper \<notin> {TOK_RPAREN, TOK_LPAREN, TOK_NUM, TOK_POST_INC, TOK_POST_DEC}" using o(3,5) assms(3,4) by auto
  have be': "below os p" using be q(1) assms(7) by simp
  have d: "delimited ('' '' @ text_of oper @ s2 @ r)" by (simp add: delimited_def)
  have s1: "scans ev n m env X ?p1 ?sc ('' '' @ text_of oper @ s2 @ r) os ns v1"
    using assms(1) be' below_mono [OF be', of ?p1] lt d len assms(7) by (auto simp: scannable_def)
  have cl: "closes oper ?p1" using assms(4) by (auto simp: closes_def)
  show "scans ev n m env X p ?sc r os ns (seq v1 (\<lambda>a. seq v2 (\<lambda>b. binary_value oper a b)))"
  proof (rule scans_then [OF s1 _ assms(6) cl be'])
    fix a t
    assume a: "stands_for env X t a"
    have be2: "below (oper # os) ?p2" using assms(4) by (auto simp: below_def)
    have s2: "scans ev n m env X ?p2 (at_text (s2 @ r) c (t # ns) (oper # os) oper) r (oper # os) (t # ns) v2"
      using assms(2,8) be2 q(2) r len by (auto simp: scannable_def)
    have deliv: "delivers ev m env X p os ns os' ns' (seq v2 (\<lambda>b. binary_value oper a b))"
      if del: "delivers ev m env X ?p2 (oper # os) (t # ns) os' ns' v2" for os' ns'
    proof -
      have c2: "closes oper' ?p2" if "closes oper' p" for oper'
        using that assms(7) by (auto simp: closes_def)
      have pop: "pop_opers ev oper' (oper # os) (u # t # ns) m = (case binary_value oper a b of None \<Rightarrow> None
          | Some (Inl e) \<Rightarrow> Some (Fail e m) | Some (Inr w) \<Rightarrow> pop_opers ev oper' os (number w t # ns) m)"
        if "closes oper' p" "stands_for env X u b" for oper' u b
        using pop_opers_apply [OF that(1), of oper ev os "u # t # ns" m] apply_binary [OF assms(5) that(2) a assms(3)] q(2) assms(4,7)
        by (simp split: option.splits sum.splits)
      show ?thesis
      proof (cases "\<exists>b. v2 = Some (Inr b)")
        case False
        then show ?thesis using del c2 by (auto simp: delivers_def seq_def split: option.splits sum.splits)
      next
        case True
        then obtain b u where b: "v2 = Some (Inr b)" "stands_for env X u b"
          "\<And>oper'. closes oper' ?p2 \<Longrightarrow> pop_opers ev oper' os' ns' m = pop_opers ev oper' (oper # os) (u # t # ns) m"
          using del by (auto simp: delivers_def)
        have "pop_opers ev oper' os' ns' m = (case binary_value oper a b of None \<Rightarrow> None
          | Some (Inl e) \<Rightarrow> Some (Fail e m) | Some (Inr w) \<Rightarrow> pop_opers ev oper' os (number w t # ns) m)" if "closes oper' p" for oper'
          using b(3) [OF c2 [OF that]] pop [OF that b(2)] by simp
        then show ?thesis using b(1) stands_number [OF a]
          by (auto simp: delivers_def seq_def split: option.splits sum.splits)
      qed
    qed
    have "scans ev n m env X p (at_text (s2 @ r) c (t # ns) (oper # os) oper) r os ns (seq v2 (\<lambda>b. binary_value oper a b))"
      by (rule scans_via [OF refl refl s2 deliv]) (auto simp: seq_def split: option.splits sum.splits)
    then show "scans ev n m env X p (at_text (s2 @ r) (closed ?sc) (t # ns) (oper # os) oper) r os ns (seq v2 (\<lambda>b. binary_value oper a b))"
      by simp
  qed (use assms(3,4,7) len in auto)
qed

lemma cond_prec: "prec_of TOK_CONDITIONAL = 4" "prec_of TOK_CONDITIONAL_SEP = 4" "right_assoc 4" "\<not> right_assoc 5"
  by (simp_all add: prec_of_def fix_assignment_prec_def PREC_def tok_vals right_assoc_def)

lemma scannable_conditional:
  assumes "scannable ev n m env X 5 s1 k1 j1 v1" and "scannable ev n m env X 5 s2 k2 j2 v2" and "scannable ev n m env X 4 s3 k3 j3 v3"
    and "resolves ev m env X" and "\<And>r. delimited (s2 @ r)" and "\<And>r. delimited (s3 @ r)" and "p \<le> 4" and "0 < k1" and "0 < k2"
  shows "scannable ev n m env X p (s1 @ '' ?'' @ s2 @ '' :'' @ s3) (k1 + k2 + k3) (2 + (j1 + j2 + j3))
    (seq v1 (\<lambda>x. seq v2 (\<lambda>y. seq v3 (\<lambda>z. Some (Inr (if x \<noteq> 0 then y else z))))))"
  unfolding scannable_def
proof (intro allI impI)
  fix c os ns lt r
  assume be: "p \<le> 15 \<longrightarrow> below os p" and lt: "lt \<notin> {TOK_NUM, TOK_POST_INC, TOK_POST_DEC}" and r: "delimited r"
    and len: "length (ns :: var_or_num_t list) + (k1 + k2 + k3) \<le> n div 2" "length (os :: operator list) + (2 + (j1 + j2 + j3)) \<le> n"
  let ?sc = "at_text ((s1 @ '' ?'' @ s2 @ '' :'' @ s3) @ r) c ns os lt"
  have not: "TOK_CONDITIONAL \<notin> {TOK_RPAREN, TOK_LPAREN, TOK_NUM, TOK_POST_INC, TOK_POST_DEC}"
    "TOK_CONDITIONAL_SEP \<notin> {TOK_RPAREN, TOK_LPAREN, TOK_NUM, TOK_POST_INC, TOK_POST_DEC}"
    by (simp_all add: tok_vals)
  have tx: "text_of TOK_CONDITIONAL = ''?''" "text_of TOK_CONDITIONAL_SEP = '':''" using text_simps by auto
  have be1: "below os p" using be assms(7) by simp
  have d: "delimited ('' ?'' @ s)" "delimited ('' :'' @ s)" for s by (simp_all add: delimited_def)
  have s1: "scans ev n m env X 5 ?sc ('' '' @ text_of TOK_CONDITIONAL @ (s2 @ '' :'' @ s3) @ r) os ns v1"
    using assms(1) below_mono [OF be1, of 5] lt d len assms(7) by (auto simp: scannable_def tx)
  show "scans ev n m env X p ?sc r os ns (seq v1 (\<lambda>x. seq v2 (\<lambda>y. seq v3 (\<lambda>z. Some (Inr (if x \<noteq> 0 then y else z))))))"
  proof (rule scans_then [OF s1 _ _ _ be1])
    fix x tc
    assume x: "stands_for env X tc x"
    let ?os = "TOK_CONDITIONAL # os"
    have be2: "below ?os 5" "below ?os 4" by (simp_all add: below_def cond_prec)
    have s2: "scans ev n m env X 5 (at_text (s2 @ '' '' @ text_of TOK_CONDITIONAL_SEP @ s3 @ r) c (tc # ns) ?os TOK_CONDITIONAL)
        ('' '' @ text_of TOK_CONDITIONAL_SEP @ s3 @ r) ?os (tc # ns) v2"
      using assms(2,8) be2 not d len by (auto simp: scannable_def tx)
    have "scans ev n m env X p (at_text (s2 @ '' '' @ text_of TOK_CONDITIONAL_SEP @ s3 @ r) c (tc # ns) ?os TOK_CONDITIONAL) r os ns
        (seq v2 (\<lambda>y. seq v3 (\<lambda>z. Some (Inr (if x \<noteq> 0 then y else z)))))"
    proof (rule scans_then [OF s2 _ assms(6) _ be2(2)])
      fix y ta
      assume y: "stands_for env X ta y"
      let ?os2 = "TOK_CONDITIONAL_SEP # ?os"
      have be3: "below ?os2 4" by (simp add: below_def cond_prec)
      have s3: "scans ev n m env X 4 (at_text (s3 @ r) c (ta # tc # ns) ?os2 TOK_CONDITIONAL_SEP) r ?os2 (ta # tc # ns) v3"
        using assms(3,8,9) be3 not r len by (auto simp: scannable_def)
      have pop: "pop_opers ev oper ?os2 (tb # ta # tc # ns) m = pop_opers ev oper os (number (if x \<noteq> 0 then y else z) tc # ns) m"
        if "closes oper p" "stands_for env X tb z" for oper tb z
      proof -
        have cl: "closes oper 4" by (rule closes_mono [OF that(1) assms(7)])
        have "pop_opers ev oper ?os2 (tb # ta # tc # ns) m = pop_opers ev oper ?os (pair_entry y z ta # tc # ns) m"
          using pop_opers_apply [OF cl, of TOK_CONDITIONAL_SEP ev ?os "tb # ta # tc # ns" m] apply_separator [OF assms(4) that(2) y, of "tc # ns"] not cond_prec by simp
        also have "\<dots> = pop_opers ev oper os (number (if x \<noteq> 0 then y else z) tc # ns) m"
          using pop_opers_apply [OF cl, of TOK_CONDITIONAL ev os "pair_entry y z ta # tc # ns" m] apply_conditional [OF assms(4) x, of y z ta ns] not cond_prec by simp
        finally show ?thesis .
      qed
      have deliv: "delivers ev m env X p os ns os' ns' (seq v3 (\<lambda>z. Some (Inr (if x \<noteq> 0 then y else z))))"
        if del: "delivers ev m env X 4 ?os2 (ta # tc # ns) os' ns' v3" for os' ns'
        using del closes_mono [OF _ assms(7)] pop stands_number [OF x]
        by (fastforce simp: delivers_def seq_def split: option.splits sum.splits)
      have "scans ev n m env X p (at_text (s3 @ r) c (ta # tc # ns) ?os2 TOK_CONDITIONAL_SEP) r os ns (seq v3 (\<lambda>z. Some (Inr (if x \<noteq> 0 then y else z))))"
        by (rule scans_via [OF refl refl s3 deliv]) (auto simp: seq_def split: option.splits sum.splits)
      then show "scans ev n m env X p (at_text (s3 @ r) (closed (at_text (s2 @ '' '' @ text_of TOK_CONDITIONAL_SEP @ s3 @ r) c (tc # ns) ?os TOK_CONDITIONAL))
          (ta # tc # ns) ?os2 TOK_CONDITIONAL_SEP) r os ns (seq v3 (\<lambda>z. Some (Inr (if x \<noteq> 0 then y else z))))"
        by simp
    qed (use len cond_prec in \<open>auto simp: closes_def\<close>)
    then show "scans ev n m env X p (at_text ((s2 @ '' :'' @ s3) @ r) (closed ?sc) (tc # ns) ?os TOK_CONDITIONAL) r os ns
        (seq v2 (\<lambda>y. seq v3 (\<lambda>z. Some (Inr (if x \<noteq> 0 then y else z)))))"
      by (simp add: tx)
  qed (use assms(5,7) len cond_prec in \<open>auto simp: closes_def\<close>)
qed

lemma scannable_paren:
  assumes "scannable ev n m env X p s k j v" and "resolves ev m env X" and "0 < p" and "\<And>r. delimited (s @ r)"
  shows "scannable ev n m env X p' ('' ('' @ s @ '' )'') k (Suc j) v"
  unfolding scannable_def
proof (intro allI impI)
  fix c os ns lt r
  assume lt: "lt \<notin> {TOK_NUM, TOK_POST_INC, TOK_POST_DEC}" and r: "delimited r"
    and len: "length (ns :: var_or_num_t list) + k \<le> n div 2" "length (os :: operator list) + Suc j \<le> n"
  let ?sc = "at_text (('' ('' @ s @ '' )'') @ r) c ns os lt"
  have tx: "text_of TOK_LPAREN = ''(''" using text_simps by auto
  have go: "scan_loop ev n False ?sc m = scan_loop ev n False (at_text (s @ '' )'' @ r) c ns (TOK_LPAREN # os) TOK_LPAREN) m"
    using scan_prefix [where oper = TOK_LPAREN and r = "s @ '' )'' @ r" and os = os and n = n, OF _ assms(4) lt] len(2)
    by (simp add: tx prefix_opers_def)
  have be: "below (TOK_LPAREN # os) p" using assms(3) num_not_post by (simp add: below_def)
  have d: "delimited ('' )'' @ r)" by (simp add: delimited_def)
  have l: "TOK_LPAREN \<notin> {TOK_NUM, TOK_POST_INC, TOK_POST_DEC}" by (simp add: tok_vals)
  have "scans ev n m env X p (at_text (s @ '' )'' @ r) c ns (TOK_LPAREN # os) TOK_LPAREN) ('' )'' @ r) (TOK_LPAREN # os) ns v"
    using assms(1) be l d len by (auto simp: scannable_def)
  then consider (got) os' ns' where "scan_loop ev n False ?sc m = scan_loop ev n False (at_text ('' )'' @ r) c ns' os' TOK_NUM) m"
      "delivers ev m env X p (TOK_LPAREN # os) ns os' ns' v"
    | (bad) "scan_loop ev n False ?sc m = failed m v" "\<forall>a. v \<noteq> Some (Inr a)"
    using go by (auto simp: scans_def)
  then show "scans ev n m env X p' ?sc r os ns v"
  proof cases
    case bad
    then show ?thesis by (simp add: scans_def)
  next
    case got
    have cl: "closes TOK_RPAREN p" by (simp add: closes_def)
    note i = scan_rparen [OF r cl got(2) assms(2), of n c]
    show ?thesis
    proof (cases "\<exists>a. v = Some (Inr a)")
      case True
      then obtain a t where a: "v = Some (Inr a)" "stands_for env X t a"
        "scan_loop ev n False ?sc m = scan_loop ev n False (at_text r c (t # ns) os TOK_NUM) m"
        using i got(1) by auto
      have "delivers ev m env X p' os ns os (t # ns) v" using a(1,2) by (auto simp: delivers_def)
      then show ?thesis using a(3) by (auto simp: scans_def)
    next
      case False
      then have "scan_loop ev n False ?sc m = failed m v" using i got(1) by (auto split: option.splits sum.splits)
      then show ?thesis using False by (simp add: scans_def)
    qed
  qed
qed

lemma leaves_pos: "0 < leaves e"
  by (induction e) auto

lemma scannable_aexp:
  assumes "resolves ev m env X" and "wf_aexp e" and "names_of e \<subseteq> X" and "0 < p" and "p \<le> 16"
  shows "scannable ev n m env X p (text_aexp p e) (leaves e) (opers_of e) (aval env e)"
  using assms(2-)
proof (induction e arbitrary: p)
  case (Const a)
  then show ?case using scannable_const [of a] by simp
next
  case (Name x)
  then show ?case using scannable_name [of x X] by simp
next
  case (Unary oper e)
  have "scannable ev n m env X 16 (text_aexp 16 e) (leaves e) (opers_of e) (aval env e)" using Unary by simp
  then show ?case using scannable_unary [OF _ _ assms(1) text_aexp_delimited] Unary.prems by simp
next
  case (Binary oper l r)
  let ?q = "prec_of oper"
  let ?p1 = "if right_assoc ?q then Suc ?q else ?q" and ?p2 = "if right_assoc ?q then ?q else Suc ?q"
  have o: "oper \<in> set binary_opers" using Binary.prems(1) by simp
  have q: "0 < ?q" "?q < 16" using infix_prec [of oper] o by auto
  have body: "scannable ev n m env X p' (text_aexp ?p1 l @ '' '' @ text_of oper @ text_aexp ?p2 r) (leaves l + leaves r) (Suc (opers_of l + opers_of r))
      (aval env (Binary oper l r))" if "p' \<le> ?q" for p'
    unfolding aval.simps
    by (rule scannable_binary [OF _ _ o refl assms(1) text_aexp_delimited that leaves_pos]) (use Binary q in auto)
  show ?case
  proof (cases "?q < p")
    case True
    have "scannable ev n m env X p ('' ('' @ (text_aexp ?p1 l @ '' '' @ text_of oper @ text_aexp ?p2 r) @ '' )'') (leaves l + leaves r)
        (Suc (Suc (opers_of l + opers_of r))) (aval env (Binary oper l r))"
      by (rule scannable_paren [OF body [OF order_refl] assms(1) q(1)]) (use text_aexp_delimited [of ?p1 l] in \<open>simp add: append_assoc\<close>)
    then show ?thesis using True by (simp add: Let_def paren_def)
  next
    case False
    then have "scannable ev n m env X p (text_aexp ?p1 l @ '' '' @ text_of oper @ text_aexp ?p2 r) (leaves l + leaves r) (2 + (opers_of l + opers_of r))
        (aval env (Binary oper l r))"
      by (intro scannable_more [OF body]) simp_all
    then show ?thesis using False by (simp add: Let_def paren_def)
  qed
next
  case (Conditional c a b)
  let ?s = "text_aexp 5 c @ '' ?'' @ text_aexp 5 a @ '' :'' @ text_aexp 4 b"
  have body: "scannable ev n m env X p' ?s (leaves c + leaves a + leaves b) (2 + (opers_of c + opers_of a + opers_of b)) (aval env (Conditional c a b))"
    if "p' \<le> 4" for p'
    unfolding aval.simps
    by (rule scannable_conditional [OF _ _ _ assms(1) text_aexp_delimited text_aexp_delimited that leaves_pos leaves_pos]) (use Conditional in auto)
  show ?case
  proof (cases "4 < p")
    case True
    have "scannable ev n m env X p ('' ('' @ ?s @ '' )'') (leaves c + leaves a + leaves b) (Suc (2 + (opers_of c + opers_of a + opers_of b)))
        (aval env (Conditional c a b))"
      by (rule scannable_paren [OF body [OF order_refl] assms(1)]) (use text_aexp_delimited [of 5 c] in simp_all)
    then show ?thesis using True by (simp add: paren_def numeral_3_eq_3)
  next
    case False
    then have "scannable ev n m env X p ?s (leaves c + leaves a + leaves b) (3 + (opers_of c + opers_of a + opers_of b)) (aval env (Conditional c a b))"
      by (intro scannable_more [OF body]) simp_all
    then show ?thesis using False by (simp add: paren_def add.assoc)
  qed
qed

end
