(* ===== verification/Math_Theorems.thy ===== *)
theory Math_Theorems
  imports Math_Expressions
begin

text \<open>
  The properties of the shell arithmetic.
\<close>

section \<open>Values of expressions\<close>

definition answer :: "'s arith_state_t \<Rightarrow> (math_error + arith_t) option \<Rightarrow> (arith_t \<times> 's arith_state_t) option" where
  "answer m r = (case r of None \<Rightarrow> None | Some (Inl e) \<Rightarrow> Some (- 1, m\<lparr>errmsg := Some e\<rparr>) | Some (Inr v) \<Rightarrow> Some (v, m\<lparr>errmsg := None\<rparr>))"

text \<open>The end of the text: the parenthesis that is appended, and the number that is left.\<close>

lemma scan_end:
  assumes "delivers ev m env X 1 [TOK_LPAREN] [] os' ns' v" and "resolves ev m env X"
  shows "scan_loop ev n False (at_text [] False ns' os' TOK_NUM) m = answer m v"
proof -
  have "scan_loop ev n False (at_text [] False ns' os' TOK_NUM) m = scan_loop ev n False (at_text '')'' True ns' os' TOK_NUM) m"
    by (rule loop_continue) (simp add: scan_step_def skip_whitespace_def)
  also have "\<dots> = scan_loop ev n False (at_text ('' )'' @ []) True ns' os' TOK_NUM) m"
    using scan_step_skip [of "'')''" "'' )''" ev n False "at_text [] True ns' os' TOK_NUM" m]
    by (subst (1 2) scan_loop.simps) (simp add: skip_whitespace_def is_white_def code_def)
  finally have e: "scan_loop ev n False (at_text [] False ns' os' TOK_NUM) m = scan_loop ev n False (at_text ('' )'' @ []) True ns' os' TOK_NUM) m" .
  have d: "delimited []" and cl: "closes TOK_RPAREN 1" by (simp_all add: delimited_def closes_def)
  note i = scan_rparen [OF d cl assms, of n True]
  show ?thesis
  proof (cases "\<exists>a. v = Some (Inr a)")
    case True
    then obtain a t where a: "v = Some (Inr a)" "stands_for env X t a" "var t = None"
      "scan_loop ev n False (at_text [] False ns' os' TOK_NUM) m = scan_loop ev n False (at_text [] True [t] [] TOK_NUM) m"
      using i e by auto
    have "scan_loop ev n False (at_text [] True [t] [] TOK_NUM) m = Some (val t, m\<lparr>errmsg := None\<rparr>)"
      by (rule loop_return) (simp add: scan_step_def skip_whitespace_def)
    then show ?thesis using a by (simp add: answer_def stands_for_def)
  next
    case False
    then show ?thesis using i e by (auto simp: answer_def failed_def split: option.splits sum.splits)
  qed
qed

lemma scan_text:
  assumes "resolves ev m env X" and "wf_aexp e" and "names_of e \<subseteq> X" and "leaves e \<le> n div 2" and "Suc (opers_of e) \<le> n"
  shows "scan_loop ev n False (at_text (text_aexp 1 e) False [] [TOK_LPAREN] TOK_LPAREN) m = answer m (aval env e)"
proof -
  have "below [TOK_LPAREN] 1" by (simp add: below_def num_not_post)
  moreover have "TOK_LPAREN \<notin> {TOK_NUM, TOK_POST_INC, TOK_POST_DEC}" by (simp add: tok_vals)
  ultimately have "scans ev n m env X 1 (at_text (text_aexp 1 e @ []) False [] [TOK_LPAREN] TOK_LPAREN) [] [TOK_LPAREN] [] (aval env e)"
    using scannable_aexp [OF assms(1-3), of 1 n] assms(4,5) unfolding scannable_def by (simp add: delimited_def)
  then show ?thesis using scan_end [OF _ assms(1)]
    by (auto simp: scans_def answer_def failed_def split: option.splits sum.splits)
qed

text \<open>White space at the front makes no difference.\<close>

lemma scan_loop_white: "skip_whitespace s = skip_whitespace s' \<Longrightarrow> scan_loop ev n null (at_text s c ns os lt) m = scan_loop ev n null (at_text s' c ns os lt) m"
  using scan_step_skip [of s s' ev n null "at_text s c ns os lt" m] by (subst (1 2) scan_loop.simps) simp

lemma skip_idem: "skip_whitespace (skip_whitespace s) = skip_whitespace s"
  by (simp add: skip_whitespace_def)

lemma text_aexp_start: "wf_aexp e \<Longrightarrow> \<exists>c t. text_aexp p e = '' '' @ c # t \<and> \<not> is_white c"
proof (induction e arbitrary: p)
  case (Const n)
  obtain c s where "decimal n = c # s" using decimal_start by blast
  then show ?case using decimal_all_digits [of c n] by simp
next
  case (Name x)
  then show ?case using name_start by (auto simp: name_def)
next
  case (Unary oper e)
  have "\<forall>oper \<in> set unary_opers. text_of oper \<noteq> [] \<and> \<not> is_white (hd (text_of oper))"
    using text_start [of "[]"] by (simp add: delimited_def list_all_iff Let_def)
  then show ?case using Unary.prems by (cases "text_of oper") auto
next
  case (Binary oper l r)
  have w: "\<not> is_white CHR ''(''" by (simp add: is_white_def code_def)
  obtain c t where "text_aexp (if right_assoc (prec_of oper) then Suc (prec_of oper) else prec_of oper) l = '' '' @ c # t" "\<not> is_white c"
    using Binary.IH(1) Binary.prems by (metis wf_aexp.simps(4))
  then show ?case using w by (simp add: Let_def paren_def)
next
  case (Conditional a b c)
  have w: "\<not> is_white CHR ''(''" by (simp add: is_white_def code_def)
  obtain d t where "text_aexp 5 a = '' '' @ d # t" "\<not> is_white d"
    using Conditional.IH(1) Conditional.prems by (metis wf_aexp.simps(5))
  then show ?case using w by (simp add: paren_def)
qed

lemma evaluate_text:
  assumes "resolves (evaluate_string d) m env X" and "wf_aexp e" and "names_of e \<subseteq> X" and "skip_whitespace s = skip_whitespace (text_aexp 1 e)"
  shows "evaluate_string (Suc d) s m = answer m (aval env e)"
proof -
  obtain c t where t: "text_aexp 1 e = '' '' @ c # t" "\<not> is_white c" using text_aexp_start [OF assms(2), of 1] by blast
  have w: "is_white CHR '' ''" by (simp add: is_white_def code_def)
  have skip: "skip_whitespace s = c # t" using assms(4) t(2) w unfolding t(1) by (simp add: skip_whitespace_def)
  have len: "length (c # t) + 2 = length (text_aexp 1 e) + 1" unfolding t(1) by simp
  have "scan_loop (evaluate_string d) (length (c # t) + 2) False (at_text (text_aexp 1 e) False [] [TOK_LPAREN] TOK_LPAREN) m = answer m (aval env e)"
    unfolding len by (rule scan_text [OF assms(1-3)]) (use text_aexp_size [OF assms(2), of 1] in linarith)+
  moreover have "scan_loop (evaluate_string d) (length (c # t) + 2) False (at_text (c # t) False [] [TOK_LPAREN] TOK_LPAREN) m =
      scan_loop (evaluate_string d) (length (c # t) + 2) False (at_text (text_aexp 1 e) False [] [TOK_LPAREN] TOK_LPAREN) m"
    by (rule scan_loop_white) (simp add: t(1) [simplified] t(2) skip_whitespace_def w)
  ultimately show ?thesis by (simp add: skip)
qed

section \<open>Numbers that are printed read back\<close>

lemma evaluate_nat:
  assumes "k < 2 ^ 64"
  shows "evaluate_string (Suc d) (decimal k) m = Some (of_nat k, m\<lparr>errmsg := None\<rparr>)"
proof -
  have r: "resolves (evaluate_string d) m (\<lambda>x. 0) {}" by (simp add: resolves_def)
  have "skip_whitespace (decimal k) = skip_whitespace (text_aexp 1 (Const k))" by (simp add: skip_whitespace_def is_white_def code_def)
  then show ?thesis using evaluate_text [OF r, of "Const k" "decimal k"] assms by (simp add: answer_def)
qed

lemma evaluate_minus:
  assumes "k < 2 ^ 64"
  shows "evaluate_string (Suc d) (CHR ''-'' # decimal k) m = Some (- of_nat k, m\<lparr>errmsg := None\<rparr>)"
proof -
  let ?ev = "evaluate_string d" and ?s = "CHR ''-'' # decimal k"
  obtain c s where s: "decimal k = c # s" using decimal_start by blast
  then have c: "is_digit c" using decimal_all_digits [of c k] by simp
  have w: "\<not> is_white CHR ''-''" "\<not> is_name CHR ''-''" "\<not> is_digit CHR ''-''" "c \<noteq> CHR ''-''" "c \<noteq> CHR ''=''"
    using c by (auto simp: is_white_def is_name_def is_alpha_def is_digit_def code_def)
  have op: "next_operator ?s [] = Some (TOK_SUB, decimal k)"
    using w(4,5) by (simp add: s next_operator_def op_tokens_def)
  let ?n = "length ?s + 2"
  have minus: "scan_step ?ev ?n False (at_text ?s False [] [TOK_LPAREN] TOK_LPAREN) m = Some (Continue (at_text (decimal k) False [] [TOK_UMINUS, TOK_LPAREN] TOK_UMINUS) m)"
    using w op by (simp add: scan_step_def skip_whitespace_def operator_step_def push_oper_def as_unary_def tok_vals prec_vals PREC_def)
  have pre: "TOK_UMINUS \<in> set prefix_opers" "TOK_LPAREN \<notin> {TOK_NUM, TOK_POST_INC, TOK_POST_DEC}"
    by (simp_all add: prefix_opers_def unary_opers_def tok_vals)
  have tx: "text_of TOK_UMINUS = ''-''" using text_simps by simp
  have d: "delimited ('' '' @ decimal k)" by (simp add: delimited_def)
  have r: "resolves ?ev m (\<lambda>x. 0) {}" by (simp add: resolves_def)
  have um: "TOK_UMINUS \<in> set unary_opers" "unary_value TOK_UMINUS (of_nat k) = Some (- of_nat k)" by (simp_all add: unary_opers_def unary_value_def)
  have "scan_loop ?ev ?n False (at_text ?s False [] [TOK_LPAREN] TOK_LPAREN) m = scan_loop ?ev ?n False (at_text (decimal k) False [] [TOK_UMINUS, TOK_LPAREN] TOK_UMINUS) m"
    by (rule loop_continue [OF minus])
  also have "\<dots> = scan_loop ?ev ?n False (at_text ('' '' @ decimal k) False [] [TOK_UMINUS, TOK_LPAREN] TOK_UMINUS) m"
    by (rule scan_loop_white) (simp add: skip_whitespace_def is_white_def code_def)
  also have "\<dots> = scan_loop ?ev ?n False (at_text ('' '' @ text_of TOK_UMINUS @ '' '' @ decimal k) False [] [TOK_LPAREN] TOK_LPAREN) m"
    by (rule scan_prefix [OF pre(1) d pre(2), symmetric]) simp
  also have "\<dots> = scan_loop ?ev ?n False (at_text (text_aexp 1 (Unary TOK_UMINUS (Const k))) False [] [TOK_LPAREN] TOK_LPAREN) m" by simp
  also have "\<dots> = answer m (aval (\<lambda>x. 0) (Unary TOK_UMINUS (Const k)))"
    by (rule scan_text [OF r]) (use assms um s in auto)
  finally have "scan_loop ?ev ?n False (at_text ?s False [] [TOK_LPAREN] TOK_LPAREN) m = Some (- of_nat k, m\<lparr>errmsg := None\<rparr>)"
    using um by (simp add: answer_def seq_def)
  then show ?thesis using w(1) by (simp add: skip_whitespace_def)
qed

lemma evaluate_print: "evaluate_string (Suc d) (print_lld w) m = Some (w, m\<lparr>errmsg := None\<rparr>)"
proof (cases "sint w < 0")
  case True
  have b: "- (2 ^ 63) \<le> sint w" using sint_ge [of w] by simp
  then have "nat (- sint w) < 2 ^ 64" by simp
  moreover have "- of_nat (nat (- sint w)) = w" using True by (simp add: of_nat_nat)
  ultimately show ?thesis using True evaluate_minus [of "nat (- sint w)"] by (simp add: print_lld_def)
next
  case False
  have b: "sint w < 2 ^ 63" using sint_lt [of w] by simp
  then have "nat (sint w) < 2 ^ 64" by simp
  moreover have "of_nat (nat (sint w)) = w" using False by (simp add: of_nat_nat)
  ultimately show ?thesis using False evaluate_nat [of "nat (sint w)"] by (simp add: print_lld_def)
qed

text \<open>Variables that hold printed numbers, or nothing.\<close>

definition holds_numbers :: "'s arith_state_t \<Rightarrow> (string \<Rightarrow> arith_t) \<Rightarrow> string set \<Rightarrow> bool" where
  "holds_numbers m env X \<longleftrightarrow> (\<forall>x \<in> X. lookupvar m x (shell m) = None \<and> env x = 0 \<or> lookupvar m x (shell m) = Some (print_lld (env x)))"

lemma resolves_numbers:
  assumes "holds_numbers m env X" and "list_of_recursed_names m = []" and "errmsg m = None"
  shows "resolves (evaluate_string (Suc d)) m env X"
  unfolding resolves_def
proof (intro allI impI)
  fix t :: var_or_num_t and x
  assume x: "x \<in> X" "var t = Some x"
  let ?m = "m\<lparr>list_of_recursed_names := [x]\<rparr>"
  have "?m\<lparr>errmsg := None, list_of_recursed_names := []\<rparr> = m" using assms(2,3) by simp
  then show "arith_lookup_val (evaluate_string (Suc d)) t m = Some (None, t\<lparr>val := env x\<rparr>, m)"
    using assms x evaluate_print [of d "env x" ?m] by (auto simp: holds_numbers_def arith_lookup_val_def simp del: evaluate_string.simps)
qed

text \<open>C33: the shell computes what the grammar says.  For every expression tree over the unary, binary and conditional
  operators, numbers and variables, the text with parentheses only where precedence and associativity need them
  evaluates to the value of the tree: the same number, or the error of the leftmost innermost
  operator that fails, or behaviour that C leaves undefined where the tree has a shift out of range.  No stack
  overflows and the shell state is not changed.\<close>

theorem arith_evaluates:
  assumes "wf_aexp e" and "holds_numbers m env (names_of e)"
  shows "arith (Suc (Suc depth)) (text_aexp 1 e) m = answer (m\<lparr>list_of_recursed_names := []\<rparr>) (aval env e)"
proof -
  let ?m = "m\<lparr>errmsg := None, list_of_recursed_names := []\<rparr>"
  have r: "resolves (evaluate_string (Suc depth)) ?m env (names_of e)"
    by (rule resolves_numbers) (use assms(2) in \<open>simp_all add: holds_numbers_def\<close>)
  have "arith (Suc (Suc depth)) (text_aexp 1 e) m = answer ?m (aval env e)"
    unfolding arith_def by (rule evaluate_text [OF r assms(1)]) simp_all
  then show ?thesis by (simp add: answer_def split: option.split sum.split)
qed

definition demo_shell :: "(string \<Rightarrow> string option) arith_state_t" where
  "demo_shell = \<lparr>errmsg = None, lookupvar = (\<lambda>x s. s x), setvar = (\<lambda>x v s. s(x \<mapsto> v)), list_of_recursed_names = [],
     shell = [''a'' \<mapsto> ''7'']\<rparr>"

theorem arith_evaluates_witness:
  "arith 2 '' a + ( 1 - 3 ) ** 2'' demo_shell = Some (11, demo_shell)"
proof -
  let ?e = "Binary TOK_ADD (Name ''a'') (Binary TOK_EXPONENT (Binary TOK_SUB (Const 1) (Const 3)) (Const 2))"
  have ops: "TOK_ADD \<in> set binary_opers" "TOK_SUB \<in> set binary_opers" "TOK_EXPONENT \<in> set binary_opers" by (simp_all add: binary_opers_def)
  have p: "prec_of TOK_ADD = 13" "prec_of TOK_SUB = 13" "prec_of TOK_EXPONENT = 15" "\<not> right_assoc 13" "right_assoc 15"
    by (simp_all add: prec_of_def fix_assignment_prec_def PREC_def tok_vals right_assoc_def)
  have tx: "text_of TOK_ADD = ''+''" "text_of TOK_SUB = ''-''" "text_of TOK_EXPONENT = ''**''" using text_simps by simp_all
  have dec: "decimal 1 = ''1''" "decimal 2 = ''2''" "decimal 3 = ''3''" "decimal 7 = ''7''" by (simp_all add: decimal.simps char_of_def bit_Suc_0_iff)
  have tt: "text_aexp 1 ?e = '' a + ( 1 - 3 ) ** 2''" using p tx dec by (simp add: paren_def)
  have pow: "power_loop 2 r 1 = r * r" for r by (simp only: numeral_2_eq_2 power_loop.simps mult_1)
  have bv: "binary_value TOK_SUB 1 3 = Some (Inr (- 2))" "binary_value TOK_EXPONENT (- 2) 2 = Some (Inr 4)" "binary_value TOK_ADD 7 4 = Some (Inr 11)"
    using pow by (simp_all add: binary_value_def tok_vals word_sless_alt)
  have v: "aval (\<lambda>x. 7) ?e = Some (Inr 11)" using bv by (simp add: seq_def)
  have w: "wf_aexp ?e" using ops by (simp add: name_def is_name_def is_alpha_def code_def)
  have h: "holds_numbers demo_shell (\<lambda>x. 7) (names_of ?e)" using dec by (simp add: holds_numbers_def demo_shell_def print_lld_def)
  show ?thesis using arith_evaluates [OF w h, of 0] v unfolding tt by (simp add: answer_def demo_shell_def numeral_2_eq_2)
qed

section \<open>The stack of numbers\<close>

text \<open>C36: the stack of numbers can overflow.  The array has room for one number for every two characters of the text
  (and one more), but numbers need nothing between them: \<open>09J\<close> is read as the octal number 0, the
  number 9 and the name \<open>J\<close>, and the third is written behind the end of the array.\<close>

theorem numstack_overflow: "arith (Suc depth) ''09J'' m = None"
proof -
  have c: "\<not> is_white CHR ''0''" "\<not> is_white CHR ''9''" "\<not> is_white CHR ''J''" "\<not> is_name CHR ''0''" "\<not> is_name CHR ''9''" "is_name CHR ''J''"
    "is_digit CHR ''0''" "is_digit CHR ''9''" "\<not> is_digit CHR ''J''" "octal_digit CHR ''0''" "\<not> octal_digit CHR ''9''"
    by (simp_all add: is_white_def is_name_def is_digit_def is_alpha_def octal_digit_def code_def)
  have s: "strto_arith_t ''09J'' = (0, ''9J'', False)" "strto_arith_t ''9J'' = (9, ''J'', False)"
    using c by (simp_all add: strto_arith_t_def strtoull_def hex_value_def code_def)
  let ?t = "\<lambda>v. \<lparr>val = v, second_val = 0, second_val_present = False, var = None\<rparr>"
  let ?m = "m\<lparr>errmsg := None, list_of_recursed_names := []\<rparr>"
  have "arith (Suc depth) ''09J'' m = scan_loop (evaluate_string depth) 5 False (at_text ''09J'' False [] [TOK_LPAREN] TOK_LPAREN) ?m"
    using c by (simp add: arith_def skip_whitespace_def eval_nat_numeral)
  also have "\<dots> = scan_loop (evaluate_string depth) 5 False (at_text ''9J'' False [?t 0] [TOK_LPAREN] TOK_NUM) ?m"
    by (rule loop_continue) (use c s in \<open>simp add: scan_step_def skip_whitespace_def push_num_def\<close>)
  also have "\<dots> = scan_loop (evaluate_string depth) 5 False (at_text ''J'' False [?t 9, ?t 0] [TOK_LPAREN] TOK_NUM) ?m"
    by (rule loop_continue) (use c s in \<open>simp add: scan_step_def skip_whitespace_def push_num_def\<close>)
  also have "\<dots> = None"
    by (rule loop_none) (use c in \<open>simp add: scan_step_def skip_whitespace_def push_num_def endofname_def\<close>)
  finally show ?thesis .
qed

end
