(* ===== verification/Math_States.thy ===== *)
theory Math_States
  imports Math_Expressions
begin

text \<open>
  The states that the scanner reaches on any text, correct or not, and what they keep: only tokens that can be applied
  are on the stack of operators, only names on the stack of numbers, a number is there when one is needed, and the
  stack of operators stays inside its array.
\<close>

section \<open>The states of the scanner\<close>

inductive scan_reaches :: "'s evaluator \<Rightarrow> string \<Rightarrow> 's arith_state_t \<Rightarrow> scan \<Rightarrow> 's arith_state_t \<Rightarrow> bool" for ev start m where
  start: "scan_reaches ev start m (at_text start False [] [TOK_LPAREN] TOK_LPAREN) m"
| step: "scan_reaches ev start m sc m1 \<Longrightarrow> scan_step ev (length start + 2) (start = []) sc m1 = Some (Continue sc' m2) \<Longrightarrow> scan_reaches ev start m sc' m2"

text \<open>Tokens that may be on the stack of operators, and entries that may be on the stack of numbers.\<close>

definition stackable :: "operator set" where
  "stackable = (snd ` set op_tokens - {TOK_RPAREN}) \<union> {TOK_UMINUS, TOK_UPLUS, TOK_PRE_INC, TOK_PRE_DEC}"

definition named :: "(string \<Rightarrow> bool) \<Rightarrow> var_or_num_t list \<Rightarrow> bool" where
  "named N ns \<longleftrightarrow> (\<forall>t \<in> set ns. \<forall>x. var t = Some x \<longrightarrow> N x)"

text \<open>What holds of every result of a computation that may be undefined.\<close>

definition sat :: "('a \<Rightarrow> bool) \<Rightarrow> 'a option \<Rightarrow> bool" where
  "sat P r \<longleftrightarrow> (\<forall>x. r = Some x \<longrightarrow> P x)"

lemma sat_Some [simp]: "sat P (Some x) \<longleftrightarrow> P x" and sat_None [simp]: "sat P None"
  by (simp_all add: sat_def)

lemma sat_bind: "sat Q r \<Longrightarrow> (\<And>x. Q x \<Longrightarrow> sat P (f x)) \<Longrightarrow> sat P (Option.bind r f)"
  by (cases r) (simp_all add: sat_def)

lemma sat_mono: "sat Q r \<Longrightarrow> (\<And>x. Q x \<Longrightarrow> P x) \<Longrightarrow> sat P r"
  by (simp add: sat_def)

lemma store_sat:
  assumes "\<And>x v. N x \<Longrightarrow> J (m\<lparr>shell := setvar m x (print_lld v) (shell m)\<rparr>)" and "J m" and "named N (t # ns)" and "arith_store oper v t ns m = (e, ns', m')"
  shows "J m' \<and> (e = None \<or> e = Some Syntax_error) \<and> ns' \<noteq> [] \<and> named N ns'"
  using assms by (auto simp: arith_store_def named_def Let_def split: if_splits option.splits)

text \<open>A property \<open>J\<close> of the state that lookups and assignments keep, a property \<open>E\<close> of the messages, and one of the
  names on the stack.\<close>

lemma apply_sat:
  assumes "\<And>t m. J m \<Longrightarrow> named N [t] \<Longrightarrow> sat (\<lambda>(e, t', m'). J m' \<and> E e \<and> var t' = var t) (arith_lookup_val ev t m)"
    and "\<And>m x v. J m \<Longrightarrow> N x \<Longrightarrow> J (m\<lparr>shell := setvar m x (print_lld v) (shell m)\<rparr>)"
    and "\<And>e. e \<noteq> Some Stack_exhausted \<Longrightarrow> E e" and "J m" and "named N ns" and "ns \<noteq> []"
  shows "sat (\<lambda>(e, ns', m'). J m' \<and> E e \<and> ns' \<noteq> [] \<and> named N ns') (arith_apply ev oper ns m)"
proof -
  let ?P = "\<lambda>(e, ns', m'). J m' \<and> E e \<and> ns' \<noteq> [] \<and> named N ns'"
  obtain t below where ns: "ns = t # below" using assms(6) by (cases ns) auto
  have store: "?P (arith_store oper v u us m1)" if "J m1" "named N (u # us)" for v u us m1
    using store_sat [of N J m1 u us oper v] assms(2) [OF that(1)] that assms(3) by (cases "arith_store oper v u us m1") auto
  have same: "named N (u' # us)" if "named N (u # us)" "var u' = var u" for u u' us
    using that by (simp add: named_def)
  have right: "sat ?P (binary_value oper (val l) (val t1) \<bind> (\<lambda>rez. case rez of Inl e \<Rightarrow> Some (Some e, l # us, m1)
      | Inr v \<Rightarrow> Some (arith_store oper v l us m1)))" if "J m1" "named N (l # us)" for l us t1 m1
  proof -
    have b: "sat (\<lambda>r. r \<noteq> Inl Stack_exhausted) (binary_value oper (val l) (val t1))"
      by (simp add: binary_value_def shift_by_def Let_def)
    show ?thesis
    proof (rule sat_bind [OF b])
      fix r :: "math_error + arith_t"
      assume "r \<noteq> Inl Stack_exhausted"
      then show "sat ?P (case r of Inl e \<Rightarrow> Some (Some e, l # us, m1) | Inr v \<Rightarrow> Some (arith_store oper v l us m1))"
        using store that assms(3) by (cases r) simp_all
    qed
  qed
  have binary: "sat ?P (arith_apply_binary ev oper t1 below m1)" if "J m1" "named N (t1 # below)" for t1 m1
  proof (cases below)
    case Nil
    then show ?thesis using that assms(3) by (simp add: arith_apply_binary_def)
  next
    case (Cons l us)
    have l: "sat (\<lambda>(e, l', m'). J m' \<and> E e \<and> var l' = var l) (if oper \<noteq> TOK_ASSIGN then arith_lookup_val ev l m1 else Some (None, l, m1))"
      using assms(1) [OF that(1), of l] that assms(3) Cons by (simp add: named_def)
    have us: "named N (l' # us)" if "var l' = var l" for l'
      using same [of l us l'] \<open>named N (t1 # below)\<close> that Cons by (simp add: named_def)
    let ?rest = "\<lambda>(err, l, m). if err \<noteq> None then Some (err, l # us, m)
           else if oper = TOK_CONDITIONAL then
             Some (arith_store oper (if val l \<noteq> 0 then val t1 else second_val t1) l us m)
           else if oper = TOK_CONDITIONAL_SEP then
             (if us = [] then Some (Some Malformed_conditional, l # us, m)
              else Some (arith_store oper (val l) (l\<lparr>second_val_present := True, second_val := val t1\<rparr>) us m))
           else do {
             rez \<leftarrow> binary_value oper (val l) (val t1);
             case rez of Inl e \<Rightarrow> Some (Some e, l # us, m)
             | Inr v \<Rightarrow> Some (arith_store oper v l us m) }"
    have rest: "sat ?P (?rest (e2, l2, m2))" if "J m2" "E e2" "var l2 = var l" for e2 l2 m2
    proof -
      note n = us [OF that(3)]
      have n': "named N (l2\<lparr>second_val_present := True, second_val := v\<rparr> # us)" for v using n by (simp add: named_def)
      consider "e2 \<noteq> None" | "e2 = None" "oper = TOK_CONDITIONAL" | "e2 = None" "oper \<noteq> TOK_CONDITIONAL" "oper = TOK_CONDITIONAL_SEP"
        | "e2 = None" "oper \<noteq> TOK_CONDITIONAL" "oper \<noteq> TOK_CONDITIONAL_SEP" by blast
      then show ?thesis
      proof cases
        case 1
        then show ?thesis using that n by simp
      next
        case 2
        then show ?thesis using store [OF that(1) n] by simp
      next
        case 3
        then show ?thesis using store [OF that(1) n'] that n assms(3) by (cases "us = []") simp_all
      next
        case 4
        then show ?thesis using right [OF that(1) n] by simp
      qed
    qed
    have "named N (l # us)" using us [of l] by simp
    then show ?thesis
      unfolding arith_apply_binary_def Cons list.case Let_def
      using \<open>J m1\<close> assms(3) sat_bind [OF l, of ?P ?rest] rest by (simp add: split_paired_all)
  qed
  have top: "named N [t]" using assms(5) ns by (simp add: named_def)
  show ?thesis unfolding ns arith_apply_def list.case
  proof (rule sat_bind [OF assms(1) [OF assms(4) top]], clarify)
    fix e1 m1 and t1 :: var_or_num_t
    assume m1: "J m1" "E e1" "var t1 = var t"
    have t1: "named N (t1 # below)" using same [of t below t1] assms(5) ns m1(3) by simp
    show "sat ?P (if e1 \<noteq> None then Some (e1, t1 # below, m1)
         else case unary_value oper (val t1) of Some rez \<Rightarrow> Some (arith_store oper rez t1 below m1)
         | None \<Rightarrow> arith_apply_binary ev oper t1 below m1)"
      using m1 t1 store binary by (simp split: option.split)
  qed
qed

lemma lookup_var: "sat (\<lambda>(e, t', m'). var t' = var t) (arith_lookup_val ev t m)"
  by (auto simp: arith_lookup_val_def sat_def Option.bind_eq_Some_conv split: option.split)

text \<open>What \<open>pop_opers\<close> leaves on the stacks.\<close>

definition popped_ok :: "(string \<Rightarrow> bool) \<Rightarrow> ('s arith_state_t \<Rightarrow> bool) \<Rightarrow> (math_error option \<Rightarrow> bool) \<Rightarrow> operator list \<Rightarrow> 's popped \<Rightarrow> bool" where
  "popped_ok N J E os r \<longleftrightarrow> (case r of
       Push os' ns' m' \<Rightarrow> J m' \<and> ns' \<noteq> [] \<and> named N ns' \<and> set os' \<subseteq> set os \<and> length os' \<le> length os
     | Closed os' ns' m' \<Rightarrow> J m' \<and> ns' \<noteq> [] \<and> named N ns' \<and> set os' \<subseteq> set os \<and> length os' \<le> length os
     | Fail e m' \<Rightarrow> J m' \<and> E (Some e))"

lemma pop_sat:
  assumes "\<And>t m. J m \<Longrightarrow> named N [t] \<Longrightarrow> sat (\<lambda>(e, t', m'). J m' \<and> E e \<and> var t' = var t) (arith_lookup_val ev t m)"
    and "\<And>m x v. J m \<Longrightarrow> N x \<Longrightarrow> J (m\<lparr>shell := setvar m x (print_lld v) (shell m)\<rparr>)"
    and "\<And>e. e \<noteq> Some Stack_exhausted \<Longrightarrow> E e" and "J m" and "named N ns" and "ns \<noteq> []"
  shows "sat (popped_ok N J E os) (pop_opers ev oper os ns m)"
  using assms(4-)
proof (induction os arbitrary: ns m)
  case Nil
  then show ?case using assms(3) by (simp add: popped_ok_def)
next
  case (Cons prev stack)
  have ap: "sat (\<lambda>(e, ns', m'). J m' \<and> E e \<and> ns' \<noteq> [] \<and> named N ns') (arith_apply ev prev ns m)"
    by (rule apply_sat [where J = J and E = E, OF assms(1,2,3) Cons.prems])
  have grow: "popped_ok N J E (prev # stack) r" if "popped_ok N J E stack r" for r
    using that by (auto simp: popped_ok_def split: popped.splits)
  obtain t below where ns: "ns = t # below" using Cons.prems(3) by (cases ns) auto
  consider (close) "oper = TOK_RPAREN" "prev = TOK_LPAREN" | (stop) "\<not> (oper = TOK_RPAREN \<and> prev = TOK_LPAREN)"
      "oper \<noteq> TOK_RPAREN \<and> (fix_assignment_prec (PREC prev) < fix_assignment_prec (PREC oper) \<or>
        fix_assignment_prec (PREC prev) = fix_assignment_prec (PREC oper) \<and> is_right_associative (fix_assignment_prec (PREC oper)))"
    | (go) "\<not> (oper = TOK_RPAREN \<and> prev = TOK_LPAREN)"
      "\<not> (oper \<noteq> TOK_RPAREN \<and> (fix_assignment_prec (PREC prev) < fix_assignment_prec (PREC oper) \<or>
        fix_assignment_prec (PREC prev) = fix_assignment_prec (PREC oper) \<and> is_right_associative (fix_assignment_prec (PREC oper))))"
    by blast
  then show ?case
  proof cases
    case close
    show ?thesis
    proof (cases "var t")
      case None
      then show ?thesis using close ns Cons.prems by (auto simp: pop_opers.simps(2) Let_def popped_ok_def)
    next
      case (Some x)
      have "named N (t'\<lparr>var := None\<rparr> # below)" "named N [t]" for t' using Cons.prems(2) ns by (simp_all add: named_def)
      then show ?thesis using close ns Some
        by (auto simp: pop_opers.simps(2) Let_def popped_ok_def intro!: sat_bind [OF assms(1) [OF Cons.prems(1)]] split: option.split)
    qed
  next
    case stop
    then show ?thesis using Cons.prems by (auto simp: pop_opers.simps(2) Let_def popped_ok_def)
  next
    case go
    have "pop_opers ev oper (prev # stack) ns m = do {
        (err, ns, m) \<leftarrow> arith_apply ev prev ns m;
        case err of Some e \<Rightarrow> Some (Fail e m) | None \<Rightarrow> pop_opers ev oper stack ns m }"
      unfolding pop_opers.simps(2) Let_def using go by (simp only: if_False)
    moreover have "sat (popped_ok N J E (prev # stack)) (case err of Some e \<Rightarrow> Some (Fail e m1) | None \<Rightarrow> pop_opers ev oper stack ns1 m1)"
      if "J m1" "E err" "ns1 \<noteq> []" "named N ns1" for err ns1 m1
    proof (cases err)
      case None
      then show ?thesis using sat_mono [OF Cons.IH [OF that(1,4,3)] grow] by simp
    next
      case (Some e)
      then show ?thesis using that by (simp add: popped_ok_def)
    qed
    ultimately show ?thesis by (auto intro!: sat_bind [OF ap])
  qed
qed


text \<open>The text spells only names with the property \<open>N\<close>.\<close>

definition spells :: "(string \<Rightarrow> bool) \<Rightarrow> string \<Rightarrow> bool" where
  "spells N e \<longleftrightarrow> (\<exists>c \<in> set e. is_name c) \<longrightarrow> (\<forall>x. name x \<longrightarrow> N x)"

definition well_typed :: "(string \<Rightarrow> bool) \<Rightarrow> nat \<Rightarrow> scan \<Rightarrow> bool" where
  "well_typed N n sc \<longleftrightarrow> set (opers sc) \<subseteq> stackable \<and> named N (nums sc) \<and> spells N (expr sc) \<and>
     (lasttok sc \<in> {TOK_NUM, TOK_POST_INC, TOK_POST_DEC} \<longrightarrow> nums sc \<noteq> []) \<and>
     (if closed sc then length (opers sc) \<le> n + 1 \<and> expr sc \<in> {[], '')''} else length (opers sc) + length (expr sc) \<le> n + 1)"

lemma rparen_pops: "sat (\<lambda>r. \<forall>os' ns' m'. r \<noteq> Push os' ns' m') (pop_opers ev TOK_RPAREN os ns m)"
proof (induction os arbitrary: ns m)
  case Nil
  then show ?case by simp
next
  case (Cons prev stack)
  then show ?case
    by (auto simp: pop_opers.simps(2) Let_def split_def split: list.split option.split intro!: sat_bind [where Q = "\<lambda>_. True"] simp: sat_def [of "\<lambda>_. True"])
qed

lemma find_token_in: "find_token ts e = Some (oper, r) \<Longrightarrow> oper \<in> snd ` set ts"
  by (induction ts e rule: find_token.induct) (auto split: option.splits)

lemma op_token_facts:
  "oper \<in> snd ` set op_tokens \<Longrightarrow> oper \<noteq> TOK_NUM \<and> (oper \<in> {TOK_POST_INC, TOK_POST_DEC} \<longrightarrow> \<not> (0 < PREC oper \<and> PREC oper < UNARYPREC \<or> PREC oper = SPEC_PREC)) \<and>
     (oper \<noteq> TOK_RPAREN \<longrightarrow> oper \<in> stackable) \<and> (oper \<noteq> TOK_RPAREN \<longrightarrow> PREC oper \<noteq> SPEC_PREC)"
  by (auto simp: op_tokens_def stackable_def PREC_def tok_vals prec_vals)

lemma next_operator_token: "next_operator e ns = Some (oper, r) \<Longrightarrow> oper \<in> snd ` set op_tokens"
  by (auto simp: next_operator_def Let_def split: if_splits dest: find_token_in) (auto simp: op_tokens_def)

lemma unary_facts:
  "oper \<in> snd ` set op_tokens \<Longrightarrow> as_unary oper \<notin> {TOK_NUM, TOK_POST_INC, TOK_POST_DEC} \<and> (as_unary oper \<noteq> TOK_RPAREN \<longrightarrow> as_unary oper \<in> stackable)"
  by (auto simp: op_tokens_def stackable_def as_unary_def tok_vals)


lemma name_of_endofname: "is_name c \<Longrightarrow> name (fst (endofname (c # s)))"
  by (auto simp: endofname_def name_def dest: set_takeWhileD)

lemma name_of_endofname_length: "length (snd (endofname (c # s))) \<le> length s" if "is_name c"
  using that by (simp add: endofname_def length_dropWhile_le)

text \<open>One operator keeps the types, when the text in front of it was one character longer.\<close>

lemma operator_keeps_types:
  assumes "oper \<in> snd ` set op_tokens" and "set (opers sc) \<subseteq> stackable" and "named N (nums sc)"
    and "lasttok sc \<in> {TOK_NUM, TOK_POST_INC, TOK_POST_DEC} \<longrightarrow> nums sc \<noteq> []"
    and "operator_step ev k oper sc m = Some (Continue sc' m')"
  shows "set (opers sc') \<subseteq> stackable \<and> named N (nums sc') \<and> (lasttok sc' \<in> {TOK_NUM, TOK_POST_INC, TOK_POST_DEC} \<longrightarrow> nums sc' \<noteq> []) \<and>
    length (opers sc') \<le> length (opers sc) + (if oper = TOK_RPAREN then 0 else 1)"
proof -
  define last where "last = (if lasttok sc = TOK_POST_INC \<or> lasttok sc = TOK_POST_DEC then TOK_NUM else lasttok sc)"
  define op where "op = (if last \<noteq> TOK_NUM then as_unary oper else oper)"
  have num: "nums sc \<noteq> []" if "last = TOK_NUM" using that assms(4) by (auto simp: last_def split: if_splits)
  have rp: "op = TOK_RPAREN \<longleftrightarrow> oper = TOK_RPAREN" by (auto simp: op_def as_unary_def tok_vals)
  have op: "op \<noteq> TOK_NUM" "op \<noteq> TOK_RPAREN \<Longrightarrow> op \<in> stackable" "op \<in> {TOK_POST_INC, TOK_POST_DEC} \<Longrightarrow> last = TOK_NUM"
    using op_token_facts [OF assms(1)] unary_facts [OF assms(1)] by (auto simp: op_def split: if_splits)
  note step = assms(5) [unfolded operator_step_def Let_def, folded last_def, folded op_def]
  show ?thesis
  proof (cases "0 < PREC op \<and> PREC op < UNARYPREC \<or> PREC op = SPEC_PREC")
    case True
    then have last: "last = TOK_NUM" using step by (auto split: if_splits)
    have pop: "sat (popped_ok N (\<lambda>_. True) (\<lambda>_. True) (opers sc)) (pop_opers ev op (opers sc) (nums sc) m)"
      by (rule pop_sat) (use lookup_var [of _ ev] num [OF last] assms(3) in \<open>auto simp: sat_def\<close>)
    obtain r where r: "pop_opers ev op (opers sc) (nums sc) m = Some r" using step True last by (auto simp: Option.bind_eq_Some_conv)
    have ok: "popped_ok N (\<lambda>_. True) (\<lambda>_. True) (opers sc) r" using pop r by simp
    show ?thesis
    proof (cases r)
      case (Push os' ns' m1)
      then have "op \<noteq> TOK_RPAREN" using rparen_pops [of ev "opers sc" "nums sc" m] r by auto
      moreover from this have "sc' = sc\<lparr>opers := op # os', nums := ns', lasttok := op\<rparr>"
        using step True last r Push by (auto simp: push_oper_def Option.bind_eq_Some_conv split: if_splits)
      ultimately show ?thesis using Push ok op assms(2) rp by (auto simp: popped_ok_def)
    next
      case (Closed os' ns' m1)
      then show ?thesis using step True last r ok assms(2) by (auto simp: popped_ok_def)
    next
      case (Fail e m1)
      then show ?thesis using step True last r by simp
    qed
  next
    case False
    then have "op \<noteq> TOK_RPAREN" by (auto simp: PREC_def tok_vals prec_vals)
    moreover have "sc' = sc\<lparr>opers := op # opers sc, lasttok := op\<rparr>"
      using step False by (auto simp: push_oper_def Option.bind_eq_Some_conv split: if_splits)
    ultimately show ?thesis using op num assms(2,3) rp by auto
  qed
qed

text \<open>Nothing is read that was not there.\<close>

lemma spells_subset: "spells N e \<Longrightarrow> set r \<subseteq> set e \<Longrightarrow> spells N r"
  by (auto simp: spells_def)

lemma strip_token_subset: "strip_token p e = Some r \<Longrightarrow> set r \<subseteq> set e"
  by (induction p e rule: strip_token.induct) (auto split: if_splits)

lemma find_token_subset: "find_token ts e = Some (oper, r) \<Longrightarrow> set r \<subseteq> set e"
  by (induction ts e rule: find_token.induct) (auto split: option.splits dest: strip_token_subset)

lemma next_operator_subset: "next_operator e ns = Some (oper, r) \<Longrightarrow> set r \<subseteq> set e"
  by (auto simp: next_operator_def Let_def split: if_splits dest: find_token_subset list.set_sel(2) [rotated])

lemma base_loop_subset: "base_loop b s n = (v, r) \<Longrightarrow> set r \<subseteq> set s"
  by (induction b s n rule: base_loop.induct) (auto split: option.splits)

lemma strtoull_subset: "strtoull e = (n, r, err) \<Longrightarrow> set r \<subseteq> set e"
  by (auto simp: strtoull_def Let_def split: if_splits list.splits dest: set_dropWhileD)

lemma strto_arith_t_subset:
  assumes "strto_arith_t e = (n, r, err)"
  shows "set r \<subseteq> set e"
proof -
  obtain n' r' e' where s: "strtoull e = (n', r', e')" by (cases "strtoull e")
  have "set (tl r') \<subseteq> set r'" by (cases r') auto
  then show ?thesis using assms strtoull_subset [OF s] base_loop_subset
    by (auto simp: strto_arith_t_def Let_def s split: if_splits prod.splits) blast+
qed

lemma skip_whitespace_subset: "set (skip_whitespace e) \<subseteq> set e"
  by (auto simp: skip_whitespace_def dest: set_dropWhileD)

lemma scan_step_keeps_types:
  assumes "well_typed N n sc" and "scan_step ev k null sc m = Some (Continue sc' m')"
  shows "well_typed N n sc'"
proof (cases "skip_whitespace (expr sc)")
  case Nil
  then have "sc' = sc\<lparr>expr := '')'', closed := True\<rparr>" "\<not> closed sc" using assms(2) by (auto simp: scan_step_def split: if_splits list.splits)
  moreover have "\<not> is_name CHR '')''" by (simp add: is_name_def is_alpha_def code_def)
  ultimately show ?thesis using assms(1) by (auto simp: well_typed_def spells_def)
next
  case (Cons c s)
  have sp: "spells N (c # s)" using assms(1) skip_whitespace_subset [of "expr sc"] Cons by (metis spells_subset well_typed_def)
  have len: "Suc (length s) \<le> length (expr sc)" using skip_whitespace_length [of "expr sc"] Cons by simp
  have w: "\<not> is_white CHR '')''" "\<not> is_name CHR '')''" "\<not> is_digit CHR '')''" by (simp_all add: is_white_def is_name_def is_digit_def is_alpha_def code_def)
  have cl: "c = CHR '')'' \<and> s = []" if "closed sc"
    using assms(1) that Cons w(1) by (auto simp: well_typed_def skip_whitespace_def split: if_splits)
  consider "is_name c" | "\<not> is_name c" "is_digit c" | "\<not> is_name c" "\<not> is_digit c" by blast
  then show ?thesis
  proof cases
    case 1
    obtain x r where x: "endofname (c # s) = (x, r)" by (cases "endofname (c # s)")
    have "name x" "length r \<le> length s" using name_of_endofname [OF 1, of s] name_of_endofname_length [OF 1, of s] x by simp_all
    moreover from this(1) have "N x" using sp 1 by (auto simp: spells_def)
    moreover have "set r \<subseteq> set (c # s)" using x 1 by (auto simp: endofname_def dest: set_dropWhileD)
    then have "spells N r" by (rule spells_subset [OF sp])
    moreover have "\<not> closed sc" using cl 1 w by auto
    moreover have "sc' = sc\<lparr>expr := r, nums := \<lparr>val = 0, second_val = 0, second_val_present = False, var = Some x\<rparr> # nums sc, lasttok := TOK_NUM\<rparr>"
      using assms(2) Cons 1 x by (auto simp: scan_step_def push_num_def split: if_splits)
    ultimately show ?thesis using assms(1) len by (auto simp: well_typed_def named_def)
  next
    case 2
    obtain v r e where x: "strto_arith_t (c # s) = (v, r, e)" by (cases "strto_arith_t (c # s)")
    have "length r \<le> length s" "spells N r" by (rule strto_arith_t_length [OF x 2(2)], rule spells_subset [OF sp strto_arith_t_subset [OF x]])
    moreover have "\<not> closed sc" using cl 2 w by auto
    moreover have "sc' = sc\<lparr>expr := r, nums := \<lparr>val = if e then 0 else v, second_val = 0, second_val_present = False, var = None\<rparr> # nums sc, lasttok := TOK_NUM\<rparr>"
      using assms(2) Cons 2 x by (auto simp: scan_step_def push_num_def split: if_splits)
    ultimately show ?thesis using assms(1) len by (auto simp: well_typed_def named_def)
  next
    case 3
    then obtain oper r where o: "next_operator (c # s) (nums sc) = Some (oper, r)"
      and step: "operator_step ev k oper (sc\<lparr>expr := r\<rparr>) m = Some (Continue sc' m')"
      using assms(2) Cons by (auto simp: scan_step_def split: option.splits)
    have "length r < length (c # s)" "spells N r" using next_operator_length [OF _ o] spells_subset [OF sp next_operator_subset [OF o]] by simp_all
    moreover have rp: "oper = TOK_RPAREN \<and> r = []" if "closed sc"
      using cl [OF that] o by (auto simp: next_operator_def op_tokens_def)
    moreover note keep = operator_keeps_types [where N = N, OF next_operator_token [OF o] _ _ _ step] operator_step_expr [OF step]
    moreover have "length (opers sc') \<le> length (opers sc) + 1" "closed sc \<Longrightarrow> length (opers sc') \<le> length (opers sc)"
      using assms(1) keep(1) rp by (simp_all add: well_typed_def split: if_splits)
    ultimately show ?thesis using assms(1) len by (cases "closed sc") (simp_all add: well_typed_def)
  qed
qed


text \<open>C35: in every state that the scanner reaches, on any text and whatever nested evaluations return, the stack of
  operators holds only tokens that can be applied or a left parenthesis, entries of the stack of
  numbers that stand for variables hold proper names, a number is on the stack whenever the last token says so, and
  the stack of operators has room for one more token in its array.\<close>

theorem scan_state_well_typed:
  "scan_reaches ev start m sc m' \<Longrightarrow> well_typed name (length start) sc \<and> length (opers sc) < length start + 2"
proof (induction rule: scan_reaches.induct)
  case start
  then show ?case by (simp add: well_typed_def stackable_def op_tokens_def named_def spells_def tok_vals)
next
  case (step sc m1 sc' m2)
  then have "well_typed name (length start) sc'" using scan_step_keeps_types by blast
  then show ?case by (simp add: well_typed_def split: if_splits)
qed

theorem scan_state_well_typed_witness:
  "well_typed name 2 (at_text [] False [\<lparr>val = 0, second_val = 0, second_val_present = False, var = Some ''a''\<rparr>] [TOK_ADD, TOK_LPAREN] TOK_ADD)"
proof -
  let ?ev = "\<lambda>e m. None :: (arith_t \<times> unit arith_state_t) option"
  let ?m = "\<lparr>errmsg = None, lookupvar = (\<lambda>x s. None), setvar = (\<lambda>x v s. s), list_of_recursed_names = [], shell = ()\<rparr>"
  let ?t = "\<lparr>val = 0, second_val = 0, second_val_present = False, var = Some ''a''\<rparr>"
  have c: "\<not> is_white CHR ''a''" "is_name CHR ''a''" "\<not> is_in_name CHR ''+''" "\<not> is_white CHR ''+''" "\<not> is_name CHR ''+''" "\<not> is_digit CHR ''+''"
    by (simp_all add: is_white_def is_name_def is_in_name_def is_digit_def is_alpha_def code_def)
  have 1: "scan_reaches ?ev ''a+'' ?m (at_text ''+'' False [?t] [TOK_LPAREN] TOK_NUM) ?m"
    by (rule scan_reaches.step [OF scan_reaches.start])
      (use c in \<open>simp add: scan_step_def skip_whitespace_def endofname_def push_num_def\<close>)
  have 2: "scan_reaches ?ev ''a+'' ?m (at_text [] False [?t] [TOK_ADD, TOK_LPAREN] TOK_ADD) ?m"
    by (rule scan_reaches.step [OF 1])
      (use c in \<open>simp add: scan_step_def skip_whitespace_def next_operator_def op_tokens_def operator_step_def push_oper_def tok_vals prec_vals
        PREC_def fix_assignment_prec_def is_right_associative_def pop_opers.simps\<close>)
  show ?thesis using scan_state_well_typed [OF 2] by (simp add: numeral_2_eq_2)
qed

end
