(* ===== verification/Math_Recursion.thy ===== *)
theory Math_Recursion
  imports Math_States
begin

text \<open>
  Names whose values are expressions are evaluated in turn.  The list of the names that are being evaluated ends the
  recursion.
\<close>

section \<open>The loop keeps what its lookups keep\<close>

definition stepped_ok :: "('s arith_state_t \<Rightarrow> bool) \<Rightarrow> (math_error option \<Rightarrow> bool) \<Rightarrow> 's step \<Rightarrow> bool" where
  "stepped_ok J E r \<longleftrightarrow> (case r of Continue sc m \<Rightarrow> J m | Return e v m \<Rightarrow> J m \<and> E e)"

lemma stepped_ok_simps [simp]: "stepped_ok J E (Continue sc m) = J m" "stepped_ok J E (Return e v m) = (J m \<and> E e)"
  by (simp_all add: stepped_ok_def)

text \<open>The laws that a property of the state and one of the messages obey during an evaluation.\<close>

locale kept =
  fixes ev :: "'s evaluator" and N :: "string \<Rightarrow> bool" and J :: "'s arith_state_t \<Rightarrow> bool" and E :: "math_error option \<Rightarrow> bool"
  assumes lookup_keeps: "J m \<Longrightarrow> named N [t] \<Longrightarrow> sat (\<lambda>(e, t', m'). J m' \<and> E e \<and> var t' = var t) (arith_lookup_val ev t m)"
    and assign_keeps: "J m \<Longrightarrow> N x \<Longrightarrow> J (m\<lparr>shell := setvar m x (print_lld v) (shell m)\<rparr>)"
    and messages: "e \<noteq> Some Stack_exhausted \<Longrightarrow> E e"
begin

lemma operator_keeps:
  assumes "named N (nums sc)" and "lasttok sc \<in> {TOK_NUM, TOK_POST_INC, TOK_POST_DEC} \<longrightarrow> nums sc \<noteq> []" and "J m"
  shows "sat (stepped_ok J E) (operator_step ev k oper sc m)"
proof -
  define last where "last = (if lasttok sc = TOK_POST_INC \<or> lasttok sc = TOK_POST_DEC then TOK_NUM else lasttok sc)"
  define op where "op = (if last \<noteq> TOK_NUM then as_unary oper else oper)"
  have push: "sat (stepped_ok J E) (push_oper k op sc' \<bind> (\<lambda>sc. Some (Continue sc m')))" if "J m'" for sc' m'
    using that by (auto simp: push_oper_def stepped_ok_def sat_def Option.bind_eq_Some_conv)
  show ?thesis
  proof (cases "0 < PREC op \<and> PREC op < UNARYPREC \<or> PREC op = SPEC_PREC")
    case True
    show ?thesis
    proof (cases "last = TOK_NUM")
      case False
      then have "operator_step ev k oper sc m = Some (Return (Some Syntax_error) (- 1) m)"
        using True unfolding operator_step_def Let_def last_def [symmetric] op_def [symmetric] by (simp only: if_True not_False_eq_True)
      then show ?thesis using assms(3) messages by (simp add: stepped_ok_def)
    next
      case num: True
      have ns: "nums sc \<noteq> []" "named N (nums sc)" using assms(1,2) num by (auto simp: last_def split: if_splits)
      have "sat (popped_ok N J E (opers sc)) (pop_opers ev op (opers sc) (nums sc) m)"
        by (rule pop_sat [where J = J and E = E and N = N, OF lookup_keeps assign_keeps messages assms(3) ns(2,1)])
      then have "sat (stepped_ok J E) (pop_opers ev op (opers sc) (nums sc) m \<bind> (\<lambda>r. case r of Fail e m \<Rightarrow> Some (Return (Some e) (- 1) m)
           | Closed stack ns m \<Rightarrow> Some (Continue (sc\<lparr>opers := stack, nums := ns, lasttok := TOK_NUM\<rparr>) m)
           | Push stack ns m \<Rightarrow> push_oper k op (sc\<lparr>opers := stack, nums := ns\<rparr>) \<bind> (\<lambda>sc. Some (Continue sc m))))"
        by (rule sat_bind) (auto simp: popped_ok_def intro!: push split: popped.splits)
      moreover have o: "op = oper" using num by (simp add: op_def)
      ultimately show ?thesis using True num unfolding operator_step_def Let_def o by (simp add: last_def [symmetric])
    qed
  next
    case False
    have "operator_step ev k oper sc m = push_oper k op sc \<bind> (\<lambda>sc. Some (Continue sc m))"
      unfolding operator_step_def Let_def last_def [symmetric] op_def [symmetric] using False by (simp only: if_False)
    then show ?thesis using push [OF assms(3)] by simp
  qed
qed

lemma step_keeps:
  assumes "well_typed N n sc" and "J m"
  shows "sat (stepped_ok J E) (scan_step ev k null sc m)"
proof (cases "skip_whitespace (expr sc)")
  case Nil
  then show ?thesis using assms(2) messages by (auto simp: scan_step_def stepped_ok_def split: list.split)
next
  case (Cons c s)
  have push: "sat (stepped_ok J E) (push_num k t sc' \<bind> (\<lambda>sc. Some (Continue sc m)))" for t sc'
    using assms(2) by (auto simp: push_num_def stepped_ok_def sat_def Option.bind_eq_Some_conv)
  have rest: "sat (stepped_ok J E) (operator_step ev k oper (sc\<lparr>expr := r\<rparr>) m)" for oper r
    by (rule operator_keeps) (use assms in \<open>simp_all add: well_typed_def\<close>)
  show ?thesis using assms(2) push rest messages Cons
    by (auto simp: scan_step_def stepped_ok_def split_def Let_def split: option.split)
qed

text \<open>The whole loop.\<close>

lemma loop_keeps:
  assumes "well_typed N n sc" and "J m"
  shows "sat (\<lambda>(v, m'). \<exists>m1 e. J m1 \<and> E e \<and> m' = m1\<lparr>errmsg := e\<rparr>) (scan_loop ev k null sc m)"
  using assms
proof (induction "to_do sc" arbitrary: sc m rule: less_induct)
  case less
  have step: "sat (stepped_ok J E) (scan_step ev k null sc m)" by (rule step_keeps [OF less.prems])
  show ?case
  proof (cases "scan_step ev k null sc m")
    case None
    then show ?thesis by (simp add: scan_loop.simps)
  next
    case (Some r)
    show ?thesis
    proof (cases r)
      case (Continue sc' m')
      note s = Some [unfolded Continue]
      have "sat (\<lambda>(v, m'). \<exists>m1 e. J m1 \<and> E e \<and> m' = m1\<lparr>errmsg := e\<rparr>) (scan_loop ev k null sc' m')"
        by (rule less.hyps [OF scan_step_decreases [OF s] scan_step_keeps_types [OF less.prems(1) s]]) (use step s in simp)
      then show ?thesis using s by (simp add: scan_loop.simps [of ev k null sc])
    next
      case (Return e v m')
      then show ?thesis using Some step by (auto simp: scan_loop.simps [of ev k null sc])
    qed
  qed
qed

end

text \<open>Every stage of a nested evaluation is one of these; an evaluation without names needs no law of the shell.\<close>

interpretation plain: kept ev "\<lambda>x. False" J "\<lambda>e. e \<noteq> Some Stack_exhausted" for ev and J :: "'s arith_state_t \<Rightarrow> bool"
proof
  fix m :: "'s arith_state_t" and t
  assume "J m" "named (\<lambda>x. False) [t]"
  then show "sat (\<lambda>(e, t', m'). J m' \<and> e \<noteq> Some Stack_exhausted \<and> var t' = var t) (arith_lookup_val ev t m)"
    by (simp add: named_def arith_lookup_val_def)
qed simp_all

section \<open>The recursion ends\<close>

text \<open>The shell's functions read what they wrote; outside of \<open>V\<close> no value has a name in it.\<close>

definition lawful :: "'s arith_state_t \<Rightarrow> bool" where
  "lawful m \<longleftrightarrow> (\<forall>x y v s. lookupvar m x (setvar m y v s) = (if x = y then Some v else lookupvar m x s))"

definition settled :: "string set \<Rightarrow> string list \<Rightarrow> 's arith_state_t \<Rightarrow> bool" where
  "settled V L m \<longleftrightarrow> lawful m \<and> list_of_recursed_names m = L \<and>
     (\<forall>x v. x \<notin> V \<longrightarrow> lookupvar m x (shell m) = Some v \<longrightarrow> (\<forall>c \<in> set v. \<not> is_name c))"

lemma decimal_no_name: "c \<in> set (decimal n) \<Longrightarrow> \<not> is_name c"
  using decimal_all_digits [of c n] by (auto simp: is_name_def is_alpha_def is_digit_def)

lemma print_no_name: "c \<in> set (print_lld w) \<Longrightarrow> \<not> is_name c"
  using decimal_no_name by (auto simp: print_lld_def is_name_def is_alpha_def code_def split: if_splits)

lemma settled_errmsg: "settled V L (m\<lparr>errmsg := e\<rparr>) = settled V L m"
  by (simp add: settled_def lawful_def)

lemma settled_names: "settled V L m \<Longrightarrow> settled V L' (m\<lparr>list_of_recursed_names := L'\<rparr>)"
  by (simp add: settled_def lawful_def)

lemma settled_assign: "settled V L m \<Longrightarrow> settled V L (m\<lparr>shell := setvar m x (print_lld v) (shell m)\<rparr>)"
  using print_no_name by (auto simp: settled_def lawful_def)

abbreviation ends_settled :: "string set \<Rightarrow> string list \<Rightarrow> (arith_t \<times> 's arith_state_t) option \<Rightarrow> bool" where
  "ends_settled V L \<equiv> sat (\<lambda>(v, m'). settled V L m' \<and> errmsg m' \<noteq> Some Stack_exhausted)"

lemma start_typed: "spells N e \<Longrightarrow> well_typed N (length e) (at_text e False [] [TOK_LPAREN] TOK_LPAREN)"
  by (simp add: well_typed_def stackable_def op_tokens_def named_def tok_vals)

lemma evaluate_keeps:
  fixes m :: "'s arith_state_t"
  assumes "kept (evaluate_string d :: 's evaluator) N (settled V L) (\<lambda>e. e \<noteq> Some Stack_exhausted)" and "spells N e" and "settled V L m"
  shows "ends_settled V L (evaluate_string (Suc d) e m)"
proof -
  have "spells N (skip_whitespace e)" by (rule spells_subset [OF assms(2) skip_whitespace_subset])
  note keep = kept.loop_keeps [OF assms(1) start_typed [OF this] assms(3)]
  show ?thesis unfolding evaluate_string.simps Let_def
    by (rule sat_mono [OF keep]) (auto simp: settled_errmsg)
qed

lemma evaluate_plain:
  assumes "\<forall>c \<in> set e. \<not> is_name c" and "settled V L m"
  shows "ends_settled V L (evaluate_string (Suc d) e m)"
  by (rule evaluate_keeps [OF plain.kept_axioms _ assms(2)]) (use assms(1) in \<open>auto simp: spells_def\<close>)

lemma lookup_settled:
  assumes "settled V L m" and "\<And>x v. lookupvar m x (shell m) = Some v \<Longrightarrow> x \<notin> set L \<Longrightarrow> ends_settled V (x # L) (ev v (m\<lparr>list_of_recursed_names := x # L\<rparr>))"
  shows "sat (\<lambda>(e, t', m'). settled V L m' \<and> e \<noteq> Some Stack_exhausted \<and> var t' = var t) (arith_lookup_val ev t m)"
proof -
  have L: "list_of_recursed_names m = L" using assms(1) by (simp add: settled_def)
  show ?thesis
  proof (cases "var t")
    case None
    then show ?thesis using assms(1) by (simp add: arith_lookup_val_def)
  next
    case (Some x)
    show ?thesis
    proof (cases "lookupvar m x (shell m)")
      case None
      then show ?thesis using Some assms(1) by (simp add: arith_lookup_val_def)
    next
      case v: (Some v)
      show ?thesis
      proof (cases "x \<in> set L")
        case True
        then show ?thesis using Some v L assms(1) by (simp add: arith_lookup_val_def)
      next
        case False
        have "arith_lookup_val ev t m = ev v (m\<lparr>list_of_recursed_names := x # L\<rparr>) \<bind>
            (\<lambda>(v, m'). Some (errmsg m', t\<lparr>val := v\<rparr>, m'\<lparr>list_of_recursed_names := L\<rparr>))"
          using False Some v L by (simp add: arith_lookup_val_def)
        then show ?thesis by (auto intro!: sat_bind [OF assms(2) [OF v False]] settled_names)
      qed
    qed
  qed
qed

lemma evaluate_settled:
  fixes m :: "'s arith_state_t"
  assumes "finite V" and "card (V - set L) + 2 \<le> d" and "settled V L m"
  shows "ends_settled V L (evaluate_string d e m)"
  using assms(2,3)
proof (induction d arbitrary: L m e)
  case 0
  then show ?case by simp
next
  case (Suc d)
  obtain d' where d: "d = Suc d'" using Suc.prems(1) by (cases d) auto
  have "kept (evaluate_string d :: 's evaluator) name (settled V L) (\<lambda>e. e \<noteq> Some Stack_exhausted)"
  proof (rule kept.intro)
    fix m :: "'s arith_state_t" and t
    assume m: "settled V L m" and "named name [t]"
    show "sat (\<lambda>(e, t', m'). settled V L m' \<and> e \<noteq> Some Stack_exhausted \<and> var t' = var t) (arith_lookup_val (evaluate_string d) t m)"
    proof (rule lookup_settled [OF m])
      fix x v
      assume x: "lookupvar m x (shell m) = Some v" "x \<notin> set L"
      note m' = settled_names [OF m, of "x # L"]
      show "ends_settled V (x # L) (evaluate_string d v (m\<lparr>list_of_recursed_names := x # L\<rparr>))"
      proof (cases "x \<in> V")
        case True
        then have "V - set L = insert x (V - set (x # L))" "x \<notin> V - set (x # L)" using x by auto
        then have "card (V - set L) = Suc (card (V - set (x # L)))" using assms(1) by (metis card_insert_disjoint finite_Diff)
        then show ?thesis using Suc.IH [OF _ m'] Suc.prems(1) by simp
      next
        case False
        then have "\<forall>c \<in> set v. \<not> is_name c" using m x by (auto simp: settled_def)
        then show ?thesis using evaluate_plain [OF _ m'] d by simp
      qed
    qed
  qed (simp_all add: settled_assign)
  then show ?case by (rule evaluate_keeps) (use Suc.prems in \<open>auto simp: spells_def\<close>)
qed

text \<open>C34: the evaluation of an expression always ends, also when values of variables are expressions that name variables
  again, themselves or each other, and when the expressions assign: with a C stack for two more nested evaluations than
  there are variables that are set, no nested evaluation is left without stack.  The list of the names that are being
  evaluated stops every cycle and is empty again at the end.  (\<open>None\<close> is an overflow of the stack of
  numbers or a shift out of range, not a missing answer.)\<close>

theorem arith_always_answers:
  assumes "lawful m" and "finite {x. lookupvar m x (shell m) \<noteq> None}" and "card {x. lookupvar m x (shell m) \<noteq> None} + 2 \<le> depth"
  shows "arith depth e m = None \<or>
    (\<exists>v m'. arith depth e m = Some (v, m') \<and> errmsg m' \<noteq> Some Stack_exhausted \<and> list_of_recursed_names m' = [])"
proof -
  let ?V = "{x. lookupvar m x (shell m) \<noteq> None}" and ?m = "m\<lparr>errmsg := None, list_of_recursed_names := []\<rparr>"
  have "settled ?V [] ?m" using assms(1) by (simp add: settled_def lawful_def)
  then have "ends_settled ?V [] (evaluate_string depth e ?m)"
    by (rule evaluate_settled [OF assms(2), rotated]) (use assms(3) in simp)
  then show ?thesis by (cases "evaluate_string depth e ?m") (auto simp: arith_def settled_def)
qed

theorem arith_always_answers_witness:
  "\<exists>v m'. arith 4 ''a'' \<lparr>errmsg = None, lookupvar = (\<lambda>x s. s x), setvar = (\<lambda>x v s. s(x \<mapsto> v)), list_of_recursed_names = [],
      shell = [''a'' \<mapsto> ''b'', ''b'' \<mapsto> ''a'']\<rparr> = Some (v, m') \<and> errmsg m' \<noteq> Some Stack_exhausted \<and> list_of_recursed_names m' = []"
proof -
  let ?m = "\<lparr>errmsg = None, lookupvar = (\<lambda>x s. s x), setvar = (\<lambda>x v s. s(x \<mapsto> v)), list_of_recursed_names = [],
      shell = [''a'' \<mapsto> ''b'', ''b'' \<mapsto> ''a'']\<rparr>"
  have "{x. lookupvar ?m x (shell ?m) \<noteq> None} = {''a'', ''b''}" by auto
  then have a: "arith 4 ''a'' ?m = None \<or> (\<exists>v m'. arith 4 ''a'' ?m = Some (v, m') \<and> errmsg m' \<noteq> Some Stack_exhausted \<and> list_of_recursed_names m' = [])"
    by (intro arith_always_answers) (simp_all add: lawful_def)
  have "\<not> Option.is_none (arith 4 ''a'' ?m)" by code_simp
  then show ?thesis using a by (auto simp: Option.is_none_def)
qed

end
