(* ===== verification/Hash_Context.thy ===== *)
theory Hash_Context
  imports User_Process
begin

text \<open>
  The message digests of BusyBox, \<open>libbb/hash_md5_sha.c\<close>: words, byte order and the state of a computation.
  Buffers are lists of bytes; the machine is little-endian, so a word that is read from or written to a buffer has its
  low byte first.
\<close>

section \<open>Words\<close>

definition rotl32 :: "u32 \<Rightarrow> nat \<Rightarrow> u32" where
  "rotl32 x n = push_bit n x OR drop_bit (32 - n) x"

definition rotr32 :: "u32 \<Rightarrow> nat \<Rightarrow> u32" where
  "rotr32 x n = drop_bit n x OR push_bit (32 - n) x"

definition rotr64 :: "u64 \<Rightarrow> nat \<Rightarrow> u64" where
  "rotr64 x n = drop_bit n x OR push_bit (64 - n) x"

definition rotl64 :: "u64 \<Rightarrow> nat \<Rightarrow> u64" where
  "rotl64 x n = push_bit n x OR drop_bit (64 - n) x"

text \<open>\<open>SWAP_BE32\<close> and \<open>SWAP_BE64\<close> on a little-endian machine.\<close>

definition swap_be32 :: "u32 \<Rightarrow> u32" where
  "swap_be32 w = le 0 4 (rev (put_le 4 w))"

definition swap_be64 :: "u64 \<Rightarrow> u64" where
  "swap_be64 w = le 0 8 (rev (put_le 8 w))"

text \<open>The words that a buffer holds.\<close>

definition words32 :: "bytes \<Rightarrow> u32 list" where
  "words32 b = map (\<lambda>i. le (4 * i) 4 b) [0..<length b div 4]"

definition words64 :: "bytes \<Rightarrow> u64 list" where
  "words64 b = map (\<lambda>i. le (8 * i) 8 b) [0..<length b div 8]"

text \<open>\<open>memcpy\<close> into a buffer at a position.\<close>

definition put_at :: "nat \<Rightarrow> bytes \<Rightarrow> bytes \<Rightarrow> bytes" where
  "put_at pos bs b = take pos b @ bs @ drop (pos + length bs) b"

text \<open>The shifts rotate.\<close>

lemma shifts_rotr:
  fixes x :: "'a::len word"
  assumes "0 < n" and "n < LENGTH('a)"
  shows "drop_bit n x OR push_bit (LENGTH('a) - n) x = word_rotr n x"
proof (rule bit_word_eqI)
  fix k assume k: "k < LENGTH('a)"
  have top: "\<not> bit x i" if "LENGTH('a) \<le> i" for i using that by (auto dest: bit_imp_le_length)
  show "bit (drop_bit n x OR push_bit (LENGTH('a) - n) x) k = bit (word_rotr n x) k"
  proof (cases "k + n < LENGTH('a)")
    case True
    then have "\<not> LENGTH('a) - n \<le> k" by simp
    then show ?thesis using k True by (simp add: bit_simps add.commute)
  next
    case False
    then have m: "(k + n) mod LENGTH('a) = k + n - LENGTH('a)" using k assms(2) by (simp add: mod_if)
    show ?thesis using False k assms top [of "k + n"] by (auto simp: bit_simps m add.commute)
  qed
qed

lemma shifts_rotl:
  fixes x :: "'a::len word"
  assumes "0 < n" and "n < LENGTH('a)"
  shows "push_bit n x OR drop_bit (LENGTH('a) - n) x = word_rotl n x"
proof (rule bit_word_eqI)
  fix k assume k: "k < LENGTH('a)"
  have top: "\<not> bit x i" if "LENGTH('a) \<le> i" for i using that by (auto dest: bit_imp_le_length)
  show "bit (push_bit n x OR drop_bit (LENGTH('a) - n) x) k = bit (word_rotl n x) k"
  proof (cases "n \<le> k")
    case True
    then have m: "(k + LENGTH('a) - n) mod LENGTH('a) = k - n" using k assms(2) by (simp add: mod_if)
    have "LENGTH('a) \<le> LENGTH('a) - n + k" using True assms(2) by simp
    then show ?thesis using True k assms top [of "LENGTH('a) - n + k"] by (auto simp: bit_simps m)
  next
    case False
    then have m: "(k + LENGTH('a) - n) mod LENGTH('a) = LENGTH('a) - n + k" using k assms by (subst mod_less) linarith+
    show ?thesis using False k assms by (auto simp: bit_simps m)
  qed
qed

lemma rotl32_word_rotl: "0 < n \<Longrightarrow> n < 32 \<Longrightarrow> rotl32 x n = word_rotl n x"
  and rotr32_word_rotr: "0 < n \<Longrightarrow> n < 32 \<Longrightarrow> rotr32 x n = word_rotr n x"
  using shifts_rotl [of n x] shifts_rotr [of n x] by (simp_all add: rotl32_def rotr32_def)

lemma rotl64_word_rotl: "0 < n \<Longrightarrow> n < 64 \<Longrightarrow> rotl64 y n = word_rotl n y"
  and rotr64_word_rotr: "0 < n \<Longrightarrow> n < 64 \<Longrightarrow> rotr64 y n = word_rotr n y"
  using shifts_rotl [of n y] shifts_rotr [of n y] by (simp_all add: rotl64_def rotr64_def)

lemma put_at_length [simp]: "pos + length bs \<le> length b \<Longrightarrow> length (put_at pos bs b) = length b"
  by (simp add: put_at_def)

lemma upt_split: "i \<le> j \<Longrightarrow> j \<le> k \<Longrightarrow> [i..<k] = [i..<j] @ [j..<k]"
  by (metis le_add_diff_inverse upt_add_eq_append)

section \<open>Contexts\<close>

text \<open>\<open>process_block\<close> is one of three functions.\<close>

datatype block_fn = Md5_block | Sha1_block | Sha256_block

record md5_ctx_t =
  wbuffer :: bytes
  process_block :: block_fn
  total64 :: u64
  hash :: "u32 list"

record sha512_ctx_t =
  total64_lo :: u64
  total64_hi :: u64
  hash64 :: "u64 list"
  wbuffer128 :: bytes

record sha3_ctx_t =
  state :: "u64 list"
  bytes_queued :: u32
  input_block_bytes :: u32

end
