(* ===== verification/Hash_Md5.thy ===== *)
theory Hash_Md5
  imports Hash_Context
begin

text \<open>
  The MD5 block function as it is configured (\<open>MD5_SMALL = 1\<close>: each round is a loop of four operations), and the
  definition of RFC 1321.
\<close>

definition FF :: "u32 \<Rightarrow> u32 \<Rightarrow> u32 \<Rightarrow> u32" where
  "FF b c d = d XOR (b AND (c XOR d))"

definition FG :: "u32 \<Rightarrow> u32 \<Rightarrow> u32 \<Rightarrow> u32" where
  "FG b c d = FF d b c"

definition FH :: "u32 \<Rightarrow> u32 \<Rightarrow> u32 \<Rightarrow> u32" where
  "FH b c d = b XOR c XOR d"

definition FI :: "u32 \<Rightarrow> u32 \<Rightarrow> u32 \<Rightarrow> u32" where
  "FI b c d = c XOR (b OR NOT d)"

definition C_array :: "u32 list" where
  "C_array = [
     0xd76aa478, 0xe8c7b756, 0x242070db, 0xc1bdceee, 0xf57c0faf, 0x4787c62a, 0xa8304613, 0xfd469501,
     0x698098d8, 0x8b44f7af, 0xffff5bb1, 0x895cd7be, 0x6b901122, 0xfd987193, 0xa679438e, 0x49b40821,
     0xf61e2562, 0xc040b340, 0x265e5a51, 0xe9b6c7aa, 0xd62f105d, 0x02441453, 0xd8a1e681, 0xe7d3fbc8,
     0x21e1cde6, 0xc33707d6, 0xf4d50d87, 0x455a14ed, 0xa9e3e905, 0xfcefa3f8, 0x676f02d9, 0x8d2a4c8a,
     0xfffa3942, 0x8771f681, 0x6d9d6122, 0xfde5380c, 0xa4beea44, 0x4bdecfa9, 0xf6bb4b60, 0xbebfbc70,
     0x289b7ec6, 0xeaa127fa, 0xd4ef3085, 0x4881d05, 0xd9d4d039, 0xe6db99e5, 0x1fa27cf8, 0xc4ac5665,
     0xf4292244, 0x432aff97, 0xab9423a7, 0xfc93a039, 0x655b59c3, 0x8f0ccc92, 0xffeff47d, 0x85845dd1,
     0x6fa87e4f, 0xfe2ce6e0, 0xa3014314, 0x4e0811a1, 0xf7537e82, 0xbd3af235, 0x2ad7d2bb, 0xeb86d391]"

definition P_array :: "nat list" where
  "P_array = [
     1, 6, 11, 0, 5, 10, 15, 4, 9, 14, 3, 8, 13, 2, 7, 12,
     5, 8, 11, 14, 1, 4, 7, 10, 13, 0, 3, 6, 9, 12, 15, 2,
     0, 7, 14, 5, 12, 3, 10, 1, 8, 15, 6, 13, 4, 11, 2, 9]"

type_synonym md5_state = "u32 \<times> u32 \<times> u32 \<times> u32"

text \<open>\<open>OP(f, a, b, c, d, k, s, T)\<close> with \<open>w = words[k]\<close>: the new value of \<open>a\<close>.\<close>

definition md5_op :: "(u32 \<Rightarrow> u32 \<Rightarrow> u32 \<Rightarrow> u32) \<Rightarrow> u32 \<Rightarrow> u32 \<Rightarrow> u32 \<Rightarrow> u32 \<Rightarrow> u32 \<Rightarrow> nat \<Rightarrow> u32 \<Rightarrow> u32" where
  "md5_op f a b c d w s T = rotl32 (a + (f b c d + w + T)) s + b"

text \<open>One iteration of the loop of a round, on the next four words and constants.\<close>

fun md5_four :: "(u32 \<Rightarrow> u32 \<Rightarrow> u32 \<Rightarrow> u32) \<Rightarrow> nat list \<Rightarrow> u32 list \<Rightarrow> u32 list \<Rightarrow> md5_state \<Rightarrow> md5_state" where
  "md5_four f ss ws Ts (A, B, C, D) =
     (let A = md5_op f A B C D (ws ! 0) (ss ! 0) (Ts ! 0);
          D = md5_op f D A B C (ws ! 1) (ss ! 1) (Ts ! 1);
          C = md5_op f C D A B (ws ! 2) (ss ! 2) (Ts ! 2);
          B = md5_op f B C D A (ws ! 3) (ss ! 3) (Ts ! 3)
      in (A, B, C, D))"

definition md5_round :: "(u32 \<Rightarrow> u32 \<Rightarrow> u32 \<Rightarrow> u32) \<Rightarrow> nat list \<Rightarrow> u32 list \<Rightarrow> u32 list \<Rightarrow> md5_state \<Rightarrow> md5_state" where
  "md5_round f ss ws Ts st = fold (\<lambda>i. md5_four f ss (drop (4 * i) ws) (drop (4 * i) Ts)) [0..<4] st"

definition md5_rounds :: "u32 list \<Rightarrow> md5_state \<Rightarrow> md5_state" where
  "md5_rounds words st =
     (let picked = map (\<lambda>k. words ! k) P_array;
          st = md5_round FF [7, 12, 17, 22] words C_array st;
          st = md5_round FG [5, 9, 14, 20] picked (drop 16 C_array) st;
          st = md5_round FH [4, 11, 16, 23] (drop 16 picked) (drop 32 C_array) st
      in md5_round FI [6, 10, 15, 21] (drop 32 picked) (drop 48 C_array) st)"

definition md5_process_block64 :: "md5_ctx_t \<Rightarrow> md5_ctx_t" where
  "md5_process_block64 ctx =
     (let words = words32 (wbuffer ctx);
          h = hash ctx;
          (A, B, C, D) = md5_rounds words (h ! 0, h ! 1, h ! 2, h ! 3)
      in ctx\<lparr>hash := h[0 := h ! 0 + A, 1 := h ! 1 + B, 2 := h ! 2 + C, 3 := h ! 3 + D]\<rparr>)"

section \<open>RFC 1321\<close>

text \<open>Step \<open>i\<close> of 64 uses the function \<open>md5_F i\<close>, the word \<open>md5_k i\<close> and the shift \<open>md5_s i\<close>; the constants are those of
  the table in the RFC.\<close>

definition md5_F :: "nat \<Rightarrow> u32 \<Rightarrow> u32 \<Rightarrow> u32 \<Rightarrow> u32" where
  "md5_F i x y z = (if i < 16 then (x AND y) OR (NOT x AND z) else if i < 32 then (x AND z) OR (y AND NOT z)
     else if i < 48 then x XOR y XOR z else y XOR (x OR NOT z))"

definition md5_k :: "nat \<Rightarrow> nat" where
  "md5_k i = (if i < 16 then i else if i < 32 then (5 * i + 1) mod 16 else if i < 48 then (3 * i + 5) mod 16 else 7 * i mod 16)"

definition md5_s :: "nat \<Rightarrow> nat" where
  "md5_s i = [[7, 12, 17, 22], [5, 9, 14, 20], [4, 11, 16, 23], [6, 10, 15, 21]] ! (i div 16) ! (i mod 4)"

definition md5_step :: "u32 list \<Rightarrow> nat \<Rightarrow> md5_state \<Rightarrow> md5_state" where
  "md5_step X i = (\<lambda>(a, b, c, d). (d, b + word_rotl (md5_s i) (a + md5_F i b c d + X ! md5_k i + C_array ! i), b, c))"

definition md5_compress :: "bytes \<Rightarrow> u32 list \<Rightarrow> u32 list" where
  "md5_compress b h = (case fold (md5_step (words32 b)) [0..<64] (h ! 0, h ! 1, h ! 2, h ! 3) of
     (A, B, C, D) \<Rightarrow> [h ! 0 + A, h ! 1 + B, h ! 2 + C, h ! 3 + D])"

section \<open>The block function is that of the RFC\<close>

lemma md5_functions:
  "FF x y z = (x AND y) OR (NOT x AND z)" "FG x y z = (x AND z) OR (y AND NOT z)" "FH x y z = x XOR y XOR z" "FI x y z = y XOR (x OR NOT z)"
  by (auto intro!: bit_word_eqI simp: FF_def FG_def FH_def FI_def bit_simps)

lemma md5_four_steps:
  assumes "md5_F i = f \<and> md5_F (i + 1) = f \<and> md5_F (i + 2) = f \<and> md5_F (i + 3) = f"
    and "\<forall>j < 4. ss ! j = md5_s (i + j) \<and> 0 < ss ! j \<and> ss ! j < 32 \<and> ws ! j = X ! md5_k (i + j) \<and> Ts ! j = C_array ! (i + j)"
  shows "md5_four f ss ws Ts st = fold (md5_step X) [i, i + 1, i + 2, i + 3] st"
proof -
  have j: "ss ! j = md5_s (i + j)" "0 < ss ! j" "ss ! j < 32" "ws ! j = X ! md5_k (i + j)" "Ts ! j = C_array ! (i + j)" if "j < 4" for j
    using assms(2) that by blast+
  obtain A B C D where st: "st = (A, B, C, D)" by (cases st) auto
  have op: "md5_op f a b c d (ws ! j) (ss ! j) (Ts ! j) = b + word_rotl (md5_s (i + j)) (a + f b c d + X ! md5_k (i + j) + C_array ! (i + j))"
    if "j < 4" for a b c d j
    using j [OF that] by (simp add: md5_op_def rotl32_word_rotl ac_simps)
  show ?thesis using assms(1) op [of 0] op [of 1] op [of 2] op [of 3] by (simp add: st md5_step_def Let_def)
qed

lemma md5_round_steps:
  assumes "r < 4" and "f = md5_F (16 * r)"
    and "ss = [[7, 12, 17, 22], [5, 9, 14, 20], [4, 11, 16, 23], [6, 10, 15, 21]] ! r"
    and "\<forall>j < 16. ws ! j = X ! md5_k (16 * r + j) \<and> Ts ! j = C_array ! (16 * r + j)" and "16 \<le> length ws" and "16 \<le> length Ts"
  shows "md5_round f ss ws Ts st = fold (md5_step X) [16 * r..<16 * r + 16] st"
proof -
  have f: "md5_F (16 * r + j) = f" if "j < 16" for j
    using that assms(1,2) by (auto simp: md5_F_def fun_eq_iff)
  have s: "ss ! j = md5_s (16 * r + (4 * q + j)) \<and> 0 < ss ! j \<and> ss ! j < 32" if "j < 4" "q < 4" for j q
  proof -
    have m: "(4 * k + j) mod 4 = j" for k using that(1) by simp
    have "(16 * r + (4 * q + j)) mod 4 = j" using m [of "4 * r + q"] by (simp add: algebra_simps)
    moreover have "(16 * r + (4 * q + j)) div 16 = r" using that by auto
    moreover have "j = 0 \<or> j = 1 \<or> j = 2 \<or> j = 3" "r = 0 \<or> r = 1 \<or> r = 2 \<or> r = 3" using that(1) assms(1) by auto
    ultimately show ?thesis using assms(3) by (auto simp: md5_s_def)
  qed
  have four: "md5_four f ss (drop (4 * q) ws) (drop (4 * q) Ts) st = fold (md5_step X) [16 * r + 4 * q..<16 * r + 4 * q + 4] st" if "q < 4" for q st
  proof -
    have "md5_four f ss (drop (4 * q) ws) (drop (4 * q) Ts) st =
        fold (md5_step X) [16 * r + 4 * q, 16 * r + 4 * q + 1, 16 * r + 4 * q + 2, 16 * r + 4 * q + 3] st"
    proof (rule md5_four_steps)
      show "md5_F (16 * r + 4 * q) = f \<and> md5_F (16 * r + 4 * q + 1) = f \<and> md5_F (16 * r + 4 * q + 2) = f \<and> md5_F (16 * r + 4 * q + 3) = f"
        using f [of "4 * q"] f [of "4 * q + 1"] f [of "4 * q + 2"] f [of "4 * q + 3"] that by (simp add: add.assoc)
      show "\<forall>j < 4. ss ! j = md5_s (16 * r + 4 * q + j) \<and> 0 < ss ! j \<and> ss ! j < 32 \<and> drop (4 * q) ws ! j = X ! md5_k (16 * r + 4 * q + j) \<and>
          drop (4 * q) Ts ! j = C_array ! (16 * r + 4 * q + j)"
      proof (intro allI impI)
        fix j :: nat
        assume j: "j < 4"
        have w: "ws ! (4 * q + j) = X ! md5_k (16 * r + (4 * q + j))" "Ts ! (4 * q + j) = C_array ! (16 * r + (4 * q + j))"
          using assms(4) j that by auto
        show "ss ! j = md5_s (16 * r + 4 * q + j) \<and> 0 < ss ! j \<and> ss ! j < 32 \<and> drop (4 * q) ws ! j = X ! md5_k (16 * r + 4 * q + j) \<and>
            drop (4 * q) Ts ! j = C_array ! (16 * r + 4 * q + j)"
          unfolding add.assoc using s [OF j that] w assms(5,6) that by simp
      qed
    qed
    also have "[16 * r + 4 * q, 16 * r + 4 * q + 1, 16 * r + 4 * q + 2, 16 * r + 4 * q + 3] = [16 * r + 4 * q..<16 * r + 4 * q + 4]"
      by (simp add: upt_rec)
    finally show ?thesis .
  qed
  have "[16 * r..<16 * r + 16] = [16 * r..<16 * r + 4] @ [16 * r + 4..<16 * r + 8] @ [16 * r + 8..<16 * r + 12] @ [16 * r + 12..<16 * r + 16]"
    by (simp add: upt_split [of "16 * r" "16 * r + 4" "16 * r + 16"] upt_split [of "16 * r + 4" "16 * r + 8" "16 * r + 16"]
      upt_split [of "16 * r + 8" "16 * r + 12" "16 * r + 16"])
  moreover have "[0..<4] = [0, 1, 2, 3 :: nat]" by (simp add: upt_rec)
  ultimately show ?thesis using four [of 0] four [of 1] four [of 2] four [of 3]
    by (simp add: md5_round_def add.commute [of 8] add.commute [of 12] add.commute [of 16])
qed

lemma md5_rounds_steps:
  assumes "length X = 16"
  shows "md5_rounds X st = fold (md5_step X) [0..<64] st"
proof -
  let ?p = "map (\<lambda>k. X ! k) P_array"
  have P: "P_array ! j = md5_k (16 + j)" if "j < 48" for j
  proof -
    have "map md5_k [16..<64] = P_array" by (simp add: upt_rec md5_k_def P_array_def)
    then have "P_array ! j = map md5_k [16..<64] ! j" by (simp only:)
    also have "\<dots> = md5_k (16 + j)" by (rule nth_map_upt) (use that in simp)
    finally show ?thesis .
  qed
  have lp: "length P_array = 48" "length C_array = 64" by (simp_all add: P_array_def C_array_def)
  have F: "FF = md5_F (16 * 0)" "FG = md5_F (16 * 1)" "FH = md5_F (16 * 2)" "FI = md5_F (16 * 3)"
    by (auto simp: fun_eq_iff md5_F_def md5_functions)
  have 0: "md5_round FF [7, 12, 17, 22] X C_array st = fold (md5_step X) [16 * 0..<16 * 0 + 16] st" for st
    by (rule md5_round_steps) (use F assms lp in \<open>simp_all add: md5_k_def\<close>)
  have 1: "md5_round FG [5, 9, 14, 20] ?p (drop 16 C_array) st = fold (md5_step X) [16 * 1..<16 * 1 + 16] st" for st
    by (rule md5_round_steps) (use F lp P in simp_all)
  have 2: "md5_round FH [4, 11, 16, 23] (drop 16 ?p) (drop 32 C_array) st = fold (md5_step X) [16 * 2..<16 * 2 + 16] st" for st
    by (rule md5_round_steps) (use F lp P in simp_all)
  have 3: "md5_round FI [6, 10, 15, 21] (drop 32 ?p) (drop 48 C_array) st = fold (md5_step X) [16 * 3..<16 * 3 + 16] st" for st
    by (rule md5_round_steps) (use F lp P in simp_all)
  have "[0..<64] = [16 * 0..<16 * 0 + 16] @ [16 * 1..<16 * 1 + 16] @ [16 * 2..<16 * 2 + 16] @ [16 * 3..<16 * 3 + 16 :: nat]"
    by (simp add: upt_split [of 0 16 64] upt_split [of 16 32 64] upt_split [of 32 48 64])
  then show ?thesis unfolding md5_rounds_def Let_def 0 1 2 3 by simp
qed


lemma md5_block:
  assumes "length (wbuffer ctx) = 64" and "length (hash ctx) = 8"
  shows "md5_process_block64 ctx = ctx\<lparr>hash := md5_compress (wbuffer ctx) (take 4 (hash ctx)) @ drop 4 (hash ctx)\<rparr>"
proof -
  have "length (words32 (wbuffer ctx)) = 16" using assms(1) by (simp add: words32_def)
  note r = md5_rounds_steps [OF this]
  obtain h0 h1 h2 h3 h where h: "hash ctx = h0 # h1 # h2 # h3 # h"
    using assms(2) by (auto simp: eval_nat_numeral length_Suc_conv)
  obtain A B C D where f: "fold (md5_step (words32 (wbuffer ctx))) [0..<64] (h0, h1, h2, h3) = (A, B, C, D)"
    by (cases "fold (md5_step (words32 (wbuffer ctx))) [0..<64] (h0, h1, h2, h3)") auto
  show ?thesis using f by (simp add: md5_process_block64_def md5_compress_def r h Let_def eval_nat_numeral)
qed

end
