(* ===== verification/Hash_Sha1.thy ===== *)
theory Hash_Sha1
  imports Hash_Context
begin

text \<open>
  The SHA-1 block function.  The code keeps the last 16 words of the message schedule, twice, in an array of 32, so
  that it can index behind the current word without a remainder; FIPS 180 defines a schedule of 80 words.
\<close>

definition rconsts :: "u32 list" where
  "rconsts = [0x5A827999, 0x6ED9EBA1, 0x8F1BBCDC, 0xCA62C1D6]"

type_synonym sha1_state = "u32 \<times> u32 \<times> u32 \<times> u32 \<times> u32"

text \<open>One operation of round \<open>i\<close>: \<open>j\<close> counts down from 19, \<open>cnt\<close> is the place in \<open>W\<close>.\<close>

fun sha1_op :: "nat \<Rightarrow> nat \<Rightarrow> sha1_state \<times> u32 list \<times> nat \<Rightarrow> sha1_state \<times> u32 list \<times> nat" where
  "sha1_op i j ((a, b, c, d, e), W, cnt) =
     (let work = c XOR d;
          work = (if i = 0 then (work AND b) XOR d else if i = 2 then ((b OR c) AND d) OR (b AND c) else work XOR b);
          (work, W) = (if i = 0 \<and> 3 < j then (work + W ! cnt, W)
            else let v = rotl32 (W ! (cnt + 13) XOR W ! (cnt + 8) XOR W ! (cnt + 2) XOR W ! cnt) 1 in (work + v, W[cnt + 16 := v, cnt := v]));
          work = work + (e + rotl32 a 5 + rconsts ! i)
      in ((work, a, rotl32 b 30, c, d), W, (cnt + 1) mod 16))"

definition sha1_round :: "nat \<Rightarrow> sha1_state \<times> u32 list \<times> nat \<Rightarrow> sha1_state \<times> u32 list \<times> nat" where
  "sha1_round i s = fold (\<lambda>j. sha1_op i j) (rev [0..<20]) s"

definition sha1_process_block64 :: "md5_ctx_t \<Rightarrow> md5_ctx_t" where
  "sha1_process_block64 ctx =
     (let words = map swap_be32 (words32 (wbuffer ctx));
          h = hash ctx;
          ((a, b, c, d, e), _) = fold sha1_round [0..<4] ((h ! 0, h ! 1, h ! 2, h ! 3, h ! 4), words @ words, 0)
      in ctx\<lparr>hash := h[0 := h ! 0 + a, 1 := h ! 1 + b, 2 := h ! 2 + c, 3 := h ! 3 + d, 4 := h ! 4 + e]\<rparr>)"

section \<open>FIPS 180\<close>

text \<open>The words of a block, high byte first.\<close>

definition be32 :: "bytes \<Rightarrow> u32 list" where
  "be32 b = map (\<lambda>i. le 0 4 (rev (take 4 (drop (4 * i) b)))) [0..<length b div 4]"

fun sha1_W :: "u32 list \<Rightarrow> nat \<Rightarrow> u32" where
  "sha1_W M t = (if t < 16 then M ! t else word_rotl 1 (sha1_W M (t - 3) XOR sha1_W M (t - 8) XOR sha1_W M (t - 14) XOR sha1_W M (t - 16)))"

declare sha1_W.simps [simp del]

definition sha1_f :: "nat \<Rightarrow> u32 \<Rightarrow> u32 \<Rightarrow> u32 \<Rightarrow> u32" where
  "sha1_f t x y z = (if t < 20 then (x AND y) XOR (NOT x AND z) else if t < 40 then x XOR y XOR z
     else if t < 60 then (x AND y) XOR (x AND z) XOR (y AND z) else x XOR y XOR z)"

definition sha1_step :: "u32 list \<Rightarrow> nat \<Rightarrow> sha1_state \<Rightarrow> sha1_state" where
  "sha1_step M t = (\<lambda>(a, b, c, d, e). (word_rotl 5 a + sha1_f t b c d + e + rconsts ! (t div 20) + sha1_W M t, a, word_rotl 30 b, c, d))"

definition sha1_compress :: "bytes \<Rightarrow> u32 list \<Rightarrow> u32 list" where
  "sha1_compress m h = (case fold (sha1_step (be32 m)) [0..<80] (h ! 0, h ! 1, h ! 2, h ! 3, h ! 4) of
     (a, b, c, d, e) \<Rightarrow> [h ! 0 + a, h ! 1 + b, h ! 2 + c, h ! 3 + d, h ! 4 + e])"

section \<open>The block function is that of the standard\<close>

lemma swap_words: "map swap_be32 (words32 b) = be32 b" if "length b mod 4 = 0"
proof -
  have "put_le 4 (le (4 * i) 4 b :: u32) = take 4 (drop (4 * i) b)" if "i < length b div 4" for i
  proof -
    have l: "length (take 4 (drop (4 * i) b)) = 4" using that \<open>length b mod 4 = 0\<close> by auto
    have "le (4 * i) 4 b = (le 0 4 (take 4 (drop (4 * i) b)) :: u32)" by (simp add: le_def)
    then show ?thesis using put_le_le [OF l, where 'a = 32] by simp
  qed
  then show ?thesis by (simp add: words32_def be32_def swap_be32_def)
qed

text \<open>Before operation \<open>t\<close> both halves of the array hold the word \<open>sha1_W M k\<close> in place \<open>k mod 16\<close>, for the last 16
  words that have been used, or the first 16.\<close>

definition sha1_window :: "u32 list \<Rightarrow> nat \<Rightarrow> u32 list \<Rightarrow> bool" where
  "sha1_window M t W \<longleftrightarrow> length W = 32 \<and>
     (\<forall>k. (if t < 16 then k < 16 else t - 16 \<le> k \<and> k < t) \<longrightarrow> W ! (k mod 16) = sha1_W M k \<and> W ! (k mod 16 + 16) = sha1_W M k)"

lemma window_at:
  assumes "sha1_window M t W" and "16 \<le> t" and "0 < d" and "d \<le> 16"
  shows "W ! (t mod 16 + (16 - d)) = sha1_W M (t - d)"
proof -
  have w: "W ! ((t - d) mod 16) = sha1_W M (t - d)" "W ! ((t - d) mod 16 + 16) = sha1_W M (t - d)"
    using assms by (auto simp: sha1_window_def split: if_splits)
  define q r where "q = t div 16" and "r = t mod 16"
  have t: "t = 16 * q + r" "r < 16" by (simp_all add: q_def r_def)
  show ?thesis
  proof (cases "d \<le> r")
    case True
    then have "t - d = 16 * q + (r - d)" using t by simp
    then have "(t - d) mod 16 = r - d" using t(2) by simp
    then show ?thesis using w(2) True t(2) assms(4) by (simp add: r_def [symmetric])
  next
    case False
    then have "t - d = 16 * (q - 1) + (r + 16 - d)" using t assms by auto
    then have "(t - d) mod 16 = r + 16 - d" using False t(2) by auto
    then show ?thesis using w(1) assms(4) by (simp add: r_def [symmetric])
  qed
qed

lemma sha1_functions:
  "((c XOR d) AND b) XOR d = (b AND c) XOR (NOT b AND (d :: u32))" "((b OR c) AND d) OR (b AND c) = (b AND c) XOR (b AND d) XOR (c AND (d :: u32))"
  "(c XOR d) XOR b = b XOR c XOR (d :: u32)"
  by (auto intro!: bit_word_eqI simp: bit_simps)

lemma sha1_op_step:
  assumes "sha1_window M t W" and "i < 4" and "t = 20 * i + (19 - j)" and "j < 20"
  shows "\<exists>W'. sha1_op i j (st, W, t mod 16) = (sha1_step M t st, W', Suc t mod 16) \<and> sha1_window M (Suc t) W'"
proof -
  obtain a b c d e where st: "st = (a, b, c, d, e)" by (cases st) auto
  let ?work = "if i = 0 then ((c XOR d) AND b) XOR d else if i = 2 then ((b OR c) AND d) OR (b AND c) else (c XOR d) XOR b"
  have f: "?work = sha1_f t b c d"
  proof -
    have "i = 0 \<or> i = 1 \<or> i = 2 \<or> i = 3" using assms(2) by auto
    then show ?thesis using assms(3,4) sha1_functions [where b = b and c = c and d = d] by (auto simp: sha1_f_def)
  qed
  have i: "t div 20 = i" using assms(3,4) by auto
  have cnt: "Suc (t mod 16) mod 16 = Suc t mod 16" by (simp add: mod_Suc_eq)
  have rot: "rotl32 a 5 = word_rotl 5 a" "rotl32 b 30 = word_rotl 30 b" by (simp_all add: rotl32_word_rotl)
  have len: "length W = 32" using assms(1) by (simp add: sha1_window_def)
  show ?thesis
  proof (cases "t < 16")
    case True
    then have ij: "i = 0 \<and> 3 < j" using assms(3,4) by auto
    have "W ! t = sha1_W M t" using assms(1) True by (auto simp: sha1_window_def)
    moreover have "sha1_window M (Suc t) W"
      using assms(1) True by (auto simp: sha1_window_def)
    ultimately show ?thesis using True ij f i cnt rot
      by (simp add: st sha1_step_def Let_def ac_simps)
  next
    case False
    then have ij: "\<not> (i = 0 \<and> 3 < j)" using assms(3,4) by auto
    define v where "v = rotl32 (W ! (t mod 16 + 13) XOR W ! (t mod 16 + 8) XOR W ! (t mod 16 + 2) XOR W ! (t mod 16)) 1"
    have v: "v = sha1_W M t"
      using False window_at [OF assms(1), of 3] window_at [OF assms(1), of 8] window_at [OF assms(1), of 14] window_at [OF assms(1), of 16]
      by (simp add: v_def rotl32_word_rotl sha1_W.simps [of M t])
    have win: "sha1_window M (Suc t) (W[t mod 16 + 16 := v, t mod 16 := v])"
      unfolding sha1_window_def
    proof (intro conjI allI impI)
      show "length (W[t mod 16 + 16 := v, t mod 16 := v]) = 32" using len by simp
    next
      fix k
      assume "if Suc t < 16 then k < 16 else Suc t - 16 \<le> k \<and> k < Suc t"
      then have k: "t - 15 \<le> k" "k \<le> t" using False by auto
      have lt: "t mod 16 < 16" "k mod 16 < 16" by simp_all
      have eq: "k mod 16 = t mod 16 \<longleftrightarrow> k = t"
      proof
        assume "k mod 16 = t mod 16"
        then have "(t - k) mod 16 = 0" using k(2) by (metis mod_eq_dvd_iff_nat mod_0_imp_dvd dvd_imp_mod_0)
        moreover have "t - k < 16" using k False by linarith
        ultimately show "k = t" using k(2) by simp
      qed simp
      have old: "W ! (k mod 16) = sha1_W M k \<and> W ! (k mod 16 + 16) = sha1_W M k" if "k \<noteq> t"
        using assms(1) False k that by (auto simp: sha1_window_def)
      show "W[t mod 16 + 16 := v, t mod 16 := v] ! (k mod 16) = sha1_W M k"
        using old eq lt len v by (auto simp: nth_list_update)
      show "W[t mod 16 + 16 := v, t mod 16 := v] ! (k mod 16 + 16) = sha1_W M k"
        using old eq lt len v by (auto simp: nth_list_update)
    qed
    have "sha1_op i j (st, W, t mod 16) =
        ((?work + v + (e + rotl32 a 5 + rconsts ! i), a, rotl32 b 30, c, d), W[t mod 16 + 16 := v, t mod 16 := v], Suc (t mod 16) mod 16)"
      using ij by (auto simp: st Let_def v_def)
    also have "(?work + v + (e + rotl32 a 5 + rconsts ! i), a, rotl32 b 30, c, d) = sha1_step M t st"
      unfolding f rot v st sha1_step_def i by (simp add: add.commute add.left_commute)
    finally show ?thesis using win cnt by auto
  qed
qed

lemma sha1_rounds_steps:
  assumes "length M = 16"
  shows "\<exists>W. fold sha1_round [0..<4] (st, M @ M, 0) = (fold (sha1_step M) [0..<80] st, W, 0)"
proof -
  have start: "sha1_window M 0 (M @ M)"
    using assms by (auto simp: sha1_window_def nth_append sha1_W.simps)
  have ops: "\<exists>W'. fold (\<lambda>j. sha1_op i j) (rev [0..<n]) (st, W, t mod 16) = (fold (sha1_step M) [t..<t + n] st, W', (t + n) mod 16) \<and> sha1_window M (t + n) W'"
    if "sha1_window M t W" "i < 4" "t + n = 20 * i + 20" "n \<le> 20" for n i t st W
    using that
  proof (induction n arbitrary: t st W)
    case 0
    then show ?case by auto
  next
    case (Suc n)
    have t: "t = 20 * i + (19 - n)" "n < 20" and t': "Suc t + n = 20 * i + 20" "n \<le> 20" using Suc.prems(3,4) by simp_all
    obtain W1 where w: "sha1_op i n (st, W, t mod 16) = (sha1_step M t st, W1, Suc t mod 16)" "sha1_window M (Suc t) W1"
      using sha1_op_step [OF Suc.prems(1,2) t, of st] by blast
    obtain W2 where "fold (\<lambda>j. sha1_op i j) (rev [0..<n]) (sha1_step M t st, W1, Suc t mod 16) =
        (fold (sha1_step M) [Suc t..<Suc t + n] (sha1_step M t st), W2, (Suc t + n) mod 16)" "sha1_window M (Suc t + n) W2"
      using Suc.IH [OF w(2) Suc.prems(2) t', of "sha1_step M t st"] by blast
    moreover have "[t..<t + Suc n] = t # [Suc t..<Suc t + n]" by (simp add: upt_conv_Cons)
    ultimately show ?case using w(1) by simp
  qed
  have rounds: "n \<le> 4 \<Longrightarrow> \<exists>W. fold sha1_round [0..<n] (st, M @ M, 0) = (fold (sha1_step M) [0..<20 * n] st, W, (20 * n) mod 16) \<and> sha1_window M (20 * n) W" for n
  proof (induction n)
    case 0
    then show ?case using start by simp
  next
    case (Suc n)
    then obtain W where w: "fold sha1_round [0..<n] (st, M @ M, 0) = (fold (sha1_step M) [0..<20 * n] st, W, (20 * n) mod 16)" "sha1_window M (20 * n) W"
      by auto
    obtain W' where "fold (\<lambda>j. sha1_op n j) (rev [0..<20]) (fold (sha1_step M) [0..<20 * n] st, W, (20 * n) mod 16) =
        (fold (sha1_step M) [20 * n..<20 * n + 20] (fold (sha1_step M) [0..<20 * n] st), W', (20 * n + 20) mod 16)" "sha1_window M (20 * n + 20) W'"
      using ops [OF w(2) _ refl order.refl, of "fold (sha1_step M) [0..<20 * n] st"] Suc.prems by (metis Suc_le_lessD)
    moreover have "[0..<20 * Suc n] = [0..<20 * n] @ [20 * n..<20 * n + 20]" using upt_split [of 0 "20 * n" "20 * n + 20"] by (simp add: add.commute [of 20])
    ultimately show ?case using w(1) by (auto simp add: sha1_round_def [of n] add.commute [of 20])
  qed
  show ?thesis using rounds [of 4] by auto
qed

lemma sha1_block:
  assumes "length (wbuffer ctx) = 64" and "length (hash ctx) = 8"
  shows "sha1_process_block64 ctx = ctx\<lparr>hash := sha1_compress (wbuffer ctx) (take 5 (hash ctx)) @ drop 5 (hash ctx)\<rparr>"
proof -
  have "length (be32 (wbuffer ctx)) = 16" using assms(1) by (simp add: be32_def)
  obtain h0 h1 h2 h3 h4 h where h: "hash ctx = h0 # h1 # h2 # h3 # h4 # h"
    using assms(2) by (auto simp: eval_nat_numeral length_Suc_conv)
  obtain a b c d e where f: "fold (sha1_step (be32 (wbuffer ctx))) [0..<80] (h0, h1, h2, h3, h4) = (a, b, c, d, e)"
    by (cases "fold (sha1_step (be32 (wbuffer ctx))) [0..<80] (h0, h1, h2, h3, h4)") auto
  obtain W where "fold sha1_round [0..<4] ((h0, h1, h2, h3, h4), be32 (wbuffer ctx) @ be32 (wbuffer ctx), 0) = ((a, b, c, d, e), W, 0)"
    using sha1_rounds_steps [OF \<open>length (be32 (wbuffer ctx)) = 16\<close>] f by metis
  then have "sha1_process_block64 ctx = ctx\<lparr>hash := (hash ctx)[0 := h0 + a, 1 := h1 + b, 2 := h2 + c, 3 := h3 + d, 4 := h4 + e]\<rparr>"
    using assms(1) unfolding sha1_process_block64_def Let_def by (simp add: swap_words h)
  moreover have "sha1_compress (wbuffer ctx) (take 5 (hash ctx)) = [h0 + a, h1 + b, h2 + c, h3 + d, h4 + e]"
    unfolding sha1_compress_def using f by (simp add: h)
  ultimately show ?thesis by (simp add: h numeral_eq_Suc)
qed

end
