(* ===== verification/Hash_Sha2.thy ===== *)
theory Hash_Sha2
  imports Hash_Sha1
begin

text \<open>
  The block functions of SHA-256 and SHA-512 and their definition in FIPS 180.  The constants of SHA-256 are the upper
  halves of the first 64 of SHA-512.
\<close>

definition K64 :: "u64 \<Rightarrow> u64" where
  "K64 v = v"

definition sha_K :: "u64 list" where
  "sha_K = [
     K64 0x428a2f98d728ae22, K64 0x7137449123ef65cd, K64 0xb5c0fbcfec4d3b2f, K64 0xe9b5dba58189dbbc,
     K64 0x3956c25bf348b538, K64 0x59f111f1b605d019, K64 0x923f82a4af194f9b, K64 0xab1c5ed5da6d8118,
     K64 0xd807aa98a3030242, K64 0x12835b0145706fbe, K64 0x243185be4ee4b28c, K64 0x550c7dc3d5ffb4e2,
     K64 0x72be5d74f27b896f, K64 0x80deb1fe3b1696b1, K64 0x9bdc06a725c71235, K64 0xc19bf174cf692694,
     K64 0xe49b69c19ef14ad2, K64 0xefbe4786384f25e3, K64 0x0fc19dc68b8cd5b5, K64 0x240ca1cc77ac9c65,
     K64 0x2de92c6f592b0275, K64 0x4a7484aa6ea6e483, K64 0x5cb0a9dcbd41fbd4, K64 0x76f988da831153b5,
     K64 0x983e5152ee66dfab, K64 0xa831c66d2db43210, K64 0xb00327c898fb213f, K64 0xbf597fc7beef0ee4,
     K64 0xc6e00bf33da88fc2, K64 0xd5a79147930aa725, K64 0x06ca6351e003826f, K64 0x142929670a0e6e70,
     K64 0x27b70a8546d22ffc, K64 0x2e1b21385c26c926, K64 0x4d2c6dfc5ac42aed, K64 0x53380d139d95b3df,
     K64 0x650a73548baf63de, K64 0x766a0abb3c77b2a8, K64 0x81c2c92e47edaee6, K64 0x92722c851482353b,
     K64 0xa2bfe8a14cf10364, K64 0xa81a664bbc423001, K64 0xc24b8b70d0f89791, K64 0xc76c51a30654be30,
     K64 0xd192e819d6ef5218, K64 0xd69906245565a910, K64 0xf40e35855771202a, K64 0x106aa07032bbd1b8,
     K64 0x19a4c116b8d2d0c8, K64 0x1e376c085141ab53, K64 0x2748774cdf8eeb99, K64 0x34b0bcb5e19b48a8,
     K64 0x391c0cb3c5c95a63, K64 0x4ed8aa4ae3418acb, K64 0x5b9cca4f7763e373, K64 0x682e6ff3d6b2b8a3,
     K64 0x748f82ee5defb2fc, K64 0x78a5636f43172f60, K64 0x84c87814a1f0ab72, K64 0x8cc702081a6439ec,
     K64 0x90befffa23631e28, K64 0xa4506cebde82bde9, K64 0xbef9a3f7b2c67915, K64 0xc67178f2e372532b,
     K64 0xca273eceea26619c, K64 0xd186b8c721c0c207, K64 0xeada7dd6cde0eb1e, K64 0xf57d4f7fee6ed178,
     K64 0x06f067aa72176fba, K64 0x0a637dc5a2c898a6, K64 0x113f9804bef90dae, K64 0x1b710b35131c471b,
     K64 0x28db77f523047d84, K64 0x32caab7b40c72493, K64 0x3c9ebe0a15c9bebc, K64 0x431d67c49c100d4c,
     K64 0x4cc5d4becb3e42b6, K64 0x597f299cfc657e2a, K64 0x5fcb6fab3ad6faec, K64 0x6c44198c4a475817]"

definition Ch :: "'a::len word \<Rightarrow> 'a word \<Rightarrow> 'a word \<Rightarrow> 'a word" where
  "Ch x y z = (x AND y) XOR (NOT x AND z)"

definition Maj :: "'a::len word \<Rightarrow> 'a word \<Rightarrow> 'a word \<Rightarrow> 'a word" where
  "Maj x y z = (x AND y) XOR (x AND z) XOR (y AND z)"

definition S0_32 :: "u32 \<Rightarrow> u32" where "S0_32 x = rotr32 x 2 XOR rotr32 x 13 XOR rotr32 x 22"
definition S1_32 :: "u32 \<Rightarrow> u32" where "S1_32 x = rotr32 x 6 XOR rotr32 x 11 XOR rotr32 x 25"
definition R0_32 :: "u32 \<Rightarrow> u32" where "R0_32 x = rotr32 x 7 XOR rotr32 x 18 XOR drop_bit 3 x"
definition R1_32 :: "u32 \<Rightarrow> u32" where "R1_32 x = rotr32 x 17 XOR rotr32 x 19 XOR drop_bit 10 x"

definition S0_64 :: "u64 \<Rightarrow> u64" where "S0_64 x = rotr64 x 28 XOR rotr64 x 34 XOR rotr64 x 39"
definition S1_64 :: "u64 \<Rightarrow> u64" where "S1_64 x = rotr64 x 14 XOR rotr64 x 18 XOR rotr64 x 41"
definition R0_64 :: "u64 \<Rightarrow> u64" where "R0_64 x = rotr64 x 1 XOR rotr64 x 8 XOR drop_bit 7 x"
definition R1_64 :: "u64 \<Rightarrow> u64" where "R1_64 x = rotr64 x 19 XOR rotr64 x 61 XOR drop_bit 6 x"

type_synonym 'a sha2_state = "'a word \<times> 'a word \<times> 'a word \<times> 'a word \<times> 'a word \<times> 'a word \<times> 'a word \<times> 'a word"

text \<open>The two loops of both functions: the array \<open>W\<close> grows from the words of the block, then the rounds use it.\<close>

definition sha2_extend :: "('a::len word \<Rightarrow> 'a word) \<Rightarrow> ('a word \<Rightarrow> 'a word) \<Rightarrow> nat \<Rightarrow> 'a word list \<Rightarrow> 'a word list" where
  "sha2_extend r0 r1 t W = W[t := r1 (W ! (t - 2)) + W ! (t - 7) + r0 (W ! (t - 15)) + W ! (t - 16)]"

fun sha2_round ::
  "('a::len word \<Rightarrow> 'a word) \<Rightarrow> ('a word \<Rightarrow> 'a word) \<Rightarrow> (nat \<Rightarrow> 'a word) \<Rightarrow> 'a word list \<Rightarrow> nat \<Rightarrow> 'a sha2_state \<Rightarrow> 'a sha2_state" where
  "sha2_round s0 s1 K W t (a, b, c, d, e, f, g, h) =
     (let T1 = h + s1 e + Ch e f g + K t + W ! t; T2 = s0 a + Maj a b c
      in (T1 + T2, a, b, c, d + T1, e, f, g))"

definition sha2_state :: "'a::len word list \<Rightarrow> 'a sha2_state" where
  "sha2_state h = (h ! 0, h ! 1, h ! 2, h ! 3, h ! 4, h ! 5, h ! 6, h ! 7)"

fun sha2_add :: "'a::len word list \<Rightarrow> 'a sha2_state \<Rightarrow> 'a word list" where
  "sha2_add H (a, b, c, d, e, f, g, h) =
     [H ! 0 + a, H ! 1 + b, H ! 2 + c, H ! 3 + d, H ! 4 + e, H ! 5 + f, H ! 6 + g, H ! 7 + h]"

definition sha256_process_block64 :: "md5_ctx_t \<Rightarrow> md5_ctx_t" where
  "sha256_process_block64 ctx =
     (let W = fold (sha2_extend R0_32 R1_32) [16..<64] (map swap_be32 (words32 (wbuffer ctx)) @ replicate 48 0);
          K = (\<lambda>t. ucast (drop_bit 32 (sha_K ! t)));
          st = fold (sha2_round S0_32 S1_32 K W) [0..<64] (sha2_state (hash ctx))
      in ctx\<lparr>hash := sha2_add (hash ctx) st\<rparr>)"

definition sha512_process_block128 :: "sha512_ctx_t \<Rightarrow> sha512_ctx_t" where
  "sha512_process_block128 ctx =
     (let W = fold (sha2_extend R0_64 R1_64) [16..<80] (map swap_be64 (words64 (wbuffer128 ctx)) @ replicate 64 0);
          st = fold (sha2_round S0_64 S1_64 (\<lambda>t. sha_K ! t) W) [0..<80] (sha2_state (hash64 ctx))
      in ctx\<lparr>hash64 := sha2_add (hash64 ctx) st\<rparr>)"

section \<open>FIPS 180\<close>

definition be64 :: "bytes \<Rightarrow> u64 list" where
  "be64 b = map (\<lambda>i. le 0 8 (rev (take 8 (drop (8 * i) b)))) [0..<length b div 8]"

text \<open>The functions of the standard, written with rotations: \<open>\<Sigma>\<^sub>0\<close>, \<open>\<Sigma>\<^sub>1\<close>, \<open>\<sigma>\<^sub>0\<close> and \<open>\<sigma>\<^sub>1\<close> for both sizes.\<close>

definition rots :: "nat list \<Rightarrow> 'a::len word \<Rightarrow> 'a word" where
  "rots ns x = foldr (\<lambda>n y. word_rotr n x XOR y) ns 0"

definition sum0_256 :: "u32 \<Rightarrow> u32" where "sum0_256 = rots [2, 13, 22]"
definition sum1_256 :: "u32 \<Rightarrow> u32" where "sum1_256 = rots [6, 11, 25]"
definition sig0_256 :: "u32 \<Rightarrow> u32" where "sig0_256 x = rots [7, 18] x XOR drop_bit 3 x"
definition sig1_256 :: "u32 \<Rightarrow> u32" where "sig1_256 x = rots [17, 19] x XOR drop_bit 10 x"
definition sum0_512 :: "u64 \<Rightarrow> u64" where "sum0_512 = rots [28, 34, 39]"
definition sum1_512 :: "u64 \<Rightarrow> u64" where "sum1_512 = rots [14, 18, 41]"
definition sig0_512 :: "u64 \<Rightarrow> u64" where "sig0_512 x = rots [1, 8] x XOR drop_bit 7 x"
definition sig1_512 :: "u64 \<Rightarrow> u64" where "sig1_512 x = rots [19, 61] x XOR drop_bit 6 x"

text \<open>The schedule as a recursive function of the number of the word.\<close>

fun sha2_W :: "('a::len word \<Rightarrow> 'a word) \<Rightarrow> ('a word \<Rightarrow> 'a word) \<Rightarrow> 'a word list \<Rightarrow> nat \<Rightarrow> 'a word" where
  "sha2_W s0 s1 M t = (if t < 16 then M ! t
     else s1 (sha2_W s0 s1 M (t - 2)) + sha2_W s0 s1 M (t - 7) + s0 (sha2_W s0 s1 M (t - 15)) + sha2_W s0 s1 M (t - 16))"

declare sha2_W.simps [simp del]

definition sha2_step ::
  "('a::len word \<Rightarrow> 'a word) \<Rightarrow> ('a word \<Rightarrow> 'a word) \<Rightarrow> (nat \<Rightarrow> 'a word) \<Rightarrow> nat \<Rightarrow> 'a sha2_state \<Rightarrow> 'a sha2_state" where
  "sha2_step S0 S1 KW t = (\<lambda>(a, b, c, d, e, f, g, h).
     (h + S1 e + ((e AND f) XOR (NOT e AND g)) + KW t + (S0 a + ((a AND b) XOR (a AND c) XOR (b AND c))), a, b, c,
      d + (h + S1 e + ((e AND f) XOR (NOT e AND g)) + KW t), e, f, g))"

definition sha256_compress :: "bytes \<Rightarrow> u32 list \<Rightarrow> u32 list" where
  "sha256_compress m h = sha2_add h
     (fold (sha2_step sum0_256 sum1_256 (\<lambda>t. ucast (drop_bit 32 (sha_K ! t)) + sha2_W sig0_256 sig1_256 (be32 m) t)) [0..<64] (sha2_state h))"

definition sha512_compress :: "bytes \<Rightarrow> u64 list \<Rightarrow> u64 list" where
  "sha512_compress m h = sha2_add h
     (fold (sha2_step sum0_512 sum1_512 (\<lambda>t. sha_K ! t + sha2_W sig0_512 sig1_512 (be64 m) t)) [0..<80] (sha2_state h))"

section \<open>The block functions are those of the standard\<close>

lemma sha2_functions:
  "S0_32 = sum0_256" "S1_32 = sum1_256" "R0_32 = sig0_256" "R1_32 = sig1_256"
  "S0_64 = sum0_512" "S1_64 = sum1_512" "R0_64 = sig0_512" "R1_64 = sig1_512"
  by (auto simp: fun_eq_iff S0_32_def S1_32_def R0_32_def R1_32_def S0_64_def S1_64_def R0_64_def R1_64_def rots_def
    sum0_256_def sum1_256_def sig0_256_def sig1_256_def sum0_512_def sum1_512_def sig0_512_def sig1_512_def
    rotr32_word_rotr rotr64_word_rotr xor.assoc)

lemma swap_words64: "map swap_be64 (words64 b) = be64 b" if "length b mod 8 = 0"
proof -
  have "put_le 8 (le (8 * i) 8 b :: u64) = take 8 (drop (8 * i) b)" if "i < length b div 8" for i
  proof -
    have l: "length (take 8 (drop (8 * i) b)) = 8" using that \<open>length b mod 8 = 0\<close> by auto
    have "le (8 * i) 8 b = (le 0 8 (take 8 (drop (8 * i) b)) :: u64)" by (simp add: le_def)
    then show ?thesis using put_le_le [OF l, where 'a = 64] by simp
  qed
  then show ?thesis by (simp add: words64_def be64_def swap_be64_def)
qed

lemma sha2_schedule:
  assumes "length M = 16" and "t \<le> 16 + n"
  shows "\<forall>k < max 16 t. fold (sha2_extend s0 s1) [16..<t] (M @ replicate n 0) ! k = sha2_W s0 s1 M k"
    and "length (fold (sha2_extend s0 s1) [16..<t] (M @ replicate n 0)) = 16 + n"
  using assms(2)
proof (induction t)
  case 0
  case 1
  then show ?case using assms(1) by (simp add: nth_append sha2_W.simps)
  case 2
  then show ?case using assms(1) by simp
next
  case (Suc t)
  let ?W = "fold (sha2_extend s0 s1) [16..<t] (M @ replicate n 0)"
  have split: "fold (sha2_extend s0 s1) [16..<Suc t] (M @ replicate n 0) = (if t < 16 then ?W else sha2_extend s0 s1 t ?W)"
    by simp
  case 1
  then have ih: "\<forall>k < max 16 t. ?W ! k = sha2_W s0 s1 M k" "length ?W = 16 + n" using Suc.IH by simp_all
  show ?case
  proof (cases "t < 16")
    case True
    then show ?thesis using ih(1) unfolding split by simp
  next
    case False
    then have "sha2_extend s0 s1 t ?W = ?W[t := sha2_W s0 s1 M t]"
      using ih(1) by (simp add: sha2_extend_def sha2_W.simps [of s0 s1 M t])
    then show ?thesis using False ih 1 unfolding split by (auto simp: nth_list_update less_Suc_eq)
  qed
  case 2
  then show ?case using ih(2) assms(1) unfolding split by (simp add: sha2_extend_def)
qed

lemma sha2_rounds:
  assumes "\<And>t. t < n \<Longrightarrow> W ! t = w t"
  shows "fold (sha2_round s0 s1 K W) [0..<n] st = fold (sha2_step s0 s1 (\<lambda>t. K t + w t)) [0..<n] st"
proof (rule fold_cong)
  fix t assume "t \<in> set [0..<n]"
  then have "W ! t = w t" using assms by simp
  then show "sha2_round s0 s1 K W t = sha2_step s0 s1 (\<lambda>t. K t + w t) t"
    by (auto simp: fun_eq_iff sha2_step_def Let_def Ch_def Maj_def add.assoc)
qed simp_all

lemma sha256_block:
  assumes "length (wbuffer ctx) = 64"
  shows "sha256_process_block64 ctx = ctx\<lparr>hash := sha256_compress (wbuffer ctx) (hash ctx)\<rparr>"
proof -
  have b: "length (be32 (wbuffer ctx)) = 16" using assms by (simp add: be32_def)
  have "fold (sha2_round s0 s1 K (fold (sha2_extend sig0_256 sig1_256) [16..<64] (be32 (wbuffer ctx) @ replicate 48 0))) [0..<64] st =
      fold (sha2_step s0 s1 (\<lambda>t. K t + sha2_W sig0_256 sig1_256 (be32 (wbuffer ctx)) t)) [0..<64] st" for s0 s1 K st
    by (rule sha2_rounds) (use sha2_schedule(1) [OF b, of 64 48] in \<open>simp del: upt_Suc\<close>)
  note r = this
  show ?thesis
    unfolding sha256_process_block64_def sha256_compress_def Let_def sha2_functions swap_words [of "wbuffer ctx", unfolded assms, simplified] r ..
qed

lemma sha512_block:
  assumes "length (wbuffer128 ctx) = 128"
  shows "sha512_process_block128 ctx = ctx\<lparr>hash64 := sha512_compress (wbuffer128 ctx) (hash64 ctx)\<rparr>"
proof -
  have b: "length (be64 (wbuffer128 ctx)) = 16" using assms by (simp add: be64_def)
  have "fold (sha2_round s0 s1 K (fold (sha2_extend sig0_512 sig1_512) [16..<80] (be64 (wbuffer128 ctx) @ replicate 64 0))) [0..<80] st =
      fold (sha2_step s0 s1 (\<lambda>t. K t + sha2_W sig0_512 sig1_512 (be64 (wbuffer128 ctx)) t)) [0..<80] st" for s0 s1 K st
    by (rule sha2_rounds) (use sha2_schedule(1) [OF b, of 80 64] in \<open>simp del: upt_Suc\<close>)
  note r = this
  show ?thesis
    unfolding sha512_process_block128_def sha512_compress_def Let_def sha2_functions swap_words64 [of "wbuffer128 ctx", unfolded assms, simplified] r ..
qed

end
