(* ===== verification/Hash_Stream.thy ===== *)
theory Hash_Stream
  imports Hash_Context
begin

text \<open>
  Messages that come in pieces: the loops that fill a buffer and process it when it is full.  The locale
  \<open>block_stream\<close> is the contract of such a loop; it shows once that the pieces do not matter.  \<open>padded_stream\<close> adds
  the loop that ends a message with its padding and the field of its length.
\<close>

section \<open>Blocks of a message\<close>

text \<open>\<open>absorb n f h m\<close> folds \<open>f\<close> over the whole blocks of \<open>n\<close> bytes; the rest is shorter than a block.\<close>

function absorb :: "nat \<Rightarrow> (bytes \<Rightarrow> 'h \<Rightarrow> 'h) \<Rightarrow> 'h \<Rightarrow> bytes \<Rightarrow> 'h \<times> bytes" where
  "absorb n f h m = (if n = 0 \<or> length m < n then (h, m) else absorb n f (f (take n m) h) (drop n m))"
  by pat_completeness auto
termination by (relation "measure (\<lambda>(n, f, h, m). length m)") auto

declare absorb.simps [simp del]

lemma absorb_short: "length m < n \<Longrightarrow> absorb n f h m = (h, m)"
  by (subst absorb.simps) simp

lemma absorb_block: "0 < n \<Longrightarrow> length b = n \<Longrightarrow> absorb n f h (b @ m) = absorb n f (f b h) m"
  by (subst absorb.simps) simp

lemma absorb_append: "0 < n \<Longrightarrow> absorb n f h (m @ m') = (case absorb n f h m of (h', q) \<Rightarrow> absorb n f h' (q @ m'))"
proof (induction "length m" arbitrary: m h rule: less_induct)
  case less
  show ?case
  proof (cases "length m < n")
    case True
    then show ?thesis by (simp add: absorb_short)
  next
    case False
    then have m: "m = take n m @ drop n m" "length (take n m) = n" by simp_all
    have "absorb n f h (m @ m') = absorb n f (f (take n m) h) (drop n m @ m')"
      using absorb_block [OF less.prems m(2), of f h "drop n m @ m'"] by (simp only: append.assoc [symmetric] append_take_drop_id)
    moreover have "absorb n f h m = absorb n f (f (take n m) h) (drop n m)"
      using absorb_block [OF less.prems m(2), of f h "drop n m"] by simp
    ultimately show ?thesis using less.hyps [of "drop n m" "f (take n m) h"] less.prems False by simp
  qed
qed

lemma absorb_more: "0 < n \<Longrightarrow> absorb n f h m = (h', q) \<Longrightarrow> absorb n f h (m @ m') = absorb n f h' (q @ m')"
  using absorb_append [of n f h m m'] by simp

lemma absorb_rest: "0 < n \<Longrightarrow> absorb n f h m = (h', q) \<Longrightarrow> length q = length m mod n"
proof (induction "length m" arbitrary: m h rule: less_induct)
  case less
  show ?case
  proof (cases "length m < n")
    case True
    then show ?thesis using less.prems by (simp add: absorb_short)
  next
    case False
    then have "absorb n f (f (take n m) h) (drop n m) = (h', q)" using less.prems by (subst (asm) absorb.simps) simp
    then show ?thesis using less.hyps [of "drop n m"] less.prems(1) False by (simp add: le_mod_geq)
  qed
qed

locale block_stream =
  fixes block :: nat and put :: "nat \<Rightarrow> bytes \<Rightarrow> 'c \<Rightarrow> 'c" and process :: "'c \<Rightarrow> 'c" and loop :: "nat \<Rightarrow> bytes \<Rightarrow> 'c \<Rightarrow> 'c"
    and holds :: "'h \<Rightarrow> bytes \<Rightarrow> 'c \<Rightarrow> bool" and compress :: "bytes \<Rightarrow> 'h \<Rightarrow> 'h"
  assumes block_pos: "0 < block"
    and loop_round: "pos < block \<Longrightarrow> holds h q c \<Longrightarrow> length q = pos \<Longrightarrow> loop pos buf c =
      (let r = min (block - pos) (length buf); c = put pos (take r buf) c in
       if pos + r \<noteq> block then c else loop 0 (drop r buf) (process c))"
    and put_holds: "holds h q c \<Longrightarrow> length q + length bs \<le> block \<Longrightarrow> holds h (q @ bs) (put (length q) bs c)"
    and process_holds: "holds h q c \<Longrightarrow> length q = block \<Longrightarrow> holds (compress q h) [] (process c)"
begin

lemma loop_holds:
  assumes "holds h q c" and "length q < block"
  shows "case absorb block compress h (q @ buf) of (h', q') \<Rightarrow> holds h' q' (loop (length q) buf c)"
  using assms
proof (induction "length buf" arbitrary: buf h q c rule: less_induct)
  case less
  note round = loop_round [OF less.prems(2,1) refl, of buf]
  show ?case
  proof (cases "length q + length buf < block")
    case True
    then have r: "min (block - length q) (length buf) = length buf" by simp
    have "holds h (q @ buf) (loop (length q) buf c)"
      using put_holds [OF less.prems(1), of buf] True unfolding round by (simp add: r)
    then show ?thesis using True by (simp add: absorb_short)
  next
    case False
    define r where "r = block - length q"
    have r: "min (block - length q) (length buf) = r" "length q + r = block" "r \<le> length buf" "0 < r"
      using False less.prems(2) by (simp_all add: r_def)
    have full: "holds h (q @ take r buf) (put (length q) (take r buf) c)"
      using put_holds [OF less.prems(1), of "take r buf"] r by simp
    have len: "length (q @ take r buf) = block" using r by simp
    have "absorb block compress h (q @ buf) = absorb block compress (compress (q @ take r buf) h) ([] @ drop r buf)"
      using absorb_block [OF block_pos len, of compress h "drop r buf"] by simp
    moreover have "loop (length q) buf c = loop (length ([] :: bytes)) (drop r buf) (process (put (length q) (take r buf) c))"
      unfolding round using r by simp
    ultimately show ?thesis using less.hyps [OF _ process_holds [OF full len]] r block_pos by simp
  qed
qed

end

text \<open>The end of a message: zeros up to the last bytes of a block, and the length there.  The block that ends with the
  first byte of the padding may be too short for the length.\<close>

definition padding :: "nat \<Rightarrow> nat \<Rightarrow> nat \<Rightarrow> bytes" where
  "padding n k len = 0x80 # replicate ((2 * n - k - 1 - len mod n) mod n) 0"

locale padded_stream = block_stream block put process loop holds compress
  for block :: nat and put :: "nat \<Rightarrow> bytes \<Rightarrow> 'c \<Rightarrow> 'c" and process :: "'c \<Rightarrow> 'c" and loop :: "nat \<Rightarrow> bytes \<Rightarrow> 'c \<Rightarrow> 'c"
    and holds :: "'h \<Rightarrow> bytes \<Rightarrow> 'c \<Rightarrow> bool" and compress :: "bytes \<Rightarrow> 'h \<Rightarrow> 'h" +
  fixes field :: bytes and finish :: "nat \<Rightarrow> 'c \<Rightarrow> 'c"
  assumes field_length: "0 < length field \<and> length field \<le> block"
    and put_over: "holds h (q @ bs) c \<Longrightarrow> length bs' = length bs \<Longrightarrow> length (q @ bs) \<le> block \<Longrightarrow> holds h (q @ bs') (put (length q) bs' c)"
    and finish_round: "holds h q c \<Longrightarrow> length q \<le> block \<Longrightarrow> finish (length q) c =
      (let r = block - length q; c = put (length q) (replicate r 0) c;
           c = (if length field \<le> r then put (block - length field) field c else c); c = process c
       in if length field \<le> r then c else finish 0 c)"
begin

lemma finish_last:
  assumes "holds h q c" and "length q + length field \<le> block"
  shows "holds (compress (q @ replicate (block - length field - length q) 0 @ field) h) [] (finish (length q) c)"
proof -
  let ?z = "replicate (block - length field - length q) 0 :: bytes"
  have q: "length q \<le> block" "length field \<le> block - length q" using assms(2) by simp_all
  have "replicate (block - length q) 0 = ?z @ (replicate (length field) 0 :: bytes)" using q by (simp add: replicate_add [symmetric])
  then have "holds h ((q @ ?z) @ replicate (length field) 0) (put (length q) (replicate (block - length q) 0) c)"
    using put_holds [OF assms(1), of "replicate (block - length q) 0"] q by simp
  from put_over [OF this, of field] have
    "holds h ((q @ ?z) @ field) (put (block - length field) field (put (length q) (replicate (block - length q) 0) c))"
    using q by simp
  from process_holds [OF this] show ?thesis using q by (simp add: finish_round [OF assms(1) q(1)] Let_def)
qed

lemma finish_holds:
  assumes "holds h q c" and "length q \<le> block"
  shows "\<exists>h'. absorb block compress h (q @ replicate ((2 * block - length field - length q) mod block) 0 @ field) = (h', []) \<and>
    holds h' [] (finish (length q) c)"
proof (cases "length q + length field \<le> block")
  case True
  then have "2 * block - length field - length q = block + (block - length field - length q)" by simp
  moreover have "block - length field - length q < block" using field_length by linarith
  ultimately have z: "(2 * block - length field - length q) mod block = block - length field - length q"
    by (simp only: mod_add_self1 mod_less)
  have "length (q @ replicate (block - length field - length q) 0 @ field) = block" using True by simp
  from absorb_block [OF block_pos this, of compress h "[]"] show ?thesis
    using finish_last [OF assms(1) True] block_pos unfolding z by (simp add: absorb_short)
next
  case False
  let ?z = "replicate (block - length q) 0 :: bytes"
  have f: "\<not> length field \<le> block - length q" using False assms(2) by simp
  have len: "length (q @ ?z) = block" using assms(2) by simp
  have full: "holds (compress (q @ ?z) h) [] (process (put (length q) ?z c))"
    using process_holds [OF put_holds [OF assms(1), of ?z]] len by simp
  have fin: "finish (length q) c = finish (length ([] :: bytes)) (process (put (length q) ?z c))"
    using finish_round [OF assms] f by (simp add: Let_def)
  have "(2 * block - length field - length q) mod block = 2 * block - length field - length q"
    using False field_length by (intro mod_less) linarith
  then have z: "replicate ((2 * block - length field - length q) mod block) 0 = ?z @ (replicate (block - length field) 0 :: bytes)"
    using assms(2) field_length by (simp add: replicate_add [symmetric])
  let ?last = "replicate (block - length field) 0 @ field"
  have last: "length ?last = block" using field_length by simp
  have "absorb block compress h ((q @ ?z) @ ?last @ []) = (compress ?last (compress (q @ ?z) h), [])"
    unfolding absorb_block [OF block_pos len] absorb_block [OF block_pos last] using block_pos by (simp add: absorb_short)
  then show ?thesis using finish_last [OF full] field_length unfolding fin z by simp
qed

lemma padded:
  assumes "holds h q c" and "length q = n mod block" and "block = length field + d" and "0 < d"
  shows "\<exists>h'. absorb block compress h (q @ padding block (length field) n @ field) = (h', []) \<and>
    holds h' [] (finish (length q + 1) (put (length q) [0x80] c))"
proof -
  have q: "length q < block" using assms(2) block_pos by simp
  then have "holds h (q @ [0x80]) (put (length q) [0x80] c)" using put_holds [OF assms(1), of "[0x80]"] by simp
  from finish_holds [OF this] show ?thesis using q by (simp add: padding_def assms(2))
qed

end

end
