(* ===== verification/Hash_Digest.thy ===== *)
theory Hash_Digest
  imports Hash_Md5 Hash_Sha2 Hash_Stream
begin

text \<open>
  MD5, SHA-1 and SHA-256 of \<open>libbb/hash_md5_sha.c\<close>: the three share a context and the code that collects and pads a
  message.  The theorem \<open>md5sha_digest_correct\<close> says that any sequence of calls of \<open>md5_hash\<close> between a begin and an end
  gives the digest that the standards define for the whole message.
\<close>

section \<open>The operations\<close>

text \<open>\<open>ctx->process_block(ctx)\<close>\<close>

definition call_process_block :: "md5_ctx_t \<Rightarrow> md5_ctx_t" where
  "call_process_block ctx = (case process_block ctx of
     Md5_block \<Rightarrow> md5_process_block64 ctx | Sha1_block \<Rightarrow> sha1_process_block64 ctx | Sha256_block \<Rightarrow> sha256_process_block64 ctx)"

definition md5_fill :: "nat \<Rightarrow> bytes \<Rightarrow> md5_ctx_t \<Rightarrow> md5_ctx_t" where
  "md5_fill bufpos bs ctx = ctx\<lparr>wbuffer := put_at bufpos bs (wbuffer ctx)\<rparr>"

function md5_hash_loop :: "nat \<Rightarrow> bytes \<Rightarrow> md5_ctx_t \<Rightarrow> md5_ctx_t" where
  "md5_hash_loop bufpos buffer ctx =
     (let remaining = min (64 - bufpos) (length buffer);
          ctx = md5_fill bufpos (take remaining buffer) ctx
      in if bufpos + remaining \<noteq> 64 then ctx else md5_hash_loop 0 (drop remaining buffer) (call_process_block ctx))"
  by pat_completeness auto
termination by (relation "measures [\<lambda>(p, b, c). length b, \<lambda>(p, b, c). p]") auto

declare md5_hash_loop.simps [simp del]

definition md5_hash :: "md5_ctx_t \<Rightarrow> bytes \<Rightarrow> md5_ctx_t" where
  "md5_hash ctx buffer =
     (let bufpos = unat (total64 ctx AND 63)
      in md5_hash_loop bufpos buffer (ctx\<lparr>total64 := total64 ctx + of_nat (length buffer)\<rparr>))"

function common64_loop :: "bool \<Rightarrow> nat \<Rightarrow> md5_ctx_t \<Rightarrow> md5_ctx_t" where
  "common64_loop swap_needed bufpos ctx =
     (let remaining = 64 - bufpos;
          ctx = md5_fill bufpos (replicate remaining 0) ctx;
          t = push_bit 3 (total64 ctx);
          t = (if swap_needed then swap_be64 t else t);
          ctx = (if 8 \<le> remaining then md5_fill 56 (put_le 8 t) ctx else ctx);
          ctx = call_process_block ctx
      in if 8 \<le> remaining then ctx else common64_loop swap_needed 0 ctx)"
  by pat_completeness auto
termination by (relation "measure (\<lambda>(s, p, c). p)") auto

declare common64_loop.simps [simp del]

definition common64_end :: "md5_ctx_t \<Rightarrow> bool \<Rightarrow> md5_ctx_t" where
  "common64_end ctx swap_needed =
     (let bufpos = unat (total64 ctx AND 63)
      in common64_loop swap_needed (bufpos + 1) (md5_fill bufpos [0x80] ctx))"

definition md5_begin :: "md5_ctx_t \<Rightarrow> md5_ctx_t" where
  "md5_begin ctx = ctx\<lparr>hash := (hash ctx)[0 := 0x67452301, 1 := 0xefcdab89, 2 := 0x98badcfe, 3 := 0x10325476],
     total64 := 0, process_block := Md5_block\<rparr>"

definition sha1_begin :: "md5_ctx_t \<Rightarrow> md5_ctx_t" where
  "sha1_begin ctx = ctx\<lparr>hash := (hash ctx)[0 := 0x67452301, 1 := 0xefcdab89, 2 := 0x98badcfe, 3 := 0x10325476, 4 := 0xc3d2e1f0],
     total64 := 0, process_block := Sha1_block\<rparr>"

definition init256 :: "u32 list" where
  "init256 = [0, 0, 0x6a09e667, 0xbb67ae85, 0x3c6ef372, 0xa54ff53a, 0x510e527f, 0x9b05688c, 0x1f83d9ab, 0x5be0cd19]"

text \<open>The copy overwrites \<open>total64\<close> and the \<open>hash\<close> behind it.\<close>

definition sha256_begin :: "md5_ctx_t \<Rightarrow> md5_ctx_t" where
  "sha256_begin ctx = ctx\<lparr>total64 := le 0 8 (put_le 4 (init256 ! 0) @ put_le 4 (init256 ! 1)), hash := drop 2 init256,
     process_block := Sha256_block\<rparr>"

text \<open>The ends return the size, the bytes in \<open>resbuf\<close> and the context.\<close>

definition md5_end :: "md5_ctx_t \<Rightarrow> nat \<times> bytes \<times> md5_ctx_t" where
  "md5_end ctx = (let ctx = common64_end ctx False in (16, concat (map (put_le 4) (take 4 (hash ctx))), ctx))"

definition sha1_end :: "md5_ctx_t \<Rightarrow> nat \<times> bytes \<times> md5_ctx_t" where
  "sha1_end ctx =
     (let ctx = common64_end ctx True;
          hash_size = (if process_block ctx = Sha1_block then 5 else 8);
          ctx = ctx\<lparr>hash := map swap_be32 (take hash_size (hash ctx)) @ drop hash_size (hash ctx)\<rparr>
      in (hash_size * 4, concat (map (put_le 4) (take hash_size (hash ctx))), ctx))"

section \<open>The standards\<close>

fun compress_of :: "block_fn \<Rightarrow> bytes \<Rightarrow> u32 list \<Rightarrow> u32 list" where
  "compress_of Md5_block = md5_compress" |
  "compress_of Sha1_block = sha1_compress" |
  "compress_of Sha256_block = sha256_compress"

fun start_of :: "block_fn \<Rightarrow> u32 list" where
  "start_of Md5_block = [0x67452301, 0xefcdab89, 0x98badcfe, 0x10325476]" |
  "start_of Sha1_block = [0x67452301, 0xefcdab89, 0x98badcfe, 0x10325476, 0xc3d2e1f0]" |
  "start_of Sha256_block = [0x6a09e667, 0xbb67ae85, 0x3c6ef372, 0xa54ff53a, 0x510e527f, 0x9b05688c, 0x1f83d9ab, 0x5be0cd19]"

text \<open>The length in bits, low byte first for MD5 and high byte first for SHA.\<close>

definition length_field :: "block_fn \<Rightarrow> u64 \<Rightarrow> bytes" where
  "length_field tag n = (if tag = Md5_block then id else rev) (put_le 8 (8 * n))"

definition digest_of :: "block_fn \<Rightarrow> bytes \<Rightarrow> bytes" where
  "digest_of tag m =
     (let padded = m @ padding 64 8 (length m) @ length_field tag (of_nat (length m));
          h = fst (absorb 64 (compress_of tag) (start_of tag) padded)
      in concat (map (\<lambda>w. (if tag = Md5_block then id else rev) (put_le 4 w)) h))"

section \<open>What a context holds\<close>

fun words_of :: "block_fn \<Rightarrow> nat" where
  "words_of Md5_block = 4" |
  "words_of Sha1_block = 5" |
  "words_of Sha256_block = 8"

definition md5_holds :: "block_fn \<Rightarrow> u64 \<Rightarrow> u32 list \<Rightarrow> bytes \<Rightarrow> md5_ctx_t \<Rightarrow> bool" where
  "md5_holds tag n h q c \<longleftrightarrow> process_block c = tag \<and> total64 c = n \<and> length (wbuffer c) = 64 \<and> (\<exists>r. wbuffer c = q @ r) \<and>
     length (hash c) = 8 \<and> take (words_of tag) (hash c) = h"

lemma block_process:
  assumes "length (wbuffer c) = 64" and "length (hash c) = 8"
  shows "call_process_block c = c\<lparr>hash := compress_of (process_block c) (wbuffer c) (take (words_of (process_block c)) (hash c)) @
    drop (words_of (process_block c)) (hash c)\<rparr>"
  using assms by (cases "process_block c") (simp_all add: call_process_block_def md5_block sha1_block sha256_block)

lemma sha2_add_length: "length (sha2_add h st) = 8"
  by (cases "(h, st)" rule: sha2_add.cases) simp

lemma compress_length: "length (compress_of tag b h) = words_of tag"
  by (cases tag) (auto simp: sha2_add_length md5_compress_def sha1_compress_def sha256_compress_def split: prod.split)

lemma words_le: "words_of tag \<le> 8"
  by (cases tag) simp_all

lemma fill_over:
  assumes "md5_holds tag n h (q @ bs) c" and "length bs' = length bs"
  shows "md5_holds tag n h (q @ bs') (md5_fill (length q) bs' c)"
  using assms by (auto simp: md5_holds_def md5_fill_def put_at_def)

lemma fill_append:
  assumes "md5_holds tag n h q c" and "length q + length bs \<le> 64"
  shows "md5_holds tag n h (q @ bs) (md5_fill (length q) bs c)"
proof -
  obtain r where r: "wbuffer c = q @ r" "length (q @ r) = 64" using assms(1) by (auto simp: md5_holds_def)
  then have "md5_holds tag n h (q @ take (length bs) r) c"
    using assms(1) by (auto simp: md5_holds_def intro: exI [of _ "drop (length bs) r"])
  from fill_over [OF this, of bs] show ?thesis using r assms(2) by simp
qed

lemma process_full:
  assumes "md5_holds tag n h q c" and "length q = 64"
  shows "md5_holds tag n (compress_of tag q h) [] (call_process_block c)"
  using assms words_le [of tag] by (auto simp: md5_holds_def block_process compress_length)

lemma field_8: "length (length_field tag n) = 8"
  by (simp add: length_field_def)

interpretation md5: padded_stream 64 md5_fill call_process_block md5_hash_loop "md5_holds tag n" "compress_of tag"
  "length_field tag n" "common64_loop (tag \<noteq> Md5_block)" for tag n
proof
  show "0 < (64 :: nat)" by simp
next
  fix pos h q c buf
  assume "pos < 64" "md5_holds tag n h q c" "length q = pos"
  show "md5_hash_loop pos buf c = (let r = min (64 - pos) (length buf); c = md5_fill pos (take r buf) c
      in if pos + r \<noteq> 64 then c else md5_hash_loop 0 (drop r buf) (call_process_block c))"
    by (rule md5_hash_loop.simps)
next
  fix h q c and bs :: bytes
  assume "md5_holds tag n h q c" "length q + length bs \<le> 64"
  then show "md5_holds tag n h (q @ bs) (md5_fill (length q) bs c)" by (rule fill_append)
next
  fix h q c
  assume "md5_holds tag n h q c" "length q = 64"
  then show "md5_holds tag n (compress_of tag q h) [] (call_process_block c)" by (rule process_full)
next
  show "0 < length (length_field tag n) \<and> length (length_field tag n) \<le> 64" unfolding field_8 by simp
next
  fix h q c and bs bs' :: bytes
  assume "md5_holds tag n h (q @ bs) c" "length bs' = length bs"
  then show "md5_holds tag n h (q @ bs') (md5_fill (length q) bs' c)" by (rule fill_over)
next
  fix h q c
  assume c: "md5_holds tag n h q c" "length q \<le> 64"
  have "md5_holds tag n h (q @ replicate (64 - length q) 0) (md5_fill (length q) (replicate (64 - length q) 0) c)"
    using fill_append [OF c(1), of "replicate (64 - length q) 0"] c(2) by simp
  then have t: "total64 (md5_fill (length q) (replicate (64 - length q) 0) c) = n" by (simp add: md5_holds_def)
  have f: "put_le 8 (if tag \<noteq> Md5_block then swap_be64 (push_bit 3 n) else push_bit 3 n) = length_field tag n"
    by (simp add: length_field_def swap_be64_def put_le_le push_bit_eq_mult mult.commute)
  show "common64_loop (tag \<noteq> Md5_block) (length q) c =
      (let r = 64 - length q; c = md5_fill (length q) (replicate r 0) c;
           c = (if length (length_field tag n) \<le> r then md5_fill (64 - length (length_field tag n)) (length_field tag n) c else c);
           c = call_process_block c
       in if length (length_field tag n) \<le> r then c else common64_loop (tag \<noteq> Md5_block) 0 c)"
    by (subst common64_loop.simps) (simp only: t f field_8 Let_def, simp)
qed

section \<open>Whole messages\<close>

text \<open>The context of a computation that has been given the message \<open>m\<close>.\<close>

definition digests :: "block_fn \<Rightarrow> bytes \<Rightarrow> md5_ctx_t \<Rightarrow> bool" where
  "digests tag m c = (case absorb 64 (compress_of tag) (start_of tag) m of (h, q) \<Rightarrow> md5_holds tag (of_nat (length m)) h q c)"

lemma bufpos_64: "unat ((of_nat n :: u64) AND 63) = n mod 64"
proof -
  have "(of_nat n :: u64) AND 63 = of_nat n mod 64" using take_bit_eq_mask [of 6 "of_nat n :: u64"] by (simp add: take_bit_eq_mod mask_eq_exp_minus_1)
  then show ?thesis by (simp add: unat_mod unat_of_nat mod_mod_cancel)
qed

lemma digests_hash:
  assumes "digests tag m c"
  shows "digests tag (m @ buf) (md5_hash c buf)"
proof -
  obtain h q where a: "absorb 64 (compress_of tag) (start_of tag) m = (h, q)" by (cases "absorb 64 (compress_of tag) (start_of tag) m")
  then have c: "md5_holds tag (of_nat (length m)) h q c" using assms by (simp add: digests_def)
  have q: "length q = length m mod 64" using absorb_rest [OF _ a] by simp
  let ?c = "c\<lparr>total64 := total64 c + of_nat (length buf)\<rparr>"
  have "md5_holds tag (of_nat (length (m @ buf))) h q ?c" using c by (simp add: md5_holds_def)
  from md5.loop_holds [OF this, of buf] show ?thesis
    using c q by (simp add: digests_def absorb_more [OF _ a] md5_hash_def Let_def md5_holds_def [of tag "of_nat (length m)"] bufpos_64)
qed

lemma digests_chunks: "digests tag m c \<Longrightarrow> digests tag (m @ concat chunks) (foldl md5_hash c chunks)"
  by (induction chunks arbitrary: m c) (simp_all, metis append.assoc digests_hash)

lemma digests_end:
  assumes "digests tag m c"
  shows "\<exists>h c'. absorb 64 (compress_of tag) (start_of tag) (m @ padding 64 8 (length m) @ length_field tag (of_nat (length m))) = (h, []) \<and>
    common64_end c (tag \<noteq> Md5_block) = c' \<and> process_block c' = tag \<and> length (hash c') = 8 \<and> take (words_of tag) (hash c') = h"
proof -
  obtain h q where a: "absorb 64 (compress_of tag) (start_of tag) m = (h, q)" by (cases "absorb 64 (compress_of tag) (start_of tag) m")
  then have c: "md5_holds tag (of_nat (length m)) h q c" using assms by (simp add: digests_def)
  have q: "length q = length m mod 64" using absorb_rest [OF _ a] by simp
  from md5.padded [OF c q, of 56, unfolded field_8] show ?thesis
    using c q by (auto simp: absorb_more [OF _ a] common64_end_def Let_def md5_holds_def bufpos_64)
qed

lemma begins:
  assumes "length (wbuffer c) = 64" and "length (hash c) = 8"
  shows "digests Md5_block [] (md5_begin c)" and "digests Sha1_block [] (sha1_begin c)" and "digests Sha256_block [] (sha256_begin c)"
proof -
  obtain h0 h1 h2 h3 h4 h where h: "hash c = h0 # h1 # h2 # h3 # h4 # h" using assms(2) by (auto simp: eval_nat_numeral length_Suc_conv)
  show "digests Md5_block [] (md5_begin c)" "digests Sha1_block [] (sha1_begin c)"
    using assms by (simp_all add: digests_def absorb_short md5_holds_def md5_begin_def sha1_begin_def h)
  have "(le 0 8 (put_le 4 (init256 ! 0) @ put_le 4 (init256 ! 1)) :: u64) = 0" by code_simp
  moreover have "drop 2 init256 = start_of Sha256_block" by (simp add: init256_def)
  ultimately show "digests Sha256_block [] (sha256_begin c)"
    using assms(1) by (simp add: digests_def absorb_short md5_holds_def sha256_begin_def)
qed

lemma md5_end_digest:
  assumes "digests Md5_block m c"
  shows "\<exists>c'. md5_end c = (16, digest_of Md5_block m, c')"
  using digests_end [OF assms] by (auto simp: md5_end_def digest_of_def Let_def)

lemma swap_out: "put_le 4 (swap_be32 w) = rev (put_le 4 w)"
  by (simp add: swap_be32_def put_le_le)

lemma sha_end_digest:
  assumes "digests tag m c" and "tag \<noteq> Md5_block"
  shows "\<exists>c'. sha1_end c = (4 * words_of tag, digest_of tag m, c')"
proof -
  have w: "(if tag = Sha1_block then 5 else 8) = words_of tag" using assms(2) by (cases tag) simp_all
  show ?thesis
    using digests_end [OF assms(1)] assms(2) words_le [of tag]
    by (auto simp: sha1_end_def digest_of_def Let_def w swap_out map_concat comp_def)
qed

text \<open>C9: any sequence of chunks given to \<open>md5_hash\<close> between the begin and the end of MD5, SHA-1 or SHA-256 yields the
  digest of the standards for the concatenated message; chunk boundaries, the partial block that a context keeps, the
  padding that may need a second block and the in-place arrays of the block functions do not show.\<close>

theorem md5sha_digest_correct:
  assumes "length (wbuffer c) = 64" and "length (hash c) = 8"
  shows "(\<exists>c'. md5_end (foldl md5_hash (md5_begin c) chunks) = (16, digest_of Md5_block (concat chunks), c')) \<and>
    (\<exists>c'. sha1_end (foldl md5_hash (sha1_begin c) chunks) = (20, digest_of Sha1_block (concat chunks), c')) \<and>
    (\<exists>c'. sha1_end (foldl md5_hash (sha256_begin c) chunks) = (32, digest_of Sha256_block (concat chunks), c'))"
proof (intro conjI)
  note b = begins [OF assms, THEN digests_chunks, of chunks, simplified]
  show "\<exists>c'. md5_end (foldl md5_hash (md5_begin c) chunks) = (16, digest_of Md5_block (concat chunks), c')"
    by (rule md5_end_digest [OF b(1)])
  show "\<exists>c'. sha1_end (foldl md5_hash (sha1_begin c) chunks) = (20, digest_of Sha1_block (concat chunks), c')"
    using sha_end_digest [OF b(2)] by simp
  show "\<exists>c'. sha1_end (foldl md5_hash (sha256_begin c) chunks) = (32, digest_of Sha256_block (concat chunks), c')"
    using sha_end_digest [OF b(3)] by simp
qed

section \<open>A test vector of RFC 1321\<close>

text \<open>For the message \<open>abc\<close>, given in two pieces and the digest evaluated on the code's model.\<close>

definition fresh_ctx :: md5_ctx_t where
  "fresh_ctx = \<lparr>wbuffer = replicate 64 0, process_block = Md5_block, total64 = 0, hash = replicate 8 0\<rparr>"

definition abc :: "bytes list" where
  "abc = [[0x61], [0x62, 0x63]]"

lemma md5_abc: "fst (snd (md5_end (foldl md5_hash (md5_begin fresh_ctx) abc))) =
    [0x90, 0x01, 0x50, 0x98, 0x3c, 0xd2, 0x4f, 0xb0, 0xd6, 0x96, 0x3f, 0x7d, 0x28, 0xe1, 0x7f, 0x72]"
  by code_simp

lemma md5sha_digest_correct_witness:
  "digest_of Md5_block [0x61, 0x62, 0x63] =
    [0x90, 0x01, 0x50, 0x98, 0x3c, 0xd2, 0x4f, 0xb0, 0xd6, 0x96, 0x3f, 0x7d, 0x28, 0xe1, 0x7f, 0x72] \<and>
  digest_of Sha1_block [0x61, 0x62, 0x63] = fst (snd (sha1_end (foldl md5_hash (sha1_begin fresh_ctx) abc))) \<and>
  digest_of Sha256_block [0x61, 0x62, 0x63] = fst (snd (sha1_end (foldl md5_hash (sha256_begin fresh_ctx) abc)))"
proof -
  have "length (wbuffer fresh_ctx) = 64" "length (hash fresh_ctx) = 8" by (simp_all add: fresh_ctx_def)
  note digests = md5sha_digest_correct [OF this, of abc]
  have "concat abc = [0x61, 0x62, 0x63]" by (simp add: abc_def)
  then show ?thesis using digests md5_abc by auto
qed

end
