(* ===== verification/Hash_Sha512.thy ===== *)
theory Hash_Sha512
  imports Hash_Digest
begin

text \<open>
  SHA-512 of \<open>libbb/hash_md5_sha.c\<close>: blocks of 128 bytes and a length of 128 bits that the context keeps in two words,
  with the carry added by hand.
\<close>

section \<open>The operations\<close>

definition sha512_fill :: "nat \<Rightarrow> bytes \<Rightarrow> sha512_ctx_t \<Rightarrow> sha512_ctx_t" where
  "sha512_fill bufpos bs ctx = ctx\<lparr>wbuffer128 := put_at bufpos bs (wbuffer128 ctx)\<rparr>"

definition init512_lo :: "u32 list" where
  "init512_lo = [0, 0, 0xf3bcc908, 0x84caa73b, 0xfe94f82b, 0x5f1d36f1, 0xade682d1, 0x2b3e6c1f, 0xfb41bd6b, 0x137e2179]"

text \<open>The loop of ten writes \<open>tp[i]\<close>, the counter and the \<open>hash\<close> behind it.\<close>

definition sha512_begin :: "sha512_ctx_t \<Rightarrow> sha512_ctx_t" where
  "sha512_begin ctx =
     (let tp = map (\<lambda>i. push_bit 32 (ucast (init256 ! i)) + ucast (init512_lo ! i)) [0..<8 + 2]
      in ctx\<lparr>total64_lo := tp ! 0, total64_hi := tp ! 1, hash64 := drop 2 tp\<rparr>)"

function sha512_hash_loop :: "nat \<Rightarrow> bytes \<Rightarrow> sha512_ctx_t \<Rightarrow> sha512_ctx_t" where
  "sha512_hash_loop bufpos buffer ctx =
     (let remaining = min (128 - bufpos) (length buffer);
          ctx = sha512_fill bufpos (take remaining buffer) ctx
      in if bufpos + remaining \<noteq> 128 then ctx else sha512_hash_loop 0 (drop remaining buffer) (sha512_process_block128 ctx))"
  by pat_completeness auto
termination by (relation "measures [\<lambda>(p, b, c). length b, \<lambda>(p, b, c). p]") auto

declare sha512_hash_loop.simps [simp del]

definition sha512_hash :: "sha512_ctx_t \<Rightarrow> bytes \<Rightarrow> sha512_ctx_t" where
  "sha512_hash ctx buffer =
     (let bufpos = unat (total64_lo ctx AND 127);
          len = of_nat (length buffer);
          ctx = ctx\<lparr>total64_lo := total64_lo ctx + len\<rparr>;
          ctx = (if total64_lo ctx < len then ctx\<lparr>total64_hi := total64_hi ctx + 1\<rparr> else ctx)
      in sha512_hash_loop bufpos buffer ctx)"

function sha512_end_loop :: "nat \<Rightarrow> sha512_ctx_t \<Rightarrow> sha512_ctx_t" where
  "sha512_end_loop bufpos ctx =
     (let remaining = 128 - bufpos;
          ctx = sha512_fill bufpos (replicate remaining 0) ctx;
          ctx = (if 16 \<le> remaining then
              let t = swap_be64 (push_bit 3 (total64_lo ctx));
                  ctx = sha512_fill 120 (put_le 8 t) ctx;
                  t = swap_be64 (push_bit 3 (total64_hi ctx) OR drop_bit 61 (total64_lo ctx))
              in sha512_fill 112 (put_le 8 t) ctx
            else ctx);
          ctx = sha512_process_block128 ctx
      in if 16 \<le> remaining then ctx else sha512_end_loop 0 ctx)"
  by pat_completeness auto
termination by (relation "measure (\<lambda>(p, c). p)") auto

declare sha512_end_loop.simps [simp del]

definition sha512_end :: "sha512_ctx_t \<Rightarrow> nat \<times> bytes \<times> sha512_ctx_t" where
  "sha512_end ctx =
     (let bufpos = unat (total64_lo ctx AND 127);
          ctx = sha512_end_loop (bufpos + 1) (sha512_fill bufpos [0x80] ctx);
          ctx = ctx\<lparr>hash64 := map swap_be64 (hash64 ctx)\<rparr>
      in (64, concat (map (put_le 8) (hash64 ctx)), ctx))"

section \<open>FIPS 180\<close>

definition sha512_start :: "u64 list" where
  "sha512_start = [0x6a09e667f3bcc908, 0xbb67ae8584caa73b, 0x3c6ef372fe94f82b, 0xa54ff53a5f1d36f1,
     0x510e527fade682d1, 0x9b05688c2b3e6c1f, 0x1f83d9abfb41bd6b, 0x5be0cd19137e2179]"

definition length_field128 :: "128 word \<Rightarrow> bytes" where
  "length_field128 n = rev (put_le 16 (8 * n))"

definition sha512_digest :: "bytes \<Rightarrow> bytes" where
  "sha512_digest m =
     concat (map (\<lambda>w. rev (put_le 8 w))
       (fst (absorb 128 sha512_compress sha512_start (m @ padding 128 16 (length m) @ length_field128 (of_nat (length m))))))"

section \<open>The counter of two words\<close>

lemma nat_carry:
  fixes a b B :: nat
  assumes "b < B"
  shows "(a + b) mod (B * B) div B = (a div B + (if (a mod B + b) mod B < b then 1 else 0)) mod B"
proof -
  obtain r where r: "r = a mod B" "r < B" using assms by simp
  have over: "(r + b) mod B = r + b - B \<and> (r + b) div B = 1" if "B \<le> r + b"
    using that r(2) assms by (simp add: le_mod_geq le_div_geq)
  have "(r + b) mod B < b \<longleftrightarrow> B \<le> r + b" and "(r + b) div B = (if B \<le> r + b then 1 else 0)"
    using over r(2) assms by (cases "B \<le> r + b"; simp)+
  then have "(a + b) div B = a div B + (if (a mod B + b) mod B < b then 1 else 0)"
    using div_add1_eq [of a b B] assms by (simp add: r(1) [symmetric])
  moreover have "(a + b) mod (B * B) div B = (a + b) div B mod B"
    using assms by (simp add: mod_mult2_eq)
  ultimately show ?thesis by simp
qed

lemma counter_carry:
  fixes n :: "128 word" and l :: u64
  shows "ucast (drop_bit 64 (n + ucast l)) = (ucast (drop_bit 64 n) + (if ucast n + l < l then 1 else 0) :: u64)"
proof -
  define B :: nat where "B = 2 ^ 64"
  have w: "unat (v :: u64) = unat v mod B" "unat v < B" for v
    using unsigned_less [of v, where 'a = nat] by (simp_all add: B_def)
  have lo: "unat (ucast x :: u64) = unat x mod B" for x :: "128 word"
    by (simp add: unsigned_ucast_eq take_bit_eq_mod B_def)
  have hi: "unat (ucast (drop_bit 64 x) :: u64) = unat x div B mod B" for x :: "128 word"
    by (simp only: lo) (simp add: unat_drop_bit_eq drop_bit_eq_div [of 64 "unat x"] B_def)
  have add: "unat (x + y) = (unat x + unat y) mod B" for x y :: u64
    using unat_word_ariths(1) [of x y] by (simp add: B_def)
  have long: "unat (n + ucast l) = (unat n + unat l) mod (B * B)"
    using unat_word_ariths(1) [of n "ucast l"] by (simp add: B_def unsigned_ucast_eq take_bit_eq_mod mod_add_right_eq)
  have c: "ucast n + l < l \<longleftrightarrow> (unat n mod B + unat l) mod B < unat l"
    by (simp only: word_less_nat_alt add lo)
  have "unat (ucast (drop_bit 64 (n + ucast l)) :: u64) = (unat n + unat l) mod (B * B) div B mod B"
    by (simp only: hi long)
  also have "\<dots> = (unat n div B mod B + unat (if ucast n + l < l then 1 else 0 :: u64)) mod B"
    unfolding nat_carry [OF w(2)] c by (auto simp: mod_simps)
  also have "\<dots> = unat (ucast (drop_bit 64 n) + (if ucast n + l < l then 1 else 0) :: u64)"
    by (simp only: add hi)
  finally show ?thesis by (simp only: word_unat_eq_iff)
qed
lemma field_two_words:
  fixes n :: "128 word"
  defines "lo \<equiv> ucast n :: u64" and "hi \<equiv> ucast (drop_bit 64 n) :: u64"
  shows "put_le 8 (swap_be64 (push_bit 3 hi OR drop_bit 61 lo)) @ put_le 8 (swap_be64 (push_bit 3 lo)) = length_field128 n"
proof -
  have eight: "8 * n = push_bit 3 n" by (simp add: push_bit_eq_mult mult.commute)
  have split: "put_le 16 w = put_le 8 (ucast w :: u64) @ put_le 8 (ucast (drop_bit 64 w) :: u64)" for w :: "128 word"
  proof -
    have "[0..<16] = [0..<8] @ map ((+) 8) [0..<8]" by (simp add: upt_rec)
    moreover have "ucast (drop_bit (8 * i) w) = (ucast (drop_bit (8 * i) (ucast w :: u64)) :: u8)" if "i < 8" for i
      using that by (auto intro!: bit_word_eqI simp: bit_simps)
    moreover have "ucast (drop_bit (64 + 8 * i) w) = (ucast (drop_bit (8 * i) (ucast (drop_bit 64 w) :: u64)) :: u8)" if "i < 8" for i
      using that by (auto intro!: bit_word_eqI simp: bit_simps ac_simps)
    ultimately show ?thesis by (simp add: put_le_def)
  qed
  have "ucast (push_bit 3 n) = push_bit 3 lo"
    by (auto intro!: bit_word_eqI simp: bit_simps lo_def)
  moreover have "ucast (drop_bit 64 (push_bit 3 n)) = push_bit 3 hi OR drop_bit 61 lo"
    by (auto intro!: bit_word_eqI simp: bit_simps lo_def hi_def)
  ultimately show ?thesis by (simp add: length_field128_def eight split swap_be64_def put_le_le)
qed

section \<open>What a context holds\<close>

text \<open>\<open>n\<close> is the number of bytes so far.\<close>

definition sha512_holds :: "128 word \<Rightarrow> u64 list \<Rightarrow> bytes \<Rightarrow> sha512_ctx_t \<Rightarrow> bool" where
  "sha512_holds n h q c \<longleftrightarrow> total64_lo c = ucast n \<and> total64_hi c = ucast (drop_bit 64 n) \<and> length (wbuffer128 c) = 128 \<and>
     (\<exists>r. wbuffer128 c = q @ r) \<and> hash64 c = h"

lemma fill_over128:
  assumes "sha512_holds n h (q @ bs) c" and "length bs' = length bs"
  shows "sha512_holds n h (q @ bs') (sha512_fill (length q) bs' c)"
  using assms by (auto simp: sha512_holds_def sha512_fill_def put_at_def)

lemma fill_append128:
  assumes "sha512_holds n h q c" and "length q + length bs \<le> 128"
  shows "sha512_holds n h (q @ bs) (sha512_fill (length q) bs c)"
proof -
  obtain r where r: "wbuffer128 c = q @ r" "length (q @ r) = 128" using assms(1) by (auto simp: sha512_holds_def)
  then have "sha512_holds n h (q @ take (length bs) r) c"
    using assms(1) by (auto simp: sha512_holds_def intro: exI [of _ "drop (length bs) r"])
  from fill_over128 [OF this, of bs] show ?thesis using r assms(2) by simp
qed

lemma process_full128:
  assumes "sha512_holds n h q c" and "length q = 128"
  shows "sha512_holds n (sha512_compress q h) [] (sha512_process_block128 c)"
  using assms by (auto simp: sha512_holds_def sha512_block)

lemma fill_two_words:
  assumes "length (wbuffer128 c) = 128" and "length a = 8" and "length b = 8"
  shows "sha512_fill 112 a (sha512_fill 120 b c) = sha512_fill 112 (a @ b) c"
  using assms by (simp add: sha512_fill_def put_at_def take_drop)

interpretation sha512: padded_stream 128 sha512_fill sha512_process_block128 sha512_hash_loop "sha512_holds n" sha512_compress
  "length_field128 n" sha512_end_loop for n
proof
  show "0 < (128 :: nat)" by simp
next
  fix pos h q c buf
  assume "pos < 128" "sha512_holds n h q c" "length q = pos"
  show "sha512_hash_loop pos buf c = (let r = min (128 - pos) (length buf); c = sha512_fill pos (take r buf) c
      in if pos + r \<noteq> 128 then c else sha512_hash_loop 0 (drop r buf) (sha512_process_block128 c))"
    by (rule sha512_hash_loop.simps)
next
  fix h q c and bs :: bytes
  assume "sha512_holds n h q c" "length q + length bs \<le> 128"
  then show "sha512_holds n h (q @ bs) (sha512_fill (length q) bs c)" by (rule fill_append128)
next
  fix h q c
  assume "sha512_holds n h q c" "length q = 128"
  then show "sha512_holds n (sha512_compress q h) [] (sha512_process_block128 c)" by (rule process_full128)
next
  have "length (length_field128 n) = 16" by (simp add: length_field128_def)
  then show "0 < length (length_field128 n) \<and> length (length_field128 n) \<le> 128" by linarith
next
  fix h q c and bs bs' :: bytes
  assume "sha512_holds n h (q @ bs) c" "length bs' = length bs"
  then show "sha512_holds n h (q @ bs') (sha512_fill (length q) bs' c)" by (rule fill_over128)
next
  fix h q c
  assume c: "sha512_holds n h q c" "length q \<le> 128"
  define c' where "c' = sha512_fill (length q) (replicate (128 - length q) 0) c"
  have "sha512_holds n h (q @ replicate (128 - length q) 0) c'"
    using fill_append128 [OF c(1), of "replicate (128 - length q) 0"] c(2) by (simp add: c'_def)
  then have t: "total64_lo c' = ucast n" "total64_hi c' = ucast (drop_bit 64 n)" "length (wbuffer128 c') = 128"
    by (simp_all add: sha512_holds_def)
  have keep: "total64_lo (sha512_fill p bs c') = ucast n" "total64_hi (sha512_fill p bs c') = ucast (drop_bit 64 n)" for p bs
    using t by (simp_all add: sha512_fill_def)
  have f: "sha512_fill 112 (put_le 8 (swap_be64 (push_bit 3 (ucast (drop_bit 64 n)) OR drop_bit 61 (ucast n))))
      (sha512_fill 120 (put_le 8 (swap_be64 (push_bit 3 (ucast n)))) c') = sha512_fill 112 (length_field128 n) c'"
    using fill_two_words [OF t(3)] by (simp add: field_two_words [of n])
  have l: "length (length_field128 n) = 16" by (simp add: length_field128_def)
  show "sha512_end_loop (length q) c =
      (let r = 128 - length q; c = sha512_fill (length q) (replicate r 0) c;
           c = (if length (length_field128 n) \<le> r then sha512_fill (128 - length (length_field128 n)) (length_field128 n) c else c);
           c = sha512_process_block128 c
       in if length (length_field128 n) \<le> r then c else sha512_end_loop 0 c)"
    by (subst sha512_end_loop.simps) (simp only: Let_def keep l c'_def [symmetric] t f, simp)
qed

section \<open>Whole messages\<close>

definition digests512 :: "bytes \<Rightarrow> sha512_ctx_t \<Rightarrow> bool" where
  "digests512 m c = (case absorb 128 sha512_compress sha512_start m of (h, q) \<Rightarrow> sha512_holds (of_nat (length m)) h q c)"

lemma low_count: "(ucast (of_nat n :: 128 word) :: u64) = of_nat n"
  by (simp add: word_unat_eq_iff unsigned_ucast_eq unat_of_nat take_bit_eq_mod mod_mod_cancel)

lemma bufpos_128: "unat (ucast (of_nat n :: 128 word) AND (127 :: u64)) = n mod 128"
proof -
  have "(of_nat n :: u64) AND 127 = of_nat n mod 128"
    using take_bit_eq_mask [of 7 "of_nat n :: u64"] by (simp add: take_bit_eq_mod mask_eq_exp_minus_1)
  then show ?thesis by (simp add: low_count unat_mod unat_of_nat mod_mod_cancel)
qed

lemma digests512_hash:
  assumes "digests512 m c" and "length buf < 2 ^ 64"
  shows "digests512 (m @ buf) (sha512_hash c buf)"
proof -
  obtain h q where a: "absorb 128 sha512_compress sha512_start m = (h, q)" by (cases "absorb 128 sha512_compress sha512_start m")
  then have c: "sha512_holds (of_nat (length m)) h q c" using assms by (simp add: digests512_def)
  have q: "length q = length m mod 128" using absorb_rest [OF _ a] by simp
  let ?n = "of_nat (length m) :: 128 word" and ?l = "of_nat (length buf) :: u64"
  have l: "of_nat (length buf) = (ucast ?l :: 128 word)"
    using assms(2) by (simp add: word_unat_eq_iff unsigned_ucast_eq unat_of_nat take_bit_eq_mod)
  have lo: "ucast (?n + ucast ?l) = (ucast ?n + ?l :: u64)" unfolding l [symmetric] of_nat_add [symmetric] low_count ..
  define c' where "c' = (let c = c\<lparr>total64_lo := total64_lo c + ?l\<rparr> in if total64_lo c < ?l then c\<lparr>total64_hi := total64_hi c + 1\<rparr> else c)"
  have "total64_lo c' = ucast (?n + ucast ?l)" "total64_hi c' = ucast (drop_bit 64 (?n + ucast ?l))"
    unfolding counter_carry lo using c by (auto simp: c'_def Let_def sha512_holds_def)
  then have "sha512_holds (of_nat (length (m @ buf))) h q c'"
    using c l by (auto simp: c'_def Let_def sha512_holds_def)
  from sha512.loop_holds [OF this, of buf] have new: "digests512 (m @ buf) (sha512_hash_loop (length q) buf c')"
    using q by (simp add: digests512_def absorb_more [OF _ a] del: length_append)
  have "sha512_hash c buf = sha512_hash_loop (unat (total64_lo c AND 127)) buf c'" by (simp add: sha512_hash_def c'_def Let_def)
  moreover have "unat (total64_lo c AND 127) = length q" using c q by (simp add: sha512_holds_def bufpos_128)
  ultimately show ?thesis using new by simp
qed

lemma digests512_chunks:
  "digests512 m c \<Longrightarrow> \<forall>b \<in> set chunks. length b < 2 ^ 64 \<Longrightarrow> digests512 (m @ concat chunks) (foldl sha512_hash c chunks)"
proof (induction chunks arbitrary: m c)
  case (Cons b chunks)
  then show ?case using digests512_hash [OF Cons.prems(1), of b] by (metis append.assoc concat.simps(2) foldl_Cons list.set_intros)
qed simp

lemma sha512_begins:
  assumes "length (wbuffer128 c) = 128"
  shows "digests512 [] (sha512_begin c)"
proof -
  have "map (\<lambda>i. push_bit 32 (ucast (init256 ! i)) + ucast (init512_lo ! i)) [0..<8 + 2] = 0 # 0 # sha512_start" by code_simp
  then show ?thesis using assms by (simp add: digests512_def absorb_short sha512_holds_def sha512_begin_def)
qed

lemma swap_out64: "put_le 8 (swap_be64 w) = rev (put_le 8 w)"
  by (simp add: swap_be64_def put_le_le)

lemma sha512_end_digest:
  assumes "digests512 m c"
  shows "\<exists>c'. sha512_end c = (64, sha512_digest m, c')"
proof -
  obtain h q where a: "absorb 128 sha512_compress sha512_start m = (h, q)" by (cases "absorb 128 sha512_compress sha512_start m")
  then have c: "sha512_holds (of_nat (length m)) h q c" using assms by (simp add: digests512_def)
  have q: "length q = length m mod 128" using absorb_rest [OF _ a] by simp
  have l: "length (length_field128 n) = 16" for n by (simp add: length_field128_def)
  from sha512.padded [OF c q, of 112, unfolded l] show ?thesis
    using c q by (auto simp: absorb_more [OF _ a] sha512_end_def sha512_digest_def Let_def sha512_holds_def bufpos_128 swap_out64 comp_def)
qed

text \<open>C10: any sequence of chunks given to \<open>sha512_hash\<close> between \<open>sha512_begin\<close> and \<open>sha512_end\<close> yields the digest of
  FIPS 180 for the concatenated message, when each chunk has a length that fits \<open>size_t\<close>; the two words of the counter
  with their carry give the length field of 128 bits.\<close>

theorem sha512_digest_correct:
  assumes "length (wbuffer128 c) = 128" and "\<forall>b \<in> set chunks. length b < 2 ^ 64"
  shows "\<exists>c'. sha512_end (foldl sha512_hash (sha512_begin c) chunks) = (64, sha512_digest (concat chunks), c')"
  using sha512_end_digest [OF digests512_chunks [OF sha512_begins [OF assms(1)] assms(2)]] by simp

lemma sha512_digest_correct_witness:
  "let c = \<lparr>total64_lo = 0, total64_hi = 0, hash64 = replicate 8 0, wbuffer128 = replicate 128 0\<rparr> in
    \<exists>c'. sha512_end (sha512_hash (sha512_hash (sha512_begin c) (replicate 100 1)) (replicate 150 2)) =
      (64, sha512_digest (replicate 100 1 @ replicate 150 2), c')"
  using sha512_digest_correct [of "\<lparr>total64_lo = 0, total64_hi = 0, hash64 = replicate 8 0, wbuffer128 = replicate 128 0\<rparr>"
    "[replicate 100 1, replicate 150 2]"] by simp

end
