(* ===== verification/Hash_Sha3.thy ===== *)
theory Hash_Sha3
  imports Hash_Context
begin

text \<open>
  The permutation of SHA-3 as it is compiled for a 64-bit machine with \<open>SHA3_SMALL = 1\<close>, and the one of FIPS 202.  The
  state is a list of 25 lanes.
\<close>

definition IOTA_CONST :: "u64 list" where
  "IOTA_CONST = [0x0001, 0x8082, 0x808a, 0x8000, 0x808b, 0x0001, 0x8081, 0x8009, 0x008a, 0x0088, 0x8009, 0x000a,
     0x808b, 0x008b, 0x8089, 0x8003, 0x8002, 0x0080, 0x800a, 0x000a, 0x8081, 0x8080, 0x0001, 0x8008]"

definition IOTA_CONST_bit63 :: u32 where "IOTA_CONST_bit63 = 0x3307dd00"
definition IOTA_CONST_bit31 :: u32 where "IOTA_CONST_bit31 = 0x16381b00"

definition ROT_CONST :: "nat list" where
  "ROT_CONST = [1, 3, 6, 10, 15, 21, 28, 36, 45, 55, 2, 14, 27, 41, 56, 8, 25, 43, 62, 18, 39, 61, 20, 44]"

definition PI_LANE :: "nat list" where
  "PI_LANE = [10, 7, 11, 17, 18, 3, 5, 16, 8, 21, 24, 4, 15, 23, 19, 13, 12, 2, 20, 14, 22, 9, 6, 1]"

definition sha3_theta :: "u64 list \<Rightarrow> u64 list" where
  "sha3_theta s =
     (let BC = map (\<lambda>x. s ! x XOR s ! (x + 5) XOR s ! (x + 10) XOR s ! (x + 15) XOR s ! (x + 20)) [0..<5]; BC = BC @ BC in
      fold (\<lambda>x s. let temp = BC ! (x + 4) XOR rotl64 (BC ! (x + 1)) 1 in
        fold (\<lambda>i s. s[i := s ! i XOR temp]) [x, x + 5, x + 10, x + 15, x + 20] s) [0..<5] s)"

definition sha3_rho_pi :: "u64 list \<Rightarrow> u64 list" where
  "sha3_rho_pi s = snd (fold (\<lambda>x (t1, s).
     let t0 = s ! (PI_LANE ! x) in (t0, s[PI_LANE ! x := rotl64 t1 (ROT_CONST ! x)])) [0..<24] (s ! 1, s))"

definition sha3_chi :: "u64 list \<Rightarrow> u64 list" where
  "sha3_chi s = fold (\<lambda>x s.
     let BC0 = s ! x; BC1 = s ! (x + 1); BC2 = s ! (x + 2);
         s = s[x := BC0 XOR (NOT BC1 AND BC2)];
         BC3 = s ! (x + 3);
         s = s[x + 1 := BC1 XOR (NOT BC2 AND BC3)];
         BC4 = s ! (x + 4);
         s = s[x + 2 := BC2 XOR (NOT BC3 AND BC4)];
         s = s[x + 3 := BC3 XOR (NOT BC4 AND BC0)]
     in s[x + 4 := BC4 XOR (NOT BC0 AND BC1)]) [0, 5, 10, 15, 20] s"

definition sha3_iota :: "nat \<Rightarrow> u64" where
  "sha3_iota rnd = IOTA_CONST ! rnd OR ucast (push_bit rnd IOTA_CONST_bit31 AND 0x80000000) OR
     push_bit 32 (ucast (push_bit rnd IOTA_CONST_bit63 AND 0x80000000))"

definition sha3_process_block72 :: "u64 list \<Rightarrow> u64 list" where
  "sha3_process_block72 s = fold (\<lambda>rnd s.
     let s = sha3_chi (sha3_rho_pi (sha3_theta s)) in s[0 := s ! 0 XOR sha3_iota rnd]) [0..<24] s"

section \<open>FIPS 202\<close>

text \<open>Lane \<open>(x, y)\<close> has the index \<open>5 * y + x\<close>.  The five steps of a round as functions on all lanes.\<close>

definition lane :: "u64 list \<Rightarrow> nat \<Rightarrow> nat \<Rightarrow> u64" where
  "lane A x y = A ! (5 * (y mod 5) + x mod 5)"

definition lanes :: "(nat \<Rightarrow> nat \<Rightarrow> u64) \<Rightarrow> u64 list" where
  "lanes f = map (\<lambda>i. f (i mod 5) (i div 5)) [0..<25]"

definition keccak_theta :: "u64 list \<Rightarrow> u64 list" where
  "keccak_theta A =
     (let C = (\<lambda>x. lane A x 0 XOR lane A x 1 XOR lane A x 2 XOR lane A x 3 XOR lane A x 4)
      in lanes (\<lambda>x y. lane A x y XOR (C (x + 4) XOR word_rotl 1 (C (x + 1)))))"

text \<open>The offsets are triangular numbers along a walk over the lanes.\<close>

fun keccak_walk :: "nat \<Rightarrow> nat \<times> nat" where
  "keccak_walk 0 = (1, 0)" |
  "keccak_walk (Suc t) = (case keccak_walk t of (x, y) \<Rightarrow> (y, (2 * x + 3 * y) mod 5))"

definition keccak_offset :: "nat \<Rightarrow> nat \<Rightarrow> nat" where
  "keccak_offset x y = (case List.find (\<lambda>t. keccak_walk t = (x, y)) [0..<24] of
     None \<Rightarrow> 0 | Some t \<Rightarrow> (t + 1) * (t + 2) div 2 mod 64)"

definition keccak_rho :: "u64 list \<Rightarrow> u64 list" where
  "keccak_rho A = lanes (\<lambda>x y. word_rotl (keccak_offset x y) (lane A x y))"

definition keccak_pi :: "u64 list \<Rightarrow> u64 list" where
  "keccak_pi A = lanes (\<lambda>x y. lane A (x + 3 * y) x)"

definition keccak_chi :: "u64 list \<Rightarrow> u64 list" where
  "keccak_chi A = lanes (\<lambda>x y. lane A x y XOR (NOT (lane A (x + 1) y) AND lane A (x + 2) y))"

text \<open>The bits of the round constants come from a shift register of eight bits.\<close>

fun rc_step :: "bool list \<Rightarrow> bool list" where
  "rc_step [r0, r1, r2, r3, r4, r5, r6, r7] = [r7, r0, r1, r2, r3 \<noteq> r7, r4 \<noteq> r7, r5 \<noteq> r7, r6]" |
  "rc_step r = r"

fun rc_bits :: "nat \<Rightarrow> bool list \<Rightarrow> bool list" where
  "rc_bits 0 r = []" |
  "rc_bits (Suc n) r = hd r # rc_bits n (rc_step r)"

definition keccak_RC :: "nat \<Rightarrow> u64" where
  "keccak_RC rnd = foldr (\<lambda>j w. if rc_bits 168 (True # replicate 7 False) ! (j + 7 * rnd) then set_bit (2 ^ j - 1) w else w) [0..<7] 0"

definition keccak_round :: "nat \<Rightarrow> u64 list \<Rightarrow> u64 list" where
  "keccak_round rnd A = (let A = keccak_chi (keccak_pi (keccak_rho (keccak_theta A))) in A[0 := A ! 0 XOR keccak_RC rnd])"

definition keccak_f :: "u64 list \<Rightarrow> u64 list" where
  "keccak_f A = fold keccak_round [0..<24] A"

section \<open>The code computes the permutation of the standard\<close>

lemma upt_5: "[0..<5] = [0, 1, 2, 3, 4 :: nat]" and upt_24: "[0..<24] = [0, 1, 2, 3, 4, 5, 6, 7, 8, 9, 10, 11, 12, 13, 14, 15, 16, 17, 18, 19, 20, 21, 22, 23 :: nat]"
  and upt_25: "[0..<25] = [0, 1, 2, 3, 4, 5, 6, 7, 8, 9, 10, 11, 12, 13, 14, 15, 16, 17, 18, 19, 20, 21, 22, 23, 24 :: nat]"
  by (simp_all add: upt_rec)

lemma iota_RC: "map sha3_iota [0..<24] = map keccak_RC [0..<24]"
  by code_simp

lemma state_cases:
  assumes "length (s :: u64 list) = 25"
  obtains s0 s1 s2 s3 s4 s5 s6 s7 s8 s9 s10 s11 s12 s13 s14 s15 s16 s17 s18 s19 s20 s21 s22 s23 s24 where "s = [s0, s1, s2, s3, s4, s5, s6, s7, s8, s9, s10, s11, s12, s13, s14, s15, s16, s17, s18, s19, s20, s21, s22, s23, s24]"
proof -
  have "s = map ((!) s) [0..<25]" using map_nth [of s] assms by simp
  then show ?thesis unfolding upt_25 list.map by (rule that)
qed

lemma word_rotl_0: "word_rotl 0 (x :: 'a::len word) = x"
  by (rule bit_word_eqI) (auto simp: bit_simps)

lemma keccak_offsets:
  "map (\<lambda>i. keccak_offset (i mod 5) (i div 5)) [0..<25] =
    [0, 1, 62, 28, 27, 36, 44, 6, 55, 20, 3, 10, 43, 25, 39, 41, 45, 15, 21, 8, 18, 2, 61, 56, 14]"
  by code_simp

lemma theta_eq: "length s = 25 \<Longrightarrow> sha3_theta s = keccak_theta s"
  by (erule state_cases) (simp add: sha3_theta_def keccak_theta_def lanes_def lane_def upt_5 upt_25 Let_def rotl64_word_rotl xor.assoc del: upt_conv_Cons)

lemma rho_pi_eq: "length s = 25 \<Longrightarrow> sha3_rho_pi s = keccak_pi (keccak_rho s)"
  by (erule state_cases) (use keccak_offsets in \<open>simp add: sha3_rho_pi_def keccak_pi_def keccak_rho_def lanes_def lane_def upt_24 upt_25 Let_def
    rotl64_word_rotl word_rotl_0 PI_LANE_def ROT_CONST_def del: upt_conv_Cons\<close>)

lemma chi_eq: "length s = 25 \<Longrightarrow> sha3_chi s = keccak_chi s"
  by (erule state_cases) (simp add: sha3_chi_def keccak_chi_def lanes_def lane_def upt_25 Let_def del: upt_conv_Cons)

lemma lengths: "length (sha3_chi s) = length s" "length (sha3_rho_pi s) = length s" "length (sha3_theta s) = length s" "length (lanes f) = 25"
proof -
  have upd: "length (fold (\<lambda>i s. s[i := s ! i XOR temp]) xs s) = length s" for xs temp and s :: "u64 list"
    by (induction xs arbitrary: s) simp_all
  have th: "length (fold (\<lambda>x s. let temp = f x in fold (\<lambda>i s. s[i := s ! i XOR temp]) (g x) s) xs s) = length s" for f g xs and s :: "u64 list"
    by (induction xs arbitrary: s) (simp_all add: upd Let_def)
  show "length (sha3_theta s) = length s" by (simp only: sha3_theta_def Let_def upd th [unfolded Let_def])
  have rp: "length (snd (fold (\<lambda>x (t1, s). let t0 = s ! (PI_LANE ! x) in (t0, s[PI_LANE ! x := rotl64 t1 (ROT_CONST ! x)])) xs (t, s))) = length s"
    for xs t and s :: "u64 list"
    by (induction xs arbitrary: t s) (simp_all add: Let_def)
  show "length (sha3_rho_pi s) = length s" by (simp only: sha3_rho_pi_def rp)
  show "length (sha3_chi s) = length s" by (simp add: sha3_chi_def Let_def)
  show "length (lanes f) = 25" by (simp add: lanes_def)
qed

lemma sha3_block:
  assumes "length s = 25"
  shows "sha3_process_block72 s = keccak_f s" and "length (keccak_f s) = 25"
proof -
  have "fold (\<lambda>rnd s. let s = sha3_chi (sha3_rho_pi (sha3_theta s)) in s[0 := s ! 0 XOR sha3_iota rnd]) rs s = fold keccak_round rs s \<and>
      length (fold keccak_round rs s) = 25" if "set rs \<subseteq> {..<24}" for rs
    using assms that
  proof (induction rs arbitrary: s)
    case Nil
    then show ?case by simp
  next
    case (Cons r rs)
    have "map sha3_iota [0..<24] ! r = map keccak_RC [0..<24] ! r" by (simp only: iota_RC)
    moreover have "map sha3_iota [0..<24] ! r = sha3_iota r" "map keccak_RC [0..<24] ! r = keccak_RC r" using Cons.prems(2) by (auto intro: nth_map_upt)
    ultimately have "sha3_iota r = keccak_RC r" by simp
    then have "(let s = sha3_chi (sha3_rho_pi (sha3_theta s)) in s[0 := s ! 0 XOR sha3_iota r]) = keccak_round r s" "length (keccak_round r s) = 25"
      using Cons.prems(1) by (simp_all add: keccak_round_def Let_def theta_eq rho_pi_eq chi_eq lengths keccak_theta_def keccak_rho_def keccak_pi_def keccak_chi_def)
    then show ?case using Cons by simp
  qed
  moreover have "set [0..<24] \<subseteq> {..<24}" by auto
  ultimately have "fold (\<lambda>rnd s. let s = sha3_chi (sha3_rho_pi (sha3_theta s)) in s[0 := s ! 0 XOR sha3_iota rnd]) [0..<24] s = fold keccak_round [0..<24] s \<and>
      length (fold keccak_round [0..<24] s) = 25" by blast
  then show "sha3_process_block72 s = keccak_f s" "length (keccak_f s) = 25"
    by (auto simp: sha3_process_block72_def keccak_f_def)
qed

end
