(* ===== verification/Hash_Sponge.thy ===== *)
theory Hash_Sponge
  imports Hash_Sha3 Hash_Stream
begin

text \<open>
  SHA-3 of \<open>libbb/hash_md5_sha.c\<close> (\<open>SHA3_SMALL = 1\<close>): the message is XORed into the bytes of the state, which is a list of
  lanes whose low byte comes first.  A rate of 0 would make the loop run forever, so it returns an option.
\<close>

section \<open>The operations\<close>

text \<open>\<open>buf[pos] ^= b\<close> with \<open>buf = (uint8_t * ) ctx->state\<close>\<close>

definition xor_byte :: "u32 \<Rightarrow> u8 \<Rightarrow> u64 list \<Rightarrow> u64 list" where
  "xor_byte pos b s = (let i = unat pos div 8 in s[i := s ! i XOR push_bit (8 * (unat pos mod 8)) (ucast b)])"

fun xor_bytes :: "u32 \<Rightarrow> bytes \<Rightarrow> u64 list \<Rightarrow> u64 list" where
  "xor_bytes bufpos [] s = s" |
  "xor_bytes bufpos (b # data) s = xor_bytes (bufpos + 1) data (xor_byte bufpos b s)"

definition sha3_begin :: "sha3_ctx_t \<Rightarrow> sha3_ctx_t" where
  "sha3_begin ctx = (let ctx = ctx\<lparr>state := replicate 25 0, bytes_queued := 0, input_block_bytes := 0\<rparr>
     in ctx\<lparr>input_block_bytes := (1600 - 512 * 2) div 8\<rparr>)"

partial_function (option) sha3_hash_loop :: "u32 \<Rightarrow> bytes \<Rightarrow> sha3_ctx_t \<Rightarrow> (sha3_ctx_t \<times> u32) option" where
  "sha3_hash_loop bufpos data ctx =
     (let remaining = min (unat (input_block_bytes ctx - bufpos)) (length data);
          ctx = ctx\<lparr>state := xor_bytes bufpos (take remaining data) (state ctx)\<rparr>;
          bufpos = bufpos + of_nat remaining;
          bufpos = bufpos - input_block_bytes ctx
      in if bufpos \<noteq> 0 then Some (ctx, bufpos)
         else sha3_hash_loop 0 (drop remaining data) (ctx\<lparr>state := sha3_process_block72 (state ctx)\<rparr>))"

definition sha3_hash :: "sha3_ctx_t \<Rightarrow> bytes \<Rightarrow> sha3_ctx_t option" where
  "sha3_hash ctx buffer = (case sha3_hash_loop (bytes_queued ctx) buffer ctx of None \<Rightarrow> None
     | Some (ctx, bufpos) \<Rightarrow> Some (ctx\<lparr>bytes_queued := bufpos + input_block_bytes ctx\<rparr>))"

definition sha3_end :: "sha3_ctx_t \<Rightarrow> nat \<times> bytes \<times> sha3_ctx_t" where
  "sha3_end ctx =
     (let ctx = ctx\<lparr>state := xor_byte (bytes_queued ctx) 6 (state ctx)\<rparr>;
          ctx = ctx\<lparr>state := xor_byte (input_block_bytes ctx - 1) 0x80 (state ctx)\<rparr>;
          ctx = ctx\<lparr>state := sha3_process_block72 (state ctx)\<rparr>
      in (64, concat (map (put_le 8) (take 8 (state ctx))), ctx))"

section \<open>FIPS 202\<close>

text \<open>A block is XORed into the state as lanes, low byte first, with zeros behind it; then the permutation.\<close>

definition xor_block :: "u64 list \<Rightarrow> bytes \<Rightarrow> u64 list" where
  "xor_block s b = map (\<lambda>i. s ! i XOR le (8 * i) 8 b) [0..<25]"

definition sponge :: "bytes \<Rightarrow> u64 list \<Rightarrow> u64 list" where
  "sponge b s = keccak_f (xor_block s b)"

text \<open>The two bits of SHA-3 and \<open>10*1\<close>, in bytes.\<close>

definition sha3_pad :: "nat \<Rightarrow> nat \<Rightarrow> bytes" where
  "sha3_pad r n = (let k = r - n mod r in if k = 1 then [0x86] else 0x06 # replicate (k - 2) 0 @ [0x80])"

text \<open>Squeezing gives at most a block of \<open>r\<close> bytes from every state, and permutes it in between.\<close>

function squeeze :: "nat \<Rightarrow> nat \<Rightarrow> u64 list \<Rightarrow> bytes" where
  "squeeze r d s = (let z = concat (map (put_le 8) s) in
     if r = 0 \<or> d \<le> r then take d z else take r z @ squeeze r (d - r) (keccak_f s))"
  by pat_completeness auto
termination by (relation "measure (\<lambda>(r, d, s). d)") auto

declare squeeze.simps [simp del]

text \<open>\<open>d\<close> bytes of the sponge with a rate of \<open>r\<close> bytes over the padded message; SHA3-224 to SHA3-512 are the pairs
  (144, 28), (136, 32), (104, 48) and (72, 64).\<close>

definition sha3_digest :: "nat \<Rightarrow> nat \<Rightarrow> bytes \<Rightarrow> bytes" where
  "sha3_digest r d m = squeeze r d (fst (absorb r sponge (replicate 25 0) (m @ sha3_pad r (length m))))"

section \<open>Bytes of lanes\<close>

lemma bit_bytes:
  "bit (foldr (\<lambda>b w. push_bit 8 w OR ucast b) (bs :: bytes) (0 :: 'a::len word)) k \<longleftrightarrow>
    k < LENGTH('a) \<and> k div 8 < length bs \<and> bit (bs ! (k div 8)) (k mod 8)"
proof (induction bs arbitrary: k)
  case Nil
  then show ?case by simp
next
  case (Cons b bs)
  show ?case
  proof (cases "k < 8")
    case True
    then show ?thesis by (simp add: bit_simps)
  next
    case False
    then have "k div 8 = Suc ((k - 8) div 8)" "k mod 8 = (k - 8) mod 8" by (simp_all add: le_div_geq le_mod_geq)
    moreover have "\<not> bit b k" using False bit_imp_le_length [of b k] by auto
    ultimately show ?thesis using False Cons.IH [of "k - 8"] by (auto simp: bit_simps)
  qed
qed

lemma bit_le_bytes: "bit (le (8 * i) 8 b :: u64) k \<longleftrightarrow> k < 64 \<and> 8 * i + k div 8 < length b \<and> bit (b ! (8 * i + k div 8)) (k mod 8)"
proof -
  have "k < 64 \<Longrightarrow> k div 8 < 8" by simp
  then show ?thesis by (auto simp: le_def bit_bytes)
qed

lemma xor_byte_block:
  assumes "length q < 200"
  shows "xor_byte (of_nat (length q)) b (xor_block h q) = xor_block h (q @ [b])"
proof (rule nth_equalityI)
  show "length (xor_byte (of_nat (length q)) b (xor_block h q)) = length (xor_block h (q @ [b]))"
    by (simp add: xor_byte_def xor_block_def Let_def)
next
  fix i assume "i < length (xor_byte (of_nat (length q)) b (xor_block h q))"
  then have i: "i < 25" by (simp add: xor_byte_def xor_block_def Let_def)
  define p where "p = length q"
  have u: "unat (of_nat p :: u32) = p" using assms by (simp add: p_def unat_of_nat)
  have split: "le (8 * i) 8 (q @ [b]) = (le (8 * i) 8 q XOR (if i = p div 8 then push_bit (8 * (p mod 8)) (ucast b) else 0) :: u64)"
  proof (rule bit_word_eqI)
    fix k assume k: "k < LENGTH(64)"
    have here: "8 * i + k div 8 = p \<longleftrightarrow> i = p div 8 \<and> k div 8 = p mod 8"
    proof
      assume e: "8 * i + k div 8 = p"
      have "k div 8 < 8" using k by simp
      then show "i = p div 8 \<and> k div 8 = p mod 8" unfolding e [symmetric] by simp
    qed auto
    have byte: "8 * (p mod 8) \<le> k \<and> k < 64 \<and> bit (ucast b :: u64) (k - 8 * (p mod 8)) \<longleftrightarrow> k div 8 = p mod 8 \<and> bit b (k mod 8)"
    proof (cases "k div 8 = p mod 8")
      case True
      then have "k = 8 * (p mod 8) + k mod 8" by (metis mult_div_mod_eq)
      then have "k - 8 * (p mod 8) = k mod 8" "8 * (p mod 8) \<le> k" by linarith+
      moreover have "k mod 8 < 64" by (rule less_trans [of _ 8]) simp_all
      ultimately show ?thesis using True k by (simp add: bit_simps)
    next
      case False
      have "\<not> bit b (k - 8 * (p mod 8))" if "8 * (p mod 8) \<le> k"
      proof -
        have "p mod 8 \<le> k div 8" using div_le_mono [OF that, of 8] by simp
        then have "8 * Suc (p mod 8) \<le> 8 * (k div 8)" using False by (intro mult_le_mono2) simp
        then have "8 \<le> k - 8 * (p mod 8)" using times_div_less_eq_dividend [of 8 k] by simp
        then show ?thesis using bit_imp_le_length [of b "k - 8 * (p mod 8)"] by auto
      qed
      then show ?thesis using False by (auto simp: bit_simps)
    qed
    show "bit (le (8 * i) 8 (q @ [b]) :: u64) k =
        bit (le (8 * i) 8 q XOR (if i = p div 8 then push_bit (8 * (p mod 8)) (ucast b) else 0) :: u64) k"
      using here byte k by (auto simp: bit_le_bytes bit_xor_iff bit_push_bit_iff nth_append p_def)
  qed
  show "xor_byte (of_nat (length q)) b (xor_block h q) ! i = xor_block h (q @ [b]) ! i"
    using i assms by (auto simp: xor_byte_def xor_block_def Let_def split u [unfolded p_def] p_def nth_list_update xor.assoc)
qed

lemma xor_bytes_block: "length q + length bs \<le> 200 \<Longrightarrow> xor_bytes (of_nat (length q)) bs (xor_block h q) = xor_block h (q @ bs)"
proof (induction bs arbitrary: q)
  case (Cons b bs)
  then show ?case using Cons.IH [of "q @ [b]"] by (simp add: xor_byte_block add.commute)
qed simp

section \<open>What a context holds\<close>

text \<open>The loop works on the context and \<open>bufpos\<close>.\<close>

type_synonym sponge_state = "(sha3_ctx_t \<times> u32) option"

definition sponge_put :: "nat \<Rightarrow> bytes \<Rightarrow> sponge_state \<Rightarrow> sponge_state" where
  "sponge_put pos bs = map_option (\<lambda>(c, p). (c\<lparr>state := xor_bytes (of_nat pos) bs (state c)\<rparr>, of_nat pos + of_nat (length bs) - input_block_bytes c))"

definition sponge_process :: "sponge_state \<Rightarrow> sponge_state" where
  "sponge_process = map_option (\<lambda>(c, p). (c\<lparr>state := sha3_process_block72 (state c)\<rparr>, - input_block_bytes c))"

definition sponge_loop :: "nat \<Rightarrow> bytes \<Rightarrow> sponge_state \<Rightarrow> sponge_state" where
  "sponge_loop pos data x = Option.bind x (\<lambda>(c, p). sha3_hash_loop (of_nat pos) data c)"

definition sha3_holds :: "nat \<Rightarrow> u64 list \<Rightarrow> bytes \<Rightarrow> sponge_state \<Rightarrow> bool" where
  "sha3_holds r h q x \<longleftrightarrow> (case x of None \<Rightarrow> False
     | Some (c, p) \<Rightarrow> input_block_bytes c = of_nat r \<and> 0 < r \<and> r \<le> 200 \<and> length h = 25 \<and> state c = xor_block h q \<and>
         p = of_nat (length q) - of_nat r)"

lemma xor_block_Nil: "length h = 25 \<Longrightarrow> xor_block h [] = h"
  by (intro nth_equalityI) (simp_all add: xor_block_def le_def)

lemma sponge_length: "length (sponge b s) = 25" "length (xor_block s b) = 25"
proof -
  show x: "length (xor_block s b) = 25" by (simp add: xor_block_def)
  show "length (sponge b s) = 25" unfolding sponge_def by (rule sha3_block(2) [OF x])
qed

lemma put_sponge:
  assumes "sha3_holds r h q x" and "length q + length bs \<le> 200"
  shows "sha3_holds r h (q @ bs) (sponge_put (length q) bs x)"
  using assms by (auto simp: sha3_holds_def sponge_put_def xor_bytes_block split: option.splits)

lemma process_sponge:
  assumes "sha3_holds r h q x"
  shows "sha3_holds r (sponge q h) [] (sponge_process x)"
proof -
  have "sha3_process_block72 (xor_block h q) = sponge q h" by (simp add: sponge_def sha3_block(1) sponge_length(2))
  then show ?thesis using assms
    by (auto simp: sha3_holds_def sponge_process_def sponge_length(1) xor_block_Nil [OF sponge_length(1)] split: option.splits)
qed

lemma small_u32: "a \<le> 200 \<Longrightarrow> unat (of_nat a :: u32) = a"
  by (simp add: unat_of_nat)

lemma loop_sponge:
  assumes "sha3_holds r h q x" and "pos < r"
  shows "sponge_loop pos data x = (let n = min (r - pos) (length data); x = sponge_put pos (take n data) x
    in if pos + n \<noteq> r then x else sponge_loop 0 (drop n data) (sponge_process x))"
proof -
  obtain c p where x: "x = Some (c, p)" "input_block_bytes c = of_nat r" "r \<le> 200"
    using assms(1) by (auto simp: sha3_holds_def split: option.splits)
  define n where "n = min (r - pos) (length data)"
  have n: "n \<le> r - pos" "min n (length data) = n" "length (take n data) = n" by (simp_all add: n_def)
  have rest: "min (unat (of_nat r - of_nat pos :: u32)) (length data) = n"
    using assms(2) x(3) by (simp add: n_def small_u32 flip: of_nat_diff)
  have stop: "(of_nat pos + of_nat n = (of_nat r :: u32)) \<longleftrightarrow> pos + n = r"
  proof -
    have "pos + n \<le> 200" using n(1) assms(2) x(3) by linarith
    then have "(of_nat (pos + n) = (of_nat r :: u32)) \<longleftrightarrow> pos + n = r"
      using small_u32 [of "pos + n"] small_u32 [OF x(3)] by metis
    then show ?thesis by simp
  qed
  show ?thesis unfolding n_def [symmetric] Let_def
    unfolding sponge_loop_def x(1) bind.bind_lunit prod.case sha3_hash_loop.simps [of "of_nat pos" data c] x(2) rest Let_def
      sponge_put_def sponge_process_def option.map prod.case n(3)
    by (simp add: x(2) stop)
qed

text \<open>The rate is not 0.\<close>

interpretation sha3: block_stream "Suc k" sponge_put sponge_process sponge_loop "sha3_holds (Suc k)" sponge for k
proof
  show "0 < Suc k" by simp
next
  fix pos h q x data
  assume "pos < Suc k" "sha3_holds (Suc k) h q x"
  then show "sponge_loop pos data x = (let n = min (Suc k - pos) (length data); x = sponge_put pos (take n data) x
    in if pos + n \<noteq> Suc k then x else sponge_loop 0 (drop n data) (sponge_process x))"
    by (intro loop_sponge)
next
  fix h q x and bs :: bytes
  assume q: "sha3_holds (Suc k) h q x" "length q + length bs \<le> Suc k"
  then have "length q + length bs \<le> 200" by (auto simp: sha3_holds_def split: option.splits)
  then show "sha3_holds (Suc k) h (q @ bs) (sponge_put (length q) bs x)" by (rule put_sponge [OF q(1)])
next
  fix h q x
  assume "sha3_holds (Suc k) h q x"
  then show "sha3_holds (Suc k) (sponge q h) [] (sponge_process x)" by (rule process_sponge)
qed

section \<open>Whole messages\<close>

definition digests3 :: "nat \<Rightarrow> bytes \<Rightarrow> sha3_ctx_t \<Rightarrow> bool" where
  "digests3 r m c = (case absorb r sponge (replicate 25 0) m of (h, q) \<Rightarrow>
     sha3_holds r h q (Some (c, of_nat (length q) - of_nat r)) \<and> bytes_queued c = of_nat (length q))"

lemma holds_loop:
  assumes "sha3_holds r h q (Some (c, p))" and "length q < r"
  shows "case absorb r sponge h (q @ buf) of (h', q') \<Rightarrow> sha3_holds r h' q' (sha3_hash_loop (of_nat (length q)) buf c)"
proof -
  obtain k where r: "r = Suc k" using assms(2) by (cases r) simp_all
  show ?thesis using sha3.loop_holds [OF assms [unfolded r], of buf] by (simp add: sponge_loop_def r)
qed

lemma digests3_hash:
  assumes "digests3 r m c"
  shows "\<exists>c'. sha3_hash c buf = Some c' \<and> digests3 r (m @ buf) c'"
proof -
  obtain h q where a: "absorb r sponge (replicate 25 0) m = (h, q)" by (cases "absorb r sponge (replicate 25 0) m")
  have c: "sha3_holds r h q (Some (c, of_nat (length q) - of_nat r))" "bytes_queued c = of_nat (length q)"
    using assms a by (simp_all add: digests3_def)
  have r: "0 < r" using c(1) by (simp add: sha3_holds_def)
  then have q: "length q < r" using absorb_rest [OF r a] by simp
  obtain h' q' where a': "absorb r sponge h (q @ buf) = (h', q')" by (cases "absorb r sponge h (q @ buf)")
  obtain c' p where l: "sha3_hash_loop (of_nat (length q)) buf c = Some (c', p)" "sha3_holds r h' q' (Some (c', p))"
    using holds_loop [OF c(1) q, of buf] a' by (auto simp: sha3_holds_def split: option.splits)
  then have "digests3 r (m @ buf) (c'\<lparr>bytes_queued := p + input_block_bytes c'\<rparr>)"
    by (simp add: digests3_def absorb_more [OF r a] a' sha3_holds_def)
  then show ?thesis using l(1) by (simp add: sha3_hash_def c(2))
qed

lemma digests3_chunks:
  "digests3 r m c \<Longrightarrow> \<exists>c'. foldl (\<lambda>x b. Option.bind x (\<lambda>c. sha3_hash c b)) (Some c) chunks = Some c' \<and> digests3 r (m @ concat chunks) c'"
proof (induction chunks arbitrary: m c)
  case (Cons b chunks)
  obtain c1 where c1: "sha3_hash c b = Some c1" "digests3 r (m @ b) c1" using digests3_hash [OF Cons.prems] by blast
  then show ?case using Cons.IH [OF c1(2)] by simp
qed simp

lemma sha3_begins:
  assumes "0 < r" and "r \<le> 200"
  shows "digests3 r [] ((sha3_begin c)\<lparr>input_block_bytes := of_nat r\<rparr>)"
  using assms by (simp add: digests3_def absorb_short sha3_holds_def sha3_begin_def Let_def xor_block_Nil)

lemma xor_byte_twice: "xor_byte p b (xor_byte p b' s) = xor_byte p (b' XOR b) s"
proof -
  have x: "push_bit n (ucast b') XOR push_bit n (ucast b) = (push_bit n (ucast (b' XOR b)) :: u64)" for n
    by (auto intro!: bit_word_eqI simp: bit_simps)
  show ?thesis by (cases "unat p div 8 < length s") (simp_all add: xor_byte_def Let_def xor.assoc x list_update_beyond)
qed

lemma xor_block_zeros: "xor_block h (q @ replicate z 0) = xor_block h q"
  unfolding xor_block_def by (auto intro!: bit_word_eqI simp: bit_le_bytes nth_append bit_xor_iff)

lemma sha3_padding:
  assumes "length q < r" and "r \<le> 200" and "n mod r = length q"
  shows "xor_byte (of_nat r - 1) 0x80 (xor_byte (of_nat (length q)) 6 (xor_block h q)) = xor_block h (q @ sha3_pad r n)"
    and "length (q @ sha3_pad r n) = r"
proof -
  have one: "(of_nat r - 1 :: u32) = of_nat (r - 1)" using assms(1) by simp
  show "xor_byte (of_nat r - 1) 0x80 (xor_byte (of_nat (length q)) 6 (xor_block h q)) = xor_block h (q @ sha3_pad r n)"
  proof (cases "length q = r - 1")
    case True
    then have "r - n mod r = 1" using assms(1,3) by linarith
    moreover have "(6 XOR 0x80 :: u8) = 0x86" by code_simp
    moreover have "xor_byte (of_nat (length q)) 0x86 (xor_block h q) = xor_block h (q @ [0x86])"
      using assms(1,2) by (intro xor_byte_block) simp
    ultimately show ?thesis unfolding one True [symmetric] by (simp only: xor_byte_twice sha3_pad_def Let_def simp_thms if_True)
  next
    case False
    define q' where "q' = (q @ [6]) @ replicate (r - length q - 2) 0"
    have q': "length q' = r - 1" "length q' < 200" using False assms(1,2) by (simp_all add: q'_def)
    have "xor_byte (of_nat (length q)) 6 (xor_block h q) = xor_block h q'"
      using assms(1,2) by (simp only: q'_def xor_block_zeros) (simp add: xor_byte_block)
    then have "xor_byte (of_nat r - 1) 0x80 (xor_byte (of_nat (length q)) 6 (xor_block h q)) = xor_block h (q' @ [0x80])"
      using xor_byte_block [OF q'(2), of "0x80" h] by (simp add: one q'(1))
    moreover have "q' @ [0x80] = q @ sha3_pad r n" using False assms(1,3) by (simp add: q'_def sha3_pad_def Let_def)
    ultimately show ?thesis by simp
  qed
  show "length (q @ sha3_pad r n) = r" using assms(1,3) by (simp add: sha3_pad_def Let_def) arith
qed

lemma take_lanes: "concat (map (put_le 8) (take k s)) = take (8 * k) (concat (map (put_le 8) (s :: u64 list)))"
  by (induction s arbitrary: k) (auto simp: take_Cons split: nat.split)

lemma sha3_end_digest:
  assumes "digests3 r m c" and "d \<le> r" and "d \<le> 64"
  shows "\<exists>out c'. sha3_end c = (64, out, c') \<and> length out = 64 \<and> take d out = sha3_digest r d m"
proof -
  obtain h q where a: "absorb r sponge (replicate 25 0) m = (h, q)" by (cases "absorb r sponge (replicate 25 0) m")
  have c: "input_block_bytes c = of_nat r" "0 < r" "r \<le> 200" "state c = xor_block h q" "bytes_queued c = of_nat (length q)"
    using assms a by (simp_all add: digests3_def sha3_holds_def)
  have q: "length m mod r = length q" "length q < r" using absorb_rest [OF c(2) a] c(2) by simp_all
  note pad = sha3_padding [OF q(2) c(3) q(1)]
  have "absorb r sponge h ((q @ sha3_pad r (length m)) @ []) = (sponge (q @ sha3_pad r (length m)) h, [])"
    unfolding absorb_block [OF c(2) pad(2)] using c(2) by (simp add: absorb_short)
  then have "fst (absorb r sponge (replicate 25 0) (m @ sha3_pad r (length m))) = sponge (q @ sha3_pad r (length m)) h"
    by (simp add: absorb_more [OF c(2) a])
  moreover have "sha3_process_block72 (xor_block h (q @ sha3_pad r (length m))) = sponge (q @ sha3_pad r (length m)) h"
    by (simp add: sponge_def sha3_block(1) sponge_length(2))
  moreover have "length (concat (map (put_le 8) (take 8 (sponge b h)))) = 64" for b
    using sponge_length(1) [of b h] by (simp add: length_concat comp_def sum_list_triv min_def)
  ultimately show ?thesis
    using assms(2,3) by (simp add: sha3_end_def sha3_digest_def squeeze.simps [of r d] c pad(1) take_lanes min_def)
qed

text \<open>C11: any sequence of chunks given to \<open>sha3_hash\<close> between \<open>sha3_begin\<close>, after which the caller may set another
  rate, and \<open>sha3_end\<close> returns.  Of the 64 bytes of the result the first \<open>d\<close>, for every \<open>d\<close> that the rate allows without
  another permutation, are the \<open>d\<close> bytes that FIPS 202 defines for the concatenated message; this covers the rates and
  lengths of SHA3-224 to SHA3-512.\<close>

theorem sha3_digest_correct:
  assumes "0 < r" and "r < 200" and "d \<le> r" and "d \<le> 64"
  shows "\<exists>c out c'. foldl (\<lambda>x b. Option.bind x (\<lambda>c. sha3_hash c b)) (Some ((sha3_begin c0)\<lparr>input_block_bytes := of_nat r\<rparr>)) chunks = Some c \<and>
    sha3_end c = (64, out, c') \<and> length out = 64 \<and> take d out = sha3_digest r d (concat chunks)"
proof -
  have "r \<le> 200" using assms(2) by simp
  from digests3_chunks [OF sha3_begins [OF assms(1) this], of c0 chunks] show ?thesis
    using sha3_end_digest [OF _ assms(3,4)] by fastforce
qed

lemma sha3_digest_correct_witness:
  "\<exists>c out c'. foldl (\<lambda>x b. Option.bind x (\<lambda>c. sha3_hash c b))
      (Some ((sha3_begin \<lparr>state = [], bytes_queued = 9, input_block_bytes = 0\<rparr>)\<lparr>input_block_bytes := 136\<rparr>)) [[0x61], replicate 71 0x62] = Some c \<and>
    sha3_end c = (64, out, c') \<and> take 32 out = sha3_digest 136 32 (0x61 # replicate 71 0x62)"
  using sha3_digest_correct [of 136 32 "\<lparr>state = [], bytes_queued = 9, input_block_bytes = 0\<rparr>" "[[0x61], replicate 71 0x62]"] by auto

end
