(* ===== verification/Base_Codec.thy ===== *)
theory Base_Codec
  imports User_Process
begin

unbundle bit_operations_syntax

text \<open>
  Base 64 and base 32 of BusyBox: \<open>libbb/uuencode.c\<close> and the applets \<open>base64\<close> and \<open>base32\<close> of \<open>coreutils/uudecode.c\<close>.
  The functions read and write through pointers that may point into one buffer, so they work on a memory of
  bytes; an address is a number.  Streams are lists of the bytes that are still to be read or have been written.
\<close>

type_synonym ram = "nat \<Rightarrow> u8"

section \<open>Tables\<close>

definition bb_uuenc_tbl_base32 :: bytes where
  "bb_uuenc_tbl_base32 = ascii ''ABCDEFGHIJKLMNOPQRSTUVWXYZ234567''"

definition bb_uuenc_tbl_base64 :: bytes where
  "bb_uuenc_tbl_base64 = ascii ''ABCDEFGHIJKLMNOPQRSTUVWXYZabcdefghijklmnopqrstuvwxyz0123456789+/=''"

definition bb_uuenc_tbl_std :: bytes where
  "bb_uuenc_tbl_std = 0x60 # map of_nat [33..<96] @ [0x60]"

section \<open>Encoding\<close>

function uuencode_loop :: "bytes \<Rightarrow> ram \<Rightarrow> nat \<Rightarrow> nat \<Rightarrow> int \<Rightarrow> ram \<times> nat \<times> int" where
  "uuencode_loop tbl m p s len =
     (if len \<le> 0 then (m, p, len)
      else
        let len = len - 3;
            s1 = (if -1 \<le> len then ucast (m (s + 1)) else 0 :: u32);
            s2 = (if -1 \<le> len \<and> 0 \<le> len then ucast (m (s + 2)) else 0 :: u32);
            m = m(p := tbl ! unat (drop_bit 2 (ucast (m s) :: u32)));
            m = m(p + 1 := tbl ! unat (push_bit 4 ((ucast (m s) :: u32) AND 3) + drop_bit 4 s1));
            m = m(p + 2 := tbl ! unat (push_bit 2 (s1 AND 0xf) + drop_bit 6 s2));
            m = m(p + 3 := tbl ! unat (s2 AND 0x3f))
        in uuencode_loop tbl m (p + 4) (s + 3) len)"
  by pat_completeness auto
termination by (relation "measure (\<lambda>(t, m, p, s, l). nat l)") auto

declare uuencode_loop.simps [simp del]

text \<open>\<open>while (length) { *--p = c; length++; }\<close>\<close>

fun pad_back :: "u8 \<Rightarrow> nat \<Rightarrow> nat \<Rightarrow> ram \<Rightarrow> ram" where
  "pad_back c 0 p m = m" |
  "pad_back c (Suc n) p m = pad_back c n (p - 1) (m(p - 1 := c))"

definition bb_uuencode :: "ram \<Rightarrow> nat \<Rightarrow> nat \<Rightarrow> int \<Rightarrow> bytes \<Rightarrow> ram" where
  "bb_uuencode m p src len tbl =
     (let (m, p, len) = uuencode_loop tbl m p src len;
          m = m(p := 0)
      in pad_back (tbl ! 64) (nat (- len)) p m)"

text \<open>\<open>next = 0; if (--length >= 0) next = *s++;\<close> gives \<open>next\<close>, \<open>s\<close> and \<open>len\<close>.\<close>

definition b32_next :: "ram \<Rightarrow> nat \<Rightarrow> int \<Rightarrow> u32 \<times> nat \<times> int" where
  "b32_next m s len = (let len = len - 1 in if 0 \<le> len then (ucast (m s), s + 1, len) else (0, s, len))"

text \<open>One round of the loop: eight characters at \<open>p\<close>.\<close>

definition b32_round :: "ram \<Rightarrow> nat \<Rightarrow> nat \<Rightarrow> int \<Rightarrow> ram \<times> nat \<times> int" where
  "b32_round m p s len =
     (let tbl = bb_uuenc_tbl_base32;
          len0 = len - 1; cur = (ucast (m s) :: u32); s = s + 1;
          m = m(p := tbl ! unat (drop_bit 3 cur)); cur = cur AND 7;
          (nxt, s, len1) = b32_next m s len0;
          m = m(p + 1 := tbl ! unat (push_bit 2 cur + drop_bit 6 nxt)); cur = nxt AND 0x3f;
          m = m(p + 2 := tbl ! unat (drop_bit 1 cur)); cur = cur AND 1;
          (nxt, s, len2) = b32_next m s len1;
          m = m(p + 3 := tbl ! unat (push_bit 4 cur + drop_bit 4 nxt)); cur = nxt AND 0xf;
          (nxt, s, len3) = b32_next m s len2;
          m = m(p + 4 := tbl ! unat (push_bit 1 cur + drop_bit 7 nxt)); cur = nxt AND 0x7f;
          m = m(p + 5 := tbl ! unat (drop_bit 2 cur)); cur = cur AND 3;
          (nxt, s, len4) = b32_next m s len3;
          m = m(p + 6 := tbl ! unat (push_bit 3 cur + drop_bit 5 nxt)); cur = nxt AND 0x1f;
          m = m(p + 7 := tbl ! unat cur)
      in (m, s, len4))"

lemma b32_next_len: "b32_next m s len = (a, b, c) \<Longrightarrow> c = len - 1"
  by (auto simp: b32_next_def Let_def split: if_splits)

lemma b32_round_len: "b32_round m p s len = (m', s', len') \<Longrightarrow> len' = len - 5"
  by (auto simp: b32_round_def Let_def split: prod.splits dest!: b32_next_len)

function b32encode_loop :: "ram \<Rightarrow> nat \<Rightarrow> nat \<Rightarrow> int \<Rightarrow> ram \<times> nat \<times> int" where
  "b32encode_loop m p s len =
     (if len \<le> 0 then (m, p, len) else let (m, s, len) = b32_round m p s len in b32encode_loop m (p + 8) s len)"
  by pat_completeness auto
termination by (relation "measure (\<lambda>(m, p, s, l). nat l)") (auto dest: b32_round_len [OF sym])

declare b32encode_loop.simps [simp del]

definition bb_b32encode :: "ram \<Rightarrow> nat \<Rightarrow> nat \<Rightarrow> int \<Rightarrow> ram" where
  "bb_b32encode m p src len =
     (let (m, p, len) = b32encode_loop m p src len;
          m = m(p := 0)
      in pad_back 0x3d (nat ((- len) * 3) div 2) p m)"

section \<open>Decoding\<close>

text \<open>The ``if forest'': the value of the character \<open>t\<close> at place \<open>i\<close> of its group, when \<open>nxt\<close> follows.\<close>

definition b64_value :: "u32 \<Rightarrow> nat \<Rightarrow> u8 \<Rightarrow> u32 option" where
  "b64_value t i nxt =
     (if 0x30 \<le> t \<and> t \<le> 0x39 then Some (t - 0x30 + 52)
      else if 0x41 \<le> t \<and> t \<le> 0x5a then Some (t - 0x41)
      else if 0x61 \<le> t \<and> t \<le> 0x7a then Some (t - 0x61 + 26)
      else if t = 0x2b then Some 62
      else if t = 0x2f then Some 63
      else if t = 0x3d \<and> (i = 3 \<or> i = 2 \<and> nxt = 0x3d) then Some 0x1000000
      else None)"

partial_function (option) decode_base64_loop :: "ram \<Rightarrow> nat \<Rightarrow> nat \<Rightarrow> u32 \<Rightarrow> nat \<Rightarrow> (ram \<times> nat \<times> nat \<times> nat) option" where
  "decode_base64_loop m dst src ch i =
     (let t = (ucast (m src) :: u32) in
      if t = 0 then Some (m, dst, src, i)
      else let src = src + 1 in
        case b64_value t i (m src) of
          None \<Rightarrow> decode_base64_loop m dst src ch i
        | Some t \<Rightarrow>
            let ch = push_bit 6 ch OR t; i = (i + 1) mod 4 in
            if i \<noteq> 0 then decode_base64_loop m dst src ch i
            else
              let m = m(dst := ucast (drop_bit 16 ch), dst + 1 := ucast (drop_bit 8 ch), dst + 2 := ucast ch); dst = dst + 3 in
              if ch AND 0x1000000 \<noteq> 0 then
                let dst = dst - 1; dst = (if ch AND push_bit 6 0x1000000 \<noteq> 0 then dst - 1 else dst) in Some (m, dst, src, i)
              else decode_base64_loop m dst src 0 i)"

text \<open>Without a second argument the text is decoded where it is.\<close>

definition decode_base64 :: "ram \<Rightarrow> nat \<Rightarrow> nat option \<Rightarrow> (ram \<times> nat \<times> nat option) option" where
  "decode_base64 m dst pp_src =
     (let src = (case pp_src of Some p \<Rightarrow> p | None \<Rightarrow> dst) in
      case decode_base64_loop m dst src 0 0 of None \<Rightarrow> None
      | Some (m, dst, src, i) \<Rightarrow> Some (m, dst, case pp_src of Some p \<Rightarrow> Some (src - i) | None \<Rightarrow> None))"

definition b32_value :: "u32 \<Rightarrow> nat \<Rightarrow> u32 option" where
  "b32_value t i =
     (if 0x32 \<le> t \<and> t \<le> 0x37 then Some (t - 0x32 + 26)
      else if t = 0x3d \<and> 1 < i then Some 0
      else let t = (t OR 0x20) - 0x61 in if 25 < t then None else Some t)"

text \<open>\<open>while (*--s == '=') i++;\<close>\<close>

primrec count_pads :: "ram \<Rightarrow> nat \<Rightarrow> nat \<Rightarrow> nat option" where
  "count_pads m 0 i = None" |
  "count_pads m (Suc s) i = (if m s = 0x3d then count_pads m s (i + 1) else Some i)"

partial_function (option) decode_base32_loop :: "ram \<Rightarrow> nat \<Rightarrow> nat \<Rightarrow> u64 \<Rightarrow> nat \<Rightarrow> (ram \<times> nat \<times> nat) option" where
  "decode_base32_loop m dst src ch i =
     (let t = (ucast (m src) :: u32) in
      if t = 0 then Some (m, dst, src - i)
      else let src = src + 1 in
        case b32_value t i of
          None \<Rightarrow> decode_base32_loop m dst src ch i
        | Some t \<Rightarrow>
            let ch = push_bit 5 ch OR ucast t; i = (i + 1) mod 8 in
            if i \<noteq> 0 then decode_base32_loop m dst src ch i
            else
              let m = m(dst := ucast (drop_bit 32 ch)); dst = dst + 1 in
              if m (src - 1) = 0x3d then
                case count_pads m src i of None \<Rightarrow> None
                | Some i \<Rightarrow>
                    let m = m(dst := ucast (drop_bit 24 ch), dst + 1 := ucast (drop_bit 16 ch), dst + 2 := ucast (drop_bit 8 ch), dst + 3 := ucast ch)
                    in Some (m, dst + 4 - (i + 1) * 2 div 3, src)
              else
                let m = m(dst := ucast (drop_bit 24 ch), dst + 1 := ucast (drop_bit 16 ch), dst + 2 := ucast (drop_bit 8 ch), dst + 3 := ucast ch)
                in decode_base32_loop m (dst + 4) src ch i)"

definition decode_base32 :: "ram \<Rightarrow> nat \<Rightarrow> nat \<Rightarrow> (ram \<times> nat \<times> nat) option" where
  "decode_base32 m dst src = decode_base32_loop m dst src 0 0"

end
