(* ===== verification/Base_Applet.thy ===== *)
theory Base_Applet
  imports Base_Codec
begin

text \<open>
  Streams through the codec: \<open>read_base64\<close> of \<open>libbb/uuencode.c\<close>, and \<open>baseNUM_main\<close> of \<open>coreutils/uudecode.c\<close>
  without its command line.  \<open>fgetc\<close> returns -1 at the end of a stream.  A read that fails is not modelled; the buffers
  of the functions start with unknown bytes, which are arguments.
\<close>

section \<open>Decoding a stream\<close>

definition BASE64_FLAG_UU_STOP :: u32 where "BASE64_FLAG_UU_STOP = 0x100"
definition BASE64_32 :: u32 where "BASE64_32 = 0x200"

text \<open>The inner loop fills \<open>buf\<close> up to its size, a control character, a space or the end.\<close>

datatype line_end = Returned | Term_seen | Line

fun fill_buf :: "int \<Rightarrow> bytes \<Rightarrow> nat \<Rightarrow> ram \<Rightarrow> line_end \<times> nat \<times> ram \<times> bytes" where
  "fill_buf exit_char [] in_count buf =
     (if in_count < 80 then (if exit_char = -1 \<and> in_count = 0 then Returned else Term_seen, in_count, buf, []) else (Line, in_count, buf, []))" |
  "fill_buf exit_char (c # stream) in_count buf =
     (if in_count < 80 then
        (let ch = int (unat c) in
         if ch = exit_char then (if in_count = 0 then Returned else Term_seen, in_count, buf, stream)
         else if ch \<le> 32 then (Line, in_count, buf, stream)
         else fill_buf exit_char stream (in_count + 1) (buf(in_count := c)))
      else (Line, in_count, buf, c # stream))"

definition strlen_at :: "ram \<Rightarrow> nat \<Rightarrow> nat \<Rightarrow> nat" where
  "strlen_at m p bound = length (takeWhile (\<lambda>c. c \<noteq> 0) (map m [p..<bound]))"

text \<open>The answer: what was written, and how the function ends.\<close>

datatype base64_end = Finished bytes | Truncated_input bytes

partial_function (option) read_base64_loop :: "int \<Rightarrow> bool \<Rightarrow> bool \<Rightarrow> bytes \<Rightarrow> nat \<Rightarrow> ram \<Rightarrow> bytes \<Rightarrow> base64_end option" where
  "read_base64_loop exit_char uu_style_end base32 stream in_count buf out =
     (let (e, in_count, buf, stream) = fill_buf exit_char stream in_count buf in
      if e = Returned then Some (Finished out)
      else
        let buf = buf(in_count := 0) in
        if uu_style_end \<and> map buf [0..<5] = [0x3d, 0x3d, 0x3d, 0x3d, 0] then Some (Finished out)
        else
          case (if base32 then decode_base32 buf 0 0
                else case decode_base64 buf 0 (Some 0) of Some (buf, out_tail, Some in_tail) \<Rightarrow> Some (buf, out_tail, in_tail) | _ \<Rightarrow> None) of
            None \<Rightarrow> None
          | Some (buf, out_tail, in_tail) \<Rightarrow>
              let out = out @ map buf [0..<out_tail] in
              if e = Term_seen then Some (if buf in_tail = 0 then Finished out else Truncated_input out)
              else
                let in_count = strlen_at buf in_tail 82;
                    buf = (\<lambda>a. if a < in_count then buf (in_tail + a) else buf a)
                in read_base64_loop exit_char uu_style_end base32 stream in_count buf out)"

definition read_base64 :: "bytes \<Rightarrow> u32 \<Rightarrow> ram \<Rightarrow> base64_end option" where
  "read_base64 src_stream flags buf =
     read_base64_loop (sint (ucast flags :: u8)) (flags AND BASE64_FLAG_UU_STOP \<noteq> 0) (flags AND BASE64_32 \<noteq> 0) src_stream 0 buf []"

declare decode_base64_loop.simps [code] decode_base32_loop.simps [code] read_base64_loop.simps [code]

section \<open>The applet\<close>

definition SRC_BUF_SIZE :: nat where "SRC_BUF_SIZE = 3 * 5 * 32"
definition DST_BUF_SIZE :: nat where "DST_BUF_SIZE = 8 * ((SRC_BUF_SIZE + 4) div 5)"
definition dst_buf_bytes :: nat where "dst_buf_bytes = 800"
definition src_buf :: nat where "src_buf = dst_buf_bytes - SRC_BUF_SIZE"

text \<open>\<open>printf("%.*s", n, p)\<close>\<close>

definition print_s :: "ram \<Rightarrow> nat \<Rightarrow> nat \<Rightarrow> bytes" where
  "print_s m p n = takeWhile (\<lambda>c. c \<noteq> 0) (map m [p..<p + n])"

text \<open>The loop that prints the encoded buffer in lines gives the text and the room that is left in the last line.\<close>

partial_function (option) wrap_loop :: "nat \<Rightarrow> ram \<Rightarrow> nat \<Rightarrow> nat \<Rightarrow> nat \<Rightarrow> bytes \<Rightarrow> (bytes \<times> nat) option" where
  "wrap_loop col m result sz room text =
     (let out = min sz room;
          room = room - out;
          text = text @ print_s m result out @ (if room \<noteq> 0 then [] else [0x0a])
      in if room \<noteq> 0 then Some (text, room)
         else let sz = sz - out in
           if sz = 0 then Some (text, room) else wrap_loop col m (result + out) sz col text)"

declare wrap_loop.simps [code]

function encode_loop :: "bool \<Rightarrow> nat \<Rightarrow> bytes \<Rightarrow> nat \<Rightarrow> ram \<Rightarrow> bytes \<Rightarrow> bytes option" where
  "encode_loop base32 col input room dst_buf text =
     (let chunk = min SRC_BUF_SIZE (length input);
          dst_buf = (\<lambda>a. if src_buf \<le> a \<and> a < src_buf + chunk then input ! (a - src_buf) else dst_buf a)
      in if chunk = 0 then Some (if room \<noteq> 0 then text @ [0x0a] else text)
         else
           let (dst_buf, sz) =
                 (if base32 then (bb_b32encode dst_buf 0 src_buf (int chunk), 8 * ((chunk + 4) div 5))
                  else (bb_uuencode dst_buf 0 src_buf (int chunk) bb_uuenc_tbl_base64, 4 * ((chunk + 2) div 3)))
           in if col = 0 then encode_loop base32 col (drop chunk input) room dst_buf (text @ print_s dst_buf 0 (dst_buf_bytes - 1))
              else case wrap_loop col dst_buf 0 sz (if room = 0 then col else room) text of
                  None \<Rightarrow> None
                | Some (text, room) \<Rightarrow> encode_loop base32 col (drop chunk input) room dst_buf text)"
  by pat_completeness auto
termination by (relation "measure (\<lambda>(b, c, input, r, d, t). length input)") (auto simp: SRC_BUF_SIZE_def Let_def)

declare encode_loop.simps [simp del]

definition baseNUM_encode :: "bool \<Rightarrow> nat \<Rightarrow> bytes \<Rightarrow> ram \<Rightarrow> bytes option" where
  "baseNUM_encode base32 col input dst_buf = encode_loop base32 col input 0 dst_buf []"

definition baseNUM_decode :: "bool \<Rightarrow> bytes \<Rightarrow> ram \<Rightarrow> base64_end option" where
  "baseNUM_decode base32 input buf = read_base64 input (if base32 then 0xff OR BASE64_32 else 0xff) buf"

end
