(* ===== verification/Base_Encode.thy ===== *)
theory Base_Encode
  imports Base_Codec
begin

text \<open>
  What the encoders write: the encoding of the source bytes as a list, and a NUL.  The source may be in front of the
  target, or behind it with a gap that the growing output does not close.
\<close>

section \<open>Memory\<close>

definition store :: "ram \<Rightarrow> nat \<Rightarrow> bytes \<Rightarrow> ram" where
  "store m p bs = (\<lambda>a. if p \<le> a \<and> a < p + length bs then bs ! (a - p) else m a)"

definition bytes_at :: "ram \<Rightarrow> nat \<Rightarrow> nat \<Rightarrow> bytes" where
  "bytes_at m s n = map m [s..<s + n]"

lemma store_Nil [simp]: "store m p [] = m"
  by (rule ext) (auto simp: store_def)

lemma store_append: "store (store m p xs) (p + length xs) ys = store m p (xs @ ys)"
  by (auto simp: store_def nth_append fun_eq_iff)

lemma store_byte: "m(p := b) = store m p [b]"
  by (auto simp: store_def fun_eq_iff)

lemma bytes_at_length [simp]: "length (bytes_at m s n) = n"
  by (simp add: bytes_at_def)

lemma bytes_at_split: "k \<le> n \<Longrightarrow> bytes_at m s n = bytes_at m s k @ bytes_at m (s + k) (n - k)"
proof -
  assume k: "k \<le> n"
  have "[s..<s + n] = [s..<s + k] @ [s + k..<s + n]" using upt_add_eq_append [of s "s + k" "n - k"] k by simp
  then show ?thesis using k by (simp add: bytes_at_def)
qed

lemma bytes_at_store: "s + n \<le> p \<or> p + length bs \<le> s \<Longrightarrow> bytes_at (store m p bs) s n = bytes_at m s n"
  by (auto simp: bytes_at_def store_def)

lemma bytes_at_stored: "bytes_at (store m p bs) p (length bs) = bs"
  by (rule nth_equalityI) (simp_all add: bytes_at_def store_def)

section \<open>The encodings\<close>

definition group64 :: "bytes \<Rightarrow> u8 \<Rightarrow> u8 \<Rightarrow> u8 \<Rightarrow> bytes" where
  "group64 tbl a b c =
     [tbl ! unat (drop_bit 2 a), tbl ! unat (push_bit 4 (a AND 3) OR drop_bit 4 b), tbl ! unat (push_bit 2 (b AND 0xf) OR drop_bit 6 c), tbl ! unat (c AND 0x3f)]"

fun uuenc :: "bytes \<Rightarrow> bytes \<Rightarrow> bytes" where
  "uuenc tbl [] = []" |
  "uuenc tbl [a] = take 2 (group64 tbl a 0 0) @ [tbl ! 64, tbl ! 64]" |
  "uuenc tbl [a, b] = take 3 (group64 tbl a b 0) @ [tbl ! 64]" |
  "uuenc tbl (a # b # c # bs) = group64 tbl a b c @ uuenc tbl bs"

text \<open>Before the padding the last group has its zero bits.\<close>

fun uuraw :: "bytes \<Rightarrow> bytes \<Rightarrow> bytes" where
  "uuraw tbl [] = []" |
  "uuraw tbl [a] = group64 tbl a 0 0" |
  "uuraw tbl [a, b] = group64 tbl a b 0" |
  "uuraw tbl (a # b # c # bs) = group64 tbl a b c @ uuraw tbl bs"

lemma group64_length [simp]: "length (group64 tbl a b c) = 4"
  by (simp add: group64_def)

text \<open>The number of groups.\<close>

definition groups3 :: "nat \<Rightarrow> nat" where
  "groups3 n = (n + 2) div 3"

definition pads3 :: "nat \<Rightarrow> nat" where
  "pads3 n = 3 * groups3 n - n"

lemma groups3 [simp]: "groups3 0 = 0" "groups3 1 = 1" "groups3 (Suc 0) = 1" "groups3 2 = 1" "groups3 (Suc (Suc 0)) = 1" "groups3 (Suc (Suc (Suc n))) = Suc (groups3 n)"
  using div_add_self1 [of 3 "n + 2"] by (simp_all add: groups3_def add.commute)

lemma pads3 [simp]: "pads3 0 = 0" "pads3 2 = 1" "pads3 (Suc 0) = 2" "pads3 (Suc (Suc 0)) = 1" "pads3 (Suc (Suc (Suc n))) = pads3 n"
  by (simp_all add: pads3_def)

lemma groups3_pads: "3 * groups3 n = n + pads3 n" "pads3 n < 3"
proof -
  have "n \<le> 3 * groups3 n \<and> 3 * groups3 n < n + 3" unfolding groups3_def by linarith
  then show "3 * groups3 n = n + pads3 n" "pads3 n < 3" unfolding pads3_def by linarith+
qed

lemma uuenc_length: "length (uuenc tbl bs) = 4 * groups3 (length bs)"
  by (induction tbl bs rule: uuenc.induct) (simp_all add: group64_def)

lemma uuraw_length: "length (uuraw tbl bs) = 4 * groups3 (length bs)"
  by (induction tbl bs rule: uuraw.induct) (simp_all add: group64_def)

lemma uuraw_pads: "\<exists>xs ys. uuraw tbl bs = xs @ ys \<and> length ys = pads3 (length bs) \<and> uuenc tbl bs = xs @ replicate (pads3 (length bs)) (tbl ! 64)"
proof (induction tbl bs rule: uuenc.induct)
  case (2 tbl a)
  have "replicate 2 (tbl ! 64) = [tbl ! 64, tbl ! 64]" by (simp add: numeral_2_eq_2)
  then have "uuraw tbl [a] = take 2 (group64 tbl a 0 0) @ drop 2 (group64 tbl a 0 0) \<and> length (drop 2 (group64 tbl a 0 0)) = pads3 (length [a]) \<and>
    uuenc tbl [a] = take 2 (group64 tbl a 0 0) @ replicate (pads3 (length [a])) (tbl ! 64)" by simp
  then show ?case by blast
next
  case (3 tbl a b)
  have "uuraw tbl [a, b] = take 3 (group64 tbl a b 0) @ drop 3 (group64 tbl a b 0) \<and> length (drop 3 (group64 tbl a b 0)) = pads3 (length [a, b]) \<and>
    uuenc tbl [a, b] = take 3 (group64 tbl a b 0) @ replicate (pads3 (length [a, b])) (tbl ! 64)" by simp
  then show ?case by blast
next
  case (4 tbl a b c bs)
  then obtain xs ys where "uuraw tbl bs = xs @ ys" "length ys = pads3 (length bs)" "uuenc tbl bs = xs @ replicate (pads3 (length bs)) (tbl ! 64)" by blast
  then show ?case by (intro exI [of _ "group64 tbl a b c @ xs"] exI [of _ ys]) simp
qed simp

section \<open>\<open>bb_uuencode\<close>\<close>

text \<open>The words of the code are those of the specification: shifts and masks stay below 256, the sums have no carry.\<close>

lemma masks: "x AND 3 = take_bit 2 x" "x AND 0xf = take_bit 4 x" "x AND 0x3f = take_bit 6 x" for x :: "'a::len word"
  by (simp_all add: take_bit_eq_mask mask_eq_exp_minus_1)

lemma index_words:
  fixes a b c :: u8
  shows "unat (drop_bit 2 (ucast a :: u32)) = unat (drop_bit 2 a)"
    and "unat (push_bit 4 ((ucast a :: u32) AND 3) + drop_bit 4 (ucast b)) = unat (push_bit 4 (a AND 3) OR drop_bit 4 b)"
    and "unat (push_bit 2 ((ucast b :: u32) AND 0xf) + drop_bit 6 (ucast c)) = unat (push_bit 2 (b AND 0xf) OR drop_bit 6 c)"
    and "unat ((ucast c :: u32) AND 0x3f) = unat (c AND 0x3f)"
proof -
  have up: "unat (ucast x :: u32) = unat x" for x :: u8
    by (simp add: unsigned_ucast_eq take_bit_nat_eq_self less_trans [OF unsigned_less])
  have sum: "unat (x + y) = unat z" if "x AND y = 0" "x OR y = ucast z" for x y :: u32 and z :: u8
    using that up [of z] by (simp add: disjunctive_add_eq_or)
  have top: "\<not> bit x k" if "8 \<le> k" for x :: u8 and k using that bit_imp_le_length [of x k] by auto
  have low: "k < 8" if "bit x k" for x :: u8 and k using bit_imp_le_length [OF that] by simp
  show "unat (drop_bit 2 (ucast a :: u32)) = unat (drop_bit 2 a)" "unat ((ucast c :: u32) AND 0x3f) = unat (c AND 0x3f)"
    by (simp_all add: unat_drop_bit_eq unsigned_and_eq up)
  show "unat (push_bit 4 ((ucast a :: u32) AND 3) + drop_bit 4 (ucast b)) = unat (push_bit 4 (a AND 3) OR drop_bit 4 b)"
    by (rule sum) (auto intro!: bit_word_eqI simp: masks bit_simps top dest: low)
  show "unat (push_bit 2 ((ucast b :: u32) AND 0xf) + drop_bit 6 (ucast c)) = unat (push_bit 2 (b AND 0xf) OR drop_bit 6 c)"
    by (rule sum) (auto intro!: bit_word_eqI simp: masks bit_simps top dest: low)
qed

lemma table_writes:
  "m(p := w, p + 1 := x, p + 2 := y, p + 3 := z) = store m p [w, x, y, z]" for m :: ram
proof -
  have "store m p [w, x, y, z] = store (store (store (store m p [w]) (p + 1) [x]) (p + 2) [y]) (p + 3) [z]"
    using store_append [of m p "[w]" "[x]"] store_append [of m p "[w, x]" "[y]"] store_append [of m p "[w, x, y]" "[z]"] by (simp add: numeral_3_eq_3)
  then show ?thesis by (simp only: store_byte)
qed

lemma uuencode_round:
  assumes "0 < len" and "p \<noteq> s"
  shows "uuencode_loop tbl m p s len =
    uuencode_loop tbl (store m p (group64 tbl (m s) (if 2 \<le> len then m (s + 1) else 0) (if 3 \<le> len then m (s + 2) else 0))) (p + 4) (s + 3) (len - 3)"
proof -
  have u: "ucast (if b then x else 0) = (if b then ucast x else 0 :: u32)" for b and x :: u8 by simp
  have c: "-1 \<le> len - 3 \<longleftrightarrow> 2 \<le> len" "(2 \<le> len \<and> 0 \<le> len - 3) \<longleftrightarrow> 3 \<le> len" by auto
  note w = index_words(1) [of "m s"] index_words(2) [of "m s" "if 2 \<le> len then m (s + 1) else 0"]
    index_words(3) [of "if 2 \<le> len then m (s + 1) else 0" "if 3 \<le> len then m (s + 2) else 0"] index_words(4) [of "if 3 \<le> len then m (s + 2) else 0"]
  have s: "(m(p := b)) s = m s" for b using assms(2) by simp
  show ?thesis
    by (subst uuencode_loop.simps, unfold Let_def c s w [unfolded u] group64_def table_writes [symmetric], rule if_not_P) (use assms(1) in simp)
qed

text \<open>The source is read before it is overwritten.\<close>

lemma uuencode_loop_stores:
  assumes "p + groups3 n \<le> s \<or> s + n \<le> p"
  shows "uuencode_loop tbl m p s (int n) = (store m p (uuraw tbl (bytes_at m s n)), p + 4 * groups3 n, - int (pads3 n))"
  using assms
proof (induction n arbitrary: m p s rule: less_induct)
  case (less n)
  have zero: "uuencode_loop tbl m p s len = (m, p, len)" if "len \<le> 0" for m p s len using that by (simp add: uuencode_loop.simps)
  consider "n = 0" | "n = 1" | "n = 2" | k where "n = Suc (Suc (Suc k))"
    by (metis One_nat_def Suc_1 not0_implies_Suc)
  then show ?case
  proof cases
    case 1
    then show ?thesis by (simp add: zero bytes_at_def)
  next
    case 2
    then have "p \<noteq> s" using less.prems by auto
    then show ?thesis using uuencode_round [of "int n" p s tbl m] 2 by (simp add: zero bytes_at_def)
  next
    case 3
    then have "p \<noteq> s" using less.prems by auto
    moreover have "bytes_at m s 2 = [m s, m (s + 1)]" by (simp add: bytes_at_def numeral_2_eq_2)
    ultimately show ?thesis using uuencode_round [of "int n" p s tbl m] 3 by (simp add: zero)
  next
    case 4
    let ?m = "store m p (group64 tbl (m s) (m (s + 1)) (m (s + 2)))"
    have ne: "p \<noteq> s" and safe: "p + 4 + groups3 k \<le> s + 3 \<or> s + 3 + k \<le> p + 4" using less.prems 4 by auto
    have rest: "bytes_at ?m (s + 3) k = bytes_at m (s + 3) k"
      using less.prems 4 by (cases k) (auto intro!: bytes_at_store)
    have "uuencode_loop tbl m p s (int n) = uuencode_loop tbl ?m (p + 4) (s + 3) (int k)"
      using uuencode_round [of "int n" p s tbl m] ne 4 by simp
    also have "\<dots> = (store ?m (p + 4) (uuraw tbl (bytes_at m (s + 3) k)), p + 4 + 4 * groups3 k, - int (pads3 k))"
      using less.IH [of k "p + 4" "s + 3" ?m] safe 4 rest by simp
    also have "store ?m (p + 4) (uuraw tbl (bytes_at m (s + 3) k)) = store m p (uuraw tbl (bytes_at m s n))"
    proof -
      have "bytes_at m s n = bytes_at m s 3 @ bytes_at m (s + 3) k" using bytes_at_split [of 3 n m s] 4 by simp
      moreover have "bytes_at m s 3 = [m s, m (s + 1), m (s + 2)]" by (simp add: bytes_at_def numeral_3_eq_3)
      ultimately show ?thesis using store_append [of m p "group64 tbl (m s) (m (s + 1)) (m (s + 2))"] by simp
    qed
    finally show ?thesis using 4 by simp
  qed
qed

lemma pad_back_store:
  "length ys = k \<Longrightarrow> pad_back c k (p + length xs + k) (store m p (xs @ ys @ zs)) = store m p (xs @ replicate k c @ zs)"
proof (induction k arbitrary: ys zs)
  case (Suc k)
  then obtain ys' y where ys: "ys = ys' @ [y]" "length ys' = k" by (metis length_Suc_conv_rev)
  have "(store m p (xs @ ys @ zs))(p + length xs + k := c) = store m p (xs @ ys' @ (c # zs))"
    using ys by (auto simp: store_def fun_eq_iff nth_append nth_Cons split: nat.split)
  then show ?case using Suc.IH [OF ys(2), of "c # zs"] by (simp add: replicate_append_same [symmetric])
qed simp

lemma uuencode_stores:
  assumes "p + groups3 n \<le> s \<or> s + n \<le> p"
  shows "bb_uuencode m p s (int n) tbl = store m p (uuenc tbl (bytes_at m s n) @ [0])"
proof -
  obtain xs ys where xy: "uuraw tbl (bytes_at m s n) = xs @ ys" "length ys = pads3 n" "uuenc tbl (bytes_at m s n) = xs @ replicate (pads3 n) (tbl ! 64)"
    using uuraw_pads [of tbl "bytes_at m s n"] by auto
  have len: "p + 4 * groups3 n = p + length xs + pads3 n" using uuraw_length [of tbl "bytes_at m s n"] xy(1,2) by simp
  have "(store m p (xs @ ys))(p + length xs + pads3 n := 0) = store m p (xs @ ys @ [0])"
    using store_append [of m p "xs @ ys" "[0]"] xy(2) by (simp add: store_byte add.assoc)
  then show ?thesis
    using pad_back_store [OF xy(2), of "tbl ! 64" p xs m "[0]"]
    by (simp add: bb_uuencode_def uuencode_loop_stores [OF assms] xy(1,3) len)
qed

end
