(* ===== verification/Base_Decode.thy ===== *)
theory Base_Decode
  imports Base_Encode
begin

text \<open>
  What the base-64 decoder does: a function on the text, also when it decodes in place, and the inverse of the encoder on
  texts that have other characters between those of the alphabet.
\<close>

section \<open>The decoder as a function on the text\<close>

text \<open>\<open>dec64 ch i xs\<close> gives the bytes written, how many of them are taken back, the text that is left, and the place in a
  group that is not complete.\<close>

definition next_char :: "bytes \<Rightarrow> u8" where
  "next_char xs = (case xs of [] \<Rightarrow> 0 | x # _ \<Rightarrow> x)"

definition three :: "u32 \<Rightarrow> bytes" where
  "three ch = [ucast (drop_bit 16 ch), ucast (drop_bit 8 ch), ucast ch]"

definition taken_back :: "u32 \<Rightarrow> nat" where
  "taken_back ch = (if ch AND push_bit 6 0x1000000 \<noteq> 0 then 2 else 1)"

fun dec64 :: "u32 \<Rightarrow> nat \<Rightarrow> bytes \<Rightarrow> bytes \<times> nat \<times> bytes \<times> nat" where
  "dec64 ch i [] = ([], 0, [], i)" |
  "dec64 ch i (x # xs) = (case b64_value (ucast x) i (next_char xs) of
      None \<Rightarrow> dec64 ch i xs
    | Some t \<Rightarrow>
        let ch = push_bit 6 ch OR t; i = (i + 1) mod 4 in
        if i \<noteq> 0 then dec64 ch i xs
        else if ch AND 0x1000000 \<noteq> 0 then (three ch, taken_back ch, xs, 0)
        else (case dec64 0 0 xs of (out, r) \<Rightarrow> (three ch @ out, r)))"

definition text_at :: "ram \<Rightarrow> nat \<Rightarrow> bytes \<Rightarrow> bool" where
  "text_at m src xs \<longleftrightarrow> bytes_at m src (length xs + 1) = xs @ [0] \<and> 0 \<notin> set xs"

lemma text_at_Nil: "text_at m src [] \<longleftrightarrow> m src = 0"
  by (simp add: text_at_def bytes_at_def)

lemma text_at_Cons: "text_at m src (x # xs) \<longleftrightarrow> m src = x \<and> x \<noteq> 0 \<and> text_at m (src + 1) xs"
proof -
  have "bytes_at m src (Suc (Suc (length xs))) = m src # bytes_at m (Suc src) (Suc (length xs))"
    by (simp add: bytes_at_def upt_conv_Cons del: upt_Suc)
  then show ?thesis by (auto simp: text_at_def)
qed

lemma text_at_next: "text_at m src xs \<Longrightarrow> m src = next_char xs"
  by (cases xs) (simp_all add: text_at_Nil text_at_Cons next_char_def)

lemma text_at_store: "text_at m src xs \<Longrightarrow> p + length bs \<le> src \<or> src + length xs < p \<Longrightarrow> text_at (store m p bs) src xs"
  by (auto simp: text_at_def bytes_at_store)

lemma store_three: "m(dst := ucast (drop_bit 16 ch), dst + 1 := ucast (drop_bit 8 ch), dst + 2 := ucast ch) = store m dst (three ch)"
proof -
  have "store m dst (three ch) = store (store (store m dst [ucast (drop_bit 16 ch)]) (dst + 1) [ucast (drop_bit 8 ch)]) (dst + 2) [ucast ch]"
    using store_append [of m dst "[ucast (drop_bit 16 ch)]" "[ucast (drop_bit 8 ch)]"]
      store_append [of m dst "[ucast (drop_bit 16 ch), ucast (drop_bit 8 ch)]" "[ucast ch]"] by (simp add: three_def)
  then show ?thesis by (simp only: store_byte)
qed

lemma ucast_zero: "(ucast x :: u32) = 0 \<longleftrightarrow> x = 0" for x :: u8
proof -
  have "unat (ucast x :: u32) = unat x" by (simp add: unsigned_ucast_eq take_bit_nat_eq_self less_trans [OF unsigned_less])
  then show ?thesis by (simp add: word_unat_eq_iff)
qed

lemma dec64_in_place:
  assumes "text_at m src xs" and "dst + i \<le> src \<or> src + length xs < dst" and "i < 4" and "dec64 ch i xs = (raw, bk, rest, i')"
  shows "decode_base64_loop m dst src ch i = Some (store m dst raw, dst + length raw - bk, src + (length xs - length rest), i')"
    and "length rest \<le> length xs" and "bk \<le> length raw" and "i' < 4"
proof -
  have "decode_base64_loop m dst src ch i = Some (store m dst raw, dst + length raw - bk, src + (length xs - length rest), i') \<and>
      length rest \<le> length xs \<and> bk \<le> length raw \<and> i' < 4"
    using assms
  proof (induction xs arbitrary: m dst src ch i raw bk rest i')
    case Nil
    then show ?case by (simp add: decode_base64_loop.simps [of m dst src] text_at_Nil)
  next
    case (Cons x xs)
    have x: "m src = x" "x \<noteq> 0" "text_at m (src + 1) xs" using Cons.prems(1) by (simp_all add: text_at_Cons)
    have t: "(ucast x :: u32) \<noteq> 0" using x(2) by (simp add: ucast_zero)
    note loop = decode_base64_loop.simps [of m dst src ch i, unfolded x(1) text_at_next [OF x(3)] Let_def if_not_P [OF t]]
    show ?case
    proof (cases "b64_value (ucast x) i (next_char xs)")
      case None
      then show ?thesis using Cons.IH [OF x(3), of dst i ch raw bk rest i'] Cons.prems by (auto simp: loop)
    next
      case (Some t)
      let ?ch = "push_bit 6 ch OR t"
      show ?thesis
      proof (cases "(i + 1) mod 4 = 0")
        case False
        then have "(i + 1) mod 4 = i + 1" "i < 3" using Cons.prems(3) by (cases "i = 3"; simp)+
        then show ?thesis using Cons.IH [OF x(3), of dst "i + 1" ?ch raw bk rest i'] Cons.prems False Some by (auto simp: loop)
      next
        case True
        then have i: "i = 3" using Cons.prems(3) by (cases "i + 1 < 4") simp_all
        show ?thesis
        proof (cases "?ch AND 0x1000000 = 0")
          case False
          then show ?thesis using Cons.prems(4) Some i unfolding loop store_three
            by (auto simp: taken_back_def three_def Let_def)
        next
          case whole: True
          obtain out bk' rest' i'' where d: "dec64 0 0 xs = (out, bk', rest', i'')" by (cases "dec64 0 0 xs") auto
          have e: "raw = three ?ch @ out" "bk = bk'" "rest = rest'" "i' = i''" using Cons.prems(4) Some i whole d by (simp_all add: Let_def)
          have len: "length (three ?ch) = 3" by (simp add: three_def)
          have "text_at (store m dst (three ?ch)) (src + 1) xs" using text_at_store [OF x(3), of dst "three ?ch"] Cons.prems(2) i len by auto
          from Cons.IH [OF this, of "dst + 3" 0 0 out bk' rest' i''] show ?thesis
            using Cons.prems(2) i d len Some whole unfolding loop store_three e
            by (auto simp: store_append [of m dst "three ?ch", unfolded len, symmetric])
        qed
      qed
    qed
  qed
  then show "decode_base64_loop m dst src ch i = Some (store m dst raw, dst + length raw - bk, src + (length xs - length rest), i')"
    "length rest \<le> length xs" "bk \<le> length raw" "i' < 4" by blast+
qed

section \<open>Decoding what was encoded\<close>

abbreviation encode64 :: "bytes \<Rightarrow> bytes" where
  "encode64 \<equiv> uuenc bb_uuenc_tbl_base64"

lemma b64_value_any: "t \<noteq> 0x3d \<Longrightarrow> b64_value t i nxt = b64_value t 0 0"
  by (simp add: b64_value_def)

lemma table64:
  assumes "v < 64"
  shows "b64_value (ucast (bb_uuenc_tbl_base64 ! v)) i nxt = Some (of_nat v)" and "32 < bb_uuenc_tbl_base64 ! v"
proof -
  have "list_all (\<lambda>v. let c = bb_uuenc_tbl_base64 ! v; t = (ucast c :: u32) in 32 < c \<and> t \<noteq> 0x3d \<and> b64_value t 0 0 = Some (of_nat v)) [0..<64]"
    by code_simp
  moreover have "v \<in> set [0..<64]" using assms by simp
  ultimately have v: "32 < bb_uuenc_tbl_base64 ! v" "(ucast (bb_uuenc_tbl_base64 ! v) :: u32) \<noteq> 0x3d"
      "b64_value (ucast (bb_uuenc_tbl_base64 ! v)) 0 0 = Some (of_nat v)"
    unfolding list_all_iff Let_def by blast+
  show "b64_value (ucast (bb_uuenc_tbl_base64 ! v)) i nxt = Some (of_nat v)" using b64_value_any [OF v(2)] v(3) by simp
  show "32 < bb_uuenc_tbl_base64 ! v" by (rule v(1))
qed

lemma byte_top: "8 \<le> k \<Longrightarrow> \<not> bit x k" and byte_low: "bit x k \<Longrightarrow> k < 8" for x :: u8
  using bit_imp_le_length [of x k] by auto

text \<open>The four values of a group, and the word that they make.\<close>

lemma group64_values:
  "group64 bb_uuenc_tbl_base64 a b c = map (\<lambda>v. bb_uuenc_tbl_base64 ! unat v)
    [drop_bit 2 a, push_bit 4 (take_bit 2 a) OR drop_bit 4 b, push_bit 2 (take_bit 4 b) OR drop_bit 6 c, take_bit 6 c]"
  by (simp add: group64_def masks)

lemma values_less:
  "unat (drop_bit 2 a) < 64" "unat (push_bit 4 (take_bit 2 a) OR drop_bit 4 b) < 64" "unat (push_bit 2 (take_bit 4 b) OR drop_bit 6 c) < 64"
  "unat (take_bit 6 c) < 64" for a b c :: u8
proof -
  have less: "unat w < 64" if "take_bit 6 w = w" for w :: u8
  proof -
    have "unat w = take_bit 6 (unat w)" using that by (metis unsigned_take_bit_eq)
    then show ?thesis using take_bit_nat_less_exp [of 6 "unat w"] by simp
  qed
  show "unat (drop_bit 2 a) < 64" "unat (push_bit 4 (take_bit 2 a) OR drop_bit 4 b) < 64" "unat (push_bit 2 (take_bit 4 b) OR drop_bit 6 c) < 64"
    "unat (take_bit 6 c) < 64"
    by (rule less, rule bit_word_eqI, auto simp: bit_simps byte_top dest: byte_low)+
qed

definition group_word :: "u8 \<Rightarrow> u8 \<Rightarrow> u8 \<Rightarrow> u32" where
  "group_word a b c = push_bit 6 (push_bit 6 (push_bit 6 (ucast (drop_bit 2 a)) OR ucast (push_bit 4 (take_bit 2 a) OR drop_bit 4 b)) OR
     ucast (push_bit 2 (take_bit 4 b) OR drop_bit 6 c)) OR ucast (take_bit 6 c)"

lemma group_word: "group_word a b c = push_bit 16 (ucast a) OR push_bit 8 (ucast b) OR ucast c"
proof (rule bit_word_eqI)
  fix k assume "k < LENGTH(32)"
  then consider "k < 6" | "6 \<le> k" "k < 8" | "8 \<le> k" "k < 12" | "12 \<le> k" "k < 16" | "16 \<le> k" "k < 18" | "18 \<le> k" "k < 24" | "24 \<le> k" "k < 32"
    by fastforce
  then show "bit (group_word a b c) k = bit (push_bit 16 (ucast a) OR push_bit 8 (ucast b) OR ucast c :: u32) k"
  proof cases
    case 6
    then obtain j where "k = 18 + j" "j < 6" using le_Suc_ex by fastforce
    then show ?thesis by (auto simp: group_word_def bit_simps byte_top dest: byte_low)
  qed (auto simp: group_word_def bit_simps byte_top dest: byte_low)
qed

lemma three_bytes: "three (push_bit 16 (ucast a) OR push_bit 8 (ucast b) OR ucast c) = [a, b, c]"
  by (auto intro!: bit_word_eqI simp: three_def bit_simps byte_top)

lemma marks: "x AND 0x1000000 = 0 \<longleftrightarrow> \<not> bit x 24" "x AND push_bit 6 0x1000000 = 0 \<longleftrightarrow> \<not> bit x 30"
  "bit (0x1000000 :: u32) k \<longleftrightarrow> k = 24" "bit (push_bit 6 0x1000000 :: u32) k \<longleftrightarrow> k = 30" for x :: u32
proof -
  have e: "(0x1000000 :: u32) = 2 ^ 24" "(push_bit 6 0x1000000 :: u32) = 2 ^ 30" by (simp_all add: push_bit_eq_mult)
  show "x AND 0x1000000 = 0 \<longleftrightarrow> \<not> bit x 24" unfolding e(1) by (rule and_exp_eq_0_iff_not_bit)
  show "x AND push_bit 6 0x1000000 = 0 \<longleftrightarrow> \<not> bit x 30" unfolding e(2) by (rule and_exp_eq_0_iff_not_bit)
  show "bit (0x1000000 :: u32) k \<longleftrightarrow> k = 24" unfolding e(1) bit_exp_iff by auto
  show "bit (push_bit 6 0x1000000 :: u32) k \<longleftrightarrow> k = 30" unfolding e(2) bit_exp_iff by auto
qed

lemma group_word_top: "24 \<le> k \<Longrightarrow> \<not> bit (group_word a b c) k"
  by (auto simp: group_word bit_simps byte_top)

text \<open>A character of the alphabet in front of a text.\<close>

lemma dec64_value:
  assumes "unat v < 64"
  shows "dec64 ch i (bb_uuenc_tbl_base64 ! unat v # xs) =
    (let ch = push_bit 6 ch OR ucast (v :: u8); i = (i + 1) mod 4 in
     if i \<noteq> 0 then dec64 ch i xs
     else if ch AND 0x1000000 \<noteq> 0 then (three ch, taken_back ch, xs, 0)
     else (case dec64 0 0 xs of (out, r) \<Rightarrow> (three ch @ out, r)))"
proof -
  have "of_nat (unat v) = (ucast v :: u32)" by simp
  then show ?thesis using table64(1) [OF assms] by simp
qed

lemma dec64_group: "dec64 0 0 (group64 bb_uuenc_tbl_base64 a b c @ xs) = (case dec64 0 0 xs of (out, r) \<Rightarrow> ([a, b, c] @ out, r))"
proof -
  have "dec64 0 0 (group64 bb_uuenc_tbl_base64 a b c @ xs) =
      (if group_word a b c AND 0x1000000 \<noteq> 0 then (three (group_word a b c), taken_back (group_word a b c), xs, 0)
       else (case dec64 0 0 xs of (out, r) \<Rightarrow> (three (group_word a b c) @ out, r)))"
    unfolding group64_values list.map append_Cons append_Nil
    by (simp only: dec64_value [OF values_less(1)] dec64_value [OF values_less(2)] dec64_value [OF values_less(3)] dec64_value [OF values_less(4)] Let_def)
      (simp add: group_word_def)
  then show ?thesis using group_word_top [of 24 a b c] by (simp add: marks) (simp add: group_word three_bytes)
qed

text \<open>The padded groups.\<close>

lemma three_marked: "\<forall>k < 24. \<not> bit x k \<Longrightarrow> three (w OR x) = three w"
  by (auto intro!: bit_word_eqI simp: three_def bit_simps)

lemma pad_value: "b64_value 0x3d 3 nxt = Some 0x1000000" "b64_value 0x3d 2 0x3d = Some 0x1000000"
  by (simp_all add: b64_value_def)

lemma dec64_pads:
  "dec64 ch 3 [0x3d] = (let ch = push_bit 6 ch OR 0x1000000 in (three ch, taken_back ch, [], 0))"
  "dec64 ch 2 [0x3d, 0x3d] = (let ch = push_bit 6 (push_bit 6 ch OR 0x1000000) OR 0x1000000 in (three ch, taken_back ch, [], 0))"
proof -
  have b: "bit (x OR (0x1000000 :: u32)) 24" for x by (simp add: bit_or_iff marks)
  show one: "dec64 ch 3 [0x3d] = (let ch = push_bit 6 ch OR 0x1000000 in (three ch, taken_back ch, [], 0))" for ch
    using b [of "push_bit 6 ch"] by (simp add: pad_value Let_def marks)
  show "dec64 ch 2 [0x3d, 0x3d] = (let ch = push_bit 6 (push_bit 6 ch OR 0x1000000) OR 0x1000000 in (three ch, taken_back ch, [], 0))"
    using one by (simp add: pad_value next_char_def Let_def del: push_bit_or)
qed

lemma group_word_zeros:
  "push_bit 6 (push_bit 6 (push_bit 6 (ucast (drop_bit 2 a)) OR ucast (push_bit 4 (take_bit 2 a) OR drop_bit 4 b)) OR
     ucast (push_bit 2 (take_bit 4 b) OR drop_bit 6 (0 :: u8))) = group_word a b 0"
  "push_bit 6 (push_bit 6 (push_bit 6 (ucast (drop_bit 2 a)) OR ucast (push_bit 4 (take_bit 2 a) OR drop_bit 4 (0 :: u8)))) = group_word a 0 0"
  by (simp_all add: group_word_def)

lemma take_group: "take 3 [w, x, y, z] = [w, x, y]" "take 2 [w, x, y, z] = [w, x]"
  by simp_all

lemma dec64_two: "\<exists>x. dec64 0 0 (take 3 (group64 bb_uuenc_tbl_base64 a b 0) @ [0x3d]) = ([a, b, x], 1, [], 0)"
proof -
  have "dec64 0 0 (take 3 (group64 bb_uuenc_tbl_base64 a b c) @ [0x3d]) =
      (let ch = push_bit 6 (push_bit 6 (push_bit 6 (ucast (drop_bit 2 a)) OR ucast (push_bit 4 (take_bit 2 a) OR drop_bit 4 b)) OR
         ucast (push_bit 2 (take_bit 4 b) OR drop_bit 6 c)) OR 0x1000000 in (three ch, taken_back ch, [], 0))" for c
    unfolding group64_values list.map take_group append_Cons append_Nil
    by (simp only: dec64_value [OF values_less(1)] dec64_value [OF values_less(2)] dec64_value [OF values_less(3)] Let_def)
      (simp add: dec64_pads(1) Let_def del: dec64.simps push_bit_or)
  then have "dec64 0 0 (take 3 (group64 bb_uuenc_tbl_base64 a b 0) @ [0x3d]) =
      (three (group_word a b 0 OR 0x1000000), taken_back (group_word a b 0 OR 0x1000000), [], 0)"
    by (simp only: group_word_zeros Let_def)
  moreover have "\<not> bit (group_word a b 0) 30" by (rule group_word_top) simp
  then have "taken_back (group_word a b 0 OR 0x1000000) = 1" unfolding taken_back_def marks bit_or_iff by simp
  moreover have "three (group_word a b 0 OR 0x1000000) = three (group_word a b 0)" by (rule three_marked) (simp only: marks, simp)
  moreover have "three (group_word a b 0) = [a, b, 0]" unfolding group_word by (rule three_bytes)
  ultimately show ?thesis by simp
qed

lemma dec64_one: "\<exists>x y. dec64 0 0 (take 2 (group64 bb_uuenc_tbl_base64 a 0 0) @ [0x3d, 0x3d]) = ([a, x, y], 2, [], 0)"
proof -
  have "dec64 0 0 (take 2 (group64 bb_uuenc_tbl_base64 a b c) @ [0x3d, 0x3d]) =
      (let ch = push_bit 6 (push_bit 6 (push_bit 6 (ucast (drop_bit 2 a)) OR ucast (push_bit 4 (take_bit 2 a) OR drop_bit 4 b)) OR 0x1000000) OR 0x1000000
       in (three ch, taken_back ch, [], 0))" for b c
    unfolding group64_values list.map take_group append_Cons append_Nil
    by (simp only: dec64_value [OF values_less(1)] dec64_value [OF values_less(2)] Let_def)
      (simp add: dec64_pads(2) numeral_2_eq_2 [symmetric] Let_def del: dec64.simps push_bit_or)
  then have "dec64 0 0 (take 2 (group64 bb_uuenc_tbl_base64 a 0 0) @ [0x3d, 0x3d]) =
      (three (group_word a 0 0 OR (push_bit 6 0x1000000 OR 0x1000000)), taken_back (group_word a 0 0 OR (push_bit 6 0x1000000 OR 0x1000000)), [], 0)"
    by (simp only: push_bit_or [of 6 _ "0x1000000"] group_word_zeros Let_def or.assoc)
  moreover have "taken_back (group_word a 0 0 OR (push_bit 6 0x1000000 OR 0x1000000)) = 2" by (simp only: taken_back_def bit_or_iff marks simp_thms if_True)
  moreover have "three (group_word a 0 0 OR (push_bit 6 0x1000000 OR 0x1000000)) = three (group_word a 0 0)"
    by (rule three_marked) (simp only: bit_or_iff marks, simp)
  moreover have "three (group_word a 0 0) = [a, 0, 0]" unfolding group_word by (rule three_bytes)
  ultimately show ?thesis by simp
qed

text \<open>A text that stops in the middle: the whole groups are decoded, the rest is left.  It must not stop between the two
  characters of a double padding.\<close>

lemma dec64_short: "L < 4 \<Longrightarrow> (\<forall>x \<in> set (take L xs). \<exists>v < 64. x = bb_uuenc_tbl_base64 ! v) \<Longrightarrow> L \<le> length xs \<Longrightarrow> dec64 0 0 (take L xs) = ([], 0, [], L)"
proof -
  have step: "\<forall>x \<in> set ys. \<exists>v < 64. x = bb_uuenc_tbl_base64 ! v \<Longrightarrow> i + length ys < 4 \<Longrightarrow> dec64 ch i ys = ([], 0, [], i + length ys)" for ch i ys
  proof (induction ys arbitrary: ch i)
    case (Cons y ys)
    then obtain v where v: "v < 64" "y = bb_uuenc_tbl_base64 ! v" by auto
    show ?case using Cons v by (simp add: table64(1) Let_def)
  qed simp
  show "L < 4 \<Longrightarrow> (\<forall>x \<in> set (take L xs). \<exists>v < 64. x = bb_uuenc_tbl_base64 ! v) \<Longrightarrow> L \<le> length xs \<Longrightarrow> ?thesis"
    using step [of "take L xs" 0 0] by simp
qed

lemma group64_alphabet: "\<forall>x \<in> set (group64 bb_uuenc_tbl_base64 a b c). \<exists>v < 64. x = bb_uuenc_tbl_base64 ! v"
  unfolding group64_values using values_less(1) [of a] values_less(2) [of a b] values_less(3) [of b c] values_less(4) [of c] by auto

lemma dec64_prefix:
  assumes "L \<le> length (encode64 m)" and "\<not> (L + 1 = length (encode64 m) \<and> length m mod 3 = 1)"
  shows "\<exists>raw bk. dec64 0 0 (take L (encode64 m)) = (raw, bk, [], L mod 4) \<and> length raw = 3 * (L div 4) \<and> bk \<le> length raw \<and>
    take (length raw - bk) raw = take (3 * (L div 4)) m"
  using assms
proof (induction "bb_uuenc_tbl_base64" m arbitrary: L rule: uuenc.induct)
  case 1
  then show ?case by simp
next
  case (2 a)
  have last: "bb_uuenc_tbl_base64 ! 64 = 0x3d" by code_simp
  obtain x y where d: "dec64 0 0 (encode64 [a]) = ([a, x, y], 2, [], 0)" using dec64_one [of a] last by auto
  consider "L \<le> 2" | "L = 4" using 2 by (simp add: uuenc_length) linarith
  then show ?case
  proof cases
    case 1
    then have "take L (encode64 [a]) = take L (group64 bb_uuenc_tbl_base64 a 0 0)" by simp
    moreover have "\<forall>x \<in> set (take L (group64 bb_uuenc_tbl_base64 a 0 0)). \<exists>v < 64. x = bb_uuenc_tbl_base64 ! v"
      using group64_alphabet by (meson in_set_takeD)
    ultimately show ?thesis using dec64_short [of L "group64 bb_uuenc_tbl_base64 a 0 0"] 1 by simp
  next
    case 2
    then show ?thesis using d by (simp add: uuenc_length del: uuenc.simps)
  qed
next
  case (3 a b)
  have last: "bb_uuenc_tbl_base64 ! 64 = 0x3d" by code_simp
  obtain x where d: "dec64 0 0 (encode64 [a, b]) = ([a, b, x], 1, [], 0)" using dec64_two [of a b] last by auto
  consider "L \<le> 3" | "L = 4" using 3 by (simp add: uuenc_length) linarith
  then show ?case
  proof cases
    case 1
    then have "take L (encode64 [a, b]) = take L (group64 bb_uuenc_tbl_base64 a b 0)" by simp
    moreover have "\<forall>x \<in> set (take L (group64 bb_uuenc_tbl_base64 a b 0)). \<exists>v < 64. x = bb_uuenc_tbl_base64 ! v"
      using group64_alphabet by (meson in_set_takeD)
    ultimately show ?thesis using dec64_short [of L "group64 bb_uuenc_tbl_base64 a b 0"] 1 by simp
  next
    case 2
    then show ?thesis using d by (simp add: uuenc_length del: uuenc.simps)
  qed
next
  case (4 a b c m)
  show ?case
  proof (cases "L < 4")
    case True
    then have "take L (encode64 (a # b # c # m)) = take L (group64 bb_uuenc_tbl_base64 a b c)" by simp
    moreover have "\<forall>x \<in> set (take L (group64 bb_uuenc_tbl_base64 a b c)). \<exists>v < 64. x = bb_uuenc_tbl_base64 ! v"
      using group64_alphabet by (meson in_set_takeD)
    ultimately show ?thesis using dec64_short [of L "group64 bb_uuenc_tbl_base64 a b c"] True by simp
  next
    case False
    define k where "k = L - 4"
    have L: "L = 4 + k" using False by (simp add: k_def)
    have d: "(4 + k) div 4 = Suc (k div 4)" by simp
    have m: "length (a # b # c # m) mod 3 = length m mod 3" by simp
    obtain raw bk where r: "dec64 0 0 (take k (encode64 m)) = (raw, bk, [], k mod 4)" "length raw = 3 * (k div 4)" "bk \<le> length raw"
        "take (length raw - bk) raw = take (3 * (k div 4)) m"
      using 4(1) [of k] 4(2,3) L unfolding m by auto
    have t: "take L (encode64 (a # b # c # m)) = group64 bb_uuenc_tbl_base64 a b c @ take k (encode64 m)" by (simp add: L)
    show ?thesis
      unfolding t dec64_group r(1) using r(2-4) by (simp add: L d Suc_diff_le numeral_3_eq_3)
  qed
qed

end
