(* ===== verification/Base_Theorems.thy ===== *)
theory Base_Theorems
  imports Base_Applet Base_Decode
begin

text \<open>
  Streams: every layout of an encoded text in lines is decoded, except one that breaks a double padding; and the
  applet reads what it writes.
\<close>

section \<open>Lines\<close>

abbreviation visible :: "bytes \<Rightarrow> bytes" where
  "visible \<equiv> filter (\<lambda>c. 32 < c)"

lemma fill_buf:
  assumes "n \<le> 80"
  shows "fill_buf (-1) st n buf = (let line = takeWhile (\<lambda>c. 32 < c) (take (80 - n) st); k = length line in
     if n + k = 80 then (Line, 80, store buf n line, drop k st)
     else if k = length st then (if n + k = 0 then Returned else Term_seen, n + k, store buf n line, [])
     else (Line, n + k, store buf n line, drop (Suc k) st))"
  using assms
proof (induction st arbitrary: n buf)
  case Nil
  then show ?case by simp
next
  case (Cons c st)
  have c: "int (unat c) \<le> 32 \<longleftrightarrow> \<not> 32 < c" by (simp add: word_less_def not_less)
  have e: "uint c \<noteq> -1" using unsigned_greater_eq [of c, where 'a = int] by linarith
  show ?case
  proof (cases "n = 80 \<or> \<not> 32 < c")
    case True
    then show ?thesis using Cons.prems c e by (auto simp: take_Cons' Let_def)
  next
    case False
    then have n: "n + 1 \<le> 80" "80 - n = Suc (80 - (n + 1))" using Cons.prems by auto
    have s: "store (store buf n [c]) (n + 1) xs = store buf n (c # xs)" for xs using store_append [of buf n "[c]" xs] by simp
    show ?thesis using Cons.IH [OF n(1), of "buf(n := c)"] False n c e
      by (simp add: Let_def store_byte [of buf n c] s [simplified])
  qed
qed

lemma encode64_chars: "\<forall>x \<in> set (encode64 m). 32 < x"
proof -
  have "32 < bb_uuenc_tbl_base64 ! 64" by code_simp
  moreover have "\<forall>x \<in> set (group64 bb_uuenc_tbl_base64 a b c). 32 < x" for a b c
    using group64_alphabet [of a b c] by (auto simp: table64(2))
  ultimately show ?thesis
    by (induction "bb_uuenc_tbl_base64" m rule: uuenc.induct) (auto dest: in_set_takeD)
qed

lemma encode64_drop: "drop (4 * q) (encode64 m) = encode64 (drop (3 * q) m)"
proof (induction "bb_uuenc_tbl_base64" m arbitrary: q rule: uuenc.induct)
  case (2 a)
  then show ?case by (cases q) (simp_all add: group64_def)
next
  case (3 a b)
  then show ?case by (cases q) (simp_all add: group64_def)
next
  case (4 a b c m)
  then show ?case by (cases q) (simp_all add: numeral_3_eq_3)
qed simp

text \<open>The rest of the text \<open>encode64 m\<close> from place \<open>n\<close> on, in lines.\<close>

definition layout :: "bytes \<Rightarrow> nat \<Rightarrow> bytes \<Rightarrow> bool" where
  "layout m n st \<longleftrightarrow> visible st = drop n (encode64 m) \<and> n \<le> length (encode64 m) \<and>
     (length m mod 3 = 1 \<longrightarrow> n + 1 \<noteq> length (encode64 m) \<and>
       (\<forall>xs c ys. st = xs @ c # ys \<and> \<not> 32 < c \<longrightarrow> n + length (visible xs) + 1 \<noteq> length (encode64 m)))"

lemma layout_rest:
  assumes "layout m n st" and "st = line @ sep @ st'" and "visible line = line" and "visible sep = []"
    and "\<not> (n + length line + 1 = length (encode64 m) \<and> length m mod 3 = 1)"
  defines "cnt \<equiv> n + length line"
  shows "layout (drop (3 * (cnt div 4)) m) (cnt mod 4) st'"
proof -
  let ?E = "encode64 m" and ?q = "cnt div 4"
  have vis: "line @ visible st' = drop n ?E" using assms(1-4) by (simp add: layout_def)
  have "n \<le> length ?E" using assms(1) by (simp add: layout_def)
  then have cnt: "cnt \<le> length ?E" using arg_cong [OF vis, of length] by (simp add: cnt_def)
  have "visible st' = drop (length line) (drop n ?E)" by (simp flip: vis)
  also have "\<dots> = drop (cnt mod 4) (drop (4 * ?q) ?E)" by (simp add: cnt_def add.commute)
  finally have d: "visible st' = drop (cnt mod 4) (encode64 (drop (3 * ?q) m))" by (simp only: encode64_drop)
  have len: "length ?E = 4 * ?q + length (encode64 (drop (3 * ?q) m))"
    using cnt by (simp flip: encode64_drop)
  have split: "n + length (visible (line @ sep @ xs)) + 1 = length ?E \<longleftrightarrow> cnt mod 4 + length (visible xs) + 1 = length (encode64 (drop (3 * ?q) m))" for xs
    using len assms(3,4) by (simp add: cnt_def) presburger
  have "length m mod 3 = 1" if "length (drop (3 * ?q) m) mod 3 = 1"
  proof -
    have "3 * ?q \<le> length m" using that by (cases "3 * ?q \<le> length m") simp_all
    then have "length m = length (drop (3 * ?q) m) + 3 * ?q" by simp
    then show ?thesis using that by (metis mod_mult_self2)
  qed
  note one = this
  show ?thesis unfolding layout_def
  proof (intro conjI impI allI)
    show "visible st' = drop (cnt mod 4) (encode64 (drop (3 * ?q) m))" by (rule d)
    show "cnt mod 4 \<le> length (encode64 (drop (3 * ?q) m))" using len cnt by (metis add_le_cancel_left mult_div_mod_eq)
  next
    assume "length (drop (3 * ?q) m) mod 3 = 1"
    then show "cnt mod 4 + 1 \<noteq> length (encode64 (drop (3 * ?q) m))"
      using one assms(3-5) split [of "[]"] by simp
  next
    fix xs c ys
    assume m: "length (drop (3 * ?q) m) mod 3 = 1" and s: "st' = xs @ c # ys \<and> \<not> 32 < c"
    have "st = (line @ sep @ xs) @ c # ys" using s assms(2) by simp
    then have "n + length (visible (line @ sep @ xs)) + 1 \<noteq> length ?E"
      using assms(1) one [OF m] s unfolding layout_def by blast
    then show "cnt mod 4 + length (visible xs) + 1 \<noteq> length (encode64 (drop (3 * ?q) m))" using split by blast
  qed
qed

text \<open>One round on a text in the buffer that does not end with a padding: what is left of an incomplete group stays
  where it is.\<close>

lemma decode_text:
  assumes "bytes_at buf 0 (length P) = P" and "length P \<le> 80" and "\<forall>x \<in> set P. x \<noteq> 0"
    and r: "dec64 0 0 P = (raw, bk, [], i)" and "length raw + i \<le> length P"
  obtains buf' where "decode_base64 (buf(length P := 0)) 0 (Some 0) = Some (buf', length raw - bk, Some (length P - i))"
    and "map buf' [0..<length raw - bk] = take (length raw - bk) raw" and "buf' (length P) = 0"
    and "strlen_at buf' (length P - i) 82 = i" and "bytes_at buf' (length P - i) i = drop (length P - i) P"
proof -
  let ?l = "length P - i"
  define buf0 where "buf0 = buf(length P := 0)"
  have stored: "bytes_at buf0 0 (length P + 1) = P @ [0]"
  proof -
    have "bytes_at buf0 0 (length P) = bytes_at buf 0 (length P)" unfolding buf0_def store_byte by (rule bytes_at_store) simp
    then show ?thesis using bytes_at_split [of "length P" "length P + 1" buf0 0] assms(1) by (simp add: bytes_at_def buf0_def)
  qed
  then have held: "text_at buf0 0 P" using assms(3) by (auto simp: text_at_def)
  define buf' where "buf' = store buf0 0 raw"
  have "decode_base64_loop buf0 0 0 0 0 = Some (buf', 0 + length raw - bk, 0 + (length P - length ([] :: bytes)), i)"
    unfolding buf'_def by (rule dec64_in_place(1) [OF held _ _ r]) simp_all
  then have d: "decode_base64 buf0 0 (Some 0) = Some (buf', length raw - bk, Some ?l)"
    by (simp add: decode_base64_def)
  have tail: "buf' a = buf0 a" if "length raw \<le> a" for a using that by (simp add: buf'_def store_def)
  have out: "map buf' [0..<length raw - bk] = take (length raw - bk) raw"
  proof -
    have "map buf' [0..<length raw - bk] = take (length raw - bk) (bytes_at buf' 0 (length raw))"
      by (simp add: bytes_at_def take_map min_def)
    then show ?thesis using bytes_at_stored [of buf0 0 raw] by (simp add: buf'_def)
  qed
  have l: "?l + i = length P" "length raw \<le> ?l" using assms(5) by simp_all
  have rest: "bytes_at buf' ?l (i + 1) = drop ?l P @ [0]"
  proof -
    have "bytes_at buf' ?l (i + 1) = bytes_at buf0 ?l (i + 1)"
      unfolding bytes_at_def by (rule map_cong [OF refl]) (use tail l in auto)
    also have "\<dots> = drop ?l (bytes_at buf0 0 (length P + 1))"
      using bytes_at_split [of ?l "length P + 1" buf0 0] l by (simp add: Suc_diff_le)
    finally show ?thesis using stored by simp
  qed
  have plen: "length (drop ?l P) = i" using l(1) by simp
  have parts: "bytes_at buf' ?l i = drop ?l P"
    using rest bytes_at_split [of i "i + 1" buf' ?l] plen by simp
  have "strlen_at buf' ?l 82 = i"
  proof -
    have "[?l..<82] = [?l..<?l + (i + 1)] @ [?l + (i + 1)..<82]"
      using l assms(2) upt_add_eq_append [of ?l "?l + (i + 1)" "82 - (?l + (i + 1))"] by simp
    then have "map buf' [?l..<82] = (drop ?l P @ [0]) @ map buf' [?l + (i + 1)..<82]"
      using rest by (simp add: bytes_at_def)
    moreover have "\<forall>x \<in> set (drop ?l P). x \<noteq> 0" using assms(3) by (meson in_set_dropD)
    ultimately show ?thesis using plen by (simp add: strlen_at_def takeWhile_append2)
  qed
  moreover have "buf' (length P) = 0" using tail [of "length P"] l by (simp add: buf0_def)
  ultimately show ?thesis using that d out parts unfolding buf0_def by blast
qed

text \<open>One round: the buffer holds the part of the text from the last whole group on.\<close>

lemma decode_round:
  assumes "cnt \<le> length (encode64 m)" and "cnt \<le> 80" and "bytes_at buf 0 cnt = take cnt (encode64 m)"
    and "\<not> (cnt + 1 = length (encode64 m) \<and> length m mod 3 = 1)"
  defines "buf0 \<equiv> buf(cnt := 0)" and "q \<equiv> cnt div 4"
  obtains buf' out_tail where "decode_base64 buf0 0 (Some 0) = Some (buf', out_tail, Some (4 * q))"
    and "map buf' [0..<out_tail] = take (3 * q) m" and "buf' cnt = 0" and "strlen_at buf' (4 * q) 82 = cnt mod 4"
    and "bytes_at buf' (4 * q) (cnt mod 4) = take (cnt mod 4) (encode64 (drop (3 * q) m))"
proof -
  let ?P = "take cnt (encode64 m)"
  obtain raw bk where r: "dec64 0 0 ?P = (raw, bk, [], cnt mod 4)" "length raw = 3 * q" "bk \<le> length raw" "take (length raw - bk) raw = take (3 * q) m"
    using dec64_prefix [OF assms(1,4)] unfolding q_def by blast
  have len: "length ?P = cnt" using assms(1) by simp
  have vis: "\<forall>x \<in> set ?P. x \<noteq> 0" using encode64_chars [of m] by (metis in_set_takeD word_not_simps(1))
  have "4 * q + cnt mod 4 = cnt" unfolding q_def by (rule mult_div_mod_eq)
  then have q: "cnt - cnt mod 4 = 4 * q" "length raw + cnt mod 4 \<le> cnt" "cnt - 4 * q = cnt mod 4"
    unfolding r(2) by linarith+
  have part: "drop (4 * q) ?P = take (cnt mod 4) (encode64 (drop (3 * q) m))"
    using q(3) by (simp add: drop_take encode64_drop)
  obtain buf' where "decode_base64 buf0 0 (Some 0) = Some (buf', length raw - bk, Some (4 * q))"
    "map buf' [0..<length raw - bk] = take (length raw - bk) raw" "buf' cnt = 0" "strlen_at buf' (4 * q) 82 = cnt mod 4"
    "bytes_at buf' (4 * q) (cnt mod 4) = drop (4 * q) ?P"
    using decode_text [of buf ?P raw bk "cnt mod 4"] assms(2,3) r(1) vis q(2) unfolding len q(1) buf0_def by blast
  then show ?thesis using that [of buf' "length raw - bk"] r(4) part by simp
qed

lemma bytes_at_moved: "bytes_at (\<lambda>a. if a < k then b (s + a) else b a) 0 k = bytes_at b s k"
  by (rule nth_equalityI) (simp_all add: bytes_at_def)

text \<open>The whole loop.\<close>

lemma read_layout:
  assumes "layout m n st" and "n \<le> 3" and "bytes_at buf 0 n = take n (encode64 m)"
  shows "read_base64_loop (-1) False False st n buf out = Some (Finished (out @ m))"
  using assms
proof (induction "length st" arbitrary: m n st buf out rule: less_induct)
  case less
  let ?E = "encode64 m"
  define line where "line = takeWhile (\<lambda>c. 32 < c) (take (80 - n) st)"
  define k where "k = length line"
  define cnt where "cnt = n + k"
  define st' where "st' = (if cnt = 80 then drop k st else if k = length st then [] else drop (Suc k) st)"
  define e where "e = (if cnt = 80 then Line else if k = length st then if cnt = 0 then Returned else Term_seen else Line)"
  have n: "n \<le> 80" using less.prems(2) by simp
  have fill: "fill_buf (-1) st n buf = (e, cnt, store buf n line, st')"
    using fill_buf [OF n, of st buf] by (simp add: line_def [symmetric] k_def [symmetric] cnt_def st'_def e_def Let_def)
  have cnt80: "cnt \<le> 80" using length_takeWhile_le [of "\<lambda>c. 32 < c" "take (80 - n) st"] n by (simp add: cnt_def k_def line_def) arith
  have shape: "takeWhile (\<lambda>c. 32 < c) (take j st) = take (length (takeWhile (\<lambda>c. 32 < c) (take j st))) st" for j
    by (metis length_takeWhile_le takeWhile_eq_take take_take min.absorb1 length_take min.bounded_iff)
  have line: "line = take k st" unfolding k_def line_def by (rule shape)
  have lvis: "visible line = line" by (simp add: line_def filter_id_conv) (meson set_takeWhileD)
  obtain sep where sep: "st = line @ sep @ st'" "visible sep = []" "\<forall>c \<in> set sep. \<not> 32 < c" "cnt = 80 \<or> st = line \<or> sep \<noteq> []"
  proof -
    consider "cnt = 80" | "cnt \<noteq> 80" "k = length st" | "cnt \<noteq> 80" "k < length st"
      using length_takeWhile_le [of "\<lambda>c. 32 < c" "take (80 - n) st"] by (simp add: k_def line_def) linarith
    then show ?thesis
    proof cases
      case 1
      then show ?thesis using that [of "[]"] by (simp add: st'_def line)
    next
      case 2
      then show ?thesis using that [of "[]"] by (simp add: st'_def line)
    next
      case 3
      have "k < length (take (80 - n) st)" using 3 cnt80 by (simp add: cnt_def)
      then have "\<not> 32 < take (80 - n) st ! k" using nth_length_takeWhile [of "\<lambda>c. 32 < c" "take (80 - n) st"] by (simp add: k_def line_def)
      then have c: "\<not> 32 < st ! k" using \<open>k < length (take (80 - n) st)\<close> by simp
      have "st = take k st @ st ! k # drop (Suc k) st" by (rule id_take_nth_drop [OF 3(2)])
      then show ?thesis using that [of "[st ! k]"] 3 c by (simp add: st'_def line)
    qed
  qed
  have vst: "line @ visible st' = drop n ?E" using less.prems(1) sep(1,2) lvis by (simp add: layout_def)
  have nE: "n \<le> length ?E" using less.prems(1) by (simp add: layout_def)
  have cE: "cnt \<le> length ?E" using arg_cong [OF vst, of length] nE by (simp add: cnt_def k_def)
  have lE: "line = take k (drop n ?E)" by (simp add: vst [symmetric] k_def)
  have held: "bytes_at (store buf n line) 0 cnt = take cnt ?E"
  proof -
    have "bytes_at (store buf n line) 0 cnt = bytes_at (store buf n line) 0 n @ bytes_at (store buf n line) n k"
      using bytes_at_split [of n cnt "store buf n line" 0] by (simp add: cnt_def)
    also have "\<dots> = take n ?E @ line" using less.prems(3) bytes_at_stored [of buf n line] by (simp add: bytes_at_store k_def)
    finally show ?thesis by (simp add: lE [symmetric] take_add cnt_def)
  qed
  have whole: "\<not> (cnt + 1 = length ?E \<and> length m mod 3 = 1)"
  proof
    assume a: "cnt + 1 = length ?E \<and> length m mod 3 = 1"
    then have "cnt \<noteq> 80" by (simp add: uuenc_length) presburger
    moreover have "st \<noteq> line" using a vst sep(1) nE by (auto simp: cnt_def k_def dest!: arg_cong [of _ _ length])
    ultimately obtain c cs where "sep = c # cs" using sep(4) by (cases sep) auto
    then have "st = line @ c # (cs @ st') \<and> \<not> 32 < c" using sep(1,3) by simp
    then have "n + length (visible line) + 1 \<noteq> length ?E" using less.prems(1) a unfolding layout_def by blast
    then show False using a by (simp add: lvis cnt_def k_def)
  qed
  note layout' = layout_rest [OF less.prems(1) sep(1) lvis sep(2) whole [unfolded cnt_def k_def], folded k_def, folded cnt_def]
  obtain buf' out_tail where d: "decode_base64 ((store buf n line)(cnt := 0)) 0 (Some 0) = Some (buf', out_tail, Some (4 * (cnt div 4)))"
      "map buf' [0..<out_tail] = take (3 * (cnt div 4)) m" "buf' cnt = 0" "strlen_at buf' (4 * (cnt div 4)) 82 = cnt mod 4"
      "bytes_at buf' (4 * (cnt div 4)) (cnt mod 4) = take (cnt mod 4) (encode64 (drop (3 * (cnt div 4)) m))"
    using decode_round [OF cE cnt80 held whole] by blast
  note loop = read_base64_loop.simps [of "-1" False False st n buf out, unfolded fill]
  show ?case
  proof (cases e)
    case Returned
    then have "cnt = 0" "st = line" by (auto simp: e_def line split: if_splits)
    then have "?E = []" using vst sep(1) nE by (simp add: cnt_def k_def)
    then have "length m = 0" using uuenc_length [of bb_uuenc_tbl_base64 m] groups3_pads(1) [of "length m"] by simp
    then show ?thesis using Returned by (simp add: loop)
  next
    case Term_seen
    then have "st = line" by (auto simp: e_def line split: if_splits)
    then have "cnt = length ?E" using arg_cong [OF vst, of length] nE sep(1) by (simp add: cnt_def k_def)
    then have c: "cnt = 4 * groups3 (length m)" by (simp add: uuenc_length)
    then have "take (3 * (cnt div 4)) m = m" using groups3_pads(1) [of "length m"] by simp
    moreover have "4 * (cnt div 4) = cnt" using c by simp
    ultimately show ?thesis using Term_seen d(1-3) by (simp add: loop)
  next
    case Line
    have short: "length st' < length st"
    proof -
      have "k \<noteq> 0" if "cnt = 80" using that less.prems(2) by (simp add: cnt_def)
      then show ?thesis using Line sep(1,4) by (cases "cnt = 80") (auto simp: e_def k_def split: if_splits)
    qed
    define buf2 where "buf2 = (\<lambda>a. if a < cnt mod 4 then buf' (4 * (cnt div 4) + a) else buf' a)"
    have "bytes_at buf2 0 (cnt mod 4) = bytes_at buf' (4 * (cnt div 4)) (cnt mod 4)"
      unfolding buf2_def by (rule bytes_at_moved)
    from less.hyps [OF short layout' _ this [unfolded d(5)], of "out @ map buf' [0..<out_tail]"]
    have "read_base64_loop (-1) False False st' (cnt mod 4) buf2 (out @ map buf' [0..<out_tail]) =
        Some (Finished ((out @ map buf' [0..<out_tail]) @ drop (3 * (cnt div 4)) m))" by simp
    then show ?thesis using Line d(1,4) by (simp add: loop d(2) buf2_def Let_def)
  qed
qed

section \<open>The encoder\<close>

text \<open>A text in lines of \<open>col\<close> characters; in the first line there is room for \<open>room\<close> more, and 0 stands for a new line.\<close>

function wrapped :: "nat \<Rightarrow> nat \<Rightarrow> bytes \<Rightarrow> bytes" where
  "wrapped col room xs =
     (if xs = [] then (if room = 0 then [] else [0x0a])
      else let r = (if room = 0 then col else room) in
        if r = 0 \<or> length xs < r then xs @ [0x0a] else take r xs @ 0x0a # wrapped col 0 (drop r xs))"
  by pat_completeness auto
termination by (relation "measure (\<lambda>(c, r, xs). length xs)") auto

declare wrapped.simps [simp del]

lemma wrapped_short: "length ys < room \<Longrightarrow> wrapped col room (ys @ zs) = ys @ wrapped col (room - length ys) zs"
  by (cases "ys @ zs = []"; cases "zs = []") (auto simp: wrapped.simps [of col room] wrapped.simps [of col "room - length ys"] Let_def)

lemma wrapped_line: "0 < room \<Longrightarrow> length ys = room \<Longrightarrow> wrapped col room (ys @ zs) = ys @ 0x0a # wrapped col 0 zs"
  by (auto simp: wrapped.simps [of col room] Let_def)

lemma wrapped_new: "xs \<noteq> [] \<Longrightarrow> wrapped col (if room = 0 then col else room) xs = wrapped col room xs"
  by (cases "room = 0") (simp_all add: wrapped.simps [of col col xs] wrapped.simps [of col 0 xs] Let_def)

lemma print_visible: "\<forall>x \<in> set (bytes_at m p n). 32 < x \<Longrightarrow> print_s m p n = bytes_at m p n"
  unfolding print_s_def bytes_at_def takeWhile_eq_all_conv by auto

lemma wrap_loop_wrapped:
  assumes "0 < col" and "0 < room" and "0 < sz" and "\<forall>x \<in> set (bytes_at m p sz). 32 < x"
  shows "\<exists>t room'. wrap_loop col m p sz room acc = Some (acc @ t, room') \<and>
    (\<forall>zs. wrapped col room (bytes_at m p sz @ zs) = t @ wrapped col room' zs)"
  using assms(2-)
proof (induction sz arbitrary: p room acc rule: less_induct)
  case (less sz)
  note loop = wrap_loop.simps [of col m p sz room acc]
  consider "sz < room" | "sz = room" | "room < sz" by linarith
  then show ?case
  proof cases
    case 1
    then show ?thesis using less.prems wrapped_short [of "bytes_at m p sz" room col]
      by (simp add: loop Let_def print_visible)
  next
    case 2
    have "wrap_loop col m p sz room acc = Some (acc @ (bytes_at m p sz @ [0x0a]), 0)"
      unfolding loop using 2 less.prems(3) by (simp add: Let_def print_visible)
    moreover have "wrapped col room (bytes_at m p sz @ zs) = (bytes_at m p sz @ [0x0a]) @ wrapped col 0 zs" for zs
      using wrapped_line [of room "bytes_at m p sz" col] less.prems(1) 2 by simp
    ultimately show ?thesis by blast
  next
    case 3
    have parts: "bytes_at m p sz = bytes_at m p room @ bytes_at m (p + room) (sz - room)" using bytes_at_split [of room sz m p] 3 by simp
    have vis: "\<forall>x \<in> set (bytes_at m p room). 32 < x" "\<forall>x \<in> set (bytes_at m (p + room) (sz - room)). 32 < x"
      using less.prems(3) unfolding parts by auto
    obtain t room' where t: "wrap_loop col m (p + room) (sz - room) col (acc @ bytes_at m p room @ [0x0a]) = Some ((acc @ bytes_at m p room @ [0x0a]) @ t, room')"
        "\<And>zs. wrapped col col (bytes_at m (p + room) (sz - room) @ zs) = t @ wrapped col room' zs"
      using less.IH [of "sz - room" col "p + room" "acc @ bytes_at m p room @ [0x0a]"] less.prems(1) 3 vis(2) assms(1) by auto
    have new: "wrapped col 0 xs = wrapped col col xs" if "xs \<noteq> []" for xs using wrapped_new [OF that, of col 0] by simp
    have "bytes_at m (p + room) (sz - room) \<noteq> []" using 3 by (metis bytes_at_length length_0_conv zero_less_diff less_numeral_extra(3))
    then have "wrapped col room (bytes_at m p sz @ zs) = (bytes_at m p room @ 0x0a # t) @ wrapped col room' zs" for zs
      using wrapped_line [OF less.prems(1), of "bytes_at m p room" col "bytes_at m (p + room) (sz - room) @ zs"] t(2) by (simp add: parts new)
    moreover have "wrap_loop col m p sz room acc = Some (acc @ (bytes_at m p room @ 0x0a # t), room')"
      using 3 t(1) vis(1) by (simp add: loop Let_def print_visible)
    ultimately show ?thesis by blast
  qed
qed

lemma encode64_append: "length xs mod 3 = 0 \<Longrightarrow> encode64 (xs @ ys) = encode64 xs @ encode64 ys"
proof (induction "length xs" arbitrary: xs rule: less_induct)
  case less
  show ?case
  proof (cases "xs = []")
    case False
    then have "3 \<le> length xs" using less.prems by (metis length_0_conv mod_less not_less)
    then obtain a b c zs where xs: "xs = a # b # c # zs" by (metis Suc_le_length_iff numeral_3_eq_3)
    then show ?thesis using less.hyps [of zs] less.prems by simp
  qed simp
qed

lemma encode_chunk:
  fixes b :: ram
  assumes "input \<noteq> []"
  defines "k \<equiv> min SRC_BUF_SIZE (length input)"
    and "buf \<equiv> (\<lambda>a. if src_buf \<le> a \<and> a < src_buf + min SRC_BUF_SIZE (length input) then input ! (a - src_buf) else b a)"
  shows "bb_uuencode buf 0 src_buf (int k) bb_uuenc_tbl_base64 = store buf 0 (encode64 (take k input) @ [0])"
    and "encode64 input = encode64 (take k input) @ encode64 (drop k input)"
    and "4 * ((k + 2) div 3) = length (encode64 (take k input))" and "0 < k" and "length (encode64 (take k input)) \<le> 640" and "encode64 (take k input) \<noteq> []"
proof -
  have k: "k \<le> 480" "k \<le> length input" by (simp_all add: k_def SRC_BUF_SIZE_def)
  have s: "src_buf = 320" by (simp add: src_buf_def dst_buf_bytes_def SRC_BUF_SIZE_def)
  have g: "groups3 k \<le> 160" using k(1) by (simp add: groups3_def)
  have "bytes_at buf src_buf k = take k input"
    using k(2) by (intro nth_equalityI) (simp_all add: bytes_at_def buf_def k_def)
  moreover have "0 + groups3 k \<le> src_buf \<or> src_buf + k \<le> 0" using g s by simp
  ultimately show "bb_uuencode buf 0 src_buf (int k) bb_uuenc_tbl_base64 = store buf 0 (encode64 (take k input) @ [0])"
    using uuencode_stores [of 0 k src_buf buf bb_uuenc_tbl_base64] by simp
  show "encode64 input = encode64 (take k input) @ encode64 (drop k input)"
  proof (cases "k = length input")
    case False
    then have "k = 480" by (simp add: k_def SRC_BUF_SIZE_def min_def split: if_splits)
    then have "length (take k input) mod 3 = 0" using k(2) by (simp add: min_def)
    then show ?thesis using encode64_append [of "take k input" "drop k input"] by simp
  qed simp
  show "4 * ((k + 2) div 3) = length (encode64 (take k input))" using k(2) by (simp add: uuenc_length groups3_def min_def)
  show "length (encode64 (take k input)) \<le> 640" using g k(2) by (simp add: uuenc_length min_def)
  show pos: "0 < k" using assms(1) by (simp add: k_def SRC_BUF_SIZE_def)
  have "length (encode64 (take k input)) \<noteq> 0" using pos k(2) groups3_pads(1) [of k] by (simp add: uuenc_length min_def)
  then show "encode64 (take k input) \<noteq> []" by simp
qed

lemma encode_loop_lines:
  "0 < col \<Longrightarrow> encode_loop False col input room b acc = Some (acc @ wrapped col room (encode64 input))"
proof (induction "length input" arbitrary: input room b acc rule: less_induct)
  case less
  show ?case
  proof (cases "input = []")
    case True
    then show ?thesis by (simp add: encode_loop.simps wrapped.simps [of col])
  next
    case False
    define k where "k = min SRC_BUF_SIZE (length input)"
    define buf where "buf = (\<lambda>a. if src_buf \<le> a \<and> a < src_buf + min SRC_BUF_SIZE (length input) then input ! (a - src_buf) else b a)"
    note c = encode_chunk(1) [OF False, of b, folded k_def buf_def] encode_chunk(2-) [OF False, folded k_def]
    let ?E = "encode64 (take k input)" and ?buf = "store buf 0 (encode64 (take k input) @ [0])"
    have out: "bytes_at ?buf 0 (length ?E) = ?E"
      using bytes_at_stored [of buf 0 "?E @ [0]"] bytes_at_split [of "length ?E" "length ?E + 1" ?buf 0] by simp
    let ?room = "if room = 0 then col else room"
    have room: "0 < ?room" using less.prems by simp
    obtain t room' where t: "wrap_loop col ?buf 0 (length ?E) ?room acc = Some (acc @ t, room')"
        "\<And>zs. wrapped col ?room (?E @ zs) = t @ wrapped col room' zs"
      using wrap_loop_wrapped [OF less.prems room, of "length ?E" ?buf 0 acc] c(6) encode64_chars [of "take k input"] by (auto simp: out)
    have "wrapped col ?room (encode64 input) = wrapped col room (encode64 input)"
      using c(2,6) by (intro wrapped_new) simp
    then have w: "wrapped col room (encode64 input) = t @ wrapped col room' (encode64 (drop k input))"
      using t(2) c(2) by simp
    have "encode_loop False col input room b acc = encode_loop False col (drop k input) room' ?buf (acc @ t)"
      unfolding encode_loop.simps [of False col input room b acc] Let_def buf_def [symmetric]
      unfolding k_def [symmetric] if_False prod.case c(1,3) t(1) using c(4) less.prems by simp
    also have "\<dots> = Some ((acc @ t) @ wrapped col room' (encode64 (drop k input)))"
      using less.hyps [of "drop k input"] c(4) False less.prems by simp
    finally show ?thesis using w by simp
  qed
qed

lemma encode_loop_line: "encode_loop False 0 input 0 b acc = Some (acc @ encode64 input)"
proof (induction "length input" arbitrary: input b acc rule: less_induct)
  case less
  show ?case
  proof (cases "input = []")
    case True
    then show ?thesis by (simp add: encode_loop.simps)
  next
    case False
    define k where "k = min SRC_BUF_SIZE (length input)"
    define buf where "buf = (\<lambda>a. if src_buf \<le> a \<and> a < src_buf + min SRC_BUF_SIZE (length input) then input ! (a - src_buf) else b a)"
    note c = encode_chunk(1) [OF False, of b, folded k_def buf_def] encode_chunk(2-) [OF False, folded k_def]
    let ?E = "encode64 (take k input)" and ?buf = "store buf 0 (encode64 (take k input) @ [0])"
    have "print_s ?buf 0 (dst_buf_bytes - 1) = ?E"
    proof -
      have n: "length (?E @ [0]) \<le> dst_buf_bytes - 1" using c(5) by (simp add: dst_buf_bytes_def)
      have "bytes_at ?buf 0 (dst_buf_bytes - 1) = (?E @ [0]) @ bytes_at ?buf (length (?E @ [0])) (dst_buf_bytes - 1 - length (?E @ [0]))"
        using bytes_at_split [OF n, of ?buf 0] bytes_at_stored [of buf 0 "?E @ [0]"] by simp
      moreover have "\<forall>x \<in> set ?E. x \<noteq> 0" using encode64_chars [of "take k input"] by (metis word_not_simps(1))
      ultimately show ?thesis by (simp add: print_s_def bytes_at_def takeWhile_append2)
    qed
    note p = this
    have "encode_loop False 0 input 0 b acc = encode_loop False 0 (drop k input) 0 ?buf (acc @ ?E)"
      unfolding encode_loop.simps [of False 0 input 0 b acc] Let_def buf_def [symmetric]
      unfolding k_def [symmetric] if_False prod.case c(1,3) p using c(4) by simp
    also have "\<dots> = Some ((acc @ ?E) @ encode64 (drop k input))"
      using less.hyps [of "drop k input"] c(4) False by simp
    finally show ?thesis using c(2) by simp
  qed
qed

section \<open>Reading what was written\<close>

lemma wrapped_visible: "\<forall>x \<in> set xs. 32 < x \<Longrightarrow> visible (wrapped col room xs) = xs"
proof (induction col room xs rule: wrapped.induct)
  case (1 col room xs)
  let ?r = "if room = 0 then col else room"
  have nl: "\<not> 32 < (0x0a :: u8)" by simp
  show ?case
  proof (cases "xs = [] \<or> ?r = 0 \<or> length xs < ?r")
    case True
    then show ?thesis using 1(2) nl unfolding wrapped.simps [of col room xs] Let_def by (auto simp: filter_id_conv)
  next
    case False
    have "\<forall>x \<in> set (take ?r xs). 32 < x" "\<forall>x \<in> set (drop ?r xs). 32 < x" using 1(2) by (meson in_set_takeD in_set_dropD)+
    then have "visible (take ?r xs) = take ?r xs" "visible (wrapped col 0 (drop ?r xs)) = drop ?r xs"
      using 1(1) [OF _ refl] False by (simp_all add: filter_id_conv)
    then show ?thesis using False nl unfolding wrapped.simps [of col room xs] Let_def by simp
  qed
qed

text \<open>With lines of a multiple of four characters every line ends where a group ends.\<close>

lemma wrapped_groups:
  assumes "4 dvd col" and "4 dvd room" and "4 dvd length xs" and "\<forall>x \<in> set xs. 32 < x"
    and "wrapped col room xs = us @ c # vs" and "\<not> 32 < c"
  shows "4 dvd length (visible us)"
  using assms
proof (induction col room xs arbitrary: us rule: wrapped.induct)
  case (1 col room xs)
  let ?r = "if room = 0 then col else room"
  have nl: "\<not> 32 < (0x0a :: u8)" by simp
  have first: "us = ys \<or> (\<exists>us'. us = ys @ 0x0a # us' \<and> zs = us' @ c # vs)"
    if "ys @ 0x0a # zs = us @ c # vs" "\<forall>x \<in> set ys. 32 < x" for ys zs :: bytes
  proof -
    note eq = that(1)
    obtain ws where "ys = us @ ws \<and> ws @ 0x0a # zs = c # vs \<or> ys @ ws = us \<and> 0x0a # zs = ws @ c # vs"
      using eq unfolding append_eq_append_conv2 by blast
    then show ?thesis using that(2) 1(7) by (cases ws) auto
  qed
  show ?case
  proof (cases "xs = [] \<or> ?r = 0 \<or> length xs < ?r")
    case True
    then have "us = xs \<or> us = []" using 1(6) first [of xs "[]"] 1(5) unfolding wrapped.simps [of col room xs] Let_def
      by (auto split: if_splits simp: Cons_eq_append_conv)
    then show ?thesis using 1(4,5) by (auto simp: filter_id_conv [THEN iffD2])
  next
    case False
    have vis: "\<forall>x \<in> set (take ?r xs). 32 < x" "\<forall>x \<in> set (drop ?r xs). 32 < x" using 1(5) by (meson in_set_takeD in_set_dropD)+
    have r: "4 dvd ?r" "4 dvd length (drop ?r xs)" "length (take ?r xs) = ?r" using 1(2-4) False by auto
    have w: "take ?r xs @ 0x0a # wrapped col 0 (drop ?r xs) = us @ c # vs"
      using 1(6) False unfolding wrapped.simps [of col room xs] Let_def by simp
    have vt: "visible (take ?r xs) = take ?r xs" using vis(1) by (simp add: filter_id_conv)
    from first [OF w vis(1)] show ?thesis
    proof
      assume "us = take ?r xs"
      then show ?thesis using vt r by simp
    next
      assume "\<exists>us'. us = take ?r xs @ 0x0a # us' \<and> wrapped col 0 (drop ?r xs) = us' @ c # vs"
      then obtain us' where us: "us = take ?r xs @ 0x0a # us'" "wrapped col 0 (drop ?r xs) = us' @ c # vs" by blast
      have "4 dvd length (visible us')" using 1(1) [OF _ refl _ _ _ r(2) vis(2) us(2) 1(7)] False 1(2) by simp
      then show ?thesis using us(1) vt r nl by simp
    qed
  qed
qed

lemma layout_wrapped:
  assumes "4 dvd col"
  shows "layout m 0 (wrapped col 0 (encode64 m))" and "layout m 0 (encode64 m)"
proof -
  have four: "4 dvd length (encode64 m)" by (simp add: uuenc_length)
  then have one: "1 \<noteq> length (encode64 m)" by auto
  show "layout m 0 (wrapped col 0 (encode64 m))"
    unfolding layout_def
  proof (intro conjI impI allI)
    show "visible (wrapped col 0 (encode64 m)) = drop 0 (encode64 m)" using wrapped_visible [OF encode64_chars] by simp
  next
    fix xs c ys
    assume "wrapped col 0 (encode64 m) = xs @ c # ys \<and> \<not> 32 < c"
    then have "4 dvd length (visible xs)" using wrapped_groups [OF assms _ four encode64_chars, of 0 xs c ys] by simp
    then show "0 + length (visible xs) + 1 \<noteq> length (encode64 m)" using four by presburger
  qed (use one in simp_all)
  show "layout m 0 (encode64 m)"
    unfolding layout_def
  proof (intro conjI impI allI)
    show "visible (encode64 m) = drop 0 (encode64 m)" using encode64_chars [of m] by (simp add: filter_id_conv)
  next
    fix xs c ys
    assume "encode64 m = xs @ c # ys \<and> \<not> 32 < c"
    then have "c \<in> set (encode64 m)" "\<not> 32 < c" by simp_all
    then show "0 + length (visible xs) + 1 \<noteq> length (encode64 m)" using encode64_chars [of m] by blast
  qed (use one in simp_all)
qed

lemma decode_flags: "baseNUM_decode False txt buf = read_base64_loop (-1) False False txt 0 buf []"
proof -
  have "sint (ucast (0xff :: u32) :: u8) = -1" "(0xff :: u32) AND BASE64_FLAG_UU_STOP = 0" "(0xff :: u32) AND BASE64_32 = 0"
    by code_simp+
  then show ?thesis by (simp add: baseNUM_decode_def read_base64_def)
qed

text \<open>C12: what the base64 applet writes, in lines of any multiple of four characters or in one line, it reads back: for
  every input, through the buffers that are shared by source and target, and across the chunks of both directions.\<close>

theorem base64_roundtrip:
  assumes "4 dvd col"
  shows "\<exists>t. baseNUM_encode False col input dst_buf = Some t \<and> baseNUM_decode False t buf = Some (Finished input)"
proof (cases "col = 0")
  case True
  have "bytes_at buf 0 0 = take 0 (encode64 input)" by (simp add: bytes_at_def)
  then show ?thesis using True read_layout [OF layout_wrapped(2) [OF assms], where out = "[]"]
    by (simp add: baseNUM_encode_def encode_loop_line decode_flags)
next
  case False
  have "bytes_at buf 0 0 = take 0 (encode64 input)" by (simp add: bytes_at_def)
  then show ?thesis using False read_layout [OF layout_wrapped(1) [OF assms], where out = "[]"]
    by (simp add: baseNUM_encode_def encode_loop_lines decode_flags)
qed

lemma base64_roundtrip_witness:
  "\<exists>t. baseNUM_encode False 76 [0x68, 0x65, 0x6c, 0x6c, 0x6f] (\<lambda>a. 0xaa) = Some t \<and> baseNUM_decode False t (\<lambda>a. 0x55) = Some (Finished [0x68, 0x65, 0x6c, 0x6c, 0x6f])"
  by (rule base64_roundtrip) simp

section \<open>A break between the two padding characters\<close>

text \<open>One round of the loop on a text that \<open>decode_text\<close> deals with.\<close>

lemma read_line:
  assumes "fill_buf (-1) st n buf = (Line, length P, buf1, st')" and "bytes_at buf1 0 (length P) = P"
    and "length P \<le> 80" and "\<forall>x \<in> set P. x \<noteq> 0" and "dec64 0 0 P = (raw, bk, [], i)" and "length raw + i \<le> length P"
  obtains buf2 where "read_base64_loop (-1) False False st n buf out = read_base64_loop (-1) False False st' i buf2 (out @ take (length raw - bk) raw)"
    and "bytes_at buf2 0 i = drop (length P - i) P"
proof -
  obtain buf' where d: "decode_base64 (buf1(length P := 0)) 0 (Some 0) = Some (buf', length raw - bk, Some (length P - i))"
    "map buf' [0..<length raw - bk] = take (length raw - bk) raw" "strlen_at buf' (length P - i) 82 = i"
    "bytes_at buf' (length P - i) i = drop (length P - i) P"
    by (rule decode_text [OF assms(2-6)])
  let ?buf2 = "\<lambda>a. if a < i then buf' (length P - i + a) else buf' a"
  have "read_base64_loop (-1) False False st n buf out = read_base64_loop (-1) False False st' i ?buf2 (out @ take (length raw - bk) raw)"
    unfolding read_base64_loop.simps [of "-1" False False st n buf out] assms(1) by (simp add: d(1-3) Let_def)
  moreover have "bytes_at ?buf2 0 i = drop (length P - i) P" using bytes_at_moved d(4) by metis
  ultimately show ?thesis by (rule that)
qed

lemma read_end:
  assumes "fill_buf (-1) st n buf = (Term_seen, length P, buf1, st')" and "bytes_at buf1 0 (length P) = P"
    and "length P \<le> 80" and "\<forall>x \<in> set P. x \<noteq> 0" and "dec64 0 0 P = (raw, bk, [], 0)" and "length raw \<le> length P"
  shows "read_base64_loop (-1) False False st n buf out = Some (Finished (out @ take (length raw - bk) raw))"
proof -
  obtain buf' where d: "decode_base64 (buf1(length P := 0)) 0 (Some 0) = Some (buf', length raw - bk, Some (length P - 0))"
    "map buf' [0..<length raw - bk] = take (length raw - bk) raw" "buf' (length P) = 0"
    by (rule decode_text [OF assms(2-5)]) (use assms(6) in simp)
  then show ?thesis unfolding read_base64_loop.simps [of "-1" False False st n buf out] assms(1) by (simp add: Let_def)
qed

text \<open>A padding character at the first or second place of a group, or at the third place at the end of a text, is
  skipped.\<close>

lemma dec64_whole: "length m mod 3 = 0 \<Longrightarrow> dec64 0 0 (encode64 m @ xs) = (case dec64 0 0 xs of (out, r) \<Rightarrow> (m @ out, r))"
proof (induction "length m" arbitrary: m rule: less_induct)
  case less
  show ?case
  proof (cases "m = []")
    case False
    then have "3 \<le> length m" using less.prems by (metis length_0_conv mod_less not_less)
    then obtain a b c zs where m: "m = a # b # c # zs" by (metis Suc_le_length_iff numeral_3_eq_3)
    then show ?thesis using less.hyps [of zs] less.prems by (simp add: dec64_group split: prod.split)
  qed (simp split: prod.split)
qed

lemma pad_skipped: "b64_value 0x3d 2 0 = None" "b64_value 0x3d (Suc 0) nxt = None" "b64_value 0x3d 0 nxt = None"
  by (simp_all add: b64_value_def)

lemma dec64_broken:
  fixes v w :: u8
  assumes "unat v < 64" and "unat w < 64"
  shows "dec64 0 0 [bb_uuenc_tbl_base64 ! unat v, bb_uuenc_tbl_base64 ! unat w, 0x3d] = ([], 0, [], 2)"
    and "dec64 0 0 [bb_uuenc_tbl_base64 ! unat w, 0x3d, 0x3d] = ([], 0, [], 1)" and "dec64 0 0 [0x3d] = ([], 0, [], 0)"
  by (simp_all only: dec64_value [OF assms(1)] dec64_value [OF assms(2)] Let_def)
     (simp_all add: pad_skipped next_char_def numeral_2_eq_2 [symmetric])

lemma two_chars: "\<exists>v w. unat v < 64 \<and> unat w < 64 \<and>
    encode64 [a] = [bb_uuenc_tbl_base64 ! unat (v :: u8), bb_uuenc_tbl_base64 ! unat (w :: u8), 0x3d, 0x3d]"
proof -
  have "bb_uuenc_tbl_base64 ! 64 = 0x3d" by code_simp
  then have "encode64 [a] = [bb_uuenc_tbl_base64 ! unat (drop_bit 2 a), bb_uuenc_tbl_base64 ! unat (push_bit 4 (take_bit 2 a) OR drop_bit 4 0), 0x3d, 0x3d]"
    by (simp add: group64_values)
  then show ?thesis using values_less(1,2) by blast
qed

text \<open>C14: a line break between the two padding characters loses a byte without an error.  When the last line of the text
  has room for all but the last character, here for every input of \<open>3 * k + 1\<close> bytes in lines of \<open>4 * k + 3\<close> characters that
  fit the decoder's buffer, the applet writes a text that it decodes to all bytes but the last, and reports success.\<close>

theorem base64_loses_byte:
  assumes "length input = 3 * k + 1" and "k < 20"
  shows "\<exists>t. baseNUM_encode False (4 * k + 3) input dst_buf = Some t \<and>
    baseNUM_decode False t buf = Some (Finished (take (3 * k) input))"
proof -
  let ?m = "take (3 * k) input" and ?col = "4 * k + 3"
  have "length (drop (3 * k) input) = 1" using assms(1) by simp
  then obtain a where "drop (3 * k) input = [a]" by (cases "drop (3 * k) input") auto
  then have a: "input = ?m @ [a]" using append_take_drop_id [of "3 * k" input] by simp
  obtain v w where vw: "unat v < 64" "unat w < 64"
    "encode64 [a] = [bb_uuenc_tbl_base64 ! unat (v :: u8), bb_uuenc_tbl_base64 ! unat (w :: u8), 0x3d, 0x3d]" using two_chars by blast
  let ?x = "bb_uuenc_tbl_base64 ! unat v" and ?y = "bb_uuenc_tbl_base64 ! unat w"
  define P where "P = encode64 ?m @ [?x, ?y, 0x3d]"
  have m: "length ?m = 3 * k" using assms(1) by simp
  have E: "encode64 input = P @ [0x3d]" using encode64_append [of ?m "[a]"] a vw(3) m by (simp add: P_def)
  have "groups3 (3 * k) = k" by (simp add: groups3_def)
  then have P: "length P = ?col" "length P \<le> 80" using assms(2) m by (simp_all add: P_def uuenc_length)
  have chars: "\<forall>x \<in> set (P @ [0x3d]). 32 < x" using encode64_chars [of input] unfolding E .
  then have nz: "\<forall>x \<in> set P. x \<noteq> 0" "?y \<noteq> 0" "?x \<noteq> 0" by (auto simp: P_def)
  let ?t = "P @ [0x0a, 0x3d, 0x0a]"
  have "wrapped ?col 0 (P @ [0x3d]) = P @ 0x0a # wrapped ?col 0 [0x3d]"
    using wrapped_new [of "P @ [0x3d]" ?col 0] wrapped_line [of ?col P ?col "[0x3d]"] P(1) by simp
  moreover have "wrapped ?col 0 [0x3d] = [0x3d, 0x0a]" by (simp add: wrapped.simps)
  ultimately have enc: "baseNUM_encode False ?col input dst_buf = Some ?t"
    by (simp add: baseNUM_encode_def encode_loop_lines E)
  have "take (80 - 0) ?t = P @ take (80 - length P) [0x0a, 0x3d, 0x0a]" using P(2) by simp
  moreover have "takeWhile (\<lambda>c. 32 < c) (P @ take (80 - length P) [0x0a, 0x3d, 0x0a :: u8]) = P"
    using chars assms(2) P(1) by (simp add: takeWhile_append2 take_Cons')
  ultimately have fill: "fill_buf (-1) ?t 0 buf = (Line, length P, store buf 0 P, [0x3d, 0x0a])"
    using fill_buf [of 0 ?t buf] P assms(2) by simp
  have "dec64 0 0 P = (?m, 0, [], 2)"
    using dec64_whole [of ?m "[?x, ?y, 0x3d]"] dec64_broken(1) [OF vw(1,2)] m by (simp add: P_def)
  then obtain b1 where b1: "read_base64_loop (-1) False False ?t 0 buf [] = read_base64_loop (-1) False False [0x3d, 0x0a] 2 b1 ?m"
    "bytes_at b1 0 2 = drop (length P - 2) P"
    using read_line [OF fill bytes_at_stored P(2) nz(1), of ?m 0 2 "[]"] P m by auto
  have "drop (length P - 2) P = [?y, 0x3d]" by (simp add: P_def)
  then have held: "bytes_at (b1(2 := 0x3d)) 0 (length [?y, 0x3d, 0x3d]) = [?y, 0x3d, 0x3d]"
    using b1(2) by (simp add: bytes_at_def numeral_2_eq_2)
  have f2: "fill_buf (-1) [0x3d, 0x0a] 2 b1 = (Line, length [?y, 0x3d, 0x3d], b1(2 := 0x3d), [])"
    by (simp add: Let_def)
  obtain b2 where b2: "read_base64_loop (-1) False False [0x3d, 0x0a] 2 b1 ?m = read_base64_loop (-1) False False [] 1 b2 ?m"
    "bytes_at b2 0 1 = [0x3d]"
    using read_line [OF f2 held _ _ dec64_broken(2) [OF vw(1,2)], of ?m] nz(2) by auto
  have f3: "fill_buf (-1) [] 1 b2 = (Term_seen, length [0x3d :: u8], b2, [])" by simp
  have "read_base64_loop (-1) False False [] 1 b2 ?m = Some (Finished ?m)"
    using read_end [OF f3 _ _ _ dec64_broken(3) [OF vw(1,2)], of ?m] b2(2) by simp
  then show ?thesis using enc b1(1) b2(1) by (simp add: decode_flags)
qed

lemma base64_loses_byte_witness:
  "\<exists>t. baseNUM_encode False 7 [0x68, 0x69, 0x6a, 0x6b] (\<lambda>a. 0xaa) = Some t \<and>
    baseNUM_decode False t (\<lambda>a. 0x55) = Some (Finished [0x68, 0x69, 0x6a])"
  using base64_loses_byte [of "[0x68, 0x69, 0x6a, 0x6b]" 1 "\<lambda>a. 0xaa" "\<lambda>a. 0x55"] by simp

end
