(* ===== verification/Crc32.thy ===== *)
theory Crc32
  imports User_Process
begin

unbundle bit_operations_syntax

text \<open>
  \<open>libbb/crc32.c\<close> of BusyBox: the table of a cyclic redundancy check, and the check of a block with it, in both bit
  orders.  The specification is the shift register that takes one bit of the message at a time.
\<close>

section \<open>The code\<close>

text \<open>One round of the loop over \<open>j\<close>.\<close>

definition crc32_shift :: "bool \<Rightarrow> u32 \<Rightarrow> u32" where
  "crc32_shift endian c =
     (let polynomial = (if endian then 0x04c11db7 else 0xedb88320) in
      if endian then (if c AND 0x80000000 \<noteq> 0 then push_bit 1 c XOR polynomial else push_bit 1 c)
      else (if c AND 1 \<noteq> 0 then drop_bit 1 c XOR polynomial else drop_bit 1 c))"

definition crc32_filltable :: "bool \<Rightarrow> u32 list" where
  "crc32_filltable endian =
     map (\<lambda>i. (crc32_shift endian ^^ 8) (if endian then push_bit 24 (of_nat i) else of_nat i)) [0..<256]"

fun crc32_block_endian1 :: "u32 \<Rightarrow> bytes \<Rightarrow> u32 list \<Rightarrow> u32" where
  "crc32_block_endian1 val [] crc_table = val" |
  "crc32_block_endian1 val (b # buf) crc_table =
     crc32_block_endian1 (push_bit 8 val XOR crc_table ! unat (drop_bit 24 val XOR ucast b)) buf crc_table"

fun crc32_block_endian0 :: "u32 \<Rightarrow> bytes \<Rightarrow> u32 list \<Rightarrow> u32" where
  "crc32_block_endian0 val [] crc_table = val" |
  "crc32_block_endian0 val (b # buf) crc_table =
     crc32_block_endian0 (crc_table ! unat (ucast (ucast val :: u8) XOR ucast b :: u32) XOR drop_bit 8 val) buf crc_table"

section \<open>The shift register\<close>

text \<open>A bit of the message is added to the bit that leaves the register; when the sum is 1 the polynomial is added.  The
  reflected form shifts to the right and takes the low bit of a byte first.\<close>

definition lfsr :: "bool \<Rightarrow> u32 \<Rightarrow> bool \<Rightarrow> u32" where
  "lfsr endian c b =
     (if endian then push_bit 1 c XOR (if bit c 31 \<noteq> b then 0x04c11db7 else 0)
      else drop_bit 1 c XOR (if bit c 0 \<noteq> b then 0xedb88320 else 0))"

definition message_bits :: "bool \<Rightarrow> bytes \<Rightarrow> bool list" where
  "message_bits endian buf = concat (map (\<lambda>b. map (bit b) (if endian then rev [0..<8] else [0..<8])) buf)"

definition crc_of_bits :: "bool \<Rightarrow> u32 \<Rightarrow> bool list \<Rightarrow> u32" where
  "crc_of_bits endian val bs = foldl (lfsr endian) val bs"

section \<open>The shift is linear\<close>

lemma shift_lfsr: "crc32_shift endian c = lfsr endian c False"
proof -
  have e: "(0x80000000 :: u32) = 2 ^ 31" "(1 :: u32) = 2 ^ 0" by simp_all
  have "c AND 0x80000000 = 0 \<longleftrightarrow> \<not> bit c 31" "c AND 1 = 0 \<longleftrightarrow> \<not> bit c 0"
    unfolding e by (rule and_exp_eq_0_iff_not_bit)+
  then show ?thesis by (simp add: crc32_shift_def lfsr_def)
qed

lemma lfsr_xor: "lfsr endian (c XOR d) (a \<noteq> b) = lfsr endian c a XOR lfsr endian d b"
  by (auto intro!: bit_word_eqI simp: lfsr_def bit_simps)

lemma shifts_xor: "(crc32_shift endian ^^ n) (c XOR d) = (crc32_shift endian ^^ n) c XOR (crc32_shift endian ^^ n) d"
proof (induction n)
  case (Suc n)
  then show ?case using lfsr_xor [of endian "(crc32_shift endian ^^ n) c" "(crc32_shift endian ^^ n) d" False False] by (simp add: shift_lfsr [symmetric])
qed simp

text \<open>Where the \<open>n\<close>th bit of a byte enters the register, and its number in the byte.\<close>

definition place :: "bool \<Rightarrow> nat \<Rightarrow> nat" where
  "place endian n = (if endian then 31 - n else n)"

definition bit_no :: "bool \<Rightarrow> nat \<Rightarrow> nat" where
  "bit_no endian n = (if endian then 7 - n else n)"

lemma shift_moves: "n < 31 \<Longrightarrow> crc32_shift endian (push_bit (place endian (Suc n)) (of_bool t)) = push_bit (place endian n) (of_bool t)"
proof (cases endian)
  case True
  assume "n < 31"
  then obtain m where m: "31 - Suc n = m" "31 - n = Suc m" "m < 31" by auto
  have "\<not> bit (push_bit m (of_bool t) :: u32) 31" using m(3) by (auto simp: bit_simps)
  then have "lfsr True (push_bit m (of_bool t)) False = push_bit (Suc m) (of_bool t)" by (simp add: lfsr_def)
  then show ?thesis using True by (simp only: shift_lfsr place_def if_True m)
next
  case False
  moreover assume "n < 31"
  ultimately show ?thesis by (cases t) (auto intro!: bit_word_eqI simp: shift_lfsr lfsr_def place_def bit_simps)
qed

lemma shifts_move: "n < 32 \<Longrightarrow> (crc32_shift endian ^^ n) (push_bit (place endian n) (of_bool t)) = push_bit (place endian 0) (of_bool t)"
  by (induction n) (simp_all add: funpow_swap1 shift_moves)

lemma lfsr_shift: "lfsr endian c t = crc32_shift endian (c XOR push_bit (place endian 0) (of_bool t))"
proof -
  have "lfsr endian 0 t = lfsr endian (push_bit (place endian 0) (of_bool t)) False"
    by (cases t) (auto intro!: bit_word_eqI simp: lfsr_def place_def bit_simps)
  then show ?thesis
    using lfsr_xor [of endian c 0 False t] lfsr_xor [of endian c "push_bit (place endian 0) (of_bool t)" False False] by (simp add: shift_lfsr)
qed

text \<open>The first \<open>n\<close> bits, as a word added to the register before \<open>n\<close> shifts.\<close>

primrec entered :: "bool \<Rightarrow> u8 \<Rightarrow> nat \<Rightarrow> u32" where
  "entered endian b 0 = 0" |
  "entered endian b (Suc n) = entered endian b n XOR push_bit (place endian n) (of_bool (bit b (bit_no endian n)))"

lemma bits_shifts:
  "n \<le> 8 \<Longrightarrow> foldl (lfsr endian) c (map (\<lambda>k. bit b (bit_no endian k)) [0..<n]) = (crc32_shift endian ^^ n) (c XOR entered endian b n)"
proof (induction n)
  case (Suc n)
  have "foldl (lfsr endian) c (map (\<lambda>k. bit b (bit_no endian k)) [0..<Suc n]) =
      lfsr endian ((crc32_shift endian ^^ n) (c XOR entered endian b n)) (bit b (bit_no endian n))"
    using Suc by simp
  also have "\<dots> = crc32_shift endian ((crc32_shift endian ^^ n) (c XOR entered endian b n) XOR
      (crc32_shift endian ^^ n) (push_bit (place endian n) (of_bool (bit b (bit_no endian n)))))"
    using Suc.prems by (simp add: lfsr_shift shifts_move)
  also have "\<dots> = (crc32_shift endian ^^ Suc n) (c XOR entered endian b (Suc n))"
    by (simp add: shifts_xor [symmetric] xor.assoc)
  finally show ?case .
qed simp

lemma bit_entered: "n \<le> 8 \<Longrightarrow> bit (entered endian b n) k \<longleftrightarrow> (\<exists>i < n. k = place endian i \<and> bit b (bit_no endian i))"
proof (induction n)
  case (Suc n)
  have "bit (push_bit (place endian n) (of_bool (bit b (bit_no endian n))) :: u32) k \<longleftrightarrow> k = place endian n \<and> bit b (bit_no endian n)"
    using Suc.prems by (auto simp: bit_simps place_def)
  moreover have "i < n \<Longrightarrow> place endian i \<noteq> place endian n" for i using Suc.prems by (auto simp: place_def)
  ultimately show ?case using Suc by (auto simp: bit_xor_iff less_Suc_eq)
qed simp

lemma entered_byte: "entered endian b 8 = (if endian then push_bit 24 (ucast b) else ucast b)"
proof (rule bit_word_eqI)
  fix k assume k: "k < LENGTH(32)"
  have low: "i < 8" if "bit b i" for i using bit_imp_le_length [OF that] by simp
  show "bit (entered endian b 8) k = bit (if endian then push_bit 24 (ucast b) else ucast b :: u32) k"
  proof (cases endian)
    case True
    have "(\<exists>i < 8. k = 31 - i \<and> bit b (7 - i)) \<longleftrightarrow> 24 \<le> k \<and> bit b (k - 24)"
    proof
      assume "24 \<le> k \<and> bit b (k - 24)"
      then show "\<exists>i < 8. k = 31 - i \<and> bit b (7 - i)" using k by (intro exI [of _ "31 - k"]) auto
    qed auto
    moreover have "k - 24 < 32" using k by simp
    ultimately show ?thesis using True k by (simp add: bit_entered place_def bit_no_def bit_simps)
  next
    case False
    then show ?thesis using k low by (auto simp: bit_entered place_def bit_no_def bit_simps)
  qed
qed

text \<open>A whole byte.\<close>

lemma byte_bits: "foldl (lfsr endian) c (map (bit b) (if endian then rev [0..<8] else [0..<8])) =
    (crc32_shift endian ^^ 8) (c XOR (if endian then push_bit 24 (ucast b) else ucast b))"
  for b :: u8
proof -
  have "map (bit b) (if endian then rev [0..<8] else [0..<8]) = map (\<lambda>k. bit b (bit_no endian k)) [0..<8]"
    by (simp add: bit_no_def upt_rec numeral_eq_Suc)
  then show ?thesis using bits_shifts [of 8 endian c b] by (simp add: entered_byte)
qed

section \<open>The table\<close>

text \<open>The bits that do not leave the register are only moved.\<close>

lemma shifts_right: "\<forall>k < n. \<not> bit x k \<Longrightarrow> (crc32_shift False ^^ n) x = drop_bit n x"
  by (induction n) (simp_all add: shift_lfsr lfsr_def bit_drop_bit_eq)

lemma shifts_left: "n \<le> 32 \<Longrightarrow> \<forall>k < n. \<not> bit x (31 - k) \<Longrightarrow> (crc32_shift True ^^ n) x = push_bit n x"
  by (induction n) (simp_all add: shift_lfsr lfsr_def bit_push_bit_iff)

lemma filltable_nth: "i < 256 \<Longrightarrow> crc32_filltable endian ! i = (crc32_shift endian ^^ 8) (if endian then push_bit 24 (of_nat i) else of_nat i)"
  by (simp add: crc32_filltable_def del: upt_Suc)

lemma word_256: "unat w < 256" if "take_bit 8 w = w" for w :: u32
proof -
  have "unat w = take_bit 8 (unat w)" using that by (metis unsigned_take_bit_eq)
  then show ?thesis using take_bit_nat_less_exp [of 8 "unat w"] by simp
qed

lemma byte_table0:
  "(crc32_shift False ^^ 8) (val XOR ucast b) = crc32_filltable False ! unat (ucast (ucast val :: u8) XOR ucast b :: u32) XOR drop_bit 8 val"
  for b :: u8
proof -
  have word: "i < 32" if "bit val i" for i using bit_imp_le_length [OF that] by simp
  have low: "i < 8" if "bit b i" for i using bit_imp_le_length [OF that] by simp
  let ?i = "ucast (ucast val :: u8) XOR ucast b :: u32" and ?x = "push_bit 8 (drop_bit 8 val)"
  have v: "val XOR ucast b = ?i XOR ?x" by (rule bit_word_eqI) (auto simp: bit_simps dest: low word)
  have i: "take_bit 8 ?i = ?i" by (rule bit_word_eqI) (auto simp: bit_simps dest: low word)
  have "(crc32_shift False ^^ 8) ?x = drop_bit 8 ?x" by (rule shifts_right) (simp add: bit_simps)
  moreover have "drop_bit 8 ?x = drop_bit 8 val" by (rule bit_word_eqI) (auto simp: bit_simps dest: word)
  ultimately show ?thesis using word_256 [OF i] unfolding v shifts_xor [where c = ?i and d = ?x] by (simp add: filltable_nth)
qed

lemma byte_table1:
  "(crc32_shift True ^^ 8) (val XOR push_bit 24 (ucast b)) = push_bit 8 val XOR crc32_filltable True ! unat (drop_bit 24 val XOR ucast b)"
  for b :: u8
proof -
  have word: "i < 32" if "bit val i" for i using bit_imp_le_length [OF that] by simp
  have low: "i < 8" if "bit b i" for i using bit_imp_le_length [OF that] by simp
  let ?i = "drop_bit 24 val XOR ucast b :: u32" and ?x = "take_bit 24 val"
  have v: "val XOR push_bit 24 (ucast b) = push_bit 24 ?i XOR ?x"
    by (rule bit_word_eqI) (auto simp: bit_simps dest: low word)
  have i: "take_bit 8 ?i = ?i" by (rule bit_word_eqI) (auto simp: bit_simps dest: low word)
  have "(crc32_shift True ^^ 8) ?x = push_bit 8 ?x" by (rule shifts_left) (auto simp: bit_simps)
  moreover have "push_bit 8 ?x = push_bit 8 val" by (rule bit_word_eqI) (auto simp: bit_simps)
  ultimately show ?thesis using word_256 [OF i] unfolding v shifts_xor [where c = "push_bit 24 ?i" and d = ?x] by (simp add: filltable_nth xor.commute)
qed

section \<open>Blocks\<close>

lemma bits_Cons: "message_bits endian (b # buf) = map (bit b) (if endian then rev [0..<8] else [0..<8]) @ message_bits endian buf"
  by (simp add: message_bits_def)

text \<open>With the table that \<open>crc32_filltable\<close> makes, the check of a block is what the shift register computes bit by bit,
  in both orders and from every start value; so the blocks of a message can be checked one after the other.\<close>

lemma crc32_blocks:
  "crc32_block_endian0 val buf (crc32_filltable False) = crc_of_bits False val (message_bits False buf) \<and>
    crc32_block_endian1 val buf (crc32_filltable True) = crc_of_bits True val (message_bits True buf)"
proof
  have byte: "foldl (lfsr False) val (map (bit b) [0..<8]) = crc32_filltable False ! unat (ucast (ucast val :: u8) XOR ucast b :: u32) XOR drop_bit 8 val"
    "foldl (lfsr True) val (map (bit b) (rev [0..<8])) = push_bit 8 val XOR crc32_filltable True ! unat (drop_bit 24 val XOR ucast b)" for val and b :: u8
    using byte_bits [of False val b] byte_bits [of True val b] by (simp_all only: byte_table0 byte_table1 if_True if_False)
  show "crc32_block_endian0 val buf (crc32_filltable False) = crc_of_bits False val (message_bits False buf)"
    by (induction buf arbitrary: val) (simp_all add: crc_of_bits_def bits_Cons byte message_bits_def [of _ "[]"] del: upt_rec_numeral)
  show "crc32_block_endian1 val buf (crc32_filltable True) = crc_of_bits True val (message_bits True buf)"
    by (induction buf arbitrary: val) (simp_all add: crc_of_bits_def bits_Cons byte message_bits_def [of _ "[]"] del: upt_rec_numeral)
qed

end
