(* ===== verification/Cksum.thy ===== *)
theory Cksum
  imports Crc32 "HOL-Library.Log_Nat"
begin

unbundle bit_operations_syntax

text \<open>
  The applets \<open>cksum\<close> and \<open>crc32\<close>, \<open>coreutils/cksum.c\<close> of BusyBox, after their command line.  A file is the list of
  the answers of \<open>safe_read\<close>: \<open>None\<close> is an error, an empty answer or the end of the list is the end of the file.
\<close>

section \<open>The code\<close>

lemma unat_drop: "unat (drop_bit 8 t) = unat t div 256" for t :: u64
  using unsigned_less [of t, where ?'a = nat] by (simp only: unsigned_drop_bit_eq) (simp add: drop_bit_eq_div take_bit_eq_mod)

lemma drop_bit_less: "t \<noteq> 0 \<Longrightarrow> unat (drop_bit 8 t) < unat t" for t :: u64
  unfolding unat_drop by (simp add: unat_gt_0)

text \<open>\<open>while (t != 0) { read_buf[bytes_read++] = (uint8_t)t; t >>= 8; }\<close>\<close>

function size_bytes :: "u64 \<Rightarrow> bytes" where
  "size_bytes t = (if t = 0 then [] else ucast t # size_bytes (drop_bit 8 t))"
  by pat_completeness auto

termination by (relation "measure unat") (auto intro: drop_bit_less)

declare size_bytes.simps [simp del]

definition crc32_block :: "bool \<Rightarrow> u32 \<Rightarrow> bytes \<Rightarrow> u32" where
  "crc32_block is_cksum crc buf =
     (if is_cksum then crc32_block_endian1 else crc32_block_endian0) crc buf (crc32_filltable is_cksum)"

fun cksum_loop :: "bool \<Rightarrow> bytes option list \<Rightarrow> u32 \<Rightarrow> u64 \<Rightarrow> (u32 \<times> u64) option" where
  "cksum_loop is_cksum (None # reads) crc filesize = None" |
  "cksum_loop is_cksum (Some (b # buf) # reads) crc filesize =
     cksum_loop is_cksum reads (crc32_block is_cksum crc (b # buf)) (filesize + of_nat (length (b # buf)))" |
  "cksum_loop is_cksum (Some [] # reads) crc filesize =
     Some (if is_cksum then crc32_block is_cksum crc (size_bytes filesize) else crc, filesize)" |
  "cksum_loop is_cksum [] crc filesize =
     Some (if is_cksum then crc32_block is_cksum crc (size_bytes filesize) else crc, filesize)"

text \<open>What is printed for a file: the check, the size when it is \<open>cksum\<close>, and the name unless it is the standard input.\<close>

type_synonym cksum_line = "u32 \<times> u64 option \<times> string option"

text \<open>The exit code is \<open>None\<close> when the program dies of a read error.\<close>

fun cksum_files ::
    "bool \<Rightarrow> (string option \<Rightarrow> bytes option list option) \<Rightarrow> string option list \<Rightarrow> cksum_line list \<Rightarrow> nat \<Rightarrow> cksum_line list \<times> nat option" where
  "cksum_files is_cksum open_or_warn_stdin [] printed exit_code = (printed, Some exit_code)" |
  "cksum_files is_cksum open_or_warn_stdin (f # argv) printed exit_code =
     (case open_or_warn_stdin f of
        None \<Rightarrow> cksum_files is_cksum open_or_warn_stdin argv printed 1
      | Some reads \<Rightarrow>
          (case cksum_loop is_cksum reads (if is_cksum then 0 else 0xffffffff) 0 of
             None \<Rightarrow> (printed, None)
           | Some (crc, filesize) \<Rightarrow>
               cksum_files is_cksum open_or_warn_stdin argv
                 (printed @ [(NOT crc, if is_cksum then Some filesize else None, f)]) exit_code))"

definition cksum_main :: "bool \<Rightarrow> (string option \<Rightarrow> bytes option list option) \<Rightarrow> string list \<Rightarrow> cksum_line list \<times> nat option" where
  "cksum_main is_cksum open_or_warn_stdin argv =
     cksum_files is_cksum open_or_warn_stdin (if argv = [] then [None] else map Some argv) [] 0"

section \<open>The checks that POSIX and IEEE 802.3 define\<close>

text \<open>The octets of a number, the least significant first.\<close>

definition octets :: "nat \<Rightarrow> bytes" where
  "octets n = map (\<lambda>k. of_nat (n div 256 ^ k)) [0..<floorlog 256 n]"

definition posix_cksum :: "bytes \<Rightarrow> u32" where
  "posix_cksum msg = NOT (crc_of_bits True 0 (message_bits True (msg @ octets (length msg mod 2 ^ 64))))"

definition ieee_crc :: "bytes \<Rightarrow> u32" where
  "ieee_crc msg = NOT (crc_of_bits False 0xffffffff (message_bits False msg))"

lemma octets_step:
  assumes "0 < n"
  shows "octets n = of_nat n # octets (n div 256)"
proof -
  have "floorlog 256 n = Suc (floorlog 256 (n div 256))" using assms by (subst compute_floorlog) (simp only: if_True conj_absorb one_less_numeral_iff semiring_norm Suc_eq_plus1)
  moreover have "n div 256 ^ Suc k = n div 256 div 256 ^ k" for k by (simp only: power_Suc div_mult2_eq)
  ultimately show ?thesis by (simp only: octets_def map_upt_Suc power_0 div_by_1)
qed

lemma octets_0: "octets 0 = []"
  by (simp add: octets_def floorlog_def)

text \<open>Of the digits 1 to 9 \<open>cksum\<close> gives 930766865, and the catalogue value of the other check is CBF43926.\<close>

lemma check_values:
  "posix_cksum [0x31, 0x32, 0x33, 0x34, 0x35, 0x36, 0x37, 0x38, 0x39] = 0x377a6011"
  "ieee_crc [0x31, 0x32, 0x33, 0x34, 0x35, 0x36, 0x37, 0x38, 0x39] = 0xcbf43926"
proof -
  have "octets (length [0x31, 0x32, 0x33, 0x34, 0x35, 0x36, 0x37, 0x38, 0x39 :: u8] mod 2 ^ 64) = [9]"
    by (simp add: octets_step octets_0)
  moreover have "NOT (crc_of_bits True 0 (message_bits True ([0x31, 0x32, 0x33, 0x34, 0x35, 0x36, 0x37, 0x38, 0x39] @ [9]))) = 0x377a6011"
    by code_simp
  ultimately show "posix_cksum [0x31, 0x32, 0x33, 0x34, 0x35, 0x36, 0x37, 0x38, 0x39] = 0x377a6011"
    by (simp only: posix_cksum_def)
  show "ieee_crc [0x31, 0x32, 0x33, 0x34, 0x35, 0x36, 0x37, 0x38, 0x39] = 0xcbf43926" by code_simp
qed

lemma size_octets: "size_bytes t = octets (unat t)"
proof (induction t rule: size_bytes.induct)
  case (1 t)
  show ?case
  proof (cases "t = 0")
    case False
    then have "size_bytes t = ucast t # octets (unat t div 256)" using 1 size_bytes.simps [of t] unfolding unat_drop by (simp del: of_nat_unat)
    then show ?thesis using False by (simp add: octets_step unat_gt_0)
  qed (simp add: size_bytes.simps octets_0)
qed

section \<open>Files\<close>

lemma block_bits: "crc32_block is_cksum crc buf = crc_of_bits is_cksum crc (message_bits is_cksum buf)"
  by (cases is_cksum) (simp_all add: crc32_block_def crc32_blocks)

lemma message_bits_append: "message_bits endian (x @ y) = message_bits endian x @ message_bits endian y"
  by (simp add: message_bits_def)

lemma crc_of_bits_append: "crc_of_bits endian val (x @ y) = crc_of_bits endian (crc_of_bits endian val x) y"
  by (simp add: crc_of_bits_def)

lemma cksum_loop_chunks:
  "[] \<notin> set cs \<Longrightarrow> cksum_loop is_cksum (map Some cs) crc n =
    Some (crc_of_bits is_cksum crc (message_bits is_cksum (concat cs @ (if is_cksum then size_bytes (n + of_nat (length (concat cs))) else []))),
      n + of_nat (length (concat cs)))"
proof (induction cs arbitrary: crc n)
  case (Cons c cs)
  then obtain b buf where c: "c = b # buf" by (cases c) auto
  have "cksum_loop is_cksum (map Some (c # cs)) crc n =
      cksum_loop is_cksum (map Some cs) (crc_of_bits is_cksum crc (message_bits is_cksum c)) (n + of_nat (length c))"
    by (simp add: c block_bits)
  also have "n + of_nat (length c) + of_nat (length (concat cs)) = n + of_nat (length (concat (c # cs)))" by simp
  ultimately show ?case using Cons by (simp add: message_bits_append crc_of_bits_append add.assoc)
qed (simp add: block_bits message_bits_def crc_of_bits_def)

definition readable :: "bytes option list \<Rightarrow> bool" where
  "readable reads \<longleftrightarrow> None \<notin> set reads \<and> Some [] \<notin> set reads"

definition content :: "bytes option list \<Rightarrow> bytes" where
  "content reads = concat (map the reads)"

lemma loop_checks:
  assumes "readable reads"
  shows "map_option (\<lambda>(crc, n). (NOT crc, n)) (cksum_loop is_cksum reads (if is_cksum then 0 else 0xffffffff) 0) =
    Some (if is_cksum then posix_cksum (content reads) else ieee_crc (content reads), of_nat (length (content reads)))"
proof -
  have "Some (the x) = x" if "x \<in> set reads" for x using assms that by (cases x) (auto simp: readable_def)
  then have "reads = map Some (map the reads)" by (simp add: map_idI)
  moreover have "[] \<notin> set (map the reads)" using assms by (auto simp: readable_def) (metis option.collapse)+
  ultimately have "cksum_loop is_cksum reads crc 0 =
      Some (crc_of_bits is_cksum crc (message_bits is_cksum (content reads @ (if is_cksum then size_bytes (of_nat (length (content reads))) else []))),
        of_nat (length (content reads)))" for crc
    using cksum_loop_chunks [of "map the reads" is_cksum crc 0] by (simp add: content_def)
  then show ?thesis by (auto simp: posix_cksum_def ieee_crc_def size_octets unat_of_nat)
qed

text \<open>What is due for a file that can be opened.\<close>

definition due :: "bool \<Rightarrow> bytes option list \<Rightarrow> string option \<Rightarrow> cksum_line" where
  "due is_cksum reads f =
     (if is_cksum then (posix_cksum (content reads), Some (of_nat (length (content reads))), f)
      else (ieee_crc (content reads), None, f))"

lemma cksum_files_due:
  "\<forall>f \<in> set fs. \<forall>reads. opn f = Some reads \<longrightarrow> readable reads \<Longrightarrow>
    cksum_files is_cksum opn fs printed code =
      (printed @ concat (map (\<lambda>f. case opn f of None \<Rightarrow> [] | Some reads \<Rightarrow> [due is_cksum reads f]) fs),
       Some (if \<exists>f \<in> set fs. opn f = None then 1 else code))"
proof (induction fs arbitrary: printed code)
  case (Cons f fs)
  show ?case
  proof (cases "opn f")
    case None
    then show ?thesis using Cons by simp
  next
    case (Some reads)
    then have "readable reads" using Cons.prems by simp
    then obtain crc n where "cksum_loop is_cksum reads (if is_cksum then 0 else 0xffffffff) 0 = Some (crc, n)"
        "NOT crc = (if is_cksum then posix_cksum (content reads) else ieee_crc (content reads))" "n = of_nat (length (content reads))"
      using loop_checks [of reads is_cksum] by (auto simp del: if_split)
    then show ?thesis using Some Cons by (simp add: due_def)
  qed
qed simp

text \<open>C13: however the files come in pieces, \<open>cksum\<close> prints for each the check of POSIX, with the length behind the
  message, and \<open>crc32\<close> the check of IEEE 802.3, as the bitwise shift register computes them; a file that cannot be opened
  is left out and makes the exit code 1.\<close>

theorem cksum_correct:
  assumes "\<forall>f \<in> set argv. \<forall>reads. opn (Some f) = Some reads \<longrightarrow> readable reads" and "argv \<noteq> []"
  shows "cksum_main is_cksum opn argv =
    (concat (map (\<lambda>f. case opn (Some f) of None \<Rightarrow> [] | Some reads \<Rightarrow> [due is_cksum reads (Some f)]) argv),
     Some (if \<exists>f \<in> set argv. opn (Some f) = None then 1 else 0))"
  using assms cksum_files_due [of "map Some argv" opn is_cksum "[]" 0] by (simp add: cksum_main_def comp_def)

lemma cksum_correct_witness:
  "cksum_main False (\<lambda>f. if f = Some ''a'' then Some [Some [0x31, 0x32, 0x33, 0x34], Some [0x35, 0x36, 0x37, 0x38, 0x39]] else None) [''b'', ''a''] =
    ([(0xcbf43926, None, Some ''a'')], Some 1)"
  (is "cksum_main False ?opn _ = _")
proof -
  have "\<forall>f \<in> set [''b'', ''a'']. \<forall>reads. ?opn (Some f) = Some reads \<longrightarrow> readable reads" by (simp add: readable_def)
  then have "cksum_main False ?opn [''b'', ''a''] =
    (concat (map (\<lambda>f. case ?opn (Some f) of None \<Rightarrow> [] | Some reads \<Rightarrow> [due False reads (Some f)]) [''b'', ''a'']),
     Some (if \<exists>f \<in> set [''b'', ''a'']. ?opn (Some f) = None then 1 else 0))"
    by (rule cksum_correct) simp
  then show ?thesis by (simp add: due_def content_def check_values)
qed

end
