(* ===== verification/Dll_Tests.thy ===== *)
theory Dll_Tests
  imports Enclave_Theorems
begin

text \<open>
  The test program of the list library, \<open>programs/libs/dll/tests/main.c\<close>: a walk through the macros, and a copy of the
  driver's \<open>add_merge_global\<close> that aborts where the driver refuses.  A failed \<open>TEST\<close> is a fault.  What \<open>printf\<close> shows of
  a list is a value; the regions of the program have the fields of the driver's page structs, whose record is reused.
\<close>

section \<open>The heap of the program\<close>

record test_heap =
  t_brk :: ptr
  t_oom :: "ptr \<Rightarrow> bool"
  t_junk :: dll_elem
  vals :: "ptr \<rightharpoonup> c_int"
  elem_links :: links
  t_regs :: "ptr \<rightharpoonup> pa_region_t"
  t_globals :: links

text \<open>\<open>malloc\<close>, the test of its answer, the assignment of the fields and \<open>dll_init_elem\<close>.\<close>

definition new_elem :: "c_int \<Rightarrow> test_heap \<Rightarrow> (ptr \<times> test_heap) option" where
  "new_elem v s = do {
     c_assert (\<not> t_oom s (t_brk s));
     let p = t_brk s;
     k \<leftarrow> dll_init_elem p ((elem_links s)(p \<mapsto> t_junk s));
     Some (p, s\<lparr>t_brk := Suc p, vals := (vals s)(p \<mapsto> v), elem_links := k\<rparr>) }"

definition new_region :: "pa_region_t \<Rightarrow> test_heap \<Rightarrow> (ptr \<times> test_heap) option" where
  "new_region x s = do {
     c_assert (\<not> t_oom s (t_brk s));
     let p = t_brk s;
     k \<leftarrow> dll_init_elem p ((t_globals s)(p \<mapsto> t_junk s));
     Some (p, s\<lparr>t_brk := Suc p, t_regs := (t_regs s)(p \<mapsto> x), t_globals := k\<rparr>) }"

definition free_test_region :: "ptr \<Rightarrow> test_heap \<Rightarrow> test_heap option" where
  "free_test_region p s = do {
     h \<leftarrow> kfree p (t_regs s);
     Some (s\<lparr>t_regs := h, t_globals := (t_globals s)(p := None)\<rparr>) }"

section \<open>Adding and removing\<close>

definition test_values :: "c_int list" where
  "test_values = [1, 2, 3, 4, 5, 6]"

fun add_elems :: "c_int list \<Rightarrow> dll_list \<Rightarrow> test_heap \<Rightarrow> (dll_list \<times> test_heap) option" where
  "add_elems [] l s = Some (l, s)" |
  "add_elems (v # vs) l s = do {
     (e, s) \<leftarrow> new_elem v s;
     (l, k) \<leftarrow> dll_add e (l, elem_links s);
     add_elems vs l (s\<lparr>elem_links := k\<rparr>) }"

text \<open>\<open>dll_foreach\<close> with \<open>TEST(curr->value == values[i])\<close>; \<open>skip\<close> is what the body does to \<open>i\<close> after its increment.\<close>

partial_function (option) check_values :: "(nat \<Rightarrow> nat) \<Rightarrow> test_heap \<Rightarrow> ptr option \<Rightarrow> nat \<Rightarrow> nat option" where
  "check_values skip s c i = (case c of None \<Rightarrow> Some i
     | Some p \<Rightarrow> do {
         v \<leftarrow> vals s p;
         c_assert (i < length test_values \<and> v = test_values ! i);
         x \<leftarrow> elem_links s p;
         check_values skip s (nxt x) (skip (i + 1)) })"

definition check_list :: "(nat \<Rightarrow> nat) \<Rightarrow> dll_list \<Rightarrow> nat \<Rightarrow> test_heap \<Rightarrow> unit option" where
  "check_list skip l i s = do { n \<leftarrow> check_values skip s (head l) i; c_assert (n = 6) }"

primrec check_again :: "nat \<Rightarrow> dll_list \<Rightarrow> test_heap \<Rightarrow> unit option" where
  "check_again 0 l s = Some ()" |
  "check_again (Suc n) l s = do { _ \<leftarrow> check_list (\<lambda>i. i) l 0 s; check_again n l s }"

definition check_unlinked :: "ptr \<Rightarrow> test_heap \<Rightarrow> unit option" where
  "check_unlinked p s = do { x \<leftarrow> elem_links s p; c_assert (prev x = None); c_assert (nxt x = None) }"

definition check_value :: "ptr \<Rightarrow> c_int \<Rightarrow> test_heap \<Rightarrow> unit option" where
  "check_value p v s = do { w \<leftarrow> vals s p; c_assert (w = v) }"

definition add_remove :: "dll_list \<Rightarrow> test_heap \<Rightarrow> (dll_list \<times> test_heap) option" where
  "add_remove l s = do {
     (l, s) \<leftarrow> add_elems test_values l s;
     _ \<leftarrow> check_again 5 l s;
     first \<leftarrow> head l;
     _ \<leftarrow> check_value first 1 s;
     (l, k) \<leftarrow> dll_remove first (l, elem_links s);
     let s = s\<lparr>elem_links := k\<rparr>;
     _ \<leftarrow> check_value first 1 s;
     _ \<leftarrow> check_unlinked first s;
     _ \<leftarrow> check_list (\<lambda>i. i) l 1 s;
     (l, k) \<leftarrow> dll_add_first first (l, elem_links s);
     let s = s\<lparr>elem_links := k\<rparr>;
     t \<leftarrow> tail l;
     x \<leftarrow> elem_links s t;
     five \<leftarrow> prev x;
     _ \<leftarrow> check_value five 5 s;
     (l, k) \<leftarrow> dll_remove five (l, elem_links s);
     let s = s\<lparr>elem_links := k\<rparr>;
     _ \<leftarrow> check_unlinked five s;
     _ \<leftarrow> check_list (\<lambda>i. if i = 4 then i + 1 else i) l 0 s;
     Some (l, s) }"

section \<open>Merging regions\<close>

text \<open>The answer \<open>Overlaps\<close> is the abort of \<open>TEST(0)\<close>.\<close>

partial_function (option) test_merge_loop ::
  "ptr \<Rightarrow> ptr option \<Rightarrow> ptr option \<Rightarrow> dll_list \<times> test_heap \<Rightarrow> (scan \<times> dll_list \<times> test_heap) option" where
  "test_merge_loop region iter prv st = (case iter of None \<Rightarrow> Some (Place prv, st)
     | Some i \<Rightarrow> (case st of (l, s) \<Rightarrow> do {
         x \<leftarrow> t_regs s i;
         e \<leftarrow> t_regs s region;
         if overlap (p_start x) (p_end x) (p_start e) (p_end e) then Some (Overlaps, st)
         else if p_start x > p_end e \<or> (p_start x = p_end e \<and> p_tpe x \<noteq> p_tpe e)
         then Some (Place prv, st)
         else if p_start x = p_end e \<and> p_tpe x = p_tpe e
         then do {
           let s = s\<lparr>t_regs := (t_regs s)(i \<mapsto> x\<lparr>p_start := p_start e\<rparr>)\<rparr>;
           s \<leftarrow> free_test_region region s;
           Some (Merged, l, s) }
         else if p_end x < p_start e \<or> (p_end x = p_start e \<and> p_tpe x \<noteq> p_tpe e)
         then do { y \<leftarrow> t_globals s i; test_merge_loop region (nxt y) (Some i) (l, s) }
         else if p_end x = p_start e \<and> p_tpe x = p_tpe e
         then do {
           y \<leftarrow> t_globals s i;
           bad \<leftarrow> (case nxt y of None \<Rightarrow> Some False
                  | Some n \<Rightarrow> do { z \<leftarrow> t_regs s n; Some (overlap (p_start x) (p_end e) (p_start z) (p_end z)) });
           if bad then Some (Overlaps, st)
           else do {
             let s = s\<lparr>t_regs := (t_regs s)(region \<mapsto> e\<lparr>p_start := p_start x\<rparr>)\<rparr>;
             (l, k) \<leftarrow> dll_remove i (l, t_globals s);
             s \<leftarrow> free_test_region i (s\<lparr>t_globals := k\<rparr>);
             case prv of
               Some p \<Rightarrow> do { y \<leftarrow> t_globals s p; test_merge_loop region (Some p) (prev y) (l, s) }
             | None \<Rightarrow> test_merge_loop region (head l) None (l, s) } }
         else do { y \<leftarrow> t_globals s i; test_merge_loop region (nxt y) (Some i) (l, s) } }))"

definition test_add_merge_global ::
  "dll_list option \<Rightarrow> ptr option \<Rightarrow> test_heap \<Rightarrow> (c_int \<times> dll_list option \<times> test_heap) option" where
  "test_add_merge_global enclave region s = (case (enclave, region) of
     (Some l, Some r) \<Rightarrow> do {
       (how, l, s) \<leftarrow> test_merge_loop r (head l) None (l, s);
       case how of
         Overlaps \<Rightarrow> None
       | Merged \<Rightarrow> Some (OK, Some l, s)
       | Place (Some p) \<Rightarrow> do { (l, k) \<leftarrow> dll_add_after r p (l, t_globals s); Some (OK, Some l, s\<lparr>t_globals := k\<rparr>) }
       | Place None \<Rightarrow> do { (l, k) \<leftarrow> dll_add_first r (l, t_globals s); Some (OK, Some l, s\<lparr>t_globals := k\<rparr>) } }
   | _ \<Rightarrow> Some (FAIL, enclave, s))"

text \<open>What is printed of a region: its address, its fields and its links.\<close>

type_synonym dump = "ptr \<times> pa_region_t \<times> dll_elem"

definition dump_region :: "ptr \<Rightarrow> test_heap \<Rightarrow> dump option" where
  "dump_region p s = do { x \<leftarrow> t_regs s p; k \<leftarrow> t_globals s p; Some (p, x, k) }"

partial_function (option) dump_list :: "test_heap \<Rightarrow> ptr option \<Rightarrow> dump list option" where
  "dump_list s iter = (case iter of None \<Rightarrow> Some []
     | Some p \<Rightarrow> do { d \<leftarrow> dump_region p s; x \<leftarrow> t_globals s p; ds \<leftarrow> dump_list s (nxt x); Some (d # ds) })"

definition debug_info :: "dll_list \<Rightarrow> ptr option \<Rightarrow> test_heap \<Rightarrow> (dump option \<times> dll_list \<times> dump list) option" where
  "debug_info enclave to_add s = do {
     d \<leftarrow> (case to_add of None \<Rightarrow> Some None | Some p \<Rightarrow> do { d \<leftarrow> dump_region p s; Some (Some d) });
     ds \<leftarrow> dump_list s (head enclave);
     Some (d, enclave, ds) }"

fun new_regions :: "pa_region_t list \<Rightarrow> test_heap \<Rightarrow> (ptr list \<times> test_heap) option" where
  "new_regions [] s = Some ([], s)" |
  "new_regions (x # xs) s = do { (p, s) \<leftarrow> new_region x s; (ps, s) \<leftarrow> new_regions xs s; Some (p # ps, s) }"

fun merge_all :: "ptr list \<Rightarrow> dll_list \<Rightarrow> test_heap \<Rightarrow> (dll_list \<times> test_heap) option" where
  "merge_all [] enclave s = Some (enclave, s)" |
  "merge_all (p # ps) enclave s = do {
     _ \<leftarrow> debug_info enclave (Some p) s;
     (_, e, s) \<leftarrow> test_add_merge_global (Some enclave) (Some p) s;
     enclave \<leftarrow> e;
     merge_all ps enclave s }"

definition run_regions :: "u64 list \<Rightarrow> u64 list \<Rightarrow> u32 list \<Rightarrow> test_heap \<Rightarrow>
    ((dump option \<times> dll_list \<times> dump list) \<times> dll_list \<times> test_heap) option" where
  "run_regions starts ends types s = do {
     (ps, s) \<leftarrow> new_regions (map (\<lambda>i. \<lparr>p_start = starts ! i, p_end = ends ! i, p_tpe = types ! i\<rparr>) [0..<length starts]) s;
     (enclave, s) \<leftarrow> merge_all ps dll_init_list s;
     d \<leftarrow> debug_info enclave None s;
     Some (d, enclave, s) }"

definition enclave_bug :: "test_heap \<Rightarrow> ((dump option \<times> dll_list \<times> dump list) \<times> dll_list \<times> test_heap) option" where
  "enclave_bug = run_regions
     [0x104ab9000, 0x10799d000, 0x107925000, 0x109545000, 0x10953e000, 0x1095b5000, 0x109536000, 0x10953d000,
      0x1095b2000, 0x1095b4000, 0x1095b6000]
     [0x104aba000, 0x10799e000, 0x107926000, 0x109546000, 0x10953f000, 0x1095b6000, 0x109537000, 0x10953e000,
      0x1095b3000, 0x1095b5000, 0x1095b7000]
     [0, 0, 0, 1, 1, 1, 1, 1, 1, 1, 1]"

definition enclave_bug_minimal :: "test_heap \<Rightarrow> ((dump option \<times> dll_list \<times> dump list) \<times> dll_list \<times> test_heap) option" where
  "enclave_bug_minimal = run_regions [0x1000, 0x2000, 0x5000, 0x7000, 0x8000] [0x2000, 0x3000, 0x6000, 0x8000, 0x9000] [0, 1, 1, 1, 1]"

definition dll_test_main :: "test_heap \<Rightarrow> (dll_list \<times> (dump option \<times> dll_list \<times> dump list) \<times> dll_list \<times> test_heap) option" where
  "dll_test_main s = do { (l, s) \<leftarrow> add_remove dll_init_list s; (d, enclave, s) \<leftarrow> enclave_bug s; Some (l, d, enclave, s) }"

declare check_values.simps [code] test_merge_loop.simps [code] dump_list.simps [code]


section \<open>The merging loop\<close>

text \<open>The list \<open>fst st\<close> threads \<open>xs\<close>; compared with \<open>s0\<close> only regions at the addresses \<open>Q\<close> and their links differ.\<close>

definition t_view :: "test_heap \<Rightarrow> ptr set \<Rightarrow> dll_list \<times> test_heap \<Rightarrow> (ptr \<times> pa_region_t) list \<Rightarrow>
    (ptr \<times> pa_region_t) option \<Rightarrow> bool" where
  "t_view s0 Q st xs n \<longleftrightarrow>
     (\<exists>l h k. st = (l, s0\<lparr>t_regs := h, t_globals := k\<rparr>) \<and> lview (t_regs s0) (t_globals s0) Q h k l xs n)"

lemma t_viewE:
  assumes "t_view s0 Q st xs n"
  obtains l s where "st = (l, s)" "lview (t_regs s0) (t_globals s0) Q (t_regs s) (t_globals s) l xs n"
  using assms unfolding t_view_def by fastforce

lemma t_view_step:
  assumes "t_view s0 Q (l0, s) xs n" and "lview (t_regs s0) (t_globals s0) Q h k l ys n'"
  shows "t_view s0 Q (l, s\<lparr>t_regs := h, t_globals := k\<rparr>) ys n'"
proof -
  obtain h0 k0 where "s = s0\<lparr>t_regs := h0, t_globals := k0\<rparr>" using assms(1) unfolding t_view_def by auto
  then show ?thesis using assms(2) unfolding t_view_def by fastforce
qed

interpretation test_heap: ins_heap pa_ops "t_view s0 Q" test_merge_loop
proof (unfold_locales, goal_cases)
  case (1 q prv st)
  show ?case by (subst test_merge_loop.simps) simp
next
  case (2 st L i x R q e prv)
  from 2(1) obtain l s where "st = (l, s)" and v: "lview (t_regs s0) (t_globals s0) Q (t_regs s) (t_globals s) l (L @ (i, x) # R) (Some (q, e))"
    by (rule t_viewE)
  then show ?case using lviewD [OF v] 2(2) by (subst test_merge_loop.simps) (simp add: overlap_eq)
next
  case (3 st L i x R q e prv)
  from 3(1) obtain l s where "st = (l, s)" and v: "lview (t_regs s0) (t_globals s0) Q (t_regs s) (t_globals s) l (L @ (i, x) # R) (Some (q, e))"
    by (rule t_viewE)
  then show ?case using lviewD [OF v] 3(2,3) by (subst test_merge_loop.simps) (simp add: overlap_eq)
next
  case (4 st L i x R q e prv)
  from 4(1) obtain l s where st: "st = (l, s)"
    and v: "lview (t_regs s0) (t_globals s0) Q (t_regs s) (t_globals s) l (L @ (i, x) # R) (Some (q, e))"
    by (rule t_viewE)
  note d = lviewD [OF v]
  let ?x = "x\<lparr>p_start := p_start e\<rparr>"
  let ?s = "s\<lparr>t_regs := (t_regs s)(i \<mapsto> ?x, q := None), t_globals := (t_globals s)(q := None)\<rparr>"
  have "test_merge_loop q (Some i) prv st = Some (Merged, l, ?s)"
    using 4(2-5) d(1-3) unfolding st by (subst test_merge_loop.simps) (simp add: overlap_eq free_test_region_def Let_def)
  moreover have "t_view s0 Q (l, ?s) (L @ (i, ?x) # R) None"
    by (rule t_view_step [OF 4(1) [unfolded st]], rule lview_free, rule lview_upd, rule v)
  ultimately show ?case by auto
next
  case (5 st L i x R q e prv)
  from 5(1) obtain l s where st: "st = (l, s)" and v: "lview (t_regs s0) (t_globals s0) Q (t_regs s) (t_globals s) l (L @ (i, x) # R) (Some (q, e))"
    by (rule t_viewE)
  note d = lviewD [OF v]
  have n: "\<not> overlap (p_start x) (p_end x) (p_start e) (p_end e)"
    "\<not> (p_start x > p_end e \<or> (p_start x = p_end e \<and> p_tpe x \<noteq> p_tpe e))"
    "\<not> (p_start x = p_end e \<and> p_tpe x = p_tpe e)"
    "\<not> (p_end x = p_start e \<and> p_tpe x = p_tpe e)"
    using 5(2-5) by (auto simp: overlap_eq)
  show ?case unfolding st
    by (subst test_merge_loop.simps)
       (simp only: d(1,2,5) option.case prod.case Option.bind.simps if_not_P [OF n(1)] if_not_P [OF n(2)]
         if_not_P [OF n(3)] if_not_P [OF n(4)] dll_elem.select_convs if_cancel)
next
  case (6 st L i x j y R q e prv)
  from 6(1) obtain l s where st: "st = (l, s)" and v: "lview (t_regs s0) (t_globals s0) Q (t_regs s) (t_globals s) l (L @ (i, x) # (j, y) # R) (Some (q, e))"
    by (rule t_viewE)
  note d = lviewD [OF v]
  have n: "\<not> overlap (p_start x) (p_end x) (p_start e) (p_end e)"
    "\<not> (p_start x > p_end e \<or> (p_start x = p_end e \<and> p_tpe x \<noteq> p_tpe e))"
    "\<not> (p_start x = p_end e \<and> p_tpe x = p_tpe e)"
    "\<not> (p_end x < p_start e \<or> (p_end x = p_start e \<and> p_tpe x \<noteq> p_tpe e))"
    "p_end x = p_start e \<and> p_tpe x = p_tpe e"
    "overlap (p_start x) (p_end e) (p_start y) (p_end y)"
    using 6(2-8) by (auto simp: overlap_eq)
  show ?case unfolding st
    by (subst test_merge_loop.simps)
       (simp only: d(1,2,5) option.case prod.case Option.bind.simps if_not_P [OF n(1)] if_not_P [OF n(2)] fstp_simps fst_conv
         if_not_P [OF n(3)] if_not_P [OF n(4)] if_P [OF n(5)] dll_elem.select_convs lview_nth [OF v] if_P [OF n(6)])
next
  case (7 st L i x R q e)
  let ?L = "rev L"
  from 7(1) obtain l s where st: "st = (l, s)"
    and v: "lview (t_regs s0) (t_globals s0) Q (t_regs s) (t_globals s) l (?L @ (i, x) # R) (Some (q, e))"
    by (rule t_viewE)
  note d = lviewD [OF v]
  let ?e = "e\<lparr>p_start := p_start x\<rparr>"
  let ?h = "(t_regs s)(q \<mapsto> ?e)"
  have v1: "lview (t_regs s0) (t_globals s0) Q ?h (t_globals s) l (?L @ (i, x) # R) (Some (q, ?e))"
    by (rule lview_upd_new [OF v])
  obtain l' k' y where r: "dll_remove i (l, t_globals s) = Some (l', k')" "k' i = Some y"
    "lview (t_regs s0) (t_globals s0) Q (?h(i := None)) (k'(i := None)) l' (?L @ R) (Some (q, ?e))"
    by (rule lview_remove [OF v1])
  let ?s = "s\<lparr>t_regs := ?h(i := None), t_globals := k'(i := None)\<rparr>"
  have view: "t_view s0 Q (l', ?s) (?L @ R) (Some (q, ?e))" by (rule t_view_step [OF 7(1) [unfolded st] r(3)])
  have bad: "(case fstp R of None \<Rightarrow> Some False
              | Some n \<Rightarrow> do { z \<leftarrow> t_regs s n; Some (overlap (p_start x) (p_end e) (p_start z) (p_end z)) }) = Some False"
  proof (cases R)
    case (Cons a R')
    then have "t_regs s (fst a) = Some (snd a)" using lview_nth [of _ _ _ "t_regs s" _ _ ?L i x "fst a" "snd a" R'] v by simp
    then show ?thesis using 7(8) Cons by (simp add: overlap_eq)
  qed simp
  have n: "\<not> overlap (p_start x) (p_end x) (p_start e) (p_end e)"
    "\<not> (p_start x > p_end e \<or> (p_start x = p_end e \<and> p_tpe x \<noteq> p_tpe e))"
    "\<not> (p_start x = p_end e \<and> p_tpe x = p_tpe e)"
    "\<not> (p_end x < p_start e \<or> (p_end x = p_start e \<and> p_tpe x \<noteq> p_tpe e))"
    "p_end x = p_start e \<and> p_tpe x = p_tpe e"
    using 7(2-7) by (auto simp: overlap_eq)
  have fr: "free_test_region i (s\<lparr>t_regs := ?h, t_globals := k'\<rparr>) = Some ?s"
    using d(1,3) by (simp add: free_test_region_def)
  have body: "test_merge_loop q (Some i) (fstp L) st =
      (case fstp L of Some p \<Rightarrow> do { y \<leftarrow> t_globals ?s p; test_merge_loop q (Some p) (prev y) (l', ?s) }
       | None \<Rightarrow> test_merge_loop q (head l') None (l', ?s))"
    unfolding st by (subst test_merge_loop.simps)
       (simp add: d(1,2,5) if_not_P [OF n(1)] if_not_P [OF n(2)] if_not_P [OF n(3)] if_not_P [OF n(4)] if_P [OF n(5)] bad r(1) fr Let_def)
  have "test_merge_loop q (Some i) (fstp L) st = (case L of [] \<Rightarrow> test_merge_loop q (fstp R) None (l', ?s)
      | p # L' \<Rightarrow> test_merge_loop q (Some (fst p)) (fstp L') (l', ?s))"
  proof (cases L)
    case Nil
    then show ?thesis using body lview_head [OF r(3)] by simp
  next
    case (Cons p L')
    have "t_globals ?s (fst p) = Some \<lparr>prev = fstp L', nxt = fstp R\<rparr>"
      using lviewD(5) [of _ _ _ _ "k'(i := None)" l' "rev L'" "fst p" "snd p" R q ?e] r(3) Cons by simp
    then show ?thesis using body Cons by simp
  qed
  then show ?case using view by auto
qed

section \<open>Insertion into a list of the program\<close>

definition t_list :: "dll_list \<Rightarrow> test_heap \<Rightarrow> (ptr \<times> pa_region_t) list \<Rightarrow> bool" where
  "t_list l s xs \<longleftrightarrow> dll (t_globals s) l (map fst xs) \<and> (\<forall>(p, x) \<in> set xs. t_regs s p = Some x) \<and> live (t_regs s) (t_globals s)"

text \<open>What an insertion leaves alone: regions that are neither in the list nor the new one, and the elements of the first test.\<close>

definition t_frame :: "ptr set \<Rightarrow> test_heap \<Rightarrow> test_heap \<Rightarrow> bool" where
  "t_frame Q s s' \<longleftrightarrow> agree Q (t_regs s') (t_regs s) \<and> agree Q (t_globals s') (t_globals s) \<and>
     vals s' = vals s \<and> elem_links s' = elem_links s \<and> t_brk s' = t_brk s"

lemma t_list_view:
  assumes "t_list l s xs" and "t_regs s r = Some e" and "r \<notin> set (map fst xs)"
  shows "t_view s (insert r (set (map fst xs))) (l, s) xs (Some (r, e))"
proof -
  have "lview (t_regs s) (t_globals s) (insert r (set (map fst xs))) (t_regs s) (t_globals s) l xs (Some (r, e))"
    using assms by (force simp: lview_def t_list_def)
  then show ?thesis unfolding t_view_def by (intro exI [of _ l] exI [of _ "t_regs s"] exI [of _ "t_globals s"]) simp
qed

lemma t_view_list:
  assumes "t_view s Q (l, s') xs n"
  shows "t_list l s' xs" "t_frame Q s s'" "set (map fst xs) \<subseteq> Q"
proof -
  obtain h k where s': "s' = s\<lparr>t_regs := h, t_globals := k\<rparr>" and v: "lview (t_regs s) (t_globals s) Q h k l xs n"
    using assms unfolding t_view_def by auto
  show "set (map fst xs) \<subseteq> Q" by (rule lview_sub [OF v])
  show "t_list l s' xs" "t_frame Q s s'" using v s' by (auto simp: t_list_def t_frame_def lview_def)
qed

lemma test_merge_list:
  assumes "t_list l s xs" and "t_regs s r = Some e" and "r \<notin> set (map fst xs)"
  defines "Q \<equiv> insert r (set (map fst xs))"
  shows "case ins pa_ops [] e (map snd xs) of
      (False, _) \<Rightarrow> test_add_merge_global (Some l) (Some r) s = None
    | (True, zs) \<Rightarrow> \<exists>l' s' ys. test_add_merge_global (Some l) (Some r) s = Some (OK, Some l', s') \<and>
        t_list l' s' ys \<and> map snd ys = zs \<and> t_frame Q s s' \<and> set (map fst ys) \<subseteq> Q"
proof -
  note v = t_list_view [OF assms(1-3), folded Q_def]
  have hd: "head l = fstp xs" using assms(1) by (cases xs) (auto simp: t_list_def dll_def)
  obtain how l1 s1 where h: "test_merge_loop r (fstp xs) None (l, s) = Some (how, l1, s1)"
    and o: "test_heap.outcome s Q r how (l1, s1) (ins pa_ops [] e (map snd xs))"
    using test_heap.loop_ins [of s Q "(l, s)" "[]" xs r e] v by auto
  show ?thesis
  proof (cases how)
    case Overlaps
    then show ?thesis using o h hd by (auto simp: test_heap.outcome_def test_add_merge_global_def split: prod.splits bool.splits)
  next
    case Merged
    then obtain ys where "t_view s Q (l1, s1) ys None" "ins pa_ops [] e (map snd xs) = (True, map snd ys)"
      using o by (auto simp: test_heap.outcome_def prod_eq_iff)
    moreover from this have "t_list l1 s1 ys" "t_frame Q s s1" "set (map fst ys) \<subseteq> Q" using t_view_list by blast+
    ultimately show ?thesis using h hd Merged by (auto simp: test_add_merge_global_def intro!: exI [of _ ys])
  next
    case (Place p)
    then obtain A B e' where w: "t_view s Q (l1, s1) (rev A @ B) (Some (r, e'))" "p = fstp A"
      and i: "ins pa_ops [] e (map snd xs) = (True, map snd (rev A @ (r, e') # B))"
      using o by (auto simp: test_heap.outcome_def prod_eq_iff)
    have lv: "lview (t_regs s) (t_globals s) Q (t_regs s1) (t_globals s1) l1 (rev A @ B) (Some (r, e'))"
      by (rule t_viewE [OF w(1)]) simp
    have "\<exists>l' k'. lview (t_regs s) (t_globals s) Q (t_regs s1) k' l' (rev A @ (r, e') # B) None \<and>
        test_add_merge_global (Some l) (Some r) s = Some (OK, Some l', s1\<lparr>t_globals := k'\<rparr>)"
    proof (cases A)
      case Nil
      then have d': "lview (t_regs s) (t_globals s) Q (t_regs s1) (t_globals s1) l1 B (Some (r, e'))" using lv by simp
      show ?thesis by (rule lview_add_first [OF d']) (use h hd Place w(2) Nil in \<open>auto simp: test_add_merge_global_def\<close>)
    next
      case (Cons a A')
      then have d': "lview (t_regs s) (t_globals s) Q (t_regs s1) (t_globals s1) l1 (rev A' @ (fst a, snd a) # B) (Some (r, e'))"
        using lv by simp
      show ?thesis by (rule lview_add_after [OF d']) (use h hd Place w(2) Cons in \<open>auto simp: test_add_merge_global_def\<close>)
    qed
    then obtain l' k' where r: "lview (t_regs s) (t_globals s) Q (t_regs s1) k' l' (rev A @ (r, e') # B) None"
      "test_add_merge_global (Some l) (Some r) s = Some (OK, Some l', s1\<lparr>t_globals := k'\<rparr>)" by blast
    have "t_view s Q (l', s1\<lparr>t_regs := t_regs s1, t_globals := k'\<rparr>) (rev A @ (r, e') # B) None"
      by (rule t_view_step [OF w(1) r(1)])
    then have "t_view s Q (l', s1\<lparr>t_globals := k'\<rparr>) (rev A @ (r, e') # B) None" by simp
    note w = t_view_list [OF this]
    show ?thesis unfolding i r(2) prod.case bool.case
      by (intro exI [of _ l'] exI [of _ "s1\<lparr>t_globals := k'\<rparr>"] exI [of _ "rev A @ (r, e') # B"]) (use w in simp)
  qed
qed

lemma t_frame_trans: "t_frame Q s s' \<Longrightarrow> t_frame R s' s'' \<Longrightarrow> t_frame (Q \<union> R) s s''"
  by (auto simp: t_frame_def agree_def)

lemma t_frame_regs: "t_frame Q s s' \<Longrightarrow> p \<notin> Q \<Longrightarrow> t_regs s' p = t_regs s p"
  by (simp add: t_frame_def agree_def)

text \<open>What is printed of a list.\<close>

lemma dump_seg:
  "dll_seg (t_globals s) p c (map fst xs) None q \<Longrightarrow> \<forall>(a, x) \<in> set xs. t_regs s a = Some x \<Longrightarrow>
    \<exists>ds. dump_list s c = Some ds \<and> map (\<lambda>(a, x, k). (a, x)) ds = xs"
proof (induction xs arbitrary: p c)
  case Nil
  then show ?case by (subst dump_list.simps) simp
next
  case (Cons ax xs)
  obtain a x where ax: "ax = (a, x)" by (cases ax)
  obtain n where n: "c = Some a" "t_globals s a = Some \<lparr>prev = p, nxt = n\<rparr>" "dll_seg (t_globals s) (Some a) n (map fst xs) None q"
    using Cons.prems(1) ax by auto
  obtain ds where "dump_list s n = Some ds" "map (\<lambda>(a, x, k). (a, x)) ds = xs" using Cons.IH [OF n(3)] Cons.prems(2) by auto
  then show ?case using n(1,2) ax Cons.prems(2) by (subst dump_list.simps) (simp add: dump_region_def)
qed

lemma debug_info_list:
  assumes "t_list l s xs" and "to_add = Some p \<Longrightarrow> t_regs s p \<noteq> None" and "to_add = None \<or> to_add = Some p"
  shows "\<exists>d ds. debug_info l to_add s = Some (d, l, ds) \<and> map (\<lambda>(a, x, k). (a, x)) ds = xs"
proof -
  obtain ds where ds: "dump_list s (head l) = Some ds" "map (\<lambda>(a, x, k). (a, x)) ds = xs"
    using dump_seg [of s None "head l" xs] assms(1) by (auto simp: t_list_def dll_def)
  have "\<exists>d. dump_region p s = Some d" if "to_add = Some p"
  proof -
    have "t_regs s p \<noteq> None" by (rule assms(2) [OF that])
    then obtain x where x: "t_regs s p = Some x" by auto
    moreover have "live (t_regs s) (t_globals s)" using assms(1) by (simp add: t_list_def)
    ultimately show ?thesis using live_Some by (fastforce simp: dump_region_def)
  qed
  then show ?thesis using assms(3) ds by (auto simp: debug_info_def)
qed

text \<open>A sequence of insertions.\<close>

fun ins_all :: "pa_region_t list \<Rightarrow> pa_region_t list \<Rightarrow> pa_region_t list option" where
  "ins_all [] xs = Some xs" |
  "ins_all (e # es) xs = (case ins pa_ops [] e xs of (ok, zs) \<Rightarrow> if ok then ins_all es zs else None)"

lemma merge_all_list:
  assumes "t_list l s xs" and "\<forall>(p, e) \<in> set es. t_regs s p = Some e" and "distinct (map fst es)"
    and "set (map fst es) \<inter> set (map fst xs) = {}" and "ins_all (map snd es) (map snd xs) = Some zs"
  shows "\<exists>l' s' ys. merge_all (map fst es) l s = Some (l', s') \<and> t_list l' s' ys \<and> map snd ys = zs \<and>
    t_frame (set (map fst es) \<union> set (map fst xs)) s s'"
  using assms
proof (induction es arbitrary: l s xs)
  case Nil
  then show ?case by (auto simp: t_frame_def intro!: exI [of _ xs])
next
  case (Cons pe es)
  obtain p e where pe: "pe = (p, e)" by (cases pe)
  have e: "t_regs s p = Some e" "p \<notin> set (map fst xs)" using Cons.prems(2,4) pe by auto
  obtain zs1 where i: "ins pa_ops [] e (map snd xs) = (True, zs1)" "ins_all (map snd es) zs1 = Some zs"
    using Cons.prems(5) pe by (auto split: prod.splits if_splits)
  obtain l1 s1 ys where m: "test_add_merge_global (Some l) (Some p) s = Some (OK, Some l1, s1)" "t_list l1 s1 ys" "map snd ys = zs1"
      "t_frame (insert p (set (map fst xs))) s s1" "set (map fst ys) \<subseteq> insert p (set (map fst xs))"
    using test_merge_list [OF Cons.prems(1) e] i(1) by auto
  have new: "\<forall>(q, e) \<in> set es. t_regs s1 q = Some e"
  proof (clarify)
    fix q f assume q: "(q, f) \<in> set es"
    then have "q \<in> set (map fst es)" by force
    then have "q \<notin> insert p (set (map fst xs))" using Cons.prems(3,4) pe by auto
    then show "t_regs s1 q = Some f" using t_frame_regs [OF m(4)] Cons.prems(2) q by auto
  qed
  have "p \<notin> set (map fst es)" "set (map fst es) \<inter> set (map fst xs) = {}" using Cons.prems(3,4) pe by auto
  then have "set (map fst es) \<inter> set (map fst ys) = {}" using m(5) by blast
  then obtain l' s' ys' where r: "merge_all (map fst es) l1 s1 = Some (l', s')" "t_list l' s' ys'" "map snd ys' = zs"
      "t_frame (set (map fst es) \<union> set (map fst ys)) s1 s'"
    using Cons.IH [OF m(2) new] Cons.prems(3) i(2) m(3) by auto
  obtain d ds where d: "debug_info l (Some p) s = Some (d, l, ds)" using debug_info_list [OF Cons.prems(1), of "Some p" p] e(1) by auto
  have "t_frame (insert p (set (map fst xs)) \<union> (set (map fst es) \<union> set (map fst ys))) s s'" by (rule t_frame_trans [OF m(4) r(4)])
  moreover have "insert p (set (map fst xs)) \<union> (set (map fst es) \<union> set (map fst ys)) = set (map fst (pe # es)) \<union> set (map fst xs)"
    using m(5) pe by auto
  ultimately show ?case using d m(1) r(1-3) pe by auto
qed

text \<open>The regions of the test, allocated one after the other.\<close>

definition fresh_heap :: "nat \<Rightarrow> test_heap \<Rightarrow> bool" where
  "fresh_heap n s \<longleftrightarrow> (\<forall>p. t_brk s \<le> p \<and> p < t_brk s + n \<longrightarrow> \<not> t_oom s p)"

lemma upt_step: "[n..<Suc (n + k)] = n # [Suc n..<Suc n + k]"
  by (simp add: upt_conv_Cons del: upt_Suc)

lemma new_regions_list:
  assumes "fresh_heap (length xs) s" and "live (t_regs s) (t_globals s)"
  shows "\<exists>s'. new_regions xs s = Some ([t_brk s..<t_brk s + length xs], s') \<and> live (t_regs s') (t_globals s') \<and>
    (\<forall>(p, x) \<in> set (zip [t_brk s..<t_brk s + length xs] xs). t_regs s' p = Some x) \<and>
    (\<forall>p < t_brk s. t_regs s' p = t_regs s p) \<and> vals s' = vals s \<and> elem_links s' = elem_links s \<and>
    t_brk s' = t_brk s + length xs \<and> t_oom s' = t_oom s"
  using assms
proof (induction xs arbitrary: s)
  case (Cons x xs)
  let ?p = "t_brk s"
  let ?s = "s\<lparr>t_brk := Suc ?p, t_regs := (t_regs s)(?p \<mapsto> x), t_globals := (t_globals s)(?p \<mapsto> \<lparr>prev = None, nxt = None\<rparr>)\<rparr>"
  have n: "new_region x s = Some (?p, ?s)" using Cons.prems(1) by (simp add: new_region_def dll_init_elem_def fresh_heap_def Let_def)
  have "fresh_heap (length xs) ?s" "live (t_regs ?s) (t_globals ?s)" using Cons.prems by (auto simp: fresh_heap_def live_def)
  then obtain s' where r: "new_regions xs ?s = Some ([Suc ?p..<Suc ?p + length xs], s')" "live (t_regs s') (t_globals s')"
      "\<forall>(q, y) \<in> set (zip [Suc ?p..<Suc ?p + length xs] xs). t_regs s' q = Some y"
      "\<forall>q < Suc ?p. t_regs s' q = t_regs ?s q" "vals s' = vals s" "elem_links s' = elem_links s"
      "t_brk s' = Suc ?p + length xs" "t_oom s' = t_oom s"
    using Cons.IH by fastforce
  have u: "[?p..<?p + length (x # xs)] = ?p # [Suc ?p..<Suc ?p + length xs]" by (simp only: list.size add_Suc_right upt_step add_0_right One_nat_def)
  have "t_regs s' ?p = Some x" "\<forall>q < ?p. t_regs s' q = t_regs s q" using r(4) by auto
  then show ?case unfolding u using n r(1-3,5-8) by (intro exI [of _ s']) simp
qed (auto simp: live_def)

section \<open>The first test\<close>

lemma add_elems_list:
  assumes "fresh_heap (length vs) s" and "dll (elem_links s) l xs" and "\<forall>x \<in> set xs. x < t_brk s"
  shows "\<exists>l' s'. add_elems vs l s = Some (l', s') \<and> dll (elem_links s') l' (xs @ [t_brk s..<t_brk s + length vs]) \<and>
    map (vals s') [t_brk s..<t_brk s + length vs] = map Some vs \<and> (\<forall>p < t_brk s. vals s' p = vals s p) \<and>
    t_brk s' = t_brk s + length vs \<and> t_oom s' = t_oom s \<and> t_regs s' = t_regs s \<and> t_globals s' = t_globals s"
  using assms
proof (induction vs arbitrary: l s xs)
  case (Cons v vs)
  let ?p = "t_brk s"
  let ?k = "(elem_links s)(?p \<mapsto> \<lparr>prev = None, nxt = None\<rparr>)"
  let ?s = "s\<lparr>t_brk := Suc ?p, vals := (vals s)(?p \<mapsto> v), elem_links := ?k\<rparr>"
  have n: "new_elem v s = Some (?p, ?s)" using Cons.prems(1) by (simp add: new_elem_def dll_init_elem_def fresh_heap_def Let_def)
  have p: "?p \<notin> set xs" using Cons.prems(3) by auto
  have "dll ?k l xs" using Cons.prems(2) p by simp
  then obtain l1 k1 where a: "dll_add ?p (l, ?k) = Some (l1, k1)" "dll k1 l1 (xs @ [?p])"
    using dll_addE [of ?k l xs ?p] p by (metis fun_upd_same)
  let ?s1 = "?s\<lparr>elem_links := k1\<rparr>"
  have "fresh_heap (length vs) ?s1" "\<forall>x \<in> set (xs @ [?p]). x < t_brk ?s1" using Cons.prems by (auto simp: fresh_heap_def)
  then obtain l' s' where r: "add_elems vs l1 ?s1 = Some (l', s')" "dll (elem_links s') l' ((xs @ [?p]) @ [Suc ?p..<Suc ?p + length vs])"
      "map (vals s') [Suc ?p..<Suc ?p + length vs] = map Some vs" "\<forall>q < Suc ?p. vals s' q = vals ?s q"
      "t_brk s' = Suc ?p + length vs" "t_oom s' = t_oom s" "t_regs s' = t_regs s" "t_globals s' = t_globals s"
    using Cons.IH [of ?s1 l1 "xs @ [?p]"] a(2) by auto
  have u: "[?p..<?p + length (v # vs)] = ?p # [Suc ?p..<Suc ?p + length vs]" by (simp only: list.size add_Suc_right upt_step add_0_right One_nat_def)
  have "vals s' ?p = Some v" "\<forall>q < ?p. vals s' q = vals s q" using r(4) by auto
  then show ?case unfolding u using n a(1) r by (intro exI [of _ l'] exI [of _ s']) simp
qed simp

fun check_against :: "(nat \<Rightarrow> nat) \<Rightarrow> c_int list \<Rightarrow> nat \<Rightarrow> nat option" where
  "check_against skip [] i = Some i" |
  "check_against skip (w # ws) i =
     (if i < length test_values \<and> w = test_values ! i then check_against skip ws (skip (i + 1)) else None)"

lemma check_seg:
  "dll_seg (elem_links s) p c xs None q \<Longrightarrow> map (vals s) xs = map Some ws \<Longrightarrow> check_values skip s c i = check_against skip ws i"
proof (induction xs arbitrary: p c ws i)
  case Nil
  then show ?case by (subst check_values.simps) simp
next
  case (Cons x xs)
  then obtain w ws' where ws: "ws = w # ws'" "vals s x = Some w" "map (vals s) xs = map Some ws'" by (cases ws) auto
  obtain n where "c = Some x" "elem_links s x = Some \<lparr>prev = p, nxt = n\<rparr>" "dll_seg (elem_links s) (Some x) n xs None q"
    using Cons.prems(1) by auto
  then show ?case using ws Cons.IH by (subst check_values.simps) simp
qed

lemma check_list_dll:
  "dll (elem_links s) l xs \<Longrightarrow> map (vals s) xs = map Some ws \<Longrightarrow> check_against skip ws i = Some 6 \<Longrightarrow> check_list skip l i s = Some ()"
  by (auto simp: check_list_def dll_def check_seg)

lemma check_again_dll:
  "dll (elem_links s) l xs \<Longrightarrow> map (vals s) xs = map Some test_values \<Longrightarrow> check_again n l s = Some ()"
  by (induction n) (simp_all add: check_list_dll [where ws = test_values] test_values_def)

text \<open>All tests of \<open>add_remove\<close> succeed; the list keeps all elements but the fifth, in order.\<close>

lemma add_remove_passes:
  assumes "fresh_heap 6 s"
  shows "\<exists>l s' xs. add_remove dll_init_list s = Some (l, s') \<and> dll (elem_links s') l xs \<and> map (vals s') xs = map Some [1, 2, 3, 4, 6] \<and>
    t_brk s' = t_brk s + 6 \<and> t_oom s' = t_oom s \<and> t_regs s' = t_regs s \<and> t_globals s' = t_globals s"
proof -
  let ?n = "t_brk s"
  have "fresh_heap (length test_values) s" using assms by (simp add: test_values_def numeral_eq_Suc)
  then obtain l s1 where a: "add_elems test_values dll_init_list s = Some (l, s1)" "dll (elem_links s1) l [?n..<?n + length test_values]"
      "map (vals s1) [?n..<?n + length test_values] = map Some test_values"
      "t_brk s1 = ?n + length test_values" "t_oom s1 = t_oom s" "t_regs s1 = t_regs s" "t_globals s1 = t_globals s"
    using add_elems_list [of test_values s dll_init_list "[]"] by auto
  obtain p1 p2 p3 p4 p5 p6 where p: "[?n..<?n + length test_values] = [p1, p2, p3, p4, p5, p6]"
    by (simp add: test_values_def upt_conv_Cons)
  note d = a(2) [unfolded p]
  have v: "vals s1 p1 = Some 1" "vals s1 p2 = Some 2" "vals s1 p3 = Some 3" "vals s1 p4 = Some 4" "vals s1 p5 = Some 5" "vals s1 p6 = Some 6"
    using a(3) [unfolded p] by (simp_all add: test_values_def)
  have h: "head l = Some p1" by (rule dll_head [OF d])
  have c1: "check_again 5 l s1 = Some ()" by (rule check_again_dll [OF a(2,3)])
  obtain l2 k2 where r1: "dll_remove p1 (l, elem_links s1) = Some (l2, k2)" "dll k2 l2 [p2, p3, p4, p5, p6]" "k2 p1 = Some \<lparr>prev = None, nxt = None\<rparr>"
    by (rule dll_removeE [of "elem_links s1" l "[]" p1 "[p2, p3, p4, p5, p6]"]) (use d in auto)
  let ?s2 = "s1\<lparr>elem_links := k2\<rparr>"
  have c2: "check_list (\<lambda>i. i) l2 1 ?s2 = Some ()"
    by (rule check_list_dll [of _ _ "[p2, p3, p4, p5, p6]" "[2, 3, 4, 5, 6]"]) (use r1(2) v in \<open>simp_all add: test_values_def\<close>)
  have dist: "distinct [p1, p2, p3, p4, p5, p6]" by (rule dll_distinct [OF d])
  obtain l3 k3 where r2: "dll_add_first p1 (l2, k2) = Some (l3, k3)" "dll k3 l3 [p1, p2, p3, p4, p5, p6]"
    by (rule dll_add_firstE [OF r1(2) _ r1(3)]) (use dist in auto)
  have t: "tail l3 = Some p6" using dll_tail [OF r2(2)] by simp
  have k6: "k3 p6 = Some \<lparr>prev = Some p5, nxt = None\<rparr>" using dll_links [of k3 l3 "[p1, p2, p3, p4, p5]" p6 "[]"] r2(2) by simp
  obtain l4 k4 where r3: "dll_remove p5 (l3, k3) = Some (l4, k4)" "dll k4 l4 [p1, p2, p3, p4, p6]" "k4 p5 = Some \<lparr>prev = None, nxt = None\<rparr>"
    by (rule dll_removeE [of k3 l3 "[p1, p2, p3, p4]" p5 "[p6]"]) (use r2(2) in auto)
  let ?s4 = "s1\<lparr>elem_links := k4\<rparr>"
  have c3: "check_list (\<lambda>i. if i = 4 then i + 1 else i) l4 0 ?s4 = Some ()"
    by (rule check_list_dll [of _ _ "[p1, p2, p3, p4, p6]" "[1, 2, 3, 4, 6]"]) (use r3(2) v in \<open>simp_all add: test_values_def\<close>)
  have "add_remove dll_init_list s = Some (l4, ?s4)"
    using c2 c3 t k6 v by (simp add: add_remove_def a(1) c1 h check_value_def r1(1) r2(1) r3(1) check_unlinked_def r1(3) r3(3) Let_def)
  then show ?thesis using r3(2) v a(4-7)
    by (intro exI [of _ l4] exI [of _ ?s4] exI [of _ "[p1, p2, p3, p4, p6]"]) (simp add: test_values_def)
qed

section \<open>The program\<close>

lemma run_regions_list:
  fixes s :: test_heap and n :: nat and starts ends :: "u64 list" and types :: "u32 list"
  defines "xs \<equiv> map (\<lambda>i. \<lparr>p_start = starts ! i, p_end = ends ! i, p_tpe = types ! i\<rparr>) [0..<n]"
  assumes "length starts = n" and "fresh_heap n s" and "live (t_regs s) (t_globals s)" and "ins_all xs [] = Some zs"
  shows "\<exists>d ds l s'. run_regions starts ends types s = Some ((d, l, ds), l, s') \<and> map (\<lambda>(p, x, k). x) ds = zs \<and>
    dll (t_globals s') l (map fst ds) \<and> vals s' = vals s \<and> elem_links s' = elem_links s"
proof -
  let ?ps = "[t_brk s..<t_brk s + length xs]"
  have "length xs = n" by (simp add: xs_def)
  then obtain s1 where n: "new_regions xs s = Some (?ps, s1)" "live (t_regs s1) (t_globals s1)"
      "\<forall>(p, x) \<in> set (zip ?ps xs). t_regs s1 p = Some x" "vals s1 = vals s" "elem_links s1 = elem_links s"
    using new_regions_list [of xs s] assms(3,4) by auto
  have "t_list dll_init_list s1 []" using n(2) by (simp add: t_list_def)
  moreover have f: "map fst (zip ?ps xs) = ?ps" "map snd (zip ?ps xs) = xs" by simp_all
  ultimately obtain l s' ys where m: "merge_all ?ps dll_init_list s1 = Some (l, s')" "t_list l s' ys" "map snd ys = zs"
      "t_frame (set ?ps \<union> {}) s1 s'"
    using merge_all_list [of dll_init_list s1 "[]" "zip ?ps xs" zs] n(3) assms(5) by auto
  obtain d ds where d: "debug_info l None s' = Some (d, l, ds)" "map (\<lambda>(a, x, k). (a, x)) ds = ys"
    using debug_info_list [OF m(2), of None] by auto
  have "map (\<lambda>(p, x, k). x) ds = zs" "map fst ds = map fst ys" using d(2) m(3) by auto
  then show ?thesis using n m d(1) assms(2) unfolding xs_def by (auto simp: run_regions_def t_list_def t_frame_def)
qed

text \<open>What the two tests of the driver's insertion leave: four pages are merged in the one, two in the other.\<close>

definition bug_result :: "pa_region_t list" where
  "bug_result = map (\<lambda>(a, b, t). \<lparr>p_start = a, p_end = b, p_tpe = t\<rparr>)
      [(0x104ab9000, 0x104aba000, 0), (0x107925000, 0x107926000, 0), (0x10799d000, 0x10799e000, 0), (0x109536000, 0x109537000, 1),
       (0x10953d000, 0x10953f000, 1), (0x109545000, 0x109546000, 1), (0x1095b2000, 0x1095b3000, 1), (0x1095b4000, 0x1095b7000, 1)]"

lemma bug_pages:
  "ins_all (map (\<lambda>i. \<lparr>p_start = [0x104ab9000, 0x10799d000, 0x107925000, 0x109545000, 0x10953e000, 0x1095b5000, 0x109536000, 0x10953d000,
      0x1095b2000, 0x1095b4000, 0x1095b6000] ! i, p_end = [0x104aba000, 0x10799e000, 0x107926000, 0x109546000, 0x10953f000, 0x1095b6000,
      0x109537000, 0x10953e000, 0x1095b3000, 0x1095b5000, 0x1095b7000] ! i, p_tpe = [0, 0, 0, 1, 1, 1, 1, 1, 1, 1, 1] ! i\<rparr>) [0..<11]) [] =
    Some (map (\<lambda>(a, b, t). \<lparr>p_start = a, p_end = b, p_tpe = t\<rparr>)
      [(0x104ab9000, 0x104aba000, 0), (0x107925000, 0x107926000, 0), (0x10799d000, 0x10799e000, 0), (0x109536000, 0x109537000, 1),
       (0x10953d000, 0x10953f000, 1), (0x109545000, 0x109546000, 1), (0x1095b2000, 0x1095b3000, 1), (0x1095b4000, 0x1095b7000, 1)])"
  by code_simp

lemma minimal_pages:
  "ins_all (map (\<lambda>i. \<lparr>p_start = [0x1000, 0x2000, 0x5000, 0x7000, 0x8000] ! i, p_end = [0x2000, 0x3000, 0x6000, 0x8000, 0x9000] ! i,
      p_tpe = [0, 1, 1, 1, 1] ! i\<rparr>) [0..<5]) [] =
    Some (map (\<lambda>(a, b, t). \<lparr>p_start = a, p_end = b, p_tpe = t\<rparr>)
      [(0x1000, 0x2000, 0), (0x2000, 0x3000, 1), (0x5000, 0x6000, 1), (0x7000, 0x9000, 1)])"
  by code_simp

text \<open>C40: when memory does not run out the test program of the list library runs to its end, every \<open>TEST\<close> on the way
  succeeding: the first list keeps its elements but the fifth in order, and the list of regions that the program prints
  last is sorted, with every pair of neighbours of the same type merged.\<close>

theorem dll_test_main_passes:
  assumes "fresh_heap 17 s" and "live (t_regs s) (t_globals s)"
  shows "\<exists>l d enclave ds s' xs. dll_test_main s = Some (l, (d, enclave, ds), enclave, s') \<and>
    dll (elem_links s') l xs \<and> map (vals s') xs = map Some [1, 2, 3, 4, 6] \<and>
    dll (t_globals s') enclave (map fst ds) \<and>
    map (\<lambda>(p, x, k). (p_start x, p_end x, p_tpe x)) ds =
      [(0x104ab9000, 0x104aba000, 0), (0x107925000, 0x107926000, 0), (0x10799d000, 0x10799e000, 0), (0x109536000, 0x109537000, 1),
       (0x10953d000, 0x10953f000, 1), (0x109545000, 0x109546000, 1), (0x1095b2000, 0x1095b3000, 1), (0x1095b4000, 0x1095b7000, 1)]"
proof -
  have "fresh_heap 6 s" using assms(1) by (simp add: fresh_heap_def)
  then obtain l s1 xs where a: "add_remove dll_init_list s = Some (l, s1)" "dll (elem_links s1) l xs" "map (vals s1) xs = map Some [1, 2, 3, 4, 6]"
      "t_brk s1 = t_brk s + 6" "t_oom s1 = t_oom s" "t_regs s1 = t_regs s" "t_globals s1 = t_globals s"
    using add_remove_passes by blast
  have s1: "fresh_heap 11 s1" "live (t_regs s1) (t_globals s1)" using assms a(4-7) by (simp_all add: fresh_heap_def)
  have "\<exists>d ds l s'. enclave_bug s1 = Some ((d, l, ds), l, s') \<and> map (\<lambda>(p, x, k). x) ds = bug_result \<and>
      dll (t_globals s') l (map fst ds) \<and> vals s' = vals s1 \<and> elem_links s' = elem_links s1"
    unfolding enclave_bug_def bug_result_def by (rule run_regions_list [OF _ s1 bug_pages]) simp
  then obtain d ds enclave s' where b: "enclave_bug s1 = Some ((d, enclave, ds), enclave, s')" "map (\<lambda>(p, x, k). x) ds = bug_result"
      "dll (t_globals s') enclave (map fst ds)" "vals s' = vals s1" "elem_links s' = elem_links s1" by blast
  have "map (\<lambda>(p, x, k). (p_start x, p_end x, p_tpe x)) ds = map (\<lambda>x. (p_start x, p_end x, p_tpe x)) (map (\<lambda>(p, x, k). x) ds)"
    by (induction ds) auto
  also note b(2)
  finally show ?thesis using a(1-3) b(1,3-5) by (auto simp: dll_test_main_def bug_result_def)
qed

lemma dll_test_main_passes_witness:
  "\<exists>r. dll_test_main \<lparr>t_brk = 1, t_oom = (\<lambda>_. False), t_junk = \<lparr>prev = Some 7, nxt = Some 7\<rparr>, vals = Map.empty, elem_links = Map.empty,
    t_regs = Map.empty, t_globals = Map.empty\<rparr> = Some r"
  using dll_test_main_passes [of "\<lparr>t_brk = 1, t_oom = (\<lambda>_. False), t_junk = \<lparr>prev = Some 7, nxt = Some 7\<rparr>, vals = Map.empty, elem_links = Map.empty,
    t_regs = Map.empty, t_globals = Map.empty\<rparr>"] by (simp add: fresh_heap_def live_def) blast

text \<open>C39: the copy of \<open>add_merge_global\<close> that the test program checks is the function of the driver: on lists of the same
  pages both make the same list of the new page and its neighbours, and where the driver refuses a page the test aborts.\<close>

theorem test_copy_agrees:
  assumes "page_list s en xs" and "pars s r = Some e" and "r \<notin> set (map fst xs)"
    and "t_list l t ys" and "t_regs t q = Some e" and "q \<notin> set (map fst ys)" and "map snd ys = map snd xs"
  shows "\<exists>rc s' xs'. add_merge_global (Some en) (Some r) s = Some (rc, s') \<and> page_list s' en xs' \<and>
    (if rc = OK then \<exists>l' t' ys'. test_add_merge_global (Some l) (Some q) t = Some (OK, Some l', t') \<and> t_list l' t' ys' \<and> map snd ys' = map snd xs'
     else test_add_merge_global (Some l) (Some q) t = None)"
proof -
  obtain ok s' xs' where d: "page_list s' en xs'" "ins pa_ops [] e (map snd xs) = (ok, map snd xs')"
      "add_merge_global (Some en) (Some r) s = Some (if ok then OK else FAIL, s')"
    using add_merge_global_list [OF assms(1-3)] by blast
  have "case (ok, map snd xs') of
      (False, _) \<Rightarrow> test_add_merge_global (Some l) (Some q) t = None
    | (True, zs) \<Rightarrow> \<exists>l' t' ys'. test_add_merge_global (Some l) (Some q) t = Some (OK, Some l', t') \<and>
        t_list l' t' ys' \<and> map snd ys' = zs \<and> t_frame (insert q (set (map fst ys))) t t' \<and> set (map fst ys') \<subseteq> insert q (set (map fst ys))"
    using test_merge_list [OF assms(4-6)] d(2) assms(7) by simp
  then show ?thesis using d(1,3) by (cases ok) (simp_all, blast+)
qed

text \<open>The test program holding the pages of the driver state \<open>demo_driver\<close>.\<close>

definition demo_heap :: test_heap where
  "demo_heap = \<lparr>t_brk = 30, t_oom = (\<lambda>_. False), t_junk = \<lparr>prev = None, nxt = None\<rparr>, vals = Map.empty, elem_links = Map.empty,
     t_regs = pars demo_driver, t_globals = glob_links demo_driver\<rparr>"

lemma test_copy_agrees_witness:
  "\<exists>rc s' xs'. add_merge_global (Some 5) (Some 24) demo_driver = Some (rc, s') \<and> page_list s' 5 xs' \<and>
    (if rc = OK then \<exists>l' t' ys'. test_add_merge_global (Some \<lparr>head = Some 20, tail = Some 21\<rparr>) (Some 24) demo_heap = Some (OK, Some l', t') \<and>
        t_list l' t' ys' \<and> map snd ys' = map snd xs'
     else test_add_merge_global (Some \<lparr>head = Some 20, tail = Some 21\<rparr>) (Some 24) demo_heap = None)"
proof -
  have "t_list \<lparr>head = Some 20, tail = Some 21\<rparr> demo_heap demo_pages"
    by (simp add: t_list_def demo_heap_def demo_driver_def dll_def live_def)
  moreover have "pars demo_driver 24 = Some (demo_page 0x101000 0x102000)" "t_regs demo_heap 24 = Some (demo_page 0x101000 0x102000)"
    by (simp_all add: demo_heap_def demo_driver_def)
  moreover have "24 \<notin> set (map fst demo_pages)" by simp
  ultimately show ?thesis using test_copy_agrees [OF demo_page_list] by blast
qed

end
