(* ===== verification/Trusted_Enclave.thy ===== *)
theory Trusted_Enclave
  imports Loader_Mapping
begin

unbundle bit_operations_syntax

text \<open>
  The example enclave of \<open>programs/user/enclave\<close>: what the host program (\<open>src/main.c\<close>) puts into the two pages that it
  shares, and the code that runs inside (\<open>trusted/main.c\<close>, \<open>trusted/asm.S\<close>) on the same memory.  A hypercall is recorded
  with its registers rax and rcx; it returns.
\<close>

section \<open>The message\<close>

text \<open>The struct has the message pointer at 0, its length at 8 and 30 bytes for the reply at 12.\<close>

record my_encl_message_t =
  message :: u64
  message_len :: u32

definition reply :: "u64 \<Rightarrow> u64" where "reply p = p + 12"

definition put_message :: "my_encl_message_t \<Rightarrow> bytes" where
  "put_message x = put_le 8 (message x) @ put_le 4 (message_len x)"

type_synonym memory = "u64 \<rightharpoonup> u8"

definition fetch :: "memory \<Rightarrow> u64 \<Rightarrow> nat \<Rightarrow> bytes option" where
  "fetch m a n = those (map (\<lambda>i. m (a + of_nat i)) [0..<n])"

definition get_message :: "memory \<Rightarrow> u64 \<Rightarrow> u64 option" where
  "get_message m a = map_option (le 0 8) (fetch m a 8)"

definition get_message_len :: "memory \<Rightarrow> u64 \<Rightarrow> u32 option" where
  "get_message_len m a = map_option (le 0 4) (fetch m (a + 8) 4)"

section \<open>The host\<close>

definition msg :: bytes where "msg = ascii ''A message for the enlave.'' @ [0x0a]"

text \<open>Two pages are mapped, the second holds the message, the first its description; \<open>None\<close> as the answer is the exit
  with code 1.\<close>

definition prepare_message :: "('d, 'z) proc_scheme \<Rightarrow> ((u64 \<times> u64) option \<times> ('d, 'z) proc_scheme) option" where
  "prepare_message s =
     (let (shared, s) = sys_mmap 0x1000 [] s in
      if shared = MAP_FAILED then Some (None, s)
      else let (sharedRO, s) = sys_mmap 0x1000 [] s in
        if sharedRO = MAP_FAILED then Some (None, s)
        else do {
          s \<leftarrow> store_bytes sharedRO msg s;
          s \<leftarrow> store_bytes shared (put_message \<lparr>message = sharedRO, message_len = of_nat (length msg)\<rparr>) s;
          Some (Some (shared, sharedRO), s) })"

definition shared_regions :: "u64 \<Rightarrow> u64 \<Rightarrow> tyche_encl_add_region_t list" where
  "shared_regions shared sharedRO =
     [\<lparr>m_handle = 0, m_start = shared, m_end = shared + 0x1000, m_src = shared, m_flags = TE_READ OR TE_WRITE, m_tpe = Shared\<rparr>,
      \<lparr>m_handle = 0, m_start = sharedRO, m_end = sharedRO + 0x1000, m_src = sharedRO, m_flags = TE_READ, m_tpe = SharedRO\<rparr>]"

text \<open>\<open>printf("%s", p)\<close>\<close>

partial_function (option) print_string :: "memory \<Rightarrow> u64 \<Rightarrow> bytes option" where
  "print_string m p = do { b \<leftarrow> m p; if b = 0 then Some [] else do { bs \<leftarrow> print_string m (p + 1); Some (b # bs) } }"

section \<open>The enclave\<close>

text \<open>The loop reads \<open>msg->message_len\<close> anew in every round; \<open>i++\<close> has no meaning at the greatest \<open>int\<close>.\<close>

partial_function (option) copy_loop :: "u64 \<Rightarrow> u64 \<Rightarrow> u64 \<Rightarrow> u32 \<Rightarrow> memory \<Rightarrow> memory option" where
  "copy_loop p ptr src i m = do {
     n \<leftarrow> get_message_len m p;
     if i < n then do {
       b \<leftarrow> m (src + ucast i);
       _ \<leftarrow> m (ptr + ucast i);
       c_assert (i \<noteq> 0x7fffffff);
       copy_loop p ptr src (i + 1) (m(ptr + ucast i \<mapsto> b)) }
     else Some m }"

definition print_message :: "u64 \<Rightarrow> memory \<Rightarrow> memory option" where
  "print_message source m = do { src \<leftarrow> get_message m source; copy_loop source (reply source) src 0 m }"

definition trusted_entry :: "u64 \<Rightarrow> u64 \<Rightarrow> memory \<Rightarrow> ((u64 \<times> u64) list \<times> memory) option" where
  "trusted_entry ret_handle args m = do {
     let calls = (if args = 0 then [(0x500, 0xbadb1)] else []);
     m \<leftarrow> print_message args m;
     Some (calls @ [(0x999, ret_handle)], m) }"

text \<open>Integers of C: no result when they overflow.\<close>

definition int_add :: "int \<Rightarrow> int \<Rightarrow> int option" where
  "int_add a b = (if - (2 ^ 31) \<le> a + b \<and> a + b < 2 ^ 31 then Some (a + b) else None)"

function fibonnacci :: "int \<Rightarrow> int option" where
  "fibonnacci n = (if n \<le> 0 then Some 0 else if n = 1 then Some 1
     else do { a \<leftarrow> fibonnacci (n - 1); b \<leftarrow> fibonnacci (n - 2); int_add a b })"
  by pat_completeness auto
termination by (relation "measure nat") auto

declare fibonnacci.simps [simp del]

definition fibonnacci_out :: "unit option" where
  "fibonnacci_out = do { _ \<leftarrow> fibonnacci 10; Some () }"

text \<open>The registers rcx and r10 hold the arguments.\<close>

definition encl_start :: "u64 \<Rightarrow> u64 \<Rightarrow> memory \<Rightarrow> ((u64 \<times> u64) list \<times> memory) option" where
  "encl_start c r m = do {
     (calls, m) \<leftarrow> trusted_entry c r m;
     _ \<leftarrow> fibonnacci_out;
     Some (calls @ [(0x500, 0xbedb0b)], m) }"

declare print_string.simps [code] copy_loop.simps [code]

section \<open>What the enclave copies\<close>

text \<open>The bytes \<open>bs\<close> at \<open>a\<close>.\<close>

definition overlay :: "u64 \<Rightarrow> bytes \<Rightarrow> memory \<Rightarrow> memory" where
  "overlay a bs m = (\<lambda>x. if unat (x - a) < length bs then Some (bs ! unat (x - a)) else m x)"

lemma fetch_iff: "fetch m a n = Some bs \<longleftrightarrow> length bs = n \<and> (\<forall>i < n. m (a + of_nat i) = Some (bs ! i))"
  by (auto simp: fetch_def those_Some_iff)

lemma fetch_eq: "(\<And>i. i < n \<Longrightarrow> m' (a + of_nat i) = m (a + of_nat i)) \<Longrightarrow> fetch m' a n = fetch m a n"
  by (auto simp: fetch_def intro!: arg_cong [where f = those])

lemma overlay_behind: "k < 2 ^ 63 \<Longrightarrow> length bs \<le> k \<Longrightarrow> j < 4 \<Longrightarrow> overlay (reply p) bs m (p + 8 + of_nat j) = m (p + 8 + of_nat j)"
proof -
  assume k: "k < 2 ^ 63" "length bs \<le> k" and "j < 4"
  then consider "j = 0" | "j = 1" | "j = 2" | "j = 3" by linarith
  then have "p + 8 + of_nat j - reply p \<in> {- 4, - 3, - 2, - 1}" by cases (simp_all add: reply_def)
  moreover have "\<forall>d \<in> {- 4, - 3, - 2, - 1 :: u64}. 0x8000000000000000 \<le> d" by simp
  ultimately have "0x8000000000000000 \<le> p + 8 + of_nat j - reply p" by blast
  then have "2 ^ 63 \<le> unat (p + 8 + of_nat j - reply p)" by (simp add: word_le_nat_alt)
  then show ?thesis using k by (simp add: overlay_def)
qed

lemma overlay_step:
  assumes "length bs < 2 ^ 63"
  shows "(overlay a bs m)(a + of_nat (length bs) \<mapsto> b) = overlay a (bs @ [b]) m"
proof
  fix x
  have "x = a + of_nat (length bs) \<longleftrightarrow> unat (x - a) = length bs" by (rule offset_eq) (use assms in simp)
  then show "((overlay a bs m)(a + of_nat (length bs) \<mapsto> b)) x = overlay a (bs @ [b]) m x"
    by (auto simp: overlay_def nth_append less_Suc_eq)
qed

lemma copy_loop_ok:
  assumes len: "get_message_len m p = Some n" "n < 0x80000000" and src: "fetch m src (unat n) = Some bs"
    and dst: "\<forall>k < unat n. m (reply p + of_nat k) \<noteq> None"
    and apart: "\<forall>j k. j < unat n \<longrightarrow> k < unat n \<longrightarrow> src + of_nat j \<noteq> reply p + of_nat k"
  shows "k \<le> unat n \<Longrightarrow> copy_loop p (reply p) src (of_nat k) (overlay (reply p) (take k bs) m) = Some (overlay (reply p) bs m)"
proof (induction k rule: inc_induct)
  case base
  have l: "length bs = unat n" using src by (simp add: fetch_iff)
  have "unat n < 2 ^ 31" using len(2) by (simp add: word_less_nat_alt)
  then have "get_message_len (overlay (reply p) bs m) p = get_message_len m p"
    unfolding get_message_len_def by (intro arg_cong [where f = "map_option _"] fetch_eq overlay_behind [of "unat n"]) (use l in auto)
  then show ?case using len(1) l by (subst copy_loop.simps) simp
next
  case (step k)
  have l: "length bs = unat n" "length (take k bs) = k" and k: "k < unat n" using src step.hyps by (auto simp: fetch_iff)
  have n: "unat n < 2 ^ 31" using len(2) by (simp add: word_less_nat_alt)
  let ?m = "overlay (reply p) (take k bs) m"
  have g: "get_message_len ?m p = Some n"
    unfolding len(1) [symmetric] get_message_len_def by (intro arg_cong [where f = "map_option _"] fetch_eq overlay_behind [of k]) (use l k n in auto)
  have i: "unat (of_nat k :: u32) = k" using k n by (simp add: unat_of_nat)
  have u: "ucast (of_nat k :: u32) = (of_nat k :: u64)" using i by (metis of_nat_unat ucast_id unsigned_of_nat)
  have r: "?m (src + of_nat k) = Some (bs ! k)"
  proof -
    have "\<not> unat (src + of_nat k - reply p) < k"
    proof
      assume d: "unat (src + of_nat k - reply p) < k"
      then have "src + of_nat k = reply p + of_nat (unat (src + of_nat k - reply p))" by (simp add: of_nat_unat)
      then show False using apart d k by (meson order.strict_trans)
    qed
    then show ?thesis using src k l(2) by (simp add: overlay_def fetch_iff)
  qed
  obtain y where w: "?m (reply p + of_nat k) = Some y"
  proof -
    have "m (reply p + of_nat k) \<noteq> None" using dst k by blast
    then have "?m (reply p + of_nat k) \<noteq> None" by (simp add: overlay_def)
    then show ?thesis using that by blast
  qed
  have o: "?m(reply p + of_nat k \<mapsto> bs ! k) = overlay (reply p) (take (Suc k) bs) m"
    using overlay_step [of "take k bs" "reply p" m "bs ! k"] l k n by (simp add: take_Suc_conv_app_nth)
  have less: "(of_nat k :: u32) < n" "(of_nat k :: u32) \<noteq> 0x7fffffff" using i k n by (auto simp: word_less_nat_alt)
  have "copy_loop p (reply p) src (of_nat k) ?m = copy_loop p (reply p) src (of_nat k + 1) (?m(reply p + of_nat k \<mapsto> bs ! k))"
    by (subst copy_loop.simps) (simp add: g less u r w)
  also have "\<dots> = Some (overlay (reply p) bs m)" using step.IH o by (simp add: add.commute)
  finally show ?case .
qed

text \<open>C38: the enclave trusts the description that the host gives it.  It copies as many bytes as the host says from wherever
  the host says, its own memory included, to the reply, and changes nothing else; nothing keeps the length below the 30
  bytes of the reply.\<close>

theorem print_message_copies:
  assumes "get_message m p = Some src" and "get_message_len m p = Some n" and "n < 0x80000000"
    and "fetch m src (unat n) = Some bs" and "\<forall>k < unat n. m (reply p + of_nat k) \<noteq> None"
    and "\<forall>j k. j < unat n \<longrightarrow> k < unat n \<longrightarrow> src + of_nat j \<noteq> reply p + of_nat k"
  shows "print_message p m = Some (overlay (reply p) bs m)"
  using copy_loop_ok [OF assms(2-6), of 0] assms(1) by (simp add: print_message_def overlay_def)

text \<open>The host asks for 34 bytes: the two words behind the reply are overwritten with the enclave's bytes.\<close>

definition greedy_memory :: memory where
  "greedy_memory = (\<lambda>x. if x < 8 then Some (put_le 8 (0x2000 :: u64) ! unat x) else if x < 12 then Some (put_le 4 (34 :: u32) ! unat (x - 8))
     else if x < 0x100 then Some 0 else if 0x2000 \<le> x \<and> x < 0x3000 then Some 0x53 else None)"

lemma print_message_copies_witness:
  "print_message 0 greedy_memory = Some (overlay 12 (replicate 34 0x53) greedy_memory)"
proof -
  have len: "get_message_len greedy_memory 0 = Some 34" and src: "get_message greedy_memory 0 = Some 0x2000" by code_simp+
  have "fetch greedy_memory 0x2000 (unat (34 :: u32)) = Some (replicate 34 0x53)" by code_simp
  moreover have "\<forall>k < unat (34 :: u32). greedy_memory (reply 0 + of_nat k) \<noteq> None"
    by (auto simp: greedy_memory_def reply_def word_less_nat_alt unat_of_nat unat_word_ariths)
  moreover have "\<forall>j k. j < unat (34 :: u32) \<longrightarrow> k < unat (34 :: u32) \<longrightarrow> (0x2000 :: u64) + of_nat j \<noteq> reply 0 + of_nat k"
  proof (intro allI impI notI)
    fix j k :: nat assume jk: "j < unat (34 :: u32)" "k < unat (34 :: u32)" and eq: "(0x2000 :: u64) + of_nat j = reply 0 + of_nat k"
    then have "unat ((0x2000 :: u64) + of_nat j) = unat ((12 :: u64) + of_nat k)"
      using arg_cong [OF eq, of unat] by (simp only: reply_def add_0)
    then show False using jk by (simp add: unat_word_ariths unat_of_nat)
  qed
  ultimately have "print_message 0 greedy_memory = Some (overlay (reply 0) (replicate 34 0x53) greedy_memory)"
    by (intro print_message_copies [OF src len]) simp_all
  then show ?thesis by (simp add: reply_def)
qed

section \<open>The exchange\<close>

lemma print_string_fetch: "fetch m p (length bs) = Some bs \<Longrightarrow> 0 \<notin> set bs \<Longrightarrow> m (p + of_nat (length bs)) = Some 0 \<Longrightarrow> print_string m p = Some bs"
proof (induction bs arbitrary: p)
  case Nil
  then show ?case by (subst print_string.simps) simp
next
  case (Cons b bs)
  have at: "m (p + of_nat i) = Some ((b # bs) ! i)" if "i < length (b # bs)" for i using Cons.prems(1) that by (simp add: fetch_iff)
  have "fetch m (p + 1) (length bs) = Some bs" using at [of "Suc i" for i] by (auto simp: fetch_iff add.assoc)
  moreover have "m (p + 1 + of_nat (length bs)) = Some 0" using Cons.prems(3) by (simp add: add.assoc)
  ultimately show ?case using Cons.IH [of "p + 1"] Cons.prems(2) at [of 0] by (subst print_string.simps) simp
qed

lemma store_overlay: "length bs \<le> 2 ^ 64 \<Longrightarrow> \<forall>i < length bs. mem s (a + of_nat i) \<noteq> None \<Longrightarrow> store_bytes a bs s = Some (s\<lparr>mem := overlay a bs (mem s)\<rparr>)"
  by (simp add: store_bytes_ok overlay_def)

lemma overlay_in: "i < length bs \<Longrightarrow> i < 2 ^ 64 \<Longrightarrow> overlay a bs m (a + of_nat i) = Some (bs ! i)"
  by (simp add: overlay_def unat_of_nat)

lemma overlay_out: "\<forall>i < length bs. x \<noteq> a + of_nat i \<Longrightarrow> overlay a bs m x = m x"
proof -
  assume out: "\<forall>i < length bs. x \<noteq> a + of_nat i"
  have "x = a + of_nat (unat (x - a))" by (simp add: of_nat_unat)
  then show ?thesis using out by (auto simp: overlay_def)
qed

lemma length_msg: "length msg = 26" and msg_no_NUL: "0 \<notin> set msg"
  by (simp_all add: msg_def ascii_def)

lemma fib_10: "fibonnacci 10 = Some 55"
  by code_simp

lemma same_offset: "i < 4096 \<Longrightarrow> j < 4096 \<Longrightarrow> (of_nat i :: u64) = of_nat j \<longleftrightarrow> i = j"
  by (simp add: word_unat_eq_iff unat_of_nat)

lemma page_of: "i < 4096 \<Longrightarrow> in_map a 0x1000 (a + of_nat i)"
  by (simp add: in_map_def page_up_def unat_of_nat)

lemma map_page:
  "map_pool s (next_map s) = Some a \<Longrightarrow>
    sys_mmap 0x1000 [] s = (a, s\<lparr>next_map := Suc (next_map s), mem := \<lambda>x. if in_map a 0x1000 x then Some 0 else mem s x\<rparr>)"
  by (simp add: sys_mmap_def Let_def cong: if_cong)

lemma prepare_message_ok:
  assumes maps: "map_pool s (next_map s) = Some a" "map_pool s (Suc (next_map s)) = Some b" "a \<noteq> MAP_FAILED" "b \<noteq> MAP_FAILED"
    and apart: "\<forall>i < 4096. \<forall>j < 4096. a + of_nat i \<noteq> b + of_nat j"
  obtains s1 where "prepare_message s = Some (Some (a, b), s1)" "get_message (mem s1) a = Some b" "get_message_len (mem s1) a = Some 26"
    "fetch (mem s1) b 26 = Some msg" "\<And>i. 12 \<le> i \<Longrightarrow> i < 4096 \<Longrightarrow> mem s1 (a + of_nat i) = Some 0"
proof -
  let ?d = "put_message \<lparr>message = b, message_len = of_nat (length msg)\<rparr>"
  have d: "length ?d = 12" "?d = put_le 8 b @ put_le 4 (26 :: u32)" by (simp_all add: put_message_def length_msg)
  have msg_apart: "x + of_nat i \<noteq> y + of_nat j" if "(x, y) = (a, b) \<or> (x, y) = (b, a)" "i < 4096" "j < 4096" for x y i j
    using apart that by (metis prod.inject)
  define t where "t = s\<lparr>next_map := Suc (next_map s), mem := \<lambda>x. if in_map a 0x1000 x then Some 0 else mem s x\<rparr>"
  define s2 where "s2 = t\<lparr>next_map := Suc (next_map t), mem := \<lambda>x. if in_map b 0x1000 x then Some 0 else mem t x\<rparr>"
  have t: "sys_mmap 0x1000 [] s = (a, t)" "sys_mmap 0x1000 [] t = (b, s2)"
    using map_page [OF maps(1)] map_page [of t b] maps(2) by (simp_all add: t_def s2_def)
  have zero: "mem s2 (a + of_nat i) = Some 0" "mem s2 (b + of_nat i) = Some 0" if "i < 4096" for i
    using page_of [OF that] by (simp_all add: s2_def t_def)
  let ?m = "overlay a ?d (overlay b msg (mem s2))"
  have st: "store_bytes b msg s2 = Some (s2\<lparr>mem := overlay b msg (mem s2)\<rparr>)"
    by (rule store_overlay) (use zero(2) in \<open>simp_all add: length_msg\<close>)
  have "overlay b msg (mem s2) (a + of_nat i) \<noteq> None" if "i < 12" for i
    using that zero(1) [of i] by (simp add: overlay_def)
  then have st2: "store_bytes a ?d (s2\<lparr>mem := overlay b msg (mem s2)\<rparr>) = Some (s2\<lparr>mem := ?m\<rparr>)"
    using store_overlay [of ?d "s2\<lparr>mem := overlay b msg (mem s2)\<rparr>" a] d(1) by simp
  have prep: "prepare_message s = Some (Some (a, b), s2\<lparr>mem := ?m\<rparr>)"
    using maps(3,4) by (simp add: prepare_message_def t st st2)
  have at_d: "?m (a + of_nat i) = Some (?d ! i)" if "i < 12" for i by (rule overlay_in) (use that d(1) in auto)
  have at_0: "?m (a + of_nat i) = Some 0" if "12 \<le> i" "i < 4096" for i
  proof -
    have "?m (a + of_nat i) = overlay b msg (mem s2) (a + of_nat i)"
      by (rule overlay_out) (use that d(1) in \<open>simp add: same_offset\<close>)
    also have "\<dots> = mem s2 (a + of_nat i)" by (rule overlay_out) (use msg_apart that in \<open>simp add: length_msg\<close>)
    finally show ?thesis using zero(1) [OF that(2)] by simp
  qed
  have at_msg: "?m (b + of_nat i) = Some (msg ! i)" if "i < 26" for i
  proof -
    have "?m (b + of_nat i) = overlay b msg (mem s2) (b + of_nat i)"
      by (rule overlay_out) (use msg_apart that d(1) in simp)
    then show ?thesis using overlay_in [of i msg b] that by (simp add: length_msg)
  qed
  have "fetch ?m a 8 = Some (put_le 8 b)" using at_d by (simp add: fetch_iff d(2) nth_append)
  then have src: "get_message ?m a = Some b" by (simp add: get_message_def le_here)
  have "?m (a + 8 + of_nat i) = Some (put_le 4 (26 :: u32) ! i)" if "i < 4" for i
    using at_d [of "8 + i"] that by (simp add: d(2) nth_append add.assoc)
  then have "fetch ?m (a + 8) 4 = Some (put_le 4 (26 :: u32))" by (simp add: fetch_iff)
  then have len: "get_message_len ?m a = Some 26" by (simp add: get_message_len_def le_here)
  have "fetch ?m b 26 = Some msg" using at_msg by (simp add: fetch_iff length_msg)
  then show ?thesis using that [of "s2\<lparr>mem := ?m\<rparr>"] prep src len at_0 by simp
qed

text \<open>C37: two fresh pages hold what the host prepares.  The enclave that is entered with the first as its argument answers,
  returns to the host and stops; the host then prints exactly its own message as the reply, and nothing else in memory has
  changed.\<close>

theorem message_exchange:
  assumes maps: "map_pool s (next_map s) = Some a" "map_pool s (Suc (next_map s)) = Some b" "a \<noteq> MAP_FAILED" "b \<noteq> MAP_FAILED" "a \<noteq> 0"
    and apart: "\<forall>i < 4096. \<forall>j < 4096. a + of_nat i \<noteq> b + of_nat j"
  shows "\<exists>s1 m. prepare_message s = Some (Some (a, b), s1) \<and> encl_start ret a (mem s1) = Some ([(0x999, ret), (0x500, 0xbedb0b)], m) \<and>
    print_string m (reply a) = Some msg \<and> (\<forall>x. (\<forall>i < 26. x \<noteq> reply a + of_nat i) \<longrightarrow> m x = mem s1 x)"
proof -
  obtain s1 where prep: "prepare_message s = Some (Some (a, b), s1)" and src: "get_message (mem s1) a = Some b"
      and len: "get_message_len (mem s1) a = Some 26" and at_msg: "fetch (mem s1) b 26 = Some msg"
      and at_0: "\<And>i. 12 \<le> i \<Longrightarrow> i < 4096 \<Longrightarrow> mem s1 (a + of_nat i) = Some 0"
    using prepare_message_ok [OF maps(1-4) apart] by blast
  let ?m = "mem s1"
  have r: "reply a + of_nat i = a + of_nat (12 + i)" for i by (simp add: reply_def add.assoc)
  let ?m' = "overlay (reply a) msg ?m"
  have pm: "print_message a ?m = Some ?m'"
  proof (rule print_message_copies [OF src len])
    show "fetch ?m b (unat (26 :: u32)) = Some msg" using at_msg by simp
    show "\<forall>k < unat (26 :: u32). ?m (reply a + of_nat k) \<noteq> None" using at_0 by (simp add: r del: of_nat_add)
    show "\<forall>j k. j < unat (26 :: u32) \<longrightarrow> k < unat (26 :: u32) \<longrightarrow> b + of_nat j \<noteq> reply a + of_nat k"
    proof (intro allI impI)
      fix j k assume "j < unat (26 :: u32)" "k < unat (26 :: u32)"
      then have "12 + k < 4096" "j < 4096" by simp_all
      then show "b + of_nat j \<noteq> reply a + of_nat k" using apart unfolding r by metis
    qed
  qed simp
  have "encl_start ret a ?m = Some ([(0x999, ret), (0x500, 0xbedb0b)], ?m')"
    using maps(5) pm by (simp add: encl_start_def trusted_entry_def fibonnacci_out_def fib_10)
  moreover have "print_string ?m' (reply a) = Some msg"
  proof (rule print_string_fetch [OF _ msg_no_NUL])
    show "fetch ?m' (reply a) (length msg) = Some msg" by (simp add: fetch_iff overlay_in length_msg)
    have e: "reply a + of_nat (length msg) = a + of_nat 38" by (simp add: reply_def length_msg)
    have "a + of_nat 38 \<noteq> reply a + of_nat i" if "i < 26" for i
      using same_offset [of 38 "12 + i"] that unfolding r by simp
    then have "?m' (a + of_nat 38) = ?m (a + of_nat 38)" by (intro overlay_out) (simp add: length_msg)
    then show "?m' (reply a + of_nat (length msg)) = Some 0" unfolding e using at_0 [of 38] by simp
  qed
  moreover have "\<forall>x. (\<forall>i < 26. x \<noteq> reply a + of_nat i) \<longrightarrow> ?m' x = ?m x" using overlay_out length_msg by metis
  ultimately show ?thesis using prep by blast
qed

lemma message_exchange_witness:
  "\<exists>s1 m. prepare_message \<lparr>filesys = Map.empty, fds = Map.empty, fstat_ok = True, blocks = {}, next_block = 0, no_mem = (\<lambda>_. False), mem = Map.empty,
      map_pool = (\<lambda>n. Some (if n = 0 then 0x10000 else 0x20000)), next_map = 0, munmap_ok = \<lambda>_. True, close_ok = \<lambda>_. True, dev_ok = True, dev = ()\<rparr> = Some (Some (0x10000, 0x20000), s1) \<and>
    encl_start 7 0x10000 (mem s1) = Some ([(0x999, 7), (0x500, 0xbedb0b)], m) \<and> print_string m (reply 0x10000) = Some msg"
proof -
  have "(0x10000 :: u64) + of_nat i \<noteq> 0x20000 + of_nat j" if "i < 4096" "j < 4096" for i j
  proof
    assume eq: "(0x10000 :: u64) + of_nat i = 0x20000 + of_nat j"
    show False using arg_cong [OF eq, of unat] that by (simp add: unat_word_ariths unat_of_nat)
  qed
  then show ?thesis
    using message_exchange [of "\<lparr>filesys = Map.empty, fds = Map.empty, fstat_ok = True, blocks = {}, next_block = 0,
      no_mem = (\<lambda>_. False), mem = Map.empty, map_pool = (\<lambda>n. Some (if n = 0 then 0x10000 else 0x20000)), next_map = 0, munmap_ok = \<lambda>_. True, close_ok = \<lambda>_. True, dev_ok = True,
      dev = ()\<rparr>" "0x10000" "0x20000" 7] by auto
qed

end
