(* ===== verification/Spec2Isabelle.thy ===== *)
theory Spec2Isabelle
  imports Dll_Theorems Capability_Theorems Enclave_Theorems Walk_Theorems Mapper_Theorems Driver_Theorems Loader_Mapping Math_Theorems Math_Recursion Hash_Sha512 Hash_Sponge Base_Theorems Cksum Dll_Tests Trusted_Enclave
begin

text \<open>
  A verification library for the software of the tyche Linux image.

  The image runs Linux as the first domain of a capability monitor (``tyche'').  The repository's own code is the
  capability library, the enclave driver that uses it in the kernel, the page-table library, and in user space the ELF
  reader and the loader of enclaves; BusyBox 1.35.0 gives the image its shell and tools.  The parts interact so:
  a program calls the loader (\<open>programs/libs/enclave/loader\<close>), which reads an ELF file and talks to the driver by
  ioctls; the driver (\<open>modules/libraries/enclave\<close>) keeps enclaves, their regions and physical pages, builds their page
  tables with the page-table library and asks the capability library, by way of the module
  \<open>modules/libraries/tyche-capabilities\<close>, to carve the pages out of its own memory and grant them; the capability
  library (\<open>programs/libs/capabilities\<close>) mirrors the monitor's capabilities in lists of structs and reaches the monitor
  with hypercalls.

  Conventions (\<open>Prelude\<close>).  Machine integers are words of the width of the C types.  A struct is a record, a heap is one
  partial map per type of struct, and a pointer is an address, NULL is \<open>None\<close>.  An operation is a function on the state that
  returns an option: \<open>None\<close> is a fault (a NULL or dangling pointer, a failed assertion, or a loop that does not end), so a
  theorem that says ``returns \<open>Some\<close>'' excludes them.  Error codes are values of the result.  Loops over pointers are
  \<open>partial_function (option)\<close>, loops over counters are \<open>function\<close>s with a measure; no fuel is used, except for the depth of
  the nesting of shell variables, where \<open>arith_always_answers\<close> shows which depth is enough.

  Theories and the code they model.
  \<^item> Lists, \<open>programs/libs/dll/include/dll.h\<close>.  \<open>Dll\<close> has every macro on a map of links, the well-formedness \<open>dll\<close> of a list
    and the locale of the list contract; \<open>Dll_Theorems\<close> says what insertion, removal and search do, on both directions.
  \<^item> Capability library, \<open>programs/libs/capabilities\<close>.  \<open>Tyche_Api\<close> has the hypercall wrappers of \<open>tyche_api.c\<close> and
    \<open>ecs.c\<close> over an arbitrary monitor; \<open>Capabilities\<close> has \<open>lib.c\<close> and the kernel module's forwarders.  \<open>Capability_Spec\<close> is the
    specification without the heap: the abstract domain, a list of capabilities with their handles, with its steps and
    invariants, and the functions \<open>a_transfer\<close>, \<open>a_revoke\<close> and \<open>a_init\<close> that say what every call does to that list, with
    which registers it asks the monitor (\<open>ask\<close>), and what is left when it is refused or memory is short.
    \<open>Capability_Refinement\<close> relates the heap to the list and shows that allocation, the list macros, splitting and transfer
    compute the specification; \<open>Capability_Init\<close> and \<open>Capability_Revoke\<close> show it of start-up and revocation;
    \<open>Capability_Theorems\<close> collects the properties.
  \<^item> Enclave driver, \<open>modules/libraries/enclave\<close>.  \<open>Enclave_State\<close> has the messages and structs; \<open>Enclave\<close> has the
    bookkeeping of \<open>enclave.c\<close>; \<open>Merge_List\<close>, \<open>Merge_Heap\<close>, \<open>Enclave_Lists\<close> and \<open>Enclave_Insert\<close> prove the two sorted
    merging insertions once for both lists, \<open>Enclave_Theorems\<close> states them.  \<open>Process\<close> and \<open>Collect\<close> are \<open>process.c\<close> and its
    specification on lists; \<open>Enclave_Driver\<close> has commit, deletion and transition with \<open>dbg.c\<close>; \<open>Driver_Module\<close> has
    \<open>ioctl.c\<close> and \<open>driver.c\<close>.  \<open>Driver_Frame\<close> and \<open>Driver_Delete\<close> say what the operations leave alone and what deletion
    frees, \<open>Driver_Theorems\<close> lifts them to all states that sequences of ioctls reach.
  \<^item> Page tables, \<open>programs/libs/pts\<close> and \<open>mapper.c\<close>.  \<open>Page_Tables\<close> has the walker with its labels and the x86-64
    profile, \<open>Page_Walk\<close> and \<open>Page_Tree\<close> its invariants and the tree that the tables form, \<open>Pts_Test\<close> the simulation in
    \<open>tests/test.c\<close>, \<open>Walk_Theorems\<close> the properties; a walk ends on every set of tables closed under the entries it
    follows, shared or cyclic ones included.  \<open>Mapper\<close> has \<open>mapper.c\<close>; \<open>Mapper_Alloc\<close>, \<open>Mapper_Map\<close> and \<open>Mapper_Build\<close>
    show step by step that the tables translate the regions, \<open>Mapper_Theorems\<close> states it.
  \<^item> Loader, \<open>programs/libs/elf64\<close> and \<open>programs/libs/enclave/loader\<close>.  \<open>User_Process\<close> is the process: files, descriptors,
    memory blocks, the driver behind an ioctl, and the answers of the kernel, which may refuse \<open>mmap\<close>, \<open>munmap\<close> and
    report an error from \<open>close\<close>.  \<open>Elf64\<close> with \<open>Elf64_Theorems\<close>, \<open>Loader\<close> with \<open>Loader_Theorems\<close> and
    \<open>Loader_Mapping\<close>: the tables read back, the protocol with the driver, descriptors and memory.
  \<^item> Around them.  \<open>Dll_Tests\<close> is the test program \<open>programs/libs/dll/tests/main.c\<close>: its tests succeed, and its copy of
    the driver's \<open>add_merge_global\<close> computes the same lists.  \<open>Trusted_Enclave\<close> is the example \<open>programs/user/enclave\<close>: what
    the host shares, and the code that runs inside the enclave on it.
  \<^item> Shell arithmetic, BusyBox \<open>shell/math.c\<close>.  \<open>Shell_Math\<close> is the evaluator with its two stacks at their capacity;
    \<open>Math_Expressions\<close> has expression trees and their texts, \<open>Math_Theorems\<close> evaluates them; \<open>Math_States\<close> types the states
    of the scanner; \<open>Math_Recursion\<close> bounds the nesting of variables.
  \<^item> Message digests, BusyBox \<open>libbb/hash_md5_sha.c\<close>.  \<open>Hash_Context\<close> has the contexts and word operations; \<open>Hash_Md5\<close>,
    \<open>Hash_Sha1\<close>, \<open>Hash_Sha2\<close> and \<open>Hash_Sha3\<close> have the block functions and prove them equal to the definitions of RFC 1321,
    FIPS 180 and FIPS 202; the locales of \<open>Hash_Stream\<close> treat the collection and padding of a message once,
    \<open>Hash_Digest\<close>, \<open>Hash_Sha512\<close> and \<open>Hash_Sponge\<close> interpret them; the sponge there squeezes any number of bytes, with a
    permutation between two blocks.
  \<^item> Encodings, BusyBox \<open>libbb/uuencode.c\<close> and \<open>coreutils/uudecode.c\<close>.  \<open>Base_Codec\<close> encodes and decodes base64 and
    base32 in place in an array, \<open>Base_Applet\<close> has the stream decoder and the applets; \<open>Base_Encode\<close> and \<open>Base_Decode\<close>
    relate base64 to functions on lists, \<open>Base_Theorems\<close> composes them to the round trip of the applet.
  \<^item> Checks, BusyBox \<open>libbb/crc32.c\<close> and \<open>coreutils/cksum.c\<close>.  \<open>Crc32\<close> proves the table-driven block functions equal to
    the shift register, \<open>Cksum\<close> has the applets \<open>cksum\<close> and \<open>crc32\<close>.

  Parameters.  The monitor (\<open>vmcall\<close>), the allocators' answers, the page walker of Linux, \<open>virt_to_phys\<close>, system calls'
  results and the driver as the loader sees it are arguments of the definitions; hypotheses about them are premises
  of the theorems that need them.

  Not modelled.  Logging and the text of error messages.  Concurrency: the driver and the library take no locks, so every
  call is one step.  The other programs of \<open>programs/user\<close>, the tests of the ELF
  library and of the loader, and the runtime of the enclaves are straight-line clients and assembly.  Of the
  BusyBox sources only the parts above are modelled: most applets are input and output around the C library,
  and \<open>builds\<close> holds generated configurations and headers.  The scripts, templates and images have no code of the program.
\<close>

end
